(* ===== verification/Prelude.thy ===== *)
theory Prelude
  imports
    Main
    "HOL-Library.Word"
    "HOL-Library.AList"
    "HOL-Library.List_Lexorder"
    "HOL-Library.Product_Lexorder"
begin

text \<open>
  Shared vocabulary of the development: bytes, Rust strings, fallible results, keyed tables,
  saturating 64-bit arithmetic, and the contracts (locales) that several components provide.

  \<^item> A Rust \<open>String\<close> is the list of its Unicode scalar values (\<open>chars()\<close>), so
    \<open>chars().count()\<close> is the list's length and \<open>len()\<close>, the UTF-8 length in bytes, is
    \<open>str_len\<close>. Comparing two strings bytewise, as Rust does, is comparing the scalar values
    lexicographically, which is the order of \<^verbatim>\<open>HOL-Library.List_Lexorder\<close>.
  \<^item> A \<open>Result<T, E>\<close> is a value of \<open>'e + 't\<close>, \<open>Inl\<close> for the error; \<open>and_then\<close> is
    the question-mark operator.
  \<^item> A \<open>HashMap\<close> and a SQLite table with a primary key are association lists with distinct
    keys (\<open>table_ok\<close>).
\<close>

named_theorems result_simps "results: how errors and values propagate"
named_theorems table_simps "keyed tables: lookups after an update"

section \<open>Types\<close>

type_synonym byte = "8 word"
type_synonym bytes = "byte list"
type_synonym u16 = "16 word"
type_synonym u32 = "32 word"
type_synonym u64 = "64 word"
type_synonym uuid = "128 word"
type_synonym rchar = nat
type_synonym rstring = "rchar list"

section \<open>Results\<close>

fun and_then :: "'e + 'a \<Rightarrow> ('a \<Rightarrow> 'e + 'b) \<Rightarrow> 'e + 'b" where
  "and_then (Inl e) f = Inl e"
| "and_then (Inr x) f = f x"

fun map_err :: "('e \<Rightarrow> 'f) \<Rightarrow> 'e + 'a \<Rightarrow> 'f + 'a" where
  "map_err g (Inl e) = Inl (g e)"
| "map_err g (Inr x) = Inr x"

fun ok_or :: "'e \<Rightarrow> 'a option \<Rightarrow> 'e + 'a" where
  "ok_or e None = Inl e"
| "ok_or e (Some x) = Inr x"

fun to_option :: "'e + 'a \<Rightarrow> 'a option" where
  "to_option (Inl e) = None"
| "to_option (Inr x) = Some x"

fun is_ok :: "'e + 'a \<Rightarrow> bool" where
  "is_ok (Inl e) = False"
| "is_ok (Inr x) = True"

text \<open>\<open>iter().map(f).collect::<Result<Vec<_>>>()\<close>: the first error stops the collection.\<close>

fun collect_results :: "('a \<Rightarrow> 'e + 'b) \<Rightarrow> 'a list \<Rightarrow> 'e + 'b list" where
  "collect_results f [] = Inr []"
| "collect_results f (x # xs) =
     and_then (f x) (\<lambda>y. and_then (collect_results f xs) (\<lambda>ys. Inr (y # ys)))"

text \<open>A check that returns no value: \<open>Err(e)\<close> when the condition fails.\<close>

definition ensure :: "bool \<Rightarrow> 'e \<Rightarrow> 'e + unit" where
  "ensure b e = (if b then Inr () else Inl e)"

lemma and_then_Inr_iff [result_simps]:
  "and_then m f = Inr y \<longleftrightarrow> (\<exists>x. m = Inr x \<and> f x = Inr y)"
  by (cases m) auto

lemma and_then_Inl_iff [result_simps]:
  "and_then m f = Inl e \<longleftrightarrow> m = Inl e \<or> (\<exists>x. m = Inr x \<and> f x = Inl e)"
  by (cases m) auto

lemma map_err_Inr_iff [result_simps]: "map_err g m = Inr y \<longleftrightarrow> m = Inr y"
  by (cases m) auto

lemma map_err_Inl_iff [result_simps]: "map_err g m = Inl f \<longleftrightarrow> (\<exists>e. m = Inl e \<and> f = g e)"
  by (cases m) auto

lemma ok_or_Inr_iff [result_simps]: "ok_or e m = Inr y \<longleftrightarrow> m = Some y"
  by (cases m) auto

lemma ok_or_Inl_iff [result_simps]: "ok_or e m = Inl f \<longleftrightarrow> m = None \<and> f = e"
  by (cases m) auto

lemma to_option_Some_iff [result_simps]: "to_option m = Some y \<longleftrightarrow> m = Inr y"
  by (cases m) auto

lemma to_option_None_iff [result_simps]: "to_option m = None \<longleftrightarrow> (\<exists>e. m = Inl e)"
  by (cases m) auto

lemma ensure_Inr_iff [result_simps]: "ensure b e = Inr u \<longleftrightarrow> b"
  by (simp add: ensure_def)

lemma ensure_Inl_iff [result_simps]: "ensure b e = Inl f \<longleftrightarrow> \<not> b \<and> f = e"
  by (auto simp: ensure_def)

lemma is_ok_iff [result_simps]: "is_ok m \<longleftrightarrow> (\<exists>x. m = Inr x)"
  by (cases m) auto

lemma ensure_simps [simp]: "ensure True e = Inr ()" "ensure False e = Inl e"
  by (simp_all add: ensure_def)

lemma collect_results_Inr_iff:
  "collect_results f xs = Inr ys \<longleftrightarrow> list_all2 (\<lambda>x y. f x = Inr y) xs ys"
  by (induction xs arbitrary: ys) (auto simp: result_simps list_all2_Cons1)

lemma collect_results_length: "collect_results f xs = Inr ys \<Longrightarrow> length ys = length xs"
  by (auto simp: collect_results_Inr_iff dest: list_all2_lengthD)

lemma collect_results_set:
  "collect_results f xs = Inr ys \<Longrightarrow> y \<in> set ys \<Longrightarrow> \<exists>x\<in>set xs. f x = Inr y"
  by (fastforce simp: collect_results_Inr_iff list_all2_conv_all_nth in_set_conv_nth)

lemma collect_results_fixed:
  "(\<And>x. x \<in> set xs \<Longrightarrow> f x = Inr x) \<Longrightarrow> collect_results f xs = Inr xs"
  by (induction xs) auto

lemma sum_split_result:
  "P (case m of Inl e \<Rightarrow> f e | Inr x \<Rightarrow> g x) \<longleftrightarrow>
     (\<forall>e. m = Inl e \<longrightarrow> P (f e)) \<and> (\<forall>x. m = Inr x \<longrightarrow> P (g x))"
  by (cases m) auto

section \<open>Rust strings\<close>

definition str :: "string \<Rightarrow> rstring" where
  "str s = map of_char s"

definition utf8_len :: "rchar \<Rightarrow> nat" where
  "utf8_len c = (if c < 128 then 1 else if c < 2048 then 2 else if c < 65536 then 3 else 4)"

definition str_len :: "rstring \<Rightarrow> nat" where
  "str_len s = sum_list (map utf8_len s)"

text \<open>\<open>char::is_whitespace\<close>: the code points with the Unicode property White_Space.\<close>

definition is_whitespace :: "rchar \<Rightarrow> bool" where
  "is_whitespace c \<longleftrightarrow> (9 \<le> c \<and> c \<le> 13) \<or> c = 32 \<or> c = 133 \<or> c = 160 \<or> c = 5760 \<or>
     (8192 \<le> c \<and> c \<le> 8202) \<or> c = 8232 \<or> c = 8233 \<or> c = 8239 \<or> c = 8287 \<or> c = 12288"

text \<open>\<open>char::is_control\<close>: the code points of general category Cc.\<close>

definition is_control :: "rchar \<Rightarrow> bool" where
  "is_control c \<longleftrightarrow> c < 32 \<or> (127 \<le> c \<and> c < 160)"

definition is_ascii_digit :: "rchar \<Rightarrow> bool" where
  "is_ascii_digit c \<longleftrightarrow> 48 \<le> c \<and> c \<le> 57"

definition is_ascii :: "rstring \<Rightarrow> bool" where
  "is_ascii s \<longleftrightarrow> (\<forall>c\<in>set s. c < 128)"

definition to_ascii_uppercase :: "rchar \<Rightarrow> rchar" where
  "to_ascii_uppercase c = (if 97 \<le> c \<and> c \<le> 122 then c - 32 else c)"

definition to_ascii_lowercase :: "rchar \<Rightarrow> rchar" where
  "to_ascii_lowercase c = (if 65 \<le> c \<and> c \<le> 90 then c + 32 else c)"

definition eq_ignore_ascii_case :: "rstring \<Rightarrow> rstring \<Rightarrow> bool" where
  "eq_ignore_ascii_case a b \<longleftrightarrow> map to_ascii_lowercase a = map to_ascii_lowercase b"

definition trim_start :: "rstring \<Rightarrow> rstring" where
  "trim_start s = dropWhile is_whitespace s"

definition trim_end :: "rstring \<Rightarrow> rstring" where
  "trim_end s = rev (dropWhile is_whitespace (rev s))"

definition trim :: "rstring \<Rightarrow> rstring" where
  "trim s = trim_end (trim_start s)"

definition starts_with :: "rstring \<Rightarrow> rstring \<Rightarrow> bool" where
  "starts_with p s \<longleftrightarrow> take (length p) s = p"

text \<open>\<open>trimmed s\<close>: neither end of \<open>s\<close> is white space.\<close>

definition trimmed :: "rstring \<Rightarrow> bool" where
  "trimmed s \<longleftrightarrow> s = [] \<or> (\<not> is_whitespace (hd s) \<and> \<not> is_whitespace (last s))"

lemma trimmed_fixed: "trimmed s \<Longrightarrow> trim s = s"
proof -
  assume s: "trimmed s"
  then have "dropWhile is_whitespace s = s" and "dropWhile is_whitespace (rev s) = rev s"
    by (auto simp: trimmed_def dropWhile_eq_self_iff hd_rev)
  then show ?thesis by (simp add: trim_def trim_start_def trim_end_def)
qed

lemma trim_end_prefix: "\<exists>t. s = trim_end s @ t \<and> (\<forall>c\<in>set t. is_whitespace c)"
proof (intro exI conjI)
  show "s = trim_end s @ rev (takeWhile is_whitespace (rev s))"
    by (metis rev_append rev_rev_ident takeWhile_dropWhile_id trim_end_def)
  show "\<forall>c\<in>set (rev (takeWhile is_whitespace (rev s))). is_whitespace c"
    by (auto dest: set_takeWhileD)
qed

lemma last_trim_end: "trim_end s \<noteq> [] \<Longrightarrow> \<not> is_whitespace (last (trim_end s))"
  by (simp add: trim_end_def last_rev hd_dropWhile)

lemma hd_trim_start: "trim_start s \<noteq> [] \<Longrightarrow> \<not> is_whitespace (hd (trim_start s))"
  by (simp add: trim_start_def hd_dropWhile)

lemma trimmed_trim [simp]: "trimmed (trim s)"
proof (cases "trim s = []")
  case False
  obtain t where t: "trim_start s = trim s @ t"
    using trim_end_prefix [of "trim_start s"] by (auto simp: trim_def)
  then have "trim_start s \<noteq> []" and "hd (trim s) = hd (trim_start s)"
    using False by auto
  then have "\<not> is_whitespace (hd (trim s))"
    using hd_trim_start by simp
  moreover have "\<not> is_whitespace (last (trim s))"
    using False last_trim_end by (simp add: trim_def)
  ultimately show ?thesis by (simp add: trimmed_def)
qed (simp add: trimmed_def)

lemma trim_trim [simp]: "trim (trim s) = trim s"
  by (rule trimmed_fixed) simp

lemma set_trim_end: "set (trim_end s) \<subseteq> set s"
  by (auto simp: trim_end_def dest: set_dropWhileD)

lemma set_trim: "set (trim s) \<subseteq> set s"
  using set_trim_end [of "trim_start s"] by (auto simp: trim_def trim_start_def dest: set_dropWhileD)

lemma trim_Nil [simp]: "trim [] = []"
  by (simp add: trim_def trim_start_def trim_end_def)

lemma trim_eq_Nil_iff: "trim s = [] \<longleftrightarrow> (\<forall>c\<in>set s. is_whitespace c)"
proof
  assume "trim s = []"
  then have "\<forall>c\<in>set (trim_start s). is_whitespace c"
    using trim_end_prefix [of "trim_start s"] by (auto simp: trim_def)
  then have "trim_start s = []"
    using hd_trim_start [of s] by (metis list.set_sel(1))
  then show "\<forall>c\<in>set s. is_whitespace c" by (simp add: trim_start_def)
next
  assume "\<forall>c\<in>set s. is_whitespace c"
  then have "trim_start s = []" by (simp add: trim_start_def)
  then show "trim s = []" by (simp add: trim_def trim_end_def)
qed

lemma utf8_len_pos: "1 \<le> utf8_len c" and utf8_len_le: "utf8_len c \<le> 4"
  by (simp_all add: utf8_len_def)

lemma str_len_Nil [simp]: "str_len [] = 0"
  and str_len_Cons [simp]: "str_len (c # s) = utf8_len c + str_len s"
  and str_len_append [simp]: "str_len (s @ t) = str_len s + str_len t"
  by (simp_all add: str_len_def)

lemma length_le_str_len: "length s \<le> str_len s"
proof (induction s)
  case (Cons c s)
  then show ?case using utf8_len_pos [of c] by simp
qed simp

lemma str_len_ascii: "\<forall>c\<in>set s. c < 128 \<Longrightarrow> str_len s = length s"
  by (induction s) (auto simp: utf8_len_def)

lemma str_len_trim_le: "str_len (trim s) \<le> str_len s"
proof -
  obtain t u where "trim_start s = trim s @ t" and "s = u @ trim_start s"
    using trim_end_prefix [of "trim_start s"] takeWhile_dropWhile_id [of is_whitespace s]
    by (metis trim_def trim_start_def)
  then show ?thesis by (metis le_add1 le_add2 order_trans str_len_append)
qed

lemma digit_is_ascii: "is_ascii_digit c \<Longrightarrow> c < 128"
  by (simp add: is_ascii_digit_def)

lemma digit_not_whitespace: "is_ascii_digit c \<Longrightarrow> \<not> is_whitespace c"
  by (auto simp: is_ascii_digit_def is_whitespace_def)

lemma digit_not_control: "is_ascii_digit c \<Longrightarrow> \<not> is_control c"
  by (auto simp: is_ascii_digit_def is_control_def)

lemma to_ascii_uppercase_cases:
  obtains "to_ascii_uppercase c = c" "\<not> (97 \<le> c \<and> c \<le> 122)"
  | d where "c = d + 32" "to_ascii_uppercase c = d" "65 \<le> d" "d \<le> 90"
proof (cases "97 \<le> c \<and> c \<le> 122")
  case True
  then have "c = (c - 32) + 32" "to_ascii_uppercase c = c - 32" "65 \<le> c - 32" "c - 32 \<le> 90"
    by (auto simp: to_ascii_uppercase_def)
  then show thesis by (rule that(2))
qed (auto simp: to_ascii_uppercase_def intro: that)

lemma uppercase_idem [simp]: "to_ascii_uppercase (to_ascii_uppercase c) = to_ascii_uppercase c"
  by (cases c rule: to_ascii_uppercase_cases) (auto simp: to_ascii_uppercase_def)

lemma letter_not_whitespace: "65 \<le> c \<Longrightarrow> c \<le> 90 \<Longrightarrow> \<not> is_whitespace c"
  by (simp add: is_whitespace_def)

text \<open>Facts that evaluate string functions on literals.\<close>

lemmas text_eval =
  str_def trim_def trim_start_def trim_end_def is_whitespace_def is_control_def starts_with_def
  utf8_len_def to_ascii_uppercase_def to_ascii_lowercase_def is_ascii_digit_def

section \<open>64-bit integers that saturate\<close>

definition i64_min :: int where "i64_min = - (2 ^ 63)"
definition i64_max :: int where "i64_max = 2 ^ 63 - 1"

definition in_i64 :: "int \<Rightarrow> bool" where
  "in_i64 x \<longleftrightarrow> i64_min \<le> x \<and> x \<le> i64_max"

definition sat64 :: "int \<Rightarrow> int" where
  "sat64 x = max i64_min (min i64_max x)"

definition saturating_sub :: "int \<Rightarrow> int \<Rightarrow> int" where
  "saturating_sub a b = sat64 (a - b)"

definition saturating_add :: "int \<Rightarrow> int \<Rightarrow> int" where
  "saturating_add a b = sat64 (a + b)"

lemmas i64_defs = i64_min_def i64_max_def in_i64_def sat64_def saturating_sub_def saturating_add_def

lemma in_i64_sat64 [simp]: "in_i64 (sat64 x)"
  by (simp add: i64_defs)

lemma sat64_id: "in_i64 x \<Longrightarrow> sat64 x = x"
  by (simp add: i64_defs)

lemma sat64_mono: "x \<le> y \<Longrightarrow> sat64 x \<le> sat64 y"
  by (auto simp: sat64_def)

text \<open>Below the type's bounds a saturated value compares with a bound as the exact value does.\<close>

lemma sat64_le_iff: "i64_min \<le> b \<Longrightarrow> b < i64_max \<Longrightarrow> sat64 x \<le> b \<longleftrightarrow> x \<le> b"
  by (auto simp: i64_defs)

lemma sat64_ge_iff: "i64_min < b \<Longrightarrow> b \<le> i64_max \<Longrightarrow> b \<le> sat64 x \<longleftrightarrow> b \<le> x"
  by (auto simp: i64_defs)

section \<open>Big-endian bytes\<close>

fun be_bytes :: "nat \<Rightarrow> nat \<Rightarrow> bytes" where
  "be_bytes 0 x = []"
| "be_bytes (Suc n) x = be_bytes n (x div 256) @ [of_nat (x mod 256)]"

definition be_value :: "bytes \<Rightarrow> nat" where
  "be_value bs = foldl (\<lambda>a b. a * 256 + unat b) 0 bs"

lemma length_be_bytes [simp]: "length (be_bytes n x) = n"
  by (induction n arbitrary: x) auto

lemma be_value_snoc [simp]: "be_value (bs @ [b]) = be_value bs * 256 + unat b"
  by (simp add: be_value_def)

lemma unat_of_nat_byte: "x < 256 \<Longrightarrow> unat (of_nat x :: byte) = x"
  by (simp add: unat_of_nat)

lemma be_value_be_bytes: "x < 256 ^ n \<Longrightarrow> be_value (be_bytes n x) = x"
proof (induction n arbitrary: x)
  case 0
  then show ?case by (simp add: be_value_def)
next
  case (Suc n)
  have "x div 256 < 256 ^ n"
    using Suc.prems by (simp add: less_mult_imp_div_less mult.commute)
  then have "be_value (be_bytes n (x div 256)) = x div 256" by (rule Suc.IH)
  moreover have "unat (of_nat (x mod 256) :: byte) = x mod 256"
    by (rule unat_of_nat_byte) simp
  ultimately show ?case by (simp del: of_nat_mod)
qed

lemma be_bytes_be_value: "length bs = n \<Longrightarrow> be_bytes n (be_value bs) = bs"
proof (induction bs arbitrary: n rule: rev_induct)
  case (snoc b bs)
  have "unat b < 256" using unsigned_less [of b] by simp
  moreover from this have "of_nat ((be_value bs * 256 + unat b) mod 256) = b"
    by (metis mod_less mod_mult_self3 of_nat_unat ucast_id)
  ultimately show ?case using snoc by (auto simp del: of_nat_mod)
qed simp

lemma be_value_bound: "be_value bs < 256 ^ length bs"
proof (induction bs rule: rev_induct)
  case (snoc b bs)
  have "unat b < 256" using unsigned_less [of b] by simp
  with snoc show ?case by simp
qed (simp add: be_value_def)

definition uuid_bytes :: "uuid \<Rightarrow> bytes" where
  "uuid_bytes u = be_bytes 16 (unat u)"

lemma length_uuid_bytes [simp]: "length (uuid_bytes u) = 16"
  by (simp add: uuid_bytes_def)

lemma unat_uuid_bound: "unat (u :: uuid) < 256 ^ 16"
  using unsigned_less [of u] by simp

lemma uuid_bytes_inject [simp]: "uuid_bytes u = uuid_bytes v \<longleftrightarrow> u = v"
proof
  assume "uuid_bytes u = uuid_bytes v"
  then have "be_value (be_bytes 16 (unat u)) = be_value (be_bytes 16 (unat v))"
    by (simp only: uuid_bytes_def)
  then have "unat u = unat v" by (simp only: be_value_be_bytes unat_uuid_bound)
  then show "u = v" by (simp add: word_unat_eq_iff)
qed simp

section \<open>Keyed tables\<close>

text \<open>
  The operations of a \<open>HashMap\<close>, a \<open>BTreeMap\<close> and of a SQLite table with a primary key:
  look a key up, insert or replace its value, remove it.
\<close>

type_synonym ('k, 'v) table = "('k \<times> 'v) list"

definition table_ok :: "('k, 'v) table \<Rightarrow> bool" where
  "table_ok t \<longleftrightarrow> distinct (map fst t)"

definition get :: "('k, 'v) table \<Rightarrow> 'k \<Rightarrow> 'v option" where
  "get t k = map_of t k"

definition put :: "'k \<Rightarrow> 'v \<Rightarrow> ('k, 'v) table \<Rightarrow> ('k, 'v) table" where
  "put k v t = AList.update k v t"

definition drop_key :: "'k \<Rightarrow> ('k, 'v) table \<Rightarrow> ('k, 'v) table" where
  "drop_key k t = AList.delete k t"

definition has_key :: "('k, 'v) table \<Rightarrow> 'k \<Rightarrow> bool" where
  "has_key t k \<longleftrightarrow> get t k \<noteq> None"

definition keys :: "('k, 'v) table \<Rightarrow> 'k list" where
  "keys t = map fst t"

definition vals :: "('k, 'v) table \<Rightarrow> 'v list" where
  "vals t = map snd t"

text \<open>
  The contract of a keyed table, and what its clients use: the effect of a whole batch of
  upserts or deletions on a lookup.
\<close>

locale keyed_table =
  fixes lookup :: "'t \<Rightarrow> 'k \<Rightarrow> 'v option"
    and upsert :: "'k \<Rightarrow> 'v \<Rightarrow> 't \<Rightarrow> 't"
    and remove :: "'k \<Rightarrow> 't \<Rightarrow> 't"
    and wf :: "'t \<Rightarrow> bool"
  assumes lookup_upsert: "lookup (upsert k v t) = (lookup t)(k := Some v)"
    and lookup_remove: "lookup (remove k t) = (lookup t)(k := None)"
    and wf_upsert: "wf t \<Longrightarrow> wf (upsert k v t)"
    and wf_remove: "wf t \<Longrightarrow> wf (remove k t)"
begin

lemma lookup_remove_all:
  "lookup (fold remove ks t) k = (if k \<in> set ks then None else lookup t k)"
  by (induction ks arbitrary: t) (auto simp: lookup_remove)

lemma wf_remove_all: "wf t \<Longrightarrow> wf (fold remove ks t)"
  by (induction ks arbitrary: t) (auto intro: wf_remove)

lemma lookup_upsert_all:
  "distinct (map key rs) \<Longrightarrow>
   lookup (fold (\<lambda>r. upsert (key r) (val r)) rs t) k =
     (case find (\<lambda>r. key r = k) rs of Some r \<Rightarrow> Some (val r) | None \<Rightarrow> lookup t k)"
proof (induction rs arbitrary: t)
  case (Cons r rs)
  show ?case
  proof (cases "key r = k")
    case True
    with Cons.prems have "find (\<lambda>r. key r = k) rs = None"
      by (simp add: find_None_iff) (metis image_eqI)
    with True Cons show ?thesis by (simp add: lookup_upsert)
  next
    case False
    with Cons show ?thesis by (auto simp: lookup_upsert split: option.splits)
  qed
qed simp

lemma wf_upsert_all: "wf t \<Longrightarrow> wf (fold (\<lambda>r. upsert (key r) (val r)) rs t)"
  by (induction rs arbitrary: t) (auto intro: wf_upsert)

end

interpretation tab: keyed_table get put drop_key table_ok
proof unfold_locales
  fix k :: 'a and v :: 'b and t :: "('a, 'b) table"
  show "get (put k v t) = (get t)(k := Some v)"
    by (simp add: get_def put_def update_conv' fun_eq_iff)
  show "get (drop_key k t) = (get t)(k := None)"
    by (simp add: get_def drop_key_def delete_conv' fun_eq_iff)
  show "table_ok (put k v t)" if "table_ok t"
    using that by (simp add: table_ok_def put_def distinct_update)
  show "table_ok (drop_key k t)" if "table_ok t"
    using that by (simp add: table_ok_def drop_key_def distinct_delete)
qed

lemmas table_laws [table_simps, simp] = tab.lookup_upsert tab.lookup_remove

lemma get_Nil [simp]: "get [] k = None"
  by (simp add: get_def)

lemma table_ok_Nil [simp]: "table_ok []"
  by (simp add: table_ok_def)

lemma get_Some_in: "get t k = Some v \<Longrightarrow> (k, v) \<in> set t"
  by (simp add: get_def map_of_SomeD)

lemma get_Some_iff: "table_ok t \<Longrightarrow> get t k = Some v \<longleftrightarrow> (k, v) \<in> set t"
  by (simp add: get_def table_ok_def)

lemma has_key_iff: "has_key t k \<longleftrightarrow> k \<in> set (keys t)"
  by (simp add: has_key_def get_def keys_def map_of_eq_None_iff)

lemma vals_iff: "table_ok t \<Longrightarrow> v \<in> set (vals t) \<longleftrightarrow> (\<exists>k. get t k = Some v)"
  by (force simp: vals_def get_Some_iff)

lemma has_key_put [simp]: "has_key (put k v t) j \<longleftrightarrow> j = k \<or> has_key t j"
  by (simp add: has_key_def)

lemma has_key_drop [simp]: "has_key (drop_key k t) j \<longleftrightarrow> j \<noteq> k \<and> has_key t j"
  by (simp add: has_key_def)

section \<open>Contracts shared by the components\<close>

text \<open>
  A codec: \<open>dec\<close> reads back what \<open>enc\<close> wrote, for the values in \<open>ok\<close>. A strict codec
  accepts nothing but the canonical encoding of a value in \<open>ok\<close>.
\<close>

locale codec =
  fixes enc :: "'a \<Rightarrow> 'w"
    and dec :: "'w \<Rightarrow> 'e + 'a"
    and ok :: "'a \<Rightarrow> bool"
  assumes dec_enc: "ok x \<Longrightarrow> dec (enc x) = Inr x"
begin

lemma enc_inj: "ok x \<Longrightarrow> ok y \<Longrightarrow> enc x = enc y \<Longrightarrow> x = y"
  by (metis dec_enc sum.inject(2))

end

locale strict_codec = codec +
  assumes dec_ok: "dec w = Inr x \<Longrightarrow> ok x"
    and enc_dec: "dec w = Inr x \<Longrightarrow> enc x = w"
begin

lemma dec_iff: "dec w = Inr x \<longleftrightarrow> ok x \<and> enc x = w"
  using dec_enc dec_ok enc_dec by blast

lemma dec_unique: "dec v = Inr x \<Longrightarrow> dec w = Inr x \<Longrightarrow> v = w"
  using enc_dec by metis

end

text \<open>
  A normaliser: what it returns satisfies the stored form's predicate, and a value already in
  that form is returned as it is. Normalising twice is then the same as normalising once, also
  over a list.
\<close>

locale normaliser =
  fixes clean :: "'a \<Rightarrow> 'e + 'a"
    and clean_form :: "'a \<Rightarrow> bool"
  assumes clean_result: "clean x = Inr y \<Longrightarrow> clean_form y"
    and clean_fixed: "clean_form y \<Longrightarrow> clean y = Inr y"
begin

lemma clean_idem: "clean x = Inr y \<Longrightarrow> clean y = Inr y"
  using clean_result clean_fixed by blast

lemma clean_all_result: "collect_results clean xs = Inr ys \<Longrightarrow> \<forall>y\<in>set ys. clean_form y"
  by (auto dest!: collect_results_set clean_result)

lemma clean_all_idem: "collect_results clean xs = Inr ys \<Longrightarrow> collect_results clean ys = Inr ys"
  by (rule collect_results_fixed) (auto dest!: clean_all_result intro: clean_fixed)

end

text \<open>
  A transition system with an invariant, and one with a measure no step lowers. What holds of
  one step holds of every run.
\<close>

locale invariant_system =
  fixes init :: "'s \<Rightarrow> bool"
    and step :: "'s \<Rightarrow> 's \<Rightarrow> bool"
    and inv :: "'s \<Rightarrow> bool"
  assumes init_inv: "init s \<Longrightarrow> inv s"
    and step_inv: "inv s \<Longrightarrow> step s t \<Longrightarrow> inv t"
begin

lemma run_inv: "step\<^sup>*\<^sup>* s t \<Longrightarrow> inv s \<Longrightarrow> inv t"
  by (induction rule: rtranclp_induct) (auto intro: step_inv)

lemma reachable_inv: "init s \<Longrightarrow> step\<^sup>*\<^sup>* s t \<Longrightarrow> inv t"
  by (auto intro: run_inv init_inv)

end

locale monotone_system =
  fixes step :: "'s \<Rightarrow> 's \<Rightarrow> bool"
    and level :: "'s \<Rightarrow> 'm::preorder"
  assumes step_level: "step s t \<Longrightarrow> level s \<le> level t"
begin

lemma run_level: "step\<^sup>*\<^sup>* s t \<Longrightarrow> level s \<le> level t"
  by (induction rule: rtranclp_induct) (auto dest: step_level intro: order_trans)

end

end
