(* ===== verification/AutoLock.thy ===== *)
theory AutoLock
  imports Prelude
begin

text \<open>
  The auto-lock policy (\<^verbatim>\<open>havenkeys-core/src/lock.rs\<close>): a pure state machine fed with a monotonic
  and a wall clock. A \<open>Duration\<close> is a number of nanoseconds; \<open>Duration\<close> addition panics past
  its maximum, which is the result \<open>None\<close> of \<open>tick\<close>.
\<close>

section \<open>Model\<close>

type_synonym duration = nat

definition from_secs :: "nat \<Rightarrow> duration" where
  "from_secs s = s * 1000000000"

definition DURATION_MAX :: duration where
  "DURATION_MAX = 2 ^ 64 * 1000000000 - 1"

definition SUSPEND_THRESHOLD :: duration where
  "SUSPEND_THRESHOLD = from_secs 30"

datatype LockReason = Idle | Suspend

record lock_manager =
  timeout :: "duration option"
  last_activity :: duration
  last_tick :: "(duration \<times> duration) option"

definition new_lock_manager :: "duration option \<Rightarrow> lock_manager" where
  "new_lock_manager t = \<lparr>timeout = t, last_activity = 0, last_tick = None\<rparr>"

definition timeout_from_minutes :: "u32 \<Rightarrow> duration option" where
  "timeout_from_minutes m = (if 0 < m then Some (from_secs (unat m * 60)) else None)"

definition set_timeout :: "duration option \<Rightarrow> lock_manager \<Rightarrow> lock_manager" where
  "set_timeout t m = m\<lparr>timeout := t\<rparr>"

definition reset :: "duration \<Rightarrow> duration \<Rightarrow> lock_manager \<Rightarrow> lock_manager" where
  "reset mt wt m = m\<lparr>last_activity := mt, last_tick := Some (mt, wt)\<rparr>"

definition record_activity :: "duration \<Rightarrow> lock_manager \<Rightarrow> lock_manager" where
  "record_activity mt m = (if mt > last_activity m then m\<lparr>last_activity := mt\<rparr> else m)"

text \<open>The subtractions of the source saturate at zero, as subtraction on \<open>nat\<close> does.\<close>

definition suspended :: "(duration \<times> duration) option \<Rightarrow> duration \<Rightarrow> duration \<Rightarrow> bool option" where
  "suspended previous mt wt =
     (case previous of
        None \<Rightarrow> Some False
      | Some (prev_mono, prev_wall) \<Rightarrow>
          if mt - prev_mono + SUSPEND_THRESHOLD > DURATION_MAX then None
          else Some (wt - prev_wall > mt - prev_mono + SUSPEND_THRESHOLD))"

definition tick ::
  "duration \<Rightarrow> duration \<Rightarrow> lock_manager \<Rightarrow> (lock_manager \<times> LockReason option) option" where
  "tick mt wt m =
     (let m' = m\<lparr>last_tick := Some (mt, wt)\<rparr> in
      case suspended (last_tick m) mt wt of
        None \<Rightarrow> None
      | Some True \<Rightarrow> Some (m', Some Suspend)
      | Some False \<Rightarrow>
          (case timeout m of
             Some t \<Rightarrow> Some (m', if mt - last_activity m \<ge> t then Some Idle else None)
           | None \<Rightarrow> Some (m', None)))"

text \<open>The calls a session makes, in any order.\<close>

datatype lock_event =
    SetTimeout "duration option"
  | Reset duration duration
  | Activity duration
  | Tick duration duration

fun lock_step :: "lock_event \<Rightarrow> lock_manager \<Rightarrow> lock_manager option" where
  "lock_step (SetTimeout t) m = Some (set_timeout t m)"
| "lock_step (Reset mt wt) m = Some (reset mt wt m)"
| "lock_step (Activity mt) m = Some (record_activity mt m)"
| "lock_step (Tick mt wt) m = map_option fst (tick mt wt m)"

fun lock_run :: "lock_event list \<Rightarrow> lock_manager \<Rightarrow> lock_manager option" where
  "lock_run [] m = Some m"
| "lock_run (e # es) m = Option.bind (lock_step e m) (lock_run es)"

section \<open>Properties\<close>

text \<open>What every tick does to the state: it records the clocks and nothing else.\<close>

lemma tick_state:
  "tick mt wt m = Some (m', r) \<Longrightarrow> m' = m\<lparr>last_tick := Some (mt, wt)\<rparr>"
  by (auto simp: tick_def Let_def split: option.splits bool.splits)

lemma tick_total:
  "mt + SUSPEND_THRESHOLD \<le> DURATION_MAX \<Longrightarrow> \<exists>m' r. tick mt wt m = Some (m', r)"
  by (auto simp: tick_def suspended_def Let_def split: option.splits prod.splits bool.splits)

lemma tick_Idle_iff:
  assumes "last_tick m = Some (pm, pw)" and "wt - pw \<le> mt - pm + SUSPEND_THRESHOLD"
    and "mt - pm + SUSPEND_THRESHOLD \<le> DURATION_MAX"
  shows "map_option snd (tick mt wt m) =
     Some (case timeout m of Some t \<Rightarrow> if t \<le> mt - last_activity m then Some Idle else None
                           | None \<Rightarrow> None)"
  using assms by (auto simp: tick_def suspended_def Let_def split: option.splits)

lemma record_activity_last: "last_activity (record_activity t m) = max t (last_activity m)"
  by (auto simp: record_activity_def)

text \<open>Between two unlocks (no \<open>reset\<close>) the activity clock never moves back.\<close>

lemma lock_step_activity:
  "lock_step e m = Some m' \<Longrightarrow> \<forall>a b. e \<noteq> Reset a b \<Longrightarrow> last_activity m \<le> last_activity m'"
  by (cases e) (auto simp: set_timeout_def record_activity_last dest: tick_state)

lemma lock_run_activity:
  "lock_run es m = Some m' \<Longrightarrow> \<forall>e\<in>set es. \<forall>a b. e \<noteq> Reset a b \<Longrightarrow>
     last_activity m \<le> last_activity m'"
proof (induction es arbitrary: m)
  case (Cons e es)
  then obtain m1 where m1: "lock_step e m = Some m1" and run: "lock_run es m1 = Some m'"
    by (auto simp: bind_eq_Some_conv)
  have "last_activity m \<le> last_activity m1"
    using m1 Cons.prems(2) by (intro lock_step_activity) auto
  also have "\<dots> \<le> last_activity m'"
    using Cons.IH [OF run] Cons.prems(2) by simp
  finally show ?case .
qed simp

text \<open>
  A tick answers exactly the documented policy. With the previous clocks \<open>(pm, pw)\<close> and a
  monotonic clock that leaves room for the 30-second threshold, the answer is \<open>Suspend\<close> if the
  wall clock advanced more than 30 seconds further than the monotonic clock, else \<open>Idle\<close> if a
  timeout is set and that long has passed without activity, else nothing; with no timeout
  (\<open>auto_lock_minutes = 0\<close>) only a suspend locks. The call never panics in that range.
\<close>

theorem tick_policy:
  assumes "last_tick m = Some (pm, pw)" and "mt + SUSPEND_THRESHOLD \<le> DURATION_MAX"
  shows "tick mt wt m = Some (m\<lparr>last_tick := Some (mt, wt)\<rparr>,
     if wt - pw > mt - pm + SUSPEND_THRESHOLD then Some Suspend
     else case timeout m of
            Some t \<Rightarrow> if t \<le> mt - last_activity m then Some Idle else None
          | None \<Rightarrow> None)"
  using assms by (auto simp: tick_def suspended_def Let_def split: option.splits)

theorem tick_policy_witness:
  "tick (from_secs 300) (from_secs 1300) (reset 0 (from_secs 1000) (new_lock_manager (timeout_from_minutes 5)))
     = Some (\<lparr>timeout = Some (from_secs 300), last_activity = 0,
              last_tick = Some (from_secs 300, from_secs 1300)\<rparr>, Some Idle)"
  by (subst tick_policy [where pm = 0 and pw = "from_secs 1000"])
    (simp_all add: reset_def new_lock_manager_def timeout_from_minutes_def from_secs_def
      SUSPEND_THRESHOLD_def DURATION_MAX_def)

text \<open>
  Activity postpones the idle lock and nothing brings it forward: in any run of calls
  without a new unlock, a tick that locks for idleness does so no earlier than the configured
  timeout after the latest activity reported in that run, whatever order the timestamps came in.
\<close>

theorem idle_lock_waits_for_activity:
  assumes "lock_run es m = Some m'" and "\<forall>e\<in>set es. \<forall>a b. e \<noteq> Reset a b"
    and "Activity t \<in> set es" and "tick mt wt m' = Some (m'', Some Idle)"
  shows "\<exists>d. timeout m' = Some d \<and> (d = 0 \<or> t + d \<le> mt)"
proof -
  obtain xs ys where es: "es = xs @ Activity t # ys"
    using assms(3) by (meson split_list)
  have run_append: "lock_run (us @ vs) s = Option.bind (lock_run us s) (lock_run vs)" for us vs s
    by (induction us arbitrary: s) (auto split: Option.bind_splits)
  obtain m1 where "lock_run ys (record_activity t m1) = Some m'"
    using assms(1) by (auto simp: es run_append bind_eq_Some_conv)
  then have "last_activity (record_activity t m1) \<le> last_activity m'"
    using assms(2) by (intro lock_run_activity) (auto simp: es)
  then have "t \<le> last_activity m'" by (simp add: record_activity_last)
  moreover obtain d where "timeout m' = Some d" and "d \<le> mt - last_activity m'"
    using assms(4) by (auto simp: tick_def Let_def split: option.splits bool.splits if_splits)
  ultimately show ?thesis by auto
qed

theorem idle_lock_waits_for_activity_witness:
  "\<exists>d. timeout (record_activity (from_secs 200) (reset 0 0 (new_lock_manager (Some (from_secs 300))))) = Some d
     \<and> (d = 0 \<or> from_secs 200 + d \<le> from_secs 500)"
proof (rule idle_lock_waits_for_activity [where es = "[Activity (from_secs 200)]"
      and m = "reset 0 0 (new_lock_manager (Some (from_secs 300)))" and wt = "from_secs 500"
      and m'' = "\<lparr>timeout = Some (from_secs 300), last_activity = from_secs 200,
              last_tick = Some (from_secs 500, from_secs 500)\<rparr>"])
  show "tick (from_secs 500) (from_secs 500)
      (record_activity (from_secs 200) (reset 0 0 (new_lock_manager (Some (from_secs 300))))) =
    Some (\<lparr>timeout = Some (from_secs 300), last_activity = from_secs 200,
              last_tick = Some (from_secs 500, from_secs 500)\<rparr>, Some Idle)"
    by (simp add: tick_def suspended_def record_activity_def reset_def new_lock_manager_def
        from_secs_def SUSPEND_THRESHOLD_def DURATION_MAX_def)
qed simp_all

end
