(* ===== verification/Errors.thy ===== *)
theory Errors
  imports Prelude
begin

text \<open>
  The core's error type (\<^verbatim>\<open>havenkeys-core/src/error.rs\<close>): one constructor per variant, the
  fixed message of \<open>InvalidInput\<close> as its argument, and the stable code the user interface
  branches on.
\<close>

datatype error =
    Locked
  | Busy
  | UnlockFailed
  | SecretKeyRequired
  | Decryption
  | Encryption
  | Corrupted
  | UnsupportedVersion
  | NewerVault
  | VaultExists
  | NoVault
  | NotFound
  | Denied
  | InvalidInput string
  | Storage
  | Kdf
  | Rng
  | Offline
  | ItemChangedElsewhere
  | BundleRefused

type_synonym 'a result = "error + 'a"

fun error_code :: "error \<Rightarrow> string" where
  "error_code Locked = ''locked''"
| "error_code Busy = ''busy''"
| "error_code UnlockFailed = ''unlock_failed''"
| "error_code SecretKeyRequired = ''secret_key_required''"
| "error_code Decryption = ''decryption''"
| "error_code Encryption = ''encryption''"
| "error_code Corrupted = ''corrupted''"
| "error_code UnsupportedVersion = ''unsupported_version''"
| "error_code NewerVault = ''newer_vault''"
| "error_code VaultExists = ''vault_exists''"
| "error_code NoVault = ''no_vault''"
| "error_code NotFound = ''not_found''"
| "error_code Denied = ''denied''"
| "error_code (InvalidInput m) = ''invalid_input''"
| "error_code Storage = ''storage''"
| "error_code Kdf = ''kdf''"
| "error_code Rng = ''rng''"
| "error_code Offline = ''offline''"
| "error_code ItemChangedElsewhere = ''item_changed_elsewhere''"
| "error_code BundleRefused = ''bundle_refused''"

text \<open>Two errors with the same code differ at most in the message of \<open>InvalidInput\<close>.\<close>

lemma error_code_determines:
  "error_code a = error_code b \<Longrightarrow> a = b \<or> (\<exists>m n. a = InvalidInput m \<and> b = InvalidInput n)"
  by (cases a; cases b; simp)

end
