(* ===== verification/Text.thy ===== *)
theory Text
  imports Errors
begin

text \<open>
  Text the components share: decimal numbers as Rust prints and parses them, substrings, and the
  parsed URL that the \<^verbatim>\<open>url\<close> crate hands to its callers. The URL parser is code of another
  package: a function argument of the definitions that use it, and the record \<open>url\<close> holds the
  values its accessors return.
\<close>

section \<open>Decimal numbers\<close>

fun dec :: "nat \<Rightarrow> rstring" where
  "dec n = (if n < 10 then [48 + n] else dec (n div 10) @ [48 + n mod 10])"

declare dec.simps [simp del]

text \<open>\<open>format!("{:0w$}", n)\<close>\<close>

definition fmt_width :: "nat \<Rightarrow> nat \<Rightarrow> rstring" where
  "fmt_width w n = replicate (w - length (dec n)) 48 @ dec n"

definition dec_value :: "rstring \<Rightarrow> nat" where
  "dec_value s = foldl (\<lambda>a c. a * 10 + (c - 48)) 0 s"

definition all_digits :: "rstring \<Rightarrow> bool" where
  "all_digits s \<longleftrightarrow> (\<forall>c\<in>set s. is_ascii_digit c)"

text \<open>\<open>str::parse\<close> for an unsigned type with maximum \<open>mx\<close>: one leading plus sign is accepted.\<close>

definition parse_uint :: "nat \<Rightarrow> rstring \<Rightarrow> nat option" where
  "parse_uint mx s =
     (let t = (case s of c # r \<Rightarrow> if c = 43 then r else s | [] \<Rightarrow> []) in
      if t = [] \<or> \<not> all_digits t \<or> mx < dec_value t then None else Some (dec_value t))"

lemma dec_value_Nil [simp]: "dec_value [] = 0"
  by (simp add: dec_value_def)

lemma dec_value_snoc [simp]: "dec_value (s @ [c]) = dec_value s * 10 + (c - 48)"
  by (simp add: dec_value_def)

lemma all_digits_simps [simp]:
  "all_digits []" "all_digits (c # s) \<longleftrightarrow> is_ascii_digit c \<and> all_digits s"
  "all_digits (s @ t) \<longleftrightarrow> all_digits s \<and> all_digits t"
  "all_digits (rev s) \<longleftrightarrow> all_digits s"
  by (auto simp: all_digits_def)

lemma all_digits_take: "all_digits s \<Longrightarrow> all_digits (take n s)"
  and all_digits_drop: "all_digits s \<Longrightarrow> all_digits (drop n s)"
  by (auto simp: all_digits_def dest: in_set_takeD in_set_dropD)

lemma all_digits_ascii: "all_digits s \<Longrightarrow> \<forall>c\<in>set s. c < 128"
  by (auto simp: all_digits_def is_ascii_digit_def)

lemma all_digits_str_len: "all_digits s \<Longrightarrow> str_len s = length s"
  using all_digits_ascii str_len_ascii by blast

lemma digit_mod [simp]: "is_ascii_digit (48 + n mod 10)"
  by (simp add: is_ascii_digit_def)

lemma dec_nonempty [simp]: "dec n \<noteq> []"
  by (subst dec.simps) simp

lemma all_digits_dec [simp]: "all_digits (dec n)"
proof (induction n rule: dec.induct)
  case (1 n)
  then show ?case by (subst dec.simps) (auto simp: is_ascii_digit_def)
qed

lemma dec_value_dec [simp]: "dec_value (dec n) = n"
proof (induction n rule: dec.induct)
  case (1 n)
  show ?case
  proof (cases "n < 10")
    case True
    then show ?thesis by (subst dec.simps) (simp add: dec_value_def)
  next
    case False
    with 1 show ?thesis by (subst dec.simps) simp
  qed
qed

lemma dec_value_zeros [simp]: "dec_value (replicate k 48 @ s) = dec_value s"
proof -
  have "foldl (\<lambda>a c. a * 10 + (c - 48)) 0 (replicate k 48) = (0 :: nat)" by (induction k) auto
  then show ?thesis by (simp add: dec_value_def)
qed

lemma length_dec_le: "n < 10 ^ w \<Longrightarrow> 0 < w \<Longrightarrow> length (dec n) \<le> w"
proof (induction n arbitrary: w rule: dec.induct)
  case (1 n)
  show ?case
  proof (cases "n < 10")
    case True
    with 1 show ?thesis by (subst dec.simps) simp
  next
    case False
    then obtain v where w: "w = Suc v" "0 < v"
      using 1 by (cases w; cases "w - 1") auto
    then have "n div 10 < 10 ^ v" using 1 by (simp add: less_mult_imp_div_less mult.commute)
    with 1 w False show ?thesis by (subst dec.simps) auto
  qed
qed

lemma length_fmt_width: "n < 10 ^ w \<Longrightarrow> 0 < w \<Longrightarrow> length (fmt_width w n) = w"
  using length_dec_le [of n w] by (simp add: fmt_width_def)

lemma all_digits_fmt_width [simp]: "all_digits (fmt_width w n)"
  by (auto simp: fmt_width_def all_digits_def is_ascii_digit_def
      dest: all_digits_dec [unfolded all_digits_def is_ascii_digit_def, rule_format])

lemma dec_value_fmt_width [simp]: "dec_value (fmt_width w n) = n"
  by (simp add: fmt_width_def)

lemma dec_value_bound: "all_digits s \<Longrightarrow> dec_value s < 10 ^ length s"
  by (induction s rule: rev_induct) (auto simp: is_ascii_digit_def)

text \<open>Digit strings of one length are determined by their value.\<close>

lemma dec_value_inject:
  "length s = length t \<Longrightarrow> all_digits s \<Longrightarrow> all_digits t \<Longrightarrow> dec_value s = dec_value t \<Longrightarrow> s = t"
proof (induction s arbitrary: t rule: rev_induct)
  case (snoc c s)
  obtain t' d where t: "t = t' @ [d]" using snoc.prems by (cases t rule: rev_cases) auto
  have c: "48 \<le> c" "c \<le> 57" "48 \<le> d" "d \<le> 57"
    using snoc.prems by (auto simp: t is_ascii_digit_def)
  have "dec_value s * 10 + (c - 48) = dec_value t' * 10 + (d - 48)"
    using snoc.prems by (simp add: t)
  moreover have "(x * 10 + y) div 10 = x" "(x * 10 + y) mod 10 = y" if "y < 10" for x y :: nat
    using that by simp_all
  moreover have "c - 48 < 10" "d - 48 < 10" using c by simp_all
  ultimately have "dec_value s = dec_value t'" and "c - 48 = d - 48" by metis+
  then have "c = d" using c by simp
  with snoc \<open>dec_value s = dec_value t'\<close> show ?case by (simp add: t)
qed simp

lemma fmt_width_dec_value:
  "all_digits s \<Longrightarrow> length s = w \<Longrightarrow> 0 < w \<Longrightarrow> fmt_width w (dec_value s) = s"
  by (rule dec_value_inject) (use dec_value_bound length_fmt_width in auto)

lemma parse_uint_digits:
  "all_digits s \<Longrightarrow> s \<noteq> [] \<Longrightarrow> parse_uint mx s = (if mx < dec_value s then None else Some (dec_value s))"
  by (cases s) (auto simp: parse_uint_def is_ascii_digit_def Let_def)

lemma parse_uint_bound: "parse_uint mx s = Some n \<Longrightarrow> n \<le> mx"
  by (auto simp: parse_uint_def Let_def split: if_splits)

section \<open>Substrings\<close>

fun contains :: "rstring \<Rightarrow> rstring \<Rightarrow> bool" where
  "contains p [] \<longleftrightarrow> p = []"
| "contains p (c # s) \<longleftrightarrow> starts_with p (c # s) \<or> contains p s"

definition strip_prefix :: "rstring \<Rightarrow> rstring \<Rightarrow> rstring option" where
  "strip_prefix p s = (if starts_with p s then Some (drop (length p) s) else None)"

text \<open>\<open>s.strip_suffix('.').unwrap_or(s)\<close>\<close>

definition strip_dot :: "rstring \<Rightarrow> rstring" where
  "strip_dot s = (if s \<noteq> [] \<and> last s = 46 then butlast s else s)"

text \<open>\<open>split_once(c)\<close>\<close>

definition split_once :: "rchar \<Rightarrow> rstring \<Rightarrow> (rstring \<times> rstring) option" where
  "split_once c s = (if c \<in> set s
     then Some (takeWhile (\<lambda>x. x \<noteq> c) s, tl (dropWhile (\<lambda>x. x \<noteq> c) s)) else None)"

text \<open>\<open>split(c)\<close>: the parts between the separators.\<close>

fun split_at :: "rchar \<Rightarrow> rstring \<Rightarrow> rstring list" where
  "split_at c [] = [[]]"
| "split_at c (x # s) = (if x = c then [] # split_at c s
     else (x # hd (split_at c s)) # tl (split_at c s))"

lemma split_once_append: "c \<notin> set xs \<Longrightarrow> split_once c (xs @ c # ys) = Some (xs, ys)"
  by (induction xs) (auto simp: split_once_def)

text \<open>\<open>parts.join(sep)\<close>\<close>

fun join :: "rstring \<Rightarrow> rstring list \<Rightarrow> rstring" where
  "join sep [] = []"
| "join sep [x] = x"
| "join sep (x # y # r) = x @ sep @ join sep (y # r)"

text \<open>\<open>iter().flatten()\<close> over optional values.\<close>

definition somes :: "'a option list \<Rightarrow> 'a list" where
  "somes xs = List.map_filter id xs"

lemma somes_simps [simp]:
  "somes [] = []" "somes (None # xs) = somes xs" "somes (Some x # xs) = x # somes xs"
  by (simp_all add: somes_def)

text \<open>The UTF-8 encoding of a string, its bytes as numbers.\<close>

definition utf8_char :: "rchar \<Rightarrow> nat list" where
  "utf8_char c =
     (if c < 128 then [c]
      else if c < 2048 then [192 + c div 64, 128 + c mod 64]
      else if c < 65536 then [224 + c div 4096, 128 + c div 64 mod 64, 128 + c mod 64]
      else [240 + c div 262144, 128 + c div 4096 mod 64, 128 + c div 64 mod 64, 128 + c mod 64])"

definition utf8 :: "rstring \<Rightarrow> nat list" where
  "utf8 s = concat (map utf8_char s)"

lemma length_utf8: "length (utf8 s) = str_len s"
  by (induction s) (auto simp: utf8_def utf8_char_def utf8_len_def)

text \<open>Only an ASCII character has an ASCII byte in its encoding.\<close>

lemma utf8_ascii: "b \<in> set (utf8_char c) \<Longrightarrow> b < 128 \<Longrightarrow> utf8_char c = [c] \<and> b = c"
  by (auto simp: utf8_char_def split: if_splits)

lemma utf8_all_ascii: "\<forall>b\<in>set (utf8 s). b < 128 \<Longrightarrow> utf8 s = s"
proof (induction s)
  case (Cons c s)
  have "utf8_char c \<noteq> []" by (simp add: utf8_char_def)
  then obtain b where "b \<in> set (utf8_char c)" by (meson last_in_set)
  then have "utf8_char c = [c]" using Cons.prems utf8_ascii by (auto simp: utf8_def)
  with Cons show ?case by (simp add: utf8_def)
qed (simp add: utf8_def)

lemma utf8_of_ascii: "\<forall>c\<in>set s. c < 128 \<Longrightarrow> utf8 s = s"
  by (induction s) (auto simp: utf8_def utf8_char_def)

text \<open>An encoding determines its string (for Unicode scalar values).\<close>

definition scalar :: "rchar \<Rightarrow> bool" where
  "scalar c \<longleftrightarrow> c < 1114112"

lemma utf8_char_lead:
  "(hd (utf8_char c) < 128 \<longleftrightarrow> c < 128) \<and> (hd (utf8_char c) < 224 \<longleftrightarrow> c < 2048) \<and>
   (hd (utf8_char c) < 240 \<longleftrightarrow> c < 65536)"
proof -
  have "128 \<le> c \<Longrightarrow> c < 2048 \<Longrightarrow> c div 64 < 32" "2048 \<le> c \<Longrightarrow> c < 65536 \<Longrightarrow> c div 4096 < 16" by simp_all
  then show ?thesis
    by (cases "c < 128"; cases "c < 2048"; cases "c < 65536") (simp_all add: utf8_char_def)
qed

lemma split64: "(c :: nat) = 64 * (c div 64) + c mod 64" by simp

lemma split4096: "(c :: nat) = 4096 * (c div 4096) + 64 * (c div 64 mod 64) + c mod 64"
proof -
  have "c div 64 = 64 * (c div 64 div 64) + c div 64 mod 64" by simp
  moreover have "c div 64 div 64 = c div 4096" by (simp add: div_mult2_eq [symmetric])
  ultimately show ?thesis using split64 [of c] by linarith
qed

lemma split262144:
  "(c :: nat) = 262144 * (c div 262144) + 4096 * (c div 4096 mod 64) + 64 * (c div 64 mod 64) + c mod 64"
proof -
  have "c div 4096 = 64 * (c div 4096 div 64) + c div 4096 mod 64" by simp
  moreover have "c div 4096 div 64 = c div 262144" by (simp add: div_mult2_eq [symmetric])
  ultimately show ?thesis using split4096 [of c] by linarith
qed

lemma utf8_char_prefix:
  assumes "scalar c" "scalar d" "utf8_char c @ r = utf8_char d @ s"
  shows "c = d \<and> r = s"
proof -
  have "utf8_char c \<noteq> []" "utf8_char d \<noteq> []" by (simp_all add: utf8_char_def)
  then have "hd (utf8_char c) = hd (utf8_char d)" using assms(3) by (metis hd_append2)
  then have same: "(c < 128 \<longleftrightarrow> d < 128) \<and> (c < 2048 \<longleftrightarrow> d < 2048) \<and> (c < 65536 \<longleftrightarrow> d < 65536)"
    using utf8_char_lead [of c] utf8_char_lead [of d] by simp
  consider "c < 128" "d < 128" | "128 \<le> c" "c < 2048" "128 \<le> d" "d < 2048"
    | "2048 \<le> c" "c < 65536" "2048 \<le> d" "d < 65536" | "65536 \<le> c" "65536 \<le> d"
    using same by linarith
  then show ?thesis
  proof cases
    case 1
    then show ?thesis using assms(3) by (simp add: utf8_char_def)
  next
    case 2
    then have "c div 64 = d div 64" "c mod 64 = d mod 64" "r = s" using assms(3) by (simp_all add: utf8_char_def)
    then show ?thesis using split64 [of c] split64 [of d] by simp
  next
    case 3
    then have "c div 4096 = d div 4096" "c div 64 mod 64 = d div 64 mod 64" "c mod 64 = d mod 64" "r = s"
      using assms(3) by (simp_all add: utf8_char_def)
    then show ?thesis using split4096 [of c] split4096 [of d] by simp
  next
    case 4
    then have "c div 262144 = d div 262144" "c div 4096 mod 64 = d div 4096 mod 64"
      "c div 64 mod 64 = d div 64 mod 64" "c mod 64 = d mod 64" "r = s"
      using assms(3) by (simp_all add: utf8_char_def)
    then show ?thesis using split262144 [of c] split262144 [of d] by simp
  qed
qed

lemma utf8_inject:
  "\<forall>c\<in>set s. scalar c \<Longrightarrow> \<forall>c\<in>set t. scalar c \<Longrightarrow> utf8 s = utf8 t \<Longrightarrow> s = t"
proof (induction s arbitrary: t)
  case Nil
  then show ?case by (cases t) (auto simp: utf8_def utf8_char_def split: if_splits)
next
  case (Cons c s)
  show ?case
  proof (cases t)
    case Nil
    with Cons.prems show ?thesis by (auto simp: utf8_def utf8_char_def split: if_splits)
  next
    case (Cons d u)
    then have "utf8_char c @ utf8 s = utf8_char d @ utf8 u" using Cons.prems(3) by (simp add: utf8_def)
    then have "c = d \<and> utf8 s = utf8 u" using Cons.prems Cons by (intro utf8_char_prefix) auto
    then show ?thesis using Cons Cons.IH [of u] Cons.prems by auto
  qed
qed

lemma utf8_byte: "\<forall>c\<in>set s. scalar c \<Longrightarrow> b \<in> set (utf8 s) \<Longrightarrow> b < 256"
proof (induction s)
  case (Cons c s)
  have "b \<in> set (utf8_char c) \<Longrightarrow> b < 256"
    using Cons.prems by (auto simp: utf8_char_def scalar_def split: if_splits)
  with Cons show ?case by (auto simp: utf8_def)
qed (simp add: utf8_def)

section \<open>Parsed URLs\<close>

datatype host = Domain rstring | Ipv4 rstring | Ipv6 rstring

record url =
  scheme :: rstring
  host :: "host option"
  host_str :: "rstring option"
  port :: "nat option"
  port_or_known_default :: "nat option"
  url_path :: rstring
  query_pairs :: "(rstring \<times> rstring) list"
  url_username :: rstring
  url_password :: "rstring option"
  origin_ascii :: rstring
  without_fragment :: rstring

type_synonym url_parser = "rstring \<Rightarrow> url option"

end
