(* ===== verification/Blob.thy ===== *)
theory Blob
  imports Errors
begin

text \<open>
  The versioned authenticated-encryption blob (\<^verbatim>\<open>havenkeys-core/src/crypto/blob.rs\<close>): the layout,
  the associated data that binds a blob to its purpose, vault, item and companion blob, and
  \<open>seal\<close> / \<open>open\<close>.

  AES-256-GCM, SHA-256 and the random generator are code of other packages. They are parameters:
  the record \<open>crypto\<close> holds the functions, \<open>aead_ok\<close> states what AES-GCM promises (decryption
  inverts encryption and accepts nothing else, a ciphertext is 16 bytes longer than its message,
  encryption refuses nothing up to 64 GiB),
  and a nonce argument is \<open>None\<close> where the random generator failed.
\<close>

section \<open>Model\<close>

subsection \<open>Parameters\<close>

record crypto =
  aes_enc :: "bytes \<Rightarrow> bytes \<Rightarrow> bytes \<Rightarrow> bytes \<Rightarrow> bytes option"
  aes_dec :: "bytes \<Rightarrow> bytes \<Rightarrow> bytes \<Rightarrow> bytes \<Rightarrow> bytes option"
  sha256 :: "bytes \<Rightarrow> bytes"

definition KEY_LEN :: nat where "KEY_LEN = 32"
definition NONCE_LEN :: nat where "NONCE_LEN = 12"
definition TAG_LEN :: nat where "TAG_LEN = 16"

definition aead_ok :: "crypto \<Rightarrow> bool" where
  "aead_ok c \<longleftrightarrow>
     (\<forall>k n a p ct. length k = KEY_LEN \<and> length n = NONCE_LEN \<longrightarrow>
        (aes_enc c k n a p = Some ct \<longrightarrow>
           length ct = length p + TAG_LEN \<and> aes_dec c k n a ct = Some p) \<and>
        (aes_dec c k n a ct = Some p \<longrightarrow> aes_enc c k n a p = Some ct) \<and>
        (length p \<le> 2 ^ 36 \<and> length a \<le> 2 ^ 36 \<longrightarrow> aes_enc c k n a p \<noteq> None))"

subsection \<open>Constants and layout\<close>

definition BLOB_V1 :: byte where "BLOB_V1 = 1"
definition ALG_AES_256_GCM :: byte where "ALG_AES_256_GCM = 1"
definition HEADER_LEN :: nat where "HEADER_LEN = 2 + NONCE_LEN"
definition MIN_BLOB_LEN :: nat where "MIN_BLOB_LEN = HEADER_LEN + TAG_LEN"
definition MAX_BLOB_LEN :: nat where "MAX_BLOB_LEN = 8 * 1024 * 1024"
definition MAX_BACKUP_BLOB_LEN :: nat where "MAX_BACKUP_BLOB_LEN = 64 * 1024 * 1024"

definition byte_str :: "string \<Rightarrow> bytes" where
  "byte_str s = map of_char s"

definition AAD_PREFIX :: bytes where
  "AAD_PREFIX = byte_str ''havenkeys'' @ [0]"

datatype Purpose =
    PVaultKey | PItemOverview | PItemDetails | PSettings | PSyncHeader
  | PDeviceSettings | PAssetLinks | PActivity | PBackup | PAttachment

fun label :: "Purpose \<Rightarrow> bytes" where
  "label PVaultKey = byte_str ''vault-key''"
| "label PItemOverview = byte_str ''item-overview''"
| "label PItemDetails = byte_str ''item-details''"
| "label PSettings = byte_str ''settings''"
| "label PSyncHeader = byte_str ''sync-header''"
| "label PDeviceSettings = byte_str ''device-settings''"
| "label PAssetLinks = byte_str ''asset-links''"
| "label PActivity = byte_str ''activity''"
| "label PBackup = byte_str ''backup''"
| "label PAttachment = byte_str ''attachment''"

definition max_len :: "Purpose \<Rightarrow> nat" where
  "max_len p = (if p = PBackup then MAX_BACKUP_BLOB_LEN else MAX_BLOB_LEN)"

definition needs_binding :: "Purpose \<Rightarrow> bool" where
  "needs_binding p \<longleftrightarrow> p \<in> {PItemDetails, PBackup, PAttachment}"

definition needs_item_id :: "Purpose \<Rightarrow> bool" where
  "needs_item_id p \<longleftrightarrow> p \<in> {PItemOverview, PItemDetails, PAttachment}"

record blob_context =
  purpose :: Purpose
  ctx_vault_id :: uuid
  ctx_item_id :: "uuid option"
  bound_to :: "bytes option"

definition vault_ctx :: "Purpose \<Rightarrow> uuid \<Rightarrow> blob_context" where
  "vault_ctx p v = \<lparr>purpose = p, ctx_vault_id = v, ctx_item_id = None, bound_to = None\<rparr>"

definition item_ctx :: "Purpose \<Rightarrow> uuid \<Rightarrow> uuid \<Rightarrow> blob_context" where
  "item_ctx p v i = \<lparr>purpose = p, ctx_vault_id = v, ctx_item_id = Some i, bound_to = None\<rparr>"

definition item_details_ctx :: "crypto \<Rightarrow> uuid \<Rightarrow> uuid \<Rightarrow> bytes \<Rightarrow> blob_context" where
  "item_details_ctx c v i overview_blob =
     (item_ctx PItemDetails v i)\<lparr>bound_to := Some (sha256 c overview_blob)\<rparr>"

definition backup_ctx :: "crypto \<Rightarrow> bytes \<Rightarrow> blob_context" where
  "backup_ctx c header = (vault_ctx PBackup 0)\<lparr>bound_to := Some (sha256 c header)\<rparr>"

definition backup_record_ctx :: "crypto \<Rightarrow> bytes \<Rightarrow> u32 \<Rightarrow> blob_context" where
  "backup_record_ctx c header index =
     (vault_ctx PBackup 0)\<lparr>bound_to := Some (sha256 c (header @ rev (be_bytes 4 (unat index))))\<rparr>"

definition attachment_ctx :: "crypto \<Rightarrow> uuid \<Rightarrow> uuid \<Rightarrow> uuid \<Rightarrow> blob_context" where
  "attachment_ctx c v i a =
     (item_ctx PAttachment v i)\<lparr>bound_to := Some (sha256 c (byte_str ''hk-attachment-v1'' @ uuid_bytes a))\<rparr>"

subsection \<open>Associated data\<close>

definition binding_label :: "Purpose \<Rightarrow> bytes" where
  "binding_label p = (case p of
       PBackup \<Rightarrow> byte_str ''header'' @ [0]
     | PAttachment \<Rightarrow> byte_str ''attachment'' @ [0]
     | _ \<Rightarrow> byte_str ''overview'' @ [0])"

definition ctx_ok :: "blob_context \<Rightarrow> bool" where
  "ctx_ok x \<longleftrightarrow> needs_item_id (purpose x) = (ctx_item_id x \<noteq> None) \<and>
     needs_binding (purpose x) = (bound_to x \<noteq> None)"

definition aad :: "blob_context \<Rightarrow> byte \<Rightarrow> byte \<Rightarrow> bytes result" where
  "aad x version algorithm =
     (if \<not> ctx_ok x then Inl (InvalidInput ''blob context'')
      else Inr (AAD_PREFIX @ [version, algorithm] @ label (purpose x) @ [0] @
        uuid_bytes (ctx_vault_id x) @
        (case ctx_item_id x of Some i \<Rightarrow> uuid_bytes i | None \<Rightarrow> []) @
        (case bound_to x of Some b \<Rightarrow> binding_label (purpose x) @ b | None \<Rightarrow> [])))"

subsection \<open>Parsing, sealing, opening\<close>

record parsed_blob =
  version :: byte
  algorithm :: byte
  nonce :: bytes
  ciphertext_and_tag :: bytes

definition parse_capped :: "bytes \<Rightarrow> nat \<Rightarrow> parsed_blob result" where
  "parse_capped b mx =
     (if length b < MIN_BLOB_LEN \<or> length b > mx then Inl Corrupted
      else if b ! 0 \<noteq> BLOB_V1 \<or> b ! 1 \<noteq> ALG_AES_256_GCM then Inl UnsupportedVersion
      else Inr \<lparr>version = b ! 0, algorithm = b ! 1,
                nonce = take NONCE_LEN (drop 2 b), ciphertext_and_tag = drop HEADER_LEN b\<rparr>)"

definition parse_blob :: "bytes \<Rightarrow> parsed_blob result" where
  "parse_blob b = parse_capped b MAX_BLOB_LEN"

definition seal_with_aad ::
  "crypto \<Rightarrow> bytes option \<Rightarrow> bytes \<Rightarrow> bytes \<Rightarrow> bytes \<Rightarrow> bytes result" where
  "seal_with_aad c rnd key a plaintext =
     and_then (ok_or Rng rnd) (\<lambda>n.
     and_then (ensure (length key = KEY_LEN) Encryption) (\<lambda>_.
     and_then (ok_or Encryption (aes_enc c key n a plaintext)) (\<lambda>ct.
     Inr ([BLOB_V1, ALG_AES_256_GCM] @ n @ ct))))"

definition seal ::
  "crypto \<Rightarrow> bytes option \<Rightarrow> bytes \<Rightarrow> blob_context \<Rightarrow> bytes \<Rightarrow> bytes result" where
  "seal c rnd key x plaintext =
     (if length plaintext > max_len (purpose x) - MIN_BLOB_LEN
      then Inl (InvalidInput ''item too large'')
      else and_then (aad x BLOB_V1 ALG_AES_256_GCM) (\<lambda>a. seal_with_aad c rnd key a plaintext))"

definition open_blob :: "crypto \<Rightarrow> bytes \<Rightarrow> blob_context \<Rightarrow> bytes \<Rightarrow> bytes result" where
  "open_blob c key x b =
     and_then (parse_capped b (max_len (purpose x))) (\<lambda>p.
     and_then (aad x (version p) (algorithm p)) (\<lambda>a.
     and_then (ensure (length key = KEY_LEN) Decryption) (\<lambda>_.
     ok_or Decryption (aes_dec c key (nonce p) a (ciphertext_and_tag p)))))"

section \<open>Properties\<close>

lemmas blob_consts =
  KEY_LEN_def NONCE_LEN_def TAG_LEN_def BLOB_V1_def ALG_AES_256_GCM_def HEADER_LEN_def
  MIN_BLOB_LEN_def MAX_BLOB_LEN_def MAX_BACKUP_BLOB_LEN_def max_len_def

lemma aead_okD:
  assumes "aead_ok c" and "length k = KEY_LEN" and "length n = NONCE_LEN"
  shows "length p \<le> 2 ^ 36 \<Longrightarrow> length a \<le> 2 ^ 36 \<Longrightarrow> \<exists>ct. aes_enc c k n a p = Some ct"
    and "aes_enc c k n a p = Some ct \<Longrightarrow> aes_dec c k n a ct = Some p"
    and "aes_enc c k n a p = Some ct \<Longrightarrow> length ct = length p + TAG_LEN"
    and "aes_dec c k n a ct = Some p \<Longrightarrow> aes_enc c k n a p = Some ct"
  using assms unfolding aead_ok_def by (blast, blast, blast, blast)

lemma label_no_zero: "0 \<notin> set (label p)"
  by (cases p) (simp_all add: byte_str_def)

lemma label_inject: "label p = label q \<Longrightarrow> p = q"
  by (cases p; cases q; simp add: byte_str_def)

text \<open>A zero byte ends a label, so two labelled strings split in the same place.\<close>

lemma zero_terminated_inject:
  "xs @ 0 # r = ys @ 0 # s \<Longrightarrow> 0 \<notin> set xs \<Longrightarrow> 0 \<notin> set ys \<Longrightarrow> xs = ys \<and> r = s"
  for xs ys :: bytes
proof (induction xs arbitrary: ys)
  case Nil
  then show ?case by (cases ys) auto
next
  case (Cons x xs)
  then show ?case by (cases ys) auto
qed

lemma aad_Inr_iff:
  "aad x v g = Inr a \<longleftrightarrow> ctx_ok x \<and> a = AAD_PREFIX @ [v, g] @ label (purpose x) @ [0] @
        uuid_bytes (ctx_vault_id x) @
        (case ctx_item_id x of Some i \<Rightarrow> uuid_bytes i | None \<Rightarrow> []) @
        (case bound_to x of Some b \<Rightarrow> binding_label (purpose x) @ b | None \<Rightarrow> [])"
  by (auto simp: aad_def)

text \<open>The associated data determines the whole context.\<close>

lemma aad_inject:
  assumes "aad x v g = Inr a" and "aad y w h = Inr a"
  shows "x = y \<and> v = w \<and> g = h"
proof -
  define rest :: "blob_context \<Rightarrow> bytes" where "rest z = uuid_bytes (ctx_vault_id z) @
        (case ctx_item_id z of Some i \<Rightarrow> uuid_bytes i | None \<Rightarrow> []) @
        (case bound_to z of Some b \<Rightarrow> binding_label (purpose z) @ b | None \<Rightarrow> [])" for z
  have ok: "ctx_ok x" "ctx_ok y" and vg: "v = w" "g = h"
    and eq: "label (purpose x) @ 0 # rest x = label (purpose y) @ 0 # rest y"
    using assms by (auto simp: aad_Inr_iff rest_def)
  from eq have "label (purpose x) = label (purpose y)" and r: "rest x = rest y"
    using zero_terminated_inject label_no_zero by blast+
  then have p: "purpose x = purpose y" using label_inject by blast
  then have "ctx_item_id x = None \<longleftrightarrow> ctx_item_id y = None"
    and "bound_to x = None \<longleftrightarrow> bound_to y = None"
    using ok by (auto simp: ctx_ok_def)
  with r p have "ctx_vault_id x = ctx_vault_id y \<and> ctx_item_id x = ctx_item_id y \<and> bound_to x = bound_to y"
    by (auto simp: rest_def append_eq_append_conv split: option.splits)
  with p vg show ?thesis by simp
qed

lemma seal_with_aad_Inr_iff:
  "seal_with_aad c rnd key a pt = Inr b \<longleftrightarrow>
     (\<exists>n ct. rnd = Some n \<and> length key = KEY_LEN \<and> aes_enc c key n a pt = Some ct \<and>
        b = [BLOB_V1, ALG_AES_256_GCM] @ n @ ct)"
  by (auto simp: seal_with_aad_def result_simps)

lemma seal_Inr_iff:
  "seal c rnd key x pt = Inr b \<longleftrightarrow>
     length pt \<le> max_len (purpose x) - MIN_BLOB_LEN \<and> length key = KEY_LEN \<and>
     (\<exists>n a ct. rnd = Some n \<and> aad x BLOB_V1 ALG_AES_256_GCM = Inr a \<and>
        aes_enc c key n a pt = Some ct \<and> b = [BLOB_V1, ALG_AES_256_GCM] @ n @ ct)"
  by (auto simp: seal_def result_simps seal_with_aad_Inr_iff)

lemma parse_capped_sealed:
  assumes "length n = NONCE_LEN" and "TAG_LEN \<le> length ct" and "HEADER_LEN + length ct \<le> mx"
  shows "parse_capped ([BLOB_V1, ALG_AES_256_GCM] @ n @ ct) mx =
    Inr \<lparr>version = BLOB_V1, algorithm = ALG_AES_256_GCM, nonce = n, ciphertext_and_tag = ct\<rparr>"
  using assms by (simp add: parse_capped_def HEADER_LEN_def MIN_BLOB_LEN_def)

lemma parse_capped_Inr:
  assumes "parse_capped b mx = Inr p"
  shows "b = [version p, algorithm p] @ nonce p @ ciphertext_and_tag p"
    and "length (nonce p) = NONCE_LEN" and "version p = BLOB_V1" and "algorithm p = ALG_AES_256_GCM"
    and "length b \<le> mx" and "MIN_BLOB_LEN \<le> length b"
proof -
  have len: "MIN_BLOB_LEN \<le> length b" "length b \<le> mx"
    and p: "p = \<lparr>version = b ! 0, algorithm = b ! 1, nonce = take NONCE_LEN (drop 2 b),
              ciphertext_and_tag = drop HEADER_LEN b\<rparr>"
    and ver: "b ! 0 = BLOB_V1" "b ! 1 = ALG_AES_256_GCM"
    using assms by (auto simp: parse_capped_def split: if_splits)
  obtain u v r where "b = u # v # r"
    using len(1) by (cases b; cases "tl b") (auto simp: blob_consts)
  then show "b = [version p, algorithm p] @ nonce p @ ciphertext_and_tag p"
    by (simp add: p HEADER_LEN_def)
  show "length (nonce p) = NONCE_LEN" using len(1) by (simp add: p blob_consts)
  show "version p = BLOB_V1" "algorithm p = ALG_AES_256_GCM" using ver by (simp_all add: p)
  show "length b \<le> mx" "MIN_BLOB_LEN \<le> length b" by (fact len)+
qed

lemma seal_length:
  assumes "aead_ok c" and "length n = NONCE_LEN" and "seal c (Some n) key x pt = Inr b"
  shows "length b = length pt + MIN_BLOB_LEN" and "length b \<le> max_len (purpose x)"
proof -
  obtain a ct where k: "length key = KEY_LEN" and ct: "aes_enc c key n a pt = Some ct"
    and b: "b = [BLOB_V1, ALG_AES_256_GCM] @ n @ ct"
    using assms(3) by (auto simp: seal_Inr_iff)
  have "length ct = length pt + TAG_LEN" by (rule aead_okD(3) [OF assms(1) k assms(2) ct])
  then show l: "length b = length pt + MIN_BLOB_LEN"
    using assms(2) by (simp add: b MIN_BLOB_LEN_def HEADER_LEN_def)
  have "length pt \<le> max_len (purpose x) - MIN_BLOB_LEN"
    using assms(3) by (simp add: seal_Inr_iff)
  moreover have "MIN_BLOB_LEN \<le> max_len (purpose x)" by (simp add: blob_consts)
  ultimately show "length b \<le> max_len (purpose x)" using l by linarith
qed

lemma open_seal:
  assumes c: "aead_ok c" and n: "length n = NONCE_LEN" and s: "seal c (Some n) key x pt = Inr b"
  shows "open_blob c key x b = Inr pt"
proof -
  obtain a ct where k: "length key = KEY_LEN" and a: "aad x BLOB_V1 ALG_AES_256_GCM = Inr a"
    and ct: "aes_enc c key n a pt = Some ct" and b: "b = [BLOB_V1, ALG_AES_256_GCM] @ n @ ct"
    using s by (auto simp: seal_Inr_iff)
  have "length ct = length pt + TAG_LEN" by (rule aead_okD(3) [OF c k n ct])
  then have "parse_capped b (max_len (purpose x)) =
      Inr \<lparr>version = BLOB_V1, algorithm = ALG_AES_256_GCM, nonce = n, ciphertext_and_tag = ct\<rparr>"
    using seal_length [OF c n s] n unfolding b by (intro parse_capped_sealed) (auto simp: blob_consts)
  then show ?thesis
    using aead_okD(2) [OF c k n ct] k a by (simp add: open_blob_def)
qed

text \<open>Nothing but a sealed blob opens.\<close>

lemma open_blob_Inr:
  assumes c: "aead_ok c" and o: "open_blob c key x b = Inr pt"
  shows "\<exists>n. length n = NONCE_LEN \<and> seal c (Some n) key x pt = Inr b"
proof -
  obtain p a where p: "parse_capped b (max_len (purpose x)) = Inr p"
    and a: "aad x (version p) (algorithm p) = Inr a" and k: "length key = KEY_LEN"
    and d: "aes_dec c key (nonce p) a (ciphertext_and_tag p) = Some pt"
    using o by (auto simp: open_blob_def result_simps)
  note pb = parse_capped_Inr [OF p]
  have e: "aes_enc c key (nonce p) a pt = Some (ciphertext_and_tag p)"
    by (rule aead_okD(4) [OF c k pb(2) d])
  have "length (ciphertext_and_tag p) = length pt + TAG_LEN"
    by (rule aead_okD(3) [OF c k pb(2) e])
  moreover have "length b = 2 + NONCE_LEN + length (ciphertext_and_tag p)"
    using arg_cong [OF pb(1), of length] pb(2) by simp
  ultimately have "length pt \<le> max_len (purpose x) - MIN_BLOB_LEN"
    using pb(5) by (simp add: MIN_BLOB_LEN_def HEADER_LEN_def)
  then have "seal c (Some (nonce p)) key x pt = Inr b"
    using e a k pb by (simp add: seal_Inr_iff)
  with pb(2) show ?thesis by blast
qed


lemma length_label_le: "length (label p) \<le> 15"
  by (cases p) (simp_all add: byte_str_def)

lemma length_aad_le:
  assumes "aad x v g = Inr a" and "\<forall>b. bound_to x = Some b \<longrightarrow> length b = 32"
  shows "length a \<le> 2 ^ 36"
proof -
  have "length (binding_label (purpose x)) \<le> 11"
    by (cases "purpose x") (simp_all add: binding_label_def byte_str_def)
  moreover have "length AAD_PREFIX = 10" by (simp add: AAD_PREFIX_def byte_str_def)
  ultimately show ?thesis
    using assms length_label_le [of "purpose x"]
    by (auto simp: aad_Inr_iff split: option.splits)
qed

lemma seal_total:
  assumes c: "aead_ok c" and n: "length n = NONCE_LEN" and k: "length key = KEY_LEN"
    and x: "ctx_ok x" "\<forall>b. bound_to x = Some b \<longrightarrow> length b = 32"
    and pt: "length pt \<le> max_len (purpose x) - MIN_BLOB_LEN"
  shows "\<exists>b. seal c (Some n) key x pt = Inr b"
proof -
  obtain a where a: "aad x BLOB_V1 ALG_AES_256_GCM = Inr a" using x(1) by (simp add: aad_def)
  have "length pt \<le> 2 ^ 36" using pt by (auto simp: blob_consts split: if_splits)
  then obtain ct where "aes_enc c key n a pt = Some ct"
    using aead_okD(1) [OF c k n] length_aad_le [OF a x(2)] by blast
  with a k pt show ?thesis by (simp add: seal_Inr_iff)
qed

text \<open>A concrete cipher with the documented behaviour, for the witnesses: the tag is constant.\<close>

definition plain_crypto :: crypto where
  "plain_crypto = \<lparr>
     aes_enc = \<lambda>k n a p. Some (p @ replicate 16 0),
     aes_dec = \<lambda>k n a ct. if 16 \<le> length ct \<and> drop (length ct - 16) ct = replicate 16 0
                  then Some (take (length ct - 16) ct) else None,
     sha256 = \<lambda>b. replicate 32 0\<rparr>"

lemma plain_crypto_ok: "aead_ok plain_crypto"
proof -
  have "ct = take (length ct - 16) ct @ replicate 16 0"
    if "drop (length ct - 16) ct = replicate 16 (0 :: byte)" for ct
    by (metis that append_take_drop_id)
  then show ?thesis
    by (auto simp: aead_ok_def plain_crypto_def TAG_LEN_def)
qed

subsection \<open>Claims\<close>

text \<open>
  Round trip. For a 32-byte key, a well-formed context and a plaintext within the purpose's
  cap, sealing succeeds, the blob is exactly 30 bytes longer than the plaintext and within the
  cap, and opening it with the same key and context gives the plaintext back.
\<close>

theorem seal_open_roundtrip:
  assumes "aead_ok c" and "length n = NONCE_LEN" and "length key = KEY_LEN"
    and "ctx_ok x" and "\<forall>b. bound_to x = Some b \<longrightarrow> length b = 32"
    and "length pt \<le> max_len (purpose x) - MIN_BLOB_LEN"
  shows "\<exists>b. seal c (Some n) key x pt = Inr b \<and> open_blob c key x b = Inr pt \<and>
     length b = length pt + 30 \<and> length b \<le> max_len (purpose x)"
proof -
  obtain b where b: "seal c (Some n) key x pt = Inr b" using seal_total [OF assms] by blast
  have "MIN_BLOB_LEN = 30" by (simp add: blob_consts)
  with b open_seal [OF assms(1,2) b] seal_length [OF assms(1,2) b] show ?thesis by auto
qed

theorem seal_open_roundtrip_witness:
  "\<exists>b. seal plain_crypto (Some (replicate 12 7)) (replicate 32 1) (item_ctx PItemOverview 5 9) [1, 2, 3] = Inr b
     \<and> open_blob plain_crypto (replicate 32 1) (item_ctx PItemOverview 5 9) b = Inr [1, 2, 3]
     \<and> length b = length [1, 2, 3 :: byte] + 30 \<and> length b \<le> max_len (purpose (item_ctx PItemOverview 5 9))"
  by (rule seal_open_roundtrip)
    (simp_all add: plain_crypto_ok blob_consts item_ctx_def ctx_ok_def needs_item_id_def
      needs_binding_def)

text \<open>
  C35. Nothing opens that was not sealed: under a key and a context, a byte string opens to a
  plaintext exactly when it is the blob \<open>seal\<close> produces from that plaintext for some nonce,
  under that same key and context.
\<close>

theorem open_iff_sealed:
  assumes "aead_ok c"
  shows "open_blob c key x b = Inr pt \<longleftrightarrow>
    (\<exists>n. length n = NONCE_LEN \<and> seal c (Some n) key x pt = Inr b)"
  using open_blob_Inr [OF assms] open_seal [OF assms] by blast

theorem open_iff_sealed_witness:
  "open_blob plain_crypto (replicate 32 1) (vault_ctx PSettings 5) (replicate 30 1) = Inr [] \<longleftrightarrow>
    (\<exists>n. length n = NONCE_LEN \<and>
       seal plain_crypto (Some n) (replicate 32 1) (vault_ctx PSettings 5) [] = Inr (replicate 30 1))"
  by (rule open_iff_sealed [OF plain_crypto_ok])

text \<open>
  A blob cannot be moved to another context. If a blob sealed under one context (purpose,
  vault, item, binding) opens under a different one with the same key, then AES-GCM itself
  produced the same ciphertext for two different associated data under one key and nonce: the
  associated data of two different contexts is never equal.
\<close>

theorem open_under_other_context:
  assumes c: "aead_ok c" and n: "length n = NONCE_LEN" and s: "seal c (Some n) key x pt = Inr b"
    and o: "open_blob c key y b = Inr pt'" and ne: "x \<noteq> y"
  shows "\<exists>a a' ct. a \<noteq> a' \<and> aad x BLOB_V1 ALG_AES_256_GCM = Inr a \<and>
     aad y BLOB_V1 ALG_AES_256_GCM = Inr a' \<and>
     aes_enc c key n a pt = Some ct \<and> aes_enc c key n a' pt' = Some ct"
proof -
  obtain a ct where a: "aad x BLOB_V1 ALG_AES_256_GCM = Inr a"
    and ct: "aes_enc c key n a pt = Some ct" "b = [BLOB_V1, ALG_AES_256_GCM] @ n @ ct"
    using s by (auto simp: seal_Inr_iff)
  obtain n' a' ct' where n': "length n' = NONCE_LEN" and a': "aad y BLOB_V1 ALG_AES_256_GCM = Inr a'"
    and ct': "aes_enc c key n' a' pt' = Some ct'" "b = [BLOB_V1, ALG_AES_256_GCM] @ n' @ ct'"
    using open_blob_Inr [OF c o] by (auto simp: seal_Inr_iff)
  have "n' = n" "ct' = ct" using ct(2) ct'(2) n n' by auto
  moreover have "a \<noteq> a'" using aad_inject [OF a, of y] a' ne by blast
  ultimately show ?thesis using a a' ct(1) ct'(1) by blast
qed

theorem open_under_other_context_witness:
  "\<exists>a a' ct. a \<noteq> a' \<and> aad (vault_ctx PSettings 1) BLOB_V1 ALG_AES_256_GCM = Inr a \<and>
     aad (vault_ctx PSettings 2) BLOB_V1 ALG_AES_256_GCM = Inr a' \<and>
     aes_enc plain_crypto (replicate 32 1) (replicate 12 7) a [] = Some ct \<and>
     aes_enc plain_crypto (replicate 32 1) (replicate 12 7) a' [] = Some ct"
proof (rule open_under_other_context [OF plain_crypto_ok])
  let ?b = "[BLOB_V1, ALG_AES_256_GCM] @ replicate 12 7 @ replicate 16 0"
  show "seal plain_crypto (Some (replicate 12 7)) (replicate 32 1) (vault_ctx PSettings 1) [] = Inr ?b"
    by (simp add: seal_Inr_iff plain_crypto_def blob_consts aad_def vault_ctx_def ctx_ok_def
        needs_item_id_def needs_binding_def)
  show "open_blob plain_crypto (replicate 32 1) (vault_ctx PSettings 2) ?b = Inr []"
    by (rule open_seal [OF plain_crypto_ok, where n = "replicate 12 7"])
      (simp_all add: seal_Inr_iff plain_crypto_def blob_consts aad_def vault_ctx_def ctx_ok_def
        needs_item_id_def needs_binding_def)
qed (simp_all add: NONCE_LEN_def vault_ctx_def)

end
