(* ===== verification/Totp.thy ===== *)
theory Totp
  imports Text Blob
begin

text \<open>
  One-time passwords (\<^verbatim>\<open>havenkeys-core/src/totp.rs\<close>): the validated configuration, the two input
  forms, dynamic truncation and the generated code. HMAC, Base32, percent-decoding and the URL
  parser are code of other packages, held in the record \<open>totp_env\<close>. Indexing a digest out of
  range panics, which is the outer \<open>None\<close> of \<open>hotp\<close> and \<open>generate\<close>.
\<close>

unbundle bit_operations_syntax

section \<open>Model\<close>

definition MIN_SECRET_BYTES :: nat where "MIN_SECRET_BYTES = 10"
definition MAX_SECRET_BYTES :: nat where "MAX_SECRET_BYTES = 128"
definition MIN_PERIOD :: nat where "MIN_PERIOD = 1"
definition MAX_PERIOD :: nat where "MAX_PERIOD = 300"
definition MAX_URI_LEN :: nat where "MAX_URI_LEN = 2048"
definition MAX_LABEL_LEN :: nat where "MAX_LABEL_LEN = 256"

datatype TotpAlgorithm = Sha1 | Sha256 | Sha512

record totp_env =
  base32_decode :: "rstring \<Rightarrow> bytes option"
  hmac :: "TotpAlgorithm \<Rightarrow> bytes \<Rightarrow> bytes \<Rightarrow> bytes option"
  totp_url_parse :: url_parser
  percent_decode :: "rstring \<Rightarrow> rstring"
  percent_encode :: "rstring \<Rightarrow> rstring"

record totp_config =
  secret :: rstring
  algorithm :: TotpAlgorithm
  digits :: nat
  period :: nat
  issuer :: "rstring option"
  account :: "rstring option"

record totp_code =
  code :: rstring
  code_period :: nat
  seconds_remaining :: nat

definition normalize_base32 :: "rstring \<Rightarrow> rstring" where
  "normalize_base32 s =
     map to_ascii_uppercase (filter (\<lambda>c. \<not> is_whitespace c \<and> c \<noteq> 45 \<and> c \<noteq> 61) s)"

definition decode_secret :: "totp_env \<Rightarrow> rstring \<Rightarrow> bytes result" where
  "decode_secret env s =
     and_then (ok_or (InvalidInput ''TOTP secret is not valid Base32'') (base32_decode env s)) (\<lambda>b.
     if length b < MIN_SECRET_BYTES \<or> MAX_SECRET_BYTES < length b
     then Inl (InvalidInput ''TOTP secret has an invalid length'') else Inr b)"

definition validate :: "totp_env \<Rightarrow> totp_config \<Rightarrow> unit result" where
  "validate env c =
     (if \<not> (digits c = 6 \<or> digits c = 8) then Inl (InvalidInput ''TOTP digits must be 6 or 8'')
      else if \<not> (MIN_PERIOD \<le> period c \<and> period c \<le> MAX_PERIOD)
      then Inl (InvalidInput ''TOTP period out of range'')
      else and_then (decode_secret env (secret c)) (\<lambda>_. Inr ()))"

definition truncate_label :: "rstring \<Rightarrow> rstring" where
  "truncate_label s = take MAX_LABEL_LEN s"

definition parse_algorithm :: "rstring \<Rightarrow> TotpAlgorithm result" where
  "parse_algorithm v =
     (let u = map to_ascii_uppercase v in
      if u = str ''SHA1'' then Inr Sha1
      else if u = str ''SHA256'' then Inr Sha256
      else if u = str ''SHA512'' then Inr Sha512
      else Inl (InvalidInput ''unsupported TOTP algorithm''))"

text \<open>The variables of the query loop of \<open>parse_otpauth\<close>.\<close>

record totp_query =
  q_secret :: "rstring option"
  q_algorithm :: TotpAlgorithm
  q_digits :: nat
  q_period :: nat
  q_issuer :: "rstring option"

definition query_init :: totp_query where
  "query_init = \<lparr>q_secret = None, q_algorithm = Sha1, q_digits = 6, q_period = 30, q_issuer = None\<rparr>"

definition U32_MAX :: nat where "U32_MAX = 2 ^ 32 - 1"

definition query_step :: "rstring \<times> rstring \<Rightarrow> totp_query \<Rightarrow> totp_query result" where
  "query_step kv q =
     (let k = map to_ascii_lowercase (fst kv); v = snd kv in
      if k = str ''secret'' then Inr (q\<lparr>q_secret := Some (normalize_base32 v)\<rparr>)
      else if k = str ''algorithm'' then and_then (parse_algorithm v) (\<lambda>a. Inr (q\<lparr>q_algorithm := a\<rparr>))
      else if k = str ''digits'' then
        and_then (ok_or (InvalidInput ''invalid TOTP digits'') (parse_uint U32_MAX v)) (\<lambda>d. Inr (q\<lparr>q_digits := d\<rparr>))
      else if k = str ''period'' then
        and_then (ok_or (InvalidInput ''invalid TOTP period'') (parse_uint U32_MAX v)) (\<lambda>p. Inr (q\<lparr>q_period := p\<rparr>))
      else if k = str ''issuer'' then Inr (q\<lparr>q_issuer := Some (truncate_label v)\<rparr>)
      else Inr q)"

fun query_loop :: "(rstring \<times> rstring) list \<Rightarrow> totp_query \<Rightarrow> totp_query result" where
  "query_loop [] q = Inr q"
| "query_loop (kv # rest) q = and_then (query_step kv q) (query_loop rest)"

definition non_empty :: "rstring option \<Rightarrow> rstring option" where
  "non_empty s = (case s of Some t \<Rightarrow> if t = [] then None else Some t | None \<Rightarrow> None)"

definition check_otpauth_host :: "url \<Rightarrow> unit result" where
  "check_otpauth_host u =
     (case host_str u of
        Some h \<Rightarrow> if eq_ignore_ascii_case h (str ''totp'') then Inr ()
                  else if eq_ignore_ascii_case h (str ''hotp'') then Inl (InvalidInput ''HOTP is not supported'')
                  else Inl (InvalidInput ''invalid otpauth URI'')
      | None \<Rightarrow> Inl (InvalidInput ''invalid otpauth URI''))"

definition label_parts :: "rstring \<Rightarrow> rstring option \<times> rstring" where
  "label_parts l = (case split_once 58 l of
       Some (i, a) \<Rightarrow> (Some (truncate_label (trim i)), truncate_label (trim a))
     | None \<Rightarrow> (None, truncate_label (trim l)))"

definition parse_otpauth :: "totp_env \<Rightarrow> rstring \<Rightarrow> totp_config result" where
  "parse_otpauth env uri =
     and_then (ok_or (InvalidInput ''invalid otpauth URI'') (totp_url_parse env uri)) (\<lambda>u.
     and_then (ensure (scheme u = str ''otpauth'') (InvalidInput ''invalid otpauth URI'')) (\<lambda>_.
     and_then (check_otpauth_host u) (\<lambda>_.
     and_then (query_loop (query_pairs u) query_init) (\<lambda>q.
     let lab = label_parts (percent_decode env (dropWhile (\<lambda>c. c = 47) (url_path u))) in
     and_then (ok_or (InvalidInput ''otpauth URI has no secret'') (q_secret q)) (\<lambda>s.
     let config = \<lparr>secret = s, algorithm = q_algorithm q, digits = q_digits q, period = q_period q,
           issuer = non_empty (case q_issuer q of Some i \<Rightarrow> Some i | None \<Rightarrow> fst lab),
           account = non_empty (Some (snd lab))\<rparr> in
     and_then (validate env config) (\<lambda>_. Inr config))))))"

definition parse_totp_input :: "totp_env \<Rightarrow> rstring \<Rightarrow> totp_config result" where
  "parse_totp_input env input =
     (let t = trim input in
      if MAX_URI_LEN < str_len t then Inl (InvalidInput ''TOTP input too long'')
      else if starts_with (str ''otpauth:'') (map to_ascii_lowercase t) then parse_otpauth env t
      else let s = normalize_base32 t in
        and_then (decode_secret env s) (\<lambda>_.
        Inr \<lparr>secret = s, algorithm = Sha1, digits = 6, period = 30, issuer = None, account = None\<rparr>))"

definition to_otpauth_uri :: "totp_env \<Rightarrow> totp_config \<Rightarrow> rstring" where
  "to_otpauth_uri env c =
     (let enc = percent_encode env;
          lab = (case (issuer c, account c) of
                   (Some i, Some a) \<Rightarrow> enc i @ str '':'' @ enc a
                 | (None, Some a) \<Rightarrow> enc a
                 | (Some i, None) \<Rightarrow> enc i
                 | (None, None) \<Rightarrow> []);
          alg = (case algorithm c of Sha1 \<Rightarrow> ''SHA1'' | Sha256 \<Rightarrow> ''SHA256'' | Sha512 \<Rightarrow> ''SHA512'')
      in str ''otpauth://totp/'' @ lab @ str ''?secret='' @ secret c @ str ''&algorithm='' @ str alg
         @ str ''&digits='' @ dec (digits c) @ str ''&period='' @ dec (period c)
         @ (case issuer c of Some i \<Rightarrow> str ''&issuer='' @ enc i | None \<Rightarrow> []))"

text \<open>The four bytes of dynamic truncation, or \<open>None\<close> where the indexing panics.\<close>

definition truncated :: "bytes \<Rightarrow> u32 option" where
  "truncated digest =
     (if digest = [] then None
      else let off = unat (last digest AND 15) in
        if length digest \<le> off + 3 then None
        else Some ((push_bit 24 (ucast (digest ! off AND 127)) OR push_bit 16 (ucast (digest ! (off + 1))))
                   OR push_bit 8 (ucast (digest ! (off + 2))) OR ucast (digest ! (off + 3))))"

definition hotp ::
  "totp_env \<Rightarrow> TotpAlgorithm \<Rightarrow> bytes \<Rightarrow> nat \<Rightarrow> nat \<Rightarrow> nat result option" where
  "hotp env alg key counter dg =
     (case hmac env alg key (be_bytes 8 counter) of
        None \<Rightarrow> Some (Inl (InvalidInput ''TOTP key''))
      | Some digest \<Rightarrow> map_option (\<lambda>b. Inr (unat b mod 10 ^ dg)) (truncated digest))"

definition generate_totp :: "totp_env \<Rightarrow> totp_config \<Rightarrow> nat \<Rightarrow> totp_code result option" where
  "generate_totp env c now =
     (case and_then (validate env c) (\<lambda>_. decode_secret env (secret c)) of
        Inl e \<Rightarrow> Some (Inl e)
      | Inr key \<Rightarrow>
          map_option (\<lambda>r. and_then r (\<lambda>v.
              Inr \<lparr>code = fmt_width (digits c) v, code_period = period c,
                   seconds_remaining = period c - now mod period c\<rparr>))
            (hotp env (algorithm c) key (now div period c) (digits c)))"

section \<open>Properties\<close>

text \<open>What HMAC promises: every key is accepted and the tag is the digest's 20, 32 or 64 bytes.\<close>

fun digest_len :: "TotpAlgorithm \<Rightarrow> nat" where
  "digest_len Sha1 = 20"
| "digest_len Sha256 = 32"
| "digest_len Sha512 = 64"

definition hmac_ok :: "totp_env \<Rightarrow> bool" where
  "hmac_ok env \<longleftrightarrow> (\<forall>alg key msg. \<exists>t. hmac env alg key msg = Some t \<and> length t = digest_len alg)"

lemma decode_secret_Inr_iff:
  "decode_secret env s = Inr b \<longleftrightarrow> base32_decode env s = Some b \<and> 10 \<le> length b \<and> length b \<le> 128"
  by (cases "base32_decode env s") (auto simp: decode_secret_def MIN_SECRET_BYTES_def MAX_SECRET_BYTES_def)

lemma validate_Inr_iff:
  "validate env c = Inr u \<longleftrightarrow> (digits c = 6 \<or> digits c = 8) \<and> 1 \<le> period c \<and> period c \<le> 300 \<and>
     (\<exists>b. base32_decode env (secret c) = Some b \<and> 10 \<le> length b \<and> length b \<le> 128)"
  by (auto simp: validate_def decode_secret_Inr_iff result_simps MIN_PERIOD_def MAX_PERIOD_def)

lemma decode_secret_validated:
  "validate env c = Inr () \<Longrightarrow> \<exists>b. decode_secret env (secret c) = Inr b"
  by (auto simp: validate_def result_simps split: if_splits)

lemma validated_input:
  assumes "parse_totp_input env s = Inr c"
  shows "validate env c = Inr ()"
proof (cases "starts_with (str ''otpauth:'') (map to_ascii_lowercase (trim s))")
  case True
  then show ?thesis
    using assms by (auto simp: parse_totp_input_def parse_otpauth_def Let_def result_simps split: if_splits)
next
  case False
  then show ?thesis
    using assms by (auto simp: parse_totp_input_def Let_def result_simps validate_Inr_iff
        decode_secret_Inr_iff split: if_splits)
qed

lemma uppercase_kept:
  "\<not> is_whitespace c \<and> c \<noteq> 45 \<and> c \<noteq> 61 \<Longrightarrow>
   \<not> is_whitespace (to_ascii_uppercase c) \<and> to_ascii_uppercase c \<noteq> 45 \<and> to_ascii_uppercase c \<noteq> 61"
  by (cases c rule: to_ascii_uppercase_cases) (auto simp: letter_not_whitespace)

lemma normalize_base32_clean:
  "c \<in> set (normalize_base32 s) \<Longrightarrow>
     \<not> is_whitespace c \<and> c \<noteq> 45 \<and> c \<noteq> 61 \<and> to_ascii_uppercase c = c"
  unfolding normalize_base32_def using uppercase_kept uppercase_idem by fastforce

lemma normalize_base32_idem: "normalize_base32 (normalize_base32 s) = normalize_base32 s"
proof -
  have "filter (\<lambda>c. \<not> is_whitespace c \<and> c \<noteq> 45 \<and> c \<noteq> 61) (normalize_base32 s) = normalize_base32 s"
    by (rule filter_True) (simp add: normalize_base32_clean)
  moreover have "map to_ascii_uppercase (normalize_base32 s) = normalize_base32 s"
    by (rule map_idI) (simp add: normalize_base32_clean)
  ultimately show ?thesis by (simp add: normalize_base32_def [of "normalize_base32 s"])
qed

lemma truncated_total: "16 + 3 < length digest \<Longrightarrow> \<exists>b. truncated digest = Some b"
proof -
  assume len: "16 + 3 < length digest"
  have "unat (last digest AND 15) \<le> 15"
    using word_and_le1 [of "last digest" 15] by (simp add: word_le_nat_alt)
  with len show ?thesis by (auto simp: truncated_def Let_def)
qed

lemma hotp_total:
  assumes "hmac_ok env"
  shows "\<exists>v. hotp env alg key n dg = Some (Inr v) \<and> v < 10 ^ dg"
proof -
  obtain t where t: "hmac env alg key (be_bytes 8 n) = Some t" "length t = digest_len alg"
    using assms unfolding hmac_ok_def by blast
  then have "16 + 3 < length t" by (cases alg) auto
  with t truncated_total [of t] show ?thesis by (auto simp: hotp_def)
qed


definition toy_totp :: totp_env where
  "toy_totp = \<lparr>
     base32_decode = \<lambda>s. if \<forall>c\<in>set s. (65 \<le> c \<and> c \<le> 90) \<or> (50 \<le> c \<and> c \<le> 55)
                      then Some (replicate (length s) 0) else None,
     hmac = \<lambda>alg k m. Some (replicate (digest_len alg) (255 :: byte)),
     totp_url_parse = \<lambda>s. None, percent_decode = id, percent_encode = id\<rparr>"

lemma toy_totp_hmac: "hmac_ok toy_totp"
  by (simp add: hmac_ok_def toy_totp_def)

subsection \<open>Claims\<close>

text \<open>
  Whatever the user typed, an accepted one-time-password setup can generate: from the
  configuration parsed out of the input, at every time, code generation neither panics nor fails,
  the code is exactly 6 or 8 decimal digits, and it stays valid for at least one second and at
  most the period, which is 1 to 300 seconds.
\<close>

theorem accepted_totp_generates:
  assumes "hmac_ok env" and "parse_totp_input env s = Inr c"
  shows "\<exists>r. generate_totp env c now = Some (Inr r) \<and>
     length (code r) = digits c \<and> digits c \<in> {6, 8} \<and> (\<forall>x\<in>set (code r). is_ascii_digit x) \<and>
     1 \<le> seconds_remaining r \<and> seconds_remaining r \<le> period c \<and> period c \<le> 300"
proof -
  have v: "validate env c = Inr ()" by (rule validated_input [OF assms(2)])
  then obtain key where key: "decode_secret env (secret c) = Inr key"
    using decode_secret_validated by blast
  obtain n where n: "hotp env (algorithm c) key (now div period c) (digits c) = Some (Inr n)"
    "n < 10 ^ digits c"
    using hotp_total [OF assms(1)] by blast
  have p: "0 < period c" "period c \<le> 300" and d: "digits c \<in> {6, 8}"
    using v by (auto simp: validate_Inr_iff)
  have "now mod period c < period c" using p by simp
  then have "1 \<le> period c - now mod period c" by linarith
  moreover have "length (fmt_width (digits c) n) = digits c"
    using n(2) d by (intro length_fmt_width) auto
  moreover have "\<forall>x\<in>set (fmt_width (digits c) n). is_ascii_digit x"
    using all_digits_fmt_width by (auto simp: all_digits_def)
  ultimately show ?thesis
    using v key n(1) p d by (simp add: generate_totp_def)
qed

theorem accepted_totp_generates_witness:
  "\<exists>r. generate_totp toy_totp \<lparr>secret = str ''ABCDEFGHIJ234'', algorithm = Sha1, digits = 6, period = 30,
          issuer = None, account = None\<rparr> 59 = Some (Inr r) \<and>
     length (code r) = 6 \<and> (6::nat) \<in> {6, 8} \<and> (\<forall>x\<in>set (code r). is_ascii_digit x) \<and>
     1 \<le> seconds_remaining r \<and> seconds_remaining r \<le> 30 \<and> (30::nat) \<le> 300"
proof -
  have "parse_totp_input toy_totp (str '' abcde-fghij 234= '') = Inr \<lparr>secret = str ''ABCDEFGHIJ234'',
      algorithm = Sha1, digits = 6, period = 30, issuer = None, account = None\<rparr>"
    by (simp add: parse_totp_input_def normalize_base32_def decode_secret_def toy_totp_def
        MAX_URI_LEN_def MIN_SECRET_BYTES_def MAX_SECRET_BYTES_def text_eval)
  from accepted_totp_generates [OF toy_totp_hmac this, of 59] show ?thesis by simp
qed

end
