(* ===== verification/Updates.thy ===== *)
theory Updates
  imports Totp
begin

text \<open>
  How an edit treats a secret it does not read (\<open>SecretUpdate\<close> of
  \<^verbatim>\<open>havenkeys-core/src/model.rs\<close>): keep, set or clear. A \<open>SecretString\<close> is its text.
\<close>

datatype SecretUpdate = Keep | Set rstring | Clear

fun is_keep :: "SecretUpdate \<Rightarrow> bool" where
  "is_keep Keep \<longleftrightarrow> True"
| "is_keep _ \<longleftrightarrow> False"

fun apply_update :: "SecretUpdate \<Rightarrow> rstring option \<Rightarrow> rstring option" where
  "apply_update Keep current = current"
| "apply_update Clear current = None"
| "apply_update (Set v) current = (if v = [] then None else Some v)"

fun apply_totp :: "totp_env \<Rightarrow> SecretUpdate \<Rightarrow> totp_config option \<Rightarrow> totp_config option result" where
  "apply_totp env Keep current = Inr current"
| "apply_totp env Clear current = Inr None"
| "apply_totp env (Set v) current =
     (if trim v = [] then Inr None else and_then (parse_totp_input env v) (\<lambda>c. Inr (Some c)))"

lemma apply_update_None_or: "apply_update u c = Some v \<Longrightarrow> (u = Keep \<and> c = Some v) \<or> (u = Set v \<and> v \<noteq> [])"
  by (cases u) (auto split: if_splits)

lemma apply_totp_valid:
  assumes "apply_totp env u current = Inr (Some c)"
    and "\<And>d. current = Some d \<Longrightarrow> validate env d = Inr ()"
  shows "validate env c = Inr ()"
  using assms by (cases u) (auto simp: result_simps validated_input split: if_splits)

end
