(* ===== verification/Input.thy ===== *)
theory Input
  imports Updates
begin

text \<open>
  Shared item vocabulary and input checks of \<^verbatim>\<open>havenkeys-core/src/model.rs\<close>: item and match types,
  website rules, titles, usernames, websites and the size checks of secrets. The URL parser is an
  argument.
\<close>

section \<open>Model\<close>

definition MAX_TITLE_CHARS :: nat where "MAX_TITLE_CHARS = 256"
definition MAX_USERNAME_CHARS :: nat where "MAX_USERNAME_CHARS = 512"
definition MAX_URLS :: nat where "MAX_URLS = 32"
definition MAX_URL_LEN :: nat where "MAX_URL_LEN = 2048"
definition MAX_PASSWORD_CHARS :: nat where "MAX_PASSWORD_CHARS = 4096"
definition MAX_NOTES_BYTES :: nat where "MAX_NOTES_BYTES = 64 * 1024"
definition MAX_NOTE_CONTENT_BYTES :: nat where "MAX_NOTE_CONTENT_BYTES = 1024 * 1024"
definition MAX_PASSWORD_HISTORY :: nat where "MAX_PASSWORD_HISTORY = 5"

datatype ItemType = TLogin | TSecureNote | TIdentity | TCard | TBankAccount

definition is_site_bound :: "ItemType \<Rightarrow> bool" where
  "is_site_bound t \<longleftrightarrow> t = TLogin \<or> t = TBankAccount"

datatype MatchType = MExact | MOrigin | MDomain

record url_rule =
  rule_url :: rstring
  match_type :: MatchType

definition clean_title :: "rstring \<Rightarrow> rstring result" where
  "clean_title title =
     (let t = trim title in
      if t = [] then Inl (InvalidInput ''title is required'')
      else if MAX_TITLE_CHARS < length t \<or> list_ex is_control t
      then Inl (InvalidInput ''title is too long or contains control characters'')
      else Inr t)"

definition clean_username :: "rstring option \<Rightarrow> rstring option result" where
  "clean_username username =
     (case username of
        None \<Rightarrow> Inr None
      | Some raw \<Rightarrow>
          let u = trim raw in
          if u = [] then Inr None
          else if MAX_USERNAME_CHARS < length u \<or> list_ex is_control u
          then Inl (InvalidInput ''username is too long or contains control characters'')
          else Inr (Some u))"

definition is_http :: "url \<Rightarrow> bool" where
  "is_http u \<longleftrightarrow> scheme u = str ''http'' \<or> scheme u = str ''https''"

definition normalize_url :: "url_parser \<Rightarrow> rstring \<Rightarrow> rstring result" where
  "normalize_url parse input =
     (let t = trim input; bad = InvalidInput ''invalid website address'' in
      if t = [] \<or> MAX_URL_LEN < str_len t then Inl bad
      else let with_scheme = (if contains (str ''://'') t then t else str ''https://'' @ t) in
        and_then (ok_or bad (parse with_scheme)) (\<lambda>u.
        and_then (ensure (is_http u) (InvalidInput ''only http and https websites are supported'')) (\<lambda>_.
        and_then (ensure (host_str u \<noteq> None \<and> host_str u \<noteq> Some []) bad) (\<lambda>_.
        and_then (ensure (url_username u = [] \<and> url_password u = None)
            (InvalidInput ''website addresses must not contain credentials'')) (\<lambda>_.
        if MAX_URL_LEN < str_len (without_fragment u) then Inl bad
        else Inr (without_fragment u))))))"

definition clean_urls :: "url_parser \<Rightarrow> url_rule list \<Rightarrow> url_rule list result" where
  "clean_urls parse urls =
     (if MAX_URLS < length urls then Inl (InvalidInput ''too many websites'')
      else collect_results (\<lambda>r. and_then (normalize_url parse (rule_url r)) (\<lambda>u.
             Inr \<lparr>rule_url = u, match_type = match_type r\<rparr>))
           (filter (\<lambda>r. trim (rule_url r) \<noteq> []) urls))"

definition check_password :: "rstring \<Rightarrow> unit result" where
  "check_password p = ensure (\<not> MAX_PASSWORD_CHARS < length p) (InvalidInput ''password is too long'')"

definition check_notes :: "rstring \<Rightarrow> unit result" where
  "check_notes n = ensure (\<not> MAX_NOTES_BYTES < str_len n) (InvalidInput ''notes are too long'')"

definition check_note_content :: "rstring \<Rightarrow> unit result" where
  "check_note_content n = ensure (\<not> MAX_NOTE_CONTENT_BYTES < str_len n) (InvalidInput ''note is too long'')"

text \<open>A check on an optional value: \<open>if let Some(v) = \<dots>\<close>.\<close>

definition check_some :: "('a \<Rightarrow> unit result) \<Rightarrow> 'a option \<Rightarrow> unit result" where
  "check_some f v = (case v of Some x \<Rightarrow> f x | None \<Rightarrow> Inr ())"

section \<open>Properties\<close>

lemma check_some_Inr_iff [result_simps]:
  "check_some f v = Inr u \<longleftrightarrow> (\<forall>x. v = Some x \<longrightarrow> f x = Inr ())"
  by (cases v) (auto simp: check_some_def)

lemma clean_title_Inr_iff:
  "clean_title s = Inr t \<longleftrightarrow> t = trim s \<and> t \<noteq> [] \<and> length t \<le> 256 \<and> (\<forall>c\<in>set t. \<not> is_control c)"
  by (auto simp: clean_title_def Let_def MAX_TITLE_CHARS_def list_ex_iff)

definition title_form :: "rstring \<Rightarrow> bool" where
  "title_form t \<longleftrightarrow> trimmed t \<and> t \<noteq> [] \<and> length t \<le> 256 \<and> (\<forall>c\<in>set t. \<not> is_control c)"

interpretation title: normaliser clean_title title_form
  by unfold_locales (auto simp: clean_title_Inr_iff title_form_def trimmed_fixed)

lemma normalize_url_Inr:
  assumes "normalize_url parse s = Inr w"
  obtains t u where "parse t = Some u" and "is_http u" and "w = without_fragment u"
    and "str_len w \<le> 2048" and "host_str u \<noteq> None" and "url_username u = []" and "url_password u = None"
    and "t = trim s \<or> t = str ''https://'' @ trim s"
  using assms that
  by (auto simp: normalize_url_def Let_def result_simps MAX_URL_LEN_def split: if_splits)

lemma clean_urls_length:
  assumes "clean_urls parse urls = Inr ws"
  shows "length ws \<le> 32"
proof -
  have "length ws = length (filter (\<lambda>r. trim (rule_url r) \<noteq> []) urls)" and "length urls \<le> 32"
    using assms by (auto simp: clean_urls_def MAX_URLS_def dest!: collect_results_length split: if_splits)
  then show ?thesis using length_filter_le [of "\<lambda>r. trim (rule_url r) \<noteq> []" urls] by linarith
qed

end
