(* ===== verification/Identity.thy ===== *)
theory Identity
  imports Input
begin

text \<open>
  The identity item (\<^verbatim>\<open>havenkeys-core/src/identity.rs\<close>): cleaning of its values, calendar dates,
  the derived fill values and the formatted address. Unicode lower-casing and the URL parser are
  arguments. Integer division in the source is on non-negative values, where Rust's and HOL's
  division agree; \<open>div_euclid\<close> by a positive number is HOL's \<open>div\<close>.
\<close>

section \<open>Model\<close>

definition MAX_NAME_CHARS :: nat where "MAX_NAME_CHARS = 256"
definition MAX_DOCUMENT_CHARS :: nat where "MAX_DOCUMENT_CHARS = 64"
definition MAX_EMAIL_CHARS :: nat where "MAX_EMAIL_CHARS = 512"
definition MAX_PHONE_CHARS :: nat where "MAX_PHONE_CHARS = 32"
definition MAX_SHORT_CHARS :: nat where "MAX_SHORT_CHARS = 32"
definition MAX_CUSTOM_FIELDS :: nat where "MAX_CUSTOM_FIELDS = 50"
definition MAX_CUSTOM_LABEL_CHARS :: nat where "MAX_CUSTOM_LABEL_CHARS = 128"
definition MAX_CUSTOM_VALUE_CHARS :: nat where "MAX_CUSTOM_VALUE_CHARS = 4096"
definition MAX_IDENTITY_NOTES_BYTES :: nat where "MAX_IDENTITY_NOTES_BYTES = 64 * 1024"
definition MAX_WEBSITE_LEN :: nat where "MAX_WEBSITE_LEN = 2048"
definition MIN_BIRTH_YEAR :: int where "MIN_BIRTH_YEAR = 1850"

record id_custom =
  ic_label :: rstring
  ic_value :: rstring
  ic_hidden :: bool

record identity_fields =
  id_first_name :: "rstring option"
  id_middle_name :: "rstring option"
  id_last_name :: "rstring option"
  id_gender :: "rstring option"
  id_birth_date :: "rstring option"
  id_occupation :: "rstring option"
  id_company :: "rstring option"
  id_job_title :: "rstring option"
  id_cpf :: "rstring option"
  id_rg :: "rstring option"
  id_passport :: "rstring option"
  id_drivers_license :: "rstring option"
  id_email :: "rstring option"
  id_mobile_phone :: "rstring option"
  id_home_phone :: "rstring option"
  id_work_phone :: "rstring option"
  id_street :: "rstring option"
  id_number :: "rstring option"
  id_complement :: "rstring option"
  id_neighborhood :: "rstring option"
  id_city :: "rstring option"
  id_state :: "rstring option"
  id_postal_code :: "rstring option"
  id_country :: "rstring option"
  id_username :: "rstring option"
  id_website :: "rstring option"
  id_custom_fields :: "id_custom list"
  id_notes :: "rstring option"

datatype IdentityField =
    IdFirstName | IdMiddleName | IdLastName | IdGender | IdBirthDate | IdOccupation
  | IdCompany | IdJobTitle | IdCpf | IdRg | IdPassport | IdDriversLicense | IdEmail
  | IdMobilePhone | IdHomePhone | IdWorkPhone | IdStreet | IdNumber | IdComplement
  | IdNeighborhood | IdCity | IdState | IdPostalCode | IdCountry | IdUsername | IdWebsite
  | IdNotes
  | IdAddress

datatype FillRole =
    FillFullName | FillFirstName | FillMiddleName | FillLastName | FillEmail | FillPhone
  | FillBirthDate | FillBirthDay | FillBirthMonth | FillBirthYear | FillCompany | FillStreet
  | FillNumber | FillComplement | FillAddressLine1 | FillAddressLine2 | FillNeighborhood
  | FillCity | FillState | FillPostalCode | FillCountry | FillUsername | FillCpf | FillRg
  | FillPassport | FillDriversLicense

definition is_document :: "FillRole \<Rightarrow> bool" where
  "is_document r \<longleftrightarrow> r \<in> {FillCpf, FillRg, FillPassport, FillDriversLicense}"

datatype Allow = ALine | AText | APhone

fun allowed :: "rstring \<Rightarrow> Allow \<Rightarrow> bool" where
  "allowed v ALine \<longleftrightarrow> \<not> list_ex is_control v"
| "allowed v AText \<longleftrightarrow> \<not> list_ex (\<lambda>c. is_control c \<and> c \<noteq> 10 \<and> c \<noteq> 9 \<and> c \<noteq> 13) v"
| "allowed v APhone \<longleftrightarrow> list_all (\<lambda>c. is_ascii_digit c \<or> c \<in> {32, 43, 40, 41, 45, 46}) v"

definition clean_value :: "rstring option \<Rightarrow> nat \<Rightarrow> Allow \<Rightarrow> string \<Rightarrow> rstring option result" where
  "clean_value v max_chars allow what =
     (case v of
        None \<Rightarrow> Inr None
      | Some raw \<Rightarrow>
          let t = trim raw in
          if t = [] then Inr None
          else if max_chars < length t \<or> \<not> allowed t allow then Inl (InvalidInput what)
          else Inr (Some t))"

subsection \<open>Dates\<close>

definition days_from_civil :: "int \<Rightarrow> int \<Rightarrow> int \<Rightarrow> int" where
  "days_from_civil y0 m d =
     (let y = (if m \<le> 2 then y0 - 1 else y0);
          era = y div 400;
          yoe = y - era * 400;
          mp = (m + 9) mod 12;
          doy = (153 * mp + 2) div 5 + d - 1;
          doe = yoe * 365 + yoe div 4 - yoe div 100 + doy
      in era * 146097 + doe - 719468)"

definition leap_year :: "int \<Rightarrow> bool" where
  "leap_year y \<longleftrightarrow> (y mod 4 = 0 \<and> y mod 100 \<noteq> 0) \<or> y mod 400 = 0"

definition days_in_month :: "int \<Rightarrow> int \<Rightarrow> int" where
  "days_in_month y m =
     (if m \<in> {1, 3, 5, 7, 8, 10, 12} then 31
      else if m \<in> {4, 6, 9, 11} then 30
      else if leap_year y then 29 else 28)"

text \<open>
  The slices of \<open>parse_ymd\<close> are cut at bytes 0, 4, 5, 7, 8 and 10; with hyphens at bytes 4 and 7
  these are character boundaries, so the slices are taken of the UTF-8 bytes.
\<close>

definition ymd_num :: "nat list \<Rightarrow> int option" where
  "ymd_num part = (if all_digits part then map_option int (parse_uint (2 ^ 63 - 1) part) else None)"

definition parse_ymd :: "rstring \<Rightarrow> (int \<times> int \<times> int) option" where
  "parse_ymd v =
     (let b = utf8 v in
      if length b \<noteq> 10 \<or> b ! 4 \<noteq> 45 \<or> b ! 7 \<noteq> 45 then None
      else Option.bind (ymd_num (take 4 b)) (\<lambda>y.
           Option.bind (ymd_num (take 2 (drop 5 b))) (\<lambda>m.
           Option.bind (ymd_num (drop 8 b)) (\<lambda>d.
           if y < 1 \<or> \<not> (1 \<le> m \<and> m \<le> 12) \<or> d < 1 \<or> days_in_month y m < d then None
           else Some (y, m, d)))))"

definition check_birth_date :: "rstring \<Rightarrow> int \<Rightarrow> unit result" where
  "check_birth_date v now_ms =
     (let bad = InvalidInput ''birth date must be a past date as YYYY-MM-DD'' in
      and_then (ok_or bad (parse_ymd v)) (\<lambda>(y, m, d).
      if y < MIN_BIRTH_YEAR \<or> now_ms div 86400000 < days_from_civil y m d then Inl bad else Inr ()))"

subsection \<open>Cleaning\<close>

definition clean_id_custom :: "id_custom \<Rightarrow> id_custom option result" where
  "clean_id_custom c =
     and_then (clean_value (Some (ic_value c)) MAX_CUSTOM_VALUE_CHARS AText
         ''custom field value is too long or contains control characters'') (\<lambda>v.
     case v of
       None \<Rightarrow> Inr None
     | Some value \<Rightarrow>
         and_then (clean_value (Some (ic_label c)) MAX_CUSTOM_LABEL_CHARS ALine
             ''custom field label is too long or contains control characters'') (\<lambda>l.
         and_then (ok_or (InvalidInput ''a custom field needs a label'') l) (\<lambda>label.
         Inr (Some \<lparr>ic_label = label, ic_value = value, ic_hidden = ic_hidden c\<rparr>))))"

definition clean_id_notes :: "rstring option \<Rightarrow> rstring option result" where
  "clean_id_notes n = (case n of
       None \<Rightarrow> Inr None
     | Some s \<Rightarrow> if trim s = [] then Inr None
                 else if MAX_IDENTITY_NOTES_BYTES < str_len s then Inl (InvalidInput ''notes are too long'')
                 else Inr (Some s))"

definition clean_website :: "url_parser \<Rightarrow> rstring option \<Rightarrow> rstring option result" where
  "clean_website parse w =
     and_then (clean_value w MAX_WEBSITE_LEN ALine ''invalid website address'') (\<lambda>v.
     case v of
       Some s \<Rightarrow> and_then (normalize_url parse s) (\<lambda>u. Inr (Some u))
     | None \<Rightarrow> Inr None)"

definition clean_identity :: "url_parser \<Rightarrow> identity_fields \<Rightarrow> int \<Rightarrow> identity_fields result" where
  "clean_identity parse f now_ms =
     and_then (clean_value (id_birth_date f) 10 ALine ''invalid birth date'') (\<lambda>c_birth_date.
     and_then (check_some (\<lambda>b. check_birth_date b now_ms) c_birth_date) (\<lambda>_.
     and_then (clean_website parse (id_website f)) (\<lambda>c_website.
     and_then (clean_id_notes (id_notes f)) (\<lambda>c_notes.
     and_then (ensure (\<not> MAX_CUSTOM_FIELDS < length (id_custom_fields f))
         (InvalidInput ''too many custom fields'')) (\<lambda>_.
     and_then (collect_results clean_id_custom (id_custom_fields f)) (\<lambda>c_custom.
     and_then (clean_value (id_first_name f) MAX_NAME_CHARS ALine ''first name is invalid'') (\<lambda>c_first_name.
     and_then (clean_value (id_middle_name f) MAX_NAME_CHARS ALine ''middle name is invalid'') (\<lambda>c_middle_name.
     and_then (clean_value (id_last_name f) MAX_NAME_CHARS ALine ''last name is invalid'') (\<lambda>c_last_name.
     and_then (clean_value (id_gender f) MAX_NAME_CHARS ALine ''gender is invalid'') (\<lambda>c_gender.
     and_then (clean_value (id_occupation f) MAX_NAME_CHARS ALine ''occupation is invalid'') (\<lambda>c_occupation.
     and_then (clean_value (id_company f) MAX_NAME_CHARS ALine ''company is invalid'') (\<lambda>c_company.
     and_then (clean_value (id_job_title f) MAX_NAME_CHARS ALine ''job title is invalid'') (\<lambda>c_job_title.
     and_then (clean_value (id_cpf f) MAX_DOCUMENT_CHARS ALine ''CPF is invalid'') (\<lambda>c_cpf.
     and_then (clean_value (id_rg f) MAX_DOCUMENT_CHARS ALine ''RG is invalid'') (\<lambda>c_rg.
     and_then (clean_value (id_passport f) MAX_DOCUMENT_CHARS ALine ''passport number is invalid'') (\<lambda>c_passport.
     and_then (clean_value (id_drivers_license f) MAX_DOCUMENT_CHARS ALine (''driver'' @ [CHR 39] @ ''s license is invalid'')) (\<lambda>c_drivers_license.
     and_then (clean_value (id_email f) MAX_EMAIL_CHARS ALine ''email is invalid'') (\<lambda>c_email.
     and_then (clean_value (id_mobile_phone f) MAX_PHONE_CHARS APhone ''mobile phone is invalid'') (\<lambda>c_mobile_phone.
     and_then (clean_value (id_home_phone f) MAX_PHONE_CHARS APhone ''home phone is invalid'') (\<lambda>c_home_phone.
     and_then (clean_value (id_work_phone f) MAX_PHONE_CHARS APhone ''work phone is invalid'') (\<lambda>c_work_phone.
     and_then (clean_value (id_street f) MAX_NAME_CHARS ALine ''street is invalid'') (\<lambda>c_street.
     and_then (clean_value (id_number f) MAX_SHORT_CHARS ALine ''address number is invalid'') (\<lambda>c_number.
     and_then (clean_value (id_complement f) MAX_NAME_CHARS ALine ''address complement is invalid'') (\<lambda>c_complement.
     and_then (clean_value (id_neighborhood f) MAX_NAME_CHARS ALine ''neighborhood is invalid'') (\<lambda>c_neighborhood.
     and_then (clean_value (id_city f) MAX_NAME_CHARS ALine ''city is invalid'') (\<lambda>c_city.
     and_then (clean_value (id_state f) MAX_NAME_CHARS ALine ''state is invalid'') (\<lambda>c_state.
     and_then (clean_value (id_postal_code f) MAX_SHORT_CHARS ALine ''postal code is invalid'') (\<lambda>c_postal_code.
     and_then (clean_value (id_country f) MAX_NAME_CHARS ALine ''country is invalid'') (\<lambda>c_country.
     and_then (clean_value (id_username f) MAX_EMAIL_CHARS ALine ''username is invalid'') (\<lambda>c_username.
     Inr \<lparr>id_first_name = c_first_name, id_middle_name = c_middle_name, id_last_name = c_last_name,
        id_gender = c_gender, id_birth_date = c_birth_date, id_occupation = c_occupation, id_company =
        c_company, id_job_title = c_job_title, id_cpf = c_cpf, id_rg = c_rg, id_passport = c_passport,
        id_drivers_license = c_drivers_license, id_email = c_email, id_mobile_phone = c_mobile_phone,
        id_home_phone = c_home_phone, id_work_phone = c_work_phone, id_street = c_street, id_number =
        c_number, id_complement = c_complement, id_neighborhood = c_neighborhood, id_city = c_city,
        id_state = c_state, id_postal_code = c_postal_code, id_country = c_country, id_username =
        c_username, id_website = c_website,
        id_custom_fields = somes c_custom, id_notes = c_notes\<rparr>))))))))))))))))))))))))))))))"

subsection \<open>Derived values\<close>

definition display_name :: "identity_fields \<Rightarrow> rstring" where
  "display_name f = join (str '' '') (filter (\<lambda>s. s \<noteq> [])
     (map trim (somes [id_first_name f, id_middle_name f, id_last_name f])))"

definition date_part :: "identity_fields \<Rightarrow> nat \<Rightarrow> rstring option" where
  "date_part f i =
     (case id_birth_date f of
        None \<Rightarrow> None
      | Some d \<Rightarrow> let ps = split_at 45 d in
          if i < length ps
          then Some (if i = 0 then ps ! i else dropWhile (\<lambda>c. c = 48) (ps ! i)) else None)"

fun fill_value :: "identity_fields \<Rightarrow> FillRole \<Rightarrow> rstring option" where
  "fill_value f FillFullName = (if display_name f = [] then None else Some (display_name f))"
| "fill_value f FillFirstName = id_first_name f"
| "fill_value f FillMiddleName = id_middle_name f"
| "fill_value f FillLastName = id_last_name f"
| "fill_value f FillEmail = id_email f"
| "fill_value f FillPhone = (case id_mobile_phone f of Some p \<Rightarrow> Some p | None \<Rightarrow>
       (case id_home_phone f of Some p \<Rightarrow> Some p | None \<Rightarrow> id_work_phone f))"
| "fill_value f FillBirthDate = id_birth_date f"
| "fill_value f FillBirthDay = date_part f 2"
| "fill_value f FillBirthMonth = date_part f 1"
| "fill_value f FillBirthYear = date_part f 0"
| "fill_value f FillCompany = id_company f"
| "fill_value f FillStreet = id_street f"
| "fill_value f FillNumber = id_number f"
| "fill_value f FillComplement = id_complement f"
| "fill_value f FillAddressLine1 = (case (id_street f, id_number f) of
       (Some s, Some n) \<Rightarrow> Some (s @ str '', '' @ n) | (None, n) \<Rightarrow> n | (s, None) \<Rightarrow> s)"
| "fill_value f FillAddressLine2 = id_complement f"
| "fill_value f FillNeighborhood = id_neighborhood f"
| "fill_value f FillCity = id_city f"
| "fill_value f FillState = id_state f"
| "fill_value f FillPostalCode = id_postal_code f"
| "fill_value f FillCountry = id_country f"
| "fill_value f FillUsername = id_username f"
| "fill_value f FillCpf = id_cpf f"
| "fill_value f FillRg = id_rg f"
| "fill_value f FillPassport = id_passport f"
| "fill_value f FillDriversLicense = id_drivers_license f"

definition filled_field_names :: "identity_fields \<Rightarrow> string list" where
  "filled_field_names f = map fst (filter (\<lambda>(n, v). v \<noteq> None \<and> v \<noteq> Some [])
     [(''first_name'', id_first_name f),
      (''middle_name'', id_middle_name f),
      (''last_name'', id_last_name f),
      (''gender'', id_gender f),
      (''birth_date'', id_birth_date f),
      (''occupation'', id_occupation f),
      (''company'', id_company f),
      (''job_title'', id_job_title f),
      (''cpf'', id_cpf f),
      (''rg'', id_rg f),
      (''passport'', id_passport f),
      (''drivers_license'', id_drivers_license f),
      (''email'', id_email f),
      (''mobile_phone'', id_mobile_phone f),
      (''home_phone'', id_home_phone f),
      (''work_phone'', id_work_phone f),
      (''street'', id_street f),
      (''number'', id_number f),
      (''complement'', id_complement f),
      (''neighborhood'', id_neighborhood f),
      (''city'', id_city f),
      (''state'', id_state f),
      (''postal_code'', id_postal_code f),
      (''country'', id_country f),
      (''username'', id_username f),
      (''website'', id_website f),
      (''notes'', id_notes f)])"

definition join_parts :: "rstring option list \<Rightarrow> rstring \<Rightarrow> rstring option" where
  "join_parts ps sep = (if somes ps = [] then None else Some (join sep (somes ps)))"

text \<open>The en dash between spaces, code point 8211.\<close>

definition DASH :: rstring where "DASH = [32, 8211, 32]"

definition formatted_address :: "(rstring \<Rightarrow> rstring) \<Rightarrow> identity_fields \<Rightarrow> rstring option" where
  "formatted_address lower f =
     (let brazil = (case id_country f of
            Some c \<Rightarrow> lower (trim c) \<in> {str ''brazil'', str ''brasil'', str ''br''} | None \<Rightarrow> False) in
      if brazil then
        join_parts
          [join_parts [join_parts [id_street f, id_number f] (str '', ''), id_complement f] DASH,
           id_neighborhood f,
           join_parts [id_city f, id_state f] DASH,
           map_option (\<lambda>p. str ''CEP '' @ p) (id_postal_code f),
           id_country f] [10]
      else
        join_parts
          [join_parts [join_parts [id_street f, id_number f] (str '' ''), id_complement f] (str '', ''),
           id_neighborhood f,
           join_parts [join_parts [id_city f, id_state f] (str '', ''), id_postal_code f] (str '' ''),
           id_country f] [10])"

fun identity_value :: "(rstring \<Rightarrow> rstring) \<Rightarrow> identity_fields \<Rightarrow> IdentityField \<Rightarrow> rstring option" where
  "identity_value lower f IdFirstName = id_first_name f"
| "identity_value lower f IdMiddleName = id_middle_name f"
| "identity_value lower f IdLastName = id_last_name f"
| "identity_value lower f IdGender = id_gender f"
| "identity_value lower f IdBirthDate = id_birth_date f"
| "identity_value lower f IdOccupation = id_occupation f"
| "identity_value lower f IdCompany = id_company f"
| "identity_value lower f IdJobTitle = id_job_title f"
| "identity_value lower f IdCpf = id_cpf f"
| "identity_value lower f IdRg = id_rg f"
| "identity_value lower f IdPassport = id_passport f"
| "identity_value lower f IdDriversLicense = id_drivers_license f"
| "identity_value lower f IdEmail = id_email f"
| "identity_value lower f IdMobilePhone = id_mobile_phone f"
| "identity_value lower f IdHomePhone = id_home_phone f"
| "identity_value lower f IdWorkPhone = id_work_phone f"
| "identity_value lower f IdStreet = id_street f"
| "identity_value lower f IdNumber = id_number f"
| "identity_value lower f IdComplement = id_complement f"
| "identity_value lower f IdNeighborhood = id_neighborhood f"
| "identity_value lower f IdCity = id_city f"
| "identity_value lower f IdState = id_state f"
| "identity_value lower f IdPostalCode = id_postal_code f"
| "identity_value lower f IdCountry = id_country f"
| "identity_value lower f IdUsername = id_username f"
| "identity_value lower f IdWebsite = id_website f"
| "identity_value lower f IdNotes = id_notes f"
| "identity_value lower f IdAddress = formatted_address lower f"

section \<open>Properties\<close>

definition value_form :: "nat \<Rightarrow> Allow \<Rightarrow> rstring option \<Rightarrow> bool" where
  "value_form mx al v \<longleftrightarrow>
     (\<forall>s. v = Some s \<longrightarrow> trimmed s \<and> s \<noteq> [] \<and> length s \<le> mx \<and> allowed s al)"

lemma clean_value_form: "clean_value v mx al what = Inr r \<Longrightarrow> value_form mx al r"
  by (auto simp: clean_value_def value_form_def Let_def split: option.splits if_splits)

lemma clean_value_fixed: "value_form mx al v \<Longrightarrow> clean_value v mx al what = Inr v"
  by (auto simp: clean_value_def value_form_def Let_def trimmed_fixed split: option.splits)

interpretation id_value: normaliser "\<lambda>v. clean_value v mx al what" "value_form mx al"
  by unfold_locales (auto intro: clean_value_form clean_value_fixed)


subsection \<open>Dates\<close>

definition next_day :: "int \<Rightarrow> int \<Rightarrow> int \<Rightarrow> int \<times> int \<times> int" where
  "next_day y m d =
     (if d < days_in_month y m then (y, m, d + 1) else if m < 12 then (y, m + 1, 1) else (y + 1, 1, 1))"

lemma month_cases:
  "1 \<le> m \<Longrightarrow> m \<le> 12 \<Longrightarrow>
   m = 1 \<or> m = 2 \<or> m = 3 \<or> m = 4 \<or> m = 5 \<or> m = 6 \<or> m = 7 \<or> m = 8 \<or> m = 9 \<or> m = 10 \<or> m = 11 \<or> m = (12 :: int)"
  by presburger

lemma days_from_civil_day: "days_from_civil y m (d + 1) = days_from_civil y m d + 1"
  by (simp add: days_from_civil_def Let_def)

text \<open>The years before and after the end of February are one leap day apart.\<close>

definition year_days :: "int \<Rightarrow> int" where
  "year_days y = y div 400 * 146097 + ((y - y div 400 * 400) * 365 + (y - y div 400 * 400) div 4
     - (y - y div 400 * 400) div 100)"

lemma days_from_civil_year_days:
  "days_from_civil y m d = year_days (if m \<le> 2 then y - 1 else y)
     + ((153 * ((m + 9) mod 12) + 2) div 5 + d - 1) - 719468"
  by (simp add: days_from_civil_def year_days_def Let_def)

lemma year_days_plain: "year_days y = 365 * y + y div 4 - y div 100 + y div 400"
proof -
  define e where "e = y div 400"
  define r where "r = y mod 400"
  have y: "y = 400 * e + r" by (simp add: e_def r_def)
  have "(400 * e + r) div 4 = 100 * e + r div 4" "(400 * e + r) div 100 = 4 * e + r div 100"
    by simp_all
  moreover have "y - y div 400 * 400 = r" by (simp add: r_def minus_div_mult_eq_mod)
  ultimately show ?thesis unfolding year_days_def e_def [symmetric] by (simp add: y)
qed

lemma div_succ: "0 < k \<Longrightarrow> y div k - (y - 1) div k = (if y mod k = 0 then 1 else 0)" for k y :: int
proof -
  assume k: "0 < k"
  define q where "q = y div k"
  define r where "r = y mod k"
  have y: "y = k * q + r" and r: "0 \<le> r" "r < k" using k by (simp_all add: q_def r_def)
  show ?thesis
  proof (cases "r = 0")
    case True
    then have eq: "y - 1 = k * (q - 1) + (k - 1)" by (simp add: y algebra_simps)
    have "(y - 1) div k = q - 1" unfolding eq using k by simp
    then show ?thesis using True by (simp add: q_def r_def)
  next
    case False
    have eq: "y - 1 = k * q + (r - 1)" by (simp add: y)
    have "(y - 1) div k = q" unfolding eq using k r False by (simp add: div_pos_pos_trivial)
    then show ?thesis using False by (simp add: q_def r_def)
  qed
qed

lemma year_days_succ: "year_days y - year_days (y - 1) = 365 + (if leap_year y then 1 else 0)"
proof -
  have m: "y mod 400 = 0 \<Longrightarrow> y mod 100 = 0" "y mod 100 = 0 \<Longrightarrow> y mod 4 = 0"
    using dvd_trans [of 100 400 y] dvd_trans [of 4 100 y] by (simp_all add: dvd_eq_mod_eq_0)
  have "year_days y - year_days (y - 1) = 365 + (y div 4 - (y - 1) div 4)
      - (y div 100 - (y - 1) div 100) + (y div 400 - (y - 1) div 400)"
    unfolding year_days_plain by algebra
  also have "\<dots> = 365 + (if y mod 4 = 0 then 1 else 0) - (if y mod 100 = 0 then 1 else 0)
      + (if y mod 400 = 0 then 1 else 0)"
    by (simp only: div_succ zero_less_numeral)
  also have "\<dots> = 365 + (if leap_year y then 1 else 0)"
    using m unfolding leap_year_def by (cases "y mod 400 = 0"; cases "y mod 100 = 0"; cases "y mod 4 = 0") simp_all
  finally show ?thesis .
qed

lemma days_from_civil_month:
  assumes "1 \<le> m" "m < 12"
  shows "days_from_civil y (m + 1) 1 = days_from_civil y m (days_in_month y m) + 1"
proof (cases "m = 2")
  case True
  with year_days_succ [of y] show ?thesis
    by (cases "leap_year y") (simp_all add: days_from_civil_year_days days_in_month_def)
next
  case False
  with month_cases [of m] assms
  have "m = 1 \<or> m = 3 \<or> m = 4 \<or> m = 5 \<or> m = 6 \<or> m = 7 \<or> m = 8 \<or> m = 9 \<or> m = 10 \<or> m = 11" by auto
  then show ?thesis
    by (elim disjE) (simp_all add: days_from_civil_year_days days_in_month_def)
qed

lemma days_from_civil_year: "days_from_civil (y + 1) 1 1 = days_from_civil y 12 31 + 1"
  by (simp add: days_from_civil_year_days)

subsection \<open>Limits\<close>

definition identity_limits :: "identity_fields \<Rightarrow> (rstring option \<times> nat \<times> Allow) list" where
  "identity_limits f =
     [(id_first_name f, 256, ALine),
      (id_middle_name f, 256, ALine),
      (id_last_name f, 256, ALine),
      (id_gender f, 256, ALine),
      (id_occupation f, 256, ALine),
      (id_company f, 256, ALine),
      (id_job_title f, 256, ALine),
      (id_cpf f, 64, ALine),
      (id_rg f, 64, ALine),
      (id_passport f, 64, ALine),
      (id_drivers_license f, 64, ALine),
      (id_email f, 512, ALine),
      (id_mobile_phone f, 32, APhone),
      (id_home_phone f, 32, APhone),
      (id_work_phone f, 32, APhone),
      (id_street f, 256, ALine),
      (id_number f, 32, ALine),
      (id_complement f, 256, ALine),
      (id_neighborhood f, 256, ALine),
      (id_city f, 256, ALine),
      (id_state f, 256, ALine),
      (id_postal_code f, 32, ALine),
      (id_country f, 256, ALine),
      (id_username f, 512, ALine)]"

lemmas identity_max_defs =
  MAX_NAME_CHARS_def MAX_DOCUMENT_CHARS_def MAX_EMAIL_CHARS_def MAX_PHONE_CHARS_def MAX_SHORT_CHARS_def

lemma clean_identity_values:
  assumes "clean_identity parse f now = Inr g"
  shows "\<forall>(v, mx, al)\<in>set (identity_limits g). value_form mx al v"
  using assms unfolding clean_identity_def and_then_Inr_iff ensure_Inr_iff
  by (clarsimp simp: identity_limits_def identity_max_defs clean_value_form)

lemma clean_identity_birth:
  assumes "clean_identity parse f now = Inr g" and "id_birth_date g = Some b"
  shows "\<exists>y m d. parse_ymd b = Some (y, m, d) \<and> 1850 \<le> y \<and> days_from_civil y m d \<le> now div 86400000"
  using assms unfolding clean_identity_def and_then_Inr_iff ensure_Inr_iff
  by (clarsimp simp: check_some_def check_birth_date_def Let_def and_then_Inr_iff ok_or_Inr_iff
      MIN_BIRTH_YEAR_def not_less split: if_splits)

lemma length_somes: "length (somes xs) \<le> length xs"
  by (induction xs) (auto simp: somes_def List.map_filter_simps split: option.splits)

lemma clean_identity_custom:
  assumes "clean_identity parse f now = Inr g"
  shows "length (id_custom_fields g) \<le> 50"
proof -
  obtain cs where "collect_results clean_id_custom (id_custom_fields f) = Inr cs"
    and "id_custom_fields g = somes cs" and "\<not> MAX_CUSTOM_FIELDS < length (id_custom_fields f)"
    using assms unfolding clean_identity_def and_then_Inr_iff ensure_Inr_iff by clarsimp
  then show ?thesis
    using collect_results_length [of clean_id_custom] length_somes [of cs]
    by (fastforce simp: MAX_CUSTOM_FIELDS_def)
qed

definition empty_identity :: identity_fields where
  "empty_identity = \<lparr>id_first_name = None, id_middle_name = None, id_last_name = None, id_gender = None, id_birth_date = None, id_occupation = None, id_company = None, id_job_title = None, id_cpf = None, id_rg = None, id_passport = None, id_drivers_license = None, id_email = None, id_mobile_phone = None, id_home_phone = None, id_work_phone = None, id_street = None, id_number = None, id_complement = None, id_neighborhood = None, id_city = None, id_state = None, id_postal_code = None, id_country = None, id_username = None, id_website = None,
     id_custom_fields = [], id_notes = None\<rparr>"

subsection \<open>Claims\<close>

text \<open>
  What an accepted identity holds. Every value that \<open>clean\<close> keeps is trimmed, not empty,
  within its own length limit and of its own character class (one line for names, documents and
  addresses; digits and phone punctuation for phones); there are at most 50 custom fields; and a
  kept birth date is a real calendar date from 1850 on that is not after today (UTC).
\<close>

theorem clean_identity_limits:
  assumes "clean_identity parse f now = Inr g"
  shows "(\<forall>(v, mx, al)\<in>set (identity_limits g). \<forall>s. v = Some s \<longrightarrow>
        trimmed s \<and> s \<noteq> [] \<and> length s \<le> mx \<and> allowed s al) \<and>
     length (id_custom_fields g) \<le> 50 \<and>
     (\<forall>b. id_birth_date g = Some b \<longrightarrow>
        (\<exists>y m d. parse_ymd b = Some (y, m, d) \<and> 1850 \<le> y \<and> days_from_civil y m d \<le> now div 86400000))"
  using clean_identity_values [OF assms] clean_identity_custom [OF assms] clean_identity_birth [OF assms]
  by (auto simp: value_form_def)

theorem clean_identity_limits_witness:
  "length (id_custom_fields (empty_identity\<lparr>id_first_name := Some (str ''Ana'')\<rparr>)) \<le> 50 \<and>
   clean_identity (\<lambda>s. None) (empty_identity\<lparr>id_first_name := Some (str '' Ana '')\<rparr>) 0
     = Inr (empty_identity\<lparr>id_first_name := Some (str ''Ana'')\<rparr>)"
proof -
  have c: "clean_identity (\<lambda>s. None) (empty_identity\<lparr>id_first_name := Some (str '' Ana '')\<rparr>) 0
     = Inr (empty_identity\<lparr>id_first_name := Some (str ''Ana'')\<rparr>)"
    by (simp add: clean_identity_def empty_identity_def clean_value_def clean_website_def
        clean_id_notes_def check_some_def MAX_CUSTOM_FIELDS_def identity_max_defs text_eval)
  with clean_identity_limits [OF c] show ?thesis by blast
qed

text \<open>
  \<open>days_from_civil\<close> counts days: 1970-01-01 is day 0, and the day after any date of the
  Gregorian calendar (over month ends, leap days and year ends) has the next number. Hence the
  birth-date check compares calendar days with today's.
\<close>

theorem days_from_civil_counts:
  assumes "1 \<le> m" and "m \<le> 12" and "1 \<le> d" and "d \<le> days_in_month y m"
  shows "(case next_day y m d of (y', m', d') \<Rightarrow> days_from_civil y' m' d') = days_from_civil y m d + 1 \<and>
    days_from_civil 1970 1 1 = 0"
proof (cases "d < days_in_month y m")
  case True
  then show ?thesis
    by (simp add: next_day_def days_from_civil_day) (simp add: days_from_civil_def)
next
  case False
  then have d: "d = days_in_month y m" using assms by simp
  have "days_from_civil 1970 1 1 = 0" by (simp add: days_from_civil_def)
  with d assms days_from_civil_month [of m y] days_from_civil_year [of y] show ?thesis
    by (cases "m < 12") (auto simp: next_day_def days_in_month_def)
qed

theorem days_from_civil_counts_witness:
  "(case next_day 2024 2 29 of (y', m', d') \<Rightarrow> days_from_civil y' m' d') = days_from_civil 2024 2 29 + 1 \<and>
    days_from_civil 1970 1 1 = 0"
  by (rule days_from_civil_counts) (simp_all add: days_in_month_def leap_year_def)

end
