(* ===== verification/Custom_Fields.thy ===== *)
theory Custom_Fields
  imports Identity
begin

text \<open>
  Custom fields in sections (\<^verbatim>\<open>havenkeys-core/src/custom_field.rs\<close>): the stored form, the editor's
  layout, the views the user interface receives, and \<open>apply_sections\<close>, which rebuilds an item's
  fields from a layout. A call of \<open>Uuid::new_v4\<close> takes the next identifier of the stream
  \<open>fresh\<close>; the counter of calls is part of the loop's state.
\<close>

section \<open>Model\<close>

definition MAX_SECTIONS :: nat where "MAX_SECTIONS = 20"
definition MAX_FIELDS :: nat where "MAX_FIELDS = 100"
definition MAX_LABEL_CHARS :: nat where "MAX_LABEL_CHARS = MAX_TITLE_CHARS"
definition MAX_SHORT_VALUE_CHARS :: nat where "MAX_SHORT_VALUE_CHARS = 512"
definition MAX_TOTAL_BYTES :: nat where "MAX_TOTAL_BYTES = 256 * 1024"

definition BAD_LAYOUT :: error where
  "BAD_LAYOUT = InvalidInput (''the item'' @ [CHR 39] @ ''s fields changed; reopen it and try again'')"

record address_value =
  av_street :: "rstring option"
  av_number :: "rstring option"
  av_complement :: "rstring option"
  av_neighborhood :: "rstring option"
  av_city :: "rstring option"
  av_state :: "rstring option"
  av_postal_code :: "rstring option"
  av_country :: "rstring option"

datatype AddressPart =
  PStreet | PNumber | PComplement | PNeighborhood | PCity | PState | PPostalCode | PCountry

datatype FieldKind = KText | KUrl | KEmail | KPhone | KDate | KAddress | KPassword | KOtp

datatype FieldValue =
    VText rstring | VUrl rstring | VEmail rstring | VPhone rstring | VDate rstring
  | VAddress address_value | VPassword "rstring option" | VOtp "totp_config option"

record custom_field =
  fld_id :: uuid
  fld_label :: rstring
  fld_value :: FieldValue

record field_section =
  sec_id :: uuid
  sec_title :: "rstring option"
  sec_fields :: "custom_field list"

subsection \<open>Addresses\<close>

fun address_part :: "address_value \<Rightarrow> AddressPart \<Rightarrow> rstring option" where
  "address_part a PStreet = av_street a"
| "address_part a PNumber = av_number a"
| "address_part a PComplement = av_complement a"
| "address_part a PNeighborhood = av_neighborhood a"
| "address_part a PCity = av_city a"
| "address_part a PState = av_state a"
| "address_part a PPostalCode = av_postal_code a"
| "address_part a PCountry = av_country a"

fun pair_with :: "rstring option \<Rightarrow> rstring \<Rightarrow> rstring option \<Rightarrow> rstring option" where
  "pair_with (Some a) sep (Some b) = Some (a @ sep @ b)"
| "pair_with (Some a) sep None = Some a"
| "pair_with None sep b = b"

definition address_formatted :: "address_value \<Rightarrow> rstring" where
  "address_formatted a = join [10] (somes
     [pair_with (av_street a) (str '', '') (av_number a), av_complement a, av_neighborhood a,
      pair_with (av_city a) (str '' - '') (av_state a), av_postal_code a, av_country a])"

definition clean_address :: "address_value \<Rightarrow> address_value result" where
  "clean_address a =
     (let c = (\<lambda>v. clean_value v MAX_SHORT_VALUE_CHARS ALine
                     ''address is too long or contains control characters'') in
      and_then (c (av_street a)) (\<lambda>st.
      and_then (c (av_number a)) (\<lambda>nu.
      and_then (c (av_complement a)) (\<lambda>co.
      and_then (c (av_neighborhood a)) (\<lambda>ne.
      and_then (c (av_city a)) (\<lambda>ci.
      and_then (c (av_state a)) (\<lambda>sa.
      and_then (c (av_postal_code a)) (\<lambda>po.
      and_then (c (av_country a)) (\<lambda>cn.
      Inr \<lparr>av_street = st, av_number = nu, av_complement = co, av_neighborhood = ne, av_city = ci,
           av_state = sa, av_postal_code = po, av_country = cn\<rparr>)))))))))"

subsection \<open>Stored values\<close>

fun value_kind :: "FieldValue \<Rightarrow> FieldKind" where
  "value_kind (VText v) = KText"
| "value_kind (VUrl v) = KUrl"
| "value_kind (VEmail v) = KEmail"
| "value_kind (VPhone v) = KPhone"
| "value_kind (VDate v) = KDate"
| "value_kind (VAddress a) = KAddress"
| "value_kind (VPassword p) = KPassword"
| "value_kind (VOtp c) = KOtp"

definition is_concealed :: "FieldValue \<Rightarrow> bool" where
  "is_concealed v \<longleftrightarrow> value_kind v = KPassword \<or> value_kind v = KOtp"

fun into_text :: "FieldValue \<Rightarrow> rstring" where
  "into_text (VText v) = v"
| "into_text (VUrl v) = v"
| "into_text (VEmail v) = v"
| "into_text (VPhone v) = v"
| "into_text (VDate v) = v"
| "into_text (VAddress a) =
     concat (map (\<lambda>c. if c = 10 then str '', '' else [c]) (address_formatted a))"
| "into_text (VPassword p) = (case p of Some s \<Rightarrow> s | None \<Rightarrow> [])"
| "into_text (VOtp c) = []"

fun byte_len :: "FieldValue \<Rightarrow> nat" where
  "byte_len (VText v) = str_len v"
| "byte_len (VUrl v) = str_len v"
| "byte_len (VEmail v) = str_len v"
| "byte_len (VPhone v) = str_len v"
| "byte_len (VDate v) = str_len v"
| "byte_len (VAddress a) = str_len (address_formatted a)"
| "byte_len (VPassword p) = (case p of Some s \<Rightarrow> str_len s | None \<Rightarrow> 0)"
| "byte_len (VOtp c) = (case c of Some t \<Rightarrow> str_len (secret t) | None \<Rightarrow> 0)"

definition concealed :: "custom_field \<Rightarrow> rstring result" where
  "concealed f = (case fld_value f of
       VPassword (Some p) \<Rightarrow> Inr p
     | VPassword None \<Rightarrow> Inl NotFound
     | _ \<Rightarrow> Inl (InvalidInput ''only a password field can be revealed''))"

text \<open>The outer option is a panic of \<open>totp::generate\<close>, as in \<open>generate_totp\<close>.\<close>

definition totp_code_of :: "totp_env \<Rightarrow> custom_field \<Rightarrow> nat \<Rightarrow> totp_code result option" where
  "totp_code_of env f now = (case fld_value f of
       VOtp (Some cfg) \<Rightarrow> generate_totp env cfg now
     | VOtp None \<Rightarrow> Some (Inl NotFound)
     | _ \<Rightarrow> Some (Inl (InvalidInput ''not a one-time password field'')))"

definition found :: "rstring option \<Rightarrow> rstring result" where
  "found v = (case v of Some s \<Rightarrow> if s = [] then Inl NotFound else Inr s | None \<Rightarrow> Inl NotFound)"

definition copy_value ::
  "totp_env \<Rightarrow> custom_field \<Rightarrow> AddressPart option \<Rightarrow> nat \<Rightarrow> rstring result option" where
  "copy_value env f part now =
     (case (fld_value f, part) of
        (VAddress a, Some p) \<Rightarrow> Some (found (address_part a p))
      | (VAddress a, None) \<Rightarrow> Some (found (Some (address_formatted a)))
      | (_, Some _) \<Rightarrow> Some (Inl (InvalidInput ''only an address has parts''))
      | (VPassword p, None) \<Rightarrow> Some (found p)
      | (VOtp c, None) \<Rightarrow> map_option (\<lambda>r. and_then r (\<lambda>t. Inr (code t))) (totp_code_of env f now)
      | (v, None) \<Rightarrow> Some (found (Some (into_text v))))"

definition field_url :: "url_parser \<Rightarrow> custom_field \<Rightarrow> rstring result" where
  "field_url parse f = (case fld_value f of
       VUrl v \<Rightarrow> if v \<noteq> [] then normalize_url parse v else Inl NotFound
     | _ \<Rightarrow> Inl (InvalidInput ''not a URL field''))"

subsection \<open>The editor's layout\<close>

datatype 'o field_value_input =
    IText rstring | IUrl rstring | IEmail rstring | IPhone rstring | IDate rstring
  | IAddress address_value | IPassword SecretUpdate | IOtp 'o

record 'o field_input =
  fi_id :: "uuid option"
  fi_label :: rstring
  fi_value :: "'o field_value_input"

record 'o section_input =
  si_id :: "uuid option"
  si_title :: "rstring option"
  si_fields :: "'o field_input list"

fun input_kind :: "'o field_value_input \<Rightarrow> FieldKind" where
  "input_kind (IText v) = KText"
| "input_kind (IUrl v) = KUrl"
| "input_kind (IEmail v) = KEmail"
| "input_kind (IPhone v) = KPhone"
| "input_kind (IDate v) = KDate"
| "input_kind (IAddress a) = KAddress"
| "input_kind (IPassword u) = KPassword"
| "input_kind (IOtp o') = KOtp"

fun map_value_otp :: "('o \<Rightarrow> 'e + 'p) \<Rightarrow> 'o field_value_input \<Rightarrow> 'e + 'p field_value_input" where
  "map_value_otp f (IText v) = Inr (IText v)"
| "map_value_otp f (IUrl v) = Inr (IUrl v)"
| "map_value_otp f (IEmail v) = Inr (IEmail v)"
| "map_value_otp f (IPhone v) = Inr (IPhone v)"
| "map_value_otp f (IDate v) = Inr (IDate v)"
| "map_value_otp f (IAddress a) = Inr (IAddress a)"
| "map_value_otp f (IPassword u) = Inr (IPassword u)"
| "map_value_otp f (IOtp x) = and_then (f x) (\<lambda>y. Inr (IOtp y))"

definition try_map_otp :: "('o \<Rightarrow> 'e + 'p) \<Rightarrow> 'o section_input \<Rightarrow> 'e + 'p section_input" where
  "try_map_otp f s =
     and_then (collect_results (\<lambda>x. and_then (map_value_otp f (fi_value x)) (\<lambda>v.
         Inr \<lparr>fi_id = fi_id x, fi_label = fi_label x, fi_value = v\<rparr>)) (si_fields s)) (\<lambda>fs.
     Inr \<lparr>si_id = si_id s, si_title = si_title s, si_fields = fs\<rparr>)"

definition otp_updates :: "'o section_input \<Rightarrow> 'o list" where
  "otp_updates s = List.map_filter (\<lambda>f. case fi_value f of IOtp x \<Rightarrow> Some x | _ \<Rightarrow> None) (si_fields s)"

subsection \<open>Views\<close>

datatype FieldValueView =
    WText rstring | WUrl rstring | WEmail rstring | WPhone rstring | WDate rstring
  | WAddress address_value rstring | WPassword bool | WOtp bool

record field_view =
  fv_id :: uuid
  fv_label :: rstring
  fv_value :: FieldValueView

record section_view =
  sv_id :: uuid
  sv_title :: "rstring option"
  sv_fields :: "field_view list"

fun value_view :: "FieldValue \<Rightarrow> FieldValueView" where
  "value_view (VText v) = WText v"
| "value_view (VUrl v) = WUrl v"
| "value_view (VEmail v) = WEmail v"
| "value_view (VPhone v) = WPhone v"
| "value_view (VDate v) = WDate v"
| "value_view (VAddress a) = WAddress a (address_formatted a)"
| "value_view (VPassword p) = WPassword (p \<noteq> None)"
| "value_view (VOtp c) = WOtp (c \<noteq> None)"

definition views :: "field_section list \<Rightarrow> section_view list" where
  "views ss = map (\<lambda>s. \<lparr>sv_id = sec_id s, sv_title = sec_title s,
     sv_fields = map (\<lambda>f. \<lparr>fv_id = fld_id f, fv_label = fld_label f, fv_value = value_view (fld_value f)\<rparr>)
       (sec_fields s)\<rparr>) ss"

subsection \<open>Applying a layout\<close>

record field_env =
  fe_totp :: totp_env
  fe_parse :: url_parser
  fe_fresh :: "nat \<Rightarrow> uuid"

definition short_value :: "rstring \<Rightarrow> string \<Rightarrow> rstring result" where
  "short_value v what =
     and_then (clean_value (Some v) MAX_SHORT_VALUE_CHARS ALine what) (\<lambda>r.
     Inr (case r of Some s \<Rightarrow> s | None \<Rightarrow> []))"

fun clean_plain :: "field_env \<Rightarrow> 'o field_value_input \<Rightarrow> FieldValue result" where
  "clean_plain env (IText v) =
     (if MAX_NOTES_BYTES < str_len v then Inl (InvalidInput ''a text field is too long'') else Inr (VText v))"
| "clean_plain env (IUrl v) =
     (if trim v = [] then Inr (VUrl [])
      else and_then (normalize_url (fe_parse env) v) (\<lambda>u. Inr (VUrl u)))"
| "clean_plain env (IEmail v) =
     and_then (short_value v ''email is too long or contains control characters'') (\<lambda>s. Inr (VEmail s))"
| "clean_plain env (IPhone v) =
     and_then (short_value v ''phone is too long or contains control characters'') (\<lambda>s. Inr (VPhone s))"
| "clean_plain env (IDate v) =
     and_then (short_value v ''date must be YYYY-MM-DD'') (\<lambda>s.
     if s \<noteq> [] \<and> parse_ymd s = None then Inl (InvalidInput ''date must be YYYY-MM-DD'') else Inr (VDate s))"
| "clean_plain env (IAddress a) = and_then (clean_address a) (\<lambda>c. Inr (VAddress c))"
| "clean_plain env (IPassword u) = Inl (InvalidInput ''not a plain value'')"
| "clean_plain env (IOtp x) = Inl (InvalidInput ''not a plain value'')"

text \<open>The new value of one field, given the value it had (\<open>None\<close> for a new field).\<close>

definition apply_value ::
  "field_env \<Rightarrow> FieldValue option \<Rightarrow> SecretUpdate field_value_input \<Rightarrow> FieldValue result" where
  "apply_value env before input =
     (case input of
        IPassword u \<Rightarrow>
          if before = None \<and> is_keep u then Inl BAD_LAYOUT
          else let p = apply_update u (case before of Some (VPassword c) \<Rightarrow> c | _ \<Rightarrow> None) in
            and_then (check_some check_password p) (\<lambda>_. Inr (VPassword p))
      | IOtp u \<Rightarrow>
          if before = None \<and> is_keep u then Inl BAD_LAYOUT
          else and_then (apply_totp (fe_totp env) u (case before of Some (VOtp c) \<Rightarrow> c | _ \<Rightarrow> None))
                 (\<lambda>c. Inr (VOtp c))
      | _ \<Rightarrow> clean_plain env input)"

record layout_state =
  section_ids :: "uuid list"
  prior :: "(uuid, FieldValue) table"
  calls :: nat

definition take_field_id ::
  "field_env \<Rightarrow> uuid option \<Rightarrow> layout_state \<Rightarrow> (layout_state \<times> uuid \<times> FieldValue option) result" where
  "take_field_id env i st =
     (case i of
        None \<Rightarrow> Inr (st\<lparr>calls := Suc (calls st)\<rparr>, fe_fresh env (calls st), None)
      | Some k \<Rightarrow> (case get (prior st) k of
            Some v \<Rightarrow> Inr (st\<lparr>prior := drop_key k (prior st)\<rparr>, k, Some v)
          | None \<Rightarrow> Inl BAD_LAYOUT))"

definition apply_field ::
  "field_env \<Rightarrow> SecretUpdate field_input \<Rightarrow> layout_state \<Rightarrow> (layout_state \<times> custom_field) result" where
  "apply_field env f st =
     and_then (take_field_id env (fi_id f) st) (\<lambda>(st', k, before).
     and_then (ensure (case before of Some b \<Rightarrow> value_kind b = input_kind (fi_value f) | None \<Rightarrow> True) BAD_LAYOUT) (\<lambda>_.
     and_then (clean_value (Some (fi_label f)) MAX_LABEL_CHARS ALine
         ''field label is too long or contains control characters'') (\<lambda>l.
     and_then (ok_or (InvalidInput ''a field needs a label'') l) (\<lambda>label.
     and_then (apply_value env before (fi_value f)) (\<lambda>v.
     Inr (st', \<lparr>fld_id = k, fld_label = label, fld_value = v\<rparr>))))))"

fun apply_fields ::
  "field_env \<Rightarrow> SecretUpdate field_input list \<Rightarrow> layout_state \<Rightarrow> (layout_state \<times> custom_field list) result" where
  "apply_fields env [] st = Inr (st, [])"
| "apply_fields env (f # fs) st =
     and_then (apply_field env f st) (\<lambda>(st', g).
     and_then (apply_fields env fs st') (\<lambda>(st'', gs). Inr (st'', g # gs)))"

definition take_section_id ::
  "field_env \<Rightarrow> uuid option \<Rightarrow> layout_state \<Rightarrow> (layout_state \<times> uuid) result" where
  "take_section_id env i st =
     (case i of
        None \<Rightarrow> Inr (st\<lparr>calls := Suc (calls st)\<rparr>, fe_fresh env (calls st))
      | Some k \<Rightarrow> if k \<in> set (section_ids st)
                  then Inr (st\<lparr>section_ids := removeAll k (section_ids st)\<rparr>, k) else Inl BAD_LAYOUT)"

definition apply_section ::
  "field_env \<Rightarrow> SecretUpdate section_input \<Rightarrow> layout_state \<Rightarrow> (layout_state \<times> field_section) result" where
  "apply_section env s st =
     and_then (take_section_id env (si_id s) st) (\<lambda>(st', k).
     and_then (clean_value (si_title s) MAX_LABEL_CHARS ALine
         ''section title is too long or contains control characters'') (\<lambda>title.
     and_then (apply_fields env (si_fields s) st') (\<lambda>(st'', fs).
     Inr (st'', \<lparr>sec_id = k, sec_title = title, sec_fields = fs\<rparr>))))"

fun apply_section_list ::
  "field_env \<Rightarrow> SecretUpdate section_input list \<Rightarrow> layout_state \<Rightarrow> (layout_state \<times> field_section list) result" where
  "apply_section_list env [] st = Inr (st, [])"
| "apply_section_list env (s # ss) st =
     and_then (apply_section env s st) (\<lambda>(st', g).
     and_then (apply_section_list env ss st') (\<lambda>(st'', gs). Inr (st'', g # gs)))"

definition all_fields :: "field_section list \<Rightarrow> custom_field list" where
  "all_fields ss = concat (map sec_fields ss)"

definition layout_init :: "field_section list \<Rightarrow> layout_state" where
  "layout_init current =
     \<lparr>section_ids = map sec_id current,
      prior = fold (\<lambda>f. put (fld_id f) (fld_value f)) (all_fields current) [],
      calls = 0\<rparr>"

definition total_bytes :: "field_section list \<Rightarrow> nat" where
  "total_bytes ss = sum_list (map (\<lambda>s. (case sec_title s of Some t \<Rightarrow> str_len t | None \<Rightarrow> 0) +
     sum_list (map (\<lambda>f. str_len (fld_label f) + byte_len (fld_value f)) (sec_fields s))) ss)"

definition apply_sections ::
  "field_env \<Rightarrow> SecretUpdate section_input list option \<Rightarrow> field_section list \<Rightarrow> field_section list result" where
  "apply_sections env input current =
     (case input of
        None \<Rightarrow> Inr current
      | Some ss \<Rightarrow>
          if MAX_SECTIONS < length ss then Inl (InvalidInput ''too many sections'')
          else if MAX_FIELDS < sum_list (map (\<lambda>s. length (si_fields s)) ss)
          then Inl (InvalidInput ''too many fields'')
          else and_then (apply_section_list env ss (layout_init current)) (\<lambda>(st, out).
            if MAX_TOTAL_BYTES < total_bytes out
            then Inl (InvalidInput (''the item'' @ [CHR 39] @ ''s fields are too large''))
            else Inr out))"

section \<open>Properties\<close>

subsection \<open>Where a concealed value comes from\<close>

text \<open>
  \<open>concealed_from env P f g\<close>: the secret of the built field \<open>g\<close> was typed in the input field
  \<open>f\<close>, or \<open>f\<close> keeps it and the previous values \<open>P\<close> hold it under the same identifier.
\<close>

definition concealed_from ::
  "field_env \<Rightarrow> (uuid \<Rightarrow> FieldValue option) \<Rightarrow> SecretUpdate field_input \<Rightarrow> custom_field \<Rightarrow> bool" where
  "concealed_from env P f g \<longleftrightarrow>
     (\<forall>p. fld_value g = VPassword (Some p) \<longrightarrow>
        fi_value f = IPassword (Set p) \<or> P (fld_id g) = Some (VPassword (Some p))) \<and>
     (\<forall>c. fld_value g = VOtp (Some c) \<longrightarrow>
        (\<exists>t. fi_value f = IOtp (Set t) \<and> parse_totp_input (fe_totp env) t = Inr c) \<or>
        P (fld_id g) = Some (VOtp (Some c)))"

lemma clean_plain_kind: "clean_plain env v = Inr w \<Longrightarrow> value_kind w = input_kind v \<and> \<not> is_concealed w"
  by (cases v) (auto simp: result_simps is_concealed_def split: if_splits)

lemma apply_value_Inr:
  assumes "apply_value env b v = Inr w"
  shows "(\<exists>u p. v = IPassword u \<and> w = VPassword p \<and>
            p = apply_update u (case b of Some (VPassword c) \<Rightarrow> c | _ \<Rightarrow> None)) \<or>
    (\<exists>u c. v = IOtp u \<and> w = VOtp c \<and>
       apply_totp (fe_totp env) u (case b of Some (VOtp x) \<Rightarrow> x | _ \<Rightarrow> None) = Inr c) \<or>
    clean_plain env v = Inr w"
  using assms by (cases v) (auto simp: apply_value_def Let_def result_simps split: if_splits)

lemma take_field_id_Inr:
  assumes "take_field_id env i st = Inr (st', k, b)"
  shows "(i = None \<and> b = None \<and> k = fe_fresh env (calls st) \<and> st' = st\<lparr>calls := Suc (calls st)\<rparr>) \<or>
    (\<exists>v. i = Some k \<and> b = Some v \<and> get (prior st) k = Some v \<and> st' = st\<lparr>prior := drop_key k (prior st)\<rparr>)"
  using assms by (auto simp: take_field_id_def split: option.splits dest: sym)

lemma apply_field_Inr:
  assumes "apply_field env f st = Inr (st', g)"
  obtains b where "take_field_id env (fi_id f) st = Inr (st', fld_id g, b)"
    and "apply_value env b (fi_value f) = Inr (fld_value g)"
  using assms by (auto simp: apply_field_def result_simps)

lemma apply_field_concealed:
  assumes "apply_field env f st = Inr (st', g)"
  shows "concealed_from env (get (prior st)) f g"
proof -
  obtain b where t: "take_field_id env (fi_id f) st = Inr (st', fld_id g, b)"
    and v: "apply_value env b (fi_value f) = Inr (fld_value g)"
    using assms by (rule apply_field_Inr)
  have b: "b = Some w \<Longrightarrow> get (prior st) (fld_id g) = Some w" for w
    using take_field_id_Inr [OF t] by auto
  show ?thesis
    unfolding concealed_from_def
  proof (intro conjI allI impI)
    fix p assume "fld_value g = VPassword (Some p)"
    with apply_value_Inr [OF v]
    show "fi_value f = IPassword (Set p) \<or> get (prior st) (fld_id g) = Some (VPassword (Some p))"
      using b by (auto simp: is_concealed_def dest!: clean_plain_kind apply_update_None_or [OF sym]
          split: option.splits FieldValue.splits)
  next
    fix c assume "fld_value g = VOtp (Some c)"
    with apply_value_Inr [OF v] obtain u where u: "fi_value f = IOtp u"
      and a: "apply_totp (fe_totp env) u (case b of Some (VOtp x) \<Rightarrow> x | _ \<Rightarrow> None) = Inr (Some c)"
      by (auto simp: is_concealed_def dest!: clean_plain_kind)
    from a b show "(\<exists>t. fi_value f = IOtp (Set t) \<and> parse_totp_input (fe_totp env) t = Inr c) \<or>
        get (prior st) (fld_id g) = Some (VOtp (Some c))"
      by (cases u) (auto simp: u result_simps split: option.splits FieldValue.splits if_splits)
  qed
qed

lemma apply_field_prior:
  "apply_field env f st = Inr (st', g) \<Longrightarrow> get (prior st') k = Some v \<Longrightarrow> get (prior st) k = Some v"
  by (auto elim!: apply_field_Inr dest!: take_field_id_Inr split: if_splits)

lemma concealed_from_mono:
  "concealed_from env P f g \<Longrightarrow> (\<And>k v. P k = Some v \<Longrightarrow> Q k = Some v) \<Longrightarrow> concealed_from env Q f g"
  by (auto simp: concealed_from_def)

lemma apply_fields_concealed:
  "apply_fields env fs st = Inr (st', gs) \<Longrightarrow>
     list_all2 (concealed_from env (get (prior st))) fs gs \<and>
     (\<forall>k v. get (prior st') k = Some v \<longrightarrow> get (prior st) k = Some v)"
proof (induction fs arbitrary: st gs)
  case (Cons f fs)
  then obtain st1 g gs' where g: "apply_field env f st = Inr (st1, g)"
    and r: "apply_fields env fs st1 = Inr (st', gs')" and gs: "gs = g # gs'"
    by (auto simp: result_simps)
  have sub: "get (prior st1) k = Some v \<Longrightarrow> get (prior st) k = Some v" for k v
    using apply_field_prior [OF g] by blast
  have "list_all2 (concealed_from env (get (prior st))) fs gs'"
    using Cons.IH [OF r] sub by (auto elim!: list_all2_mono concealed_from_mono)
  with Cons.IH [OF r] sub apply_field_concealed [OF g] show ?case by (simp add: gs)
qed simp

lemma take_section_id_prior: "take_section_id env i st = Inr (st', k) \<Longrightarrow> prior st' = prior st"
  by (auto simp: take_section_id_def split: option.splits if_splits)

lemma apply_section_concealed:
  assumes "apply_section env s st = Inr (st', g)"
  shows "list_all2 (concealed_from env (get (prior st))) (si_fields s) (sec_fields g) \<and>
     (\<forall>k v. get (prior st') k = Some v \<longrightarrow> get (prior st) k = Some v)"
  using assms apply_fields_concealed by (fastforce simp: apply_section_def result_simps dest!: take_section_id_prior)

lemma apply_section_list_concealed:
  "apply_section_list env ss st = Inr (st', gs) \<Longrightarrow>
     list_all2 (\<lambda>s g. list_all2 (concealed_from env (get (prior st))) (si_fields s) (sec_fields g)) ss gs"
proof (induction ss arbitrary: st gs)
  case (Cons s ss)
  then obtain st1 g gs' where g: "apply_section env s st = Inr (st1, g)"
    and r: "apply_section_list env ss st1 = Inr (st', gs')" and gs: "gs = g # gs'"
    by (auto simp: result_simps)
  have sub: "get (prior st1) k = Some v \<Longrightarrow> get (prior st) k = Some v" for k v
    using apply_section_concealed [OF g] by blast
  have "list_all2 (\<lambda>s g. list_all2 (concealed_from env (get (prior st))) (si_fields s) (sec_fields g)) ss gs'"
    by (rule list_all2_mono [OF Cons.IH [OF r]]) (auto elim!: list_all2_mono concealed_from_mono sub)
  with apply_section_concealed [OF g] show ?case by (simp add: gs)
qed simp

lemma layout_init_prior:
  "get (prior (layout_init current)) k = Some v \<Longrightarrow>
     \<exists>f\<in>set (all_fields current). fld_id f = k \<and> fld_value f = v"
proof -
  have "get (fold (\<lambda>f. put (fld_id f) (fld_value f)) fs t) k = Some v \<Longrightarrow>
      (\<exists>f\<in>set fs. fld_id f = k \<and> fld_value f = v) \<or> get t k = Some v" for fs t
    by (induction fs arbitrary: t) (fastforce split: if_splits)+
  then show "get (prior (layout_init current)) k = Some v \<Longrightarrow> ?thesis"
    by (fastforce simp: layout_init_def)
qed

subsection \<open>Identifiers\<close>

text \<open>The field identifiers a layout can still hand out: kept ones, and those of the first \<open>N\<close> fresh
  ones that are not yet drawn.\<close>

definition field_pool :: "field_env \<Rightarrow> nat \<Rightarrow> layout_state \<Rightarrow> uuid set" where
  "field_pool env N st = {k. has_key (prior st) k} \<union> fe_fresh env ` {calls st..<N}"

definition section_pool :: "field_env \<Rightarrow> nat \<Rightarrow> layout_state \<Rightarrow> uuid set" where
  "section_pool env N st = set (section_ids st) \<union> fe_fresh env ` {calls st..<N}"

definition fresh_ok :: "field_env \<Rightarrow> nat \<Rightarrow> layout_state \<Rightarrow> bool" where
  "fresh_ok env N st \<longleftrightarrow> inj_on (fe_fresh env) {..<N} \<and>
     (\<forall>n<N. \<not> has_key (prior st) (fe_fresh env n) \<and> fe_fresh env n \<notin> set (section_ids st))"

lemma fresh_notin: "inj_on f {..<N} \<Longrightarrow> n < N \<Longrightarrow> f n \<notin> f ` {Suc n..<N}"
  by (auto dest: inj_onD)

lemma apply_field_pool:
  assumes "apply_field env f st = Inr (st', g)" and "fresh_ok env N st" and "calls st < N"
  shows "fresh_ok env N st' \<and> calls st' \<le> Suc (calls st) \<and> fld_id g \<in> field_pool env N st \<and> fld_id g \<notin> field_pool env N st' \<and>
    field_pool env N st' \<subseteq> field_pool env N st \<and> section_pool env N st' \<subseteq> section_pool env N st"
proof -
  obtain b where "take_field_id env (fi_id f) st = Inr (st', fld_id g, b)"
    using assms(1) by (rule apply_field_Inr)
  from take_field_id_Inr [OF this] show ?thesis
  proof
    assume "fi_id f = None \<and> b = None \<and> fld_id g = fe_fresh env (calls st) \<and> st' = st\<lparr>calls := Suc (calls st)\<rparr>"
    with assms(2,3) fresh_notin [of "fe_fresh env" N "calls st"] show ?thesis
      by (auto simp: fresh_ok_def field_pool_def section_pool_def)
  next
    assume "\<exists>v. fi_id f = Some (fld_id g) \<and> b = Some v \<and> get (prior st) (fld_id g) = Some v \<and>
      st' = st\<lparr>prior := drop_key (fld_id g) (prior st)\<rparr>"
    with assms(2) show ?thesis
      by (auto simp: fresh_ok_def field_pool_def section_pool_def has_key_def split: if_splits)
  qed
qed

lemma apply_fields_pool:
  "apply_fields env fs st = Inr (st', gs) \<Longrightarrow> fresh_ok env N st \<Longrightarrow> calls st + length fs \<le> N \<Longrightarrow>
   fresh_ok env N st' \<and> calls st' \<le> calls st + length fs \<and> distinct (map fld_id gs) \<and> set (map fld_id gs) \<subseteq> field_pool env N st - field_pool env N st' \<and>
    field_pool env N st' \<subseteq> field_pool env N st \<and> section_pool env N st' \<subseteq> section_pool env N st"
proof (induction fs arbitrary: st gs)
  case (Cons f fs)
  then obtain st1 g gs' where g: "apply_field env f st = Inr (st1, g)"
    and r: "apply_fields env fs st1 = Inr (st', gs')" and gs: "gs = g # gs'"
    by (auto simp: result_simps)
  have "calls st < N" using Cons.prems(3) by simp
  note h = apply_field_pool [OF g Cons.prems(2) this]
  have "calls st1 + length fs \<le> N" using h Cons.prems(3) by simp
  then show ?case using Cons.IH [OF r] h by (auto simp: gs)
qed simp

lemma take_section_id_pool:
  assumes "take_section_id env i st = Inr (st', k)" and "fresh_ok env N st" and "calls st < N"
  shows "fresh_ok env N st' \<and> calls st' \<le> Suc (calls st) \<and> k \<in> section_pool env N st \<and> k \<notin> section_pool env N st' \<and>
    field_pool env N st' \<subseteq> field_pool env N st \<and> section_pool env N st' \<subseteq> section_pool env N st"
  using assms fresh_notin [of "fe_fresh env" N "calls st"]
  by (auto simp: take_section_id_def fresh_ok_def field_pool_def section_pool_def split: option.splits if_splits)

lemma apply_section_pool:
  assumes "apply_section env s st = Inr (st', g)" and "fresh_ok env N st"
    and "calls st + Suc (length (si_fields s)) \<le> N"
  shows "fresh_ok env N st' \<and> calls st' \<le> calls st + Suc (length (si_fields s)) \<and> sec_id g \<in> section_pool env N st \<and> sec_id g \<notin> section_pool env N st' \<and>
    distinct (map fld_id (sec_fields g)) \<and>
    set (map fld_id (sec_fields g)) \<subseteq> field_pool env N st - field_pool env N st' \<and>
    field_pool env N st' \<subseteq> field_pool env N st \<and> section_pool env N st' \<subseteq> section_pool env N st"
proof -
  obtain st1 where t: "take_section_id env (si_id s) st = Inr (st1, sec_id g)"
    and f: "apply_fields env (si_fields s) st1 = Inr (st', sec_fields g)"
    using assms(1) by (auto simp: apply_section_def result_simps)
  have "calls st < N" using assms(3) by simp
  note a = take_section_id_pool [OF t assms(2) this]
  have "calls st1 + length (si_fields s) \<le> N" using a assms(3) by simp
  from apply_fields_pool [OF f _ this] a have b: "fresh_ok env N st'" "calls st' \<le> calls st1 + length (si_fields s)"
    "distinct (map fld_id (sec_fields g))"
    "set (map fld_id (sec_fields g)) \<subseteq> field_pool env N st1 - field_pool env N st'"
    "field_pool env N st' \<subseteq> field_pool env N st1" "section_pool env N st' \<subseteq> section_pool env N st1"
    by blast+
  have "calls st' \<le> calls st + Suc (length (si_fields s))" using a b(2) by linarith
  with a b show ?thesis by blast
qed

lemma apply_section_list_pool:
  "apply_section_list env ss st = Inr (st', gs) \<Longrightarrow> fresh_ok env N st \<Longrightarrow>
   calls st + sum_list (map (\<lambda>s. Suc (length (si_fields s))) ss) \<le> N \<Longrightarrow>
   distinct (map sec_id gs) \<and> distinct (map fld_id (all_fields gs)) \<and>
   set (map sec_id gs) \<subseteq> section_pool env N st \<and> set (map fld_id (all_fields gs)) \<subseteq> field_pool env N st"
proof (induction ss arbitrary: st gs)
  case (Cons s ss)
  then obtain st1 g gs' where g: "apply_section env s st = Inr (st1, g)"
    and r: "apply_section_list env ss st1 = Inr (st', gs')" and gs: "gs = g # gs'"
    by (auto simp: result_simps)
  have "calls st + Suc (length (si_fields s)) \<le> N" using Cons.prems(3) by simp
  note h = apply_section_pool [OF g Cons.prems(2) this]
  have n: "calls st1 + sum_list (map (\<lambda>s. Suc (length (si_fields s))) ss) \<le> N"
    using h Cons.prems(3) by simp
  have i: "distinct (map sec_id gs')" "distinct (map fld_id (all_fields gs'))"
    "set (map sec_id gs') \<subseteq> section_pool env N st1" "set (map fld_id (all_fields gs')) \<subseteq> field_pool env N st1"
    using Cons.IH [OF r _ n] h by blast+
  have fs: "map fld_id (all_fields gs) = map fld_id (sec_fields g) @ map fld_id (all_fields gs')"
    by (simp add: gs all_fields_def)
  have "set (map fld_id (sec_fields g)) \<inter> set (map fld_id (all_fields gs')) = {}"
    using h i(4) by blast
  then have "distinct (map fld_id (all_fields gs))"
    unfolding fs distinct_append using h i(2) by blast
  moreover have "set (map fld_id (all_fields gs)) \<subseteq> field_pool env N st"
    unfolding fs set_append using h i(4) by blast
  moreover have "distinct (map sec_id gs)"
    unfolding gs list.map distinct.simps using h i(1,3) by blast
  moreover have "set (map sec_id gs) \<subseteq> section_pool env N st"
    unfolding gs list.map list.set using h i(3) by blast
  ultimately show ?case by blast
qed (simp add: all_fields_def)


subsection \<open>Claims\<close>

definition conceal :: "FieldValue \<Rightarrow> FieldValue" where
  "conceal v = (case v of
       VPassword (Some p) \<Rightarrow> VPassword (Some [])
     | VOtp (Some c) \<Rightarrow> VOtp (Some \<lparr>secret = [], algorithm = Sha1, digits = 0, period = 0, issuer = None, account = None\<rparr>)
     | _ \<Rightarrow> v)"

definition conceal_section :: "field_section \<Rightarrow> field_section" where
  "conceal_section s = s\<lparr>sec_fields := map (\<lambda>f. f\<lparr>fld_value := conceal (fld_value f)\<rparr>) (sec_fields s)\<rparr>"

text \<open>
  Non-interference of the views: the sections sent to the user interface when an item opens
  are the same after every password and one-time-password secret has been replaced by a dummy.
  They can tell whether such a field holds something, and nothing else about it.
\<close>

theorem views_hide_secrets: "views (map conceal_section ss) = views ss"
proof -
  have "value_view (conceal v) = value_view v" for v
    by (cases v) (auto simp: conceal_def split: option.splits)
  then show ?thesis by (simp add: views_def conceal_section_def)
qed

text \<open>
  An edit cannot reach another item's secrets. In the fields that \<open>apply_sections\<close> builds,
  every password was either typed in this layout or is the password that the item already held in
  the field with the same identifier, and every one-time-password setup was either parsed from
  this layout's text or was already held in the field with the same identifier.
\<close>

theorem apply_sections_secrets:
  assumes "apply_sections env (Some ss) current = Inr out" and "g \<in> set (all_fields out)"
  shows "(\<forall>p. fld_value g = VPassword (Some p) \<longrightarrow>
       (\<exists>s\<in>set ss. \<exists>f\<in>set (si_fields s). fi_value f = IPassword (Set p)) \<or>
       (\<exists>h\<in>set (all_fields current). fld_id h = fld_id g \<and> fld_value h = VPassword (Some p))) \<and>
    (\<forall>c. fld_value g = VOtp (Some c) \<longrightarrow>
       (\<exists>s\<in>set ss. \<exists>f\<in>set (si_fields s). \<exists>t. fi_value f = IOtp (Set t) \<and>
          parse_totp_input (fe_totp env) t = Inr c) \<or>
       (\<exists>h\<in>set (all_fields current). fld_id h = fld_id g \<and> fld_value h = VOtp (Some c)))"
proof -
  obtain st where "apply_section_list env ss (layout_init current) = Inr (st, out)"
    using assms(1) by (auto simp: apply_sections_def result_simps split: if_splits)
  note all = apply_section_list_concealed [OF this]
  obtain sg where sg: "sg \<in> set out" "g \<in> set (sec_fields sg)"
    using assms(2) by (auto simp: all_fields_def)
  obtain s where s: "s \<in> set ss"
    "list_all2 (concealed_from env (get (prior (layout_init current)))) (si_fields s) (sec_fields sg)"
    using all sg(1) by (metis (no_types, lifting) list_all2_conv_all_nth in_set_conv_nth)
  then obtain f where f: "f \<in> set (si_fields s)"
    "concealed_from env (get (prior (layout_init current))) f g"
    using sg(2) by (metis (no_types, lifting) list_all2_conv_all_nth in_set_conv_nth)
  then show ?thesis
    using s(1) layout_init_prior [of current "fld_id g"] unfolding concealed_from_def by blast
qed

definition demo_fields :: "field_section list" where
  "demo_fields = [\<lparr>sec_id = 1, sec_title = None, sec_fields =
     [\<lparr>fld_id = 2, fld_label = str ''PIN'', fld_value = VPassword (Some (str ''1234''))\<rparr>]\<rparr>]"

definition demo_layout :: "SecretUpdate section_input list" where
  "demo_layout = [\<lparr>si_id = Some 1, si_title = None, si_fields =
     [\<lparr>fi_id = Some 2, fi_label = str '' PIN '', fi_value = IPassword Keep\<rparr>,
      \<lparr>fi_id = None, fi_label = str ''Note'', fi_value = IText (str ''x'')\<rparr>]\<rparr>]"

definition demo_env :: field_env where
  "demo_env = \<lparr>fe_totp = toy_totp, fe_parse = (\<lambda>s. None), fe_fresh = (\<lambda>n. if n = 0 then 7 else 8)\<rparr>"

definition demo_built :: "field_section list" where
  "demo_built = [\<lparr>sec_id = 1, sec_title = None, sec_fields =
     [\<lparr>fld_id = 2, fld_label = str ''PIN'', fld_value = VPassword (Some (str ''1234''))\<rparr>,
      \<lparr>fld_id = 7, fld_label = str ''Note'', fld_value = VText (str ''x'')\<rparr>]\<rparr>]"

lemma demo_apply: "apply_sections (demo_env\<lparr>fe_fresh := fr\<rparr>) (Some demo_layout) demo_fields =
    Inr [\<lparr>sec_id = 1, sec_title = None, sec_fields =
     [\<lparr>fld_id = 2, fld_label = str ''PIN'', fld_value = VPassword (Some (str ''1234''))\<rparr>,
      \<lparr>fld_id = fr 0, fld_label = str ''Note'', fld_value = VText (str ''x'')\<rparr>]\<rparr>]"
  by (simp add: apply_sections_def demo_layout_def demo_fields_def MAX_SECTIONS_def MAX_FIELDS_def
      apply_section_def take_section_id_def layout_init_def all_fields_def put_def get_def drop_key_def
      apply_field_def take_field_id_def clean_value_def apply_value_def check_some_def check_password_def
      MAX_PASSWORD_CHARS_def MAX_LABEL_CHARS_def MAX_TITLE_CHARS_def MAX_NOTES_BYTES_def
      total_bytes_def MAX_TOTAL_BYTES_def text_eval)

theorem apply_sections_secrets_witness:
  "\<exists>h\<in>set (all_fields demo_fields). fld_id h = 2 \<and> fld_value h = VPassword (Some (str ''1234''))"
proof -
  let ?g = "\<lparr>fld_id = 2, fld_label = str ''PIN'', fld_value = VPassword (Some (str ''1234''))\<rparr>"
  have "apply_sections demo_env (Some demo_layout) demo_fields = Inr demo_built"
    using demo_apply [of "fe_fresh demo_env"] by (simp add: demo_env_def demo_built_def)
  moreover have "?g \<in> set (all_fields demo_built)" by (simp add: demo_built_def all_fields_def)
  ultimately show ?thesis
    using apply_sections_secrets [of demo_env demo_layout demo_fields demo_built ?g]
    by (auto simp: demo_layout_def)
qed

text \<open>
  Identifiers stay unique. If the generator of new identifiers repeats neither itself nor one
  of the item's identifiers in the at most 120 calls that a layout can cause, the sections built
  by \<open>apply_sections\<close> have distinct identifiers and so do all the fields over all sections,
  whatever layout was sent; and the whole stays within 256 KiB.
\<close>

theorem apply_sections_ids:
  assumes "apply_sections env (Some ss) current = Inr out" and "inj_on (fe_fresh env) {..<120}"
    and "\<forall>n<120. fe_fresh env n \<notin> set (map sec_id current) \<union> set (map fld_id (all_fields current))"
  shows "distinct (map sec_id out) \<and> distinct (map fld_id (all_fields out)) \<and> total_bytes out \<le> 256 * 1024"
proof -
  obtain st where st: "apply_section_list env ss (layout_init current) = Inr (st, out)"
    and total: "total_bytes out \<le> 256 * 1024"
    and n: "length ss \<le> 20" "sum_list (map (\<lambda>s. length (si_fields s)) ss) \<le> 100"
    using assms(1) by (auto simp: apply_sections_def result_simps MAX_TOTAL_BYTES_def MAX_SECTIONS_def
        MAX_FIELDS_def split: if_splits)
  have "\<not> has_key (prior (layout_init current)) (fe_fresh env n)" if "n < 120" for n
  proof
    assume "has_key (prior (layout_init current)) (fe_fresh env n)"
    then obtain v where "get (prior (layout_init current)) (fe_fresh env n) = Some v"
      by (auto simp: has_key_def)
    from layout_init_prior [OF this] obtain f where "f \<in> set (all_fields current)" "fe_fresh env n = fld_id f"
      by metis
    with assms(3) that show False by auto
  qed
  then have "fresh_ok env 120 (layout_init current)"
    using assms(2,3) by (auto simp: fresh_ok_def) (auto simp: layout_init_def)
  moreover have "sum_list (map (\<lambda>s. Suc (length (si_fields s))) ss) =
      length ss + sum_list (map (\<lambda>s. length (si_fields s)) ss)"
    by (induction ss) auto
  then have "calls (layout_init current) + sum_list (map (\<lambda>s. Suc (length (si_fields s))) ss) \<le> 120"
    using n by (simp add: layout_init_def)
  ultimately show ?thesis using apply_section_list_pool [OF st] total by blast
qed

theorem apply_sections_ids_witness:
  "distinct (map sec_id demo_built) \<and> distinct (map fld_id (all_fields demo_built)) \<and>
   total_bytes demo_built \<le> 256 * 1024"
proof (rule apply_sections_ids)
  define fr :: "nat \<Rightarrow> uuid" where "fr n = word_of_int (int n + 7)" for n
  let ?env = "demo_env\<lparr>fe_fresh := fr\<rparr>"
  have u: "uint (fr n) = int n + 7" if "n < 120" for n
    using that unfolding fr_def uint_word_of_int by simp
  have "fr 0 = 7" by (simp add: fr_def)
  then show "apply_sections ?env (Some demo_layout) demo_fields = Inr demo_built"
    by (simp add: demo_apply demo_built_def)
  show "inj_on (fe_fresh ?env) {..<120}"
  proof (rule inj_onI)
    fix x y :: nat assume "x \<in> {..<120}" "y \<in> {..<120}" and e: "fe_fresh ?env x = fe_fresh ?env y"
    then have "uint (fr x) = int x + 7" "uint (fr y) = int y + 7" using u by blast+
    moreover have "uint (fr x) = uint (fr y)" using e by simp
    ultimately show "x = y" by linarith
  qed
  show "\<forall>n<120. fe_fresh ?env n \<notin> set (map sec_id demo_fields) \<union> set (map fld_id (all_fields demo_fields))"
  proof (intro allI impI)
    fix n :: nat assume n: "n < 120"
    then have "uint (fr n) \<noteq> uint (1 :: uuid)" "uint (fr n) \<noteq> uint (2 :: uuid)"
      using u [OF n] by simp_all
    then show "fe_fresh ?env n \<notin> set (map sec_id demo_fields) \<union> set (map fld_id (all_fields demo_fields))"
      by (auto simp: demo_fields_def all_fields_def)
  qed
qed

end
