(* ===== verification/Banks.thy ===== *)
theory Banks
  imports Custom_Fields
begin

text \<open>
  The bank account item (\<^verbatim>\<open>havenkeys-core/src/bank.rs\<close>): cleaning of branch and account numbers
  with their check digits, the summary kept in the overview, and the values a fill may use.
\<close>

section \<open>Model\<close>

definition MAX_BANK_CHARS :: nat where "MAX_BANK_CHARS = 64"
definition MAX_HOLDER_CHARS :: nat where "MAX_HOLDER_CHARS = 256"
definition MAX_BRANCH_DIGITS :: nat where "MAX_BRANCH_DIGITS = 8"
definition MAX_ACCOUNT_DIGITS :: nat where "MAX_ACCOUNT_DIGITS = 20"
definition MAX_ACCOUNT_DIGIT_CHARS :: nat where "MAX_ACCOUNT_DIGIT_CHARS = 2"
definition MIN_DIGITS_FOR_LAST3 :: nat where "MIN_DIGITS_FOR_LAST3 = 4"

definition BAD_TEXT :: error where
  "BAD_TEXT = InvalidInput ''bank or holder name is too long or contains control characters''"
definition BAD_NUMBER :: error where
  "BAD_NUMBER = InvalidInput ''branch and account must be digits, within their length limits''"
definition BAD_DIGIT :: error where
  "BAD_DIGIT = InvalidInput ''check digit must be 0-9 or X, within its length limit''"

datatype BankAccountType = Checking | Savings | Payment | OtherAccount

datatype DetailsLanguage = En | PtBr

text \<open>The Portuguese savings label holds a c with cedilla, code point 231.\<close>

fun account_type_label :: "DetailsLanguage \<Rightarrow> BankAccountType \<Rightarrow> rstring" where
  "account_type_label En Checking = str ''checking''"
| "account_type_label En Savings = str ''savings''"
| "account_type_label En Payment = str ''payment''"
| "account_type_label En OtherAccount = str ''other''"
| "account_type_label PtBr Checking = str ''corrente''"
| "account_type_label PtBr Savings = str ''poupan'' @ [231] @ str ''a''"
| "account_type_label PtBr Payment = str ''pagamento''"
| "account_type_label PtBr OtherAccount = str ''outra''"

definition parse_language :: "rstring \<Rightarrow> DetailsLanguage result" where
  "parse_language tag =
     (if tag = str ''en'' then Inr En else if tag = str ''pt-BR'' then Inr PtBr
      else Inl (InvalidInput ''unsupported language''))"

record app_binding =
  package :: rstring
  cert_sha256 :: rstring

record bank_fields =
  bk_bank :: "rstring option"
  bk_holder_name :: "rstring option"
  bk_account_type :: "BankAccountType option"
  bk_branch :: "rstring option"
  bk_branch_digit :: "rstring option"
  bk_account :: "rstring option"
  bk_account_digit :: "rstring option"
  bk_password :: "rstring option"
  bk_notes :: "rstring option"
  bk_sections :: "field_section list"
  bk_app_bindings :: "app_binding list"

record bank_input =
  bi_bank :: "rstring option"
  bi_holder_name :: "rstring option"
  bi_account_type :: "BankAccountType option"
  bi_branch :: "rstring option"
  bi_branch_digit :: "rstring option"
  bi_account :: SecretUpdate
  bi_account_digit :: SecretUpdate

record bank_summary =
  bs_bank :: "rstring option"
  bs_branch :: "rstring option"
  bs_account_last3 :: "rstring option"

record bank_values =
  bv_branch :: "rstring option"
  bv_branch_digit :: "rstring option"
  bv_account :: "rstring option"
  bv_account_digit :: "rstring option"

definition compact :: "rstring \<Rightarrow> rstring" where
  "compact raw = map to_ascii_uppercase (filter (\<lambda>c. \<not> is_whitespace c \<and> c \<noteq> 46) raw)"

definition is_check_char :: "rchar \<Rightarrow> bool" where
  "is_check_char c \<longleftrightarrow> is_ascii_digit c \<or> c = 88"

definition clean_digit :: "rstring \<Rightarrow> nat \<Rightarrow> rstring option result" where
  "clean_digit raw mx =
     (let d = compact raw in
      if d = [] then Inr None
      else if mx < str_len d \<or> \<not> list_all is_check_char d then Inl BAD_DIGIT
      else Inr (Some d))"

text \<open>\<open>rsplit_once\<close>: split at the last occurrence.\<close>

definition rsplit_once :: "rchar \<Rightarrow> rstring \<Rightarrow> (rstring \<times> rstring) option" where
  "rsplit_once c s = (case split_once c (rev s) of
       Some (a, b) \<Rightarrow> Some (rev b, rev a) | None \<Rightarrow> None)"

definition clean_bank_number :: "rstring \<Rightarrow> nat \<Rightarrow> nat \<Rightarrow> (rstring option \<times> rstring option) result" where
  "clean_bank_number raw max_digits digit_max =
     (let c = compact raw in
      if c = [] then Inr (None, None)
      else and_then (case rsplit_once 45 c of
               Some (n, d) \<Rightarrow> and_then (clean_digit d digit_max) (\<lambda>x. Inr (n, x))
             | None \<Rightarrow> Inr (c, None)) (\<lambda>nd.
        if fst nd = [] \<or> max_digits < str_len (fst nd) \<or> \<not> all_digits (fst nd) then Inl BAD_NUMBER
        else Inr (Some (fst nd), snd nd)))"

definition join_digit :: "rstring \<Rightarrow> rstring option \<Rightarrow> rstring" where
  "join_digit n d = (case d of None \<Rightarrow> n | Some x \<Rightarrow> n @ [45] @ x)"

definition clean_text :: "rstring \<Rightarrow> nat \<Rightarrow> rstring option result" where
  "clean_text raw mx =
     (let t = trim raw in
      if mx < length t \<or> list_ex is_control t then Inl BAD_TEXT
      else Inr (if t = [] then None else Some t))"

definition or_empty :: "rstring option \<Rightarrow> rstring" where
  "or_empty v = (case v of Some s \<Rightarrow> s | None \<Rightarrow> [])"

definition clean_pair ::
  "rstring option \<Rightarrow> rstring option \<Rightarrow> nat \<Rightarrow> nat \<Rightarrow> (rstring option \<times> rstring option) result" where
  "clean_pair number digit max_digits digit_max =
     and_then (clean_bank_number (or_empty number) max_digits digit_max) (\<lambda>ns.
     and_then (clean_digit (or_empty digit) digit_max) (\<lambda>own.
     if snd ns \<noteq> None \<and> own \<noteq> None then Inl BAD_DIGIT
     else Inr (fst ns, case snd ns of Some d \<Rightarrow> Some d | None \<Rightarrow> own)))"

definition clean_text_opt :: "rstring option \<Rightarrow> nat \<Rightarrow> rstring option result" where
  "clean_text_opt v mx = (case v of Some s \<Rightarrow> clean_text s mx | None \<Rightarrow> Inr None)"

definition clean_bank :: "bank_fields \<Rightarrow> bank_fields result" where
  "clean_bank f =
     and_then (clean_pair (bk_branch f) (bk_branch_digit f) MAX_BRANCH_DIGITS 1) (\<lambda>br.
     and_then (clean_pair (bk_account f) (bk_account_digit f) MAX_ACCOUNT_DIGITS MAX_ACCOUNT_DIGIT_CHARS) (\<lambda>ac.
     and_then (check_some check_password (bk_password f)) (\<lambda>_.
     and_then (check_some check_notes (bk_notes f)) (\<lambda>_.
     and_then (clean_text_opt (bk_bank f) MAX_BANK_CHARS) (\<lambda>bank.
     and_then (clean_text_opt (bk_holder_name f) MAX_HOLDER_CHARS) (\<lambda>holder.
     Inr (f\<lparr>bk_bank := bank, bk_holder_name := holder, bk_branch := fst br, bk_branch_digit := snd br,
            bk_account := fst ac, bk_account_digit := snd ac\<rparr>)))))))"

definition bank_summary_of :: "bank_fields \<Rightarrow> bank_summary" where
  "bank_summary_of f =
     \<lparr>bs_bank = bk_bank f, bs_branch = bk_branch f,
      bs_account_last3 =
        (case bk_account f of
           None \<Rightarrow> None
         | Some a \<Rightarrow>
             if MIN_DIGITS_FOR_LAST3 \<le> length a
             then let digit = or_empty (bk_account_digit f);
                      keep = 3 - length digit;
                      tail = drop (length a - keep) a
                  in Some (if digit = [] then tail else tail @ [45] @ digit)
             else None)\<rparr>"

definition branch_joined :: "bank_fields \<Rightarrow> rstring option" where
  "branch_joined f = map_option (\<lambda>b. join_digit b (bk_branch_digit f)) (bk_branch f)"

definition account_joined :: "bank_fields \<Rightarrow> rstring option" where
  "account_joined f = map_option (\<lambda>a. join_digit a (bk_account_digit f)) (bk_account f)"

definition bank_details :: "bank_fields \<Rightarrow> DetailsLanguage \<Rightarrow> rstring option" where
  "bank_details f lang =
     (let labels = (case lang of
            En \<Rightarrow> (str ''Branch'', str ''Account'', str ''Holder'')
          | PtBr \<Rightarrow> (str ''Ag'' @ [234] @ str ''ncia'', str ''Conta'', str ''Titular''));
          account_line = map_option (\<lambda>n. fst (snd labels) @ [32] @ n @
            (case bk_account_type f of
               Some t \<Rightarrow> str '' ('' @ account_type_label lang t @ str '')'' | None \<Rightarrow> []))
            (account_joined f);
          lines = somes [bk_bank f, map_option (\<lambda>b. fst labels @ [32] @ b) (branch_joined f),
            account_line, map_option (\<lambda>h. snd (snd labels) @ [32] @ h) (bk_holder_name f)]
      in if lines = [] then None else Some (join [10] lines))"

definition bank_values_of :: "bank_fields \<Rightarrow> bank_values option" where
  "bank_values_of f =
     (if bk_branch f = None \<and> bk_account f = None then None
      else Some \<lparr>bv_branch = bk_branch f,
        bv_branch_digit = (if bk_branch f = None then None else bk_branch_digit f),
        bv_account = bk_account f,
        bv_account_digit = (if bk_account f = None then None else bk_account_digit f)\<rparr>)"

section \<open>Properties\<close>

subsection \<open>Numbers and check digits\<close>

lemma compact_Nil [simp]: "compact [] = []"
  by (simp add: compact_def)

lemma compact_digits: "list_all is_check_char s \<Longrightarrow> compact s = s"
proof -
  assume s: "list_all is_check_char s"
  have "\<not> is_whitespace c \<and> c \<noteq> 46 \<and> to_ascii_uppercase c = c" if "c \<in> set s" for c
  proof -
    have "(48 \<le> c \<and> c \<le> 57) \<or> c = 88"
      using s that by (auto simp: list_all_iff is_check_char_def is_ascii_digit_def)
    then show ?thesis by (auto simp: is_whitespace_def to_ascii_uppercase_def)
  qed
  then show ?thesis by (simp add: compact_def filter_True map_idI)
qed

lemma all_digits_check: "all_digits s \<Longrightarrow> list_all is_check_char s"
  by (auto simp: all_digits_def is_check_char_def list_all_iff)

definition number_form :: "nat \<Rightarrow> rstring option \<Rightarrow> bool" where
  "number_form mx n \<longleftrightarrow> (\<forall>s. n = Some s \<longrightarrow> s \<noteq> [] \<and> all_digits s \<and> length s \<le> mx)"

definition digit_form :: "nat \<Rightarrow> rstring option \<Rightarrow> bool" where
  "digit_form mx d \<longleftrightarrow> (\<forall>s. d = Some s \<longrightarrow> s \<noteq> [] \<and> list_all is_check_char s \<and> length s \<le> mx)"

lemma check_chars_str_len: "list_all is_check_char s \<Longrightarrow> str_len s = length s"
  by (rule str_len_ascii) (auto simp: list_all_iff is_check_char_def is_ascii_digit_def)

lemma clean_digit_form: "clean_digit raw mx = Inr d \<Longrightarrow> digit_form mx d"
  by (auto simp: clean_digit_def digit_form_def Let_def check_chars_str_len split: if_splits)

lemma clean_digit_fixed: "digit_form mx d \<Longrightarrow> clean_digit (or_empty d) mx = Inr d"
  by (cases d) (auto simp: clean_digit_def digit_form_def or_empty_def compact_digits check_chars_str_len)

lemma clean_bank_number_form:
  "clean_bank_number raw mx dm = Inr (n, d) \<Longrightarrow> number_form mx n \<and> digit_form dm d"
  by (auto simp: clean_bank_number_def Let_def result_simps number_form_def all_digits_str_len
      digit_form_def [of dm None] clean_digit_form split: if_splits option.splits prod.splits)

lemma clean_bank_number_fixed:
  assumes "number_form mx n"
  shows "clean_bank_number (or_empty n) mx dm = Inr (n, None)"
proof (cases n)
  case (Some s)
  then have s: "s \<noteq> []" "all_digits s" "length s \<le> mx" using assms by (auto simp: number_form_def)
  then have "45 \<notin> set (rev s)" by (auto simp: all_digits_def is_ascii_digit_def)
  then show ?thesis
    using s Some by (simp add: clean_bank_number_def or_empty_def compact_digits all_digits_check
        rsplit_once_def split_once_def all_digits_str_len)
qed (simp add: clean_bank_number_def or_empty_def compact_def)

lemma clean_pair_form:
  assumes "clean_pair n0 d0 mx dm = Inr (n, d)"
  shows "number_form mx n \<and> digit_form dm d"
proof -
  obtain s own where "clean_bank_number (or_empty n0) mx dm = Inr (n, s)"
    and "clean_digit (or_empty d0) dm = Inr own" and "d = s \<or> d = own"
    using assms by (auto simp: clean_pair_def result_simps split: if_splits option.splits)
  then show ?thesis using clean_bank_number_form clean_digit_form by blast
qed

lemma clean_pair_fixed:
  "number_form mx n \<Longrightarrow> digit_form dm d \<Longrightarrow> clean_pair n d mx dm = Inr (n, d)"
  by (simp add: clean_pair_def clean_bank_number_fixed clean_digit_fixed)

lemma clean_text_opt_idem: "clean_text_opt v mx = Inr r \<Longrightarrow> clean_text_opt r mx = Inr r"
  by (auto simp: clean_text_opt_def clean_text_def Let_def split: option.splits if_splits)

lemma clean_bank_idem:
  assumes "clean_bank f = Inr g"
  shows "clean_bank g = Inr g"
proof -
  obtain br ac bank holder where
    br: "clean_pair (bk_branch f) (bk_branch_digit f) MAX_BRANCH_DIGITS 1 = Inr br"
    and ac: "clean_pair (bk_account f) (bk_account_digit f) MAX_ACCOUNT_DIGITS MAX_ACCOUNT_DIGIT_CHARS = Inr ac"
    and pw: "check_some check_password (bk_password f) = Inr ()"
    and no: "check_some check_notes (bk_notes f) = Inr ()"
    and b: "clean_text_opt (bk_bank f) MAX_BANK_CHARS = Inr bank"
    and h: "clean_text_opt (bk_holder_name f) MAX_HOLDER_CHARS = Inr holder"
    and g: "g = f\<lparr>bk_bank := bank, bk_holder_name := holder, bk_branch := fst br, bk_branch_digit := snd br,
            bk_account := fst ac, bk_account_digit := snd ac\<rparr>"
    using assms unfolding clean_bank_def and_then_Inr_iff by auto
  have "clean_pair (fst br) (snd br) MAX_BRANCH_DIGITS 1 = Inr br"
    using clean_pair_form [of _ _ _ _ "fst br" "snd br"] br by (simp add: clean_pair_fixed)
  moreover have "clean_pair (fst ac) (snd ac) MAX_ACCOUNT_DIGITS MAX_ACCOUNT_DIGIT_CHARS = Inr ac"
    using clean_pair_form [of _ _ _ _ "fst ac" "snd ac"] ac by (simp add: clean_pair_fixed)
  ultimately show ?thesis
    using pw no clean_text_opt_idem [OF b] clean_text_opt_idem [OF h] by (simp add: clean_bank_def g)
qed

definition bank_form :: "bank_fields \<Rightarrow> bool" where
  "bank_form f \<longleftrightarrow> clean_bank f = Inr f"

interpretation bank_clean: normaliser clean_bank bank_form
  by unfold_locales (auto simp: bank_form_def intro: clean_bank_idem)

lemma clean_bank_account_form:
  "clean_bank f = Inr g \<Longrightarrow> number_form 20 (bk_account g) \<and> digit_form 2 (bk_account_digit g)"
  by (auto simp: clean_bank_def result_simps MAX_ACCOUNT_DIGITS_def MAX_ACCOUNT_DIGIT_CHARS_def
      dest!: clean_pair_form)

subsection \<open>Claims\<close>

text \<open>
  The joined form is faithful: for a number of digits and a check digit within their limits,
  cleaning the text \<open>number-digit\<close> (as copies and exports write it) splits it back into exactly
  that number and that digit.
\<close>

theorem bank_number_roundtrip:
  assumes "s \<noteq> []" and "all_digits s" and "length s \<le> mx"
    and "d \<noteq> []" and "list_all is_check_char d" and "length d \<le> dm"
  shows "clean_bank_number (join_digit s (Some d)) mx dm = Inr (Some s, Some d)"
proof -
  have d: "45 \<notin> set (rev d)" using assms(5) by (auto simp: list_all_iff is_check_char_def is_ascii_digit_def)
  have "compact (s @ 45 # d) = s @ 45 # d"
    using compact_digits [OF all_digits_check [OF assms(2)]] compact_digits [OF assms(5)]
    by (simp add: compact_def is_whitespace_def to_ascii_uppercase_def)
  moreover have "rsplit_once 45 (s @ 45 # d) = Some (s, d)"
    using split_once_append [OF d, of "rev s"] by (simp add: rsplit_once_def)
  moreover have "clean_digit d dm = Inr (Some d)"
    using assms(4,5,6) by (simp add: clean_digit_def compact_digits check_chars_str_len)
  ultimately show ?thesis
    using assms by (simp add: clean_bank_number_def join_digit_def all_digits_str_len)
qed

theorem bank_number_roundtrip_witness:
  "clean_bank_number (join_digit (str ''12345'') (Some (str ''6X''))) 20 2 = Inr (Some (str ''12345''), Some (str ''6X''))"
  by (rule bank_number_roundtrip) (simp_all add: is_check_char_def text_eval)

text \<open>
  What of an account reaches the overview: for fields that \<open>clean\<close> accepted, the summary shows
  at most three characters of account and check digit together, and of an account number proper
  at most its last three digits, never all of them.
\<close>

theorem bank_summary_reveals:
  assumes "clean_bank f = Inr g" and "bs_account_last3 (bank_summary_of g) = Some t"
  shows "\<exists>a k d. bk_account g = Some a \<and> 4 \<le> length a \<and> d = or_empty (bk_account_digit g) \<and>
     k + length d = 3 \<and>
     t = drop (length a - k) a @ (if d = [] then [] else [45] @ d)"
proof -
  obtain a where a: "bk_account g = Some a" "4 \<le> length a"
    using assms(2) by (auto simp: bank_summary_of_def MIN_DIGITS_FOR_LAST3_def split: option.splits if_splits)
  have "length (or_empty (bk_account_digit g)) \<le> 2"
    using clean_bank_account_form [OF assms(1)]
    by (cases "bk_account_digit g") (auto simp: digit_form_def or_empty_def)
  then have "3 - length (or_empty (bk_account_digit g)) + length (or_empty (bk_account_digit g)) = 3" by simp
  moreover have "t = drop (length a - (3 - length (or_empty (bk_account_digit g)))) a @
      (if or_empty (bk_account_digit g) = [] then [] else [45] @ or_empty (bk_account_digit g))"
    using assms(2) a by (auto simp: bank_summary_of_def Let_def MIN_DIGITS_FOR_LAST3_def split: if_splits)
  ultimately show ?thesis using a by blast
qed

theorem bank_summary_reveals_witness:
  "\<exists>a k d. bk_account \<lparr>bk_bank = None, bk_holder_name = None, bk_account_type = None, bk_branch = None,
      bk_branch_digit = None, bk_account = Some (str ''12345''), bk_account_digit = Some (str ''6''),
      bk_password = None, bk_notes = None, bk_sections = [], bk_app_bindings = []\<rparr> = Some a \<and>
     4 \<le> length a \<and> d = str ''6'' \<and> k + length d = 3 \<and>
     str ''45-6'' = drop (length a - k) a @ (if d = [] then [] else [45] @ d)"
proof -
  let ?f = "\<lparr>bk_bank = None, bk_holder_name = None, bk_account_type = None, bk_branch = None,
      bk_branch_digit = None, bk_account = Some (str ''12345''), bk_account_digit = Some (str ''6''),
      bk_password = None, bk_notes = None, bk_sections = [], bk_app_bindings = []\<rparr>"
  have "clean_bank ?f = Inr ?f"
    by (simp add: clean_bank_def clean_pair_fixed number_form_def digit_form_def check_some_def
        clean_text_opt_def MAX_ACCOUNT_DIGITS_def MAX_ACCOUNT_DIGIT_CHARS_def is_check_char_def text_eval)
  moreover have "bs_account_last3 (bank_summary_of ?f) = Some (str ''45-6'')"
    by (simp add: bank_summary_of_def or_empty_def MIN_DIGITS_FOR_LAST3_def text_eval)
  ultimately show ?thesis using bank_summary_reveals [of ?f ?f "str ''45-6''"] by (simp add: or_empty_def)
qed

end
