(* ===== verification/Cards.thy ===== *)
theory Cards
  imports Updates
begin

text \<open>
  The card item (\<^verbatim>\<open>havenkeys-core/src/card.rs\<close>): brands and issuer prefixes, the expiry and its
  wire form, the Luhn check, cleaning, and the summary kept in the overview. Slicing a string at
  a byte that is not a character boundary panics, which is the \<open>None\<close> of \<open>card_summary_of\<close>.
\<close>

section \<open>Model\<close>

definition MAX_CARDHOLDER_CHARS :: nat where "MAX_CARDHOLDER_CHARS = 256"
definition MIN_NUMBER_DIGITS :: nat where "MIN_NUMBER_DIGITS = 8"
definition MAX_NUMBER_DIGITS :: nat where "MAX_NUMBER_DIGITS = 19"
definition MIN_VERIFICATION_DIGITS :: nat where "MIN_VERIFICATION_DIGITS = 3"
definition MAX_VERIFICATION_DIGITS :: nat where "MAX_VERIFICATION_DIGITS = 8"
definition MAX_CARD_NOTES_BYTES :: nat where "MAX_CARD_NOTES_BYTES = 64 * 1024"
definition MIN_EXPIRY_YEAR :: nat where "MIN_EXPIRY_YEAR = 1970"
definition MAX_EXPIRY_YEAR :: nat where "MAX_EXPIRY_YEAR = 2099"
definition MIN_DIGITS_FOR_LAST4 :: nat where "MIN_DIGITS_FOR_LAST4 = 12"

datatype CardBrand =
  Visa | Mastercard | Amex | Elo | Hipercard | Diners | Discover | Jcb | Unionpay | Maestro | Other

fun brand_id :: "CardBrand \<Rightarrow> string" where
  "brand_id Visa = ''visa''"
| "brand_id Mastercard = ''mastercard''"
| "brand_id Amex = ''amex''"
| "brand_id Elo = ''elo''"
| "brand_id Hipercard = ''hipercard''"
| "brand_id Diners = ''diners''"
| "brand_id Discover = ''discover''"
| "brand_id Jcb = ''jcb''"
| "brand_id Unionpay = ''unionpay''"
| "brand_id Maestro = ''maestro''"
| "brand_id Other = ''other''"

fun brand_display_name :: "CardBrand \<Rightarrow> string" where
  "brand_display_name Visa = ''Visa''"
| "brand_display_name Mastercard = ''Mastercard''"
| "brand_display_name Amex = ''American Express''"
| "brand_display_name Elo = ''Elo''"
| "brand_display_name Hipercard = ''Hipercard''"
| "brand_display_name Diners = ''Diners Club''"
| "brand_display_name Discover = ''Discover''"
| "brand_display_name Jcb = ''JCB''"
| "brand_display_name Unionpay = ''UnionPay''"
| "brand_display_name Maestro = ''Maestro''"
| "brand_display_name Other = ''Card''"

record card_expiry =
  year :: nat
  month :: nat

definition BAD_EXPIRY :: error where
  "BAD_EXPIRY = InvalidInput ''expiry must be a month and a year from 1970 to 2099''"

definition new_expiry :: "nat \<Rightarrow> nat \<Rightarrow> card_expiry result" where
  "new_expiry y m =
     (if \<not> (MIN_EXPIRY_YEAR \<le> y \<and> y \<le> MAX_EXPIRY_YEAR) \<or> \<not> (1 \<le> m \<and> m \<le> 12)
      then Inl BAD_EXPIRY else Inr \<lparr>year = y, month = m\<rparr>)"

definition parse_expiry :: "rstring \<Rightarrow> card_expiry result" where
  "parse_expiry t =
     (if \<not> is_ascii t \<or> str_len t \<noteq> 7 \<or> t ! 4 \<noteq> 45 \<or> \<not> all_digits (take 4 t @ drop 5 t)
      then Inl BAD_EXPIRY
      else and_then (ok_or BAD_EXPIRY (parse_uint (2 ^ 16 - 1) (take 4 t))) (\<lambda>y.
           and_then (ok_or BAD_EXPIRY (parse_uint (2 ^ 8 - 1) (drop 5 t))) (\<lambda>m.
           new_expiry y m)))"

definition to_wire :: "card_expiry \<Rightarrow> rstring" where
  "to_wire e = fmt_width 4 (year e) @ [45] @ fmt_width 2 (month e)"

definition expiry_display :: "card_expiry \<Rightarrow> rstring" where
  "expiry_display e = fmt_width 2 (month e) @ [47] @ fmt_width 4 (year e)"

definition IIN_RANGES :: "(CardBrand \<times> string \<times> string) list" where
  "IIN_RANGES = [
     (Elo, ''401178'', ''401179''),
     (Elo, ''431274'', ''431274''),
     (Elo, ''438935'', ''438935''),
     (Elo, ''451416'', ''451416''),
     (Elo, ''457393'', ''457393''),
     (Elo, ''457631'', ''457632''),
     (Elo, ''504175'', ''504175''),
     (Elo, ''506699'', ''506778''),
     (Elo, ''509000'', ''509999''),
     (Elo, ''627780'', ''627780''),
     (Elo, ''636297'', ''636297''),
     (Elo, ''636368'', ''636368''),
     (Elo, ''650031'', ''650033''),
     (Elo, ''650035'', ''650051''),
     (Elo, ''650057'', ''650081''),
     (Elo, ''650405'', ''650439''),
     (Elo, ''650485'', ''650538''),
     (Elo, ''650541'', ''650598''),
     (Elo, ''650700'', ''650718''),
     (Elo, ''650720'', ''650727''),
     (Elo, ''650901'', ''650978''),
     (Elo, ''651652'', ''651704''),
     (Elo, ''655000'', ''655019''),
     (Elo, ''655021'', ''655058''),
     (Hipercard, ''606282'', ''606282''),
     (Hipercard, ''384100'', ''384100''),
     (Hipercard, ''384140'', ''384140''),
     (Hipercard, ''384160'', ''384160''),
     (Hipercard, ''637095'', ''637095''),
     (Hipercard, ''637568'', ''637568''),
     (Hipercard, ''637599'', ''637599''),
     (Hipercard, ''637609'', ''637609''),
     (Hipercard, ''637612'', ''637612''),
     (Visa, ''4'', ''4''),
     (Mastercard, ''51'', ''55''),
     (Mastercard, ''2221'', ''2720''),
     (Amex, ''34'', ''34''),
     (Amex, ''37'', ''37''),
     (Diners, ''300'', ''305''),
     (Diners, ''3095'', ''3095''),
     (Diners, ''36'', ''36''),
     (Diners, ''38'', ''39''),
     (Discover, ''6011'', ''6011''),
     (Discover, ''644'', ''649''),
     (Discover, ''65'', ''65''),
     (Jcb, ''3528'', ''3589''),
     (Unionpay, ''62'', ''62''),
     (Unionpay, ''8100'', ''8171''),
     (Maestro, ''50'', ''50''),
     (Maestro, ''56'', ''58''),
     (Maestro, ''6304'', ''6304''),
     (Maestro, ''67'', ''67'')]"

text \<open>Strings compare bytewise: lexicographically.\<close>

definition in_range :: "rstring \<Rightarrow> CardBrand \<times> string \<times> string \<Rightarrow> bool" where
  "in_range d r = (let lo = str (fst (snd r)); hi = str (snd (snd r)); n = length lo; p = take n d
     in n \<le> length d \<and> lo \<le> p \<and> p \<le> hi)"

definition detect_brand :: "rstring \<Rightarrow> CardBrand option" where
  "detect_brand d = (if d = [] \<or> \<not> all_digits d then None
     else map_option fst (List.find (in_range d) IIN_RANGES))"

definition luhn_digit :: "nat \<Rightarrow> rchar \<Rightarrow> nat" where
  "luhn_digit i c = (let d = c - 48 in
     if i mod 2 = 1 then (let x = d * 2 in if 9 < x then x - 9 else x) else d)"

definition luhn_sum :: "rstring \<Rightarrow> nat" where
  "luhn_sum d = sum_list (map (\<lambda>(i, c). luhn_digit i c) (enumerate 0 (rev d)))"

definition check_digit_ok :: "rstring \<Rightarrow> bool" where
  "check_digit_ok d = (if d = [] \<or> \<not> all_digits d then False else luhn_sum d mod 10 = 0)"

definition clean_number :: "rstring \<Rightarrow> rstring result" where
  "clean_number raw =
     (let d = filter (\<lambda>c. c \<noteq> 32 \<and> c \<noteq> 45) raw in
      if \<not> (MIN_NUMBER_DIGITS \<le> str_len d \<and> str_len d \<le> MAX_NUMBER_DIGITS) \<or> \<not> all_digits d
      then Inl (InvalidInput ''card number must be 8 to 19 digits'') else Inr d)"

definition clean_verification_number :: "rstring \<Rightarrow> rstring result" where
  "clean_verification_number raw =
     (let v = trim raw in
      if \<not> (MIN_VERIFICATION_DIGITS \<le> str_len v \<and> str_len v \<le> MAX_VERIFICATION_DIGITS) \<or> \<not> all_digits v
      then Inl (InvalidInput ''verification number must be 3 to 8 digits'') else Inr v)"

record card_fields =
  cf_cardholder_name :: "rstring option"
  cf_brand :: "CardBrand option"
  cf_number :: "rstring option"
  cf_verification_number :: "rstring option"
  cf_expiry :: "card_expiry option"
  cf_notes :: "rstring option"

datatype CardField = CardholderName | CardNumber | VerificationNumber | Expiry

text \<open>An optional value: absent or blank is \<open>None\<close>, otherwise cleaned.\<close>

definition clean_optional :: "(rstring \<Rightarrow> rstring result) \<Rightarrow> rstring option \<Rightarrow> rstring option result" where
  "clean_optional f v = (case v of
       None \<Rightarrow> Inr None
     | Some s \<Rightarrow> if trim s = [] then Inr None else and_then (f s) (\<lambda>t. Inr (Some t)))"

definition clean_holder :: "rstring \<Rightarrow> rstring result" where
  "clean_holder n = (let t = trim n in
     if MAX_CARDHOLDER_CHARS < length t \<or> list_ex is_control t
     then Inl (InvalidInput ''cardholder name is too long or contains control characters'')
     else Inr t)"

definition is_line_control :: "rchar \<Rightarrow> bool" where
  "is_line_control c \<longleftrightarrow> is_control c \<and> \<not> (c = 10 \<or> c = 9 \<or> c = 13)"

definition check_card_notes :: "rstring \<Rightarrow> rstring result" where
  "check_card_notes n =
     (if MAX_CARD_NOTES_BYTES < str_len n then Inl (InvalidInput ''notes are too long'')
      else if list_ex is_line_control n then Inl (InvalidInput ''notes contain control characters'')
      else Inr n)"

definition clean_card :: "card_fields \<Rightarrow> card_fields result" where
  "clean_card f =
     and_then (clean_optional clean_holder (cf_cardholder_name f)) (\<lambda>h.
     and_then (clean_optional clean_number (cf_number f)) (\<lambda>n.
     and_then (clean_optional clean_verification_number (cf_verification_number f)) (\<lambda>v.
     and_then (clean_optional check_card_notes (cf_notes f)) (\<lambda>t.
     Inr \<lparr>cf_cardholder_name = h, cf_brand = cf_brand f, cf_number = n,
          cf_verification_number = v, cf_expiry = cf_expiry f, cf_notes = t\<rparr>))))"

definition effective_brand :: "card_fields \<Rightarrow> CardBrand" where
  "effective_brand f = (case cf_brand f of Some b \<Rightarrow> b | None \<Rightarrow>
     (case Option.bind (cf_number f) detect_brand of Some b \<Rightarrow> b | None \<Rightarrow> Other))"

text \<open>The last \<open>k\<close> bytes of a string, \<open>None\<close> off a character boundary.\<close>

fun suffix_bytes :: "nat \<Rightarrow> rstring \<Rightarrow> rstring option" where
  "suffix_bytes k [] = (if k = 0 then Some [] else None)"
| "suffix_bytes k (c # s) =
     (if str_len (c # s) = k then Some (c # s)
      else if str_len (c # s) < k then None else suffix_bytes k s)"

record card_summary =
  cs_brand :: CardBrand
  cs_last4 :: "rstring option"
  cs_expiry :: "card_expiry option"

definition card_summary_of :: "card_fields \<Rightarrow> card_summary option" where
  "card_summary_of f =
     (let mk = (\<lambda>l. \<lparr>cs_brand = effective_brand f, cs_last4 = l, cs_expiry = cf_expiry f\<rparr>) in
      case cf_number f of
        Some n \<Rightarrow> if MIN_DIGITS_FOR_LAST4 \<le> str_len n
                  then map_option (\<lambda>l. mk (Some l)) (suffix_bytes 4 n) else Some (mk None)
      | None \<Rightarrow> Some (mk None))"

definition card_value :: "card_fields \<Rightarrow> CardField \<Rightarrow> rstring option" where
  "card_value f k = (case k of
       CardholderName \<Rightarrow> cf_cardholder_name f
     | CardNumber \<Rightarrow> cf_number f
     | VerificationNumber \<Rightarrow> cf_verification_number f
     | Expiry \<Rightarrow> map_option expiry_display (cf_expiry f))"

record card_input =
  ci_cardholder_name :: "rstring option"
  ci_brand :: "CardBrand option"
  ci_number :: SecretUpdate
  ci_verification_number :: SecretUpdate
  ci_expiry :: "card_expiry option"
  ci_notes :: "rstring option"

section \<open>Properties\<close>

subsection \<open>Expiry\<close>

definition expiry_ok :: "card_expiry \<Rightarrow> bool" where
  "expiry_ok e \<longleftrightarrow> 1970 \<le> year e \<and> year e \<le> 2099 \<and> 1 \<le> month e \<and> month e \<le> 12"

lemma new_expiry_Inr_iff: "new_expiry y m = Inr e \<longleftrightarrow> e = \<lparr>year = y, month = m\<rparr> \<and> expiry_ok e"
  by (auto simp: new_expiry_def expiry_ok_def MIN_EXPIRY_YEAR_def MAX_EXPIRY_YEAR_def)

lemma parse_expiry_Inr_iff:
  "parse_expiry t = Inr e \<longleftrightarrow> expiry_ok e \<and> to_wire e = t"
proof
  assume p: "parse_expiry t = Inr e"
  then have asc: "is_ascii t" and len: "str_len t = 7" and dash: "t ! 4 = 45"
    and dig: "all_digits (take 4 t)" "all_digits (drop 5 t)"
    by (auto simp: parse_expiry_def split: if_splits)
  have l7: "length t = 7" using asc len str_len_ascii by (auto simp: is_ascii_def)
  then have ne: "take 4 t \<noteq> []" "drop 5 t \<noteq> []" by auto
  have e: "e = \<lparr>year = dec_value (take 4 t), month = dec_value (drop 5 t)\<rparr>" "expiry_ok e"
    using p dig ne asc len dash
    by (auto simp: parse_expiry_def parse_uint_digits result_simps new_expiry_Inr_iff split: if_splits)
  have "to_wire e = take 4 t @ [t ! 4] @ drop 5 t"
    using dig l7 dash by (simp add: to_wire_def e(1) fmt_width_dec_value)
  also have "\<dots> = t" using id_take_nth_drop [of 4 t] l7 by simp
  finally show "expiry_ok e \<and> to_wire e = t" using e(2) by simp
next
  assume t: "expiry_ok e \<and> to_wire e = t"
  define y where "y = fmt_width 4 (year e)"
  define m where "m = fmt_width 2 (month e)"
  have ly: "length y = 4" and lm: "length m = 2"
    unfolding y_def m_def using t by (auto intro!: length_fmt_width simp: expiry_ok_def)
  have dy: "all_digits y" "all_digits m" by (simp_all add: y_def m_def)
  have vy: "dec_value y = year e" "dec_value m = month e" by (simp_all add: y_def m_def)
  have t': "t = y @ [45] @ m" using t by (simp add: to_wire_def y_def m_def)
  have "str_len t = 7" using ly lm dy by (simp add: t' all_digits_str_len utf8_len_def)
  moreover have "is_ascii t" using dy all_digits_ascii by (auto simp: t' is_ascii_def)
  moreover have "t ! 4 = 45" using ly by (simp add: t' nth_append)
  moreover have "y \<noteq> []" "m \<noteq> []" using ly lm by auto
  ultimately show "parse_expiry t = Inr e"
    using dy ly lm vy t by (simp add: parse_expiry_def t' parse_uint_digits new_expiry_Inr_iff expiry_ok_def)
qed

interpretation expiry: strict_codec to_wire parse_expiry expiry_ok
  by unfold_locales (auto simp: parse_expiry_Inr_iff)

subsection \<open>Luhn\<close>

lemma luhn_digit_inject:
  assumes "is_ascii_digit c" and "is_ascii_digit d" and "luhn_digit i c = luhn_digit i d"
  shows "c = d"
proof (cases "i mod 2 = 1")
  case True
  define x where "x = c - 48"
  define z where "z = d - 48"
  have "x \<le> 9" "z \<le> 9" using assms by (auto simp: x_def z_def is_ascii_digit_def)
  moreover have "(if 9 < x * 2 then x * 2 - 9 else x * 2) = (if 9 < z * 2 then z * 2 - 9 else z * 2)"
    using assms(3) True unfolding luhn_digit_def Let_def x_def z_def by (simp only: if_True refl simp_thms)
  ultimately have "x = z" by (auto split: if_splits) presburger+
  then show ?thesis using assms by (auto simp: x_def z_def is_ascii_digit_def)
qed (use assms in \<open>auto simp: luhn_digit_def Let_def is_ascii_digit_def\<close>)

lemma luhn_digit_le: "is_ascii_digit c \<Longrightarrow> luhn_digit i c \<le> 9"
  by (auto simp: luhn_digit_def Let_def is_ascii_digit_def)

lemma luhn_sum_split:
  "luhn_sum (xs @ c # ys) = luhn_digit (length ys) c
     + (sum_list (map (\<lambda>(i, c). luhn_digit i c) (enumerate 0 (rev ys)))
     + sum_list (map (\<lambda>(i, c). luhn_digit i c) (enumerate (Suc (length ys)) (rev xs))))"
  by (simp add: luhn_sum_def enumerate_append_eq)

subsection \<open>Cleaning\<close>

lemma clean_number_Inr_iff:
  "clean_number raw = Inr d \<longleftrightarrow> d = filter (\<lambda>c. c \<noteq> 32 \<and> c \<noteq> 45) raw \<and> all_digits d \<and>
     8 \<le> length d \<and> length d \<le> 19"
  by (auto simp: clean_number_def Let_def MIN_NUMBER_DIGITS_def MAX_NUMBER_DIGITS_def
      all_digits_str_len)

lemma clean_verification_number_Inr_iff:
  "clean_verification_number raw = Inr d \<longleftrightarrow> d = trim raw \<and> all_digits d \<and>
     3 \<le> length d \<and> length d \<le> 8"
  by (auto simp: clean_verification_number_def Let_def MIN_VERIFICATION_DIGITS_def
      MAX_VERIFICATION_DIGITS_def all_digits_str_len)

lemma clean_optional_Inr_iff:
  "clean_optional f v = Inr r \<longleftrightarrow>
     (case v of None \<Rightarrow> r = None
      | Some s \<Rightarrow> if trim s = [] then r = None else \<exists>t. f s = Inr t \<and> r = Some t)"
  by (auto simp: clean_optional_def result_simps split: option.splits)

text \<open>If a cleaner fixes its own results and they are not blank, so does its optional version.\<close>

lemma clean_optional_idem:
  assumes "clean_optional f v = Inr r"
    and "\<And>s t. f s = Inr t \<Longrightarrow> trim s \<noteq> [] \<Longrightarrow> f t = Inr t \<and> trim t \<noteq> []"
  shows "clean_optional f r = Inr r"
proof (cases r)
  case (Some t)
  then obtain s where "f s = Inr t" "trim s \<noteq> []"
    using assms(1) by (auto simp: clean_optional_Inr_iff split: option.splits if_splits)
  from assms(2) [OF this] Some show ?thesis by (simp add: clean_optional_def)
qed (simp add: clean_optional_def)

lemma digits_trim_nonempty: "all_digits d \<Longrightarrow> d \<noteq> [] \<Longrightarrow> trim d = d"
  by (rule trimmed_fixed) (auto simp: trimmed_def all_digits_def dest!: digit_not_whitespace)

lemma digits_filter: "all_digits d \<Longrightarrow> filter (\<lambda>c. c \<noteq> 32 \<and> c \<noteq> 45) d = d"
  by (rule filter_True) (auto simp: all_digits_def is_ascii_digit_def)

lemma clean_number_idem:
  assumes "clean_number s = Inr t"
  shows "clean_number t = Inr t \<and> trim t \<noteq> []"
proof -
  have t: "all_digits t" "8 \<le> length t" "length t \<le> 19" using assms by (auto simp: clean_number_Inr_iff)
  then have "trim t = t" by (intro digits_trim_nonempty) auto
  with t show ?thesis by (auto simp: clean_number_Inr_iff digits_filter)
qed

lemma clean_verification_idem:
  assumes "clean_verification_number s = Inr t"
  shows "clean_verification_number t = Inr t \<and> trim t \<noteq> []"
proof -
  have t: "all_digits t" "3 \<le> length t" "length t \<le> 8"
    using assms by (auto simp: clean_verification_number_Inr_iff)
  then have "trim t = t" by (intro digits_trim_nonempty) auto
  with t show ?thesis by (auto simp: clean_verification_number_Inr_iff)
qed

lemma clean_holder_Inr_iff:
  "clean_holder s = Inr t \<longleftrightarrow> t = trim s \<and> length t \<le> 256 \<and> (\<forall>c\<in>set t. \<not> is_control c)"
  by (auto simp: clean_holder_def Let_def MAX_CARDHOLDER_CHARS_def list_ex_iff)

lemma check_card_notes_Inr: "check_card_notes s = Inr t \<Longrightarrow> t = s"
  by (auto simp: check_card_notes_def split: if_splits)

definition card_form :: "card_fields \<Rightarrow> bool" where
  "card_form f \<longleftrightarrow> clean_card f = Inr f"

lemma clean_holder_idem:
  "clean_holder s = Inr t \<Longrightarrow> trim s \<noteq> [] \<Longrightarrow> clean_holder t = Inr t \<and> trim t \<noteq> []"
  by (auto simp: clean_holder_Inr_iff)

lemma check_card_notes_idem:
  "check_card_notes s = Inr t \<Longrightarrow> trim s \<noteq> [] \<Longrightarrow> check_card_notes t = Inr t \<and> trim t \<noteq> []"
  using check_card_notes_Inr by blast

lemma clean_card_Inr_iff:
  "clean_card f = Inr g \<longleftrightarrow>
     clean_optional clean_holder (cf_cardholder_name f) = Inr (cf_cardholder_name g) \<and>
     clean_optional clean_number (cf_number f) = Inr (cf_number g) \<and>
     clean_optional clean_verification_number (cf_verification_number f) = Inr (cf_verification_number g) \<and>
     clean_optional check_card_notes (cf_notes f) = Inr (cf_notes g) \<and>
     cf_brand g = cf_brand f \<and> cf_expiry g = cf_expiry f"
  by (cases g) (auto simp: clean_card_def result_simps)

lemma clean_card_idem:
  assumes "clean_card f = Inr g"
  shows "clean_card g = Inr g"
proof -
  have h: "clean_optional clean_holder (cf_cardholder_name f) = Inr (cf_cardholder_name g)"
    and n: "clean_optional clean_number (cf_number f) = Inr (cf_number g)"
    and v: "clean_optional clean_verification_number (cf_verification_number f) = Inr (cf_verification_number g)"
    and t: "clean_optional check_card_notes (cf_notes f) = Inr (cf_notes g)"
    using assms by (simp_all only: clean_card_Inr_iff)
  have "clean_optional clean_holder (cf_cardholder_name g) = Inr (cf_cardholder_name g)"
    using h clean_holder_idem by (rule clean_optional_idem)
  moreover have "clean_optional clean_number (cf_number g) = Inr (cf_number g)"
    using n by (rule clean_optional_idem) (rule clean_number_idem)
  moreover have "clean_optional clean_verification_number (cf_verification_number g) = Inr (cf_verification_number g)"
    using v by (rule clean_optional_idem) (rule clean_verification_idem)
  moreover have "clean_optional check_card_notes (cf_notes g) = Inr (cf_notes g)"
    using t check_card_notes_idem by (rule clean_optional_idem)
  ultimately show ?thesis by (simp only: clean_card_Inr_iff simp_thms)
qed

interpretation card_clean: normaliser clean_card card_form
  by unfold_locales (auto simp: card_form_def intro: clean_card_idem)

lemma suffix_bytes_digits:
  "all_digits s \<Longrightarrow> k \<le> length s \<Longrightarrow> suffix_bytes k s = Some (drop (length s - k) s)"
  by (induction s) (auto simp: all_digits_str_len utf8_len_def is_ascii_digit_def Suc_diff_le le_Suc_eq)


subsection \<open>Claims\<close>

text \<open>
  The expiry's wire form is canonical: \<open>parse\<close> accepts a text exactly when it is the
  \<open>YYYY-MM\<close> rendering of a month in 1970-01 to 2099-12, and returns that month. So printing and
  parsing are inverse to each other and no second spelling of a date is accepted.
\<close>

theorem expiry_wire_exact:
  "parse_expiry t = Inr e \<longleftrightarrow>
     t = to_wire e \<and> 1970 \<le> year e \<and> year e \<le> 2099 \<and> 1 \<le> month e \<and> month e \<le> 12"
  using expiry.dec_iff [of t e] by (auto simp: expiry_ok_def)

text \<open>
  The Luhn check detects every single wrong digit: replacing one digit of a number that
  passes by a different digit gives a number that fails.
\<close>

theorem luhn_detects_single_digit:
  assumes "check_digit_ok (xs @ c # ys)" and "is_ascii_digit d" and "d \<noteq> c"
  shows "\<not> check_digit_ok (xs @ d # ys)"
proof
  assume bad: "check_digit_ok (xs @ d # ys)"
  have c: "is_ascii_digit c" using assms(1) by (simp add: check_digit_ok_def split: if_splits)
  define r where "r = sum_list (map (\<lambda>(i, c). luhn_digit i c) (enumerate 0 (rev ys)))
     + sum_list (map (\<lambda>(i, c). luhn_digit i c) (enumerate (Suc (length ys)) (rev xs)))"
  have "(luhn_digit (length ys) c + r) mod 10 = 0" "(luhn_digit (length ys) d + r) mod 10 = 0"
    using assms(1) bad by (simp_all add: check_digit_ok_def luhn_sum_split r_def split: if_splits)
  then have "luhn_digit (length ys) c = luhn_digit (length ys) d"
    using luhn_digit_le [OF c, of "length ys"] luhn_digit_le [OF assms(2), of "length ys"] by presburger
  then show False using luhn_digit_inject [OF c assms(2)] assms(3) by simp
qed

theorem luhn_detects_single_digit_witness:
  "\<not> check_digit_ok (str ''41111111'' @ 50 # str ''1111111'')"
  by (rule luhn_detects_single_digit [where c = 49])
    (simp_all add: check_digit_ok_def luhn_sum_def luhn_digit_def text_eval)

text \<open>
  What of a card number reaches the overview: for fields that \<open>clean\<close> accepted, building the
  summary never panics and shows either nothing or exactly the last four digits of a number of
  at least twelve digits; the verification number and the holder never influence it.
\<close>

theorem card_summary_reveals:
  assumes "clean_card f = Inr g"
  shows "\<exists>s. card_summary_of g = Some s \<and>
     (\<forall>l. cs_last4 s = Some l \<longrightarrow>
        (\<exists>n. cf_number g = Some n \<and> 12 \<le> length n \<and> length l = 4 \<and> l = drop (length n - 4) n)) \<and>
     card_summary_of (g\<lparr>cf_cardholder_name := a, cf_verification_number := b, cf_notes := c\<rparr>) = Some s"
proof (cases "cf_number g")
  case None
  then show ?thesis by (simp add: card_summary_of_def effective_brand_def split: option.splits)
next
  case (Some n)
  then obtain m where "clean_number m = Inr n"
    using assms by (auto simp: clean_card_Inr_iff clean_optional_Inr_iff split: option.splits if_splits)
  then have d: "all_digits n" and l: "8 \<le> length n" by (auto simp: clean_number_Inr_iff)
  have "suffix_bytes 4 n = Some (drop (length n - 4) n)"
    using l by (intro suffix_bytes_digits d) simp
  then show ?thesis
    using Some l all_digits_str_len [OF d]
    by (simp add: card_summary_of_def effective_brand_def MIN_DIGITS_FOR_LAST4_def split: option.splits)
qed

theorem card_summary_reveals_witness:
  "\<exists>s. card_summary_of \<lparr>cf_cardholder_name = None, cf_brand = None, cf_number = Some (str ''4111111111111111''),
        cf_verification_number = None, cf_expiry = None, cf_notes = None\<rparr> = Some s \<and>
     cs_last4 s = Some (str ''1111'')"
proof -
  let ?f = "\<lparr>cf_cardholder_name = None, cf_brand = None, cf_number = Some (str ''4111 1111 1111 1111''),
        cf_verification_number = None, cf_expiry = None, cf_notes = None\<rparr>"
  let ?g = "\<lparr>cf_cardholder_name = None, cf_brand = None, cf_number = Some (str ''4111111111111111''),
        cf_verification_number = None, cf_expiry = None, cf_notes = None\<rparr>"
  have "clean_card ?f = Inr ?g"
    by (simp add: clean_card_def clean_optional_def clean_number_def MIN_NUMBER_DIGITS_def
        MAX_NUMBER_DIGITS_def text_eval)
  from card_summary_reveals [OF this, of None None None]
  show ?thesis by (auto simp: card_summary_of_def MIN_DIGITS_FOR_LAST4_def text_eval)
qed

end
