(* ===== verification/Generator.thy ===== *)
theory Generator
  imports Errors "HOL-Library.Multiset"
begin

text \<open>
  The password generator (\<^verbatim>\<open>havenkeys-core/src/generator.rs\<close>). The random source is a parameter:
  \<open>sample i n\<close> is the index below \<open>n\<close> that the \<open>i\<close>-th uniform draw returns (\<open>Uniform::new(0, n)\<close>,
  and \<open>new_inclusive(0, i)\<close> with bound \<open>i + 1\<close>). The entropy estimate, a floating-point number for
  display, is left out.
\<close>

section \<open>Model\<close>

definition MIN_LENGTH :: nat where "MIN_LENGTH = 8"
definition MAX_LENGTH :: nat where "MAX_LENGTH = 128"

definition UPPER :: string where "UPPER = ''ABCDEFGHIJKLMNOPQRSTUVWXYZ''"
definition LOWER :: string where "LOWER = ''abcdefghijklmnopqrstuvwxyz''"
definition DIGITS :: string where "DIGITS = ''0123456789''"
definition SYMBOLS :: string where "SYMBOLS = ''!@#$%^&*()-_=+[]{};:,.?/~''"
definition AMBIGUOUS :: string where "AMBIGUOUS = ''Il1O0o''"

record generator_options =
  gen_length :: nat
  uppercase :: bool
  lowercase :: bool
  gen_digits :: bool
  symbols :: bool
  avoid_ambiguous :: bool

definition default_generator :: generator_options where
  "default_generator = \<lparr>gen_length = 24, uppercase = True, lowercase = True, gen_digits = True,
     symbols = True, avoid_ambiguous = False\<rparr>"

definition char_class :: "string \<Rightarrow> bool \<Rightarrow> string" where
  "char_class chars avoid = filter (\<lambda>c. \<not> avoid \<or> c \<notin> set AMBIGUOUS) chars"

type_synonym sampler = "nat \<Rightarrow> nat \<Rightarrow> nat"

text \<open>The draw's number is threaded through; an empty set is refused before any draw.\<close>

definition pick :: "sampler \<Rightarrow> nat \<Rightarrow> string \<Rightarrow> (nat \<times> char) result" where
  "pick sample i chars =
     (if chars = [] then Inl (InvalidInput ''empty character set'')
      else Inr (Suc i, chars ! sample i (length chars)))"

definition validate_generator :: "generator_options \<Rightarrow> unit result" where
  "validate_generator opts =
     (if \<not> (MIN_LENGTH \<le> gen_length opts \<and> gen_length opts \<le> MAX_LENGTH)
      then Inl (InvalidInput ''password length out of range'')
      else if \<not> (uppercase opts \<or> lowercase opts \<or> gen_digits opts \<or> symbols opts)
      then Inl (InvalidInput ''select at least one character type'') else Inr ())"

definition classes :: "generator_options \<Rightarrow> string list" where
  "classes opts = map (\<lambda>(_, chars). char_class chars (avoid_ambiguous opts))
     (filter fst [(uppercase opts, UPPER), (lowercase opts, LOWER), (gen_digits opts, DIGITS),
        (symbols opts, SYMBOLS)])"

fun pick_each :: "sampler \<Rightarrow> nat \<Rightarrow> string list \<Rightarrow> string \<Rightarrow> (nat \<times> string) result" where
  "pick_each sample i [] out = Inr (i, out)"
| "pick_each sample i (s # ss) out =
     and_then (pick sample i s) (\<lambda>(i', c). pick_each sample i' ss (out @ [c]))"

text \<open>\<open>while out.len() < length\<close>: the number of rounds is the number of missing characters.\<close>

fun pick_rest :: "sampler \<Rightarrow> nat \<Rightarrow> nat \<Rightarrow> string \<Rightarrow> string \<Rightarrow> (nat \<times> string) result" where
  "pick_rest sample i 0 alphabet out = Inr (i, out)"
| "pick_rest sample i (Suc n) alphabet out =
     and_then (pick sample i alphabet) (\<lambda>(i', c). pick_rest sample i' n alphabet (out @ [c]))"

definition swap :: "nat \<Rightarrow> nat \<Rightarrow> 'a list \<Rightarrow> 'a list" where
  "swap i j xs = xs[i := xs ! j, j := xs ! i]"

text \<open>\<open>shuffle sample i k out\<close> runs the loop for the indices \<open>k, \<dots>, 1\<close>.\<close>

fun shuffle :: "sampler \<Rightarrow> nat \<Rightarrow> nat \<Rightarrow> 'a list \<Rightarrow> 'a list" where
  "shuffle sample i 0 out = out"
| "shuffle sample i (Suc k) out = shuffle sample (Suc i) k (swap (Suc k) (sample i (Suc k + 1)) out)"

definition generate_password :: "sampler \<Rightarrow> generator_options \<Rightarrow> string result" where
  "generate_password sample opts =
     and_then (validate_generator opts) (\<lambda>_.
     let cs = classes opts; alphabet = concat cs in
     if cs = [] then Inl (InvalidInput ''select at least one character type'')
     else and_then (pick_each sample 0 cs []) (\<lambda>(i, out).
          and_then (pick_rest sample i (gen_length opts - length out) alphabet out) (\<lambda>(j, out').
          Inr (shuffle sample j (length out' - 1) out'))))"

section \<open>Properties\<close>

definition sampler_ok :: "sampler \<Rightarrow> bool" where
  "sampler_ok sample \<longleftrightarrow> (\<forall>i n. 0 < n \<longrightarrow> sample i n < n)"

lemma mset_swap_list: "i < length xs \<Longrightarrow> j < length xs \<Longrightarrow> mset (swap i j xs) = mset xs"
  unfolding swap_def by (rule mset_swap)

lemma length_swap [simp]: "length (swap i j xs) = length xs"
  by (simp add: swap_def)

lemma shuffle_mset:
  "sampler_ok sample \<Longrightarrow> k < length out \<or> k = 0 \<Longrightarrow> mset (shuffle sample i k out) = mset out"
proof (induction k arbitrary: i out)
  case (Suc k)
  then have "sample i (Suc k + 1) < Suc k + 1" by (simp add: sampler_ok_def)
  with Suc show ?case by (simp add: mset_swap_list)
qed simp

lemma pick_Inr: "sampler_ok sample \<Longrightarrow> s \<noteq> [] \<Longrightarrow> \<exists>c\<in>set s. pick sample i s = Inr (Suc i, c)"
  by (auto simp: pick_def sampler_ok_def intro!: bexI [OF _ nth_mem])

lemma pick_each_Inr:
  "sampler_ok sample \<Longrightarrow> \<forall>s\<in>set ss. s \<noteq> [] \<Longrightarrow>
   \<exists>j cs. pick_each sample i ss out = Inr (j, out @ cs) \<and> list_all2 (\<lambda>s c. c \<in> set s) ss cs"
proof (induction ss arbitrary: i out)
  case (Cons s ss)
  then obtain c where c: "c \<in> set s" "pick sample i s = Inr (Suc i, c)"
    using pick_Inr [of sample s i] by auto
  obtain j cs where "pick_each sample (Suc i) ss (out @ [c]) = Inr (j, (out @ [c]) @ cs)"
    "list_all2 (\<lambda>s c. c \<in> set s) ss cs"
    using Cons.IH [OF Cons.prems(1), of "Suc i" "out @ [c]"] Cons.prems(2) by auto
  with c show ?case by (auto intro!: exI [of _ "c # cs"])
qed simp

lemma pick_rest_Inr:
  "sampler_ok sample \<Longrightarrow> alphabet \<noteq> [] \<Longrightarrow>
   \<exists>j cs. pick_rest sample i n alphabet out = Inr (j, out @ cs) \<and> length cs = n \<and> set cs \<subseteq> set alphabet"
proof (induction n arbitrary: i out)
  case (Suc n)
  then obtain c where c: "c \<in> set alphabet" "pick sample i alphabet = Inr (Suc i, c)"
    using pick_Inr [of sample alphabet i] by auto
  obtain j cs where "pick_rest sample (Suc i) n alphabet (out @ [c]) = Inr (j, (out @ [c]) @ cs)"
    "length cs = n" "set cs \<subseteq> set alphabet"
    using Suc.IH [OF Suc.prems, of "Suc i" "out @ [c]"] by auto
  with c show ?case by (auto intro!: exI [of _ "c # cs"])
qed simp

lemma char_class_nonempty:
  "char_class UPPER a \<noteq> []" "char_class LOWER a \<noteq> []" "char_class DIGITS a \<noteq> []" "char_class SYMBOLS a \<noteq> []"
  by (cases a; simp add: char_class_def UPPER_def LOWER_def DIGITS_def SYMBOLS_def AMBIGUOUS_def)+

lemma classes_nonempty: "s \<in> set (classes opts) \<Longrightarrow> s \<noteq> []"
  by (auto simp: classes_def char_class_nonempty char_class_nonempty [symmetric] split: if_splits)

lemma length_classes: "length (classes opts) \<le> 4"
  by (auto simp: classes_def)

lemma classes_Nil_iff:
  "classes opts = [] \<longleftrightarrow> \<not> (uppercase opts \<or> lowercase opts \<or> gen_digits opts \<or> symbols opts)"
  by (auto simp: classes_def)

text \<open>
  The generator keeps its promise: for options that pass validation and any random source, it
  returns a password of exactly the requested length, made only of characters of the enabled
  classes, with at least one character of each enabled class, and without a look-alike character
  when those are to be avoided.
\<close>

theorem generate_password_ok:
  assumes s: "sampler_ok sample" and v: "validate_generator opts = Inr ()"
  shows "\<exists>p. generate_password sample opts = Inr p \<and> length p = gen_length opts \<and>
    set p \<subseteq> set (concat (classes opts)) \<and> (\<forall>s\<in>set (classes opts). \<exists>c\<in>set s. c \<in> set p) \<and>
    (avoid_ambiguous opts \<longrightarrow> set p \<inter> set AMBIGUOUS = {})"
proof -
  have ne: "classes opts \<noteq> []" and len: "8 \<le> gen_length opts"
    using v by (auto simp: validate_generator_def classes_Nil_iff MIN_LENGTH_def split: if_splits)
  obtain i cs where cs: "pick_each sample 0 (classes opts) [] = Inr (i, cs)"
    "list_all2 (\<lambda>s c. c \<in> set s) (classes opts) cs"
    using pick_each_Inr [OF s, of "classes opts" 0 "[]"] classes_nonempty by auto
  have lcs: "length cs \<le> gen_length opts"
    using cs(2) length_classes [of opts] len by (auto dest!: list_all2_lengthD)
  have "hd (classes opts) \<noteq> []" by (rule classes_nonempty [of _ opts]) (simp add: ne)
  then have "concat (classes opts) \<noteq> []" using ne by (cases "classes opts") auto
  then obtain j rest where r: "pick_rest sample i (gen_length opts - length cs) (concat (classes opts)) cs
      = Inr (j, cs @ rest)" "length rest = gen_length opts - length cs" "set rest \<subseteq> set (concat (classes opts))"
    using pick_rest_Inr [OF s] by blast
  define p where "p = shuffle sample j (length (cs @ rest) - 1) (cs @ rest)"
  have m: "mset p = mset (cs @ rest)"
    unfolding p_def by (rule shuffle_mset [OF s]) auto
  have g: "generate_password sample opts = Inr p"
    using v ne cs(1) r(1) by (simp add: generate_password_def p_def)
  have lp: "length p = gen_length opts" using m lcs r(2) by (metis add_diff_inverse_nat length_append not_le size_mset)
  have sp: "set p = set cs \<union> set rest" using m by (metis mset_eq_setD set_append)
  have each: "\<forall>s\<in>set (classes opts). \<exists>c\<in>set s. c \<in> set p"
    using cs(2) sp by (metis UnI1 in_set_conv_nth list_all2_conv_all_nth)
  have "set cs \<subseteq> set (concat (classes opts))"
    using cs(2) by (fastforce simp: list_all2_conv_all_nth in_set_conv_nth)
  then have sub: "set p \<subseteq> set (concat (classes opts))" using sp r(3) by blast
  moreover have "avoid_ambiguous opts \<longrightarrow> set (concat (classes opts)) \<inter> set AMBIGUOUS = {}"
    by (auto simp: classes_def char_class_def split: if_splits)
  ultimately show ?thesis using g lp each by blast
qed

theorem generate_password_ok_witness:
  "\<exists>p. generate_password (\<lambda>i n. i mod n) default_generator = Inr p \<and> length p = 24 \<and>
    set p \<subseteq> set (concat (classes default_generator)) \<and>
    (\<forall>s\<in>set (classes default_generator). \<exists>c\<in>set s. c \<in> set p)"
proof -
  have "sampler_ok (\<lambda>i n. i mod n)" by (simp add: sampler_ok_def)
  moreover have "validate_generator default_generator = Inr ()"
    by (simp add: validate_generator_def default_generator_def MIN_LENGTH_def MAX_LENGTH_def)
  ultimately show ?thesis
    using generate_password_ok [of "\<lambda>i n. i mod n" default_generator] by (auto simp: default_generator_def)
qed

end
