(* ===== verification/Tags.thy ===== *)
theory Tags
  imports Text "HOL-Library.Multiset"
begin

text \<open>
  Item tags (\<^verbatim>\<open>havenkeys-core/src/tags.rs\<close>): one stored spelling per tag, compared without case.
  Unicode lower-casing is an argument (\<open>lower\<close>). Strings compare bytewise in Rust, which is the
  lexicographic order on their scalar values.
\<close>

section \<open>Model\<close>

definition MAX_TAGS :: nat where "MAX_TAGS = 20"
definition MAX_TAG_CHARS :: nat where "MAX_TAG_CHARS = 32"

function split_whitespace :: "rstring \<Rightarrow> rstring list" where
  "split_whitespace s =
     (let t = dropWhile is_whitespace s in
      if t = [] then []
      else takeWhile (\<lambda>c. \<not> is_whitespace c) t # split_whitespace (dropWhile (\<lambda>c. \<not> is_whitespace c) t))"
  by pat_completeness auto
termination
proof (relation "measure length")
  fix s t :: rstring assume t: "t = dropWhile is_whitespace s" and ne: "t \<noteq> []"
  then have "\<not> is_whitespace (hd t)" using hd_dropWhile by blast
  then have "length (dropWhile (\<lambda>c. \<not> is_whitespace c) t) < length t"
    using ne by (cases t) (auto intro: le_imp_less_Suc length_dropWhile_le)
  also have "\<dots> \<le> length s" by (simp add: t length_dropWhile_le)
  finally show "(dropWhile (\<lambda>c. \<not> is_whitespace c) t, s) \<in> measure length" by simp
qed simp

declare split_whitespace.simps [simp del]

definition normalize_one :: "rstring \<Rightarrow> rstring result" where
  "normalize_one raw =
     (let tag = join (str '' '') (split_whitespace raw) in
      if tag = [] then Inl (InvalidInput ''Tag is empty.'')
      else if MAX_TAG_CHARS < length tag then Inl (InvalidInput ''Tag is too long.'')
      else if list_ex (\<lambda>c. is_control c \<or> c = 44) tag
      then Inl (InvalidInput ''Tag contains a character that is not allowed.'')
      else Inr tag)"

text \<open>\<open>filter(|t| seen.insert(key(t)))\<close>: the first of each key.\<close>

fun first_of_each :: "('a \<Rightarrow> 'k) \<Rightarrow> 'k list \<Rightarrow> 'a list \<Rightarrow> 'a list" where
  "first_of_each key seen [] = []"
| "first_of_each key seen (x # xs) =
     (if key x \<in> set seen then first_of_each key seen xs
      else x # first_of_each key (key x # seen) xs)"

definition dedupe_sorted :: "(rstring \<Rightarrow> rstring) \<Rightarrow> rstring list \<Rightarrow> rstring list" where
  "dedupe_sorted lower tags = sort_key (\<lambda>t. (lower t, t)) (first_of_each lower [] tags)"

definition normalize_tags :: "(rstring \<Rightarrow> rstring) \<Rightarrow> rstring list \<Rightarrow> rstring list result" where
  "normalize_tags lower raw =
     and_then (collect_results normalize_one raw) (\<lambda>tags.
     let out = dedupe_sorted lower tags in
     if MAX_TAGS < length out then Inl (InvalidInput ''Too many tags.'') else Inr out)"

text \<open>The counts of \<open>spellings\<close>: per key, how many times each spelling occurs.\<close>

definition bump :: "'k \<Rightarrow> ('k, nat) table \<Rightarrow> ('k, nat) table" where
  "bump t m = put t ((case get m t of Some n \<Rightarrow> n | None \<Rightarrow> 0) + 1) m"

definition count_tag ::
  "(rstring \<Rightarrow> rstring) \<Rightarrow> rstring \<Rightarrow> (rstring, (rstring, nat) table) table \<Rightarrow>
    (rstring, (rstring, nat) table) table" where
  "count_tag lower t m =
     put (lower t) (bump t (case get m (lower t) of Some b \<Rightarrow> b | None \<Rightarrow> [])) m"

text \<open>\<open>max_by\<close> with the order of the source: more items first, then the smaller spelling.\<close>

definition better :: "rstring \<times> nat \<Rightarrow> rstring \<times> nat \<Rightarrow> bool" where
  "better x y \<longleftrightarrow> snd y < snd x \<or> (snd x = snd y \<and> fst x < fst y)"

fun max_spelling :: "(rstring \<times> nat) list \<Rightarrow> (rstring \<times> nat) option" where
  "max_spelling [] = None"
| "max_spelling (x # xs) = (case max_spelling xs of
     None \<Rightarrow> Some x | Some y \<Rightarrow> Some (if better x y then x else y))"

definition spellings :: "(rstring \<Rightarrow> rstring) \<Rightarrow> rstring list list \<Rightarrow> (rstring, rstring) table" where
  "spellings lower tag_sets =
     List.map_filter (\<lambda>(k, m). map_option (\<lambda>b. (k, fst b)) (max_spelling m))
       (fold (count_tag lower) (concat tag_sets) [])"

definition canonicalize ::
  "(rstring \<Rightarrow> rstring) \<Rightarrow> rstring list \<Rightarrow> (rstring, rstring) table \<Rightarrow> rstring list" where
  "canonicalize lower tags vault =
     dedupe_sorted lower (map (\<lambda>t. case get vault (lower t) of Some s \<Rightarrow> s | None \<Rightarrow> t) tags)"

section \<open>Properties\<close>

subsection \<open>One tag\<close>

definition word_ok :: "rstring \<Rightarrow> bool" where
  "word_ok w \<longleftrightarrow> w \<noteq> [] \<and> (\<forall>c\<in>set w. \<not> is_whitespace c)"

lemma split_whitespace_words: "w \<in> set (split_whitespace s) \<Longrightarrow> word_ok w"
proof (induction s rule: split_whitespace.induct)
  case (1 s)
  define t where "t = dropWhile is_whitespace s"
  show ?case
  proof (cases "t = []")
    case True
    then show ?thesis using 1 by (simp add: split_whitespace.simps [of s] t_def)
  next
    case False
    then have "\<not> is_whitespace (hd t)" unfolding t_def by (rule hd_dropWhile)
    then have "word_ok (takeWhile (\<lambda>c. \<not> is_whitespace c) t)"
      using False by (cases t) (auto simp: word_ok_def dest: set_takeWhileD)
    moreover have "split_whitespace s = takeWhile (\<lambda>c. \<not> is_whitespace c) t #
        split_whitespace (dropWhile (\<lambda>c. \<not> is_whitespace c) t)"
      using False unfolding split_whitespace.simps [of s] t_def Let_def by (simp only: if_False)
    ultimately show ?thesis using 1(1) [OF t_def False] 1(2) by auto
  qed
qed

lemma split_whitespace_word: "word_ok w \<Longrightarrow> split_whitespace w = [w]"
proof -
  assume w: "word_ok w"
  then have "dropWhile is_whitespace w = w" by (cases w) (auto simp: word_ok_def)
  moreover have "takeWhile (\<lambda>c. \<not> is_whitespace c) w = w"
    using w by (auto simp: word_ok_def takeWhile_eq_all_conv)
  moreover have "dropWhile (\<lambda>c. \<not> is_whitespace c) w = []" "w \<noteq> []"
    using w by (auto simp: word_ok_def)
  moreover have "split_whitespace [] = []" by (simp add: split_whitespace.simps)
  ultimately show ?thesis by (simp only: split_whitespace.simps [of w] Let_def if_False)
qed

lemma split_whitespace_space:
  assumes w: "word_ok w" shows "split_whitespace (w @ 32 # r) = w # split_whitespace r"
proof -
  have sp: "is_whitespace 32" by (simp add: is_whitespace_def)
  have d: "dropWhile is_whitespace (w @ 32 # r) = w @ 32 # r"
    using w by (cases w) (auto simp: word_ok_def)
  have t: "takeWhile (\<lambda>c. \<not> is_whitespace c) (w @ 32 # r) = w"
    using w sp by (auto simp: word_ok_def takeWhile_append2)
  have e: "dropWhile (\<lambda>c. \<not> is_whitespace c) (w @ 32 # r) = 32 # r"
    using w sp by (auto simp: word_ok_def dropWhile_append2)
  have "split_whitespace (32 # r) = split_whitespace r"
    using sp by (simp add: split_whitespace.simps [of "32 # r"] split_whitespace.simps [of r])
  then show ?thesis
    by (subst split_whitespace.simps) (simp only: Let_def d t e append_is_Nil_conv list.simps if_False simp_thms)
qed

lemma split_whitespace_join:
  "(\<And>w. w \<in> set ws \<Longrightarrow> word_ok w) \<Longrightarrow> split_whitespace (join (str '' '') ws) = ws"
proof (induction ws rule: induct_list012)
  case 1
  then show ?case by (simp add: split_whitespace.simps)
next
  case (3 x y r)
  then have "split_whitespace (x @ 32 # join (str '' '') (y # r)) = x # split_whitespace (join (str '' '') (y # r))"
    by (intro split_whitespace_space) simp
  with 3 show ?case by (simp add: str_def)
qed (simp add: split_whitespace_word)

definition tag_form :: "rstring \<Rightarrow> bool" where
  "tag_form t \<longleftrightarrow> normalize_one t = Inr t"

lemma normalize_one_idem: "normalize_one raw = Inr t \<Longrightarrow> normalize_one t = Inr t"
  using split_whitespace_join [of "split_whitespace raw"] split_whitespace_words [of _ raw]
  by (auto simp: normalize_one_def Let_def split: if_splits)

interpretation tag: normaliser normalize_one tag_form
  by unfold_locales (auto simp: tag_form_def intro: normalize_one_idem)

subsection \<open>Sets of tags\<close>

lemma first_of_each_keys:
  "distinct (map key (first_of_each key seen xs)) \<and>
   key ` set (first_of_each key seen xs) = key ` set xs - set seen \<and>
   set (first_of_each key seen xs) \<subseteq> set xs"
  by (induction xs arbitrary: seen) auto

lemma first_of_each_distinct:
  "distinct (map key xs) \<Longrightarrow> key ` set xs \<inter> set seen = {} \<Longrightarrow> first_of_each key seen xs = xs"
  by (induction xs arbitrary: seen) auto

text \<open>The stored form: keys strictly increasing.\<close>

definition strictly_sorted :: "(rstring \<Rightarrow> rstring) \<Rightarrow> rstring list \<Rightarrow> bool" where
  "strictly_sorted lower ts \<longleftrightarrow> sorted_wrt (\<lambda>a b. lower a < lower b) ts"

lemma dedupe_sorted_mset:
  "set (dedupe_sorted lower ts) = set (first_of_each lower [] ts)"
  "length (dedupe_sorted lower ts) = length (first_of_each lower [] ts)"
  by (simp_all add: dedupe_sorted_def)

lemma dedupe_sorted_form: "strictly_sorted lower (dedupe_sorted lower ts)"
proof -
  let ?xs = "first_of_each lower [] ts" let ?ys = "dedupe_sorted lower ts"
  have "distinct (map lower ?xs)" using first_of_each_keys by blast
  then have d: "distinct (map lower ?ys)"
    by (simp add: dedupe_sorted_def distinct_map)
  have "sorted (map (\<lambda>t. (lower t, t)) ?ys)" by (simp add: dedupe_sorted_def)
  then have "sorted (map lower ?ys)"
    unfolding sorted_map by (rule sorted_wrt_mono_rel [rotated]) (auto simp: less_eq_prod_def)
  with d have "sorted_wrt (<) (map lower ?ys)" by (simp add: strict_sorted_iff)
  then show ?thesis by (simp add: strictly_sorted_def sorted_wrt_map)
qed

lemma dedupe_sorted_fixed:
  assumes "strictly_sorted lower ts"
  shows "dedupe_sorted lower ts = ts"
proof -
  have "sorted_wrt (<) (map lower ts)" using assms by (simp add: strictly_sorted_def sorted_wrt_map)
  then have "distinct (map lower ts)" using strict_sorted_iff by blast
  then have "first_of_each lower [] ts = ts" by (intro first_of_each_distinct) auto
  moreover have "sorted (map (\<lambda>t. (lower t, t)) ts)"
    unfolding sorted_map using assms unfolding strictly_sorted_def
    by (rule sorted_wrt_mono_rel [rotated]) (auto simp: less_eq_prod_def)
  then have "sort_key (\<lambda>t. (lower t, t)) ts = ts" by (rule sort_key_id_if_sorted)
  ultimately show ?thesis by (simp add: dedupe_sorted_def)
qed

definition tags_form :: "(rstring \<Rightarrow> rstring) \<Rightarrow> rstring list \<Rightarrow> bool" where
  "tags_form lower ts \<longleftrightarrow> strictly_sorted lower ts \<and> (\<forall>t\<in>set ts. tag_form t) \<and> length ts \<le> 20"

lemma normalize_tags_Inr_iff:
  "normalize_tags lower raw = Inr out \<longleftrightarrow>
     (\<exists>ts. collect_results normalize_one raw = Inr ts \<and> out = dedupe_sorted lower ts \<and> length out \<le> 20)"
  by (cases "collect_results normalize_one raw") (auto simp: normalize_tags_def Let_def MAX_TAGS_def)

lemma dedupe_sorted_subset: "set (dedupe_sorted lower ts) \<subseteq> set ts"
  using first_of_each_keys [of lower "[]" ts] by (simp add: dedupe_sorted_def)

lemma dedupe_sorted_keys: "lower ` set (dedupe_sorted lower ts) = lower ` set ts"
  using first_of_each_keys [of lower "[]" ts] by (simp add: dedupe_sorted_def)

interpretation tags: normaliser "normalize_tags lower" "tags_form lower"
proof unfold_locales
  fix raw out assume "normalize_tags lower raw = Inr out"
  then obtain ts where "collect_results normalize_one raw = Inr ts"
    and out: "out = dedupe_sorted lower ts" "length out \<le> 20"
    by (auto simp: normalize_tags_Inr_iff)
  then have "\<forall>t\<in>set ts. tag_form t" by (auto dest: tag.clean_all_result)
  then show "tags_form lower out"
    using out dedupe_sorted_subset by (auto simp: tags_form_def dedupe_sorted_form)
next
  fix ts assume "tags_form lower ts"
  then show "normalize_tags lower ts = Inr ts"
    by (auto simp: tags_form_def normalize_tags_Inr_iff dedupe_sorted_fixed tag_form_def
        intro!: exI [of _ ts] collect_results_fixed)
qed

subsection \<open>The vault's spelling\<close>

lemma get_map_filter:
  "table_ok m \<Longrightarrow>
   get (List.map_filter (\<lambda>(k, v). map_option (\<lambda>b. (k, g b)) (h v)) m) k = Option.bind (get m k) (\<lambda>v. map_option g (h v))"
proof (induction m)
  case (Cons x m)
  obtain j v where x: "x = (j, v)" by (cases x)
  have ok: "table_ok m" and j: "get m j = None"
    using Cons.prems by (auto simp: table_ok_def x get_def map_of_eq_None_iff)
  show ?case using Cons.IH [OF ok] j by (auto simp: x get_def List.map_filter_simps split: option.splits)
qed (simp add: get_def List.map_filter_simps)

definition counts_inv ::
  "(rstring \<Rightarrow> rstring) \<Rightarrow> rstring list \<Rightarrow> (rstring, (rstring, nat) table) table \<Rightarrow> bool" where
  "counts_inv lower ts m \<longleftrightarrow> table_ok m \<and>
     (\<forall>k. get m k = None \<longrightarrow> (\<forall>t\<in>set ts. lower t \<noteq> k)) \<and>
     (\<forall>k b. get m k = Some b \<longrightarrow> table_ok b \<and>
        (\<forall>t n. get b t = Some n \<longleftrightarrow> t \<in> set ts \<and> lower t = k \<and> n = count_list ts t))"

lemma counts_inv_step:
  assumes "counts_inv lower ts m"
  shows "counts_inv lower (ts @ [x]) (count_tag lower x m)"
proof (cases "get m (lower x)")
  case None
  then have "x \<notin> set ts" using assms by (auto simp: counts_inv_def)
  moreover have "get m k = Some b \<Longrightarrow> k \<noteq> lower x" for k b using None by auto
  ultimately show ?thesis
    using assms None unfolding counts_inv_def count_tag_def bump_def
    by (auto simp: tab.wf_upsert count_list_0_iff split: if_splits)
next
  case (Some b)
  have b: "table_ok b" "\<And>t n. get b t = Some n \<longleftrightarrow> t \<in> set ts \<and> lower t = lower x \<and> n = count_list ts t"
    using assms Some by (auto simp: counts_inv_def)
  have n: "(case get b x of Some n \<Rightarrow> n | None \<Rightarrow> 0) = count_list ts x"
  proof (cases "get b x")
    case None
    then have "x \<notin> set ts" using b(2) [of x "count_list ts x"] by auto
    then show ?thesis using None by (simp add: count_list_0_iff)
  next
    case (Some j)
    then show ?thesis using b(2) [of x j] by simp
  qed
  show ?thesis
    using assms Some b n unfolding counts_inv_def count_tag_def bump_def
    by (auto simp: tab.wf_upsert split: if_splits)
qed

lemma counts_inv_fold: "counts_inv lower ts (fold (count_tag lower) ts [])"
proof (induction ts rule: rev_induct)
  case Nil
  then show ?case by (simp add: counts_inv_def)
next
  case (snoc x ts)
  then show ?case using counts_inv_step by simp
qed

lemma better_trans: "better x y \<Longrightarrow> better y z \<Longrightarrow> better x z"
  by (auto simp: better_def)

lemma better_total: "x \<noteq> y \<Longrightarrow> better x y \<or> better y x"
  by (cases x; cases y) (auto simp: better_def not_less)

lemma better_asym: "better x y \<Longrightarrow> \<not> better y x"
  by (auto simp: better_def)

lemma max_spelling_Some:
  "max_spelling xs = Some x \<Longrightarrow> x \<in> set xs \<and> (\<forall>y\<in>set xs. y = x \<or> better x y)"
proof (induction xs arbitrary: x)
  case (Cons a xs)
  show ?case
  proof (cases "max_spelling xs")
    case None
    then have "xs = []" by (cases xs) (auto split: option.splits)
    with Cons show ?thesis by simp
  next
    case (Some y)
    with Cons.IH [OF Some] Cons.prems better_total [of a y] show ?thesis
      by (auto split: if_splits intro: better_trans)
  qed
qed simp

lemma max_spelling_None: "max_spelling xs = None \<longleftrightarrow> xs = []"
  by (cases xs) (auto split: option.splits)

lemma max_spelling_iff:
  "max_spelling xs = Some x \<longleftrightarrow> x \<in> set xs \<and> (\<forall>y\<in>set xs. y = x \<or> better x y)"
proof
  assume r: "x \<in> set xs \<and> (\<forall>y\<in>set xs. y = x \<or> better x y)"
  then obtain z where z: "max_spelling xs = Some z" by (cases "max_spelling xs") (auto simp: max_spelling_None)
  then have "x = z \<or> better z x" "z = x \<or> better x z" using max_spelling_Some [OF z] r by metis+
  then have "z = x" using better_asym by metis
  with z show "max_spelling xs = Some x" by simp
qed (rule max_spelling_Some)

text \<open>
  \<open>vault_spelling lower ts t\<close>: among the spellings of its key in the list \<open>ts\<close> of all tags, \<open>t\<close>
  occurs most often, and is the smallest of those that do.
\<close>

definition vault_spelling :: "(rstring \<Rightarrow> rstring) \<Rightarrow> rstring list \<Rightarrow> rstring \<Rightarrow> bool" where
  "vault_spelling lower ts t \<longleftrightarrow> t \<in> set ts \<and>
     (\<forall>u\<in>set ts. lower u = lower t \<longrightarrow>
        u = t \<or> count_list ts u < count_list ts t \<or> (count_list ts u = count_list ts t \<and> t < u))"

lemma max_spelling_counts:
  assumes "\<And>u n. (u, n) \<in> set b \<longleftrightarrow> u \<in> set ts \<and> lower u = k \<and> n = count_list ts u"
  shows "max_spelling b = Some (t, n) \<longleftrightarrow>
    n = count_list ts t \<and> lower t = k \<and> vault_spelling lower ts t"
proof
  assume "max_spelling b = Some (t, n)"
  then have m: "(t, n) \<in> set b" and all: "\<And>y. y \<in> set b \<Longrightarrow> y = (t, n) \<or> better (t, n) y"
    by (simp_all add: max_spelling_iff)
  have t: "t \<in> set ts" "lower t = k" "n = count_list ts t" using m by (simp_all add: assms)
  have "u = t \<or> count_list ts u < count_list ts t \<or> (count_list ts u = count_list ts t \<and> t < u)"
    if "u \<in> set ts" "lower u = k" for u
  proof -
    have "(u, count_list ts u) \<in> set b" using that by (simp add: assms)
    from all [OF this] t(3) show ?thesis by (auto simp: better_def)
  qed
  with t show "n = count_list ts t \<and> lower t = k \<and> vault_spelling lower ts t"
    by (simp add: vault_spelling_def)
next
  assume r: "n = count_list ts t \<and> lower t = k \<and> vault_spelling lower ts t"
  then have "(t, n) \<in> set b" by (simp add: assms vault_spelling_def)
  moreover have "y = (t, n) \<or> better (t, n) y" if y: "y \<in> set b" for y
  proof -
    obtain u c where u: "y = (u, c)" by (cases y)
    then have "u \<in> set ts" "lower u = k" "c = count_list ts u" using y by (simp_all add: assms)
    with r u show ?thesis unfolding vault_spelling_def better_def by auto
  qed
  ultimately show "max_spelling b = Some (t, n)" by (simp add: max_spelling_iff)
qed

lemma spellings_iff:
  "get (spellings lower sets) k = Some t \<longleftrightarrow> lower t = k \<and> vault_spelling lower (concat sets) t"
proof -
  define ts where "ts = concat sets"
  define m where "m = fold (count_tag lower) ts []"
  have inv: "counts_inv lower ts m" by (simp add: m_def counts_inv_fold)
  have g: "get (spellings lower sets) k = Option.bind (get m k) (\<lambda>v. map_option fst (max_spelling v))"
    using inv get_map_filter [of m fst max_spelling k] by (simp add: spellings_def counts_inv_def ts_def m_def)
  show ?thesis
  proof (cases "get m k")
    case None
    then show ?thesis using inv g by (auto simp: counts_inv_def vault_spelling_def ts_def [symmetric])
  next
    case (Some b)
    have b: "(u, n) \<in> set b \<longleftrightarrow> u \<in> set ts \<and> lower u = k \<and> n = count_list ts u" for u n
      using inv Some by (auto simp: counts_inv_def get_Some_iff [symmetric])
    have "get (spellings lower sets) k = Some t \<longleftrightarrow> (\<exists>n. max_spelling b = Some (t, n))"
      using g Some by auto
    also have "\<dots> \<longleftrightarrow> lower t = k \<and> vault_spelling lower ts t"
      by (simp add: max_spelling_counts [of b ts lower k, OF b])
    finally show ?thesis by (simp add: ts_def)
  qed
qed

lemma count_list_mset: "count_list xs x = count (mset xs) x"
  by (induction xs) auto

lemma vault_spelling_mset:
  "mset ts = mset us \<Longrightarrow> vault_spelling lower ts t = vault_spelling lower us t"
  unfolding vault_spelling_def count_list_mset by (metis mset_eq_setD)

lemma canonicalize_keys:
  assumes "\<And>k s. get vault k = Some s \<Longrightarrow> lower s = k"
  shows "lower ` set (canonicalize lower ts vault) = lower ` set ts"
proof -
  have "lower (case get vault (lower t) of Some s \<Rightarrow> s | None \<Rightarrow> t) = lower t" for t
    using assms by (auto split: option.splits)
  then show ?thesis by (simp add: canonicalize_def dedupe_sorted_keys image_image)
qed

subsection \<open>Claims\<close>

text \<open>
  The stored tags are a normal form. What \<open>normalize\<close> returns has its tags strictly increasing
  by their case-less key (so no two spellings of one tag), at most 20 of them, each one trimmed
  to single inner spaces; every key given is kept and no tag is invented; and normalising again
  changes nothing.
\<close>

theorem normalize_tags_normal_form:
  assumes "normalize_tags lower raw = Inr out"
  shows "sorted_wrt (\<lambda>a b. lower a < lower b) out \<and> length out \<le> 20 \<and>
    normalize_tags lower out = Inr out \<and>
    (\<exists>ts. collect_results normalize_one raw = Inr ts \<and> set out \<subseteq> set ts \<and> lower ` set out = lower ` set ts)"
proof -
  obtain ts where ts: "collect_results normalize_one raw = Inr ts" "out = dedupe_sorted lower ts"
    using assms by (auto simp: normalize_tags_Inr_iff)
  have "tags_form lower out" using assms by (rule tags.clean_result)
  then show ?thesis
    using ts tags.clean_fixed [of lower out] dedupe_sorted_subset [of lower ts] dedupe_sorted_keys [of lower ts]
    by (auto simp: tags_form_def strictly_sorted_def)
qed

theorem normalize_tags_normal_form_witness:
  "normalize_tags (map to_ascii_lowercase) [str '' b  c '', str ''A'', str ''B C''] = Inr [str ''A'', str ''b c''] \<and>
   normalize_tags (map to_ascii_lowercase) [str ''A'', str ''b c''] = Inr [str ''A'', str ''b c'']"
proof -
  have n: "normalize_tags (map to_ascii_lowercase) [str '' b  c '', str ''A'', str ''B C''] = Inr [str ''A'', str ''b c'']"
    by (simp add: normalize_tags_def normalize_one_def split_whitespace.simps dedupe_sorted_def
        MAX_TAG_CHARS_def MAX_TAGS_def text_eval)
  with normalize_tags_normal_form [OF n] show ?thesis by blast
qed

text \<open>
  The vault's spelling of a tag does not depend on the order items come in: for two lists of
  tag sets with the same tags altogether, \<open>spellings\<close> chooses the same spelling for every key, and
  it is the one most items carry, the smallest of those on a tie.
\<close>

theorem spellings_order_independent:
  assumes "mset (concat sets) = mset (concat sets')"
  shows "get (spellings lower sets) k = get (spellings lower sets') k \<and>
    (\<forall>t. get (spellings lower sets) k = Some t \<longleftrightarrow> lower t = k \<and> vault_spelling lower (concat sets) t)"
proof -
  have "get (spellings lower sets) k = Some t \<longleftrightarrow> get (spellings lower sets') k = Some t" for t
    using vault_spelling_mset [OF assms] by (simp add: spellings_iff)
  then show ?thesis by (metis not_None_eq spellings_iff)
qed

theorem spellings_order_independent_witness:
  "get (spellings (map to_ascii_lowercase) [[str ''Work''], [str ''work''], [str ''work'']]) (str ''work'') =
   get (spellings (map to_ascii_lowercase) [[str ''work''], [str ''work''], [str ''Work'']]) (str ''work'')"
  by (rule conjunct1 [OF spellings_order_independent]) simp

text \<open>
  Spelling a tag set the vault's way neither adds nor drops a tag: with the spellings collected
  from any items, \<open>canonicalize\<close> returns the same case-less keys, in normal form, and every tag the
  vault knows has the vault's spelling.
\<close>

theorem canonicalize_keeps_tags:
  "lower ` set (canonicalize lower ts (spellings lower sets)) = lower ` set ts \<and>
   sorted_wrt (\<lambda>a b. lower a < lower b) (canonicalize lower ts (spellings lower sets)) \<and>
   (\<forall>t\<in>set (canonicalize lower ts (spellings lower sets)).
      \<forall>s. get (spellings lower sets) (lower t) = Some s \<longrightarrow> t = s)"
proof (intro conjI ballI allI impI)
  let ?v = "spellings lower sets"
  show "lower ` set (canonicalize lower ts ?v) = lower ` set ts"
    by (rule canonicalize_keys) (simp add: spellings_iff)
  show "sorted_wrt (\<lambda>a b. lower a < lower b) (canonicalize lower ts ?v)"
    using dedupe_sorted_form by (simp add: canonicalize_def strictly_sorted_def)
  fix t s assume t: "t \<in> set (canonicalize lower ts ?v)" and s: "get ?v (lower t) = Some s"
  have "t \<in> set (map (\<lambda>t. case get ?v (lower t) of Some s \<Rightarrow> s | None \<Rightarrow> t) ts)"
    by (rule subsetD [OF dedupe_sorted_subset t [unfolded canonicalize_def]])
  then obtain u where u: "t = (case get ?v (lower u) of Some s \<Rightarrow> s | None \<Rightarrow> u)" by auto
  show "t = s"
  proof (cases "get ?v (lower u)")
    case None
    with u s show ?thesis by simp
  next
    case (Some x)
    then have "lower x = lower u" by (simp only: spellings_iff)
    with u s Some show ?thesis by simp
  qed
qed

theorem canonicalize_keeps_tags_witness:
  "map to_ascii_lowercase ` set (canonicalize (map to_ascii_lowercase) [str ''WORK'']
     (spellings (map to_ascii_lowercase) [[str ''Work'']])) = {str ''work''}"
  using canonicalize_keeps_tags [of "map to_ascii_lowercase" "[str ''WORK'']" "[[str ''Work'']]"]
  by (simp add: str_def to_ascii_lowercase_def)

end
