(* ===== verification/Model.thy ===== *)
theory Model
  imports Banks Cards Generator Tags
begin

text \<open>
  The item model (\<^verbatim>\<open>havenkeys-core/src/model.rs\<close>, with the records it embeds from
  \<^verbatim>\<open>sso.rs\<close>, \<^verbatim>\<open>attachment.rs\<close>, \<^verbatim>\<open>passkey/mod.rs\<close> and \<^verbatim>\<open>health/mod.rs\<close>): overview, details, the
  editor's input and its shape check, and the settings. Fields a newer version wrote (\<open>extra\<close>) are
  kept as pairs of a name and a JSON text. The timestamps are \<open>i64\<close> milliseconds, as \<open>int\<close>.
\<close>

section \<open>Model\<close>

subsection \<open>Sign in with\<close>

definition MAX_ACCOUNT_CHARS :: nat where "MAX_ACCOUNT_CHARS = 254"

datatype SsoProvider =
  Google | Microsoft | Github | Apple | Facebook | Discord | X | Linkedin | Gitlab

definition ALL_PROVIDERS :: "SsoProvider list" where
  "ALL_PROVIDERS = [Apple, Discord, Facebook, Github, Gitlab, Google, Linkedin, Microsoft, X]"

fun provider_name :: "SsoProvider \<Rightarrow> string" where
  "provider_name Google = ''Google''"
| "provider_name Microsoft = ''Microsoft''"
| "provider_name Github = ''GitHub''"
| "provider_name Apple = ''Apple''"
| "provider_name Facebook = ''Facebook''"
| "provider_name Discord = ''Discord''"
| "provider_name X = ''X''"
| "provider_name Linkedin = ''LinkedIn''"
| "provider_name Gitlab = ''GitLab''"

fun provider_origins :: "SsoProvider \<Rightarrow> string list" where
  "provider_origins Google = [''https://accounts.google.com'']"
| "provider_origins Microsoft = [''https://login.microsoftonline.com'', ''https://login.live.com'']"
| "provider_origins Github = [''https://github.com'']"
| "provider_origins Apple = [''https://appleid.apple.com'']"
| "provider_origins Facebook = [''https://www.facebook.com'']"
| "provider_origins Discord = [''https://discord.com'']"
| "provider_origins X = [''https://x.com'', ''https://api.x.com'']"
| "provider_origins Linkedin = [''https://www.linkedin.com'']"
| "provider_origins Gitlab = [''https://gitlab.com'']"

definition allows_origin :: "SsoProvider \<Rightarrow> rstring \<Rightarrow> bool" where
  "allows_origin p origin \<longleftrightarrow> origin \<in> str ` set (provider_origins p)"

definition provider_from_name :: "rstring \<Rightarrow> SsoProvider option" where
  "provider_from_name name =
     (let n = trim name in
      if eq_ignore_ascii_case n (str ''twitter'') then Some X
      else List.find (\<lambda>p. eq_ignore_ascii_case (str (provider_name p)) n) ALL_PROVIDERS)"

record sign_in_with =
  provider :: SsoProvider
  siw_account :: "rstring option"

definition clean_sign_in_with :: "sign_in_with option \<Rightarrow> sign_in_with option result" where
  "clean_sign_in_with v =
     (case v of
        None \<Rightarrow> Inr None
      | Some s \<Rightarrow>
          (case siw_account s of
             None \<Rightarrow> Inr (Some s)
           | Some raw \<Rightarrow>
               let a = trim raw in
               if a = [] then Inr (Some (s\<lparr>siw_account := None\<rparr>))
               else if MAX_ACCOUNT_CHARS < length a \<or> list_ex is_control a
               then Inl (InvalidInput ''account is too long or contains control characters'')
               else Inr (Some (s\<lparr>siw_account := Some a\<rparr>))))"

subsection \<open>Items\<close>

type_synonym extra_fields = "(rstring \<times> rstring) list"

record attachment_meta =
  am_id :: uuid
  am_name :: rstring
  am_mime :: rstring
  am_size :: nat
  am_blob_sha256 :: bytes
  am_created_at :: int
  am_extra :: extra_fields

record item_overview =
  ov_id :: uuid
  ov_item_type :: ItemType
  ov_title :: rstring
  ov_username :: "rstring option"
  ov_urls :: "url_rule list"
  ov_has_password :: bool
  ov_has_totp :: bool
  ov_has_notes :: bool
  ov_has_passkey :: bool
  ov_auto_sign_in :: bool
  ov_sign_in_with :: "sign_in_with option"
  ov_card :: "card_summary option"
  ov_bank :: "bank_summary option"
  ov_tags :: "rstring list"
  ov_trashed_at :: "int option"
  ov_attachments :: "attachment_meta list"
  ov_extra :: extra_fields
  ov_created_at :: int
  ov_updated_at :: int

record passkey =
  credential_id :: bytes
  rp_id :: rstring
  user_handle :: bytes
  user_name :: rstring
  pk_display_name :: "rstring option"
  private_key :: bytes
  pk_created_at :: int
  pk_replaced_at :: "int option"

datatype HealthCheck = Weak | Reused | Old | PasskeyCheck | TwoFactor | Insecure | Duplicate

record previous_password =
  pp_password :: rstring
  pp_replaced_at :: int

record login_details =
  lg_password :: "rstring option"
  lg_totp :: "totp_config option"
  lg_notes :: "rstring option"
  lg_password_history :: "previous_password list"
  lg_passkeys :: "passkey list"
  lg_sections :: "field_section list"
  lg_app_bindings :: "app_binding list"
  lg_health_ignored :: "HealthCheck list"

datatype item_details =
    DLogin login_details
  | DSecureNote rstring "field_section list"
  | DIdentity identity_fields
  | DCard card_fields
  | DBankAccount bank_fields

fun details_type :: "item_details \<Rightarrow> ItemType" where
  "details_type (DLogin l) = TLogin"
| "details_type (DSecureNote c s) = TSecureNote"
| "details_type (DIdentity f) = TIdentity"
| "details_type (DCard f) = TCard"
| "details_type (DBankAccount f) = TBankAccount"

record item_input =
  in_item_type :: ItemType
  in_title :: rstring
  in_username :: "rstring option"
  in_urls :: "url_rule list"
  in_password :: SecretUpdate
  in_totp :: SecretUpdate
  in_notes :: SecretUpdate
  in_content :: SecretUpdate
  in_auto_sign_in :: "bool option"
  in_sign_in_with :: "sign_in_with option"
  in_identity :: "identity_fields option"
  in_card :: "card_input option"
  in_bank :: "bank_input option"
  in_sections :: "SecretUpdate section_input list option"
  in_tags :: "rstring list option"

definition blank_input :: "ItemType \<Rightarrow> rstring \<Rightarrow> item_input" where
  "blank_input t title = \<lparr>in_item_type = t, in_title = title, in_username = None, in_urls = [],
     in_password = Keep, in_totp = Keep, in_notes = Keep, in_content = Keep, in_auto_sign_in = None,
     in_sign_in_with = None, in_identity = None, in_card = None, in_bank = None, in_sections = None,
     in_tags = None\<rparr>"

datatype SecretField = SFPassword | SFNotes | SFContent

definition has_text :: "rstring option \<Rightarrow> bool" where
  "has_text u \<longleftrightarrow> (case u of Some s \<Rightarrow> trim s \<noteq> [] | None \<Rightarrow> False)"

definition login_fields :: "item_input \<Rightarrow> bool" where
  "login_fields i \<longleftrightarrow> has_text (in_username i) \<or> in_urls i \<noteq> [] \<or> \<not> is_keep (in_password i) \<or>
     \<not> is_keep (in_totp i) \<or> \<not> is_keep (in_notes i) \<or> in_sign_in_with i \<noteq> None"

text \<open>The arms of \<open>check_shape\<close>'s match, in their order.\<close>

definition check_shape :: "item_input \<Rightarrow> unit result" where
  "check_shape i =
     (let t = in_item_type i; identity_only = login_fields i \<or> \<not> is_keep (in_content i) in
      if t \<notin> {TLogin, TSecureNote, TBankAccount} \<and> in_sections i \<noteq> None
      then Inl (InvalidInput ''only a login, a bank account or a secure note has custom fields'')
      else if t = TBankAccount \<and> in_bank i = None
      then Inl (InvalidInput ''a bank account needs its values'')
      else if t = TBankAccount \<and> (has_text (in_username i) \<or> \<not> is_keep (in_totp i) \<or>
          \<not> is_keep (in_content i) \<or> in_sign_in_with i \<noteq> None \<or> in_identity i \<noteq> None \<or> in_card i \<noteq> None)
      then Inl (InvalidInput ''a bank account only has bank values'')
      else if t \<noteq> TBankAccount \<and> in_bank i \<noteq> None
      then Inl (InvalidInput ''only a bank account has bank values'')
      else if t = TCard \<and> in_card i = None then Inl (InvalidInput ''a card needs its values'')
      else if t = TCard \<and> (identity_only \<or> in_identity i \<noteq> None)
      then Inl (InvalidInput ''a card only has card values'')
      else if t \<in> {TLogin, TSecureNote, TIdentity} \<and> in_card i \<noteq> None
      then Inl (InvalidInput ''only a card has card values'')
      else if t = TIdentity \<and> in_identity i = None
      then Inl (InvalidInput ''an identity needs its values'')
      else if t = TIdentity \<and> identity_only
      then Inl (InvalidInput ''an identity only has identity values'')
      else if t \<in> {TLogin, TSecureNote} \<and> in_identity i \<noteq> None
      then Inl (InvalidInput ''only an identity has identity values'')
      else if t = TLogin \<and> \<not> is_keep (in_content i)
      then Inl (InvalidInput ''logins do not have note content'')
      else if t = TSecureNote \<and> login_fields i
      then Inl (InvalidInput ''secure notes only have a title and content'')
      else Inr ())"

subsection \<open>Settings\<close>

datatype Theme = Dark | Light | System

record settings =
  auto_lock_minutes :: nat
  clipboard_clear_seconds :: nat
  theme :: Theme
  browser_integration :: bool
  auto_passkey_upgrade :: bool
  set_auto_sign_in :: bool
  equivalent_domains :: bool
  set_generator :: generator_options

definition AUTO_LOCK_CHOICES :: "nat list" where
  "AUTO_LOCK_CHOICES = [0, 5, 15, 30, 60]"

definition default_settings :: settings where
  "default_settings = \<lparr>auto_lock_minutes = 15, clipboard_clear_seconds = 30, theme = Dark,
     browser_integration = False, auto_passkey_upgrade = True, set_auto_sign_in = True,
     equivalent_domains = True, set_generator = default_generator\<rparr>"

definition restrictive_settings :: settings where
  "restrictive_settings = default_settings\<lparr>browser_integration := False, auto_passkey_upgrade := False,
     set_auto_sign_in := False, equivalent_domains := False\<rparr>"

definition validate_settings :: "settings \<Rightarrow> unit result" where
  "validate_settings s =
     (if auto_lock_minutes s \<notin> set AUTO_LOCK_CHOICES
      then Inl (InvalidInput ''unsupported auto-lock interval'')
      else if \<not> (10 \<le> clipboard_clear_seconds s \<and> clipboard_clear_seconds s \<le> 300)
      then Inl (InvalidInput ''clipboard timeout must be 10-300 seconds'')
      else validate_generator (set_generator s))"

section \<open>Properties\<close>

lemma default_settings_valid: "validate_settings default_settings = Inr ()"
  by (simp add: validate_settings_def default_settings_def AUTO_LOCK_CHOICES_def validate_generator_def
      default_generator_def MIN_LENGTH_def MAX_LENGTH_def)

lemma restrictive_settings_valid: "validate_settings restrictive_settings = Inr ()"
  by (simp add: restrictive_settings_def validate_settings_def default_settings_def AUTO_LOCK_CHOICES_def
      validate_generator_def default_generator_def MIN_LENGTH_def MAX_LENGTH_def)

text \<open>Which parts an accepted input may carry, per item type.\<close>

lemma check_shape_ok:
  assumes "check_shape i = Inr ()"
  shows "(in_identity i \<noteq> None \<longleftrightarrow> in_item_type i = TIdentity) \<and>
    (in_card i \<noteq> None \<longleftrightarrow> in_item_type i = TCard) \<and>
    (in_bank i \<noteq> None \<longleftrightarrow> in_item_type i = TBankAccount) \<and>
    (in_sections i \<noteq> None \<longrightarrow> in_item_type i \<in> {TLogin, TSecureNote, TBankAccount}) \<and>
    (\<not> is_keep (in_totp i) \<or> in_sign_in_with i \<noteq> None \<or> has_text (in_username i) \<longrightarrow> in_item_type i = TLogin) \<and>
    (\<not> is_keep (in_password i) \<or> \<not> is_keep (in_notes i) \<or> in_urls i \<noteq> [] \<longrightarrow>
       in_item_type i \<in> {TLogin, TBankAccount}) \<and>
    (\<not> is_keep (in_content i) \<longrightarrow> in_item_type i = TSecureNote)"
  using assms unfolding check_shape_def login_fields_def
  by (cases "in_item_type i") (auto simp: Let_def split: if_splits)

end
