(* ===== verification/Keys.thy ===== *)
theory Keys
  imports Blob Text
begin

text \<open>
  Key material: KDF parameters (\<^verbatim>\<open>crypto/kdf.rs\<close>), key separation (\<^verbatim>\<open>crypto/keys.rs\<close>), the
  Secret Key's text form (\<^verbatim>\<open>crypto/secret_key.rs\<close>), the account identity keys are bound to
  (\<^verbatim>\<open>account.rs\<close>) and the biometric unlock bundle (\<^verbatim>\<open>unlock_bundle.rs\<close>), all of
  \<^verbatim>\<open>havenkeys-core/src\<close>.

  Argon2id, HKDF, Unicode normalisation and lower-casing, Base32 and the version-8 UUID
  constructor are code of other packages: the fields of \<open>key_env\<close>. A fixed-size byte array is a
  list of that length. Random bytes are arguments, \<open>None\<close> where the generator failed.
\<close>

section \<open>Model\<close>

subsection \<open>KDF parameters\<close>

definition SALT_LEN :: nat where "SALT_LEN = 16"
definition DEFAULT_MEMORY_KIB :: nat where "DEFAULT_MEMORY_KIB = 128 * 1024"
definition DEFAULT_ITERATIONS :: nat where "DEFAULT_ITERATIONS = 4"
definition DEFAULT_PARALLELISM :: nat where "DEFAULT_PARALLELISM = 4"
definition MIN_MEMORY_KIB :: nat where "MIN_MEMORY_KIB = 19 * 1024"
definition MAX_MEMORY_KIB :: nat where "MAX_MEMORY_KIB = 1024 * 1024"
definition MIN_ITERATIONS :: nat where "MIN_ITERATIONS = 2"
definition MAX_ITERATIONS :: nat where "MAX_ITERATIONS = 16"
definition MIN_PARALLELISM :: nat where "MIN_PARALLELISM = 1"
definition MAX_PARALLELISM :: nat where "MAX_PARALLELISM = 16"

text \<open>The algorithm field has one value, Argon2id, and is left out.\<close>

record kdf_params =
  memory_kib :: nat
  iterations :: nat
  parallelism :: nat
  salt :: bytes

record key_env =
  ke_crypto :: crypto
  argon2id :: "kdf_params \<Rightarrow> bytes \<Rightarrow> bytes option"
  hkdf :: "bytes option \<Rightarrow> bytes \<Rightarrow> bytes \<Rightarrow> nat \<Rightarrow> bytes option"
  nfc :: "rstring \<Rightarrow> rstring"
  to_lowercase :: "rstring \<Rightarrow> rstring"
  base32_encode :: "bytes \<Rightarrow> rstring"
  ke_base32_decode :: "rstring \<Rightarrow> bytes option"
  uuid_v8 :: "bytes \<Rightarrow> uuid"

definition validate_kdf :: "kdf_params \<Rightarrow> unit result" where
  "validate_kdf p =
     ensure (MIN_MEMORY_KIB \<le> memory_kib p \<and> memory_kib p \<le> MAX_MEMORY_KIB \<and>
        MIN_ITERATIONS \<le> iterations p \<and> iterations p \<le> MAX_ITERATIONS \<and>
        MIN_PARALLELISM \<le> parallelism p \<and> parallelism p \<le> MAX_PARALLELISM) Corrupted"

definition with_cost :: "bytes option \<Rightarrow> nat \<Rightarrow> nat \<Rightarrow> nat \<Rightarrow> kdf_params result" where
  "with_cost rnd m t p =
     and_then (ok_or Rng rnd) (\<lambda>s.
     let params = \<lparr>memory_kib = m, iterations = t, parallelism = p, salt = s\<rparr> in
     and_then (validate_kdf params) (\<lambda>_. Inr params))"

definition generate_kdf :: "bytes option \<Rightarrow> kdf_params result" where
  "generate_kdf rnd = with_cost rnd DEFAULT_MEMORY_KIB DEFAULT_ITERATIONS DEFAULT_PARALLELISM"

definition utf8_bytes :: "rstring \<Rightarrow> bytes" where
  "utf8_bytes s = map of_nat (utf8 s)"

definition derive_master_key :: "key_env \<Rightarrow> rstring \<Rightarrow> kdf_params \<Rightarrow> bytes result" where
  "derive_master_key env password params =
     and_then (validate_kdf params) (\<lambda>_.
     ok_or Kdf (argon2id env params (utf8_bytes (nfc env password))))"

subsection \<open>Account identity\<close>

definition MAX_EMAIL_LEN :: nat where "MAX_EMAIL_LEN = 254"

definition parse_email :: "key_env \<Rightarrow> rstring \<Rightarrow> rstring result" where
  "parse_email env raw =
     (let n = to_lowercase env (nfc env (trim raw)); bad = InvalidInput ''email address is not valid'' in
      if n = [] \<or> MAX_EMAIL_LEN < str_len n then Inl bad
      else if list_ex is_whitespace n then Inl bad
      else case split_at 64 n of
             [local, domain] \<Rightarrow> if local = [] \<or> domain = [] then Inl bad else Inr n
           | _ \<Rightarrow> Inl bad)"

record account_ref =
  ar_id :: uuid
  ar_email :: rstring

subsection \<open>Key separation\<close>

definition INFO_DATA :: bytes where "INFO_DATA = byte_str ''havenkeys/v1/data''"
definition INFO_KEK_V3 :: bytes where "INFO_KEK_V3 = byte_str ''havenkeys/v3/kek''"
definition INFO_AUTH_V3 :: bytes where "INFO_AUTH_V3 = byte_str ''havenkeys/v3/auth''"
definition INFO_IDENTITY_ID :: bytes where "INFO_IDENTITY_ID = byte_str ''havenkeys/v3/identity-item-id''"

definition hkdf_sha256 :: "key_env \<Rightarrow> bytes option \<Rightarrow> bytes \<Rightarrow> bytes \<Rightarrow> bytes result" where
  "hkdf_sha256 env s ikm info = ok_or Kdf (hkdf env s ikm info KEY_LEN)"

definition account_salt :: "account_ref \<Rightarrow> bytes" where
  "account_salt a = uuid_bytes (ar_id a) @ utf8_bytes (ar_email a)"

definition account_bound :: "key_env \<Rightarrow> bytes \<Rightarrow> bytes \<Rightarrow> account_ref \<Rightarrow> bytes \<Rightarrow> bytes result" where
  "account_bound env master_key secret_key account info =
     hkdf_sha256 env (Some (account_salt account)) (master_key @ secret_key) info"

definition derive_kek_v3 :: "key_env \<Rightarrow> bytes \<Rightarrow> bytes \<Rightarrow> account_ref \<Rightarrow> bytes result" where
  "derive_kek_v3 env m s a = account_bound env m s a INFO_KEK_V3"

definition derive_auth_key_from_master :: "key_env \<Rightarrow> bytes \<Rightarrow> bytes \<Rightarrow> account_ref \<Rightarrow> bytes result" where
  "derive_auth_key_from_master env m s a = account_bound env m s a INFO_AUTH_V3"

definition derive_data_key :: "key_env \<Rightarrow> bytes \<Rightarrow> bytes result" where
  "derive_data_key env vault_key = hkdf_sha256 env None vault_key INFO_DATA"

definition derive_identity_item_id :: "key_env \<Rightarrow> bytes \<Rightarrow> uuid result" where
  "derive_identity_item_id env vault_key =
     and_then (ok_or Kdf (hkdf env None vault_key INFO_IDENTITY_ID 16)) (\<lambda>okm. Inr (uuid_v8 env okm))"

subsection \<open>The Secret Key's text\<close>

definition SECRET_KEY_LEN :: nat where "SECRET_KEY_LEN = 16"
definition KEY_CHARS :: nat where "KEY_CHARS = 26"
definition CHECK_CHARS :: nat where "CHECK_CHARS = 2"
definition GROUP :: nat where "GROUP = 4"
definition CHECK_LABEL :: bytes where "CHECK_LABEL = byte_str ''havenkeys/secret-key/check''"

definition BAD_SECRET_KEY :: error where
  "BAD_SECRET_KEY = InvalidInput ''that Secret Key is not valid''"

definition check_chars :: "key_env \<Rightarrow> bytes \<Rightarrow> rstring" where
  "check_chars env key =
     take CHECK_CHARS (base32_encode env (take 5 (sha256 (ke_crypto env) (CHECK_LABEL @ key))))"

fun chunks :: "nat \<Rightarrow> 'a list \<Rightarrow> 'a list list" where
  "chunks n xs = (if xs = [] \<or> n = 0 then [] else take n xs # chunks n (drop n xs))"

declare chunks.simps [simp del]

definition to_text :: "key_env \<Rightarrow> bytes \<Rightarrow> rstring" where
  "to_text env key =
     str ''H1'' @ concat (map (\<lambda>c. 45 # c) (chunks GROUP (base32_encode env key @ check_chars env key)))"

text \<open>One character of the text: \<open>Some []\<close> is skipped, \<open>Some [c]\<close> pushed, \<open>None\<close> refused.\<close>

definition secret_char :: "rchar \<Rightarrow> rstring option" where
  "secret_char c0 =
     (let c = to_ascii_uppercase c0 in
      if c = 32 \<or> c = 45 \<or> c = 9 then Some []
      else if c = 48 then Some [79] else if c = 49 then Some [73] else if c = 56 then Some [66]
      else if (65 \<le> c \<and> c \<le> 90) \<or> (50 \<le> c \<and> c \<le> 55) then Some [c] else None)"

fun clean_secret :: "rstring \<Rightarrow> rstring \<Rightarrow> rstring option" where
  "clean_secret [] acc = Some acc"
| "clean_secret (c # s) acc = (case secret_char c of
     None \<Rightarrow> None
   | Some t \<Rightarrow> if 2 + KEY_CHARS + CHECK_CHARS < length (acc @ t) then None else clean_secret s (acc @ t))"

definition parse_secret_key :: "key_env \<Rightarrow> rstring \<Rightarrow> bytes result" where
  "parse_secret_key env text =
     and_then (ok_or BAD_SECRET_KEY (clean_secret text [])) (\<lambda>clean.
     and_then (ok_or BAD_SECRET_KEY (strip_prefix (str ''HI'') clean)) (\<lambda>body.
     and_then (ensure (length body = KEY_CHARS + CHECK_CHARS) BAD_SECRET_KEY) (\<lambda>_.
     and_then (ok_or BAD_SECRET_KEY (ke_base32_decode env (take KEY_CHARS body))) (\<lambda>key.
     and_then (ensure (length key = SECRET_KEY_LEN) BAD_SECRET_KEY) (\<lambda>_.
     and_then (ensure (check_chars env key = drop KEY_CHARS body) BAD_SECRET_KEY) (\<lambda>_.
     Inr key))))))"

subsection \<open>The unlock bundle\<close>

definition BUNDLE_VERSION :: byte where "BUNDLE_VERSION = 1"
definition BUNDLE_LEN :: nat where "BUNDLE_LEN = 1 + KEY_LEN + KEY_LEN + 8 + 8"
definition BUNDLE_MAX_AGE_MS :: int where "BUNDLE_MAX_AGE_MS = 14 * 24 * 60 * 60 * 1000"

record unlock_bundle =
  ub_vault_key :: bytes
  ub_auth_key :: bytes
  enrolled_at_ms :: int
  boot_count :: int

text \<open>\<open>i64::to_be_bytes\<close> and \<open>from_be_bytes\<close>: two's complement.\<close>

definition i64_bytes :: "int \<Rightarrow> bytes" where
  "i64_bytes x = be_bytes 8 (nat (x mod 2 ^ 64))"

definition i64_of_bytes :: "bytes \<Rightarrow> int" where
  "i64_of_bytes b = (let v = int (be_value b) in if v < 2 ^ 63 then v else v - 2 ^ 64)"

definition encode_bundle :: "unlock_bundle \<Rightarrow> bytes" where
  "encode_bundle b = [BUNDLE_VERSION] @ ub_vault_key b @ ub_auth_key b @
     i64_bytes (enrolled_at_ms b) @ i64_bytes (boot_count b)"

definition decode_bundle :: "bytes \<Rightarrow> unlock_bundle result" where
  "decode_bundle b =
     (if length b \<noteq> BUNDLE_LEN \<or> b ! 0 \<noteq> BUNDLE_VERSION then Inl BundleRefused
      else let tail = drop (1 + 2 * KEY_LEN) b in
        Inr \<lparr>ub_vault_key = take KEY_LEN (drop 1 b), ub_auth_key = take KEY_LEN (drop (1 + KEY_LEN) b),
             enrolled_at_ms = i64_of_bytes (take 8 tail), boot_count = i64_of_bytes (take 8 (drop 8 tail))\<rparr>)"

definition check_fresh :: "unlock_bundle \<Rightarrow> int \<Rightarrow> int \<Rightarrow> unit result" where
  "check_fresh b now_ms boots =
     (let age = saturating_sub now_ms (enrolled_at_ms b) in
      if \<not> (0 \<le> age \<and> age \<le> BUNDLE_MAX_AGE_MS) \<or> boots < 0 \<or> boots \<noteq> boot_count b
      then Inl BundleRefused else Inr ())"

section \<open>Properties\<close>

subsection \<open>Derivation inputs\<close>

lemma utf8_bytes_inject:
  assumes "\<forall>c\<in>set s. scalar c" "\<forall>c\<in>set t. scalar c" "utf8_bytes s = utf8_bytes t"
  shows "s = t"
proof -
  have "map unat (utf8_bytes s) = map unat (utf8_bytes t)" using assms(3) by simp
  moreover have "map unat (utf8_bytes x) = utf8 x" if "\<forall>c\<in>set x. scalar c" for x
    unfolding utf8_bytes_def map_map comp_def
    by (rule map_idI) (use utf8_byte [OF that] unat_of_nat_byte in auto)
  ultimately show ?thesis using assms utf8_inject by metis
qed

lemma account_salt_inject:
  assumes "\<forall>c\<in>set (ar_email a). scalar c" "\<forall>c\<in>set (ar_email b). scalar c" "account_salt a = account_salt b"
  shows "a = b"
  using assms utf8_bytes_inject [of "ar_email a" "ar_email b"] by (simp add: account_salt_def)

subsection \<open>Unlock bundle\<close>

definition bundle_ok :: "unlock_bundle \<Rightarrow> bool" where
  "bundle_ok b \<longleftrightarrow> length (ub_vault_key b) = 32 \<and> length (ub_auth_key b) = 32 \<and>
     in_i64 (enrolled_at_ms b) \<and> in_i64 (boot_count b)"

lemma length_i64_bytes [simp]: "length (i64_bytes x) = 8"
  by (simp add: i64_bytes_def)

lemma i64_of_bytes_bytes: "in_i64 x \<Longrightarrow> i64_of_bytes (i64_bytes x) = x"
proof -
  assume x: "in_i64 x"
  have "nat (x mod 2 ^ 64) < 256 ^ 8" by (simp add: nat_less_iff)
  then have "int (be_value (i64_bytes x)) = x mod 2 ^ 64"
    by (simp add: i64_bytes_def be_value_be_bytes)
  moreover have "x mod 2 ^ 64 = (if 0 \<le> x then x else x + 2 ^ 64)"
  proof (cases "0 \<le> x")
    case True
    then show ?thesis using x by (simp add: i64_defs)
  next
    case False
    then have "(x + 2 ^ 64) mod 2 ^ 64 = x + 2 ^ 64"
      using x by (intro mod_pos_pos_trivial) (simp_all add: i64_defs)
    then show ?thesis using False by simp
  qed
  ultimately show ?thesis using x by (auto simp: i64_of_bytes_def i64_defs)
qed

lemma i64_bytes_of_bytes: "length b = 8 \<Longrightarrow> i64_bytes (i64_of_bytes b) = b \<and> in_i64 (i64_of_bytes b)"
proof -
  assume b: "length b = 8"
  have v: "be_value b < 2 ^ 64" using be_value_bound [of b] b by simp
  then have "i64_of_bytes b mod 2 ^ 64 = int (be_value b)"
    by (simp add: i64_of_bytes_def Let_def)
  then have "nat (i64_of_bytes b mod 2 ^ 64) = be_value b" by simp
  then have "i64_bytes (i64_of_bytes b) = b" using b by (simp add: i64_bytes_def be_bytes_be_value)
  moreover have "in_i64 (i64_of_bytes b)"
    using v by (simp add: i64_of_bytes_def Let_def i64_defs)
  ultimately show ?thesis by simp
qed

lemma decode_encode_bundle: "bundle_ok b \<Longrightarrow> decode_bundle (encode_bundle b) = Inr b"
  by (cases b) (simp add: bundle_ok_def decode_bundle_def encode_bundle_def BUNDLE_LEN_def KEY_LEN_def
      i64_of_bytes_bytes)

lemma decode_bundle_Inr:
  assumes "decode_bundle w = Inr b"
  shows "bundle_ok b \<and> encode_bundle b = w"
proof -
  have len: "length w = 81" and ver: "w ! 0 = 1"
    and b: "b = \<lparr>ub_vault_key = take 32 (drop 1 w), ub_auth_key = take 32 (drop 33 w),
             enrolled_at_ms = i64_of_bytes (take 8 (drop 65 w)), boot_count = i64_of_bytes (take 8 (drop 73 w))\<rparr>"
    using assms by (auto simp: decode_bundle_def Let_def BUNDLE_LEN_def KEY_LEN_def BUNDLE_VERSION_def split: if_splits)
  have e: "i64_bytes (i64_of_bytes (take 8 (drop k w))) = take 8 (drop k w) \<and>
      in_i64 (i64_of_bytes (take 8 (drop k w)))" if "k \<le> 73" for k
    using that len by (intro i64_bytes_of_bytes) simp
  have "w = take 1 w @ take 32 (drop 1 w) @ take 32 (drop 33 w) @ take 8 (drop 65 w) @ drop 73 w"
    using append_take_drop_id [of 1 w] append_take_drop_id [of 32 "drop 1 w"]
      append_take_drop_id [of 32 "drop 33 w"] append_take_drop_id [of 8 "drop 65 w"] by simp
  moreover have "take 1 w = [1]" using len ver by (cases w) auto
  moreover have "take 8 (drop 73 w) = drop 73 w" using len by simp
  ultimately have "encode_bundle b = w"
    using e [of 65] e [of 73] by (simp add: b encode_bundle_def BUNDLE_VERSION_def)
  then show ?thesis using e [of 65] e [of 73] len by (simp add: b bundle_ok_def)
qed

interpretation unlock_codec: strict_codec encode_bundle decode_bundle bundle_ok
  by unfold_locales (auto simp: decode_encode_bundle dest: decode_bundle_Inr)

subsection \<open>Secret Key text\<close>

definition secret_chars :: "rstring \<Rightarrow> rstring" where
  "secret_chars s = concat (map (\<lambda>c. case secret_char c of Some t \<Rightarrow> t | None \<Rightarrow> []) s)"

definition secret_text_ok :: "rstring \<Rightarrow> bool" where
  "secret_text_ok s \<longleftrightarrow> (\<forall>c\<in>set s. secret_char c \<noteq> None) \<and> length (secret_chars s) \<le> 30"

lemma clean_secret_eq:
  "length acc \<le> 30 \<Longrightarrow> clean_secret s acc =
     (if (\<forall>c\<in>set s. secret_char c \<noteq> None) \<and> length (acc @ secret_chars s) \<le> 30
      then Some (acc @ secret_chars s) else None)"
proof (induction s arbitrary: acc)
  case Nil
  then show ?case by (simp add: secret_chars_def)
next
  case (Cons c s)
  show ?case
  proof (cases "secret_char c")
    case (Some t)
    have m: "secret_chars (c # s) = t @ secret_chars s" by (simp add: secret_chars_def Some)
    show ?thesis
    proof (cases "length (acc @ t) \<le> 30")
      case True
      then show ?thesis using Cons.IH [of "acc @ t"] Some by (simp add: m KEY_CHARS_def CHECK_CHARS_def)
    next
      case False
      then show ?thesis using Some by (simp add: m KEY_CHARS_def CHECK_CHARS_def)
    qed
  qed simp
qed

lemma concat_chunks: "0 < n \<Longrightarrow> concat (chunks n xs) = xs"
proof (induction n xs rule: chunks.induct)
  case (1 n xs)
  then show ?case by (subst chunks.simps) auto
qed

definition b32_char :: "rchar \<Rightarrow> bool" where
  "b32_char c \<longleftrightarrow> (65 \<le> c \<and> c \<le> 90) \<or> (50 \<le> c \<and> c \<le> 55)"

lemma secret_char_b32: "b32_char c \<Longrightarrow> secret_char c = Some [c]"
proof -
  assume c: "b32_char c"
  then have "to_ascii_uppercase c = c" by (auto simp: b32_char_def to_ascii_uppercase_def)
  with c show ?thesis by (auto simp: secret_char_def b32_char_def)
qed

lemma secret_chars_append [simp]: "secret_chars (s @ t) = secret_chars s @ secret_chars t"
  by (simp add: secret_chars_def)

lemma secret_chars_b32: "\<forall>c\<in>set s. b32_char c \<Longrightarrow> secret_chars s = s"
  by (induction s) (auto simp: secret_chars_def secret_char_b32)

lemma secret_char_dash: "secret_char 45 = Some []"
  by (simp add: secret_char_def to_ascii_uppercase_def)

lemma secret_chars_groups:
  "\<forall>g\<in>set gs. \<forall>c\<in>set g. b32_char c \<Longrightarrow> secret_chars (concat (map (\<lambda>c. 45 # c) gs)) = concat gs \<and>
     (\<forall>c\<in>set (concat (map (\<lambda>c. 45 # c) gs)). secret_char c \<noteq> None)"
proof (induction gs)
  case (Cons g gs)
  have "secret_chars (45 # g) = g"
    using Cons.prems secret_chars_b32 [of g] by (simp add: secret_chars_def secret_char_dash)
  moreover have "\<forall>c\<in>set (45 # g). secret_char c \<noteq> None"
    using Cons.prems by (auto simp: secret_char_b32 secret_char_dash)
  moreover have "concat (map ((#) 45) (g # gs)) = (45 # g) @ concat (map ((#) 45) gs)" by simp
  ultimately show ?case using Cons by (simp add: ball_Un del: append_Cons)
qed (simp add: secret_chars_def)

definition base32_ok :: "key_env \<Rightarrow> bool" where
  "base32_ok env \<longleftrightarrow>
     (\<forall>b. length b = 16 \<longrightarrow> length (base32_encode env b) = 26 \<and>
        ke_base32_decode env (base32_encode env b) = Some b) \<and>
     (\<forall>b. length b = 5 \<longrightarrow> length (base32_encode env b) = 8) \<and>
     (\<forall>b. \<forall>c\<in>set (base32_encode env b). b32_char c) \<and>
     (\<forall>b. length (sha256 (ke_crypto env) b) = 32)"

lemma secret_body:
  assumes "base32_ok env" and "length key = 16"
  defines "body \<equiv> base32_encode env key @ check_chars env key"
  shows "length body = 28" and "\<forall>c\<in>set body. b32_char c" and "length (check_chars env key) = 2"
proof -
  show l: "length (check_chars env key) = 2"
    using assms(1) by (simp add: base32_ok_def check_chars_def CHECK_CHARS_def)
  then show "length body = 28" using assms(1,2) by (simp add: base32_ok_def body_def)
  show "\<forall>c\<in>set body. b32_char c"
    using assms(1) by (auto simp: base32_ok_def body_def check_chars_def dest: in_set_takeD)
qed

lemma to_text_chars:
  assumes "base32_ok env" and "length key = 16"
  shows "secret_text_ok (to_text env key) \<and>
    secret_chars (to_text env key) = str ''HI'' @ base32_encode env key @ check_chars env key"
proof -
  let ?body = "base32_encode env key @ check_chars env key"
  have b: "length ?body = 28" "\<forall>c\<in>set ?body. b32_char c" using secret_body [OF assms] by simp_all
  have c: "concat (chunks GROUP ?body) = ?body" by (rule concat_chunks) (simp add: GROUP_def)
  have "\<forall>g\<in>set (chunks GROUP ?body). \<forall>c\<in>set g. b32_char c"
    using b(2) c by (metis UN_I set_concat)
  note g = secret_chars_groups [OF this]
  have h: "secret_chars (str ''H1'') = str ''HI''" "\<forall>c\<in>set (str ''H1''). secret_char c \<noteq> None"
    by (simp_all add: secret_chars_def secret_char_def str_def to_ascii_uppercase_def)
  then have "secret_chars (to_text env key) = str ''HI'' @ ?body" using g c by (simp add: to_text_def)
  moreover have "length (str ''HI'') = 2" by (simp add: str_def)
  ultimately show ?thesis using g h b(1) by (auto simp: secret_text_ok_def to_text_def)
qed

lemma parse_secret_key_chars:
  assumes "base32_ok env" and "length key = 16" and "secret_text_ok t"
    and "secret_chars t = str ''HI'' @ base32_encode env key @ check_chars env key"
  shows "parse_secret_key env t = Inr key"
proof -
  have "clean_secret t [] = Some (str ''HI'' @ base32_encode env key @ check_chars env key)"
    using clean_secret_eq [of "[]" t] assms(3,4) by (simp add: secret_text_ok_def)
  moreover have "strip_prefix (str ''HI'') (str ''HI'' @ r) = Some r" for r
    by (simp add: strip_prefix_def starts_with_def str_def)
  moreover have "length (base32_encode env key) = 26" "ke_base32_decode env (base32_encode env key) = Some key"
    using assms(1,2) by (simp_all add: base32_ok_def)
  ultimately show ?thesis
    using secret_body [OF assms(1,2)] assms(2)
    by (simp add: parse_secret_key_def KEY_CHARS_def CHECK_CHARS_def SECRET_KEY_LEN_def)
qed

subsection \<open>Claims\<close>

text \<open>
  The Secret Key survives the Recovery Sheet: parsing the printed text gives the same key
  back, and so does any text that differs from it only in letter case, spaces, tabs and dashes or
  in the digits 0, 1 and 8 typed for O, I and B (that is, any accepted text with the same
  cleaned characters).
\<close>

theorem secret_key_text_roundtrip:
  assumes "base32_ok env" and "length key = 16"
  shows "parse_secret_key env (to_text env key) = Inr key \<and>
    (\<forall>t. (\<forall>c\<in>set t. secret_char c \<noteq> None) \<and> secret_chars t = secret_chars (to_text env key) \<longrightarrow>
       parse_secret_key env t = Inr key)"
proof -
  note x = to_text_chars [OF assms]
  have "parse_secret_key env t = Inr key"
    if "\<forall>c\<in>set t. secret_char c \<noteq> None" "secret_chars t = secret_chars (to_text env key)" for t
  proof (rule parse_secret_key_chars [OF assms])
    show "secret_text_ok t" using that x unfolding secret_text_ok_def by metis
    show "secret_chars t = str ''HI'' @ base32_encode env key @ check_chars env key" using that x by simp
  qed
  then show ?thesis using x by (auto simp: secret_text_ok_def)
qed

text \<open>
  Domain separation of the account-bound keys: the key-encryption key and the login key are
  each one HKDF call, the two calls carry different labels, and two calls with the same salt and
  the same input key material come from the same master key, the same Secret Key and the same
  account (identifier and email).
\<close>

theorem account_bound_inputs_distinct:
  assumes "length m = KEY_LEN" "length m' = KEY_LEN"
    and "\<forall>c\<in>set (ar_email a). scalar c" "\<forall>c\<in>set (ar_email a'). scalar c"
  shows "\<exists>salt ikm salt' ikm'.
      derive_kek_v3 env m s a = ok_or Kdf (hkdf env (Some salt) ikm INFO_KEK_V3 32) \<and>
      derive_auth_key_from_master env m' s' a' = ok_or Kdf (hkdf env (Some salt') ikm' INFO_AUTH_V3 32) \<and>
      INFO_KEK_V3 \<noteq> INFO_AUTH_V3 \<and>
      (salt = salt' \<longleftrightarrow> a = a') \<and> (ikm = ikm' \<longleftrightarrow> m = m' \<and> s = s')"
proof (intro exI conjI)
  show "derive_kek_v3 env m s a = ok_or Kdf (hkdf env (Some (account_salt a)) (m @ s) INFO_KEK_V3 32)"
    "derive_auth_key_from_master env m' s' a' =
       ok_or Kdf (hkdf env (Some (account_salt a')) (m' @ s') INFO_AUTH_V3 32)"
    by (simp_all add: derive_kek_v3_def derive_auth_key_from_master_def account_bound_def
        hkdf_sha256_def KEY_LEN_def)
  show "INFO_KEK_V3 \<noteq> INFO_AUTH_V3" by (simp add: INFO_KEK_V3_def INFO_AUTH_V3_def byte_str_def)
  show "account_salt a = account_salt a' \<longleftrightarrow> a = a'"
    using account_salt_inject [of a a'] assms(3,4) by blast
  show "m @ s = m' @ s' \<longleftrightarrow> m = m' \<and> s = s'" using assms(1,2) by simp
qed

text \<open>
  The biometric unlock bundle has one encoding per value and the decoder accepts nothing else:
  it succeeds exactly on the encoding of a bundle with two 32-byte keys and two 64-bit integers,
  and returns that bundle.
\<close>

theorem bundle_wire_exact: "decode_bundle w = Inr b \<longleftrightarrow> bundle_ok b \<and> encode_bundle b = w"
  by (rule unlock_codec.dec_iff)

text \<open>
  A bundle opens the vault only when it is at most fourteen days old, not from the future, and
  the device has not rebooted since enrolment; an unknown (negative) boot count never passes. The
  saturating subtraction does not change the verdict for any pair of 64-bit clock readings.
\<close>

theorem check_fresh_exact:
  "check_fresh b now_ms boots =
     (if enrolled_at_ms b \<le> now_ms \<and> now_ms \<le> enrolled_at_ms b + 14 * 86400000 \<and>
         0 \<le> boots \<and> boots = boot_count b
      then Inr () else Inl BundleRefused)"
  by (auto simp: check_fresh_def Let_def BUNDLE_MAX_AGE_MS_def saturating_sub_def sat64_le_iff
      sat64_ge_iff i64_min_def i64_max_def)

section \<open>Witnesses\<close>

text \<open>
  A concrete environment for the witnesses: Base32 written out (five bits per character, with the
  padding bits on the left), a hash and a key derivation that return constants.
\<close>

definition b32_digit :: "nat \<Rightarrow> rchar" where
  "b32_digit d = (if d < 26 then 65 + d else 24 + d)"

definition b32_undigit :: "rchar \<Rightarrow> nat" where
  "b32_undigit c = (if 65 \<le> c then c - 65 else c - 24)"

fun b32_digits :: "nat \<Rightarrow> nat \<Rightarrow> rstring" where
  "b32_digits 0 x = []"
| "b32_digits (Suc n) x = b32_digits n (x div 32) @ [b32_digit (x mod 32)]"

definition b32_value :: "rstring \<Rightarrow> nat" where
  "b32_value s = foldl (\<lambda>a c. a * 32 + b32_undigit c) 0 s"

definition toy_keys :: key_env where
  "toy_keys = \<lparr>ke_crypto = plain_crypto, argon2id = (\<lambda>p w. Some (replicate 32 7)),
     hkdf = (\<lambda>s k i n. Some (replicate n 5)), nfc = (\<lambda>s. s), to_lowercase = map to_ascii_lowercase,
     base32_encode = (\<lambda>b. b32_digits ((length b * 8 + 4) div 5) (be_value b)),
     ke_base32_decode = (\<lambda>s. Some (be_bytes (length s * 5 div 8) (b32_value s))),
     uuid_v8 = (\<lambda>b. of_nat (be_value b))\<rparr>"

lemma length_b32_digits [simp]: "length (b32_digits n x) = n"
  by (induction n arbitrary: x) auto

lemma b32_undigit_digit: "d < 32 \<Longrightarrow> b32_undigit (b32_digit d) = d"
  by (auto simp: b32_undigit_def b32_digit_def)

lemma b32_value_digits: "x < 32 ^ n \<Longrightarrow> b32_value (b32_digits n x) = x"
proof (induction n arbitrary: x)
  case (Suc n)
  then have "x div 32 < 32 ^ n" by (simp add: less_mult_imp_div_less mult.commute)
  then show ?case using Suc.IH [of "x div 32"] by (simp add: b32_value_def b32_undigit_digit)
qed (simp add: b32_value_def)

lemma b32_digits_chars: "c \<in> set (b32_digits n x) \<Longrightarrow> b32_char c"
proof (induction n arbitrary: x)
  case (Suc n)
  have "x mod 32 < 32" by simp
  then have "b32_char (b32_digit (x mod 32))" by (auto simp: b32_char_def b32_digit_def)
  then show ?case using Suc by auto
qed simp

lemma toy_base32_ok: "base32_ok toy_keys"
proof -
  have "be_bytes 16 (b32_value (b32_digits 26 (be_value b))) = b" if "length b = 16" for b
  proof -
    have "be_value b < 32 ^ 26" using be_value_bound [of b] that by simp
    then show ?thesis using that by (simp add: b32_value_digits be_bytes_be_value)
  qed
  then show ?thesis
    by (auto simp: base32_ok_def toy_keys_def plain_crypto_def dest: b32_digits_chars)
qed

lemma secret_key_text_roundtrip_witness:
  "parse_secret_key toy_keys (to_text toy_keys (replicate 16 3)) = Inr (replicate 16 3)"
  using secret_key_text_roundtrip [OF toy_base32_ok, of "replicate 16 3"] by simp

lemma account_bound_inputs_distinct_witness:
  "let a = \<lparr>ar_id = 1, ar_email = str ''a@b.c''\<rparr>; k = replicate 32 1; s = replicate 16 2 in
   \<exists>salt ikm salt' ikm'.
      derive_kek_v3 toy_keys k s a = ok_or Kdf (hkdf toy_keys (Some salt) ikm INFO_KEK_V3 32) \<and>
      derive_auth_key_from_master toy_keys k s a = ok_or Kdf (hkdf toy_keys (Some salt') ikm' INFO_AUTH_V3 32) \<and>
      INFO_KEK_V3 \<noteq> INFO_AUTH_V3 \<and> salt = salt' \<and> ikm = ikm'"
proof -
  let ?a = "\<lparr>ar_id = 1, ar_email = str ''a@b.c''\<rparr>"
  have k: "length (replicate 32 1 :: bytes) = KEY_LEN" by (simp add: KEY_LEN_def)
  have e: "\<forall>c\<in>set (ar_email ?a). scalar c" by (simp add: str_def scalar_def)
  show ?thesis
    using account_bound_inputs_distinct [OF k k e e, of toy_keys "replicate 16 2" "replicate 16 2"]
    unfolding Let_def by blast
qed

end
