(* ===== verification/Items.thy ===== *)
theory Items
  imports Model Keys
begin

text \<open>
  From the editor's input to an item (\<open>build_item\<close> of \<^verbatim>\<open>havenkeys-core/src/vault.rs\<close>): every
  input check, the merge with the secrets the item already holds, the password history, and the
  overview that goes with the details.

  \<open>item_env\<close> carries the code of other packages: the URL parser, TOTP and the identifier generator
  (\<open>field_env\<close>), SHA-256, lower-casing.
\<close>

section \<open>Model\<close>

record item_env =
  ie_fields :: field_env
  ie_sha256 :: "bytes \<Rightarrow> bytes"
  ie_lower :: "rstring \<Rightarrow> rstring"

definition secrets_equal :: "item_env \<Rightarrow> rstring \<Rightarrow> rstring \<Rightarrow> bool" where
  "secrets_equal env a b \<longleftrightarrow>
     foldl (\<lambda>acc (x, y). or acc (xor x y)) 0
       (zip (ie_sha256 env (utf8_bytes a)) (ie_sha256 env (utf8_bytes b))) = 0"

definition no_login :: login_details where
  "no_login = \<lparr>lg_password = None, lg_totp = None, lg_notes = None, lg_password_history = [],
     lg_passkeys = [], lg_sections = [], lg_app_bindings = [], lg_health_ignored = []\<rparr>"

text \<open>A replaced or cleared password goes to the front of the history.\<close>

definition push_history ::
  "item_env \<Rightarrow> rstring option \<Rightarrow> rstring option \<Rightarrow> int \<Rightarrow> previous_password list \<Rightarrow> previous_password list" where
  "push_history env old new now_ms history = (case old of
     None \<Rightarrow> history
   | Some q \<Rightarrow> if (case new of Some p \<Rightarrow> secrets_equal env p q | None \<Rightarrow> False) then history
       else take MAX_PASSWORD_HISTORY (\<lparr>pp_password = q, pp_replaced_at = now_ms\<rparr> # history))"

definition build_login ::
  "item_env \<Rightarrow> item_input \<Rightarrow> item_details option \<Rightarrow> int \<Rightarrow> item_details result" where
  "build_login env i current now_ms =
     and_then (case current of
         Some (DLogin l) \<Rightarrow> Inr l | Some _ \<Rightarrow> Inl Corrupted | None \<Rightarrow> Inr no_login) (\<lambda>l.
     let password = apply_update (in_password i) (lg_password l) in
     and_then (check_some check_password password) (\<lambda>_.
     let notes = apply_update (in_notes i) (lg_notes l) in
     and_then (check_some check_notes notes) (\<lambda>_.
     and_then (apply_totp (fe_totp (ie_fields env)) (in_totp i) (lg_totp l)) (\<lambda>totp.
     and_then (apply_sections (ie_fields env) (in_sections i) (lg_sections l)) (\<lambda>sections.
     Inr (DLogin (l\<lparr>lg_password := password, lg_totp := totp, lg_notes := notes,
       lg_password_history := push_history env (lg_password l) password now_ms (lg_password_history l),
       lg_sections := sections\<rparr>)))))))"

definition build_note :: "item_env \<Rightarrow> item_input \<Rightarrow> item_details option \<Rightarrow> item_details result" where
  "build_note env i current =
     and_then (case current of
         Some (DSecureNote c s) \<Rightarrow> Inr (Some c, s) | Some _ \<Rightarrow> Inl Corrupted | None \<Rightarrow> Inr (None, [])) (\<lambda>cur.
     let content = (case apply_update (in_content i) (fst cur) of Some c \<Rightarrow> c | None \<Rightarrow> []) in
     and_then (check_note_content content) (\<lambda>_.
     and_then (apply_sections (ie_fields env) (in_sections i) (snd cur)) (\<lambda>sections.
     Inr (DSecureNote content sections))))"

definition build_identity ::
  "item_env \<Rightarrow> item_input \<Rightarrow> item_details option \<Rightarrow> int \<Rightarrow> item_details result" where
  "build_identity env i current now_ms =
     and_then (ensure (case current of None \<Rightarrow> True | Some (DIdentity _) \<Rightarrow> True | _ \<Rightarrow> False) Corrupted) (\<lambda>_.
     and_then (ok_or (InvalidInput ''an identity needs its values'') (in_identity i)) (\<lambda>f.
     and_then (clean_identity (fe_parse (ie_fields env)) f now_ms) (\<lambda>c. Inr (DIdentity c))))"

definition build_card :: "item_input \<Rightarrow> item_details option \<Rightarrow> item_details result" where
  "build_card i current =
     and_then (case current of
         Some (DCard f) \<Rightarrow> Inr (cf_number f, cf_verification_number f)
       | Some _ \<Rightarrow> Inl Corrupted | None \<Rightarrow> Inr (None, None)) (\<lambda>cur.
     and_then (ok_or (InvalidInput ''a card needs its values'') (in_card i)) (\<lambda>c.
     and_then (clean_card \<lparr>cf_cardholder_name = ci_cardholder_name c, cf_brand = ci_brand c,
         cf_number = apply_update (ci_number c) (fst cur),
         cf_verification_number = apply_update (ci_verification_number c) (snd cur),
         cf_expiry = ci_expiry c, cf_notes = ci_notes c\<rparr>) (\<lambda>f. Inr (DCard f))))"

definition no_bank :: bank_fields where
  "no_bank = \<lparr>bk_bank = None, bk_holder_name = None, bk_account_type = None, bk_branch = None,
     bk_branch_digit = None, bk_account = None, bk_account_digit = None, bk_password = None,
     bk_notes = None, bk_sections = [], bk_app_bindings = []\<rparr>"

definition build_bank :: "item_env \<Rightarrow> item_input \<Rightarrow> item_details option \<Rightarrow> item_details result" where
  "build_bank env i current =
     and_then (case current of
         Some (DBankAccount f) \<Rightarrow> Inr f | Some _ \<Rightarrow> Inl Corrupted | None \<Rightarrow> Inr no_bank) (\<lambda>cur.
     and_then (ok_or (InvalidInput ''a bank account needs its values'') (in_bank i)) (\<lambda>b.
     and_then (apply_sections (ie_fields env) (in_sections i) (bk_sections cur)) (\<lambda>sections.
     and_then (clean_bank \<lparr>bk_bank = bi_bank b, bk_holder_name = bi_holder_name b,
         bk_account_type = bi_account_type b, bk_branch = bi_branch b, bk_branch_digit = bi_branch_digit b,
         bk_account = apply_update (bi_account b) (bk_account cur),
         bk_account_digit = apply_update (bi_account_digit b) (bk_account_digit cur),
         bk_password = apply_update (in_password i) (bk_password cur),
         bk_notes = apply_update (in_notes i) (bk_notes cur),
         bk_sections = sections, bk_app_bindings = bk_app_bindings cur\<rparr>) (\<lambda>f.
     and_then (ensure (\<not> (trim (in_title i) = [] \<and> bk_bank f = None \<and> bk_account f = None))
         (InvalidInput ''a bank account needs a title, a bank or an account'')) (\<lambda>_.
     Inr (DBankAccount f))))))"

definition build_details ::
  "item_env \<Rightarrow> item_input \<Rightarrow> item_details option \<Rightarrow> int \<Rightarrow> item_details result" where
  "build_details env i current now_ms = (case in_item_type i of
     TLogin \<Rightarrow> build_login env i current now_ms
   | TSecureNote \<Rightarrow> build_note env i current
   | TIdentity \<Rightarrow> build_identity env i current now_ms
   | TCard \<Rightarrow> build_card i current
   | TBankAccount \<Rightarrow> build_bank env i current)"

definition build_title :: "rstring \<Rightarrow> item_details \<Rightarrow> rstring result" where
  "build_title title d = (case d of
     DIdentity f \<Rightarrow> Inr (display_name f)
   | DCard f \<Rightarrow> if trim title = []
       then (if cf_number f = None then Inl (InvalidInput ''a card needs a number or a title'')
             else Inr (str (brand_display_name (effective_brand f))))
       else clean_title title
   | DBankAccount f \<Rightarrow> if trim title = []
       then Inr (case bk_bank f of Some b \<Rightarrow> b | None \<Rightarrow> str ''Bank account'')
       else clean_title title
   | _ \<Rightarrow> clean_title title)"

definition build_username :: "item_input \<Rightarrow> item_details \<Rightarrow> rstring option result" where
  "build_username i d = (case in_item_type i of
     TLogin \<Rightarrow> clean_username (in_username i)
   | TIdentity \<Rightarrow> Inr (case d of DIdentity f \<Rightarrow> id_email f | _ \<Rightarrow> None)
   | _ \<Rightarrow> Inr None)"

fun details_has_password :: "item_details \<Rightarrow> bool" where
  "details_has_password (DLogin l) = (lg_password l \<noteq> None)"
| "details_has_password (DBankAccount f) = (bk_password f \<noteq> None)"
| "details_has_password _ = False"

fun details_has_totp :: "item_details \<Rightarrow> bool" where
  "details_has_totp (DLogin l) = (lg_totp l \<noteq> None)"
| "details_has_totp _ = False"

fun details_has_notes :: "item_details \<Rightarrow> bool" where
  "details_has_notes (DLogin l) = (lg_notes l \<noteq> None)"
| "details_has_notes (DSecureNote c s) = False"
| "details_has_notes (DIdentity f) = (id_notes f \<noteq> None)"
| "details_has_notes (DCard f) = (cf_notes f \<noteq> None)"
| "details_has_notes (DBankAccount f) = (bk_notes f \<noteq> None)"

fun details_has_passkey :: "item_details \<Rightarrow> bool" where
  "details_has_passkey (DLogin l) = (lg_passkeys l \<noteq> [])"
| "details_has_passkey _ = False"

text \<open>
  The overview's card summary: \<open>card_summary_of\<close> is \<open>None\<close> where the Rust slice would panic, which
  a cleaned card's digits rule out (\<open>built_card_summary\<close>).
\<close>

definition build_item ::
  "item_env \<Rightarrow> uuid \<Rightarrow> item_input \<Rightarrow> item_details option \<Rightarrow> int \<Rightarrow> int \<Rightarrow> (item_overview \<times> item_details) result" where
  "build_item env u i current created_at now_ms =
     and_then (check_shape i) (\<lambda>_.
     and_then (build_details env i current now_ms) (\<lambda>d.
     and_then (build_title (in_title i) d) (\<lambda>title.
     and_then (build_username i d) (\<lambda>username.
     and_then (if is_site_bound (in_item_type i) then clean_urls (fe_parse (ie_fields env)) (in_urls i) else Inr []) (\<lambda>urls.
     and_then (if in_item_type i = TLogin then clean_sign_in_with (in_sign_in_with i) else Inr None) (\<lambda>siw.
     and_then (normalize_tags (ie_lower env) (case in_tags i of Some t \<Rightarrow> t | None \<Rightarrow> [])) (\<lambda>tags.
     Inr (\<lparr>ov_id = u, ov_item_type = in_item_type i, ov_title = title, ov_username = username,
        ov_urls = urls, ov_has_password = details_has_password d, ov_has_totp = details_has_totp d,
        ov_has_notes = details_has_notes d, ov_has_passkey = details_has_passkey d,
        ov_auto_sign_in = (case in_auto_sign_in i of Some b \<Rightarrow> b | None \<Rightarrow> True),
        ov_sign_in_with = siw,
        ov_card = (case d of DCard f \<Rightarrow> card_summary_of f | _ \<Rightarrow> None),
        ov_bank = (case d of DBankAccount f \<Rightarrow> Some (bank_summary_of f) | _ \<Rightarrow> None),
        ov_tags = tags, ov_trashed_at = None, ov_attachments = [], ov_extra = [],
        ov_created_at = created_at, ov_updated_at = now_ms\<rparr>, d))))))))"

section \<open>Properties\<close>

subsection \<open>Comparing secrets\<close>

lemma or_xor_fold_zero:
  "length xs = length ys \<Longrightarrow>
   foldl (\<lambda>acc (x, y). or acc (xor x y)) (a :: byte) (zip xs ys) = 0 \<longleftrightarrow> a = 0 \<and> xs = ys"
proof (induction xs ys arbitrary: a rule: list_induct2)
  case (Cons x xs y ys)
  have "xor x y = 0 \<longleftrightarrow> x = y" by (auto simp: bit_eq_iff bit_xor_iff)
  then have "or a (xor x y) = 0 \<longleftrightarrow> a = 0 \<and> x = y" by (simp add: or_eq_0_iff)
  then show ?case using Cons by auto
qed simp

lemma secrets_equal_iff:
  assumes "\<And>b. length (ie_sha256 env b) = 32"
  shows "secrets_equal env a b \<longleftrightarrow> ie_sha256 env (utf8_bytes a) = ie_sha256 env (utf8_bytes b)"
  using or_xor_fold_zero [of "ie_sha256 env (utf8_bytes a)" "ie_sha256 env (utf8_bytes b)" 0] assms
  by (simp add: secrets_equal_def)

subsection \<open>What a built item is\<close>

lemma build_details_type: "build_details env i current now_ms = Inr d \<Longrightarrow> details_type d = in_item_type i"
  by (cases "in_item_type i")
    (auto simp: build_details_def build_login_def build_note_def build_identity_def build_card_def
      build_bank_def result_simps Let_def)

lemma build_item_Inr:
  assumes "build_item env u i current created now_ms = Inr (ov, d)"
  shows "check_shape i = Inr () \<and> build_details env i current now_ms = Inr d \<and>
    details_type d = in_item_type i \<and> ov_id ov = u \<and> ov_item_type ov = in_item_type i \<and>
    ov_has_password ov = details_has_password d \<and> ov_has_totp ov = details_has_totp d \<and>
    ov_has_notes ov = details_has_notes d \<and> ov_has_passkey ov = details_has_passkey d \<and>
    ov_trashed_at ov = None \<and> ov_attachments ov = [] \<and> ov_extra ov = [] \<and>
    ov_created_at ov = created \<and> ov_updated_at ov = now_ms \<and>
    ov_card ov = (case d of DCard f \<Rightarrow> card_summary_of f | _ \<Rightarrow> None) \<and>
    ov_bank ov = (case d of DBankAccount f \<Rightarrow> Some (bank_summary_of f) | _ \<Rightarrow> None) \<and>
    (is_site_bound (in_item_type i) \<longrightarrow> clean_urls (fe_parse (ie_fields env)) (in_urls i) = Inr (ov_urls ov)) \<and>
    (\<not> is_site_bound (in_item_type i) \<longrightarrow> ov_urls ov = []) \<and>
    normalize_tags (ie_lower env) (case in_tags i of Some t \<Rightarrow> t | None \<Rightarrow> []) = Inr (ov_tags ov) \<and>
    build_title (in_title i) d = Inr (ov_title ov) \<and> build_username i d = Inr (ov_username ov) \<and>
    (in_item_type i \<noteq> TLogin \<longrightarrow> ov_sign_in_with ov = None)"
proof -
  have *: "check_shape i = Inr ()" "build_details env i current now_ms = Inr d"
    using assms unfolding build_item_def and_then_Inr_iff by auto
  note t = build_details_type [OF *(2)]
  show ?thesis using assms * t unfolding build_item_def and_then_Inr_iff by (clarsimp split: if_splits)
qed

lemma build_login_Inr:
  assumes "build_login env i current now_ms = Inr d"
  obtains l totp sections where "current = Some (DLogin l) \<or> (current = None \<and> l = no_login)"
    and "apply_totp (fe_totp (ie_fields env)) (in_totp i) (lg_totp l) = Inr totp"
    and "apply_sections (ie_fields env) (in_sections i) (lg_sections l) = Inr sections"
    and "check_some check_password (apply_update (in_password i) (lg_password l)) = Inr ()"
    and "check_some check_notes (apply_update (in_notes i) (lg_notes l)) = Inr ()"
    and "d = DLogin (l\<lparr>lg_password := apply_update (in_password i) (lg_password l), lg_totp := totp,
       lg_notes := apply_update (in_notes i) (lg_notes l),
       lg_password_history := push_history env (lg_password l) (apply_update (in_password i) (lg_password l))
          now_ms (lg_password_history l), lg_sections := sections\<rparr>)"
  using assms that unfolding build_login_def and_then_Inr_iff Let_def
  by (auto split: option.splits item_details.splits)

lemma push_history_length:
  "length h \<le> MAX_PASSWORD_HISTORY \<Longrightarrow> length (push_history env old new now_ms h) \<le> MAX_PASSWORD_HISTORY"
  by (auto simp: push_history_def split: option.splits)

text \<open>A built card always has its summary: the digits \<open>clean\<close> accepted slice without a panic.\<close>

lemma built_card_summary:
  assumes "build_item env u i current created now_ms = Inr (ov, DCard f)"
  shows "ov_card ov \<noteq> None"
proof -
  have "build_details env i current now_ms = Inr (DCard f)" and ov: "ov_card ov = card_summary_of f"
    using build_item_Inr [OF assms] by simp_all
  then obtain g where g: "clean_card g = Inr f"
    by (cases "in_item_type i")
      (auto simp: build_details_def build_card_def build_login_def build_note_def build_identity_def
        build_bank_def result_simps Let_def)
  have "suffix_bytes 4 n \<noteq> None" if n: "cf_number f = Some n" for n
  proof -
    obtain m where "clean_number m = Inr n"
      using g n by (auto simp: clean_card_Inr_iff clean_optional_Inr_iff split: option.splits if_splits)
    then show ?thesis using suffix_bytes_digits [of n 4] by (auto simp: clean_number_Inr_iff)
  qed
  then show ?thesis by (auto simp: ov card_summary_of_def Let_def split: option.splits)
qed

subsection \<open>Claims\<close>

text \<open>
  Editing a login never loses what the editor does not show: passkeys, app bindings and health
  marks stay; a secret the input keeps stays; a password that is replaced by one with another
  digest, or cleared, becomes the newest of at most five history entries, dated now, and otherwise
  the history is untouched. The overview written with it says exactly which secrets there are.
\<close>

theorem login_update_keeps:
  assumes "\<And>b. length (ie_sha256 env b) = 32"
    and "build_item env u i (Some (DLogin l)) created now_ms = Inr (ov, d)"
  shows "\<exists>m. d = DLogin m \<and> lg_passkeys m = lg_passkeys l \<and> lg_app_bindings m = lg_app_bindings l \<and>
    lg_health_ignored m = lg_health_ignored l \<and>
    lg_password m = apply_update (in_password i) (lg_password l) \<and>
    (in_password i = Keep \<longrightarrow> lg_password_history m = lg_password_history l) \<and>
    (in_totp i = Keep \<longrightarrow> lg_totp m = lg_totp l) \<and> (in_notes i = Keep \<longrightarrow> lg_notes m = lg_notes l) \<and>
    (in_sections i = None \<longrightarrow> lg_sections m = lg_sections l) \<and>
    (case lg_password l of None \<Rightarrow> lg_password_history m = lg_password_history l
     | Some old \<Rightarrow>
        (if \<exists>p. lg_password m = Some p \<and> ie_sha256 env (utf8_bytes p) = ie_sha256 env (utf8_bytes old)
         then lg_password_history m = lg_password_history l
         else lg_password_history m = take 5 (\<lparr>pp_password = old, pp_replaced_at = now_ms\<rparr> # lg_password_history l))) \<and>
    ov_has_password ov = (lg_password m \<noteq> None) \<and> ov_has_totp ov = (lg_totp m \<noteq> None) \<and>
    ov_has_notes ov = (lg_notes m \<noteq> None) \<and> ov_has_passkey ov = (lg_passkeys m \<noteq> [])"
proof -
  note b = build_item_Inr [OF assms(2)]
  have "in_item_type i = TLogin"
    using b by (cases "in_item_type i")
      (auto simp: build_details_def build_note_def build_identity_def build_card_def build_bank_def result_simps)
  then have "build_login env i (Some (DLogin l)) now_ms = Inr d" using b by (simp add: build_details_def)
  then obtain totp sections where tt: "apply_totp (fe_totp (ie_fields env)) (in_totp i) (lg_totp l) = Inr totp"
    and ss: "apply_sections (ie_fields env) (in_sections i) (lg_sections l) = Inr sections"
    and d: "d = DLogin (l\<lparr>lg_password := apply_update (in_password i) (lg_password l), lg_totp := totp,
       lg_notes := apply_update (in_notes i) (lg_notes l),
       lg_password_history := push_history env (lg_password l) (apply_update (in_password i) (lg_password l))
          now_ms (lg_password_history l), lg_sections := sections\<rparr>)"
    by (rule build_login_Inr) auto
  have "in_totp i = Keep \<Longrightarrow> totp = lg_totp l" using tt by simp
  moreover have "in_sections i = None \<Longrightarrow> sections = lg_sections l" using ss by (simp add: apply_sections_def)
  ultimately show ?thesis
    using b secrets_equal_iff [OF assms(1)]
    by (auto simp: d push_history_def MAX_PASSWORD_HISTORY_def split: option.splits)
qed

section \<open>Witnesses\<close>

definition toy_items :: item_env where
  "toy_items = \<lparr>ie_fields = \<lparr>fe_totp = toy_totp, fe_parse = (\<lambda>s. None), fe_fresh = (\<lambda>n. of_nat n)\<rparr>,
     ie_sha256 = (\<lambda>b. take 32 (b @ replicate 32 0)), ie_lower = map to_ascii_lowercase\<rparr>"

lemma login_update_keeps_witness:
  "\<exists>ov m. build_item toy_items 3 ((blank_input TLogin (str ''a''))\<lparr>in_password := Set (str ''new'')\<rparr>)
      (Some (DLogin (no_login\<lparr>lg_password := Some (str ''old'')\<rparr>))) 1 2 = Inr (ov, DLogin m) \<and>
    lg_password_history m = [\<lparr>pp_password = str ''old'', pp_replaced_at = 2\<rparr>]"
proof -
  let ?i = "(blank_input TLogin (str ''a''))\<lparr>in_password := Set (str ''new'')\<rparr>"
    and ?l = "no_login\<lparr>lg_password := Some (str ''old'')\<rparr>"
  have s: "length (ie_sha256 toy_items b) = 32" for b by (simp add: toy_items_def)
  have "build_details toy_items ?i (Some (DLogin ?l)) 2 = build_login toy_items ?i (Some (DLogin ?l)) 2"
    by (simp add: build_details_def blank_input_def)
  moreover obtain k where "build_login toy_items ?i (Some (DLogin ?l)) 2 = Inr (DLogin k)"
    by (simp add: build_login_def blank_input_def no_login_def check_some_def check_password_def
        check_notes_def apply_sections_def MAX_PASSWORD_CHARS_def str_def Let_def)
  ultimately obtain ov d where b: "build_item toy_items 3 ?i (Some (DLogin ?l)) 1 2 = Inr (ov, d)"
    by (simp add: build_item_def blank_input_def check_shape_def login_fields_def has_text_def
        build_title_def clean_title_def build_username_def clean_username_def clean_urls_def
        clean_sign_in_with_def normalize_tags_def dedupe_sorted_def is_site_bound_def
        MAX_TITLE_CHARS_def MAX_URLS_def MAX_TAGS_def text_eval Let_def)
  have n: "ie_sha256 toy_items (utf8_bytes (str ''new'')) \<noteq> ie_sha256 toy_items (utf8_bytes (str ''old''))"
    by (simp add: toy_items_def utf8_bytes_def utf8_def utf8_char_def str_def)
  have e: "str ''new'' \<noteq> []" by (simp add: str_def)
  from login_update_keeps [OF s b] n e obtain m where "d = DLogin m"
    "lg_password_history m = [\<lparr>pp_password = str ''old'', pp_replaced_at = 2\<rparr>]"
    by (auto simp: no_login_def blank_input_def)
  then show ?thesis using b by blast
qed

end
