(* ===== verification/Store.thy ===== *)
theory Store
  imports Keys "HOL-Library.Option_ord"
begin

text \<open>
  The SQLite store (\<^verbatim>\<open>havenkeys-core/src/store.rs\<close>): the plaintext header, the encrypted items,
  the account row with its sync position and rollback floor, the settings, the unreadable-item
  bookkeeping, device-local values and the attachment cache.

  A table is a keyed table of the prelude; a table with the single row \<open>id = 1\<close> is an option. An
  identifier column holds text: either what \<open>Uuid::to_string\<close> wrote (\<open>Id\<close>) or text that does
  not parse (\<open>BadId\<close>). A column whose text may fail to parse holds an option. Each statement is
  assumed to succeed: a storage failure leaves the transaction undone and is reported as
  \<open>Storage\<close>, and no state here depends on it. A select without an order returns the rows in
  table order.
\<close>

section \<open>Model\<close>

subsection \<open>Schema and migrations\<close>

type_synonym schema = "(string \<times> string list) list"

definition SCHEMA_VERSION :: int where "SCHEMA_VERSION = 9"

definition SCHEMA :: schema where
  "SCHEMA =
    [(''vault_header'', [''id'', ''format_version'', ''vault_id'', ''kdf'', ''wrapped_vault_key'',
        ''created_at'', ''key_scheme'', ''header_revision'']),
     (''items'', [''id'', ''overview'', ''details'', ''revision'']),
     (''account'', [''id'', ''account_id'', ''email'', ''server_url'', ''server_cursor'',
        ''max_header_rev'', ''last_synced_at'', ''plan_status'', ''entitlement'', ''trial_ends_at'',
        ''period_end'', ''pake_confirmed'']),
     (''settings'', [''id'', ''blob'']),
     (''unreadable_items'', [''id'', ''revision'']),
     (''local_blob'', [''name'', ''blob'']),
     (''attachment_cache'', [''id'', ''blob'', ''last_used''])]"

definition create_table :: "string \<Rightarrow> string list \<Rightarrow> schema \<Rightarrow> schema result" where
  "create_table n cols db = (if n \<in> fst ` set db then Inl Storage else Inr (db @ [(n, cols)]))"

definition add_column :: "string \<Rightarrow> string \<Rightarrow> schema \<Rightarrow> schema result" where
  "add_column n col db = (case map_of db n of
     None \<Rightarrow> Inl Storage
   | Some cols \<Rightarrow> if col \<in> set cols then Inl Storage
       else Inr (map (\<lambda>(m, cs). if m = n then (m, cs @ [col]) else (m, cs)) db))"

definition MIGRATE_8_TO_9 :: "schema \<Rightarrow> schema result" where
  "MIGRATE_8_TO_9 = create_table ''attachment_cache'' [''id'', ''blob'', ''last_used'']"

definition MIGRATE_7_TO_8 :: "schema \<Rightarrow> schema result" where
  "MIGRATE_7_TO_8 = add_column ''account'' ''pake_confirmed''"

definition MIGRATE_6_TO_7 :: "schema \<Rightarrow> schema result" where
  "MIGRATE_6_TO_7 db =
     and_then (add_column ''account'' ''plan_status'' db) (\<lambda>db.
     and_then (add_column ''account'' ''entitlement'' db) (\<lambda>db.
     and_then (add_column ''account'' ''trial_ends_at'' db) (\<lambda>db.
     add_column ''account'' ''period_end'' db)))"

definition MIGRATE_5_TO_6 :: "schema \<Rightarrow> schema result" where
  "MIGRATE_5_TO_6 = create_table ''local_blob'' [''name'', ''blob'']"

text \<open>\<open>init\<close> on a database with a \<open>user_version\<close> and its tables: the version and tables after it.\<close>

definition init :: "int \<Rightarrow> schema \<Rightarrow> (int \<times> schema) result" where
  "init ver db =
     (if ver = 0 then
        and_then (fold (\<lambda>(n, cols) r. and_then r (create_table n cols)) SCHEMA (Inr db))
          (\<lambda>db. Inr (SCHEMA_VERSION, db))
      else if ver = 5 then
        and_then (MIGRATE_5_TO_6 db) (\<lambda>db. and_then (MIGRATE_6_TO_7 db) (\<lambda>db.
        and_then (MIGRATE_7_TO_8 db) (\<lambda>db. and_then (MIGRATE_8_TO_9 db) (\<lambda>db. Inr (SCHEMA_VERSION, db)))))
      else if ver = 6 then
        and_then (MIGRATE_6_TO_7 db) (\<lambda>db.
        and_then (MIGRATE_7_TO_8 db) (\<lambda>db. and_then (MIGRATE_8_TO_9 db) (\<lambda>db. Inr (SCHEMA_VERSION, db))))
      else if ver = 7 then
        and_then (MIGRATE_7_TO_8 db) (\<lambda>db. and_then (MIGRATE_8_TO_9 db) (\<lambda>db. Inr (SCHEMA_VERSION, db)))
      else if ver = 8 then and_then (MIGRATE_8_TO_9 db) (\<lambda>db. Inr (SCHEMA_VERSION, db))
      else if ver = SCHEMA_VERSION then Inr (ver, db)
      else if SCHEMA_VERSION < ver then Inl NewerVault
      else Inl UnsupportedVersion)"

subsection \<open>Rows and records\<close>

datatype KeyScheme = AccountBound

fun uses_secret_key :: "KeyScheme \<Rightarrow> bool" where
  "uses_secret_key AccountBound = True"

fun scheme_to_db :: "KeyScheme \<Rightarrow> int" where
  "scheme_to_db AccountBound = 3"

definition scheme_from_db :: "int \<Rightarrow> KeyScheme result" where
  "scheme_from_db v = (if v = 3 then Inr AccountBound else Inl UnsupportedVersion)"

datatype row_id = Id uuid | BadId rstring

fun parse_id :: "row_id \<Rightarrow> uuid option" where
  "parse_id (Id u) = Some u"
| "parse_id (BadId t) = None"

record header_record =
  hd_format_version :: nat
  hd_vault_id :: uuid
  hd_kdf :: kdf_params
  hd_wrapped_vault_key :: bytes
  hd_created_at :: int
  hd_key_scheme :: KeyScheme
  hd_revision :: nat

record header_row =
  hr_format_version :: int
  hr_vault_id :: "uuid option"
  hr_kdf :: "kdf_params option"
  hr_wrapped_vault_key :: bytes
  hr_created_at :: int
  hr_key_scheme :: int
  hr_revision :: int

record account_record =
  ac_account_id :: uuid
  ac_email :: rstring
  ac_server_url :: rstring
  ac_server_cursor :: int
  ac_max_header_rev :: int
  ac_last_synced_at :: "int option"

datatype Entitlement = Full | Frozen

fun entitlement_as_str :: "Entitlement \<Rightarrow> string" where
  "entitlement_as_str Full = ''full''"
| "entitlement_as_str Frozen = ''frozen''"

definition entitlement_parse :: "string \<Rightarrow> Entitlement" where
  "entitlement_parse s = (if s = ''frozen'' then Frozen else Full)"

record plan_record =
  pl_status :: "rstring option"
  pl_entitlement :: Entitlement
  pl_trial_ends_at :: "rstring option"
  pl_period_end :: "rstring option"

definition default_plan :: plan_record where
  "default_plan = \<lparr>pl_status = None, pl_entitlement = Full, pl_trial_ends_at = None, pl_period_end = None\<rparr>"

record account_row =
  rw_account_id :: "uuid option"
  rw_email :: rstring
  rw_server_url :: rstring
  rw_server_cursor :: int
  rw_max_header_rev :: int
  rw_last_synced_at :: "int option"
  rw_plan_status :: "rstring option"
  rw_entitlement :: string
  rw_trial_ends_at :: "rstring option"
  rw_period_end :: "rstring option"
  rw_pake_confirmed :: int

record item_row =
  it_overview :: bytes
  it_details :: bytes
  it_revision :: int

record store =
  st_header :: "header_row option"
  st_items :: "(row_id, item_row) table"
  st_account :: "account_row option"
  st_settings :: "bytes option"
  st_unreadable :: "(row_id, int) table"
  st_local :: "(string, bytes) table"
  st_cache :: "(row_id, bytes \<times> int) table"

definition empty_store :: store where
  "empty_store = \<lparr>st_header = None, st_items = [], st_account = None, st_settings = None,
     st_unreadable = [], st_local = [], st_cache = []\<rparr>"

definition account_to_ref :: "key_env \<Rightarrow> account_record \<Rightarrow> account_ref result" where
  "account_to_ref env a = and_then (parse_email env (ac_email a)) (\<lambda>e.
     Inr \<lparr>ar_id = ac_account_id a, ar_email = e\<rparr>)"

subsection \<open>The header\<close>

definition header :: "store \<Rightarrow> header_record option result" where
  "header s = (case st_header s of
     None \<Rightarrow> Inr None
   | Some r \<Rightarrow>
     and_then (ensure (0 \<le> hr_format_version r \<and> hr_format_version r < 2 ^ 32) Corrupted) (\<lambda>_.
     and_then (ok_or Corrupted (hr_vault_id r)) (\<lambda>vid.
     and_then (ok_or Corrupted (hr_kdf r)) (\<lambda>kdf.
     and_then (scheme_from_db (hr_key_scheme r)) (\<lambda>sch.
     and_then (ensure (0 \<le> hr_revision r) Corrupted) (\<lambda>_.
     Inr (Some \<lparr>hd_format_version = nat (hr_format_version r), hd_vault_id = vid, hd_kdf = kdf,
        hd_wrapped_vault_key = hr_wrapped_vault_key r, hd_created_at = hr_created_at r,
        hd_key_scheme = sch, hd_revision = nat (hr_revision r)\<rparr>)))))))"

text \<open>\<open>i64::try_from(revision)\<close> for a \<open>u64\<close>.\<close>

definition revision_to_db :: "nat \<Rightarrow> int result" where
  "revision_to_db rv = (if int rv \<le> i64_max then Inr (int rv) else Inl Storage)"

definition insert_header :: "header_record \<Rightarrow> bytes \<Rightarrow> store \<Rightarrow> store result" where
  "insert_header h settings_blob s =
     and_then (ensure (st_header s = None) VaultExists) (\<lambda>_.
     and_then (revision_to_db (hd_revision h)) (\<lambda>rv.
     Inr (s\<lparr>st_header := Some \<lparr>hr_format_version = int (hd_format_version h),
         hr_vault_id = Some (hd_vault_id h), hr_kdf = Some (hd_kdf h),
         hr_wrapped_vault_key = hd_wrapped_vault_key h, hr_created_at = hd_created_at h,
         hr_key_scheme = scheme_to_db (hd_key_scheme h), hr_revision = rv\<rparr>,
       st_settings := Some settings_blob\<rparr>)))"

definition update_key_wrap :: "kdf_params \<Rightarrow> bytes \<Rightarrow> KeyScheme \<Rightarrow> nat \<Rightarrow> store \<Rightarrow> store result" where
  "update_key_wrap kdf wrapped sch rv s =
     and_then (revision_to_db rv) (\<lambda>rv.
     case st_header s of
       None \<Rightarrow> Inl NoVault
     | Some r \<Rightarrow> Inr (s\<lparr>st_header := Some (r\<lparr>hr_kdf := Some kdf, hr_wrapped_vault_key := wrapped,
           hr_key_scheme := scheme_to_db sch, hr_revision := rv\<rparr>)\<rparr>))"

subsection \<open>Items\<close>

definition item_overviews :: "store \<Rightarrow> (uuid \<times> bytes) result list" where
  "item_overviews s = map (\<lambda>(k, r). and_then (ok_or Corrupted (parse_id k)) (\<lambda>u. Inr (u, it_overview r))) (st_items s)"

definition store_item_details :: "store \<Rightarrow> uuid \<Rightarrow> bytes option" where
  "store_item_details s u = map_option it_details (get (st_items s) (Id u))"

definition item_blobs :: "store \<Rightarrow> uuid \<Rightarrow> (bytes \<times> bytes) option" where
  "item_blobs s u = map_option (\<lambda>r. (it_overview r, it_details r)) (get (st_items s) (Id u))"

definition upsert_item :: "uuid \<Rightarrow> bytes \<Rightarrow> bytes \<Rightarrow> int \<Rightarrow> store \<Rightarrow> store" where
  "upsert_item u ov de rv s =
     s\<lparr>st_items := put (Id u) \<lparr>it_overview = ov, it_details = de, it_revision = rv\<rparr> (st_items s)\<rparr>"

definition clear_unreadable :: "uuid \<Rightarrow> store \<Rightarrow> store" where
  "clear_unreadable u s = s\<lparr>st_unreadable := drop_key (Id u) (st_unreadable s)\<rparr>"

definition delete_row :: "uuid \<Rightarrow> store \<Rightarrow> store" where
  "delete_row u s = s\<lparr>st_items := drop_key (Id u) (st_items s)\<rparr>"

definition record_unreadable :: "uuid \<times> int \<Rightarrow> store \<Rightarrow> store" where
  "record_unreadable p s = s\<lparr>st_unreadable := put (Id (fst p)) (snd p) (st_unreadable s)\<rparr>"

definition set_cursor :: "int \<Rightarrow> int \<Rightarrow> store \<Rightarrow> store" where
  "set_cursor cursor synced_at s =
     s\<lparr>st_account := map_option (\<lambda>a. a\<lparr>rw_server_cursor := cursor, rw_last_synced_at := Some synced_at\<rparr>)
        (st_account s)\<rparr>"

text \<open>One pulled row: identifier, overview, details, revision.\<close>

type_synonym pulled_row = "uuid \<times> bytes \<times> bytes \<times> int"

definition pull_upsert :: "pulled_row \<Rightarrow> store \<Rightarrow> store" where
  "pull_upsert r s = (case r of (u, ov, de, rv) \<Rightarrow> clear_unreadable u (upsert_item u ov de rv s))"

definition pull_delete :: "uuid \<Rightarrow> store \<times> nat \<Rightarrow> store \<times> nat" where
  "pull_delete u sn = (case sn of (s, n) \<Rightarrow>
     (clear_unreadable u (delete_row u s), n + (if has_key (st_items s) (Id u) then 1 else 0)))"

definition apply_pull ::
  "pulled_row list \<Rightarrow> uuid list \<Rightarrow> (uuid \<times> int) list \<Rightarrow> (int \<times> int) option \<Rightarrow> store \<Rightarrow> store \<times> nat" where
  "apply_pull rows deletions unreadable cursor s =
     (let s1 = fold pull_upsert rows s;
          (s2, deleted) = fold pull_delete deletions (s1, 0);
          s3 = fold record_unreadable unreadable s2;
          s4 = (case cursor of None \<Rightarrow> s3 | Some (c, t) \<Rightarrow> set_cursor c t s3)
      in (s4, deleted))"

definition unreadable_revisions :: "store \<Rightarrow> (uuid \<times> int) list" where
  "unreadable_revisions s =
     sort_key fst (concat (map (\<lambda>(k, rv). case parse_id k of Some u \<Rightarrow> [(u, rv)] | None \<Rightarrow> []) (st_unreadable s)))"

definition unreadable_ids :: "store \<Rightarrow> uuid list" where
  "unreadable_ids s = map fst (unreadable_revisions s)"

definition unreadable_count :: "store \<Rightarrow> nat" where
  "unreadable_count s = length (st_unreadable s)"

definition reset_cursor :: "int \<Rightarrow> store \<Rightarrow> store" where
  "reset_cursor synced_at s = (set_cursor 0 synced_at s)\<lparr>st_unreadable := []\<rparr>"

definition item_ids :: "store \<Rightarrow> uuid list result" where
  "item_ids s = collect_results (\<lambda>k. ok_or Corrupted (parse_id k)) (keys (st_items s))"

definition item_revision :: "store \<Rightarrow> uuid \<Rightarrow> int option" where
  "item_revision s u = map_option it_revision (get (st_items s) (Id u))"

definition delete_item :: "uuid \<Rightarrow> store \<Rightarrow> store \<times> bool" where
  "delete_item u s = (delete_row u s, has_key (st_items s) (Id u))"

subsection \<open>The account row\<close>

definition account :: "store \<Rightarrow> account_record option result" where
  "account s = (case st_account s of
     None \<Rightarrow> Inr None
   | Some r \<Rightarrow> and_then (ok_or Corrupted (rw_account_id r)) (\<lambda>u.
       Inr (Some \<lparr>ac_account_id = u, ac_email = rw_email r, ac_server_url = rw_server_url r,
         ac_server_cursor = rw_server_cursor r, ac_max_header_rev = rw_max_header_rev r,
         ac_last_synced_at = rw_last_synced_at r\<rparr>)))"

definition other_account :: error where
  "other_account = InvalidInput ''this vault is linked to a different account''"

definition set_account :: "account_record \<Rightarrow> store \<Rightarrow> store result" where
  "set_account rec s =
     and_then (account s) (\<lambda>cur.
     and_then (ensure (case cur of None \<Rightarrow> True | Some c \<Rightarrow> ac_account_id c = ac_account_id rec) other_account) (\<lambda>_.
     Inr (s\<lparr>st_account := Some (case st_account s of
         Some r \<Rightarrow> r\<lparr>rw_account_id := Some (ac_account_id rec), rw_email := ac_email rec,
                   rw_server_url := ac_server_url rec\<rparr>
       | None \<Rightarrow> \<lparr>rw_account_id = Some (ac_account_id rec), rw_email = ac_email rec,
           rw_server_url = ac_server_url rec, rw_server_cursor = ac_server_cursor rec,
           rw_max_header_rev = ac_max_header_rev rec, rw_last_synced_at = ac_last_synced_at rec,
           rw_plan_status = None, rw_entitlement = ''full'', rw_trial_ends_at = None,
           rw_period_end = None, rw_pake_confirmed = 0\<rparr>)\<rparr>)))"

definition plan :: "store \<Rightarrow> plan_record" where
  "plan s = (case st_account s of
     None \<Rightarrow> default_plan
   | Some r \<Rightarrow> \<lparr>pl_status = rw_plan_status r, pl_entitlement = entitlement_parse (rw_entitlement r),
       pl_trial_ends_at = rw_trial_ends_at r, pl_period_end = rw_period_end r\<rparr>)"

definition set_plan :: "plan_record \<Rightarrow> store \<Rightarrow> store" where
  "set_plan p s = s\<lparr>st_account := map_option (\<lambda>r. r\<lparr>rw_plan_status := pl_status p,
     rw_entitlement := entitlement_as_str (pl_entitlement p), rw_trial_ends_at := pl_trial_ends_at p,
     rw_period_end := pl_period_end p\<rparr>) (st_account s)\<rparr>"

definition pake_confirmed :: "store \<Rightarrow> bool" where
  "pake_confirmed s \<longleftrightarrow> map_option rw_pake_confirmed (st_account s) = Some 1"

definition set_pake_confirmed :: "store \<Rightarrow> store" where
  "set_pake_confirmed s = s\<lparr>st_account := map_option (\<lambda>r. r\<lparr>rw_pake_confirmed := 1\<rparr>) (st_account s)\<rparr>"

definition raise_max_header_rev :: "int \<Rightarrow> store \<Rightarrow> store" where
  "raise_max_header_rev rv s = s\<lparr>st_account := map_option
     (\<lambda>r. r\<lparr>rw_max_header_rev := max (rw_max_header_rev r) rv\<rparr>) (st_account s)\<rparr>"

subsection \<open>Settings, local values and the attachment cache\<close>

definition settings_blob :: "store \<Rightarrow> bytes option" where
  "settings_blob s = st_settings s"

definition write_settings :: "bytes \<Rightarrow> store \<Rightarrow> store" where
  "write_settings b s = s\<lparr>st_settings := Some b\<rparr>"

definition local_blob :: "store \<Rightarrow> string \<Rightarrow> bytes option" where
  "local_blob s name = get (st_local s) name"

definition set_local_blob :: "string \<Rightarrow> bytes \<Rightarrow> store \<Rightarrow> store" where
  "set_local_blob name b s = s\<lparr>st_local := put name b (st_local s)\<rparr>"

text \<open>\<open>now_ms\<close> is SQLite's clock.\<close>

definition cached_attachment :: "int \<Rightarrow> uuid \<Rightarrow> store \<Rightarrow> store \<times> bytes option" where
  "cached_attachment now_ms u s = (case get (st_cache s) (Id u) of
     None \<Rightarrow> (s, None)
   | Some (b, t) \<Rightarrow> (s\<lparr>st_cache := put (Id u) (b, now_ms) (st_cache s)\<rparr>, Some b))"

definition put_cached_attachment :: "uuid \<Rightarrow> bytes \<Rightarrow> int \<Rightarrow> store \<Rightarrow> store" where
  "put_cached_attachment u b now_ms s = s\<lparr>st_cache := put (Id u) (b, now_ms) (st_cache s)\<rparr>"

definition delete_cached_attachment :: "uuid \<Rightarrow> store \<Rightarrow> store" where
  "delete_cached_attachment u s = s\<lparr>st_cache := drop_key (Id u) (st_cache s)\<rparr>"

definition held :: "uuid list \<Rightarrow> row_id \<Rightarrow> bool" where
  "held keep k = (case parse_id k of None \<Rightarrow> False | Some u \<Rightarrow> u \<in> set keep)"

fun prune_rows ::
  "uuid list \<Rightarrow> nat \<Rightarrow> (row_id \<times> nat) list \<Rightarrow> nat \<Rightarrow> (row_id, bytes \<times> int) table \<Rightarrow> (row_id, bytes \<times> int) table" where
  "prune_rows keep cap [] acc t = t"
| "prune_rows keep cap ((k, len) # rows) acc t =
     (if \<not> held keep k \<or> cap < acc + len then prune_rows keep cap rows acc (drop_key k t)
      else prune_rows keep cap rows (acc + len) t)"

definition cache_rows :: "store \<Rightarrow> (row_id \<times> nat) list" where
  "cache_rows s = map (\<lambda>(k, b, t). (k, length b)) (sort_key (\<lambda>(k, b, t). - t) (st_cache s))"

definition prune_attachment_cache :: "uuid list \<Rightarrow> nat \<Rightarrow> store \<Rightarrow> store" where
  "prune_attachment_cache keep cap_bytes s =
     s\<lparr>st_cache := prune_rows keep cap_bytes (cache_rows s) 0 (st_cache s)\<rparr>"

section \<open>Properties\<close>

subsection \<open>Well-formed tables\<close>

definition store_wf :: "store \<Rightarrow> bool" where
  "store_wf s \<longleftrightarrow> table_ok (st_items s) \<and> table_ok (st_unreadable s) \<and> table_ok (st_local s) \<and> table_ok (st_cache s)"

lemmas store_ops =
  insert_header_def update_key_wrap_def upsert_item_def clear_unreadable_def delete_row_def
  record_unreadable_def set_cursor_def reset_cursor_def delete_item_def set_account_def set_plan_def
  set_pake_confirmed_def raise_max_header_rev_def write_settings_def set_local_blob_def
  cached_attachment_def put_cached_attachment_def delete_cached_attachment_def prune_attachment_cache_def

lemmas table_wf = tab.wf_upsert tab.wf_remove

lemma store_wf_empty: "store_wf empty_store"
  by (simp add: store_wf_def empty_store_def)

subsection \<open>What each operation of a pull changes\<close>

lemma pull_upsert_sel [simp]:
  "st_items (pull_upsert (u, ov, de, rv) s) = put (Id u) \<lparr>it_overview = ov, it_details = de, it_revision = rv\<rparr> (st_items s)"
  "st_unreadable (pull_upsert (u, ov, de, rv) s) = drop_key (Id u) (st_unreadable s)"
  "st_header (pull_upsert r s) = st_header s" "st_account (pull_upsert r s) = st_account s"
  "st_settings (pull_upsert r s) = st_settings s" "st_local (pull_upsert r s) = st_local s"
  "st_cache (pull_upsert r s) = st_cache s"
  by (simp_all add: pull_upsert_def store_ops split: prod.splits)

lemma fold_pull_upsert_other:
  "st_header (fold pull_upsert rows s) = st_header s \<and> st_account (fold pull_upsert rows s) = st_account s \<and>
   st_settings (fold pull_upsert rows s) = st_settings s \<and> st_local (fold pull_upsert rows s) = st_local s \<and>
   st_cache (fold pull_upsert rows s) = st_cache s"
  by (induction rows arbitrary: s) simp_all

lemma fold_pull_upsert_items:
  "st_items (fold pull_upsert rows s) =
     fold (\<lambda>(u, ov, de, rv). put (Id u) \<lparr>it_overview = ov, it_details = de, it_revision = rv\<rparr>) rows (st_items s)"
  by (induction rows arbitrary: s) auto

lemma fold_pull_upsert_unreadable:
  "st_unreadable (fold pull_upsert rows s) = fold drop_key (map (Id \<circ> fst) rows) (st_unreadable s)"
  by (induction rows arbitrary: s) auto

lemma pull_delete_sel [simp]:
  "st_items (fst (pull_delete u sn)) = drop_key (Id u) (st_items (fst sn))"
  "st_unreadable (fst (pull_delete u sn)) = drop_key (Id u) (st_unreadable (fst sn))"
  "st_header (fst (pull_delete u sn)) = st_header (fst sn)" "st_account (fst (pull_delete u sn)) = st_account (fst sn)"
  "st_settings (fst (pull_delete u sn)) = st_settings (fst sn)" "st_local (fst (pull_delete u sn)) = st_local (fst sn)"
  "st_cache (fst (pull_delete u sn)) = st_cache (fst sn)"
  by (simp_all add: pull_delete_def store_ops split: prod.splits)

lemma fold_pull_delete_sel:
  "st_items (fst (fold pull_delete us sn)) = fold drop_key (map Id us) (st_items (fst sn)) \<and>
   st_unreadable (fst (fold pull_delete us sn)) = fold drop_key (map Id us) (st_unreadable (fst sn)) \<and>
   st_header (fst (fold pull_delete us sn)) = st_header (fst sn) \<and>
   st_account (fst (fold pull_delete us sn)) = st_account (fst sn) \<and>
   st_settings (fst (fold pull_delete us sn)) = st_settings (fst sn) \<and>
   st_local (fst (fold pull_delete us sn)) = st_local (fst sn) \<and>
   st_cache (fst (fold pull_delete us sn)) = st_cache (fst sn)"
  by (induction us arbitrary: sn) simp_all

lemma fold_record_unreadable_sel:
  "fold record_unreadable ps s =
     s\<lparr>st_unreadable := fold (\<lambda>p. put (Id (fst p)) (snd p)) ps (st_unreadable s)\<rparr>"
  by (induction ps arbitrary: s) (simp_all add: record_unreadable_def)

lemma deleted_count:
  "snd (fold pull_delete us sn) = snd sn + card (set us \<inter> {u. has_key (st_items (fst sn)) (Id u)})"
proof (induction us arbitrary: sn)
  case (Cons u us)
  let ?sn = "pull_delete u sn" and ?K = "\<lambda>s. {v. has_key (st_items s) (Id v)}"
  have k: "?K (fst ?sn) = ?K (fst sn) - {u}" by auto
  have "set us \<inter> ?K (fst ?sn) = (set (u # us) \<inter> ?K (fst sn)) - {u}" unfolding k by auto
  moreover have "snd ?sn = snd sn + (if u \<in> ?K (fst sn) then 1 else 0)"
    by (simp add: pull_delete_def split: prod.splits)
  ultimately show ?case
    using Cons.IH [of ?sn] by (auto simp: card_Diff_singleton_if card_gt_0_iff)
qed simp

text \<open>The four parts of a pull, as one record update.\<close>

definition pulled_items where
  "pulled_items rows dels t =
     fold drop_key (map Id dels)
       (fold (\<lambda>(u, ov, de, rv). put (Id u) \<lparr>it_overview = ov, it_details = de, it_revision = rv\<rparr>) rows t)"

definition pulled_unreadable where
  "pulled_unreadable rows dels unr t =
     fold (\<lambda>p. put (Id (fst p)) (snd p)) unr (fold drop_key (map Id dels) (fold drop_key (map (Id \<circ> fst) rows) t))"

definition pulled_account where
  "pulled_account cursor a = (case cursor of None \<Rightarrow> a
     | Some (c, t) \<Rightarrow> map_option (\<lambda>a. a\<lparr>rw_server_cursor := c, rw_last_synced_at := Some t\<rparr>) a)"

lemma apply_pull_fst:
  "fst (apply_pull rows dels unr cursor s) =
     s\<lparr>st_items := pulled_items rows dels (st_items s),
       st_unreadable := pulled_unreadable rows dels unr (st_unreadable s),
       st_account := pulled_account cursor (st_account s)\<rparr>"
proof -
  let ?s2 = "fst (fold pull_delete dels (fold pull_upsert rows s, 0))"
  have e: "fst (apply_pull rows dels unr cursor s) = (case cursor of None \<Rightarrow> fold record_unreadable unr ?s2
      | Some (c, t) \<Rightarrow> set_cursor c t (fold record_unreadable unr ?s2))"
    by (simp add: apply_pull_def Let_def case_prod_beta)
  have "?s2 = s\<lparr>st_items := pulled_items rows dels (st_items s),
      st_unreadable := fold drop_key (map Id dels) (fold drop_key (map (Id \<circ> fst) rows) (st_unreadable s))\<rparr>"
    using fold_pull_delete_sel [of dels "(fold pull_upsert rows s, 0)"] fold_pull_upsert_other [of rows s]
    by (simp add: pulled_items_def fold_pull_upsert_items fold_pull_upsert_unreadable store.equality)
  then show ?thesis
    by (auto simp: e fold_record_unreadable_sel pulled_unreadable_def pulled_account_def set_cursor_def
        split: option.splits)
qed

lemma apply_pull_snd:
  "snd (apply_pull rows dels unr cursor s) =
     card (set dels \<inter> {u. has_key (st_items s) (Id u) \<or> u \<in> fst ` set rows})"
proof -
  have "has_key (fold (\<lambda>(u, ov, de, rv). put (Id u) \<lparr>it_overview = ov, it_details = de, it_revision = rv\<rparr>) rows t) (Id u)
      \<longleftrightarrow> has_key t (Id u) \<or> u \<in> fst ` set rows" for t u
    by (induction rows arbitrary: t) (auto split: prod.splits)
  then have "{u. has_key (st_items (fold pull_upsert rows s)) (Id u)} =
      {u. has_key (st_items s) (Id u) \<or> u \<in> fst ` set rows}"
    unfolding fold_pull_upsert_items by blast
  then show ?thesis
    using deleted_count [of dels "(fold pull_upsert rows s, 0)"]
    by (simp add: apply_pull_def Let_def case_prod_beta)
qed

lemma get_pulled_items:
  assumes "distinct (map fst rows)"
  shows "get (pulled_items rows dels t) (Id u) =
    (if u \<in> set dels then None else case map_of rows u of
       Some (ov, de, rv) \<Rightarrow> Some \<lparr>it_overview = ov, it_details = de, it_revision = rv\<rparr>
     | None \<Rightarrow> get t (Id u))"
proof -
  have "get (fold (\<lambda>(u, ov, de, rv). put (Id u) \<lparr>it_overview = ov, it_details = de, it_revision = rv\<rparr>) rows t) (Id u) =
    (case map_of rows u of Some (ov, de, rv) \<Rightarrow> Some \<lparr>it_overview = ov, it_details = de, it_revision = rv\<rparr>
     | None \<Rightarrow> get t (Id u))"
    using assms
  proof (induction rows arbitrary: t)
    case (Cons r rows)
    obtain v ov de rv where r: "r = (v, ov, de, rv)" by (cases r) auto
    have "map_of rows v = None" using Cons.prems r by (simp add: map_of_eq_None_iff)
    then show ?case using Cons r by (simp split: option.splits prod.splits)
  qed simp
  then show ?thesis by (auto simp: pulled_items_def tab.lookup_remove_all)
qed

lemma get_pulled_unreadable:
  assumes "distinct (map fst unr)"
  shows "get (pulled_unreadable rows dels unr t) (Id u) =
    (case map_of unr u of Some rv \<Rightarrow> Some rv
     | None \<Rightarrow> if u \<in> set dels \<or> u \<in> fst ` set rows then None else get t (Id u))"
proof -
  have "get (fold (\<lambda>p. put (Id (fst p)) (snd p)) unr t) (Id u) =
      (case map_of unr u of Some rv \<Rightarrow> Some rv | None \<Rightarrow> get t (Id u))" for t
    using assms
  proof (induction unr arbitrary: t)
    case (Cons p unr)
    then have "map_of unr (fst p) = None" by (simp add: map_of_eq_None_iff)
    then show ?case using Cons by (cases p) (simp split: option.splits)
  qed simp
  then show ?thesis
    by (auto simp: pulled_unreadable_def tab.lookup_remove_all image_iff split: option.splits)
qed

lemma wf_pulled:
  assumes "table_ok t" "table_ok v"
  shows "table_ok (pulled_items rows dels t)" "table_ok (pulled_unreadable rows dels unr v)"
proof -
  have "table_ok (fold (\<lambda>(u, ov, de, rv). put (Id u) \<lparr>it_overview = ov, it_details = de, it_revision = rv\<rparr>) rows t)"
    using assms(1) by (induction rows arbitrary: t) (auto intro: table_wf)
  then show "table_ok (pulled_items rows dels t)" by (auto simp: pulled_items_def intro: tab.wf_remove_all)
  show "table_ok (pulled_unreadable rows dels unr v)"
    using assms(2) tab.wf_upsert_all [where key = "\<lambda>p. Id (fst p)" and val = snd]
    by (auto simp: pulled_unreadable_def intro: tab.wf_remove_all)
qed

lemma prune_rows_wf: "table_ok t \<Longrightarrow> table_ok (prune_rows keep cap rows acc t)"
  by (induction keep cap rows acc t rule: prune_rows.induct) (auto intro: table_wf)

subsection \<open>Every write to the store\<close>

inductive store_step :: "store \<Rightarrow> store \<Rightarrow> bool" where
  "insert_header h b s = Inr t \<Longrightarrow> store_step s t"
| "update_key_wrap kdf w sch rv s = Inr t \<Longrightarrow> store_step s t"
| "store_step s (upsert_item u ov de rv s)"
| "store_step s (fst (apply_pull rows dels unr cursor s))"
| "store_step s (reset_cursor now s)"
| "store_step s (fst (delete_item u s))"
| "set_account rec s = Inr t \<Longrightarrow> store_step s t"
| "store_step s (set_plan p s)"
| "store_step s (set_pake_confirmed s)"
| "store_step s (set_cursor c now s)"
| "store_step s (raise_max_header_rev fl s)"
| "store_step s (write_settings b s)"
| "store_step s (set_local_blob n b s)"
| "store_step s (fst (cached_attachment now u s))"
| "store_step s (put_cached_attachment u b now s)"
| "store_step s (delete_cached_attachment u s)"
| "store_step s (prune_attachment_cache keep cap s)"

definition floor_of :: "store \<Rightarrow> int option" where
  "floor_of s = map_option rw_max_header_rev (st_account s)"

lemma store_step_wf: "store_step s t \<Longrightarrow> store_wf s \<Longrightarrow> store_wf t"
  by (induction rule: store_step.induct)
    (auto simp: store_ops store_wf_def apply_pull_fst result_simps prune_rows_wf
      intro: table_wf wf_pulled split: option.splits)

text \<open>What the account row keeps across a write: who it is for, its floor, its login.\<close>

definition account_kept :: "account_row option \<Rightarrow> account_row option \<Rightarrow> bool" where
  "account_kept a b = (case a of None \<Rightarrow> True | Some r \<Rightarrow> (case b of None \<Rightarrow> False
     | Some q \<Rightarrow> rw_account_id q = rw_account_id r \<and> rw_max_header_rev r \<le> rw_max_header_rev q \<and>
         (rw_pake_confirmed r = 1 \<longrightarrow> rw_pake_confirmed q = 1)))"

lemma set_account_Inr_iff:
  "set_account rec s = Inr t \<longleftrightarrow>
     (case st_account s of
        None \<Rightarrow> t = s\<lparr>st_account := Some \<lparr>rw_account_id = Some (ac_account_id rec), rw_email = ac_email rec,
           rw_server_url = ac_server_url rec, rw_server_cursor = ac_server_cursor rec,
           rw_max_header_rev = ac_max_header_rev rec, rw_last_synced_at = ac_last_synced_at rec,
           rw_plan_status = None, rw_entitlement = ''full'', rw_trial_ends_at = None,
           rw_period_end = None, rw_pake_confirmed = 0\<rparr>\<rparr>
      | Some r \<Rightarrow> rw_account_id r = Some (ac_account_id rec) \<and>
           t = s\<lparr>st_account := Some (r\<lparr>rw_email := ac_email rec, rw_server_url := ac_server_url rec\<rparr>)\<rparr>)"
  by (cases "st_account s")
    (auto simp: set_account_def account_def result_simps)

lemma store_step_account: "store_step s t \<Longrightarrow> account_kept (st_account s) (st_account t)"
proof (induction rule: store_step.induct)
  case (7 rec s t)
  then show ?case by (auto simp: set_account_Inr_iff account_kept_def split: option.splits)
qed (auto simp: store_ops apply_pull_fst pulled_account_def result_simps account_kept_def split: option.splits)

lemma account_kept_refl: "account_kept a a"
  by (simp add: account_kept_def split: option.splits)

lemma account_kept_trans: "account_kept a b \<Longrightarrow> account_kept b c \<Longrightarrow> account_kept a c"
  by (auto simp: account_kept_def split: option.splits)

interpretation store_inv: invariant_system "\<lambda>s. s = empty_store" store_step store_wf
  by unfold_locales (auto simp: store_wf_empty intro: store_step_wf)

interpretation store_floor: monotone_system store_step floor_of
proof unfold_locales
  fix s t
  assume "store_step s t"
  from store_step_account [OF this] show "floor_of s \<le> floor_of t"
    by (auto simp: account_kept_def floor_of_def split: option.splits)
qed

subsection \<open>Pruning the attachment cache\<close>

fun kept_rows :: "uuid list \<Rightarrow> nat \<Rightarrow> (row_id \<times> nat) list \<Rightarrow> nat \<Rightarrow> (row_id \<times> nat) list" where
  "kept_rows keep cap [] acc = []"
| "kept_rows keep cap ((k, len) # rows) acc =
     (if \<not> held keep k \<or> cap < acc + len then kept_rows keep cap rows acc
      else (k, len) # kept_rows keep cap rows (acc + len))"

lemma kept_rows_subset: "set (kept_rows keep cap rows acc) \<subseteq> {r \<in> set rows. held keep (fst r)}"
  by (induction keep cap rows acc rule: kept_rows.induct) auto

lemma kept_rows_sum: "acc \<le> cap \<Longrightarrow> acc + sum_list (map snd (kept_rows keep cap rows acc)) \<le> cap"
  by (induction keep cap rows acc rule: kept_rows.induct) (auto simp: add.assoc)

lemma kept_rows_distinct: "distinct (map fst rows) \<Longrightarrow> distinct (map fst (kept_rows keep cap rows acc))"
proof (induction keep cap rows acc rule: kept_rows.induct)
  case (2 keep cap k len rows acc)
  then show ?case using kept_rows_subset [of keep cap rows "acc + len"] by auto
qed simp

lemma kept_rows_all:
  "acc + sum_list (map snd (filter (\<lambda>r. held keep (fst r)) rows)) \<le> cap \<Longrightarrow>
   kept_rows keep cap rows acc = filter (\<lambda>r. held keep (fst r)) rows"
  by (induction keep cap rows acc rule: kept_rows.induct) (auto simp: add.assoc)

lemma prune_rows_filter:
  "distinct (map fst rows) \<Longrightarrow>
   prune_rows keep cap rows acc t =
     filter (\<lambda>x. fst x \<notin> fst ` set rows \<or> fst x \<in> fst ` set (kept_rows keep cap rows acc)) t"
proof (induction keep cap rows acc t rule: prune_rows.induct)
  case (2 keep cap k len rows acc t)
  have k: "k \<notin> fst ` set rows" using 2(3) by simp
  have s: "fst ` set (kept_rows keep cap rows a) \<subseteq> fst ` set rows" for a
    using kept_rows_subset [of keep cap rows a] by auto
  show ?case
  proof (cases "\<not> held keep k \<or> cap < acc + len")
    case True
    then have "prune_rows keep cap ((k, len) # rows) acc t =
        filter (\<lambda>x. fst x \<notin> fst ` set rows \<or> fst x \<in> fst ` set (kept_rows keep cap rows acc))
          (filter (\<lambda>x. fst x \<noteq> k) t)"
      using 2 by (simp add: drop_key_def AList.delete_eq case_prod_beta' eq_commute [of k])
    also have "\<dots> = filter (\<lambda>x. fst x \<notin> insert k (fst ` set rows) \<or>
        fst x \<in> fst ` set (kept_rows keep cap rows acc)) t"
      using k s [of acc] by (auto simp: filter_filter intro!: filter_cong)
    finally show ?thesis using True by simp
  next
    case False
    then show ?thesis using 2 k by (auto intro!: filter_cong)
  qed
qed simp

definition row_of :: "row_id \<times> bytes \<times> int \<Rightarrow> row_id \<times> nat" where
  "row_of x = (fst x, length (fst (snd x)))"

lemma cache_rows_row_of: "cache_rows s = map row_of (sort_key (\<lambda>(k, b, t). - t) (st_cache s))"
  by (auto simp: cache_rows_def row_of_def)

lemma fst_row_of [simp]: "fst (row_of x) = fst x"
  by (simp add: row_of_def)

lemma cache_rows_set: "set (cache_rows s) = row_of ` set (st_cache s)"
  by (simp add: cache_rows_row_of)

lemma cache_rows_keys: "table_ok (st_cache s) \<Longrightarrow> distinct (map fst (cache_rows s))"
  by (simp add: cache_rows_row_of comp_def table_ok_def distinct_map)

lemma pruned_cache:
  assumes "table_ok (st_cache s)"
  shows "st_cache (prune_attachment_cache keep cap s) =
    filter (\<lambda>x. fst x \<in> fst ` set (kept_rows keep cap (cache_rows s) 0)) (st_cache s)"
proof -
  have "fst ` set (cache_rows s) = fst ` set (st_cache s)" by (simp add: cache_rows_set image_image)
  then show ?thesis
    using prune_rows_filter [OF cache_rows_keys [OF assms]]
    by (auto simp: prune_attachment_cache_def intro!: filter_cong)
qed

text \<open>The bytes of a table, and the same sum over the rows that describe it.\<close>

definition cache_bytes :: "(row_id, bytes \<times> int) table \<Rightarrow> nat" where
  "cache_bytes t = sum_list (map (\<lambda>(k, b, u). length b) t)"

lemma row_sum:
  assumes t: "table_ok t" and r: "distinct (map fst rs)" "set rs = row_of ` set t"
  shows "sum_list (map snd rs) = cache_bytes t"
proof -
  have d: "distinct rs" "distinct t" using t r(1) by (auto simp: table_ok_def distinct_map)
  have i: "inj_on row_of (set t)"
    using t by (auto simp: inj_on_def table_ok_def distinct_map row_of_def)
  have "sum_list (map snd rs) = sum snd (set rs)" using d(1) by (simp add: sum_list_distinct_conv_sum_set)
  also have "\<dots> = sum (\<lambda>(k, b, u). length b) (set t)"
    unfolding r(2) sum.reindex [OF i] by (simp add: row_of_def case_prod_beta')
  also have "\<dots> = cache_bytes t" using d(2) by (simp add: cache_bytes_def sum_list_distinct_conv_sum_set)
  finally show ?thesis .
qed

lemma sub_rows:
  assumes "distinct (map fst R)" "set K \<subseteq> set R"
  shows "set K = {x \<in> set R. fst x \<in> fst ` set K}"
  using assms by (auto simp: distinct_map inj_on_def)

lemma row_of_filter: "{x \<in> row_of ` A. fst x \<in> F} = row_of ` {x \<in> A. fst x \<in> F}"
  by auto

lemma pruned_bytes:
  assumes "table_ok (st_cache s)"
  shows "cache_bytes (st_cache (prune_attachment_cache keep cap s)) \<le> cap"
proof -
  let ?k = "kept_rows keep cap (cache_rows s) 0" and ?t = "st_cache (prune_attachment_cache keep cap s)"
  have "set ?k = {x \<in> row_of ` set (st_cache s). fst x \<in> fst ` set ?k}"
    using sub_rows [OF cache_rows_keys [OF assms], of ?k] kept_rows_subset [of keep cap "cache_rows s" 0]
    by (auto simp: cache_rows_set)
  also have "\<dots> = row_of ` {x \<in> set (st_cache s). fst x \<in> fst ` set ?k}" by (rule row_of_filter)
  also have "\<dots> = row_of ` set ?t" by (simp add: pruned_cache [OF assms])
  finally have "set ?k = row_of ` set ?t" .
  moreover have "table_ok ?t"
    using assms by (simp add: prune_attachment_cache_def prune_rows_wf)
  ultimately have "cache_bytes ?t = sum_list (map snd ?k)"
    using row_sum kept_rows_distinct [OF cache_rows_keys [OF assms]] by metis
  then show ?thesis using kept_rows_sum [of 0 cap keep "cache_rows s"] by simp
qed

lemma pruned_all:
  assumes "table_ok (st_cache s)"
    and "cache_bytes (filter (\<lambda>x. held keep (fst x)) (st_cache s)) \<le> cap"
  shows "st_cache (prune_attachment_cache keep cap s) = filter (\<lambda>x. held keep (fst x)) (st_cache s)"
proof -
  let ?h = "filter (\<lambda>r. held keep (fst r)) (cache_rows s)"
    and ?t = "filter (\<lambda>x. held keep (fst x)) (st_cache s)"
  have h: "set ?h = row_of ` set ?t" by (auto simp: cache_rows_set)
  moreover have "distinct (map fst ?h)" "table_ok ?t"
    using cache_rows_keys [OF assms(1)] assms(1) by (simp_all add: distinct_map_filter table_ok_def)
  ultimately have "sum_list (map snd ?h) \<le> cap" using row_sum assms(2) by metis
  then have "kept_rows keep cap (cache_rows s) 0 = ?h" using kept_rows_all by simp
  moreover have "fst ` set ?h = fst ` set ?t" by (simp only: h image_image fst_row_of)
  moreover have "fst x \<in> fst ` set ?t \<longleftrightarrow> held keep (fst x)" if "x \<in> set (st_cache s)" for x
    using that by auto
  ultimately show ?thesis by (auto simp: pruned_cache [OF assms(1)] intro!: filter_cong)
qed

subsection \<open>Claims\<close>

text \<open>The schema a database of version \<open>v\<close> was left with: the later additions taken out.\<close>

definition schema_at :: "int \<Rightarrow> schema" where
  "schema_at v =
     map (\<lambda>(n, cols). (n, filter (\<lambda>c. n = ''account'' \<longrightarrow>
         (v < 7 \<longrightarrow> c \<notin> {''plan_status'', ''entitlement'', ''trial_ends_at'', ''period_end''}) \<and>
         (v < 8 \<longrightarrow> c \<noteq> ''pake_confirmed'')) cols))
       (filter (\<lambda>(n, cols). (v < 6 \<longrightarrow> n \<noteq> ''local_blob'') \<and> (v < 9 \<longrightarrow> n \<noteq> ''attachment_cache'')) SCHEMA)"

text \<open>
  Opening a database: an empty file and every supported older version (5 to 8) end with
  exactly the tables and columns, in the same order, that a fresh database has, at the current
  version; a database already at the current version is left as it is; a newer version is refused
  as newer and any other version as unsupported.
\<close>

theorem init_migrates:
  "init 0 [] = Inr (9, SCHEMA) \<and>
   init 5 (schema_at 5) = Inr (9, SCHEMA) \<and> init 6 (schema_at 6) = Inr (9, SCHEMA) \<and>
   init 7 (schema_at 7) = Inr (9, SCHEMA) \<and> init 8 (schema_at 8) = Inr (9, SCHEMA) \<and>
   init 9 db = Inr (9, db) \<and> init (10 + int n) db = Inl NewerVault \<and>
   init (- 1 - int n) db = Inl UnsupportedVersion \<and> init 4 db = Inl UnsupportedVersion"
proof -
  note s = init_def SCHEMA_def schema_at_def SCHEMA_VERSION_def create_table_def add_column_def
    MIGRATE_5_TO_6_def MIGRATE_6_TO_7_def MIGRATE_7_TO_8_def MIGRATE_8_TO_9_def
  have "init 0 [] = Inr (9, SCHEMA)" by (simp add: s)
  moreover have "init 5 (schema_at 5) = Inr (9, SCHEMA)" by (simp add: s)
  moreover have "init 6 (schema_at 6) = Inr (9, SCHEMA)" by (simp add: s)
  moreover have "init 7 (schema_at 7) = Inr (9, SCHEMA)" by (simp add: s)
  moreover have "init 8 (schema_at 8) = Inr (9, SCHEMA)" by (simp add: s)
  moreover have "init 9 db = Inr (9, db)" "init (10 + int n) db = Inl NewerVault"
    "init (- 1 - int n) db = Inl UnsupportedVersion" "init 4 db = Inl UnsupportedVersion"
    by (simp_all add: init_def SCHEMA_VERSION_def)
  ultimately show ?thesis by blast
qed

text \<open>
  Whatever sequence of writes reaches the store, an account row stays the row of the same
  account, its rollback floor never goes down, and a confirmed password-authenticated login is
  never unconfirmed.
\<close>

theorem store_runs_keep_account:
  assumes "store_step\<^sup>*\<^sup>* s t" and "st_account s = Some r"
  shows "\<exists>q. st_account t = Some q \<and> rw_account_id q = rw_account_id r \<and>
    rw_max_header_rev r \<le> rw_max_header_rev q \<and> (rw_pake_confirmed r = 1 \<longrightarrow> rw_pake_confirmed q = 1)"
proof -
  have "account_kept (st_account s) (st_account t)"
    using assms(1)
    by (induction rule: rtranclp_induct)
      (auto intro: account_kept_refl account_kept_trans store_step_account)
  then show ?thesis using assms(2) by (auto simp: account_kept_def split: option.splits)
qed

text \<open>
  One transaction applies a whole pull. For rows and unreadable entries with distinct
  identifiers: a deleted item is gone, a pulled item holds exactly its new blobs and revision, any
  other item is untouched; an item is listed as unreadable exactly with the pull's revision, or as
  before if the pull neither stored nor deleted it; only a pull with a cursor moves the account's
  cursor, and the floor and everything else stay as they were. The count returned is the number of
  deleted identifiers that had a row.
\<close>

theorem apply_pull_effect:
  fixes s :: store and dels :: "uuid list" and cursor :: "(int \<times> int) option"
  assumes "distinct (map fst rows)" and "distinct (map fst unr)"
  defines "t \<equiv> fst (apply_pull rows dels unr cursor s)"
  shows "get (st_items t) (Id u) =
      (if u \<in> set dels then None else case map_of rows u of
         Some (ov, de, rv) \<Rightarrow> Some \<lparr>it_overview = ov, it_details = de, it_revision = rv\<rparr>
       | None \<Rightarrow> get (st_items s) (Id u)) \<and>
    get (st_unreadable t) (Id u) = (case map_of unr u of Some rv \<Rightarrow> Some rv
       | None \<Rightarrow> if u \<in> set dels \<or> u \<in> fst ` set rows then None else get (st_unreadable s) (Id u)) \<and>
    st_account t = (case cursor of None \<Rightarrow> st_account s
       | Some (c, now) \<Rightarrow> map_option (\<lambda>a. a\<lparr>rw_server_cursor := c, rw_last_synced_at := Some now\<rparr>) (st_account s)) \<and>
    st_header t = st_header s \<and> st_settings t = st_settings s \<and> st_local t = st_local s \<and> st_cache t = st_cache s \<and>
    snd (apply_pull rows dels unr cursor s) =
      card (set dels \<inter> {u. has_key (st_items s) (Id u) \<or> u \<in> fst ` set rows})"
  unfolding t_def apply_pull_snd
  by (simp add: apply_pull_fst get_pulled_items [OF assms(1)] get_pulled_unreadable [OF assms(2)] pulled_account_def)

text \<open>
  Pruning the attachment cache never changes a copy, keeps only copies some item holds, and
  leaves at most the cap in bytes; when the held copies fit in the cap, all of them stay.
\<close>

theorem prune_attachment_cache_ok:
  fixes keep :: "uuid list" and cap :: nat
  assumes "store_wf s"
  defines "t \<equiv> st_cache (prune_attachment_cache keep cap s)"
  shows "cache_bytes t \<le> cap \<and> set t \<subseteq> {x \<in> set (st_cache s). held keep (fst x)} \<and>
    (cache_bytes (filter (\<lambda>x. held keep (fst x)) (st_cache s)) \<le> cap \<longrightarrow>
       t = filter (\<lambda>x. held keep (fst x)) (st_cache s))"
proof -
  have wf: "table_ok (st_cache s)" using assms(1) by (simp add: store_wf_def)
  have "set t \<subseteq> {x \<in> set (st_cache s). held keep (fst x)}"
    using kept_rows_subset [of keep cap "cache_rows s" 0] by (auto simp: t_def pruned_cache [OF wf])
  then show ?thesis using pruned_bytes [OF wf] pruned_all [OF wf] by (simp add: t_def)
qed

text \<open>
  The header written at creation is the header read back, and re-wrapping replaces exactly the
  key derivation, the wrapped key, the scheme and the revision; both need a revision that fits a
  signed 64-bit column, creation needs an empty header table and re-wrapping a full one.
\<close>

theorem header_roundtrip:
  assumes "st_header s = None" and "hd_format_version h < 2 ^ 32" and "int (hd_revision h) \<le> i64_max"
    and "int rv \<le> i64_max"
  shows "\<exists>t w. insert_header h b s = Inr t \<and> header t = Inr (Some h) \<and> settings_blob t = Some b \<and>
    insert_header h b t = Inl VaultExists \<and>
    update_key_wrap kdf wk AccountBound rv t = Inr w \<and>
    header w = Inr (Some (h\<lparr>hd_kdf := kdf, hd_wrapped_vault_key := wk, hd_revision := rv\<rparr>)) \<and>
    update_key_wrap kdf wk AccountBound rv s = Inl NoVault"
proof -
  obtain t where t: "insert_header h b s = Inr t" using assms by (simp add: insert_header_def revision_to_db_def)
  obtain w where w: "update_key_wrap kdf wk AccountBound rv t = Inr w"
    using t assms by (auto simp: insert_header_def update_key_wrap_def revision_to_db_def)
  have k: "hd_key_scheme h = AccountBound" by (cases "hd_key_scheme h") simp
  have n: "int (hd_format_version h) < 2 ^ 32" using assms(2) by simp
  have "header t = Inr (Some h)" and "settings_blob t = Some b" and "insert_header h b t = Inl VaultExists"
    using t assms k n
    by (auto simp: insert_header_def revision_to_db_def header_def settings_blob_def scheme_from_db_def)
  moreover have "header w = Inr (Some (h\<lparr>hd_kdf := kdf, hd_wrapped_vault_key := wk, hd_revision := rv\<rparr>))"
    using t w assms k n
    by (auto simp: insert_header_def update_key_wrap_def revision_to_db_def header_def scheme_from_db_def)
  moreover have "update_key_wrap kdf wk AccountBound rv s = Inl NoVault"
    using assms by (simp add: update_key_wrap_def revision_to_db_def)
  ultimately show ?thesis using t w by blast
qed

text \<open>
  The order pruning uses is newest first, but it does not stop at the first copy that does not
  fit: a large recent copy is dropped while an older small one stays.
\<close>

lemma prune_keeps_older_copy:
  "st_cache (prune_attachment_cache [1, 2] 5
     (empty_store\<lparr>st_cache := [(Id 1, replicate 6 0, 20), (Id 2, [0], 10)]\<rparr>)) = [(Id 2, [0], 10)]"
  by (simp add: prune_attachment_cache_def empty_store_def cache_rows_def held_def drop_key_def)

section \<open>Witnesses\<close>

definition toy_account :: account_record where
  "toy_account = \<lparr>ac_account_id = 9, ac_email = str ''a@b.c'', ac_server_url = [], ac_server_cursor = 0,
     ac_max_header_rev = 4, ac_last_synced_at = None\<rparr>"

definition toy_kdf :: kdf_params where
  "toy_kdf = \<lparr>memory_kib = 131072, iterations = 4, parallelism = 4, salt = replicate 16 1\<rparr>"

definition toy_header :: header_record where
  "toy_header = \<lparr>hd_format_version = 2, hd_vault_id = 5, hd_kdf = toy_kdf, hd_wrapped_vault_key = [1, 2],
     hd_created_at = 7, hd_key_scheme = AccountBound, hd_revision = 1\<rparr>"

lemma store_runs_keep_account_witness:
  "\<exists>s q. set_account toy_account empty_store = Inr s \<and> store_step\<^sup>*\<^sup>* s (raise_max_header_rev 3 s) \<and>
     st_account (raise_max_header_rev 3 s) = Some q \<and> rw_account_id q = Some 9 \<and> 4 \<le> rw_max_header_rev q"
proof -
  obtain s where s: "set_account toy_account empty_store = Inr s"
    by (simp add: set_account_def account_def empty_store_def)
  have r: "store_step\<^sup>*\<^sup>* s (raise_max_header_rev 3 s)" by (intro r_into_rtranclp store_step.intros)
  obtain r where r': "st_account s = Some r" "rw_account_id r = Some 9" "rw_max_header_rev r = 4"
    using s by (auto simp: set_account_Inr_iff empty_store_def toy_account_def)
  show ?thesis using store_runs_keep_account [OF r r'(1)] r r' s by auto
qed

lemma apply_pull_effect_witness:
  "get (st_items (fst (apply_pull [(3, [1], [2], 8)] [4] [] (Some (8, 99)) empty_store))) (Id 3) =
     Some \<lparr>it_overview = [1], it_details = [2], it_revision = 8\<rparr>"
  using apply_pull_effect [of "[(3, [1], [2], 8)]" "[]" "[4]" "Some (8, 99)" empty_store 3] by simp

lemma prune_attachment_cache_ok_witness:
  "cache_bytes (st_cache (prune_attachment_cache [1] 5
     (empty_store\<lparr>st_cache := [(Id 1, [1, 2], 20), (Id 2, [0], 10)]\<rparr>))) \<le> 5"
  using prune_attachment_cache_ok [of "empty_store\<lparr>st_cache := [(Id 1, [1, 2], 20), (Id 2, [0], 10)]\<rparr>" "[1]" 5]
  by (simp add: store_wf_def empty_store_def table_ok_def)

lemma header_roundtrip_witness:
  "\<exists>t. insert_header toy_header [9] empty_store = Inr t \<and> header t = Inr (Some toy_header)"
  using header_roundtrip [of empty_store toy_header 2 "[9]" toy_kdf "[3]"]
  by (auto simp: empty_store_def toy_header_def i64_max_def)

end
