(* ===== verification/Origin.thy ===== *)
theory Origin
  imports Model
begin

text \<open>
  Domain matching (\<^verbatim>\<open>havenkeys-core/src/origin.rs\<close>) and the table of equivalent domains
  (\<^verbatim>\<open>equivalent.rs\<close>): does a saved website rule apply to the page being filled?

  The URL parser and the Public Suffix List are code of other packages: fields of \<open>web_env\<close>. The
  list answers, for a host, its registrable domain and whether the suffix is a known one. The
  compiled-in table of equivalent domains is a field too, \<open>None\<close> where its JSON does not parse.
\<close>

section \<open>Model\<close>

datatype MatchStrength = ExactUrl | SameHost | SameSite | Equivalent

fun strength_rank :: "MatchStrength \<Rightarrow> nat" where
  "strength_rank ExactUrl = 0"
| "strength_rank SameHost = 1"
| "strength_rank SameSite = 2"
| "strength_rank Equivalent = 3"

lemma strength_rank_inject: "strength_rank a = strength_rank b \<longleftrightarrow> a = b"
  by (cases a; cases b) simp_all

instantiation MatchStrength :: linorder
begin

definition less_eq_MatchStrength :: "MatchStrength \<Rightarrow> MatchStrength \<Rightarrow> bool" where
  "less_eq_MatchStrength a b \<longleftrightarrow> strength_rank a \<le> strength_rank b"

definition less_MatchStrength :: "MatchStrength \<Rightarrow> MatchStrength \<Rightarrow> bool" where
  "less_MatchStrength a b \<longleftrightarrow> strength_rank a < strength_rank b"

instance
  by standard (auto simp: less_eq_MatchStrength_def less_MatchStrength_def strength_rank_inject)

end

record match_policy =
  allow_equivalent :: bool

definition DIRECT :: match_policy where
  "DIRECT = \<lparr>allow_equivalent = False\<rparr>"

record domain_group =
  group_note :: rstring
  group_domains :: "rstring list"

record web_env =
  parse_url :: url_parser
  psl_domain :: "rstring \<Rightarrow> (rstring \<times> bool) option"
  equivalent_table :: "domain_group list option"

text \<open>A page is the parsed URL itself; \<open>parse_page\<close> is the only way to make one.\<close>

definition parse_page :: "web_env \<Rightarrow> rstring \<Rightarrow> url option" where
  "parse_page env raw =
     (if MAX_URL_LEN * 4 < str_len raw then None
      else case parse_url env raw of
             None \<Rightarrow> None
           | Some u \<Rightarrow> if \<not> is_http u \<or> host u = None then None else Some u)"

definition host_key :: "url \<Rightarrow> rstring option" where
  "host_key u = (case host u of
     None \<Rightarrow> None
   | Some (Domain d) \<Rightarrow> Some (strip_dot d)
   | Some (Ipv4 ip) \<Rightarrow> Some ip
   | Some (Ipv6 ip) \<Rightarrow> Some ([91] @ ip @ [93]))"

definition title_and_origin :: "url \<Rightarrow> (rstring \<times> rstring) option" where
  "title_and_origin page = (case host_key page of
     None \<Rightarrow> None
   | Some h \<Rightarrow>
       let title = (case strip_prefix (str ''www.'') h of Some t \<Rightarrow> t | None \<Rightarrow> h) in
       if origin_ascii page \<noteq> str ''null'' then Some (title, origin_ascii page) else None)"

definition is_https :: "url \<Rightarrow> bool" where
  "is_https page \<longleftrightarrow> scheme page = str ''https''"

definition registrable_domain_of :: "web_env \<Rightarrow> rstring \<Rightarrow> rstring option" where
  "registrable_domain_of env h = (case psl_domain env h of
     None \<Rightarrow> None
   | Some (d, known) \<Rightarrow> if known then Some d else None)"

definition registrable_domain :: "web_env \<Rightarrow> url \<Rightarrow> rstring option" where
  "registrable_domain env u = (case host u of
     Some (Domain d) \<Rightarrow> registrable_domain_of env (strip_dot d)
   | _ \<Rightarrow> None)"

definition site_of :: "web_env \<Rightarrow> url \<Rightarrow> rstring option" where
  "site_of env page = (case host_key page of
     None \<Rightarrow> None
   | Some h \<Rightarrow> Some (case registrable_domain_of env h of Some d \<Rightarrow> d | None \<Rightarrow> h))"

definition same_site :: "web_env \<Rightarrow> url \<Rightarrow> url \<Rightarrow> bool" where
  "same_site env a b \<longleftrightarrow> (case (site_of env a, site_of env b) of (Some x, Some y) \<Rightarrow> x = y | _ \<Rightarrow> False)"

definition scheme_allowed :: "url \<Rightarrow> url \<Rightarrow> bool" where
  "scheme_allowed rule page \<longleftrightarrow>
     (scheme rule, scheme page) \<in> {(str ''https'', str ''https''), (str ''http'', str ''http''), (str ''http'', str ''https'')}"

definition port_matches :: "url \<Rightarrow> url \<Rightarrow> bool" where
  "port_matches rule page \<longleftrightarrow>
     (if port rule = None \<and> scheme rule = str ''http'' \<and> scheme page = str ''https'' then Some 443
      else port_or_known_default rule) = port_or_known_default page"

subsection \<open>Equivalent domains\<close>

fun add_domains ::
  "web_env \<Rightarrow> nat \<Rightarrow> rstring list \<Rightarrow> (rstring, nat) table \<Rightarrow> (rstring, nat) table option" where
  "add_domains env i [] ix = Some ix"
| "add_domains env i (d # ds) ix =
     (if \<not> is_ascii d \<or> d \<noteq> map to_ascii_lowercase d then None
      else if registrable_domain_of env d \<noteq> Some d then None
      else if has_key ix d then None
      else add_domains env i ds (put d i ix))"

fun build_groups ::
  "web_env \<Rightarrow> nat \<Rightarrow> domain_group list \<Rightarrow> (rstring, nat) table \<Rightarrow> (rstring, nat) table option" where
  "build_groups env i [] ix = Some ix"
| "build_groups env i (g # gs) ix =
     (if trim (group_note g) = [] \<or> length (group_domains g) < 2 then None
      else case add_domains env i (group_domains g) ix of
             None \<Rightarrow> None
           | Some ix' \<Rightarrow> build_groups env (i + 1) gs ix')"

definition build :: "web_env \<Rightarrow> (rstring, nat) table option" where
  "build env = (case equivalent_table env of None \<Rightarrow> None | Some gs \<Rightarrow> build_groups env 0 gs [])"

definition equivalent_index :: "web_env \<Rightarrow> (rstring, nat) table" where
  "equivalent_index env = (case build env of Some ix \<Rightarrow> ix | None \<Rightarrow> [])"

definition same_group :: "web_env \<Rightarrow> rstring \<Rightarrow> rstring \<Rightarrow> bool" where
  "same_group env a b \<longleftrightarrow> a \<noteq> b \<and>
     (case (get (equivalent_index env) a, get (equivalent_index env) b) of
        (Some x, Some y) \<Rightarrow> x = y | _ \<Rightarrow> False)"

subsection \<open>Rules\<close>

definition match_rule :: "web_env \<Rightarrow> url_rule \<Rightarrow> url \<Rightarrow> match_policy \<Rightarrow> MatchStrength option" where
  "match_rule env r page policy = (case parse_url env (rule_url r) of
     None \<Rightarrow> None
   | Some u \<Rightarrow>
     if \<not> is_http u then None
     else if \<not> scheme_allowed u page \<or> \<not> port_matches u page then None
     else case host_key u of None \<Rightarrow> None | Some rule_host \<Rightarrow>
     (case host_key page of None \<Rightarrow> None | Some page_host \<Rightarrow>
      let same_host = (rule_host = page_host) in
      (case match_type r of
         MExact \<Rightarrow> if same_host \<and> url_path u = url_path page then Some ExactUrl else None
       | MOrigin \<Rightarrow> if same_host then Some SameHost else None
       | MDomain \<Rightarrow>
           if same_host then Some SameHost
           else case registrable_domain env u of None \<Rightarrow> None | Some rule_site \<Rightarrow>
           (case registrable_domain env page of None \<Rightarrow> None | Some page_site \<Rightarrow>
            if rule_site = page_site then Some SameSite
            else if allow_equivalent policy \<and> same_group env rule_site page_site then Some Equivalent
            else None))))"

fun min_option :: "'a::linorder list \<Rightarrow> 'a option" where
  "min_option [] = None"
| "min_option (x # xs) = Some (case min_option xs of None \<Rightarrow> x | Some y \<Rightarrow> min x y)"

definition match_item :: "web_env \<Rightarrow> item_overview \<Rightarrow> url \<Rightarrow> match_policy \<Rightarrow> MatchStrength option" where
  "match_item env item page policy = min_option (somes (map (\<lambda>r. match_rule env r page policy) (ov_urls item)))"

section \<open>Properties\<close>

subsection \<open>The table of equivalent domains\<close>

lemma add_domains_get:
  "add_domains env i ds ix = Some ix' \<Longrightarrow>
   distinct ds \<and> (\<forall>d\<in>set ds. get ix d = None \<and> registrable_domain_of env d = Some d) \<and>
   (\<forall>d. get ix' d = (if d \<in> set ds then Some i else get ix d))"
proof (induction env i ds ix arbitrary: ix' rule: add_domains.induct)
  case (2 env i d ds ix)
  from 2(2) have r: "registrable_domain_of env d = Some d" "\<not> has_key ix d"
    "add_domains env i ds (put d i ix) = Some ix'" by (auto split: if_splits)
  have "\<not> (\<not> is_ascii d \<or> d \<noteq> map to_ascii_lowercase d)" using 2(2) by (auto split: if_splits)
  from 2(1) [OF this _ r(2) r(3)] r(1) have ih: "distinct ds \<and>
      (\<forall>x\<in>set ds. get (put d i ix) x = None \<and> registrable_domain_of env x = Some x) \<and>
      (\<forall>x. get ix' x = (if x \<in> set ds then Some i else get (put d i ix) x))" by simp
  then have "d \<notin> set ds" by auto
  with ih r(1,2) show ?case by (auto simp: has_key_def split: if_splits)
qed simp

lemma build_groups_get:
  "build_groups env i gs ix = Some ix' \<Longrightarrow>
   (\<forall>d. get ix d \<noteq> None \<longrightarrow> the (get ix d) < i) \<Longrightarrow>
   get ix' d = Some j \<longleftrightarrow>
     get ix d = Some j \<or> (i \<le> j \<and> j < i + length gs \<and> d \<in> set (group_domains (gs ! (j - i))))"
proof (induction env i gs ix arbitrary: ix' rule: build_groups.induct)
  case (2 env i g gs ix)
  from 2(2) obtain ix1 where a: "add_domains env i (group_domains g) ix = Some ix1"
    and b: "build_groups env (i + 1) gs ix1 = Some ix'"
    and c: "\<not> (trim (group_note g) = [] \<or> length (group_domains g) < 2)"
    by (auto split: if_splits option.splits)
  note g = add_domains_get [OF a]
  have "\<forall>d. get ix1 d \<noteq> None \<longrightarrow> the (get ix1 d) < i + 1"
    using g 2(3) by (metis less_add_one less_SucI Suc_eq_plus1 option.sel)
  from 2(1) [OF c a b this] have ih: "get ix' d = Some j \<longleftrightarrow>
      get ix1 d = Some j \<or> (i + 1 \<le> j \<and> j < i + 1 + length gs \<and> d \<in> set (group_domains (gs ! (j - (i + 1)))))" .
  show ?case
  proof (cases "j = i")
    case True
    have "get ix d \<noteq> Some i" using 2(3) by force
    then show ?thesis using ih g True by (cases "d \<in> set (group_domains g)") auto
  next
    case False
    have "get ix1 d = Some j \<longleftrightarrow> get ix d = Some j"
    proof (cases "d \<in> set (group_domains g)")
      case True
      then have "get ix1 d = Some i" "get ix d = None" using g by auto
      then show ?thesis using False by simp
    qed (use g in simp)
    moreover have "(g # gs) ! (j - i) = gs ! (j - (i + 1))" if "i < j"
      using that by (simp add: nth_Cons' )
    ultimately show ?thesis using ih False by (cases "i < j") auto
  qed
qed auto

lemma nth_ex: "(\<exists>j<length xs. P (xs ! j)) \<longleftrightarrow> (\<exists>x\<in>set xs. P x)"
  by (metis in_set_conv_nth)

text \<open>Two domains are equivalent exactly when one group of an accepted table lists both.\<close>

lemma same_group_iff:
  "same_group env a b \<longleftrightarrow> a \<noteq> b \<and> build env \<noteq> None \<and>
     (\<exists>gs. equivalent_table env = Some gs \<and> (\<exists>g\<in>set gs. a \<in> set (group_domains g) \<and> b \<in> set (group_domains g)))"
proof (cases "build env")
  case None
  then show ?thesis by (simp add: same_group_def equivalent_index_def)
next
  case (Some ix)
  then obtain gs where gs: "equivalent_table env = Some gs" "build_groups env 0 gs [] = Some ix"
    by (auto simp: build_def split: option.splits)
  have g: "get ix d = Some j \<longleftrightarrow> j < length gs \<and> d \<in> set (group_domains (gs ! j))" for d j
    using build_groups_get [OF gs(2), of d j] by simp
  have "same_group env a b \<longleftrightarrow> a \<noteq> b \<and> (\<exists>j. get ix a = Some j \<and> get ix b = Some j)"
    using Some by (auto simp: same_group_def equivalent_index_def split: option.splits)
  also have "\<dots> \<longleftrightarrow> a \<noteq> b \<and>
      (\<exists>j<length gs. a \<in> set (group_domains (gs ! j)) \<and> b \<in> set (group_domains (gs ! j)))"
    unfolding g by blast
  also have "(\<exists>j<length gs. a \<in> set (group_domains (gs ! j)) \<and> b \<in> set (group_domains (gs ! j))) \<longleftrightarrow>
      (\<exists>g\<in>set gs. a \<in> set (group_domains g) \<and> b \<in> set (group_domains g))"
    by (rule nth_ex)
  finally show ?thesis using Some gs(1) by simp
qed

lemma same_group_sym: "same_group env a b \<longleftrightarrow> same_group env b a"
  by (auto simp: same_group_iff)

subsection \<open>What a match means\<close>

lemma match_rule_Some:
  assumes "match_rule env r page policy = Some m"
  obtains u rh ph where "parse_url env (rule_url r) = Some u" and "is_http u" and "scheme_allowed u page"
    and "port_matches u page" and "host_key u = Some rh" and "host_key page = Some ph"
    and "case m of
           ExactUrl \<Rightarrow> match_type r = MExact \<and> rh = ph \<and> url_path u = url_path page
         | SameHost \<Rightarrow> match_type r \<noteq> MExact \<and> rh = ph
         | SameSite \<Rightarrow> match_type r = MDomain \<and> rh \<noteq> ph \<and> (\<exists>s. registrable_domain env u = Some s \<and>
              registrable_domain env page = Some s)
         | Equivalent \<Rightarrow> match_type r = MDomain \<and> rh \<noteq> ph \<and> allow_equivalent policy \<and> (\<exists>s t.
              registrable_domain env u = Some s \<and> registrable_domain env page = Some t \<and> same_group env s t)"
  using assms that
  by (auto simp: match_rule_def Let_def split: option.splits if_splits MatchType.splits MatchStrength.splits)

text \<open>What the port rule amounts to: an upgraded rule without a port means the https port.\<close>

lemma port_matches_same_scheme:
  "scheme u = scheme page \<Longrightarrow> port_matches u page \<longleftrightarrow> port_or_known_default u = port_or_known_default page"
  by (auto simp: port_matches_def str_def)

lemma set_somes: "x \<in> set (somes xs) \<longleftrightarrow> Some x \<in> set xs"
proof (induction xs)
  case (Cons y xs)
  then show ?case by (cases y) auto
qed simp

lemma min_option_Some:
  "min_option xs = Some m \<longleftrightarrow> m \<in> set xs \<and> (\<forall>x\<in>set xs. m \<le> x)"
proof (induction xs arbitrary: m)
  case (Cons x xs)
  show ?case
  proof (cases "min_option xs")
    case None
    then have "xs = []" by (cases xs) auto
    then show ?thesis by auto
  next
    case (Some y)
    then have y: "y \<in> set xs" "\<forall>x\<in>set xs. y \<le> x" using Cons.IH by auto
    then show ?thesis using Some by (auto simp: min_def intro: order_antisym dest: order_trans)
  qed
qed simp

lemma min_option_None [simp]: "min_option xs = None \<longleftrightarrow> xs = []"
  by (cases xs) auto

text \<open>
  The Public Suffix List returns a suffix of the host's labels: the host itself or the part after
  a dot.
\<close>

definition under :: "rstring \<Rightarrow> rstring \<Rightarrow> bool" where
  "under d h \<longleftrightarrow> h = d \<or> (\<exists>p. h = p @ [46] @ d)"

definition psl_ok :: "web_env \<Rightarrow> bool" where
  "psl_ok env \<longleftrightarrow> (\<forall>h d k. psl_domain env h = Some (d, k) \<longrightarrow> under d h)"

lemma registrable_under:
  assumes "psl_ok env" "registrable_domain env u = Some d" "host_key u = Some h"
  shows "under d h"
  using assms
  by (auto simp: registrable_domain_def registrable_domain_of_def host_key_def psl_ok_def
      split: option.splits host.splits if_splits; blast)

lemma registrable_domain_host:
  "registrable_domain env u = Some d \<Longrightarrow> host_key u = Some h \<Longrightarrow> registrable_domain_of env h = Some d"
  by (auto simp: registrable_domain_def host_key_def split: option.splits host.splits)

lemma scheme_allowed_http: "scheme_allowed u page \<Longrightarrow> is_http u \<and> is_http page \<and> (is_https u \<longrightarrow> is_https page)"
  by (auto simp: scheme_allowed_def is_http_def is_https_def str_def)

subsection \<open>Claims\<close>

text \<open>
  C40. Credentials stay on their site. A rule that matches a page has the same host as the page, or
  is a domain rule and the page's host is the rule's own registrable domain or a name below it, or
  is a domain rule, the caller allowed equivalent domains, and one group of the reviewed table
  lists the registrable domains of both hosts. In every case both are web addresses, an https rule
  never matches an http page, and the ports agree.
\<close>

theorem match_rule_safe:
  assumes "psl_ok env" and "match_rule env r page policy = Some m"
  shows "\<exists>u rh ph. parse_url env (rule_url r) = Some u \<and> host_key u = Some rh \<and> host_key page = Some ph \<and>
    is_http u \<and> is_http page \<and> (is_https u \<longrightarrow> is_https page) \<and> port_matches u page \<and>
    (rh = ph \<or>
     (match_type r = MDomain \<and> (\<exists>s. registrable_domain_of env rh = Some s \<and> under s rh \<and> under s ph)) \<or>
     (match_type r = MDomain \<and> allow_equivalent policy \<and> (\<exists>s t gs g. under s rh \<and> under t ph \<and>
        registrable_domain_of env rh = Some s \<and> registrable_domain_of env ph = Some t \<and>
        equivalent_table env = Some gs \<and> g \<in> set gs \<and> s \<in> set (group_domains g) \<and> t \<in> set (group_domains g))))"
proof -
  obtain u rh ph where pu: "parse_url env (rule_url r) = Some u" and "is_http u"
    and p: "scheme_allowed u page" "port_matches u page"
    and uh: "host_key u = Some rh" "host_key page = Some ph"
    and c: "case m of
           ExactUrl \<Rightarrow> match_type r = MExact \<and> rh = ph \<and> url_path u = url_path page
         | SameHost \<Rightarrow> match_type r \<noteq> MExact \<and> rh = ph
         | SameSite \<Rightarrow> match_type r = MDomain \<and> rh \<noteq> ph \<and> (\<exists>s. registrable_domain env u = Some s \<and>
              registrable_domain env page = Some s)
         | Equivalent \<Rightarrow> match_type r = MDomain \<and> rh \<noteq> ph \<and> allow_equivalent policy \<and> (\<exists>s t.
              registrable_domain env u = Some s \<and> registrable_domain env page = Some t \<and> same_group env s t)"
    by (rule match_rule_Some [OF assms(2)])
  note u = pu uh
  note h = scheme_allowed_http [OF p(1)]
  have un: "under s rh \<and> registrable_domain_of env rh = Some s" if "registrable_domain env u = Some s" for s
    using that registrable_under [OF assms(1)] registrable_domain_host u(2) by blast
  have pn: "under s ph \<and> registrable_domain_of env ph = Some s" if "registrable_domain env page = Some s" for s
    using that registrable_under [OF assms(1)] registrable_domain_host u(3) by blast
  show ?thesis
  proof (cases m)
    case SameSite
    then obtain s where "registrable_domain env u = Some s" "registrable_domain env page = Some s"
      "match_type r = MDomain" using c by auto
    then show ?thesis using u p(2) h un pn by blast
  next
    case Equivalent
    then obtain s t where "registrable_domain env u = Some s" "registrable_domain env page = Some t"
      "match_type r = MDomain" "allow_equivalent policy" "same_group env s t" using c by auto
    then show ?thesis using u p(2) h un pn unfolding same_group_iff by blast
  qed (use u p(2) h c in auto)
qed

text \<open>
  What the caller's policy can change: without equivalent domains a rule matches exactly as it
  does with them, except that a match through the table of equivalent domains disappears. Widening
  never strengthens, weakens or removes another match.
\<close>

theorem match_rule_widening:
  "match_rule env r page DIRECT =
     (if match_rule env r page policy = Some Equivalent then None else match_rule env r page policy)"
  by (auto simp: match_rule_def DIRECT_def Let_def split: option.splits MatchType.splits)

text \<open>
  An item's strength on a page is the strongest of its rules, and it has none exactly when no
  rule matches.
\<close>

theorem match_item_best:
  "match_item env item page policy = Some m \<longleftrightarrow>
     (\<exists>r\<in>set (ov_urls item). match_rule env r page policy = Some m) \<and>
     (\<nexists>r n. r \<in> set (ov_urls item) \<and> match_rule env r page policy = Some n \<and> n < m)"
proof -
  have s: "set (somes (map (\<lambda>r. match_rule env r page policy) (ov_urls item))) =
      {n. \<exists>r\<in>set (ov_urls item). match_rule env r page policy = Some n}"
    by (auto simp: set_somes image_iff eq_commute)
  show ?thesis unfolding match_item_def min_option_Some s by (auto simp: not_less)
qed

section \<open>Witnesses\<close>

text \<open>Two hosts, \<open>a.b\<close> and \<open>x.a.b\<close>, with the registrable domain \<open>a.b\<close>.\<close>

definition toy_url :: "rstring \<Rightarrow> url" where
  "toy_url h = \<lparr>scheme = str ''https'', host = Some (Domain h), host_str = Some h, port = None,
     port_or_known_default = Some 443, url_path = str ''/'', query_pairs = [], url_username = [],
     url_password = None, origin_ascii = str ''https://'' @ h, without_fragment = str ''https://'' @ h\<rparr>"

definition toy_web :: web_env where
  "toy_web = \<lparr>parse_url = (\<lambda>s. Some (toy_url s)),
     psl_domain = (\<lambda>h. if h \<in> {str ''a.b'', str ''x.a.b''} then Some (str ''a.b'', True) else None),
     equivalent_table = None\<rparr>"

lemma toy_psl_ok: "psl_ok toy_web"
proof -
  have "str ''x.a.b'' = str ''x'' @ [46] @ str ''a.b''" by (simp add: str_def)
  then show ?thesis by (auto simp: psl_ok_def toy_web_def under_def)
qed

lemma match_rule_safe_witness:
  "\<exists>u rh ph. parse_url toy_web (str ''a.b'') = Some u \<and> host_key u = Some rh \<and>
     host_key (toy_url (str ''x.a.b'')) = Some ph \<and> rh \<noteq> ph \<and> (\<exists>s. under s rh \<and> under s ph)"
proof -
  have m: "match_rule toy_web \<lparr>rule_url = str ''a.b'', match_type = MDomain\<rparr> (toy_url (str ''x.a.b'')) DIRECT = Some SameSite"
    by (simp add: match_rule_def toy_web_def toy_url_def is_http_def scheme_allowed_def port_matches_def
        host_key_def strip_dot_def registrable_domain_def registrable_domain_of_def str_def)
  show ?thesis
    using match_rule_safe [OF toy_psl_ok m]
    by (auto simp: DIRECT_def toy_web_def toy_url_def host_key_def strip_dot_def str_def)
qed

end
