(* ===== verification/Session.thy ===== *)
theory Session
  imports Items Store Origin
begin

text \<open>
  The vault service's lifecycle (\<^verbatim>\<open>havenkeys-core/src/vault.rs\<close>): the lock state machine, the key
  hierarchy (wrapping, unlocking, changing the master password, the biometric bundle), the settings
  and the reads that need an open session.

  A method that takes \<open>&mut self\<close> returns its result together with the service it leaves behind, on
  errors too. Random bytes, fresh identifiers and the clock are arguments. \<open>core_env\<close> collects the
  code of other packages; the JSON encodings are fields of it, a decoder answering \<open>None\<close> where the
  text does not parse.
\<close>

section \<open>Model\<close>

subsection \<open>Environment, states and sessions\<close>

record core_env =
  ce_keys :: key_env
  ce_items :: item_env
  ce_web :: web_env
  enc_overview :: "item_overview \<Rightarrow> bytes option"
  dec_overview :: "bytes \<Rightarrow> item_overview option"
  enc_details :: "item_details \<Rightarrow> bytes option"
  dec_details :: "bytes \<Rightarrow> item_details option"
  enc_settings :: "settings \<Rightarrow> bytes option"
  dec_settings :: "bytes \<Rightarrow> settings option"
  json_syntax :: "bytes \<Rightarrow> bool"

definition ce_crypto :: "core_env \<Rightarrow> crypto" where
  "ce_crypto env = ke_crypto (ce_keys env)"

definition ce_lower :: "core_env \<Rightarrow> rstring \<Rightarrow> rstring" where
  "ce_lower env = to_lowercase (ce_keys env)"

definition FORMAT_VERSION :: nat where "FORMAT_VERSION = 1"
definition MIN_MASTER_PASSWORD_CHARS :: nat where "MIN_MASTER_PASSWORD_CHARS = 10"
definition MAX_MASTER_PASSWORD_CHARS :: nat where "MAX_MASTER_PASSWORD_CHARS = 1024"
definition MAX_SEARCH_QUERY_CHARS :: nat where "MAX_SEARCH_QUERY_CHARS = 256"
definition UPGRADE_WINDOW_MS :: int where "UPGRADE_WINDOW_MS = 5 * 60000"
definition MAX_RECENT_FILLS :: nat where "MAX_RECENT_FILLS = 16"

datatype VaultState = VLocked | VUnlocking | VUnlocked | VLocking

record recent_fill =
  rf_item_id :: uuid
  rf_site :: rstring
  rf_filled_at_ms :: int

definition is_recent :: "recent_fill \<Rightarrow> int \<Rightarrow> bool" where
  "is_recent f now_ms \<longleftrightarrow> (let age = saturating_sub now_ms (rf_filled_at_ms f) in
     0 \<le> age \<and> age \<le> UPGRADE_WINDOW_MS)"

text \<open>Of the cached health report only the time it was computed is kept.\<close>

record session =
  ss_vault_id :: uuid
  ss_data_key :: bytes
  ss_vault_key :: bytes
  ss_identity_id :: uuid
  ss_overviews :: "(uuid, item_overview) table"
  ss_trash :: "(uuid, item_overview) table"
  ss_settings :: settings
  ss_damaged_items :: nat
  ss_damaged_settings :: bool
  ss_recent_fills :: "recent_fill list"
  ss_generation :: u64
  ss_health :: "int option"

definition place :: "item_overview \<Rightarrow> session \<Rightarrow> session" where
  "place ov s = (let u = ov_id ov in
     if ov_trashed_at ov \<noteq> None \<and> u \<noteq> ss_identity_id s
     then s\<lparr>ss_overviews := drop_key u (ss_overviews s), ss_trash := put u ov (ss_trash s)\<rparr>
     else s\<lparr>ss_trash := drop_key u (ss_trash s), ss_overviews := put u ov (ss_overviews s)\<rparr>)"

definition forget :: "uuid \<Rightarrow> session \<Rightarrow> session" where
  "forget u s = s\<lparr>ss_overviews := drop_key u (ss_overviews s), ss_trash := drop_key u (ss_trash s)\<rparr>"

record service =
  vs_store :: store
  vs_state :: VaultState
  vs_session :: "session option"
  vs_epoch :: u64

definition new_service :: "store \<Rightarrow> service" where
  "new_service st = \<lparr>vs_store = st, vs_state = VLocked, vs_session = None, vs_epoch = 0\<rparr>"

record vault_status =
  vst_state :: VaultState
  vst_vault_exists :: bool
  vst_damaged_items :: nat
  vst_unreadable_items :: nat
  vst_damaged_settings :: bool

definition status :: "service \<Rightarrow> vault_status result" where
  "status s = and_then (header (vs_store s)) (\<lambda>h.
     Inr \<lparr>vst_state = vs_state s, vst_vault_exists = (h \<noteq> None),
       vst_damaged_items = (case vs_session s of Some x \<Rightarrow> ss_damaged_items x | None \<Rightarrow> 0),
       vst_unreadable_items = unreadable_count (vs_store s),
       vst_damaged_settings = (case vs_session s of Some x \<Rightarrow> ss_damaged_settings x | None \<Rightarrow> False)\<rparr>)"

definition is_unlocked :: "service \<Rightarrow> bool" where
  "is_unlocked s \<longleftrightarrow> vs_state s = VUnlocked \<and> vs_session s \<noteq> None"

definition session_of :: "service \<Rightarrow> session result" where
  "session_of s = (case (vs_state s, vs_session s) of (VUnlocked, Some x) \<Rightarrow> Inr x | _ \<Rightarrow> Inl Locked)"

definition with_session :: "service \<Rightarrow> (session \<Rightarrow> session) \<Rightarrow> service" where
  "with_session s f = s\<lparr>vs_session := map_option f (vs_session s)\<rparr>"

subsection \<open>Keys\<close>

definition check_new_master_password :: "rstring \<Rightarrow> unit result" where
  "check_new_master_password p =
     (if length p < MIN_MASTER_PASSWORD_CHARS
      then Inl (InvalidInput ''master password must be at least 10 characters'')
      else if MAX_MASTER_PASSWORD_CHARS < length p then Inl (InvalidInput ''master password is too long'')
      else Inr ())"

definition seal_json ::
  "core_env \<Rightarrow> bytes option \<Rightarrow> bytes \<Rightarrow> blob_context \<Rightarrow> ('a \<Rightarrow> bytes option) \<Rightarrow> 'a \<Rightarrow> bytes result" where
  "seal_json env rnd key ctx enc v =
     and_then (ok_or Encryption (enc v)) (\<lambda>p. seal (ce_crypto env) rnd key ctx p)"

definition open_json ::
  "core_env \<Rightarrow> bytes \<Rightarrow> blob_context \<Rightarrow> (bytes \<Rightarrow> 'a option) \<Rightarrow> bytes \<Rightarrow> 'a result" where
  "open_json env key ctx de b =
     and_then (open_blob (ce_crypto env) key ctx b) (\<lambda>p. ok_or Corrupted (de p))"

definition wrap_vault_key :: "core_env \<Rightarrow> bytes option \<Rightarrow> bytes \<Rightarrow> uuid \<Rightarrow> bytes \<Rightarrow> bytes result" where
  "wrap_vault_key env rnd kek vid vault_key = seal (ce_crypto env) rnd kek (vault_ctx PVaultKey vid) vault_key"

definition unwrap_vault_key :: "core_env \<Rightarrow> bytes \<Rightarrow> uuid \<Rightarrow> bytes \<Rightarrow> bytes result" where
  "unwrap_vault_key env kek vid wrapped =
     and_then (map_err (\<lambda>_. UnlockFailed) (open_blob (ce_crypto env) kek (vault_ctx PVaultKey vid) wrapped)) (\<lambda>p.
     and_then (ensure (length p = KEY_LEN) Corrupted) (\<lambda>_. Inr p))"

definition bad_unlock_password :: "rstring \<Rightarrow> bool" where
  "bad_unlock_password p \<longleftrightarrow> p = [] \<or> MAX_MASTER_PASSWORD_CHARS < length p"

record unlock_ticket =
  ut_vault_id :: uuid
  ut_kdf :: kdf_params
  ut_key_scheme :: KeyScheme
  ut_epoch :: u64

definition derive_session_for_account ::
  "core_env \<Rightarrow> unlock_ticket \<Rightarrow> rstring \<Rightarrow> bytes \<Rightarrow> account_ref \<Rightarrow> (bytes \<times> bytes) result" where
  "derive_session_for_account env t password secret_key acct =
     and_then (ensure (\<not> bad_unlock_password password) UnlockFailed) (\<lambda>_.
     and_then (derive_master_key (ce_keys env) password (ut_kdf t)) (\<lambda>m.
     and_then (derive_kek_v3 (ce_keys env) m secret_key acct) (\<lambda>kek.
     and_then (derive_auth_key_from_master (ce_keys env) m secret_key acct) (\<lambda>auth.
     Inr (kek, auth)))))"

definition derive_for_account ::
  "core_env \<Rightarrow> unlock_ticket \<Rightarrow> rstring \<Rightarrow> bytes \<Rightarrow> account_ref \<Rightarrow> bytes result" where
  "derive_for_account env t password secret_key acct =
     and_then (derive_session_for_account env t password secret_key acct) (\<lambda>p. Inr (fst p))"

record prepared_vault =
  pv_header :: header_record
  pv_vault_key :: bytes

record account_vault =
  av_prepared :: prepared_vault
  av_secret_key :: bytes
  av_auth_key :: bytes

text \<open>\<open>rnd_sk\<close>, \<open>rnd_vk\<close>, \<open>nonce\<close>: random bytes; \<open>vid\<close>: the fresh vault identifier.\<close>

definition prepare_new_account_vault ::
  "core_env \<Rightarrow> bytes option \<Rightarrow> uuid \<Rightarrow> bytes option \<Rightarrow> bytes option \<Rightarrow>
   rstring \<Rightarrow> account_ref \<Rightarrow> kdf_params \<Rightarrow> int \<Rightarrow> account_vault result" where
  "prepare_new_account_vault env rnd_sk vid rnd_vk rnd password acct kdf now_ms =
     and_then (check_new_master_password password) (\<lambda>_.
     and_then (ok_or Rng rnd_sk) (\<lambda>sk.
     and_then (derive_master_key (ce_keys env) password kdf) (\<lambda>m.
     and_then (derive_kek_v3 (ce_keys env) m sk acct) (\<lambda>kek.
     and_then (derive_auth_key_from_master (ce_keys env) m sk acct) (\<lambda>auth.
     and_then (ok_or Rng rnd_vk) (\<lambda>vk.
     and_then (wrap_vault_key env rnd kek vid vk) (\<lambda>wrapped.
     Inr \<lparr>av_prepared = \<lparr>pv_header = \<lparr>hd_format_version = FORMAT_VERSION, hd_vault_id = vid, hd_kdf = kdf,
            hd_wrapped_vault_key = wrapped, hd_created_at = now_ms, hd_key_scheme = AccountBound, hd_revision = 0\<rparr>,
            pv_vault_key = vk\<rparr>,
          av_secret_key = sk, av_auth_key = auth\<rparr>)))))))"

definition derive_auth_key ::
  "core_env \<Rightarrow> rstring \<Rightarrow> bytes \<Rightarrow> kdf_params \<Rightarrow> account_ref \<Rightarrow> bytes result" where
  "derive_auth_key env password secret_key kdf acct =
     and_then (derive_master_key (ce_keys env) password kdf) (\<lambda>m.
     derive_auth_key_from_master (ce_keys env) m secret_key acct)"

subsection \<open>Opening a session\<close>

definition open_overview :: "core_env \<Rightarrow> bytes \<Rightarrow> uuid \<Rightarrow> uuid \<times> bytes \<Rightarrow> item_overview result" where
  "open_overview env data_key vid row =
     and_then (open_json env data_key (item_ctx PItemOverview vid (fst row)) (dec_overview env) (snd row)) (\<lambda>ov.
     and_then (ensure (ov_id ov = fst row) Corrupted) (\<lambda>_. Inr ov))"

definition open_row ::
  "core_env \<Rightarrow> bytes \<Rightarrow> uuid \<Rightarrow> uuid \<Rightarrow> (uuid \<times> bytes) result \<Rightarrow>
   (uuid, item_overview) table \<times> (uuid, item_overview) table \<times> nat \<Rightarrow>
   (uuid, item_overview) table \<times> (uuid, item_overview) table \<times> nat" where
  "open_row env data_key vid identity_id row acc = (case acc of (ovs, trash, damaged) \<Rightarrow>
     (case and_then row (open_overview env data_key vid) of
        Inr ov \<Rightarrow> if ov_trashed_at ov \<noteq> None \<and> ov_id ov \<noteq> identity_id
                then (ovs, put (ov_id ov) ov trash, damaged)
                else (put (ov_id ov) ov ovs, trash, damaged)
      | Inl _ \<Rightarrow> (ovs, trash, damaged + 1)))"

definition opened_settings :: "core_env \<Rightarrow> bytes \<Rightarrow> uuid \<Rightarrow> store \<Rightarrow> settings option" where
  "opened_settings env data_key vid st = (case settings_blob st of
     None \<Rightarrow> None
   | Some b \<Rightarrow> (case open_json env data_key (vault_ctx PSettings vid) (dec_settings env) b of
       Inl _ \<Rightarrow> None
     | Inr x \<Rightarrow> if is_ok (validate_settings x) then Some x else None))"

definition open_session :: "core_env \<Rightarrow> store \<Rightarrow> uuid \<Rightarrow> bytes \<Rightarrow> session result" where
  "open_session env st vid vault_key =
     and_then (derive_data_key (ce_keys env) vault_key) (\<lambda>dk.
     let opened = opened_settings env dk vid st in
     and_then (derive_identity_item_id (ce_keys env) vault_key) (\<lambda>iid.
     let (ovs, trash, damaged) = fold (open_row env dk vid iid) (item_overviews st) ([], [], 0) in
     Inr \<lparr>ss_vault_id = vid, ss_data_key = dk, ss_vault_key = vault_key, ss_identity_id = iid,
        ss_overviews = ovs, ss_trash = trash,
        ss_settings = (case opened of Some x \<Rightarrow> x | None \<Rightarrow> restrictive_settings),
        ss_damaged_items = damaged, ss_damaged_settings = (opened = None), ss_recent_fills = [],
        ss_generation = 0, ss_health = None\<rparr>))"

subsection \<open>Lifecycle\<close>

definition create_account_vault ::
  "core_env \<Rightarrow> bytes option \<Rightarrow> prepared_vault \<Rightarrow> account_record \<Rightarrow> service \<Rightarrow> unit result \<times> service" where
  "create_account_vault env rnd p acct s =
     (if hd_key_scheme (pv_header p) \<noteq> AccountBound
      then (Inl (InvalidInput ''this vault does not belong to an account''), s)
      else if vs_state s \<noteq> VLocked then (Inl Busy, s)
      else case header (vs_store s) of
        Inl e \<Rightarrow> (Inl e, s)
      | Inr (Some _) \<Rightarrow> (Inl VaultExists, s)
      | Inr None \<Rightarrow>
        (case set_account acct (vs_store s) of
           Inl e \<Rightarrow> (Inl e, s)
         | Inr st \<Rightarrow>
           (let vid = hd_vault_id (pv_header p); s1 = s\<lparr>vs_store := st\<rparr> in
            case and_then (derive_data_key (ce_keys env) (pv_vault_key p)) (\<lambda>dk.
                 and_then (derive_identity_item_id (ce_keys env) (pv_vault_key p)) (\<lambda>iid.
                 and_then (seal_json env rnd dk (vault_ctx PSettings vid) (enc_settings env) default_settings) (\<lambda>b.
                 and_then (insert_header (pv_header p) b st) (\<lambda>st2. Inr (dk, iid, st2))))) of
              Inl e \<Rightarrow> (Inl e, s1)
            | Inr (dk, iid, st2) \<Rightarrow>
                (Inr (), s1\<lparr>vs_store := st2, vs_state := VUnlocked, vs_session := Some
                   \<lparr>ss_vault_id = vid, ss_data_key = dk, ss_vault_key = pv_vault_key p, ss_identity_id = iid,
                    ss_overviews = [], ss_trash = [], ss_settings = default_settings, ss_damaged_items = 0,
                    ss_damaged_settings = False, ss_recent_fills = [], ss_generation = 0, ss_health = None\<rparr>\<rparr>))))"

definition require_header :: "store \<Rightarrow> header_record result" where
  "require_header st = and_then (header st) (ok_or NoVault)"

definition require_account :: "store \<Rightarrow> account_record result" where
  "require_account st =
     and_then (account st) (ok_or (InvalidInput ''this vault is not linked to an account''))"

definition check_locked :: "service \<Rightarrow> unit result" where
  "check_locked s = (case vs_state s of
     VLocked \<Rightarrow> Inr ()
   | VUnlocked \<Rightarrow> Inl (InvalidInput ''vault is already unlocked'')
   | _ \<Rightarrow> Inl Busy)"

definition begin_unlock :: "service \<Rightarrow> unlock_ticket result \<times> service" where
  "begin_unlock s =
     (case and_then (check_locked s) (\<lambda>_.
           and_then (require_header (vs_store s)) (\<lambda>h.
           and_then (ensure (hd_format_version h = FORMAT_VERSION) UnsupportedVersion) (\<lambda>_.
           and_then (validate_kdf (hd_kdf h)) (\<lambda>_. Inr h)))) of
        Inl e \<Rightarrow> (Inl e, s)
      | Inr h \<Rightarrow> (Inr \<lparr>ut_vault_id = hd_vault_id h, ut_kdf = hd_kdf h, ut_key_scheme = hd_key_scheme h,
            ut_epoch = vs_epoch s\<rparr>, s\<lparr>vs_state := VUnlocking\<rparr>))"

definition complete_unlock ::
  "core_env \<Rightarrow> store \<Rightarrow> unlock_ticket \<Rightarrow> bytes result \<Rightarrow> session result" where
  "complete_unlock env st t key =
     and_then key (\<lambda>kek.
     and_then (require_header st) (\<lambda>h.
     and_then (ensure (hd_vault_id h = ut_vault_id t \<and> hd_kdf h = ut_kdf t \<and> hd_key_scheme h = ut_key_scheme t)
        UnlockFailed) (\<lambda>_.
     and_then (unwrap_vault_key env kek (hd_vault_id h) (hd_wrapped_vault_key h)) (\<lambda>vk.
     open_session env st (hd_vault_id h) vk))))"

definition finish_unlock ::
  "core_env \<Rightarrow> unlock_ticket \<Rightarrow> bytes result \<Rightarrow> service \<Rightarrow> unit result \<times> service" where
  "finish_unlock env t key s =
     (if vs_state s \<noteq> VUnlocking \<or> ut_epoch t \<noteq> vs_epoch s then (Inl Locked, s)
      else case complete_unlock env (vs_store s) t key of
        Inr x \<Rightarrow> (Inr (), s\<lparr>vs_session := Some x, vs_state := VUnlocked\<rparr>)
      | Inl e \<Rightarrow> (Inl e, s\<lparr>vs_state := VLocked\<rparr>))"

definition unlock_for_account ::
  "core_env \<Rightarrow> rstring \<Rightarrow> bytes \<Rightarrow> account_ref \<Rightarrow> service \<Rightarrow> unit result \<times> service" where
  "unlock_for_account env password secret_key acct s =
     (case begin_unlock s of
        (Inl e, s1) \<Rightarrow> (Inl e, s1)
      | (Inr t, s1) \<Rightarrow> finish_unlock env t (derive_for_account env t password secret_key acct) s1)"

definition unlock_with_vault_key :: "core_env \<Rightarrow> bytes \<Rightarrow> service \<Rightarrow> unit result \<times> service" where
  "unlock_with_vault_key env vault_key s =
     (case and_then (check_locked s) (\<lambda>_.
           and_then (require_header (vs_store s)) (\<lambda>h.
           and_then (ensure (hd_format_version h = FORMAT_VERSION) UnsupportedVersion) (\<lambda>_.
           and_then (derive_data_key (ce_keys env) vault_key) (\<lambda>dk.
           and_then (ok_or BundleRefused (settings_blob (vs_store s))) (\<lambda>b.
           and_then (map_err (\<lambda>_. BundleRefused)
               (open_json env dk (vault_ctx PSettings (hd_vault_id h)) (\<lambda>p. if json_syntax env p then Some () else None) b)) (\<lambda>_.
           open_session env (vs_store s) (hd_vault_id h) vault_key)))))) of
        Inl e \<Rightarrow> (Inl e, s)
      | Inr x \<Rightarrow> (Inr (), s\<lparr>vs_session := Some x, vs_state := VUnlocked\<rparr>))"

text \<open>\<open>x as i64\<close> for a \<open>u64\<close>.\<close>

definition as_i64 :: "nat \<Rightarrow> int" where
  "as_i64 n = (if int n \<le> i64_max then int n else int n - 2 ^ 64)"

definition adopt_and_unlock :: "core_env \<Rightarrow> prepared_vault \<Rightarrow> u64 \<Rightarrow> service \<Rightarrow> unit result \<times> service" where
  "adopt_and_unlock env p epoch s =
     (if vs_state s \<noteq> VLocked then (Inl Busy, s)
      else if epoch \<noteq> vs_epoch s then (Inl Locked, s)
      else let h = pv_header p in
        case and_then (require_header (vs_store s)) (\<lambda>local.
             and_then (require_account (vs_store s)) (\<lambda>a.
             let fl = max (ac_max_header_rev a) (as_i64 (hd_revision local)) in
             and_then (ensure (hd_vault_id h = hd_vault_id local \<and> hd_key_scheme h = AccountBound \<and>
                hd_format_version h = FORMAT_VERSION) UnlockFailed) (\<lambda>_.
             and_then (ensure (fl < as_i64 (hd_revision h)) UnlockFailed) (\<lambda>_.
             update_key_wrap (hd_kdf h) (hd_wrapped_vault_key h) (hd_key_scheme h) (hd_revision h) (vs_store s))))) of
          Inl e \<Rightarrow> (Inl e, s)
        | Inr st \<Rightarrow>
            (let s1 = s\<lparr>vs_store := raise_max_header_rev (as_i64 (hd_revision h)) st\<rparr> in
             case open_session env (vs_store s1) (hd_vault_id h) (pv_vault_key p) of
               Inl e \<Rightarrow> (Inl e, s1)
             | Inr x \<Rightarrow> (Inr (), s1\<lparr>vs_session := Some x, vs_state := VUnlocked\<rparr>)))"

text \<open>The state passes through \<open>VLocking\<close> inside the call and is \<open>VLocked\<close> when it returns.\<close>

definition lock :: "service \<Rightarrow> bool \<times> service" where
  "lock s = (vs_state s \<noteq> VLocked,
     s\<lparr>vs_state := VLocked, vs_session := None, vs_epoch := vs_epoch s + 1\<rparr>)"

definition replace_store :: "store \<Rightarrow> service \<Rightarrow> store \<times> service" where
  "replace_store st s = (vs_store s, (snd (lock s))\<lparr>vs_store := st\<rparr>)"

subsection \<open>Changing the master password, checking it, the biometric bundle\<close>

record rekey_ticket =
  rt_header :: header_record
  rt_epoch :: u64
  rt_account :: "account_ref option"

record rekeyed =
  rk_kdf :: kdf_params
  rk_wrapped_vault_key :: bytes
  rk_key_scheme :: KeyScheme
  rk_current_auth_key :: bytes
  rk_new_auth_key :: bytes

definition begin_rekey :: "core_env \<Rightarrow> service \<Rightarrow> rekey_ticket result" where
  "begin_rekey env s =
     and_then (session_of s) (\<lambda>_.
     and_then (require_header (vs_store s)) (\<lambda>h.
     and_then (account (vs_store s)) (\<lambda>a.
     and_then (case a of None \<Rightarrow> Inr None | Some x \<Rightarrow> and_then (account_to_ref (ce_keys env) x) (\<lambda>r. Inr (Some r))) (\<lambda>r.
     Inr \<lparr>rt_header = h, rt_epoch = vs_epoch s, rt_account = r\<rparr>))))"

definition rekey_derive ::
  "core_env \<Rightarrow> bytes option \<Rightarrow> rekey_ticket \<Rightarrow> rstring \<Rightarrow> rstring \<Rightarrow> kdf_params \<Rightarrow> bytes \<Rightarrow> account_ref \<Rightarrow> rekeyed result" where
  "rekey_derive env rnd t current new_pw new_kdf secret_key acct =
     and_then (check_new_master_password new_pw) (\<lambda>_.
     let h = rt_header t in
     and_then (derive_master_key (ce_keys env) current (hd_kdf h)) (\<lambda>cm.
     and_then (derive_kek_v3 (ce_keys env) cm secret_key acct) (\<lambda>ckek.
     and_then (derive_auth_key_from_master (ce_keys env) cm secret_key acct) (\<lambda>cauth.
     and_then (unwrap_vault_key env ckek (hd_vault_id h) (hd_wrapped_vault_key h)) (\<lambda>vk.
     and_then (derive_master_key (ce_keys env) new_pw new_kdf) (\<lambda>nm.
     and_then (derive_kek_v3 (ce_keys env) nm secret_key acct) (\<lambda>nkek.
     and_then (derive_auth_key_from_master (ce_keys env) nm secret_key acct) (\<lambda>nauth.
     and_then (wrap_vault_key env rnd nkek (hd_vault_id h) vk) (\<lambda>w.
     Inr \<lparr>rk_kdf = new_kdf, rk_wrapped_vault_key = w, rk_key_scheme = AccountBound,
        rk_current_auth_key = cauth, rk_new_auth_key = nauth\<rparr>)))))))))"

definition u64_saturating_succ :: "nat \<Rightarrow> nat" where
  "u64_saturating_succ n = min (n + 1) (2 ^ 64 - 1)"

text \<open>
  The two statements that record a new key wrap are not one transaction: the first argument says
  which of them fails, if any, and when it is the second the new wrap is on disk already.
\<close>

definition commit_rekey_on ::
  "nat option \<Rightarrow> rekey_ticket \<Rightarrow> rekeyed result \<Rightarrow> nat \<Rightarrow> service \<Rightarrow> unit result \<times> service" where
  "commit_rekey_on fails t rk revision s =
     (case and_then (session_of s) (\<lambda>_.
           and_then (ensure (rt_epoch t = vs_epoch s) Locked) (\<lambda>_.
           and_then rk (\<lambda>r.
           and_then (require_header (vs_store s)) (\<lambda>cur.
           let h = rt_header t in
           and_then (ensure (hd_vault_id cur = hd_vault_id h \<and> hd_kdf cur = hd_kdf h \<and>
              hd_wrapped_vault_key cur = hd_wrapped_vault_key h \<and> hd_key_scheme cur = hd_key_scheme h \<and>
              hd_revision cur = hd_revision h) Busy) (\<lambda>_.
           and_then (require_account (vs_store s)) (\<lambda>_.
           and_then (ensure (revision = u64_saturating_succ (hd_revision cur)) Corrupted) (\<lambda>_.
           update_key_wrap (rk_kdf r) (rk_wrapped_vault_key r) (rk_key_scheme r) revision (vs_store s)))))))) of
        Inl e \<Rightarrow> (Inl e, s)
      | Inr st \<Rightarrow>
          if fails = Some 1 then (Inl Storage, s)
          else if fails = Some 2 then (Inl Storage, s\<lparr>vs_store := st\<rparr>)
          else (Inr (), s\<lparr>vs_store := raise_max_header_rev (as_i64 revision) st\<rparr>))"

definition commit_rekey ::
  "rekey_ticket \<Rightarrow> rekeyed result \<Rightarrow> nat \<Rightarrow> service \<Rightarrow> unit result \<times> service" where
  "commit_rekey = commit_rekey_on None"

definition change_master_password_for_account ::
  "core_env \<Rightarrow> bytes option \<Rightarrow> rstring \<Rightarrow> rstring \<Rightarrow> kdf_params \<Rightarrow> bytes \<Rightarrow> service \<Rightarrow> unit result \<times> service" where
  "change_master_password_for_account env rnd current new_pw new_kdf secret_key s =
     (case begin_rekey env s of
        Inl e \<Rightarrow> (Inl e, s)
      | Inr t \<Rightarrow>
        (case rt_account t of
           None \<Rightarrow> (Inl (InvalidInput ''this vault is not linked to an account''), s)
         | Some a \<Rightarrow> commit_rekey t (rekey_derive env rnd t current new_pw new_kdf secret_key a)
             (u64_saturating_succ (hd_revision (rt_header t))) s))"

record password_check =
  pc_header :: header_record
  pc_account :: account_ref

definition begin_password_check :: "core_env \<Rightarrow> service \<Rightarrow> password_check result" where
  "begin_password_check env s =
     and_then (session_of s) (\<lambda>_.
     and_then (require_header (vs_store s)) (\<lambda>h.
     and_then (require_account (vs_store s)) (\<lambda>a.
     and_then (account_to_ref (ce_keys env) a) (\<lambda>r.
     Inr \<lparr>pc_header = h, pc_account = r\<rparr>))))"

definition verify_password :: "core_env \<Rightarrow> password_check \<Rightarrow> rstring \<Rightarrow> bytes \<Rightarrow> unit result" where
  "verify_password env c password secret_key =
     and_then (ensure (\<not> bad_unlock_password password) UnlockFailed) (\<lambda>_.
     and_then (derive_master_key (ce_keys env) password (hd_kdf (pc_header c))) (\<lambda>m.
     and_then (derive_kek_v3 (ce_keys env) m secret_key (pc_account c)) (\<lambda>kek.
     map_err (\<lambda>_. UnlockFailed)
       (and_then (unwrap_vault_key env kek (hd_vault_id (pc_header c)) (hd_wrapped_vault_key (pc_header c))) (\<lambda>_. Inr ())))))"

record bundle_ticket =
  bt_vault_id :: uuid
  bt_kdf :: kdf_params
  bt_wrapped_vault_key :: bytes
  bt_epoch :: u64

definition begin_bundle :: "service \<Rightarrow> bundle_ticket result" where
  "begin_bundle s =
     and_then (session_of s) (\<lambda>_.
     and_then (require_header (vs_store s)) (\<lambda>h.
     Inr \<lparr>bt_vault_id = hd_vault_id h, bt_kdf = hd_kdf h, bt_wrapped_vault_key = hd_wrapped_vault_key h,
       bt_epoch = vs_epoch s\<rparr>))"

definition derive_bundle ::
  "core_env \<Rightarrow> bundle_ticket \<Rightarrow> rstring \<Rightarrow> bytes \<Rightarrow> account_ref \<Rightarrow> int \<Rightarrow> int \<Rightarrow> unlock_bundle result" where
  "derive_bundle env t password secret_key acct enrolled boots =
     and_then (ensure (0 \<le> boots) BundleRefused) (\<lambda>_.
     and_then (ensure (\<not> bad_unlock_password password) UnlockFailed) (\<lambda>_.
     and_then (derive_master_key (ce_keys env) password (bt_kdf t)) (\<lambda>m.
     and_then (derive_kek_v3 (ce_keys env) m secret_key acct) (\<lambda>kek.
     and_then (map_err (\<lambda>_. UnlockFailed) (unwrap_vault_key env kek (bt_vault_id t) (bt_wrapped_vault_key t))) (\<lambda>vk.
     and_then (derive_auth_key_from_master (ce_keys env) m secret_key acct) (\<lambda>auth.
     Inr \<lparr>ub_vault_key = vk, ub_auth_key = auth, enrolled_at_ms = enrolled, boot_count = boots\<rparr>))))))"

subsection \<open>Settings\<close>

definition vault_settings :: "service \<Rightarrow> settings result" where
  "vault_settings s = and_then (session_of s) (\<lambda>x. Inr (ss_settings x))"

definition update_settings :: "core_env \<Rightarrow> bytes option \<Rightarrow> settings \<Rightarrow> service \<Rightarrow> unit result \<times> service" where
  "update_settings env rnd v s =
     (case and_then (validate_settings v) (\<lambda>_.
           and_then (session_of s) (\<lambda>x.
           seal_json env rnd (ss_data_key x) (vault_ctx PSettings (ss_vault_id x)) (enc_settings env) v)) of
        Inl e \<Rightarrow> (Inl e, s)
      | Inr b \<Rightarrow> (Inr (), with_session (s\<lparr>vs_store := write_settings b (vs_store s)\<rparr>)
            (\<lambda>x. x\<lparr>ss_settings := v, ss_damaged_settings := False\<rparr>)))"

subsection \<open>Reading\<close>

definition by_title :: "core_env \<Rightarrow> item_overview \<Rightarrow> rstring \<times> uuid" where
  "by_title env i = (ce_lower env (ov_title i), ov_id i)"

definition list_items :: "core_env \<Rightarrow> service \<Rightarrow> item_overview list result" where
  "list_items env s = and_then (session_of s) (\<lambda>x. Inr (sort_key (by_title env) (vals (ss_overviews x))))"

definition query_matches :: "core_env \<Rightarrow> rstring \<Rightarrow> item_overview \<Rightarrow> bool" where
  "query_matches env q i \<longleftrightarrow>
     (let hit = (\<lambda>v. contains q (ce_lower env v)); opt = (\<lambda>v. case v of Some x \<Rightarrow> hit x | None \<Rightarrow> False) in
      hit (ov_title i) \<or> opt (ov_username i) \<or> list_ex hit (ov_tags i) \<or>
      list_ex (\<lambda>r. case parse_url (ce_web env) (rule_url r) of
         Some u \<Rightarrow> (case host_str u of Some h \<Rightarrow> contains q h | None \<Rightarrow> False) | None \<Rightarrow> False) (ov_urls i) \<or>
      (case ov_sign_in_with i of None \<Rightarrow> False
       | Some w \<Rightarrow> hit (str (provider_name (provider w))) \<or> opt (siw_account w)) \<or>
      (case ov_bank i of None \<Rightarrow> False | Some b \<Rightarrow> opt (bs_bank b) \<or> opt (bs_branch b)) \<or>
      (all_digits q \<and>
       (case ov_card i of None \<Rightarrow> False
        | Some c \<Rightarrow> (case cs_last4 c of Some l \<Rightarrow> contains q l | None \<Rightarrow> False))))"

definition search :: "core_env \<Rightarrow> rstring \<Rightarrow> service \<Rightarrow> item_overview list result" where
  "search env query s =
     and_then (session_of s) (\<lambda>x.
     and_then (ensure (length query \<le> MAX_SEARCH_QUERY_CHARS) (InvalidInput ''search query too long'')) (\<lambda>_.
     let q = ce_lower env (trim query) in
     if q = [] then list_items env s
     else Inr (sort_key (by_title env) (filter (query_matches env q) (vals (ss_overviews x))))))"

definition get_item :: "uuid \<Rightarrow> service \<Rightarrow> item_overview result" where
  "get_item u s = and_then (session_of s) (\<lambda>x. ok_or NotFound (get (ss_overviews x) u))"

definition open_details :: "core_env \<Rightarrow> service \<Rightarrow> session \<Rightarrow> uuid \<Rightarrow> ItemType \<Rightarrow> item_details result" where
  "open_details env s x u ty =
     and_then (ok_or NotFound (item_blobs (vs_store s) u)) (\<lambda>bs.
     and_then (map_err (\<lambda>e. if e = Corrupted then Corrupted else Decryption)
        (open_json env (ss_data_key x) (item_details_ctx (ce_crypto env) (ss_vault_id x) u (fst bs)) (dec_details env) (snd bs))) (\<lambda>d.
     and_then (ensure (details_type d = ty) Corrupted) (\<lambda>_. Inr d)))"

definition load_details :: "core_env \<Rightarrow> uuid \<Rightarrow> service \<Rightarrow> item_details result" where
  "load_details env u s =
     and_then (session_of s) (\<lambda>x.
     and_then (ok_or NotFound (get (ss_overviews x) u)) (\<lambda>ov. open_details env s x u (ov_item_type ov)))"

definition load_trashed_details :: "core_env \<Rightarrow> uuid \<Rightarrow> service \<Rightarrow> item_details result" where
  "load_trashed_details env u s =
     and_then (session_of s) (\<lambda>x.
     and_then (ok_or NotFound (get (ss_trash x) u)) (\<lambda>ov. open_details env s x u (ov_item_type ov)))"

definition reveal :: "core_env \<Rightarrow> uuid \<Rightarrow> SecretField \<Rightarrow> service \<Rightarrow> rstring result" where
  "reveal env u f s = and_then (load_details env u s) (\<lambda>d.
     (case (d, f) of
        (DLogin l, SFPassword) \<Rightarrow> ok_or NotFound (lg_password l)
      | (DLogin l, SFNotes) \<Rightarrow> ok_or NotFound (lg_notes l)
      | (DSecureNote c ss, SFContent) \<Rightarrow> Inr c
      | _ \<Rightarrow> Inl (InvalidInput ''field does not exist on this item'')))"

text \<open>\<open>None\<close> stands for a panic of the code generator, which validated configurations rule out.\<close>

definition vault_totp_code :: "core_env \<Rightarrow> uuid \<Rightarrow> nat \<Rightarrow> service \<Rightarrow> totp_code result option" where
  "vault_totp_code env u now s = (case load_details env u s of
     Inl e \<Rightarrow> Some (Inl e)
   | Inr (DLogin l) \<Rightarrow> (case lg_totp l of
       Some c \<Rightarrow> generate_totp (fe_totp (ie_fields (ce_items env))) c now
     | None \<Rightarrow> Some (Inl NotFound))
   | Inr _ \<Rightarrow> Some (Inl NotFound))"

definition password_history :: "core_env \<Rightarrow> uuid \<Rightarrow> service \<Rightarrow> int list result" where
  "password_history env u s = and_then (load_details env u s) (\<lambda>d.
     Inr (case d of DLogin l \<Rightarrow> map pp_replaced_at (lg_password_history l) | _ \<Rightarrow> []))"

definition reveal_previous_password :: "core_env \<Rightarrow> uuid \<Rightarrow> nat \<Rightarrow> service \<Rightarrow> rstring result" where
  "reveal_previous_password env u i s = and_then (load_details env u s) (\<lambda>d.
     (case d of DLogin l \<Rightarrow> if i < length (lg_password_history l)
          then Inr (pp_password (lg_password_history l ! i)) else Inl NotFound
      | _ \<Rightarrow> Inl NotFound))"

definition reveal_identity :: "core_env \<Rightarrow> uuid \<Rightarrow> service \<Rightarrow> identity_fields result" where
  "reveal_identity env u s = and_then (load_details env u s) (\<lambda>d.
     (case d of DIdentity f \<Rightarrow> Inr f | _ \<Rightarrow> Inl Denied))"

definition vault_identity_value :: "core_env \<Rightarrow> uuid \<Rightarrow> IdentityField \<Rightarrow> service \<Rightarrow> rstring result" where
  "vault_identity_value env u f s = and_then (reveal_identity env u s) (\<lambda>x. ok_or NotFound (identity_value (ce_lower env) x f))"

definition vault_card_fields :: "core_env \<Rightarrow> uuid \<Rightarrow> service \<Rightarrow> card_fields result" where
  "vault_card_fields env u s = and_then (load_details env u s) (\<lambda>d.
     (case d of DCard f \<Rightarrow> Inr f | _ \<Rightarrow> Inl Denied))"

definition vault_bank_fields :: "core_env \<Rightarrow> uuid \<Rightarrow> service \<Rightarrow> bank_fields result" where
  "vault_bank_fields env u s = and_then (load_details env u s) (\<lambda>d.
     (case d of DBankAccount f \<Rightarrow> Inr f | _ \<Rightarrow> Inl Denied))"

definition vault_card_value :: "core_env \<Rightarrow> uuid \<Rightarrow> CardField \<Rightarrow> service \<Rightarrow> rstring result" where
  "vault_card_value env u f s = and_then (vault_card_fields env u s) (\<lambda>c. ok_or NotFound (card_value c f))"

definition item_sections :: "core_env \<Rightarrow> uuid \<Rightarrow> service \<Rightarrow> field_section list result" where
  "item_sections env u s = and_then (load_details env u s) (\<lambda>d.
     (case d of DLogin l \<Rightarrow> Inr (lg_sections l) | DSecureNote c ss \<Rightarrow> Inr ss
      | DBankAccount f \<Rightarrow> Inr (bk_sections f) | _ \<Rightarrow> Inl NotFound))"

definition item_field :: "core_env \<Rightarrow> uuid \<Rightarrow> uuid \<Rightarrow> service \<Rightarrow> custom_field result" where
  "item_field env u field_id s = and_then (item_sections env u s) (\<lambda>ss.
     ok_or NotFound (List.find (\<lambda>f. fld_id f = field_id) (concat (map sec_fields ss))))"

section \<open>Properties\<close>

subsection \<open>What a session is\<close>

text \<open>
  The live items and the Trash are two keyed tables with no key in common, every overview sits
  under its own identifier, the Trash holds exactly overviews marked as trashed, and the Identity
  is never in it.
\<close>

definition session_ok :: "session \<Rightarrow> bool" where
  "session_ok x \<longleftrightarrow> table_ok (ss_overviews x) \<and> table_ok (ss_trash x) \<and>
     (\<forall>u ov. get (ss_overviews x) u = Some ov \<longrightarrow> ov_id ov = u \<and> get (ss_trash x) u = None \<and>
        (ov_trashed_at ov = None \<or> u = ss_identity_id x)) \<and>
     (\<forall>u ov. get (ss_trash x) u = Some ov \<longrightarrow> ov_id ov = u \<and> ov_trashed_at ov \<noteq> None \<and> u \<noteq> ss_identity_id x) \<and>
     length (ss_recent_fills x) \<le> MAX_RECENT_FILLS"

definition service_ok :: "service \<Rightarrow> bool" where
  "service_ok s \<longleftrightarrow> store_wf (vs_store s) \<and> vs_state s \<noteq> VLocking \<and>
     (vs_session s \<noteq> None \<longleftrightarrow> vs_state s = VUnlocked) \<and>
     (case vs_session s of None \<Rightarrow> True | Some x \<Rightarrow> session_ok x)"

lemma session_of_Inr_iff: "session_of s = Inr x \<longleftrightarrow> vs_state s = VUnlocked \<and> vs_session s = Some x"
  by (auto simp: session_of_def split: VaultState.splits option.splits)

lemma session_of_Inl_iff: "session_of s = Inl e \<longleftrightarrow> e = Locked \<and> (vs_state s \<noteq> VUnlocked \<or> vs_session s = None)"
  by (auto simp: session_of_def split: VaultState.splits option.splits)

lemma place_ok: "session_ok x \<Longrightarrow> session_ok (place ov x)"
  by (auto simp: session_ok_def place_def Let_def intro: table_wf)

lemma forget_ok: "session_ok x \<Longrightarrow> session_ok (forget u x)"
  by (auto simp: session_ok_def forget_def intro: table_wf)

text \<open>Opening a row is placing its overview: \<open>open_session\<close> and the later writes agree.\<close>

definition row_view :: "core_env \<Rightarrow> bytes \<Rightarrow> uuid \<Rightarrow> uuid \<Rightarrow> bytes option \<Rightarrow> item_overview option" where
  "row_view env dk vid u b = (case b of None \<Rightarrow> None | Some b \<Rightarrow> to_option (open_overview env dk vid (u, b)))"

lemma open_overview_id: "open_overview env dk vid (u, b) = Inr ov \<Longrightarrow> ov_id ov = u"
  by (auto simp: open_overview_def result_simps)

definition split_view :: "uuid \<Rightarrow> (uuid \<Rightarrow> item_overview option) \<Rightarrow> (uuid, item_overview) table \<Rightarrow> (uuid, item_overview) table \<Rightarrow> bool" where
  "split_view iid v ovs trash \<longleftrightarrow> table_ok ovs \<and> table_ok trash \<and>
     (\<forall>u. get ovs u = (case v u of None \<Rightarrow> None
        | Some ov \<Rightarrow> if ov_trashed_at ov \<noteq> None \<and> u \<noteq> iid then None else Some ov)) \<and>
     (\<forall>u. get trash u = (case v u of None \<Rightarrow> None
        | Some ov \<Rightarrow> if ov_trashed_at ov \<noteq> None \<and> u \<noteq> iid then Some ov else None))"

lemma split_view_put:
  assumes "split_view iid v ovs trash" and "v u = None" and "ov_id ov = u"
  shows "split_view iid (v(u := Some ov))
    (if ov_trashed_at ov \<noteq> None \<and> ov_id ov \<noteq> iid then ovs else put (ov_id ov) ov ovs)
    (if ov_trashed_at ov \<noteq> None \<and> ov_id ov \<noteq> iid then put (ov_id ov) ov trash else trash)"
  using assms by (auto simp: split_view_def intro: table_wf split: option.splits)

text \<open>The overview each identifier's row opens to, in a list of rows with distinct identifiers.\<close>

definition rows_view where
  "rows_view env dk vid rows u = row_view env dk vid u (map_option it_overview (map_of rows (Id u)))"

lemma fold_open_row:
  assumes "distinct (map fst rows)" and "split_view iid v ovs trash"
    and "\<And>u. Id u \<in> fst ` set rows \<Longrightarrow> v u = None"
  shows "case fold (open_row env dk vid iid)
        (map (\<lambda>(k, r). and_then (ok_or Corrupted (parse_id k)) (\<lambda>u. Inr (u, it_overview r))) rows) (ovs, trash, n) of
     (ovs', trash', n') \<Rightarrow> split_view iid (\<lambda>u. if Id u \<in> fst ` set rows then rows_view env dk vid rows u else v u) ovs' trash'"
  using assms
proof (induction rows arbitrary: v ovs trash n)
  case (Cons kr rows)
  obtain k r where kr: "kr = (k, r)" by (cases kr)
  let ?row = "and_then (ok_or Corrupted (parse_id k)) (\<lambda>u. Inr (u, it_overview r))"
  have nk: "k \<notin> fst ` set rows" and d: "distinct (map fst rows)" using Cons.prems(1) kr by auto
  show ?case
  proof (cases "and_then ?row (open_overview env dk vid)")
    case (Inl e)
    have e: "open_row env dk vid iid ?row (ovs, trash, n) = (ovs, trash, n + 1)" by (simp add: open_row_def Inl)
    have "(if Id u \<in> fst ` set (kr # rows) then rows_view env dk vid (kr # rows) u else v u) =
        (if Id u \<in> fst ` set rows then rows_view env dk vid rows u else v u)" for u
    proof (cases "Id u = k")
      case True
      then have "rows_view env dk vid (kr # rows) u = None"
        using Inl True by (auto simp: rows_view_def row_view_def kr result_simps)
      moreover have "v u = None" using Cons.prems(3) [of u] True by (simp add: kr)
      ultimately show ?thesis using nk True by (simp add: kr)
    qed (auto simp: rows_view_def kr)
    then show ?thesis using Cons.IH [OF d Cons.prems(2), of "n + 1"] Cons.prems(3) e by (simp add: kr)
  next
    case (Inr ov)
    then obtain u where k: "k = Id u" by (cases k) auto
    have o: "open_overview env dk vid (u, it_overview r) = Inr ov" using Inr by (simp add: k)
    note i = open_overview_id [OF o]
    have v: "v u = None" using Cons.prems(3) [of u] by (simp add: kr k)
    let ?ovs = "if ov_trashed_at ov \<noteq> None \<and> ov_id ov \<noteq> iid then ovs else put (ov_id ov) ov ovs"
    let ?tr = "if ov_trashed_at ov \<noteq> None \<and> ov_id ov \<noteq> iid then put (ov_id ov) ov trash else trash"
    have e: "open_row env dk vid iid ?row (ovs, trash, n) = (?ovs, ?tr, n)"
      by (simp add: open_row_def Inr)
    have s: "split_view iid (v(u := Some ov)) ?ovs ?tr" by (rule split_view_put [OF Cons.prems(2) v i])
    have p: "(v(u := Some ov)) w = None" if "Id w \<in> fst ` set rows" for w
      using that Cons.prems(3) [of w] nk by (auto simp: kr k)
    have "(if Id w \<in> fst ` set (kr # rows) then rows_view env dk vid (kr # rows) w else v w) =
        (if Id w \<in> fst ` set rows then rows_view env dk vid rows w else (v(u := Some ov)) w)" for w
      using nk by (auto simp: rows_view_def row_view_def kr k o)
    then show ?thesis using Cons.IH [OF d s p, of n] e by (simp add: kr)
  qed
qed simp

text \<open>
  A session's two tables are a view of the store's item rows: what opening every row again, with
  the session's key, would give.
\<close>

definition store_view :: "core_env \<Rightarrow> bytes \<Rightarrow> uuid \<Rightarrow> store \<Rightarrow> uuid \<Rightarrow> item_overview option" where
  "store_view env dk vid st u = row_view env dk vid u (map_option it_overview (get (st_items st) (Id u)))"

definition coherent :: "core_env \<Rightarrow> store \<Rightarrow> session \<Rightarrow> bool" where
  "coherent env st x \<longleftrightarrow>
     split_view (ss_identity_id x) (store_view env (ss_data_key x) (ss_vault_id x) st) (ss_overviews x) (ss_trash x)"

lemma store_view_id: "store_view env dk vid st u = Some ov \<Longrightarrow> ov_id ov = u"
  by (auto simp: store_view_def row_view_def result_simps dest: open_overview_id split: option.splits)

lemma coherent_session_ok:
  assumes "coherent env st x" and "length (ss_recent_fills x) \<le> MAX_RECENT_FILLS"
  shows "session_ok x"
  using assms store_view_id [of env "ss_data_key x" "ss_vault_id x" st]
  unfolding session_ok_def coherent_def split_view_def
  by (auto split: option.splits if_splits)

lemma open_session_Inr:
  assumes "open_session env st vid vk = Inr x" and "store_wf st"
  shows "derive_data_key (ce_keys env) vk = Inr (ss_data_key x) \<and>
    derive_identity_item_id (ce_keys env) vk = Inr (ss_identity_id x) \<and> coherent env st x \<and>
    ss_vault_id x = vid \<and> ss_vault_key x = vk \<and> ss_recent_fills x = [] \<and> ss_generation x = 0 \<and> ss_health x = None \<and>
    ss_settings x = (case opened_settings env (ss_data_key x) vid st of Some y \<Rightarrow> y | None \<Rightarrow> restrictive_settings) \<and>
    (ss_damaged_settings x \<longleftrightarrow> opened_settings env (ss_data_key x) vid st = None)"
proof -
  obtain dk iid where d: "derive_data_key (ce_keys env) vk = Inr dk" "derive_identity_item_id (ce_keys env) vk = Inr iid"
    using assms(1) by (auto simp: open_session_def result_simps Let_def)
  obtain ovs tr n where f: "fold (open_row env dk vid iid) (item_overviews st) ([], [], 0) = (ovs, tr, n)"
    by (metis prod_cases3)
  have x: "x = \<lparr>ss_vault_id = vid, ss_data_key = dk, ss_vault_key = vk, ss_identity_id = iid,
        ss_overviews = ovs, ss_trash = tr,
        ss_settings = (case opened_settings env dk vid st of Some x \<Rightarrow> x | None \<Rightarrow> restrictive_settings),
        ss_damaged_items = n, ss_damaged_settings = (opened_settings env dk vid st = None), ss_recent_fills = [],
        ss_generation = 0, ss_health = None\<rparr>"
    using assms(1) d f by (auto simp: open_session_def Let_def)
  have t: "table_ok (st_items st)" using assms(2) by (simp add: store_wf_def)
  have "split_view iid (\<lambda>u. if Id u \<in> fst ` set (st_items st) then rows_view env dk vid (st_items st) u else None) ovs tr"
    using fold_open_row [of "st_items st" iid "\<lambda>_. None" "[]" "[]" env dk vid 0] t f
    by (simp add: item_overviews_def split_view_def table_ok_def)
  moreover have "(if Id u \<in> fst ` set (st_items st) then rows_view env dk vid (st_items st) u else None) =
      store_view env dk vid st u" for u
    by (auto simp: store_view_def rows_view_def get_def row_view_def dest: map_of_eq_None_iff [THEN iffD2])
  ultimately have "coherent env st x" by (simp add: coherent_def x)
  then show ?thesis using d by (simp add: x)
qed

subsection \<open>The service invariant\<close>

text \<open>
  A session exists exactly in the unlocked state; its keys are the ones its vault key derives, it
  is a view of the store, and it remembers at most sixteen fills.
\<close>

definition session_inv :: "core_env \<Rightarrow> store \<Rightarrow> session \<Rightarrow> bool" where
  "session_inv env st x \<longleftrightarrow> coherent env st x \<and> length (ss_recent_fills x) \<le> MAX_RECENT_FILLS \<and>
     derive_data_key (ce_keys env) (ss_vault_key x) = Inr (ss_data_key x) \<and>
     derive_identity_item_id (ce_keys env) (ss_vault_key x) = Inr (ss_identity_id x)"

definition store_inv :: "store \<Rightarrow> bool" where
  "store_inv st \<longleftrightarrow> store_wf st \<and> (st_header st = None \<longrightarrow> st_items st = [])"

definition service_inv :: "core_env \<Rightarrow> service \<Rightarrow> bool" where
  "service_inv env s \<longleftrightarrow> store_inv (vs_store s) \<and> vs_state s \<noteq> VLocking \<and>
     (vs_session s \<noteq> None \<longleftrightarrow> vs_state s = VUnlocked) \<and>
     (\<forall>x. vs_session s = Some x \<longrightarrow> st_header (vs_store s) \<noteq> None \<and> session_inv env (vs_store s) x)"

lemma service_inv_ok:
  assumes "service_inv env s"
  shows "service_ok s"
proof (cases "vs_session s")
  case (Some x)
  then have "coherent env (vs_store s) x" "length (ss_recent_fills x) \<le> MAX_RECENT_FILLS"
    using assms by (auto simp: service_inv_def session_inv_def)
  from coherent_session_ok [OF this] show ?thesis
    using assms Some by (simp add: service_inv_def service_ok_def store_inv_def)
qed (use assms in \<open>simp add: service_inv_def service_ok_def store_inv_def\<close>)

lemma new_service_inv: "store_inv st \<Longrightarrow> service_inv env (new_service st)"
  by (simp add: service_inv_def new_service_def)

lemma open_session_inv: "open_session env st vid vk = Inr x \<Longrightarrow> store_wf st \<Longrightarrow> session_inv env st x"
  by (auto simp: session_inv_def dest: open_session_Inr)

lemma coherent_items: "st_items st' = st_items st \<Longrightarrow> coherent env st' x \<longleftrightarrow> coherent env st x"
  by (simp add: coherent_def store_view_def [abs_def])

lemma session_inv_items: "st_items st' = st_items st \<Longrightarrow> session_inv env st' x \<longleftrightarrow> session_inv env st x"
  unfolding session_inv_def using coherent_items [of st' st env x] by blast

text \<open>Writes of the header, the account and the settings leave the items alone.\<close>

lemma set_account_keeps: "set_account a s = Inr t \<Longrightarrow> st_items t = st_items s \<and> st_header t = st_header s \<and> (store_wf s \<longrightarrow> store_wf t)"
  by (auto simp: set_account_Inr_iff store_wf_def split: option.splits)

lemma insert_header_keeps:
  "insert_header h b s = Inr t \<Longrightarrow> st_items t = st_items s \<and> st_header t \<noteq> None \<and> (store_wf s \<longrightarrow> store_wf t)"
  by (auto simp: insert_header_def result_simps store_wf_def)

lemma update_key_wrap_keeps:
  "update_key_wrap k w c r s = Inr t \<Longrightarrow> st_items t = st_items s \<and> st_account t = st_account s \<and>
     st_header t \<noteq> None \<and> st_header s \<noteq> None \<and> (store_wf s \<longrightarrow> store_wf t)"
  by (auto simp: update_key_wrap_def result_simps store_wf_def split: option.splits)

lemma raise_floor_keeps [simp]:
  "st_items (raise_max_header_rev r s) = st_items s" "st_header (raise_max_header_rev r s) = st_header s"
  "store_wf (raise_max_header_rev r s) \<longleftrightarrow> store_wf s"
  by (simp_all add: raise_max_header_rev_def store_wf_def)

lemma write_settings_keeps [simp]:
  "st_items (write_settings b s) = st_items s" "st_header (write_settings b s) = st_header s"
  "store_wf (write_settings b s) \<longleftrightarrow> store_wf s"
  by (simp_all add: write_settings_def store_wf_def)

lemma header_None: "header s = Inr None \<longleftrightarrow> st_header s = None"
  by (auto simp: header_def result_simps split: option.splits)

subsection \<open>Every lifecycle operation keeps the invariant\<close>

lemma service_inv_store:
  assumes "service_inv env s" and "st_items st = st_items (vs_store s)" and "store_wf st"
    and "st_header (vs_store s) \<noteq> None \<longrightarrow> st_header st \<noteq> None"
    and "st_header (vs_store s) = None \<longrightarrow> st_items st = []"
  shows "service_inv env (s\<lparr>vs_store := st\<rparr>)"
  using assms session_inv_items [OF assms(2)] by (auto simp: service_inv_def store_inv_def)

lemma service_inv_unlock:
  assumes "service_inv env s" and "open_session env (vs_store s) vid vk = Inr x"
    and "st_header (vs_store s) \<noteq> None"
  shows "service_inv env (s\<lparr>vs_session := Some x, vs_state := VUnlocked\<rparr>)"
  using assms open_session_inv [OF assms(2)] by (auto simp: service_inv_def store_inv_def)

lemma require_header_Some: "require_header st = Inr h \<Longrightarrow> st_header st \<noteq> None"
  by (auto simp: require_header_def header_def result_simps split: option.splits)

lemma lock_inv: "service_inv env s \<Longrightarrow> service_inv env (snd (lock s))"
  by (simp add: service_inv_def lock_def)

lemma replace_store_inv: "store_inv st \<Longrightarrow> service_inv env (snd (replace_store st s))"
  by (simp add: service_inv_def replace_store_def lock_def)

lemma begin_unlock_inv: "service_inv env s \<Longrightarrow> service_inv env (snd (begin_unlock s))"
proof -
  assume s: "service_inv env s"
  show ?thesis
  proof (cases "begin_unlock s")
    case (Pair r s1)
    then have "s1 = s \<or> (vs_state s = VLocked \<and> s1 = s\<lparr>vs_state := VUnlocking\<rparr>)"
      by (auto simp: begin_unlock_def check_locked_def result_simps split: sum.splits VaultState.splits)
    then show ?thesis using s Pair by (auto simp: service_inv_def)
  qed
qed

lemma complete_unlock_Inr:
  assumes "complete_unlock env st t key = Inr x"
  obtains vid vk where "open_session env st vid vk = Inr x" and "st_header st \<noteq> None"
  using assms by (auto simp: complete_unlock_def result_simps dest: require_header_Some)

lemma finish_unlock_inv:
  assumes "service_inv env s"
  shows "service_inv env (snd (finish_unlock env t key s))"
proof (cases "vs_state s \<noteq> VUnlocking \<or> ut_epoch t \<noteq> vs_epoch s")
  case False
  show ?thesis
  proof (cases "complete_unlock env (vs_store s) t key")
    case (Inr x)
    then obtain vid vk where "open_session env (vs_store s) vid vk = Inr x" "st_header (vs_store s) \<noteq> None"
      by (rule complete_unlock_Inr)
    from service_inv_unlock [OF assms this] show ?thesis using False Inr by (simp add: finish_unlock_def)
  next
    case (Inl e)
    then show ?thesis using False assms by (auto simp: finish_unlock_def service_inv_def)
  qed
qed (use assms in \<open>auto simp: finish_unlock_def\<close>)

lemma unlock_for_account_inv:
  "service_inv env s \<Longrightarrow> service_inv env (snd (unlock_for_account env pw sk a s))"
  using begin_unlock_inv [of env s] finish_unlock_inv
  by (auto simp: unlock_for_account_def split: prod.splits sum.splits)

lemma unlock_with_vault_key_cases:
  obtains "snd (unlock_with_vault_key env vk s) = s" "\<exists>e. fst (unlock_with_vault_key env vk s) = Inl e"
  | x h where "vs_state s = VLocked" "require_header (vs_store s) = Inr h"
      "open_session env (vs_store s) (hd_vault_id h) vk = Inr x"
      "unlock_with_vault_key env vk s = (Inr (), s\<lparr>vs_session := Some x, vs_state := VUnlocked\<rparr>)"
proof (cases "fst (unlock_with_vault_key env vk s)")
  case (Inl e)
  then show thesis
    by (intro that(1)) (auto simp: unlock_with_vault_key_def split: sum.splits)
next
  case (Inr u)
  then obtain h x where "check_locked s = Inr ()" "require_header (vs_store s) = Inr h"
    "open_session env (vs_store s) (hd_vault_id h) vk = Inr x"
    "unlock_with_vault_key env vk s = (Inr (), s\<lparr>vs_session := Some x, vs_state := VUnlocked\<rparr>)"
    unfolding unlock_with_vault_key_def by (clarsimp simp: and_then_Inr_iff split: sum.splits)
  moreover from this(1) have "vs_state s = VLocked" by (simp add: check_locked_def split: VaultState.splits)
  ultimately show thesis by (intro that(2))
qed

lemma unlock_with_vault_key_inv:
  assumes "service_inv env s"
  shows "service_inv env (snd (unlock_with_vault_key env vk s))"
proof (cases rule: unlock_with_vault_key_cases [of env vk s])
  case (2 x h)
  show ?thesis using service_inv_unlock [OF assms 2(3) require_header_Some [OF 2(2)]] by (simp add: 2(4))
qed (use assms in simp)

lemma adopt_and_unlock_cases:
  obtains "snd (adopt_and_unlock env p ep s) = s" "\<exists>e. fst (adopt_and_unlock env p ep s) = Inl e"
  | st local a where "vs_state s = VLocked" "ep = vs_epoch s"
      "require_header (vs_store s) = Inr local" "require_account (vs_store s) = Inr a"
      "hd_vault_id (pv_header p) = hd_vault_id local"
      "max (ac_max_header_rev a) (as_i64 (hd_revision local)) < as_i64 (hd_revision (pv_header p))"
      "update_key_wrap (hd_kdf (pv_header p)) (hd_wrapped_vault_key (pv_header p)) (hd_key_scheme (pv_header p))
         (hd_revision (pv_header p)) (vs_store s) = Inr st"
      "adopt_and_unlock env p ep s =
         (let s1 = s\<lparr>vs_store := raise_max_header_rev (as_i64 (hd_revision (pv_header p))) st\<rparr> in
          case open_session env (vs_store s1) (hd_vault_id (pv_header p)) (pv_vault_key p) of
            Inl e \<Rightarrow> (Inl e, s1) | Inr x \<Rightarrow> (Inr (), s1\<lparr>vs_session := Some x, vs_state := VUnlocked\<rparr>))"
proof (cases "vs_state s = VLocked \<and> ep = vs_epoch s")
  case False
  then show thesis by (intro that(1)) (auto simp: adopt_and_unlock_def)
next
  case True
  let ?h = "pv_header p"
  let ?r = "and_then (require_header (vs_store s)) (\<lambda>local.
             and_then (require_account (vs_store s)) (\<lambda>a.
             let fl = max (ac_max_header_rev a) (as_i64 (hd_revision local)) in
             and_then (ensure (hd_vault_id ?h = hd_vault_id local \<and> hd_key_scheme ?h = AccountBound \<and>
                hd_format_version ?h = FORMAT_VERSION) UnlockFailed) (\<lambda>_.
             and_then (ensure (fl < as_i64 (hd_revision ?h)) UnlockFailed) (\<lambda>_.
             update_key_wrap (hd_kdf ?h) (hd_wrapped_vault_key ?h) (hd_key_scheme ?h) (hd_revision ?h) (vs_store s)))))"
  have e: "adopt_and_unlock env p ep s = (case ?r of Inl e \<Rightarrow> (Inl e, s)
        | Inr st \<Rightarrow> (let s1 = s\<lparr>vs_store := raise_max_header_rev (as_i64 (hd_revision ?h)) st\<rparr> in
             case open_session env (vs_store s1) (hd_vault_id ?h) (pv_vault_key p) of
               Inl e \<Rightarrow> (Inl e, s1)
             | Inr x \<Rightarrow> (Inr (), s1\<lparr>vs_session := Some x, vs_state := VUnlocked\<rparr>)))"
    using True by (simp add: adopt_and_unlock_def Let_def)
  show thesis
  proof (cases ?r)
    case (Inl er)
    then show thesis using e by (intro that(1)) simp_all
  next
    case (Inr st)
    then obtain local a where "require_header (vs_store s) = Inr local" "require_account (vs_store s) = Inr a"
      "hd_vault_id ?h = hd_vault_id local"
      "max (ac_max_header_rev a) (as_i64 (hd_revision local)) < as_i64 (hd_revision ?h)"
      "update_key_wrap (hd_kdf ?h) (hd_wrapped_vault_key ?h) (hd_key_scheme ?h) (hd_revision ?h) (vs_store s) = Inr st"
      unfolding and_then_Inr_iff Let_def by (auto simp: result_simps)
    then show thesis using True e Inr by (intro that(2)) simp_all
  qed
qed

lemma adopt_and_unlock_inv:
  assumes "service_inv env s"
  shows "service_inv env (snd (adopt_and_unlock env p ep s))"
proof (cases rule: adopt_and_unlock_cases [of env p ep s])
  case (2 st local a)
  let ?s1 = "s\<lparr>vs_store := raise_max_header_rev (as_i64 (hd_revision (pv_header p))) st\<rparr>"
  note k = update_key_wrap_keeps [OF 2(7)]
  have i: "service_inv env ?s1"
    using k assms by (intro service_inv_store) (auto simp: service_inv_def store_inv_def)
  show ?thesis
  proof (cases "open_session env (vs_store ?s1) (hd_vault_id (pv_header p)) (pv_vault_key p)")
    case (Inl e)
    then show ?thesis using i by (simp add: 2(8) Let_def)
  next
    case (Inr x)
    then show ?thesis using service_inv_unlock [OF i Inr] k by (simp add: 2(8) Let_def)
  qed
qed (use assms in simp)

section \<open>An environment for the witnesses\<close>

text \<open>
  Encryption that appends a constant tag, a key derivation with constant keys, and JSON codecs that
  know one login under three overviews and the default settings.
\<close>

definition toy_ov :: item_overview where
  "toy_ov = \<lparr>ov_id = 3, ov_item_type = TLogin, ov_title = str ''a'', ov_username = None,
     ov_urls = [\<lparr>rule_url = str ''a.b'', match_type = MDomain\<rparr>], ov_has_password = True, ov_has_totp = False,
     ov_has_notes = False, ov_has_passkey = False, ov_auto_sign_in = True, ov_sign_in_with = None,
     ov_card = None, ov_bank = None, ov_tags = [], ov_trashed_at = None, ov_attachments = [], ov_extra = [],
     ov_created_at = 1, ov_updated_at = 1\<rparr>"

definition toy_login :: item_details where
  "toy_login = DLogin (no_login\<lparr>lg_password := Some (str ''pw'')\<rparr>)"

definition toy_new :: item_overview where
  "toy_new = toy_ov\<lparr>ov_urls := []\<rparr>"

definition toy_trashed :: item_overview where
  "toy_trashed = toy_new\<lparr>ov_trashed_at := Some 2\<rparr>"

definition toy_core :: core_env where
  "toy_core = \<lparr>ce_keys = toy_keys, ce_items = toy_items, ce_web = toy_web,
     enc_overview = (\<lambda>v. if v = toy_ov then Some [2] else if v = toy_new then Some [4]
        else if v = toy_trashed then Some [6] else None),
     dec_overview = (\<lambda>p. if p = [2] then Some toy_ov else if p = [4] then Some toy_new
        else if p = [6] then Some toy_trashed else None),
     enc_details = (\<lambda>v. if v = toy_login then Some [3] else None),
     dec_details = (\<lambda>p. if p = [3] then Some toy_login else None),
     enc_settings = (\<lambda>v. if v = default_settings then Some [1] else None),
     dec_settings = (\<lambda>p. if p = [1] then Some default_settings else None),
     json_syntax = (\<lambda>p. True)\<rparr>"

lemma toy_core_crypto [simp]: "ce_crypto toy_core = plain_crypto"
  by (simp add: ce_crypto_def toy_core_def toy_keys_def)

lemma toy_json [simp]:
  "enc_overview toy_core v = (if v = toy_ov then Some [2] else if v = toy_new then Some [4]
     else if v = toy_trashed then Some [6] else None)"
  "dec_overview toy_core p = (if p = [2] then Some toy_ov else if p = [4] then Some toy_new
     else if p = [6] then Some toy_trashed else None)"
  "enc_details toy_core d = (if d = toy_login then Some [3] else None)"
  "dec_details toy_core p = (if p = [3] then Some toy_login else None)"
  "enc_settings toy_core x = (if x = default_settings then Some [1] else None)"
  "dec_settings toy_core p = (if p = [1] then Some default_settings else None)"
  by (simp_all add: toy_core_def)

lemma toy_hkdf [simp]: "hkdf (ce_keys toy_core) s k i n = Some (replicate n 5)"
  by (simp add: toy_core_def toy_keys_def)

lemma toy_seal:
  assumes "length key = 32" and "length p \<le> 100" and "ctx_ok ctx" and "bound_to ctx = None \<or> (\<exists>h. bound_to ctx = Some h \<and> length h = 32)"
  shows "\<exists>b. seal plain_crypto (Some (replicate 12 0)) key ctx p = Inr b"
  by (rule seal_total [OF plain_crypto_ok])
    (use assms in \<open>cases "purpose ctx"; auto simp: blob_consts\<close>)+

end
