(* ===== verification/Lifecycle.thy ===== *)
theory Lifecycle
  imports Session
begin

text \<open>
  What the lifecycle of \<open>Session\<close> guarantees: creation and password changes keep the service
  invariant, a vault opens again under the password it was created with, stale tickets change
  nothing, and the key wrap never goes back to an older revision.
\<close>

section \<open>Creation, rekey and settings\<close>

lemma create_account_vault_cases:
  obtains "snd (create_account_vault env rnd p a s) = s" "\<exists>e. fst (create_account_vault env rnd p a s) = Inl e"
  | st e where "vs_state s = VLocked" "st_header (vs_store s) = None" "set_account a (vs_store s) = Inr st"
      "create_account_vault env rnd p a s = (Inl e, s\<lparr>vs_store := st\<rparr>)"
  | st st2 dk iid b where "vs_state s = VLocked" "st_header (vs_store s) = None" "set_account a (vs_store s) = Inr st"
      "derive_data_key (ce_keys env) (pv_vault_key p) = Inr dk"
      "derive_identity_item_id (ce_keys env) (pv_vault_key p) = Inr iid"
      "seal_json env rnd dk (vault_ctx PSettings (hd_vault_id (pv_header p))) (enc_settings env) default_settings = Inr b"
      "insert_header (pv_header p) b st = Inr st2"
      "create_account_vault env rnd p a s =
         (Inr (), s\<lparr>vs_store := st2, vs_state := VUnlocked, vs_session := Some
            \<lparr>ss_vault_id = hd_vault_id (pv_header p), ss_data_key = dk, ss_vault_key = pv_vault_key p, ss_identity_id = iid,
             ss_overviews = [], ss_trash = [], ss_settings = default_settings, ss_damaged_items = 0,
             ss_damaged_settings = False, ss_recent_fills = [], ss_generation = 0, ss_health = None\<rparr>\<rparr>)"
proof (cases "vs_state s = VLocked \<and> header (vs_store s) = Inr None")
  case False
  then show thesis
    by (intro that(1); cases "hd_key_scheme (pv_header p)")
      (auto simp: create_account_vault_def split: sum.splits option.splits)
next
  case True
  then have h: "st_header (vs_store s) = None" by (simp add: header_None)
  have k: "hd_key_scheme (pv_header p) = AccountBound" by (cases "hd_key_scheme (pv_header p)") simp
  show thesis
  proof (cases "set_account a (vs_store s)")
    case (Inl e)
    then show thesis using True k by (intro that(1)) (auto simp: create_account_vault_def)
  next
    case (Inr st)
    let ?vid = "hd_vault_id (pv_header p)"
    let ?r = "and_then (derive_data_key (ce_keys env) (pv_vault_key p)) (\<lambda>dk.
                 and_then (derive_identity_item_id (ce_keys env) (pv_vault_key p)) (\<lambda>iid.
                 and_then (seal_json env rnd dk (vault_ctx PSettings ?vid) (enc_settings env) default_settings) (\<lambda>b.
                 and_then (insert_header (pv_header p) b st) (\<lambda>st2. Inr (dk, iid, st2)))))"
    show thesis
    proof (cases ?r)
      case (Inl e)
      then show thesis using True h Inr k by (intro that(2)) (auto simp: create_account_vault_def Let_def)
    next
      case (Inr q)
      then obtain dk iid b st2 where q: "q = (dk, iid, st2)"
        "derive_data_key (ce_keys env) (pv_vault_key p) = Inr dk"
        "derive_identity_item_id (ce_keys env) (pv_vault_key p) = Inr iid"
        "seal_json env rnd dk (vault_ctx PSettings ?vid) (enc_settings env) default_settings = Inr b"
        "insert_header (pv_header p) b st = Inr st2"
        unfolding and_then_Inr_iff by clarsimp
      then show thesis using True h \<open>set_account a (vs_store s) = Inr st\<close> k
        by (intro that(3)) (auto simp: create_account_vault_def Let_def)
    qed
  qed
qed

lemma create_account_vault_inv:
  assumes "service_inv env s"
  shows "service_inv env (snd (create_account_vault env rnd p a s))"
proof (cases rule: create_account_vault_cases [of env rnd p a s])
  case (2 st e)
  then show ?thesis
    using set_account_keeps [OF 2(3)] assms
    by (auto simp: service_inv_def store_inv_def)
next
  case (3 st st2 dk iid b)
  have "st_items st2 = []"
    using set_account_keeps [OF 3(3)] insert_header_keeps [OF 3(7)] 3(2) assms
    by (simp add: service_inv_def store_inv_def)
  then have "coherent env st2 x" if "ss_overviews x = []" "ss_trash x = []" for x
    using that by (simp add: coherent_def split_view_def store_view_def row_view_def)
  then show ?thesis
    using set_account_keeps [OF 3(3)] insert_header_keeps [OF 3(7)] 3 assms
    by (auto simp: service_inv_def store_inv_def session_inv_def)
qed (use assms in simp)

lemma commit_rekey_on_cases:
  obtains "snd (commit_rekey_on fails t rk rv s) = s" "\<exists>e. fst (commit_rekey_on fails t rk rv s) = Inl e"
  | x r cur a st where "session_of s = Inr x" "rt_epoch t = vs_epoch s" "rk = Inr r"
      "require_header (vs_store s) = Inr cur" "require_account (vs_store s) = Inr a"
      "hd_revision cur = hd_revision (rt_header t)" "hd_wrapped_vault_key cur = hd_wrapped_vault_key (rt_header t)"
      "rv = u64_saturating_succ (hd_revision cur)"
      "update_key_wrap (rk_kdf r) (rk_wrapped_vault_key r) (rk_key_scheme r) rv (vs_store s) = Inr st"
      "commit_rekey_on fails t rk rv s = (if fails = Some 2 then (Inl Storage, s\<lparr>vs_store := st\<rparr>)
         else (Inr (), s\<lparr>vs_store := raise_max_header_rev (as_i64 rv) st\<rparr>))"
      "hd_vault_id cur = hd_vault_id (rt_header t)" "hd_kdf cur = hd_kdf (rt_header t)"
proof (cases "and_then (session_of s) (\<lambda>_.
           and_then (ensure (rt_epoch t = vs_epoch s) Locked) (\<lambda>_.
           and_then rk (\<lambda>r.
           and_then (require_header (vs_store s)) (\<lambda>cur.
           let h = rt_header t in
           and_then (ensure (hd_vault_id cur = hd_vault_id h \<and> hd_kdf cur = hd_kdf h \<and>
              hd_wrapped_vault_key cur = hd_wrapped_vault_key h \<and> hd_key_scheme cur = hd_key_scheme h \<and>
              hd_revision cur = hd_revision h) Busy) (\<lambda>_.
           and_then (require_account (vs_store s)) (\<lambda>_.
           and_then (ensure (rv = u64_saturating_succ (hd_revision cur)) Corrupted) (\<lambda>_.
           update_key_wrap (rk_kdf r) (rk_wrapped_vault_key r) (rk_key_scheme r) rv (vs_store s))))))))")
  case (Inl e)
  then show thesis by (intro that(1)) (simp_all add: commit_rekey_on_def)
next
  case (Inr st)
  show thesis
  proof (cases "fails = Some 1")
    case True
    then show ?thesis using Inr by (intro that(1)) (simp_all add: commit_rekey_on_def)
  next
    case False
    then have "commit_rekey_on fails t rk rv s = (if fails = Some 2 then (Inl Storage, s\<lparr>vs_store := st\<rparr>)
        else (Inr (), s\<lparr>vs_store := raise_max_header_rev (as_i64 rv) st\<rparr>))"
      using Inr by (simp add: commit_rekey_on_def)
    then show ?thesis
      using Inr that(2) unfolding Let_def and_then_Inr_iff ensure_Inr_iff by blast
  qed
qed

lemma commit_rekey_cases:
  obtains "snd (commit_rekey t rk rv s) = s" "\<exists>e. fst (commit_rekey t rk rv s) = Inl e"
  | x r cur a st where "session_of s = Inr x" "rt_epoch t = vs_epoch s" "rk = Inr r"
      "require_header (vs_store s) = Inr cur" "require_account (vs_store s) = Inr a"
      "hd_revision cur = hd_revision (rt_header t)" "hd_wrapped_vault_key cur = hd_wrapped_vault_key (rt_header t)"
      "rv = u64_saturating_succ (hd_revision cur)"
      "update_key_wrap (rk_kdf r) (rk_wrapped_vault_key r) (rk_key_scheme r) rv (vs_store s) = Inr st"
      "commit_rekey t rk rv s = (Inr (), s\<lparr>vs_store := raise_max_header_rev (as_i64 rv) st\<rparr>)"
  by (cases rule: commit_rekey_on_cases [of None t rk rv s]) (auto simp: commit_rekey_def intro: that)

lemma commit_rekey_on_inv:
  assumes "service_inv env s"
  shows "service_inv env (snd (commit_rekey_on fails t rk rv s))"
proof (cases rule: commit_rekey_on_cases [of fails t rk rv s])
  case (2 x r cur a st)
  have "service_inv env (s\<lparr>vs_store := st\<rparr>)" "service_inv env (s\<lparr>vs_store := raise_max_header_rev (as_i64 rv) st\<rparr>)"
    using update_key_wrap_keeps [OF 2(9)] assms
    by (intro service_inv_store; auto simp: service_inv_def store_inv_def)+
  then show ?thesis unfolding 2(10) by simp
qed (use assms in simp)

lemma commit_rekey_inv: "service_inv env s \<Longrightarrow> service_inv env (snd (commit_rekey t rk rv s))"
  unfolding commit_rekey_def by (rule commit_rekey_on_inv)

lemma change_master_password_inv:
  "service_inv env s \<Longrightarrow> service_inv env (snd (change_master_password_for_account env rnd c n k sk s))"
  using commit_rekey_inv
  by (auto simp: change_master_password_for_account_def split: sum.splits option.splits)

lemma update_settings_inv:
  assumes "service_inv env s"
  shows "service_inv env (snd (update_settings env rnd v s))"
proof (cases "fst (update_settings env rnd v s)")
  case (Inl e)
  then show ?thesis using assms by (auto simp: update_settings_def split: sum.splits)
next
  case (Inr u)
  then obtain b where e: "snd (update_settings env rnd v s) =
      with_session (s\<lparr>vs_store := write_settings b (vs_store s)\<rparr>) (\<lambda>x. x\<lparr>ss_settings := v, ss_damaged_settings := False\<rparr>)"
    by (auto simp: update_settings_def split: sum.splits)
  have "service_inv env (s\<lparr>vs_store := write_settings b (vs_store s)\<rparr>)"
    using assms by (intro service_inv_store) (auto simp: service_inv_def store_inv_def)
  then show ?thesis
    unfolding e by (auto simp: service_inv_def with_session_def session_inv_def coherent_def)
qed

section \<open>Opening again\<close>

lemma open_session_cong:
  "st_items st' = st_items st \<Longrightarrow> st_settings st' = st_settings st \<Longrightarrow>
   open_session env st' vid vk = open_session env st vid vk"
  by (simp add: open_session_def opened_settings_def settings_blob_def item_overviews_def)

lemma unwrap_wrap:
  assumes "aead_ok (ce_crypto env)" and "length n = NONCE_LEN" and "length vk = KEY_LEN"
    and "wrap_vault_key env (Some n) kek vid vk = Inr w"
  shows "unwrap_vault_key env kek vid w = Inr vk"
  using open_seal [OF assms(1,2)] assms(3,4) by (simp add: wrap_vault_key_def unwrap_vault_key_def)

lemma unwrap_length: "unwrap_vault_key env kek vid w = Inr vk \<Longrightarrow> length vk = KEY_LEN"
  by (auto simp: unwrap_vault_key_def result_simps)

lemma open_json_seal_json:
  assumes "aead_ok (ce_crypto env)" and "length n = NONCE_LEN" and "seal_json env (Some n) key ctx en v = Inr b"
    and "\<And>p. en v = Some p \<Longrightarrow> de p = Some v"
  shows "open_json env key ctx de b = Inr v"
  using assms(3,4) open_seal [OF assms(1,2)] by (auto simp: seal_json_def open_json_def result_simps)

lemma derive_master_key_kdf: "derive_master_key k pw kdf = Inr m \<Longrightarrow> validate_kdf kdf = Inr ()"
  by (simp add: derive_master_key_def result_simps)

text \<open>Unlocking, when the header, the key and the session all open.\<close>

lemma unlock_for_account_opens:
  assumes "vs_state s = VLocked" and "require_header (vs_store s) = Inr h" and "hd_format_version h = FORMAT_VERSION"
    and "\<not> bad_unlock_password pw" and m: "derive_master_key (ce_keys env) pw (hd_kdf h) = Inr m"
    and "derive_kek_v3 (ce_keys env) m sk a = Inr kek" and "derive_auth_key_from_master (ce_keys env) m sk a = Inr auth"
    and "unwrap_vault_key env kek (hd_vault_id h) (hd_wrapped_vault_key h) = Inr vk"
    and "open_session env (vs_store s) (hd_vault_id h) vk = Inr x"
  shows "unlock_for_account env pw sk a s = (Inr (), s\<lparr>vs_session := Some x, vs_state := VUnlocked\<rparr>)"
  using assms derive_master_key_kdf [OF m]
  by (simp add: unlock_for_account_def begin_unlock_def check_locked_def finish_unlock_def complete_unlock_def
      derive_for_account_def derive_session_for_account_def)

text \<open>And the other way round: what an unlock that succeeded went through.\<close>

lemma unlock_for_account_Inr:
  assumes "unlock_for_account env pw sk a s = (Inr (), s')"
  obtains h m kek vk x where "vs_state s = VLocked" "require_header (vs_store s) = Inr h"
    "derive_master_key (ce_keys env) pw (hd_kdf h) = Inr m" "derive_kek_v3 (ce_keys env) m sk a = Inr kek"
    "unwrap_vault_key env kek (hd_vault_id h) (hd_wrapped_vault_key h) = Inr vk"
    "open_session env (vs_store s) (hd_vault_id h) vk = Inr x" "hd_format_version h = FORMAT_VERSION"
    "s' = s\<lparr>vs_session := Some x, vs_state := VUnlocked\<rparr>"
proof -
  obtain t s1 where b: "begin_unlock s = (Inr t, s1)"
    and f: "finish_unlock env t (derive_for_account env t pw sk a) s1 = (Inr (), s')"
    using assms by (auto simp: unlock_for_account_def split: prod.splits sum.splits)
  obtain h where h: "check_locked s = Inr ()" "require_header (vs_store s) = Inr h"
    "hd_format_version h = FORMAT_VERSION" "ut_kdf t = hd_kdf h" "s1 = s\<lparr>vs_state := VUnlocking\<rparr>"
    using b by (auto simp: begin_unlock_def result_simps split: sum.splits)
  have l: "vs_state s = VLocked" using h(1) by (simp add: check_locked_def split: VaultState.splits)
  obtain x where c: "complete_unlock env (vs_store s1) t (derive_for_account env t pw sk a) = Inr x"
    and s': "s' = s1\<lparr>vs_session := Some x, vs_state := VUnlocked\<rparr>"
    using f by (auto simp: finish_unlock_def split: if_splits sum.splits)
  obtain m kek vk where "derive_master_key (ce_keys env) pw (hd_kdf h) = Inr m" "derive_kek_v3 (ce_keys env) m sk a = Inr kek"
    "unwrap_vault_key env kek (hd_vault_id h) (hd_wrapped_vault_key h) = Inr vk"
    "open_session env (vs_store s) (hd_vault_id h) vk = Inr x"
    using c h(2,4,5) unfolding complete_unlock_def derive_for_account_def derive_session_for_account_def and_then_Inr_iff
    by auto
  then show thesis using l h s' by (intro that) auto
qed

lemma header_of_insert:
  assumes "insert_header h b st = Inr st2" and "hd_format_version h < 2 ^ 32"
  shows "require_header st2 = Inr h \<and> st_settings st2 = Some b"
proof -
  have k: "hd_key_scheme h = AccountBound" by (cases "hd_key_scheme h") simp
  have "int (hd_format_version h) < 2 ^ 32" using assms(2) by simp
  then show ?thesis
    using assms(1) k
    by (auto simp: insert_header_def result_simps revision_to_db_def require_header_def header_def scheme_from_db_def
        split: if_splits)
qed

lemma header_of_update:
  assumes "update_key_wrap kdf w sch rv st = Inr st2" and "require_header st = Inr h"
  shows "require_header st2 = Inr (h\<lparr>hd_kdf := kdf, hd_wrapped_vault_key := w, hd_key_scheme := sch, hd_revision := rv\<rparr>) \<and>
    st_settings st2 = st_settings st"
proof -
  have k: "sch = AccountBound" by (cases sch) simp
  show ?thesis
    using assms k
    by (auto simp: update_key_wrap_def result_simps revision_to_db_def require_header_def header_def scheme_from_db_def
        split: if_splits option.splits)
qed

lemma require_header_raise [simp]: "require_header (raise_max_header_rev r st) = require_header st"
  by (simp add: require_header_def header_def)

lemma raise_settings [simp]: "st_settings (raise_max_header_rev r st) = st_settings st"
  by (simp add: raise_max_header_rev_def)

definition settings_json_ok :: "core_env \<Rightarrow> bool" where
  "settings_json_ok env \<longleftrightarrow> (\<forall>v p. enc_settings env v = Some p \<longrightarrow> dec_settings env p = Some v)"

lemma prepare_new_account_vault_Inr:
  assumes "prepare_new_account_vault env rsk vid rvk rnd pw a kdf now_ms = Inr av"
  obtains sk m kek auth vk w where "check_new_master_password pw = Inr ()" "rsk = Some sk"
    "derive_master_key (ce_keys env) pw kdf = Inr m" "derive_kek_v3 (ce_keys env) m sk a = Inr kek"
    "derive_auth_key_from_master (ce_keys env) m sk a = Inr auth" "rvk = Some vk"
    "wrap_vault_key env rnd kek vid vk = Inr w"
    "av = \<lparr>av_prepared = \<lparr>pv_header = \<lparr>hd_format_version = FORMAT_VERSION, hd_vault_id = vid, hd_kdf = kdf,
            hd_wrapped_vault_key = w, hd_created_at = now_ms, hd_key_scheme = AccountBound, hd_revision = 0\<rparr>,
            pv_vault_key = vk\<rparr>, av_secret_key = sk, av_auth_key = auth\<rparr>"
  using assms that unfolding prepare_new_account_vault_def and_then_Inr_iff ok_or_Inr_iff by auto

lemma good_new_password: "check_new_master_password pw = Inr () \<Longrightarrow> \<not> bad_unlock_password pw"
  by (auto simp: check_new_master_password_def bad_unlock_password_def MIN_MASTER_PASSWORD_CHARS_def split: if_splits)

lemma created_opens:
  assumes "aead_ok (ce_crypto env)" and "settings_json_ok env" and "service_inv env s"
    and "length n = NONCE_LEN" and "length n' = NONCE_LEN" and "length vk = KEY_LEN"
    and p: "prepare_new_account_vault env (Some sk) vid (Some vk) (Some n) pw a kdf now_ms = Inr av"
    and c: "create_account_vault env (Some n') (av_prepared av) rec s = (Inr (), s1)"
  shows "\<exists>s2. unlock_for_account env pw sk a (snd (lock s1)) = (Inr (), s2) \<and>
    vs_session s2 = vs_session s1 \<and> vs_state s2 = VUnlocked \<and> vs_store s2 = vs_store s1"
proof -
  obtain sk' m kek auth vk' w where pr0: "check_new_master_password pw = Inr ()" "Some sk = Some sk'"
    "derive_master_key (ce_keys env) pw kdf = Inr m" "derive_kek_v3 (ce_keys env) m sk' a = Inr kek"
    "derive_auth_key_from_master (ce_keys env) m sk' a = Inr auth" "Some vk = Some vk'"
    "wrap_vault_key env (Some n) kek vid vk' = Inr w"
    "av = \<lparr>av_prepared = \<lparr>pv_header = \<lparr>hd_format_version = FORMAT_VERSION, hd_vault_id = vid, hd_kdf = kdf,
            hd_wrapped_vault_key = w, hd_created_at = now_ms, hd_key_scheme = AccountBound, hd_revision = 0\<rparr>,
            pv_vault_key = vk'\<rparr>, av_secret_key = sk', av_auth_key = auth\<rparr>"
    by (rule prepare_new_account_vault_Inr [OF p])
  have pr: "check_new_master_password pw = Inr ()"
    "derive_master_key (ce_keys env) pw kdf = Inr m" "derive_kek_v3 (ce_keys env) m sk a = Inr kek"
    "derive_auth_key_from_master (ce_keys env) m sk a = Inr auth" "wrap_vault_key env (Some n) kek vid vk = Inr w"
    "pv_header (av_prepared av) = \<lparr>hd_format_version = FORMAT_VERSION, hd_vault_id = vid, hd_kdf = kdf,
            hd_wrapped_vault_key = w, hd_created_at = now_ms, hd_key_scheme = AccountBound, hd_revision = 0\<rparr>"
    "pv_vault_key (av_prepared av) = vk"
    using pr0 by simp_all
  let ?h = "pv_header (av_prepared av)"
  show ?thesis
  proof (cases rule: create_account_vault_cases [of env "Some n'" "av_prepared av" rec s])
    case (3 st st2 dk iid b)
    let ?x = "\<lparr>ss_vault_id = vid, ss_data_key = dk, ss_vault_key = vk, ss_identity_id = iid,
             ss_overviews = [], ss_trash = [], ss_settings = default_settings, ss_damaged_items = 0,
             ss_damaged_settings = False, ss_recent_fills = [], ss_generation = 0, ss_health = None\<rparr>"
    have s1: "s1 = s\<lparr>vs_store := st2, vs_state := VUnlocked, vs_session := Some ?x\<rparr>"
      using c 3(8) pr(6,7) by simp
    have h: "require_header st2 = Inr ?h" and b: "st_settings st2 = Some b"
      using header_of_insert [OF 3(7)] by (simp_all add: pr(6) FORMAT_VERSION_def)
    have i: "st_items st2 = []"
      using set_account_keeps [OF 3(3)] insert_header_keeps [OF 3(7)] 3(2) assms(3)
      by (simp add: service_inv_def store_inv_def)
    have "open_json env dk (vault_ctx PSettings vid) (dec_settings env) b = Inr default_settings"
      by (rule open_json_seal_json [OF assms(1,5)]) (use 3(6) assms(2) in \<open>auto simp: pr(6) settings_json_ok_def\<close>)
    then have "opened_settings env dk vid st2 = Some default_settings"
      by (simp add: opened_settings_def settings_blob_def b default_settings_valid)
    then have "open_session env st2 vid vk = Inr ?x"
      using 3(4,5) by (simp add: open_session_def pr(7) item_overviews_def i Let_def)
    then have "unlock_for_account env pw sk a (snd (lock s1)) =
        (Inr (), (snd (lock s1))\<lparr>vs_session := Some ?x, vs_state := VUnlocked\<rparr>)"
      using pr h unwrap_wrap [OF assms(1,4,6) pr(5)] good_new_password [OF pr(1)]
      by (intro unlock_for_account_opens) (auto simp: lock_def s1)
    then show ?thesis by (simp add: s1 lock_def)
  qed (use c in auto)
qed

section \<open>Claims\<close>

text \<open>
  C33. A new vault opens again. Prepare an account vault, create it, lock it: unlocking with the same
  master password, Secret Key and account succeeds and restores exactly the session the creation
  left open (keys, identity, settings, empty item tables).
\<close>

theorem created_vault_unlocks:
  assumes "aead_ok (ce_crypto env)" and "settings_json_ok env" and "service_inv env s"
    and "length n = NONCE_LEN" and "length n' = NONCE_LEN" and "length vk = KEY_LEN"
    and p: "prepare_new_account_vault env (Some sk) vid (Some vk) (Some n) pw a kdf now_ms = Inr av"
    and c: "create_account_vault env (Some n') (av_prepared av) rec s = (Inr (), s1)"
  shows "\<exists>s2. unlock_for_account env pw sk a (snd (lock s1)) = (Inr (), s2) \<and>
    vs_session s2 = vs_session s1 \<and> vs_state s2 = VUnlocked \<and> vs_store s2 = vs_store s1"
  by (rule created_opens [OF assms])

text \<open>
  Changing the master password changes only the password. If the current password opens the
  vault and the change succeeds, then after a lock the new password opens the very same session,
  and the stored header is one revision further with the rollback floor at least there.
\<close>

theorem rekeyed_vault_unlocks:
  assumes "aead_ok (ce_crypto env)" and "length n = NONCE_LEN" and "service_inv env s"
    and acct: "require_account (vs_store s) = Inr acct" "account_to_ref (ce_keys env) acct = Inr a"
    and old: "unlock_for_account env cur sk a (snd (lock s)) = (Inr (), s0)"
    and ch: "change_master_password_for_account env (Some n) cur new_pw kdf sk s = (Inr (), s1)"
  shows "\<exists>s2 h h'. unlock_for_account env new_pw sk a (snd (lock s1)) = (Inr (), s2) \<and>
    vs_session s2 = vs_session s0 \<and> require_header (vs_store s) = Inr h \<and> require_header (vs_store s1) = Inr h' \<and>
    hd_revision h' = hd_revision h + 1 \<and> hd_vault_id h' = hd_vault_id h \<and>
    (\<exists>fl. floor_of (vs_store s1) = Some fl \<and> int (hd_revision h') \<le> fl)"
proof -
  obtain h m kek vk x where o0: "vs_state (snd (lock s)) = VLocked" "require_header (vs_store (snd (lock s))) = Inr h"
    "derive_master_key (ce_keys env) cur (hd_kdf h) = Inr m" "derive_kek_v3 (ce_keys env) m sk a = Inr kek"
    "unwrap_vault_key env kek (hd_vault_id h) (hd_wrapped_vault_key h) = Inr vk"
    "open_session env (vs_store (snd (lock s))) (hd_vault_id h) vk = Inr x" "hd_format_version h = FORMAT_VERSION"
    "s0 = (snd (lock s))\<lparr>vs_session := Some x, vs_state := VUnlocked\<rparr>"
    by (rule unlock_for_account_Inr [OF old])
  have o: "require_header (vs_store s) = Inr h"
    "derive_master_key (ce_keys env) cur (hd_kdf h) = Inr m" "derive_kek_v3 (ce_keys env) m sk a = Inr kek"
    "unwrap_vault_key env kek (hd_vault_id h) (hd_wrapped_vault_key h) = Inr vk"
    "open_session env (vs_store s) (hd_vault_id h) vk = Inr x" "hd_format_version h = FORMAT_VERSION"
    "vs_session s0 = Some x"
    using o0 by (simp_all add: lock_def)
  have acc: "account (vs_store s) = Inr (Some acct)" using acct(1) by (simp add: require_account_def result_simps)
  obtain t where t: "begin_rekey env s = Inr t" using ch
    by (auto simp: change_master_password_for_account_def split: sum.splits)
  then have t': "rt_header t = h" "rt_account t = Some a"
    using o(1) acc acct(2) by (auto simp: begin_rekey_def result_simps)
  let ?rk = "rekey_derive env (Some n) t cur new_pw kdf sk a" and ?rv = "u64_saturating_succ (hd_revision h)"
  have c: "commit_rekey t ?rk ?rv s = (Inr (), s1)"
    using ch t t' by (simp add: change_master_password_for_account_def)
  show ?thesis
  proof (cases rule: commit_rekey_cases [of t ?rk ?rv s])
    case (2 y r cur' a' st)
    have s1: "s1 = s\<lparr>vs_store := raise_max_header_rev (as_i64 ?rv) st\<rparr>" using c 2(10) by simp
    obtain nm nkek nauth w where r: "check_new_master_password new_pw = Inr ()"
      "derive_master_key (ce_keys env) new_pw kdf = Inr nm" "derive_kek_v3 (ce_keys env) nm sk a = Inr nkek"
      "derive_auth_key_from_master (ce_keys env) nm sk a = Inr nauth"
      "wrap_vault_key env (Some n) nkek (hd_vault_id h) vk = Inr w" "rk_kdf r = kdf" "rk_wrapped_vault_key r = w"
      using 2(3) o(2-4) unfolding rekey_derive_def t'(1) Let_def and_then_Inr_iff by auto
    let ?h = "h\<lparr>hd_kdf := kdf, hd_wrapped_vault_key := w, hd_key_scheme := rk_key_scheme r, hd_revision := ?rv\<rparr>"
    note u = header_of_update [OF 2(9) o(1), unfolded r(6,7)] update_key_wrap_keeps [OF 2(9)]
    have "open_session env (vs_store (snd (lock s1))) (hd_vault_id h) vk = Inr x"
      using o(5) u open_session_cong [of "vs_store s1" "vs_store s"] by (simp add: s1 lock_def)
    then have "unlock_for_account env new_pw sk a (snd (lock s1)) =
        (Inr (), (snd (lock s1))\<lparr>vs_session := Some x, vs_state := VUnlocked\<rparr>)"
      using r u o(6) unwrap_wrap [OF assms(1,2) unwrap_length [OF o(4)] r(5)] good_new_password [OF r(1)]
      by (intro unlock_for_account_opens [where h = ?h]) (auto simp: lock_def s1)
    moreover have rv: "int ?rv \<le> i64_max" using 2(9)
      by (auto simp: update_key_wrap_def revision_to_db_def result_simps split: if_splits)
    then have "?rv = hd_revision h + 1"
      by (simp add: u64_saturating_succ_def i64_max_def min_def split: if_splits)
    moreover have "\<exists>fl. floor_of (vs_store s1) = Some fl \<and> int ?rv \<le> fl"
      using u acc rv by (auto simp: s1 floor_of_def raise_max_header_rev_def account_def as_i64_def result_simps
          split: option.splits)
    ultimately show ?thesis using o(1,7) u by (auto simp: s1)
  qed (use c in auto)
qed


section \<open>Witnesses\<close>

definition toy_password :: rstring where "toy_password = replicate 12 97"

definition toy_ref :: account_ref where "toy_ref = \<lparr>ar_id = 9, ar_email = str ''a@b.c''\<rparr>"

lemma toy_master: "derive_master_key (ce_keys toy_core) pw toy_kdf = Inr (replicate 32 7)"
  by (simp add: derive_master_key_def validate_kdf_def toy_kdf_def toy_core_def toy_keys_def
      MIN_MEMORY_KIB_def MAX_MEMORY_KIB_def MIN_ITERATIONS_def MAX_ITERATIONS_def MIN_PARALLELISM_def MAX_PARALLELISM_def)

lemma toy_derived [simp]:
  "derive_kek_v3 (ce_keys toy_core) m sk a = Inr (replicate 32 5)"
  "derive_auth_key_from_master (ce_keys toy_core) m sk a = Inr (replicate 32 5)"
  "derive_data_key (ce_keys toy_core) vk = Inr (replicate 32 5)"
  by (simp_all add: derive_kek_v3_def derive_auth_key_from_master_def derive_data_key_def account_bound_def
      hkdf_sha256_def KEY_LEN_def)

lemma toy_identity: "\<exists>iid. derive_identity_item_id (ce_keys toy_core) vk = Inr iid"
  by (simp add: derive_identity_item_id_def)

lemma toy_prepared:
  "\<exists>av. prepare_new_account_vault toy_core (Some (replicate 16 1)) 5 (Some (replicate 32 4)) (Some (replicate 12 0))
     toy_password toy_ref toy_kdf 7 = Inr av"
proof -
  have "ctx_ok (vault_ctx PVaultKey 5)" by (simp add: ctx_ok_def vault_ctx_def needs_item_id_def needs_binding_def)
  then obtain w where "wrap_vault_key toy_core (Some (replicate 12 0)) (replicate 32 5) 5 (replicate 32 4) = Inr w"
    using toy_seal [of "replicate 32 5" "replicate 32 4" "vault_ctx PVaultKey 5"]
    by (auto simp: wrap_vault_key_def vault_ctx_def)
  then show ?thesis
    by (simp add: prepare_new_account_vault_def check_new_master_password_def toy_password_def
        MIN_MASTER_PASSWORD_CHARS_def MAX_MASTER_PASSWORD_CHARS_def toy_master)
qed

lemma toy_created:
  assumes "hd_revision (pv_header p) = 0"
  shows "\<exists>s1. create_account_vault toy_core (Some (replicate 12 0)) p toy_account (new_service empty_store) = (Inr (), s1)"
proof -
  let ?c = "vault_ctx PSettings (hd_vault_id (pv_header p))"
  have k: "hd_key_scheme (pv_header p) = AccountBound" by (cases "hd_key_scheme (pv_header p)") simp
  have "ctx_ok ?c" by (simp add: ctx_ok_def vault_ctx_def needs_item_id_def needs_binding_def)
  then obtain b where b: "seal_json toy_core (Some (replicate 12 0)) (replicate 32 5) ?c (enc_settings toy_core) default_settings = Inr b"
    using toy_seal [of "replicate 32 5" "[1]" ?c] by (auto simp: seal_json_def vault_ctx_def)
  obtain iid where "derive_identity_item_id (ce_keys toy_core) (pv_vault_key p) = Inr iid" using toy_identity by blast
  then show ?thesis
    using k b assms
    by (simp add: create_account_vault_def new_service_def header_def empty_store_def set_account_def account_def
        insert_header_def revision_to_db_def i64_max_def Let_def)
qed

lemma created_vault_unlocks_witness:
  "\<exists>av s1 s2. prepare_new_account_vault toy_core (Some (replicate 16 1)) 5 (Some (replicate 32 4)) (Some (replicate 12 0))
     toy_password toy_ref toy_kdf 7 = Inr av \<and>
   create_account_vault toy_core (Some (replicate 12 0)) (av_prepared av) toy_account (new_service empty_store) = (Inr (), s1) \<and>
   unlock_for_account toy_core toy_password (replicate 16 1) toy_ref (snd (lock s1)) = (Inr (), s2) \<and>
   vs_session s2 = vs_session s1 \<and> vs_state s2 = VUnlocked"
proof -
  obtain av where av: "prepare_new_account_vault toy_core (Some (replicate 16 1)) 5 (Some (replicate 32 4))
      (Some (replicate 12 0)) toy_password toy_ref toy_kdf 7 = Inr av" using toy_prepared by blast
  then have "hd_revision (pv_header (av_prepared av)) = 0"
    by (auto simp: prepare_new_account_vault_def result_simps)
  then obtain s1 where s1: "create_account_vault toy_core (Some (replicate 12 0)) (av_prepared av) toy_account
      (new_service empty_store) = (Inr (), s1)" using toy_created by blast
  have j: "settings_json_ok toy_core" by (simp add: settings_json_ok_def)
  have i: "service_inv toy_core (new_service empty_store)"
    using store_wf_empty by (intro new_service_inv) (simp add: store_inv_def empty_store_def)
  show ?thesis
    using created_vault_unlocks [of toy_core "new_service empty_store" "replicate 12 0" "replicate 12 0" "replicate 32 4",
        OF _ j i _ _ _ av s1] av s1
    by (auto simp: plain_crypto_ok NONCE_LEN_def KEY_LEN_def)
qed

lemma toy_email: "account_to_ref (ce_keys toy_core) toy_account = Inr toy_ref"
  by (simp add: account_to_ref_def parse_email_def toy_account_def toy_ref_def toy_core_def toy_keys_def
      MAX_EMAIL_LEN_def text_eval Let_def)

lemma toy_changed:
  assumes av: "prepare_new_account_vault toy_core (Some (replicate 16 1)) 5 (Some (replicate 32 4))
      (Some (replicate 12 0)) toy_password toy_ref toy_kdf 7 = Inr av"
    and s1: "create_account_vault toy_core (Some (replicate 12 0)) (av_prepared av) toy_account (new_service empty_store) = (Inr (), s1)"
  shows "require_account (vs_store s1) = Inr toy_account"
    and "\<exists>s2. change_master_password_for_account toy_core (Some (replicate 12 0)) toy_password (replicate 11 98)
      toy_kdf (replicate 16 1) s1 = (Inr (), s2)"
    and "service_inv toy_core s1"
proof -
  have i: "service_inv toy_core (new_service empty_store)"
    using store_wf_empty by (intro new_service_inv) (simp add: store_inv_def empty_store_def)
  show "service_inv toy_core s1"
    using create_account_vault_inv [OF i, of "Some (replicate 12 0)" "av_prepared av" toy_account] s1 by simp
  let ?h = "pv_header (av_prepared av)"
  obtain w where h: "?h = \<lparr>hd_format_version = FORMAT_VERSION, hd_vault_id = 5, hd_kdf = toy_kdf,
      hd_wrapped_vault_key = w, hd_created_at = 7, hd_key_scheme = AccountBound, hd_revision = 0\<rparr>"
    and w: "wrap_vault_key toy_core (Some (replicate 12 0)) (replicate 32 5) 5 (replicate 32 4) = Inr w"
    using av by (auto simp: prepare_new_account_vault_def result_simps toy_master)
  have u: "unwrap_vault_key toy_core (replicate 32 5) 5 w = Inr (replicate 32 4)"
    by (rule unwrap_wrap [OF _ _ _ w]) (simp_all add: plain_crypto_ok NONCE_LEN_def KEY_LEN_def)
  obtain st st2 x b where st: "set_account toy_account empty_store = Inr st" "insert_header ?h b st = Inr st2"
      "s1 = (new_service empty_store)\<lparr>vs_store := st2, vs_state := VUnlocked, vs_session := Some x\<rparr>"
    using create_account_vault_cases [of toy_core "Some (replicate 12 0)" "av_prepared av" toy_account "new_service empty_store"]
      s1 by (cases rule: create_account_vault_cases [of toy_core "Some (replicate 12 0)" "av_prepared av" toy_account
        "new_service empty_store"]) (auto simp: new_service_def)
  have rh: "require_header st2 = Inr ?h" using header_of_insert [OF st(2)] by (simp add: h FORMAT_VERSION_def)
  have "st_account st2 = st_account st" using st(2) by (auto simp: insert_header_def result_simps)
  then have ac: "account st2 = Inr (Some toy_account)"
    using st(1) by (auto simp: set_account_Inr_iff empty_store_def account_def toy_account_def)
  then show ra: "require_account (vs_store s1) = Inr toy_account" by (simp add: st(3) require_account_def)
  obtain w2 where w2: "wrap_vault_key toy_core (Some (replicate 12 0)) (replicate 32 5) 5 (replicate 32 4) = Inr w2"
    using w by blast
  have s: "session_of s1 = Inr x" by (simp add: st(3) session_of_def)
  have "begin_rekey toy_core s1 = Inr \<lparr>rt_header = ?h, rt_epoch = vs_epoch s1, rt_account = Some toy_ref\<rparr>"
    using s rh ac toy_email by (simp add: begin_rekey_def st(3))
  moreover obtain r where "rekey_derive toy_core (Some (replicate 12 0)) \<lparr>rt_header = ?h, rt_epoch = vs_epoch s1, rt_account = Some toy_ref\<rparr>
      toy_password (replicate 11 98) toy_kdf (replicate 16 1) toy_ref = Inr r"
    using u w2 by (simp add: rekey_derive_def h toy_master check_new_master_password_def MIN_MASTER_PASSWORD_CHARS_def
        MAX_MASTER_PASSWORD_CHARS_def)
  moreover have "st_header st2 \<noteq> None" using rh by (rule require_header_Some)
  ultimately show "\<exists>s2. change_master_password_for_account toy_core (Some (replicate 12 0)) toy_password (replicate 11 98)
      toy_kdf (replicate 16 1) s1 = (Inr (), s2)"
    using s rh ra
    by (auto simp: change_master_password_for_account_def commit_rekey_def commit_rekey_on_def st(3) require_account_def update_key_wrap_def
        revision_to_db_def u64_saturating_succ_def h i64_max_def)
qed

lemma rekeyed_vault_unlocks_witness:
  "\<exists>s1 s2 s3. change_master_password_for_account toy_core (Some (replicate 12 0)) toy_password (replicate 11 98)
     toy_kdf (replicate 16 1) s1 = (Inr (), s2) \<and>
   unlock_for_account toy_core (replicate 11 98) (replicate 16 1) toy_ref (snd (lock s2)) = (Inr (), s3)"
proof -
  have n: "length (replicate 12 0 :: bytes) = NONCE_LEN" "aead_ok (ce_crypto toy_core)" "length (replicate 32 4 :: bytes) = KEY_LEN"
    by (simp_all add: NONCE_LEN_def plain_crypto_ok KEY_LEN_def)
  have j: "settings_json_ok toy_core" by (simp add: settings_json_ok_def)
  have i: "service_inv toy_core (new_service empty_store)"
    using store_wf_empty by (intro new_service_inv) (simp add: store_inv_def empty_store_def)
  obtain av where av: "prepare_new_account_vault toy_core (Some (replicate 16 1)) 5 (Some (replicate 32 4))
      (Some (replicate 12 0)) toy_password toy_ref toy_kdf 7 = Inr av" using toy_prepared by blast
  then have "hd_revision (pv_header (av_prepared av)) = 0"
    by (auto simp: prepare_new_account_vault_def result_simps)
  then obtain s1 where s1: "create_account_vault toy_core (Some (replicate 12 0)) (av_prepared av) toy_account
      (new_service empty_store) = (Inr (), s1)" using toy_created by blast
  obtain s0 where s0: "unlock_for_account toy_core toy_password (replicate 16 1) toy_ref (snd (lock s1)) = (Inr (), s0)"
    using created_opens [OF n(2) j i n(1) n(1) n(3) av s1] by blast
  note t = toy_changed [OF av s1]
  obtain s2 where s2: "change_master_password_for_account toy_core (Some (replicate 12 0)) toy_password (replicate 11 98)
      toy_kdf (replicate 16 1) s1 = (Inr (), s2)" using t(2) by blast
  show ?thesis using rekeyed_vault_unlocks [OF n(2) n(1) t(3) t(1) toy_email s0 s2] s2 by blast
qed


end
