(* ===== verification/Pages.thy ===== *)
theory Pages
  imports Lifecycle
begin

text \<open>
  Page-bound access (\<^verbatim>\<open>havenkeys-core/src/vault.rs\<close>): everything a browser extension may ask for.
  The page's address, and the embedding page's for a frame, are checked against the item's own
  website rules on every call. The save decisions (\<open>check_login\<close>, \<open>check_sso\<close>) and the lookup of a
  provider's logins are here too. The ranking of \<open>find_matches\<close> by use is not modelled: the
  suggestions below are in the order of \<open>page_matches\<close>.
\<close>

section \<open>Model\<close>

definition MAX_PROVIDER_ACCOUNTS :: nat where "MAX_PROVIDER_ACCOUNTS = 10"
definition MAX_SSO_PICKER_ACCOUNTS :: nat where "MAX_SSO_PICKER_ACCOUNTS = 50"
definition REPEAT_CHANGE_WINDOW_MS :: int where "REPEAT_CHANGE_WINDOW_MS = 24 * 60 * 60 * 1000"

datatype MatchKind = KindLogin | KindBankAccount

record suggestion =
  sg_id :: uuid
  sg_kind :: MatchKind
  sg_title :: rstring
  sg_username :: "rstring option"
  sg_bank :: "bank_summary option"
  sg_has_totp :: bool
  sg_strength :: MatchStrength
  sg_account :: "rstring option"
  sg_provider :: "SsoProvider option"
  sg_tags :: "rstring list"

definition new_suggestion :: "item_overview \<Rightarrow> MatchStrength \<Rightarrow> suggestion" where
  "new_suggestion o1 strength = \<lparr>sg_id = ov_id o1,
     sg_kind = (if ov_item_type o1 = TBankAccount then KindBankAccount else KindLogin),
     sg_title = ov_title o1, sg_username = ov_username o1, sg_bank = ov_bank o1, sg_has_totp = ov_has_totp o1,
     sg_strength = strength, sg_account = Option.bind (ov_sign_in_with o1) siw_account,
     sg_provider = map_option provider (ov_sign_in_with o1), sg_tags = ov_tags o1\<rparr>"

datatype SaveTarget = New "rstring option" | Update uuid

record sso_account =
  sa_id :: uuid
  sa_title :: rstring
  sa_username :: rstring

datatype ProviderLogin = OneLogin uuid | NoLogin | SeveralLogins
datatype SaveAction = ActAdd | ActUpdate uuid | ActUnchanged

definition normalize_username :: "core_env \<Rightarrow> rstring option \<Rightarrow> rstring option" where
  "normalize_username env u = (case u of
     None \<Rightarrow> None
   | Some v \<Rightarrow> if trim v = [] then None else Some (ce_lower env (trim v)))"

record page_context =
  pc_frame :: url
  pc_top :: "url option"

definition parse_context :: "core_env \<Rightarrow> rstring \<Rightarrow> rstring option \<Rightarrow> page_context option" where
  "parse_context env page_url top_url = (case parse_page (ce_web env) page_url of
     None \<Rightarrow> None
   | Some f \<Rightarrow> (case top_url of
       None \<Rightarrow> Some \<lparr>pc_frame = f, pc_top = None\<rparr>
     | Some t \<Rightarrow> (case parse_page (ce_web env) t of None \<Rightarrow> None
         | Some p \<Rightarrow> Some \<lparr>pc_frame = f, pc_top = Some p\<rparr>)))"

definition context_matches :: "core_env \<Rightarrow> page_context \<Rightarrow> item_overview \<Rightarrow> match_policy \<Rightarrow> MatchStrength option" where
  "context_matches env c item policy = (case match_item (ce_web env) item (pc_frame c) policy of
     None \<Rightarrow> None
   | Some m \<Rightarrow> (case pc_top c of
       None \<Rightarrow> Some m
     | Some t \<Rightarrow> if match_item (ce_web env) item t policy = None then None else Some m))"

record fill_credentials =
  fc_username :: "rstring option"
  fc_password :: "rstring option"
  fc_bank :: "bank_values option"

record sso_start =
  st_provider :: SsoProvider
  st_sso_account :: "rstring option"
  st_auto_choose :: bool

record confirm_update =
  cu_item_id :: uuid
  cu_title :: rstring
  cu_username :: "rstring option"
  cu_site :: rstring

subsection \<open>Matching\<close>

definition vault_policy :: "service \<Rightarrow> match_policy result" where
  "vault_policy s = and_then (session_of s) (\<lambda>x. Inr \<lparr>allow_equivalent = equivalent_domains (ss_settings x)\<rparr>)"

definition page_matches ::
  "core_env \<Rightarrow> rstring \<Rightarrow> rstring option \<Rightarrow> match_policy \<Rightarrow> service \<Rightarrow> suggestion list result" where
  "page_matches env page_url top_url policy s =
     and_then (session_of s) (\<lambda>x.
     (case parse_context env page_url top_url of
        None \<Rightarrow> Inr []
      | Some c \<Rightarrow> Inr (sort_key (\<lambda>g. (sg_strength g, ce_lower env (sg_title g), sg_id g))
          (List.map_filter (\<lambda>ov. map_option (new_suggestion ov) (context_matches env c ov policy))
             (filter (\<lambda>ov. is_site_bound (ov_item_type ov)) (vals (ss_overviews x)))))))"

definition direct_matches ::
  "core_env \<Rightarrow> rstring \<Rightarrow> rstring option \<Rightarrow> service \<Rightarrow> suggestion list result" where
  "direct_matches env page_url top_url s = page_matches env page_url top_url DIRECT s"

definition matches_page :: "core_env \<Rightarrow> uuid \<Rightarrow> rstring \<Rightarrow> rstring option \<Rightarrow> service \<Rightarrow> bool result" where
  "matches_page env u page_url top_url s =
     and_then (vault_policy s) (\<lambda>policy.
     and_then (session_of s) (\<lambda>x.
     Inr (case parse_context env page_url top_url of
        None \<Rightarrow> False
      | Some c \<Rightarrow> (case get (ss_overviews x) u of
          None \<Rightarrow> False
        | Some ov \<Rightarrow> is_site_bound (ov_item_type ov) \<and> context_matches env c ov policy \<noteq> None))))"

definition authorize_for_page_with ::
  "core_env \<Rightarrow> uuid \<Rightarrow> rstring \<Rightarrow> rstring option \<Rightarrow> match_policy \<Rightarrow> service \<Rightarrow> item_overview result" where
  "authorize_for_page_with env u page_url top_url policy s =
     and_then (session_of s) (\<lambda>x.
     and_then (ok_or NotFound (get (ss_overviews x) u)) (\<lambda>ov.
     and_then (ok_or Denied (parse_context env page_url top_url)) (\<lambda>c.
     and_then (ensure (is_site_bound (ov_item_type ov) \<and> context_matches env c ov policy \<noteq> None) Denied) (\<lambda>_.
     Inr ov))))"

definition authorize_for_page ::
  "core_env \<Rightarrow> uuid \<Rightarrow> rstring \<Rightarrow> rstring option \<Rightarrow> service \<Rightarrow> item_overview result" where
  "authorize_for_page env u page_url top_url s =
     and_then (vault_policy s) (\<lambda>policy. authorize_for_page_with env u page_url top_url policy s)"

subsection \<open>Filling\<close>

definition fill_reply :: "core_env \<Rightarrow> uuid \<Rightarrow> rstring option \<Rightarrow> service \<Rightarrow> fill_credentials result" where
  "fill_reply env u username s = and_then (load_details env u s) (\<lambda>d. (case d of
     DLogin l \<Rightarrow> Inr \<lparr>fc_username = username, fc_password = lg_password l, fc_bank = None\<rparr>
   | DBankAccount f \<Rightarrow> Inr \<lparr>fc_username = None, fc_password = bk_password f, fc_bank = bank_values_of f\<rparr>
   | _ \<Rightarrow> Inl Denied))"

definition remember_fill :: "uuid \<Rightarrow> rstring \<Rightarrow> int \<Rightarrow> recent_fill list \<Rightarrow> recent_fill list" where
  "remember_fill u site now_ms fills =
     (let kept = filter (\<lambda>f. is_recent f now_ms \<and> \<not> (rf_item_id f = u \<and> rf_site f = site)) fills
                 @ [\<lparr>rf_item_id = u, rf_site = site, rf_filled_at_ms = now_ms\<rparr>]
      in drop (length kept - MAX_RECENT_FILLS) kept)"

definition record_fill :: "core_env \<Rightarrow> uuid \<Rightarrow> rstring \<Rightarrow> int \<Rightarrow> service \<Rightarrow> unit result \<times> service" where
  "record_fill env u page_url now_ms s =
     (case Option.bind (parse_page (ce_web env) page_url) (site_of (ce_web env)) of
        None \<Rightarrow> (Inr (), s)
      | Some site \<Rightarrow> (case session_of s of
          Inl e \<Rightarrow> (Inl e, s)
        | Inr x \<Rightarrow> (Inr (), with_session s (\<lambda>x. x\<lparr>ss_recent_fills := remember_fill u site now_ms (ss_recent_fills x)\<rparr>))))"

definition fill_for_page ::
  "core_env \<Rightarrow> uuid \<Rightarrow> rstring \<Rightarrow> rstring option \<Rightarrow> int \<Rightarrow> service \<Rightarrow> fill_credentials result \<times> service" where
  "fill_for_page env u page_url top_url now_ms s =
     (case and_then (authorize_for_page env u page_url top_url s) (\<lambda>ov.
           and_then (fill_reply env u (ov_username ov) s) (\<lambda>c. Inr (ov, c))) of
        Inl e \<Rightarrow> (Inl e, s)
      | Inr (ov, c) \<Rightarrow>
          if ov_item_type ov = TLogin \<and> fc_password c \<noteq> None
          then (case record_fill env u page_url now_ms s of
                  (Inl e, s1) \<Rightarrow> (Inl e, s1) | (Inr _, s1) \<Rightarrow> (Inr c, s1))
          else (Inr c, s))"

definition totp_for_page ::
  "core_env \<Rightarrow> uuid \<Rightarrow> rstring \<Rightarrow> rstring option \<Rightarrow> nat \<Rightarrow> service \<Rightarrow> totp_code result option" where
  "totp_for_page env u page_url top_url now s = (case authorize_for_page env u page_url top_url s of
     Inl e \<Rightarrow> Some (Inl e)
   | Inr ov \<Rightarrow> if ov_item_type ov \<noteq> TLogin then Some (Inl Denied) else vault_totp_code env u now s)"

definition auto_sign_in_for :: "uuid \<Rightarrow> service \<Rightarrow> bool result" where
  "auto_sign_in_for u s =
     and_then (session_of s) (\<lambda>x.
     and_then (ok_or NotFound (get (ss_overviews x) u)) (\<lambda>ov.
     Inr (ov_item_type ov = TLogin \<and> set_auto_sign_in (ss_settings x) \<and> ov_auto_sign_in ov)))"

definition start_sso_for_page ::
  "core_env \<Rightarrow> uuid \<Rightarrow> rstring \<Rightarrow> rstring option \<Rightarrow> service \<Rightarrow> sso_start result" where
  "start_sso_for_page env u page_url top_url s =
     and_then (authorize_for_page env u page_url top_url s) (\<lambda>ov.
     and_then (ok_or Denied (ov_sign_in_with ov)) (\<lambda>w.
     and_then (session_of s) (\<lambda>x.
     Inr \<lparr>st_provider = provider w, st_sso_account = siw_account w,
       st_auto_choose = (set_auto_sign_in (ss_settings x) \<and> ov_auto_sign_in ov)\<rparr>)))"

subsection \<open>Sign in with\<close>

definition same_account :: "core_env \<Rightarrow> SsoProvider \<Rightarrow> rstring option \<Rightarrow> suggestion \<Rightarrow> bool" where
  "same_account env p wanted g \<longleftrightarrow> sg_provider g = Some p \<and>
     (wanted = None \<or> normalize_username env (sg_account g) = wanted)"

definition check_sso ::
  "core_env \<Rightarrow> rstring \<Rightarrow> rstring option \<Rightarrow> SsoProvider \<Rightarrow> rstring option \<Rightarrow> service \<Rightarrow> SaveAction result" where
  "check_sso env page_url top_url p acct s =
     (let wanted = normalize_username env acct in
      and_then (direct_matches env page_url top_url s) (\<lambda>gs.
      if list_ex (same_account env p wanted) gs then Inr ActUnchanged
      else (case map sg_id (filter (\<lambda>g. sg_provider g = Some p \<and> normalize_username env (sg_account g) = None) gs) of
          [u] \<Rightarrow> Inr (ActUpdate u)
        | _ \<Rightarrow>
          and_then (vault_policy s) (\<lambda>policy.
          if policy = DIRECT then Inr ActAdd
          else and_then (page_matches env page_url top_url policy s) (\<lambda>ws.
            Inr (if list_ex (same_account env p wanted) ws then ActUnchanged else ActAdd))))))"

fun collect_accounts :: "suggestion list \<Rightarrow> uuid list \<Rightarrow> sso_account list \<Rightarrow> uuid list \<times> sso_account list" where
  "collect_accounts [] seen out = (seen, out)"
| "collect_accounts (g # gs) seen out = (case sg_username g of
     None \<Rightarrow> collect_accounts gs seen out
   | Some raw \<Rightarrow> if trim raw = [] \<or> sg_id g \<in> set seen then collect_accounts gs seen out
       else collect_accounts gs (sg_id g # seen)
              (out @ [\<lparr>sa_id = sg_id g, sa_title = sg_title g, sa_username = trim raw\<rparr>]))"

fun provider_loop ::
  "core_env \<Rightarrow> service \<Rightarrow> string list \<Rightarrow> uuid list \<Rightarrow> sso_account list \<Rightarrow> sso_account list result" where
  "provider_loop env s [] seen out = Inr out"
| "provider_loop env s (origin # os) seen out =
     and_then (direct_matches env (str origin @ str ''/'') None s) (\<lambda>gs.
     case collect_accounts gs seen out of (seen', out') \<Rightarrow> provider_loop env s os seen' out')"

definition provider_logins :: "core_env \<Rightarrow> SsoProvider \<Rightarrow> service \<Rightarrow> sso_account list result" where
  "provider_logins env p s =
     and_then (provider_loop env s (provider_origins p) [] []) (\<lambda>out.
     Inr (sort_key (\<lambda>a. (ce_lower env (sa_title a), ce_lower env (sa_username a), sa_id a)) out))"

definition sso_accounts :: "core_env \<Rightarrow> SsoProvider \<Rightarrow> service \<Rightarrow> sso_account list result" where
  "sso_accounts env p s = and_then (provider_logins env p s) (\<lambda>out. Inr (take MAX_SSO_PICKER_ACCOUNTS out))"

definition provider_accounts :: "core_env \<Rightarrow> SsoProvider \<Rightarrow> service \<Rightarrow> rstring list result" where
  "provider_accounts env p s = and_then (provider_logins env p s) (\<lambda>out.
     Inr (take MAX_PROVIDER_ACCOUNTS
       (sort (remdups (somes (map (\<lambda>a. normalize_username env (Some (sa_username a))) out))))))"

definition provider_login :: "core_env \<Rightarrow> uuid \<Rightarrow> service \<Rightarrow> ProviderLogin result" where
  "provider_login env u s =
     and_then (get_item u s) (\<lambda>item.
     (case ov_sign_in_with item of
        None \<Rightarrow> Inr NoLogin
      | Some w \<Rightarrow> (case normalize_username env (siw_account w) of
          None \<Rightarrow> Inr NoLogin
        | Some want \<Rightarrow>
          and_then (provider_logins env (provider w) s) (\<lambda>out.
          Inr (case map sa_id (filter (\<lambda>a. sa_id a \<noteq> u \<and> normalize_username env (Some (sa_username a)) = Some want) out) of
             [a] \<Rightarrow> OneLogin a | [] \<Rightarrow> NoLogin | _ \<Rightarrow> SeveralLogins)))))"

subsection \<open>What saving a login would do\<close>

definition ce_equal :: "core_env \<Rightarrow> rstring \<Rightarrow> rstring \<Rightarrow> bool" where
  "ce_equal env a b = secrets_equal (ce_items env) a b"

definition saved_bank_password :: "core_env \<Rightarrow> uuid \<Rightarrow> service \<Rightarrow> rstring option" where
  "saved_bank_password env u s = (case load_details env u s of Inr (DBankAccount f) \<Rightarrow> bk_password f | _ \<Rightarrow> None)"

definition saved_login_password :: "core_env \<Rightarrow> uuid \<Rightarrow> service \<Rightarrow> rstring option" where
  "saved_login_password env u s = (case load_details env u s of Inr (DLogin l) \<Rightarrow> lg_password l | _ \<Rightarrow> None)"

fun save_loop ::
  "core_env \<Rightarrow> service \<Rightarrow> rstring option \<Rightarrow> rstring \<Rightarrow> rstring option \<Rightarrow>
   suggestion list \<Rightarrow> uuid option \<Rightarrow> uuid list \<Rightarrow> SaveAction" where
  "save_loop env s wanted password cur [] upd by_current =
     (case upd of
        Some u \<Rightarrow> ActUpdate u
      | None \<Rightarrow> (case by_current of [u] \<Rightarrow> ActUpdate u | _ \<Rightarrow> ActAdd))"
| "save_loop env s wanted password cur (c # cs) upd by_current =
     (if sg_kind c = KindBankAccount then
        (case saved_bank_password env (sg_id c) s of
           Some p \<Rightarrow> if ce_equal env p password then ActUnchanged
                     else save_loop env s wanted password cur cs upd by_current
         | None \<Rightarrow> save_loop env s wanted password cur cs upd by_current)
      else
        let same_user = (normalize_username env (sg_username c) = wanted) in
        if \<not> same_user \<and> wanted \<noteq> None then save_loop env s wanted password cur cs upd by_current
        else
          let saved = saved_login_password env (sg_id c) s in
          if (case saved of Some p \<Rightarrow> ce_equal env p password | None \<Rightarrow> False) then ActUnchanged
          else save_loop env s wanted password cur cs
            (if same_user \<and> upd = None then Some (sg_id c) else upd)
            (case (saved, cur) of
               (Some p, Some q) \<Rightarrow> if ce_equal env p q then by_current @ [sg_id c] else by_current
             | _ \<Rightarrow> by_current))"

definition save_action ::
  "core_env \<Rightarrow> suggestion list \<Rightarrow> rstring option \<Rightarrow> rstring \<Rightarrow> rstring option \<Rightarrow> service \<Rightarrow> SaveAction result" where
  "save_action env candidates username password cur s =
     (if password = [] then Inl (InvalidInput ''password is required'')
      else Inr (save_loop env s (normalize_username env username) password
             (case cur of Some [] \<Rightarrow> None | _ \<Rightarrow> cur) candidates None []))"

definition unchanged_or_add ::
  "core_env \<Rightarrow> suggestion list \<Rightarrow> rstring option \<Rightarrow> rstring \<Rightarrow> service \<Rightarrow> SaveAction result" where
  "unchanged_or_add env related username password s =
     and_then (save_action env related username password None s) (\<lambda>a.
     Inr (case a of ActUnchanged \<Rightarrow> ActUnchanged | _ \<Rightarrow> ActAdd))"

definition check_login ::
  "core_env \<Rightarrow> rstring \<Rightarrow> rstring option \<Rightarrow> rstring option \<Rightarrow> rstring \<Rightarrow> rstring option \<Rightarrow> service \<Rightarrow> SaveAction result" where
  "check_login env page_url top_url username password cur s =
     and_then (direct_matches env page_url top_url s) (\<lambda>candidates.
     and_then (save_action env candidates username password cur s) (\<lambda>action.
     and_then (vault_policy s) (\<lambda>policy.
     if action \<noteq> ActAdd \<or> policy = DIRECT then Inr action
     else and_then (page_matches env page_url top_url policy s) (\<lambda>related.
       unchanged_or_add env related username password s))))"

definition update_needs_confirmation :: "core_env \<Rightarrow> uuid \<Rightarrow> int \<Rightarrow> service \<Rightarrow> bool result" where
  "update_needs_confirmation env u now_ms s = and_then (password_history env u s) (\<lambda>h.
     Inr (case h of [] \<Rightarrow> False | _ \<Rightarrow> saturating_sub now_ms (Max (set h)) < REPEAT_CHANGE_WINDOW_MS))"

definition confirm_update_summary :: "core_env \<Rightarrow> uuid \<Rightarrow> rstring \<Rightarrow> service \<Rightarrow> confirm_update result" where
  "confirm_update_summary env u page_url s =
     and_then (session_of s) (\<lambda>x.
     and_then (ok_or NotFound (get (ss_overviews x) u)) (\<lambda>ov.
     and_then (ok_or Denied (Option.bind (parse_page (ce_web env) page_url) (site_of (ce_web env)))) (\<lambda>site.
     Inr \<lparr>cu_item_id = u, cu_title = ov_title ov, cu_username = ov_username ov, cu_site = site\<rparr>)))"

section \<open>Properties\<close>

lemma vault_policy_Inr_iff:
  "vault_policy s = Inr p \<longleftrightarrow> (\<exists>x. session_of s = Inr x \<and> p = \<lparr>allow_equivalent = equivalent_domains (ss_settings x)\<rparr>)"
  by (auto simp: vault_policy_def result_simps)

lemma authorize_for_page_with_Inr_iff:
  "authorize_for_page_with env u page tp policy s = Inr ov \<longleftrightarrow>
     (\<exists>x c. session_of s = Inr x \<and> get (ss_overviews x) u = Some ov \<and> parse_context env page tp = Some c \<and>
        is_site_bound (ov_item_type ov) \<and> context_matches env c ov policy \<noteq> None)"
  by (auto simp: authorize_for_page_with_def result_simps)

lemma authorize_for_page_Inr_iff:
  "authorize_for_page env u page tp s = Inr ov \<longleftrightarrow>
     (\<exists>x c. session_of s = Inr x \<and> get (ss_overviews x) u = Some ov \<and> parse_context env page tp = Some c \<and>
        is_site_bound (ov_item_type ov) \<and>
        context_matches env c ov \<lparr>allow_equivalent = equivalent_domains (ss_settings x)\<rparr> \<noteq> None)"
  unfolding authorize_for_page_def and_then_Inr_iff vault_policy_Inr_iff authorize_for_page_with_Inr_iff by auto

lemma context_matches_Some:
  "context_matches env c ov policy = Some m \<longleftrightarrow> match_item (ce_web env) ov (pc_frame c) policy = Some m \<and>
     (\<forall>t. pc_top c = Some t \<longrightarrow> match_item (ce_web env) ov t policy \<noteq> None)"
  by (auto simp: context_matches_def split: option.splits)

lemma parse_context_Some:
  "parse_context env page tp = Some c \<longleftrightarrow> parse_page (ce_web env) page = Some (pc_frame c) \<and>
     (case tp of None \<Rightarrow> pc_top c = None
      | Some t \<Rightarrow> \<exists>p. parse_page (ce_web env) t = Some p \<and> pc_top c = Some p)"
  by (cases c) (auto simp: parse_context_def split: option.splits)

lemma mem_map_filter: "y \<in> set (List.map_filter f xs) \<longleftrightarrow> (\<exists>x\<in>set xs. f x = Some y)"
  by (force simp: List.map_filter_def)

text \<open>Which suggestions a page gets: one per live site-bound item that matches it.\<close>

lemma page_matches_set:
  assumes "session_of s = Inr x" and "session_ok x"
  shows "\<exists>gs. page_matches env page tp policy s = Inr gs \<and>
    set gs = {new_suggestion ov m | u ov m c. get (ss_overviews x) u = Some ov \<and> is_site_bound (ov_item_type ov) \<and>
       parse_context env page tp = Some c \<and> context_matches env c ov policy = Some m}"
proof (cases "parse_context env page tp")
  case None
  then show ?thesis using assms by (simp add: page_matches_def)
next
  case (Some c)
  have t: "table_ok (ss_overviews x)" using assms(2) by (simp add: session_ok_def)
  show ?thesis
    using assms(1) Some
    by (auto simp: page_matches_def mem_map_filter vals_iff [OF t]; blast)
qed

lemma remember_fill_bound: "length (remember_fill u site now_ms fills) \<le> MAX_RECENT_FILLS"
  by (simp add: remember_fill_def Let_def)

lemma record_fill_inv: "service_inv env s \<Longrightarrow> service_inv env (snd (record_fill env u page now_ms s))"
  by (auto simp: record_fill_def service_inv_def with_session_def session_inv_def coherent_def remember_fill_bound
      split: option.splits sum.splits)

lemma fill_for_page_state:
  "snd (fill_for_page env u page tp now_ms s) = s \<or>
   snd (fill_for_page env u page tp now_ms s) = snd (record_fill env u page now_ms s)"
  by (auto simp: fill_for_page_def split: sum.splits prod.splits)

lemma fill_for_page_inv: "service_inv env s \<Longrightarrow> service_inv env (snd (fill_for_page env u page tp now_ms s))"
  using fill_for_page_state [of env u page tp now_ms s] record_fill_inv by metis

lemma record_fill_Inr: "session_of s = Inr x \<Longrightarrow> \<exists>s1. record_fill env u page now_ms s = (Inr (), s1)"
  by (auto simp: record_fill_def split: option.splits)

text \<open>\<open>save_loop\<close>: whom an update may name.\<close>

lemma save_loop_update:
  assumes "save_loop env s wanted password cur cs upd bc = ActUpdate u"
  shows "upd = Some u \<or> u \<in> set bc \<or> (\<exists>c\<in>set cs. sg_id c = u \<and> sg_kind c = KindLogin \<and>
    (normalize_username env (sg_username c) = wanted \<or>
     (wanted = None \<and> (\<exists>p q. saved_login_password env u s = Some p \<and> cur = Some q \<and> ce_equal env p q))))"
  using assms
proof (induction env s wanted password cur cs upd bc rule: save_loop.induct)
  case (1 env s wanted password cur upd bc)
  then show ?case by (auto split: option.splits list.splits)
next
  case (2 env s wanted password cur c cs upd bc)
  show ?case
  proof (cases "sg_kind c = KindBankAccount")
    case True
    then have "save_loop env s wanted password cur cs upd bc = ActUpdate u"
      using 2(5) by (auto split: option.splits if_splits)
    then show ?thesis using 2(1,2) True 2(5) by (auto split: option.splits if_splits)
  next
    case False
    then have k: "sg_kind c = KindLogin" by (cases "sg_kind c") auto
    let ?same = "normalize_username env (sg_username c) = wanted"
    show ?thesis
    proof (cases "\<not> ?same \<and> wanted \<noteq> None")
      case True
      then have "save_loop env s wanted password cur cs upd bc = ActUpdate u" using 2(5) k by (simp add: Let_def)
      from 2(3) [OF False refl _ this] True show ?thesis by auto
    next
      case w: False
      let ?saved = "saved_login_password env (sg_id c) s"
      let ?upd = "if ?same \<and> upd = None then Some (sg_id c) else upd"
      let ?bc = "case ?saved of None \<Rightarrow> bc | Some p \<Rightarrow>
        (case cur of None \<Rightarrow> bc | Some q \<Rightarrow> if ce_equal env p q then bc @ [sg_id c] else bc)"
      have e: "save_loop env s wanted password cur (c # cs) upd bc =
          (if (case ?saved of Some p \<Rightarrow> ce_equal env p password | None \<Rightarrow> False) then ActUnchanged
           else save_loop env s wanted password cur cs ?upd ?bc)"
        by (simp only: save_loop.simps Let_def False w if_False prod.case)
      have n: "\<not> (case ?saved of Some p \<Rightarrow> ce_equal env p password | None \<Rightarrow> False)"
      proof
        assume "case ?saved of Some p \<Rightarrow> ce_equal env p password | None \<Rightarrow> False"
        then have "save_loop env s wanted password cur (c # cs) upd bc = ActUnchanged" by (simp only: e if_True)
        then show False using 2(5) by simp
      qed
      have l: "save_loop env s wanted password cur cs ?upd ?bc = ActUpdate u"
        using 2(5) by (simp only: e n if_False)
      from 2(4) [OF False refl w refl n l] show ?thesis
        using k w by (auto split: option.splits if_splits)
    qed
  qed
qed

lemma fill_reply_Inr:
  assumes "fill_reply env u name s = Inr c"
  obtains l where "load_details env u s = Inr (DLogin l)" "c = \<lparr>fc_username = name, fc_password = lg_password l, fc_bank = None\<rparr>"
  | f where "load_details env u s = Inr (DBankAccount f)"
      "c = \<lparr>fc_username = None, fc_password = bk_password f, fc_bank = bank_values_of f\<rparr>"
proof -
  obtain d where d: "load_details env u s = Inr d" and r: "(case d of
     DLogin l \<Rightarrow> Inr \<lparr>fc_username = name, fc_password = lg_password l, fc_bank = None\<rparr>
   | DBankAccount f \<Rightarrow> Inr \<lparr>fc_username = None, fc_password = bk_password f, fc_bank = bank_values_of f\<rparr>
   | _ \<Rightarrow> Inl Denied) = (Inr c :: fill_credentials result)"
    using assms unfolding fill_reply_def and_then_Inr_iff by blast
  show thesis
  proof (cases d)
    case (DLogin l)
    then show ?thesis using d r that(1) [of l] by simp
  next
    case (DBankAccount f)
    then show ?thesis using d r that(2) [of f] by simp
  qed (use r in simp_all)
qed

lemma record_fill_state:
  assumes "session_of s = Inr x"
  shows "\<exists>fs. snd (record_fill env u page now_ms s) = s\<lparr>vs_session := Some (x\<lparr>ss_recent_fills := fs\<rparr>)\<rparr>"
proof (cases "Option.bind (parse_page (ce_web env) page) (site_of (ce_web env))")
  case None
  have "s = s\<lparr>vs_session := Some (x\<lparr>ss_recent_fills := ss_recent_fills x\<rparr>)\<rparr>"
    using assms by (simp add: session_of_Inr_iff)
  then show ?thesis using None unfolding record_fill_def by (metis option.case(1) snd_conv)
next
  case (Some site)
  have "vs_session s = Some x" using assms by (simp add: session_of_Inr_iff)
  then show ?thesis using Some assms by (auto simp: record_fill_def with_session_def)
qed

lemma unchanged_or_add_not_update: "unchanged_or_add env gs username password s \<noteq> Inr (ActUpdate u)"
  by (auto simp: unchanged_or_add_def result_simps split: SaveAction.splits)

subsection \<open>An unlocked service for the witnesses\<close>

definition toy_session :: session where
  "toy_session = \<lparr>ss_vault_id = 5, ss_data_key = replicate 32 5, ss_vault_key = replicate 32 4, ss_identity_id = 8,
     ss_overviews = [(3, toy_ov)], ss_trash = [], ss_settings = default_settings, ss_damaged_items = 0,
     ss_damaged_settings = False, ss_recent_fills = [], ss_generation = 0, ss_health = None\<rparr>"

definition toy_open :: "bytes \<Rightarrow> service" where
  "toy_open b = \<lparr>vs_store = empty_store\<lparr>st_items := [(Id 3, \<lparr>it_overview = [9], it_details = b, it_revision = 1\<rparr>)]\<rparr>,
     vs_state = VUnlocked, vs_session = Some toy_session, vs_epoch = 0\<rparr>"

lemma toy_open_session: "session_of (toy_open b) = Inr toy_session"
  by (simp add: toy_open_def session_of_def)

lemma toy_session_ok: "session_ok toy_session"
  by (auto simp: session_ok_def toy_session_def table_ok_def get_def default_settings_valid toy_ov_def split: if_splits)

lemma toy_details_ctx:
  "ctx_ok (item_details_ctx plain_crypto 5 3 [9])" "bound_to (item_details_ctx plain_crypto 5 3 [9]) = Some (replicate 32 0)"
  by (simp_all add: item_details_ctx_def item_ctx_def ctx_ok_def plain_crypto_def needs_item_id_def
      needs_binding_def)

lemma toy_item: "item_blobs (vs_store (toy_open b)) 3 = Some ([9], b)"
  by (simp add: item_blobs_def toy_open_def empty_store_def get_def)

lemma toy_details: "\<exists>b. load_details toy_core 3 (toy_open b) = Inr toy_login"
proof -
  let ?c = "item_details_ctx plain_crypto 5 3 [9]"
  obtain b where "seal_json toy_core (Some (replicate 12 0)) (replicate 32 5) ?c (enc_details toy_core) toy_login = Inr b"
    using toy_seal [of "replicate 32 5" "[3]" ?c]
    by (auto simp: seal_json_def toy_details_ctx)
  from open_json_seal_json [OF _ _ this, of "dec_details toy_core"]
  have "open_json toy_core (replicate 32 5) ?c (dec_details toy_core) b = Inr toy_login"
    using plain_crypto_ok by (simp add: NONCE_LEN_def)
  moreover have "details_type toy_login = TLogin" by (simp add: toy_login_def)
  ultimately show ?thesis
    by (intro exI [of _ b], simp only: load_details_def toy_open_session open_details_def toy_item and_then.simps)
      (simp add: toy_session_def toy_ov_def get_def)
qed

lemma toy_matches:
  "h \<in> {str ''a.b'', str ''x.a.b''} \<Longrightarrow> \<exists>m. match_item toy_web toy_ov (toy_url h) policy = Some m"
  by (auto simp: match_item_def toy_ov_def match_rule_def toy_web_def toy_url_def is_http_def scheme_allowed_def
      port_matches_def host_key_def strip_dot_def registrable_domain_def registrable_domain_of_def str_def)

lemma toy_page: "h \<in> {str ''a.b'', str ''x.a.b''} \<Longrightarrow> parse_page toy_web h = Some (toy_url h)"
  by (auto simp: parse_page_def toy_web_def toy_url_def is_http_def MAX_URL_LEN_def str_len_def str_def utf8_len_def)

lemma toy_authorized:
  "authorize_for_page toy_core 3 (str ''x.a.b'') (Some (str ''a.b'')) (toy_open b) = Inr toy_ov"
proof -
  let ?c = "\<lparr>pc_frame = toy_url (str ''x.a.b''), pc_top = Some (toy_url (str ''a.b''))\<rparr>"
  have w: "ce_web toy_core = toy_web" by (simp add: toy_core_def)
  have "parse_context toy_core (str ''x.a.b'') (Some (str ''a.b'')) = Some ?c"
    by (simp add: parse_context_def w toy_page)
  moreover have "context_matches toy_core ?c toy_ov p \<noteq> None" for p
    using toy_matches [of "str ''a.b''" p] toy_matches [of "str ''x.a.b''" p] by (auto simp: context_matches_def w)
  moreover have "is_site_bound (ov_item_type toy_ov)" by (simp add: toy_ov_def is_site_bound_def)
  ultimately show ?thesis unfolding authorize_for_page_Inr_iff
    by (simp add: toy_open_session toy_session_def get_def)
qed

lemma toy_fill:
  assumes "load_details toy_core 3 (toy_open b) = Inr toy_login"
  shows "\<exists>c s'. fill_for_page toy_core 3 (str ''x.a.b'') (Some (str ''a.b'')) 7 (toy_open b) = (Inr c, s') \<and>
    fc_password c = Some (str ''pw'')"
  using record_fill_Inr [OF toy_open_session, of toy_core 3 "str ''x.a.b''" 7 b] assms
  by (auto simp: fill_for_page_def toy_authorized fill_reply_def toy_login_def no_login_def)

lemma toy_check_login:
  assumes "load_details toy_core 3 (toy_open b) = Inr toy_login"
  shows "check_login toy_core (str ''a.b'') None None (str ''new'') None (toy_open b) = Inr (ActUpdate 3)"
proof -
  have w: "ce_web toy_core = toy_web" by (simp add: toy_core_def)
  obtain m where m: "match_item toy_web toy_ov (toy_url (str ''a.b'')) DIRECT = Some m"
    using toy_matches [of "str ''a.b''" DIRECT] by blast
  have n: "\<not> ce_equal toy_core (str ''pw'') (str ''new'')"
    by (simp add: ce_equal_def toy_core_def secrets_equal_iff toy_items_def utf8_bytes_def utf8_def utf8_char_def str_def)
  have g: "new_suggestion toy_ov m = \<lparr>sg_id = 3, sg_kind = KindLogin, sg_title = str ''a'', sg_username = None,
      sg_bank = None, sg_has_totp = False, sg_strength = m, sg_account = None, sg_provider = None, sg_tags = []\<rparr>"
    by (simp add: new_suggestion_def toy_ov_def)
  have o: "ov_item_type toy_ov = TLogin" by (simp add: toy_ov_def)
  have "direct_matches toy_core (str ''a.b'') None (toy_open b) = Inr [new_suggestion toy_ov m]"
    using m by (simp add: direct_matches_def page_matches_def toy_open_session parse_context_def w toy_page
      toy_session_def vals_def List.map_filter_def context_matches_def is_site_bound_def o)
  moreover have "saved_login_password toy_core 3 (toy_open b) = Some (str ''pw'')"
    using assms by (simp add: saved_login_password_def toy_login_def)
  then have "save_action toy_core [new_suggestion toy_ov m] None (str ''new'') None (toy_open b) = Inr (ActUpdate 3)"
    using n by (simp add: save_action_def g normalize_username_def Let_def str_def)
  moreover have "vault_policy (toy_open b) = Inr \<lparr>allow_equivalent = equivalent_domains (ss_settings toy_session)\<rparr>"
    by (simp add: vault_policy_def toy_open_session)
  ultimately show ?thesis by (simp add: check_login_def)
qed

subsection \<open>Claims\<close>

text \<open>
  C39. A fill goes only where the item belongs. If \<open>fill_for_page\<close> returns credentials, the vault is
  unlocked, the item is a live login or bank account, its own website rules match the frame's
  address and, inside a frame, also the embedding page's, under the vault's policy; the reply is
  that item's own username and password (or bank values and password); and the call changes nothing
  but the session's list of recent fills.
\<close>

theorem fill_for_page_safe:
  assumes "fill_for_page env u page tp now_ms s = (Inr c, s')"
  shows "\<exists>x ov d f fs. session_of s = Inr x \<and> get (ss_overviews x) u = Some ov \<and>
    ov_item_type ov \<in> {TLogin, TBankAccount} \<and>
    parse_page (ce_web env) page = Some f \<and>
    match_item (ce_web env) ov f \<lparr>allow_equivalent = equivalent_domains (ss_settings x)\<rparr> \<noteq> None \<and>
    (\<forall>t. tp = Some t \<longrightarrow> (\<exists>p. parse_page (ce_web env) t = Some p \<and>
       match_item (ce_web env) ov p \<lparr>allow_equivalent = equivalent_domains (ss_settings x)\<rparr> \<noteq> None)) \<and>
    load_details env u s = Inr d \<and>
    (case d of DLogin l \<Rightarrow> c = \<lparr>fc_username = ov_username ov, fc_password = lg_password l, fc_bank = None\<rparr>
     | DBankAccount b \<Rightarrow> c = \<lparr>fc_username = None, fc_password = bk_password b, fc_bank = bank_values_of b\<rparr>
     | _ \<Rightarrow> False) \<and>
    s' = s\<lparr>vs_session := Some (x\<lparr>ss_recent_fills := fs\<rparr>)\<rparr>"
proof -
  obtain ov where a: "authorize_for_page env u page tp s = Inr ov" and r: "fill_reply env u (ov_username ov) s = Inr c"
    using assms by (auto simp: fill_for_page_def result_simps split: sum.splits if_splits prod.splits)
  obtain x k where x: "session_of s = Inr x" "get (ss_overviews x) u = Some ov" "parse_context env page tp = Some k"
    "is_site_bound (ov_item_type ov)"
    "context_matches env k ov \<lparr>allow_equivalent = equivalent_domains (ss_settings x)\<rparr> \<noteq> None"
    using a unfolding authorize_for_page_Inr_iff by blast
  obtain m where m: "context_matches env k ov \<lparr>allow_equivalent = equivalent_domains (ss_settings x)\<rparr> = Some m"
    using x(5) by auto
  have tp: "\<exists>p. parse_page (ce_web env) t = Some p \<and>
      match_item (ce_web env) ov p \<lparr>allow_equivalent = equivalent_domains (ss_settings x)\<rparr> \<noteq> None" if "tp = Some t" for t
    using that x(3) m unfolding parse_context_Some context_matches_Some by auto
  obtain d where d: "load_details env u s = Inr d"
    "case d of DLogin l \<Rightarrow> c = \<lparr>fc_username = ov_username ov, fc_password = lg_password l, fc_bank = None\<rparr>
     | DBankAccount b \<Rightarrow> c = \<lparr>fc_username = None, fc_password = bk_password b, fc_bank = bank_values_of b\<rparr>
     | _ \<Rightarrow> False"
    by (rule fill_reply_Inr [OF r]) auto
  obtain fs where "s' = s\<lparr>vs_session := Some (x\<lparr>ss_recent_fills := fs\<rparr>)\<rparr>"
  proof -
    have "s = s\<lparr>vs_session := Some (x\<lparr>ss_recent_fills := ss_recent_fills x\<rparr>)\<rparr>"
      using x(1) by (simp add: session_of_Inr_iff)
    then show thesis
      using that fill_for_page_state [of env u page tp now_ms s] record_fill_state [OF x(1), of env u page now_ms] assms
      by (metis snd_conv)
  qed
  moreover have "ov_item_type ov \<in> {TLogin, TBankAccount}" using x(4) by (simp add: is_site_bound_def)
  moreover have "parse_page (ce_web env) page = Some (pc_frame k)" using x(3) by (simp add: parse_context_Some)
  moreover have "match_item (ce_web env) ov (pc_frame k) \<lparr>allow_equivalent = equivalent_domains (ss_settings x)\<rparr> \<noteq> None"
    using m by (simp add: context_matches_Some)
  ultimately show ?thesis using x(1,2) d tp by blast
qed

lemma fill_for_page_safe_witness:
  "\<exists>b c s'. fill_for_page toy_core 3 (str ''x.a.b'') (Some (str ''a.b'')) 7 (toy_open b) = (Inr c, s') \<and>
     fc_password c = Some (str ''pw'') \<and> get (ss_overviews toy_session) 3 = Some toy_ov"
proof -
  obtain b where b: "load_details toy_core 3 (toy_open b) = Inr toy_login" using toy_details by blast
  obtain c s' where c: "fill_for_page toy_core 3 (str ''x.a.b'') (Some (str ''a.b'')) 7 (toy_open b) = (Inr c, s')"
    "fc_password c = Some (str ''pw'')"
    using toy_fill [OF b] by blast
  from fill_for_page_safe [OF c(1)] have "get (ss_overviews toy_session) 3 = Some toy_ov"
    by (auto simp: toy_open_session toy_session_def get_def)
  then show ?thesis using c by blast
qed

text \<open>
  The two questions a page may be asked agree: an item matches a page exactly when it is among
  the suggestions offered there under the vault's policy.
\<close>

theorem matches_page_iff_suggested:
  assumes "session_of s = Inr x" and "session_ok x"
    and "page_matches env page tp \<lparr>allow_equivalent = equivalent_domains (ss_settings x)\<rparr> s = Inr gs"
  shows "matches_page env u page tp s = Inr (u \<in> sg_id ` set gs)"
proof -
  let ?p = "\<lparr>allow_equivalent = equivalent_domains (ss_settings x)\<rparr>"
  have g: "set gs = {new_suggestion ov m | u ov m c. get (ss_overviews x) u = Some ov \<and> is_site_bound (ov_item_type ov) \<and>
       parse_context env page tp = Some c \<and> context_matches env c ov ?p = Some m}"
    using page_matches_set [OF assms(1,2), of env page tp ?p] assms(3) by auto
  have i: "ov_id ov = v" if "get (ss_overviews x) v = Some ov" for v ov
    using assms(2) that by (simp add: session_ok_def)
  have "u \<in> sg_id ` set gs \<longleftrightarrow> (\<exists>ov m c. get (ss_overviews x) u = Some ov \<and> is_site_bound (ov_item_type ov) \<and>
       parse_context env page tp = Some c \<and> context_matches env c ov ?p = Some m)"
    (is "?l \<longleftrightarrow> ?r")
  proof
    assume ?l
    then obtain v ov m c where v: "u = sg_id (new_suggestion ov m)" "get (ss_overviews x) v = Some ov"
      "is_site_bound (ov_item_type ov)" "parse_context env page tp = Some c" "context_matches env c ov ?p = Some m"
      unfolding g by blast
    moreover have "v = u" using v(1) i [OF v(2)] by (simp add: new_suggestion_def)
    ultimately show ?r by blast
  next
    assume ?r
    then obtain ov m c where v: "get (ss_overviews x) u = Some ov"
      "is_site_bound (ov_item_type ov)" "parse_context env page tp = Some c" "context_matches env c ov ?p = Some m"
      by blast
    then have "new_suggestion ov m \<in> set gs" unfolding g by blast
    moreover have "sg_id (new_suggestion ov m) = u" using i [OF v(1)] by (simp add: new_suggestion_def)
    ultimately show ?l by (metis image_eqI)
  qed
  then show ?thesis
    using assms(1) by (auto simp: matches_page_def vault_policy_def split: option.splits)
qed

lemma matches_page_iff_suggested_witness:
  "\<exists>gs. page_matches toy_core (str ''a.b'') None \<lparr>allow_equivalent = equivalent_domains (ss_settings toy_session)\<rparr>
      (toy_open []) = Inr gs \<and> matches_page toy_core 4 (str ''a.b'') None (toy_open []) = Inr (4 \<in> sg_id ` set gs)"
proof -
  let ?p = "\<lparr>allow_equivalent = equivalent_domains (ss_settings toy_session)\<rparr>"
  obtain gs where g: "page_matches toy_core (str ''a.b'') None ?p (toy_open []) = Inr gs"
    using page_matches_set [OF toy_open_session toy_session_ok] by blast
  then show ?thesis using matches_page_iff_suggested [OF toy_open_session toy_session_ok g] by blast
qed

text \<open>
  A browser form can propose to change only a login of that very site: when \<open>check_login\<close>
  answers update, the item is a live login (never a bank account) whose own rules match the page
  directly, not through equivalent domains, and either it has the submitted username or none was
  submitted and its saved password is the current one the form gave.
\<close>

theorem check_login_update_direct:
  assumes "session_of s = Inr x" and "session_ok x"
    and "check_login env page tp username password cur s = Inr (ActUpdate u)"
  shows "\<exists>ov c. get (ss_overviews x) u = Some ov \<and> ov_item_type ov = TLogin \<and>
    parse_context env page tp = Some c \<and> context_matches env c ov DIRECT \<noteq> None \<and>
    (normalize_username env (ov_username ov) = normalize_username env username \<or>
     (normalize_username env username = None \<and>
      (\<exists>p q. saved_login_password env u s = Some p \<and> cur = Some q \<and> ce_equal env p q)))"
proof -
  obtain gs where g: "page_matches env page tp DIRECT s = Inr gs"
    "set gs = {new_suggestion ov m | u ov m c. get (ss_overviews x) u = Some ov \<and> is_site_bound (ov_item_type ov) \<and>
       parse_context env page tp = Some c \<and> context_matches env c ov DIRECT = Some m}"
    using page_matches_set [OF assms(1,2)] by blast
  let ?cur = "case cur of Some [] \<Rightarrow> None | _ \<Rightarrow> cur"
  have "save_loop env s (normalize_username env username) password ?cur gs None [] = ActUpdate u"
    using assms(3) g(1)
    by (auto simp: check_login_def direct_matches_def save_action_def unchanged_or_add_not_update result_simps
        split: if_splits)
  from save_loop_update [OF this] obtain c where c: "c \<in> set gs" "sg_id c = u" "sg_kind c = KindLogin"
    "normalize_username env (sg_username c) = normalize_username env username \<or>
     (normalize_username env username = None \<and> (\<exists>p q. saved_login_password env u s = Some p \<and> ?cur = Some q \<and> ce_equal env p q))"
    by auto
  then obtain v ov m k where o: "c = new_suggestion ov m" "get (ss_overviews x) v = Some ov" "is_site_bound (ov_item_type ov)"
    "parse_context env page tp = Some k" "context_matches env k ov DIRECT = Some m"
    using g(2) by auto
  have "v = u" using o(1,2) c(2) assms(2) by (auto simp: session_ok_def new_suggestion_def)
  moreover have "ov_item_type ov = TLogin"
    using c(3) o(1,3) by (auto simp: new_suggestion_def is_site_bound_def split: if_splits)
  moreover have "cur = Some q" if "?cur = Some q" for q using that by (auto split: option.splits list.splits)
  ultimately show ?thesis using o c(4) by (auto simp: new_suggestion_def)
qed

lemma check_login_update_direct_witness:
  "\<exists>b. check_login toy_core (str ''a.b'') None None (str ''new'') None (toy_open b) = Inr (ActUpdate 3) \<and>
     get (ss_overviews toy_session) 3 = Some toy_ov \<and> ov_item_type toy_ov = TLogin"
proof -
  obtain b where b: "load_details toy_core 3 (toy_open b) = Inr toy_login" using toy_details by blast
  have c: "check_login toy_core (str ''a.b'') None None (str ''new'') None (toy_open b) = Inr (ActUpdate 3)"
    by (rule toy_check_login [OF b])
  from check_login_update_direct [OF toy_open_session toy_session_ok c]
  have "get (ss_overviews toy_session) 3 = Some toy_ov \<and> ov_item_type toy_ov = TLogin"
    by (auto simp: toy_session_def get_def toy_ov_def)
  then show ?thesis using c by blast
qed

text \<open>
  A locked vault answers nothing: unless the vault is unlocked, every read, search, reveal,
  suggestion, fill, code and staged question fails with the locked error, before any other check,
  and leaves the service as it was.
\<close>

theorem locked_vault_answers_locked:
  assumes "vs_state s \<noteq> VUnlocked"
  shows "list_items env s = Inl Locked \<and> search env q s = Inl Locked \<and> get_item u s = Inl Locked \<and>
    load_details env u s = Inl Locked \<and> load_trashed_details env u s = Inl Locked \<and> reveal env u fd s = Inl Locked \<and>
    vault_totp_code env u now s = Some (Inl Locked) \<and> reveal_identity env u s = Inl Locked \<and>
    vault_card_fields env u s = Inl Locked \<and> vault_bank_fields env u s = Inl Locked \<and> item_sections env u s = Inl Locked \<and>
    page_matches env page tp policy s = Inl Locked \<and> matches_page env u page tp s = Inl Locked \<and>
    fill_for_page env u page tp now_ms s = (Inl Locked, s) \<and> totp_for_page env u page tp now s = Some (Inl Locked) \<and>
    start_sso_for_page env u page tp s = Inl Locked \<and> provider_login env u s = Inl Locked \<and>
    check_login env page tp username password cur s = Inl Locked \<and> check_sso env page tp pr acct s = Inl Locked \<and>
    begin_rekey env s = Inl Locked \<and> begin_bundle s = Inl Locked \<and> begin_password_check env s = Inl Locked \<and>
    vault_settings s = Inl Locked \<and> commit_rekey t rk rv s = (Inl Locked, s)"
proof -
  have l: "session_of s = Inl Locked" using assms by (simp add: session_of_Inl_iff)
  then have "load_details env u s = Inl Locked" "vault_policy s = Inl Locked" "page_matches env page tp policy s = Inl Locked"
    "direct_matches env page tp s = Inl Locked"
    by (simp_all add: load_details_def vault_policy_def page_matches_def direct_matches_def)
  moreover from this have "authorize_for_page env u page tp s = Inl Locked" by (simp add: authorize_for_page_def)
  ultimately show ?thesis using l
    by (simp add: list_items_def search_def get_item_def load_trashed_details_def reveal_def vault_totp_code_def
        reveal_identity_def vault_card_fields_def vault_bank_fields_def item_sections_def matches_page_def fill_for_page_def
        totp_for_page_def start_sso_for_page_def provider_login_def check_login_def check_sso_def begin_rekey_def
        begin_bundle_def begin_password_check_def vault_settings_def commit_rekey_def commit_rekey_on_def)
qed

lemma locked_vault_answers_locked_witness:
  "list_items toy_core (new_service empty_store) = Inl Locked"
  using locked_vault_answers_locked [of "new_service empty_store" toy_core] by (simp add: new_service_def)

end
