(* ===== verification/Files.thy ===== *)
theory Files
  imports Model
begin

text \<open>
  Attached files (\<^verbatim>\<open>havenkeys-core/src/attachment.rs\<close>): the name a file is shown and saved under, its
  type from its leading bytes, and the edits to an item's list of files. Sealing, opening and
  staging, which need the vault's session, are in \<open>Writes\<close>.
\<close>

section \<open>Model\<close>

definition MAX_ATTACHMENT_BYTES :: nat where "MAX_ATTACHMENT_BYTES = 5 * 1024 * 1024"
definition MAX_ATTACHMENTS_PER_ITEM :: nat where "MAX_ATTACHMENTS_PER_ITEM = 20"
definition MAX_NAME_CHARS :: nat where "MAX_NAME_CHARS = 120"
definition MAX_EXTENSION_CHARS :: nat where "MAX_EXTENSION_CHARS = 10"
definition FALLBACK_NAME :: rstring where "FALLBACK_NAME = str ''attachment''"

definition TRIMMED :: "rchar \<Rightarrow> bool" where
  "TRIMMED c \<longleftrightarrow> is_whitespace c \<or> c = 46"

definition is_hidden :: "rchar \<Rightarrow> bool" where
  "is_hidden c \<longleftrightarrow> is_control c \<or> c = 0x61C \<or> (0x200B \<le> c \<and> c \<le> 0x200F) \<or> (0x2028 \<le> c \<and> c \<le> 0x202E) \<or>
     c = 0x2060 \<or> (0x2066 \<le> c \<and> c \<le> 0x2069) \<or> c = 0xFEFF"

definition numbered_device :: "rstring \<Rightarrow> rstring \<Rightarrow> bool" where
  "numbered_device stem prefix \<longleftrightarrow> str_len stem = 4 \<and> is_ascii stem \<and>
     eq_ignore_ascii_case (take 3 stem) prefix \<and> 49 \<le> stem ! 3 \<and> stem ! 3 \<le> 57"

definition is_device_name :: "rstring \<Rightarrow> bool" where
  "is_device_name name \<longleftrightarrow> (let stem = trim_end (takeWhile (\<lambda>c. c \<noteq> 46) name) in
     list_ex (eq_ignore_ascii_case stem) [str ''CON'', str ''PRN'', str ''AUX'', str ''NUL''] \<or>
     numbered_device stem (str ''COM'') \<or> numbered_device stem (str ''LPT''))"

text \<open>\<open>rfind\<close> and the slice from it: the part of a name from its last dot.\<close>

definition last_extension :: "rstring \<Rightarrow> rstring option" where
  "last_extension name = (if 46 \<in> set name
     then Some (46 # rev (takeWhile (\<lambda>c. c \<noteq> 46) (rev name))) else None)"

definition cap_length :: "rstring \<Rightarrow> rstring" where
  "cap_length name =
     (if length name \<le> MAX_NAME_CHARS then name
      else let ext = (case last_extension name of
                 Some e \<Rightarrow> if length e \<le> MAX_EXTENSION_CHARS then e else []
               | None \<Rightarrow> [])
           in take (MAX_NAME_CHARS - length ext) name @ ext)"

definition trim_end_matches :: "(rchar \<Rightarrow> bool) \<Rightarrow> rstring \<Rightarrow> rstring" where
  "trim_end_matches p s = rev (dropWhile p (rev s))"

definition trim_matches :: "(rchar \<Rightarrow> bool) \<Rightarrow> rstring \<Rightarrow> rstring" where
  "trim_matches p s = trim_end_matches p (dropWhile p s)"

definition RESERVED :: rstring where
  "RESERVED = [60, 62, 58, 34, 124, 63, 42]"

definition clean_component :: "rstring \<Rightarrow> rstring" where
  "clean_component raw =
     map (\<lambda>c. if c \<in> set RESERVED then 95 else c)
       (filter (\<lambda>c. \<not> is_hidden c) (rev (takeWhile (\<lambda>c. c \<noteq> 47 \<and> c \<noteq> 92) (rev raw))))"

definition sanitize_name :: "rstring \<Rightarrow> rstring" where
  "sanitize_name raw =
     (let name = trim_matches TRIMMED (clean_component raw) in
      if name = [] then FALLBACK_NAME
      else let name = trim_end_matches TRIMMED (cap_length name) in
        if is_device_name name then 95 # name else name)"

definition starts_with_bytes :: "nat list \<Rightarrow> bytes \<Rightarrow> bool" where
  "starts_with_bytes p b \<longleftrightarrow> take (length p) b = map of_nat p"

definition sniff :: "bytes \<Rightarrow> string" where
  "sniff b =
     (if starts_with_bytes [0x89, 0x50, 0x4E, 0x47, 0x0D, 0x0A, 0x1A, 0x0A] b then ''image/png''
      else if starts_with_bytes [0xFF, 0xD8, 0xFF] b then ''image/jpeg''
      else if starts_with_bytes (str ''RIFF'') b \<and> 12 \<le> length b \<and> take 4 (drop 8 b) = map of_nat (str ''WEBP'')
        then ''image/webp''
      else if starts_with_bytes (str ''GIF87a'') b \<or> starts_with_bytes (str ''GIF89a'') b then ''image/gif''
      else if starts_with_bytes (str ''%PDF-'') b then ''application/pdf''
      else ''application/octet-stream'')"

definition is_previewable :: "string \<Rightarrow> bool" where
  "is_previewable mime \<longleftrightarrow> mime \<in> {''image/png'', ''image/jpeg'', ''image/webp'', ''image/gif''}"

datatype AttachmentChange = AddFiles "attachment_meta list" | RemoveFile uuid

record file_edits =
  fe_added :: "attachment_meta list"
  fe_removed :: "uuid list"

definition no_edits :: file_edits where
  "no_edits = \<lparr>fe_added = [], fe_removed = []\<rparr>"

definition file_edits_is_empty :: "file_edits \<Rightarrow> bool" where
  "file_edits_is_empty e \<longleftrightarrow> fe_added e = [] \<and> fe_removed e = []"

fun remove_files :: "uuid list \<Rightarrow> attachment_meta list \<Rightarrow> attachment_meta list result" where
  "remove_files [] metas = Inr metas"
| "remove_files (u # us) metas =
     (let kept = filter (\<lambda>m. am_id m \<noteq> u) metas in
      if length kept = length metas then Inl NotFound else remove_files us kept)"

definition apply_edits :: "file_edits \<Rightarrow> item_overview \<Rightarrow> (item_overview \<times> uuid list option) result" where
  "apply_edits e ov =
     (if file_edits_is_empty e then Inr (ov, None)
      else and_then (remove_files (fe_removed e) (ov_attachments ov)) (\<lambda>kept.
        let metas = kept @ fe_added e in
        if MAX_ATTACHMENTS_PER_ITEM < length metas then Inl (InvalidInput ''An item holds up to 20 files'')
        else Inr (ov\<lparr>ov_attachments := metas\<rparr>, Some (map am_id metas))))"

section \<open>Properties\<close>

subsection \<open>The list of files\<close>

lemma remove_files_Inr_iff:
  "remove_files us metas = Inr kept \<longleftrightarrow>
     distinct us \<and> set us \<subseteq> am_id ` set metas \<and> kept = filter (\<lambda>m. am_id m \<notin> set us) metas"
proof (induction us arbitrary: metas)
  case (Cons u us)
  have l: "length (filter (\<lambda>m. am_id m \<noteq> u) metas) = length metas \<longleftrightarrow> u \<notin> am_id ` set metas"
    using length_filter_less [of _ metas "\<lambda>m. am_id m \<noteq> u"]
    by (metis (mono_tags, lifting) filter_True imageE image_eqI less_irrefl)
  have s: "set us \<subseteq> am_id ` set (filter (\<lambda>m. am_id m \<noteq> u) metas) \<longleftrightarrow> u \<notin> set us \<and> set us \<subseteq> am_id ` set metas"
    by auto
  have f: "filter (\<lambda>m. am_id m \<notin> set us) (filter (\<lambda>m. am_id m \<noteq> u) metas) = filter (\<lambda>m. am_id m \<notin> set (u # us)) metas"
    by (simp add: filter_filter conj_commute)
  show ?case
    using Cons.IH [of "filter (\<lambda>m. am_id m \<noteq> u) metas"] unfolding remove_files.simps Let_def l s f by auto
qed auto

lemma remove_files_NotFound: "remove_files us metas = Inl e \<Longrightarrow> e = NotFound"
  by (induction us arbitrary: metas) (auto simp: Let_def split: if_splits)

subsection \<open>File names\<close>

lemma set_trim_end_matches: "set (trim_end_matches p s) \<subseteq> set s"
  unfolding trim_end_matches_def using set_dropWhileD by fastforce

lemma length_trim_end_matches: "length (trim_end_matches p s) \<le> length s"
  unfolding trim_end_matches_def using length_dropWhile_le [of p "rev s"] by simp

lemma last_trim_end_matches: "trim_end_matches p s \<noteq> [] \<Longrightarrow> \<not> p (last (trim_end_matches p s))"
  unfolding trim_end_matches_def using hd_dropWhile [of p "rev s"] by (simp add: last_rev)

lemma trim_end_matches_Cons: "\<not> p c \<Longrightarrow> \<exists>t. trim_end_matches p (c # s) = c # t"
proof -
  assume "\<not> p c"
  then have "trim_end_matches p (c # s) = c # rev (if \<forall>x\<in>set s. p x then [] else dropWhile p (rev s))"
    by (simp add: trim_end_matches_def dropWhile_append)
  then show ?thesis by blast
qed

lemma trim_matches_hd: "trim_matches p s \<noteq> [] \<Longrightarrow> \<exists>c t. trim_matches p s = c # t \<and> \<not> p c"
proof -
  assume n: "trim_matches p s \<noteq> []"
  then obtain c t where d: "dropWhile p s = c # t"
    by (cases "dropWhile p s") (auto simp: trim_matches_def trim_end_matches_def)
  then have "\<not> p c" using hd_dropWhile [of p s] by auto
  then show ?thesis using trim_end_matches_Cons [of p c t] d by (auto simp: trim_matches_def)
qed

lemma length_cap_length: "length (cap_length s) \<le> MAX_NAME_CHARS"
  by (auto simp: cap_length_def Let_def MAX_NAME_CHARS_def MAX_EXTENSION_CHARS_def split: option.splits)

lemma cap_length_Cons: "\<exists>t. cap_length (c # s) = c # t"
  by (auto simp: cap_length_def Let_def MAX_NAME_CHARS_def MAX_EXTENSION_CHARS_def take_Cons'
      split: option.splits)

lemma set_last_extension: "last_extension s = Some e \<Longrightarrow> set e \<subseteq> set s"
  using set_takeWhileD [of _ "\<lambda>c. c \<noteq> 46" "rev s"] by (auto simp: last_extension_def split: if_splits)

lemma set_cap_length: "set (cap_length s) \<subseteq> set s"
  using set_last_extension [of s]
  by (auto simp: cap_length_def Let_def split: option.splits if_splits dest: in_set_takeD)

definition safe_char :: "rchar \<Rightarrow> bool" where
  "safe_char c \<longleftrightarrow> c \<noteq> 47 \<and> c \<noteq> 92 \<and> c \<notin> set RESERVED \<and> \<not> is_hidden c"

lemma clean_component_safe: "c \<in> set (clean_component raw) \<Longrightarrow> safe_char c"
proof -
  have u: "safe_char 95" by (simp add: safe_char_def RESERVED_def is_hidden_def is_control_def)
  show "c \<in> set (clean_component raw) \<Longrightarrow> safe_char c"
    using u by (auto simp: clean_component_def safe_char_def dest!: set_takeWhileD split: if_splits)
qed

lemma clean_component_fixed: "list_all safe_char s \<Longrightarrow> clean_component s = s"
proof -
  assume s: "list_all safe_char s"
  then have "takeWhile (\<lambda>c. c \<noteq> 47 \<and> c \<noteq> 92) (rev s) = rev s"
    by (auto simp: takeWhile_eq_all_conv list_all_iff safe_char_def)
  moreover have "filter (\<lambda>c. \<not> is_hidden c) s = s" using s by (auto simp: filter_id_conv list_all_iff safe_char_def)
  moreover have "map (\<lambda>c. if c \<in> set RESERVED then 95 else c) s = s"
    using s by (intro map_idI) (auto simp: list_all_iff safe_char_def)
  ultimately show ?thesis by (simp only: clean_component_def rev_rev_ident)
qed

lemma underscore_not_device: "\<not> is_device_name (95 # s)"
proof -
  obtain t where t: "trim_end (takeWhile (\<lambda>c. c \<noteq> 46) (95 # s)) = 95 # t"
    using trim_end_matches_Cons [of is_whitespace 95 "takeWhile (\<lambda>c. c \<noteq> 46) s"]
    by (auto simp: trim_end_def trim_end_matches_def is_whitespace_def)
  show ?thesis
    unfolding is_device_name_def t Let_def numbered_device_def eq_ignore_ascii_case_def
    by (simp add: str_def to_ascii_lowercase_def)
qed

text \<open>
  Any name, from anywhere, becomes one that is safe to show and to write to disk. The result is
  not empty and at most 121 characters; it holds no path separator, no character reserved on
  Windows, no control, direction or invisible character; it neither begins nor ends with a dot or
  white space (so it is not a relative path or a hidden file); and it is not a device name.
\<close>

theorem sanitize_name_safe:
  "sanitize_name raw \<noteq> [] \<and> length (sanitize_name raw) \<le> MAX_NAME_CHARS + 1 \<and>
   list_all (\<lambda>c. c \<noteq> 47 \<and> c \<noteq> 92 \<and> c \<notin> set RESERVED \<and> \<not> is_hidden c) (sanitize_name raw) \<and>
   \<not> TRIMMED (hd (sanitize_name raw)) \<and> \<not> TRIMMED (last (sanitize_name raw)) \<and>
   \<not> is_device_name (sanitize_name raw)"
proof (cases "trim_matches TRIMMED (clean_component raw) = []")
  case True
  then have "sanitize_name raw = str ''attachment''" by (simp add: sanitize_name_def FALLBACK_NAME_def)
  then show ?thesis
    by (simp add: str_def MAX_NAME_CHARS_def RESERVED_def TRIMMED_def is_hidden_def is_control_def is_whitespace_def
        is_device_name_def numbered_device_def trim_end_def eq_ignore_ascii_case_def to_ascii_lowercase_def
        str_len_def utf8_len_def)
next
  case False
  let ?n = "trim_matches TRIMMED (clean_component raw)" and ?m = "trim_end_matches TRIMMED (cap_length (trim_matches TRIMMED (clean_component raw)))"
  obtain c t where c: "?n = c # t" "\<not> TRIMMED c" using trim_matches_hd [OF False] by blast
  obtain t' where t': "cap_length ?n = c # t'" using cap_length_Cons [of c t] c(1) by auto
  then obtain t2 where m: "?m = c # t2" using trim_end_matches_Cons [of TRIMMED c t'] c(2) by auto
  have s: "safe_char d" if "d \<in> set ?m" for d
    using that set_trim_end_matches [of TRIMMED "cap_length ?n"] set_cap_length [of ?n]
      set_trim_end_matches [of TRIMMED "dropWhile TRIMMED (clean_component raw)"] clean_component_safe [of d raw]
    by (auto simp: trim_matches_def dest: set_dropWhileD)
  have l: "length ?m \<le> MAX_NAME_CHARS"
    using length_trim_end_matches [of TRIMMED "cap_length ?n"] length_cap_length [of ?n] by linarith
  have e: "\<not> TRIMMED (last ?m)" using last_trim_end_matches [of TRIMMED "cap_length ?n"] m by simp
  have u: "safe_char 95" "\<not> TRIMMED 95"
    by (simp_all add: safe_char_def RESERVED_def is_hidden_def is_control_def TRIMMED_def is_whitespace_def)
  have r: "sanitize_name raw = (if is_device_name ?m then 95 # ?m else ?m)"
    using False by (simp add: sanitize_name_def Let_def)
  show ?thesis
    using s l e u m c(2) underscore_not_device [of ?m] unfolding r
    by (simp add: list_all_iff safe_char_def)
qed

text \<open>
  The escape of a device name comes after the cap on the length, so a long one ends up one character
  over the hundred and twenty that the cap allows.
\<close>

lemma device_name_over_cap:
  "length (sanitize_name (str ''CON.'' @ replicate 116 97)) = MAX_NAME_CHARS + 1"
proof -
  let ?s = "str ''CON.'' @ replicate 116 97"
  have c: "clean_component ?s = ?s"
    by (rule clean_component_fixed)
      (simp add: list_all_iff safe_char_def RESERVED_def is_hidden_def is_control_def str_def)
  have r: "replicate 116 (97 :: rchar) = 97 # replicate 115 97" using replicate_Suc [of 115 "97 :: rchar"] by simp
  have e: "trim_end_matches TRIMMED ?s = ?s"
    unfolding trim_end_matches_def r by (simp add: TRIMMED_def is_whitespace_def str_def replicate_append_same)
  then have t: "trim_matches TRIMMED ?s = ?s"
    by (simp add: trim_matches_def TRIMMED_def is_whitespace_def str_def)
  have k: "cap_length ?s = ?s" by (simp add: cap_length_def MAX_NAME_CHARS_def str_def)
  have d: "is_device_name ?s"
    by (simp add: is_device_name_def Let_def trim_end_def is_whitespace_def eq_ignore_ascii_case_def str_def
        to_ascii_lowercase_def)
  have n: "?s \<noteq> []" by (simp add: str_def)
  show ?thesis
    unfolding sanitize_name_def c t k e Let_def using d n by (simp add: MAX_NAME_CHARS_def str_def)
qed

text \<open>
  What an edit does to an item's files: it is refused with not-found exactly when it removes a
  file the item does not list (or the same one twice), with an input error exactly when more than
  twenty would be left, and otherwise leaves the files not removed, in their order, followed by the
  added ones, reports all their identifiers to the server, and changes nothing else of the item.
\<close>

theorem apply_edits_effect:
  "apply_edits e ov =
    (if file_edits_is_empty e then Inr (ov, None)
     else if \<not> (distinct (fe_removed e) \<and> set (fe_removed e) \<subseteq> am_id ` set (ov_attachments ov)) then Inl NotFound
     else let metas = filter (\<lambda>m. am_id m \<notin> set (fe_removed e)) (ov_attachments ov) @ fe_added e in
       if length metas > 20 then Inl (InvalidInput ''An item holds up to 20 files'')
       else Inr (ov\<lparr>ov_attachments := metas\<rparr>, Some (map am_id metas)))"
proof (cases "remove_files (fe_removed e) (ov_attachments ov)")
  case (Inl x)
  then have "\<not> (distinct (fe_removed e) \<and> set (fe_removed e) \<subseteq> am_id ` set (ov_attachments ov))"
    using remove_files_Inr_iff [of "fe_removed e" "ov_attachments ov"] by auto
  then show ?thesis using Inl remove_files_NotFound [OF Inl] by (simp add: apply_edits_def)
next
  case (Inr kept)
  then show ?thesis
    unfolding remove_files_Inr_iff
    by (simp add: apply_edits_def MAX_ATTACHMENTS_PER_ITEM_def Let_def Inr)
qed

end
