(* ===== verification/Writes.thy ===== *)
theory Writes
  imports Pages Files Tags
begin

text \<open>
  Writing items (\<^verbatim>\<open>havenkeys-core/src/vault.rs\<close>, \<^verbatim>\<open>trash.rs\<close>, \<^verbatim>\<open>attachment.rs\<close>). A write is staged (its
  blobs sealed under the open session), accepted by the server outside this crate, and committed
  with the revision the server gave it. The random bytes of the two seals are the argument \<open>rn\<close>,
  a fresh item identifier the argument \<open>u\<close>.
\<close>

section \<open>Model\<close>

subsection \<open>Staging\<close>

type_synonym nonces = "bytes option \<times> bytes option"

record staged_write =
  sw_item_id :: uuid
  sw_base_revision :: "int option"
  sw_overview :: "bytes option"
  sw_details :: "bytes option"
  sw_attachment_ids :: "uuid list option"
  sw_epoch :: u64
  sw_plain :: "item_overview option"

definition staged_item_type :: "staged_write \<Rightarrow> ItemType option" where
  "staged_item_type w = map_option ov_item_type (sw_plain w)"

record staged_save =
  sv_write :: staged_write
  sv_item_id :: uuid

definition seal_staged ::
  "core_env \<Rightarrow> nonces \<Rightarrow> item_overview \<Rightarrow> item_details option \<Rightarrow> int option \<Rightarrow> service \<Rightarrow> staged_write result" where
  "seal_staged env rn ov details base s =
     and_then (session_of s) (\<lambda>x.
     and_then (seal_json env (fst rn) (ss_data_key x) (item_ctx PItemOverview (ss_vault_id x) (ov_id ov))
         (enc_overview env) ov) (\<lambda>ob.
     and_then (case details of
         Some d \<Rightarrow> and_then (seal_json env (snd rn) (ss_data_key x)
             (item_details_ctx (ce_crypto env) (ss_vault_id x) (ov_id ov) ob) (enc_details env) d) (\<lambda>db. Inr (Some db))
       | None \<Rightarrow> Inr None) (\<lambda>db.
     Inr \<lparr>sw_item_id = ov_id ov, sw_base_revision = base, sw_overview = Some ob, sw_details = db,
       sw_attachment_ids = None, sw_epoch = vs_epoch s, sw_plain = Some ov\<rparr>)))"

definition tag_spellings :: "core_env \<Rightarrow> uuid option \<Rightarrow> service \<Rightarrow> (rstring, rstring) table result" where
  "tag_spellings env except s =
     and_then (session_of s) (\<lambda>x.
     Inr (spellings (ce_lower env) (map ov_tags (filter (\<lambda>o1. Some (ov_id o1) \<noteq> except) (vals (ss_overviews x))))))"

definition stage ::
  "core_env \<Rightarrow> nonces \<Rightarrow> item_overview \<Rightarrow> item_details option \<Rightarrow> int option \<Rightarrow> service \<Rightarrow> staged_write result" where
  "stage env rn ov details base s =
     (if ov_tags ov = [] then seal_staged env rn ov details base s
      else and_then (tag_spellings env (Some (ov_id ov)) s) (\<lambda>sp.
        seal_staged env rn (ov\<lparr>ov_tags := canonicalize (ce_lower env) (ov_tags ov) sp\<rparr>) details base s))"

definition note_tag :: "core_env \<Rightarrow> rstring \<Rightarrow> (rstring, rstring) table \<Rightarrow> (rstring, rstring) table" where
  "note_tag env t batch = (if has_key batch (ce_lower env t) then batch else put (ce_lower env t) t batch)"

definition stage_in_batch ::
  "core_env \<Rightarrow> nonces \<Rightarrow> item_overview \<Rightarrow> item_details option \<Rightarrow> int option \<Rightarrow> (rstring, rstring) table \<Rightarrow> service \<Rightarrow>
   staged_write result \<times> (rstring, rstring) table" where
  "stage_in_batch env rn ov details base batch s = (case session_of s of
     Inl e \<Rightarrow> (Inl e, batch)
   | Inr x \<Rightarrow>
       if has_key (ss_overviews x) (ov_id ov) then (stage env rn ov details base s, batch)
       else if ov_tags ov = [] then (seal_staged env rn ov details base s, batch)
       else let tags = canonicalize (ce_lower env) (ov_tags ov) batch in
         (seal_staged env rn (ov\<lparr>ov_tags := tags\<rparr>) details base s, fold (note_tag env) tags batch))"

definition tombstone :: "uuid \<Rightarrow> service \<Rightarrow> staged_write" where
  "tombstone u s = \<lparr>sw_item_id = u, sw_base_revision = item_revision (vs_store s) u, sw_overview = None,
     sw_details = None, sw_attachment_ids = None, sw_epoch = vs_epoch s, sw_plain = None\<rparr>"

definition stage_create_with ::
  "core_env \<Rightarrow> nonces \<Rightarrow> uuid \<Rightarrow> item_input \<Rightarrow> file_edits \<Rightarrow> int \<Rightarrow> service \<Rightarrow> staged_write result" where
  "stage_create_with env rn u i files now_ms s =
     and_then (ensure (in_item_type i \<noteq> TIdentity) Denied) (\<lambda>_.
     and_then (build_item (ce_items env) u i None now_ms now_ms) (\<lambda>(ov, d).
     and_then (apply_edits files ov) (\<lambda>(ov, ids).
     and_then (stage env rn ov (Some d) None s) (\<lambda>w.
     Inr (w\<lparr>sw_attachment_ids := ids\<rparr>)))))"

definition stage_create :: "core_env \<Rightarrow> nonces \<Rightarrow> uuid \<Rightarrow> item_input \<Rightarrow> int \<Rightarrow> service \<Rightarrow> staged_write result" where
  "stage_create env rn u i now_ms s = stage_create_with env rn u i no_edits now_ms s"

definition stage_update_with ::
  "core_env \<Rightarrow> nonces \<Rightarrow> uuid \<Rightarrow> item_input \<Rightarrow> file_edits \<Rightarrow> int \<Rightarrow> service \<Rightarrow> staged_write result" where
  "stage_update_with env rn u i files now_ms s =
     and_then (get_item u s) (\<lambda>existing.
     and_then (ensure (ov_item_type existing = in_item_type i) (InvalidInput ''item type cannot change'')) (\<lambda>_.
     let i = i\<lparr>in_auto_sign_in := Some (case in_auto_sign_in i of Some b \<Rightarrow> b | None \<Rightarrow> ov_auto_sign_in existing),
               in_tags := Some (case in_tags i of Some t \<Rightarrow> t | None \<Rightarrow> ov_tags existing)\<rparr> in
     and_then (load_details env u s) (\<lambda>current.
     and_then (build_item (ce_items env) u i (Some current) (ov_created_at existing) now_ms) (\<lambda>(ov, d).
     and_then (apply_edits files (ov\<lparr>ov_extra := ov_extra existing, ov_attachments := ov_attachments existing\<rparr>)) (\<lambda>(ov, ids).
     and_then (stage env rn ov (Some d) (item_revision (vs_store s) u) s) (\<lambda>w.
     Inr (w\<lparr>sw_attachment_ids := ids\<rparr>)))))))"

definition stage_update :: "core_env \<Rightarrow> nonces \<Rightarrow> uuid \<Rightarrow> item_input \<Rightarrow> int \<Rightarrow> service \<Rightarrow> staged_write result" where
  "stage_update env rn u i now_ms s = stage_update_with env rn u i no_edits now_ms s"

definition vault_item_revision :: "uuid \<Rightarrow> service \<Rightarrow> int option result" where
  "vault_item_revision u s = and_then (session_of s) (\<lambda>_. Inr (item_revision (vs_store s) u))"

definition stage_delete :: "uuid \<Rightarrow> service \<Rightarrow> staged_write result" where
  "stage_delete u s =
     and_then (session_of s) (\<lambda>x.
     and_then (ensure (has_key (ss_overviews x) u) NotFound) (\<lambda>_.
     and_then (ensure (u \<noteq> ss_identity_id x) Denied) (\<lambda>_.
     Inr (tombstone u s))))"

definition identity_item_id :: "service \<Rightarrow> uuid result" where
  "identity_item_id s = and_then (session_of s) (\<lambda>x. Inr (ss_identity_id x))"

definition stage_identity_if_missing ::
  "core_env \<Rightarrow> nonces \<Rightarrow> rstring \<Rightarrow> int \<Rightarrow> service \<Rightarrow> staged_write option result" where
  "stage_identity_if_missing env rn email now_ms s =
     and_then (session_of s) (\<lambda>x.
     let u = ss_identity_id x in
     if has_key (ss_overviews x) u \<or> has_key (ss_trash x) u then Inr None
     else
       and_then (build_item (ce_items env) u
         ((blank_input TIdentity [])\<lparr>in_identity := Some (empty_identity\<lparr>id_email := Some email\<rparr>)\<rparr>) None now_ms now_ms) (\<lambda>(ov, d).
       and_then (stage env rn ov (Some d) None s) (\<lambda>w. Inr (Some w))))"

subsection \<open>Saves from a page\<close>

definition login_input_from :: "item_overview \<Rightarrow> item_input" where
  "login_input_from existing =
     (blank_input TLogin (ov_title existing))\<lparr>in_username := ov_username existing, in_urls := ov_urls existing\<rparr>"

definition new_login_for_frame ::
  "core_env \<Rightarrow> rstring \<Rightarrow> rstring option \<Rightarrow> rstring option \<Rightarrow> item_input result" where
  "new_login_for_frame env page_url top_url title =
     and_then (ok_or Denied (parse_context env page_url top_url)) (\<lambda>page.
     and_then (ok_or Denied (title_and_origin (pc_frame page))) (\<lambda>(host, origin).
     and_then (case title of Some t \<Rightarrow> clean_title t | None \<Rightarrow> Inr host) (\<lambda>title.
     Inr ((blank_input TLogin title)\<lparr>in_urls := [\<lparr>rule_url = origin, match_type = MDomain\<rparr>]\<rparr>))))"

definition stage_save_update ::
  "core_env \<Rightarrow> nonces \<Rightarrow> uuid \<Rightarrow> rstring \<Rightarrow> rstring option \<Rightarrow> rstring \<Rightarrow> int \<Rightarrow> service \<Rightarrow> staged_save result" where
  "stage_save_update env rn u page_url top_url password now_ms s =
     and_then (authorize_for_page_with env u page_url top_url DIRECT s) (\<lambda>existing.
     and_then (ensure (ov_item_type existing = TLogin) Denied) (\<lambda>_.
     and_then (stage_update env rn u
         ((login_input_from existing)\<lparr>in_password := Set password, in_sign_in_with := ov_sign_in_with existing\<rparr>) now_ms s) (\<lambda>w.
     Inr \<lparr>sv_write = w, sv_item_id = u\<rparr>)))"

definition stage_save_login ::
  "core_env \<Rightarrow> nonces \<Rightarrow> uuid \<Rightarrow> rstring \<Rightarrow> rstring option \<Rightarrow> rstring option \<Rightarrow> rstring \<Rightarrow> SaveTarget \<Rightarrow> int \<Rightarrow>
   service \<Rightarrow> staged_save result" where
  "stage_save_login env rn u page_url top_url username password target now_ms s =
     and_then (ensure (password \<noteq> []) (InvalidInput ''password is required'')) (\<lambda>_.
     and_then (session_of s) (\<lambda>_.
     (case target of
        Update v \<Rightarrow> stage_save_update env rn v page_url top_url password now_ms s
      | New title \<Rightarrow>
        and_then (new_login_for_frame env page_url top_url title) (\<lambda>base.
        and_then (stage_create env rn u (base\<lparr>in_username := username, in_password := Set password\<rparr>) now_ms s) (\<lambda>w.
        Inr \<lparr>sv_write = w, sv_item_id = sw_item_id w\<rparr>)))))"

definition stage_save_sso ::
  "core_env \<Rightarrow> nonces \<Rightarrow> uuid \<Rightarrow> rstring \<Rightarrow> rstring option \<Rightarrow> SsoProvider \<Rightarrow> rstring option \<Rightarrow> SaveTarget \<Rightarrow> int \<Rightarrow>
   service \<Rightarrow> staged_save result" where
  "stage_save_sso env rn u page_url top_url p acct target now_ms s =
     and_then (session_of s) (\<lambda>_.
     let siw = Some \<lparr>provider = p, siw_account = acct\<rparr> in
     (case target of
        New title \<Rightarrow>
        and_then (new_login_for_frame env page_url top_url title) (\<lambda>base.
        and_then (stage_create env rn u (base\<lparr>in_sign_in_with := siw\<rparr>) now_ms s) (\<lambda>w.
        Inr \<lparr>sv_write = w, sv_item_id = sw_item_id w\<rparr>))
      | Update v \<Rightarrow>
        and_then (ensure (has_text acct) (InvalidInput ''account is required'')) (\<lambda>_.
        and_then (authorize_for_page_with env v page_url top_url DIRECT s) (\<lambda>existing.
        and_then (ensure (map_option provider (ov_sign_in_with existing) = Some p) Denied) (\<lambda>_.
        and_then (stage_update env rn v ((login_input_from existing)\<lparr>in_sign_in_with := siw\<rparr>) now_ms s) (\<lambda>w.
        Inr \<lparr>sv_write = w, sv_item_id = v\<rparr>))))))"

subsection \<open>Committing\<close>

text \<open>
  The first argument says whether the store takes the one statement of the commit. When it fails, the
  session has already counted a change and dropped its health report.
\<close>

definition commit_write_on :: "bool \<Rightarrow> staged_write \<Rightarrow> int \<Rightarrow> service \<Rightarrow> item_overview option result \<times> service" where
  "commit_write_on stored w rv s = (case session_of s of
     Inl e \<Rightarrow> (Inl e, s)
   | Inr _ \<Rightarrow>
       if sw_epoch w \<noteq> vs_epoch s then (Inl Locked, s)
       else let s1 = with_session s (\<lambda>x. x\<lparr>ss_generation := ss_generation x + 1, ss_health := None\<rparr>) in
         (case (sw_overview w, sw_details w, sw_plain w) of
            (Some ob, Some db, Some ov) \<Rightarrow>
              if \<not> stored then (Inl Storage, s1)
              else (Inr (Some ov), with_session (s1\<lparr>vs_store := upsert_item (sw_item_id w) ob db rv (vs_store s1)\<rparr>) (place ov))
          | (None, None, None) \<Rightarrow>
              if \<not> stored then (Inl Storage, s1)
              else (Inr None, with_session (s1\<lparr>vs_store := fst (delete_item (sw_item_id w) (vs_store s1))\<rparr>) (forget (sw_item_id w)))
          | _ \<Rightarrow> (Inl (InvalidInput ''malformed staged write''), s1)))"

definition commit_write :: "staged_write \<Rightarrow> int \<Rightarrow> service \<Rightarrow> item_overview option result \<times> service" where
  "commit_write = commit_write_on True"

subsection \<open>Trash\<close>

definition TRASH_RETENTION_MS :: int where "TRASH_RETENTION_MS = 30 * 86400000"
definition DAY_MS :: int where "DAY_MS = 86400000"

definition stage_trash :: "core_env \<Rightarrow> nonces \<Rightarrow> uuid \<Rightarrow> int \<Rightarrow> service \<Rightarrow> staged_write result" where
  "stage_trash env rn u now_ms s =
     and_then (session_of s) (\<lambda>x.
     and_then (ensure (u \<noteq> ss_identity_id x) Denied) (\<lambda>_.
     and_then (ok_or NotFound (get (ss_overviews x) u)) (\<lambda>ov.
     and_then (vault_item_revision u s) (\<lambda>base.
     (case load_details env u s of
        Inr d \<Rightarrow> seal_staged env rn (ov\<lparr>ov_trashed_at := Some now_ms\<rparr>) (Some d) base s
      | Inl e \<Rightarrow> if e = Decryption \<or> e = Corrupted then Inr (tombstone u s) else Inl e)))))"

definition stage_restore_trashed :: "core_env \<Rightarrow> nonces \<Rightarrow> uuid \<Rightarrow> service \<Rightarrow> staged_write result" where
  "stage_restore_trashed env rn u s =
     and_then (session_of s) (\<lambda>x.
     and_then (ok_or NotFound (get (ss_trash x) u)) (\<lambda>ov.
     and_then (load_trashed_details env u s) (\<lambda>d.
     and_then (vault_item_revision u s) (\<lambda>base.
     stage env rn (ov\<lparr>ov_trashed_at := None\<rparr>) (Some d) base s))))"

definition stage_purge :: "uuid \<Rightarrow> service \<Rightarrow> staged_write result" where
  "stage_purge u s =
     and_then (session_of s) (\<lambda>x.
     and_then (ensure (\<not> (u = ss_identity_id x \<or> \<not> has_key (ss_trash x) u)) NotFound) (\<lambda>_.
     Inr (tombstone u s)))"

definition stage_empty_trash :: "service \<Rightarrow> staged_write list result" where
  "stage_empty_trash s =
     and_then (session_of s) (\<lambda>x.
     Inr (map (\<lambda>u. tombstone u s) (sort (filter (\<lambda>u. u \<noteq> ss_identity_id x) (keys (ss_trash x))))))"

definition trash_due :: "int \<Rightarrow> item_overview \<Rightarrow> bool" where
  "trash_due now_ms ov = (case ov_trashed_at ov of
     None \<Rightarrow> False | Some t \<Rightarrow> TRASH_RETENTION_MS \<le> saturating_sub now_ms t)"

definition stage_expired_trash :: "int \<Rightarrow> service \<Rightarrow> staged_write list result" where
  "stage_expired_trash now_ms s =
     and_then (session_of s) (\<lambda>x.
     Inr (map (\<lambda>u. tombstone u s)
       (sort (map ov_id (filter (\<lambda>ov. ov_id ov \<noteq> ss_identity_id x \<and> trash_due now_ms ov) (vals (ss_trash x)))))))"

definition days_left :: "int \<Rightarrow> int \<Rightarrow> nat" where
  "days_left trashed_at now_ms =
     (let remaining = saturating_sub (saturating_add trashed_at TRASH_RETENTION_MS) now_ms;
          days = saturating_add remaining (DAY_MS - 1) div DAY_MS
      in nat (min (max days 0) (TRASH_RETENTION_MS div DAY_MS)))"

record trash_entry =
  te_days_left :: nat
  te_overview :: item_overview

text \<open>Newest first: the reverse order of an optional time has no time last.\<close>

fun reverse_time :: "int option \<Rightarrow> nat \<times> int" where
  "reverse_time (Some t) = (0, - t)"
| "reverse_time None = (1, 0)"

definition list_trash :: "int \<Rightarrow> service \<Rightarrow> trash_entry list result" where
  "list_trash now_ms s =
     and_then (session_of s) (\<lambda>x.
     Inr (sort_key (\<lambda>e. (reverse_time (ov_trashed_at (te_overview e)), ov_id (te_overview e)))
       (map (\<lambda>ov. \<lparr>te_days_left = days_left (case ov_trashed_at ov of Some t \<Rightarrow> t | None \<Rightarrow> now_ms) now_ms, te_overview = ov\<rparr>)
          (vals (ss_trash x)))))"

definition trash_count :: "service \<Rightarrow> nat result" where
  "trash_count s = and_then (session_of s) (\<lambda>x. Inr (length (ss_trash x)))"

subsection \<open>Attachments\<close>

record sealed_attachment =
  sl_meta :: attachment_meta
  sl_blob :: bytes

definition seal_attachment ::
  "core_env \<Rightarrow> bytes option \<Rightarrow> uuid \<Rightarrow> uuid \<Rightarrow> rstring \<Rightarrow> bytes \<Rightarrow> int \<Rightarrow> service \<Rightarrow> sealed_attachment result" where
  "seal_attachment env rnd a u name bs now_ms s =
     and_then (ensure (length bs \<le> MAX_ATTACHMENT_BYTES) (InvalidInput ''Files can be up to 5 MB'')) (\<lambda>_.
     and_then (session_of s) (\<lambda>x.
     and_then (seal (ce_crypto env) rnd (ss_data_key x) (attachment_ctx (ce_crypto env) (ss_vault_id x) u a) bs) (\<lambda>b.
     Inr \<lparr>sl_meta = \<lparr>am_id = a, am_name = sanitize_name name, am_mime = str (sniff bs), am_size = length bs,
         am_blob_sha256 = sha256 (ce_crypto env) b, am_created_at = now_ms, am_extra = []\<rparr>, sl_blob = b\<rparr>)))"

definition open_attachment :: "core_env \<Rightarrow> uuid \<Rightarrow> attachment_meta \<Rightarrow> bytes \<Rightarrow> service \<Rightarrow> bytes result" where
  "open_attachment env u m b s =
     and_then (ensure (sha256 (ce_crypto env) b = am_blob_sha256 m) Decryption) (\<lambda>_.
     and_then (session_of s) (\<lambda>x.
     open_blob (ce_crypto env) (ss_data_key x) (attachment_ctx (ce_crypto env) (ss_vault_id x) u (am_id m)) b))"

definition stored_overview :: "session \<Rightarrow> uuid \<Rightarrow> item_overview result" where
  "stored_overview x u = ok_or NotFound (case get (ss_overviews x) u of Some ov \<Rightarrow> Some ov | None \<Rightarrow> get (ss_trash x) u)"

definition find_attachment_meta :: "uuid \<Rightarrow> uuid \<Rightarrow> service \<Rightarrow> attachment_meta result" where
  "find_attachment_meta u a s =
     and_then (session_of s) (\<lambda>x.
     and_then (stored_overview x u) (\<lambda>ov. ok_or NotFound (find (\<lambda>m. am_id m = a) (ov_attachments ov))))"

definition on_cache :: "(store \<Rightarrow> store) \<Rightarrow> service \<Rightarrow> unit result \<times> service" where
  "on_cache f s = (case session_of s of Inl e \<Rightarrow> (Inl e, s) | Inr _ \<Rightarrow> (Inr (), s\<lparr>vs_store := f (vs_store s)\<rparr>))"

definition vault_cached_attachment :: "int \<Rightarrow> uuid \<Rightarrow> service \<Rightarrow> bytes option result \<times> service" where
  "vault_cached_attachment clock a s = (case session_of s of
     Inl e \<Rightarrow> (Inl e, s)
   | Inr _ \<Rightarrow> (case cached_attachment clock a (vs_store s) of (st, b) \<Rightarrow> (Inr b, s\<lparr>vs_store := st\<rparr>)))"

definition cache_attachment :: "uuid \<Rightarrow> bytes \<Rightarrow> int \<Rightarrow> service \<Rightarrow> unit result \<times> service" where
  "cache_attachment a b now_ms s = on_cache (put_cached_attachment a b now_ms) s"

definition evict_attachment :: "uuid \<Rightarrow> service \<Rightarrow> unit result \<times> service" where
  "evict_attachment a s = on_cache (delete_cached_attachment a) s"

definition vault_prune_attachment_cache :: "nat \<Rightarrow> service \<Rightarrow> unit result \<times> service" where
  "vault_prune_attachment_cache cap_bytes s = (case session_of s of
     Inl e \<Rightarrow> (Inl e, s)
   | Inr x \<Rightarrow> on_cache (Store.prune_attachment_cache
       (concat (map (\<lambda>ov. map am_id (ov_attachments ov)) (vals (ss_overviews x) @ vals (ss_trash x)))) cap_bytes) s)"

definition change_files :: "AttachmentChange \<Rightarrow> attachment_meta list \<Rightarrow> attachment_meta list result" where
  "change_files c metas = (case c of
     AddFiles ms \<Rightarrow> if MAX_ATTACHMENTS_PER_ITEM < length metas + length ms
       then Inl (InvalidInput ''An item holds up to 20 files'') else Inr (metas @ ms)
   | RemoveFile a \<Rightarrow> (let kept = filter (\<lambda>m. am_id m \<noteq> a) metas in
       if length kept = length metas then Inl NotFound else Inr kept))"

definition stage_attachments ::
  "core_env \<Rightarrow> nonces \<Rightarrow> uuid \<Rightarrow> AttachmentChange \<Rightarrow> int \<Rightarrow> service \<Rightarrow> staged_write result" where
  "stage_attachments env rn u c now_ms s =
     and_then (session_of s) (\<lambda>x.
     and_then (stored_overview x u) (\<lambda>ov.
     and_then (change_files c (ov_attachments ov)) (\<lambda>metas.
     let ov1 = ov\<lparr>ov_attachments := metas, ov_updated_at := now_ms\<rparr> in
     and_then (vault_item_revision u s) (\<lambda>base.
     and_then (if ov_trashed_at ov1 \<noteq> None then load_trashed_details env u s else load_details env u s) (\<lambda>d.
     and_then (seal_staged env rn ov1 (Some d) base s) (\<lambda>w.
     Inr (w\<lparr>sw_attachment_ids := Some (map am_id metas)\<rparr>)))))))"

section \<open>Properties\<close>

text \<open>
  What the writes rely on of the code outside this repository: authenticated encryption opens what it
  sealed, decoding the JSON of a value gives it back, and the random generator fills its buffers.
\<close>

definition env_ok :: "core_env \<Rightarrow> bool" where
  "env_ok env \<longleftrightarrow> aead_ok (ce_crypto env) \<and> settings_json_ok env \<and>
     (\<forall>v p. enc_overview env v = Some p \<longrightarrow> dec_overview env p = Some v) \<and>
     (\<forall>v p. enc_details env v = Some p \<longrightarrow> dec_details env p = Some v)"

definition nonces_ok :: "nonces \<Rightarrow> bool" where
  "nonces_ok rn \<longleftrightarrow> (\<forall>n. fst rn = Some n \<or> snd rn = Some n \<longrightarrow> length n = NONCE_LEN)"

subsection \<open>Sealed writes\<close>

text \<open>A write that the given session opens to an overview and its details.\<close>

definition sealed_as :: "core_env \<Rightarrow> session \<Rightarrow> staged_write \<Rightarrow> item_overview \<Rightarrow> item_details \<Rightarrow> bool" where
  "sealed_as env x w ov d \<longleftrightarrow> sw_item_id w = ov_id ov \<and> sw_plain w = Some ov \<and> details_type d = ov_item_type ov \<and>
     (\<exists>ob db. sw_overview w = Some ob \<and> sw_details w = Some db \<and>
        open_overview env (ss_data_key x) (ss_vault_id x) (ov_id ov, ob) = Inr ov \<and>
        open_json env (ss_data_key x) (item_details_ctx (ce_crypto env) (ss_vault_id x) (ov_id ov) ob) (dec_details env) db = Inr d)"

definition is_tombstone :: "staged_write \<Rightarrow> bool" where
  "is_tombstone w \<longleftrightarrow> sw_overview w = None \<and> sw_details w = None \<and> sw_plain w = None"

definition staged_ok :: "core_env \<Rightarrow> session \<Rightarrow> staged_write \<Rightarrow> bool" where
  "staged_ok env x w \<longleftrightarrow> is_tombstone w \<or> (\<exists>ov d. sealed_as env x w ov d)"

lemma sealed_as_keys:
  "ss_data_key y = ss_data_key x \<Longrightarrow> ss_vault_id y = ss_vault_id x \<Longrightarrow> sealed_as env y w ov d \<longleftrightarrow> sealed_as env x w ov d"
  by (simp add: sealed_as_def)

lemma staged_ok_keys:
  "ss_data_key y = ss_data_key x \<Longrightarrow> ss_vault_id y = ss_vault_id x \<Longrightarrow> staged_ok env y w \<longleftrightarrow> staged_ok env x w"
  by (simp add: staged_ok_def sealed_as_def)

lemma sealed_as_attachments [simp]:
  "sealed_as env x (w\<lparr>sw_attachment_ids := ids\<rparr>) ov d \<longleftrightarrow> sealed_as env x w ov d"
  by (simp add: sealed_as_def)

lemma tombstone_is_tombstone [simp]: "is_tombstone (tombstone u s)" "sw_epoch (tombstone u s) = vs_epoch s"
  "sw_item_id (tombstone u s) = u"
  by (simp_all add: is_tombstone_def tombstone_def)

lemma seal_staged_sealed:
  assumes "env_ok env" and "nonces_ok rn" and "session_of s = Inr x" and "details_type d = ov_item_type ov"
    and "seal_staged env rn ov (Some d) base s = Inr w"
  shows "sealed_as env x w ov d \<and> sw_epoch w = vs_epoch s \<and> sw_base_revision w = base"
proof -
  obtain ob db where b:
    "seal_json env (fst rn) (ss_data_key x) (item_ctx PItemOverview (ss_vault_id x) (ov_id ov)) (enc_overview env) ov = Inr ob"
    "seal_json env (snd rn) (ss_data_key x) (item_details_ctx (ce_crypto env) (ss_vault_id x) (ov_id ov) ob) (enc_details env) d = Inr db"
    "w = \<lparr>sw_item_id = ov_id ov, sw_base_revision = base, sw_overview = Some ob, sw_details = Some db,
       sw_attachment_ids = None, sw_epoch = vs_epoch s, sw_plain = Some ov\<rparr>"
    using assms(3,5) by (auto simp: seal_staged_def result_simps)
  have a: "aead_ok (ce_crypto env)" "\<And>p. enc_overview env ov = Some p \<Longrightarrow> dec_overview env p = Some ov"
    "\<And>p. enc_details env d = Some p \<Longrightarrow> dec_details env p = Some d"
    using assms(1) by (auto simp: env_ok_def)
  obtain n where n: "fst rn = Some n" "length n = NONCE_LEN"
    using b(1) assms(2) by (cases "fst rn") (auto simp: seal_json_def seal_def seal_with_aad_def result_simps nonces_ok_def split: if_splits)
  obtain m where m: "snd rn = Some m" "length m = NONCE_LEN"
    using b(2) assms(2) by (cases "snd rn") (auto simp: seal_json_def seal_def seal_with_aad_def result_simps nonces_ok_def split: if_splits)
  have "open_json env (ss_data_key x) (item_ctx PItemOverview (ss_vault_id x) (ov_id ov)) (dec_overview env) ob = Inr ov"
    by (rule open_json_seal_json [OF a(1) n(2)]) (use b(1) n(1) a(2) in auto)
  moreover have "open_json env (ss_data_key x) (item_details_ctx (ce_crypto env) (ss_vault_id x) (ov_id ov) ob)
      (dec_details env) db = Inr d"
    by (rule open_json_seal_json [OF a(1) m(2)]) (use b(2) m(1) a(3) in auto)
  ultimately show ?thesis using assms(4) by (simp add: sealed_as_def b(3) open_overview_def)
qed

text \<open>The same tags up to upper and lower case, each of them once, in the order of their keys.\<close>

definition same_tags :: "(rstring \<Rightarrow> rstring) \<Rightarrow> rstring list \<Rightarrow> rstring list \<Rightarrow> bool" where
  "same_tags lower ts us \<longleftrightarrow> lower ` set us = lower ` set ts \<and> sorted_wrt (\<lambda>a b. lower a < lower b) us"

lemma same_tags_Nil [simp]: "same_tags lower [] us \<longleftrightarrow> us = []"
  by (auto simp: same_tags_def)

lemma same_tags_canonicalize: "same_tags lower ts (canonicalize lower ts (spellings lower sets))"
  using canonicalize_keys [of "spellings lower sets" lower ts]
  by (auto simp: same_tags_def spellings_iff canonicalize_def dedupe_sorted_form [unfolded strictly_sorted_def])

lemma overview_tags_same: "ov\<lparr>ov_tags := ov_tags ov\<rparr> = (ov :: item_overview)" by simp

lemma stage_sealed:
  assumes "env_ok env" and "nonces_ok rn" and "session_of s = Inr x" and "details_type d = ov_item_type ov"
    and "stage env rn ov (Some d) base s = Inr w"
  shows "\<exists>tags. sealed_as env x w (ov\<lparr>ov_tags := tags\<rparr>) d \<and> sw_epoch w = vs_epoch s \<and> sw_base_revision w = base \<and>
    same_tags (ce_lower env) (ov_tags ov) tags"
proof (cases "ov_tags ov = []")
  case True
  then have "seal_staged env rn ov (Some d) base s = Inr w" using assms(5) by (simp add: stage_def)
  then show ?thesis
    using seal_staged_sealed [OF assms(1-4), of base w] True by (metis (full_types) overview_tags_same same_tags_Nil)
next
  case False
  then obtain sp where sp: "same_tags (ce_lower env) (ov_tags ov) (canonicalize (ce_lower env) (ov_tags ov) sp)"
    and "seal_staged env rn (ov\<lparr>ov_tags := canonicalize (ce_lower env) (ov_tags ov) sp\<rparr>) (Some d) base s = Inr w"
    using assms(5) same_tags_canonicalize by (auto simp: stage_def tag_spellings_def result_simps)
  with seal_staged_sealed [OF assms(1-3), of d "ov\<lparr>ov_tags := canonicalize (ce_lower env) (ov_tags ov) sp\<rparr>" base w]
  show ?thesis using assms(4) sp by (intro exI) auto
qed

subsection \<open>Committing keeps the session a view of the store\<close>

lemma store_view_upsert:
  "store_view env dk vid (upsert_item u ob db rv st) =
     (store_view env dk vid st)(u := to_option (open_overview env dk vid (u, ob)))"
  by (rule ext) (simp add: store_view_def upsert_item_def row_view_def)

lemma store_view_delete: "store_view env dk vid (delete_row u st) = (store_view env dk vid st)(u := None)"
  by (rule ext) (simp add: store_view_def delete_row_def row_view_def)

lemma split_view_place:
  assumes "split_view (ss_identity_id x) v (ss_overviews x) (ss_trash x)" and "ov_id ov = u"
  shows "split_view (ss_identity_id x) (v(u := Some ov)) (ss_overviews (place ov x)) (ss_trash (place ov x))"
  using assms by (auto simp: split_view_def place_def Let_def intro: table_wf)

lemma split_view_forget:
  assumes "split_view (ss_identity_id x) v (ss_overviews x) (ss_trash x)"
  shows "split_view (ss_identity_id x) (v(u := None)) (ss_overviews (forget u x)) (ss_trash (forget u x))"
  using assms by (auto simp: split_view_def forget_def intro: table_wf)

lemma place_keys [simp]:
  "ss_data_key (place ov x) = ss_data_key x" "ss_vault_id (place ov x) = ss_vault_id x"
  "ss_vault_key (place ov x) = ss_vault_key x" "ss_identity_id (place ov x) = ss_identity_id x"
  "ss_recent_fills (place ov x) = ss_recent_fills x" "ss_settings (place ov x) = ss_settings x"
  by (simp_all add: place_def Let_def)

lemma forget_keys [simp]:
  "ss_data_key (forget u x) = ss_data_key x" "ss_vault_id (forget u x) = ss_vault_id x"
  "ss_vault_key (forget u x) = ss_vault_key x" "ss_identity_id (forget u x) = ss_identity_id x"
  "ss_recent_fills (forget u x) = ss_recent_fills x" "ss_settings (forget u x) = ss_settings x"
  by (simp_all add: forget_def)

lemma coherent_place:
  assumes "coherent env st x" and "open_overview env (ss_data_key x) (ss_vault_id x) (u, ob) = Inr ov"
  shows "coherent env (upsert_item u ob db rv st) (place ov x)"
  using split_view_place [OF assms(1) [unfolded coherent_def] open_overview_id [OF assms(2)]] assms(2)
  by (simp add: coherent_def store_view_upsert)

lemma coherent_forget:
  assumes "coherent env st x"
  shows "coherent env (delete_row u st) (forget u x)"
  using split_view_forget [OF assms [unfolded coherent_def]] by (simp add: coherent_def store_view_delete)

definition touched :: "session \<Rightarrow> session" where
  "touched x = x\<lparr>ss_generation := ss_generation x + 1, ss_health := None\<rparr>"

lemma touched_keys [simp]:
  "ss_data_key (touched x) = ss_data_key x" "ss_vault_id (touched x) = ss_vault_id x"
  "ss_vault_key (touched x) = ss_vault_key x" "ss_identity_id (touched x) = ss_identity_id x"
  "ss_recent_fills (touched x) = ss_recent_fills x" "ss_settings (touched x) = ss_settings x"
  "ss_overviews (touched x) = ss_overviews x" "ss_trash (touched x) = ss_trash x"
  "coherent env st (touched x) \<longleftrightarrow> coherent env st x"
  by (simp_all add: touched_def coherent_def)

lemma commit_write_sealed:
  assumes "session_of s = Inr x" and "sw_epoch w = vs_epoch s" and "sw_overview w = Some ob"
    and "sw_details w = Some db" and "sw_plain w = Some ov"
  shows "commit_write w rv s = (Inr (Some ov),
    s\<lparr>vs_store := upsert_item (sw_item_id w) ob db rv (vs_store s), vs_session := Some (place ov (touched x))\<rparr>)"
proof -
  have v: "vs_state s = VUnlocked" "vs_session s = Some x" using assms(1) by (simp_all add: session_of_Inr_iff)
  show ?thesis unfolding commit_write_def commit_write_on_def assms(1) using assms(2-5) v
    by (simp add: with_session_def touched_def Let_def)
qed

lemma commit_write_tombstone:
  assumes "session_of s = Inr x" and "sw_epoch w = vs_epoch s" and "is_tombstone w"
  shows "commit_write w rv s = (Inr None,
    s\<lparr>vs_store := delete_row (sw_item_id w) (vs_store s), vs_session := Some (forget (sw_item_id w) (touched x))\<rparr>)"
proof -
  have v: "vs_state s = VUnlocked" "vs_session s = Some x" using assms(1) by (simp_all add: session_of_Inr_iff)
  show ?thesis unfolding commit_write_def commit_write_on_def assms(1) using assms(2,3) v
    by (simp add: with_session_def touched_def Let_def is_tombstone_def delete_item_def)
qed

lemma commit_write_failed:
  assumes "session_of s = Inr x" and "sw_epoch w = vs_epoch s" and "is_tombstone w \<or> sealed_as env y w ov d"
  shows "commit_write_on False w rv s = (Inl Storage, s\<lparr>vs_session := Some (touched x)\<rparr>)"
proof -
  have v: "vs_session s = Some x" using assms(1) by (simp add: session_of_Inr_iff)
  show ?thesis unfolding commit_write_on_def assms(1) using assms(2,3) v
    by (auto simp: with_session_def touched_def Let_def is_tombstone_def sealed_as_def)
qed

lemma commit_write_other:
  assumes "sw_epoch w \<noteq> vs_epoch s \<or> session_of s = Inl e"
  shows "commit_write_on stored w rv s = (Inl Locked, s)"
proof (cases "session_of s")
  case (Inl f)
  then have "f = Locked" by (simp add: session_of_Inl_iff)
  then show ?thesis using Inl by (simp add: commit_write_on_def)
next
  case (Inr x)
  then show ?thesis using assms by (simp add: commit_write_on_def)
qed

lemma upsert_item_wf: "store_wf st \<Longrightarrow> store_wf (upsert_item u ob db rv st)"
  by (auto simp: store_wf_def upsert_item_def intro: table_wf)

lemma delete_row_wf: "store_wf st \<Longrightarrow> store_wf (delete_row u st)"
  by (auto simp: store_wf_def delete_row_def intro: table_wf)

lemma commit_write_inv:
  assumes "service_inv env s" and "\<And>x. session_of s = Inr x \<Longrightarrow> sw_epoch w = vs_epoch s \<Longrightarrow> staged_ok env x w"
  shows "service_inv env (snd (commit_write w rv s))"
proof (cases "sw_epoch w = vs_epoch s \<and> (\<exists>x. session_of s = Inr x)")
  case False
  then obtain e where "sw_epoch w \<noteq> vs_epoch s \<or> session_of s = Inl e" by (cases "session_of s") auto
  from commit_write_other [OF this] show ?thesis using assms(1) by (simp add: commit_write_def)
next
  case True
  then obtain x where x: "session_of s = Inr x" "sw_epoch w = vs_epoch s" by blast
  have v: "vs_state s = VUnlocked" "vs_session s = Some x" using x(1) by (simp_all add: session_of_Inr_iff)
  have i: "store_wf (vs_store s)" "st_header (vs_store s) \<noteq> None" "session_inv env (vs_store s) x"
    using assms(1) v by (auto simp: service_inv_def store_inv_def)
  then have c: "coherent env (vs_store s) (touched x)" by (simp add: session_inv_def)
  show ?thesis
  proof (cases "is_tombstone w")
    case t: True
    have "coherent env (delete_row (sw_item_id w) (vs_store s)) (forget (sw_item_id w) (touched x))"
      by (rule coherent_forget [OF c])
    then show ?thesis
      using i v delete_row_wf [OF i(1)] unfolding commit_write_tombstone [OF x t]
      by (simp add: service_inv_def store_inv_def session_inv_def) (auto simp: delete_row_def)
  next
    case False
    then obtain ov d where o: "sealed_as env x w ov d" using assms(2) [OF x] by (auto simp: staged_ok_def)
    then obtain ob db where b: "sw_overview w = Some ob" "sw_details w = Some db" "sw_plain w = Some ov"
      "sw_item_id w = ov_id ov" "open_overview env (ss_data_key x) (ss_vault_id x) (ov_id ov, ob) = Inr ov"
      by (auto simp: sealed_as_def)
    have "coherent env (upsert_item (ov_id ov) ob db rv (vs_store s)) (place ov (touched x))"
      by (rule coherent_place [OF c]) (simp add: b(5))
    then show ?thesis
      using i v upsert_item_wf [OF i(1)] unfolding commit_write_sealed [OF x b(1-3)]
      by (simp add: service_inv_def store_inv_def session_inv_def b(4)) (auto simp: upsert_item_def)
  qed
qed

lemma commit_write_on_inv:
  assumes "service_inv env s" and "\<And>x. session_of s = Inr x \<Longrightarrow> sw_epoch w = vs_epoch s \<Longrightarrow> staged_ok env x w"
  shows "service_inv env (snd (commit_write_on stored w rv s))"
proof (cases "stored \<or> sw_epoch w \<noteq> vs_epoch s \<or> (\<exists>e. session_of s = Inl e)")
  case True
  then obtain e where "stored \<or> sw_epoch w \<noteq> vs_epoch s \<or> session_of s = Inl e" by blast
  then show ?thesis
    using commit_write_inv [OF assms, of rv] assms(1) commit_write_other [of w s e stored rv]
    by (cases stored) (auto simp: commit_write_def)
next
  case False
  then obtain x where x: "session_of s = Inr x" "sw_epoch w = vs_epoch s" "\<not> stored" by (cases "session_of s") auto
  obtain ov d where "is_tombstone w \<or> sealed_as env x w ov d" using assms(2) [OF x(1,2)] unfolding staged_ok_def by blast
  from commit_write_failed [OF x(1,2) this, of rv]
  have "commit_write_on stored w rv s = (Inl Storage, s\<lparr>vs_session := Some (touched x)\<rparr>)" using x(3) by simp
  then show ?thesis using assms(1) x(1) by (auto simp: session_of_Inr_iff service_inv_def session_inv_def)
qed

end
