(* ===== verification/Commits.thy ===== *)
theory Commits
  imports Writes
begin

text \<open>
  What staged writes are and what committing them does: every staging operation of \<open>Writes\<close> seals for
  the open session, a commit is one update of the abstract vault (a map from identifiers to
  overviews), and the item reads back.
\<close>

section \<open>Every staging operation seals for the open session\<close>

definition fresh_write :: "core_env \<Rightarrow> service \<Rightarrow> staged_write \<Rightarrow> bool" where
  "fresh_write env s w \<longleftrightarrow> sw_epoch w = vs_epoch s \<and> (\<forall>x. session_of s = Inr x \<longrightarrow> staged_ok env x w)"

lemma apply_edits_Inr:
  assumes "apply_edits e ov = Inr (ov', ids)"
  obtains metas where "ov' = ov\<lparr>ov_attachments := metas\<rparr>" and "e = no_edits \<longrightarrow> metas = ov_attachments ov"
proof (cases "file_edits_is_empty e")
  case True
  then show ?thesis using assms that [of "ov_attachments ov"] by (simp add: apply_edits_def)
next
  case False
  then obtain metas where "ov' = ov\<lparr>ov_attachments := metas\<rparr>"
    using assms by (auto simp: apply_edits_def result_simps Let_def split: if_splits)
  moreover have "e \<noteq> no_edits" using False by (auto simp: file_edits_is_empty_def no_edits_def)
  ultimately show ?thesis using that by blast
qed

lemma fresh_tombstone [simp]: "fresh_write env s (tombstone u s)"
  by (simp add: fresh_write_def staged_ok_def)

lemma sealed_fresh:
  "session_of s = Inr x \<Longrightarrow> sealed_as env x w ov d \<Longrightarrow> sw_epoch w = vs_epoch s \<Longrightarrow> fresh_write env s w"
  by (auto simp: fresh_write_def staged_ok_def)

lemma stage_create_with_sealed:
  assumes "env_ok env" and "nonces_ok rn" and "session_of s = Inr x"
    and "stage_create_with env rn u i files now_ms s = Inr w"
  obtains ov d metas tags where "build_item (ce_items env) u i None now_ms now_ms = Inr (ov, d)"
    and "sealed_as env x w (ov\<lparr>ov_attachments := metas, ov_tags := tags\<rparr>) d" and "sw_epoch w = vs_epoch s"
    and "in_item_type i \<noteq> TIdentity" and "sw_base_revision w = None" and "same_tags (ce_lower env) (ov_tags ov) tags"
    and "files = no_edits \<longrightarrow> metas = []"
proof -
  obtain ov d ov' ids w' where b: "in_item_type i \<noteq> TIdentity"
    "build_item (ce_items env) u i None now_ms now_ms = Inr (ov, d)" "apply_edits files ov = Inr (ov', ids)"
    "stage env rn ov' (Some d) None s = Inr w'" "w = w'\<lparr>sw_attachment_ids := ids\<rparr>"
    using assms(4) by (auto simp: stage_create_with_def result_simps)
  obtain metas where m: "ov' = ov\<lparr>ov_attachments := metas\<rparr>" "files = no_edits \<longrightarrow> metas = ov_attachments ov"
    by (rule apply_edits_Inr [OF b(3)])
  have "details_type d = ov_item_type ov'" using build_item_Inr [OF b(2)] m by simp
  from stage_sealed [OF assms(1-3) this b(4)] obtain tags where "sealed_as env x w' (ov'\<lparr>ov_tags := tags\<rparr>) d"
    "sw_epoch w' = vs_epoch s" "sw_base_revision w' = None" "same_tags (ce_lower env) (ov_tags ov') tags" by blast
  then show thesis using that b m build_item_Inr [OF b(2)] by simp
qed

lemma stage_update_with_sealed:
  assumes "env_ok env" and "nonces_ok rn" and "session_of s = Inr x"
    and "stage_update_with env rn u i files now_ms s = Inr w"
  obtains existing current ov d metas tags where "get (ss_overviews x) u = Some existing"
    and "load_details env u s = Inr current" and "ov_item_type existing = in_item_type i"
    and "build_item (ce_items env) u
      (i\<lparr>in_auto_sign_in := Some (case in_auto_sign_in i of Some b \<Rightarrow> b | None \<Rightarrow> ov_auto_sign_in existing),
         in_tags := Some (case in_tags i of Some t \<Rightarrow> t | None \<Rightarrow> ov_tags existing)\<rparr>)
      (Some current) (ov_created_at existing) now_ms = Inr (ov, d)"
    and "sealed_as env x w (ov\<lparr>ov_extra := ov_extra existing, ov_attachments := metas, ov_tags := tags\<rparr>) d"
    and "sw_epoch w = vs_epoch s" and "sw_base_revision w = item_revision (vs_store s) u"
    and "files = no_edits \<longrightarrow> metas = ov_attachments existing" and "same_tags (ce_lower env) (ov_tags ov) tags"
proof -
  obtain existing current ov d ov' ids w' where b: "get (ss_overviews x) u = Some existing"
    "ov_item_type existing = in_item_type i" "load_details env u s = Inr current"
    "build_item (ce_items env) u
      (i\<lparr>in_auto_sign_in := Some (case in_auto_sign_in i of Some b \<Rightarrow> b | None \<Rightarrow> ov_auto_sign_in existing),
         in_tags := Some (case in_tags i of Some t \<Rightarrow> t | None \<Rightarrow> ov_tags existing)\<rparr>)
      (Some current) (ov_created_at existing) now_ms = Inr (ov, d)"
    "apply_edits files (ov\<lparr>ov_extra := ov_extra existing, ov_attachments := ov_attachments existing\<rparr>) = Inr (ov', ids)"
    "stage env rn ov' (Some d) (item_revision (vs_store s) u) s = Inr w'" "w = w'\<lparr>sw_attachment_ids := ids\<rparr>"
    using assms(4) [unfolded stage_update_with_def get_item_def assms(3) and_then.simps Let_def]
    unfolding case_prod_beta and_then_Inr_iff ensure_Inr_iff ok_or_Inr_iff
    by (elim exE conjE) (metis prod.collapse sum.inject(2))
  obtain metas where m: "ov' = ov\<lparr>ov_extra := ov_extra existing, ov_attachments := metas\<rparr>"
    "files = no_edits \<longrightarrow> metas = ov_attachments existing"
    by (rule apply_edits_Inr [OF b(5)]) auto
  have "details_type d = ov_item_type ov'" using build_item_Inr [OF b(4)] m by simp
  from stage_sealed [OF assms(1-3) this b(6)] obtain tags where "sealed_as env x w' (ov'\<lparr>ov_tags := tags\<rparr>) d"
    "sw_epoch w' = vs_epoch s" "sw_base_revision w' = item_revision (vs_store s) u"
    "same_tags (ce_lower env) (ov_tags ov') tags" by blast
  then show thesis using that [OF b(1,3,2,4), where metas = metas and tags = tags] b(7) m by simp
qed

lemma loaded_details_type:
  "load_details env u s = Inr d \<Longrightarrow> session_of s = Inr x \<Longrightarrow> get (ss_overviews x) u = Some ov \<Longrightarrow> details_type d = ov_item_type ov"
  by (auto simp: load_details_def open_details_def result_simps)

lemma loaded_trashed_details_type:
  "load_trashed_details env u s = Inr d \<Longrightarrow> session_of s = Inr x \<Longrightarrow> get (ss_trash x) u = Some ov \<Longrightarrow>
   details_type d = ov_item_type ov"
  by (auto simp: load_trashed_details_def open_details_def result_simps)

lemma stage_trash_sealed:
  assumes "env_ok env" and "nonces_ok rn" and "session_of s = Inr x"
    and "stage_trash env rn u now_ms s = Inr w"
  obtains (sealed) ov d where "get (ss_overviews x) u = Some ov" and "u \<noteq> ss_identity_id x"
    and "load_details env u s = Inr d" and "sealed_as env x w (ov\<lparr>ov_trashed_at := Some now_ms\<rparr>) d" and "sw_epoch w = vs_epoch s"
  | (gone) "load_details env u s \<in> {Inl Decryption, Inl Corrupted}" and "u \<noteq> ss_identity_id x" and "w = tombstone u s"
proof -
  obtain ov base where o: "u \<noteq> ss_identity_id x" "get (ss_overviews x) u = Some ov"
    "(case load_details env u s of
        Inr d \<Rightarrow> seal_staged env rn (ov\<lparr>ov_trashed_at := Some now_ms\<rparr>) (Some d) base s
      | Inl e \<Rightarrow> if e = Decryption \<or> e = Corrupted then Inr (tombstone u s) else Inl e) = Inr w"
    using assms(3,4) unfolding stage_trash_def and_then_Inr_iff ensure_Inr_iff ok_or_Inr_iff by auto
  show thesis
  proof (cases "load_details env u s")
    case (Inl e)
    then show ?thesis using o gone by (auto split: if_splits)
  next
    case (Inr d)
    then have "seal_staged env rn (ov\<lparr>ov_trashed_at := Some now_ms\<rparr>) (Some d) base s = Inr w" using o(3) by simp
    from seal_staged_sealed [OF assms(1-3) _ this] loaded_details_type [OF Inr assms(3) o(2)]
    show ?thesis using sealed [OF o(2,1) Inr] by simp
  qed
qed

lemma stage_restore_sealed:
  assumes "env_ok env" and "nonces_ok rn" and "session_of s = Inr x"
    and "stage_restore_trashed env rn u s = Inr w"
  obtains ov d tags where "get (ss_trash x) u = Some ov" and "load_trashed_details env u s = Inr d"
    and "sealed_as env x w (ov\<lparr>ov_trashed_at := None, ov_tags := tags\<rparr>) d" and "sw_epoch w = vs_epoch s"
    and "same_tags (ce_lower env) (ov_tags ov) tags"
proof -
  obtain ov d base where o: "get (ss_trash x) u = Some ov" "load_trashed_details env u s = Inr d"
    "stage env rn (ov\<lparr>ov_trashed_at := None\<rparr>) (Some d) base s = Inr w"
    using assms(3,4) unfolding stage_restore_trashed_def and_then_Inr_iff ok_or_Inr_iff by auto
  from stage_sealed [OF assms(1-3) _ o(3)] loaded_trashed_details_type [OF o(2) assms(3) o(1)]
  show thesis using that [OF o(1,2)] by fastforce
qed

lemma coherent_disjoint: "coherent env st x \<Longrightarrow> get (ss_overviews x) u = None \<or> get (ss_trash x) u = None"
  by (auto simp: coherent_def split_view_def split: option.splits)

lemma stage_attachments_sealed:
  assumes "env_ok env" and "nonces_ok rn" and "session_of s = Inr x"
    and "stage_attachments env rn u c now_ms s = Inr w" and "coherent env (vs_store s) x"
  shows "fresh_write env s w"
proof -
  obtain ov metas base d w' where o: "stored_overview x u = Inr ov"
    "(if ov_trashed_at ov \<noteq> None then load_trashed_details env u s else load_details env u s) = Inr d"
    "seal_staged env rn (ov\<lparr>ov_attachments := metas, ov_updated_at := now_ms\<rparr>) (Some d) base s = Inr w'"
    "w = w'\<lparr>sw_attachment_ids := Some (map am_id metas)\<rparr>"
    using assms(3,4) unfolding stage_attachments_def and_then_Inr_iff Let_def by auto
  have "details_type d = ov_item_type ov"
  proof (cases "get (ss_overviews x) u")
    case (Some o2)
    then have e: "o2 = ov" using o(1) by (simp add: stored_overview_def)
    show ?thesis
    proof (cases "ov_trashed_at ov")
      case None
      then show ?thesis using o(2) loaded_details_type [OF _ assms(3)] Some e by simp
    next
      case t: (Some z)
      then have "get (ss_trash x) u \<noteq> None" using o(2) assms(3) by (auto simp: load_trashed_details_def result_simps)
      then show ?thesis using coherent_disjoint [OF assms(5), of u] Some by auto
    qed
  next
    case None
    then have "get (ss_trash x) u = Some ov" using o(1) by (simp add: stored_overview_def result_simps)
    moreover have "load_details env u s \<noteq> Inr d" using None assms(3) by (auto simp: load_details_def)
    ultimately show ?thesis using o(2) loaded_trashed_details_type [OF _ assms(3)] by (auto split: if_splits)
  qed
  with seal_staged_sealed [OF assms(1-3) _ o(3)] show ?thesis
    using sealed_fresh [OF assms(3)] o(4) by (simp add: fresh_write_def staged_ok_def is_tombstone_def) blast
qed

lemma stage_create_with_fresh:
  assumes "env_ok env" and "nonces_ok rn" and "stage_create_with env rn u i files now_ms s = Inr w"
  shows "fresh_write env s w"
proof -
  obtain x where x: "session_of s = Inr x"
    using assms(3) by (auto simp: stage_create_with_def stage_def tag_spellings_def seal_staged_def result_simps split: if_splits)
  from stage_create_with_sealed [OF assms(1,2) x assms(3)] show ?thesis using sealed_fresh [OF x] by metis
qed

lemma stage_update_with_fresh:
  assumes "env_ok env" and "nonces_ok rn" and "stage_update_with env rn u i files now_ms s = Inr w"
  shows "fresh_write env s w"
proof -
  obtain x where x: "session_of s = Inr x" using assms(3) by (auto simp: stage_update_with_def get_item_def result_simps)
  from stage_update_with_sealed [OF assms(1,2) x assms(3)] show ?thesis using sealed_fresh [OF x] by metis
qed

lemma stage_identity_fresh:
  assumes "env_ok env" and "nonces_ok rn" and "stage_identity_if_missing env rn email now_ms s = Inr (Some w)"
  shows "fresh_write env s w"
proof -
  let ?i = "(blank_input TIdentity [])\<lparr>in_identity := Some (empty_identity\<lparr>id_email := Some email\<rparr>)\<rparr>"
  obtain x ov d where b: "session_of s = Inr x" "build_item (ce_items env) (ss_identity_id x) ?i None now_ms now_ms = Inr (ov, d)"
    "stage env rn ov (Some d) None s = Inr w"
    using assms(3) by (auto simp: stage_identity_if_missing_def result_simps Let_def split: if_splits)
  have "details_type d = ov_item_type ov" using build_item_Inr [OF b(2)] by simp
  from stage_sealed [OF assms(1,2) b(1) this b(3)] show ?thesis using sealed_fresh [OF b(1)] by metis
qed

lemma stage_save_login_fresh:
  assumes "env_ok env" and "nonces_ok rn" and "stage_save_login env rn u page tp username pw target now_ms s = Inr sv"
  shows "fresh_write env s (sv_write sv)"
  using assms(3) stage_create_with_fresh [OF assms(1,2)] stage_update_with_fresh [OF assms(1,2)]
  by (cases target)
    (auto simp: stage_save_login_def stage_save_update_def stage_create_def stage_update_def result_simps)

lemma stage_save_sso_fresh:
  assumes "env_ok env" and "nonces_ok rn" and "stage_save_sso env rn u page tp p acct target now_ms s = Inr sv"
  shows "fresh_write env s (sv_write sv)"
  using assms(3) stage_create_with_fresh [OF assms(1,2)] stage_update_with_fresh [OF assms(1,2)]
  by (cases target)
    (auto simp: stage_save_sso_def stage_create_def stage_update_def result_simps Let_def)

lemma stage_trash_fresh:
  assumes "env_ok env" and "nonces_ok rn" and "stage_trash env rn u now_ms s = Inr w"
  shows "fresh_write env s w"
proof -
  obtain x where x: "session_of s = Inr x" using assms(3) by (auto simp: stage_trash_def result_simps)
  from stage_trash_sealed [OF assms(1,2) x assms(3)] show ?thesis
    using sealed_fresh [OF x] fresh_tombstone [of env s u] by metis
qed

lemma stage_restore_fresh:
  assumes "env_ok env" and "nonces_ok rn" and "stage_restore_trashed env rn u s = Inr w"
  shows "fresh_write env s w"
proof -
  obtain x where x: "session_of s = Inr x" using assms(3) by (auto simp: stage_restore_trashed_def result_simps)
  from stage_restore_sealed [OF assms(1,2) x assms(3)] show ?thesis using sealed_fresh [OF x] by metis
qed

lemma tombstones_fresh:
  "stage_delete u s = Inr w \<Longrightarrow> fresh_write env s w"
  "stage_purge u s = Inr w \<Longrightarrow> fresh_write env s w"
  "stage_empty_trash s = Inr ws \<Longrightarrow> w \<in> set ws \<Longrightarrow> fresh_write env s w"
  "stage_expired_trash now_ms s = Inr ws \<Longrightarrow> w \<in> set ws \<Longrightarrow> fresh_write env s w"
  by (auto simp: stage_delete_def stage_purge_def stage_empty_trash_def stage_expired_trash_def result_simps)

section \<open>Committing is an update of the abstract vault\<close>

text \<open>
  The abstract vault of an unlocked service: which overview each identifier has, live or trashed, by
  what the rows on disk open to.
\<close>

definition abs_vault :: "core_env \<Rightarrow> service \<Rightarrow> uuid \<Rightarrow> item_overview option" where
  "abs_vault env s = (case session_of s of
     Inl e \<Rightarrow> Map.empty | Inr x \<Rightarrow> store_view env (ss_data_key x) (ss_vault_id x) (vs_store s))"

definition held_item :: "session \<Rightarrow> uuid \<Rightarrow> item_overview option" where
  "held_item x u = (case get (ss_overviews x) u of Some ov \<Rightarrow> Some ov | None \<Rightarrow> get (ss_trash x) u)"

lemma coherent_held: "coherent env st x \<Longrightarrow> held_item x u = store_view env (ss_data_key x) (ss_vault_id x) st u"
  by (auto simp: coherent_def split_view_def held_item_def split: option.splits)

lemma coherent_live:
  "coherent env st x \<Longrightarrow> get (ss_overviews x) u = (case store_view env (ss_data_key x) (ss_vault_id x) st u of None \<Rightarrow> None
     | Some ov \<Rightarrow> if ov_trashed_at ov \<noteq> None \<and> u \<noteq> ss_identity_id x then None else Some ov)"
  "coherent env st x \<Longrightarrow> get (ss_trash x) u = (case store_view env (ss_data_key x) (ss_vault_id x) st u of None \<Rightarrow> None
     | Some ov \<Rightarrow> if ov_trashed_at ov \<noteq> None \<and> u \<noteq> ss_identity_id x then Some ov else None)"
  by (simp_all add: coherent_def split_view_def)

text \<open>Two sessions of the same store and keys hold the same items: the tables are rebuilt, not remembered.\<close>

lemma coherent_unique:
  assumes "coherent env st x" and "coherent env st y" and "ss_data_key y = ss_data_key x"
    and "ss_vault_id y = ss_vault_id x" and "ss_identity_id y = ss_identity_id x"
  shows "get (ss_overviews y) = get (ss_overviews x) \<and> get (ss_trash y) = get (ss_trash x)"
  by (intro conjI ext) (simp_all only: coherent_live [OF assms(1)] coherent_live [OF assms(2)] assms(3-5))

lemma reopened_same:
  assumes "service_inv env s" and "session_of s = Inr x"
    and "open_session env (vs_store s) (ss_vault_id x) (ss_vault_key x) = Inr y"
  shows "get (ss_overviews y) = get (ss_overviews x) \<and> get (ss_trash y) = get (ss_trash x)"
proof -
  have i: "session_inv env (vs_store s) x" "store_wf (vs_store s)"
    using assms(1,2) by (auto simp: session_of_Inr_iff service_inv_def store_inv_def)
  note o = open_session_Inr [OF assms(3) i(2)]
  show ?thesis using i(1) o by (intro coherent_unique) (auto simp: session_inv_def)
qed

text \<open>What a committed sealed write leaves behind.\<close>

lemma committed_reads_back:
  assumes "session_of s = Inr x" and "sw_epoch w = vs_epoch s" and "sealed_as env x w ov d"
    and "commit_write w rv s = (r, s')"
  shows "r = Inr (Some ov) \<and> item_revision (vs_store s') (ov_id ov) = Some rv \<and> vs_epoch s' = vs_epoch s \<and>
    session_of s' = Inr (place ov (touched x)) \<and>
    (if ov_trashed_at ov = None \<or> ov_id ov = ss_identity_id x
     then get_item (ov_id ov) s' = Inr ov \<and> load_details env (ov_id ov) s' = Inr d
     else get_item (ov_id ov) s' = Inl NotFound \<and> load_details env (ov_id ov) s' = Inl NotFound \<and>
       load_trashed_details env (ov_id ov) s' = Inr d)"
proof -
  obtain ob db where b: "sw_overview w = Some ob" "sw_details w = Some db" "sw_plain w = Some ov"
    "sw_item_id w = ov_id ov" "details_type d = ov_item_type ov"
    "open_json env (ss_data_key x) (item_details_ctx (ce_crypto env) (ss_vault_id x) (ov_id ov) ob) (dec_details env) db = Inr d"
    using assms(3) by (auto simp: sealed_as_def)
  have c: "r = Inr (Some ov)"
    "s' = s\<lparr>vs_store := upsert_item (ov_id ov) ob db rv (vs_store s), vs_session := Some (place ov (touched x))\<rparr>"
    using commit_write_sealed [OF assms(1,2) b(1-3), of rv] assms(4) b(4) by simp_all
  have s': "session_of s' = Inr (place ov (touched x))" using assms(1) by (simp add: c(2) session_of_Inr_iff)
  have i: "item_blobs (vs_store s') (ov_id ov) = Some (ob, db)" by (simp add: c(2) item_blobs_def upsert_item_def)
  have o: "open_details env s' (place ov (touched x)) (ov_id ov) (ov_item_type ov) = Inr d"
    by (simp add: open_details_def i b(5,6))
  have p: "get (ss_overviews (place ov (touched x))) (ov_id ov) =
      (if ov_trashed_at ov = None \<or> ov_id ov = ss_identity_id x then Some ov else None)"
    "\<not> (ov_trashed_at ov = None \<or> ov_id ov = ss_identity_id x) \<Longrightarrow> get (ss_trash (place ov (touched x))) (ov_id ov) = Some ov"
    by (auto simp: place_def Let_def)
  have "item_revision (vs_store s') (ov_id ov) = Some rv" by (simp add: c(2) item_revision_def upsert_item_def)
  moreover have "vs_epoch s' = vs_epoch s" by (simp add: c(2))
  ultimately show ?thesis
    using c(1) s' o p by (simp add: get_item_def load_details_def load_trashed_details_def)
qed

section \<open>Logins saved from a page\<close>

lemma build_item_login:
  assumes "build_item env u i current created now_ms = Inr (ov, d)" and "in_item_type i = TLogin"
  shows "build_login env i current now_ms = Inr d \<and> clean_title (in_title i) = Inr (ov_title ov) \<and>
    clean_username (in_username i) = Inr (ov_username ov) \<and> clean_sign_in_with (in_sign_in_with i) = Inr (ov_sign_in_with ov) \<and>
    ov_auto_sign_in ov = (case in_auto_sign_in i of Some b \<Rightarrow> b | None \<Rightarrow> True)"
proof -
  note b = build_item_Inr [OF assms(1)]
  have l: "build_login env i current now_ms = Inr d" using b assms(2) by (simp add: build_details_def)
  then obtain m where "d = DLogin m" by (rule build_login_Inr)
  then have "clean_title (in_title i) = Inr (ov_title ov)" "clean_username (in_username i) = Inr (ov_username ov)"
    using b assms(2) by (simp_all add: build_title_def build_username_def)
  moreover have "clean_sign_in_with (in_sign_in_with i) = Inr (ov_sign_in_with ov)"
    "ov_auto_sign_in ov = (case in_auto_sign_in i of Some b \<Rightarrow> b | None \<Rightarrow> True)"
    using assms unfolding build_item_def and_then_Inr_iff by (clarsimp split: if_splits)+
  ultimately show ?thesis using l by blast
qed

section \<open>Time in the Trash\<close>

lemma div_day: "(x :: int) div 86400000 \<le> 0 \<longleftrightarrow> x < 86400000"
  using pos_imp_zdiv_pos_iff [of 86400000 x] by linarith

lemma days_left_bound: "days_left t now_ms \<le> 30"
  by (simp add: days_left_def Let_def TRASH_RETENTION_MS_def DAY_MS_def)

lemma days_left_zero_iff:
  assumes "in_i64 t" and "in_i64 now_ms" and "now_ms < i64_max"
  shows "days_left t now_ms = 0 \<longleftrightarrow> TRASH_RETENTION_MS \<le> saturating_sub now_ms t"
proof -
  let ?r = "saturating_sub (saturating_add t TRASH_RETENTION_MS) now_ms"
  have "days_left t now_ms = 0 \<longleftrightarrow> saturating_add ?r (DAY_MS - 1) div 86400000 \<le> 0"
    by (simp add: days_left_def Let_def TRASH_RETENTION_MS_def DAY_MS_def min_le_iff_disj)
  also have "\<dots> \<longleftrightarrow> ?r \<le> 0"
    using sat64_le_iff [of "DAY_MS - 1" "?r + (DAY_MS - 1)"] unfolding div_day saturating_add_def
    by (simp add: i64_min_def i64_max_def DAY_MS_def) linarith
  also have "\<dots> \<longleftrightarrow> t + TRASH_RETENTION_MS \<le> now_ms"
    using sat64_le_iff [of 0 "sat64 (t + TRASH_RETENTION_MS) - now_ms"] sat64_le_iff [of now_ms "t + TRASH_RETENTION_MS"] assms(2,3)
    unfolding saturating_sub_def saturating_add_def by (simp add: in_i64_def i64_min_def i64_max_def)
  also have "\<dots> \<longleftrightarrow> TRASH_RETENTION_MS \<le> saturating_sub now_ms t"
    using sat64_ge_iff [of TRASH_RETENTION_MS "now_ms - t"] unfolding saturating_sub_def
    by (simp add: i64_min_def i64_max_def TRASH_RETENTION_MS_def) linarith
  finally show ?thesis .
qed

section \<open>A vault for the witnesses\<close>

definition toy_prep :: prepared_vault where
  "toy_prep = \<lparr>pv_header = \<lparr>hd_format_version = FORMAT_VERSION, hd_vault_id = 5, hd_kdf = toy_kdf, hd_wrapped_vault_key = [],
     hd_created_at = 7, hd_key_scheme = AccountBound, hd_revision = 0\<rparr>, pv_vault_key = replicate 32 4\<rparr>"

definition toy_vault :: service where
  "toy_vault = snd (create_account_vault toy_core (Some (replicate 12 0)) toy_prep toy_account (new_service empty_store))"

definition toy_rn :: nonces where "toy_rn = (Some (replicate 12 0), Some (replicate 12 0))"

definition toy_input :: item_input where
  "toy_input = (blank_input TLogin (str ''a''))\<lparr>in_password := Set (str ''pw'')\<rparr>"

lemma toy_env_ok: "env_ok toy_core"
  using plain_crypto_ok by (simp add: env_ok_def settings_json_ok_def)

lemma toy_nonces_ok: "nonces_ok toy_rn"
  by (simp add: nonces_ok_def toy_rn_def NONCE_LEN_def)

lemma toy_start_inv: "service_inv toy_core (new_service empty_store)"
  using store_wf_empty by (intro new_service_inv) (simp add: store_inv_def empty_store_def)

lemma toy_vault_inv: "service_inv toy_core toy_vault"
  unfolding toy_vault_def by (rule create_account_vault_inv [OF toy_start_inv])

lemma sixteen: "replicate 16 (5 :: byte) = [5, 5, 5, 5, 5, 5, 5, 5, 5, 5, 5, 5, 5, 5, 5, 5]"
  by (simp add: numeral_eq_Suc)

lemma toy_vault_session:
  "\<exists>x. session_of toy_vault = Inr x \<and> ss_data_key x = replicate 32 5 \<and> ss_vault_id x = 5 \<and> ss_identity_id x \<noteq> 3 \<and>
     ss_overviews x = [] \<and> ss_trash x = [] \<and>
     (\<exists>a. require_account (vs_store toy_vault) = Inr a \<and> account (vs_store toy_vault) = Inr (Some a) \<and> ac_max_header_rev a = 4) \<and>
     require_header (vs_store toy_vault) = Inr (pv_header toy_prep)"
proof -
  have i: "derive_identity_item_id (ce_keys toy_core) vk = Inr (of_nat (be_value (replicate 16 5)))" for vk
    by (simp add: derive_identity_item_id_def toy_core_def toy_keys_def)
  have n: "(of_nat (be_value (replicate 16 5)) :: uuid) \<noteq> 3"
  proof -
    have "be_value (replicate 16 5) = 6672203272959577714968129557485651205"
      unfolding sixteen by (simp add: be_value_def)
    then show ?thesis by simp
  qed
  obtain s1 where s1: "create_account_vault toy_core (Some (replicate 12 0)) toy_prep toy_account (new_service empty_store) = (Inr (), s1)"
    using toy_created [of toy_prep] by (auto simp: toy_prep_def)
  show ?thesis
  proof (cases rule: create_account_vault_cases [of toy_core "Some (replicate 12 0)" toy_prep toy_account "new_service empty_store"])
    case (3 st st2 dk iid b)
    have h: "require_header st2 = Inr (pv_header toy_prep)"
      using header_of_insert [OF 3(7)] by (simp add: toy_prep_def FORMAT_VERSION_def)
    have "st_account st2 = st_account st" using 3(7) by (auto simp: insert_header_def result_simps)
    moreover have "\<exists>r. st_account st = Some r \<and> rw_account_id r \<noteq> None \<and> rw_max_header_rev r = 4"
      using 3(3) by (auto simp: set_account_Inr_iff new_service_def empty_store_def toy_account_def split: option.splits)
    ultimately have "\<exists>a. require_account st2 = Inr a \<and> account st2 = Inr (Some a) \<and> ac_max_header_rev a = 4"
      by (auto simp: require_account_def account_def)
    then show ?thesis using 3 h i n by (simp add: toy_vault_def session_of_Inr_iff toy_prep_def)
  qed (use s1 in simp_all)
qed

lemma toy_built: "build_item toy_items 3 toy_input None 1 1 = Inr (toy_new, toy_login)"
  by (simp add: build_item_def build_details_def build_login_def toy_input_def blank_input_def toy_new_def toy_ov_def
      toy_login_def no_login_def check_shape_def login_fields_def has_text_def check_some_def check_password_def
      check_notes_def apply_sections_def MAX_PASSWORD_CHARS_def push_history_def build_title_def clean_title_def
      build_username_def clean_username_def clean_urls_def clean_sign_in_with_def normalize_tags_def dedupe_sorted_def
      is_site_bound_def MAX_TITLE_CHARS_def MAX_URLS_def MAX_TAGS_def text_eval Let_def str_def)

lemma toy_sealed_with:
  assumes "session_of s = Inr x" and "ss_data_key x = replicate 32 5" and "ss_vault_id x = 5" and "ov_id ov = 3"
    and "ce_crypto env = plain_crypto" and "enc_overview env ov = Some p" and "length p = 1"
    and "enc_details env d = Some q" and "length q = 1"
  shows "\<exists>w. seal_staged env toy_rn ov (Some d) base s = Inr w"
proof -
  have "ctx_ok (item_ctx PItemOverview 5 3)" by (simp add: ctx_ok_def item_ctx_def needs_item_id_def needs_binding_def)
  then obtain ob where ob: "seal plain_crypto (Some (replicate 12 0)) (replicate 32 5) (item_ctx PItemOverview 5 3) p = Inr ob"
    using toy_seal [of "replicate 32 5" p "item_ctx PItemOverview 5 3"] assms(7) by (auto simp: item_ctx_def)
  let ?c = "item_details_ctx plain_crypto 5 3 ob"
  have "ctx_ok ?c" "bound_to ?c = Some (replicate 32 0)"
    by (simp_all add: item_details_ctx_def item_ctx_def ctx_ok_def plain_crypto_def needs_item_id_def needs_binding_def)
  then obtain db where "seal plain_crypto (Some (replicate 12 0)) (replicate 32 5) ?c q = Inr db"
    using toy_seal [of "replicate 32 5" q ?c] assms(9) by auto
  then show ?thesis
    using assms ob by (simp add: seal_staged_def seal_json_def toy_rn_def)
qed

lemma toy_sealed:
  assumes "session_of s = Inr x" and "ss_data_key x = replicate 32 5" and "ss_vault_id x = 5"
    and "ov = toy_new \<or> ov = toy_trashed \<or> ov = toy_ov"
  shows "\<exists>w. seal_staged toy_core toy_rn ov (Some toy_login) base s = Inr w"
proof -
  have o: "ov_id ov = 3" using assms(4) by (elim disjE) (simp_all add: toy_new_def toy_trashed_def toy_ov_def)
  obtain p where p: "enc_overview toy_core ov = Some p" "length p = 1"
    using assms(4) toy_json(1) [of ov] by (cases "ov = toy_ov"; cases "ov = toy_new") auto
  show ?thesis by (rule toy_sealed_with [OF assms(1-3) o _ p, of toy_login "[3]"]) simp_all
qed

lemma toy_create:
  obtains w x where "stage_create toy_core toy_rn 3 toy_input 1 toy_vault = Inr w" and "session_of toy_vault = Inr x"
    and "sealed_as toy_core x w toy_new toy_login" and "sw_epoch w = vs_epoch toy_vault"
    and "ss_data_key x = replicate 32 5" and "ss_vault_id x = 5" and "ss_identity_id x \<noteq> 3"
proof -
  obtain x where x: "session_of toy_vault = Inr x" "ss_data_key x = replicate 32 5" "ss_vault_id x = 5" "ss_identity_id x \<noteq> 3"
    using toy_vault_session by blast
  obtain w where w: "seal_staged toy_core toy_rn toy_new (Some toy_login) None toy_vault = Inr w"
    using toy_sealed [OF x(1-3)] by blast
  have t: "ov_tags toy_new = []" "details_type toy_login = ov_item_type toy_new"
    by (simp_all add: toy_new_def toy_ov_def toy_login_def)
  have "stage_create_with toy_core toy_rn 3 toy_input no_edits 1 toy_vault = Inr (w\<lparr>sw_attachment_ids := None\<rparr>)"
    using w t(1) toy_built by (simp add: stage_create_with_def toy_core_def [THEN arg_cong [where f = ce_items], simplified] apply_edits_def
      no_edits_def file_edits_is_empty_def stage_def toy_input_def blank_input_def)
  then show thesis
    using that [of "w\<lparr>sw_attachment_ids := None\<rparr>" x] x seal_staged_sealed [OF toy_env_ok toy_nonces_ok x(1) t(2) w]
    by (simp add: stage_create_def)
qed

lemma toy_new_id: "ov_id toy_new = 3" "ov_trashed_at toy_new = None"
  by (simp_all add: toy_new_def toy_ov_def)

text \<open>The created item, committed with revision 1.\<close>

lemma toy_stored:
  obtains w s1 x1 where "stage_create toy_core toy_rn 3 toy_input 1 toy_vault = Inr w"
    and "commit_write w 1 toy_vault = (Inr (Some toy_new), s1)" and "service_inv toy_core s1"
    and "session_of s1 = Inr x1" and "ss_data_key x1 = replicate 32 5" and "ss_vault_id x1 = 5" and "ss_identity_id x1 \<noteq> 3"
    and "get (ss_overviews x1) 3 = Some toy_new" and "get_item 3 s1 = Inr toy_new" and "load_details toy_core 3 s1 = Inr toy_login"
proof -
  obtain w x where w: "stage_create toy_core toy_rn 3 toy_input 1 toy_vault = Inr w" "session_of toy_vault = Inr x"
    "sealed_as toy_core x w toy_new toy_login" "sw_epoch w = vs_epoch toy_vault"
    "ss_data_key x = replicate 32 5" "ss_vault_id x = 5" "ss_identity_id x \<noteq> 3" by (rule toy_create)
  obtain r s1 where c: "commit_write w 1 toy_vault = (r, s1)" by force
  note o = toy_new_id
  have "staged_ok toy_core x w" using w(3) unfolding staged_ok_def by blast
  then have "service_inv toy_core s1"
    using commit_write_inv [OF toy_vault_inv, of w 1] w(2,4) c by (metis snd_conv sum.inject(2))
  with c show thesis
    using committed_reads_back [OF w(2,4,3) c] o w(1,5-7) that [of w s1 "place toy_new (touched x)"]
    by (simp add: place_def touched_def Let_def)
qed

lemma toy_stage_trash:
  assumes "session_of s = Inr x" and "ss_data_key x = replicate 32 5" and "ss_vault_id x = 5" and "ss_identity_id x \<noteq> 3"
    and "get (ss_overviews x) 3 = Some toy_new" and "load_details toy_core 3 s = Inr toy_login"
  shows "\<exists>w. stage_trash toy_core toy_rn 3 2 s = Inr w"
proof -
  obtain w where "seal_staged toy_core toy_rn toy_trashed (Some toy_login) (item_revision (vs_store s) 3) s = Inr w"
    using toy_sealed [OF assms(1-3)] by blast
  then show ?thesis
    using assms unfolding toy_trashed_def by (simp add: stage_trash_def vault_item_revision_def)
qed

lemma toy_stage_restore:
  assumes "session_of s = Inr x" and "ss_data_key x = replicate 32 5" and "ss_vault_id x = 5"
    and "get (ss_trash x) 3 = Some toy_trashed" and "load_trashed_details toy_core 3 s = Inr toy_login"
  shows "\<exists>w. stage_restore_trashed toy_core toy_rn 3 s = Inr w"
proof -
  obtain w where w: "seal_staged toy_core toy_rn toy_new (Some toy_login) (item_revision (vs_store s) 3) s = Inr w"
    using toy_sealed [OF assms(1-3)] by blast
  have "toy_trashed\<lparr>ov_trashed_at := None\<rparr> = toy_new" "ov_tags toy_trashed = []"
    by (simp_all add: toy_trashed_def toy_new_def toy_ov_def)
  with w show ?thesis
    using assms by (simp add: stage_restore_trashed_def vault_item_revision_def stage_def)
qed

text \<open>The environment of a page that saves over its login, with a parser for the item's website.\<close>

definition toy_changed :: item_details where
  "toy_changed = DLogin (no_login\<lparr>lg_password := Some (str ''pq''),
     lg_password_history := [\<lparr>pp_password = str ''pw'', pp_replaced_at = 1\<rparr>]\<rparr>)"

definition toy_form :: core_env where
  "toy_form = toy_core\<lparr>enc_details := (\<lambda>v. if v = toy_login then Some [3] else if v = toy_changed then Some [5] else None),
     dec_details := (\<lambda>p. if p = [3] then Some toy_login else if p = [5] then Some toy_changed else None), ce_items := toy_items\<lparr>ie_fields := (ie_fields toy_items)\<lparr>fe_parse :=
     (\<lambda>_. Some ((toy_url (str ''a.b''))\<lparr>without_fragment := str ''a.b''\<rparr>))\<rparr>\<rparr>\<rparr>"

lemma toy_changed_other: "toy_changed \<noteq> toy_login"
  by (simp add: toy_changed_def toy_login_def no_login_def)

lemma toy_form_env_ok: "env_ok toy_form"
  using toy_env_ok toy_changed_other by (simp add: env_ok_def settings_json_ok_def toy_form_def ce_crypto_def toy_json)

lemma toy_form_codecs:
  "enc_overview toy_form = enc_overview toy_core" "enc_details toy_form toy_changed = Some [5]" "ce_crypto toy_form = plain_crypto"
  "dec_details toy_form p = (if p = [3] then Some toy_login else if p = [5] then Some toy_changed else None)"
  "json_syntax toy_form = json_syntax toy_core"
  using toy_changed_other toy_core_crypto by (simp_all add: toy_form_def ce_crypto_def)

lemma toy_form_details:
  assumes "load_details toy_core u s = Inr toy_login"
  shows "load_details toy_form u s = Inr toy_login"
proof -
  have j: "open_json toy_form k c (dec_details toy_form) b = Inr toy_login"
    if "open_json toy_core k c (dec_details toy_core) b = Inr toy_login" for k c b
    using that unfolding open_json_def toy_form_codecs(3) toy_core_crypto and_then_Inr_iff ok_or_Inr_iff toy_form_codecs(4) toy_json(4)
    by (metis option.distinct(1))
  show ?thesis
    using assms unfolding load_details_def open_details_def toy_form_codecs(3) toy_core_crypto and_then_Inr_iff ok_or_Inr_iff ensure_Inr_iff
      map_err_Inr_iff
    by (metis j sum.inject(2))
qed

lemma toy_other_secret: "\<not> secrets_equal (ce_items toy_form) (str ''pq'') (str ''pw'')"
  by (subst secrets_equal_iff) (simp_all add: toy_form_def toy_items_def text_eval utf8_bytes_def utf8_def utf8_char_def)

lemma toy_form_built:
  "build_item (ce_items toy_form) 3 ((login_input_from toy_ov)\<lparr>in_password := Set (str ''pq''), in_sign_in_with := ov_sign_in_with toy_ov,
     in_auto_sign_in := Some True, in_tags := Some []\<rparr>) (Some toy_login) 1 1 = Inr (toy_ov, toy_changed)"
  using toy_other_secret
  by (simp add: toy_changed_def MAX_PASSWORD_HISTORY_def build_item_def build_details_def build_login_def toy_form_def login_input_from_def blank_input_def toy_ov_def
      toy_login_def no_login_def check_shape_def login_fields_def has_text_def check_some_def check_password_def
      check_notes_def apply_sections_def MAX_PASSWORD_CHARS_def push_history_def build_title_def clean_title_def
      build_username_def clean_username_def clean_urls_def normalize_url_def clean_sign_in_with_def normalize_tags_def dedupe_sorted_def
      is_site_bound_def MAX_TITLE_CHARS_def MAX_URLS_def MAX_TAGS_def MAX_URL_LEN_def is_http_def text_eval Let_def str_def toy_url_def)

lemma toy_overview_facts:
  "ov_item_type toy_ov = TLogin" "ov_auto_sign_in toy_ov = True" "ov_tags toy_ov = []" "ov_created_at toy_ov = 1"
  "toy_ov\<lparr>ov_extra := ov_extra toy_ov, ov_attachments := ov_attachments toy_ov\<rparr> = toy_ov"
  by (simp_all add: toy_ov_def)

lemma toy_saved:
  assumes "load_details toy_core 3 (toy_open b) = Inr toy_login"
  shows "\<exists>sv. stage_save_login toy_form toy_rn 9 (str ''a.b'') None None (str ''pq'') (Update 3) 1 (toy_open b) = Inr sv"
proof -
  have "\<exists>m. match_item toy_web toy_ov (toy_url (str ''a.b'')) DIRECT = Some m" using toy_matches by blast
  then have a: "authorize_for_page_with toy_form 3 (str ''a.b'') None DIRECT (toy_open b) = Inr toy_ov"
    by (auto simp: authorize_for_page_with_Inr_iff parse_context_def toy_form_def toy_core_def toy_page context_matches_def
        toy_open_session toy_session_def get_def is_site_bound_def toy_ov_def)
  note o = toy_overview_facts
  have "ov_id toy_ov = 3" "enc_overview toy_form toy_ov = Some [2]" by (simp_all add: toy_ov_def toy_form_codecs)
  then obtain w where w: "seal_staged toy_form toy_rn toy_ov (Some toy_changed) (item_revision (vs_store (toy_open b)) 3) (toy_open b) = Inr w"
    using toy_sealed_with [OF toy_open_session [of b] _ _ _ toy_form_codecs(3) _ _ toy_form_codecs(2), of toy_ov "[2]"]
    by (auto simp: toy_session_def)
  have "stage_update toy_form toy_rn 3 ((login_input_from toy_ov)\<lparr>in_password := Set (str ''pq''),
      in_sign_in_with := ov_sign_in_with toy_ov\<rparr>) 1 (toy_open b) = Inr (w\<lparr>sw_attachment_ids := None\<rparr>)"
    using w toy_form_details [OF assms] toy_form_built unfolding stage_update_def stage_update_with_def
    by (simp add: get_item_def toy_open_session toy_session_def get_def login_input_from_def blank_input_def o
      apply_edits_def no_edits_def file_edits_is_empty_def stage_def)
  then show ?thesis using a o by (simp add: stage_save_login_def stage_save_update_def str_def toy_open_session)
qed

lemma commit_write_abs:
  assumes "session_of s = Inr x" and "sw_epoch w = vs_epoch s" and "staged_ok env x w" and "commit_write w rv s = (r, s')"
  shows "\<exists>x'. session_of s' = Inr x' \<and> r = Inr (sw_plain w) \<and> abs_vault env s' = (abs_vault env s)(sw_item_id w := sw_plain w)"
proof (cases "is_tombstone w")
  case True
  note c = commit_write_tombstone [OF assms(1,2) True, of rv, unfolded assms(4)]
  have "session_of s' = Inr (forget (sw_item_id w) (touched x))" using c assms(1) by (simp add: session_of_Inr_iff)
  then show ?thesis using c True assms(1) by (simp add: abs_vault_def store_view_delete is_tombstone_def)
next
  case False
  then obtain ov d where "sealed_as env x w ov d" using assms(3) by (auto simp: staged_ok_def)
  then obtain ob db where b: "sw_overview w = Some ob" "sw_details w = Some db" "sw_plain w = Some ov"
    "sw_item_id w = ov_id ov" "open_overview env (ss_data_key x) (ss_vault_id x) (ov_id ov, ob) = Inr ov"
    by (auto simp: sealed_as_def)
  note c = commit_write_sealed [OF assms(1,2) b(1-3), of rv, unfolded assms(4)]
  have "session_of s' = Inr (place ov (touched x))" using c assms(1) by (simp add: session_of_Inr_iff)
  then show ?thesis using c b assms(1) by (simp add: abs_vault_def store_view_upsert)
qed

text \<open>The row a commit leaves for the item, and that no other row changes.\<close>

lemma commit_write_rows:
  assumes "session_of s = Inr x" and "sw_epoch w = vs_epoch s" and "staged_ok env x w"
  shows "get (st_items (vs_store (snd (commit_write w rv s)))) k =
    (if k = Id (sw_item_id w) then (case (sw_overview w, sw_details w) of
        (Some ob, Some de) \<Rightarrow> Some \<lparr>it_overview = ob, it_details = de, it_revision = rv\<rparr> | _ \<Rightarrow> None)
     else get (st_items (vs_store s)) k)"
proof (cases "is_tombstone w")
  case True
  then show ?thesis using commit_write_tombstone [OF assms(1,2) True, of rv] by (auto simp: is_tombstone_def delete_row_def)
next
  case False
  then obtain ob db ov where b: "sw_overview w = Some ob" "sw_details w = Some db" "sw_plain w = Some ov"
    using assms(3) by (auto simp: staged_ok_def sealed_as_def)
  then show ?thesis using commit_write_sealed [OF assms(1,2) b, of rv] by (auto simp: upsert_item_def)
qed

section \<open>Claims\<close>

text \<open>
  C7. Committing refines the abstract vault. For a write that the open session can read back (as every
  staging operation makes it), \<open>commit_write\<close> is exactly one update of the map from identifiers to
  overviews: it answers with the stored overview (nothing for a deletion), every other item is
  untouched, the session's live and trashed tables are the new map, and reopening the store with the
  vault's key would rebuild the same tables.
\<close>

theorem commit_write_refines:
  assumes "service_inv env s" and "session_of s = Inr x" and "sw_epoch w = vs_epoch s" and "staged_ok env x w"
    and "commit_write w rv s = (r, s')"
  shows "\<exists>x'. session_of s' = Inr x' \<and> r = Inr (sw_plain w) \<and>
    abs_vault env s' = (abs_vault env s)(sw_item_id w := sw_plain w) \<and>
    held_item x' = abs_vault env s' \<and>
    (\<forall>y. open_session env (vs_store s') (ss_vault_id x') (ss_vault_key x') = Inr y \<longrightarrow>
       get (ss_overviews y) = get (ss_overviews x') \<and> get (ss_trash y) = get (ss_trash x'))"
proof -
  have i: "service_inv env s'" using commit_write_inv [OF assms(1), of w rv] assms(2-5) by (metis snd_conv sum.inject(2))
  note r = commit_write_abs [OF assms(2-5)]
  then obtain x' where x': "session_of s' = Inr x'" by blast
  have "coherent env (vs_store s') x'" using i x' by (auto simp: session_of_Inr_iff service_inv_def session_inv_def)
  then have "held_item x' = abs_vault env s'" using coherent_held x' by (intro ext) (simp add: abs_vault_def)
  then show ?thesis using r x' reopened_same [OF i x'] by auto
qed

lemma commit_write_refines_witness:
  "\<exists>w s1. commit_write w 1 toy_vault = (Inr (Some toy_new), s1) \<and> abs_vault toy_core s1 3 = Some toy_new"
proof -
  obtain w x where w: "stage_create toy_core toy_rn 3 toy_input 1 toy_vault = Inr w" "session_of toy_vault = Inr x"
    "sealed_as toy_core x w toy_new toy_login" "sw_epoch w = vs_epoch toy_vault"
    "ss_data_key x = replicate 32 5" "ss_vault_id x = 5" "ss_identity_id x \<noteq> 3" by (rule toy_create)
  obtain r s1 where c: "commit_write w 1 toy_vault = (r, s1)" by force
  have "staged_ok toy_core x w" and "sw_plain w = Some toy_new" and "sw_item_id w = 3"
    using w(3) toy_new_id(1) by (auto simp: sealed_as_def staged_ok_def)
  then have "r = Inr (Some toy_new)" "abs_vault toy_core s1 3 = Some toy_new"
    using commit_write_refines [OF toy_vault_inv w(2,4) _ c] by auto
  then show ?thesis using c by blast
qed

text \<open>
  C36. What is created can be read. An item created under identifier \<open>u\<close>, committed later while the
  vault has not been locked in between, is the item \<open>build_item\<close> made of the input: its details open to
  exactly the built details, its overview is the built one, with the same tags up to upper and lower
  case (each once, as the vault spells it), the row has the server's revision, and the same overview is
  there after the vault is locked and opened again.
\<close>

theorem created_item_reads_back:
  assumes "env_ok env" and "nonces_ok rn" and "session_of s = Inr x"
    and "stage_create env rn u i now_ms s = Inr w"
    and "service_inv env s1" and "session_of s1 = Inr x1" and "vs_epoch s1 = vs_epoch s"
    and "ss_data_key x1 = ss_data_key x" and "ss_vault_id x1 = ss_vault_id x"
    and "commit_write w rv s1 = (r, s2)"
  shows "\<exists>ov d tags. build_item (ce_items env) u i None now_ms now_ms = Inr (ov, d) \<and>
    get_item u s2 = Inr (ov\<lparr>ov_tags := tags\<rparr>) \<and> same_tags (ce_lower env) (ov_tags ov) tags \<and> load_details env u s2 = Inr d \<and>
    item_revision (vs_store s2) u = Some rv \<and>
    (\<forall>x2 y. session_of s2 = Inr x2 \<longrightarrow> open_session env (vs_store s2) (ss_vault_id x2) (ss_vault_key x2) = Inr y \<longrightarrow>
       get (ss_overviews y) u = Some (ov\<lparr>ov_tags := tags\<rparr>))"
proof -
  obtain ov d metas tags where b: "build_item (ce_items env) u i None now_ms now_ms = Inr (ov, d)"
    and z: "sealed_as env x w (ov\<lparr>ov_attachments := metas, ov_tags := tags\<rparr>) d" and e: "sw_epoch w = vs_epoch s"
    and m: "metas = []" and tg: "same_tags (ce_lower env) (ov_tags ov) tags"
    using stage_create_with_sealed [OF assms(1-3) assms(4) [unfolded stage_create_def]] by metis
  have "ov\<lparr>ov_attachments := metas, ov_tags := tags\<rparr> = ov\<lparr>ov_tags := tags\<rparr>"
    using build_item_Inr [OF b] m by (cases ov) simp
  then have z1: "sealed_as env x1 w (ov\<lparr>ov_tags := tags\<rparr>) d" using z assms(8,9) by (simp add: sealed_as_def)
  have o: "ov_id ov = u" "ov_trashed_at ov = None" using build_item_Inr [OF b] by simp_all
  note c = committed_reads_back [OF assms(6) _ z1 assms(10)]
  have c: "session_of s2 = Inr (place (ov\<lparr>ov_tags := tags\<rparr>) (touched x1))" "get_item u s2 = Inr (ov\<lparr>ov_tags := tags\<rparr>)"
    "load_details env u s2 = Inr d" "item_revision (vs_store s2) u = Some rv"
    using c e assms(7) o by simp_all
  have "staged_ok env x1 w" using z1 by (auto simp: staged_ok_def)
  then have i: "service_inv env s2" using commit_write_inv [OF assms(5), of w rv] assms(6,10) by (metis snd_conv sum.inject(2))
  have "get (ss_overviews y) u = Some (ov\<lparr>ov_tags := tags\<rparr>)"
    if "session_of s2 = Inr x2" "open_session env (vs_store s2) (ss_vault_id x2) (ss_vault_key x2) = Inr y" for x2 y
    using reopened_same [OF i that] c(1,2) that(1) by (simp add: get_item_def result_simps)
  then show ?thesis using b c tg by blast
qed

lemma created_item_reads_back_witness:
  "\<exists>w r s2. stage_create toy_core toy_rn 3 toy_input 1 toy_vault = Inr w \<and> commit_write w 7 toy_vault = (r, s2) \<and>
     load_details toy_core 3 s2 = Inr toy_login \<and> item_revision (vs_store s2) 3 = Some 7"
proof -
  obtain w x where w: "stage_create toy_core toy_rn 3 toy_input 1 toy_vault = Inr w" "session_of toy_vault = Inr x"
    "sealed_as toy_core x w toy_new toy_login" "sw_epoch w = vs_epoch toy_vault"
    "ss_data_key x = replicate 32 5" "ss_vault_id x = 5" "ss_identity_id x \<noteq> 3" by (rule toy_create)
  obtain r s2 where c: "commit_write w 7 toy_vault = (r, s2)" by force
  have "ce_items toy_core = toy_items" by (simp add: toy_core_def)
  then show ?thesis
    using created_item_reads_back [OF toy_env_ok toy_nonces_ok w(2,1) toy_vault_inv w(2) refl refl refl c] w(1) c toy_built
    by auto
qed

text \<open>
  C37. The Trash gives back what went in. Trashing a live item whose details open, then committing,
  hides it from every read of live items while its details stay readable as trashed; restoring and
  committing makes it live again with the same details and the same overview, its tags the same up to
  upper and lower case.
\<close>

theorem trash_restore_roundtrip:
  assumes "env_ok env" and "nonces_ok rn" and "nonces_ok rn2" and "service_inv env s" and "session_of s = Inr x"
    and "load_details env u s = Inr d" and "get_item u s = Inr ov"
    and "stage_trash env rn u t s = Inr w" and "commit_write w r1 s = (a1, s1)"
    and "stage_restore_trashed env rn2 u s1 = Inr w2" and "commit_write w2 r2 s1 = (a2, s2)"
  shows "get_item u s1 = Inl NotFound \<and> load_details env u s1 = Inl NotFound \<and> load_trashed_details env u s1 = Inr d \<and>
    (\<exists>tags. get_item u s2 = Inr (ov\<lparr>ov_tags := tags\<rparr>) \<and> load_details env u s2 = Inr d \<and> same_tags (ce_lower env) (ov_tags ov) tags)"
proof -
  have g: "get (ss_overviews x) u = Some ov" using assms(5,7) by (simp add: get_item_def result_simps)
  have ci: "coherent env (vs_store s) x" using assms(4,5) by (auto simp: session_of_Inr_iff service_inv_def session_inv_def)
  have ui: "u \<noteq> ss_identity_id x" and z: "sealed_as env x w (ov\<lparr>ov_trashed_at := Some t\<rparr>) d" and e: "sw_epoch w = vs_epoch s"
    using stage_trash_sealed [OF assms(1,2,5,8)] assms(6) g by auto
  have id: "ov_id ov = u" "ov_trashed_at ov = None"
    using coherent_live(1) [OF ci, of u] g ui store_view_id by (auto split: option.splits if_splits)
  have c1: "session_of s1 = Inr (place (ov\<lparr>ov_trashed_at := Some t\<rparr>) (touched x))" "get_item u s1 = Inl NotFound"
    "load_details env u s1 = Inl NotFound" "load_trashed_details env u s1 = Inr d" "vs_epoch s1 = vs_epoch s"
    using committed_reads_back [OF assms(5) e z assms(9)] id ui by simp_all
  let ?x1 = "place (ov\<lparr>ov_trashed_at := Some t\<rparr>) (touched x)"
  obtain ov2 d2 tags where r: "get (ss_trash ?x1) u = Some ov2" "load_trashed_details env u s1 = Inr d2"
    "sealed_as env ?x1 w2 (ov2\<lparr>ov_trashed_at := None, ov_tags := tags\<rparr>) d2" "sw_epoch w2 = vs_epoch s1"
    "same_tags (ce_lower env) (ov_tags ov2) tags"
    by (rule stage_restore_sealed [OF assms(1,3) c1(1) assms(10)])
  have o2: "ov2 = ov\<lparr>ov_trashed_at := Some t\<rparr>" using r(1) id ui by (simp add: place_def Let_def)
  have "ov2\<lparr>ov_trashed_at := None, ov_tags := tags\<rparr> = ov\<lparr>ov_tags := tags\<rparr>" using id(2) by (cases ov) (simp add: o2)
  then have "get_item u s2 = Inr (ov\<lparr>ov_tags := tags\<rparr>) \<and> load_details env u s2 = Inr d2"
    using committed_reads_back [OF c1(1) r(4,3) assms(11)] id by simp
  then show ?thesis using c1 r(2,5) o2 by auto
qed

lemma trash_restore_roundtrip_witness:
  "\<exists>s w1 s1 w2 a s2. stage_trash toy_core toy_rn 3 2 s = Inr w1 \<and> commit_write w1 2 s = (Inr (Some toy_trashed), s1) \<and>
     load_details toy_core 3 s1 = Inl NotFound \<and> stage_restore_trashed toy_core toy_rn 3 s1 = Inr w2 \<and>
     commit_write w2 3 s1 = (a, s2) \<and> load_details toy_core 3 s2 = Inr toy_login \<and> get_item 3 s2 = Inr toy_new"
proof -
  obtain w s x where s: "stage_create toy_core toy_rn 3 toy_input 1 toy_vault = Inr w"
    "commit_write w 1 toy_vault = (Inr (Some toy_new), s)" "service_inv toy_core s"
    "session_of s = Inr x" "ss_data_key x = replicate 32 5" "ss_vault_id x = 5" "ss_identity_id x \<noteq> 3"
    "get (ss_overviews x) 3 = Some toy_new" "get_item 3 s = Inr toy_new" "load_details toy_core 3 s = Inr toy_login"
    by (rule toy_stored)
  obtain w1 where w1: "stage_trash toy_core toy_rn 3 2 s = Inr w1" using toy_stage_trash [OF s(4-8,10)] by blast
  have z: "sealed_as toy_core x w1 toy_trashed toy_login" "sw_epoch w1 = vs_epoch s"
    using stage_trash_sealed [OF toy_env_ok toy_nonces_ok s(4) w1] s(8,10) by (auto simp: toy_trashed_def)
  obtain a1 s1 where c1: "commit_write w1 2 s = (a1, s1)" by force
  have i: "ov_id toy_trashed = 3" "ov_trashed_at toy_trashed = Some 2" "ov_tags toy_new = []" "toy_new\<lparr>ov_tags := []\<rparr> = toy_new"
    by (simp_all add: toy_trashed_def toy_new_def toy_ov_def)
  have a1: "a1 = Inr (Some toy_trashed)" "session_of s1 = Inr (place toy_trashed (touched x))"
    "load_trashed_details toy_core 3 s1 = Inr toy_login"
    using committed_reads_back [OF s(4) z(2,1) c1] i s(7) by simp_all
  obtain w2 where w2: "stage_restore_trashed toy_core toy_rn 3 s1 = Inr w2"
    using toy_stage_restore [OF a1(2) _ _ _ a1(3)] s(5-7) i by (auto simp: place_def touched_def Let_def)
  obtain a s2 where c2: "commit_write w2 3 s1 = (a, s2)" by force
  have t: "same_tags (ce_lower toy_core) (ov_tags toy_new) tags \<longleftrightarrow> tags = []" for tags by (simp add: i)
  from trash_restore_roundtrip [OF toy_env_ok toy_nonces_ok toy_nonces_ok s(3,4,10,9) w1 c1 w2 c2]
  show ?thesis using w1 c1 w2 c2 a1(1) i(4) by (metis t)
qed

text \<open>
  C38. A page that saves over a login changes its password and nothing else. When \<open>stage_save_login\<close>
  accepts an update, the item is a live login whose own rules match the page directly; the staged
  write opens to that login with the new password, every other secret (one-time code, notes, passkeys,
  custom fields, app bindings) as it was, its files, unknown fields, sign-in flag and creation time as
  they were, its title, username, websites and sign-in provider the cleaned forms of its own, and its
  tags its own, cleaned, up to upper and lower case. A replaced password, unless it has the digest of the
  new one, is then the first entry of the history, with the time of the save, before the four newest of the
  others; otherwise the history is as it was.
\<close>

theorem page_update_only_password:
  assumes "env_ok env" and "nonces_ok rn" and "session_of s = Inr x" and "session_ok x"
    and "stage_save_login env rn u page tp username pw (Update v) now_ms s = Inr sv"
  shows "\<exists>c ov l ov' h ts. get (ss_overviews x) v = Some ov \<and> ov_item_type ov = TLogin \<and>
    parse_context env page tp = Some c \<and> context_matches env c ov DIRECT \<noteq> None \<and>
    load_details env v s = Inr (DLogin l) \<and> sv_item_id sv = v \<and>
    sealed_as env x (sv_write sv) ov' (DLogin (l\<lparr>lg_password := Some pw, lg_password_history := h\<rparr>)) \<and>
    h = (case lg_password l of
        None \<Rightarrow> lg_password_history l
      | Some q \<Rightarrow> if secrets_equal (ce_items env) pw q then lg_password_history l
          else \<lparr>pp_password = q, pp_replaced_at = now_ms\<rparr> # take 4 (lg_password_history l)) \<and>
    normalize_tags (ie_lower (ce_items env)) (ov_tags ov) = Inr ts \<and> same_tags (ce_lower env) ts (ov_tags ov') \<and>
    ov_id ov' = v \<and> ov_attachments ov' = ov_attachments ov \<and> ov_extra ov' = ov_extra ov \<and>
    ov_auto_sign_in ov' = ov_auto_sign_in ov \<and> ov_created_at ov' = ov_created_at ov \<and> ov_trashed_at ov' = None \<and>
    clean_title (ov_title ov) = Inr (ov_title ov') \<and> clean_username (ov_username ov) = Inr (ov_username ov') \<and>
    clean_urls (fe_parse (ie_fields (ce_items env))) (ov_urls ov) = Inr (ov_urls ov') \<and>
    clean_sign_in_with (ov_sign_in_with ov) = Inr (ov_sign_in_with ov')"
proof -
  obtain ov w where p: "pw \<noteq> []" "authorize_for_page_with env v page tp DIRECT s = Inr ov" "ov_item_type ov = TLogin"
    "stage_update_with env rn v ((login_input_from ov)\<lparr>in_password := Set pw, in_sign_in_with := ov_sign_in_with ov\<rparr>) no_edits now_ms s = Inr w"
    "sv = \<lparr>sv_write = w, sv_item_id = v\<rparr>"
    using assms(5) by (auto simp: stage_save_login_def stage_save_update_def stage_update_def result_simps)
  obtain c where c: "get (ss_overviews x) v = Some ov" "parse_context env page tp = Some c" "context_matches env c ov DIRECT \<noteq> None"
    using p(2) assms(3) unfolding authorize_for_page_with_Inr_iff by auto
  let ?i = "(login_input_from ov)\<lparr>in_password := Set pw, in_sign_in_with := ov_sign_in_with ov\<rparr>"
  let ?j = "?i\<lparr>in_auto_sign_in := Some (case in_auto_sign_in ?i of Some b \<Rightarrow> b | None \<Rightarrow> ov_auto_sign_in ov),
         in_tags := Some (case in_tags ?i of Some t \<Rightarrow> t | None \<Rightarrow> ov_tags ov)\<rparr>"
  obtain ex current ov2 d metas tags where g: "get (ss_overviews x) v = Some ex" "load_details env v s = Inr current"
    "ov_item_type ex = in_item_type ?i"
    "build_item (ce_items env) v (?i\<lparr>in_auto_sign_in := Some (case in_auto_sign_in ?i of Some b \<Rightarrow> b | None \<Rightarrow> ov_auto_sign_in ex),
         in_tags := Some (case in_tags ?i of Some t \<Rightarrow> t | None \<Rightarrow> ov_tags ex)\<rparr>) (Some current) (ov_created_at ex) now_ms = Inr (ov2, d)"
    "sealed_as env x w (ov2\<lparr>ov_extra := ov_extra ex, ov_attachments := metas, ov_tags := tags\<rparr>) d"
    "sw_epoch w = vs_epoch s" "sw_base_revision w = item_revision (vs_store s) v"
    "no_edits = no_edits \<longrightarrow> metas = ov_attachments ex" "same_tags (ce_lower env) (ov_tags ov2) tags"
    by (rule stage_update_with_sealed [OF assms(1-3) p(4)])
  have e: "ex = ov" using g(1) c(1) by simp
  have b: "build_item (ce_items env) v ?j (Some current) (ov_created_at ov) now_ms = Inr (ov2, d)" using g(4) unfolding e .
  have j: "in_item_type ?j = TLogin" "in_sections ?j = None" "in_totp ?j = Keep" "in_notes ?j = Keep" "in_password ?j = Set pw"
    "in_auto_sign_in ?j = Some (ov_auto_sign_in ov)" "in_title ?j = ov_title ov" "in_username ?j = ov_username ov"
    "in_urls ?j = ov_urls ov" "in_sign_in_with ?j = ov_sign_in_with ov" "in_tags ?j = Some (ov_tags ov)"
    by (simp_all add: login_input_from_def blank_input_def)
  note l = build_item_login [OF b j(1), unfolded j]
  have "details_type current = TLogin" using loaded_details_type [OF g(2) assms(3) c(1)] p(3) by simp
  then obtain l0 where cur: "current = DLogin l0" by (cases current) auto
  have d: "d = DLogin (l0\<lparr>lg_password := Some pw,
      lg_password_history := push_history (ce_items env) (lg_password l0) (Some pw) now_ms (lg_password_history l0)\<rparr>)"
    by (rule build_login_Inr [OF l [THEN conjunct1]]) (unfold j, auto simp: cur apply_sections_def p(1))
  have u: "clean_urls (fe_parse (ie_fields (ce_items env))) (ov_urls ov) = Inr (ov_urls ov2)" "ov_id ov2 = v"
    "ov_created_at ov2 = ov_created_at ov" "ov_trashed_at ov2 = None"
    "normalize_tags (ie_lower (ce_items env)) (ov_tags ov) = Inr (ov_tags ov2)"
    using build_item_Inr [OF b, unfolded j] by (simp_all add: is_site_bound_def)
  let ?h = "push_history (ce_items env) (lg_password l0) (Some pw) now_ms (lg_password_history l0)"
  have h: "?h = (case lg_password l0 of None \<Rightarrow> lg_password_history l0
      | Some q \<Rightarrow> if secrets_equal (ce_items env) pw q then lg_password_history l0
          else \<lparr>pp_password = q, pp_replaced_at = now_ms\<rparr> # take 4 (lg_password_history l0))"
    by (simp add: push_history_def MAX_PASSWORD_HISTORY_def split: option.split)
  show ?thesis
    using c p(3,5) g(2,5,8,9) l u h by (intro exI [of _ c] exI [of _ ov] exI [of _ l0]
      exI [of _ "ov2\<lparr>ov_extra := ov_extra ov, ov_attachments := ov_attachments ov, ov_tags := tags\<rparr>"]
      exI [of _ ?h] exI [of _ "ov_tags ov2"]) (simp add: e cur d)
qed

lemma page_update_only_password_witness:
  "\<exists>b sv ov. stage_save_login toy_form toy_rn 9 (str ''a.b'') None None (str ''pq'') (Update 3) 1 (toy_open b) = Inr sv \<and>
     sealed_as toy_form toy_session (sv_write sv) ov toy_changed \<and> ov_id ov = 3"
proof -
  obtain b where b: "load_details toy_core 3 (toy_open b) = Inr toy_login" using toy_details by blast
  obtain sv where sv: "stage_save_login toy_form toy_rn 9 (str ''a.b'') None None (str ''pq'') (Update 3) 1 (toy_open b) = Inr sv"
    using toy_saved [OF b] by blast
  obtain l ov h where l: "load_details toy_form 3 (toy_open b) = Inr (DLogin l)"
    "sealed_as toy_form toy_session (sv_write sv) ov (DLogin (l\<lparr>lg_password := Some (str ''pq''), lg_password_history := h\<rparr>))" "ov_id ov = 3"
    "h = (case lg_password l of None \<Rightarrow> lg_password_history l
      | Some q \<Rightarrow> if secrets_equal (ce_items toy_form) (str ''pq'') q then lg_password_history l
          else \<lparr>pp_password = q, pp_replaced_at = 1\<rparr> # take 4 (lg_password_history l))"
    using page_update_only_password [OF toy_form_env_ok toy_nonces_ok toy_open_session toy_session_ok sv]
    by (elim exE conjE) (rule that; assumption)
  have "l = no_login\<lparr>lg_password := Some (str ''pw'')\<rparr>" using l(1) toy_form_details [OF b] by (simp add: toy_login_def)
  then have "DLogin (l\<lparr>lg_password := Some (str ''pq''), lg_password_history := h\<rparr>) = toy_changed"
    using l(4) toy_other_secret by (simp add: toy_changed_def no_login_def)
  then show ?thesis using sv l(2,3) by metis
qed

text \<open>
  The Trash empties on the day it says. The tombstones \<open>stage_expired_trash\<close> stages are exactly those
  of the trashed items (never the identity) whose count of days left, as shown in the Trash, is
  zero, each once and in order; and that count never exceeds thirty.
\<close>

theorem expired_trash_exact:
  assumes "session_of s = Inr x" and "session_ok x" and "in_i64 now_ms" and "now_ms < i64_max"
    and "\<forall>u ov t. get (ss_trash x) u = Some ov \<longrightarrow> ov_trashed_at ov = Some t \<longrightarrow> in_i64 t"
  shows "\<exists>ws. stage_expired_trash now_ms s = Inr ws \<and> sorted (map sw_item_id ws) \<and> distinct (map sw_item_id ws) \<and>
    list_all (\<lambda>w. is_tombstone w \<and> sw_epoch w = vs_epoch s) ws \<and>
    sw_item_id ` set ws = {u. \<exists>ov t. get (ss_trash x) u = Some ov \<and> u \<noteq> ss_identity_id x \<and>
      ov_trashed_at ov = Some t \<and> days_left t now_ms = 0} \<and>
    (\<forall>t. days_left t now_ms \<le> 30)"
proof -
  have t: "table_ok (ss_trash x)" and i: "\<And>u ov. get (ss_trash x) u = Some ov \<Longrightarrow> ov_id ov = u"
    using assms(2) by (auto simp: session_ok_def)
  let ?f = "\<lambda>ov. ov_id ov \<noteq> ss_identity_id x \<and> trash_due now_ms ov"
  let ?ids = "map ov_id (filter ?f (vals (ss_trash x)))"
  have m: "map ov_id (vals (ss_trash x)) = map fst (ss_trash x)"
    using i t by (auto simp: vals_def get_Some_iff)
  have "distinct (map ov_id (vals (ss_trash x)))" using t by (simp add: m table_ok_def)
  then have d: "distinct ?ids" by (simp add: distinct_map inj_on_def)
  have "u \<in> set ?ids \<longleftrightarrow> (\<exists>ov. get (ss_trash x) u = Some ov \<and> u \<noteq> ss_identity_id x \<and> trash_due now_ms ov)" for u
    using i by (auto simp: vals_iff [OF t])
  moreover have "trash_due now_ms ov \<longleftrightarrow> (\<exists>t. ov_trashed_at ov = Some t \<and> days_left t now_ms = 0)"
    if "get (ss_trash x) u = Some ov" for u ov
    using that assms(5) days_left_zero_iff [OF _ assms(3,4)] by (auto simp: trash_due_def split: option.splits)
  ultimately have s: "set ?ids = {u. \<exists>ov t. get (ss_trash x) u = Some ov \<and> u \<noteq> ss_identity_id x \<and>
      ov_trashed_at ov = Some t \<and> days_left t now_ms = 0}"
    by blast
  have n: "map sw_item_id (map (\<lambda>u. tombstone u s) us) = us" for us by (induction us) simp_all
  show ?thesis
    using d s days_left_bound unfolding stage_expired_trash_def assms(1) and_then.simps
    by (intro exI [of _ "map (\<lambda>u. tombstone u s) (sort ?ids)"], unfold n) (simp add: list_all_iff image_image)
qed

lemma expired_trash_exact_witness:
  "\<exists>w. stage_expired_trash (31 * 86400000) ((toy_open [])\<lparr>vs_session := Some (toy_session\<lparr>ss_overviews := [], ss_trash := [(3, toy_trashed)]\<rparr>)\<rparr>) = Inr [w] \<and>
     is_tombstone w \<and> sw_item_id w = 3"
proof -
  let ?x = "toy_session\<lparr>ss_overviews := [], ss_trash := [(3, toy_trashed)]\<rparr>" and ?now = "31 * 86400000 :: int"
  let ?s = "(toy_open [])\<lparr>vs_session := Some ?x\<rparr>"
  have x: "session_of ?s = Inr ?x" by (simp add: toy_open_def session_of_def)
  have o: "ov_id toy_trashed = 3" "ov_trashed_at toy_trashed = Some 2" by (simp_all add: toy_trashed_def toy_new_def toy_ov_def)
  have ok: "session_ok ?x"
    using o by (auto simp: session_ok_def toy_session_def table_ok_def get_def default_settings_valid split: if_splits)
  have n: "in_i64 ?now" "?now < i64_max" by (simp_all add: in_i64_def i64_max_def i64_min_def)
  have t: "\<forall>u ov t. get (ss_trash ?x) u = Some ov \<longrightarrow> ov_trashed_at ov = Some t \<longrightarrow> in_i64 t"
    using o by (auto simp: get_def in_i64_def i64_max_def i64_min_def split: if_splits)
  have d: "days_left 2 ?now = 0"
    by (simp add: days_left_def saturating_add_def saturating_sub_def sat64_def i64_max_def i64_min_def TRASH_RETENTION_MS_def DAY_MS_def)
  have e: "{u. \<exists>ov t. get (ss_trash ?x) u = Some ov \<and> u \<noteq> ss_identity_id ?x \<and> ov_trashed_at ov = Some t \<and> days_left t ?now = 0} = {3}"
    using o d by (auto simp: get_def toy_session_def split: if_splits)
  obtain ws where ws: "stage_expired_trash ?now ?s = Inr ws" "distinct (map sw_item_id ws)"
    "list_all (\<lambda>w. is_tombstone w \<and> sw_epoch w = vs_epoch ?s) ws" "sw_item_id ` set ws = {3}"
    using expired_trash_exact [OF x ok n t] unfolding e by blast
  then have "set (map sw_item_id ws) = {3}" by simp
  then have "length ws = 1" using ws(2) distinct_card [of "map sw_item_id ws"] by simp
  then obtain w where "ws = [w]" by (metis One_nat_def length_0_conv length_Suc_conv)
  then show ?thesis using ws by auto
qed

end
