(* ===== verification/Sync.thy ===== *)
theory Sync
  imports Commits
begin

text \<open>
  The account header and applying a server's changes (\<^verbatim>\<open>havenkeys-core/src/sync.rs\<close>). The server is
  untrusted: a header counts only with an attestation made under the vault's data key and a
  revision above every one seen before, and an item only when both of its blobs open.

  \<open>sync_env\<close> adds the JSON encodings of the header and Base64 to \<open>core_env\<close>.
\<close>

section \<open>Model\<close>

subsection \<open>The header file\<close>

definition SYNC_FORMAT :: nat where "SYNC_FORMAT = 1"

record header_body =
  hb_format :: nat
  hb_vault_id :: uuid
  hb_vault_format :: nat
  hb_key_scheme :: KeyScheme
  hb_kdf :: kdf_params
  hb_wrapped_vault_key :: rstring
  hb_revision :: nat
  hb_created_at :: int

record header_file =
  hf_body :: header_body
  hf_attestation :: rstring

record sync_env =
  se_core :: core_env
  enc_body :: "header_body \<Rightarrow> bytes option"
  enc_file :: "header_file \<Rightarrow> bytes option"
  dec_file :: "bytes \<Rightarrow> header_file option"
  b64_encode :: "bytes \<Rightarrow> rstring"
  b64_decode :: "rstring \<Rightarrow> bytes option"

record sync_report =
  sr_added :: nat
  sr_updated :: nat
  sr_deleted :: nat
  sr_skipped_items :: nat
  sr_header_adopted :: bool

definition default_report :: sync_report where
  "default_report = \<lparr>sr_added = 0, sr_updated = 0, sr_deleted = 0, sr_skipped_items = 0, sr_header_adopted = False\<rparr>"

definition header_body_of :: "sync_env \<Rightarrow> header_record \<Rightarrow> header_body" where
  "header_body_of env h = \<lparr>hb_format = SYNC_FORMAT, hb_vault_id = hd_vault_id h, hb_vault_format = hd_format_version h,
     hb_key_scheme = hd_key_scheme h, hb_kdf = hd_kdf h, hb_wrapped_vault_key = b64_encode env (hd_wrapped_vault_key h),
     hb_revision = hd_revision h, hb_created_at = hd_created_at h\<rparr>"

definition body_to_record :: "sync_env \<Rightarrow> header_body \<Rightarrow> header_record result" where
  "body_to_record env b =
     and_then (ok_or Corrupted (b64_decode env (hb_wrapped_vault_key b))) (\<lambda>w.
     Inr \<lparr>hd_format_version = hb_vault_format b, hd_vault_id = hb_vault_id b, hd_kdf = hb_kdf b,
       hd_wrapped_vault_key = w, hd_created_at = hb_created_at b, hd_key_scheme = hb_key_scheme b,
       hd_revision = hb_revision b\<rparr>)"

definition canonical :: "sync_env \<Rightarrow> header_body \<Rightarrow> bytes result" where
  "canonical env b = ok_or Encryption (enc_body env b)"

definition header_ctx :: "uuid \<Rightarrow> blob_context" where
  "header_ctx vid = vault_ctx PSyncHeader vid"

definition encode_header :: "sync_env \<Rightarrow> bytes option \<Rightarrow> bytes \<Rightarrow> header_record \<Rightarrow> bytes result" where
  "encode_header env rnd data_key h =
     (let body = header_body_of env h in
      and_then (canonical env body) (\<lambda>c.
      and_then (seal (ce_crypto (se_core env)) rnd data_key (header_ctx (hd_vault_id h)) c) (\<lambda>att.
      ok_or Encryption (enc_file env \<lparr>hf_body = body, hf_attestation = b64_encode env att\<rparr>))))"

definition encode_header_for :: "sync_env \<Rightarrow> bytes option \<Rightarrow> prepared_vault \<Rightarrow> bytes result" where
  "encode_header_for env rnd p =
     and_then (derive_data_key (ce_keys (se_core env)) (pv_vault_key p)) (\<lambda>dk. encode_header env rnd dk (pv_header p))"

definition parse_header :: "sync_env \<Rightarrow> bytes \<Rightarrow> header_file result" where
  "parse_header env b =
     and_then (ensure (length b \<le> 64 * 1024) Corrupted) (\<lambda>_.
     and_then (ok_or Corrupted (dec_file env b)) (\<lambda>h.
     and_then (ensure (\<not> (hb_format (hf_body h) \<noteq> SYNC_FORMAT \<or> hb_vault_format (hf_body h) \<noteq> FORMAT_VERSION))
        UnsupportedVersion) (\<lambda>_.
     and_then (validate_kdf (hb_kdf (hf_body h))) (\<lambda>_. Inr h))))"

definition verify_header :: "sync_env \<Rightarrow> bytes \<Rightarrow> header_file \<Rightarrow> bool" where
  "verify_header env data_key h = (case b64_decode env (hf_attestation h) of
     None \<Rightarrow> False
   | Some att \<Rightarrow> (case canonical env (hf_body h) of
       Inl _ \<Rightarrow> False
     | Inr expected \<Rightarrow> open_blob (ce_crypto (se_core env)) data_key (header_ctx (hb_vault_id (hf_body h))) att = Inr expected))"

definition prepare_sign_in ::
  "sync_env \<Rightarrow> bytes \<Rightarrow> rstring \<Rightarrow> bytes \<Rightarrow> account_ref \<Rightarrow> (prepared_vault \<times> bytes) result" where
  "prepare_sign_in env b password secret_key acct =
     (let k = ce_keys (se_core env) in
      and_then (parse_header env b) (\<lambda>file.
      and_then (ensure (hb_key_scheme (hf_body file) = AccountBound) UnsupportedVersion) (\<lambda>_.
      and_then (body_to_record env (hf_body file)) (\<lambda>h.
      and_then (derive_master_key k password (hd_kdf h)) (\<lambda>m.
      and_then (derive_kek_v3 k m secret_key acct) (\<lambda>kek.
      and_then (derive_auth_key_from_master k m secret_key acct) (\<lambda>auth.
      and_then (unwrap_vault_key (se_core env) kek (hd_vault_id h) (hd_wrapped_vault_key h)) (\<lambda>vk.
      and_then (derive_data_key k vk) (\<lambda>dk.
      and_then (ensure (verify_header env dk file) Corrupted) (\<lambda>_.
      Inr (\<lparr>pv_header = h, pv_vault_key = vk\<rparr>, auth)))))))))))"

subsection \<open>Publishing and adopting\<close>

definition account_bound_header :: "service \<Rightarrow> header_record result" where
  "account_bound_header s =
     and_then (require_header (vs_store s)) (\<lambda>h.
     and_then (ensure (hd_key_scheme h = AccountBound) (InvalidInput ''this vault is not linked to an account'')) (\<lambda>_. Inr h))"

definition encode_account_header :: "sync_env \<Rightarrow> bytes option \<Rightarrow> service \<Rightarrow> bytes result" where
  "encode_account_header env rnd s =
     and_then (account_bound_header s) (\<lambda>local.
     and_then (session_of s) (\<lambda>x. encode_header env rnd (ss_data_key x) local))"

definition encode_rekeyed_header :: "sync_env \<Rightarrow> bytes option \<Rightarrow> rekey_ticket \<Rightarrow> rekeyed \<Rightarrow> service \<Rightarrow> bytes result" where
  "encode_rekeyed_header env rnd t r s =
     and_then (session_of s) (\<lambda>x.
     and_then (ensure (rt_epoch t = vs_epoch s) Locked) (\<lambda>_.
     encode_header env rnd (ss_data_key x)
       ((rt_header t)\<lparr>hd_kdf := rk_kdf r, hd_wrapped_vault_key := rk_wrapped_vault_key r, hd_key_scheme := rk_key_scheme r,
          hd_revision := u64_saturating_succ (hd_revision (rt_header t))\<rparr>)))"

text \<open>\<open>None\<close> where the code returns false without a write, otherwise the store written.\<close>

definition adopt_plan :: "sync_env \<Rightarrow> bytes \<Rightarrow> service \<Rightarrow> store option result" where
  "adopt_plan env remote s =
     and_then (account_bound_header s) (\<lambda>local.
     and_then (parse_header env remote) (\<lambda>f.
     and_then (ensure (hb_vault_id (hf_body f) = hd_vault_id local)
        (InvalidInput ''that header is for a different vault'')) (\<lambda>_.
     if hb_key_scheme (hf_body f) \<noteq> AccountBound then Inr None
     else and_then (session_of s) (\<lambda>x.
       if \<not> verify_header env (ss_data_key x) f then Inr None
       else and_then (body_to_record env (hf_body f)) (\<lambda>h.
         and_then (account (vs_store s)) (\<lambda>a.
         let fl = max (case a of Some a \<Rightarrow> ac_max_header_rev a | None \<Rightarrow> 0) (as_i64 (hd_revision local)) in
         if as_i64 (hd_revision h) \<le> fl then Inr None
         else and_then (update_key_wrap (hd_kdf h) (hd_wrapped_vault_key h) (hd_key_scheme h) (hd_revision h) (vs_store s)) (\<lambda>st.
           Inr (Some (raise_max_header_rev (as_i64 (hd_revision h)) st)))))))))"

definition adopt_account_header :: "sync_env \<Rightarrow> bytes \<Rightarrow> service \<Rightarrow> bool result \<times> service" where
  "adopt_account_header env remote s = (case adopt_plan env remote s of
     Inl e \<Rightarrow> (Inl e, s)
   | Inr None \<Rightarrow> (Inr False, s)
   | Inr (Some st) \<Rightarrow> (Inr True, s\<lparr>vs_store := st\<rparr>))"

subsection \<open>Applying changes\<close>

record remote_change =
  rc_item_id :: uuid
  rc_revision :: int
  rc_overview :: "bytes option"
  rc_details :: "bytes option"
  rc_deleted :: bool

definition missing_change :: "uuid \<Rightarrow> remote_change" where
  "missing_change u = \<lparr>rc_item_id = u, rc_revision = 0, rc_overview = None, rc_details = None, rc_deleted = True\<rparr>"

definition check_item_bytes :: "core_env \<Rightarrow> session \<Rightarrow> uuid \<Rightarrow> bytes \<Rightarrow> bytes \<Rightarrow> item_overview option" where
  "check_item_bytes env x u ob db =
     (case open_json env (ss_data_key x) (item_ctx PItemOverview (ss_vault_id x) u) (dec_overview env) ob of
        Inl _ \<Rightarrow> None
      | Inr ov \<Rightarrow>
        (case open_json env (ss_data_key x) (item_details_ctx (ce_crypto env) (ss_vault_id x) u ob) (dec_details env) db of
           Inl _ \<Rightarrow> None
         | Inr d \<Rightarrow> if ov_id ov \<noteq> u \<or> details_type d \<noteq> ov_item_type ov then None else Some ov))"

fun keep_last :: "remote_change list \<Rightarrow> remote_change list" where
  "keep_last [] = []"
| "keep_last (c # cs) = (if rc_item_id c \<in> rc_item_id ` set cs then keep_last cs else c # keep_last cs)"

record pull_work =
  pw_report :: sync_report
  pw_rows :: "pulled_row list"
  pw_overviews :: "item_overview list"
  pw_deletions :: "uuid list"
  pw_unreadable :: "(uuid \<times> int) list"

definition checked_change :: "core_env \<Rightarrow> session \<Rightarrow> remote_change \<Rightarrow> (bytes \<times> bytes \<times> item_overview) option" where
  "checked_change env x c = (case (rc_overview c, rc_details c) of
     (Some ob, Some db) \<Rightarrow> map_option (\<lambda>ov. (ob, db, ov)) (check_item_bytes env x (rc_item_id c) ob db)
   | _ \<Rightarrow> None)"

definition sort_change :: "core_env \<Rightarrow> session \<Rightarrow> remote_change \<Rightarrow> pull_work \<Rightarrow> pull_work" where
  "sort_change env x c p =
     (if rc_deleted c then p\<lparr>pw_deletions := pw_deletions p @ [rc_item_id c]\<rparr>
      else case checked_change env x c of
        Some (ob, db, ov) \<Rightarrow>
          (let r = pw_report p; u = rc_item_id c in
           p\<lparr>pw_report := (if has_key (ss_overviews x) u \<or> has_key (ss_trash x) u
                           then r\<lparr>sr_updated := sr_updated r + 1\<rparr> else r\<lparr>sr_added := sr_added r + 1\<rparr>),
             pw_rows := pw_rows p @ [(u, ob, db, rc_revision c)],
             pw_overviews := pw_overviews p @ [ov]\<rparr>)
      | None \<Rightarrow>
          p\<lparr>pw_report := (pw_report p)\<lparr>sr_skipped_items := sr_skipped_items (pw_report p) + 1\<rparr>,
            pw_unreadable := pw_unreadable p @ [(rc_item_id c, rc_revision c)]\<rparr>)"

definition no_work :: pull_work where
  "no_work = \<lparr>pw_report = default_report, pw_rows = [], pw_overviews = [], pw_deletions = [], pw_unreadable = []\<rparr>"

definition apply_changes ::
  "core_env \<Rightarrow> remote_change list \<Rightarrow> int option \<Rightarrow> int \<Rightarrow> service \<Rightarrow> sync_report result \<times> service" where
  "apply_changes env changes cursor now_ms s =
     (case and_then (require_account (vs_store s)) (\<lambda>_. session_of s) of
        Inl e \<Rightarrow> (Inl e, s)
      | Inr x \<Rightarrow>
        (let p = fold (sort_change env x) (keep_last changes) no_work in
         case apply_pull (pw_rows p) (pw_deletions p) (pw_unreadable p) (map_option (\<lambda>c. (c, now_ms)) cursor) (vs_store s) of
           (st, deleted) \<Rightarrow>
             (let x1 = fold forget (pw_deletions p) (fold place (pw_overviews p) x);
                  x2 = (if pw_overviews p \<noteq> [] \<or> pw_deletions p \<noteq> []
                        then x1\<lparr>ss_generation := ss_generation x1 + 1, ss_health := None\<rparr> else x1)
              in (Inr ((pw_report p)\<lparr>sr_deleted := deleted\<rparr>), s\<lparr>vs_store := st, vs_session := Some x2\<rparr>))))"

definition apply_remote_changes ::
  "core_env \<Rightarrow> int \<Rightarrow> remote_change list \<Rightarrow> int \<Rightarrow> service \<Rightarrow> sync_report result \<times> service" where
  "apply_remote_changes env cursor changes now_ms s = apply_changes env changes (Some cursor) now_ms s"

definition refetched_changes :: "(uuid \<times> int) list \<Rightarrow> uuid list \<Rightarrow> remote_change list \<Rightarrow> remote_change list" where
  "refetched_changes recorded requested changes =
     (let wanted = filter (\<lambda>u. u \<in> fst ` set recorded) (remdups requested);
          changes = filter (\<lambda>c. rc_item_id c \<in> set wanted) changes;
          returned = map rc_item_id changes
      in filter (\<lambda>c. case map_of recorded (rc_item_id c) of Some rv \<Rightarrow> rv \<le> rc_revision c | None \<Rightarrow> False) changes
         @ map missing_change (filter (\<lambda>u. u \<notin> set returned) wanted))"

definition apply_refetched ::
  "core_env \<Rightarrow> uuid list \<Rightarrow> remote_change list \<Rightarrow> int \<Rightarrow> service \<Rightarrow> sync_report result \<times> service" where
  "apply_refetched env requested changes now_ms s =
     apply_changes env (refetched_changes (unreadable_revisions (vs_store s)) requested changes) None now_ms s"

definition reset_sync_cursor :: "int \<Rightarrow> service \<Rightarrow> unit result \<times> service" where
  "reset_sync_cursor now_ms s = (case require_account (vs_store s) of
     Inl e \<Rightarrow> (Inl e, s) | Inr _ \<Rightarrow> (Inr (), s\<lparr>vs_store := reset_cursor now_ms (vs_store s)\<rparr>))"

definition replica_item_ids :: "service \<Rightarrow> uuid list result" where
  "replica_item_ids s = and_then (require_account (vs_store s)) (\<lambda>_. item_ids (vs_store s))"

definition drop_items_the_server_lacks ::
  "core_env \<Rightarrow> uuid list \<Rightarrow> uuid list \<Rightarrow> int \<Rightarrow> service \<Rightarrow> sync_report result \<times> service" where
  "drop_items_the_server_lacks env held_ids seen now_ms s = (case require_account (vs_store s) of
     Inl e \<Rightarrow> (Inl e, s)
   | Inr _ \<Rightarrow> (let missing = map missing_change (filter (\<lambda>u. u \<notin> set seen) held_ids) in
       if missing = [] then (Inr default_report, s) else apply_changes env missing None now_ms s))"

section \<open>Properties\<close>

subsection \<open>The last change for each item\<close>

lemma set_keep_last: "rc_item_id ` set (keep_last cs) = rc_item_id ` set cs"
  by (induction cs) auto

lemma distinct_keep_last: "distinct (map rc_item_id (keep_last cs))"
proof (induction cs)
  case (Cons c cs)
  have "rc_item_id c \<notin> set (map rc_item_id (keep_last cs))" if "rc_item_id c \<notin> rc_item_id ` set cs"
    using that set_keep_last [of cs] by simp
  then show ?case using Cons by auto
qed simp

lemma find_append: "find P (xs @ ys) = (case find P xs of Some x \<Rightarrow> Some x | None \<Rightarrow> find P ys)"
  by (induction xs) auto

lemma find_keep_last: "find (\<lambda>c. rc_item_id c = u) (keep_last cs) = find (\<lambda>c. rc_item_id c = u) (rev cs)"
proof (induction cs)
  case (Cons c cs)
  have "find (\<lambda>c. rc_item_id c = u) (rev cs) = None \<longleftrightarrow> u \<notin> rc_item_id ` set cs"
    by (auto simp: find_None_iff)
  then show ?case using Cons by (auto simp: find_append split: option.splits)
qed simp

lemma find_filter:
  "distinct (map k cs) \<Longrightarrow> find (\<lambda>c. k c = u) (filter Q cs) =
     (case find (\<lambda>c. k c = u) cs of Some c \<Rightarrow> if Q c then Some c else None | None \<Rightarrow> None)"
proof (induction cs)
  case (Cons c cs)
  have "find (\<lambda>c. k c = u) (filter Q cs) = None" if "k c = u"
    using Cons.prems that by (auto simp: find_None_iff image_iff)
  then show ?case using Cons by auto
qed simp

lemma map_of_find: "map_of (map (\<lambda>c. (k c, h c)) cs) u = map_option h (find (\<lambda>c. k c = u) cs)"
  by (induction cs) auto

subsection \<open>Sorting a batch\<close>

definition readable :: "core_env \<Rightarrow> session \<Rightarrow> remote_change \<Rightarrow> bool" where
  "readable env x c \<longleftrightarrow> \<not> rc_deleted c \<and> checked_change env x c \<noteq> None"

definition change_row :: "core_env \<Rightarrow> session \<Rightarrow> remote_change \<Rightarrow> bytes \<times> bytes \<times> int" where
  "change_row env x c = (case checked_change env x c of Some (ob, db, ov) \<Rightarrow> (ob, db, rc_revision c) | None \<Rightarrow> ([], [], 0))"

definition change_overview :: "core_env \<Rightarrow> session \<Rightarrow> remote_change \<Rightarrow> item_overview option" where
  "change_overview env x c = map_option (\<lambda>(ob, db, ov). ov) (checked_change env x c)"

lemma sorted_work:
  "let q = fold (sort_change env x) cs p in
   pw_rows q = pw_rows p @ map (\<lambda>c. (rc_item_id c, change_row env x c)) (filter (readable env x) cs) \<and>
   pw_overviews q = pw_overviews p @ map (\<lambda>c. the (change_overview env x c)) (filter (readable env x) cs) \<and>
   pw_deletions q = pw_deletions p @ map rc_item_id (filter rc_deleted cs) \<and>
   pw_unreadable q = pw_unreadable p @ map (\<lambda>c. (rc_item_id c, rc_revision c))
     (filter (\<lambda>c. \<not> rc_deleted c \<and> \<not> readable env x c) cs) \<and>
   sr_added (pw_report q) + sr_updated (pw_report q) =
     sr_added (pw_report p) + sr_updated (pw_report p) + length (filter (readable env x) cs) \<and>
   sr_skipped_items (pw_report q) = sr_skipped_items (pw_report p) + length (filter (\<lambda>c. \<not> rc_deleted c \<and> \<not> readable env x c) cs)"
proof (induction cs arbitrary: p)
  case (Cons c cs)
  show ?case
  proof (cases "rc_deleted c")
    case True
    then show ?thesis using Cons [of "sort_change env x c p"] by (simp add: sort_change_def readable_def Let_def)
  next
    case False
    then show ?thesis using Cons [of "sort_change env x c p"]
      by (cases "checked_change env x c")
        (auto simp: sort_change_def readable_def change_row_def change_overview_def Let_def split: if_splits)
  qed
qed (simp add: Let_def)

lemma checked_change_opens:
  assumes "checked_change env x c = Some (ob, db, ov)"
  shows "open_overview env (ss_data_key x) (ss_vault_id x) (rc_item_id c, ob) = Inr ov \<and> ov_id ov = rc_item_id c \<and>
    (\<exists>d. open_json env (ss_data_key x) (item_details_ctx (ce_crypto env) (ss_vault_id x) (rc_item_id c) ob) (dec_details env) db = Inr d \<and>
       details_type d = ov_item_type ov)"
  using assms
  by (auto simp: checked_change_def check_item_bytes_def open_overview_def split: option.splits sum.splits if_splits)

subsection \<open>The session follows the store\<close>

lemma coherent_pull_upsert:
  assumes "coherent env st x" and "open_overview env (ss_data_key x) (ss_vault_id x) (u, ob) = Inr ov"
  shows "coherent env (pull_upsert (u, ob, db, rv) st) (place ov x)"
  using coherent_place [OF assms] coherent_items [of "pull_upsert (u, ob, db, rv) st" "upsert_item u ob db rv st" env "place ov x"]
  by (simp add: pull_upsert_def clear_unreadable_def)

lemma coherent_rows:
  assumes "coherent env st x" and "\<And>c. c \<in> set cs \<Longrightarrow> readable env y c"
    and "ss_data_key y = ss_data_key x" and "ss_vault_id y = ss_vault_id x"
  shows "coherent env (fold pull_upsert (map (\<lambda>c. (rc_item_id c, change_row env y c)) cs) st)
    (fold place (map (\<lambda>c. the (change_overview env y c)) cs) x)"
  using assms
proof (induction cs arbitrary: st x)
  case (Cons c cs)
  obtain ob db ov where c: "checked_change env y c = Some (ob, db, ov)"
    using Cons.prems(2) [of c] by (auto simp: readable_def)
  have o: "open_overview env (ss_data_key x) (ss_vault_id x) (rc_item_id c, ob) = Inr ov"
    using checked_change_opens [OF c] Cons.prems(3,4) by simp
  have "coherent env (pull_upsert (rc_item_id c, ob, db, rc_revision c) st) (place ov x)"
    by (rule coherent_pull_upsert [OF Cons.prems(1) o])
  from Cons.IH [OF this] show ?case
    using Cons.prems(2-4) by (simp add: c change_row_def change_overview_def)
qed simp

lemma coherent_deletions:
  assumes "coherent env (fst sn) x"
  shows "coherent env (fst (fold pull_delete us sn)) (fold forget us x)"
  using assms
proof (induction us arbitrary: sn x)
  case (Cons u us)
  have "coherent env (fst (pull_delete u sn)) (forget u x)"
    using coherent_forget [OF Cons.prems, of u]
      coherent_items [of "fst (pull_delete u sn)" "delete_row u (fst sn)" env "forget u x"]
    by (simp add: pull_delete_def clear_unreadable_def split: prod.splits)
  from Cons.IH [OF this] show ?case by simp
qed simp

lemma fold_place_keys:
  "ss_data_key (fold place ovs x) = ss_data_key x \<and> ss_vault_id (fold place ovs x) = ss_vault_id x \<and>
   ss_vault_key (fold place ovs x) = ss_vault_key x \<and> ss_identity_id (fold place ovs x) = ss_identity_id x \<and>
   ss_recent_fills (fold place ovs x) = ss_recent_fills x"
  by (induction ovs arbitrary: x) simp_all

lemma fold_forget_keys:
  "ss_data_key (fold forget us x) = ss_data_key x \<and> ss_vault_id (fold forget us x) = ss_vault_id x \<and>
   ss_vault_key (fold forget us x) = ss_vault_key x \<and> ss_identity_id (fold forget us x) = ss_identity_id x \<and>
   ss_recent_fills (fold forget us x) = ss_recent_fills x"
  by (induction us arbitrary: x) simp_all

lemma coherent_apply_pull:
  assumes "coherent env st x" and "\<And>c. c \<in> set cs \<Longrightarrow> readable env x c"
  shows "coherent env (fst (apply_pull (map (\<lambda>c. (rc_item_id c, change_row env x c)) cs) dels unr cursor st))
    (fold forget dels (fold place (map (\<lambda>c. the (change_overview env x c)) cs) x))"
proof -
  let ?rows = "map (\<lambda>c. (rc_item_id c, change_row env x c)) cs"
  let ?x = "fold forget dels (fold place (map (\<lambda>c. the (change_overview env x c)) cs) x)"
  have "coherent env (fst (fold pull_delete dels (fold pull_upsert ?rows st, 0))) ?x"
    using coherent_deletions [of env "(fold pull_upsert ?rows st, 0)"] coherent_rows [OF assms] by simp
  moreover have "st_items (fst (apply_pull ?rows dels unr cursor st)) = st_items (fst (fold pull_delete dels (fold pull_upsert ?rows st, 0)))"
    by (simp add: apply_pull_def Let_def case_prod_beta fold_record_unreadable_sel set_cursor_def split: option.splits)
  ultimately show ?thesis using coherent_items by blast
qed

text \<open>An item the session already holds counts as updated, any other as added.\<close>

definition known_item :: "session \<Rightarrow> uuid \<Rightarrow> bool" where
  "known_item x u \<longleftrightarrow> has_key (ss_overviews x) u \<or> has_key (ss_trash x) u"

lemma sorted_counts:
  "sr_added (pw_report (fold (sort_change env x) cs p)) =
     sr_added (pw_report p) + length (filter (\<lambda>c. readable env x c \<and> \<not> known_item x (rc_item_id c)) cs) \<and>
   sr_updated (pw_report (fold (sort_change env x) cs p)) =
     sr_updated (pw_report p) + length (filter (\<lambda>c. readable env x c \<and> known_item x (rc_item_id c)) cs)"
  by (induction cs arbitrary: p)
    (auto simp: sort_change_def readable_def known_item_def Let_def split: option.splits if_splits)

subsection \<open>What a pull does to the service\<close>

lemma apply_changes_unfold:
  fixes changes :: "remote_change list" and env :: core_env and x :: session
  assumes "session_of s = Inr x" and "require_account (vs_store s) = Inr a"
  defines "cs \<equiv> keep_last changes"
  defines "rows \<equiv> map (\<lambda>c. (rc_item_id c, change_row env x c)) (filter (readable env x) cs)"
    and "dels \<equiv> map rc_item_id (filter rc_deleted cs)"
    and "unr \<equiv> map (\<lambda>c. (rc_item_id c, rc_revision c)) (filter (\<lambda>c. \<not> rc_deleted c \<and> \<not> readable env x c) cs)"
    and "ovs \<equiv> map (\<lambda>c. the (change_overview env x c)) (filter (readable env x) cs)"
  obtains rep x' where "apply_changes env changes cursor now_ms s = (Inr rep, s\<lparr>vs_store :=
      fst (apply_pull rows dels unr (map_option (\<lambda>c. (c, now_ms)) cursor) (vs_store s)), vs_session := Some x'\<rparr>)"
    and "x' = fold forget dels (fold place ovs x) \<or> x' = touched (fold forget dels (fold place ovs x))"
    and "sr_added rep + sr_updated rep = length rows" and "sr_skipped_items rep = length unr"
    and "sr_deleted rep = snd (apply_pull rows dels unr (map_option (\<lambda>c. (c, now_ms)) cursor) (vs_store s))"
    and "sr_added rep = length (filter (\<lambda>c. readable env x c \<and> \<not> known_item x (rc_item_id c)) cs)"
    and "sr_updated rep = length (filter (\<lambda>c. readable env x c \<and> known_item x (rc_item_id c)) cs)"
proof -
  let ?p = "fold (sort_change env x) cs no_work"
  have p: "pw_rows ?p = rows" "pw_overviews ?p = ovs" "pw_deletions ?p = dels" "pw_unreadable ?p = unr"
    "sr_added (pw_report ?p) + sr_updated (pw_report ?p) = length rows" "sr_skipped_items (pw_report ?p) = length unr"
    using sorted_work [of env x cs no_work]
    by (simp_all add: no_work_def default_report_def rows_def ovs_def dels_def unr_def Let_def)
  have n: "sr_added (pw_report ?p) = length (filter (\<lambda>c. readable env x c \<and> \<not> known_item x (rc_item_id c)) cs)"
    "sr_updated (pw_report ?p) = length (filter (\<lambda>c. readable env x c \<and> known_item x (rc_item_id c)) cs)"
    using sorted_counts [of env x cs no_work] by (simp_all add: no_work_def default_report_def)
  let ?pull = "apply_pull rows dels unr (map_option (\<lambda>c. (c, now_ms)) cursor) (vs_store s)"
  let ?x1 = "fold forget dels (fold place ovs x)"
  have "apply_changes env changes cursor now_ms s = (Inr ((pw_report ?p)\<lparr>sr_deleted := snd ?pull\<rparr>),
      s\<lparr>vs_store := fst ?pull, vs_session := Some (if ovs \<noteq> [] \<or> dels \<noteq> [] then touched ?x1 else ?x1)\<rparr>)"
    unfolding apply_changes_def assms(1,2) and_then.simps sum.case Let_def cs_def [symmetric] p touched_def
    by (simp add: case_prod_beta)
  then show thesis using that p n by (auto split: if_splits)
qed

lemma distinct_filtered: "distinct (map k cs) \<Longrightarrow> distinct (map k (filter Q cs))"
  by (induction cs) auto

lemma service_inv_replace:
  "service_inv env s \<Longrightarrow> vs_state s = VUnlocked \<Longrightarrow> session_inv env st y \<Longrightarrow> store_wf st \<Longrightarrow> st_header st \<noteq> None \<Longrightarrow>
   service_inv env (s\<lparr>vs_store := st, vs_session := Some y\<rparr>)"
  by (auto simp: service_inv_def store_inv_def)

lemma apply_changes_inv:
  assumes "service_inv env s"
  shows "service_inv env (snd (apply_changes env changes cursor now_ms s))"
proof (cases "and_then (require_account (vs_store s)) (\<lambda>_. session_of s)")
  case (Inl e)
  then show ?thesis using assms by (simp add: apply_changes_def)
next
  case (Inr x)
  then obtain a where x: "session_of s = Inr x" "require_account (vs_store s) = Inr a" by (auto simp: result_simps)
  let ?cs = "keep_last changes"
  let ?rows = "map (\<lambda>c. (rc_item_id c, change_row env x c)) (filter (readable env x) ?cs)"
  let ?dels = "map rc_item_id (filter rc_deleted ?cs)"
  let ?unr = "map (\<lambda>c. (rc_item_id c, rc_revision c)) (filter (\<lambda>c. \<not> rc_deleted c \<and> \<not> readable env x c) ?cs)"
  let ?x1 = "fold forget ?dels (fold place (map (\<lambda>c. the (change_overview env x c)) (filter (readable env x) ?cs)) x)"
  let ?st = "fst (apply_pull ?rows ?dels ?unr (map_option (\<lambda>c. (c, now_ms)) cursor) (vs_store s))"
  obtain rep x' where a: "apply_changes env changes cursor now_ms s = (Inr rep, s\<lparr>vs_store := ?st, vs_session := Some x'\<rparr>)"
    "x' = ?x1 \<or> x' = touched ?x1"
    by (rule apply_changes_unfold [OF x])
  have v: "vs_state s = VUnlocked" "vs_session s = Some x" using x(1) by (simp_all add: session_of_Inr_iff)
  have i: "store_wf (vs_store s)" "st_header (vs_store s) \<noteq> None" "session_inv env (vs_store s) x"
    using assms v by (auto simp: service_inv_def store_inv_def)
  have "coherent env ?st ?x1" by (rule coherent_apply_pull) (use i(3) in \<open>auto simp: session_inv_def\<close>)
  then have "session_inv env ?st ?x1"
    using i(3) fold_place_keys fold_forget_keys by (simp add: session_inv_def)
  then have "session_inv env ?st x'" using a(2) by (auto simp: session_inv_def)
  moreover have "store_wf ?st" "st_header ?st = st_header (vs_store s)"
    using i(1) wf_pulled by (auto simp: store_wf_def apply_pull_fst)
  ultimately have "service_inv env (s\<lparr>vs_store := ?st, vs_session := Some x'\<rparr>)"
    using i(2) by (intro service_inv_replace [OF assms v(1)]) simp_all
  then show ?thesis unfolding a(1) by simp
qed

text \<open>The last change a batch has for an item, and what it makes of the item.\<close>

definition last_change :: "remote_change list \<Rightarrow> uuid \<Rightarrow> remote_change option" where
  "last_change changes u = find (\<lambda>c. rc_item_id c = u) (rev changes)"

definition pulled_item :: "core_env \<Rightarrow> session \<Rightarrow> remote_change \<Rightarrow> item_overview option \<Rightarrow> item_overview option" where
  "pulled_item env x c old = (if rc_deleted c then None
     else case checked_change env x c of Some (ob, db, ov) \<Rightarrow> Some ov | None \<Rightarrow> old)"

lemma last_change_kept: "last_change changes u = find (\<lambda>c. rc_item_id c = u) (keep_last changes)"
  by (simp add: last_change_def find_keep_last)

lemma find_Some_key: "find (\<lambda>c. k c = u) cs = Some c \<Longrightarrow> c \<in> set cs \<and> k c = u"
  by (induction cs) (auto split: if_splits)

lemma kept_iff: "c \<in> set (keep_last changes) \<and> rc_item_id c = u \<longleftrightarrow> last_change changes u = Some c"
proof -
  have "distinct (map k cs) \<Longrightarrow> c \<in> set cs \<Longrightarrow> k c = u \<Longrightarrow> find (\<lambda>c. k c = u) cs = Some c" for cs and k :: "remote_change \<Rightarrow> uuid"
    by (induction cs) (auto simp: image_iff)
  then show ?thesis
    using distinct_keep_last [of changes] find_Some_key [of rc_item_id u] by (auto simp: last_change_kept)
qed

lemma kept_deleted: "u \<in> rc_item_id ` set (filter Q (keep_last changes)) \<longleftrightarrow> (\<exists>c. last_change changes u = Some c \<and> Q c)"
proof
  assume "u \<in> rc_item_id ` set (filter Q (keep_last changes))"
  then obtain c where "c \<in> set (keep_last changes)" "rc_item_id c = u" "Q c" by auto
  then show "\<exists>c. last_change changes u = Some c \<and> Q c" using kept_iff [of c changes u] by blast
next
  assume "\<exists>c. last_change changes u = Some c \<and> Q c"
  then obtain c where "c \<in> set (keep_last changes)" "rc_item_id c = u" "Q c" using kept_iff [of _ changes u] by blast
  then show "u \<in> rc_item_id ` set (filter Q (keep_last changes))" by auto
qed

lemma kept_count: "length (filter Q (keep_last changes)) = card {u. \<exists>c. last_change changes u = Some c \<and> Q c}"
proof -
  have "distinct (map rc_item_id (filter Q (keep_last changes)))"
    by (rule distinct_filtered [OF distinct_keep_last])
  then have "length (filter Q (keep_last changes)) = card (rc_item_id ` set (filter Q (keep_last changes)))"
    by (metis distinct_card length_map list.set_map)
  also have "rc_item_id ` set (filter Q (keep_last changes)) = {u. \<exists>c. last_change changes u = Some c \<and> Q c}"
    using kept_deleted [of _ Q changes] by blast
  finally show ?thesis .
qed

lemma last_change_id: "last_change changes u = Some c \<Longrightarrow> rc_item_id c = u"
  using kept_iff by blast

lemma pulled_deletions:
  "snd (apply_pull (map (\<lambda>c. (rc_item_id c, change_row env x c)) (filter (readable env x) (keep_last changes)))
      (map rc_item_id (filter rc_deleted (keep_last changes))) unr cursor st) =
   card {u. \<exists>c. last_change changes u = Some c \<and> rc_deleted c \<and> has_key (st_items st) (Id u)}"
proof -
  let ?K = "keep_last changes" and ?row = "\<lambda>c. (rc_item_id c, change_row env x c)"
  have d: "u \<in> set (map rc_item_id (filter rc_deleted ?K)) \<longleftrightarrow> (\<exists>c. last_change changes u = Some c \<and> rc_deleted c)" for u
    using kept_deleted [of u rc_deleted changes] by (simp only: set_map)
  have r: "u \<in> fst ` set (map ?row (filter (readable env x) ?K)) \<longleftrightarrow> (\<exists>c. last_change changes u = Some c \<and> readable env x c)" for u
    using kept_deleted [of u "readable env x" changes] by (simp only: set_map image_image fst_conv)
  have "set (map rc_item_id (filter rc_deleted ?K)) \<inter>
      {u. has_key (st_items st) (Id u) \<or> u \<in> fst ` set (map ?row (filter (readable env x) ?K))} =
    {u. \<exists>c. last_change changes u = Some c \<and> rc_deleted c \<and> has_key (st_items st) (Id u)}"
    unfolding d r set_eq_iff Int_iff mem_Collect_eq by (auto simp: readable_def)
  then show ?thesis by (simp add: apply_pull_snd)
qed

lemma kept_map_of:
  "map_of (map (\<lambda>c. (rc_item_id c, h c)) (filter Q (keep_last changes))) u =
     (case last_change changes u of None \<Rightarrow> None | Some c \<Rightarrow> if Q c then Some (h c) else None)"
  by (simp add: map_of_find find_filter [OF distinct_keep_last] last_change_kept split: option.splits)

lemma pulled_view:
  "store_view env (ss_data_key x) (ss_vault_id x)
     (fst (apply_pull (map (\<lambda>c. (rc_item_id c, change_row env x c)) (filter (readable env x) (keep_last changes)))
       (map rc_item_id (filter rc_deleted (keep_last changes))) unr cursor st)) u =
   (case last_change changes u of None \<Rightarrow> store_view env (ss_data_key x) (ss_vault_id x) st u
    | Some c \<Rightarrow> pulled_item env x c (store_view env (ss_data_key x) (ss_vault_id x) st u))"
proof -
  have d: "distinct (map fst (map (\<lambda>c. (rc_item_id c, change_row env x c)) (filter (readable env x) (keep_last changes))))"
    using distinct_filtered [OF distinct_keep_last] by (simp add: comp_def)
  have m: "u \<in> set (map rc_item_id (filter rc_deleted (keep_last changes))) \<longleftrightarrow> (\<exists>c. last_change changes u = Some c \<and> rc_deleted c)"
    unfolding set_map by (rule kept_deleted)
  have g: "get (pulled_items (map (\<lambda>c. (rc_item_id c, change_row env x c)) (filter (readable env x) (keep_last changes)))
      (map rc_item_id (filter rc_deleted (keep_last changes))) (st_items st)) (Id u) =
    (case last_change changes u of None \<Rightarrow> get (st_items st) (Id u)
     | Some c \<Rightarrow> if rc_deleted c then None else if \<not> readable env x c then get (st_items st) (Id u)
         else Some (case change_row env x c of (ov, de, rv) \<Rightarrow> \<lparr>it_overview = ov, it_details = de, it_revision = rv\<rparr>))"
    unfolding get_pulled_items [OF d] m kept_map_of by (auto split: option.splits prod.splits)
  show ?thesis
  proof (cases "last_change changes u")
    case None
    then show ?thesis by (simp add: store_view_def apply_pull_fst g)
  next
    case (Some c)
    then have u: "rc_item_id c = u" using kept_iff [of c changes u] by simp
    show ?thesis
    proof (cases "checked_change env x c")
      case None
      then show ?thesis
        using Some by (simp add: store_view_def apply_pull_fst g pulled_item_def readable_def row_view_def)
    next
      case ch: (Some z)
      obtain ob db ov where z: "z = (ob, db, ov)" by (cases z)
      have "open_overview env (ss_data_key x) (ss_vault_id x) (u, ob) = Inr ov"
        using checked_change_opens [OF ch [unfolded z]] u by simp
      moreover have "change_row env x c = (ob, db, rc_revision c)" by (simp add: change_row_def ch z)
      ultimately show ?thesis
        using Some ch by (simp add: store_view_def apply_pull_fst g pulled_item_def readable_def row_view_def z)
    qed
  qed
qed

lemma pulled_unread:
  "get (st_unreadable (fst (apply_pull (map (\<lambda>c. (rc_item_id c, change_row env x c)) (filter (readable env x) (keep_last changes)))
       (map rc_item_id (filter rc_deleted (keep_last changes)))
       (map (\<lambda>c. (rc_item_id c, rc_revision c)) (filter (\<lambda>c. \<not> rc_deleted c \<and> \<not> readable env x c) (keep_last changes))) cursor st))) (Id u) =
   (case last_change changes u of None \<Rightarrow> get (st_unreadable st) (Id u)
      | Some c \<Rightarrow> if rc_deleted c \<or> checked_change env x c \<noteq> None then None else Some (rc_revision c))"
proof -
  let ?u = "map (\<lambda>c. (rc_item_id c, rc_revision c)) (filter (\<lambda>c. \<not> rc_deleted c \<and> \<not> readable env x c) (keep_last changes))"
  have d: "distinct (map fst ?u)" using distinct_filtered [OF distinct_keep_last] by (simp add: comp_def)
  have m: "u \<in> set (map rc_item_id (filter rc_deleted (keep_last changes))) \<longleftrightarrow> (\<exists>c. last_change changes u = Some c \<and> rc_deleted c)"
    unfolding set_map by (rule kept_deleted)
  have r: "fst ` set (map (\<lambda>c. (rc_item_id c, change_row env x c)) (filter (readable env x) (keep_last changes))) =
      rc_item_id ` set (filter (readable env x) (keep_last changes))"
    unfolding set_map image_image fst_conv ..
  have g: "get (pulled_unreadable (map (\<lambda>c. (rc_item_id c, change_row env x c)) (filter (readable env x) (keep_last changes)))
      (map rc_item_id (filter rc_deleted (keep_last changes))) ?u (st_unreadable st)) (Id u) =
    (case last_change changes u of None \<Rightarrow> get (st_unreadable st) (Id u)
      | Some c \<Rightarrow> if rc_deleted c \<or> readable env x c then None else Some (rc_revision c))"
    unfolding get_pulled_unreadable [OF d] kept_map_of r m kept_deleted by (auto split: option.splits)
  have "rc_deleted c \<or> readable env x c \<longleftrightarrow> rc_deleted c \<or> checked_change env x c \<noteq> None" for c
    unfolding readable_def by blast
  note g = g [unfolded this]
  show ?thesis unfolding apply_pull_fst using g by simp
qed

lemma pulled_abs:
  assumes "service_inv env s" and "session_of s = Inr x" and "require_account (vs_store s) = Inr a"
    and "apply_changes env changes cursor now_ms s = (r, s')"
  shows "abs_vault env s' u = (case last_change changes u of None \<Rightarrow> abs_vault env s u
      | Some c \<Rightarrow> pulled_item env x c (abs_vault env s u))"
proof -
  let ?cs = "keep_last changes"
  let ?rows = "map (\<lambda>c. (rc_item_id c, change_row env x c)) (filter (readable env x) ?cs)"
  let ?dels = "map rc_item_id (filter rc_deleted ?cs)"
  let ?unr = "map (\<lambda>c. (rc_item_id c, rc_revision c)) (filter (\<lambda>c. \<not> rc_deleted c \<and> \<not> readable env x c) ?cs)"
  let ?x1 = "fold forget ?dels (fold place (map (\<lambda>c. the (change_overview env x c)) (filter (readable env x) ?cs)) x)"
  let ?st = "fst (apply_pull ?rows ?dels ?unr (map_option (\<lambda>c. (c, now_ms)) cursor) (vs_store s))"
  obtain rep x' where a: "apply_changes env changes cursor now_ms s = (Inr rep, s\<lparr>vs_store := ?st, vs_session := Some x'\<rparr>)"
    "x' = ?x1 \<or> x' = touched ?x1"
    by (rule apply_changes_unfold [OF assms(2,3)])
  have s': "s' = s\<lparr>vs_store := ?st, vs_session := Some x'\<rparr>" using a(1) assms(4) by simp
  have x': "session_of s' = Inr x'" using assms(2) by (simp add: s' session_of_Inr_iff)
  have k: "ss_data_key x' = ss_data_key x" "ss_vault_id x' = ss_vault_id x"
    using a(2) fold_place_keys fold_forget_keys by auto
  have v: "abs_vault env s' = store_view env (ss_data_key x) (ss_vault_id x) ?st"
    "abs_vault env s = store_view env (ss_data_key x) (ss_vault_id x) (vs_store s)"
    using x' assms(2) k by (simp_all add: abs_vault_def s')
  show ?thesis unfolding v by (rule pulled_view)
qed

lemma readable_iff:
  "readable env x c \<longleftrightarrow> \<not> rc_deleted c \<and> checked_change env x c \<noteq> None"
  "\<not> rc_deleted c \<and> \<not> readable env x c \<longleftrightarrow> \<not> rc_deleted c \<and> checked_change env x c = None"
  by (cases "checked_change env x c"; auto simp: readable_def)+

subsection \<open>Headers\<close>

definition sync_env_ok :: "sync_env \<Rightarrow> bool" where
  "sync_env_ok env \<longleftrightarrow> env_ok (se_core env) \<and> (\<forall>b. b64_decode env (b64_encode env b) = Some b) \<and>
     (\<forall>f b. enc_file env f = Some b \<longrightarrow> dec_file env b = Some f)"

lemma adopt_account_header_cases:
  obtains (refused) r where "adopt_account_header env remote s = (r, s)" "r \<noteq> Inr True"
  | (adopted) local hfile x h a st where "require_header (vs_store s) = Inr local" "parse_header env remote = Inr hfile"
      "hb_vault_id (hf_body hfile) = hd_vault_id local" "session_of s = Inr x" "verify_header env (ss_data_key x) hfile"
      "body_to_record env (hf_body hfile) = Inr h" "account (vs_store s) = Inr a"
      "max (case a of Some a \<Rightarrow> ac_max_header_rev a | None \<Rightarrow> 0) (as_i64 (hd_revision local)) < as_i64 (hd_revision h)"
      "update_key_wrap (hd_kdf h) (hd_wrapped_vault_key h) (hd_key_scheme h) (hd_revision h) (vs_store s) = Inr st"
      "adopt_account_header env remote s = (Inr True, s\<lparr>vs_store := raise_max_header_rev (as_i64 (hd_revision h)) st\<rparr>)"
proof (cases "\<exists>st. adopt_plan env remote s = Inr (Some st)")
  case False
  then show ?thesis
    using refused by (cases "adopt_plan env remote s") (auto simp: adopt_account_header_def split: option.splits)
next
  case True
  then obtain st1 where st1: "adopt_plan env remote s = Inr (Some st1)" by blast
  then obtain local hfile x h a st where "require_header (vs_store s) = Inr local" "parse_header env remote = Inr hfile"
      "hb_vault_id (hf_body hfile) = hd_vault_id local" "session_of s = Inr x" "verify_header env (ss_data_key x) hfile"
      "body_to_record env (hf_body hfile) = Inr h" "account (vs_store s) = Inr a"
      "\<not> as_i64 (hd_revision h) \<le> max (case a of Some a \<Rightarrow> ac_max_header_rev a | None \<Rightarrow> 0) (as_i64 (hd_revision local))"
      "update_key_wrap (hd_kdf h) (hd_wrapped_vault_key h) (hd_key_scheme h) (hd_revision h) (vs_store s) = Inr st"
      "st1 = raise_max_header_rev (as_i64 (hd_revision h)) st"
    unfolding adopt_plan_def account_bound_header_def and_then_Inr_iff ensure_Inr_iff Let_def
    by (auto simp: result_simps split: if_splits)
  then show ?thesis using st1 by (intro adopted) (auto simp: adopt_account_header_def)
qed

lemma adopt_account_header_inv:
  "service_inv env' s \<Longrightarrow> service_inv env' (snd (adopt_account_header env remote s))"
proof (cases rule: adopt_account_header_cases [of env remote s])
  case (refused r)
  then show "service_inv env' s \<Longrightarrow> ?thesis" by simp
next
  case (adopted local hfile x h a st)
  assume i: "service_inv env' s"
  then have "store_wf (vs_store s)" by (simp add: service_inv_def store_inv_def)
  then show ?thesis
    using i update_key_wrap_keeps [OF adopted(9)] unfolding adopted(10) by (auto intro!: service_inv_store)
qed

lemma encoded_header_parses:
  assumes "sync_env_ok env" and "length n = NONCE_LEN" and "encode_header env (Some n) dk h = Inr b"
    and "length b \<le> 64 * 1024" and "hd_format_version h = FORMAT_VERSION" and "validate_kdf (hd_kdf h) = Inr ()"
  shows "\<exists>hfile. parse_header env b = Inr hfile \<and> hf_body hfile = header_body_of env h \<and> verify_header env dk hfile \<and>
    body_to_record env (hf_body hfile) = Inr h"
proof -
  obtain c att where e: "canonical env (header_body_of env h) = Inr c"
    "seal (ce_crypto (se_core env)) (Some n) dk (header_ctx (hd_vault_id h)) c = Inr att"
    "enc_file env \<lparr>hf_body = header_body_of env h, hf_attestation = b64_encode env att\<rparr> = Some b"
    using assms(3) by (auto simp: encode_header_def result_simps Let_def)
  let ?f = "\<lparr>hf_body = header_body_of env h, hf_attestation = b64_encode env att\<rparr>"
  have o: "aead_ok (ce_crypto (se_core env))" "dec_file env b = Some ?f" "b64_decode env (b64_encode env att) = Some att"
    "b64_decode env (b64_encode env (hd_wrapped_vault_key h)) = Some (hd_wrapped_vault_key h)"
    using assms(1) e(3) by (simp_all add: sync_env_ok_def env_ok_def)
  have "parse_header env b = Inr ?f"
    using assms(4-6) o(2) by (simp add: parse_header_def header_body_of_def)
  moreover have "verify_header env dk ?f"
    using open_seal [OF o(1) assms(2) e(2)] e(1) o(3) by (simp add: verify_header_def header_body_of_def)
  moreover have "body_to_record env (hf_body ?f) = Inr h"
    using o(4) by (cases h) (simp add: body_to_record_def header_body_of_def)
  ultimately show ?thesis by (intro exI [of _ ?f]) simp
qed

lemma refetched_ids:
  "c \<in> set (refetched_changes recorded requested changes) \<Longrightarrow>
     rc_item_id c \<in> set requested \<and> (\<exists>rv. map_of recorded (rc_item_id c) = Some rv \<and> (c \<in> set changes \<longrightarrow> rc_deleted c \<or> rv \<le> rc_revision c))"
  by (force simp: refetched_changes_def Let_def missing_change_def image_iff map_of_eq_None_iff split: option.splits
      dest: map_of_SomeD weak_map_of_SomeI)

subsection \<open>An environment for the witnesses\<close>

text \<open>A codec that knows one header file.\<close>

definition toy_sync :: "header_file \<Rightarrow> sync_env" where
  "toy_sync f = \<lparr>se_core = toy_core, enc_body = (\<lambda>_. Some [9]), enc_file = (\<lambda>g. if g = f then Some [1] else None),
     dec_file = (\<lambda>b. if b = [1] then Some f else None), b64_encode = map unat, b64_decode = (\<lambda>s. Some (map of_nat s))\<rparr>"

lemma toy_sync_core [simp]: "se_core (toy_sync f) = toy_core"
  by (simp add: toy_sync_def)

lemma toy_sync_ok: "sync_env_ok (toy_sync f)"
proof -
  have "map of_nat (map unat b) = b" for b :: bytes by (induction b) simp_all
  then show ?thesis using toy_env_ok by (simp add: sync_env_ok_def toy_sync_def)
qed

lemma toy_encoded:
  assumes "hd_vault_id h = 5"
  shows "\<exists>f. encode_header (toy_sync f) (Some (replicate 12 0)) (replicate 32 5) h = Inr [1]"
proof -
  have "ctx_ok (header_ctx 5)" "bound_to (header_ctx 5) = None"
    by (simp_all add: header_ctx_def vault_ctx_def ctx_ok_def needs_item_id_def needs_binding_def)
  then obtain att where a: "seal plain_crypto (Some (replicate 12 0)) (replicate 32 5) (header_ctx 5) [9] = Inr att"
    using toy_seal [of "replicate 32 5" "[9]" "header_ctx 5"] by auto
  let ?g = "toy_sync \<lparr>hf_body = undefined, hf_attestation = []\<rparr>"
  let ?f = "\<lparr>hf_body = header_body_of ?g h, hf_attestation = map unat att\<rparr>"
  have "header_body_of (toy_sync ?f) h = header_body_of ?g h" by (simp add: header_body_of_def toy_sync_def)
  then have "encode_header (toy_sync ?f) (Some (replicate 12 0)) (replicate 32 5) h = Inr [1]"
    using a assms by (simp add: encode_header_def canonical_def Let_def) (simp add: toy_sync_def)
  then show ?thesis by blast
qed

lemma toy_valid_kdf: "validate_kdf toy_kdf = Inr ()"
  by (simp add: validate_kdf_def toy_kdf_def MIN_MEMORY_KIB_def MAX_MEMORY_KIB_def MIN_ITERATIONS_def MAX_ITERATIONS_def
      MIN_PARALLELISM_def MAX_PARALLELISM_def)

lemma toy_parsed:
  assumes "encode_header (toy_sync f) (Some (replicate 12 0)) (replicate 32 5) ((pv_header toy_prep)\<lparr>hd_revision := 6\<rparr>) = Inr [1]"
  shows "\<exists>hfile. parse_header (toy_sync f) [1] = Inr hfile \<and>
    hf_body hfile = header_body_of (toy_sync f) ((pv_header toy_prep)\<lparr>hd_revision := 6\<rparr>) \<and>
    verify_header (toy_sync f) (replicate 32 5) hfile \<and>
    body_to_record (toy_sync f) (hf_body hfile) = Inr ((pv_header toy_prep)\<lparr>hd_revision := 6\<rparr>)"
  using toy_valid_kdf by (intro encoded_header_parses [OF toy_sync_ok _ assms]) (simp_all add: NONCE_LEN_def toy_prep_def)

lemma toy_adopts:
  assumes "encode_header (toy_sync f) (Some (replicate 12 0)) (replicate 32 5) ((pv_header toy_prep)\<lparr>hd_revision := 6\<rparr>) = Inr [1]"
  shows "\<exists>s'. adopt_account_header (toy_sync f) [1] toy_vault = (Inr True, s')"
proof -
  obtain x where x: "session_of toy_vault = Inr x" "ss_data_key x = replicate 32 5"
    "require_header (vs_store toy_vault) = Inr (pv_header toy_prep)" using toy_vault_session by blast
  obtain hfile where p: "parse_header (toy_sync f) [1] = Inr hfile"
    "hf_body hfile = header_body_of (toy_sync f) ((pv_header toy_prep)\<lparr>hd_revision := 6\<rparr>)"
    "verify_header (toy_sync f) (replicate 32 5) hfile"
    "body_to_record (toy_sync f) (hf_body hfile) = Inr ((pv_header toy_prep)\<lparr>hd_revision := 6\<rparr>)"
    using toy_parsed [OF assms] by blast
  obtain a where a: "account (vs_store toy_vault) = Inr (Some a)" "ac_max_header_rev a = 4" using toy_vault_session by blast
  have "\<exists>st. update_key_wrap toy_kdf [] AccountBound 6 (vs_store toy_vault) = Inr st"
    using x(3) by (auto simp: update_key_wrap_def revision_to_db_def require_header_def header_def i64_max_def result_simps split: option.splits)
  then obtain st where "update_key_wrap toy_kdf [] AccountBound 6 (vs_store toy_vault) = Inr st" by blast
  then have "adopt_plan (toy_sync f) [1] toy_vault = Inr (Some (raise_max_header_rev 6 st))"
    using x p a by (simp add: adopt_plan_def account_bound_header_def header_body_of_def toy_prep_def as_i64_def i64_max_def)
  then show ?thesis by (simp add: adopt_account_header_def)
qed

section \<open>Claims\<close>

text \<open>
  C15. A pull is the server's last word, item by item. Applying a batch turns the abstract vault into
  this: an item the batch does not mention is untouched; otherwise only the last change for it
  counts: a deletion removes it, a change whose two blobs authenticate under this vault's key and
  agree about the item replaces it, and anything else leaves it as it was and is recorded for a
  retry (nothing the server sends can corrupt the replica). Store and session agree afterwards. The
  report counts the items whose last change was stored, as updated if the session held the item and
  as added if not, those whose last change was put off, and the deleted ones that had a row.
\<close>

theorem apply_changes_refines:
  assumes "service_inv env s" and "session_of s = Inr x" and "require_account (vs_store s) = Inr a"
    and "apply_changes env changes cursor now_ms s = (r, s')"
  shows "\<exists>rep x'. r = Inr rep \<and> session_of s' = Inr x' \<and> held_item x' = abs_vault env s' \<and>
    abs_vault env s' u = (case last_change changes u of None \<Rightarrow> abs_vault env s u
      | Some c \<Rightarrow> pulled_item env x c (abs_vault env s u)) \<and>
    get (st_unreadable (vs_store s')) (Id u) = (case last_change changes u of None \<Rightarrow> get (st_unreadable (vs_store s)) (Id u)
      | Some c \<Rightarrow> if rc_deleted c \<or> checked_change env x c \<noteq> None then None else Some (rc_revision c)) \<and>
    sr_added rep = card {u. \<exists>c. last_change changes u = Some c \<and> \<not> rc_deleted c \<and> checked_change env x c \<noteq> None \<and> \<not> known_item x u} \<and>
    sr_updated rep = card {u. \<exists>c. last_change changes u = Some c \<and> \<not> rc_deleted c \<and> checked_change env x c \<noteq> None \<and> known_item x u} \<and>
    sr_skipped_items rep = card {u. \<exists>c. last_change changes u = Some c \<and> \<not> rc_deleted c \<and> checked_change env x c = None} \<and>
    sr_deleted rep = card {u. \<exists>c. last_change changes u = Some c \<and> rc_deleted c \<and> has_key (st_items (vs_store s)) (Id u)}"
proof -
  let ?cs = "keep_last changes"
  let ?rows = "map (\<lambda>c. (rc_item_id c, change_row env x c)) (filter (readable env x) ?cs)"
  let ?dels = "map rc_item_id (filter rc_deleted ?cs)"
  let ?unr = "map (\<lambda>c. (rc_item_id c, rc_revision c)) (filter (\<lambda>c. \<not> rc_deleted c \<and> \<not> readable env x c) ?cs)"
  let ?x1 = "fold forget ?dels (fold place (map (\<lambda>c. the (change_overview env x c)) (filter (readable env x) ?cs)) x)"
  let ?st = "fst (apply_pull ?rows ?dels ?unr (map_option (\<lambda>c. (c, now_ms)) cursor) (vs_store s))"
  obtain rep x' where a: "apply_changes env changes cursor now_ms s = (Inr rep, s\<lparr>vs_store := ?st, vs_session := Some x'\<rparr>)"
    "x' = ?x1 \<or> x' = touched ?x1" "sr_skipped_items rep = length ?unr"
    "sr_deleted rep = snd (apply_pull ?rows ?dels ?unr (map_option (\<lambda>c. (c, now_ms)) cursor) (vs_store s))"
    "sr_added rep = length (filter (\<lambda>c. readable env x c \<and> \<not> known_item x (rc_item_id c)) ?cs)"
    "sr_updated rep = length (filter (\<lambda>c. readable env x c \<and> known_item x (rc_item_id c)) ?cs)"
    by (rule apply_changes_unfold [OF assms(2,3)])
  have s': "s' = s\<lparr>vs_store := ?st, vs_session := Some x'\<rparr>" and r: "r = Inr rep" using a(1) assms(4) by simp_all
  have x': "session_of s' = Inr x'" using assms(2) by (simp add: s' session_of_Inr_iff)
  have "service_inv env s'" using apply_changes_inv [OF assms(1), of changes cursor now_ms] assms(4) by simp
  then have "coherent env (vs_store s') x'" using x' by (auto simp: session_of_Inr_iff service_inv_def session_inv_def)
  then have h: "held_item x' = abs_vault env s'" using coherent_held x' by (intro ext) (simp add: abs_vault_def)
  note pulled_abs [OF assms, of u]
  moreover have "get (st_unreadable (vs_store s')) (Id u) = (case last_change changes u of None \<Rightarrow> get (st_unreadable (vs_store s)) (Id u)
      | Some c \<Rightarrow> if rc_deleted c \<or> checked_change env x c \<noteq> None then None else Some (rc_revision c))"
    by (simp add: s' pulled_unread)
  moreover note a(3) [unfolded length_map kept_count readable_iff(2)] a(4) [unfolded pulled_deletions]
  moreover have "sr_added rep = card {u. \<exists>c. last_change changes u = Some c \<and> \<not> rc_deleted c \<and> checked_change env x c \<noteq> None \<and> \<not> known_item x u}"
    "sr_updated rep = card {u. \<exists>c. last_change changes u = Some c \<and> \<not> rc_deleted c \<and> checked_change env x c \<noteq> None \<and> known_item x u}"
    unfolding a(5,6) kept_count readable_def by (auto intro!: arg_cong [where f = card] dest: last_change_id)
  ultimately show ?thesis using r x' h by blast
qed

lemma apply_changes_refines_witness:
  "\<exists>ob db rep s'. apply_changes toy_core [missing_change 3, \<lparr>rc_item_id = 3, rc_revision = 8, rc_overview = Some ob,
       rc_details = Some db, rc_deleted = False\<rparr>, missing_change 4] (Some 9) 1 toy_vault = (Inr rep, s') \<and>
     abs_vault toy_core s' 3 = Some toy_new \<and> abs_vault toy_core s' 4 = None"
proof -
  obtain w x where w: "stage_create toy_core toy_rn 3 toy_input 1 toy_vault = Inr w" "session_of toy_vault = Inr x"
    "sealed_as toy_core x w toy_new toy_login" "sw_epoch w = vs_epoch toy_vault"
    "ss_data_key x = replicate 32 5" "ss_vault_id x = 5" "ss_identity_id x \<noteq> 3" by (rule toy_create)
  obtain a where a: "require_account (vs_store toy_vault) = Inr a" using toy_vault_session by blast
  obtain ob db where b: "open_overview toy_core (ss_data_key x) (ss_vault_id x) (3, ob) = Inr toy_new"
    "open_json toy_core (ss_data_key x) (item_details_ctx (ce_crypto toy_core) (ss_vault_id x) 3 ob) (dec_details toy_core) db = Inr toy_login"
    "details_type toy_login = ov_item_type toy_new"
    using w(3) toy_new_id(1) by (auto simp: sealed_as_def)
  let ?c = "\<lparr>rc_item_id = 3, rc_revision = 8, rc_overview = Some ob, rc_details = Some db, rc_deleted = False\<rparr>"
  let ?cs = "[missing_change 3, ?c, missing_change 4]"
  have k: "checked_change toy_core x ?c = Some (ob, db, toy_new)"
    using b toy_new_id(1) by (auto simp: checked_change_def check_item_bytes_def open_overview_def result_simps)
  have l: "last_change ?cs 3 = Some ?c" "last_change ?cs 4 = Some (missing_change 4)"
    by (simp_all add: last_change_def missing_change_def)
  obtain r s' where c: "apply_changes toy_core ?cs (Some 9) 1 toy_vault = (r, s')" by force
  note f = apply_changes_refines [OF toy_vault_inv w(2) a c]
  have "abs_vault toy_core s' 3 = Some toy_new" using f [of 3] l k by (auto simp: pulled_item_def)
  moreover have "abs_vault toy_core s' 4 = None" using f [of 4] l by (auto simp: pulled_item_def missing_change_def)
  ultimately show ?thesis using f [of 3] c by blast
qed

text \<open>
  The server cannot roll the account's header back. \<open>adopt_account_header\<close> changes nothing unless
  it answers true; and then the vault was unlocked, the header was for this vault and carried an
  attestation made with this vault's data key, its revision is above both the local header's and the
  highest ever seen, the local header now has exactly its key wrap and revision (identity, format and
  creation time stay), and the highest revision seen is raised to it.
\<close>

theorem adopt_header_no_rollback:
  assumes "adopt_account_header env remote s = (r, s')"
  shows "if r \<noteq> Inr True then s' = s
    else \<exists>x hfile h local. session_of s = Inr x \<and> parse_header env remote = Inr hfile \<and>
      verify_header env (ss_data_key x) hfile \<and> body_to_record env (hf_body hfile) = Inr h \<and>
      require_header (vs_store s) = Inr local \<and> hd_vault_id h = hd_vault_id local \<and>
      as_i64 (hd_revision local) < as_i64 (hd_revision h) \<and>
      require_header (vs_store s') = Inr (local\<lparr>hd_kdf := hd_kdf h, hd_wrapped_vault_key := hd_wrapped_vault_key h,
        hd_key_scheme := hd_key_scheme h, hd_revision := hd_revision h\<rparr>) \<and>
      (case st_account (vs_store s) of None \<Rightarrow> st_account (vs_store s') = None
       | Some a \<Rightarrow> rw_max_header_rev a < as_i64 (hd_revision h) \<and>
           st_account (vs_store s') = Some (a\<lparr>rw_max_header_rev := as_i64 (hd_revision h)\<rparr>)) \<and>
      s' = s\<lparr>vs_store := vs_store s'\<rparr> \<and> st_items (vs_store s') = st_items (vs_store s)"
proof (cases rule: adopt_account_header_cases [of env remote s])
  case (refused r')
  then show ?thesis using assms by auto
next
  case (adopted local hfile x h a st)
  have s': "r = Inr True" "s' = s\<lparr>vs_store := raise_max_header_rev (as_i64 (hd_revision h)) st\<rparr>" using assms adopted(10) by simp_all
  have v: "hd_vault_id h = hd_vault_id local" using adopted(3,6) by (auto simp: body_to_record_def result_simps)
  note k = update_key_wrap_keeps [OF adopted(9)] header_of_update [OF adopted(9,1)]
  have "case st_account (vs_store s) of None \<Rightarrow> st_account (vs_store s') = None
       | Some a \<Rightarrow> rw_max_header_rev a < as_i64 (hd_revision h) \<and>
           st_account (vs_store s') = Some (a\<lparr>rw_max_header_rev := as_i64 (hd_revision h)\<rparr>)"
    using adopted(7,8) k by (auto simp: s' raise_max_header_rev_def account_def result_simps max_def split: option.splits if_splits)
  then show ?thesis using s' v adopted k by simp
qed

lemma adopt_header_no_rollback_witness:
  "\<exists>f s' h. adopt_account_header (toy_sync f) [1] toy_vault = (Inr True, s') \<and> require_header (vs_store s') = Inr h \<and> hd_revision h = 6"
proof -
  let ?h = "(pv_header toy_prep)\<lparr>hd_revision := 6\<rparr>"
  obtain f where e: "encode_header (toy_sync f) (Some (replicate 12 0)) (replicate 32 5) ?h = Inr [1]"
    using toy_encoded [of ?h] by (auto simp: toy_prep_def)
  obtain s' where s': "adopt_account_header (toy_sync f) [1] toy_vault = (Inr True, s')" using toy_adopts [OF e] by blast
  obtain hfile where p: "parse_header (toy_sync f) [1] = Inr hfile" "body_to_record (toy_sync f) (hf_body hfile) = Inr ?h"
    using toy_parsed [OF e] by blast
  from adopt_header_no_rollback [OF s'] p have "\<exists>h. require_header (vs_store s') = Inr h \<and> hd_revision h = 6" by auto
  then show ?thesis using s' by blast
qed

text \<open>
  C31. A published header signs a new device in. The header file made for a freshly prepared account
  vault, if it fits in the 64 KiB a device reads, gives on any other device with the master password,
  the Secret Key and the account the very same header record, vault key and authentication key.
\<close>

theorem published_header_signs_in:
  assumes "sync_env_ok env" and "length n = NONCE_LEN" and "length n' = NONCE_LEN" and "length vk = KEY_LEN"
    and "prepare_new_account_vault (se_core env) (Some sk) vid (Some vk) (Some n) pw acct kdf now_ms = Inr av"
    and "encode_header_for env (Some n') (av_prepared av) = Inr b" and "length b \<le> 64 * 1024"
  shows "prepare_sign_in env b pw sk acct = Inr (av_prepared av, av_auth_key av)"
proof -
  let ?e = "se_core env"
  obtain m kek auth w where p: "derive_master_key (ce_keys ?e) pw kdf = Inr m" "derive_kek_v3 (ce_keys ?e) m sk acct = Inr kek"
    "derive_auth_key_from_master (ce_keys ?e) m sk acct = Inr auth" "wrap_vault_key ?e (Some n) kek vid vk = Inr w"
    "av_prepared av = \<lparr>pv_header = \<lparr>hd_format_version = FORMAT_VERSION, hd_vault_id = vid, hd_kdf = kdf,
            hd_wrapped_vault_key = w, hd_created_at = now_ms, hd_key_scheme = AccountBound, hd_revision = 0\<rparr>, pv_vault_key = vk\<rparr>"
    "av_auth_key av = auth"
    using prepare_new_account_vault_Inr [OF assms(5)] by (metis account_vault.select_convs(1,3) option.inject)
  let ?h = "pv_header (av_prepared av)"
  obtain dk where d: "derive_data_key (ce_keys ?e) vk = Inr dk" "encode_header env (Some n') dk ?h = Inr b"
    using assms(6) by (auto simp: encode_header_for_def result_simps p(5))
  have "hd_format_version ?h = FORMAT_VERSION" "validate_kdf (hd_kdf ?h) = Inr ()"
    using derive_master_key_kdf [OF p(1)] by (simp_all add: p(5))
  from encoded_header_parses [OF assms(1,3) d(2) assms(7) this] obtain hfile where f: "parse_header env b = Inr hfile"
    "hf_body hfile = header_body_of env ?h" "verify_header env dk hfile" "body_to_record env (hf_body hfile) = Inr ?h" by blast
  have a: "aead_ok (ce_crypto ?e)" using assms(1) by (simp add: sync_env_ok_def env_ok_def)
  have "hb_key_scheme (hf_body hfile) = AccountBound" by (cases "hb_key_scheme (hf_body hfile)") simp
  then show ?thesis
    using f p d unwrap_wrap [OF a assms(2,4) p(4)] by (simp add: prepare_sign_in_def Let_def)
qed

lemma published_header_signs_in_witness:
  "\<exists>f av. prepare_new_account_vault toy_core (Some (replicate 16 1)) 5 (Some (replicate 32 4)) (Some (replicate 12 0))
     toy_password toy_ref toy_kdf 7 = Inr av \<and>
     prepare_sign_in (toy_sync f) [1] toy_password (replicate 16 1) toy_ref = Inr (av_prepared av, av_auth_key av)"
proof -
  obtain av where av: "prepare_new_account_vault toy_core (Some (replicate 16 1)) 5 (Some (replicate 32 4)) (Some (replicate 12 0))
     toy_password toy_ref toy_kdf 7 = Inr av" using toy_prepared by blast
  have "hd_vault_id (pv_header (av_prepared av)) = 5" by (rule prepare_new_account_vault_Inr [OF av]) simp
  then obtain f where "encode_header (toy_sync f) (Some (replicate 12 0)) (replicate 32 5) (pv_header (av_prepared av)) = Inr [1]"
    using toy_encoded by blast
  then have "encode_header_for (toy_sync f) (Some (replicate 12 0)) (av_prepared av) = Inr [1]"
    by (simp add: encode_header_for_def)
  then have "prepare_sign_in (toy_sync f) [1] toy_password (replicate 16 1) toy_ref = Inr (av_prepared av, av_auth_key av)"
    using av by (intro published_header_signs_in [OF toy_sync_ok]) (simp_all add: NONCE_LEN_def KEY_LEN_def)
  then show ?thesis using av by blast
qed

text \<open>
  A retry touches only what still waits for one. Every change \<open>apply_refetched\<close> applies is for an item
  that was asked for and is still recorded as unreadable, and what the server returned is applied
  only at or above the recorded revision: the rest of the vault is untouched.
\<close>

theorem refetch_touches_recorded_only:
  assumes "service_inv env s" and "session_of s = Inr x"
    and "u \<notin> set requested \<or> u \<notin> set (unreadable_ids (vs_store s))"
  shows "abs_vault env (snd (apply_refetched env requested changes now_ms s)) u = abs_vault env s u"
proof (cases "require_account (vs_store s)")
  case (Inl e)
  then show ?thesis by (simp add: apply_refetched_def apply_changes_def)
next
  case (Inr a)
  let ?r = "unreadable_revisions (vs_store s)"
  let ?cs = "refetched_changes ?r requested changes"
  have "u \<notin> rc_item_id ` set ?cs"
  proof
    assume "u \<in> rc_item_id ` set ?cs"
    then obtain c where "c \<in> set ?cs" "u = rc_item_id c" by auto
    with refetched_ids [OF this(1)] assms(3) show False
      by (auto simp: unreadable_ids_def map_of_eq_None_iff [symmetric])
  qed
  then have "last_change ?cs u = None" by (auto simp: last_change_def find_None_iff)
  moreover obtain r s' where p: "apply_changes env ?cs None now_ms s = (r, s')" by fastforce
  ultimately have "abs_vault env s' u = abs_vault env s u"
    using pulled_abs [OF assms(1,2) Inr p, of u] by simp
  then show ?thesis by (simp add: apply_refetched_def p)
qed

lemma refetch_touches_recorded_only_witness:
  "abs_vault toy_core (snd (apply_refetched toy_core [3] [missing_change 3] 1 toy_vault)) 4 = abs_vault toy_core toy_vault 4"
proof -
  obtain x where "session_of toy_vault = Inr x" using toy_vault_session by blast
  then show ?thesis using refetch_touches_recorded_only [OF toy_vault_inv, of x 4 "[3]"] by simp
qed

end
