(* ===== verification/Machine.thy ===== *)
theory Machine
  imports Sync
begin

text \<open>
  The vault service as a state machine: every operation of the modelled service that changes its
  state, in any order and with any arguments, together with the writes that have been staged and
  not yet committed. Runs start from a service that has just been opened on a store. The statements of a
  commit and of a password change may fail; the store may be replaced by another one, as when the device
  is removed or its account is deleted (\<open>vault_step\<close>), and \<open>same_store_step\<close> is a step that does not.

  A step that locks is taken only below the largest epoch: the counter is 64 bits wide and the code
  adds one with wrap-around on each lock.
\<close>

section \<open>Steps\<close>

definition vault_set_plan :: "plan_record \<Rightarrow> service \<Rightarrow> service" where
  "vault_set_plan p s = s\<lparr>vs_store := set_plan p (vs_store s)\<rparr>"

definition vault_set_pake_confirmed :: "service \<Rightarrow> service" where
  "vault_set_pake_confirmed s = s\<lparr>vs_store := set_pake_confirmed (vs_store s)\<rparr>"

inductive staged_by :: "core_env \<Rightarrow> service \<Rightarrow> staged_write \<Rightarrow> bool" for env s where
  by_create: "nonces_ok rn \<Longrightarrow> stage_create_with env rn u i files now_ms s = Inr w \<Longrightarrow> staged_by env s w"
| by_update: "nonces_ok rn \<Longrightarrow> stage_update_with env rn u i files now_ms s = Inr w \<Longrightarrow> staged_by env s w"
| by_delete: "stage_delete u s = Inr w \<Longrightarrow> staged_by env s w"
| by_identity: "nonces_ok rn \<Longrightarrow> stage_identity_if_missing env rn email now_ms s = Inr (Some w) \<Longrightarrow> staged_by env s w"
| by_save_login: "nonces_ok rn \<Longrightarrow> stage_save_login env rn u page tp username pw target now_ms s = Inr sv \<Longrightarrow> staged_by env s (sv_write sv)"
| by_save_sso: "nonces_ok rn \<Longrightarrow> stage_save_sso env rn u page tp p acct target now_ms s = Inr sv \<Longrightarrow> staged_by env s (sv_write sv)"
| by_trash: "nonces_ok rn \<Longrightarrow> stage_trash env rn u now_ms s = Inr w \<Longrightarrow> staged_by env s w"
| by_restore: "nonces_ok rn \<Longrightarrow> stage_restore_trashed env rn u s = Inr w \<Longrightarrow> staged_by env s w"
| by_purge: "stage_purge u s = Inr w \<Longrightarrow> staged_by env s w"
| by_empty: "stage_empty_trash s = Inr ws \<Longrightarrow> w \<in> set ws \<Longrightarrow> staged_by env s w"
| by_expired: "stage_expired_trash now_ms s = Inr ws \<Longrightarrow> w \<in> set ws \<Longrightarrow> staged_by env s w"
| by_files: "nonces_ok rn \<Longrightarrow> stage_attachments env rn u c now_ms s = Inr w \<Longrightarrow> staged_by env s w"

inductive service_op :: "sync_env \<Rightarrow> service \<Rightarrow> service \<Rightarrow> bool" for env s where
  op_create: "service_op env s (snd (create_account_vault (se_core env) rnd p acct s))"
| op_begin_unlock: "service_op env s (snd (begin_unlock s))"
| op_finish_unlock: "service_op env s (snd (finish_unlock (se_core env) t key s))"
| op_unlock_with_vault_key: "service_op env s (snd (unlock_with_vault_key (se_core env) vk s))"
| op_adopt_and_unlock: "service_op env s (snd (adopt_and_unlock (se_core env) p ep s))"
| op_commit_rekey: "service_op env s (snd (commit_rekey_on fails rt rk rv s))"
| op_update_settings: "service_op env s (snd (update_settings (se_core env) rnd v s))"
| op_fill: "service_op env s (snd (fill_for_page (se_core env) u page tp now_ms s))"
| op_apply: "service_op env s (snd (apply_changes (se_core env) changes cursor now_ms s))"
| op_reset_cursor: "service_op env s (snd (reset_sync_cursor now_ms s))"
| op_adopt_header: "service_op env s (snd (adopt_account_header env remote s))"
| op_cached: "service_op env s (snd (vault_cached_attachment clock a s))"
| op_cache: "service_op env s (snd (cache_attachment a b now_ms s))"
| op_evict: "service_op env s (snd (evict_attachment a s))"
| op_prune: "service_op env s (snd (vault_prune_attachment_cache cap s))"
| op_plan: "service_op env s (vault_set_plan plan1 s)"
| op_pake: "service_op env s (vault_set_pake_confirmed s)"

type_synonym machine = "service \<times> staged_write list"

inductive same_store_step :: "sync_env \<Rightarrow> machine \<Rightarrow> machine \<Rightarrow> bool" for env where
  operate: "service_op env s t \<Longrightarrow> same_store_step env (s, ws) (t, ws)"
| stage_one: "staged_by (se_core env) s w \<Longrightarrow> same_store_step env (s, ws) (s, w # ws)"
| commit_one: "w \<in> set ws \<Longrightarrow> same_store_step env (s, ws) (snd (commit_write_on stored w rv s), remove1 w ws)"
| refuse_one: "same_store_step env (s, ws) (s, remove1 w ws)"
| lock_now: "vs_epoch s \<noteq> - 1 \<Longrightarrow> same_store_step env (s, ws) (snd (lock s), ws)"

inductive vault_step :: "sync_env \<Rightarrow> machine \<Rightarrow> machine \<Rightarrow> bool" for env where
  on_store: "same_store_step env m m' \<Longrightarrow> vault_step env m m'"
| swap_store: "store_inv st \<Longrightarrow> vs_epoch s \<noteq> - 1 \<Longrightarrow> vault_step env (s, ws) (snd (replace_store st s), ws)"

definition machine_start :: "machine \<Rightarrow> bool" where
  "machine_start m \<longleftrightarrow> (\<exists>st. store_inv st \<and> m = (new_service st, []))"

section \<open>What every operation keeps\<close>

subsection \<open>The keys of an open session\<close>

definition same_keys :: "service \<Rightarrow> service \<Rightarrow> bool" where
  "same_keys s t \<longleftrightarrow> vs_epoch t = vs_epoch s \<and> (\<forall>x. session_of s = Inr x \<longrightarrow>
     (\<exists>y. session_of t = Inr y \<and> ss_data_key y = ss_data_key x \<and> ss_vault_id y = ss_vault_id x))"

lemma same_keys_refl [simp]: "same_keys s s" by (simp add: same_keys_def)

lemma same_keys_locked: "vs_epoch t = vs_epoch s \<Longrightarrow> vs_state s \<noteq> VUnlocked \<Longrightarrow> same_keys s t"
  by (simp add: same_keys_def session_of_Inr_iff)

lemma same_keys_store [simp]: "same_keys s (s\<lparr>vs_store := st\<rparr>)"
  by (simp add: same_keys_def session_of_Inr_iff)

lemma same_keys_session:
  "(\<And>x. vs_session s = Some x \<Longrightarrow> ss_data_key y = ss_data_key x \<and> ss_vault_id y = ss_vault_id x) \<Longrightarrow>
   same_keys s (s\<lparr>vs_store := st, vs_session := Some y\<rparr>)"
  by (simp add: same_keys_def session_of_Inr_iff)

lemma same_keys_with_session:
  "(\<And>x. ss_data_key (f x) = ss_data_key x \<and> ss_vault_id (f x) = ss_vault_id x) \<Longrightarrow>
   same_keys s (with_session (s\<lparr>vs_store := st\<rparr>) f)"
  "(\<And>x. ss_data_key (f x) = ss_data_key x \<and> ss_vault_id (f x) = ss_vault_id x) \<Longrightarrow> same_keys s (with_session s f)"
  by (auto simp: same_keys_def session_of_Inr_iff with_session_def)

lemma op_same_keys: "service_op env s t \<Longrightarrow> same_keys s t"
proof (induction rule: service_op.induct)
  case (op_create rnd p acct)
  show ?case
    by (cases rule: create_account_vault_cases [of "se_core env" rnd p acct s]) (auto intro: same_keys_locked)
next
  case op_begin_unlock
  show ?case
    by (cases "vs_state s = VUnlocked")
      (auto simp: begin_unlock_def check_locked_def split: sum.splits intro: same_keys_locked)
next
  case (op_finish_unlock t key)
  show ?case by (auto simp: finish_unlock_def split: sum.splits intro: same_keys_locked)
next
  case (op_unlock_with_vault_key vk)
  show ?case by (cases rule: unlock_with_vault_key_cases [of "se_core env" vk s]) (auto intro: same_keys_locked)
next
  case (op_adopt_and_unlock p ep)
  show ?case
    by (cases rule: adopt_and_unlock_cases [of "se_core env" p ep s])
      (auto simp: Let_def split: sum.splits intro: same_keys_locked)
next
  case (op_commit_rekey fails rt rk rv)
  show ?case by (cases rule: commit_rekey_on_cases [of fails rt rk rv s]) auto
next
  case (op_update_settings rnd v)
  show ?case by (auto simp: update_settings_def split: sum.splits intro!: same_keys_with_session)
next
  case (op_fill u page tp now_ms)
  have "same_keys s (snd (record_fill (se_core env) u page now_ms s))"
    by (auto simp: record_fill_def split: sum.splits option.splits intro!: same_keys_with_session)
  then show ?case using fill_for_page_state [of "se_core env" u page tp now_ms s] by auto
next
  case (op_apply changes cursor now_ms)
  show ?case
  proof (cases "and_then (require_account (vs_store s)) (\<lambda>_. session_of s)")
    case (Inl e)
    then show ?thesis by (simp add: apply_changes_def)
  next
    case (Inr x)
    then obtain a where x: "session_of s = Inr x" "require_account (vs_store s) = Inr a" by (auto simp: result_simps)
    show ?thesis
    proof (rule apply_changes_unfold [OF x, of "se_core env" changes cursor now_ms], goal_cases)
      case (1 rep y)
      then have "ss_data_key y = ss_data_key x \<and> ss_vault_id y = ss_vault_id x"
        using fold_place_keys fold_forget_keys by auto
      then show ?case unfolding 1(1) snd_conv using x(1) by (intro same_keys_session) (simp add: session_of_Inr_iff)
    qed
  qed
next
  case (op_adopt_header remote)
  show ?case by (cases rule: adopt_account_header_cases [of env remote s]) auto
qed (auto simp: reset_sync_cursor_def vault_cached_attachment_def cache_attachment_def evict_attachment_def
    vault_prune_attachment_cache_def on_cache_def vault_set_plan_def vault_set_pake_confirmed_def
    split: sum.splits prod.splits)

lemma commit_same_keys: "same_keys s (snd (commit_write_on stored w rv s))"
proof (cases "session_of s")
  case (Inl e)
  then show ?thesis by (simp add: commit_write_on_def)
next
  case (Inr x)
  then have x: "vs_state s = VUnlocked" "vs_session s = Some x" by (simp_all add: session_of_Inr_iff)
  show ?thesis
    unfolding commit_write_on_def Inr sum.case Let_def
    using x by (auto simp: same_keys_def session_of_Inr_iff with_session_def split: option.splits)
qed

subsection \<open>The invariant\<close>

lemma service_inv_cache:
  assumes "service_inv env s" and "st_items st = st_items (vs_store s)" and "st_header st = st_header (vs_store s)"
    and "store_wf (vs_store s) \<Longrightarrow> store_wf st"
  shows "service_inv env (s\<lparr>vs_store := st\<rparr>)"
  using assms by (intro service_inv_store) (auto simp: service_inv_def store_inv_def)

lemma on_cache_inv:
  assumes "service_inv env s"
    and "\<And>st. st_items (f st) = st_items st \<and> st_header (f st) = st_header st \<and> (store_wf st \<longrightarrow> store_wf (f st))"
  shows "service_inv env (snd (on_cache f s))"
  using assms by (auto simp: on_cache_def split: sum.splits intro!: service_inv_cache)

lemma op_inv: "service_op env s t \<Longrightarrow> service_inv (se_core env) s \<Longrightarrow> service_inv (se_core env) t"
proof (induction rule: service_op.induct)
  case (op_reset_cursor now_ms)
  then show ?case
    by (auto simp: reset_sync_cursor_def reset_cursor_def set_cursor_def store_wf_def split: sum.splits intro!: service_inv_cache)
next
  case (op_cached clock a)
  then show ?case
    by (auto simp: vault_cached_attachment_def cached_attachment_def store_wf_def split: sum.splits option.splits
        intro!: service_inv_cache intro: table_wf)
next
  case (op_cache a b now_ms)
  then show ?case unfolding cache_attachment_def
    by (rule on_cache_inv) (auto simp: put_cached_attachment_def store_wf_def intro: table_wf)
next
  case (op_evict a)
  then show ?case unfolding evict_attachment_def
    by (rule on_cache_inv) (auto simp: delete_cached_attachment_def store_wf_def intro: table_wf)
next
  case (op_prune cap)
  then show ?case unfolding vault_prune_attachment_cache_def
    by (auto split: sum.splits intro!: on_cache_inv simp: prune_attachment_cache_def store_wf_def intro: prune_rows_wf)
next
  case (op_plan plan1)
  then show ?case by (auto simp: vault_set_plan_def set_plan_def store_wf_def intro!: service_inv_cache)
next
  case op_pake
  then show ?case
    by (auto simp: vault_set_pake_confirmed_def set_pake_confirmed_def store_wf_def intro!: service_inv_cache)
qed (intro create_account_vault_inv begin_unlock_inv finish_unlock_inv unlock_with_vault_key_inv adopt_and_unlock_inv
    commit_rekey_on_inv update_settings_inv fill_for_page_inv apply_changes_inv adopt_account_header_inv; assumption)+

lemma staged_by_fresh:
  assumes "staged_by env s w" and "env_ok env" and "service_inv env s"
  shows "fresh_write env s w \<and> (\<exists>x. session_of s = Inr x)"
  using assms(1)
proof (cases rule: staged_by.cases)
  case (by_create rn u i files now_ms)
  then show ?thesis
    using stage_create_with_fresh [OF assms(2) by_create]
    by (auto simp: stage_create_with_def stage_def tag_spellings_def seal_staged_def result_simps split: if_splits)
next
  case (by_update rn u i files now_ms)
  then show ?thesis using stage_update_with_fresh [OF assms(2) by_update]
    by (auto simp: stage_update_with_def get_item_def result_simps)
next
  case (by_identity rn email now_ms)
  then show ?thesis using stage_identity_fresh [OF assms(2) by_identity]
    by (auto simp: stage_identity_if_missing_def result_simps)
next
  case (by_save_login rn u page tp username pw target now_ms sv)
  then show ?thesis using stage_save_login_fresh [OF assms(2) by_save_login(2,3)]
    by (auto simp: stage_save_login_def result_simps)
next
  case (by_save_sso rn u page tp p acct target now_ms sv)
  then show ?thesis using stage_save_sso_fresh [OF assms(2) by_save_sso(2,3)]
    by (auto simp: stage_save_sso_def result_simps)
next
  case (by_trash rn u now_ms)
  then show ?thesis using stage_trash_fresh [OF assms(2) by_trash] by (auto simp: stage_trash_def result_simps)
next
  case (by_restore rn u)
  then show ?thesis using stage_restore_fresh [OF assms(2) by_restore]
    by (auto simp: stage_restore_trashed_def result_simps)
next
  case (by_files rn u c now_ms)
  then obtain x where x: "session_of s = Inr x" by (auto simp: stage_attachments_def result_simps)
  then have "coherent env (vs_store s) x" using assms(3) by (auto simp: session_of_Inr_iff service_inv_def session_inv_def)
  then show ?thesis using stage_attachments_sealed [OF assms(2) by_files(1) x by_files(2)] x by blast
next
  case (by_delete u)
  then show ?thesis using tombstones_fresh(1) by (auto simp: stage_delete_def result_simps)
next
  case (by_purge u)
  then show ?thesis using tombstones_fresh(2) by (auto simp: stage_purge_def result_simps)
next
  case (by_empty ws)
  then show ?thesis using tombstones_fresh(3) by (auto simp: stage_empty_trash_def result_simps)
next
  case (by_expired now_ms ws)
  then show ?thesis using tombstones_fresh(4) by (auto simp: stage_expired_trash_def result_simps)
qed

text \<open>
  A pending write is of the current epoch or an older one, and one of the current epoch is readable
  with the keys of the session that is open now.
\<close>

definition pending_ok :: "core_env \<Rightarrow> service \<Rightarrow> staged_write \<Rightarrow> bool" where
  "pending_ok env s w \<longleftrightarrow> unat (sw_epoch w) \<le> unat (vs_epoch s) \<and>
     (sw_epoch w = vs_epoch s \<longrightarrow> (\<exists>x. session_of s = Inr x \<and> staged_ok env x w))"

definition machine_inv :: "sync_env \<Rightarrow> machine \<Rightarrow> bool" where
  "machine_inv env m \<longleftrightarrow> service_inv (se_core env) (fst m) \<and> list_all (pending_ok (se_core env) (fst m)) (snd m)"

lemma pending_same_keys:
  assumes "same_keys s t" and "pending_ok env s w"
  shows "pending_ok env t w"
proof -
  have "\<exists>y. session_of t = Inr y \<and> staged_ok env y w" if "sw_epoch w = vs_epoch s"
  proof -
    obtain x where x: "session_of s = Inr x" "staged_ok env x w" using assms(2) \<open>sw_epoch w = vs_epoch s\<close> by (auto simp: pending_ok_def)
    then obtain y where y: "session_of t = Inr y" "ss_data_key y = ss_data_key x" "ss_vault_id y = ss_vault_id x"
      using assms(1) by (auto simp: same_keys_def)
    then show ?thesis using x(2) staged_ok_keys [OF y(2,3)] by blast
  qed
  then show ?thesis using assms by (auto simp: pending_ok_def same_keys_def)
qed

lemma pending_locked:
  assumes "vs_epoch s \<noteq> - 1" and "pending_ok env s w"
  shows "pending_ok env (snd (lock s)) w"
proof -
  have "1 + vs_epoch s \<noteq> 0" using assms(1) by (metis add.commute eq_neg_iff_add_eq_0)
  then have e: "unat (vs_epoch s + 1) = Suc (unat (vs_epoch s))"
    using unatSuc [of "vs_epoch s"] by (simp add: add.commute)
  have "sw_epoch w \<noteq> vs_epoch s + 1" using assms(2) e by (auto simp: pending_ok_def)
  then show ?thesis using assms(2) e by (simp add: pending_ok_def lock_def)
qed

lemma same_store_step_inv:
  assumes "env_ok (se_core env)" and "machine_inv env m" and "same_store_step env m m'"
  shows "machine_inv env m'"
  using assms(3)
proof (cases rule: same_store_step.cases)
  case (operate s t ws)
  then show ?thesis
    using assms(2) op_inv [OF operate(3)] pending_same_keys [OF op_same_keys [OF operate(3)]]
    by (auto simp: machine_inv_def list_all_iff)
next
  case (stage_one s w ws)
  then have i: "service_inv (se_core env) s" using assms(2) by (simp add: machine_inv_def)
  obtain x where "session_of s = Inr x" "fresh_write (se_core env) s w"
    using staged_by_fresh [OF stage_one(3) assms(1) i] by blast
  then have "pending_ok (se_core env) s w" by (auto simp: pending_ok_def fresh_write_def)
  then show ?thesis using assms(2) stage_one by (simp add: machine_inv_def)
next
  case (commit_one w ws s stored rv)
  then have p: "pending_ok (se_core env) s w" "service_inv (se_core env) s"
    using assms(2) by (auto simp: machine_inv_def list_all_iff)
  have "service_inv (se_core env) (snd (commit_write_on stored w rv s))"
    by (rule commit_write_on_inv [OF p(2)]) (use p(1) in \<open>auto simp: pending_ok_def\<close>)
  then show ?thesis
    using assms(2) commit_one pending_same_keys [OF commit_same_keys]
    by (auto simp: machine_inv_def list_all_iff dest: notin_set_remove1 in_set_remove1 [THEN iffD1] set_remove1_subset [THEN subsetD])
next
  case (refuse_one s ws w)
  then show ?thesis using assms(2) set_remove1_subset [of w ws] by (auto simp: machine_inv_def list_all_iff)
next
  case (lock_now s ws)
  then show ?thesis
    using assms(2) lock_inv pending_locked by (auto simp: machine_inv_def list_all_iff)
qed

lemma vault_step_inv:
  assumes "env_ok (se_core env)" and "machine_inv env m" and "vault_step env m m'"
  shows "machine_inv env m'"
  using assms(3)
proof (cases rule: vault_step.cases)
  case on_store
  then show ?thesis using same_store_step_inv [OF assms(1,2)] by blast
next
  case (swap_store st s ws)
  have "pending_ok (se_core env) (snd (replace_store st s)) w" if "pending_ok (se_core env) s w" for w
    using pending_locked [OF swap_store(4) that]
    by (auto simp: pending_ok_def replace_store_def session_of_Inr_iff lock_def)
  then show ?thesis
    using assms(2) swap_store replace_store_inv [OF swap_store(3)] by (auto simp: machine_inv_def list_all_iff)
qed

lemma machine_start_inv: "machine_start m \<Longrightarrow> machine_inv env m"
  by (auto simp: machine_start_def machine_inv_def new_service_inv)

text \<open>Under the contract on the environment the machine is an invariant system.\<close>

interpretation vault_machine: invariant_system
  "\<lambda>m. machine_start m" "\<lambda>m m'. env_ok (se_core env) \<and> vault_step env m m'" "machine_inv env"
  by unfold_locales (auto intro: machine_start_inv vault_step_inv)

lemma run_guarded: "(vault_step env)\<^sup>*\<^sup>* m m' \<Longrightarrow> env_ok (se_core env) \<Longrightarrow> (\<lambda>m m'. env_ok (se_core env) \<and> vault_step env m m')\<^sup>*\<^sup>* m m'"
  by (erule mono_rtranclp [rule_format, rotated]) simp

subsection \<open>The header\<close>

text \<open>One store's header is the other's, or has been replaced by one of the same vault with a higher revision.\<close>

definition header_le :: "store \<Rightarrow> store \<Rightarrow> bool" where
  "header_le st st' \<longleftrightarrow> (\<forall>h. require_header st = Inr h \<longrightarrow> int (hd_revision h) \<le> i64_max \<longrightarrow>
     (\<exists>h'. require_header st' = Inr h' \<and> int (hd_revision h') \<le> i64_max \<and> hd_vault_id h' = hd_vault_id h \<and>
        (h' = h \<or> hd_revision h < hd_revision h')))"

lemma header_le_refl: "header_le st st" by (simp add: header_le_def)

lemma header_le_trans: "header_le a b \<Longrightarrow> header_le b c \<Longrightarrow> header_le a c"
  unfolding header_le_def by (fastforce intro: order.strict_trans)

lemma header_le_same: "st_header st' = st_header st \<Longrightarrow> header_le st st'"
  by (simp add: header_le_def require_header_def header_def)

lemma header_le_None: "require_header st = Inl e \<Longrightarrow> header_le st st'"
  by (simp add: header_le_def)

lemma as_i64_small: "int n \<le> i64_max \<Longrightarrow> as_i64 n = int n"
  by (simp add: as_i64_def)

lemma header_le_update:
  assumes "update_key_wrap kdf w sch rv st = Inr st2" and "require_header st = Inr h"
    and "int (hd_revision h) \<le> i64_max \<Longrightarrow> int rv \<le> i64_max \<Longrightarrow> hd_revision h < rv"
  shows "header_le st (raise_max_header_rev r st2)" and "header_le st st2"
proof -
  have "int rv \<le> i64_max" using assms(1) by (auto simp: update_key_wrap_def revision_to_db_def result_simps split: if_splits)
  then show "header_le st (raise_max_header_rev r st2)"
    using header_of_update [OF assms(1,2)] assms(2,3) by (simp add: header_le_def)
  then show "header_le st st2"
    by (simp add: header_le_def require_header_def header_def raise_max_header_rev_def)
qed

lemma op_header_le: "service_op env s t \<Longrightarrow> header_le (vs_store s) (vs_store t)"
proof (induction rule: service_op.induct)
  case (op_create rnd p acct)
  show ?case
    by (cases rule: create_account_vault_cases [of "se_core env" rnd p acct s])
      (auto simp: header_le_refl require_header_def header_def intro!: header_le_None)
next
  case (op_adopt_and_unlock p ep)
  show ?case
  proof (cases rule: adopt_and_unlock_cases [of "se_core env" p ep s])
    case 1
    then show ?thesis by (simp add: header_le_refl)
  next
    case (2 st local a)
    have "header_le (vs_store s) (raise_max_header_rev (as_i64 (hd_revision (pv_header p))) st)"
      by (rule header_le_update(1) [OF 2(7,3)]) (use 2(6) in \<open>simp add: as_i64_small\<close>)
    then show ?thesis by (simp add: 2(8) Let_def split: sum.splits)
  qed
next
  case (op_commit_rekey fails rt rk rv)
  show ?case
  proof (cases rule: commit_rekey_on_cases [of fails rt rk rv s])
    case 1
    then show ?thesis by (simp add: header_le_refl)
  next
    case (2 x r cur a st)
    have "header_le (vs_store s) (raise_max_header_rev (as_i64 rv) st)" "header_le (vs_store s) st"
      by (rule header_le_update [OF 2(9,4)]; use 2(8) in \<open>simp add: u64_saturating_succ_def i64_max_def\<close>)+
    then show ?thesis by (simp add: 2(10))
  qed
next
  case (op_adopt_header remote)
  show ?case
  proof (cases rule: adopt_account_header_cases [of env remote s])
    case (refused r)
    then show ?thesis by (simp add: header_le_refl)
  next
    case (adopted local hfile x h a st)
    have "header_le (vs_store s) (raise_max_header_rev (as_i64 (hd_revision h)) st)"
      by (rule header_le_update(1) [OF adopted(9,1)]) (use adopted(8) in \<open>simp add: as_i64_small\<close>)
    then show ?thesis by (simp add: adopted(10))
  qed
next
  case (op_unlock_with_vault_key vk)
  show ?case by (cases rule: unlock_with_vault_key_cases [of "se_core env" vk s]) (auto simp: header_le_refl)
next
  case (op_apply changes cursor now_ms)
  show ?case
    by (rule header_le_same) (auto simp: apply_changes_def apply_pull_fst Let_def case_prod_beta split: sum.splits)
next
  case (op_fill u page tp now_ms)
  have "vs_store (snd (record_fill (se_core env) u page now_ms s)) = vs_store s"
    by (auto simp: record_fill_def with_session_def split: sum.splits option.splits)
  then show ?case using fill_for_page_state [of "se_core env" u page tp now_ms s] by (auto simp: header_le_refl)
qed (rule header_le_same; auto simp: begin_unlock_def finish_unlock_def update_settings_def with_session_def
    reset_sync_cursor_def reset_cursor_def set_cursor_def vault_cached_attachment_def cached_attachment_def
    cache_attachment_def evict_attachment_def vault_prune_attachment_cache_def on_cache_def put_cached_attachment_def
    delete_cached_attachment_def prune_attachment_cache_def vault_set_plan_def set_plan_def vault_set_pake_confirmed_def
    set_pake_confirmed_def split: sum.splits option.splits prod.splits)+

lemma commit_header: "st_header (vs_store (snd (commit_write_on stored w rv s))) = st_header (vs_store s)"
  by (cases "session_of s")
    (auto simp: commit_write_on_def Let_def with_session_def upsert_item_def delete_item_def delete_row_def split: option.splits)

lemma same_store_step_header: "same_store_step env m m' \<Longrightarrow> header_le (vs_store (fst m)) (vs_store (fst m'))"
  by (induction rule: same_store_step.induct)
    (auto simp: op_header_le header_le_refl lock_def commit_header intro: header_le_same)

section \<open>A run for the witnesses\<close>

text \<open>The vault is created on an empty store, an item is staged, then the vault is locked.\<close>

lemma toy_start: "machine_start (new_service empty_store, [])"
  using store_wf_empty by (auto simp: machine_start_def store_inv_def empty_store_def)

lemma toy_run_create: "(vault_step (toy_sync f))\<^sup>*\<^sup>* (new_service empty_store, []) (toy_vault, [])"
  unfolding toy_vault_def toy_sync_core [of f, symmetric] by (intro r_into_rtranclp on_store operate op_create)

lemma toy_run_stage:
  assumes "stage_create toy_core toy_rn 3 toy_input 1 toy_vault = Inr w"
  shows "(vault_step (toy_sync f))\<^sup>*\<^sup>* (new_service empty_store, []) (toy_vault, [w])"
proof -
  have "staged_by toy_core toy_vault w"
    using by_create [OF toy_nonces_ok assms [unfolded stage_create_def]] .
  then have "vault_step (toy_sync f) (toy_vault, []) (toy_vault, [w])" by (intro on_store stage_one) simp
  then show ?thesis by (rule rtranclp.rtrancl_into_rtrancl [OF toy_run_create])
qed

lemma toy_run_lock: "(same_store_step (toy_sync f))\<^sup>*\<^sup>* (toy_vault, []) (snd (lock toy_vault), [])"
proof -
  have "vs_epoch toy_vault = 0"
    using op_same_keys [OF op_create [where env = "toy_sync f" and s = "new_service empty_store" and rnd = "Some (replicate 12 0)"
      and p = toy_prep and acct = toy_account]]
    by (simp add: toy_vault_def same_keys_def new_service_def)
  then show ?thesis by (intro r_into_rtranclp lock_now) simp
qed

section \<open>Claims\<close>

text \<open>
  C2. In every run of the service, whatever the order of the operations and their arguments, also when
  the statements of a commit or a password change fail and when the store is replaced, the
  session and the store agree: a session exists exactly while the vault is unlocked; its keys are
  those its vault key derives; its live and trashed items together are what the rows on disk open
  to, and reopening the store would give the same tables; it remembers at most sixteen fills.
\<close>

theorem every_run_coherent:
  assumes "env_ok (se_core env)" and "machine_start m" and "(vault_step env)\<^sup>*\<^sup>* m (s, ws)"
  shows "(vs_session s \<noteq> None \<longleftrightarrow> vs_state s = VUnlocked) \<and>
    (\<forall>x. session_of s = Inr x \<longrightarrow> held_item x = abs_vault (se_core env) s \<and>
       derive_data_key (ce_keys (se_core env)) (ss_vault_key x) = Inr (ss_data_key x) \<and>
       derive_identity_item_id (ce_keys (se_core env)) (ss_vault_key x) = Inr (ss_identity_id x) \<and>
       length (ss_recent_fills x) \<le> 16 \<and>
       (\<forall>y. open_session (se_core env) (vs_store s) (ss_vault_id x) (ss_vault_key x) = Inr y \<longrightarrow>
          get (ss_overviews y) = get (ss_overviews x) \<and> get (ss_trash y) = get (ss_trash x)))"
proof -
  have "machine_inv env (s, ws)"
    using vault_machine.reachable_inv [OF assms(2) run_guarded [OF assms(3,1)]] .
  then have i: "service_inv (se_core env) s" by (simp add: machine_inv_def)
  have "held_item x = abs_vault (se_core env) s \<and> session_inv (se_core env) (vs_store s) x" if x: "session_of s = Inr x" for x
  proof -
    have c: "session_inv (se_core env) (vs_store s) x" using i x by (auto simp: session_of_Inr_iff service_inv_def)
    then show ?thesis using coherent_held x by (auto simp: abs_vault_def session_inv_def fun_eq_iff)
  qed
  then show ?thesis
    using i reopened_same [OF i] by (auto simp: service_inv_def session_inv_def MAX_RECENT_FILLS_def)
qed

lemma every_run_coherent_witness:
  "\<exists>f x. (vault_step (toy_sync f))\<^sup>*\<^sup>* (new_service empty_store, []) (toy_vault, []) \<and>
     session_of toy_vault = Inr x \<and> held_item x = abs_vault toy_core toy_vault"
proof -
  obtain x where x: "session_of toy_vault = Inr x" using toy_vault_session by blast
  fix f
  show ?thesis
    using every_run_coherent [OF _ toy_start toy_run_create, of f] x toy_run_create [of f] toy_env_ok by auto
qed





end
