(* ===== verification/Wire.thy ===== *)
theory Wire
  imports Sync
begin

text \<open>
  The client's side of the server's protocol (\<^verbatim>\<open>havenkeys-sync-client/src/error.rs\<close>, \<^verbatim>\<open>session.rs\<close>,
  \<^verbatim>\<open>wire.rs\<close>, \<^verbatim>\<open>client.rs\<close>) and the choice between the two ways to sign in
  (\<^verbatim>\<open>havenkeys-client/src/pake.rs\<close>). The server is not trusted: an answer that is not shaped as the
  protocol says is an error and nothing else.

  A request is a value of \<open>call\<close>, one constructor for each route with the body it carries. The network
  is an argument: a transport takes a token, a call and its own state to an error or an answer and a
  new state. JSON is not modelled: a body is given as what it parses to (\<open>BOther\<close> when it parses as
  nothing the client expects), next to the error code it names. The two halves of OPAQUE a client runs
  are the fields of \<open>pake_env\<close>.
\<close>

section \<open>Model\<close>

subsection \<open>Errors\<close>

datatype SyncError =
    SyUnavailable
  | SyUnauthorized
  | SyAccountDeleted
  | SyAccountFrozen
  | SyRateLimited
  | SyRefused string
  | SyConflict "(uuid \<times> int option) list"
  | SyProtocol string
  | SyTooLarge
  | SyUnsupported
  | SyAttachmentsFull
  | SyVaultFull
  | SyInvalidServerUrl

fun sync_error_code :: "SyncError \<Rightarrow> string" where
  "sync_error_code SyUnavailable = ''unavailable''"
| "sync_error_code SyUnauthorized = ''unauthorized''"
| "sync_error_code SyAccountDeleted = ''account_deleted''"
| "sync_error_code SyAccountFrozen = ''account_frozen''"
| "sync_error_code SyRateLimited = ''rate_limited''"
| "sync_error_code (SyRefused _) = ''refused''"
| "sync_error_code (SyConflict _) = ''conflict''"
| "sync_error_code (SyProtocol _) = ''protocol''"
| "sync_error_code SyTooLarge = ''too_large''"
| "sync_error_code SyUnsupported = ''unsupported''"
| "sync_error_code SyAttachmentsFull = ''attachments_full''"
| "sync_error_code SyVaultFull = ''vault_full''"
| "sync_error_code SyInvalidServerUrl = ''invalid_server_url''"

subsection \<open>What travels\<close>

definition MAX_CHANGES :: nat where "MAX_CHANGES = 500"
definition MAX_HEADER_BYTES :: nat where "MAX_HEADER_BYTES = 64 * 1024"
definition KEY_SCHEME :: int where "KEY_SCHEME = 3"

record change_dto =
  cd_item_id :: uuid
  cd_base_revision :: "int option"
  cd_overview :: "rstring option"
  cd_details :: "rstring option"
  cd_deleted :: bool
  cd_attachment_ids :: "uuid list option"

record kdf_dto =
  kd_algorithm :: rstring
  kd_memory_kib :: nat
  kd_iterations :: nat
  kd_parallelism :: nat
  kd_salt :: rstring

record credentials_body =
  cb_current_auth_key :: "rstring option"
  cb_reauth_id :: "rstring option"
  cb_credential_finalization :: "rstring option"
  cb_kdf :: kdf_dto
  cb_new_auth_key :: "rstring option"
  cb_registration_upload :: "rstring option"
  cb_header :: rstring
  cb_base_header_revision :: int

record deletion_body =
  db_current_auth_key :: "rstring option"
  db_reauth_id :: "rstring option"
  db_credential_finalization :: "rstring option"
  db_email :: rstring

record activate_body =
  ab_email :: rstring
  ab_invite :: rstring
  ab_kdf :: kdf_dto
  ab_auth_key :: "rstring option"
  ab_registration_upload :: "rstring option"
  ab_vault_id :: uuid
  ab_header :: rstring
  ab_key_scheme :: int

datatype call =
    CallHealth
  | CallActivateRegister rstring rstring rstring
  | CallActivate activate_body
  | CallParams rstring
  | CallPakeStart rstring rstring uuid
  | CallPakeFinish rstring rstring uuid rstring
  | CallRegister rstring
  | CallReauth rstring
  | CallEnroll rstring rstring
  | CallLogin rstring rstring uuid rstring
  | CallLogout
  | CallHeader
  | CallCredentials credentials_body
  | CallDeleteAccount deletion_body
  | CallPull int
  | CallWrite "change_dto list"
  | CallFetch "uuid list"
  | CallDevices
  | CallRevokeDevice uuid
  | CallPutAttachment uuid uuid rstring
  | CallGetAttachment uuid

record account_dto =
  ad_status :: rstring
  ad_entitlement :: rstring
  ad_trial_ends_at :: "rstring option"
  ad_period_end :: "rstring option"

record login_dto =
  lo_token :: rstring
  lo_expires_at :: rstring
  lo_vault_id :: uuid
  lo_account :: "account_dto option"

record header_dto =
  hx_header :: rstring
  hx_header_revision :: int
  hx_key_scheme :: int

record remote_change_dto =
  rd_item_id :: uuid
  rd_revision :: int
  rd_overview :: "rstring option"
  rd_details :: "rstring option"
  rd_deleted :: bool

record pull_dto =
  pd_cursor :: int
  pd_has_more :: bool
  pd_changes :: "remote_change_dto list"
  pd_account :: "account_dto option"

record device_dto =
  dd_id :: uuid
  dd_name :: rstring
  dd_created_at :: rstring
  dd_last_seen_at :: "rstring option"
  dd_current :: bool
  dd_approved_by :: "uuid option"

datatype body =
    BActivated uuid uuid
  | BParams uuid kdf_dto
  | BPakeStart rstring rstring
  | BRegistration rstring
  | BReauth rstring rstring
  | BLogin login_dto
  | BHeader header_dto
  | BCredentials int
  | BPull pull_dto
  | BWrite int "(uuid \<times> int) list"
  | BConflicts "(uuid \<times> int option) list"
  | BFetch "remote_change_dto list" "uuid list"
  | BDevices "device_dto list"
  | BAttachment uuid rstring
  | BOther

record http_response =
  hr_status :: nat
  hr_said :: "string option"
  hr_body :: body

type_synonym 's transport = "rstring option \<Rightarrow> call \<Rightarrow> 's \<Rightarrow> (SyncError + http_response) \<times> 's"

text \<open>A request without a body, or whose body encodes; then what is made of the answer.\<close>

definition send :: "'s transport \<Rightarrow> rstring option \<Rightarrow> call \<Rightarrow> (http_response \<Rightarrow> SyncError + 'a) \<Rightarrow> 's \<Rightarrow> (SyncError + 'a) \<times> 's" where
  "send tr tok c k s = (case tr tok c s of (r, s') \<Rightarrow> (and_then r k, s'))"

subsection \<open>Reading an answer\<close>

definition error_for :: "nat \<Rightarrow> SyncError" where
  "error_for n =
     (if n = 401 \<or> n = 403 then SyUnauthorized
      else if n = 404 then SyRefused ''not found''
      else if n = 426 then SyRefused ''upgrade required''
      else if n = 409 then SyConflict []
      else if n = 413 then SyRefused ''too large''
      else if n = 429 then SyRateLimited
      else if 400 \<le> n \<and> n \<le> 499 then SyRefused ''the request was refused''
      else SyUnavailable)"

definition error_from :: "http_response \<Rightarrow> SyncError" where
  "error_from r =
     (if hr_status r = 410 \<and> hr_said r = Some ''account_deleted'' then SyAccountDeleted
      else if hr_status r = 402 \<and> hr_said r = Some ''account_frozen'' then SyAccountFrozen
      else if hr_status r = 413 \<and> hr_said r = Some ''attachments_full'' then SyAttachmentsFull
      else if hr_status r = 413 \<and> hr_said r = Some ''vault_full'' then SyVaultFull
      else error_for (hr_status r))"

definition parse_body :: "(body \<Rightarrow> 'a option) \<Rightarrow> http_response \<Rightarrow> SyncError + 'a" where
  "parse_body f r = ok_or (SyProtocol ''unexpected response'') (f (hr_body r))"

definition expect_ok :: "(body \<Rightarrow> 'a option) \<Rightarrow> http_response \<Rightarrow> SyncError + 'a" where
  "expect_ok f r = (if hr_status r \<noteq> 200 then Inl (error_from r) else parse_body f r)"

definition expect_status :: "nat list \<Rightarrow> http_response \<Rightarrow> SyncError + unit" where
  "expect_status oks r = (if hr_status r \<in> set oks then Inr () else Inl (error_from r))"

definition decode_blob :: "sync_env \<Rightarrow> rstring option \<Rightarrow> SyncError + bytes option" where
  "decode_blob env v = (case v of
     None \<Rightarrow> Inr None
   | Some raw \<Rightarrow>
       if MAX_BLOB_LEN div 3 * 4 + 4 < str_len raw then Inl SyTooLarge
       else and_then (ok_or (SyProtocol ''blob encoding'') (b64_decode env raw)) (\<lambda>b.
         if MAX_BLOB_LEN < length b then Inl SyTooLarge else Inr (Some b)))"

definition remote_change_from :: "sync_env \<Rightarrow> remote_change_dto \<Rightarrow> SyncError + remote_change" where
  "remote_change_from env d =
     and_then (ensure (\<not> rd_revision d < 0) (SyProtocol ''item revision'')) (\<lambda>_.
     and_then (decode_blob env (rd_overview d)) (\<lambda>overview.
     and_then (decode_blob env (rd_details d)) (\<lambda>details.
     and_then (ensure (\<not> (rd_deleted d \<and> (overview \<noteq> None \<or> details \<noteq> None))) (SyProtocol ''a deletion carrying blobs'')) (\<lambda>_.
     and_then (ensure (\<not> (\<not> rd_deleted d \<and> (overview = None \<or> details = None))) (SyProtocol ''an item missing a blob'')) (\<lambda>_.
     Inr \<lparr>rc_item_id = rd_item_id d, rc_revision = rd_revision d, rc_overview = overview, rc_details = details,
       rc_deleted = rd_deleted d\<rparr>)))))"

definition change_dto_from :: "sync_env \<Rightarrow> staged_write \<Rightarrow> SyncError + change_dto" where
  "change_dto_from env w = (case (sw_overview w, sw_details w) of
     (Some ob, Some db) \<Rightarrow>
       if MAX_BLOB_LEN < length ob \<or> MAX_BLOB_LEN < length db then Inl (SyRefused ''an item is too large to sync'')
       else Inr \<lparr>cd_item_id = sw_item_id w, cd_base_revision = sw_base_revision w, cd_overview = Some (b64_encode env ob),
         cd_details = Some (b64_encode env db), cd_deleted = False, cd_attachment_ids = sw_attachment_ids w\<rparr>
   | (None, None) \<Rightarrow>
       Inr \<lparr>cd_item_id = sw_item_id w, cd_base_revision = sw_base_revision w, cd_overview = None, cd_details = None,
         cd_deleted = True, cd_attachment_ids = None\<rparr>
   | _ \<Rightarrow> Inl (SyProtocol ''malformed staged write''))"

record remote_header =
  rh_bytes :: bytes
  rh_revision :: int
  rh_key_scheme :: int

definition remote_header_from :: "sync_env \<Rightarrow> header_dto \<Rightarrow> SyncError + remote_header" where
  "remote_header_from env d =
     and_then (ok_or (SyProtocol ''header encoding'') (b64_decode env (hx_header d))) (\<lambda>b.
     and_then (ensure (\<not> (b = [] \<or> MAX_HEADER_BYTES < length b)) (SyProtocol ''header size'')) (\<lambda>_.
     and_then (ensure (\<not> hx_header_revision d < 0) (SyProtocol ''header revision'')) (\<lambda>_.
     Inr \<lparr>rh_bytes = b, rh_revision = hx_header_revision d, rh_key_scheme = hx_key_scheme d\<rparr>)))"

definition MAX_MESSAGE_BYTES :: nat where "MAX_MESSAGE_BYTES = 512"

definition pake_message :: "sync_env \<Rightarrow> rstring \<Rightarrow> SyncError + bytes" where
  "pake_message env raw =
     (if raw = [] \<or> (MAX_MESSAGE_BYTES + 2) div 3 * 4 < str_len raw then Inl (SyProtocol ''pake'')
      else ok_or (SyProtocol ''pake'') (b64_decode env raw))"

definition kdf_dto_of :: "sync_env \<Rightarrow> kdf_params \<Rightarrow> kdf_dto" where
  "kdf_dto_of env k = \<lparr>kd_algorithm = str ''argon2id'', kd_memory_kib = memory_kib k, kd_iterations = iterations k,
     kd_parallelism = parallelism k, kd_salt = b64_encode env (salt k)\<rparr>"

definition kdf_params_from :: "sync_env \<Rightarrow> kdf_dto \<Rightarrow> SyncError + kdf_params" where
  "kdf_params_from env d =
     and_then (ensure (kd_algorithm d = str ''argon2id'') (SyProtocol ''unsupported kdf'')) (\<lambda>_.
     and_then (ok_or (SyProtocol ''kdf salt'') (b64_decode env (kd_salt d))) (\<lambda>s.
     and_then (ensure (length s = SALT_LEN) (SyProtocol ''kdf salt'')) (\<lambda>_.
     let params = \<lparr>memory_kib = kd_memory_kib d, iterations = kd_iterations d, parallelism = kd_parallelism d, salt = s\<rparr> in
     and_then (map_err (\<lambda>_. SyProtocol ''kdf parameters out of range'') (validate_kdf params)) (\<lambda>_. Inr params))))"

record plan_info =
  pi_status :: rstring
  pi_entitlement :: Entitlement
  pi_trial_ends_at :: "rstring option"
  pi_period_end :: "rstring option"

definition plan_short :: "rstring \<Rightarrow> rstring" where
  "plan_short s = (if 32 < length s then [] else s)"

definition plan_word :: "rstring option \<Rightarrow> rstring option" where
  "plan_word v = (case map_option plan_short v of Some s \<Rightarrow> if s = [] then None else Some s | None \<Rightarrow> None)"

definition plan_info_from :: "account_dto \<Rightarrow> plan_info" where
  "plan_info_from d = \<lparr>pi_status = plan_short (ad_status d),
     pi_entitlement = (if ad_entitlement d = str ''frozen'' then Frozen else Full),
     pi_trial_ends_at = plan_word (ad_trial_ends_at d), pi_period_end = plan_word (ad_period_end d)\<rparr>"

record client_session =
  cs_token :: rstring
  cs_expires_at :: rstring
  cs_account_id :: uuid
  cs_vault_id :: uuid
  cs_account :: "plan_info option"

definition session_from :: "uuid \<Rightarrow> http_response \<Rightarrow> SyncError + client_session" where
  "session_from account_id r =
     and_then (expect_ok (\<lambda>b. case b of BLogin d \<Rightarrow> Some d | _ \<Rightarrow> None) r) (\<lambda>d.
     and_then (ensure (\<not> (lo_token d = [] \<or> 128 < str_len (lo_token d))) (SyProtocol ''token'')) (\<lambda>_.
     Inr \<lparr>cs_token = lo_token d, cs_expires_at = lo_expires_at d, cs_account_id = account_id,
       cs_vault_id = lo_vault_id d, cs_account = map_option plan_info_from (lo_account d)\<rparr>))"

subsection \<open>The routes of a vault\<close>

definition tok :: "client_session \<Rightarrow> rstring option" where
  "tok ses = Some (cs_token ses)"

definition check_header :: "bytes \<Rightarrow> SyncError + unit" where
  "check_header h = ensure (\<not> (h = [] \<or> MAX_HEADER_BYTES < length h)) (SyRefused ''header is not valid'')"

definition sync_health :: "'s transport \<Rightarrow> 's \<Rightarrow> (SyncError + unit) \<times> 's" where
  "sync_health tr = send tr None CallHealth (\<lambda>r. if hr_status r = 200 then Inr () else Inl SyUnavailable)"

definition sync_logout :: "'s transport \<Rightarrow> client_session \<Rightarrow> 's \<Rightarrow> (SyncError + unit) \<times> 's" where
  "sync_logout tr ses = send tr (tok ses) CallLogout (expect_status [204, 200, 401])"

definition sync_header :: "sync_env \<Rightarrow> 's transport \<Rightarrow> client_session \<Rightarrow> 's \<Rightarrow> (SyncError + remote_header) \<times> 's" where
  "sync_header env tr ses = send tr (tok ses) CallHeader (\<lambda>r.
     and_then (expect_ok (\<lambda>b. case b of BHeader d \<Rightarrow> Some d | _ \<Rightarrow> None) r) (\<lambda>d.
     and_then (remote_header_from env d) (\<lambda>h.
     and_then (ensure (\<not> rh_key_scheme h < KEY_SCHEME) (SyProtocol ''key scheme'')) (\<lambda>_. Inr h))))"

record pulled =
  pu_cursor :: int
  pu_has_more :: bool
  pu_changes :: "remote_change list"
  pu_account :: "plan_info option"

definition pull_answer :: "sync_env \<Rightarrow> http_response \<Rightarrow> SyncError + pulled" where
  "pull_answer env r =
     and_then (expect_ok (\<lambda>b. case b of BPull d \<Rightarrow> Some d | _ \<Rightarrow> None) r) (\<lambda>d.
     and_then (ensure (\<not> pd_cursor d < 0) (SyProtocol ''cursor'')) (\<lambda>_.
     and_then (ensure (\<not> MAX_CHANGES < length (pd_changes d)) (SyProtocol ''page is larger than the protocol allows'')) (\<lambda>_.
     and_then (collect_results (remote_change_from env) (pd_changes d)) (\<lambda>changes.
     Inr \<lparr>pu_cursor = pd_cursor d, pu_has_more = pd_has_more d, pu_changes = changes,
       pu_account = map_option plan_info_from (pd_account d)\<rparr>))))"

definition sync_pull :: "sync_env \<Rightarrow> 's transport \<Rightarrow> client_session \<Rightarrow> int \<Rightarrow> 's \<Rightarrow> (SyncError + pulled) \<times> 's" where
  "sync_pull env tr ses since s =
     (if since < 0 then (Inl (SyRefused ''cursor is not valid''), s)
      else send tr (tok ses) (CallPull since) (pull_answer env) s)"

definition write_answer :: "nat \<Rightarrow> http_response \<Rightarrow> SyncError + int \<times> (uuid \<times> int) list" where
  "write_answer n r =
     (if hr_status r = 409 then
        and_then (parse_body (\<lambda>b. case b of BConflicts cs \<Rightarrow> Some cs | _ \<Rightarrow> None) r) (\<lambda>conflicts.
        if conflicts = [] then Inl (SyProtocol ''a conflict naming no items'') else Inl (SyConflict conflicts))
      else
        and_then (expect_ok (\<lambda>b. case b of BWrite c acks \<Rightarrow> Some (c, acks) | _ \<Rightarrow> None) r) (\<lambda>(c, acks).
        and_then (ensure (length acks = n) (SyProtocol ''the server acknowledged a different batch'')) (\<lambda>_. Inr (c, acks))))"

definition sync_write ::
  "sync_env \<Rightarrow> 's transport \<Rightarrow> client_session \<Rightarrow> staged_write list \<Rightarrow> 's \<Rightarrow> (SyncError + int \<times> (uuid \<times> int) list) \<times> 's" where
  "sync_write env tr ses staged s =
     (if staged = [] then (Inl (SyRefused ''nothing to write''), s)
      else if MAX_CHANGES < length staged then (Inl (SyRefused ''too many changes in one batch''), s)
      else case collect_results (change_dto_from env) staged of
        Inl e \<Rightarrow> (Inl e, s)
      | Inr changes \<Rightarrow> send tr (tok ses) (CallWrite changes) (write_answer (length staged)) s)"

record fetched =
  fe_changes :: "remote_change list"
  fe_unanswered :: "uuid list"

definition fetch_answer :: "sync_env \<Rightarrow> uuid list \<Rightarrow> http_response \<Rightarrow> SyncError + fetched" where
  "fetch_answer env ids r =
     and_then (expect_ok (\<lambda>b. case b of BFetch cs un \<Rightarrow> Some (cs, un) | _ \<Rightarrow> None) r) (\<lambda>(cs, un).
     let named = map rd_item_id cs @ un in
     and_then (ensure (set named \<subseteq> set ids \<and> distinct named) (SyProtocol ''an item that was not asked for'')) (\<lambda>_.
     and_then (collect_results (remote_change_from env) cs) (\<lambda>changes. Inr \<lparr>fe_changes = changes, fe_unanswered = un\<rparr>)))"

definition sync_fetch :: "sync_env \<Rightarrow> 's transport \<Rightarrow> client_session \<Rightarrow> uuid list \<Rightarrow> 's \<Rightarrow> (SyncError + fetched) \<times> 's" where
  "sync_fetch env tr ses ids s =
     (if ids = [] \<or> MAX_CHANGES < length ids then (Inl (SyRefused ''item list is not valid''), s)
      else send tr (tok ses) (CallFetch ids) (fetch_answer env ids) s)"

definition sync_devices :: "'s transport \<Rightarrow> client_session \<Rightarrow> 's \<Rightarrow> (SyncError + device_dto list) \<times> 's" where
  "sync_devices tr ses = send tr (tok ses) CallDevices (expect_ok (\<lambda>b. case b of BDevices ds \<Rightarrow> Some ds | _ \<Rightarrow> None))"

definition sync_revoke_device :: "'s transport \<Rightarrow> client_session \<Rightarrow> uuid \<Rightarrow> 's \<Rightarrow> (SyncError + unit) \<times> 's" where
  "sync_revoke_device tr ses u = send tr (tok ses) (CallRevokeDevice u) (expect_status [200, 204])"

definition sync_put_attachment ::
  "sync_env \<Rightarrow> 's transport \<Rightarrow> client_session \<Rightarrow> uuid \<Rightarrow> uuid \<Rightarrow> bytes \<Rightarrow> 's \<Rightarrow> (SyncError + unit) \<times> 's" where
  "sync_put_attachment env tr ses a item blob =
     send tr (tok ses) (CallPutAttachment a item (b64_encode env blob)) (\<lambda>r.
       if hr_status r = 200 then Inr () else if hr_status r = 404 then Inl SyUnsupported else Inl (error_from r))"

definition sync_get_attachment ::
  "sync_env \<Rightarrow> 's transport \<Rightarrow> client_session \<Rightarrow> uuid \<Rightarrow> 's \<Rightarrow> (SyncError + uuid \<times> bytes) \<times> 's" where
  "sync_get_attachment env tr ses a = send tr (tok ses) (CallGetAttachment a) (\<lambda>r.
     and_then (expect_ok (\<lambda>b. case b of BAttachment item blob \<Rightarrow> Some (item, blob) | _ \<Rightarrow> None) r) (\<lambda>(item, raw).
     and_then (decode_blob env (Some raw)) (\<lambda>b. Inr (item, case b of Some x \<Rightarrow> x | None \<Rightarrow> []))))"

subsection \<open>Signing in\<close>

datatype PakeError = PakeInvalidLogin | PakeMalformed

fun pake_error :: "PakeError \<Rightarrow> SyncError" where
  "pake_error PakeInvalidLogin = SyUnauthorized"
| "pake_error PakeMalformed = SyProtocol ''pake''"

text \<open>The steps of OPAQUE, from the auth key; the state between the two steps is a byte string.\<close>

record pake_env =
  pk_login_start :: "bytes \<Rightarrow> PakeError + bytes \<times> bytes"
  pk_login_finish :: "bytes \<Rightarrow> bytes \<Rightarrow> bytes \<Rightarrow> PakeError + bytes"
  pk_register_start :: "bytes \<Rightarrow> PakeError + bytes \<times> bytes"
  pk_register_finish :: "bytes \<Rightarrow> bytes \<Rightarrow> bytes \<Rightarrow> PakeError + bytes"

text \<open>Two requests in a row: the second is sent only when the first went well.\<close>

definition io_then :: "('s \<Rightarrow> ('e + 'a) \<times> 's) \<Rightarrow> ('a \<Rightarrow> 's \<Rightarrow> ('e + 'b) \<times> 's) \<Rightarrow> 's \<Rightarrow> ('e + 'b) \<times> 's" where
  "io_then m f s = (case m s of (Inl e, s') \<Rightarrow> (Inl e, s') | (Inr x, s') \<Rightarrow> f x s')"

definition io_lift :: "'e + 'a \<Rightarrow> 's \<Rightarrow> ('e + 'a) \<times> 's" where
  "io_lift r s = (r, s)"

definition sync_auth_params :: "sync_env \<Rightarrow> 's transport \<Rightarrow> rstring \<Rightarrow> 's \<Rightarrow> (SyncError + uuid \<times> kdf_params) \<times> 's" where
  "sync_auth_params env tr email = send tr None (CallParams email) (\<lambda>r.
     and_then (expect_ok (\<lambda>b. case b of BParams a k \<Rightarrow> Some (a, k) | _ \<Rightarrow> None) r) (\<lambda>(a, k).
     and_then (kdf_params_from env k) (\<lambda>p. Inr (a, p))))"

definition login_pake ::
  "sync_env \<Rightarrow> pake_env \<Rightarrow> 's transport \<Rightarrow> rstring \<Rightarrow> bytes \<Rightarrow> uuid \<Rightarrow> uuid \<Rightarrow> rstring \<Rightarrow> 's \<Rightarrow> (SyncError + client_session) \<times> 's" where
  "login_pake env pk tr email auth_key account_id device_id device_name =
     io_then (io_lift (map_err pake_error (pk_login_start pk auth_key))) (\<lambda>(st, request).
     io_then (send tr None (CallPakeStart email (b64_encode env request) device_id)
        (expect_ok (\<lambda>b. case b of BPakeStart l c \<Rightarrow> Some (l, c) | _ \<Rightarrow> None))) (\<lambda>(login_id, answer).
     io_then (io_lift (ensure (\<not> (login_id = [] \<or> 64 < str_len login_id)) (SyProtocol ''pake''))) (\<lambda>_.
     io_then (io_lift (pake_message env answer)) (\<lambda>response.
     io_then (io_lift (map_err pake_error (pk_login_finish pk st auth_key response))) (\<lambda>fin.
     send tr None (CallPakeFinish login_id (b64_encode env fin) device_id device_name) (session_from account_id))))))"

definition login_legacy ::
  "sync_env \<Rightarrow> 's transport \<Rightarrow> rstring \<Rightarrow> bytes \<Rightarrow> uuid \<Rightarrow> uuid \<Rightarrow> rstring \<Rightarrow> 's \<Rightarrow> (SyncError + client_session) \<times> 's" where
  "login_legacy env tr email auth_key account_id device_id device_name =
     send tr None (CallLogin email (b64_encode env auth_key) device_id device_name) (session_from account_id)"

definition register_upload ::
  "sync_env \<Rightarrow> pake_env \<Rightarrow> 's transport \<Rightarrow> rstring option \<Rightarrow> call \<Rightarrow> bytes \<Rightarrow> bytes \<Rightarrow> 's \<Rightarrow> (SyncError + rstring) \<times> 's" where
  "register_upload env pk tr token c st auth_key =
     send tr token c (\<lambda>r.
       and_then (expect_ok (\<lambda>b. case b of BRegistration x \<Rightarrow> Some x | _ \<Rightarrow> None) r) (\<lambda>raw.
       and_then (pake_message env raw) (\<lambda>m.
       and_then (map_err pake_error (pk_register_finish pk st auth_key m)) (\<lambda>up. Inr (b64_encode env up)))))"

definition register_in_session ::
  "sync_env \<Rightarrow> pake_env \<Rightarrow> 's transport \<Rightarrow> client_session \<Rightarrow> bytes \<Rightarrow> 's \<Rightarrow> (SyncError + rstring) \<times> 's" where
  "register_in_session env pk tr ses auth_key =
     io_then (io_lift (map_err pake_error (pk_register_start pk auth_key))) (\<lambda>(st, request).
     register_upload env pk tr (tok ses) (CallRegister (b64_encode env request)) st auth_key)"

definition reauth ::
  "sync_env \<Rightarrow> pake_env \<Rightarrow> 's transport \<Rightarrow> client_session \<Rightarrow> bytes \<Rightarrow> 's \<Rightarrow> (SyncError + rstring \<times> rstring) \<times> 's" where
  "reauth env pk tr ses auth_key =
     io_then (io_lift (map_err pake_error (pk_login_start pk auth_key))) (\<lambda>(st, request).
     send tr (tok ses) (CallReauth (b64_encode env request)) (\<lambda>r.
       and_then (expect_ok (\<lambda>b. case b of BReauth i c \<Rightarrow> Some (i, c) | _ \<Rightarrow> None) r) (\<lambda>(reauth_id, answer).
       and_then (ensure (\<not> (reauth_id = [] \<or> 64 < str_len reauth_id)) (SyProtocol ''pake'')) (\<lambda>_.
       and_then (pake_message env answer) (\<lambda>m.
       and_then (map_err pake_error (pk_login_finish pk st auth_key m)) (\<lambda>fin.
       Inr (reauth_id, b64_encode env fin)))))))"

definition enroll ::
  "sync_env \<Rightarrow> pake_env \<Rightarrow> 's transport \<Rightarrow> client_session \<Rightarrow> bytes \<Rightarrow> 's \<Rightarrow> (SyncError + unit) \<times> 's" where
  "enroll env pk tr ses auth_key =
     io_then (register_in_session env pk tr ses auth_key) (\<lambda>up.
     send tr (tok ses) (CallEnroll (b64_encode env auth_key) up) (expect_status [204, 200]))"

definition may_fall_back :: "SyncError \<Rightarrow> bool" where
  "may_fall_back e \<longleftrightarrow> e = SyUnauthorized \<or> e = SyRefused ''not found''"

definition sign_in_with_key ::
  "sync_env \<Rightarrow> pake_env \<Rightarrow> 's transport \<Rightarrow> rstring \<Rightarrow> bytes \<Rightarrow> uuid \<Rightarrow> uuid \<Rightarrow> rstring \<Rightarrow> bool \<Rightarrow> 's \<Rightarrow>
     (SyncError + client_session \<times> bool) \<times> 's" where
  "sign_in_with_key env pk tr email auth_key account_id device_id device_name confirmed s =
     (case login_pake env pk tr email auth_key account_id device_id device_name s of
        (Inr ses, s1) \<Rightarrow> (Inr (ses, True), s1)
      | (Inl e1, s1) \<Rightarrow>
          if confirmed \<or> \<not> may_fall_back e1 then (Inl e1, s1)
          else (case login_legacy env tr email auth_key account_id device_id device_name s1 of
            (Inl e, s2) \<Rightarrow> (Inl (if e = SyRefused ''upgrade required'' then e1 else e), s2)
          | (Inr ses, s2) \<Rightarrow> (case enroll env pk tr ses auth_key s2 of (r, s3) \<Rightarrow> (Inr (ses, is_ok r), s3))))"

subsection \<open>Credentials and activation\<close>

record credential_change =
  cc_current_auth_key :: bytes
  cc_kdf :: kdf_params
  cc_new_auth_key :: bytes
  cc_header :: bytes
  cc_base_header_revision :: int
  cc_pake :: bool

definition credentials_body_of ::
  "sync_env \<Rightarrow> pake_env \<Rightarrow> 's transport \<Rightarrow> client_session \<Rightarrow> credential_change \<Rightarrow> 's \<Rightarrow> (SyncError + credentials_body) \<times> 's" where
  "credentials_body_of env pk tr ses ch =
     (if cc_pake ch then
        io_then (reauth env pk tr ses (cc_current_auth_key ch)) (\<lambda>(reauth_id, fin).
        io_then (register_in_session env pk tr ses (cc_new_auth_key ch)) (\<lambda>up.
        io_lift (Inr \<lparr>cb_current_auth_key = None, cb_reauth_id = Some reauth_id, cb_credential_finalization = Some fin,
          cb_kdf = kdf_dto_of env (cc_kdf ch), cb_new_auth_key = None, cb_registration_upload = Some up,
          cb_header = b64_encode env (cc_header ch), cb_base_header_revision = cc_base_header_revision ch\<rparr>)))
      else io_lift (Inr \<lparr>cb_current_auth_key = Some (b64_encode env (cc_current_auth_key ch)), cb_reauth_id = None,
          cb_credential_finalization = None, cb_kdf = kdf_dto_of env (cc_kdf ch),
          cb_new_auth_key = Some (b64_encode env (cc_new_auth_key ch)), cb_registration_upload = None,
          cb_header = b64_encode env (cc_header ch), cb_base_header_revision = cc_base_header_revision ch\<rparr>))"

text \<open>The revision is an \<open>i64\<close>; the sum in the comparison is taken without a bound.\<close>

definition sync_change_credentials ::
  "sync_env \<Rightarrow> pake_env \<Rightarrow> 's transport \<Rightarrow> client_session \<Rightarrow> credential_change \<Rightarrow> 's \<Rightarrow> (SyncError + int) \<times> 's" where
  "sync_change_credentials env pk tr ses ch =
     io_then (io_lift (check_header (cc_header ch))) (\<lambda>_.
     io_then (io_lift (ensure (\<not> cc_base_header_revision ch < 0) (SyRefused ''header revision is not valid''))) (\<lambda>_.
     io_then (credentials_body_of env pk tr ses ch) (\<lambda>b.
     send tr (tok ses) (CallCredentials b) (\<lambda>r.
       and_then (expect_ok (\<lambda>b. case b of BCredentials n \<Rightarrow> Some n | _ \<Rightarrow> None) r) (\<lambda>n.
       and_then (ensure (n = cc_base_header_revision ch + 1) (SyProtocol ''header revision'')) (\<lambda>_. Inr n))))))"

definition sync_delete_account ::
  "sync_env \<Rightarrow> pake_env \<Rightarrow> 's transport \<Rightarrow> client_session \<Rightarrow> bytes \<Rightarrow> rstring \<Rightarrow> bool \<Rightarrow> 's \<Rightarrow> (SyncError + unit) \<times> 's" where
  "sync_delete_account env pk tr ses auth_key email pake =
     io_then (if pake then
        io_then (reauth env pk tr ses auth_key) (\<lambda>(reauth_id, fin).
        io_lift (Inr \<lparr>db_current_auth_key = None, db_reauth_id = Some reauth_id, db_credential_finalization = Some fin, db_email = email\<rparr>))
      else io_lift (Inr \<lparr>db_current_auth_key = Some (b64_encode env auth_key), db_reauth_id = None,
        db_credential_finalization = None, db_email = email\<rparr>)) (\<lambda>b.
     send tr (tok ses) (CallDeleteAccount b) (expect_status [204, 200]))"

record activation =
  an_email :: rstring
  an_invite :: rstring
  an_kdf :: kdf_params
  an_auth_key :: bytes
  an_vault_id :: uuid
  an_header :: bytes

definition activate_with ::
  "sync_env \<Rightarrow> 's transport \<Rightarrow> activation \<Rightarrow> rstring option \<Rightarrow> rstring option \<Rightarrow> 's \<Rightarrow> (SyncError + uuid \<times> uuid) \<times> 's" where
  "activate_with env tr a key up = send tr None (CallActivate \<lparr>ab_email = an_email a, ab_invite = an_invite a,
       ab_kdf = kdf_dto_of env (an_kdf a), ab_auth_key = key, ab_registration_upload = up, ab_vault_id = an_vault_id a,
       ab_header = b64_encode env (an_header a), ab_key_scheme = KEY_SCHEME\<rparr>)
     (expect_ok (\<lambda>b. case b of BActivated x v \<Rightarrow> Some (x, v) | _ \<Rightarrow> None))"

definition activate_legacy :: "sync_env \<Rightarrow> 's transport \<Rightarrow> activation \<Rightarrow> 's \<Rightarrow> (SyncError + uuid \<times> uuid) \<times> 's" where
  "activate_legacy env tr a =
     io_then (io_lift (check_header (an_header a))) (\<lambda>_.
     activate_with env tr a (Some (b64_encode env (an_auth_key a))) None)"

definition sync_activate :: "sync_env \<Rightarrow> pake_env \<Rightarrow> 's transport \<Rightarrow> activation \<Rightarrow> 's \<Rightarrow> (SyncError + uuid \<times> uuid) \<times> 's" where
  "sync_activate env pk tr a =
     io_then (io_lift (check_header (an_header a))) (\<lambda>_.
     io_then (io_lift (map_err pake_error (pk_register_start pk (an_auth_key a)))) (\<lambda>(st, request) s.
     case register_upload env pk tr None (CallActivateRegister (an_email a) (an_invite a) (b64_encode env request)) st (an_auth_key a) s of
       (Inr up, s1) \<Rightarrow> activate_with env tr a None (Some up) s1
     | (Inl e, s1) \<Rightarrow> if e = SyRefused ''not found'' then activate_legacy env tr a s1 else (Inl e, s1)))"

section \<open>Properties\<close>

subsection \<open>Which requests are sent\<close>

text \<open>A transport that keeps the calls it was asked to send, in order.\<close>

definition recording :: "'s transport \<Rightarrow> (call list \<times> 's) transport" where
  "recording tr t c = (\<lambda>(cs, s). case tr t c s of (r, s') \<Rightarrow> (r, (cs @ [c], s')))"

text \<open>The requests that carry an auth key itself.\<close>

fun carries_key :: "call \<Rightarrow> bool" where
  "carries_key (CallLogin _ _ _ _) = True"
| "carries_key (CallEnroll _ _) = True"
| "carries_key (CallActivate b) = (ab_auth_key b \<noteq> None)"
| "carries_key (CallCredentials b) = (cb_current_auth_key b \<noteq> None \<or> cb_new_auth_key b \<noteq> None)"
| "carries_key (CallDeleteAccount b) = (db_current_auth_key b \<noteq> None)"
| "carries_key _ = False"

definition stays :: "(call \<Rightarrow> bool) \<Rightarrow> (call list \<times> 's \<Rightarrow> 'r \<times> call list \<times> 's) \<Rightarrow> bool" where
  "stays P m \<longleftrightarrow> (\<forall>cs s. list_all P cs \<longrightarrow> list_all P (fst (snd (m (cs, s)))))"

lemma staysD: "stays P m \<Longrightarrow> m (cs, s) = (r, cs', s') \<Longrightarrow> list_all P cs \<Longrightarrow> list_all P cs'"
  unfolding stays_def by (metis fst_conv snd_conv)

lemma stays_lift [intro]: "stays P (io_lift r)"
  by (simp add: stays_def io_lift_def)

lemma stays_send [intro]: "P c \<Longrightarrow> stays P (send (recording tr) t c k)"
  by (auto simp: stays_def send_def recording_def split: prod.splits)

lemma stays_then [intro]: "stays P m \<Longrightarrow> (\<And>x. stays P (f x)) \<Longrightarrow> stays P (io_then m f)"
  unfolding stays_def io_then_def by (auto split: prod.splits sum.splits) (metis fst_conv snd_conv)+

lemma stays_if [intro]: "(b \<Longrightarrow> stays P m) \<Longrightarrow> (\<not> b \<Longrightarrow> stays P n) \<Longrightarrow> stays P (if b then m else n)"
  by simp

lemma stays_case_prod [intro]: "(\<And>a b. x = (a, b) \<Longrightarrow> stays P (f a b)) \<Longrightarrow> stays P (case x of (a, b) \<Rightarrow> f a b)"
  by (cases x) simp

lemma login_pake_keyless: "stays (\<lambda>c. \<not> carries_key c) (login_pake env pk (recording tr) email k a d n)"
  unfolding login_pake_def by (intro stays_then stays_lift stays_case_prod stays_send) auto

lemma reauth_keyless: "stays (\<lambda>c. \<not> carries_key c) (reauth env pk (recording tr) ses k)"
  unfolding reauth_def by (intro stays_then stays_lift stays_case_prod stays_send) auto

lemma register_keyless: "stays (\<lambda>c. \<not> carries_key c) (register_in_session env pk (recording tr) ses k)"
  unfolding register_in_session_def register_upload_def by (intro stays_then stays_lift stays_case_prod stays_send) auto

lemma then_eq:
  "io_then m f s = (r, s') \<longleftrightarrow> (\<exists>e s1. m s = (Inl e, s1) \<and> r = Inl e \<and> s' = s1) \<or> (\<exists>x s1. m s = (Inr x, s1) \<and> f x s1 = (r, s'))"
  by (auto simp: io_then_def split: prod.splits sum.splits)

lemma change_credentials_keyless:
  assumes "cc_pake ch"
  shows "stays (\<lambda>c. \<not> carries_key c) (sync_change_credentials env pk (recording tr) ses ch)"
  unfolding stays_def
proof (intro allI impI)
  fix cs :: "call list" and s
  assume cs: "list_all (\<lambda>c. \<not> carries_key c) cs"
  obtain r cs' s' where m: "sync_change_credentials env pk (recording tr) ses ch (cs, s) = (r, cs', s')" by (metis prod_cases3)
  obtain rb cb sb where b: "credentials_body_of env pk (recording tr) ses ch (cs, s) = (rb, cb, sb)" by (metis prod_cases3)
  have "stays (\<lambda>c. \<not> carries_key c) (credentials_body_of env pk (recording tr) ses ch)"
    using assms unfolding credentials_body_of_def
    by (auto intro!: stays_then reauth_keyless register_keyless stays_case_prod stays_lift)
  from staysD [OF this b cs] have cb: "list_all (\<lambda>c. \<not> carries_key c) cb" .
  have nb: "\<not> carries_key (CallCredentials x)" if "rb = Inr x" for x
    using b assms that unfolding credentials_body_of_def by (auto simp: then_eq io_lift_def split: prod.splits)
  have "list_all (\<lambda>c. \<not> carries_key c) cs'"
    using m cs cb nb b unfolding sync_change_credentials_def
    by (auto simp: then_eq io_lift_def send_def recording_def case_prod_beta)
  then show "list_all (\<lambda>c. \<not> carries_key c) (fst (snd (sync_change_credentials env pk (recording tr) ses ch (cs, s))))"
    using m by simp
qed

lemma delete_account_keyless: "stays (\<lambda>c. \<not> carries_key c) (sync_delete_account env pk (recording tr) ses k email True)"
  unfolding stays_def
proof (intro allI impI)
  fix cs :: "call list" and s
  assume cs: "list_all (\<lambda>c. \<not> carries_key c) cs"
  obtain rb cb sb where b: "reauth env pk (recording tr) ses k (cs, s) = (rb, cb, sb)" by (metis prod_cases3)
  have "list_all (\<lambda>c. \<not> carries_key c) cb" using staysD [OF reauth_keyless b cs] .
  then show "list_all (\<lambda>c. \<not> carries_key c) (fst (snd (sync_delete_account env pk (recording tr) ses k email True (cs, s))))"
    using b by (auto simp: sync_delete_account_def io_then_def io_lift_def send_def recording_def split: prod.splits sum.splits)
qed

subsection \<open>What an accepted answer looks like\<close>

definition remote_ok :: "remote_change \<Rightarrow> bool" where
  "remote_ok c \<longleftrightarrow> 0 \<le> rc_revision c \<and> (rc_deleted c \<longleftrightarrow> rc_overview c = None) \<and> (rc_overview c = None \<longleftrightarrow> rc_details c = None) \<and>
     (\<forall>b. rc_overview c = Some b \<or> rc_details c = Some b \<longrightarrow> length b \<le> MAX_BLOB_LEN)"

lemma decode_blob_Inr:
  "decode_blob env v = Inr b \<longleftrightarrow> (case v of None \<Rightarrow> b = None
     | Some raw \<Rightarrow> str_len raw \<le> MAX_BLOB_LEN div 3 * 4 + 4 \<and> (\<exists>x. b64_decode env raw = Some x \<and> length x \<le> MAX_BLOB_LEN \<and> b = Some x))"
  by (auto simp: decode_blob_def result_simps not_less split: option.splits if_splits)

lemma remote_change_from_ok: "remote_change_from env d = Inr c \<Longrightarrow> remote_ok c \<and> rc_item_id c = rd_item_id d"
  unfolding remote_change_from_def and_then_Inr_iff ensure_Inr_iff decode_blob_Inr
  by (auto simp: remote_ok_def split: option.splits)

lemma send_Inr: "send tr t c k s = (Inr x, s') \<longleftrightarrow> (\<exists>r. tr t c s = (Inr r, s') \<and> k r = Inr x)"
  by (auto simp: send_def result_simps split: prod.splits)

lemma collected_ids: "collect_results (remote_change_from env) ds = Inr cs \<Longrightarrow> map rc_item_id cs = map rd_item_id ds \<and> list_all remote_ok cs"
proof (induction ds arbitrary: cs)
  case (Cons d ds)
  then obtain c cs' where c: "remote_change_from env d = Inr c" "collect_results (remote_change_from env) ds = Inr cs'" "cs = c # cs'"
    by (auto simp: result_simps)
  then show ?case using Cons.IH [OF c(2)] remote_change_from_ok [OF c(1)] by simp
qed simp

lemma pull_answer_ok:
  assumes "pull_answer env r = Inr p"
  shows "0 \<le> pu_cursor p \<and> length (pu_changes p) \<le> MAX_CHANGES \<and> list_all remote_ok (pu_changes p)"
proof -
  obtain d where d: "hr_body r = BPull d" "\<not> pd_cursor d < 0" "\<not> MAX_CHANGES < length (pd_changes d)"
      "collect_results (remote_change_from env) (pd_changes d) = Inr (pu_changes p)" "pu_cursor p = pd_cursor d"
    using assms by (auto simp: pull_answer_def expect_ok_def parse_body_def result_simps split: if_splits body.splits)
  then show ?thesis using collected_ids [OF d(4)] collect_results_length [OF d(4)] by simp
qed

lemma sync_pull_ok:
  "sync_pull env tr ses since s = (Inr p, s') \<Longrightarrow>
     0 \<le> pu_cursor p \<and> length (pu_changes p) \<le> MAX_CHANGES \<and> list_all remote_ok (pu_changes p)"
  by (auto simp: sync_pull_def send_Inr dest!: pull_answer_ok split: if_splits)

lemma fetch_answer_ok:
  assumes "fetch_answer env ids r = Inr f"
  shows "set (map rc_item_id (fe_changes f) @ fe_unanswered f) \<subseteq> set ids \<and> distinct (map rc_item_id (fe_changes f) @ fe_unanswered f) \<and>
    list_all remote_ok (fe_changes f)"
proof -
  obtain cs un where d: "set (map rd_item_id cs @ un) \<subseteq> set ids" "distinct (map rd_item_id cs @ un)"
      "collect_results (remote_change_from env) cs = Inr (fe_changes f)" "fe_unanswered f = un"
    using assms by (auto simp: fetch_answer_def expect_ok_def parse_body_def result_simps Let_def split: if_splits body.splits)
  have "map rc_item_id (fe_changes f) = map rd_item_id cs" "list_all remote_ok (fe_changes f)" using collected_ids [OF d(3)] by simp_all
  then show ?thesis using d by simp
qed

lemma sync_fetch_ok:
  "sync_fetch env tr ses ids s = (Inr f, s') \<Longrightarrow>
     set (map rc_item_id (fe_changes f) @ fe_unanswered f) \<subseteq> set ids \<and> distinct (map rc_item_id (fe_changes f) @ fe_unanswered f) \<and>
     list_all remote_ok (fe_changes f)"
  by (auto simp only: sync_fetch_def send_Inr if_splits prod.inject sum.simps dest!: fetch_answer_ok split: if_splits)

section \<open>A transport for the witnesses\<close>

definition toy_pake :: pake_env where
  "toy_pake = \<lparr>pk_login_start = (\<lambda>k. Inr ([0], [1])), pk_login_finish = (\<lambda>st k m. Inr [2]),
     pk_register_start = (\<lambda>k. Inr ([0], [3])), pk_register_finish = (\<lambda>st k m. Inr [4])\<rparr>"

text \<open>A server from before OPAQUE: it has none of its routes.\<close>

definition old_server :: "unit transport" where
  "old_server t c s = (Inr (case c of
     CallLogin _ _ _ _ \<Rightarrow> \<lparr>hr_status = 200, hr_said = None, hr_body = BLogin \<lparr>lo_token = [65], lo_expires_at = [], lo_vault_id = 5, lo_account = None\<rparr>\<rparr>
   | _ \<Rightarrow> \<lparr>hr_status = 404, hr_said = None, hr_body = BOther\<rparr>), s)"

definition toy_answers :: "unit transport" where
  "toy_answers t c s = (Inr (case c of
     CallPull _ \<Rightarrow> \<lparr>hr_status = 200, hr_said = None, hr_body = BPull \<lparr>pd_cursor = 4, pd_has_more = False,
       pd_changes = [\<lparr>rd_item_id = 7, rd_revision = 4, rd_overview = None, rd_details = None, rd_deleted = True\<rparr>], pd_account = None\<rparr>\<rparr>
   | _ \<Rightarrow> \<lparr>hr_status = 200, hr_said = None, hr_body = BFetch [] [7]\<rparr>), s)"

section \<open>Claims\<close>



text \<open>
  C30. Whatever a server sends, what gets past the checks has the shape the core relies on. A page that is
  accepted has a cursor at or above zero and at most 500 changes; an answer to a fetch names only
  items that were asked for, none twice and none both answered and unanswered. Every change in either
  has a revision at or above zero, is either a deletion without blobs or an item with both, and no
  blob is over the limit.
\<close>

theorem accepted_answers_typed:
  assumes "sync_pull env tr ses since s = (Inr p, s1)" and "sync_fetch env tr ses ids s = (Inr f, s2)"
  shows "0 \<le> since \<and> 0 \<le> pu_cursor p \<and> length (pu_changes p) \<le> 500 \<and> length ids \<le> 500 \<and>
    list_all (\<lambda>c. 0 \<le> rc_revision c \<and> (rc_deleted c \<longleftrightarrow> rc_overview c = None) \<and> (rc_overview c = None \<longleftrightarrow> rc_details c = None) \<and>
      (\<forall>b. rc_overview c = Some b \<or> rc_details c = Some b \<longrightarrow> length b \<le> 8 * 1024 * 1024)) (pu_changes p @ fe_changes f) \<and>
    set (map rc_item_id (fe_changes f) @ fe_unanswered f) \<subseteq> set ids \<and> distinct (map rc_item_id (fe_changes f) @ fe_unanswered f)"
proof -
  have "0 \<le> since" using assms(1) by (auto simp: sync_pull_def split: if_splits)
  moreover have "length ids \<le> MAX_CHANGES" using assms(2) by (auto simp: sync_fetch_def split: if_splits)
  moreover have "list_all remote_ok (pu_changes p @ fe_changes f)" using sync_pull_ok [OF assms(1)] sync_fetch_ok [OF assms(2)] by simp
  ultimately show ?thesis
    using sync_pull_ok [OF assms(1)] sync_fetch_ok [OF assms(2)]
    by (auto simp: list_all_iff remote_ok_def MAX_CHANGES_def MAX_BLOB_LEN_def)
qed

lemma accepted_answers_typed_witness:
  "\<exists>f p g. sync_pull (toy_sync f) toy_answers \<lparr>cs_token = [65], cs_expires_at = [], cs_account_id = 1, cs_vault_id = 5, cs_account = None\<rparr> 0 ()
     = (Inr p, ()) \<and> pu_cursor p = 4 \<and>
     sync_fetch (toy_sync f) toy_answers \<lparr>cs_token = [65], cs_expires_at = [], cs_account_id = 1, cs_vault_id = 5, cs_account = None\<rparr> [7] () = (Inr g, ()) \<and>
     list_all (\<lambda>c. rc_deleted c \<longleftrightarrow> rc_overview c = None) (pu_changes p @ fe_changes g)"
proof -
  fix f
  let ?ses = "\<lparr>cs_token = [65], cs_expires_at = [], cs_account_id = 1, cs_vault_id = 5, cs_account = None\<rparr> :: client_session"
  obtain p where p: "sync_pull (toy_sync f) toy_answers ?ses 0 () = (Inr p, ())" "pu_cursor p = 4"
    by (simp add: sync_pull_def send_def toy_answers_def pull_answer_def expect_ok_def parse_body_def MAX_CHANGES_def
      remote_change_from_def decode_blob_def)
  obtain g where g: "sync_fetch (toy_sync f) toy_answers ?ses [7] () = (Inr g, ())"
    by (simp add: sync_fetch_def send_def toy_answers_def fetch_answer_def expect_ok_def parse_body_def MAX_CHANGES_def)
  have "list_all (\<lambda>c. rc_deleted c \<longleftrightarrow> rc_overview c = None) (pu_changes p @ fe_changes g)"
    using accepted_answers_typed [OF p(1) g] by (auto simp: list_all_iff)
  then show ?thesis using p g by blast
qed

end
