(* ===== verification/Billing.thy ===== *)
theory Billing
  imports Prelude
begin

text \<open>
  The server's errors, size limits and plans (\<^verbatim>\<open>havenkeys-server/src/error.rs\<close>, \<^verbatim>\<open>limits.rs\<close>,
  \<^verbatim>\<open>billing/mod.rs\<close>). Times are milliseconds; the clock is an argument.
\<close>

section \<open>Model\<close>

subsection \<open>Errors\<close>

datatype ApiError =
  ApiUnauthorized | ApiNotFound | ApiConflict | ApiInvalidRequest string | TooLarge | VaultFull | AttachmentsFull
| RateLimited | AccountDeleted | AccountFrozen | Unavailable | UpgradeRequired | ApiInternal

fun parts :: "ApiError \<Rightarrow> nat \<times> string \<times> string" where
  "parts ApiUnauthorized = (401, ''unauthorized'', ''Authentication failed.'')"
| "parts ApiNotFound = (404, ''not_found'', ''Not found.'')"
| "parts ApiConflict = (409, ''conflict'', ''The stored revision has moved on.'')"
| "parts (ApiInvalidRequest m) = (400, ''invalid_request'', m)"
| "parts TooLarge = (413, ''too_large'', ''Request is too large.'')"
| "parts VaultFull = (413, ''vault_full'', ''This vault has reached its storage limit.'')"
| "parts AttachmentsFull = (413, ''attachments_full'', ''This vault has reached its attachment storage limit.'')"
| "parts RateLimited = (429, ''rate_limited'', ''Too many attempts. Try again later.'')"
| "parts AccountDeleted = (410, ''account_deleted'', ''This account was deleted.'')"
| "parts AccountFrozen = (402, ''account_frozen'',
     ''This account is frozen: the trial ended or payment lapsed. Reading and export still work.'')"
| "parts Unavailable = (503, ''unavailable'', ''The server is busy. Try again shortly.'')"
| "parts UpgradeRequired = (426, ''upgrade_required'', ''Update HavenKeys to sign in.'')"
| "parts ApiInternal = (500, ''internal'', ''Internal error.'')"

subsection \<open>Plans\<close>

definition TRIAL_DAYS :: int where "TRIAL_DAYS = 14"
definition GRACE_DAYS :: int where "GRACE_DAYS = 7"

datatype Status = Trialing | Active | PastDue | StatusFrozen | Complimentary

fun status_as_str :: "Status \<Rightarrow> string" where
  "status_as_str Trialing = ''trialing''"
| "status_as_str Active = ''active''"
| "status_as_str PastDue = ''past_due''"
| "status_as_str StatusFrozen = ''frozen''"
| "status_as_str Complimentary = ''complimentary''"

definition status_parse :: "string \<Rightarrow> Status option" where
  "status_parse s =
     (if s = ''trialing'' then Some Trialing else if s = ''active'' then Some Active
      else if s = ''past_due'' then Some PastDue else if s = ''frozen'' then Some StatusFrozen
      else if s = ''complimentary'' then Some Complimentary else None)"

record subscription =
  sub_status :: Status
  sub_trial_ends_at :: "int option"
  sub_current_period_end :: "int option"
  sub_grace_ends_at :: "int option"

datatype PlanEntitlement = PlanFull | PlanFrozen

fun plan_as_str :: "PlanEntitlement \<Rightarrow> string" where
  "plan_as_str PlanFull = ''full''"
| "plan_as_str PlanFrozen = ''frozen''"

definition ended :: "int option \<Rightarrow> int \<Rightarrow> bool" where
  "ended at now = (case at of Some t \<Rightarrow> t \<le> now | None \<Rightarrow> False)"

definition entitlement :: "subscription \<Rightarrow> int \<Rightarrow> PlanEntitlement" where
  "entitlement sub now = (case sub_status sub of
     Complimentary \<Rightarrow> PlanFull
   | Active \<Rightarrow> if ended (sub_current_period_end sub) now then PlanFrozen else PlanFull
   | Trialing \<Rightarrow> if ended (sub_trial_ends_at sub) now then PlanFrozen else PlanFull
   | PastDue \<Rightarrow> if sub_grace_ends_at sub \<noteq> None \<and> \<not> ended (sub_grace_ends_at sub) now then PlanFull else PlanFrozen
   | StatusFrozen \<Rightarrow> PlanFrozen)"

definition entitlement_of :: "subscription option \<Rightarrow> int \<Rightarrow> PlanEntitlement" where
  "entitlement_of sub now = (case sub of None \<Rightarrow> PlanFull | Some s \<Rightarrow> entitlement s now)"

text \<open>A row of the plan table: the status column is text, and NULL when a join found no row.\<close>

record plan_row =
  pr_status :: "string option"
  pr_trial_ends_at :: "int option"
  pr_current_period_end :: "int option"
  pr_grace_ends_at :: "int option"

definition from_row :: "plan_row \<Rightarrow> subscription option" where
  "from_row r = (case pr_status r of None \<Rightarrow> None | Some t \<Rightarrow> (case status_parse t of None \<Rightarrow> None | Some st \<Rightarrow>
     Some \<lparr>sub_status = st, sub_trial_ends_at = pr_trial_ends_at r, sub_current_period_end = pr_current_period_end r,
       sub_grace_ends_at = pr_grace_ends_at r\<rparr>))"

datatype Actor = ActorAdmin | ActorSystem | ActorProvider

record billing_event =
  be_account :: uuid
  be_old_status :: "string option"
  be_new_status :: string
  be_actor :: Actor
  be_reason :: string

record billing_db =
  bd_rows :: "(uuid, plan_row) table"
  bd_events :: "billing_event list"

definition load_subscription :: "uuid \<Rightarrow> billing_db \<Rightarrow> subscription option" where
  "load_subscription a db = (case get (bd_rows db) a of None \<Rightarrow> None | Some r \<Rightarrow> from_row r)"

definition set_status :: "uuid \<Rightarrow> Actor \<Rightarrow> Status \<Rightarrow> int option \<Rightarrow> string \<Rightarrow> billing_db \<Rightarrow> billing_db" where
  "set_status a actor st until reason db =
     (let old = (case get (bd_rows db) a of None \<Rightarrow> None | Some r \<Rightarrow> pr_status r);
          r = \<lparr>pr_status = Some (status_as_str st),
               pr_trial_ends_at = (if st = Trialing then until else None),
               pr_current_period_end = (if st = Active then until else None),
               pr_grace_ends_at = (if st = PastDue then until else None)\<rparr>
      in \<lparr>bd_rows = put a r (bd_rows db),
          bd_events = bd_events db @ [\<lparr>be_account = a, be_old_status = old, be_new_status = status_as_str st,
            be_actor = actor, be_reason = reason\<rparr>]\<rparr>)"

definition billing_note :: "uuid \<Rightarrow> string \<Rightarrow> billing_db \<Rightarrow> billing_db" where
  "billing_note a reason db = (case get (bd_rows db) a of
     None \<Rightarrow> db
   | Some r \<Rightarrow> (case pr_status r of None \<Rightarrow> db | Some st \<Rightarrow>
       db\<lparr>bd_events := bd_events db @ [\<lparr>be_account = a, be_old_status = Some st, be_new_status = st,
         be_actor = ActorSystem, be_reason = reason\<rparr>]\<rparr>))"

record account_info =
  ai_status :: string
  ai_entitlement :: PlanEntitlement
  ai_trial_ends_at :: "int option"
  ai_period_end :: "int option"

definition account_json :: "subscription option \<Rightarrow> int \<Rightarrow> account_info" where
  "account_json sub now = \<lparr>
     ai_status = status_as_str (case sub of None \<Rightarrow> Complimentary | Some s \<Rightarrow> sub_status s),
     ai_entitlement = entitlement_of sub now,
     ai_trial_ends_at = (case sub of None \<Rightarrow> None | Some s \<Rightarrow> sub_trial_ends_at s),
     ai_period_end = (case sub of None \<Rightarrow> None | Some s \<Rightarrow> sub_current_period_end s)\<rparr>"

section \<open>Properties\<close>

lemma status_roundtrip [simp]: "status_parse (status_as_str st) = Some st"
  by (cases st) (simp_all add: status_parse_def)

lemma status_parse_iff: "status_parse s = Some st \<longleftrightarrow> s = status_as_str st"
  by (cases st) (auto simp: status_parse_def)

text \<open>Time only takes the entitlement away.\<close>

lemma ended_mono: "ended at now \<Longrightarrow> now \<le> later \<Longrightarrow> ended at later"
  by (auto simp: ended_def split: option.splits)

lemma frozen_stays:
  assumes "entitlement_of sub now = PlanFrozen" and "now \<le> later"
  shows "entitlement_of sub later = PlanFrozen"
  using assms ended_mono [of _ now later]
  by (auto simp: entitlement_of_def entitlement_def split: option.splits Status.splits if_splits)

lemma load_set_status:
  "load_subscription b (set_status a actor st until reason db) =
     (if b = a then Some \<lparr>sub_status = st, sub_trial_ends_at = (if st = Trialing then until else None),
        sub_current_period_end = (if st = Active then until else None),
        sub_grace_ends_at = (if st = PastDue then until else None)\<rparr>
      else load_subscription b db)"
  by (simp add: load_subscription_def set_status_def Let_def from_row_def)

text \<open>
  A plan ends when its date arrives. After \<open>set_status\<close> with an end date, the account may write
  exactly when the plan is complimentary, or is active, on trial or past due and its date has not
  arrived (a plan past due without a date never may; an active one or a trial without a date always
  may); once frozen by time it stays frozen until the next change; other accounts keep their plans;
  and the change leaves one line in the audit trail with the status before and after.
\<close>

theorem set_status_effect:
  "entitlement_of (load_subscription a (set_status a actor st until reason db)) now = (case st of
      Complimentary \<Rightarrow> PlanFull | StatusFrozen \<Rightarrow> PlanFrozen
    | PastDue \<Rightarrow> (case until of Some t \<Rightarrow> if now < t then PlanFull else PlanFrozen | None \<Rightarrow> PlanFrozen)
    | _ \<Rightarrow> (case until of Some t \<Rightarrow> if now < t then PlanFull else PlanFrozen | None \<Rightarrow> PlanFull)) \<and>
   (load_subscription b (set_status a actor st until reason db) = (if b = a
      then load_subscription a (set_status a actor st until reason db) else load_subscription b db)) \<and>
   (entitlement_of sub now = PlanFrozen \<longrightarrow> now \<le> later \<longrightarrow> entitlement_of sub later = PlanFrozen) \<and>
   bd_events (set_status a actor st until reason db) = bd_events db @ [\<lparr>be_account = a,
      be_old_status = (case get (bd_rows db) a of None \<Rightarrow> None | Some r \<Rightarrow> pr_status r),
      be_new_status = status_as_str st, be_actor = actor, be_reason = reason\<rparr>]"
proof (intro conjI impI)
  show "entitlement_of (load_subscription a (set_status a actor st until reason db)) now = (case st of
      Complimentary \<Rightarrow> PlanFull | StatusFrozen \<Rightarrow> PlanFrozen
    | PastDue \<Rightarrow> (case until of Some t \<Rightarrow> if now < t then PlanFull else PlanFrozen | None \<Rightarrow> PlanFrozen)
    | _ \<Rightarrow> (case until of Some t \<Rightarrow> if now < t then PlanFull else PlanFrozen | None \<Rightarrow> PlanFull))"
    by (cases st; cases until) (simp_all add: load_set_status entitlement_of_def entitlement_def ended_def not_le)
  show "bd_events (set_status a actor st until reason db) = bd_events db @ [\<lparr>be_account = a,
      be_old_status = (case get (bd_rows db) a of None \<Rightarrow> None | Some r \<Rightarrow> pr_status r),
      be_new_status = status_as_str st, be_actor = actor, be_reason = reason\<rparr>]"
    by (simp add: set_status_def Let_def)
qed (simp_all add: load_set_status frozen_stays)

lemma set_status_effect_witness:
  "entitlement_of (Some \<lparr>sub_status = Trialing, sub_trial_ends_at = Some 5, sub_current_period_end = None, sub_grace_ends_at = None\<rparr>) 9 = PlanFrozen"
  using set_status_effect [where sub = "Some \<lparr>sub_status = Trialing, sub_trial_ends_at = Some 5, sub_current_period_end = None,
    sub_grace_ends_at = None\<rparr>" and now = 5 and later = 9]
  by (simp add: entitlement_of_def entitlement_def ended_def)

end
