(* ===== verification/Server.thy ===== *)
theory Server
  imports Billing "HOL-Library.Product_Lexorder"
begin

text \<open>
  The server's side of a vault (\<^verbatim>\<open>havenkeys-server/src/routes/items.rs\<close>, \<^verbatim>\<open>routes/sync.rs\<close>,
  \<^verbatim>\<open>routes/attachments.rs\<close>, \<^verbatim>\<open>routes/vault.rs\<close>): the rows of one vault, the batch write with its
  conflict check, the pull by pages, the fetch by identifier and the attachments. A transaction is a
  function from the rows to an error or the new rows; a handler that runs several statements
  outside a transaction takes the rows as each statement sees them.

  The size of the vault a server accepts (\<^verbatim>\<open>AppState.max_vault_bytes\<close>) is an argument.
\<close>

section \<open>Model\<close>

subsection \<open>Limits and rows\<close>

definition MAX_ATTACHMENT_BLOB_BYTES :: nat where "MAX_ATTACHMENT_BLOB_BYTES = 5 * 1024 * 1024 + 4096"
definition MAX_ATTACHMENTS_PER_ITEM_srv :: nat where "MAX_ATTACHMENTS_PER_ITEM_srv = 20"
definition MAX_ATTACHMENT_VAULT_BYTES :: int where "MAX_ATTACHMENT_VAULT_BYTES = 192 * 1024 * 1024"
definition MAX_CHANGES_PER_BATCH :: nat where "MAX_CHANGES_PER_BATCH = 500"
definition MAX_PULL_PAGE :: nat where "MAX_PULL_PAGE = 500"
definition MAX_PAGE_BYTES :: nat where "MAX_PAGE_BYTES = 12 * 1024 * 1024"

record item_row =
  ir_overview :: "bytes option"
  ir_details :: "bytes option"
  ir_deleted :: bool
  ir_revision :: int

record attachment_row =
  ar_item_id :: uuid
  ar_blob :: bytes
  ar_committed :: bool

record vault_row =
  vr_revision :: int
  vr_header :: bytes
  vr_header_revision :: int
  vr_key_scheme :: int
  vr_items :: "(uuid, item_row) table"
  vr_attachments :: "(uuid, attachment_row) table"

type_synonym database = "uuid \<Rightarrow> vault_row option"

record server_session =
  ses_account_id :: uuid
  ses_device_id :: uuid
  ses_vault_id :: uuid
  ses_subscription :: "subscription option"
  ses_entitlement :: PlanEntitlement

definition require_full :: "server_session \<Rightarrow> ApiError + unit" where
  "require_full ses = (case ses_entitlement ses of PlanFull \<Rightarrow> Inr () | PlanFrozen \<Rightarrow> Inl AccountFrozen)"

subsection \<open>Writing a batch\<close>

record change =
  ch_item_id :: uuid
  ch_base_revision :: "int option"
  ch_overview :: "bytes option"
  ch_details :: "bytes option"
  ch_deleted :: bool
  ch_attachment_ids :: "uuid list option"

definition attachment_ids_valid :: "change \<Rightarrow> bool" where
  "attachment_ids_valid c = (case ch_attachment_ids c of
     None \<Rightarrow> True
   | Some ids \<Rightarrow> \<not> ch_deleted c \<and> length ids \<le> MAX_ATTACHMENTS_PER_ITEM_srv \<and> card (set ids) = length ids)"

definition check_change :: "change \<Rightarrow> ApiError + unit" where
  "check_change c =
     (let well_formed = (if ch_deleted c then ch_overview c = None \<and> ch_details c = None
                         else ch_overview c \<noteq> None \<and> ch_details c \<noteq> None)
      in ensure (well_formed \<and> attachment_ids_valid c) (ApiInvalidRequest ''change is not valid''))"

fun check_each :: "change list \<Rightarrow> uuid list \<Rightarrow> ApiError + unit" where
  "check_each [] seen = Inr ()"
| "check_each (c # cs) seen =
     and_then (check_change c) (\<lambda>_.
     if ch_item_id c \<in> set seen then Inl (ApiInvalidRequest ''an item appears twice in one batch'')
     else check_each cs (ch_item_id c # seen))"

definition check_batch :: "change list \<Rightarrow> ApiError + unit" where
  "check_batch changes =
     (if changes = [] then Inl (ApiInvalidRequest ''changes is empty'')
      else if MAX_CHANGES_PER_BATCH < length changes then Inl (ApiInvalidRequest ''too many changes in one batch'')
      else check_each changes [])"

definition conflict_of :: "(uuid, item_row) table \<Rightarrow> change \<Rightarrow> (uuid \<times> int option) option" where
  "conflict_of stored c = (case get stored (ch_item_id c) of
     Some r \<Rightarrow> if ch_base_revision c \<noteq> Some (ir_revision r) \<or> ir_deleted r \<and> ch_deleted c
       then Some (ch_item_id c, Some (ir_revision r)) else None
   | None \<Rightarrow> if ch_base_revision c \<noteq> None then Some (ch_item_id c, None) else None)"

definition find_conflicts :: "change list \<Rightarrow> (uuid, item_row) table \<Rightarrow> (uuid \<times> int option) list" where
  "find_conflicts changes stored = List.map_filter (conflict_of stored) changes"

definition apply_attachments :: "change \<Rightarrow> vault_row \<Rightarrow> ApiError + vault_row" where
  "apply_attachments c v =
     (if \<not> ch_deleted c \<and> ch_attachment_ids c = None then Inr v
      else
        let listed = (if ch_deleted c then [] else the (ch_attachment_ids c));
            known = length (filter (\<lambda>(a, r). ar_item_id r = ch_item_id c \<and> a \<in> set listed) (vr_attachments v))
        in if known \<noteq> length listed then Inl (ApiInvalidRequest ''unknown attachment'')
           else Inr (v\<lparr>vr_attachments :=
             map (\<lambda>(a, r). (a, if ar_item_id r = ch_item_id c then r\<lparr>ar_committed := True\<rparr> else r))
               (filter (\<lambda>(a, r). \<not> (ar_item_id r = ch_item_id c \<and> a \<notin> set listed)) (vr_attachments v))\<rparr>))"

definition apply_change :: "change \<Rightarrow> int \<Rightarrow> vault_row \<Rightarrow> ApiError + vault_row" where
  "apply_change c rv v =
     (let r = (if ch_deleted c then \<lparr>ir_overview = None, ir_details = None, ir_deleted = True, ir_revision = rv\<rparr>
               else \<lparr>ir_overview = ch_overview c, ir_details = ch_details c, ir_deleted = False, ir_revision = rv\<rparr>)
      in apply_attachments c (v\<lparr>vr_items := put (ch_item_id c) r (vr_items v)\<rparr>))"

fun apply_batch :: "change list \<Rightarrow> int \<Rightarrow> vault_row \<Rightarrow> ApiError + vault_row" where
  "apply_batch [] rv v = Inr v"
| "apply_batch (c # cs) rv v = and_then (apply_change c rv v) (apply_batch cs rv)"

definition blob_len :: "bytes option \<Rightarrow> nat" where
  "blob_len b = (case b of Some x \<Rightarrow> length x | None \<Rightarrow> 0)"

definition attachment_bytes :: "vault_row \<Rightarrow> int" where
  "attachment_bytes v = int (sum_list (map (\<lambda>(a, r). length (ar_blob r)) (vr_attachments v)))"

definition vault_bytes :: "vault_row \<Rightarrow> int" where
  "vault_bytes v = int (sum_list (map (\<lambda>(u, r). blob_len (ir_overview r)) (vr_items v))
     + sum_list (map (\<lambda>(u, r). blob_len (ir_details r)) (vr_items v))) + attachment_bytes v"

datatype write_reply = Conflicts "(uuid \<times> int option) list" | Written int "(uuid \<times> int) list"

text \<open>The transaction; the revision column is a BIGINT, whose overflow is a database error.\<close>

definition write_vault :: "int \<Rightarrow> change list \<Rightarrow> vault_row \<Rightarrow> ApiError + write_reply \<times> vault_row" where
  "write_vault max_bytes changes v =
     (let conflicts = find_conflicts changes (vr_items v) in
      if conflicts \<noteq> [] then Inr (Conflicts conflicts, v)
      else if i64_max \<le> vr_revision v then Inl ApiInternal
      else let rv = vr_revision v + 1; v1 = v\<lparr>vr_revision := rv\<rparr> in
        and_then (apply_batch changes rv v1) (\<lambda>v2.
        if max_bytes < vault_bytes v2 \<and> vault_bytes v1 < vault_bytes v2 then Inl VaultFull
        else Inr (Written rv (map (\<lambda>c. (ch_item_id c, rv)) changes), v2)))"

definition write_items ::
  "int \<Rightarrow> server_session \<Rightarrow> change list \<Rightarrow> database \<Rightarrow> (ApiError + write_reply) \<times> database" where
  "write_items max_bytes ses changes db =
     (case and_then (require_full ses) (\<lambda>_. and_then (check_batch changes) (\<lambda>_.
        and_then (ok_or ApiInternal (db (ses_vault_id ses))) (write_vault max_bytes changes))) of
      Inl e \<Rightarrow> (Inl e, db)
    | Inr (reply, v) \<Rightarrow> (Inr reply, db(ses_vault_id ses \<mapsto> v)))"

subsection \<open>Pulling\<close>

definition ROW_JSON_BYTES :: nat where "ROW_JSON_BYTES = 256"

definition b64_len :: "nat \<Rightarrow> nat" where
  "b64_len n = (n + 2) div 3 * 4"

function page_loop :: "(int \<times> nat) list \<Rightarrow> nat \<Rightarrow> nat \<Rightarrow> nat \<Rightarrow> nat" where
  "page_loop rows complete e b =
     (if e < complete \<and> e < length rows then
        let run = takeWhile (\<lambda>r. fst r = fst (rows ! e)) (drop e rows);
            next_end = e + length run;
            more = sum_list (map snd run)
        in if 0 < e \<and> (MAX_PULL_PAGE < next_end \<or> MAX_PAGE_BYTES < b + more) then e
           else page_loop rows complete next_end (b + more)
      else e)"
  by auto

definition page_len :: "(int \<times> nat) list \<Rightarrow> bool \<Rightarrow> nat" where
  "page_len rows window_full =
     (let complete = (if rows \<noteq> [] \<and> window_full
                      then length (takeWhile (\<lambda>r. fst r \<noteq> fst (last rows)) rows) else length rows)
      in page_loop rows complete 0 0)"

record change_out =
  co_item_id :: uuid
  co_revision :: int
  co_overview :: "bytes option"
  co_details :: "bytes option"
  co_deleted :: bool

definition change_json :: "uuid \<times> item_row \<Rightarrow> change_out" where
  "change_json = (\<lambda>(u, r). \<lparr>co_item_id = u, co_revision = ir_revision r, co_overview = ir_overview r,
     co_details = ir_details r, co_deleted = ir_deleted r\<rparr>)"

definition newer_rows :: "vault_row \<Rightarrow> int \<Rightarrow> (uuid \<times> item_row) list" where
  "newer_rows v since = sort_key (\<lambda>(u, r). (ir_revision r, u)) (filter (\<lambda>(u, r). since < ir_revision r) (vr_items v))"

definition row_bytes :: "item_row \<Rightarrow> nat" where
  "row_bytes r = b64_len (blob_len (ir_overview r)) + b64_len (blob_len (ir_details r)) + ROW_JSON_BYTES"

definition PULL_WINDOW :: nat where
  "PULL_WINDOW = MAX_PULL_PAGE + MAX_CHANGES_PER_BATCH + 1"

definition sized_rows :: "vault_row \<Rightarrow> int \<Rightarrow> (int \<times> nat) list" where
  "sized_rows v since = map (\<lambda>(u, r). (ir_revision r, row_bytes r)) (take PULL_WINDOW (newer_rows v since))"

record pull_reply =
  pl_cursor :: int
  pl_has_more :: bool
  pl_changes :: "change_out list"
  pl_account :: account_info

text \<open>\<open>v1\<close> are the rows when the sizes are read, \<open>v2\<close> when the blobs or the vault's revision are.\<close>

definition pull :: "server_session \<Rightarrow> int \<Rightarrow> int \<Rightarrow> vault_row \<Rightarrow> vault_row \<Rightarrow> ApiError + pull_reply" where
  "pull ses now since v1 v2 =
     (if since < 0 then Inl (ApiInvalidRequest ''since is not valid'')
      else let sized = sized_rows v1 since; e = page_len sized (length sized = PULL_WINDOW) in
        if e = 0 \<and> sized \<noteq> [] then Inl ApiInternal
        else let acct = account_json (ses_subscription ses) now; has_more = e < length sized in
          if e = 0 then Inr \<lparr>pl_cursor = vr_revision v2, pl_has_more = has_more, pl_changes = [], pl_account = acct\<rparr>
          else let through = fst (sized ! (e - 1)) in
            Inr \<lparr>pl_cursor = through, pl_has_more = has_more,
              pl_changes = map change_json (filter (\<lambda>(u, r). ir_revision r \<le> through) (newer_rows v2 since)),
              pl_account = acct\<rparr>)"

subsection \<open>Fetching by identifier\<close>

fun answer_loop :: "(uuid \<times> nat) list \<Rightarrow> uuid list \<Rightarrow> nat \<Rightarrow> uuid list" where
  "answer_loop [] answered b = answered"
| "answer_loop ((u, n) # rows) answered b =
     (if answered \<noteq> [] \<and> MAX_PAGE_BYTES < b + n then answered
      else answer_loop rows (answered @ [u]) (b + n))"

definition asked_rows :: "vault_row \<Rightarrow> uuid list \<Rightarrow> (uuid \<times> item_row) list" where
  "asked_rows v ids = sort_key fst (filter (\<lambda>(u, r). u \<in> set ids) (vr_items v))"

record fetch_reply =
  fr_changes :: "change_out list"
  fr_unanswered :: "uuid list"

definition fetch :: "uuid list \<Rightarrow> vault_row \<Rightarrow> vault_row \<Rightarrow> ApiError + fetch_reply" where
  "fetch ids v1 v2 =
     (if ids = [] \<or> MAX_CHANGES_PER_BATCH < length ids then Inl (ApiInvalidRequest ''itemIds is not valid'')
      else if card (set ids) \<noteq> length ids then Inl (ApiInvalidRequest ''an item appears twice'')
      else let sized = map (\<lambda>(u, r). (u, row_bytes r)) (asked_rows v1 ids);
               answered = answer_loop sized [] 0
           in Inr \<lparr>fr_changes = map change_json (asked_rows v2 answered),
                fr_unanswered = map fst (drop (length answered) sized)\<rparr>)"

subsection \<open>Attachments and the header\<close>

definition put_attachment ::
  "int \<Rightarrow> server_session \<Rightarrow> uuid \<Rightarrow> uuid \<Rightarrow> bytes \<Rightarrow> vault_row \<Rightarrow> ApiError + vault_row" where
  "put_attachment max_bytes ses a item blob v =
     and_then (require_full ses) (\<lambda>_.
     if MAX_ATTACHMENT_BLOB_BYTES < length blob then Inl TooLarge
     else case get (vr_attachments v) a of
       Some r \<Rightarrow> if ar_item_id r = item \<and> ar_blob r = blob then Inr v else Inl ApiConflict
     | None \<Rightarrow>
         if MAX_ATTACHMENT_VAULT_BYTES < attachment_bytes v + int (length blob) then Inl AttachmentsFull
         else if max_bytes < vault_bytes v + int (length blob) then Inl VaultFull
         else Inr (v\<lparr>vr_attachments := put a \<lparr>ar_item_id = item, ar_blob = blob, ar_committed = False\<rparr> (vr_attachments v)\<rparr>))"

definition get_attachment :: "uuid \<Rightarrow> vault_row \<Rightarrow> ApiError + uuid \<times> bytes" where
  "get_attachment a v = (case get (vr_attachments v) a of
     Some r \<Rightarrow> if ar_committed r then Inr (ar_item_id r, ar_blob r) else Inl ApiNotFound
   | None \<Rightarrow> Inl ApiNotFound)"

definition get_header :: "server_session \<Rightarrow> database \<Rightarrow> ApiError + bytes \<times> int \<times> int" where
  "get_header ses db =
     and_then (ok_or ApiNotFound (db (ses_vault_id ses))) (\<lambda>v. Inr (vr_header v, vr_header_revision v, vr_key_scheme v))"

termination page_loop
proof (relation "measure (\<lambda>(rows, complete, e, b). length rows - e)", simp, goal_cases)
  case (1 rows complete e b run next_end more)
  then have "drop e rows = rows ! e # drop (Suc e) rows" by (simp add: Cons_nth_drop_Suc)
  then have "run \<noteq> []" using 1 by simp
  then have "e < next_end" using 1 by simp
  then show ?case using 1(1) by (simp add: diff_less_mono2)
qed

declare page_loop.simps [simp del]

section \<open>Properties\<close>

subsection \<open>The rows of a vault\<close>

definition row_ok :: "vault_row \<Rightarrow> item_row \<Rightarrow> bool" where
  "row_ok v r \<longleftrightarrow> 0 < ir_revision r \<and> ir_revision r \<le> vr_revision v \<and>
     (ir_deleted r \<longleftrightarrow> ir_overview r = None) \<and> (ir_overview r = None \<longleftrightarrow> ir_details r = None)"

definition rows_at :: "vault_row \<Rightarrow> int \<Rightarrow> uuid set" where
  "rows_at v rv = {u. \<exists>r. get (vr_items v) u = Some r \<and> ir_revision r = rv}"

definition server_ok :: "vault_row \<Rightarrow> bool" where
  "server_ok v \<longleftrightarrow> table_ok (vr_items v) \<and> table_ok (vr_attachments v) \<and> 0 \<le> vr_revision v \<and> vr_revision v \<le> i64_max \<and>
     attachment_bytes v \<le> MAX_ATTACHMENT_VAULT_BYTES \<and> list_all (\<lambda>(u, r). row_ok v r) (vr_items v) \<and>
     (\<forall>rv. card (rows_at v rv) \<le> MAX_CHANGES_PER_BATCH)"

lemma finite_rows_at: "finite (rows_at v rv)"
  by (rule finite_subset [of _ "fst ` set (vr_items v)"]) (auto simp: rows_at_def dest!: get_Some_in intro: rev_image_eqI)

lemma server_ok_row: "server_ok v \<Longrightarrow> get (vr_items v) u = Some r \<Longrightarrow> row_ok v r"
  by (auto simp: server_ok_def list_all_iff dest: get_Some_in)

lemma check_each_Inr:
  "check_each cs seen = Inr () \<longleftrightarrow> list_all (\<lambda>c. check_change c = Inr ()) cs \<and> distinct (map ch_item_id cs) \<and>
     set (map ch_item_id cs) \<inter> set seen = {}"
  by (induction cs arbitrary: seen) (auto simp: result_simps)

lemma check_batch_Inr:
  "check_batch cs = Inr () \<longleftrightarrow> cs \<noteq> [] \<and> length cs \<le> MAX_CHANGES_PER_BATCH \<and>
     list_all (\<lambda>c. check_change c = Inr ()) cs \<and> distinct (map ch_item_id cs)"
  by (auto simp: check_batch_def check_each_Inr)

definition written_row :: "change \<Rightarrow> int \<Rightarrow> item_row" where
  "written_row c rv = (if ch_deleted c then \<lparr>ir_overview = None, ir_details = None, ir_deleted = True, ir_revision = rv\<rparr>
     else \<lparr>ir_overview = ch_overview c, ir_details = ch_details c, ir_deleted = False, ir_revision = rv\<rparr>)"

lemma apply_change_Inr:
  assumes "apply_change c rv v = Inr v'"
  shows "vr_items v' = put (ch_item_id c) (written_row c rv) (vr_items v) \<and> vr_revision v' = vr_revision v \<and>
    vr_header v' = vr_header v \<and> vr_header_revision v' = vr_header_revision v \<and> vr_key_scheme v' = vr_key_scheme v \<and>
    (table_ok (vr_attachments v) \<longrightarrow> table_ok (vr_attachments v'))"
proof -
  have "distinct (map fst (map (\<lambda>(a, r). (a, f a r)) (filter P t)))" if "distinct (map fst t)" for f P and t :: "(uuid \<times> attachment_row) list"
    using that by (induction t) (auto simp: image_iff)
  then show ?thesis
    using assms by (auto simp: apply_change_def apply_attachments_def written_row_def Let_def table_ok_def split: if_splits)
qed

lemma apply_batch_Inr:
  assumes "apply_batch cs rv v = Inr v'" and "distinct (map ch_item_id cs)"
  shows "get (vr_items v') u = (case find (\<lambda>c. ch_item_id c = u) cs of Some c \<Rightarrow> Some (written_row c rv) | None \<Rightarrow> get (vr_items v) u) \<and>
    vr_revision v' = vr_revision v \<and> vr_header v' = vr_header v \<and> vr_header_revision v' = vr_header_revision v \<and>
    vr_key_scheme v' = vr_key_scheme v \<and> (table_ok (vr_items v) \<longrightarrow> table_ok (vr_items v')) \<and>
    (table_ok (vr_attachments v) \<longrightarrow> table_ok (vr_attachments v'))"
  using assms
proof (induction cs arbitrary: v)
  case (Cons c cs)
  then obtain v1 where v1: "apply_change c rv v = Inr v1" "apply_batch cs rv v1 = Inr v'" by (auto simp: result_simps)
  have "find (\<lambda>d. ch_item_id d = u) cs = None" if "ch_item_id c = u"
    using Cons.prems(2) that by (auto simp: find_None_iff image_iff)
  then show ?case
    using Cons.IH [OF v1(2)] Cons.prems(2) apply_change_Inr [OF v1(1)]
    by (auto simp: tab.wf_upsert split: option.splits)
qed simp

subsection \<open>What a batch does\<close>

definition later :: "vault_row \<Rightarrow> vault_row \<Rightarrow> bool" where
  "later v v' \<longleftrightarrow> vr_revision v \<le> vr_revision v' \<and>
     (\<forall>u r. get (vr_items v) u = Some r \<longrightarrow>
        (\<exists>r'. get (vr_items v') u = Some r' \<and> (r' = r \<or> vr_revision v < ir_revision r'))) \<and>
     (\<forall>u r'. get (vr_items v') u = Some r' \<longrightarrow> get (vr_items v) u = Some r' \<or> vr_revision v < ir_revision r')"

lemma later_refl: "later v v"
  by (auto simp: later_def)

lemma later_trans: "later a b \<Longrightarrow> later b c \<Longrightarrow> later a c"
proof -
  assume 1: "later a b" and 2: "later b c"
  have r: "vr_revision a \<le> vr_revision b" "vr_revision b \<le> vr_revision c" using 1 2 by (simp_all add: later_def)
  have "\<exists>r'. get (vr_items c) u = Some r' \<and> (r' = r \<or> vr_revision a < ir_revision r')" if u: "get (vr_items a) u = Some r" for u r
  proof -
    obtain r1 where r1: "get (vr_items b) u = Some r1" "r1 = r \<or> vr_revision a < ir_revision r1"
      using 1 u unfolding later_def by blast
    obtain r2 where "get (vr_items c) u = Some r2" "r2 = r1 \<or> vr_revision b < ir_revision r2"
      using 2 r1(1) unfolding later_def by blast
    then show ?thesis using r1(2) r(1) by auto
  qed
  moreover have "get (vr_items a) u = Some r \<or> vr_revision a < ir_revision r" if u: "get (vr_items c) u = Some r" for u r
  proof (cases "vr_revision b < ir_revision r")
    case True
    then show ?thesis using r(1) by simp
  next
    case False
    then have "get (vr_items b) u = Some r" using 2 u unfolding later_def by blast
    then show ?thesis using 1 unfolding later_def by blast
  qed
  ultimately show ?thesis using r by (auto simp: later_def)
qed

lemma conflict_of_None:
  "conflict_of t c = None \<longleftrightarrow> ch_base_revision c = map_option ir_revision (get t (ch_item_id c)) \<and>
     \<not> (\<exists>r. get t (ch_item_id c) = Some r \<and> ir_deleted r \<and> ch_deleted c)"
  by (auto simp: conflict_of_def split: option.splits)

lemma find_conflicts_Nil: "find_conflicts cs t = [] \<longleftrightarrow> list_all (\<lambda>c. conflict_of t c = None) cs"
proof (induction cs)
  case (Cons c cs)
  then show ?case by (cases "conflict_of t c") (simp_all add: find_conflicts_def)
qed (simp add: find_conflicts_def)

lemma write_vault_Written:
  assumes "write_vault m cs v = Inr (Written rv acks, v')"
  shows "rv = vr_revision v + 1 \<and> rv \<le> i64_max \<and> acks = map (\<lambda>c. (ch_item_id c, rv)) cs \<and>
    list_all (\<lambda>c. conflict_of (vr_items v) c = None) cs \<and> apply_batch cs rv (v\<lparr>vr_revision := rv\<rparr>) = Inr v' \<and>
    (vault_bytes v' \<le> m \<or> vault_bytes v' \<le> vault_bytes v)"
proof -
  have "vault_bytes (v\<lparr>vr_revision := x\<rparr>) = vault_bytes v" for x by (simp add: vault_bytes_def attachment_bytes_def)
  then show ?thesis
    using assms by (auto simp: write_vault_def Let_def result_simps find_conflicts_Nil split: if_splits)
qed

lemma write_vault_cases:
  assumes "write_vault m cs v = Inr (reply, v')"
  obtains (conflict) xs where "reply = Conflicts xs" "xs = find_conflicts cs (vr_items v)" "xs \<noteq> []" "v' = v"
  | (written) rv acks where "reply = Written rv acks"
proof (cases reply)
  case (Conflicts xs)
  then have "find_conflicts cs (vr_items v) \<noteq> [] \<and> xs = find_conflicts cs (vr_items v) \<and> v' = v"
    using assms by (auto simp: write_vault_def Let_def result_simps split: if_splits)
  then show thesis using Conflicts conflict by blast
next
  case (Written rv acks)
  then show thesis by (rule written)
qed

lemma written_items:
  assumes "write_vault m cs v = Inr (Written rv acks, v')" and "distinct (map ch_item_id cs)"
  shows "get (vr_items v') u =
    (case find (\<lambda>c. ch_item_id c = u) cs of Some c \<Rightarrow> Some (written_row c rv) | None \<Rightarrow> get (vr_items v) u)"
    and "vr_revision v' = rv"
proof -
  have "apply_batch cs rv (v\<lparr>vr_revision := rv\<rparr>) = Inr v'" using write_vault_Written [OF assms(1)] by blast
  from apply_batch_Inr [OF this assms(2), of u]
  show "get (vr_items v') u =
    (case find (\<lambda>c. ch_item_id c = u) cs of Some c \<Rightarrow> Some (written_row c rv) | None \<Rightarrow> get (vr_items v) u)"
    and "vr_revision v' = rv" by (simp_all split: option.splits)
qed

lemma written_row_revision [simp]: "ir_revision (written_row c rv) = rv"
  by (simp add: written_row_def)

lemma write_later:
  assumes "write_vault m cs v = Inr (reply, v')" and "distinct (map ch_item_id cs)"
  shows "later v v'"
  using assms(1)
proof (cases rule: write_vault_cases)
  case (conflict xs)
  then show ?thesis by (simp add: later_refl)
next
  case (written rv acks)
  then have w: "write_vault m cs v = Inr (Written rv acks, v')" using assms(1) by simp
  have "rv = vr_revision v + 1" using write_vault_Written [OF w] by simp
  then show ?thesis
    using written_items [OF w assms(2)] by (auto simp: later_def split: option.splits)
qed

lemma attachment_bytes_change:
  assumes "apply_change c rv v = Inr v'"
  shows "attachment_bytes v' \<le> attachment_bytes v"
proof -
  have "sum_list (map (\<lambda>(a, r). length (ar_blob r))
      (map (\<lambda>(a, r). (a, if ar_item_id r = u then r\<lparr>ar_committed := True\<rparr> else r)) (filter P t)))
    \<le> sum_list (map (\<lambda>(a, r). length (ar_blob r)) t)" for u P and t :: "(uuid \<times> attachment_row) list"
    by (induction t) auto
  then show ?thesis
    using assms by (auto simp: apply_change_def apply_attachments_def attachment_bytes_def Let_def split: if_splits)
qed

lemma attachment_bytes_batch: "apply_batch cs rv v = Inr v' \<Longrightarrow> attachment_bytes v' \<le> attachment_bytes v"
  by (induction cs arbitrary: v) (auto simp: result_simps dest!: attachment_bytes_change intro: order_trans)

lemma write_server_ok:
  assumes "server_ok v" and "check_batch cs = Inr ()" and "write_vault m cs v = Inr (reply, v')"
  shows "server_ok v'"
  using assms(3)
proof (cases rule: write_vault_cases)
  case (conflict xs)
  then show ?thesis using assms(1) by simp
next
  case (written rv acks)
  then have w: "write_vault m cs v = Inr (Written rv acks, v')" using assms(3) by simp
  have c: "distinct (map ch_item_id cs)" "length cs \<le> MAX_CHANGES_PER_BATCH" "list_all (\<lambda>c. check_change c = Inr ()) cs"
    using assms(2) by (simp_all add: check_batch_Inr)
  note x = write_vault_Written [OF w] and g = written_items [OF w c(1)]
  have rv: "rv = vr_revision v + 1" "rv \<le> i64_max" and b: "apply_batch cs rv (v\<lparr>vr_revision := rv\<rparr>) = Inr v'" using x by auto
  have t: "table_ok (vr_items v')" "table_ok (vr_attachments v')"
    using apply_batch_Inr [OF b c(1)] assms(1) by (simp_all add: server_ok_def)
  have "row_ok v' r" if "get (vr_items v') u = Some r" for u r
  proof (cases "find (\<lambda>c. ch_item_id c = u) cs")
    case None
    then have "row_ok v r" using that g(1) [of u] server_ok_row [OF assms(1)] by simp
    then show ?thesis using g(2) rv by (auto simp: row_ok_def)
  next
    case (Some d)
    then have "d \<in> set cs" by (auto simp: find_Some_iff)
    then have "check_change d = Inr ()" using c(3) by (simp add: list_all_iff)
    then show ?thesis
      using that Some g rv assms(1) by (auto simp: row_ok_def written_row_def check_change_def server_ok_def result_simps Let_def split: if_splits)
  qed
  then have rows: "list_all (\<lambda>(u, r). row_ok v' r) (vr_items v')"
    using get_Some_iff [OF t(1)] by (auto simp: list_all_iff)
  have "card (rows_at v' n) \<le> MAX_CHANGES_PER_BATCH" for n
  proof (cases "n = rv")
    case True
    have "rows_at v' n \<subseteq> set (map ch_item_id cs)"
    proof
      fix u assume "u \<in> rows_at v' n"
      then obtain r where r: "get (vr_items v') u = Some r" "ir_revision r = rv" using True by (auto simp: rows_at_def)
      show "u \<in> set (map ch_item_id cs)"
      proof (cases "find (\<lambda>c. ch_item_id c = u) cs")
        case None
        then have "row_ok v r" using r g(1) [of u] server_ok_row [OF assms(1)] by simp
        then show ?thesis using r rv by (simp add: row_ok_def)
      next
        case (Some d)
        then show ?thesis by (auto simp: find_Some_iff)
      qed
    qed
    then have "card (rows_at v' n) \<le> length cs"
      using card_mono [OF finite_set] card_length [of "map ch_item_id cs"] by (metis order.trans length_map)
    then show ?thesis using c(2) by simp
  next
    case False
    have "card (rows_at v' n) \<le> card (rows_at v n)"
      by (rule card_mono [OF finite_rows_at]) (use g(1) False in \<open>auto simp: rows_at_def split: option.splits\<close>)
    also have "\<dots> \<le> MAX_CHANGES_PER_BATCH" using assms(1) by (simp add: server_ok_def)
    finally show ?thesis .
  qed
  then show ?thesis
    using t rows rv g(2) assms(1) attachment_bytes_batch [OF b] by (auto simp: server_ok_def attachment_bytes_def)
qed

lemma write_items_Written:
  assumes "write_items m ses cs db = (Inr (Written rv acks), db')"
  obtains v v' where "check_batch cs = Inr ()" and "db (ses_vault_id ses) = Some v" and "db' = db(ses_vault_id ses \<mapsto> v')"
    and "write_vault m cs v = Inr (Written rv acks, v')"
  using assms by (auto simp: write_items_def result_simps split: sum.splits prod.splits)

lemma write_items_refused:
  assumes "write_items m ses cs db = (reply, db')" and "\<not> (\<exists>rv acks. reply = Inr (Written rv acks))"
  shows "db' = db"
proof (cases "and_then (require_full ses) (\<lambda>_. and_then (check_batch cs) (\<lambda>_.
      and_then (ok_or ApiInternal (db (ses_vault_id ses))) (write_vault m cs)))")
  case (Inl e)
  then show ?thesis using assms(1) by (simp add: write_items_def)
next
  case (Inr y)
  then obtain rep v v' where y: "y = (rep, v')" "write_vault m cs v = Inr (rep, v')" "db (ses_vault_id ses) = Some v"
    by (cases y) (auto simp: result_simps)
  then have e: "reply = Inr rep" "db' = db(ses_vault_id ses \<mapsto> v')" using assms(1) Inr by (simp_all add: write_items_def)
  from y(2) show ?thesis
  proof (cases rule: write_vault_cases)
    case (conflict xs)
    then show ?thesis using e y(3) by (simp add: map_upd_triv)
  next
    case (written rv acks)
    then show ?thesis using assms(2) e by simp
  qed
qed

lemma check_each_error: "check_each cs seen = Inl e \<Longrightarrow> \<exists>m. e = ApiInvalidRequest m"
  by (induction cs arbitrary: seen) (auto simp: check_change_def result_simps Let_def split: if_splits)

lemma apply_batch_error: "apply_batch cs rv v = Inl e \<Longrightarrow> \<exists>m. e = ApiInvalidRequest m"
  by (induction cs arbitrary: v) (auto simp: apply_change_def apply_attachments_def result_simps Let_def split: if_splits)

lemma write_items_error:
  assumes "write_items m ses cs db = (Inl e, db')"
  shows "e \<in> {AccountFrozen, ApiInternal, VaultFull} \<or> (\<exists>m. e = ApiInvalidRequest m)"
proof -
  have "require_full ses = Inl e \<Longrightarrow> e = AccountFrozen"
    by (auto simp: require_full_def split: PlanEntitlement.splits)
  moreover have "check_batch cs = Inl e \<Longrightarrow> \<exists>m. e = ApiInvalidRequest m"
    by (auto simp: check_batch_def dest: check_each_error split: if_splits)
  moreover have "write_vault m cs v = Inl e \<Longrightarrow> e \<in> {ApiInternal, VaultFull} \<or> (\<exists>m. e = ApiInvalidRequest m)" for v
    by (auto simp: write_vault_def Let_def result_simps dest: apply_batch_error split: if_splits)
  ultimately show ?thesis
    using assms by (auto simp: write_items_def result_simps split: sum.splits prod.splits)
qed

subsection \<open>Pages end where a revision ends\<close>

definition boundary :: "(int \<times> nat) list \<Rightarrow> nat \<Rightarrow> bool" where
  "boundary rows n \<longleftrightarrow> n \<le> length rows \<and>
     (\<forall>i j. i < n \<longrightarrow> n \<le> j \<longrightarrow> j < length rows \<longrightarrow> fst (rows ! i) < fst (rows ! j))"

definition page_fits :: "(int \<times> nat) list \<Rightarrow> nat \<Rightarrow> bool" where
  "page_fits rows n \<longleftrightarrow> n \<le> MAX_PULL_PAGE \<and> sum_list (map snd (take n rows)) \<le> MAX_PAGE_BYTES \<or>
     (\<forall>i<n. fst (rows ! i) = fst (rows ! 0))"

lemma run_boundary:
  assumes "sorted (map fst rows)" and "e < length rows"
    and "n = e + length (takeWhile (\<lambda>r. fst r = fst (rows ! e)) (drop e rows))"
  shows "boundary rows n" and "e < n" and "\<And>i. e \<le> i \<Longrightarrow> i < n \<Longrightarrow> fst (rows ! i) = fst (rows ! e)"
    and "take n rows = take e rows @ takeWhile (\<lambda>r. fst r = fst (rows ! e)) (drop e rows)"
proof -
  let ?P = "\<lambda>r. fst r = fst (rows ! e)" and ?xs = "drop e rows"
  let ?run = "takeWhile ?P ?xs"
  have d: "?xs = rows ! e # drop (Suc e) rows" using assms(2) by (simp add: Cons_nth_drop_Suc)
  then show "e < n" using assms(3) by simp
  have l: "n \<le> length rows" using length_takeWhile_le [of ?P ?xs] assms(2,3) by simp
  show same: "fst (rows ! i) = fst (rows ! e)" if "e \<le> i" "i < n" for i
  proof -
    have "i - e < length ?run" using that assms(3) by simp
    then have "?P (?xs ! (i - e))" using nth_mem [of "i - e" ?run] set_takeWhileD takeWhile_nth by metis
    then show ?thesis using that assms(2) by simp
  qed
  have m: "fst (rows ! i) \<le> fst (rows ! j)" if "i \<le> j" "j < length rows" for i j
    using sorted_nth_mono [OF assms(1), of i j] that by simp
  have "fst (rows ! e) < fst (rows ! j)" if "n \<le> j" "j < length rows" for j
  proof -
    have n: "n < length rows" using that by simp
    then have "length ?run < length ?xs" using assms(3) by simp
    then have "\<not> ?P (?xs ! length ?run)" using nth_length_takeWhile by blast
    then have "fst (rows ! n) \<noteq> fst (rows ! e)" using assms(2,3) by (simp add: add.commute)
    then have "fst (rows ! e) < fst (rows ! n)" using m [of e n] n assms(3) by simp
    then show ?thesis using m [OF that] by simp
  qed
  moreover have "fst (rows ! i) \<le> fst (rows ! e)" if "i < n" for i
    using that same [of i] m [of i e] assms(2) by (cases "e \<le> i") simp_all
  ultimately show "boundary rows n" using l by (force simp: boundary_def)
  have "take (length ?run) ?xs = ?run" by (simp add: takeWhile_eq_take [symmetric])
  then show "take n rows = take e rows @ ?run" using assms(3) by (simp add: take_add)
qed

lemma page_loop_spec:
  assumes "sorted (map fst rows)" and "boundary rows complete" and "boundary rows e" and "e \<le> complete"
    and "b = sum_list (map snd (take e rows))" and "page_fits rows e"
  shows "boundary rows (page_loop rows complete e b) \<and> e \<le> page_loop rows complete e b \<and>
    page_loop rows complete e b \<le> complete \<and> page_fits rows (page_loop rows complete e b) \<and>
    (e < complete \<longrightarrow> e = 0 \<longrightarrow> 0 < page_loop rows complete e b)"
  using assms
proof (induction rows complete e b rule: page_loop.induct)
  case (1 rows complete e b)
  let ?run = "takeWhile (\<lambda>r. fst r = fst (rows ! e)) (drop e rows)"
  let ?n = "e + length ?run" and ?m = "sum_list (map snd ?run)"
  show ?case
  proof (cases "e < complete \<and> e < length rows")
    case False
    then have "page_loop rows complete e b = e" by (subst page_loop.simps) (simp only: if_False)
    moreover have "\<not> e < complete" using False 1(3) by (auto simp: boundary_def)
    ultimately show ?thesis using 1(4-7) by simp
  next
    case T: True
    note r = run_boundary [OF 1(2) conjunct2 [OF T] refl]
    show ?thesis
    proof (cases "0 < e \<and> (MAX_PULL_PAGE < ?n \<or> MAX_PAGE_BYTES < b + ?m)")
      case True
      have "page_loop rows complete e b = e" by (subst page_loop.simps) (simp only: Let_def if_P [OF T] if_P [OF True])
      then show ?thesis using 1(4-7) True by simp
    next
      case False
      have s: "page_loop rows complete e b = page_loop rows complete ?n (b + ?m)"
        by (subst page_loop.simps) (simp only: Let_def if_P [OF T] if_not_P [OF False])
      have n: "?n \<le> complete"
      proof (rule ccontr)
        assume "\<not> ?n \<le> complete"
        then have "fst (rows ! complete) = fst (rows ! e)" "complete < length rows"
          using r(1) r(3) [of complete] T by (auto simp: boundary_def)
        moreover have "fst (rows ! e) < fst (rows ! complete)" using 1(3) T calculation(2) by (simp add: boundary_def)
        ultimately show False by simp
      qed
      have bs: "b + ?m = sum_list (map snd (take ?n rows))" using 1(6) r(4) by simp
      have "page_fits rows ?n"
      proof (cases "e = 0")
        case True
        then show ?thesis using r(3) by (simp add: page_fits_def)
      next
        case e: False
        then show ?thesis using False bs by (simp add: page_fits_def)
      qed
      note ih = 1(1) [OF T refl refl refl False 1(2,3) r(1) n bs this]
      define q where "q = page_loop rows complete ?n (b + ?m)"
      have q: "boundary rows q \<and> ?n \<le> q \<and> q \<le> complete \<and> page_fits rows q" using ih unfolding q_def by blast
      then have "e < q" using r(2) by linarith
      then show ?thesis using q unfolding s q_def [symmetric] by simp
    qed
  qed
qed

lemma page_len_spec:
  assumes "sorted (map fst rows)" and "window_full \<Longrightarrow> rows \<noteq> [] \<and> fst (rows ! 0) \<noteq> fst (last rows)"
  shows "boundary rows (page_len rows window_full)" and "page_fits rows (page_len rows window_full)"
    and "rows \<noteq> [] \<Longrightarrow> 0 < page_len rows window_full" and "window_full \<Longrightarrow> page_len rows window_full < length rows"
proof -
  let ?P = "\<lambda>r. fst r \<noteq> fst (last rows)"
  define complete where "complete = (if rows \<noteq> [] \<and> window_full then length (takeWhile ?P rows) else length rows)"
  have p: "page_len rows window_full = page_loop rows complete 0 0" by (simp add: page_len_def complete_def Let_def)
  have "boundary rows complete"
  proof (cases "rows \<noteq> [] \<and> window_full")
    case True
    have "fst (rows ! i) < fst (last rows)" if "i < length (takeWhile ?P rows)" for i
    proof -
      have "?P (rows ! i)" using nth_mem [OF that] set_takeWhileD takeWhile_nth [OF that] by metis
      moreover have "fst (rows ! i) \<le> fst (last rows)"
        using sorted_nth_mono [OF assms(1), of i "length rows - 1"] that length_takeWhile_le [of ?P rows] True
        by (simp add: last_conv_nth)
      ultimately show ?thesis by simp
    qed
    moreover have "fst (last rows) \<le> fst (rows ! j)" if "length (takeWhile ?P rows) \<le> j" "j < length rows" for j
    proof -
      have "\<not> ?P (rows ! length (takeWhile ?P rows))" using that nth_length_takeWhile [of ?P rows] by simp
      then show ?thesis using sorted_nth_mono [OF assms(1) that(1)] that by simp
    qed
    ultimately show ?thesis using True length_takeWhile_le [of ?P rows] by (force simp: boundary_def complete_def)
  qed (auto simp: boundary_def complete_def)
  moreover have "boundary rows 0" "page_fits rows 0" by (simp_all add: boundary_def page_fits_def)
  ultimately have s: "boundary rows (page_loop rows complete 0 0) \<and> page_loop rows complete 0 0 \<le> complete \<and>
    page_fits rows (page_loop rows complete 0 0) \<and> (0 < complete \<longrightarrow> 0 < page_loop rows complete 0 0)"
    using page_loop_spec [OF assms(1), of complete 0 0] by simp
  show "boundary rows (page_len rows window_full)" "page_fits rows (page_len rows window_full)" using s p by simp_all
  show "0 < page_len rows window_full" if "rows \<noteq> []"
    using s p that assms(2) by (cases rows) (auto simp: complete_def)
  show "page_len rows window_full < length rows" if "window_full"
  proof -
    have "length (takeWhile ?P rows) \<noteq> length rows"
      using assms(2) [OF that] takeWhile_eq_all_conv [of ?P rows] by (metis last_in_set takeWhile_eq_take take_all_iff order_refl)
    then show ?thesis using s p that assms(2) length_takeWhile_le [of ?P rows] by (simp add: complete_def)
  qed
qed

subsection \<open>The rows after a cursor\<close>

lemma newer_rows_set: "table_ok (vr_items v) \<Longrightarrow> (u, r) \<in> set (newer_rows v since) \<longleftrightarrow> get (vr_items v) u = Some r \<and> since < ir_revision r"
  by (auto simp: newer_rows_def get_Some_iff)

lemma newer_rows_sorted: "sorted (map (\<lambda>(u, r). ir_revision r) (newer_rows v since))"
proof -
  have "sorted (map (\<lambda>(u, r). (ir_revision r, u)) (newer_rows v since))" by (simp add: newer_rows_def)
  then have "sorted_wrt (\<lambda>x y. (ir_revision (snd x), fst x) \<le> (ir_revision (snd y), fst y)) (newer_rows v since)"
    by (simp add: sorted_wrt_map case_prod_beta)
  then have "sorted_wrt (\<lambda>x y. ir_revision (snd x) \<le> ir_revision (snd y)) (newer_rows v since)"
    by (rule sorted_wrt_mono_rel [rotated]) (auto simp: less_eq_prod_def)
  then show ?thesis by (simp add: sorted_wrt_map case_prod_beta)
qed

lemma newer_rows_distinct:
  assumes "table_ok (vr_items v)"
  shows "distinct (map fst (newer_rows v since))"
proof -
  have "distinct (vr_items v)" using assms by (simp add: table_ok_def distinct_map)
  then have "distinct (newer_rows v since)" by (simp add: newer_rows_def)
  moreover have "inj_on fst (set (newer_rows v since))"
    using assms by (auto simp: inj_on_def newer_rows_set)
  ultimately show ?thesis by (simp add: distinct_map)
qed

lemma map_fst_sized: "map fst (sized_rows v since) = map (\<lambda>(u, r). ir_revision r) (take PULL_WINDOW (newer_rows v since))"
  by (simp add: sized_rows_def case_prod_beta comp_def)

lemma sized_sorted: "sorted (map fst (sized_rows v since))"
  using sorted_wrt_take [OF newer_rows_sorted [of v since]] by (simp add: map_fst_sized take_map)

lemma sized_window:
  assumes "server_ok v" and "length (sized_rows v since) = PULL_WINDOW"
  shows "sized_rows v since \<noteq> [] \<and> fst (sized_rows v since ! 0) \<noteq> fst (last (sized_rows v since))"
proof -
  let ?s = "sized_rows v since" and ?rs = "take PULL_WINDOW (newer_rows v since)"
  have ne: "?s \<noteq> []" using assms(2) by (auto simp: PULL_WINDOW_def)
  have "fst (?s ! 0) \<noteq> fst (last ?s)"
  proof
    assume eq: "fst (?s ! 0) = fst (last ?s)"
    have all: "fst (?s ! i) = fst (?s ! 0)" if "i < length ?s" for i
      using sorted_nth_mono [OF sized_sorted, of 0 i v since] sorted_nth_mono [OF sized_sorted, of i "length ?s - 1" v since]
        that eq ne by (simp add: last_conv_nth)
    have "fst ` set ?rs \<subseteq> rows_at v (fst (?s ! 0))"
    proof
      fix u assume "u \<in> fst ` set ?rs"
      then obtain i where i: "i < length ?rs" "u = fst (?rs ! i)" by (metis imageE in_set_conv_nth)
      have l: "length ?s = length ?rs" by (simp add: sized_rows_def)
      have "fst (?s ! i) = ir_revision (snd (?rs ! i))" using i(1) by (simp add: sized_rows_def case_prod_beta del: nth_take)
      moreover have "(fst (?rs ! i), snd (?rs ! i)) \<in> set (newer_rows v since)"
        using nth_mem [OF i(1)] by (auto dest: in_set_takeD)
      then have "get (vr_items v) u = Some (snd (?rs ! i))"
        using assms(1) i(2) newer_rows_set [of v "fst (?rs ! i)" "snd (?rs ! i)"] by (simp add: server_ok_def)
      ultimately show "u \<in> rows_at v (fst (?s ! 0))"
        using all [of i] i(1) l unfolding rows_at_def by auto
    qed
    then have "card (fst ` set ?rs) \<le> MAX_CHANGES_PER_BATCH"
      using assms(1) card_mono [OF finite_rows_at] by (meson order.trans server_ok_def)
    moreover have "distinct (map fst ?rs)"
      using newer_rows_distinct [of v since] assms(1) distinct_take by (metis server_ok_def take_map)
    then have "card (fst ` set ?rs) = length ?rs" by (metis distinct_card length_map set_map)
    moreover have "length ?rs = PULL_WINDOW" using assms(2) by (simp add: sized_rows_def)
    ultimately show False by (simp add: PULL_WINDOW_def MAX_PULL_PAGE_def MAX_CHANGES_PER_BATCH_def)
  qed
  with ne show ?thesis by blast
qed

lemma sized_mem: "i < length (sized_rows v since) \<Longrightarrow>
    i < length (newer_rows v since) \<and> fst (sized_rows v since ! i) = ir_revision (snd (newer_rows v since ! i))"
  by (auto simp: sized_rows_def case_prod_beta)

text \<open>The page of a pull: how far it goes and that nothing is beyond it when it says so.\<close>

lemma page_of_pull:
  assumes "server_ok v" and "e = page_len (sized_rows v since) (length (sized_rows v since) = PULL_WINDOW)"
    and "sized_rows v since \<noteq> []"
  shows "0 < e" and "e \<le> length (sized_rows v since)" and "page_fits (sized_rows v since) e"
    and "since < fst (sized_rows v since ! (e - 1))" and "fst (sized_rows v since ! (e - 1)) \<le> vr_revision v"
    and "(\<exists>u r. get (vr_items v) u = Some r \<and> fst (sized_rows v since ! (e - 1)) < ir_revision r) \<longleftrightarrow> e < length (sized_rows v since)"
proof -
  let ?s = "sized_rows v since" and ?n = "newer_rows v since"
  have t: "table_ok (vr_items v)" using assms(1) by (simp add: server_ok_def)
  note p = page_len_spec [of "sized_rows v since" "length (sized_rows v since) = PULL_WINDOW",
      OF sized_sorted sized_window [OF assms(1)], folded assms(2)]
  show e: "0 < e" "e \<le> length ?s" "page_fits ?s e" using p(1-3) assms(3) by (simp_all add: boundary_def)
  have i: "e - 1 < length ?s" using e(1,2) by simp
  have row: "since < ir_revision r \<and> get (vr_items v) u = Some r" if "(u, r) \<in> set ?n" for u r
    using that newer_rows_set [OF t] by blast
  have "?n ! (e - 1) \<in> set ?n" using sized_mem [OF i] by simp
  then show "since < fst (?s ! (e - 1))" "fst (?s ! (e - 1)) \<le> vr_revision v"
    using sized_mem [OF i] row [of "fst (?n ! (e - 1))" "snd (?n ! (e - 1))"] server_ok_row [OF assms(1)] by (auto simp: row_ok_def)
  note since_lt = this(1)
  show "(\<exists>u r. get (vr_items v) u = Some r \<and> fst (?s ! (e - 1)) < ir_revision r) \<longleftrightarrow> e < length ?s"
  proof
    assume l: "e < length ?s"
    then have "fst (?s ! (e - 1)) < fst (?s ! e)" using p(1) e(1) by (simp add: boundary_def)
    moreover have "?n ! e \<in> set ?n" using sized_mem [OF l] by simp
    ultimately show "\<exists>u r. get (vr_items v) u = Some r \<and> fst (?s ! (e - 1)) < ir_revision r"
      using sized_mem [OF l] row [of "fst (?n ! e)" "snd (?n ! e)"] by auto
  next
    assume "\<exists>u r. get (vr_items v) u = Some r \<and> fst (?s ! (e - 1)) < ir_revision r"
    then obtain u r where u: "get (vr_items v) u = Some r" "fst (?s ! (e - 1)) < ir_revision r" by blast
    then have "(u, r) \<in> set ?n" using since_lt newer_rows_set [OF t] by auto
    then obtain j where j: "j < length ?n" "?n ! j = (u, r)" by (metis in_set_conv_nth)
    show "e < length ?s"
    proof (cases "length ?s = PULL_WINDOW")
      case True
      then show ?thesis using p(4) by simp
    next
      case False
      then have l: "length ?s = length ?n" by (auto simp: sized_rows_def)
      have "e - 1 < j"
      proof (rule ccontr)
        assume "\<not> e - 1 < j"
        then have "fst (?s ! j) \<le> fst (?s ! (e - 1))" using sorted_nth_mono [OF sized_sorted, of j "e - 1" v since] i j(1) l by simp
        then show False using sized_mem [of j v since] j l u(2) by simp
      qed
      then show ?thesis using j(1) l by simp
    qed
  qed
qed

lemma page_rows:
  assumes "server_ok v" and "e = page_len (sized_rows v since) (length (sized_rows v since) = PULL_WINDOW)"
    and "sized_rows v since \<noteq> []"
  shows "filter (\<lambda>(u, r). ir_revision r \<le> fst (sized_rows v since ! (e - 1))) (newer_rows v since) = take e (newer_rows v since)"
proof -
  let ?s = "sized_rows v since" and ?n = "newer_rows v since"
  let ?c = "fst (?s ! (e - 1))"
  note p = page_len_spec [of "sized_rows v since" "length (sized_rows v since) = PULL_WINDOW",
      OF sized_sorted sized_window [OF assms(1)], folded assms(2)]
  have e: "0 < e" "e \<le> length ?s" using p(1,3) assms(3) by (simp_all add: boundary_def)
  have c: "?c = ir_revision (snd (?n ! (e - 1)))" "e - 1 < length ?n" using sized_mem [of "e - 1" v since] e by auto
  have m: "ir_revision (snd (?n ! i)) \<le> ir_revision (snd (?n ! j))" if "i \<le> j" "j < length ?n" for i j
    using sorted_nth_mono [OF newer_rows_sorted [of v since], of i j] that by (simp add: case_prod_beta)
  have below: "ir_revision (snd (?n ! i)) \<le> ?c" if "i < e" for i using m [of i "e - 1"] that c by simp
  have above: "?c < ir_revision (snd (?n ! j))" if "e \<le> j" "j < length ?n" for j
  proof (cases "j < length ?s")
    case True
    then have "?c < fst (?s ! j)" using p(1) e that by (simp add: boundary_def)
    then show ?thesis using sized_mem [OF True] by simp
  next
    case False
    then have "length ?s = PULL_WINDOW" using that by (simp add: sized_rows_def min_def split: if_splits)
    then have l: "e < length ?s" using p(4) by simp
    then have "?c < fst (?s ! e)" using p(1) e by (simp add: boundary_def)
    then show ?thesis using sized_mem [OF l] m [OF that] by simp
  qed
  have "ir_revision (snd x) \<le> ?c" if "x \<in> set (take e ?n)" for x
    using that below by (auto simp only: in_set_conv_nth length_take nth_take min_less_iff_conj)
  then have "filter (\<lambda>(u, r). ir_revision r \<le> ?c) (take e ?n) = take e ?n" by (intro filter_True) auto
  moreover have "?c < ir_revision (snd x)" if x: "x \<in> set (drop e ?n)" for x
  proof -
    obtain i where "i < length ?n - e" "x = ?n ! (e + i)" using x by (auto simp: in_set_conv_nth)
    then show ?thesis using above [of "e + i"] by simp
  qed
  then have "filter (\<lambda>(u, r). ir_revision r \<le> ?c) (drop e ?n) = []" by (force simp: filter_empty_conv)
  ultimately show ?thesis by (metis append_Nil2 append_take_drop_id filter_append)
qed

lemma page_rows_few:
  assumes "server_ok v" and "e = page_len (sized_rows v since) (length (sized_rows v since) = PULL_WINDOW)"
    and "sized_rows v since \<noteq> []"
  shows "e \<le> MAX_PULL_PAGE"
proof -
  let ?s = "sized_rows v since" and ?n = "newer_rows v since"
  have t: "table_ok (vr_items v)" using assms(1) by (simp add: server_ok_def)
  note g = page_of_pull [OF assms]
  have l: "e \<le> length ?n" using g(2) by (simp add: sized_rows_def)
  show ?thesis
  proof (cases "\<forall>i<e. fst (?s ! i) = fst (?s ! 0)")
    case True
    have "fst ` set (take e ?n) \<subseteq> rows_at v (fst (?s ! 0))"
    proof
      fix u assume "u \<in> fst ` set (take e ?n)"
      then obtain i where i: "i < e" "i < length ?n" "u = fst (?n ! i)" by (auto simp: in_set_conv_nth)
      have "?n ! i \<in> set ?n" using i by simp
      then have "get (vr_items v) (fst (?n ! i)) = Some (snd (?n ! i))" using newer_rows_set [OF t, of "fst (?n ! i)" "snd (?n ! i)" since] by simp
      moreover have "ir_revision (snd (?n ! i)) = fst (?s ! 0)"
      proof -
        have "fst (?s ! i) = fst (?s ! 0)" using True i(1) by blast
        moreover have "fst (?s ! i) = ir_revision (snd (?n ! i))" using sized_mem [of i v since] i(1) g(2) by simp
        ultimately show ?thesis by simp
      qed
      ultimately show "u \<in> rows_at v (fst (?s ! 0))" using i(3) by (auto simp: rows_at_def)
    qed
    then have "card (fst ` set (take e ?n)) \<le> card (rows_at v (fst (?s ! 0)))" by (rule card_mono [OF finite_rows_at])
    moreover have "card (fst ` set (take e ?n)) = e"
      using distinct_card [OF distinct_take [OF newer_rows_distinct [OF t, of since]], of e] l by (simp add: take_map)
    moreover have "card (rows_at v (fst (?s ! 0))) \<le> MAX_CHANGES_PER_BATCH" using assms(1) by (simp add: server_ok_def)
    ultimately have "e \<le> MAX_CHANGES_PER_BATCH" by linarith
    then show ?thesis by (simp add: MAX_PULL_PAGE_def MAX_CHANGES_PER_BATCH_def)
  next
    case False
    then show ?thesis using g(3) by (auto simp: page_fits_def)
  qed
qed

lemma pull_page:
  assumes "server_ok v" and "0 \<le> since"
  shows "\<exists>p. pull ses now since v v = Inr p \<and>
    set (pl_changes p) = {change_json (u, r) | u r. get (vr_items v) u = Some r \<and> since < ir_revision r \<and> ir_revision r \<le> pl_cursor p} \<and>
    sorted (map co_revision (pl_changes p)) \<and> distinct (map co_item_id (pl_changes p)) \<and>
    (pl_changes p \<noteq> [] \<longrightarrow> since < pl_cursor p) \<and>
    (pl_has_more p \<longleftrightarrow> (\<exists>u r. get (vr_items v) u = Some r \<and> since < ir_revision r \<and> pl_cursor p < ir_revision r)) \<and>
    (pl_has_more p \<longrightarrow> pl_changes p \<noteq> []) \<and> pl_cursor p \<le> vr_revision v \<and>
    length (pl_changes p) \<le> MAX_PULL_PAGE \<and> (\<not> pl_has_more p \<longrightarrow> pl_changes p = [] \<longrightarrow> pl_cursor p = vr_revision v)"
proof (cases "sized_rows v since = []")
  case True
  then have "newer_rows v since = []" by (auto simp: sized_rows_def PULL_WINDOW_def)
  moreover have t: "table_ok (vr_items v)" using assms(1) by (simp add: server_ok_def)
  ultimately have n: "\<not> (\<exists>u r. get (vr_items v) u = Some r \<and> since < ir_revision r)"
    using newer_rows_set [OF t, of _ _ since] by auto
  have "page_len [] b = 0" for b by (simp add: page_len_def page_loop.simps)
  then show ?thesis using True assms(2) n by (auto simp: pull_def Let_def)
next
  case False
  let ?s = "sized_rows v since"
  define e where "e = page_len ?s (length ?s = PULL_WINDOW)"
  note g = page_of_pull [OF assms(1) e_def False]
  define c where "c = fst (?s ! (e - 1))"
  let ?f = "filter (\<lambda>(u, r). ir_revision r \<le> c) (newer_rows v since)"
  have t: "table_ok (vr_items v)" using assms(1) by (simp add: server_ok_def)
  have p: "pull ses now since v v = Inr \<lparr>pl_cursor = c, pl_has_more = e < length ?s, pl_changes = map change_json ?f,
      pl_account = account_json (ses_subscription ses) now\<rparr>"
    using assms(2) g(1) by (simp add: pull_def Let_def e_def [symmetric] c_def)
  have m: "set ?f = {(u, r). get (vr_items v) u = Some r \<and> since < ir_revision r \<and> ir_revision r \<le> c}"
    using newer_rows_set [OF t] by auto
  have "e - 1 < length ?s" using g(1,2) by simp
  then have "newer_rows v since ! (e - 1) \<in> set ?f"
    using sized_mem [of "e - 1" v since] by (simp add: c_def case_prod_beta)
  then have ne: "?f \<noteq> []" by (auto simp: filter_empty_conv)
  have few: "length ?f \<le> MAX_PULL_PAGE"
    using page_rows [OF assms(1) e_def False] page_rows_few [OF assms(1) e_def False] by (simp add: c_def)
  have "sorted (map co_revision (map change_json ?f))" and "distinct (map co_item_id (map change_json ?f))"
  proof -
    have q: "map co_revision (map change_json ?f) = map (\<lambda>(u, r). ir_revision r) ?f" "map co_item_id (map change_json ?f) = map fst ?f"
      by (simp_all add: change_json_def case_prod_beta)
    show "sorted (map co_revision (map change_json ?f))" unfolding q by (rule sorted_filter [OF newer_rows_sorted])
    show "distinct (map co_item_id (map change_json ?f))" unfolding q by (rule distinct_map_filter [OF newer_rows_distinct [OF t]])
  qed
  moreover have "(e < length ?s) = (\<exists>u r. get (vr_items v) u = Some r \<and> since < ir_revision r \<and> c < ir_revision r)"
    using g(4,6) unfolding c_def by (metis order.strict_trans)
  ultimately show ?thesis using p m ne few g(4,5) unfolding c_def [symmetric] by (auto simp: image_iff)
qed


subsection \<open>Attachments\<close>

lemma put_attachment_Inr:
  assumes "put_attachment m ses a item blob v = Inr v'"
  shows "v' = v \<and> (\<exists>r. get (vr_attachments v) a = Some r \<and> ar_item_id r = item \<and> ar_blob r = blob) \<or>
    get (vr_attachments v) a = None \<and> attachment_bytes v + int (length blob) \<le> MAX_ATTACHMENT_VAULT_BYTES \<and>
    vault_bytes v + int (length blob) \<le> m \<and>
    v' = v\<lparr>vr_attachments := put a \<lparr>ar_item_id = item, ar_blob = blob, ar_committed = False\<rparr> (vr_attachments v)\<rparr>"
  using assms by (auto simp: put_attachment_def result_simps split: option.splits if_splits)

lemma put_fresh: "get t a = None \<Longrightarrow> put a r t = t @ [(a, r)]"
proof (induction t)
  case (Cons x t)
  then show ?case by (cases x) (auto simp: get_def put_def split: if_splits)
qed (simp add: put_def)

lemma put_attachment_ok:
  assumes "server_ok v" and "put_attachment m ses a item blob v = Inr v'"
  shows "server_ok v' \<and> later v v'"
proof (cases "v' = v")
  case True
  then show ?thesis using assms(1) later_refl by simp
next
  case False
  let ?r = "\<lparr>ar_item_id = item, ar_blob = blob, ar_committed = False\<rparr>"
  have f: "get (vr_attachments v) a = None" "attachment_bytes v + int (length blob) \<le> MAX_ATTACHMENT_VAULT_BYTES"
    "v' = v\<lparr>vr_attachments := put a ?r (vr_attachments v)\<rparr>"
    using put_attachment_Inr [OF assms(2)] False by auto
  have "attachment_bytes v' = attachment_bytes v + int (length blob)"
    by (simp add: f(3) attachment_bytes_def put_fresh [OF f(1)])
  then show ?thesis
    using assms(1) f(2) tab.wf_upsert [of "vr_attachments v" a ?r]
    by (auto simp: server_ok_def later_def f(3) rows_at_def row_ok_def list_all_iff)
qed

subsection \<open>The server as a state machine\<close>

inductive server_step :: "int \<Rightarrow> vault_row \<Rightarrow> vault_row \<Rightarrow> bool" for max_bytes where
  step_write: "check_batch changes = Inr () \<Longrightarrow> write_vault max_bytes changes v = Inr (reply, v') \<Longrightarrow> server_step max_bytes v v'"
| step_put: "put_attachment max_bytes ses a item blob v = Inr v' \<Longrightarrow> server_step max_bytes v v'"

definition new_vault :: "bytes \<Rightarrow> int \<Rightarrow> int \<Rightarrow> vault_row" where
  "new_vault hdr hrev sch = \<lparr>vr_revision = 0, vr_header = hdr, vr_header_revision = hrev, vr_key_scheme = sch,
     vr_items = [], vr_attachments = []\<rparr>"

lemma new_vault_ok: "server_ok (new_vault hdr hrev sch)"
  by (simp add: server_ok_def new_vault_def rows_at_def attachment_bytes_def MAX_ATTACHMENT_VAULT_BYTES_def i64_max_def)

lemma server_step_ok: "server_ok v \<Longrightarrow> server_step m v v' \<Longrightarrow> server_ok v'"
  by (erule server_step.cases) (auto intro: write_server_ok dest: put_attachment_ok)

lemma server_step_later: "server_step m v v' \<Longrightarrow> server_ok v \<Longrightarrow> later v v'"
  by (erule server_step.cases) (auto simp: check_batch_Inr intro: write_later dest: put_attachment_ok)

interpretation server_machine: invariant_system
  "\<lambda>v. \<exists>hdr hrev sch. v = new_vault hdr hrev sch" "server_step m" server_ok
  by unfold_locales (auto intro: new_vault_ok server_step_ok)

lemma server_run_later:
  assumes "(server_step m)\<^sup>*\<^sup>* v v'" and "server_ok v"
  shows "server_ok v' \<and> later v v'"
  using assms
proof (induction rule: rtranclp_induct)
  case (step y z)
  then show ?case using server_step_ok server_step_later later_trans by blast
qed (simp add: later_refl)

subsection \<open>Fetching\<close>

lemma answer_loop_prefix: "\<exists>k. answer_loop rows answered b = answered @ map fst (take k rows) \<and> (answered = [] \<longrightarrow> rows \<noteq> [] \<longrightarrow> 0 < k)"
proof (induction rows answered b rule: answer_loop.induct)
  case (2 u n rows answered b)
  show ?case
  proof (cases "answered \<noteq> [] \<and> MAX_PAGE_BYTES < b + n")
    case True
    then show ?thesis by (intro exI [of _ 0]) auto
  next
    case False
    from 2 [OF this] obtain k where "answer_loop rows (answered @ [u]) (b + n) = (answered @ [u]) @ map fst (take k rows)" by blast
    moreover have "answer_loop ((u, n) # rows) answered b = answer_loop rows (answered @ [u]) (b + n)"
      by (subst answer_loop.simps) (simp only: if_not_P [OF False])
    ultimately show ?thesis by (intro exI [of _ "Suc k"]) simp
  qed
qed simp

lemma asked_rows_set: "table_ok (vr_items v) \<Longrightarrow> (u, r) \<in> set (asked_rows v ids) \<longleftrightarrow> get (vr_items v) u = Some r \<and> u \<in> set ids"
  by (auto simp: asked_rows_def get_Some_iff)

lemma asked_ids: "table_ok (vr_items v) \<Longrightarrow> fst ` set (asked_rows v ids) = {u. u \<in> set ids \<and> get (vr_items v) u \<noteq> None}"
proof (intro set_eqI iffI)
  fix u assume t: "table_ok (vr_items v)" and "u \<in> fst ` set (asked_rows v ids)"
  then obtain r where "(u, r) \<in> set (asked_rows v ids)" by auto
  then show "u \<in> {u. u \<in> set ids \<and> get (vr_items v) u \<noteq> None}" using asked_rows_set [OF t] by simp
next
  fix u assume t: "table_ok (vr_items v)" and "u \<in> {u. u \<in> set ids \<and> get (vr_items v) u \<noteq> None}"
  then obtain r where "u \<in> set ids" "get (vr_items v) u = Some r" by auto
  then have "(u, r) \<in> set (asked_rows v ids)" using asked_rows_set [OF t] by simp
  then show "u \<in> fst ` set (asked_rows v ids)" by (rule rev_image_eqI) simp
qed

section \<open>A vault for the witnesses\<close>

definition toy_ses :: server_session where
  "toy_ses = \<lparr>ses_account_id = 1, ses_device_id = 2, ses_vault_id = 9, ses_subscription = None, ses_entitlement = PlanFull\<rparr>"

definition toy_change :: change where
  "toy_change = \<lparr>ch_item_id = 7, ch_base_revision = None, ch_overview = Some [1], ch_details = Some [2], ch_deleted = False,
     ch_attachment_ids = None\<rparr>"

definition toy_written :: vault_row where
  "toy_written = (new_vault [] 0 3)\<lparr>vr_revision := 1,
     vr_items := [(7, \<lparr>ir_overview = Some [1], ir_details = Some [2], ir_deleted = False, ir_revision = 1\<rparr>)]\<rparr>"

lemma toy_checked: "check_batch [toy_change] = Inr ()"
  by (simp add: check_batch_def MAX_CHANGES_PER_BATCH_def check_change_def toy_change_def attachment_ids_valid_def)

lemma toy_write: "write_vault 1000 [toy_change] (new_vault [] 0 3) = Inr (Written 1 [(7, 1)], toy_written)"
  by (simp add: write_vault_def find_conflicts_def conflict_of_def toy_change_def new_vault_def apply_change_def apply_attachments_def
      vault_bytes_def attachment_bytes_def blob_len_def toy_written_def i64_max_def put_def Let_def)

lemma toy_written_ok: "server_ok toy_written"
  by (rule write_server_ok [OF new_vault_ok toy_checked toy_write])

section \<open>Claims\<close>

text \<open>
  C16. No write is lost. When a batch is accepted, every change in it was made against the row the vault
  holds (or against no row where there is none); the vault's revision goes up by one; the rows of the
  batch, and they only, now hold what the batch says, at the new revision; other vaults are untouched.
  In every other case, a conflict, a malformed batch, a frozen account, a full vault, an unknown
  attachment, the whole database is as it was; and a batch with a stale change never gets in.
\<close>

theorem write_items_atomic:
  assumes "write_items m ses cs db = (reply, db')"
  shows "(case reply of
      Inr (Written rv acks) \<Rightarrow> \<exists>v v'. db (ses_vault_id ses) = Some v \<and> db' = db(ses_vault_id ses \<mapsto> v') \<and>
        rv = vr_revision v + 1 \<and> vr_revision v' = rv \<and> acks = map (\<lambda>c. (ch_item_id c, rv)) cs \<and>
        list_all (\<lambda>c. ch_base_revision c = map_option ir_revision (get (vr_items v) (ch_item_id c))) cs \<and>
        (get (vr_items v') u = (case find (\<lambda>c. ch_item_id c = u) cs of None \<Rightarrow> get (vr_items v) u
           | Some c \<Rightarrow> Some \<lparr>ir_overview = ch_overview c, ir_details = ch_details c, ir_deleted = ch_deleted c, ir_revision = rv\<rparr>))
    | _ \<Rightarrow> db' = db) \<and>
    (case db (ses_vault_id ses) of Some v \<Rightarrow>
       list_ex (\<lambda>c. ch_base_revision c \<noteq> map_option ir_revision (get (vr_items v) (ch_item_id c))) cs \<longrightarrow> db' = db
     | None \<Rightarrow> db' = db)"
proof (cases "\<exists>rv acks. reply = Inr (Written rv acks)")
  case True
  then obtain rv acks where r: "reply = Inr (Written rv acks)" by blast
  then obtain v v' where w: "check_batch cs = Inr ()" "db (ses_vault_id ses) = Some v" "db' = db(ses_vault_id ses \<mapsto> v')"
    "write_vault m cs v = Inr (Written rv acks, v')"
    using write_items_Written assms by metis
  have d: "distinct (map ch_item_id cs)" and k: "list_all (\<lambda>c. check_change c = Inr ()) cs" using w(1) by (simp_all add: check_batch_Inr)
  note x = write_vault_Written [OF w(4)] and g = written_items [OF w(4) d]
  have "written_row c rv = \<lparr>ir_overview = ch_overview c, ir_details = ch_details c, ir_deleted = ch_deleted c, ir_revision = rv\<rparr>"
    if "find (\<lambda>c. ch_item_id c = u) cs = Some c" for c
  proof -
    have "c \<in> set cs" using that by (auto simp: find_Some_iff)
    then show ?thesis using k by (auto simp: list_all_iff check_change_def written_row_def result_simps Let_def split: if_splits)
  qed
  then have "get (vr_items v') u = (case find (\<lambda>c. ch_item_id c = u) cs of None \<Rightarrow> get (vr_items v) u
     | Some c \<Rightarrow> Some \<lparr>ir_overview = ch_overview c, ir_details = ch_details c, ir_deleted = ch_deleted c, ir_revision = rv\<rparr>)"
    using g(1) [of u] by (auto split: option.splits)
  moreover have "list_all (\<lambda>c. ch_base_revision c = map_option ir_revision (get (vr_items v) (ch_item_id c))) cs"
    using x by (auto simp: list_all_iff conflict_of_None)
  ultimately show ?thesis
    using r w x g(2) by (auto simp: list_all_iff list_ex_iff)
next
  case False
  have "db' = db" using write_items_refused [OF assms False] .
  then show ?thesis using False by (auto split: sum.splits write_reply.splits option.splits)
qed

lemma write_items_atomic_witness:
  "\<exists>db' v'. write_items 1000 toy_ses [toy_change] [9 \<mapsto> new_vault [] 0 3] = (Inr (Written 1 [(7, 1)]), db') \<and> db' 9 = Some v' \<and>
     map_option ir_overview (get (vr_items v') 7) = Some (Some [1])"
proof -
  have w: "write_items 1000 toy_ses [toy_change] [9 \<mapsto> new_vault [] 0 3] = (Inr (Written 1 [(7, 1)]), [9 \<mapsto> toy_written])"
    using toy_write by (simp add: write_items_def toy_ses_def require_full_def toy_checked)
  obtain v' where "([9 \<mapsto> toy_written] :: database) = [9 \<mapsto> v']" "map_option ir_overview (get (vr_items v') 7) = Some (Some [1])"
    using write_items_atomic [OF w, of 7, THEN conjunct1] by (auto simp: toy_ses_def toy_change_def)
  then show ?thesis using w by (metis fun_upd_same)
qed

text \<open>
  C19. A pull is exact. On the rows of a vault that the server's writes can produce, a pull from any
  cursor at or above zero answers; what it sends are exactly the rows after that cursor up to the new one, in
  order and once each, deletions included; the new cursor is past the old one when anything is sent
  and never past the vault's revision; and more is announced, with something sent, exactly when there are rows
  beyond it.
\<close>

theorem pull_exact:
  assumes "server_ok v" and "0 \<le> since"
  shows "\<exists>p. pull ses now since v v = Inr p \<and>
    set (pl_changes p) = {change_json (u, r) | u r. get (vr_items v) u = Some r \<and> since < ir_revision r \<and> ir_revision r \<le> pl_cursor p} \<and>
    sorted (map co_revision (pl_changes p)) \<and> distinct (map co_item_id (pl_changes p)) \<and>
    (pl_changes p \<noteq> [] \<longrightarrow> since < pl_cursor p) \<and>
    (pl_has_more p \<longleftrightarrow> (\<exists>u r. get (vr_items v) u = Some r \<and> since < ir_revision r \<and> pl_cursor p < ir_revision r)) \<and>
    (pl_has_more p \<longrightarrow> pl_changes p \<noteq> []) \<and> pl_cursor p \<le> vr_revision v"
  using pull_page [OF assms, of ses now] by blast

lemma pull_exact_witness:
  "\<exists>p. pull toy_ses 0 0 toy_written toy_written = Inr p \<and> \<not> pl_has_more p \<and> pl_cursor p = 1 \<and> 7 \<in> co_item_id ` set (pl_changes p)"
proof -
  obtain p where p: "pull toy_ses 0 0 toy_written toy_written = Inr p"
    "set (pl_changes p) = {change_json (u, r) | u r. get (vr_items toy_written) u = Some r \<and> 0 < ir_revision r \<and> ir_revision r \<le> pl_cursor p}"
    "pl_changes p \<noteq> [] \<longrightarrow> 0 < pl_cursor p" "pl_cursor p \<le> vr_revision toy_written"
    "pl_has_more p \<longleftrightarrow> (\<exists>u r. get (vr_items toy_written) u = Some r \<and> 0 < ir_revision r \<and> pl_cursor p < ir_revision r)"
    "pl_has_more p \<longrightarrow> pl_changes p \<noteq> []"
    using pull_exact [OF toy_written_ok, of 0 toy_ses 0] by auto
  let ?r = "\<lparr>ir_overview = Some [1], ir_details = Some [2], ir_deleted = False, ir_revision = 1\<rparr> :: item_row"
  have g: "get (vr_items toy_written) u = (if u = 7 then Some ?r else None)" for u by (simp add: toy_written_def get_def)
  have c: "pl_cursor p = 1"
  proof (cases "pl_has_more p")
    case True
    then show ?thesis using p(3,4,6) by (simp add: toy_written_def)
  next
    case False
    then have "1 \<le> pl_cursor p" using p(5) g [of 7] by auto
    then show ?thesis using p(4) by (simp add: toy_written_def)
  qed
  have "change_json (7, ?r) \<in> set (pl_changes p)" unfolding p(2) c using g [of 7] by (intro CollectI exI [of _ 7] exI [of _ ?r]) simp
  moreover have "co_item_id (change_json (7, ?r)) = 7" by (simp add: change_json_def)
  ultimately have "7 \<in> co_item_id ` set (pl_changes p)" by (metis image_eqI)
  moreover have "\<not> pl_has_more p" using p(5) c g by auto
  ultimately show ?thesis using p(1) c by blast
qed

text \<open>
  C17. A pull that sends anything is safe against concurrent writes. The sizes and the blobs are read by
  two statements; whatever the server does in between, every row the first statement counted for
  this page is either sent as it is or has been rewritten beyond the new cursor, where a later pull
  finds it, and nothing has moved into the page.
\<close>

theorem pull_interleaved:
  assumes "server_ok v1" and "(server_step m)\<^sup>*\<^sup>* v1 v2" and "0 \<le> since"
    and "\<exists>u r. get (vr_items v1) u = Some r \<and> since < ir_revision r"
  shows "\<exists>p. pull ses now since v1 v2 = Inr p \<and> since < pl_cursor p \<and>
    (\<forall>u r. get (vr_items v1) u = Some r \<longrightarrow> since < ir_revision r \<longrightarrow> ir_revision r \<le> pl_cursor p \<longrightarrow>
       change_json (u, r) \<in> set (pl_changes p) \<or> (\<exists>r2. get (vr_items v2) u = Some r2 \<and> pl_cursor p < ir_revision r2)) \<and>
    set (pl_changes p) \<subseteq> {change_json (u, r) | u r. get (vr_items v1) u = Some r} \<and>
    set (pl_changes p) = {change_json (u, r) | u r. get (vr_items v2) u = Some r \<and> since < ir_revision r \<and> ir_revision r \<le> pl_cursor p}"
proof -
  have l: "server_ok v2" "later v1 v2" using server_run_later [OF assms(2,1)] by auto
  have t: "table_ok (vr_items v1)" "table_ok (vr_items v2)" using assms(1) l(1) by (simp_all add: server_ok_def)
  let ?s = "sized_rows v1 since"
  have "newer_rows v1 since \<noteq> []"
  proof -
    obtain u r where "get (vr_items v1) u = Some r" "since < ir_revision r" using assms(4) by blast
    then have "(u, r) \<in> set (newer_rows v1 since)" using newer_rows_set [OF t(1)] by blast
    then show ?thesis by auto
  qed
  then have ne: "?s \<noteq> []" by (simp add: sized_rows_def PULL_WINDOW_def)
  define e where "e = page_len ?s (length ?s = PULL_WINDOW)"
  note g = page_of_pull [OF assms(1) e_def ne]
  define c where "c = fst (?s ! (e - 1))"
  let ?f = "filter (\<lambda>(u, r). ir_revision r \<le> c) (newer_rows v2 since)"
  have p: "pull ses now since v1 v2 = Inr \<lparr>pl_cursor = c, pl_has_more = e < length ?s, pl_changes = map change_json ?f,
      pl_account = account_json (ses_subscription ses) now\<rparr>"
    using assms(3) g(1) by (simp add: pull_def Let_def e_def [symmetric] c_def)
  have m: "set ?f = {(u, r). get (vr_items v2) u = Some r \<and> since < ir_revision r \<and> ir_revision r \<le> c}"
    using newer_rows_set [OF t(2)] by auto
  have c: "since < c" "c \<le> vr_revision v1" using g(4,5) by (simp_all add: c_def)
  have a: "(u, r) \<in> set ?f \<or> (\<exists>r2. get (vr_items v2) u = Some r2 \<and> c < ir_revision r2)"
    if u: "get (vr_items v1) u = Some r" "since < ir_revision r" "ir_revision r \<le> c" for u r
  proof -
    obtain r2 where "get (vr_items v2) u = Some r2" "r2 = r \<or> vr_revision v1 < ir_revision r2"
      using l(2) u(1) unfolding later_def by blast
    then show ?thesis unfolding m using u c(2) by auto
  qed
  have b: "get (vr_items v1) u = Some r" if "(u, r) \<in> set ?f" for u r
  proof -
    have "get (vr_items v2) u = Some r" "ir_revision r \<le> vr_revision v1" using that c(2) unfolding m by auto
    then show ?thesis using l(2) unfolding later_def by fastforce
  qed
  have s: "set (map change_json ?f) = {change_json (u, r) | u r. (u, r) \<in> set ?f}" by auto
  show ?thesis
    unfolding p sum.inject
    by (rule exI, rule conjI [OF refl], unfold pull_reply.simps s) (use a b c(1) m in blast)
qed

lemma pull_interleaved_witness:
  "\<exists>p. pull toy_ses 0 0 toy_written toy_written = Inr p \<and> 0 < pl_cursor p"
proof -
  have "\<exists>u r. get (vr_items toy_written) u = Some r \<and> 0 < ir_revision r" by (auto simp: toy_written_def get_def)
  then show ?thesis using pull_interleaved [OF toy_written_ok rtranclp.rtrancl_refl, of 0] by blast
qed

text \<open>
  C18. A pull that finds nothing can lose a concurrent write. When no row is after the cursor, the
  answer's cursor is read by a second statement. A batch committed between the two makes it the
  revision of that batch, while the batch itself is not sent: every item it wrote is at or below the
  cursor the device now stores, so later pulls from there do not send it either.
\<close>

theorem idle_pull_skips_concurrent_write:
  assumes "server_ok v1" and "check_batch cs = Inr ()" and "write_vault m cs v1 = Inr (Written rv acks, v2)"
    and "0 \<le> since" and "\<not> (\<exists>u r. get (vr_items v1) u = Some r \<and> since < ir_revision r)" and "since \<le> vr_revision v1"
  shows "\<exists>p q. pull ses now since v1 v2 = Inr p \<and> pl_changes p = [] \<and> \<not> pl_has_more p \<and> pl_cursor p = rv \<and>
    list_all (\<lambda>c. \<exists>r. get (vr_items v2) (ch_item_id c) = Some r \<and> since < ir_revision r \<and> ir_revision r = pl_cursor p) cs \<and>
    pull ses now (pl_cursor p) v2 v2 = Inr q \<and> pl_changes q = []"
proof -
  have ok: "server_ok v2" by (rule write_server_ok [OF assms(1-3)])
  have d: "distinct (map ch_item_id cs)" using assms(2) by (simp add: check_batch_Inr)
  note x = write_vault_Written [OF assms(3)] and g = written_items [OF assms(3) d]
  have none: "pull ses now k v v' = Inr \<lparr>pl_cursor = vr_revision v', pl_has_more = False, pl_changes = [],
      pl_account = account_json (ses_subscription ses) now\<rparr>"
    if "server_ok v" "0 \<le> k" "\<not> (\<exists>u r. get (vr_items v) u = Some r \<and> k < ir_revision r)" for k v v'
  proof -
    have "table_ok (vr_items v)" using that(1) by (simp add: server_ok_def)
    then have "newer_rows v k = []" using that(3) newer_rows_set [of v _ _ k] by (metis surj_pair list.set_intros(1) neq_Nil_conv)
    then have "sized_rows v k = []" by (simp add: sized_rows_def)
    moreover have "page_len [] b = 0" for b by (simp add: page_len_def page_loop.simps)
    ultimately show ?thesis using that(2) by (simp add: pull_def)
  qed
  have "list_all (\<lambda>c. \<exists>r. get (vr_items v2) (ch_item_id c) = Some r \<and> since < ir_revision r \<and> ir_revision r = rv) cs"
  proof -
    have "\<exists>r. get (vr_items v2) (ch_item_id c) = Some r \<and> ir_revision r = rv" if "c \<in> set cs" for c
      using g(1) [of "ch_item_id c"] that by (cases "find (\<lambda>d. ch_item_id d = ch_item_id c) cs") (auto simp: find_None_iff)
    moreover have "since < rv" using x assms(6) by simp
    ultimately show ?thesis by (fastforce simp: list_all_iff)
  qed
  moreover have "pull ses now since v1 v2 = Inr \<lparr>pl_cursor = rv, pl_has_more = False, pl_changes = [],
      pl_account = account_json (ses_subscription ses) now\<rparr>"
    using none [OF assms(1,4,5), of v2] g(2) by simp
  moreover have "pull ses now rv v2 v2 = Inr \<lparr>pl_cursor = vr_revision v2, pl_has_more = False, pl_changes = [],
      pl_account = account_json (ses_subscription ses) now\<rparr>"
  proof (rule none [OF ok])
    show "0 \<le> rv" using x assms(4,6) by simp
    show "\<not> (\<exists>u r. get (vr_items v2) u = Some r \<and> rv < ir_revision r)"
    proof
      assume "\<exists>u r. get (vr_items v2) u = Some r \<and> rv < ir_revision r"
      then obtain u r where "get (vr_items v2) u = Some r" "rv < ir_revision r" by blast
      then show False using server_ok_row [OF ok, of u r] g(2) by (simp add: row_ok_def)
    qed
  qed
  ultimately show ?thesis by simp
qed

lemma idle_pull_skips_concurrent_write_witness:
  "\<exists>p. pull toy_ses 0 0 (new_vault [] 0 3) toy_written = Inr p \<and> pl_changes p = [] \<and> pl_cursor p = 1 \<and> get (vr_items toy_written) 7 \<noteq> None"
  using idle_pull_skips_concurrent_write [OF new_vault_ok toy_checked toy_write, of 0 toy_ses 0]
  by (auto simp: new_vault_def toy_change_def)

text \<open>
  A fetch answers for every item that was asked for and exists: each is sent as its current row
  or named as not answered, never both and never left out, and at least one is sent when any exists.
\<close>

theorem fetch_exact:
  assumes "server_ok v" and "fetch ids v v = Inr f"
  shows "set (fr_unanswered f) \<union> co_item_id ` set (fr_changes f) = {u. u \<in> set ids \<and> get (vr_items v) u \<noteq> None} \<and>
    set (fr_unanswered f) \<inter> co_item_id ` set (fr_changes f) = {} \<and>
    set (fr_changes f) \<subseteq> {change_json (u, r) | u r. get (vr_items v) u = Some r} \<and>
    ((\<exists>u\<in>set ids. get (vr_items v) u \<noteq> None) \<longrightarrow> fr_changes f \<noteq> [])"
proof -
  have t: "table_ok (vr_items v)" using assms(1) by (simp add: server_ok_def)
  let ?a = "asked_rows v ids" and ?s = "map (\<lambda>(u, r). (u, row_bytes r)) (asked_rows v ids)"
  have fs: "map fst ?s = map fst ?a" by (simp add: case_prod_beta)
  obtain k where k: "answer_loop ?s [] 0 = map fst (take k ?s)" "?s \<noteq> [] \<longrightarrow> 0 < k"
    using answer_loop_prefix [of ?s "[]" 0] by auto
  have kt: "map fst (take k ?s) = map fst (take k ?a)" by (metis fs take_map)
  have f: "f = \<lparr>fr_changes = map change_json (asked_rows v (map fst (take k ?a))),
      fr_unanswered = map fst (drop (length (take k ?a)) ?a)\<rparr>"
  proof -
    have "map fst (drop n ?s) = map fst (drop n ?a)" for n by (metis fs drop_map)
    moreover have "f = \<lparr>fr_changes = map change_json (asked_rows v (answer_loop ?s [] 0)),
        fr_unanswered = map fst (drop (length (answer_loop ?s [] 0)) ?s)\<rparr>"
      using assms(2) by (simp add: fetch_def Let_def split: if_splits)
    ultimately show ?thesis unfolding k(1) kt by (simp only: length_map)
  qed
  have "distinct (map fst ?a)"
  proof -
    have "distinct ?a" using t by (simp add: asked_rows_def table_ok_def distinct_map)
    moreover have "inj_on fst (set ?a)" using asked_rows_set [OF t] by (auto simp: inj_on_def)
    ultimately show ?thesis by (simp add: distinct_map)
  qed
  note d = this
  define n where "n = length (take k ?a)"
  have tk: "take k ?a = take n ?a" by (simp add: n_def min_def)
  have dis: "fst ` set (drop n ?a) \<inter> fst ` set (take n ?a) = {}"
    using set_take_disj_set_drop_if_distinct [OF d, of n n] by (simp only: take_map drop_map set_map Int_commute order_refl simp_thms)
  have un: "fst ` set (drop n ?a) \<union> fst ` set (take n ?a) = fst ` set ?a"
    using arg_cong [OF append_take_drop_id [of n ?a], of "\<lambda>xs. fst ` set xs"] by (simp add: image_Un Un_commute del: append_take_drop_id)
  note ids = asked_ids [OF t]
  have ch: "co_item_id ` set (fr_changes f) = fst ` set (take k ?a)"
  proof -
    have "co_item_id (change_json x) = fst x" for x by (simp add: change_json_def case_prod_beta)
    then have "co_item_id ` set (fr_changes f) = fst ` set (asked_rows v (map fst (take k ?a)))" by (simp add: f image_image)
    also have "\<dots> = fst ` set (take k ?a)"
    proof -
      have "fst ` set (take k ?a) \<subseteq> fst ` set ?a" by (intro image_mono set_take_subset)
      then show ?thesis unfolding ids by auto
    qed
    finally show ?thesis .
  qed
  have "fr_changes f \<noteq> []" if "\<exists>u\<in>set ids. get (vr_items v) u \<noteq> None"
  proof -
    have "fst ` set ?a \<noteq> {}" unfolding ids using that by auto
    then have "?a \<noteq> []" by auto
    then have "take k ?a \<noteq> []" using k(2) by auto
    then show ?thesis using ch by auto
  qed
  moreover have "set (fr_changes f) \<subseteq> {change_json (u, r) | u r. get (vr_items v) u = Some r}"
    using asked_rows_set [OF t] by (auto simp: f) blast
  moreover have "set (fr_unanswered f) = fst ` set (drop n ?a)" by (simp add: f n_def)
  ultimately show ?thesis using ch un dis ids tk by simp
qed

lemma fetch_exact_witness:
  "\<exists>f. fetch [7, 8] toy_written toy_written = Inr f \<and> fr_changes f \<noteq> []"
proof -
  obtain f where f: "fetch [7, 8] toy_written toy_written = Inr f"
    by (simp add: fetch_def MAX_CHANGES_PER_BATCH_def Let_def)
  have "\<exists>u\<in>set [7, 8]. get (vr_items toy_written) u \<noteq> None" by (simp add: toy_written_def get_def)
  then show ?thesis using fetch_exact [OF toy_written_ok f] f by blast
qed

end
