(* ===== verification/Device.thy ===== *)
theory Device
  imports Keys
begin

text \<open>
  What a device keeps outside the vault (\<^verbatim>\<open>havenkeys-client/src/device.rs\<close>, \<^verbatim>\<open>key_store.rs\<close>): its id and
  the Secret Key, in the platform's key store or, when that refuses, in \<^verbatim>\<open>device.json\<close>.

  The platform is an arbitrary machine: every call answers, times out or cannot be started, and leaves
  another machine behind. A call that timed out goes on without its caller, and \<open>pf_returned\<close> says
  whether it has come back by the next time someone looks. Writing \<^verbatim>\<open>device.json\<close> goes through a
  temporary file and a rename, so it happens whole or not at all; \<open>pf_save\<close> says which.
\<close>

section \<open>Model\<close>

subsection \<open>The platform's key store\<close>

datatype Storage = StKeychain | StFile | StNone

datatype store_error = StoreError

datatype 'a reply = Answered "store_error + 'a" | NotStarted | TimedOut

codatatype platform = Platform
  (pf_get: "uuid \<Rightarrow> rstring option reply \<times> platform")
  (pf_set: "uuid \<Rightarrow> rstring \<Rightarrow> unit reply \<times> platform")
  (pf_delete: "uuid \<Rightarrow> unit reply \<times> platform")
  (pf_returned: "bool \<times> platform")
  (pf_save: "bool \<times> platform")

record timed_store =
  ts_inner :: platform
  ts_busy :: bool

definition timed_new :: "platform \<Rightarrow> timed_store" where
  "timed_new p = \<lparr>ts_inner = p, ts_busy = False\<rparr>"

text \<open>The flag as the next reader finds it: the thread of an abandoned call clears it when it returns.\<close>

definition look :: "timed_store \<Rightarrow> timed_store" where
  "look s = (if ts_busy s then (case pf_returned (ts_inner s) of (back, p) \<Rightarrow> \<lparr>ts_inner = p, ts_busy = \<not> back\<rparr>) else s)"

definition timed_call :: "(platform \<Rightarrow> 'a reply \<times> platform) \<Rightarrow> timed_store \<Rightarrow> (store_error + 'a) \<times> timed_store" where
  "timed_call f s0 =
     (let s = look s0 in
      if ts_busy s then (Inl StoreError, s)
      else (case f (ts_inner s) of
          (Answered r, p) \<Rightarrow> (r, \<lparr>ts_inner = p, ts_busy = False\<rparr>)
        | (TimedOut, p) \<Rightarrow> (Inl StoreError, \<lparr>ts_inner = p, ts_busy = True\<rparr>)
        | (NotStarted, p) \<Rightarrow> (Inl StoreError, \<lparr>ts_inner = p, ts_busy = False\<rparr>)))"

definition timed_get :: "uuid \<Rightarrow> timed_store \<Rightarrow> (store_error + rstring option) \<times> timed_store" where
  "timed_get a = timed_call (\<lambda>p. pf_get p a)"

definition timed_set :: "uuid \<Rightarrow> rstring \<Rightarrow> timed_store \<Rightarrow> (store_error + unit) \<times> timed_store" where
  "timed_set a v = timed_call (\<lambda>p. pf_set p a v)"

definition timed_delete :: "uuid \<Rightarrow> timed_store \<Rightarrow> (store_error + unit) \<times> timed_store" where
  "timed_delete a = timed_call (\<lambda>p. pf_delete p a)"

definition wait_idle :: "timed_store \<Rightarrow> bool \<times> timed_store" where
  "wait_idle s = (\<not> ts_busy (look s), look s)"

text \<open>The in-memory store the tests use.\<close>

primcorec memory_store :: "(uuid \<rightharpoonup> rstring) \<Rightarrow> platform" where
  "memory_store m = Platform
     (\<lambda>a. map_prod id memory_store (Answered (Inr (m a)), m))
     (\<lambda>a v. map_prod id memory_store (Answered (Inr ()), m(a \<mapsto> v)))
     (\<lambda>a. map_prod id memory_store (Answered (Inr ()), m(a := None)))
     (map_prod id memory_store (True, m))
     (map_prod id memory_store (True, m))"

subsection \<open>The device\<close>

text \<open>What \<^verbatim>\<open>device.json\<close> is on disk, and whether an unreadable one was moved aside.\<close>

datatype disk_file = NoFile | CannotRead | Garbled | OnDisk uuid "rstring option"

record cached_key =
  ck_account :: uuid
  ck_text :: "rstring option"
  ck_storage :: Storage

record key_report =
  ks_missing :: bool
  ks_storage :: Storage

record device =
  dv_id :: uuid
  dv_file_key :: "rstring option"
  dv_cached :: "cached_key option"
  dv_store :: timed_store
  dv_file_fallback :: bool
  dv_read_failed :: bool
  dv_disk :: disk_file

definition parses :: "key_env \<Rightarrow> rstring \<Rightarrow> bool" where
  "parses env s = is_ok (parse_secret_key env s)"

datatype io_error = IoError

definition save :: "device \<Rightarrow> (io_error + unit) \<times> device" where
  "save d =
     (if dv_read_failed d then (Inl IoError, d)
      else (case pf_save (ts_inner (dv_store d)) of
        (ok, p) \<Rightarrow>
          (let d1 = d\<lparr>dv_store := (dv_store d)\<lparr>ts_inner := p\<rparr>\<rparr> in
           if ok then (Inr (), d1\<lparr>dv_disk := OnDisk (dv_id d) (dv_file_key d)\<rparr>) else (Inl IoError, d1))))"

text \<open>\<open>moved\<close>: whether a garbled file could be renamed; \<open>new_id\<close>: the id a new file gets.\<close>

definition load :: "key_env \<Rightarrow> disk_file \<Rightarrow> bool \<Rightarrow> uuid \<Rightarrow> platform \<Rightarrow> device" where
  "load env disk moved new_id p =
     (let (found, read_failed, rest) = (case disk of
            OnDisk i k \<Rightarrow> (Some (i, k), False, disk)
          | Garbled \<Rightarrow> (None, \<not> moved, if moved then NoFile else Garbled)
          | NoFile \<Rightarrow> (None, False, NoFile)
          | CannotRead \<Rightarrow> (None, True, CannotRead));
          (i, key) = (case found of
            Some (i, k) \<Rightarrow> (i, case k of Some t \<Rightarrow> if parses env t then Some t else None | None \<Rightarrow> None)
          | None \<Rightarrow> (new_id, None))
      in snd (save \<lparr>dv_id = i, dv_file_key = key, dv_cached = None, dv_store = timed_new p,
           dv_file_fallback = True, dv_read_failed = read_failed, dv_disk = rest\<rparr>))"

definition without_file_fallback :: "device \<Rightarrow> device" where
  "without_file_fallback d = d\<lparr>dv_file_fallback := False\<rparr>"

definition resolve :: "key_env \<Rightarrow> uuid \<Rightarrow> device \<Rightarrow> (rstring option \<times> Storage \<times> bool) \<times> device" where
  "resolve env a d =
     (case (case dv_cached d of Some c \<Rightarrow> if ck_account c = a then Some c else None | None \<Rightarrow> None) of
        Some c \<Rightarrow> ((ck_text c, ck_storage c, True), d)
      | None \<Rightarrow>
          (let (got, ts) = timed_get a (dv_store d);
               fallback = (case dv_file_key d of
                 Some k \<Rightarrow> (Some k, StFile, True) | None \<Rightarrow> (None, StNone, is_ok got));
               (t, storage, definite) = (case got of
                 Inr (Some v) \<Rightarrow> if parses env v then (Some v, StKeychain, True) else fallback
               | _ \<Rightarrow> fallback)
           in ((t, storage, definite),
               d\<lparr>dv_store := ts, dv_cached := (if definite then Some \<lparr>ck_account = a, ck_text = t, ck_storage = storage\<rparr> else None)\<rparr>)))"

definition key_status :: "key_env \<Rightarrow> uuid \<Rightarrow> device \<Rightarrow> key_report \<times> device" where
  "key_status env a d = (case resolve env a d of
     ((t, storage, definite), d1) \<Rightarrow> (\<lparr>ks_missing = (t = None \<and> definite), ks_storage = storage\<rparr>, d1))"

definition secret_key_text :: "key_env \<Rightarrow> uuid \<Rightarrow> device \<Rightarrow> rstring option \<times> device" where
  "secret_key_text env a d = (case resolve env a d of ((t, _), d1) \<Rightarrow> (t, d1))"

definition secret_key :: "key_env \<Rightarrow> uuid \<Rightarrow> device \<Rightarrow> bytes option \<times> device" where
  "secret_key env a d = (case secret_key_text env a d of
     (t, d1) \<Rightarrow> (Option.bind t (\<lambda>s. to_option (parse_secret_key env s)), d1))"

definition secret_key_lookup :: "key_env \<Rightarrow> uuid \<Rightarrow> device \<Rightarrow> (rstring option \<times> bool) \<times> device" where
  "secret_key_lookup env a d = (case resolve env a d of ((t, _, definite), d1) \<Rightarrow> ((t, definite), d1))"

text \<open>The two calls of the short-circuiting test: the second is made only when the first succeeded.\<close>

definition stored_in_keychain :: "uuid \<Rightarrow> rstring \<Rightarrow> timed_store \<Rightarrow> bool \<times> timed_store" where
  "stored_in_keychain a t s = (case timed_set a t s of
     (Inl _, s1) \<Rightarrow> (False, s1)
   | (Inr _, s1) \<Rightarrow> (case timed_get a s1 of (got, s2) \<Rightarrow> (got = Inr (Some t), s2)))"

definition set_secret_key :: "key_env \<Rightarrow> uuid \<Rightarrow> bytes \<Rightarrow> device \<Rightarrow> (io_error + Storage) \<times> device" where
  "set_secret_key env a key d =
     (let t = to_text env key;
          (in_keychain, ts) = stored_in_keychain a t (dv_store d);
          d1 = d\<lparr>dv_store := ts\<rparr>
      in if \<not> in_keychain \<and> \<not> dv_file_fallback d then (Inl IoError, d1\<lparr>dv_cached := None\<rparr>)
         else (let (file_key, storage) = (if in_keychain then (None, StKeychain) else (Some t, StFile)) in
           case save (d1\<lparr>dv_file_key := file_key\<rparr>) of
             (Inl e, d2) \<Rightarrow> (Inl e, d2\<lparr>dv_file_key := dv_file_key d, dv_cached := None\<rparr>)
           | (Inr _, d2) \<Rightarrow>
               (Inr storage, d2\<lparr>dv_cached := Some \<lparr>ck_account = a, ck_text = Some t, ck_storage = storage\<rparr>\<rparr>)))"

definition migrate :: "key_env \<Rightarrow> uuid \<Rightarrow> device \<Rightarrow> device" where
  "migrate env a d = (case Option.bind (dv_file_key d) (\<lambda>s. to_option (parse_secret_key env s)) of
     None \<Rightarrow> d
   | Some key \<Rightarrow> snd (set_secret_key env a key d))"

definition delete_twice :: "uuid \<Rightarrow> timed_store \<Rightarrow> bool \<times> timed_store" where
  "delete_twice a s = (case timed_delete a s of
     (Inr _, s1) \<Rightarrow> (True, s1)
   | (Inl _, s1) \<Rightarrow> (case timed_delete a (snd (wait_idle s1)) of (r, s2) \<Rightarrow> (is_ok r, s2)))"

text \<open>Whether the keychain entry is known to be gone, and how writing the file went.\<close>

definition device_forget :: "uuid \<Rightarrow> uuid \<Rightarrow> device \<Rightarrow> (bool \<times> (io_error + unit)) \<times> device" where
  "device_forget new_id a d =
     (let (cleared, ts) = delete_twice a (dv_store d);
          (saved, d1) = save (d\<lparr>dv_store := ts, dv_file_key := None, dv_cached := None, dv_id := new_id\<rparr>)
      in ((cleared, saved), d1))"

text \<open>A run of the program on one device: it loads the file, then its operations follow in any order.\<close>

inductive device_start :: "key_env \<Rightarrow> device \<Rightarrow> bool" for env where
  loaded: "device_start env (load env disk moved new_id p)"
| loaded_strict: "device_start env (without_file_fallback (load env disk moved new_id p))"

inductive device_step :: "key_env \<Rightarrow> device \<Rightarrow> device \<Rightarrow> bool" for env d where
  do_resolve: "device_step env d (snd (resolve env a d))"
| do_set: "length key = SECRET_KEY_LEN \<Longrightarrow> device_step env d (snd (set_secret_key env a key d))"
| do_migrate: "device_step env d (migrate env a d)"
| do_forget: "device_step env d (snd (device_forget new_id a d))"

section \<open>Properties\<close>

subsection \<open>A key store that keeps what it is given\<close>

text \<open>
  What a device may expect of a platform that works: an entry written is the entry read, and a file
  that is written is there. \<open>entries\<close> is what the platform holds.
\<close>

locale working_platform =
  fixes works :: "platform \<Rightarrow> bool" and entries :: "platform \<Rightarrow> uuid \<Rightarrow> rstring option"
  assumes works_get: "works p \<Longrightarrow> \<exists>q. pf_get p a = (Answered (Inr (entries p a)), q) \<and> works q \<and> entries q = entries p"
    and works_set: "works p \<Longrightarrow> \<exists>q. pf_set p a v = (Answered (Inr ()), q) \<and> works q \<and> entries q = (entries p)(a \<mapsto> v)"
    and works_delete: "works p \<Longrightarrow> \<exists>q. pf_delete p a = (Answered (Inr ()), q) \<and> works q \<and> entries q = (entries p)(a := None)"
    and works_save: "works p \<Longrightarrow> \<exists>q. pf_save p = (True, q) \<and> works q \<and> entries q = entries p"
begin

definition fine :: "device \<Rightarrow> bool" where
  "fine d \<longleftrightarrow> works (ts_inner (dv_store d)) \<and> \<not> ts_busy (dv_store d) \<and> \<not> dv_read_failed d"

definition kept :: "device \<Rightarrow> uuid \<Rightarrow> rstring option" where
  "kept d = entries (ts_inner (dv_store d))"

lemma save_fine:
  assumes "fine d"
  shows "\<exists>d1. save d = (Inr (), d1) \<and> fine d1 \<and> kept d1 = kept d \<and> dv_disk d1 = OnDisk (dv_id d) (dv_file_key d)"
  using assms works_save [of "ts_inner (dv_store d)"] by (auto simp: save_def fine_def kept_def)

lemma set_fine:
  assumes "fine d"
  shows "\<exists>d1. set_secret_key env a key d = (Inr StKeychain, d1) \<and> fine d1 \<and> kept d1 = (kept d)(a \<mapsto> to_text env key) \<and>
    dv_disk d1 = OnDisk (dv_id d) None"
proof -
  obtain ts where ts: "stored_in_keychain a (to_text env key) (dv_store d) = (True, ts)" "works (ts_inner ts)" "\<not> ts_busy ts"
      "entries (ts_inner ts) = (kept d)(a \<mapsto> to_text env key)"
  proof -
    let ?p = "ts_inner (dv_store d)"
    obtain q where q: "pf_set ?p a (to_text env key) = (Answered (Inr ()), q)" "works q" "entries q = (entries ?p)(a \<mapsto> to_text env key)"
      using works_set [of ?p a "to_text env key"] assms by (auto simp: fine_def)
    obtain q2 where "pf_get q a = (Answered (Inr (entries q a)), q2)" "works q2" "entries q2 = entries q"
      using works_get [OF q(2)] by blast
    then show ?thesis
      using that [of "\<lparr>ts_inner = q2, ts_busy = False\<rparr>"] q assms
      by (simp add: stored_in_keychain_def timed_set_def timed_get_def timed_call_def look_def fine_def kept_def)
  qed
  let ?d = "d\<lparr>dv_store := ts, dv_file_key := None\<rparr>"
  have "fine ?d" "kept ?d = (kept d)(a \<mapsto> to_text env key)" using ts(2-4) assms by (simp_all add: fine_def kept_def)
  with save_fine obtain d1 where "save ?d = (Inr (), d1)" "fine d1" "kept d1 = (kept d)(a \<mapsto> to_text env key)"
      "dv_disk d1 = OnDisk (dv_id d) None" by fastforce
  then show ?thesis using ts(1) by (auto simp: set_secret_key_def Let_def fine_def kept_def)
qed

lemma forget_fine:
  assumes "fine d"
  shows "\<exists>d1. device_forget new_id a d = ((True, Inr ()), d1) \<and> fine d1 \<and> kept d1 = (kept d)(a := None) \<and> dv_disk d1 = OnDisk new_id None"
proof -
  let ?p = "ts_inner (dv_store d)"
  obtain q where q: "pf_delete ?p a = (Answered (Inr ()), q)" "works q" "entries q = (entries ?p)(a := None)"
    using works_delete [of ?p a] assms by (auto simp: fine_def)
  let ?ts = "\<lparr>ts_inner = q, ts_busy = False\<rparr>"
  have t: "delete_twice a (dv_store d) = (True, ?ts)"
    using q assms by (simp add: delete_twice_def timed_delete_def timed_call_def look_def fine_def)
  let ?d = "d\<lparr>dv_store := ?ts, dv_file_key := None, dv_cached := None, dv_id := new_id\<rparr>"
  have "fine ?d" "kept ?d = (kept d)(a := None)" using q assms by (simp_all add: fine_def kept_def)
  with save_fine obtain d1 where "save ?d = (Inr (), d1)" "fine d1" "kept d1 = (kept d)(a := None)" "dv_disk d1 = OnDisk new_id None"
    by fastforce
  then show ?thesis using t by (auto simp: device_forget_def)
qed

lemma load_fine:
  assumes "works p" and "disk \<noteq> CannotRead" and "moved"
  shows "fine (load env disk moved new_id p)" "kept (load env disk moved new_id p) = entries p" "dv_cached (load env disk moved new_id p) = None"
  using works_save [OF assms(1)] assms(2,3)
  by (auto simp: load_def save_def timed_new_def fine_def kept_def Let_def split: disk_file.splits)

lemma restart_finds:
  assumes "works p" and "disk \<noteq> CannotRead" and "moved" and "entries p a = Some v" and "parse_secret_key env v = Inr key"
  shows "fst (secret_key env a (load env disk moved new_id p)) = Some key"
proof -
  let ?d = "load env disk moved new_id p"
  note l = load_fine [OF assms(1-3), of env new_id]
  obtain q where "pf_get (ts_inner (dv_store ?d)) a = (Answered (Inr (Some v)), q)"
    using works_get [of "ts_inner (dv_store ?d)" a] l(1,2) assms(4) by (auto simp: fine_def kept_def)
  then show ?thesis
    using l assms(5) by (simp add: secret_key_def secret_key_text_def resolve_def timed_get_def timed_call_def look_def fine_def parses_def)
qed

end

definition entry_read :: "platform \<Rightarrow> uuid \<Rightarrow> rstring option" where
  "entry_read p a = (case fst (pf_get p a) of Answered (Inr v) \<Rightarrow> v | _ \<Rightarrow> None)"

lemma entry_read_memory [simp]: "entry_read (memory_store m) = m"
  by (rule ext) (simp add: entry_read_def)

interpretation memory_platform: working_platform "\<lambda>p. \<exists>m. p = memory_store m" entry_read
  by unfold_locales auto

subsection \<open>What every run keeps\<close>

text \<open>
  A key kept in memory for the file is the one in the file; a remembered lookup says what is there; a
  file that could not be read stays as it was found.
\<close>

definition lookup_ok :: "key_env \<Rightarrow> rstring option \<Rightarrow> cached_key \<Rightarrow> bool" where
  "lookup_ok env file_key c \<longleftrightarrow> (case ck_storage c of
     StKeychain \<Rightarrow> \<exists>t. ck_text c = Some t \<and> parses env t
   | StFile \<Rightarrow> ck_text c \<noteq> None \<and> ck_text c = file_key
   | StNone \<Rightarrow> ck_text c = None \<and> file_key = None)"

definition device_inv :: "key_env \<Rightarrow> device \<Rightarrow> bool" where
  "device_inv env d \<longleftrightarrow>
     (\<forall>k. dv_file_key d = Some k \<longrightarrow> parses env k \<and> (\<exists>i. dv_disk d = OnDisk i (Some k))) \<and>
     (\<forall>c. dv_cached d = Some c \<longrightarrow> lookup_ok env (dv_file_key d) c) \<and>
     (dv_read_failed d \<longrightarrow> dv_file_key d = None \<and> dv_disk d \<in> {CannotRead, Garbled})"

lemma to_text_parses: "base32_ok env \<Longrightarrow> length key = SECRET_KEY_LEN \<Longrightarrow> parse_secret_key env (to_text env key) = Inr key"
  by (rule parse_secret_key_chars) (simp_all add: SECRET_KEY_LEN_def to_text_chars)

lemma parse_length: "parse_secret_key env t = Inr key \<Longrightarrow> length key = SECRET_KEY_LEN"
  by (auto simp: parse_secret_key_def result_simps)

lemma save_cases:
  obtains (refused) ts where "save d = (Inl IoError, d\<lparr>dv_store := ts\<rparr>)"
  | (written) ts where "save d = (Inr (), d\<lparr>dv_store := ts, dv_disk := OnDisk (dv_id d) (dv_file_key d)\<rparr>)" "\<not> dv_read_failed d"
proof (cases "dv_read_failed d")
  case True
  show ?thesis by (rule refused [of "dv_store d"]) (simp add: save_def True)
next
  case False
  obtain ok p where s: "pf_save (ts_inner (dv_store d)) = (ok, p)" by (metis surj_pair)
  show ?thesis
    by (cases ok) (rule written [of "(dv_store d)\<lparr>ts_inner := p\<rparr>"] refused [of "(dv_store d)\<lparr>ts_inner := p\<rparr>"],
      use s False in \<open>simp_all add: save_def\<close>)+
qed

lemma load_inv: "device_inv env (load env disk moved new_id p)"
proof -
  obtain i key rest failed where l: "load env disk moved new_id p = snd (save \<lparr>dv_id = i, dv_file_key = key, dv_cached = None, dv_store = timed_new p,
           dv_file_fallback = True, dv_read_failed = failed, dv_disk = rest\<rparr>)"
      "\<forall>k. key = Some k \<longrightarrow> parses env k \<and> (\<exists>i. rest = OnDisk i (Some k))"
      "failed \<longrightarrow> key = None \<and> rest \<in> {CannotRead, Garbled}"
    by (cases disk; cases moved) (auto simp: load_def Let_def split: option.splits)
  show ?thesis
    by (cases rule: save_cases [of "\<lparr>dv_id = i, dv_file_key = key, dv_cached = None, dv_store = timed_new p,
           dv_file_fallback = True, dv_read_failed = failed, dv_disk = rest\<rparr>"])
      (use l(2,3) in \<open>auto simp: l(1) device_inv_def lookup_ok_def\<close>)
qed

lemma resolve_hit: "dv_cached d = Some c \<Longrightarrow> ck_account c = a \<Longrightarrow> resolve env a d = ((ck_text c, ck_storage c, True), d)"
  by (simp add: resolve_def)

lemma resolve_miss:
  assumes "\<And>c. dv_cached d = Some c \<Longrightarrow> ck_account c \<noteq> a"
  obtains (from_keychain) v ts where "parses env v" "timed_get a (dv_store d) = (Inr (Some v), ts)"
      "resolve env a d = ((Some v, StKeychain, True), d\<lparr>dv_store := ts, dv_cached := Some \<lparr>ck_account = a, ck_text = Some v, ck_storage = StKeychain\<rparr>\<rparr>)"
  | (from_file) k ts where "dv_file_key d = Some k"
      "resolve env a d = ((Some k, StFile, True), d\<lparr>dv_store := ts, dv_cached := Some \<lparr>ck_account = a, ck_text = Some k, ck_storage = StFile\<rparr>\<rparr>)"
  | (nowhere) b ts where "dv_file_key d = None"
      "resolve env a d = ((None, StNone, b), d\<lparr>dv_store := ts,
         dv_cached := (if b then Some \<lparr>ck_account = a, ck_text = None, ck_storage = StNone\<rparr> else None)\<rparr>)"
proof -
  obtain got ts where g: "timed_get a (dv_store d) = (got, ts)" by (metis surj_pair)
  have h: "(case dv_cached d of Some c \<Rightarrow> if ck_account c = a then Some c else None | None \<Rightarrow> None) = None"
    using assms by (auto split: option.splits)
  show ?thesis
  proof (cases "\<exists>v. got = Inr (Some v) \<and> parses env v")
    case True
    then obtain v where "got = Inr (Some v)" "parses env v" by blast
    then show ?thesis using from_keychain [of v ts] g by (simp add: resolve_def h)
  next
    case False
    then have n: "(case got of Inr (Some v) \<Rightarrow> if parses env v then (Some v, StKeychain, True) else f | _ \<Rightarrow> f) = f" for f
      by (auto split: sum.splits option.splits)
    show ?thesis
      using from_file [of _ ts] nowhere [of "is_ok got" ts] by (cases "dv_file_key d") (simp_all add: resolve_def h g n)
  qed
qed

lemma resolve_inv:
  assumes "device_inv env d"
  shows "device_inv env (snd (resolve env a d))"
proof (cases "\<exists>c. dv_cached d = Some c \<and> ck_account c = a")
  case True
  then show ?thesis using assms resolve_hit by fastforce
next
  case False
  then have "\<And>c. dv_cached d = Some c \<Longrightarrow> ck_account c \<noteq> a" by blast
  then show ?thesis by (cases rule: resolve_miss [of d a env]) (use assms in \<open>auto simp: device_inv_def lookup_ok_def\<close>)
qed

lemma set_secret_key_cases:
  obtains (refused) ts where "set_secret_key env a key d = (Inl IoError, d\<lparr>dv_store := ts, dv_cached := None\<rparr>)"
  | (in_keychain) ts where "\<not> dv_read_failed d" "fst (stored_in_keychain a (to_text env key) (dv_store d))"
      "set_secret_key env a key d = (Inr StKeychain, d\<lparr>dv_store := ts, dv_file_key := None, dv_disk := OnDisk (dv_id d) None,
         dv_cached := Some \<lparr>ck_account = a, ck_text = Some (to_text env key), ck_storage = StKeychain\<rparr>\<rparr>)"
  | (in_file) ts where "\<not> dv_read_failed d"
      "set_secret_key env a key d = (Inr StFile, d\<lparr>dv_store := ts, dv_file_key := Some (to_text env key),
         dv_disk := OnDisk (dv_id d) (Some (to_text env key)),
         dv_cached := Some \<lparr>ck_account = a, ck_text = Some (to_text env key), ck_storage = StFile\<rparr>\<rparr>)"
proof -
  obtain b ts where b: "stored_in_keychain a (to_text env key) (dv_store d) = (b, ts)" by (metis surj_pair)
  show ?thesis
  proof (cases "\<not> b \<and> \<not> dv_file_fallback d")
    case True
    show ?thesis by (rule refused [of ts]) (use True b in \<open>simp add: set_secret_key_def\<close>)
  next
    case False
    show ?thesis
    proof (cases rule: save_cases [of "d\<lparr>dv_store := ts, dv_file_key := (if b then None else Some (to_text env key))\<rparr>"])
      case r: (refused ts2)
      show ?thesis by (rule refused [of ts2]) (use False b r in \<open>cases b; simp add: set_secret_key_def\<close>)
    next
      case (written ts2)
      then show ?thesis using in_keychain [of ts2] in_file [of ts2] False b by (cases b) (simp_all add: set_secret_key_def Let_def)
    qed
  qed
qed

lemma set_secret_key_inv:
  assumes "device_inv env d" and "base32_ok env" and "length key = SECRET_KEY_LEN"
  shows "device_inv env (snd (set_secret_key env a key d))"
proof -
  have "parses env (to_text env key)" using to_text_parses [OF assms(2,3)] by (simp add: parses_def)
  then show ?thesis
    by (cases rule: set_secret_key_cases [of env a key d]) (use assms(1) in \<open>simp_all add: device_inv_def lookup_ok_def\<close>)
qed

lemma migrate_inv:
  assumes "device_inv env d" and "base32_ok env"
  shows "device_inv env (migrate env a d)"
proof (cases "Option.bind (dv_file_key d) (\<lambda>s. to_option (parse_secret_key env s))")
  case None
  then show ?thesis using assms(1) by (simp add: migrate_def)
next
  case (Some key)
  then obtain t where "parse_secret_key env t = Inr key" by (auto simp: bind_eq_Some_conv to_option_Some_iff)
  then show ?thesis using Some assms set_secret_key_inv parse_length by (simp add: migrate_def)
qed

lemma forget_inv:
  assumes "device_inv env d"
  shows "device_inv env (snd (device_forget new_id a d))"
proof -
  obtain b ts where b: "delete_twice a (dv_store d) = (b, ts)" by (metis surj_pair)
  show ?thesis
    by (cases rule: save_cases [of "d\<lparr>dv_store := ts, dv_file_key := None, dv_cached := None, dv_id := new_id\<rparr>"])
      (use assms b in \<open>auto simp: device_forget_def device_inv_def lookup_ok_def\<close>)
qed

lemma strict_inv: "device_inv env d \<Longrightarrow> device_inv env (without_file_fallback d)"
  by (simp add: without_file_fallback_def device_inv_def)

interpretation device_machine: invariant_system "device_start env" "device_step env" "\<lambda>d. base32_ok env \<longrightarrow> device_inv env d"
proof
  show "base32_ok env \<longrightarrow> device_inv env d" if "device_start env d" for d
    using that load_inv strict_inv by (cases rule: device_start.cases) auto
  show "base32_ok env \<longrightarrow> device_inv env e" if "base32_ok env \<longrightarrow> device_inv env d" and "device_step env d e" for d e
    using that(2,1) resolve_inv set_secret_key_inv migrate_inv forget_inv by (cases rule: device_step.cases) auto
qed

lemma resolve_file_key:
  assumes "device_inv env d"
  shows "dv_file_key (snd (resolve env a d)) = dv_file_key d \<and> dv_disk (snd (resolve env a d)) = dv_disk d \<and>
    (fst (snd (fst (resolve env a d))) = StFile \<longrightarrow> fst (fst (resolve env a d)) = dv_file_key d \<and> dv_file_key d \<noteq> None) \<and>
    (fst (fst (resolve env a d)) = None \<longrightarrow> dv_file_key d = None)"
proof (cases "\<exists>c. dv_cached d = Some c \<and> ck_account c = a")
  case True
  then obtain c where "dv_cached d = Some c" "ck_account c = a" by blast
  then show ?thesis using assms resolve_hit [of d c a env] by (cases "ck_storage c") (auto simp: device_inv_def lookup_ok_def)
next
  case False
  then have "\<And>c. dv_cached d = Some c \<Longrightarrow> ck_account c \<noteq> a" by blast
  then show ?thesis by (cases rule: resolve_miss [of d a env]) auto
qed

lemma stored_in_keychain_iff:
  "fst (stored_in_keychain a t s) \<longleftrightarrow> fst (timed_set a t s) = Inr () \<and> fst (timed_get a (snd (timed_set a t s))) = Inr (Some t)"
  by (auto simp: stored_in_keychain_def split: prod.splits sum.splits)

subsection \<open>Claims\<close>

text \<open>
  Whatever the platform's key store and the file system answer, in every run on a device: a Secret Key
  the device reports as kept in the file is in the file, as a key that can be read; one it
  reports as missing is not in the file; and a \<^verbatim>\<open>device.json\<close> that could not be read is never
  overwritten.
\<close>

theorem device_reports_hold:
  assumes "base32_ok env" and "device_start env d0" and "(device_step env)\<^sup>*\<^sup>* d0 d"
  shows "(ks_storage (fst (key_status env a d)) = StFile \<longrightarrow>
      (\<exists>i k. dv_disk d = OnDisk i (Some k) \<and> parses env k \<and> fst (secret_key_text env a d) = Some k)) \<and>
    (ks_missing (fst (key_status env a d)) \<longrightarrow> dv_file_key d = None) \<and>
    (dv_read_failed d \<longrightarrow> dv_disk d \<in> {CannotRead, Garbled})"
proof -
  have i: "device_inv env d" using device_machine.reachable_inv [OF assms(2,3)] assms(1) by blast
  obtain t st df d1 where r: "resolve env a d = ((t, st, df), d1)" by (metis prod.collapse)
  show ?thesis
    using i resolve_file_key [OF i, of a] by (auto simp: key_status_def secret_key_text_def r device_inv_def)
qed

text \<open>
  Moving a Secret Key out of \<^verbatim>\<open>device.json\<close> never loses it: afterwards the file still holds a
  text of that key, or the platform's key store took the key and gave the same text back.
\<close>

theorem migrate_keeps_key:
  assumes "base32_ok env" and "device_inv env d" and "dv_file_key d = Some k" and "parse_secret_key env k = Inr key"
  shows "(\<exists>i t. dv_disk (migrate env a d) = OnDisk i (Some t) \<and> parse_secret_key env t = Inr key) \<or>
    fst (timed_set a (to_text env key) (dv_store d)) = Inr () \<and>
    fst (timed_get a (snd (timed_set a (to_text env key) (dv_store d)))) = Inr (Some (to_text env key)) \<and>
    fst (secret_key env a (migrate env a d)) = Some key"
proof -
  have m: "migrate env a d = snd (set_secret_key env a key d)" using assms(3,4) by (simp add: migrate_def)
  have t: "parse_secret_key env (to_text env key) = Inr key" by (rule to_text_parses [OF assms(1) parse_length [OF assms(4)]])
  obtain i where disk: "dv_disk d = OnDisk i (Some k)" using assms(2,3) by (auto simp: device_inv_def)
  show ?thesis
  proof (cases rule: set_secret_key_cases [of env a key d])
    case (refused ts)
    then show ?thesis using disk assms(4) by (simp add: m)
  next
    case (in_keychain ts)
    then show ?thesis using t stored_in_keychain_iff by (simp add: m secret_key_def secret_key_text_def resolve_def)
  next
    case (in_file ts)
    then show ?thesis using t by (simp add: m)
  qed
qed

subsection \<open>Witnesses\<close>

definition toy_device :: device where
  "toy_device = load toy_keys (OnDisk 7 (Some (to_text toy_keys (replicate 16 3)))) True 8 (memory_store (\<lambda>_. None))"

lemma toy_secret: "parse_secret_key toy_keys (to_text toy_keys (replicate 16 3)) = Inr (replicate 16 3)"
  by (rule to_text_parses [OF toy_base32_ok]) (simp add: SECRET_KEY_LEN_def)

lemma toy_device_file_key: "dv_file_key toy_device = Some (to_text toy_keys (replicate 16 3))"
  using toy_secret by (simp add: toy_device_def load_def save_def timed_new_def parses_def)

lemma device_reports_hold_witness:
  "\<exists>i k. dv_disk toy_device = OnDisk i (Some k) \<and> fst (secret_key_text toy_keys 1 toy_device) = Some k"
proof -
  have s: "device_start toy_keys toy_device" unfolding toy_device_def by (rule device_start.loaded)
  have "ts_inner (dv_store toy_device) = memory_store (\<lambda>_. None)" "\<not> ts_busy (dv_store toy_device)" "dv_cached toy_device = None"
    by (simp_all add: toy_device_def load_def save_def timed_new_def Let_def)
  then have "ks_storage (fst (key_status toy_keys 1 toy_device)) = StFile"
    by (simp add: key_status_def resolve_def timed_get_def timed_call_def look_def toy_device_file_key)
  then show ?thesis using device_reports_hold [OF toy_base32_ok s rtranclp.rtrancl_refl, of 1] by blast
qed

lemma migrate_keeps_key_witness:
  "fst (secret_key toy_keys 1 (migrate toy_keys 1 toy_device)) = Some (replicate 16 3)"
proof -
  have i: "device_inv toy_keys toy_device" unfolding toy_device_def by (rule load_inv)
  obtain d1 where "set_secret_key toy_keys 1 (replicate 16 3) toy_device = (Inr StKeychain, d1)" "dv_disk d1 = OnDisk (dv_id toy_device) None"
    using memory_platform.set_fine [of toy_device toy_keys 1 "replicate 16 3"]
      memory_platform.load_fine(1) [of "memory_store (\<lambda>_. None)" "OnDisk 7 (Some (to_text toy_keys (replicate 16 3)))" True toy_keys 8]
    by (auto simp: toy_device_def)
  then have "dv_disk (migrate toy_keys 1 toy_device) = OnDisk (dv_id toy_device) None"
    using toy_secret by (simp add: migrate_def toy_device_file_key)
  then show ?thesis using migrate_keeps_key [OF toy_base32_ok i toy_device_file_key toy_secret, of 1] by simp
qed

end
