(* ===== verification/Client.thy ===== *)
theory Client
  imports Machine Wire Server Device
begin

text \<open>
  The account client (\<^verbatim>\<open>havenkeys-client/src/client.rs\<close>, \<^verbatim>\<open>sync.rs\<close>, \<^verbatim>\<open>error.rs\<close>): the state around a vault
  service, the session with the server, and the operations that need one.

  An operation runs on a pair of the rest of the world and the client, and gives an error code or a
  value and a new pair. The guard on the vault is dropped before every request, so a request may
  also change the client: that is what the other threads of the device do while it is in flight. The
  transport is an argument, one for each server address, and stands for both. A client error is its
  stable code; the text that goes with it is not modelled. The mutexes are never poisoned.
\<close>

section \<open>Model\<close>

subsection \<open>State\<close>

type_synonym client_error = string

datatype connectivity = ConnOffline | ConnOnline client_session | ConnUnreachable client_session

datatype client_event =
    EvUnlocked nat
  | EvLocked string bool
  | EvConnectivity bool
  | EvSignedOut
  | EvSynced sync_report
  | EvItemsChanged
  | EvRemoved bool
  | EvAccountDeleted bool
  | EvPlanChanged

text \<open>
  What the file system answers to the erasing of a vault: whether the marker could be written and
  removed, the empty store opened in memory, whether the file is gone, the store opened in its place, and
  the random id the device takes.
\<close>

record wipe_world =
  ww_marked :: bool
  ww_in_memory :: "store option"
  ww_file_gone :: bool
  ww_reopened :: "store option"
  ww_new_id :: uuid
  ww_unmarked :: bool

text \<open>
  \<open>cl_marker\<close> is the marker of a deletion under way: the account it names, \<open>Some None\<close> when its text is no id.
  \<open>cl_now_ms\<close> and \<open>cl_elapsed\<close> are what the clocks show; \<open>cl_events\<close> is what the shell was told, in order.
\<close>

record client =
  cl_vault :: service
  cl_storage_error :: "client_error option"
  cl_connectivity :: connectivity
  cl_last_sync_attempt :: "nat option"
  cl_cache_cap :: nat
  cl_device :: device
  cl_marker :: "uuid option option"
  cl_wipe :: wipe_world
  cl_events :: "client_event list"
  cl_now_ms :: int
  cl_elapsed :: nat

record client_env =
  cn_sync :: sync_env
  cn_url :: url_parser
  cn_localhost_http :: bool

type_synonym ('w, 'a) client_op = "'w \<times> client \<Rightarrow> (client_error + 'a) \<times> 'w \<times> client"

abbreviation cn_core :: "client_env \<Rightarrow> core_env" where
  "cn_core env \<equiv> se_core (cn_sync env)"

subsection \<open>Errors\<close>

definition internal :: client_error where "internal = ''internal''"

fun client_error_of :: "SyncError \<Rightarrow> client_error" where
  "client_error_of (SyConflict _) = error_code ItemChangedElsewhere"
| "client_error_of SyUnavailable = error_code Offline"
| "client_error_of SyUnauthorized = ''signed_out''"
| "client_error_of SyAccountDeleted = ''account_deleted''"
| "client_error_of SyAccountFrozen = ''account_frozen''"
| "client_error_of SyRateLimited = ''rate_limited''"
| "client_error_of SyUnsupported = ''server_unsupported''"
| "client_error_of SyAttachmentsFull = ''attachments_full''"
| "client_error_of SyVaultFull = ''vault_full''"
| "client_error_of SyInvalidServerUrl = ''invalid_server_url''"
| "client_error_of (SyRefused _) = ''sync_failed''"
| "client_error_of (SyProtocol _) = ''sync_failed''"
| "client_error_of SyTooLarge = ''sync_failed''"

subsection \<open>The vault and the session\<close>

definition announce :: "client_event \<Rightarrow> client \<Rightarrow> client" where
  "announce e c = c\<lparr>cl_events := cl_events c @ [e]\<rparr>"

definition vault_guard :: "client \<Rightarrow> client_error + service" where
  "vault_guard c = (case cl_storage_error c of Some e \<Rightarrow> Inl e | None \<Rightarrow> Inr (cl_vault c))"

definition on_vault :: "(service \<Rightarrow> 'a result \<times> service) \<Rightarrow> ('w, 'a) client_op" where
  "on_vault f = (\<lambda>(w, c). case vault_guard c of
     Inl e \<Rightarrow> (Inl e, w, c)
   | Inr v \<Rightarrow> (case f v of (r, v') \<Rightarrow> (map_err error_code r, w, c\<lparr>cl_vault := v'\<rparr>)))"

definition read_vault :: "(service \<Rightarrow> 'a result) \<Rightarrow> ('w, 'a) client_op" where
  "read_vault f = on_vault (\<lambda>v. (f v, v))"

definition on_client :: "(client \<Rightarrow> client) \<Rightarrow> ('w, unit) client_op" where
  "on_client f = (\<lambda>(w, c). (Inr (), w, f c))"

definition client_device_id :: "('w, uuid) client_op" where
  "client_device_id = (\<lambda>(w, c). (Inr (dv_id (cl_device c)), w, c))"

definition is_online :: "client \<Rightarrow> bool" where
  "is_online c = (case cl_connectivity c of ConnOnline _ \<Rightarrow> True | _ \<Rightarrow> False)"

definition held_session :: "client \<Rightarrow> client_error + client_session" where
  "held_session c = (case cl_connectivity c of
     ConnOnline ses \<Rightarrow> Inr ses | ConnUnreachable ses \<Rightarrow> Inr ses | ConnOffline \<Rightarrow> Inl (error_code Offline))"

definition mark_unreachable :: "client \<Rightarrow> client" where
  "mark_unreachable c = (case cl_connectivity c of
     ConnOnline ses \<Rightarrow> announce (EvConnectivity False) (c\<lparr>cl_connectivity := ConnUnreachable ses\<rparr>)
   | _ \<Rightarrow> c)"

definition mark_reachable :: "client \<Rightarrow> client" where
  "mark_reachable c = (case cl_connectivity c of
     ConnUnreachable ses \<Rightarrow> announce (EvConnectivity True) (c\<lparr>cl_connectivity := ConnOnline ses\<rparr>)
   | _ \<Rightarrow> c)"

definition set_online :: "client_session \<Rightarrow> client \<Rightarrow> client" where
  "set_online ses c = c\<lparr>cl_connectivity := ConnOnline ses\<rparr>"

text \<open>Whether a session was held, whether it was shown online, and the client without it.\<close>

definition drop_session :: "client \<Rightarrow> bool \<times> bool \<times> client" where
  "drop_session c = (case cl_connectivity c of
     ConnOnline _ \<Rightarrow> (True, True, c\<lparr>cl_connectivity := ConnOffline\<rparr>)
   | ConnUnreachable _ \<Rightarrow> (True, False, c\<lparr>cl_connectivity := ConnOffline\<rparr>)
   | ConnOffline \<Rightarrow> (False, False, c))"

definition go_offline :: "client \<Rightarrow> bool \<times> client" where
  "go_offline c = (case drop_session c of
     (had, shown, c1) \<Rightarrow> (had, if shown then announce (EvConnectivity False) c1 else c1))"

definition client_lock :: "string \<Rightarrow> client \<Rightarrow> client" where
  "client_lock reason c =
     (let (was_open, v) = lock (cl_vault c) in
      announce (EvLocked reason was_open) ((snd (snd (drop_session (c\<lparr>cl_vault := v\<rparr>))))\<lparr>cl_last_sync_attempt := None\<rparr>))"

definition server_scheme_allowed :: "bool \<Rightarrow> url \<Rightarrow> bool" where
  "server_scheme_allowed localhost_http u =
     (let local = host_str u \<in> {Some (str ''localhost''), Some (str ''127.0.0.1''), Some (str ''[::1]'')} in
      if scheme u = str ''https'' then True
      else if scheme u = str ''http'' then local \<and> localhost_http else False)"

definition trim_slashes :: "rstring \<Rightarrow> rstring" where
  "trim_slashes s = rev (dropWhile (\<lambda>c. c = 47) (rev s))"

text \<open>A client for a server is named by its address; building it checks the address.\<close>

definition server_for :: "client_env \<Rightarrow> rstring \<Rightarrow> client_error + rstring" where
  "server_for env u = map_err client_error_of
     (and_then (ok_or SyInvalidServerUrl (cn_url env (trim_slashes u))) (\<lambda>p.
      and_then (ensure (server_scheme_allowed (cn_localhost_http env) p) SyInvalidServerUrl) (\<lambda>_. Inr u)))"

definition require_some_account :: "service \<Rightarrow> account_record result" where
  "require_some_account v = and_then (account (vs_store v)) (ok_or NoVault)"

definition client_server :: "client_env \<Rightarrow> ('w, rstring) client_op" where
  "client_server env = io_then (read_vault require_some_account) (\<lambda>a. io_lift (server_for env (ac_server_url a)))"

definition session_and_server :: "client_env \<Rightarrow> ('w, client_session \<times> rstring) client_op" where
  "session_and_server env = io_then (\<lambda>(w, c). (held_session c, w, c)) (\<lambda>ses.
     io_then (client_server env) (\<lambda>u. io_lift (Inr (ses, u))))"

definition mark_sync_attempt :: "client \<Rightarrow> client" where
  "mark_sync_attempt c = c\<lparr>cl_last_sync_attempt := Some (cl_elapsed c)\<rparr>"

definition PULL_INTERVAL :: nat where "PULL_INTERVAL = 60 * 1000"
definition RETRY_INTERVAL :: nat where "RETRY_INTERVAL = 15 * 1000"

definition pull_interval :: "client \<Rightarrow> nat option" where
  "pull_interval c = (case cl_connectivity c of
     ConnOnline _ \<Rightarrow> Some PULL_INTERVAL | ConnUnreachable _ \<Rightarrow> Some RETRY_INTERVAL | ConnOffline \<Rightarrow> None)"

definition sync_due :: "nat \<Rightarrow> client \<Rightarrow> bool" where
  "sync_due interval c = (case cl_last_sync_attempt c of None \<Rightarrow> True | Some at \<Rightarrow> interval \<le> cl_elapsed c - at)"

definition pull_due :: "client \<Rightarrow> bool" where
  "pull_due c = (case pull_interval c of Some every \<Rightarrow> sync_due every c | None \<Rightarrow> False)"

definition require_unlocked :: "('w, unit) client_op" where
  "require_unlocked = read_vault (\<lambda>v. ensure (is_unlocked v) Locked)"

definition client_require_full :: "('w, unit) client_op" where
  "client_require_full = io_then (read_vault (\<lambda>v. Inr (pl_entitlement (plan (vs_store v))))) (\<lambda>e.
     io_lift (case e of Full \<Rightarrow> Inr () | Frozen \<Rightarrow> Inl ''account_frozen''))"

definition require_online :: "('w, unit) client_op" where
  "require_online = (\<lambda>(w, c). (ensure (is_online c) (error_code Offline), w, c))"

subsection \<open>A failed request\<close>

text \<open>
  Every step runs even when an earlier one failed. The vault is replaced under its guard; the marker is
  removed only once the file is gone.
\<close>

definition wipe_local :: "uuid \<Rightarrow> client \<Rightarrow> client" where
  "wipe_local account_id c =
     (let w = cl_wipe c;
          c0 = (if ww_marked w then c\<lparr>cl_marker := Some (Some account_id)\<rparr> else c);
          c1 = client_lock ''account_deleted'' c0;
          (gone, c2) = (case vault_guard c1 of
            Inl _ \<Rightarrow> (False, c1)
          | Inr v \<Rightarrow>
              (let v1 = (case ww_in_memory w of Some st \<Rightarrow> snd (replace_store st v) | None \<Rightarrow> v);
                   v2 = (case ww_reopened w of Some st \<Rightarrow> snd (replace_store st v1) | None \<Rightarrow> v1)
               in (ww_file_gone w, c1\<lparr>cl_vault := v2\<rparr>)));
          ((cleared, _), d) = device_forget (ww_new_id w) account_id (cl_device c2);
          c3 = c2\<lparr>cl_device := d\<rparr>
      in announce (EvAccountDeleted cleared) (if gone \<and> ww_unmarked w then c3\<lparr>cl_marker := None\<rparr> else c3))"

definition finish_pending_deletion :: "client \<Rightarrow> bool \<times> client" where
  "finish_pending_deletion c = (case cl_marker c of
     None \<Rightarrow> (False, c)
   | Some named \<Rightarrow>
       (let current = Option.bind (to_option (vault_guard c)) (\<lambda>v.
              Option.bind (to_option (account (vs_store v))) (map_option ac_account_id))
        in case named of
             Some a \<Rightarrow>
               if pred_option (\<lambda>x. x = a) current then (True, wipe_local a c)
               else (False, if ww_unmarked (cl_wipe c) then c\<lparr>cl_marker := None\<rparr> else c)
           | None \<Rightarrow> (False, if ww_unmarked (cl_wipe c) then c\<lparr>cl_marker := None\<rparr> else c)))"

definition mark_frozen :: "client \<Rightarrow> client" where
  "mark_frozen c = (case vault_guard c of
     Inl _ \<Rightarrow> c
   | Inr v \<Rightarrow> (case account (vs_store v) of
       Inr (Some _) \<Rightarrow>
         (let p = plan (vs_store v) in
          if pl_entitlement p = Frozen then c
          else announce EvPlanChanged (c\<lparr>cl_vault := vault_set_plan (p\<lparr>pl_entitlement := Frozen\<rparr>) v\<rparr>))
     | _ \<Rightarrow> c))"

definition failed_state :: "SyncError \<Rightarrow> client \<Rightarrow> client" where
  "failed_state e c = (case e of
     SyUnauthorized \<Rightarrow> (case go_offline c of (had, c1) \<Rightarrow> if had then announce EvSignedOut c1 else c1)
   | SyAccountDeleted \<Rightarrow>
       (case and_then (vault_guard c) (\<lambda>v. map_err error_code (account (vs_store v))) of
          Inr (Some a) \<Rightarrow> wipe_local (ac_account_id a) c | _ \<Rightarrow> c)
   | SyUnavailable \<Rightarrow> mark_unreachable c
   | SyAccountFrozen \<Rightarrow> mark_frozen c
   | _ \<Rightarrow> c)"

definition or_failed :: "('w \<times> client \<Rightarrow> (SyncError + 'a) \<times> 'w \<times> client) \<Rightarrow> ('w, 'a) client_op" where
  "or_failed m s = (case m s of
     (Inl e, w, c) \<Rightarrow> (Inl (client_error_of e), w, failed_state e c)
   | (Inr x, s') \<Rightarrow> (Inr x, s'))"

definition plan_record_of :: "plan_info \<Rightarrow> plan_record" where
  "plan_record_of i = \<lparr>pl_status = Some (pi_status i), pl_entitlement = pi_entitlement i,
     pl_trial_ends_at = pi_trial_ends_at i, pl_period_end = pi_period_end i\<rparr>"

definition record_plan :: "plan_info option \<Rightarrow> ('w, unit) client_op" where
  "record_plan info = (\<lambda>(w, c). case info of
     None \<Rightarrow> (Inr (), w, c)
   | Some i \<Rightarrow> (case vault_guard c of
       Inl e \<Rightarrow> (Inl e, w, c)
     | Inr v \<Rightarrow>
         if plan (vs_store v) \<noteq> plan_record_of i
         then (Inr (), w, announce EvPlanChanged (c\<lparr>cl_vault := vault_set_plan (plan_record_of i) v\<rparr>))
         else (Inr (), w, c)))"

subsection \<open>Writing\<close>

definition MAX_BATCH :: nat where "MAX_BATCH = 500"

definition revision_for :: "(uuid \<times> int) list \<Rightarrow> uuid \<Rightarrow> client_error + int" where
  "revision_for applied u = ok_or ''sync_failed'' (map_option snd (find (\<lambda>(i, rv). i = u) applied))"

type_synonym 'w servers = "rstring \<Rightarrow> ('w \<times> client) transport"

text \<open>The flag says whether the replica's database takes the statement of the commit.\<close>

definition push_on :: "bool \<Rightarrow> client_env \<Rightarrow> 'w servers \<Rightarrow> staged_write \<Rightarrow> ('w, item_overview option) client_op" where
  "push_on stored env srv w =
     io_then client_require_full (\<lambda>_.
     io_then (session_and_server env) (\<lambda>(ses, u).
     io_then (or_failed (sync_write (cn_sync env) (srv u) ses [w])) (\<lambda>(c, applied).
     io_then (io_lift (revision_for applied (sw_item_id w))) (\<lambda>rv.
     on_vault (commit_write_on stored w rv)))))"

definition push :: "client_env \<Rightarrow> 'w servers \<Rightarrow> staged_write \<Rightarrow> ('w, item_overview option) client_op" where
  "push = push_on True"

fun commit_all :: "(uuid \<times> int) list \<Rightarrow> staged_write list \<Rightarrow> nat \<Rightarrow> ('w, nat) client_op" where
  "commit_all applied [] n = io_lift (Inr n)"
| "commit_all applied (w # ws) n =
     io_then (io_lift (revision_for applied (sw_item_id w))) (\<lambda>rv.
     io_then (on_vault (commit_write w rv)) (\<lambda>_. commit_all applied ws (n + 1)))"

function batches_loop :: "client_env \<Rightarrow> ('w \<times> client) transport \<Rightarrow> client_session \<Rightarrow> staged_write list \<Rightarrow> nat \<Rightarrow> ('w, nat) client_op" where
  "batches_loop env tr ses queue n =
     (if queue = [] then io_lift (Inr n)
      else io_then (or_failed (sync_write (cn_sync env) tr ses (take MAX_BATCH queue))) (\<lambda>(c, applied).
        io_then (commit_all applied (take MAX_BATCH queue) n) (\<lambda>m.
        batches_loop env tr ses (drop MAX_BATCH queue) m)))"
  by auto

definition push_batches :: "client_env \<Rightarrow> 'w servers \<Rightarrow> staged_write list \<Rightarrow> ('w, nat) client_op" where
  "push_batches env srv staged =
     io_then client_require_full (\<lambda>_.
     io_then (session_and_server env) (\<lambda>(ses, u). batches_loop env (srv u) ses staged 0))"

text \<open>An operation whose failure is swallowed, with the value that stands for it.\<close>

definition or_else :: "'a \<Rightarrow> ('w, 'a) client_op \<Rightarrow> 'w \<times> client \<Rightarrow> 'a \<times> 'w \<times> client" where
  "or_else d m s = (case m s of (Inr x, s') \<Rightarrow> (x, s') | (Inl _, s') \<Rightarrow> (d, s'))"

definition with_now :: "(int \<Rightarrow> ('w, 'a) client_op) \<Rightarrow> ('w, 'a) client_op" where
  "with_now f = (\<lambda>(w, c). f (cl_now_ms c) (w, c))"

definition purge_expired_trash :: "client_env \<Rightarrow> 'w servers \<Rightarrow> 'w \<times> client \<Rightarrow> nat \<times> 'w \<times> client" where
  "purge_expired_trash env srv = or_else 0
     (io_then (with_now (\<lambda>now. read_vault (stage_expired_trash now))) (\<lambda>due.
      if due = [] then io_lift (Inr 0) else push_batches env srv due))"

definition client_prune_attachment_cache :: "'w \<times> client \<Rightarrow> 'w \<times> client" where
  "client_prune_attachment_cache = (\<lambda>(w, c). snd (on_vault (vault_prune_attachment_cache (cl_cache_cap c)) (w, c)))"

subsection \<open>Pulling\<close>

definition header_step :: "client_env \<Rightarrow> ('w \<times> client) transport \<Rightarrow> client_session \<Rightarrow> ('w, bool) client_op" where
  "header_step env tr ses =
     io_then (or_failed (sync_header (cn_sync env) tr ses)) (\<lambda>remote.
     io_then (on_client mark_reachable) (\<lambda>_.
     io_then (read_vault (\<lambda>v. and_then (header (vs_store v)) (\<lambda>h. Inr (case h of Some x \<Rightarrow> hd_revision x | None \<Rightarrow> 0)))) (\<lambda>revision.
     if revision < nat (rh_revision remote) then on_vault (adopt_account_header (cn_sync env) (rh_bytes remote))
     else if nat (rh_revision remote) < revision then io_lift (Inl internal)
     else io_lift (Inr False))))"

definition add_page :: "sync_report \<Rightarrow> sync_report \<Rightarrow> sync_report" where
  "add_page r p = r\<lparr>sr_added := sr_added r + sr_added p, sr_updated := sr_updated r + sr_updated p,
     sr_deleted := sr_deleted r + sr_deleted p\<rparr>"

definition add_pulled :: "sync_report \<Rightarrow> sync_report \<Rightarrow> sync_report" where
  "add_pulled r p = (add_page r p)\<lparr>sr_skipped_items := sr_skipped_items r + sr_skipped_items p\<rparr>"

definition restart_pull :: "('w, uuid list) client_op" where
  "restart_pull = io_then (with_now (\<lambda>now. on_vault (reset_sync_cursor now))) (\<lambda>_. read_vault replica_item_ids)"

definition take_page :: "client_env \<Rightarrow> pulled \<Rightarrow> ('w, sync_report) client_op" where
  "take_page env p = io_then (with_now (\<lambda>now. on_vault (apply_remote_changes (cn_core env) (pu_cursor p) (pu_changes p) now))) (\<lambda>page s.
     (Inr page, snd (record_plan (pu_account p) s)))"

definition drop_lacking :: "client_env \<Rightarrow> uuid list \<Rightarrow> uuid list \<Rightarrow> ('w, sync_report) client_op" where
  "drop_lacking env ids seen = with_now (\<lambda>now. on_vault (drop_items_the_server_lacks (cn_core env) ids seen now))"

partial_function (option) pull_loop ::
  "client_env \<Rightarrow> ('w \<times> client) transport \<Rightarrow> client_session \<Rightarrow> int \<Rightarrow> bool \<Rightarrow> uuid list \<Rightarrow> uuid list \<Rightarrow> sync_report \<Rightarrow>
     'w \<times> client \<Rightarrow> ((client_error + sync_report) \<times> 'w \<times> client) option" where
  "pull_loop env tr ses cursor from_zero seen ids report s =
     (case or_failed (sync_pull (cn_sync env) tr ses cursor) s of
        (Inl e, s1) \<Rightarrow> Some (Inl e, s1)
      | (Inr p, s1) \<Rightarrow>
          if pu_cursor p < cursor then
            (if from_zero then Some (Inl internal, s1)
             else (case restart_pull s1 of
               (Inl e, s2) \<Rightarrow> Some (Inl e, s2)
             | (Inr ids2, s2) \<Rightarrow> pull_loop env tr ses 0 True [] ids2 report s2))
          else (let seen2 = (if from_zero then map rc_item_id (pu_changes p) @ seen else seen) in
            case take_page env p s1 of
              (Inl e, s2) \<Rightarrow> Some (Inl e, s2)
            | (Inr page, s2) \<Rightarrow>
                if \<not> pu_has_more p \<or> pu_cursor p \<le> cursor then
                  (if from_zero \<and> \<not> pu_has_more p then
                     (case drop_lacking env ids seen2 s2 of
                        (Inl e, s3) \<Rightarrow> Some (Inl e, s3)
                      | (Inr dropped, s3) \<Rightarrow>
                          Some (Inr ((add_pulled report page)\<lparr>sr_deleted := sr_deleted (add_pulled report page) + sr_deleted dropped\<rparr>), s3))
                   else Some (Inr (add_pulled report page), s2))
                else pull_loop env tr ses (pu_cursor p) from_zero seen2 ids (add_pulled report page) s2))"

text \<open>One chunk of unreadable items: the report, whether the retry goes on with the next chunk, and the state.\<close>

function refetch_chunk ::
  "client_env \<Rightarrow> ('w \<times> client) transport \<Rightarrow> client_session \<Rightarrow> uuid list \<Rightarrow> sync_report \<Rightarrow> 'w \<times> client \<Rightarrow> sync_report \<times> bool \<times> 'w \<times> client" where
  "refetch_chunk env tr ses ask report s =
     (if ask = [] then (report, True, s)
      else case sync_fetch (cn_sync env) tr ses ask s of
        (Inl e, w, c) \<Rightarrow> (report, False, w, if e = SyUnauthorized then failed_state e c else c)
      | (Inr f, s1) \<Rightarrow>
          let answered = filter (\<lambda>u. u \<notin> set (fe_unanswered f)) ask in
          if answered = [] then (report, False, s1)
          else (case with_now (\<lambda>now. on_vault (apply_refetched (cn_core env) answered (fe_changes f) now)) s1 of
            (Inl _, s2) \<Rightarrow> (report, False, s2)
          | (Inr page, s2) \<Rightarrow> refetch_chunk env tr ses (fe_unanswered f) (add_page report page) s2))"
  by pat_completeness auto

function refetch_all ::
  "client_env \<Rightarrow> ('w \<times> client) transport \<Rightarrow> client_session \<Rightarrow> uuid list \<Rightarrow> sync_report \<Rightarrow> 'w \<times> client \<Rightarrow> sync_report \<times> 'w \<times> client" where
  "refetch_all env tr ses pending report s =
     (if pending = [] then (report, s)
      else case refetch_chunk env tr ses (take MAX_BATCH pending) report s of
        (report1, on, s1) \<Rightarrow> if on then refetch_all env tr ses (drop MAX_BATCH pending) report1 s1 else (report1, s1))"
  by pat_completeness auto

definition sync_start :: "client_env \<Rightarrow> 'w servers \<Rightarrow> ('w, client_session \<times> rstring \<times> bool \<times> int \<times> uuid list) client_op" where
  "sync_start env srv =
     io_then (on_client mark_sync_attempt) (\<lambda>_.
     io_then (session_and_server env) (\<lambda>(ses, u).
     io_then (header_step env (srv u) ses) (\<lambda>adopted.
     io_then (read_vault (\<lambda>v. and_then (account (vs_store v)) (\<lambda>a. Inr (case a of Some x \<Rightarrow> ac_server_cursor x | None \<Rightarrow> 0)))) (\<lambda>cursor.
     io_then (if cursor = 0 then read_vault replica_item_ids else io_lift (Inr [])) (\<lambda>ids.
     io_lift (Inr (ses, u, adopted, cursor, ids)))))))"

definition sync_finish :: "client_env \<Rightarrow> 'w servers \<Rightarrow> client_session \<Rightarrow> rstring \<Rightarrow> sync_report \<Rightarrow> ('w, sync_report) client_op" where
  "sync_finish env srv ses u report =
     io_then (read_vault (\<lambda>v. Inr (unreadable_ids (vs_store v)))) (\<lambda>pending s.
     (let (report1, s1) = refetch_all env (srv u) ses pending report s;
          (purged, s2) = purge_expired_trash env srv s1;
          (w, c) = client_prune_attachment_cache s2;
          report2 = report1\<lparr>sr_deleted := sr_deleted report1 + purged\<rparr>
      in (Inr report2, w, announce (EvSynced report2) (mark_sync_attempt c))))"

definition sync_now :: "client_env \<Rightarrow> 'w servers \<Rightarrow> 'w \<times> client \<Rightarrow> ((client_error + sync_report) \<times> 'w \<times> client) option" where
  "sync_now env srv s = (case sync_start env srv s of
     (Inl e, s1) \<Rightarrow> Some (Inl e, s1)
   | (Inr (ses, u, adopted, cursor, ids), s1) \<Rightarrow>
       (case pull_loop env (srv u) ses cursor (cursor = 0) [] ids (default_report\<lparr>sr_header_adopted := adopted\<rparr>) s1 of
          None \<Rightarrow> None
        | Some (Inl e, s2) \<Rightarrow> Some (Inl e, s2)
        | Some (Inr report, s2) \<Rightarrow> Some (sync_finish env srv ses u report s2)))"

subsection \<open>Signing in\<close>

definition ensure_identity ::
  "client_env \<Rightarrow> 'w servers \<Rightarrow> nonces \<Rightarrow> 'w \<times> client \<Rightarrow> ('w \<times> client) option" where
  "ensure_identity env srv rn s =
     (case io_then (read_vault require_some_account) (\<lambda>a.
        with_now (\<lambda>now. read_vault (stage_identity_if_missing (cn_core env) rn (ac_email a) now))) s of
        (Inr (Some staged), s1) \<Rightarrow>
          (case push env srv staged s1 of
             (Inr _, w, c) \<Rightarrow> Some (w, announce EvItemsChanged c)
           | (Inl e, s2) \<Rightarrow>
               if e = ''item_changed_elsewhere'' then
                 (case sync_now env srv s2 of
                    None \<Rightarrow> None
                  | Some (Inr _, w, c) \<Rightarrow> Some (w, announce EvItemsChanged c)
                  | Some (Inl _, s3) \<Rightarrow> Some s3)
               else Some s2)
      | (_, s1) \<Rightarrow> Some s1)"

text \<open>A sign-in that was refused is announced even when no session was held.\<close>

definition sign_in_failed_state :: "SyncError \<Rightarrow> client \<Rightarrow> client" where
  "sign_in_failed_state e c = failed_state e (if e = SyUnauthorized then announce EvSignedOut c else c)"

definition connect_online ::
  "client_env \<Rightarrow> pake_env \<Rightarrow> 'w servers \<Rightarrow> rstring \<Rightarrow> bytes \<Rightarrow> ('w, unit) client_op" where
  "connect_online env pk srv device_name auth_key =
     io_then (read_vault (\<lambda>v. and_then (ensure (is_unlocked v) Locked) (\<lambda>_.
       and_then (require_some_account v) (\<lambda>a. Inr (a, vs_epoch v, pake_confirmed (vs_store v)))))) (\<lambda>(a, epoch, confirmed).
     io_then (io_lift (server_for env (ac_server_url a))) (\<lambda>u.
     io_then client_device_id (\<lambda>device_id s.
     (case sign_in_with_key (cn_sync env) pk (srv u) (ac_email a) auth_key (ac_account_id a) device_id device_name confirmed s of
        (Inl e, w, c) \<Rightarrow> (Inl (client_error_of e), w, sign_in_failed_state e c)
      | (Inr (ses, pake_ok), s1) \<Rightarrow>
          io_then (read_vault (\<lambda>v. ensure (\<not> (\<not> is_unlocked v \<or> vs_epoch v \<noteq> epoch)) Locked)) (\<lambda>_ (w, c).
            (let c1 = (if pake_ok then c\<lparr>cl_vault := vault_set_pake_confirmed (cl_vault c)\<rparr> else c);
                 (w2, c2) = snd (record_plan (cs_account ses) (w, set_online ses c1))
             in (Inr (), w2, announce (EvConnectivity True) c2))) s1))))"

definition connect ::
  "client_env \<Rightarrow> pake_env \<Rightarrow> 'w servers \<Rightarrow> nonces \<Rightarrow> rstring \<Rightarrow> bytes \<Rightarrow> 'w \<times> client \<Rightarrow> ((client_error + unit) \<times> 'w \<times> client) option" where
  "connect env pk srv rn device_name auth_key s =
     (case connect_online env pk srv device_name auth_key s of
        (Inl e, s1) \<Rightarrow> Some (Inl e, s1)
      | (Inr _, s1) \<Rightarrow>
          (case sync_now env srv s1 of
             None \<Rightarrow> None
           | Some (Inl e, s2) \<Rightarrow> Some (Inl e, s2)
           | Some (Inr _, s2) \<Rightarrow> map_option (\<lambda>s3. (Inr (), s3)) (ensure_identity env srv rn s2)))"

section \<open>Properties\<close>

subsection \<open>Loops end\<close>

termination batches_loop
  by (relation "measure (\<lambda>(env, tr, ses, queue, n). length queue)") (auto simp: MAX_BATCH_def)

termination refetch_all
  by (relation "measure (\<lambda>(env, tr, ses, pending, report, s). length pending)") (auto simp: MAX_BATCH_def)

lemma unanswered_fewer:
  assumes "sync_fetch env tr ses ask s = (Inr f, s1)" and "filter (\<lambda>u. u \<notin> set (fe_unanswered f)) ask \<noteq> []"
  shows "card (set (fe_unanswered f)) < card (set ask)"
proof (rule psubset_card_mono)
  have "set (fe_unanswered f) \<subseteq> set ask" using sync_fetch_ok [OF assms(1)] by auto
  moreover have "\<exists>u. u \<in> set ask \<and> u \<notin> set (fe_unanswered f)" using assms(2) by (auto simp: filter_empty_conv)
  ultimately show "set (fe_unanswered f) \<subset> set ask" by auto
qed simp

termination refetch_chunk
  by (relation "measure (\<lambda>(env, tr, ses, ask, report, s). card (set ask))", simp)
    (simp only: in_measure prod.case, hypsubst, rule unanswered_fewer, erule sym, assumption)

declare batches_loop.simps [simp del] refetch_chunk.simps [simp del] refetch_all.simps [simp del]

text \<open>A cursor on the wire is an \<open>i64\<close>: an answer with a larger number does not parse as a page.\<close>

definition i64_cursors :: "'s transport \<Rightarrow> bool" where
  "i64_cursors tr \<longleftrightarrow> (\<forall>t c s r s' d. tr t c s = (Inr r, s') \<longrightarrow> hr_body r = BPull d \<longrightarrow> pd_cursor d \<le> i64_max)"

lemma or_failed_Inr: "or_failed m s = (Inr x, s') \<longleftrightarrow> m s = (Inr x, s')"
  by (auto simp: or_failed_def split: prod.splits sum.splits)

lemma pulled_cursor:
  assumes "i64_cursors tr" and "or_failed (sync_pull env tr ses cursor) s = (Inr p, s')"
  shows "pu_cursor p \<le> i64_max \<and> 0 \<le> pu_cursor p \<and> 0 \<le> cursor"
proof -
  obtain r where r: "\<not> cursor < 0" "tr (tok ses) (CallPull cursor) s = (Inr r, s')" "pull_answer env r = Inr p"
    using assms(2) by (auto simp: or_failed_Inr sync_pull_def send_Inr split: if_splits)
  obtain d where d: "hr_body r = BPull d" "pu_cursor p = pd_cursor d"
    using r(3) by (auto simp: pull_answer_def expect_ok_def parse_body_def result_simps split: if_splits body.splits)
  have "pd_cursor d \<le> i64_max" using assms(1) r(2) d(1) unfolding i64_cursors_def by blast
  then show ?thesis using d(2) r(1) pull_answer_ok [OF r(3)] by simp
qed

lemma pull_loop_returns:
  assumes "i64_cursors tr"
  shows "pull_loop env tr ses cursor from_zero seen ids report s \<noteq> None"
proof (induction "nat (i64_max - cursor) + (if from_zero then 0 else nat i64_max + 1)"
    arbitrary: cursor from_zero seen ids report s rule: less_induct)
  case less
  obtain a s1 where a: "or_failed (sync_pull (cn_sync env) tr ses cursor) s = (a, s1)" by (metis surj_pair)
  show ?case
  proof (cases a)
    case (Inl e)
    then show ?thesis by (subst pull_loop.simps) (simp add: a)
  next
    case (Inr p)
    note c = pulled_cursor [OF assms a [unfolded Inr]]
    show ?thesis
    proof (cases "pu_cursor p < cursor")
      case True
      show ?thesis
      proof (cases from_zero)
        case fz: True
        then show ?thesis using True by (subst pull_loop.simps) (simp add: a Inr)
      next
        case False
        have "pull_loop env tr ses 0 True [] ids2 report s2 \<noteq> None" for ids2 s2
          by (rule less) (simp add: False)
        then show ?thesis using True False
          by (subst pull_loop.simps) (simp add: a Inr del: not_None_eq split: prod.split sum.split)
      qed
    next
      case False
      have "pull_loop env tr ses (pu_cursor p) from_zero seen2 ids report2 s2 \<noteq> None"
        if "\<not> pu_cursor p \<le> cursor" for seen2 report2 s2
        by (rule less) (use that c in simp)
      then show ?thesis using False
        by (subst pull_loop.simps) (cases from_zero; simp add: a Inr Let_def del: not_None_eq split: prod.split sum.split)
    qed
  qed
qed

lemma sync_now_returns:
  assumes "\<And>u. i64_cursors (srv u)"
  shows "sync_now env srv s \<noteq> None"
proof -
  obtain a s1 where a: "sync_start env srv s = (a, s1)" by (metis surj_pair)
  show ?thesis
  proof (cases a)
    case (Inl e)
    then show ?thesis by (simp add: sync_now_def a)
  next
    case (Inr x)
    obtain ses u adopted cursor ids where x: "x = (ses, u, adopted, cursor, ids)" by (metis prod.collapse)
    obtain r s2 where "pull_loop env (srv u) ses cursor (cursor = 0) [] ids (default_report\<lparr>sr_header_adopted := adopted\<rparr>) s1 = Some (r, s2)"
      using pull_loop_returns [OF assms] by (metis option.exhaust surj_pair)
    then show ?thesis by (cases r) (auto simp: sync_now_def a Inr x)
  qed
qed

subsection \<open>What a sync keeps\<close>

text \<open>
  A property of the vault that the operations a sync runs on it preserve. A store that takes the place of
  an erased one has it by \<open>fresh\<close>.
\<close>

locale sync_invariant =
  fixes env :: client_env and I :: "service \<Rightarrow> bool" and good_store :: "store \<Rightarrow> bool"
  assumes apply_keeps: "I v \<Longrightarrow> I (snd (apply_changes (cn_core env) cs cur now v))"
    and reset_keeps: "I v \<Longrightarrow> I (snd (reset_sync_cursor now v))"
    and adopt_keeps: "I v \<Longrightarrow> I (snd (adopt_account_header (cn_sync env) b v))"
    and tombstone_keeps: "I v \<Longrightarrow> is_tombstone w \<Longrightarrow> I (snd (commit_write w rv v))"
    and plan_keeps: "I v \<Longrightarrow> I (vault_set_plan p v)"
    and prune_keeps: "I v \<Longrightarrow> I (snd (vault_prune_attachment_cache cap v))"
    and lock_keeps: "I v \<Longrightarrow> I (snd (lock v))"
    and fresh: "good_store st \<Longrightarrow> I (snd (replace_store st v))"
begin

definition good :: "'w \<times> client \<Rightarrow> bool" where
  "good s \<longleftrightarrow> I (cl_vault (snd s)) \<and> pred_option good_store (ww_in_memory (cl_wipe (snd s))) \<and>
     pred_option good_store (ww_reopened (cl_wipe (snd s)))"

definition keeps :: "('w \<times> client \<Rightarrow> 'r \<times> 'w \<times> client) \<Rightarrow> bool" where
  "keeps m \<longleftrightarrow> (\<forall>s. good s \<longrightarrow> good (snd (m s)))"

lemma keepsD: "keeps m \<Longrightarrow> good s \<Longrightarrow> m s = (r, s') \<Longrightarrow> good s'"
  unfolding keeps_def by (metis snd_conv)

lemma keeps_lift: "keeps (io_lift r)"
  by (simp add: keeps_def io_lift_def)

lemma keeps_then:
  fixes m :: "'w \<times> client \<Rightarrow> ('e + 'a) \<times> 'w \<times> client"
  assumes "keeps m" and "\<And>x. keeps (f x)"
  shows "keeps (io_then m f)"
  unfolding keeps_def
proof (intro allI impI)
  fix s :: "'w \<times> client" assume s: "good s"
  obtain r s1 where r: "m s = (r, s1)" by (metis surj_pair)
  have s1: "good s1" by (rule keepsD [OF assms(1) s r])
  show "good (snd (io_then m f s))"
    using s1 assms(2) r by (cases r) (simp_all add: io_then_def keeps_def del: split_paired_All)
qed

lemma keeps_if: "(b \<Longrightarrow> keeps m) \<Longrightarrow> (\<not> b \<Longrightarrow> keeps n) \<Longrightarrow> keeps (if b then m else n)"
  by simp

lemma keeps_prod: "(\<And>a b. keeps (f a b)) \<Longrightarrow> keeps (case x of (a, b) \<Rightarrow> f a b)"
  by (cases x) simp

lemma keeps_vault: "(\<And>v. I v \<Longrightarrow> I (snd (f v))) \<Longrightarrow> keeps (on_vault f)"
  by (auto simp: keeps_def good_def on_vault_def vault_guard_def split: sum.splits option.splits prod.splits) (metis snd_conv)

lemma keeps_read: "keeps (read_vault f)"
  unfolding read_vault_def by (rule keeps_vault) simp

lemma keeps_now: "(\<And>n. keeps (f n)) \<Longrightarrow> keeps (with_now f)"
  by (auto simp: keeps_def with_now_def)

lemma keeps_client:
  assumes "\<And>c. cl_vault (f c) = cl_vault c" and "\<And>c. cl_wipe (f c) = cl_wipe c"
  shows "keeps (on_client f)"
  by (auto simp: keeps_def good_def on_client_def assms)

lemmas keeps_rules = keeps_then keeps_lift keeps_if keeps_prod keeps_read keeps_now

lemma good_announce: "good (w, announce e c) \<longleftrightarrow> good (w, c)"
  by (simp add: good_def announce_def)

lemma wipe_vault:
  assumes "I (cl_vault c)" and "pred_option good_store (ww_in_memory (cl_wipe c))" and "pred_option good_store (ww_reopened (cl_wipe c))"
  shows "I (cl_vault (wipe_local a c)) \<and> cl_wipe (wipe_local a c) = cl_wipe c"
proof -
  have l: "I (cl_vault (client_lock r b)) \<and> cl_wipe (client_lock r b) = cl_wipe b" if "I (cl_vault b)" for r b
    using that lock_keeps
    by (auto simp: client_lock_def drop_session_def announce_def Let_def case_prod_beta split: connectivity.splits)
  define c0 where "c0 = (if ww_marked (cl_wipe c) then c\<lparr>cl_marker := Some (Some a)\<rparr> else c)"
  have "I (cl_vault c0)" "cl_wipe c0 = cl_wipe c" using assms(1) by (simp_all add: c0_def)
  with l [of c0] have c1: "I (cl_vault (client_lock ''account_deleted'' c0))" "cl_wipe (client_lock ''account_deleted'' c0) = cl_wipe c"
    by auto
  show ?thesis
    unfolding wipe_local_def Let_def c0_def [symmetric]
    using c1 assms(2,3) fresh by (auto simp: announce_def vault_guard_def Let_def split: option.splits prod.splits)
qed

lemma failed_good:
  assumes "good (w, c)"
  shows "good (w, failed_state e c)"
proof -
  have off: "good (w, snd (go_offline c))"
    using assms by (auto simp: go_offline_def drop_session_def good_def announce_def split: connectivity.splits)
  have un: "good (w, mark_unreachable c)"
    using assms by (auto simp: mark_unreachable_def good_def announce_def split: connectivity.splits)
  have fr: "good (w, mark_frozen c)"
    using assms plan_keeps by (auto simp: mark_frozen_def good_def announce_def vault_guard_def Let_def split: option.splits sum.splits)
  have wi: "good (w, wipe_local a c)" for a
    using wipe_vault [of c a] assms by (auto simp: good_def)
  show ?thesis
    using assms off un fr wi by (cases e) (auto simp: failed_state_def good_announce split: prod.splits sum.splits option.splits)
qed

lemma keeps_failed: "keeps m \<Longrightarrow> keeps (or_failed m)"
  unfolding keeps_def or_failed_def by (auto split: prod.splits sum.splits intro!: failed_good) (metis snd_conv)+

lemma record_plan_good: "good s \<Longrightarrow> good (snd (record_plan i s))"
  using plan_keeps
  by (cases s) (auto simp: record_plan_def good_def announce_def vault_guard_def split: option.splits)

definition calm :: "('w \<times> client) transport \<Rightarrow> bool" where
  "calm tr \<longleftrightarrow> (\<forall>t c. keeps (tr t c))"

lemma keeps_send: "calm tr \<Longrightarrow> keeps (send tr t c k)"
  by (auto simp: calm_def keeps_def send_def split: prod.splits) (metis snd_conv)

lemma keeps_calls:
  assumes "calm tr"
  shows "keeps (sync_pull e tr ses n)" "keeps (sync_write e tr ses ws)" "keeps (sync_fetch e tr ses ids)" "keeps (sync_header e tr ses)"
proof -
  show "keeps (sync_pull e tr ses n)"
    using keeps_send [OF assms, of "tok ses" "CallPull n" "pull_answer e"] by (simp add: keeps_def sync_pull_def)
  show "keeps (sync_write e tr ses ws)"
    using keeps_send [OF assms, of "tok ses" _ "write_answer (length ws)"] by (auto simp: keeps_def sync_write_def split: sum.splits)
  show "keeps (sync_fetch e tr ses ids)"
    using keeps_send [OF assms, of "tok ses" "CallFetch ids" "fetch_answer e ids"] by (simp add: keeps_def sync_fetch_def)
  show "keeps (sync_header e tr ses)" unfolding sync_header_def by (rule keeps_send [OF assms])
qed

lemma keeps_commit_all: "list_all is_tombstone ws \<Longrightarrow> keeps (commit_all applied ws n)"
  by (induction ws arbitrary: n) (auto intro!: keeps_rules keeps_vault tombstone_keeps)

lemma keeps_batches:
  assumes "calm tr"
  shows "list_all is_tombstone queue \<Longrightarrow> keeps (batches_loop env tr ses queue n)"
proof (induction "length queue" arbitrary: queue n rule: less_induct)
  case less
  show ?case
  proof (cases "queue = []")
    case True
    then show ?thesis by (simp add: batches_loop.simps keeps_lift)
  next
    case False
    have t: "list_all is_tombstone (take MAX_BATCH queue)" "list_all is_tombstone (drop MAX_BATCH queue)"
      using less.prems by (auto simp: list_all_iff dest: in_set_takeD in_set_dropD)
    have "keeps (batches_loop env tr ses (drop MAX_BATCH queue) m)" for m
      by (rule less.hyps) (use False t in \<open>simp_all add: MAX_BATCH_def\<close>)
    then show ?thesis
      using False by (subst batches_loop.simps) (auto intro!: keeps_rules keeps_failed keeps_calls [OF assms] keeps_commit_all t)
  qed
qed

lemma keeps_header_step: "calm tr \<Longrightarrow> keeps (header_step env tr ses)"
  unfolding header_step_def
  by (intro keeps_rules keeps_failed keeps_calls keeps_vault adopt_keeps keeps_client)
    (auto simp: mark_reachable_def announce_def split: connectivity.splits)

lemma keeps_session: "keeps (session_and_server env)"
proof -
  have "keeps (\<lambda>(w, c). (held_session c, w, c))" by (simp add: keeps_def)
  then show ?thesis unfolding session_and_server_def client_server_def by (intro keeps_rules)
qed

lemma keeps_restart: "keeps restart_pull"
  unfolding restart_pull_def by (intro keeps_rules keeps_vault reset_keeps)

lemma keeps_take_page: "keeps (take_page env p)"
proof -
  have "keeps (\<lambda>s. (Inr page, snd (record_plan (pu_account p) s)))" for page
    unfolding keeps_def by (simp add: record_plan_good del: split_paired_All)
  moreover have "I v \<Longrightarrow> I (snd (apply_remote_changes (cn_core env) (pu_cursor p) (pu_changes p) now v))" for now v
    unfolding apply_remote_changes_def by (rule apply_keeps)
  ultimately show ?thesis unfolding take_page_def by (intro keeps_rules keeps_vault)
qed

lemma keeps_drop: "keeps (drop_lacking env ids seen)"
proof -
  have "I v \<Longrightarrow> I (snd (drop_items_the_server_lacks (cn_core env) ids seen now v))" for now v
    using apply_keeps by (auto simp: drop_items_the_server_lacks_def Let_def split: sum.splits)
  then show ?thesis unfolding drop_lacking_def by (intro keeps_rules keeps_vault)
qed

lemma pull_loop_good:
  assumes "calm tr" and "pull_loop env tr ses cursor fz seen ids report s = Some y" and "good s"
  shows "good (snd y)"
proof (rule pull_loop.raw_induct [where P = "\<lambda>e tr' ses cursor fz seen ids report s y. e = env \<longrightarrow> tr' = tr \<longrightarrow> good s \<longrightarrow> good (snd y)",
      OF _ assms(2), rule_format, OF _ refl refl assms(3)], goal_cases)
  case (1 f e tr' ses cursor fz seen ids report s y)
  obtain r s1 where r: "or_failed (sync_pull (cn_sync env) tr ses cursor) s = (r, s1)" by (metis surj_pair)
  have s1: "good s1" by (rule keepsD [OF keeps_failed [OF keeps_calls(1) [OF assms(1)]] _ r]) (use 1 in simp)
  obtain a s2 where a: "restart_pull s1 = (a, s2)" by (metis surj_pair)
  have s2: "good s2" by (rule keepsD [OF keeps_restart s1 a])
  have rest: ?case if "r = Inr p" for p
  proof -
    obtain b s3 where b: "take_page env p s1 = (b, s3)" by (metis surj_pair)
    have s3: "good s3" by (rule keepsD [OF keeps_take_page s1 b])
    define seen2 where "seen2 = (if fz then map rc_item_id (pu_changes p) @ seen else seen)"
    obtain d s4 where d: "drop_lacking env ids seen2 s3 = (d, s4)" by (metis surj_pair)
    have s4: "good s4" by (rule keepsD [OF keeps_drop s3 d])
    let ?rep = "\<lambda>page. add_pulled report page"
    have "(if pu_cursor p < cursor then (if fz then Some (Inl internal, s1)
          else case a of Inl x \<Rightarrow> Some (Inl x, s2) | Inr ids2 \<Rightarrow> f env tr ses 0 True [] ids2 report s2)
        else case b of Inl x \<Rightarrow> Some (Inl x, s3) | Inr page \<Rightarrow>
          if \<not> pu_has_more p \<or> pu_cursor p \<le> cursor then
            (if fz \<and> \<not> pu_has_more p then
               (case d of Inl x \<Rightarrow> Some (Inl x, s4)
                | Inr dropped \<Rightarrow> Some (Inr ((?rep page)\<lparr>sr_deleted := sr_deleted (?rep page) + sr_deleted dropped\<rparr>), s4))
             else Some (Inr (?rep page), s3))
          else f env tr ses (pu_cursor p) fz seen2 ids (?rep page) s3) = Some y"
      using 1(2) [unfolded 1(3,4) r that prod.case sum.case Let_def, folded seen2_def, unfolded a b d prod.case] .
    moreover have "f env tr ses cursor fz seen ids report s = Some y \<Longrightarrow> good s \<Longrightarrow> good (snd y)" for ses cursor fz seen ids report s y
      using 1(1) [of env tr ses cursor fz seen ids report s y] by simp
    ultimately show ?thesis using s1 s2 s3 s4 by (auto split: if_splits sum.splits simp del: split_paired_All)
  qed
  then show ?case using 1 r s1 by (cases r) (auto simp: Let_def)
qed

lemma refetch_chunk_good:
  assumes "calm tr"
  shows "good s \<Longrightarrow> good (snd (snd (refetch_chunk env tr ses ask report s)))"
proof (induction "card (set ask)" arbitrary: ask report s rule: less_induct)
  case less
  obtain r w c where r: "sync_fetch (cn_sync env) tr ses ask s = (r, w, c)" by (metis prod_cases3)
  have g: "good (w, c)" by (rule keepsD [OF keeps_calls(3) [OF assms] less.prems r])
  show ?case
  proof (cases "ask = [] \<or> (\<exists>e. r = Inl e)")
    case True
    then show ?thesis using less.prems r g failed_good [OF g] by (subst refetch_chunk.simps) auto
  next
    case False
    then obtain f where f: "r = Inr f" "ask \<noteq> []" by (cases r) auto
    let ?answered = "filter (\<lambda>u. u \<notin> set (fe_unanswered f)) ask"
    show ?thesis
    proof (cases "?answered = []")
      case True
      then show ?thesis using f r g by (subst refetch_chunk.simps) (simp add: Let_def)
    next
      case a: False
      have fewer: "card (set (fe_unanswered f)) < card (set ask)" using unanswered_fewer [OF r [unfolded f(1)] a] .
      obtain q s2 where q: "with_now (\<lambda>now. on_vault (apply_refetched (cn_core env) ?answered (fe_changes f) now)) (w, c) = (q, s2)"
        by (metis surj_pair)
      have "keeps (with_now (\<lambda>now. on_vault (apply_refetched (cn_core env) ?answered (fe_changes f) now)))"
        unfolding apply_refetched_def by (intro keeps_now keeps_vault apply_keeps)
      from keepsD [OF this g q] have s2: "good s2" .
      show ?thesis
        using less.hyps [OF fewer s2] f r a q s2 by (subst refetch_chunk.simps) (cases q; simp add: Let_def)
    qed
  qed
qed

lemma refetch_all_good:
  assumes "calm tr"
  shows "good s \<Longrightarrow> good (snd (refetch_all env tr ses pending report s))"
proof (induction "length pending" arbitrary: pending report s rule: less_induct)
  case less
  obtain r on s1 where r: "refetch_chunk env tr ses (take MAX_BATCH pending) report s = (r, on, s1)" by (metis prod_cases3)
  have s1: "good s1" using refetch_chunk_good [OF assms less.prems, of ses "take MAX_BATCH pending" report] r by simp
  have "pending \<noteq> [] \<Longrightarrow> good (snd (refetch_all env tr ses (drop MAX_BATCH pending) r s1))"
    by (rule less.hyps [OF _ s1]) (simp add: MAX_BATCH_def)
  then show ?case using less.prems r s1 by (subst refetch_all.simps) simp
qed

lemma keeps_push_batches:
  assumes "\<And>u. calm (srv u)" and "list_all is_tombstone ws"
  shows "keeps (push_batches env srv ws)"
proof -
  have "keeps client_require_full" unfolding client_require_full_def by (intro keeps_rules)
  then show ?thesis
    unfolding push_batches_def by (intro keeps_rules keeps_session keeps_batches assms)
qed

lemma purge_good:
  assumes "\<And>u. calm (srv u)" and "good s"
  shows "good (snd (purge_expired_trash env srv s))"
proof -
  obtain due s1 where d: "with_now (\<lambda>now. read_vault (stage_expired_trash now)) s = (due, s1)" by (metis surj_pair)
  have k: "keeps (with_now (\<lambda>now. read_vault (stage_expired_trash now)))" by (intro keeps_rules)
  have s1: "good s1" by (rule keepsD [OF k assms(2) d])
  show ?thesis
  proof (cases due)
    case (Inl e)
    then show ?thesis using d s1 by (simp add: purge_expired_trash_def or_else_def io_then_def)
  next
    case (Inr ws)
    then obtain now v where "stage_expired_trash now v = Inr ws"
      using d by (cases s) (auto simp: with_now_def read_vault_def on_vault_def result_simps split: sum.splits)
    then have t: "list_all is_tombstone ws"
      by (auto simp: stage_expired_trash_def result_simps list_all_iff)
    obtain q s2 where q: "push_batches env srv ws s1 = (q, s2)" by (metis surj_pair)
    have "good s2" by (rule keepsD [OF keeps_push_batches [OF assms(1) t] s1 q])
    then show ?thesis
      using d Inr s1 q by (cases q) (auto simp: purge_expired_trash_def or_else_def io_then_def io_lift_def)
  qed
qed

lemma sync_now_good:
  assumes "\<And>u. calm (srv u)" and "good s" and "sync_now env srv s = Some (r, s')"
  shows "good s'"
proof -
  have "keeps (on_client mark_sync_attempt)" by (rule keeps_client) (simp_all add: mark_sync_attempt_def)
  then have k: "keeps (sync_start env srv)"
    unfolding sync_start_def by (intro keeps_rules keeps_session keeps_header_step assms(1))
  obtain a s1 where a: "sync_start env srv s = (a, s1)" by (metis surj_pair)
  have s1: "good s1" by (rule keepsD [OF k assms(2) a])
  show ?thesis
  proof (cases a)
    case (Inl e)
    then show ?thesis using assms(3) a s1 by (simp add: sync_now_def)
  next
    case (Inr x)
    obtain ses u adopted cursor ids where x: "x = (ses, u, adopted, cursor, ids)" by (metis prod.collapse)
    obtain q s2 where q: "pull_loop env (srv u) ses cursor (cursor = 0) [] ids (default_report\<lparr>sr_header_adopted := adopted\<rparr>) s1 = Some (q, s2)"
      using assms(3) a Inr x by (auto simp: sync_now_def split: option.splits)
    have s2: "good s2" using pull_loop_good [OF assms(1) q s1] by simp
    show ?thesis
    proof (cases q)
      case e: (Inl e)
      then show ?thesis using assms(3) a Inr x q s2 by (simp add: sync_now_def)
    next
      case rep: (Inr report)
      obtain p s3 where p: "read_vault (\<lambda>v. Inr (unreadable_ids (vs_store v))) s2 = (p, s3)" by (metis surj_pair)
      have s3: "good s3" by (rule keepsD [OF keeps_read s2 p])
      have f: "sync_finish env srv ses u report s2 = (r, s')" using assms(3) a Inr x q rep by (simp add: sync_now_def)
      show ?thesis
      proof (cases p)
        case (Inl e)
        then show ?thesis using f p s3 by (simp add: sync_finish_def io_then_def)
      next
        case pend: (Inr pending)
        obtain r1 s4 where r1: "refetch_all env (srv u) ses pending report s3 = (r1, s4)" by (metis surj_pair)
        have s4: "good s4" using refetch_all_good [OF assms(1) s3, of u ses pending report] r1 by simp
        obtain n s5 where n: "purge_expired_trash env srv s4 = (n, s5)" by (metis surj_pair)
        have s5: "good s5" using purge_good [where srv = srv, OF assms(1) s4] n by simp
        have "good (snd (on_vault (vault_prune_attachment_cache cap) s5))" for cap
          by (rule keeps_vault [unfolded keeps_def, rule_format, OF prune_keeps s5])
        then have "good (client_prune_attachment_cache s5)"
          by (cases s5) (simp add: client_prune_attachment_cache_def)
        then show ?thesis
          using f p pend r1 n
          by (cases "client_prune_attachment_cache s5")
            (auto simp: sync_finish_def io_then_def Let_def mark_sync_attempt_def announce_def good_def)
      qed
    qed
  qed
qed

end

interpretation client_sync: sync_invariant env "service_inv (cn_core env)" store_inv
proof
  fix v b st p cap w rv cs cur now
  assume i: "service_inv (cn_core env) v"
  show "service_inv (cn_core env) (snd (apply_changes (cn_core env) cs cur now v))" by (rule apply_changes_inv [OF i])
  show "service_inv (cn_core env) (snd (reset_sync_cursor now v))" by (rule op_inv [OF op_reset_cursor i])
  show "service_inv (cn_core env) (snd (adopt_account_header (cn_sync env) b v))" by (rule adopt_account_header_inv [OF i])
  show "service_inv (cn_core env) (vault_set_plan p v)" by (rule op_inv [OF op_plan i])
  show "service_inv (cn_core env) (snd (vault_prune_attachment_cache cap v))" by (rule op_inv [OF op_prune i])
  show "service_inv (cn_core env) (snd (lock v))" by (rule lock_inv [OF i])
  show "service_inv (cn_core env) (snd (commit_write w rv v))" if "is_tombstone w"
    by (rule commit_write_inv [OF i]) (simp add: staged_ok_def that)
next
  show "service_inv (cn_core env) (snd (replace_store st v))" if "store_inv st" for st v by (rule replace_store_inv [OF that])
qed

subsection \<open>A client for the witnesses\<close>

definition toy_file :: header_file where
  "toy_file = \<lparr>hf_body = \<lparr>hb_format = 1, hb_vault_id = 5, hb_vault_format = 2, hb_key_scheme = AccountBound, hb_kdf = toy_kdf,
     hb_wrapped_vault_key = [], hb_revision = 1, hb_created_at = 0\<rparr>, hf_attestation = []\<rparr>"

definition toy_server_url :: url where
  "toy_server_url = \<lparr>scheme = str ''https'', host = None, host_str = None, port = None, port_or_known_default = None, url_path = [],
     query_pairs = [], url_username = [], url_password = None, origin_ascii = [], without_fragment = []\<rparr>"

definition toy_client_env :: client_env where
  "toy_client_env = \<lparr>cn_sync = toy_sync toy_file, cn_url = (\<lambda>_. Some toy_server_url), cn_localhost_http = False\<rparr>"

definition toy_csession :: client_session where
  "toy_csession = \<lparr>cs_token = [65], cs_expires_at = [], cs_account_id = 9, cs_vault_id = 5, cs_account = None\<rparr>"

definition toy_client :: client where
  "toy_client = \<lparr>cl_vault = toy_vault, cl_storage_error = None, cl_connectivity = ConnOnline toy_csession, cl_last_sync_attempt = None,
     cl_cache_cap = 0, cl_device = toy_device, cl_marker = None, cl_wipe = \<lparr>ww_marked = True, ww_in_memory = Some empty_store, ww_file_gone = True,
       ww_reopened = Some empty_store, ww_new_id = 77, ww_unmarked = True\<rparr>,
     cl_events = [], cl_now_ms = 1, cl_elapsed = 0\<rparr>"

text \<open>A server whose every page promises more and moves the cursor by one.\<close>

definition spinning :: "rstring \<Rightarrow> ('w \<times> client) transport" where
  "spinning u t q s = (case q of
     CallPull since \<Rightarrow> (Inr \<lparr>hr_status = 200, hr_said = None, hr_body = BPull \<lparr>pd_cursor = min i64_max (since + 1), pd_has_more = True,
       pd_changes = [], pd_account = None\<rparr>\<rparr>, s)
   | _ \<Rightarrow> (Inl SyUnavailable, s))"

lemma spinning_i64: "i64_cursors (spinning u)"
  by (auto simp: i64_cursors_def spinning_def split: call.splits)

text \<open>A server that answers every request alike.\<close>

definition answering :: "nat \<Rightarrow> string option \<Rightarrow> (unit \<times> client) transport" where
  "answering n said t q s = (Inr \<lparr>hr_status = n, hr_said = said, hr_body = BOther\<rparr>, s)"

subsection \<open>A refused request\<close>

lemma connectivity_steps:
  "held_session (mark_unreachable c) = held_session c" "\<not> is_online (mark_unreachable c)"
  "held_session (snd (go_offline c)) = Inl (error_code Offline)" "\<not> is_online (snd (go_offline c))"
  "cl_vault (mark_unreachable c) = cl_vault c" "cl_device (mark_unreachable c) = cl_device c" "cl_marker (mark_unreachable c) = cl_marker c"
  "cl_vault (snd (go_offline c)) = cl_vault c" "cl_device (snd (go_offline c)) = cl_device c" "cl_marker (snd (go_offline c)) = cl_marker c"
  by (auto simp: mark_unreachable_def go_offline_def drop_session_def held_session_def is_online_def announce_def
      split: connectivity.splits)

lemma announce_fields [simp]:
  "cl_vault (announce e c) = cl_vault c" "cl_device (announce e c) = cl_device c" "cl_marker (announce e c) = cl_marker c"
  "held_session (announce e c) = held_session c" "is_online (announce e c) = is_online c"
  by (simp_all add: announce_def held_session_def is_online_def)

definition untouched :: "client \<Rightarrow> client \<Rightarrow> bool" where
  "untouched c c' \<longleftrightarrow> cl_device c' = cl_device c \<and> cl_marker c' = cl_marker c \<and> vs_session (cl_vault c') = vs_session (cl_vault c) \<and>
     vs_state (cl_vault c') = vs_state (cl_vault c) \<and> st_items (vs_store (cl_vault c')) = st_items (vs_store (cl_vault c))"

lemma failed_state_effects:
  "e \<noteq> SyAccountDeleted \<Longrightarrow> untouched c (failed_state e c)"
  "e \<noteq> SyAccountDeleted \<Longrightarrow> e \<noteq> SyUnauthorized \<Longrightarrow> held_session (failed_state e c) = held_session c"
  "e = SyUnauthorized \<Longrightarrow> held_session (failed_state e c) = Inl (error_code Offline)"
  "e = SyUnauthorized \<or> e = SyUnavailable \<Longrightarrow> \<not> is_online (failed_state e c)"
proof -
  obtain b c1 where g: "go_offline c = (b, c1)" by (metis surj_pair)
  note o = connectivity_steps [of c, unfolded g snd_conv]
  have fr: "untouched c (mark_frozen c) \<and> held_session (mark_frozen c) = held_session c"
    by (auto simp: mark_frozen_def vault_guard_def untouched_def vault_set_plan_def set_plan_def held_session_def announce_def Let_def split: sum.splits option.splits)
  show "e \<noteq> SyAccountDeleted \<Longrightarrow> untouched c (failed_state e c)"
    using o fr by (cases e) (auto simp: failed_state_def untouched_def g)
  show "e \<noteq> SyAccountDeleted \<Longrightarrow> e \<noteq> SyUnauthorized \<Longrightarrow> held_session (failed_state e c) = held_session c"
    using o fr by (cases e) (auto simp: failed_state_def)
  show "e = SyUnauthorized \<Longrightarrow> held_session (failed_state e c) = Inl (error_code Offline)" using o by (simp add: failed_state_def g)
  show "e = SyUnauthorized \<or> e = SyUnavailable \<Longrightarrow> \<not> is_online (failed_state e c)" using o by (auto simp: failed_state_def g split: if_splits)
qed

lemma collect_results_Inl: "collect_results f xs = Inl e \<Longrightarrow> \<exists>x\<in>set xs. f x = Inl e"
  by (induction xs) (auto simp: result_simps)

lemma pull_refusal:
  assumes "pull_answer env r = Inl e" and "\<not> (hr_status r = 410 \<and> hr_said r = Some ''account_deleted'')"
  shows "e \<noteq> SyAccountDeleted" "e = SyUnauthorized \<longleftrightarrow> hr_status r \<in> {401, 403}" "500 \<le> hr_status r \<Longrightarrow> e = SyUnavailable"
proof -
  have "hr_status r \<noteq> 200 \<and> e = error_from r \<or> hr_status r = 200 \<and> (e = SyTooLarge \<or> (\<exists>m. e = SyProtocol m))"
  proof (cases "hr_status r = 200")
    case True
    moreover have "remote_change_from env d = Inl e \<Longrightarrow> e = SyTooLarge \<or> (\<exists>m. e = SyProtocol m)" for d
      by (auto simp: remote_change_from_def decode_blob_def result_simps Let_def split: option.splits if_splits)
    ultimately show ?thesis
      using assms(1) by (auto simp: pull_answer_def expect_ok_def parse_body_def result_simps dest!: collect_results_Inl)
  next
    case False
    then show ?thesis using assms(1) by (simp add: pull_answer_def expect_ok_def)
  qed
  then show "e \<noteq> SyAccountDeleted" "e = SyUnauthorized \<longleftrightarrow> hr_status r \<in> {401, 403}" "500 \<le> hr_status r \<Longrightarrow> e = SyUnavailable"
    using assms(2) by (auto simp: error_from_def error_for_def split: if_splits)
qed

subsection \<open>Erasing a deleted account\<close>

lemma client_lock_fields:
  "cl_storage_error (client_lock r c) = cl_storage_error c" "cl_device (client_lock r c) = cl_device c" "cl_marker (client_lock r c) = cl_marker c"
  "held_session (client_lock r c) = Inl (error_code Offline)" "cl_vault (client_lock r c) = snd (lock (cl_vault c))"
  by (auto simp: client_lock_def drop_session_def announce_def held_session_def Let_def case_prod_beta split: connectivity.splits)

lemma forget_fields:
  "dv_file_key (snd (device_forget n a d)) = None" "dv_cached (snd (device_forget n a d)) = None"
proof -
  obtain b ts where b: "delete_twice a (dv_store d) = (b, ts)" by (metis surj_pair)
  show "dv_file_key (snd (device_forget n a d)) = None" "dv_cached (snd (device_forget n a d)) = None"
    by (cases rule: save_cases [of "d\<lparr>dv_store := ts, dv_file_key := None, dv_cached := None, dv_id := n\<rparr>"]; simp add: device_forget_def b)+
qed

lemma wipe_local_effects:
  assumes "cl_storage_error c = None"
  shows "held_session (wipe_local a c) = Inl (error_code Offline)" "vs_session (cl_vault (wipe_local a c)) = None"
    "cl_device (wipe_local a c) = snd (device_forget (ww_new_id (cl_wipe c)) a (cl_device c))"
    "cl_marker (wipe_local a c) = (if ww_file_gone (cl_wipe c) \<and> ww_unmarked (cl_wipe c) then None
       else if ww_marked (cl_wipe c) then Some (Some a) else cl_marker c)"
    "ww_reopened (cl_wipe c) = Some st \<Longrightarrow> vs_store (cl_vault (wipe_local a c)) = st"
proof -
  define c0 where "c0 = (if ww_marked (cl_wipe c) then c\<lparr>cl_marker := Some (Some a)\<rparr> else c)"
  define v1 where "v1 = (case ww_in_memory (cl_wipe c) of Some st \<Rightarrow> snd (replace_store st (snd (lock (cl_vault c)))) | None \<Rightarrow> snd (lock (cl_vault c)))"
  define v2 where "v2 = (case ww_reopened (cl_wipe c) of Some st \<Rightarrow> snd (replace_store st v1) | None \<Rightarrow> v1)"
  have f: "cl_storage_error c0 = None" "cl_device c0 = cl_device c" "cl_vault c0 = cl_vault c"
      "cl_marker c0 = (if ww_marked (cl_wipe c) then Some (Some a) else cl_marker c)" using assms by (simp_all add: c0_def)
  obtain r d where d: "device_forget (ww_new_id (cl_wipe c)) a (cl_device c) = (r, d)" by (metis surj_pair)
  have w: "wipe_local a c = announce (EvAccountDeleted (fst r)) (let c3 = (client_lock ''account_deleted'' c0)\<lparr>cl_vault := v2, cl_device := d\<rparr>
      in if ww_file_gone (cl_wipe c) \<and> ww_unmarked (cl_wipe c) then c3\<lparr>cl_marker := None\<rparr> else c3)"
    unfolding wipe_local_def Let_def c0_def [symmetric] v2_def v1_def
    by (simp add: vault_guard_def client_lock_fields f d case_prod_beta)
  have v: "vs_session v2 = None" by (simp add: v2_def v1_def replace_store_def lock_def split: option.split)
  show "vs_session (cl_vault (wipe_local a c)) = None" using v by (simp add: w Let_def)
  show "cl_device (wipe_local a c) = snd (device_forget (ww_new_id (cl_wipe c)) a (cl_device c))" by (simp add: w Let_def d)
  show "held_session (wipe_local a c) = Inl (error_code Offline)"
    using client_lock_fields(4) [of "''account_deleted''" c0] by (simp add: w Let_def) (simp add: held_session_def)
  show "cl_marker (wipe_local a c) = (if ww_file_gone (cl_wipe c) \<and> ww_unmarked (cl_wipe c) then None
       else if ww_marked (cl_wipe c) then Some (Some a) else cl_marker c)"
    using f client_lock_fields(3) [of "''account_deleted''" c0] by (auto simp: w Let_def)
  show "ww_reopened (cl_wipe c) = Some st \<Longrightarrow> vs_store (cl_vault (wipe_local a c)) = st"
    by (simp add: w Let_def v2_def replace_store_def)
qed

subsection \<open>Claims\<close>

text \<open>
  C21. Pulling always ends, whatever the server answers and whatever the device does in between: the cursor
  of a page is an \<open>i64\<close>, every further page needs a larger one, and the pull starts over at most once.
  So a sync and a sign-in return, with a report or an error.
\<close>

theorem sync_returns:
  assumes "\<forall>u. i64_cursors (srv u)"
  shows "sync_now env srv s \<noteq> None \<and> connect env pk srv rn device_name auth_key s \<noteq> None"
proof -
  have n: "sync_now env srv s \<noteq> None" for s by (rule sync_now_returns) (use assms in blast)
  have i: "ensure_identity env srv rn s \<noteq> None" for s
    using n by (auto simp: ensure_identity_def simp del: not_None_eq split: prod.splits sum.splits option.splits)
  show ?thesis using n i by (auto simp: connect_def simp del: not_None_eq split: prod.splits sum.splits option.splits)
qed

text \<open>
  A request the server refuses costs the device only what the answer says: unless it says that the account was
  deleted, the items, the open vault and the Secret Key stay as they are. A 401 or 403 ends the session; a
  failure of the server (500 and above) keeps it but shows the device offline; every other refusal leaves the
  session alone.
\<close>

theorem refused_pull_effects:
  assumes "tr (tok ses) (CallPull n) s = (Inr r, w, c)" and "0 \<le> n"
    and "or_failed (sync_pull (cn_sync env) tr ses n) s = (Inl e, w', c')"
    and "\<not> (hr_status r = 410 \<and> hr_said r = Some ''account_deleted'')"
  shows "w' = w \<and> cl_device c' = cl_device c \<and> vs_session (cl_vault c') = vs_session (cl_vault c) \<and>
    st_items (vs_store (cl_vault c')) = st_items (vs_store (cl_vault c)) \<and>
    held_session c' = (if hr_status r \<in> {401, 403} then Inl (error_code Offline) else held_session c) \<and>
    (hr_status r \<in> {401, 403} \<or> 500 \<le> hr_status r \<longrightarrow> \<not> is_online c')"
proof -
  obtain x where x: "pull_answer (cn_sync env) r = Inl x" "w' = w" "c' = failed_state x c"
    using assms(1-3) by (auto simp: or_failed_def sync_pull_def send_def split: sum.splits)
  note p = pull_refusal [OF x(1) assms(4)] and f = failed_state_effects [of x c, folded x(3)]
  show ?thesis using x(2) p f by (auto simp: untouched_def)
qed

text \<open>
  C20. A sync keeps the vault's invariant (the index and the cache of an open session agree with the store it
  was read from), whatever the server sends, as long as what other threads do to the client while a request
  is in flight keeps it too.
\<close>

theorem sync_keeps_invariant:
  assumes "service_inv (cn_core env) (cl_vault c)"
    and "pred_option store_inv (ww_in_memory (cl_wipe c))" and "pred_option store_inv (ww_reopened (cl_wipe c))"
    and "\<forall>u t q w c r w' c'. srv u t q (w, c) = (r, w', c') \<longrightarrow> service_inv (cn_core env) (cl_vault c) \<longrightarrow>
      service_inv (cn_core env) (cl_vault c') \<and> cl_wipe c' = cl_wipe c"
    and "sync_now env srv (w, c) = Some (r, w', c')"
  shows "service_inv (cn_core env) (cl_vault c')"
proof -
  have "client_sync.calm env (srv u)" for u
    using assms(4) unfolding client_sync.calm_def client_sync.keeps_def client_sync.good_def
    by clarsimp (metis prod.collapse)
  moreover have "client_sync.good env (w, c)" using assms(1-3) by (simp add: client_sync.good_def)
  ultimately show ?thesis using client_sync.sync_now_good assms(5) by (fastforce simp: client_sync.good_def)
qed


text \<open>
  A deletion cut short is finished at the next start, and only for the account it was for: with that account's
  vault or none on the device, the device is wiped; with another account's, the vault and
  the Secret Key stay and the marker is what goes.
\<close>

theorem pending_deletion_finished:
  assumes "cl_marker c = Some (Some a)" and "cl_storage_error c = None" and "account (vs_store (cl_vault c)) = Inr x"
  shows "(if pred_option (\<lambda>y. ac_account_id y = a) x
      then fst (finish_pending_deletion c) \<and> vs_session (cl_vault (snd (finish_pending_deletion c))) = None \<and>
        dv_file_key (cl_device (snd (finish_pending_deletion c))) = None \<and>
        (\<forall>st. ww_reopened (cl_wipe c) = Some st \<longrightarrow> vs_store (cl_vault (snd (finish_pending_deletion c))) = st) \<and>
        (ww_file_gone (cl_wipe c) \<and> ww_unmarked (cl_wipe c) \<longrightarrow> cl_marker (snd (finish_pending_deletion c)) = None)
      else \<not> fst (finish_pending_deletion c) \<and> cl_vault (snd (finish_pending_deletion c)) = cl_vault c \<and>
        cl_device (snd (finish_pending_deletion c)) = cl_device c \<and>
        (ww_unmarked (cl_wipe c) \<longrightarrow> cl_marker (snd (finish_pending_deletion c)) = None))"
proof -
  have "finish_pending_deletion c = (if pred_option (\<lambda>y. ac_account_id y = a) x then (True, wipe_local a c)
      else (False, if ww_unmarked (cl_wipe c) then c\<lparr>cl_marker := None\<rparr> else c))"
    using assms by (cases x) (simp_all add: finish_pending_deletion_def vault_guard_def)
  then show ?thesis using wipe_local_effects [where a = a, OF assms(2)] forget_fields by auto
qed

subsection \<open>Witnesses\<close>

lemma sync_returns_witness:
  "sync_now toy_client_env spinning ((), toy_client) \<noteq> None"
  using sync_returns [of spinning toy_client_env "((), toy_client)"] spinning_i64 by blast

lemma answering_refused:
  "n \<noteq> 200 \<Longrightarrow> \<exists>e. or_failed (sync_pull env (answering n said) toy_csession 0) ((), c) = (Inl e, (), failed_state (error_from \<lparr>hr_status = n, hr_said = said, hr_body = BOther\<rparr>) c)"
  by (simp add: or_failed_def sync_pull_def send_def answering_def pull_answer_def expect_ok_def)

lemma refused_pull_effects_witness:
  "held_session (failed_state (error_from \<lparr>hr_status = 401, hr_said = None, hr_body = BOther\<rparr>) toy_client) = Inl (error_code Offline) \<and>
   vs_session (cl_vault (failed_state (error_from \<lparr>hr_status = 401, hr_said = None, hr_body = BOther\<rparr>) toy_client)) = vs_session toy_vault"
proof -
  obtain e where e: "or_failed (sync_pull (cn_sync toy_client_env) (answering 401 None) toy_csession 0) ((), toy_client)
      = (Inl e, (), failed_state (error_from \<lparr>hr_status = 401, hr_said = None, hr_body = BOther\<rparr>) toy_client)"
    using answering_refused by force
  have "cl_vault toy_client = toy_vault" by (simp add: toy_client_def)
  then show ?thesis using refused_pull_effects [OF _ _ e] by (simp add: answering_def)
qed

lemma toy_client_fields:
  "cl_vault toy_client = toy_vault" "cl_storage_error toy_client = None" "ww_marked (cl_wipe toy_client)" "ww_reopened (cl_wipe toy_client) = Some empty_store"
  by (simp_all add: toy_client_def)

lemma toy_account_held: "\<exists>a. account (vs_store (cl_vault toy_client)) = Inr (Some a)"
  using toy_vault_session by (auto simp: toy_client_fields)


lemma pending_deletion_finished_witness:
  "fst (finish_pending_deletion ((wipe_local 9 toy_client)\<lparr>cl_marker := Some (Some 9)\<rparr>))"
proof -
  let ?c = "(wipe_local 9 toy_client)\<lparr>cl_marker := Some (Some 9)\<rparr>"
  have "vs_store (cl_vault ?c) = empty_store" using wipe_local_effects(5) [OF toy_client_fields(2,4)] by simp
  then have "account (vs_store (cl_vault ?c)) = Inr None" by (simp add: account_def empty_store_def)
  moreover have "cl_storage_error ?c = None"
    by (simp add: wipe_local_def toy_client_fields vault_guard_def client_lock_fields announce_def Let_def case_prod_beta)
  ultimately show ?thesis using pending_deletion_finished [of ?c 9 None] by simp
qed

lemma sync_keeps_invariant_witness:
  "\<exists>r c. sync_now toy_client_env spinning ((), toy_client) = Some (r, (), c) \<and> service_inv toy_core (cl_vault c)"
proof -
  obtain r c where r: "sync_now toy_client_env spinning ((), toy_client) = Some (r, (), c)"
    using sync_now_returns [of spinning toy_client_env "((), toy_client)"] spinning_i64 by fastforce
  have e: "cn_core toy_client_env = toy_core" by (simp add: toy_client_env_def toy_sync_def)
  have "\<forall>u t q w c r w' c'. spinning u t q (w :: unit, c) = (r, w', c') \<longrightarrow> service_inv toy_core (cl_vault c) \<longrightarrow>
      service_inv toy_core (cl_vault c') \<and> cl_wipe c' = cl_wipe c"
    by (auto simp: spinning_def split: call.splits)
  moreover have "pred_option store_inv (ww_in_memory (cl_wipe toy_client))" "pred_option store_inv (ww_reopened (cl_wipe toy_client))"
    by (simp_all add: toy_client_def store_inv_def empty_store_def store_wf_def table_ok_def)
  ultimately show ?thesis
    using sync_keeps_invariant [of toy_client_env toy_client spinning "()" r "()" c] r toy_vault_inv by (simp add: e toy_client_fields)
qed

end
