(* ===== verification/Network.thy ===== *)
theory Network
  imports Client
begin

text \<open>
  Client and server together. \<open>server_transport\<close> carries a request to the handlers of \<open>Server\<close> and
  the answer back, through the JSON shapes both sides use: the blobs of \<^verbatim>\<open>havenkeys-server/src/b64.rs\<close>,
  the error answers of \<^verbatim>\<open>error.rs\<close> and \<^verbatim>\<open>json.rs\<close>, and the routes of a vault in \<^verbatim>\<open>routes/\<close>. Its world is the
  database; the handlers run alone and the other threads of the device do nothing meanwhile.

  The session a token stands for, the server's clock and the text of a time are arguments. The limit
  on the size of a request's body is not modelled.
\<close>

section \<open>Model\<close>

definition MAX_BLOB_BYTES :: nat where "MAX_BLOB_BYTES = 8 * 1024 * 1024"

definition blob_in :: "sync_env \<Rightarrow> rstring option \<Rightarrow> ApiError + bytes option" where
  "blob_in env v = (case v of
     None \<Rightarrow> Inr None
   | Some raw \<Rightarrow>
       if MAX_BLOB_BYTES div 3 * 4 + 4 < str_len raw then Inl (ApiInvalidRequest ''request is not valid'')
       else and_then (ok_or (ApiInvalidRequest ''request is not valid'') (b64_decode env raw)) (\<lambda>b.
         if MAX_BLOB_BYTES < length b then Inl (ApiInvalidRequest ''request is not valid'') else Inr (Some b)))"

definition change_in :: "sync_env \<Rightarrow> change_dto \<Rightarrow> ApiError + change" where
  "change_in env d =
     and_then (blob_in env (cd_overview d)) (\<lambda>ov.
     and_then (blob_in env (cd_details d)) (\<lambda>de.
     Inr \<lparr>ch_item_id = cd_item_id d, ch_base_revision = cd_base_revision d, ch_overview = ov, ch_details = de,
       ch_deleted = cd_deleted d, ch_attachment_ids = cd_attachment_ids d\<rparr>))"

definition change_dto_out :: "sync_env \<Rightarrow> change_out \<Rightarrow> remote_change_dto" where
  "change_dto_out env c = \<lparr>rd_item_id = co_item_id c, rd_revision = co_revision c,
     rd_overview = map_option (b64_encode env) (co_overview c), rd_details = map_option (b64_encode env) (co_details c),
     rd_deleted = co_deleted c\<rparr>"

definition account_dto_out :: "(int \<Rightarrow> rstring) \<Rightarrow> account_info \<Rightarrow> account_dto" where
  "account_dto_out fmt i = \<lparr>ad_status = str (ai_status i), ad_entitlement = str (plan_as_str (ai_entitlement i)),
     ad_trial_ends_at = map_option fmt (ai_trial_ends_at i), ad_period_end = map_option fmt (ai_period_end i)\<rparr>"

definition pull_dto_out :: "sync_env \<Rightarrow> (int \<Rightarrow> rstring) \<Rightarrow> pull_reply \<Rightarrow> pull_dto" where
  "pull_dto_out env fmt p = \<lparr>pd_cursor = pl_cursor p, pd_has_more = pl_has_more p,
     pd_changes = map (change_dto_out env) (pl_changes p), pd_account = Some (account_dto_out fmt (pl_account p))\<rparr>"

definition answer :: "ApiError + body \<Rightarrow> http_response" where
  "answer r = (case r of
     Inr b \<Rightarrow> \<lparr>hr_status = 200, hr_said = None, hr_body = b\<rparr>
   | Inl e \<Rightarrow> (case parts e of (n, said, message) \<Rightarrow> \<lparr>hr_status = n, hr_said = Some said, hr_body = BOther\<rparr>))"

definition write_answer_out :: "ApiError + write_reply \<Rightarrow> http_response" where
  "write_answer_out r = (case r of
     Inr (Conflicts cs) \<Rightarrow> \<lparr>hr_status = 409, hr_said = None, hr_body = BConflicts cs\<rparr>
   | Inr (Written rv acks) \<Rightarrow> answer (Inr (BWrite rv acks))
   | Inl e \<Rightarrow> answer (Inl e))"

definition own_vault :: "server_session \<Rightarrow> database \<Rightarrow> ApiError + vault_row" where
  "own_vault ses db = ok_or ApiInternal (db (ses_vault_id ses))"

record server_env =
  sv_max_bytes :: int
  sv_session :: server_session
  sv_now :: int
  sv_time :: "int \<Rightarrow> rstring"

definition serve :: "sync_env \<Rightarrow> server_env \<Rightarrow> call \<Rightarrow> database \<Rightarrow> http_response \<times> database" where
  "serve env sv c db = (let ses = sv_session sv in case c of
     CallHeader \<Rightarrow> (answer (and_then (get_header ses db) (\<lambda>(h, rv, k).
       Inr (BHeader \<lparr>hx_header = b64_encode env h, hx_header_revision = rv, hx_key_scheme = k\<rparr>))), db)
   | CallPull since \<Rightarrow> (answer (and_then (own_vault ses db) (\<lambda>v.
       and_then (pull ses (sv_now sv) since v v) (\<lambda>p. Inr (BPull (pull_dto_out env (sv_time sv) p))))), db)
   | CallFetch ids \<Rightarrow> (answer (and_then (own_vault ses db) (\<lambda>v.
       and_then (fetch ids v v) (\<lambda>f. Inr (BFetch (map (change_dto_out env) (fr_changes f)) (fr_unanswered f))))), db)
   | CallWrite ds \<Rightarrow> (case collect_results (change_in env) ds of
       Inl e \<Rightarrow> (answer (Inl e), db)
     | Inr cs \<Rightarrow> (case write_items (sv_max_bytes sv) ses cs db of (r, db') \<Rightarrow> (write_answer_out r, db')))
   | CallGetAttachment a \<Rightarrow> (answer (and_then (own_vault ses db) (\<lambda>v.
       and_then (get_attachment a v) (\<lambda>(item, blob). Inr (BAttachment item (b64_encode env blob))))), db)
   | CallPutAttachment a item raw \<Rightarrow> (case and_then (blob_in env (Some raw)) (\<lambda>b. and_then (own_vault ses db)
         (put_attachment (sv_max_bytes sv) ses a item (the b))) of
       Inl e \<Rightarrow> (answer (Inl e), db)
     | Inr v \<Rightarrow> (answer (Inr BOther), db(ses_vault_id ses \<mapsto> v)))
   | _ \<Rightarrow> (answer (Inl ApiNotFound), db))"

definition server_transport :: "sync_env \<Rightarrow> server_env \<Rightarrow> (database \<times> client) transport" where
  "server_transport env sv t c = (\<lambda>(db, cl). case serve env sv c db of (r, db') \<Rightarrow> (Inr r, db', cl))"

text \<open>
  The same over a network that may lose the request, or the answer once the server has acted on it,
  while the other threads of the device do what \<open>meanwhile\<close> says. A connection that fails or times
  out is \<open>SyUnavailable\<close> either way: the client cannot tell.
\<close>

datatype fate = Arrives | RequestLost | AnswerLost

definition flaky_transport :: "fate \<Rightarrow> (client \<Rightarrow> client) \<Rightarrow> sync_env \<Rightarrow> server_env \<Rightarrow> (database \<times> client) transport" where
  "flaky_transport f meanwhile env sv t c = (\<lambda>(db, cl). case f of
     Arrives \<Rightarrow> (case serve env sv c db of (r, db') \<Rightarrow> (Inr r, db', meanwhile cl))
   | RequestLost \<Rightarrow> (Inl SyUnavailable, db, meanwhile cl)
   | AnswerLost \<Rightarrow> (case serve env sv c db of (r, db') \<Rightarrow> (Inl SyUnavailable, db', meanwhile cl)))"

lemma server_transport_reliable: "server_transport env sv = flaky_transport Arrives (\<lambda>c. c) env sv"
  by (intro ext) (simp add: server_transport_def flaky_transport_def case_prod_beta)

section \<open>Properties\<close>

subsection \<open>What the wire keeps\<close>

text \<open>Base64 as both sides rely on it: decoding undoes encoding, and three bytes take four characters.\<close>

definition b64_ok :: "sync_env \<Rightarrow> bool" where
  "b64_ok env \<longleftrightarrow> (\<forall>b. b64_decode env (b64_encode env b) = Some b \<and> str_len (b64_encode env b) = b64_len (length b))"

definition row_change :: "uuid \<times> item_row \<Rightarrow> remote_change" where
  "row_change = (\<lambda>(u, r). \<lparr>rc_item_id = u, rc_revision = ir_revision r, rc_overview = ir_overview r, rc_details = ir_details r,
     rc_deleted = ir_deleted r\<rparr>)"

definition row_fits :: "item_row \<Rightarrow> bool" where
  "row_fits r \<longleftrightarrow> blob_len (ir_overview r) \<le> MAX_BLOB_LEN \<and> blob_len (ir_details r) \<le> MAX_BLOB_LEN"

lemma b64_len_limit: "n \<le> MAX_BLOB_LEN \<Longrightarrow> b64_len n \<le> MAX_BLOB_LEN div 3 * 4 + 4"
proof -
  assume "n \<le> MAX_BLOB_LEN"
  then have "(n + 2) div 3 \<le> (MAX_BLOB_LEN + 2) div 3" by (simp add: div_le_mono)
  then show ?thesis by (simp add: b64_len_def MAX_BLOB_LEN_def)
qed

lemma decode_encoded: "b64_ok env \<Longrightarrow> blob_len b \<le> MAX_BLOB_LEN \<Longrightarrow> decode_blob env (map_option (b64_encode env) b) = Inr b"
  using b64_len_limit by (auto simp: decode_blob_Inr b64_ok_def blob_len_def split: option.splits)

lemma wire_row:
  assumes "b64_ok env" and "row_ok v r" and "row_fits r"
  shows "remote_change_from env (change_dto_out env (change_json (u, r))) = Inr (row_change (u, r))"
  using assms decode_encoded [OF assms(1)]
  by (auto simp: remote_change_from_def change_dto_out_def change_json_def row_change_def row_ok_def row_fits_def)

lemma collect_wire_rows:
  assumes "b64_ok env" and "\<And>u r. (u, r) \<in> set rows \<Longrightarrow> row_ok v r \<and> row_fits r"
  shows "collect_results (remote_change_from env) (map (change_dto_out env) (map change_json rows)) = Inr (map row_change rows)"
  using assms(2)
proof (induction rows)
  case (Cons x rows)
  obtain u r where x: "x = (u, r)" by (cases x)
  then have "remote_change_from env (change_dto_out env (change_json x)) = Inr (row_change x)"
    using wire_row [OF assms(1), of v r u] Cons.prems [of u r] by simp
  moreover have "collect_results (remote_change_from env) (map (change_dto_out env) (map change_json rows)) = Inr (map row_change rows)"
    by (rule Cons.IH) (use Cons.prems in auto)
  ultimately show ?case by simp
qed simp

lemma last_change_distinct:
  assumes "distinct (map rc_item_id cs)"
  shows "last_change cs u = Some c \<longleftrightarrow> c \<in> set cs \<and> rc_item_id c = u"
proof -
  have "keep_last cs = cs" using assms by (induction cs) auto
  then show ?thesis using kept_iff [of c cs u] by simp
qed

definition rows_between :: "vault_row \<Rightarrow> int \<Rightarrow> int \<Rightarrow> (uuid \<times> item_row) set" where
  "rows_between v a b = {(u, r). get (vr_items v) u = Some r \<and> a < ir_revision r \<and> ir_revision r \<le> b}"

text \<open>The rows of a vault a server can come to hold, with blobs no longer than a client sends.\<close>

definition servable :: "vault_row \<Rightarrow> bool" where
  "servable v \<longleftrightarrow> server_ok v \<and> list_all (\<lambda>(u, r). row_fits r) (vr_items v)"

lemma servable_ok: "servable v \<Longrightarrow> server_ok v" by (simp add: servable_def)

lemma servable_fits: "servable v \<Longrightarrow> get (vr_items v) u = Some r \<Longrightarrow> row_fits r"
  by (auto simp: servable_def list_all_iff dest: get_Some_in)

lemma server_pull:
  assumes "b64_ok env" and "servable v" and "db (ses_vault_id (sv_session sv)) = Some v" and "0 \<le> since"
  obtains q where "sync_pull env (server_transport env sv) cs since (db, c) = (Inr q, db, c)"
    and "set (pu_changes q) = row_change ` rows_between v since (pu_cursor q)" and "distinct (map rc_item_id (pu_changes q))"
    and "pu_has_more q \<longleftrightarrow> (\<exists>u r. get (vr_items v) u = Some r \<and> since < ir_revision r \<and> pu_cursor q < ir_revision r)"
    and "pu_has_more q \<Longrightarrow> since < pu_cursor q" and "pu_cursor q \<le> vr_revision v"
    and "pu_cursor q < since \<Longrightarrow> vr_revision v < since" and "vr_revision v < since \<Longrightarrow> pu_cursor q < since"
proof -
  obtain p where p: "pull (sv_session sv) (sv_now sv) since v v = Inr p"
    "set (pl_changes p) = {change_json (u, r) | u r. get (vr_items v) u = Some r \<and> since < ir_revision r \<and> ir_revision r \<le> pl_cursor p}"
    "distinct (map co_item_id (pl_changes p))" "pl_changes p \<noteq> [] \<longrightarrow> since < pl_cursor p"
    "pl_has_more p \<longleftrightarrow> (\<exists>u r. get (vr_items v) u = Some r \<and> since < ir_revision r \<and> pl_cursor p < ir_revision r)"
    "pl_has_more p \<longrightarrow> pl_changes p \<noteq> []" "pl_cursor p \<le> vr_revision v" "length (pl_changes p) \<le> MAX_PULL_PAGE"
    "\<not> pl_has_more p \<longrightarrow> pl_changes p = [] \<longrightarrow> pl_cursor p = vr_revision v"
    using pull_page [OF servable_ok [OF assms(2)] assms(4), of "sv_session sv" "sv_now sv"] by blast
  define row_of where "row_of = (\<lambda>co :: change_out. (co_item_id co, \<lparr>ir_overview = co_overview co, ir_details = co_details co,
    ir_deleted = co_deleted co, ir_revision = co_revision co\<rparr>) :: uuid \<times> item_row)"
  have inv: "row_of (change_json x) = x" "change_json (row_of co) = co" for x co
    by (cases x, simp add: row_of_def change_json_def) (simp add: row_of_def change_json_def)
  define rows where "rows = map row_of (pl_changes p)"
  have rows: "map change_json rows = pl_changes p" by (simp add: rows_def inv comp_def)
  have in_rows: "set rows = rows_between v since (pl_cursor p)"
  proof -
    have "set rows = row_of ` change_json ` rows_between v since (pl_cursor p)"
      unfolding rows_def set_map p(2) rows_between_def by (rule arg_cong [of _ _ "(`) row_of"]) auto
    then show ?thesis by (simp add: image_image inv)
  qed
  have rr: "row_ok v r \<and> row_fits r" if "(u, r) \<in> set rows" for u r
    using that server_ok_row [OF servable_ok [OF assms(2)]] servable_fits [OF assms(2)] unfolding in_rows rows_between_def by auto
  have w: "collect_results (remote_change_from env) (map (change_dto_out env) (pl_changes p)) = Inr (map row_change rows)"
    unfolding rows [symmetric] by (rule collect_wire_rows [OF assms(1), of rows v]) (use rr in blast)
  have "0 \<le> pl_cursor p"
    using p(4,9,6) servable_ok [OF assms(2)] assms(4) unfolding server_ok_def by (metis less_imp_le order_trans)
  then have a: "sync_pull env (server_transport env sv) cs since (db, c) =
      (Inr \<lparr>pu_cursor = pl_cursor p, pu_has_more = pl_has_more p, pu_changes = map row_change rows,
         pu_account = Some (plan_info_from (account_dto_out (sv_time sv) (pl_account p)))\<rparr>, db, c)"
    using assms(3,4) p(1,8) w
    by (simp add: sync_pull_def send_def server_transport_def serve_def own_vault_def answer_def pull_answer_def expect_ok_def
        parse_body_def pull_dto_out_def MAX_CHANGES_def MAX_PULL_PAGE_def)
  have d: "distinct (map rc_item_id (map row_change rows))"
  proof -
    have "map rc_item_id (map row_change rows) = map co_item_id (pl_changes p)"
      unfolding rows [symmetric] by (simp add: row_change_def change_json_def case_prod_beta)
    then show ?thesis using p(3) by simp
  qed
  have s: "set (map row_change rows) = row_change ` rows_between v since (pl_cursor p)" using in_rows by simp
  have h: "pl_has_more p \<Longrightarrow> since < pl_cursor p" using p(4,6) by blast
  have b: "pl_cursor p < since \<Longrightarrow> vr_revision v < since" using p(4,6,9) by force
  have f: "vr_revision v < since \<Longrightarrow> pl_cursor p < since" using p(7) by simp
  show thesis by (rule that [OF a]; simp only: pulled.simps; fact s d p(5) h p(7) b f)
qed

subsection \<open>A replica that is open\<close>

definition linked :: "store \<Rightarrow> bool" where
  "linked st \<longleftrightarrow> (\<exists>r u. st_account st = Some r \<and> rw_account_id r = Some u)"

definition ready :: "core_env \<Rightarrow> session \<Rightarrow> service \<Rightarrow> bool" where
  "ready env x v \<longleftrightarrow> service_inv env v \<and> session_of v = Inr x \<and> linked (vs_store v)"

definition same_reader :: "session \<Rightarrow> session \<Rightarrow> bool" where
  "same_reader x y \<longleftrightarrow> ss_data_key y = ss_data_key x \<and> ss_vault_id y = ss_vault_id x"

lemma same_reader_refl [simp]: "same_reader x x" by (simp add: same_reader_def)

lemma same_reader_trans: "same_reader x y \<Longrightarrow> same_reader y z \<Longrightarrow> same_reader x z" by (simp add: same_reader_def)

lemma linked_iff: "linked st \<longleftrightarrow> (\<exists>a. require_account st = Inr a)"
  by (auto simp: linked_def require_account_def account_def result_simps split: option.splits)

lemma same_reader_check: "same_reader x y \<Longrightarrow> checked_change env y = checked_change env x"
proof -
  assume "same_reader x y"
  then have "check_item_bytes env y = check_item_bytes env x" 
    by (intro ext) (simp only: same_reader_def check_item_bytes_def)
  then show ?thesis by (intro ext) (simp only: checked_change_def)
qed

lemma same_reader_item: "same_reader x y \<Longrightarrow> pulled_item env y c old = pulled_item env x c old"
  by (simp add: pulled_item_def same_reader_check)

lemma apply_ready:
  assumes "ready env x v"
  obtains rep y v' where "apply_changes env changes cursor now_ms v = (Inr rep, v')" and "ready env y v'" and "same_reader x y"
    and "\<And>u. abs_vault env v' u = (case last_change changes u of None \<Rightarrow> abs_vault env v u
      | Some c \<Rightarrow> pulled_item env x c (abs_vault env v u))"
proof -
  obtain a where a: "service_inv env v" "session_of v = Inr x" "require_account (vs_store v) = Inr a"
    using assms by (auto simp: ready_def linked_iff)
  let ?cs = "keep_last changes"
  let ?rows = "map (\<lambda>c. (rc_item_id c, change_row env x c)) (filter (readable env x) ?cs)"
  let ?dels = "map rc_item_id (filter rc_deleted ?cs)"
  let ?unr = "map (\<lambda>c. (rc_item_id c, rc_revision c)) (filter (\<lambda>c. \<not> rc_deleted c \<and> \<not> readable env x c) ?cs)"
  let ?x1 = "fold forget ?dels (fold place (map (\<lambda>c. the (change_overview env x c)) (filter (readable env x) ?cs)) x)"
  let ?st = "fst (apply_pull ?rows ?dels ?unr (map_option (\<lambda>c. (c, now_ms)) cursor) (vs_store v))"
  obtain rep y where r: "apply_changes env changes cursor now_ms v = (Inr rep, v\<lparr>vs_store := ?st, vs_session := Some y\<rparr>)"
    "y = ?x1 \<or> y = touched ?x1" by (rule apply_changes_unfold [OF a(2,3)])
  have "service_inv env (v\<lparr>vs_store := ?st, vs_session := Some y\<rparr>)"
    using apply_changes_inv [OF a(1), of changes cursor now_ms] r(1) by simp
  moreover have "session_of (v\<lparr>vs_store := ?st, vs_session := Some y\<rparr>) = Inr y" using a(2) by (simp add: session_of_Inr_iff)
  moreover have "linked ?st" using assms unfolding ready_def linked_def apply_pull_fst by (auto simp: pulled_account_def split: option.splits)
  ultimately have "ready env y (v\<lparr>vs_store := ?st, vs_session := Some y\<rparr>)" by (simp add: ready_def)
  moreover have "same_reader x y" using r(2) fold_place_keys fold_forget_keys by (auto simp: same_reader_def)
  ultimately show thesis using that r(1) pulled_abs [OF a r(1)] by blast
qed

lemma abs_vault_store: "session_of v = Inr x \<Longrightarrow> abs_vault env v = store_view env (ss_data_key x) (ss_vault_id x) (vs_store v)"
  by (simp add: abs_vault_def)

text \<open>A write of the account row alone leaves the items as they are.\<close>

lemma ready_account_row:
  assumes "ready env x v" and "st = (vs_store v)\<lparr>st_account := a, st_unreadable := un\<rparr>" and "linked st" and "table_ok un"
  shows "ready env x (v\<lparr>vs_store := st\<rparr>)" and "abs_vault env (v\<lparr>vs_store := st\<rparr>) = abs_vault env v"
proof -
  have "service_inv env v" "session_of v = Inr x" using assms(1) by (simp_all add: ready_def)
  moreover have "store_wf (vs_store v)" "st_header (vs_store v) = None \<longrightarrow> st_items (vs_store v) = []"
    using calculation(1) by (simp_all add: service_inv_def store_inv_def)
  ultimately have "service_inv env (v\<lparr>vs_store := st\<rparr>)"
    by (intro service_inv_store) (simp_all add: assms(2,4) store_wf_def)
  moreover have s: "session_of (v\<lparr>vs_store := st\<rparr>) = Inr x" using \<open>session_of v = Inr x\<close> by (simp add: session_of_Inr_iff)
  ultimately show "ready env x (v\<lparr>vs_store := st\<rparr>)" using assms(3) by (simp add: ready_def)
  show "abs_vault env (v\<lparr>vs_store := st\<rparr>) = abs_vault env v"
    using \<open>session_of v = Inr x\<close> s by (simp add: abs_vault_store assms(2) store_view_def fun_eq_iff)
qed

lemma ready_unreadable_ok: "ready env x v \<Longrightarrow> table_ok (st_unreadable (vs_store v))"
  by (simp add: ready_def service_inv_def store_inv_def store_wf_def)

lemma ready_set_plan:
  assumes "ready env x v"
  shows "ready env x (vault_set_plan p v)" and "abs_vault env (vault_set_plan p v) = abs_vault env v"
proof -
  let ?a = "map_option (\<lambda>r. r\<lparr>rw_plan_status := pl_status p, rw_entitlement := entitlement_as_str (pl_entitlement p),
    rw_trial_ends_at := pl_trial_ends_at p, rw_period_end := pl_period_end p\<rparr>) (st_account (vs_store v))"
  have e: "set_plan p (vs_store v) = (vs_store v)\<lparr>st_account := ?a, st_unreadable := st_unreadable (vs_store v)\<rparr>"
    by (simp add: set_plan_def)
  have l: "linked (set_plan p (vs_store v))" using assms by (auto simp: ready_def linked_def set_plan_def)
  note r = ready_account_row [OF assms e l ready_unreadable_ok [OF assms]]
  show "ready env x (vault_set_plan p v)" "abs_vault env (vault_set_plan p v) = abs_vault env v"
    using r by (simp_all add: vault_set_plan_def)
qed

lemma ready_reset:
  assumes "ready env x v"
  obtains v' where "reset_sync_cursor now_ms v = (Inr (), v')" and "ready env x v'" and "abs_vault env v' = abs_vault env v"
proof -
  let ?st = "reset_cursor now_ms (vs_store v)"
  have e: "?st = (vs_store v)\<lparr>st_account := map_option (\<lambda>a. a\<lparr>rw_server_cursor := 0, rw_last_synced_at := Some now_ms\<rparr>)
      (st_account (vs_store v)), st_unreadable := []\<rparr>"
    by (simp add: reset_cursor_def set_cursor_def)
  have l: "linked ?st" using assms by (auto simp: ready_def linked_def e)
  obtain a where "require_account (vs_store v) = Inr a" using assms by (auto simp: ready_def linked_iff)
  then have "reset_sync_cursor now_ms v = (Inr (), v\<lparr>vs_store := ?st\<rparr>)" by (simp add: reset_sync_cursor_def)
  then show thesis using that ready_account_row [OF assms e l] by (simp add: table_ok_def)
qed

lemma replica_ids:
  assumes "ready env x v" and "abs_vault env v u \<noteq> None" and "replica_item_ids v = Inr ids"
  shows "u \<in> set ids"
proof -
  have "get (st_items (vs_store v)) (Id u) \<noteq> None"
    using assms(1,2) by (auto simp: ready_def abs_vault_store store_view_def row_view_def split: option.splits)
  then have "Id u \<in> set (keys (st_items (vs_store v)))" by (auto simp: keys_def dest!: get_Some_in intro: rev_image_eqI)
  moreover have "collect_results (\<lambda>k. ok_or Corrupted (parse_id k)) (keys (st_items (vs_store v))) = Inr ids"
    using assms(3) by (auto simp: replica_item_ids_def item_ids_def result_simps)
  ultimately show ?thesis
    by (force simp: collect_results_Inr_iff list_all2_conv_all_nth in_set_conv_nth result_simps)
qed

subsection \<open>The loop\<close>

definition ready_client :: "client_env \<Rightarrow> session \<Rightarrow> client \<Rightarrow> bool" where
  "ready_client env x c \<longleftrightarrow> cl_storage_error c = None \<and> ready (cn_core env) x (cl_vault c)"

abbreviation view :: "client_env \<Rightarrow> client \<Rightarrow> uuid \<Rightarrow> item_overview option" where
  "view env c \<equiv> abs_vault (cn_core env) (cl_vault c)"

lemma on_vault_ready: "cl_storage_error c = None \<Longrightarrow> on_vault f (w, c) = (map_err error_code (fst (f (cl_vault c))), w, c\<lparr>cl_vault := snd (f (cl_vault c))\<rparr>)"
  by (simp add: on_vault_def vault_guard_def case_prod_beta)

lemma read_vault_ready: "cl_storage_error c = None \<Longrightarrow> read_vault f (w, c) = (map_err error_code (f (cl_vault c)), w, c)"
  by (simp add: read_vault_def on_vault_ready)

lemma announce_simps [simp]: "cl_vault (announce e c) = cl_vault c" "cl_storage_error (announce e c) = cl_storage_error c"
  "cl_connectivity (announce e c) = cl_connectivity c"
  by (simp_all add: announce_def)

lemma record_plan_ready:
  assumes "ready_client env x c"
  obtains c' where "snd (record_plan info (w, c)) = (w, c')" and "ready_client env x c'" and "view env c' = view env c"
    and "cl_connectivity c' = cl_connectivity c"
proof -
  have "\<exists>c'. snd (record_plan info (w, c)) = (w, c') \<and> ready_client env x c' \<and> view env c' = view env c \<and> cl_connectivity c' = cl_connectivity c"
    using assms ready_set_plan [of "cn_core env" x "cl_vault c"]
    by (cases info) (simp_all add: record_plan_def ready_client_def vault_guard_def)
  then show thesis using that by blast
qed

lemma take_page_ready:
  assumes "ready_client env x c"
  obtains rep y c' where "take_page env p (w, c) = (Inr rep, w, c')" and "ready_client env y c'" and "same_reader x y"
    and "\<And>u. view env c' u = (case last_change (pu_changes p) u of None \<Rightarrow> view env c u | Some ch \<Rightarrow> pulled_item (cn_core env) x ch (view env c u))"
proof -
  have r: "ready (cn_core env) x (cl_vault c)" "cl_storage_error c = None" using assms by (simp_all add: ready_client_def)
  obtain rep y v where a: "apply_changes (cn_core env) (pu_changes p) (Some (pu_cursor p)) (cl_now_ms c) (cl_vault c) = (Inr rep, v)"
      "ready (cn_core env) y v" "same_reader x y"
      "\<And>u. abs_vault (cn_core env) v u = (case last_change (pu_changes p) u of None \<Rightarrow> view env c u
        | Some ch \<Rightarrow> pulled_item (cn_core env) x ch (view env c u))"
    by (rule apply_ready [OF r(1)]) blast
  let ?c = "c\<lparr>cl_vault := v\<rparr>"
  have "ready_client env y ?c" using a(2) r(2) by (simp add: ready_client_def)
  then obtain c' where c': "snd (record_plan (pu_account p) (w, ?c)) = (w, c')" "ready_client env y c'" "view env c' = view env ?c"
    by (rule record_plan_ready)
  have "take_page env p (w, c) = (Inr rep, w, c')"
    using r(2) a(1) c'(1) by (simp add: take_page_def with_now_def io_then_def on_vault_ready apply_remote_changes_def)
  then show thesis using that c'(2,3) a(3,4) by simp
qed

lemma last_change_missing: "last_change (map missing_change us) u = (if u \<in> set us then Some (missing_change u) else None)"
  by (induction us rule: rev_induct) (auto simp: last_change_def missing_change_def)

lemma drop_lacking_ready:
  assumes "ready_client env x c"
  obtains rep y c' where "drop_lacking env ids seen (w, c) = (Inr rep, w, c')" and "ready_client env y c'" and "same_reader x y"
    and "\<And>u. view env c' u = (if u \<in> set ids \<and> u \<notin> set seen then None else view env c u)"
proof -
  have r: "ready (cn_core env) x (cl_vault c)" "cl_storage_error c = None" using assms by (simp_all add: ready_client_def)
  obtain a where acc: "require_account (vs_store (cl_vault c)) = Inr a" using r(1) by (auto simp: ready_def linked_iff)
  let ?m = "filter (\<lambda>u. u \<notin> set seen) ids"
  show thesis
  proof (cases "?m = []")
    case True
    then have "drop_lacking env ids seen (w, c) = (Inr default_report, w, c)"
      using r(2) acc by (simp add: drop_lacking_def with_now_def on_vault_ready drop_items_the_server_lacks_def)
    moreover have "view env c u = (if u \<in> set ids \<and> u \<notin> set seen then None else view env c u)" for u
      using True by (auto simp: filter_empty_conv)
    ultimately show thesis using that [OF _ assms same_reader_refl] by blast
  next
    case False
    obtain rep y v where a: "apply_changes (cn_core env) (map missing_change ?m) None (cl_now_ms c) (cl_vault c) = (Inr rep, v)"
        "ready (cn_core env) y v" "same_reader x y"
        "\<And>u. abs_vault (cn_core env) v u = (case last_change (map missing_change ?m) u of None \<Rightarrow> view env c u
          | Some ch \<Rightarrow> pulled_item (cn_core env) x ch (view env c u))"
      by (rule apply_ready [OF r(1)]) blast
    have "drop_lacking env ids seen (w, c) = (Inr rep, w, c\<lparr>cl_vault := v\<rparr>)"
      using r(2) acc False a(1) by (simp add: drop_lacking_def with_now_def on_vault_ready drop_items_the_server_lacks_def)
    moreover have "ready_client env y (c\<lparr>cl_vault := v\<rparr>)" using a(2) r(2) by (simp add: ready_client_def)
    moreover have "view env (c\<lparr>cl_vault := v\<rparr>) u = (if u \<in> set ids \<and> u \<notin> set seen then None else view env c u)" for u
      using a(4) [of u] by (simp add: last_change_missing pulled_item_def missing_change_def)
    ultimately show thesis using that a(3) by blast
  qed
qed

text \<open>What a replica becomes when it is told the rows after a cursor.\<close>

definition told :: "core_env \<Rightarrow> session \<Rightarrow> vault_row \<Rightarrow> int \<Rightarrow> (uuid \<Rightarrow> item_overview option) \<Rightarrow> uuid \<Rightarrow> item_overview option" where
  "told env x v cursor old u = (case get (vr_items v) u of
     Some r \<Rightarrow> if cursor < ir_revision r then pulled_item env x (row_change (u, r)) (old u) else old u
   | None \<Rightarrow> old u)"

definition lacking :: "vault_row \<Rightarrow> int \<Rightarrow> uuid list \<Rightarrow> uuid list \<Rightarrow> uuid \<Rightarrow> bool" where
  "lacking v cursor ids seen u \<longleftrightarrow> u \<in> set ids \<and> u \<notin> set seen \<and> \<not> (\<exists>r. get (vr_items v) u = Some r \<and> cursor < ir_revision r)"

lemma page_change:
  assumes "set cs = row_change ` rows_between v a b" and "distinct (map rc_item_id cs)"
  shows "last_change cs u = (case get (vr_items v) u of
      Some r \<Rightarrow> if a < ir_revision r \<and> ir_revision r \<le> b then Some (row_change (u, r)) else None | None \<Rightarrow> None)"
proof -
  have "last_change cs u = Some ch \<longleftrightarrow> (\<exists>r. get (vr_items v) u = Some r \<and> a < ir_revision r \<and> ir_revision r \<le> b \<and> ch = row_change (u, r))" for ch
    unfolding last_change_distinct [OF assms(2)] assms(1) by (auto simp: rows_between_def row_change_def)
  note l = this
  show ?thesis
  proof (cases "last_change cs u")
    case None
    then have "\<not> (\<exists>r. get (vr_items v) u = Some r \<and> a < ir_revision r \<and> ir_revision r \<le> b)" using l by fastforce
    then show ?thesis using None by (auto split: option.splits)
  next
    case (Some ch)
    then show ?thesis using l [of ch] by auto
  qed
qed

lemma page_ids: "set cs = row_change ` rows_between v a b \<Longrightarrow> rc_item_id ` set cs = {u. \<exists>r. get (vr_items v) u = Some r \<and> a < ir_revision r \<and> ir_revision r \<le> b}"
  by (force simp: rows_between_def row_change_def image_iff)

lemma told_page:
  assumes "\<And>u. new u = (case get (vr_items v) u of
      Some r \<Rightarrow> if a < ir_revision r \<and> ir_revision r \<le> b then pulled_item env x (row_change (u, r)) (old u) else old u | None \<Rightarrow> old u)"
    and "same_reader x y" and "a \<le> b"
  shows "told env y v b new u = told env x v a old u"
  using assms(3) same_reader_item [OF assms(2)] by (auto simp: told_def assms(1) split: option.splits)

lemma last_page:
  assumes "\<And>u. new u = (case get (vr_items v) u of
      Some r \<Rightarrow> if a < ir_revision r \<and> ir_revision r \<le> b then pulled_item env x (row_change (u, r)) (old u) else old u | None \<Rightarrow> old u)"
    and "\<not> (\<exists>u r. get (vr_items v) u = Some r \<and> a < ir_revision r \<and> b < ir_revision r)"
  shows "new u = told env x v a old u"
  using assms(2) by (fastforce simp: told_def assms(1) not_less split: option.splits)

lemma pull_loop_told:
  assumes "b64_ok (cn_sync env)" and "servable v" and "db (ses_vault_id (sv_session sv)) = Some v" and "0 \<le> cursor" and "cursor \<le> vr_revision v" and "ready_client env x c"
  shows "\<exists>rep y c'. pull_loop env (server_transport (cn_sync env) sv) cs cursor fz seen ids report (db, c) = Some (Inr rep, db, c') \<and>
    ready_client env y c' \<and> same_reader x y \<and>
    (\<forall>u. view env c' u = (if fz \<and> lacking v cursor ids seen u then None else told (cn_core env) x v cursor (view env c) u))"
  using assms(4-6)
proof (induction "nat (vr_revision v - cursor)" arbitrary: cursor x c seen report rule: less_induct)
  case less
  let ?tr = "server_transport (cn_sync env) sv"
  obtain q where q: "sync_pull (cn_sync env) ?tr cs cursor (db, c) = (Inr q, db, c)"
    "set (pu_changes q) = row_change ` rows_between v cursor (pu_cursor q)" "distinct (map rc_item_id (pu_changes q))"
    "pu_has_more q \<longleftrightarrow> (\<exists>u r. get (vr_items v) u = Some r \<and> cursor < ir_revision r \<and> pu_cursor q < ir_revision r)"
    "pu_has_more q \<Longrightarrow> cursor < pu_cursor q" "pu_cursor q \<le> vr_revision v" "pu_cursor q < cursor \<Longrightarrow> vr_revision v < cursor"
    using server_pull [where db = db and sv = sv, OF assms(1-3) less.prems(1)] by metis
  have ge: "\<not> pu_cursor q < cursor" using q(7) less.prems(2) by auto
  have f: "or_failed (sync_pull (cn_sync env) ?tr cs cursor) (db, c) = (Inr q, db, c)" using q(1) by (simp add: or_failed_Inr)
  obtain page y c1 where t: "take_page env q (db, c) = (Inr page, db, c1)" "ready_client env y c1" "same_reader x y"
    "\<And>u. view env c1 u = (case last_change (pu_changes q) u of None \<Rightarrow> view env c u | Some ch \<Rightarrow> pulled_item (cn_core env) x ch (view env c u))"
    by (rule take_page_ready [OF less.prems(3)]) blast
  have n: "view env c1 u = (case get (vr_items v) u of
      Some r \<Rightarrow> if cursor < ir_revision r \<and> ir_revision r \<le> pu_cursor q then pulled_item (cn_core env) x (row_change (u, r)) (view env c u) else view env c u
      | None \<Rightarrow> view env c u)" for u
    unfolding t(4) page_change [OF q(2,3)] by (simp split: option.splits)
  define seen2 where "seen2 = (if fz then map rc_item_id (pu_changes q) @ seen else seen)"
  have seen2: "u \<in> set seen2 \<longleftrightarrow> u \<in> set seen \<or> (\<exists>r. get (vr_items v) u = Some r \<and> cursor < ir_revision r \<and> ir_revision r \<le> pu_cursor q)" if fz for u
    using that page_ids [OF q(2)] by (auto simp: seen2_def)
  show ?case
  proof (cases "pu_has_more q")
    case False
    have told: "view env c1 u = told (cn_core env) x v cursor (view env c) u" for u
      by (rule last_page [OF n]) (use False q(4) in blast)
    show ?thesis
    proof (cases fz)
      case fz: True
      obtain rep z c2 where d: "drop_lacking env ids seen2 (db, c1) = (Inr rep, db, c2)" "ready_client env z c2" "same_reader y z"
        "\<And>u. view env c2 u = (if u \<in> set ids \<and> u \<notin> set seen2 then None else view env c1 u)"
        by (rule drop_lacking_ready [OF t(2)]) blast
      have "u \<in> set ids \<and> u \<notin> set seen2 \<longleftrightarrow> lacking v cursor ids seen u" for u
        using False q(4) unfolding seen2 [OF fz] lacking_def by (meson not_less)
      then have "\<forall>u. view env c2 u = (if fz \<and> lacking v cursor ids seen u then None else told (cn_core env) x v cursor (view env c) u)"
        using d(4) told fz by simp
      then show ?thesis
        using f ge t(1) False fz d(1,2) same_reader_trans [OF t(3) d(3)]
        by (subst pull_loop.simps) (simp add: Let_def seen2_def, blast)
    next
      case nz: False
      then show ?thesis
        using f ge t(1-3) False told by (subst pull_loop.simps) (simp add: Let_def, blast)
    qed
  next
    case True
    have c: "cursor < pu_cursor q" using q(5) True .
    have "\<exists>rep z c'. pull_loop env ?tr cs (pu_cursor q) fz seen2 ids (add_pulled report page) (db, c1) = Some (Inr rep, db, c') \<and>
        ready_client env z c' \<and> same_reader y z \<and>
        (\<forall>u. view env c' u = (if fz \<and> lacking v (pu_cursor q) ids seen2 u then None else told (cn_core env) y v (pu_cursor q) (view env c1) u))"
      by (rule less.hyps) (use c q(6) less.prems(1) t(2) in simp_all)
    then obtain rep z c' where h: "pull_loop env ?tr cs (pu_cursor q) fz seen2 ids (add_pulled report page) (db, c1) = Some (Inr rep, db, c')"
      "ready_client env z c'" "same_reader y z"
      "\<And>u. view env c' u = (if fz \<and> lacking v (pu_cursor q) ids seen2 u then None else told (cn_core env) y v (pu_cursor q) (view env c1) u)"
      by blast
    have "told (cn_core env) y v (pu_cursor q) (view env c1) u = told (cn_core env) x v cursor (view env c) u" for u
      by (rule told_page [OF n t(3)]) (use c in simp)
    moreover have "fz \<and> lacking v (pu_cursor q) ids seen2 u \<longleftrightarrow> fz \<and> lacking v cursor ids seen u" for u
      using c seen2 unfolding lacking_def by (meson dual_order.strict_trans not_less)
    ultimately have "\<forall>u. view env c' u = (if fz \<and> lacking v cursor ids seen u then None else told (cn_core env) x v cursor (view env c) u)"
      using h(4) by simp
    then show ?thesis
      using f ge t(1) True c h(1,2) same_reader_trans [OF t(3) h(3)]
      by (subst pull_loop.simps) (simp add: Let_def seen2_def [symmetric], blast)
  qed
qed

text \<open>The item the server holds, as this session reads it; what it cannot read stays as it was.\<close>

definition server_item :: "core_env \<Rightarrow> session \<Rightarrow> vault_row \<Rightarrow> (uuid \<Rightarrow> item_overview option) \<Rightarrow> uuid \<Rightarrow> item_overview option" where
  "server_item env x v old u = (case get (vr_items v) u of
     Some r \<Rightarrow> pulled_item env x (row_change (u, r)) (old u) | None \<Rightarrow> None)"

lemma told_all:
  assumes "server_ok v" and "\<And>u. old u \<noteq> None \<Longrightarrow> u \<in> set ids"
  shows "(if lacking v 0 ids [] u then None else told env x v 0 old u) = server_item env x v old u"
proof (cases "get (vr_items v) u")
  case None
  then show ?thesis using assms(2) [of u] by (cases "old u") (simp_all add: lacking_def told_def server_item_def)
next
  case (Some r)
  then have "0 < ir_revision r" using server_ok_row [OF assms(1)] by (simp add: row_ok_def)
  then show ?thesis using Some by (simp add: lacking_def told_def server_item_def)
qed

lemma restart_ready:
  assumes "ready_client env x c"
  obtains (ids) ids c' where "restart_pull (w, c) = (Inr ids, w, c')" "ready_client env x c'" "view env c' = view env c"
      "\<And>u. view env c u \<noteq> None \<Longrightarrow> u \<in> set ids"
  | (corrupted) e c' where "restart_pull (w, c) = (Inl e, w, c')" "\<exists>e. item_ids (vs_store (cl_vault c)) = Inl e"
proof -
  have r: "ready (cn_core env) x (cl_vault c)" "cl_storage_error c = None" using assms by (simp_all add: ready_client_def)
  obtain v where v: "reset_sync_cursor (cl_now_ms c) (cl_vault c) = (Inr (), v)" "ready (cn_core env) x v" "abs_vault (cn_core env) v = view env c"
    by (rule ready_reset [OF r(1)])
  let ?c = "c\<lparr>cl_vault := v\<rparr>"
  have q: "restart_pull (w, c) = (map_err error_code (replica_item_ids v), w, ?c)"
    using r(2) v(1) by (simp add: restart_pull_def io_then_def with_now_def on_vault_ready read_vault_ready)
  obtain a where a: "require_account (vs_store v) = Inr a" using v(2) by (auto simp: ready_def linked_iff)
  have items: "item_ids (vs_store v) = item_ids (vs_store (cl_vault c))"
    using v(1) by (auto simp: reset_sync_cursor_def reset_cursor_def set_cursor_def item_ids_def split: sum.splits)
  show thesis
  proof (cases "replica_item_ids v")
    case (Inl e)
    then show thesis using corrupted q a items by (auto simp: replica_item_ids_def)
  next
    case (Inr ids)
    have "ready_client env x ?c" using v(2) r(2) by (simp add: ready_client_def)
    then show thesis using that(1) [of ids ?c] q Inr v(3) replica_ids [OF v(2) _ Inr] by simp
  qed
qed

lemma pull_agrees:
  assumes "b64_ok (cn_sync env)" and "servable v" and "db (ses_vault_id (sv_session sv)) = Some v"
    and "ready_client env x c" and "replica_item_ids (cl_vault c) = Inr ids" and "0 \<le> cursor"
  shows "\<exists>rep y c'. pull_loop env (server_transport (cn_sync env) sv) cs cursor (cursor = 0) [] (if cursor = 0 then ids else []) report (db, c)
      = Some (Inr rep, db, c') \<and>
    service_inv (cn_core env) (cl_vault c') \<and> session_of (cl_vault c') = Inr y \<and> held_item y = abs_vault (cn_core env) (cl_vault c') \<and>
    (\<forall>u. abs_vault (cn_core env) (cl_vault c') u =
      (if cursor = 0 \<or> vr_revision v < cursor then server_item (cn_core env) x v (abs_vault (cn_core env) (cl_vault c)) u
       else told (cn_core env) x v cursor (abs_vault (cn_core env) (cl_vault c)) u))"
proof -
  let ?tr = "server_transport (cn_sync env) sv"
  let ?ids = "if cursor = 0 then ids else []"
  have s: "server_ok v" using assms(2) by (rule servable_ok)
  have z: "0 \<le> vr_revision v" using s by (simp add: server_ok_def)
  have rd: "ready (cn_core env) x (cl_vault c)" using assms(4) by (simp add: ready_client_def)
  have "\<exists>rep y c'. pull_loop env ?tr cs cursor (cursor = 0) [] ?ids report (db, c) = Some (Inr rep, db, c') \<and> ready_client env y c' \<and>
    (\<forall>u. view env c' u = (if cursor = 0 \<or> vr_revision v < cursor then server_item (cn_core env) x v (view env c) u
       else told (cn_core env) x v cursor (view env c) u))"
  proof (cases "vr_revision v < cursor")
    case False
    note l = pull_loop_told [where db = db and sv = sv and cs = cs and fz = "cursor = 0" and seen = "[]" and ids = ?ids and report = report,
        OF assms(1-3,6) _ assms(4)]
    then obtain rep y c' where p: "pull_loop env ?tr cs cursor (cursor = 0) [] ?ids report (db, c) = Some (Inr rep, db, c')" "ready_client env y c'"
      "\<And>u. view env c' u = (if cursor = 0 \<and> lacking v cursor ?ids [] u then None else told (cn_core env) x v cursor (view env c) u)"
      using False by fastforce
    have "view env c' u = server_item (cn_core env) x v (view env c) u" if "cursor = 0" for u
      using p(3) [of u] told_all [where u = u and env = "cn_core env" and x = x and old = "view env c", OF s replica_ids [OF rd _ assms(5)]] that
      by (simp only: simp_thms if_True)
    then show ?thesis using p False by auto
  next
    case True
    then have nz: "cursor \<noteq> 0" using z by auto
    obtain q where q: "sync_pull (cn_sync env) ?tr cs cursor (db, c) = (Inr q, db, c)" "vr_revision v < cursor \<Longrightarrow> pu_cursor q < cursor"
      using server_pull [where db = db and sv = sv, OF assms(1-3,6)] by metis
    have f: "or_failed (sync_pull (cn_sync env) ?tr cs cursor) (db, c) = (Inr q, db, c)" using q(1) by (simp add: or_failed_Inr)
    have it: "\<not> (\<exists>e. item_ids (vs_store (cl_vault c)) = Inl e)" using assms(5) by (auto simp: replica_item_ids_def result_simps)
    obtain ids2 c2 where r: "restart_pull (db, c) = (Inr ids2, db, c2)" "ready_client env x c2" "view env c2 = view env c"
      "\<And>u. view env c u \<noteq> None \<Longrightarrow> u \<in> set ids2"
      using it by (cases rule: restart_ready [OF assms(4), of db]) blast+
    have "\<exists>rep y c'. pull_loop env ?tr cs 0 True [] ids2 report (db, c2) = Some (Inr rep, db, c') \<and> ready_client env y c' \<and> same_reader x y \<and>
        (\<forall>u. view env c' u = (if True \<and> lacking v 0 ids2 [] u then None else told (cn_core env) x v 0 (view env c2) u))"
      by (rule pull_loop_told [where db = db and sv = sv, OF assms(1-3) order_refl z r(2)])
    then obtain rep y c' where p: "pull_loop env ?tr cs 0 True [] ids2 report (db, c2) = Some (Inr rep, db, c')" "ready_client env y c'"
      "\<And>u. view env c' u = (if lacking v 0 ids2 [] u then None else told (cn_core env) x v 0 (view env c) u)"
      unfolding r(3) by auto
    have "view env c' u = server_item (cn_core env) x v (view env c) u" for u
      unfolding p(3) by (rule told_all [OF s]) (use r(4) in blast)
    moreover have "pull_loop env ?tr cs cursor (cursor = 0) [] ?ids report (db, c) = Some (Inr rep, db, c')"
      using f q(2) True nz r(1) p(1) by (subst pull_loop.simps) simp
    ultimately show ?thesis using p(2) True by auto
  qed
  then obtain rep y c' where w: "pull_loop env ?tr cs cursor (cursor = 0) [] ?ids report (db, c) = Some (Inr rep, db, c')" "ready_client env y c'"
    "\<forall>u. view env c' u = (if cursor = 0 \<or> vr_revision v < cursor then server_item (cn_core env) x v (view env c) u
       else told (cn_core env) x v cursor (view env c) u)" by blast
  have i: "service_inv (cn_core env) (cl_vault c')" "session_of (cl_vault c') = Inr y" using w(2) by (simp_all add: ready_client_def ready_def)
  then have "coherent (cn_core env) (vs_store (cl_vault c')) y" by (auto simp: session_of_Inr_iff service_inv_def session_inv_def)
  then have "held_item y = view env c'" using coherent_held i(2) by (intro ext) (simp add: abs_vault_def)
  then show ?thesis using w i by blast
qed


subsection \<open>Sending a write\<close>

definition staged_change :: "staged_write \<Rightarrow> change" where
  "staged_change w = \<lparr>ch_item_id = sw_item_id w, ch_base_revision = sw_base_revision w, ch_overview = sw_overview w,
     ch_details = sw_details w, ch_deleted = (sw_overview w = None),
     ch_attachment_ids = (if sw_overview w = None then None else sw_attachment_ids w)\<rparr>"

definition staged_row :: "staged_write \<Rightarrow> int \<Rightarrow> item_row" where
  "staged_row w rv = \<lparr>ir_overview = sw_overview w, ir_details = sw_details w, ir_deleted = (sw_overview w = None), ir_revision = rv\<rparr>"

lemma blob_in_encoded:
  "b64_ok env \<Longrightarrow> length b \<le> MAX_BLOB_LEN \<Longrightarrow> blob_in env (Some (b64_encode env b)) = Inr (Some b)"
  using b64_len_limit [of "length b"] by (auto simp: blob_in_def b64_ok_def MAX_BLOB_LEN_def MAX_BLOB_BYTES_def)

lemma change_survives:
  assumes "b64_ok env" and "change_dto_from env w = Inr d"
  shows "change_in env d = Inr (staged_change w) \<and> row_fits (staged_row w rv)"
proof (cases "sw_overview w")
  case None
  then show ?thesis
    using assms(2) by (auto simp: change_dto_from_def change_in_def blob_in_def staged_change_def staged_row_def row_fits_def
        blob_len_def split: option.splits)
next
  case (Some ob)
  then obtain b where b: "sw_details w = Some b" "length ob \<le> MAX_BLOB_LEN" "length b \<le> MAX_BLOB_LEN"
    using assms(2) by (auto simp: change_dto_from_def split: option.splits if_splits)
  then show ?thesis
    using assms(2) Some blob_in_encoded [OF assms(1)]
    by (auto simp: change_dto_from_def change_in_def staged_change_def staged_row_def row_fits_def blob_len_def)
qed

lemma written_staged:
  assumes "change_dto_from env w = Inr d"
  shows "written_row (staged_change w) rv = staged_row w rv"
  using assms by (auto simp: change_dto_from_def written_row_def staged_change_def staged_row_def split: option.splits)

lemma answer_error:
  "hr_status (answer (Inl e)) \<noteq> 200" "hr_body (answer (Inl e)) = BOther" "error_from (answer (Inl e)) = SyAccountDeleted \<longleftrightarrow> e = AccountDeleted"
  by (cases e; simp add: answer_def error_from_def error_for_def)+

text \<open>What the server's database becomes when it takes a write, at the revision it answers with.\<close>

definition server_took :: "server_env \<Rightarrow> staged_write \<Rightarrow> int \<Rightarrow> database \<Rightarrow> database \<Rightarrow> bool" where
  "server_took sv w rv db db' \<longleftrightarrow> (\<exists>v v'. db (ses_vault_id (sv_session sv)) = Some v \<and> db' = db(ses_vault_id (sv_session sv) \<mapsto> v') \<and>
     rv = vr_revision v + 1 \<and> sw_base_revision w = map_option ir_revision (get (vr_items v) (sw_item_id w)) \<and>
     vr_revision v' = rv \<and> (servable v \<longrightarrow> servable v') \<and>
     (\<forall>u. get (vr_items v') u = (if u = sw_item_id w then Some (staged_row w rv) else get (vr_items v) u)))"

lemma stored_row:
  assumes "check_batch [staged_change w] = Inr ()" and "write_vault m [staged_change w] v = Inr (Written rv acks, v')"
    and "\<And>rv. written_row (staged_change w) rv = staged_row w rv"
  shows "get (vr_items v') u = (if u = sw_item_id w then Some (staged_row w rv) else get (vr_items v) u)"
  using written_items(1) [OF assms(2), of u] assms(3) by (auto simp: staged_change_def)

lemma stored_servable:
  assumes "servable v" and "check_batch [staged_change w] = Inr ()" and "write_vault m [staged_change w] v = Inr (Written rv acks, v')"
    and "\<And>rv. written_row (staged_change w) rv = staged_row w rv" and "\<And>rv. row_fits (staged_row w rv)"
  shows "servable v'"
proof -
  have s: "server_ok v'" by (rule write_server_ok [OF servable_ok [OF assms(1)] assms(2,3)])
  then have t: "table_ok (vr_items v')" by (simp add: server_ok_def)
  have "row_fits r" if "get (vr_items v') u = Some r" for u r
    using that stored_row [OF assms(2-4), of u] servable_fits [OF assms(1)] assms(5) by (auto split: if_splits)
  then show ?thesis using s get_Some_iff [OF t] by (auto simp: servable_def list_all_iff)
qed

lemma serve_write:
  assumes "b64_ok env" and "change_dto_from env w = Inr d" and "serve env sv (CallWrite [d]) db = (a, db')"
  obtains (refused) e where "write_answer 1 a = Inl e" "db' = db" "e \<noteq> SyAccountDeleted"
  | (stored) rv where "write_answer 1 a = Inr (rv, [(sw_item_id w, rv)])" "server_took sv w rv db db'"
proof -
  note s = change_survives [OF assms(1,2)]
  obtain reply db1 where w: "write_items (sv_max_bytes sv) (sv_session sv) [staged_change w] db = (reply, db1)" by force
  have q: "a = write_answer_out reply" "db' = db1" using assms(3) s w by (auto simp: serve_def)
  show thesis
  proof (cases "\<exists>rv acks. reply = Inr (Written rv acks)")
    case False
    have "db1 = db" using write_items_refused [OF w False] .
    moreover have "\<exists>e. write_answer 1 a = Inl e \<and> e \<noteq> SyAccountDeleted"
    proof (cases reply)
      case (Inl e)
      have "e \<in> {AccountFrozen, ApiInternal, VaultFull} \<or> (\<exists>m. e = ApiInvalidRequest m)"
        using write_items_error w Inl by blast
      then have "e \<noteq> AccountDeleted" by auto
      then show ?thesis
        using q Inl answer_error [of e] by (auto simp: write_answer_out_def write_answer_def expect_ok_def parse_body_def)
    next
      case (Inr y)
      then obtain xs where "y = Conflicts xs" using False by (cases y) auto
      then show ?thesis using q Inr by (auto simp: write_answer_out_def write_answer_def parse_body_def)
    qed
    ultimately show thesis using q refused by auto
  next
    case True
    then obtain rv acks where rv: "reply = Inr (Written rv acks)" by blast
    then obtain v v' where v: "check_batch [staged_change w] = Inr ()" "db (ses_vault_id (sv_session sv)) = Some v"
      "db1 = db(ses_vault_id (sv_session sv) \<mapsto> v')" "write_vault (sv_max_bytes sv) [staged_change w] v = Inr (Written rv acks, v')"
      using write_items_Written w by metis
    have ac: "acks = [(sw_item_id w, rv)]" using write_vault_Written [OF v(4)] by (simp add: staged_change_def)
    have "write_answer 1 a = Inr (rv, acks)" using q rv ac by (simp add: write_answer_out_def answer_def write_answer_def expect_ok_def parse_body_def)
    moreover have "server_took sv w rv db db'"
      unfolding server_took_def
      using v(2,3) q(2) write_vault_Written [OF v(4)] written_items(2) [OF v(4)] stored_row [OF v(1,4) written_staged [OF assms(2)]]
        stored_servable [OF _ v(1,4) written_staged [OF assms(2)]] s
      by (intro exI [of _ v] exI [of _ v']) (simp add: conflict_of_None staged_change_def)
    ultimately show thesis using stored ac by blast
  qed
qed

lemma flaky_write:
  assumes "b64_ok env" and "sync_write env (flaky_transport f g env sv) cs [w] (db, c) = (r, db', c')"
  obtains (refused) e where "r = Inl e" "db' = db" "c' = c \<or> c' = g c" "e \<noteq> SyAccountDeleted"
  | (lost) rv where "f = AnswerLost" "r = Inl SyUnavailable" "c' = g c" "server_took sv w rv db db'"
  | (stored) rv where "f = Arrives" "r = Inr (rv, [(sw_item_id w, rv)])" "c' = g c" "server_took sv w rv db db'"
proof (cases "change_dto_from env w")
  case (Inl e)
  then have "e \<noteq> SyAccountDeleted" by (auto simp: change_dto_from_def split: option.splits if_splits)
  then show thesis using Inl assms(2) refused by (auto simp: sync_write_def MAX_CHANGES_def)
next
  case (Inr d)
  obtain a db1 where a: "serve env sv (CallWrite [d]) db = (a, db1)" by force
  have q: "(r, db', c') = (case f of Arrives \<Rightarrow> (write_answer 1 a, db1, g c) | RequestLost \<Rightarrow> (Inl SyUnavailable, db, g c)
      | AnswerLost \<Rightarrow> (Inl SyUnavailable, db1, g c))"
    using assms(2) Inr a by (cases f) (simp_all add: sync_write_def MAX_CHANGES_def send_def flaky_transport_def)
  from assms(1) Inr a show thesis
  proof (cases rule: serve_write)
    case (refused e)
    then show thesis using q that(1) by (cases f) auto
  next
    case (stored rv)
    then show thesis using q that by (cases f) auto
  qed
qed

text \<open>The other errors a push can end with leave the items alone.\<close>

lemma failed_items:
  assumes "e \<noteq> SyAccountDeleted"
  shows "st_items (vs_store (cl_vault (failed_state e c))) = st_items (vs_store (cl_vault c))"
proof -
  have "cl_vault (snd (go_offline c)) = cl_vault c" by (auto simp: go_offline_def drop_session_def split: connectivity.splits)
  moreover have "cl_vault (mark_unreachable c) = cl_vault c" by (auto simp: mark_unreachable_def split: connectivity.splits)
  moreover have "st_items (vs_store (cl_vault (mark_frozen c))) = st_items (vs_store (cl_vault c))"
    by (auto simp: mark_frozen_def vault_guard_def vault_set_plan_def set_plan_def Let_def split: option.splits sum.splits)
  ultimately show ?thesis using assms by (cases e) (auto simp: failed_state_def split: prod.splits)
qed

lemma read_vault_state: "read_vault f s = (r, s') \<Longrightarrow> s' = s"
  by (cases s) (auto simp: read_vault_def on_vault_def vault_guard_def split: option.splits)

lemma require_full_state: "client_require_full s = (r, s') \<Longrightarrow> s' = s"
  by (auto simp: client_require_full_def then_eq io_lift_def dest: read_vault_state)

lemma session_and_server_state: "session_and_server env s = (r, s') \<Longrightarrow> s' = s"
  by (cases s) (auto simp: session_and_server_def client_server_def then_eq io_lift_def dest!: read_vault_state)

lemma committed_view:
  assumes "ready env x v" and "sw_epoch w = vs_epoch v" and "staged_ok env x w"
  obtains y v' where "commit_write w rv v = (Inr (sw_plain w), v')" and "ready env y v'" and "same_reader x y"
    and "abs_vault env v' = (abs_vault env v)(sw_item_id w := sw_plain w)"
    and "\<And>k. get (st_items (vs_store v')) k = (if k = Id (sw_item_id w)
      then (case (sw_overview w, sw_details w) of (Some ob, Some de) \<Rightarrow> Some \<lparr>it_overview = ob, it_details = de, it_revision = rv\<rparr> | _ \<Rightarrow> None)
      else get (st_items (vs_store v)) k)"
proof -
  have s: "session_of v = Inr x" "service_inv env v" "linked (vs_store v)" using assms(1) by (simp_all add: ready_def)
  have inv: "service_inv env (snd (commit_write w rv v))" by (rule commit_write_inv [OF s(2)]) (use s(1) assms(3) in auto)
  show thesis
  proof (cases "is_tombstone w")
    case True
    let ?v = "v\<lparr>vs_store := delete_row (sw_item_id w) (vs_store v), vs_session := Some (forget (sw_item_id w) (touched x))\<rparr>"
    have c: "commit_write w rv v = (Inr None, ?v)" by (rule commit_write_tombstone [OF s(1) assms(2) True])
    have y: "session_of ?v = Inr (forget (sw_item_id w) (touched x))" using s(1) by (simp add: session_of_Inr_iff)
    have t: "sw_plain w = None" "sw_overview w = None" using True by (simp_all add: is_tombstone_def)
    show thesis
    proof (rule that)
      show "commit_write w rv v = (Inr (sw_plain w), ?v)" using c t by simp
      show "ready env (forget (sw_item_id w) (touched x)) ?v"
        using inv c y s(3) by (simp add: ready_def linked_def delete_row_def)
      show "same_reader x (forget (sw_item_id w) (touched x))" by (simp add: same_reader_def)
      show "abs_vault env ?v = (abs_vault env v)(sw_item_id w := sw_plain w)"
        using y s(1) t by (simp add: abs_vault_def store_view_delete)
      show "get (st_items (vs_store ?v)) k = (if k = Id (sw_item_id w)
          then (case (sw_overview w, sw_details w) of (Some ob, Some de) \<Rightarrow> Some \<lparr>it_overview = ob, it_details = de, it_revision = rv\<rparr> | _ \<Rightarrow> None)
          else get (st_items (vs_store v)) k)" for k
        using t by (simp add: delete_row_def)
    qed
  next
    case False
    then obtain ov d ob de where o: "sealed_as env x w ov d" "sw_overview w = Some ob" "sw_details w = Some de" "sw_plain w = Some ov"
      "sw_item_id w = ov_id ov" "open_overview env (ss_data_key x) (ss_vault_id x) (ov_id ov, ob) = Inr ov"
      using assms(3) by (auto simp: staged_ok_def sealed_as_def)
    let ?v = "v\<lparr>vs_store := upsert_item (sw_item_id w) ob de rv (vs_store v), vs_session := Some (place ov (touched x))\<rparr>"
    have c: "commit_write w rv v = (Inr (Some ov), ?v)" by (rule commit_write_sealed [OF s(1) assms(2) o(2-4)])
    have y: "session_of ?v = Inr (place ov (touched x))" using s(1) by (simp add: session_of_Inr_iff)
    show thesis
    proof (rule that)
      show "commit_write w rv v = (Inr (sw_plain w), ?v)" using c o by simp
      show "ready env (place ov (touched x)) ?v" using inv c y s(3) by (simp add: ready_def linked_def upsert_item_def)
      show "same_reader x (place ov (touched x))" by (simp add: same_reader_def)
      show "abs_vault env ?v = (abs_vault env v)(sw_item_id w := sw_plain w)"
        using y s(1) o by (simp add: abs_vault_def store_view_upsert)
      show "get (st_items (vs_store ?v)) k = (if k = Id (sw_item_id w)
          then (case (sw_overview w, sw_details w) of (Some ob, Some de) \<Rightarrow> Some \<lparr>it_overview = ob, it_details = de, it_revision = rv\<rparr> | _ \<Rightarrow> None)
          else get (st_items (vs_store v)) k)" for k
        using o by (simp add: upsert_item_def)
    qed
  qed
qed

text \<open>
  What the other threads of the device may have done while a request was under way: either the vault
  was locked, perhaps to be opened again, and its epoch is another; or the session that staged the
  write is still the one that is open.
\<close>

definition interrupted :: "client_env \<Rightarrow> session \<Rightarrow> staged_write \<Rightarrow> client \<Rightarrow> bool" where
  "interrupted env x w c \<longleftrightarrow> cl_storage_error c = None \<and>
     (vs_epoch (cl_vault c) = sw_epoch w \<longrightarrow> (\<exists>y. ready_client env y c \<and> same_reader x y))"

lemma push_outcome:
  assumes "b64_ok (cn_sync env)" and "staged_ok (cn_core env) x w" and "interrupted env x w (g c)"
    and "push_on stored env (\<lambda>u. flaky_transport f g (cn_sync env) sv) w (db, c) = (r, db', c')"
  obtains (refused) e where "r = Inl e" "db' = db" "st_items (vs_store (cl_vault c')) = st_items (vs_store (cl_vault c)) \<or>
      st_items (vs_store (cl_vault c')) = st_items (vs_store (cl_vault (g c)))"
  | (ahead) e rv where "r = Inl e" "server_took sv w rv db db'" "st_items (vs_store (cl_vault c')) = st_items (vs_store (cl_vault (g c)))"
      "f = AnswerLost \<and> e = error_code Offline \<or> f = Arrives \<and> vs_epoch (cl_vault (g c)) \<noteq> sw_epoch w \<and> e = error_code Locked \<or>
        f = Arrives \<and> \<not> stored \<and> e = error_code Storage"
  | (both) y z rv where "r = Inr (sw_plain w)" "f = Arrives" "stored" "ready_client env y (g c)" "same_reader x y" "ready_client env z c'" "same_reader y z"
      "view env c' = (view env (g c))(sw_item_id w := sw_plain w)" "server_took sv w rv db db'"
      "\<And>k. get (st_items (vs_store (cl_vault c'))) k = (if k = Id (sw_item_id w)
        then (case (sw_overview w, sw_details w) of (Some ob, Some de) \<Rightarrow> Some \<lparr>it_overview = ob, it_details = de, it_revision = rv\<rparr> | _ \<Rightarrow> None)
        else get (st_items (vs_store (cl_vault (g c)))) k)"
proof -
  let ?tr = "flaky_transport f g (cn_sync env) sv"
  have e0: "cl_storage_error (g c) = None" using assms(3) by (simp add: interrupted_def)
  obtain a s1 where f: "client_require_full (db, c) = (a, s1)" by (metis surj_pair)
  have s1: "s1 = (db, c)" using require_full_state [OF f] .
  obtain b s2 where g: "session_and_server env (db, c) = (b, s2)" by (metis surj_pair)
  have s2: "s2 = (db, c)" using session_and_server_state [OF g] .
  show thesis
  proof (cases "(\<exists>e. a = Inl e) \<or> (\<exists>e. b = Inl e)")
    case True
    then have "(\<exists>e. r = Inl e) \<and> db' = db \<and> c' = c"
      using assms(4) f g s1 s2 by (cases a) (auto simp: push_on_def io_then_def)
    then show thesis using refused by blast
  next
    case False
    then obtain ses u where ok: "a = Inr ()" "b = Inr (ses, u)" by (cases a; cases b) auto
    obtain q db1 c1 where q: "sync_write (cn_sync env) ?tr ses [w] (db, c) = (q, db1, c1)" by (metis prod_cases3)
    from assms(1) q show thesis
    proof (cases rule: flaky_write)
      case (refused e)
      then have "r = Inl (client_error_of e) \<and> db' = db \<and> c' = failed_state e c1"
        using assms(4) f g s1 s2 ok q by (auto simp: push_on_def io_then_def or_failed_def)
      then show thesis using failed_items [OF refused(4), of c1] refused(3) that(1) by metis
    next
      case (lost rv)
      then have "r = Inl (error_code Offline) \<and> db' = db1 \<and> c' = failed_state SyUnavailable (g c)"
        using assms(4) f g s1 s2 ok q by (auto simp: push_on_def io_then_def or_failed_def)
      then show thesis using failed_items [of SyUnavailable "g c"] lost that(2) by fastforce
    next
      case (stored rv)
      let ?m = "commit_write_on stored w rv (cl_vault (g c))"
      have p: "r = map_err error_code (fst ?m)" "db' = db1" "c' = (g c)\<lparr>cl_vault := snd ?m\<rparr>"
        using assms(4) f g s1 s2 ok q stored(2,3) e0
        by (auto simp: push_on_def io_then_def or_failed_def io_lift_def revision_for_def on_vault_ready)
      show thesis
      proof (cases "vs_epoch (cl_vault (g c)) = sw_epoch w")
        case False
        then have "?m = (Inl Locked, cl_vault (g c))" by (intro commit_write_other) simp
        then show thesis using p False stored(1,4) that(2) [of "error_code Locked" rv] by simp
      next
        case True
        then obtain y where y: "ready_client env y (g c)" "same_reader x y" using assms(3) by (auto simp: interrupted_def)
        have rd: "ready (cn_core env) y (cl_vault (g c))" using y(1) by (simp add: ready_client_def)
        have so: "staged_ok (cn_core env) y w" using assms(2) y(2) staged_ok_keys by (metis same_reader_def)
        show thesis
        proof (cases "stored")
          case st: True
          obtain z v1 where m: "commit_write w rv (cl_vault (g c)) = (Inr (sw_plain w), v1)" "ready (cn_core env) z v1" "same_reader y z"
            "abs_vault (cn_core env) v1 = (view env (g c))(sw_item_id w := sw_plain w)"
            "\<And>k. get (st_items (vs_store v1)) k = (if k = Id (sw_item_id w)
              then (case (sw_overview w, sw_details w) of (Some ob, Some de) \<Rightarrow> Some \<lparr>it_overview = ob, it_details = de, it_revision = rv\<rparr> | _ \<Rightarrow> None)
              else get (st_items (vs_store (cl_vault (g c)))) k)"
            by (rule committed_view [OF rd True [symmetric] so]) blast
          have "ready_client env z ((g c)\<lparr>cl_vault := v1\<rparr>)" using m(2) e0 by (simp add: ready_client_def)
          then show thesis
            using that(3) [of y z rv] y m(3-5) p stored(1,4) st m(1) by (simp add: commit_write_def)
        next
          case st: False
          have "is_tombstone w \<or> (\<exists>ov d. sealed_as (cn_core env) y w ov d)" using so by (simp add: staged_ok_def)
          then have "?m = (Inl Storage, (cl_vault (g c))\<lparr>vs_session := Some (touched y)\<rparr>)"
            using commit_write_failed [of "cl_vault (g c)" y w _ y] rd True st unfolding ready_def by (metis (full_types))
          then show thesis using p stored(1,4) st that(2) [of "error_code Storage" rv] by simp
        qed
      qed
    qed
  qed
qed

text \<open>The same over a network that loses nothing, with the device at rest and its database sound.\<close>

lemma push_result:
  assumes "b64_ok (cn_sync env)" and "ready_client env x c" and "sw_epoch w = vs_epoch (cl_vault c)" and "staged_ok (cn_core env) x w"
    and "push env (\<lambda>u. server_transport (cn_sync env) sv) w (db, c) = (r, db', c')"
  obtains (refused) e where "r = Inl e" "db' = db" "st_items (vs_store (cl_vault c')) = st_items (vs_store (cl_vault c))"
  | (stored) y rv where "r = Inr (sw_plain w)" "ready_client env y c'" "same_reader x y"
      "view env c' = (view env c)(sw_item_id w := sw_plain w)" "server_took sv w rv db db'"
proof -
  have i: "interrupted env x w c" using assms(2) by (auto simp: interrupted_def ready_client_def)
  have p: "push_on True env (\<lambda>u. flaky_transport Arrives (\<lambda>c. c) (cn_sync env) sv) w (db, c) = (r, db', c')"
    using assms(5) by (simp add: push_def server_transport_reliable)
  from assms(1,4) i p show thesis
  proof (cases rule: push_outcome [where g = "\<lambda>c. c", consumes 4, case_names refused ahead both])
    case (refused e)
    then show ?thesis using that(1) by blast
  next
    case (ahead e rv)
    then show ?thesis using assms(3) by simp
  next
    case (both y z rv)
    then show ?thesis using that(2) [of z rv] same_reader_trans [of x y z] by blast
  qed
qed

lemma staged_reads:
  assumes "staged_ok env x w"
  shows "pulled_item env x (row_change (sw_item_id w, staged_row w rv)) old = sw_plain w"
proof (cases "is_tombstone w")
  case True
  then show ?thesis by (simp add: is_tombstone_def pulled_item_def row_change_def staged_row_def)
next
  case False
  then obtain ov d ob de where o: "sw_overview w = Some ob" "sw_details w = Some de" "sw_plain w = Some ov" "sw_item_id w = ov_id ov"
    "open_overview env (ss_data_key x) (ss_vault_id x) (ov_id ov, ob) = Inr ov" "details_type d = ov_item_type ov"
    "open_json env (ss_data_key x) (item_details_ctx (ce_crypto env) (ss_vault_id x) (ov_id ov) ob) (dec_details env) de = Inr d"
    using assms by (auto simp: staged_ok_def sealed_as_def)
  then have "checked_change env x (row_change (sw_item_id w, staged_row w rv)) = Some (ob, de, ov)"
    by (auto simp: checked_change_def check_item_bytes_def row_change_def staged_row_def open_overview_def result_simps)
  then show ?thesis using o by (simp add: pulled_item_def row_change_def staged_row_def)
qed

section \<open>Two devices for the witnesses\<close>

text \<open>Base64 with its digits as characters and 64 for the padding.\<close>

fun toy_b64 :: "bytes \<Rightarrow> rstring" where
  "toy_b64 [] = []"
| "toy_b64 [a] = [unat a div 4, unat a mod 4 * 16, 64, 64]"
| "toy_b64 [a, b] = [unat a div 4, unat a mod 4 * 16 + unat b div 16, unat b mod 16 * 4, 64]"
| "toy_b64 (a # b # c # r) =
     [unat a div 4, unat a mod 4 * 16 + unat b div 16, unat b mod 16 * 4 + unat c div 64, unat c mod 64] @ toy_b64 r"

fun toy_unb64 :: "rstring \<Rightarrow> bytes option" where
  "toy_unb64 (p # q # r # s # t) =
     (if r = 64 then Some [of_nat (p * 4 + q div 16)]
      else if s = 64 then Some [of_nat (p * 4 + q div 16), of_nat (q mod 16 * 16 + r div 4)]
      else map_option (\<lambda>x. [of_nat (p * 4 + q div 16), of_nat (q mod 16 * 16 + r div 4), of_nat (r mod 4 * 64 + s)] @ x) (toy_unb64 t))"
| "toy_unb64 xs = (if xs = [] then Some [] else None)"

lemma byte_parts: "unat (a :: byte) div 4 * 4 + unat a mod 4 = unat a" "unat a div 4 < 64" "unat a div 16 < 16" "unat a div 64 < 4"
  using unsigned_less [of a, where 'a = nat] by (simp_all add: div_mult_mod_eq less_mult_imp_div_less)

lemma toy_unb64_b64: "toy_unb64 (toy_b64 b) = Some b"
proof (induction b rule: toy_b64.induct)
  case (2 a)
  have "unat a mod 4 * 16 div 16 = unat a mod 4" by simp
  then show ?case using byte_parts(1) [of a] by simp
next
  case (3 a b)
  have "(unat a mod 4 * 16 + unat b div 16) div 16 = unat a mod 4" "(unat a mod 4 * 16 + unat b div 16) mod 16 = unat b div 16"
    using byte_parts(3) [of b] by simp_all
  moreover have "unat b mod 16 * 4 \<noteq> 64" using mod_less_divisor [of 16 "unat b"] by linarith
  ultimately show ?case using byte_parts(1) [of a] div_mult_mod_eq [of "unat b" 16] by simp
next
  case (4 a b c r)
  have 1: "(unat a mod 4 * 16 + unat b div 16) div 16 = unat a mod 4" "(unat a mod 4 * 16 + unat b div 16) mod 16 = unat b div 16"
    using byte_parts(3) [of b] by simp_all
  have 2: "(unat b mod 16 * 4 + unat c div 64) div 4 = unat b mod 16" "(unat b mod 16 * 4 + unat c div 64) mod 4 = unat c div 64"
    using byte_parts(4) [of c] by simp_all
  have "unat b mod 16 < 16" "unat c mod 64 < 64" by simp_all
  then have "unat b mod 16 * 4 + unat c div 64 \<noteq> 64" "unat c mod 64 \<noteq> 64" using byte_parts(4) [of c] by linarith+
  then show ?case
    using 4 1 2 byte_parts(1) [of a] div_mult_mod_eq [of "unat b" 16] div_mult_mod_eq [of "unat c" 64] by simp
qed simp

lemma toy_b64_len: "str_len (toy_b64 b) = b64_len (length b)"
proof (induction b rule: toy_b64.induct)
  case (4 a b c r)
  have s: "unat a div 4 < 128" "unat a mod 4 * 16 + unat b div 16 < 128" "unat b mod 16 * 4 + unat c div 64 < 128" "unat c mod 64 < 128"
    using byte_parts(2) [of a] byte_parts(3) [of b] byte_parts(4) [of c] mod_less_divisor [of 4 "unat a"] mod_less_divisor [of 16 "unat b"]
      mod_less_divisor [of 64 "unat c"] by linarith+
  have "b64_len (n + 3) = 4 + b64_len n" for n
  proof -
    have "(n + 3 + 2) div 3 = (n + 2) div 3 + 1" by linarith
    then show ?thesis by (simp only: b64_len_def add_mult_distrib)
  qed
  from this [of "length r"] have "b64_len (length (a # b # c # r)) = 4 + b64_len (length r)" by (simp add: numeral_3_eq_3)
  then show ?case using 4 s by (simp add: str_len_def utf8_len_def)
next
  case (2 a)
  then show ?case using byte_parts(2) [of a] mod_less_divisor [of 4 "unat a"] by (simp add: str_len_def utf8_len_def b64_len_def)
next
  case (3 a b)
  have "unat a mod 4 * 16 + unat b div 16 < 128" "unat b mod 16 * 4 < 128"
    using byte_parts(3) [of b] mod_less_divisor [of 4 "unat a"] mod_less_divisor [of 16 "unat b"] by linarith+
  then show ?case using byte_parts(2) [of a] by (simp add: str_len_def utf8_len_def b64_len_def)
qed (simp add: str_len_def b64_len_def)

definition toy_cenv :: client_env where
  "toy_cenv = toy_client_env\<lparr>cn_sync := (toy_sync toy_file)\<lparr>b64_encode := toy_b64, b64_decode := toy_unb64\<rparr>\<rparr>"

definition toy_sv :: server_env where
  "toy_sv = \<lparr>sv_max_bytes = 1000000000, sv_session = toy_ses, sv_now = 0, sv_time = (\<lambda>_. [])\<rparr>"

lemma toy_b64_ok: "b64_ok (cn_sync toy_cenv)"
  by (simp add: b64_ok_def toy_cenv_def toy_client_env_def toy_unb64_b64 toy_b64_len)

lemma toy_vault_store:
  "st_items (vs_store toy_vault) = []" "pl_entitlement (plan (vs_store toy_vault)) = Full"
  "\<exists>a. require_some_account toy_vault = Inr a"
proof -
  obtain s1 where s1: "create_account_vault toy_core (Some (replicate 12 0)) toy_prep toy_account (new_service empty_store) = (Inr (), s1)"
    using toy_created [of toy_prep] by (auto simp: toy_prep_def)
  have "st_items (vs_store toy_vault) = [] \<and> pl_entitlement (plan (vs_store toy_vault)) = Full"
  proof (cases rule: create_account_vault_cases [of toy_core "Some (replicate 12 0)" toy_prep toy_account "new_service empty_store"])
    case (3 st st2 dk iid b)
    have "st_account st2 = st_account st" "st_items st2 = st_items st" using 3(7) by (auto simp: insert_header_def result_simps)
    moreover have "st_items st = [] \<and> (\<exists>r. st_account st = Some r \<and> entitlement_parse (rw_entitlement r) = Full)"
      using 3(3) by (auto simp: set_account_Inr_iff new_service_def empty_store_def toy_account_def entitlement_parse_def split: option.splits)
    ultimately show ?thesis using 3 by (auto simp: toy_vault_def plan_def)
  qed (use s1 in simp_all)
  then show "st_items (vs_store toy_vault) = []" "pl_entitlement (plan (vs_store toy_vault)) = Full" by simp_all
  show "\<exists>a. require_some_account toy_vault = Inr a" using toy_vault_session by (auto simp: require_some_account_def)
qed

lemma toy_ready: "session_of toy_vault = Inr x \<Longrightarrow> ready_client toy_cenv x toy_client"
  using toy_vault_inv toy_vault_session by (auto simp: ready_client_def ready_def toy_client_def toy_cenv_def toy_client_env_def linked_iff)

lemma toy_ids: "replica_item_ids (cl_vault toy_client) = Inr []"
  using toy_vault_session toy_vault_store(1) by (auto simp: toy_client_def replica_item_ids_def item_ids_def keys_def)

lemma opened_short: "open_json env k ctx f b = Inr y \<Longrightarrow> purpose ctx \<noteq> PBackup \<Longrightarrow> length b \<le> MAX_BLOB_LEN"
  by (auto simp: open_json_def open_blob_def parse_capped_def max_len_def result_simps split: if_splits)

lemma sealed_short:
  assumes "sealed_as env x w ov d"
  shows "\<exists>ob de. sw_overview w = Some ob \<and> sw_details w = Some de \<and> length ob \<le> MAX_BLOB_LEN \<and> length de \<le> MAX_BLOB_LEN"
proof -
  obtain ob de where o: "sw_overview w = Some ob" "sw_details w = Some de"
    "open_overview env (ss_data_key x) (ss_vault_id x) (ov_id ov, ob) = Inr ov"
    "open_json env (ss_data_key x) (item_details_ctx (ce_crypto env) (ss_vault_id x) (ov_id ov) ob) (dec_details env) de = Inr d"
    using assms by (auto simp: sealed_as_def)
  have "length de \<le> MAX_BLOB_LEN" using opened_short [OF o(4)] by (simp add: item_details_ctx_def item_ctx_def)
  moreover have "length ob \<le> MAX_BLOB_LEN"
    using o(3) opened_short [of env "ss_data_key x" "item_ctx PItemOverview (ss_vault_id x) (ov_id ov)" "dec_overview env" ob]
    by (auto simp: open_overview_def item_ctx_def result_simps)
  ultimately show ?thesis using o by blast
qed

lemma stage_base: "stage env rn ov d base s = Inr w \<Longrightarrow> sw_base_revision w = base"
proof -
  have "seal_staged env rn ov d base s = Inr w \<Longrightarrow> sw_base_revision w = base" for ov
    unfolding seal_staged_def and_then_Inr_iff by clarsimp
  then show "stage env rn ov d base s = Inr w \<Longrightarrow> sw_base_revision w = base"
    unfolding stage_def by (auto simp: and_then_Inr_iff split: if_splits)
qed

lemma toy_create_fields:
  assumes "stage_create toy_core toy_rn 3 toy_input 1 toy_vault = Inr w"
  shows "sw_base_revision w = None \<and> sw_attachment_ids w = None"
proof -
  have e: "apply_edits no_edits ov = Inr (ov, None)" for ov
    by (simp add: apply_edits_def no_edits_def file_edits_is_empty_def)
  show ?thesis
    using assms unfolding stage_create_def stage_create_with_def and_then_Inr_iff by (auto simp: e and_then_Inr_iff dest: stage_base)
qed

lemma toy_server_for: "server_for toy_cenv u = Inr u"
  by (simp add: server_for_def toy_cenv_def toy_client_env_def server_scheme_allowed_def toy_server_url_def)

lemma toy_push:
  assumes "stage_create toy_core toy_rn 3 toy_input 1 toy_vault = Inr w" and "session_of toy_vault = Inr x"
    and "sealed_as toy_core x w toy_new toy_login" and "sw_epoch w = vs_epoch toy_vault"
  obtains db1 c1 where "push toy_cenv (\<lambda>u. server_transport (cn_sync toy_cenv) toy_sv) w ([9 \<mapsto> new_vault [] 0 3], toy_client) = (Inr (Some toy_new), db1, c1)"
proof -
  let ?db = "[9 \<mapsto> new_vault [] 0 3] :: database"
  obtain ob de where b: "sw_overview w = Some ob" "sw_details w = Some de" "length ob \<le> MAX_BLOB_LEN" "length de \<le> MAX_BLOB_LEN"
    using sealed_short [OF assms(3)] by blast
  have n: "sw_base_revision w = None" "sw_attachment_ids w = None" "sw_plain w = Some toy_new" "sw_item_id w = 3"
    using toy_create_fields [OF assms(1)] assms(3) toy_new_id(1) by (simp_all add: sealed_as_def)
  let ?ch = "staged_change w"
  have ch: "?ch = \<lparr>ch_item_id = 3, ch_base_revision = None, ch_overview = Some ob, ch_details = Some de, ch_deleted = False, ch_attachment_ids = None\<rparr>"
    using b n by (simp add: staged_change_def)
  obtain d where d: "change_dto_from (cn_sync toy_cenv) w = Inr d" using b by (auto simp: change_dto_from_def)
  have "write_items 1000000000 toy_ses [?ch] ?db = (Inr (Written 1 [(3, 1)]), ?db(9 \<mapsto> (new_vault [] 0 3)\<lparr>vr_revision := 1,
      vr_items := [(3, \<lparr>ir_overview = Some ob, ir_details = Some de, ir_deleted = False, ir_revision = 1\<rparr>)]\<rparr>))"
    using b(3,4) unfolding ch
    by (simp add: write_items_def toy_ses_def require_full_def check_batch_def MAX_CHANGES_PER_BATCH_def check_change_def attachment_ids_valid_def
        write_vault_def find_conflicts_def conflict_of_def new_vault_def get_def apply_change_def apply_attachments_def put_def vault_bytes_def
        attachment_bytes_def blob_len_def i64_max_def MAX_BLOB_LEN_def List.map_filter_simps Let_def)
  then obtain db2 where wr: "write_items 1000000000 toy_ses [?ch] ?db = (Inr (Written 1 [(3, 1)]), db2)" by blast
  have "sync_write (cn_sync toy_cenv) (server_transport (cn_sync toy_cenv) toy_sv) toy_csession [w] (?db, toy_client) = (Inr (1, [(3, 1)]), db2, toy_client)"
    using d change_survives [OF toy_b64_ok d] wr
    by (simp add: sync_write_def MAX_CHANGES_def send_def server_transport_def serve_def toy_sv_def write_answer_def write_answer_out_def
        answer_def expect_ok_def parse_body_def)
  moreover have "client_require_full (?db, toy_client) = (Inr (), ?db, toy_client)"
    using toy_vault_store(2) by (simp add: client_require_full_def io_then_def io_lift_def read_vault_ready toy_client_def)
  moreover obtain u where "session_and_server toy_cenv (?db, toy_client) = (Inr (toy_csession, u), ?db, toy_client)"
    using toy_vault_store(3) by (auto simp: session_and_server_def client_server_def io_then_def io_lift_def read_vault_ready held_session_def
        toy_client_def toy_server_for)
  moreover obtain v2 where "commit_write w 1 (cl_vault toy_client) = (Inr (Some toy_new), v2)"
    using commit_write_sealed [OF assms(2,4) b(1,2) n(3), of 1] by (simp add: toy_client_def)
  ultimately show thesis
    using that n(4) by (simp add: push_def push_on_def commit_write_def io_then_def or_failed_def io_lift_def revision_for_def on_vault_ready toy_client_def [THEN arg_cong [where f = cl_storage_error], simplified])
qed

lemma toy_cores: "cn_core toy_cenv = toy_core"
  by (simp add: toy_cenv_def toy_client_env_def)

lemma new_vault_servable: "servable (new_vault [] 0 3)"
  using new_vault_ok by (simp add: servable_def new_vault_def)

lemma toy_written_servable: "servable toy_written"
  using toy_written_ok by (simp add: servable_def toy_written_def new_vault_def row_fits_def blob_len_def MAX_BLOB_LEN_def)

section \<open>Claims\<close>

text \<open>
  C1. A sync makes the replica agree with the server. On a device whose vault is open, against a server
  that holds any rows its writes can produce, the pull of a sync returns, at any cursor and over any
  number of pages, with the database as it was. From zero, or from a cursor the server is behind (it
  was restored from a backup), every item is afterwards exactly what the server holds: gone where it
  has no row or a deletion, the item its row opens to otherwise, and unchanged only where the row
  does not open under this vault's key. From any other cursor the rows after it have this effect and
  the other items are untouched. The session and the store agree afterwards.
\<close>

theorem pull_catches_up:
  assumes "b64_ok (cn_sync env)" and "servable v" and "db (ses_vault_id (sv_session sv)) = Some v"
    and "ready_client env x c" and "replica_item_ids (cl_vault c) = Inr ids" and "0 \<le> cursor"
  shows "\<exists>rep y c'. pull_loop env (server_transport (cn_sync env) sv) cs cursor (cursor = 0) [] (if cursor = 0 then ids else []) report (db, c)
      = Some (Inr rep, db, c') \<and>
    service_inv (cn_core env) (cl_vault c') \<and> session_of (cl_vault c') = Inr y \<and> held_item y = abs_vault (cn_core env) (cl_vault c') \<and>
    (\<forall>u. abs_vault (cn_core env) (cl_vault c') u =
      (if cursor = 0 \<or> vr_revision v < cursor then server_item (cn_core env) x v (abs_vault (cn_core env) (cl_vault c)) u
       else told (cn_core env) x v cursor (abs_vault (cn_core env) (cl_vault c)) u))"
  using pull_agrees [where db = db and sv = sv, OF assms] .

lemma pull_catches_up_witness:
  "\<exists>rep c'. pull_loop toy_cenv (server_transport (cn_sync toy_cenv) toy_sv) toy_csession 5 False [] [] default_report ([9 \<mapsto> toy_written], toy_client)
      = Some (Inr rep, [9 \<mapsto> toy_written], c') \<and> abs_vault toy_core (cl_vault c') 8 = None"
proof -
  obtain x where x: "session_of toy_vault = Inr x" using toy_vault_session by blast
  have d: "[9 \<mapsto> toy_written] (ses_vault_id (sv_session toy_sv)) = Some toy_written" by (simp add: toy_sv_def toy_ses_def)
  have "get (vr_items toy_written) 8 = None" by (simp add: toy_written_def get_def)
  then have n: "server_item toy_core x toy_written old 8 = None" for old by (simp add: server_item_def)
  have r: "vr_revision toy_written < 5" by (simp add: toy_written_def)
  from pull_catches_up [where db = "[9 \<mapsto> toy_written]" and sv = toy_sv and cs = toy_csession and cursor = 5 and report = default_report,
      OF toy_b64_ok toy_written_servable d toy_ready [OF x] toy_ids]
  show ?thesis using r n unfolding toy_cores by auto
qed



text \<open>
  C5. What is saved on one device is read on another. A device saves, trashes, restores or deletes an
  item, and the server accepts; then a second device of the same vault, in whatever state its replica
  is, syncs from a cursor it got before. Its pull returns, and afterwards both devices show the same
  for this item, exactly what the first device saved.
\<close>

theorem saved_item_reaches_other_device:
  assumes "b64_ok (cn_sync env)" and "servable v" and "db (ses_vault_id (sv_session sv)) = Some v"
    and "ready_client env x c" and "sw_epoch w = vs_epoch (cl_vault c)" and "staged_ok (cn_core env) x w"
    and "push env (\<lambda>u. server_transport (cn_sync env) sv) w (db, c) = (Inr res, db1, c1)"
    and "ready_client env x2 c2" and "ss_data_key x2 = ss_data_key x" and "ss_vault_id x2 = ss_vault_id x"
    and "replica_item_ids (cl_vault c2) = Inr ids" and "0 \<le> cursor" and "cursor \<le> vr_revision v"
  shows "\<exists>rep c3. pull_loop env (server_transport (cn_sync env) sv) cs cursor (cursor = 0) [] (if cursor = 0 then ids else []) report (db1, c2)
      = Some (Inr rep, db1, c3) \<and>
    abs_vault (cn_core env) (cl_vault c1) (sw_item_id w) = sw_plain w \<and> abs_vault (cn_core env) (cl_vault c3) (sw_item_id w) = sw_plain w"
  using assms(1,4-7)
proof (cases rule: push_result)
  case (refused e)
  then show ?thesis by simp
next
  case (stored y rv)
  obtain v' where v': "db1 (ses_vault_id (sv_session sv)) = Some v'" "rv = vr_revision v + 1" "vr_revision v' = rv" "servable v'"
      "get (vr_items v') (sw_item_id w) = Some (staged_row w rv)"
    using stored(5) assms(2,3) by (auto simp: server_took_def)
  note rv = v'(2,3) and sv = v'(4) and d = v'(1)
  obtain rep z c3 where p: "pull_loop env (server_transport (cn_sync env) sv) cs cursor (cursor = 0) [] (if cursor = 0 then ids else []) report (db1, c2)
      = Some (Inr rep, db1, c3)"
    "\<And>u. abs_vault (cn_core env) (cl_vault c3) u =
      (if cursor = 0 \<or> vr_revision v' < cursor then server_item (cn_core env) x2 v' (abs_vault (cn_core env) (cl_vault c2)) u
       else told (cn_core env) x2 v' cursor (abs_vault (cn_core env) (cl_vault c2)) u)"
    using pull_agrees [where db = db1 and sv = sv and cs = cs and report = report, OF assms(1) sv d assms(8,11,12)] by blast
  have "same_reader x x2" using assms(9,10) by (simp add: same_reader_def)
  then have "pulled_item (cn_core env) x2 (row_change (sw_item_id w, staged_row w rv)) old = sw_plain w" for old
    using staged_reads [OF assms(6)] by (simp add: same_reader_item)
  moreover note v'(5)
  moreover have "cursor < ir_revision (staged_row w rv)" using rv(1) assms(13) by (simp add: staged_row_def)
  ultimately have "abs_vault (cn_core env) (cl_vault c3) (sw_item_id w) = sw_plain w"
    unfolding p(2) by (simp add: server_item_def told_def)
  then show ?thesis using p(1) stored(4) by simp
qed

lemma saved_item_reaches_other_device_witness:
  "\<exists>w db1 c1 rep c3. push toy_cenv (\<lambda>u. server_transport (cn_sync toy_cenv) toy_sv) w ([9 \<mapsto> new_vault [] 0 3], toy_client) = (Inr (Some toy_new), db1, c1) \<and>
     pull_loop toy_cenv (server_transport (cn_sync toy_cenv) toy_sv) toy_csession 0 True [] [] default_report (db1, toy_client) = Some (Inr rep, db1, c3) \<and>
     abs_vault toy_core (cl_vault c3) 3 = Some toy_new"
proof -
  obtain w x where w: "stage_create toy_core toy_rn 3 toy_input 1 toy_vault = Inr w" "session_of toy_vault = Inr x"
    "sealed_as toy_core x w toy_new toy_login" "sw_epoch w = vs_epoch toy_vault" by (rule toy_create)
  obtain db1 c1 where p: "push toy_cenv (\<lambda>u. server_transport (cn_sync toy_cenv) toy_sv) w ([9 \<mapsto> new_vault [] 0 3], toy_client) = (Inr (Some toy_new), db1, c1)"
    by (rule toy_push [OF w])
  have o: "staged_ok (cn_core toy_cenv) x w" "sw_epoch w = vs_epoch (cl_vault toy_client)" "sw_item_id w = 3" "sw_plain w = Some toy_new"
    using w(3,4) toy_new_id(1) by (auto simp: staged_ok_def toy_cores toy_client_def sealed_as_def)
  have d: "[9 \<mapsto> new_vault [] 0 3] (ses_vault_id (sv_session toy_sv)) = Some (new_vault [] 0 3)" by (simp add: toy_sv_def toy_ses_def)
  have r: "0 \<le> vr_revision (new_vault [] 0 3)" by (simp add: new_vault_def)
  obtain rep c3 where "pull_loop toy_cenv (server_transport (cn_sync toy_cenv) toy_sv) toy_csession 0 True [] [] default_report (db1, toy_client) = Some (Inr rep, db1, c3)"
    "abs_vault toy_core (cl_vault c3) 3 = Some toy_new"
    using saved_item_reaches_other_device [where cs = toy_csession and report = default_report and cursor = 0,
      OF toy_b64_ok new_vault_servable d toy_ready [OF w(2)] o(2,1) p toy_ready [OF w(2)] refl refl toy_ids order_refl r]
    by (auto simp: o(3,4) toy_cores)
  then show ?thesis using p by blast
qed

end
