(* ===== verification/Pairing.thy ===== *)
theory Pairing
  imports Sync Origin Device "HOL-Library.Countable"
begin

text \<open>
  Signing in a new device from an unlocked one (\<^verbatim>\<open>havenkeys-core/src/pairing.rs\<close>, and the paired sign-in of
  \<^verbatim>\<open>sync.rs\<close> and \<^verbatim>\<open>vault.rs\<close>): the link in the QR code, the payload the approving device sends and the envelope
  it is sealed in.

  HPKE, the base64url codec, the form encoding of a query and the URL parser are fields of \<open>pair_env\<close>; a
  private key is its bytes, and the random bytes of a key encapsulation are an argument of sealing.
\<close>

section \<open>Model\<close>

subsection \<open>Text from bytes\<close>

definition continuation :: "nat \<Rightarrow> bool" where
  "continuation b \<longleftrightarrow> 128 \<le> b \<and> b < 192"

fun utf8_decode :: "nat list \<Rightarrow> rstring option" where
  "utf8_decode [] = Some []"
| "utf8_decode (a # r) =
     (if a < 128 then map_option ((#) a) (utf8_decode r)
      else if 194 \<le> a \<and> a < 224 then (case r of
          b # r2 \<Rightarrow> if continuation b then map_option ((#) ((a - 192) * 64 + (b - 128))) (utf8_decode r2) else None
        | _ \<Rightarrow> None)
      else if 224 \<le> a \<and> a < 240 then (case r of
          b # c # r2 \<Rightarrow> if continuation b \<and> continuation c \<and> (a = 224 \<longrightarrow> 160 \<le> b) \<and> (a = 237 \<longrightarrow> b < 160)
            then map_option ((#) ((a - 224) * 4096 + (b - 128) * 64 + (c - 128))) (utf8_decode r2) else None
        | _ \<Rightarrow> None)
      else if 240 \<le> a \<and> a < 245 then (case r of
          b # c # d # r2 \<Rightarrow> if continuation b \<and> continuation c \<and> continuation d \<and> (a = 240 \<longrightarrow> 144 \<le> b) \<and> (a = 244 \<longrightarrow> b < 144)
            then map_option ((#) ((a - 240) * 262144 + (b - 128) * 4096 + (c - 128) * 64 + (d - 128))) (utf8_decode r2) else None
        | _ \<Rightarrow> None)
      else None)"

definition from_utf8 :: "bytes \<Rightarrow> rstring option" where
  "from_utf8 b = utf8_decode (map unat b)"

subsection \<open>The link\<close>

record hpke =
  hp_public :: "bytes \<Rightarrow> bytes"
  hp_key_ok :: "bytes \<Rightarrow> bool"
  hp_encapped_ok :: "bytes \<Rightarrow> bool"
  hp_seal :: "bytes \<Rightarrow> bytes \<Rightarrow> bytes \<Rightarrow> bytes \<Rightarrow> (bytes \<times> bytes) option"
  hp_open :: "bytes \<Rightarrow> bytes \<Rightarrow> bytes \<Rightarrow> bytes \<Rightarrow> bytes option"

record pair_env =
  pe_sync :: sync_env
  pe_hpke :: hpke
  pe_b64url :: "bytes \<Rightarrow> rstring"
  pe_unb64url :: "rstring \<Rightarrow> bytes option"
  pe_form :: "(rstring \<times> rstring) list \<Rightarrow> rstring"
  pe_unform :: "rstring \<Rightarrow> (rstring \<times> rstring) list"
  pe_url :: url_parser

abbreviation pe_keys :: "pair_env \<Rightarrow> key_env" where
  "pe_keys env \<equiv> ce_keys (se_core (pe_sync env))"

definition LINK_PREFIX :: rstring where "LINK_PREFIX = str ''havenkeys://pair/v1?''"
definition MAX_LINK_LEN :: nat where "MAX_LINK_LEN = 512"
definition MAX_ENVELOPE_LEN :: nat where "MAX_ENVELOPE_LEN = 4096"
definition ENVELOPE_V1 :: byte where "ENVELOPE_V1 = 1"
definition SUITE :: bytes where "SUITE = [0, 32, 0, 1, 0, 2]"
definition ENC_LEN :: nat where "ENC_LEN = 32"
definition HEADER_LEN :: nat where "HEADER_LEN = 1 + 6 + ENC_LEN"
definition HPKE_TAG_LEN :: nat where "HPKE_TAG_LEN = 16"
definition PAYLOAD_V1 :: byte where "PAYLOAD_V1 = 1"
definition PAYLOAD_MAX_EMAIL_LEN :: nat where "PAYLOAD_MAX_EMAIL_LEN = 320"
definition MAX_SECRET_KEY_TEXT :: nat where "MAX_SECRET_KEY_TEXT = 64"
definition PAIRING_ID_CHARS :: nat where "PAIRING_ID_CHARS = 22"

record pairing_link =
  pl_server_url :: rstring
  pl_pairing_id :: rstring
  pl_public_key :: bytes

definition valid_pairing_id :: "pair_env \<Rightarrow> rstring \<Rightarrow> bool" where
  "valid_pairing_id env u \<longleftrightarrow> str_len u = PAIRING_ID_CHARS \<and> pred_option (\<lambda>b. length b = 16) (pe_unb64url env u) \<and> pe_unb64url env u \<noteq> None"

definition link_text :: "pair_env \<Rightarrow> pairing_link \<Rightarrow> rstring" where
  "link_text env l = LINK_PREFIX @ pe_form env [(str ''server'', pl_server_url l), (str ''id'', pl_pairing_id l),
     (str ''pk'', pe_b64url env (pl_public_key l))]"

definition BAD_LINK :: error where "BAD_LINK = InvalidInput ''that is not a HavenKeys sign-in code''"

text \<open>The three slots, filled from left to right; an unknown or repeated key ends the loop.\<close>

fun link_slots :: "(rstring \<times> rstring) list \<Rightarrow> rstring option \<Rightarrow> rstring option \<Rightarrow> rstring option \<Rightarrow>
    (rstring option \<times> rstring option \<times> rstring option) option" where
  "link_slots [] server u pk = Some (server, u, pk)"
| "link_slots ((k, v) # ps) server u pk =
     (if k = str ''server'' then (if server = None then link_slots ps (Some v) u pk else None)
      else if k = str ''id'' then (if u = None then link_slots ps server (Some v) pk else None)
      else if k = str ''pk'' then (if pk = None then link_slots ps server u (Some v) else None)
      else None)"

definition parse_link :: "pair_env \<Rightarrow> rstring \<Rightarrow> pairing_link result" where
  "parse_link env text =
     and_then (ensure (\<not> MAX_LINK_LEN < str_len text) BAD_LINK) (\<lambda>_.
     and_then (ok_or BAD_LINK (strip_prefix LINK_PREFIX text)) (\<lambda>query.
     and_then (ok_or BAD_LINK (link_slots (pe_unform env query) None None None)) (\<lambda>(server, u, pk).
     and_then (ok_or BAD_LINK server) (\<lambda>server. and_then (ok_or BAD_LINK u) (\<lambda>u. and_then (ok_or BAD_LINK pk) (\<lambda>pk.
     and_then (ok_or BAD_LINK (pe_url env server)) (\<lambda>parsed.
     and_then (ensure (scheme parsed \<in> {str ''https'', str ''http''} \<and> host_str parsed \<noteq> None) BAD_LINK) (\<lambda>_.
     and_then (ensure (valid_pairing_id env u) BAD_LINK) (\<lambda>_.
     and_then (ok_or BAD_LINK (pe_unb64url env pk)) (\<lambda>key.
     and_then (ensure (length key = 32) BAD_LINK) (\<lambda>_.
     Inr \<lparr>pl_server_url = server, pl_pairing_id = u, pl_public_key = key\<rparr>)))))))))))"

subsection \<open>The payload\<close>

record pairing_payload =
  pp_account_id :: uuid
  pp_vault_id :: uuid
  pp_email :: rstring
  pp_secret_key :: bytes
  pp_vault_key :: bytes

definition encode_payload :: "pair_env \<Rightarrow> pairing_payload \<Rightarrow> bytes result" where
  "encode_payload env p =
     (let key = utf8_bytes (to_text (pe_keys env) (pp_secret_key p)); email = utf8_bytes (pp_email p) in
      if MAX_SECRET_KEY_TEXT < length key \<or> email = [] \<or> PAYLOAD_MAX_EMAIL_LEN < length email
      then Inl (InvalidInput ''the account cannot be sent'')
      else Inr ([PAYLOAD_V1] @ uuid_bytes (pp_account_id p) @ uuid_bytes (pp_vault_id p) @ pp_vault_key p @
        [of_nat (length key)] @ key @ be_bytes 2 (length email) @ email))"

definition take_bytes :: "nat \<Rightarrow> bytes \<Rightarrow> (bytes \<times> bytes) result" where
  "take_bytes n rest = (if length rest < n then Inl Corrupted else Inr (take n rest, drop n rest))"

definition decode_payload :: "pair_env \<Rightarrow> bytes \<Rightarrow> pairing_payload result" where
  "decode_payload env b0 =
     and_then (take_bytes 1 b0) (\<lambda>(v, b1).
     and_then (ensure (hd v = PAYLOAD_V1) UnsupportedVersion) (\<lambda>_.
     and_then (take_bytes 16 b1) (\<lambda>(acct, b2).
     and_then (take_bytes 16 b2) (\<lambda>(vault, b3).
     and_then (take_bytes 32 b3) (\<lambda>(vk, b4).
     and_then (take_bytes 1 b4) (\<lambda>(n, b5).
     and_then (ensure (\<not> MAX_SECRET_KEY_TEXT < unat (hd n)) Corrupted) (\<lambda>_.
     and_then (take_bytes (unat (hd n)) b5) (\<lambda>(kt, b6).
     and_then (ok_or Corrupted (from_utf8 kt)) (\<lambda>key_text.
     and_then (map_err (\<lambda>_. Corrupted) (parse_secret_key (pe_keys env) key_text)) (\<lambda>sk.
     and_then (take_bytes 2 b6) (\<lambda>(el, b7).
     and_then (ensure (\<not> (be_value el = 0 \<or> PAYLOAD_MAX_EMAIL_LEN < be_value el)) Corrupted) (\<lambda>_.
     and_then (take_bytes (be_value el) b7) (\<lambda>(em, b8).
     and_then (ok_or Corrupted (from_utf8 em)) (\<lambda>email.
     and_then (ensure (b8 = []) Corrupted) (\<lambda>_.
     Inr \<lparr>pp_account_id = of_nat (be_value acct), pp_vault_id = of_nat (be_value vault), pp_email = email,
       pp_secret_key = sk, pp_vault_key = vk\<rparr>)))))))))))))))"

subsection \<open>The envelope\<close>

definition pairing_info :: "rstring \<Rightarrow> rstring \<Rightarrow> bytes" where
  "pairing_info server_url pairing_id = byte_str ''havenkeys/pair/v1'' @ [0] @ utf8_bytes server_url @ [0] @ utf8_bytes pairing_id"

definition seal_payload :: "pair_env \<Rightarrow> bytes \<Rightarrow> pairing_link \<Rightarrow> pairing_payload \<Rightarrow> bytes result" where
  "seal_payload env rnd l p =
     and_then (ensure (hp_key_ok (pe_hpke env) (pl_public_key l)) BAD_LINK) (\<lambda>_.
     and_then (encode_payload env p) (\<lambda>plain.
     and_then (ok_or Encryption (hp_seal (pe_hpke env) rnd (pl_public_key l) (pairing_info (pl_server_url l) (pl_pairing_id l)) plain)) (\<lambda>(enc, ct).
     let out = [ENVELOPE_V1] @ SUITE @ enc @ ct in
     if MAX_ENVELOPE_LEN < length out then Inl Encryption else Inr out)))"

definition open_envelope :: "pair_env \<Rightarrow> bytes \<Rightarrow> rstring \<Rightarrow> rstring \<Rightarrow> bytes \<Rightarrow> pairing_payload result" where
  "open_envelope env sk server_url pairing_id e =
     (if MAX_ENVELOPE_LEN < length e \<or> length e < HEADER_LEN + HPKE_TAG_LEN then Inl Corrupted
      else if hd e \<noteq> ENVELOPE_V1 \<or> take (length SUITE) (drop 1 e) \<noteq> SUITE then Inl UnsupportedVersion
      else
        (let enc = take ENC_LEN (drop (1 + length SUITE) e) in
         and_then (ensure (hp_encapped_ok (pe_hpke env) enc) Corrupted) (\<lambda>_.
         and_then (ok_or Decryption (hp_open (pe_hpke env) sk enc (pairing_info server_url pairing_id) (drop HEADER_LEN e))) (\<lambda>plain.
         decode_payload env plain))))"

definition claim_hash :: "pair_env \<Rightarrow> bytes \<Rightarrow> bytes" where
  "claim_hash env cs = sha256 (ke_crypto (pe_keys env)) cs"

subsection \<open>The two ends\<close>

definition seal_pairing :: "pair_env \<Rightarrow> bytes \<Rightarrow> pairing_link \<Rightarrow> account_record \<Rightarrow> bytes \<Rightarrow> service \<Rightarrow> bytes result" where
  "seal_pairing env rnd l a sk s =
     and_then (session_of s) (\<lambda>x.
     seal_payload env rnd l \<lparr>pp_account_id = ac_account_id a, pp_vault_id = ss_vault_id x, pp_email = ac_email a,
       pp_secret_key = sk, pp_vault_key = ss_vault_key x\<rparr>)"

record paired_sign_in =
  ps_prepared :: prepared_vault
  ps_account :: account_ref
  ps_secret_key :: bytes

definition prepare_paired_sign_in :: "pair_env \<Rightarrow> bytes \<Rightarrow> pairing_payload \<Rightarrow> paired_sign_in result" where
  "prepare_paired_sign_in env b p =
     and_then (parse_header (pe_sync env) b) (\<lambda>f.
     and_then (ensure (hb_key_scheme (hf_body f) = AccountBound) UnsupportedVersion) (\<lambda>_.
     and_then (body_to_record (pe_sync env) (hf_body f)) (\<lambda>h.
     and_then (ensure (\<not> hd_vault_id h \<noteq> pp_vault_id p) Corrupted) (\<lambda>_.
     and_then (derive_data_key (pe_keys env) (pp_vault_key p)) (\<lambda>dk.
     and_then (ensure (verify_header (pe_sync env) dk f) Corrupted) (\<lambda>_.
     and_then (parse_email (pe_keys env) (pp_email p)) (\<lambda>email.
     Inr \<lparr>ps_prepared = \<lparr>pv_header = h, pv_vault_key = pp_vault_key p\<rparr>,
       ps_account = \<lparr>ar_id = pp_account_id p, ar_email = email\<rparr>, ps_secret_key = pp_secret_key p\<rparr>)))))))"

section \<open>Properties\<close>

subsection \<open>Text\<close>

definition unicode_scalar :: "rchar \<Rightarrow> bool" where
  "unicode_scalar c \<longleftrightarrow> c < 1114112 \<and> \<not> (55296 \<le> c \<and> c < 57344)"

lemma utf8_decode_lead:
  "a < 128 \<Longrightarrow> utf8_decode (a # r) = map_option ((#) a) (utf8_decode r)"
  "2 \<le> a \<Longrightarrow> a < 32 \<Longrightarrow> b < 64 \<Longrightarrow> utf8_decode ((192 + a) # (128 + b) # r) = map_option ((#) (a * 64 + b)) (utf8_decode r)"
  "a < 16 \<Longrightarrow> b < 64 \<Longrightarrow> c < 64 \<Longrightarrow> (a = 0 \<Longrightarrow> 32 \<le> b) \<Longrightarrow> (a = 13 \<Longrightarrow> b < 32) \<Longrightarrow>
   utf8_decode ((224 + a) # (128 + b) # (128 + c) # r) = map_option ((#) (a * 4096 + b * 64 + c)) (utf8_decode r)"
  "a < 5 \<Longrightarrow> b < 64 \<Longrightarrow> c < 64 \<Longrightarrow> d < 64 \<Longrightarrow> (a = 0 \<Longrightarrow> 16 \<le> b) \<Longrightarrow> (a = 4 \<Longrightarrow> b < 16) \<Longrightarrow>
   utf8_decode ((240 + a) # (128 + b) # (128 + c) # (128 + d) # r) =
     map_option ((#) (a * 262144 + b * 4096 + c * 64 + d)) (utf8_decode r)"
  by (simp_all add: continuation_def)

declare utf8_decode.simps(2) [simp del]

lemma base64_digits:
  fixes c :: nat
  shows "c = c div 64 * 64 + c mod 64" "c = c div 4096 * 4096 + c div 64 mod 64 * 64 + c mod 64"
    "c = c div 262144 * 262144 + c div 4096 mod 64 * 4096 + c div 64 mod 64 * 64 + c mod 64"
proof -
  have q: "c div 64 div 64 = c div 4096" "c div 4096 div 64 = c div 262144" by (simp_all add: div_mult2_eq [symmetric])
  have a: "c = c div 64 * 64 + c mod 64" by simp
  have b: "c div 64 = c div 4096 * 64 + c div 64 mod 64" using div_mult_mod_eq [of "c div 64" 64] q by simp
  have d: "c div 4096 = c div 262144 * 64 + c div 4096 mod 64" using div_mult_mod_eq [of "c div 4096" 64] q by simp
  show "c = c div 64 * 64 + c mod 64" by (rule a)
  show e: "c = c div 4096 * 4096 + c div 64 mod 64 * 64 + c mod 64" using a b by linarith
  show "c = c div 262144 * 262144 + c div 4096 mod 64 * 4096 + c div 64 mod 64 * 64 + c mod 64" using e d by linarith
qed

lemma utf8_decode_char:
  assumes "unicode_scalar c"
  shows "utf8_decode (utf8_char c @ r) = map_option ((#) c) (utf8_decode r)"
proof -
  have m: "c div 4096 mod 64 < 64" "c div 64 mod 64 < 64" "c mod 64 < 64" by simp_all
  note s = base64_digits [of c]
  have u: "c < 1114112" "\<not> (55296 \<le> c \<and> c < 57344)" using assms by (simp_all add: unicode_scalar_def)
  consider "c < 128" | "128 \<le> c" "c < 2048" | "2048 \<le> c" "c < 65536" | "65536 \<le> c" by linarith
  then show ?thesis
  proof cases
    case 1
    then show ?thesis by (simp add: utf8_char_def utf8_decode_lead(1))
  next
    case 2
    have "2 \<le> c div 64" "c div 64 < 32" using s(1) m 2 by linarith+
    from utf8_decode_lead(2) [OF this m(3), of r] show ?thesis using 2 s(1) by (simp add: utf8_char_def)
  next
    case 3
    have "c div 4096 < 16" "c div 4096 = 0 \<Longrightarrow> 32 \<le> c div 64 mod 64" "c div 4096 = 13 \<Longrightarrow> c div 64 mod 64 < 32"
      using s(2) m u 3 by linarith+
    from utf8_decode_lead(3) [OF this(1) m(2,3) this(2,3), of r] show ?thesis
      using 3 s(2) [symmetric] by (simp add: utf8_char_def)
  next
    case 4
    have "c div 262144 < 5" "c div 262144 = 0 \<Longrightarrow> 16 \<le> c div 4096 mod 64" "c div 262144 = 4 \<Longrightarrow> c div 4096 mod 64 < 16"
      using s(3) m u 4 by linarith+
    from utf8_decode_lead(4) [OF this(1) m this(2,3), of r] show ?thesis
      using 4 s(3) [symmetric] by (simp add: utf8_char_def)
  qed
qed

lemma utf8_decode_utf8: "\<forall>c\<in>set s. unicode_scalar c \<Longrightarrow> utf8_decode (utf8 s) = Some s"
proof (induction s)
  case (Cons c s)
  then show ?case using utf8_decode_char [of c "utf8 s"] by (simp add: utf8_def)
qed (simp add: utf8_def)

lemma unat_utf8_bytes: "\<forall>c\<in>set s. unicode_scalar c \<Longrightarrow> map unat (utf8_bytes s) = utf8 s"
proof -
  assume "\<forall>c\<in>set s. unicode_scalar c"
  then have "\<forall>c\<in>set s. scalar c" by (simp add: unicode_scalar_def scalar_def)
  then show ?thesis
    unfolding utf8_bytes_def map_map comp_def
    by (intro map_idI) (use utf8_byte unat_of_nat_byte in auto)
qed

lemma from_utf8_bytes: "\<forall>c\<in>set s. unicode_scalar c \<Longrightarrow> from_utf8 (utf8_bytes s) = Some s"
  by (simp add: from_utf8_def unat_utf8_bytes utf8_decode_utf8)

lemma length_utf8_bytes: "length (utf8_bytes s) = str_len s"
  by (simp add: utf8_bytes_def length_utf8)

subsection \<open>Payload and envelope\<close>

definition payload_ok :: "pairing_payload \<Rightarrow> bool" where
  "payload_ok p \<longleftrightarrow> length (pp_vault_key p) = 32 \<and> length (pp_secret_key p) = SECRET_KEY_LEN \<and> (\<forall>c\<in>set (pp_email p). unicode_scalar c)"

text \<open>HPKE as the code relies on it: what is sealed to a key opens with its private key under the same info.\<close>

definition hpke_ok :: "hpke \<Rightarrow> bool" where
  "hpke_ok h \<longleftrightarrow> (\<forall>sk rnd i p e c. hp_seal h rnd (hp_public h sk) i p = Some (e, c) \<longrightarrow>
     length e = ENC_LEN \<and> length c = length p + HPKE_TAG_LEN \<and> hp_encapped_ok h e \<and> hp_open h sk e i c = Some p)"

lemma secret_char_ascii: "secret_char c \<noteq> None \<Longrightarrow> c < 128"
  by (auto simp: secret_char_def to_ascii_uppercase_def Let_def split: if_splits)

lemma to_text_scalars: "base32_ok env \<Longrightarrow> length key = 16 \<Longrightarrow> c \<in> set (to_text env key) \<Longrightarrow> unicode_scalar c"
  using to_text_chars [of env key] secret_char_ascii [of c] by (fastforce simp: secret_text_ok_def unicode_scalar_def)

lemma chunked_length: "0 < n \<Longrightarrow> length (concat (map (\<lambda>c. a # c) (chunks n xs))) \<le> 2 * length xs"
proof (induction n xs rule: chunks.induct)
  case (1 n xs)
  show ?case
  proof (cases "xs = []")
    case True
    then show ?thesis by (simp add: chunks.simps)
  next
    case False
    then have ih: "length (concat (map (\<lambda>c. a # c) (chunks n (drop n xs)))) \<le> 2 * length (drop n xs)"
      using 1(1) [OF _ 1(2)] 1(2) by simp
    have c: "chunks n xs = take n xs # chunks n (drop n xs)" using False 1(2) by (subst chunks.simps) simp
    have t: "0 < length (take n xs)" "length xs = length (take n xs) + length (drop n xs)" using False 1(2) by simp_all
    have "length (concat (map (\<lambda>c. a # c) (chunks n xs))) = Suc (length (take n xs) + length (concat (map (\<lambda>c. a # c) (chunks n (drop n xs)))))"
      unfolding c by (simp only: list.map concat.simps length_append list.size add_Suc)
    then show ?thesis using ih t by linarith
  qed
qed

lemma to_text_short:
  assumes "base32_ok env" and "length key = 16"
  shows "length (utf8_bytes (to_text env key)) \<le> MAX_SECRET_KEY_TEXT"
proof -
  have "\<forall>c\<in>set (to_text env key). c < 128"
    using to_text_chars [OF assms] secret_char_ascii by (fastforce simp: secret_text_ok_def)
  then have "utf8 (to_text env key) = to_text env key" by (rule utf8_of_ascii)
  moreover have "length (base32_encode env key @ check_chars env key) = 28" using secret_body [OF assms] by simp
  then have "length (to_text env key) \<le> 58"
    using chunked_length [of GROUP 45 "base32_encode env key @ check_chars env key"] by (simp add: to_text_def GROUP_def str_def)
  ultimately show ?thesis by (simp add: utf8_bytes_def MAX_SECRET_KEY_TEXT_def)
qed

lemma take_bytes_app: "length a = n \<Longrightarrow> take_bytes n (a @ r) = Inr (a, r)"
  by (simp add: take_bytes_def)

lemma take_bytes_one: "take_bytes (Suc 0) (x # r) = Inr ([x], r)"
  by (simp add: take_bytes_def)

lemma take_bytes_all: "length a = n \<Longrightarrow> take_bytes n a = Inr (a, [])"
  by (simp add: take_bytes_def)

lemma uuid_of_bytes: "(of_nat (be_value (uuid_bytes u)) :: uuid) = u"
  using be_value_be_bytes [of "unat u" 16] unat_uuid_bound [of u] by (simp add: uuid_bytes_def)

lemma decode_encoded_payload:
  assumes "base32_ok (pe_keys env)" and "payload_ok p" and "encode_payload env p = Inr b"
  shows "decode_payload env b = Inr p"
proof -
  define key where "key = utf8_bytes (to_text (pe_keys env) (pp_secret_key p))"
  define email where "email = utf8_bytes (pp_email p)"
  have l: "length key \<le> 64" "email \<noteq> []" "length email \<le> 320"
    and b: "b = [PAYLOAD_V1] @ uuid_bytes (pp_account_id p) @ uuid_bytes (pp_vault_id p) @ pp_vault_key p @
        [of_nat (length key)] @ key @ be_bytes 2 (length email) @ email"
    using assms(3) by (auto simp: encode_payload_def Let_def key_def email_def MAX_SECRET_KEY_TEXT_def PAYLOAD_MAX_EMAIL_LEN_def split: if_splits)
  have s: "length (pp_secret_key p) = SECRET_KEY_LEN" "length (pp_vault_key p) = 32" using assms(2) by (simp_all add: payload_ok_def)
  have k: "from_utf8 key = Some (to_text (pe_keys env) (pp_secret_key p))"
    unfolding key_def by (rule from_utf8_bytes) (use to_text_scalars [OF assms(1)] s(1) in \<open>simp add: SECRET_KEY_LEN_def\<close>)
  have e: "from_utf8 email = Some (pp_email p)"
    unfolding email_def by (rule from_utf8_bytes) (use assms(2) in \<open>simp add: payload_ok_def\<close>)
  have n: "unat (of_nat (length key) :: byte) = length key" using l(1) by (intro unat_of_nat_byte) simp
  have v: "be_value (be_bytes 2 (length email)) = length email" by (rule be_value_be_bytes) (use l(3) in simp)
  show ?thesis
    unfolding decode_payload_def b
    using l k e n v s to_text_parses [OF assms(1) s(1)]
    by (simp add: take_bytes_app take_bytes_one take_bytes_all uuid_of_bytes MAX_SECRET_KEY_TEXT_def PAYLOAD_MAX_EMAIL_LEN_def)
qed

lemma envelope_opens:
  assumes "base32_ok (pe_keys env)" and "hpke_ok (pe_hpke env)" and "payload_ok p"
    and "pl_public_key l = hp_public (pe_hpke env) sk" and "seal_payload env rnd l p = Inr e"
  shows "open_envelope env sk (pl_server_url l) (pl_pairing_id l) e = Inr p"
proof -
  let ?i = "pairing_info (pl_server_url l) (pl_pairing_id l)"
  obtain plain enc ct where x: "encode_payload env p = Inr plain" "hp_seal (pe_hpke env) rnd (hp_public (pe_hpke env) sk) ?i plain = Some (enc, ct)"
      "e = [ENVELOPE_V1] @ SUITE @ enc @ ct" "length e \<le> MAX_ENVELOPE_LEN"
    using assms(4,5) by (auto simp: seal_payload_def result_simps Let_def split: if_splits)
  have h: "length enc = ENC_LEN" "length ct = length plain + HPKE_TAG_LEN" "hp_encapped_ok (pe_hpke env) enc"
      "hp_open (pe_hpke env) sk enc ?i ct = Some plain"
    using assms(2) x(2) unfolding hpke_ok_def by blast+
  show ?thesis
    using x h decode_encoded_payload [OF assms(1,3) x(1)]
    by (simp add: open_envelope_def HEADER_LEN_def SUITE_def ENC_LEN_def)
qed

lemma byte_str_nul: "utf8_bytes s @ [0] @ utf8_bytes i = utf8_bytes s' @ [0] @ utf8_bytes i' \<Longrightarrow>
    str_len i = str_len i' \<Longrightarrow> utf8_bytes s = utf8_bytes s' \<and> utf8_bytes i = utf8_bytes i'"
  using append_eq_append_conv [of "utf8_bytes s @ [0]" "utf8_bytes s' @ [0]" "utf8_bytes i" "utf8_bytes i'"]
  by (simp add: length_utf8_bytes)

lemma pairing_info_inject:
  assumes "valid_pairing_id env i" and "valid_pairing_id env i'" and "\<forall>c\<in>set (s @ i @ s' @ i'). unicode_scalar c"
  shows "pairing_info s i = pairing_info s' i' \<longleftrightarrow> s = s' \<and> i = i'"
proof
  assume "pairing_info s i = pairing_info s' i'"
  then have "utf8_bytes s @ [0] @ utf8_bytes i = utf8_bytes s' @ [0] @ utf8_bytes i'" by (simp add: pairing_info_def)
  from byte_str_nul [OF this] have "utf8_bytes s = utf8_bytes s' \<and> utf8_bytes i = utf8_bytes i'"
    using assms(1,2) by (simp add: valid_pairing_id_def)
  then have "from_utf8 (utf8_bytes s) = from_utf8 (utf8_bytes s')" "from_utf8 (utf8_bytes i) = from_utf8 (utf8_bytes i')" by simp_all
  then show "s = s' \<and> i = i'" using assms(3) by (simp add: from_utf8_bytes)
qed simp

subsection \<open>The link\<close>

definition form_ok :: "pair_env \<Rightarrow> bool" where
  "form_ok env \<longleftrightarrow> (\<forall>ps. pe_unform env (pe_form env ps) = ps) \<and> (\<forall>b. pe_unb64url env (pe_b64url env b) = Some b)"

definition link_ok :: "pair_env \<Rightarrow> pairing_link \<Rightarrow> bool" where
  "link_ok env l \<longleftrightarrow> (\<exists>u. pe_url env (pl_server_url l) = Some u \<and> scheme u \<in> {str ''https'', str ''http''} \<and> host_str u \<noteq> None) \<and>
     valid_pairing_id env (pl_pairing_id l) \<and> length (pl_public_key l) = 32"

lemma link_slots_three: "link_slots [(str ''server'', a), (str ''id'', b), (str ''pk'', c)] None None None = Some (Some a, Some b, Some c)"
  by (simp add: str_def)

lemma link_roundtrip:
  assumes "form_ok env" and "str_len (link_text env l) \<le> MAX_LINK_LEN"
  shows "parse_link env (link_text env l) = Inr l \<longleftrightarrow> link_ok env l"
proof -
  have p: "strip_prefix LINK_PREFIX (link_text env l) = Some (pe_form env [(str ''server'', pl_server_url l), (str ''id'', pl_pairing_id l),
     (str ''pk'', pe_b64url env (pl_public_key l))])"
    by (simp add: link_text_def strip_prefix_def starts_with_def)
  show ?thesis
    using assms by (auto simp: parse_link_def p form_ok_def link_slots_three link_ok_def result_simps simp del: link_slots.simps)
qed

lemma parsed_link_ok: "parse_link env t = Inr l \<Longrightarrow> link_ok env l"
  by (auto simp: parse_link_def link_ok_def result_simps)

subsection \<open>An environment for the witnesses\<close>

definition toy_hpke :: hpke where
  "toy_hpke = \<lparr>hp_public = (\<lambda>k. k), hp_key_ok = (\<lambda>_. True), hp_encapped_ok = (\<lambda>_. True),
     hp_seal = (\<lambda>rnd k i p. Some (replicate 32 0, p @ replicate 16 0)), hp_open = (\<lambda>k e i c. Some (take (length c - 16) c))\<rparr>"

definition toy_pair_url :: url where
  "toy_pair_url = \<lparr>scheme = str ''https'', host = None, host_str = Some (str ''h''), port = None, port_or_known_default = None,
     url_path = [], query_pairs = [], url_username = [], url_password = None, origin_ascii = [], without_fragment = []\<rparr>"

definition toy_pair :: "header_file \<Rightarrow> pair_env" where
  "toy_pair f = \<lparr>pe_sync = toy_sync f, pe_hpke = toy_hpke, pe_b64url = (\<lambda>b. map unat b @ replicate 6 65),
     pe_unb64url = (\<lambda>s. Some (map of_nat (take (length s - 6) s))), pe_form = (\<lambda>ps. [to_nat ps]), pe_unform = (\<lambda>s. from_nat (hd s)),
     pe_url = (\<lambda>_. Some toy_pair_url)\<rparr>"

definition toy_link :: pairing_link where
  "toy_link = \<lparr>pl_server_url = str ''https://h'', pl_pairing_id = replicate 16 66 @ replicate 6 65, pl_public_key = replicate 32 8\<rparr>"

lemma toy_hpke_ok: "hpke_ok toy_hpke"
  by (simp add: hpke_ok_def toy_hpke_def ENC_LEN_def HPKE_TAG_LEN_def)

lemma toy_form_ok: "form_ok (toy_pair f)"
proof -
  have "map of_nat (map unat b) = b" for b :: bytes by (induction b) simp_all
  then show ?thesis by (simp add: form_ok_def toy_pair_def)
qed

lemma toy_link_ok: "link_ok (toy_pair f) toy_link" "str_len (link_text (toy_pair f) toy_link) \<le> MAX_LINK_LEN"
proof -
  show "link_ok (toy_pair f) toy_link"
    by (simp add: link_ok_def toy_pair_def toy_pair_url_def toy_link_def valid_pairing_id_def PAIRING_ID_CHARS_def str_len_def utf8_len_def
        eval_nat_numeral)
  have "str_len (LINK_PREFIX @ [n]) \<le> MAX_LINK_LEN" for n
    using utf8_len_le [of n] by (simp add: LINK_PREFIX_def MAX_LINK_LEN_def str_def utf8_len_def)
  then show "str_len (link_text (toy_pair f) toy_link) \<le> MAX_LINK_LEN" by (simp add: link_text_def toy_pair_def)
qed

lemma toy_vault_key: "session_of toy_vault = Inr x \<Longrightarrow> ss_vault_key x = replicate 32 4"
proof -
  obtain s1 where s1: "create_account_vault toy_core (Some (replicate 12 0)) toy_prep toy_account (new_service empty_store) = (Inr (), s1)"
    using toy_created [of toy_prep] by (auto simp: toy_prep_def)
  assume "session_of toy_vault = Inr x"
  then show ?thesis
    by (cases rule: create_account_vault_cases [of toy_core "Some (replicate 12 0)" toy_prep toy_account "new_service empty_store"])
      (use s1 in \<open>auto simp: toy_vault_def session_of_Inr_iff toy_prep_def\<close>)
qed

subsection \<open>Claims\<close>

text \<open>
  C32. A device approved from an unlocked one gets its vault: the code on its screen reads back as it was written, the
  envelope that the approving device seals to the key in the code opens on the new device, and with the header that the
  approving device publishes it prepares a vault with the same vault key, the same header, the same account and the
  Secret Key that was sent.
\<close>

theorem paired_device_gets_vault:
  assumes "sync_env_ok (pe_sync env)" and "base32_ok (pe_keys env)" and "hpke_ok (pe_hpke env)"
    and "service_inv (se_core (pe_sync env)) s" and "session_of s = Inr x" and "length (ss_vault_key x) = 32"
    and "require_header (vs_store s) = Inr h" and "hd_vault_id h = ss_vault_id x"
    and "hd_format_version h = FORMAT_VERSION" and "validate_kdf (hd_kdf h) = Inr ()"
    and "length n = NONCE_LEN" and "encode_account_header (pe_sync env) (Some n) s = Inr b" and "length b \<le> 64 * 1024"
    and "length sk = SECRET_KEY_LEN" and "\<forall>c\<in>set (ac_email a). unicode_scalar c"
    and "parse_email (pe_keys env) (ac_email a) = Inr email"
    and "pl_public_key l = hp_public (pe_hpke env) priv" and "seal_pairing env rnd l a sk s = Inr e"
    and "form_ok env" and "link_ok env l" and "str_len (link_text env l) \<le> MAX_LINK_LEN"
  shows "parse_link env (link_text env l) = Inr l \<and> (\<exists>p. open_envelope env priv (pl_server_url l) (pl_pairing_id l) e = Inr p \<and>
    prepare_paired_sign_in env b p = Inr \<lparr>ps_prepared = \<lparr>pv_header = h, pv_vault_key = ss_vault_key x\<rparr>,
      ps_account = \<lparr>ar_id = ac_account_id a, ar_email = email\<rparr>, ps_secret_key = sk\<rparr>)"
proof -
  let ?p = "\<lparr>pp_account_id = ac_account_id a, pp_vault_id = ss_vault_id x, pp_email = ac_email a,
       pp_secret_key = sk, pp_vault_key = ss_vault_key x\<rparr>"
  have "payload_ok ?p" using assms(6,14,15) by (simp add: payload_ok_def)
  moreover have "seal_payload env rnd l ?p = Inr e" using assms(5,18) by (simp add: seal_pairing_def)
  ultimately have o: "open_envelope env priv (pl_server_url l) (pl_pairing_id l) e = Inr ?p"
    using envelope_opens [OF assms(2,3) _ assms(17)] by blast
  have dk: "derive_data_key (pe_keys env) (ss_vault_key x) = Inr (ss_data_key x)"
    using assms(4,5) by (auto simp: service_inv_def session_inv_def session_of_Inr_iff)
  have "encode_header (pe_sync env) (Some n) (ss_data_key x) h = Inr b"
    using assms(5,7,12) by (auto simp: encode_account_header_def account_bound_header_def result_simps)
  from encoded_header_parses [OF assms(1,11) this assms(13,9,10)] obtain f where
    "parse_header (pe_sync env) b = Inr f" "verify_header (pe_sync env) (ss_data_key x) f" "body_to_record (pe_sync env) (hf_body f) = Inr h"
    by blast
  moreover have "hb_key_scheme (hf_body f) = AccountBound" by (cases "hb_key_scheme (hf_body f)") simp
  ultimately have "prepare_paired_sign_in env b ?p = Inr \<lparr>ps_prepared = \<lparr>pv_header = h, pv_vault_key = ss_vault_key x\<rparr>,
      ps_account = \<lparr>ar_id = ac_account_id a, ar_email = email\<rparr>, ps_secret_key = sk\<rparr>"
    using dk assms(8,16) by (simp add: prepare_paired_sign_in_def)
  with o show ?thesis using link_roundtrip [OF assms(19,21)] assms(20) by blast
qed

subsection \<open>Witnesses\<close>

lemma paired_device_gets_vault_witness:
  "\<exists>f e p x. session_of toy_vault = Inr x \<and>
     seal_pairing (toy_pair f) [] toy_link \<lparr>ac_account_id = 9, ac_email = str ''a@b.c'', ac_server_url = [], ac_server_cursor = 0,
       ac_max_header_rev = 0, ac_last_synced_at = None\<rparr> (replicate 16 3) toy_vault = Inr e \<and>
     open_envelope (toy_pair f) (replicate 32 8) (pl_server_url toy_link) (pl_pairing_id toy_link) e = Inr p \<and>
     (\<exists>ps. prepare_paired_sign_in (toy_pair f) [1] p = Inr ps \<and> pv_vault_key (ps_prepared ps) = ss_vault_key x)"
proof -
  let ?a = "\<lparr>ac_account_id = 9, ac_email = str ''a@b.c'', ac_server_url = [], ac_server_cursor = 0,
       ac_max_header_rev = 0, ac_last_synced_at = None\<rparr>"
  let ?h = "pv_header toy_prep"
  obtain x where x: "session_of toy_vault = Inr x" "ss_data_key x = replicate 32 5" "ss_vault_id x = 5"
      "require_header (vs_store toy_vault) = Inr ?h" using toy_vault_session by blast
  note vk = toy_vault_key [OF x(1)]
  have h: "hd_vault_id ?h = 5" "hd_format_version ?h = FORMAT_VERSION" "validate_kdf (hd_kdf ?h) = Inr ()" "hd_key_scheme ?h = AccountBound"
    by (simp_all add: toy_prep_def validate_kdf_def toy_kdf_def MIN_MEMORY_KIB_def MAX_MEMORY_KIB_def MIN_ITERATIONS_def MAX_ITERATIONS_def
        MIN_PARALLELISM_def MAX_PARALLELISM_def)
  obtain f where f: "encode_header (toy_sync f) (Some (replicate 12 0)) (replicate 32 5) ?h = Inr [1]" using toy_encoded [OF h(1)] by blast
  let ?e = "toy_pair f"
  have k: "pe_sync ?e = toy_sync f" "pe_hpke ?e = toy_hpke" "pe_keys ?e = toy_keys" by (simp_all add: toy_pair_def toy_core_def)
  have k4: "ce_keys toy_core = toy_keys" by (simp add: toy_core_def)
  have enc: "encode_account_header (toy_sync f) (Some (replicate 12 0)) toy_vault = Inr [1]"
    using f x h(4) by (simp add: encode_account_header_def account_bound_header_def)
  have email: "parse_email toy_keys (ac_email ?a) = Inr (str ''a@b.c'')"
    by (simp add: parse_email_def toy_keys_def str_def trim_def trim_start_def trim_end_def is_whitespace_def to_ascii_lowercase_def
        MAX_EMAIL_LEN_def utf8_len_def)
  let ?p = "\<lparr>pp_account_id = 9, pp_vault_id = 5, pp_email = str ''a@b.c'', pp_secret_key = replicate 16 3, pp_vault_key = replicate 32 4\<rparr>"
  have small: "\<not> MAX_SECRET_KEY_TEXT < length (utf8_bytes (to_text toy_keys (replicate 16 3)))"
    using to_text_short [OF toy_base32_ok, of "replicate 16 3"] by simp
  have em: "utf8_bytes (str ''a@b.c'') \<noteq> []" "\<not> PAYLOAD_MAX_EMAIL_LEN < length (utf8_bytes (str ''a@b.c''))"
    by (simp_all add: utf8_bytes_def utf8_def utf8_char_def str_def PAYLOAD_MAX_EMAIL_LEN_def)
  obtain plain where pl: "encode_payload ?e ?p = Inr plain" "length plain \<le> 1 + 16 + 16 + 32 + 1 + 64 + 2 + 320"
    using small em by (simp add: encode_payload_def k k4 Let_def MAX_SECRET_KEY_TEXT_def PAYLOAD_MAX_EMAIL_LEN_def)
  then obtain e where e: "seal_pairing ?e [] toy_link ?a (replicate 16 3) toy_vault = Inr e"
    using x vk by (simp add: seal_pairing_def seal_payload_def k(2) toy_hpke_def SUITE_def MAX_ENVELOPE_LEN_def)
  have "\<exists>p. open_envelope ?e (replicate 32 8) (pl_server_url toy_link) (pl_pairing_id toy_link) e = Inr p \<and>
    prepare_paired_sign_in ?e [1] p = Inr \<lparr>ps_prepared = \<lparr>pv_header = ?h, pv_vault_key = ss_vault_key x\<rparr>,
      ps_account = \<lparr>ar_id = ac_account_id ?a, ar_email = str ''a@b.c''\<rparr>, ps_secret_key = replicate 16 3\<rparr>"
    by (rule paired_device_gets_vault [where env = ?e and s = toy_vault and h = ?h and n = "replicate 12 0" and a = ?a and l = toy_link,
          THEN conjunct2, OF _ _ _ _ x(1) _ x(4) _ h(2,3) _ _ _ _ _ _ _ e toy_form_ok toy_link_ok])
      (use toy_sync_ok toy_base32_ok toy_hpke_ok toy_vault_inv vk x h enc email in
        \<open>simp_all add: k k4 NONCE_LEN_def SECRET_KEY_LEN_def str_def unicode_scalar_def toy_hpke_def toy_link_def\<close>)
  then show ?thesis using x(1) e by fastforce
qed

end
