(* ===== verification/Interleave.thy ===== *)
theory Interleave
  imports Prelude
begin

text \<open>
  Request handlers that share a database. A handler is a tree of atomic steps: each step is one SQL
  statement outside a transaction, or one whole transaction, and sees the clock and the database as it
  finds them. A server runs any number of handlers, one step of one handler at a time; a handler may
  also stop between two steps, when its connection or its process fails.
\<close>

section \<open>Model\<close>

datatype ('s, 'a) prog = Done 'a | Step "int \<Rightarrow> 's \<Rightarrow> 's \<times> ('s, 'a) prog"

primrec bind :: "('s, 'a) prog \<Rightarrow> ('a \<Rightarrow> ('s, 'b) prog) \<Rightarrow> ('s, 'b) prog" where
  "bind (Done x) g = g x"
| "bind (Step f) g = Step (\<lambda>now s. map_prod id (\<lambda>p. bind p g) (f now s))"

text \<open>The \<^verbatim>\<open>?\<close> of a fallible call: an error ends the handler.\<close>

definition attempt :: "('s, 'e + 'a) prog \<Rightarrow> ('a \<Rightarrow> ('s, 'e + 'b) prog) \<Rightarrow> ('s, 'e + 'b) prog" where
  "attempt p g = bind p (\<lambda>r. case r of Inl e \<Rightarrow> Done (Inl e) | Inr x \<Rightarrow> g x)"

definition pure :: "'e + 'a \<Rightarrow> ('s, 'e + 'a) prog" where
  "pure r = Done r"

definition query :: "(int \<Rightarrow> 's \<Rightarrow> 'a) \<Rightarrow> ('s, 'a) prog" where
  "query f = Step (\<lambda>now s. (s, Done (f now s)))"

definition execute :: "(int \<Rightarrow> 's \<Rightarrow> 's) \<Rightarrow> ('s, 'e + unit) prog" where
  "execute f = Step (\<lambda>now s. (f now s, Done (Inr ())))"

text \<open>A transaction that gives an error is rolled back.\<close>

definition transaction :: "(int \<Rightarrow> 's \<Rightarrow> 'e + 'a \<times> 's) \<Rightarrow> ('s, 'e + 'a) prog" where
  "transaction f = Step (\<lambda>now s. case f now s of Inl e \<Rightarrow> (s, Done (Inl e)) | Inr (x, s') \<Rightarrow> (s', Done (Inr x)))"

text \<open>One handler with the database to itself, its steps at one moment.\<close>

primrec run_alone :: "('s, 'a) prog \<Rightarrow> int \<Rightarrow> 's \<Rightarrow> 'a \<times> 's" where
  "run_alone (Done x) now s = (x, s)"
| "run_alone (Step f) now s = (let r = map_prod id (\<lambda>p. run_alone p) (f now s) in snd r now (fst r))"

text \<open>The server: the clock, the database and the handlers under way.\<close>

inductive serves :: "(('s, unit) prog \<Rightarrow> bool) \<Rightarrow> int \<times> 's \<times> ('s, unit) prog list \<Rightarrow>
    int \<times> 's \<times> ('s, unit) prog list \<Rightarrow> bool" for handler where
  serves_request: "handler p \<Longrightarrow> serves handler (now, s, ps) (now, s, p # ps)"
| serves_step: "f now s = (s', p) \<Longrightarrow> serves handler (now, s, ps @ Step f # qs) (now, s', ps @ p # qs)"
| serves_stop: "serves handler (now, s, ps @ p # qs) (now, s, ps @ qs)"
| serves_time: "now \<le> later \<Longrightarrow> serves handler (now, s, ps) (later, s, ps)"

definition runs :: "(('s, unit) prog \<Rightarrow> bool) \<Rightarrow> 's \<Rightarrow> 's \<Rightarrow> bool" where
  "runs handler s t \<longleftrightarrow> (\<exists>now later ps. (serves handler)\<^sup>*\<^sup>* (now, s, []) (later, t, ps))"

definition answered :: "('s, 'a) prog \<Rightarrow> ('s, unit) prog" where
  "answered p = bind p (\<lambda>_. Done ())"

section \<open>Properties\<close>

lemma prog_steps [case_names Done Step]:
  assumes "\<And>x. P (Done x)" and "\<And>f. (\<And>now s. P (snd (f now s))) \<Longrightarrow> P (Step f)"
  shows "P p"
proof (induction p)
  case (Step f)
  have "P (snd (f now s))" for now s
    by (rule Step [of "f now" "f now s"]) (auto simp: snds.simps)
  then show ?case by (rule assms(2))
qed (rule assms(1))

text \<open>What every step of a handler does to the database.\<close>

primrec steps_ok :: "('s \<Rightarrow> 's \<Rightarrow> bool) \<Rightarrow> ('s, 'a) prog \<Rightarrow> bool" where
  "steps_ok G (Done x) \<longleftrightarrow> True"
| "steps_ok G (Step f) \<longleftrightarrow> (\<forall>now s. G s (fst (f now s)) \<and> snd (map_prod id (steps_ok G) (f now s)))"

named_theorems steps "rules that a handler keeps a relation between the database before and after a step"

lemma steps_Done [steps, intro]: "steps_ok G (Done x)"
  by simp

lemma steps_bind [steps]: "steps_ok G p \<Longrightarrow> (\<And>x. steps_ok G (g x)) \<Longrightarrow> steps_ok G (bind p g)"
  by (induction p rule: prog_steps) simp_all

lemma steps_attempt [steps]: "steps_ok G p \<Longrightarrow> (\<And>x. steps_ok G (g x)) \<Longrightarrow> steps_ok G (attempt p g)"
  unfolding attempt_def by (rule steps_bind) (auto split: sum.splits)

lemma steps_pure [steps]: "steps_ok G (pure r)"
  by (simp add: pure_def)

lemma steps_query [steps]: "(\<And>s. G s s) \<Longrightarrow> steps_ok G (query f)"
  by (simp add: query_def)

lemma steps_execute [steps]: "(\<And>now s. G s (f now s)) \<Longrightarrow> steps_ok G (execute f)"
  by (simp add: execute_def)

lemma steps_transaction [steps]:
  "(\<And>s. G s s) \<Longrightarrow> (\<And>now s x s'. f now s = Inr (x, s') \<Longrightarrow> G s s') \<Longrightarrow> steps_ok G (transaction f)"
  by (auto simp: transaction_def split: sum.splits)

lemma steps_if [steps]: "steps_ok G p \<Longrightarrow> steps_ok G q \<Longrightarrow> steps_ok G (if b then p else q)"
  by simp

lemma steps_Step [steps]:
  "(\<And>now s. G s (fst (f now s))) \<Longrightarrow> (\<And>now s. steps_ok G (snd (f now s))) \<Longrightarrow> steps_ok G (Step f)"
  by simp

lemma steps_Let [steps]: "(\<And>x. steps_ok G (p x)) \<Longrightarrow> steps_ok G (Let m p)"
  by simp

lemma steps_option [steps]: "steps_ok G p \<Longrightarrow> (\<And>x. steps_ok G (q x)) \<Longrightarrow> steps_ok G (case m of None \<Rightarrow> p | Some x \<Rightarrow> q x)"
  by (cases m) simp_all

lemma steps_sum [steps]:
  "(\<And>x. steps_ok G (p x)) \<Longrightarrow> (\<And>x. steps_ok G (q x)) \<Longrightarrow> steps_ok G (case m of Inl x \<Rightarrow> p x | Inr x \<Rightarrow> q x)"
  by (cases m) simp_all

lemma steps_prod [steps]: "(\<And>x y. steps_ok G (p x y)) \<Longrightarrow> steps_ok G (case m of (x, y) \<Rightarrow> p x y)"
  by (cases m) simp

lemma steps_answered [steps]: "steps_ok G p \<Longrightarrow> steps_ok G (answered p)"
  unfolding answered_def by (intro steps)

text \<open>What a handler can answer, whatever it finds, and steps that rely on an earlier answer.\<close>

primrec returns :: "('a \<Rightarrow> bool) \<Rightarrow> ('s, 'a) prog \<Rightarrow> bool" where
  "returns Q (Done x) \<longleftrightarrow> Q x"
| "returns Q (Step f) \<longleftrightarrow> (\<forall>now s. snd (map_prod id (returns Q) (f now s)))"

lemma returns_bind: "returns Q p \<Longrightarrow> (\<And>x. Q x \<Longrightarrow> returns R (g x)) \<Longrightarrow> returns R (bind p g)"
  by (induction p rule: prog_steps) simp_all

lemma returns_any: "returns (\<lambda>_. True) p"
  by (induction p rule: prog_steps) simp_all

lemma returns_attempt:
  "returns (\<lambda>r. case r of Inl e \<Rightarrow> R (Inl e) | Inr x \<Rightarrow> Q x) p \<Longrightarrow> (\<And>x. Q x \<Longrightarrow> returns R (g x)) \<Longrightarrow> returns R (attempt p g)"
  unfolding attempt_def by (erule returns_bind) (auto split: sum.splits)

lemma steps_attempt_returns:
  assumes "steps_ok G p" "returns (\<lambda>r. \<forall>x. r = Inr x \<longrightarrow> Q x) p" "\<And>x. Q x \<Longrightarrow> steps_ok G (g x)"
  shows "steps_ok G (attempt p g)"
  using assms unfolding attempt_def
  by (induction p rule: prog_steps) (auto split: sum.splits)

lemma returns_pure: "returns Q (pure r) \<longleftrightarrow> Q r"
  by (simp add: pure_def)

lemma returns_query: "(\<And>now s. Q (f now s)) \<Longrightarrow> returns Q (query f)"
  by (simp add: query_def)

text \<open>
  One handler with its history: the steps it has taken, each with the time and the database before
  and after. What each step does may depend on the history, and so may what is answered; between two
  steps the database is anything.
\<close>

type_synonym 's steps_taken = "(int \<times> 's \<times> 's) list"

primrec steps_from :: "('s steps_taken \<Rightarrow> int \<Rightarrow> 's \<Rightarrow> 's \<Rightarrow> bool) \<Rightarrow> ('s, 'a) prog \<Rightarrow> 's steps_taken \<Rightarrow> bool" where
  "steps_from G (Done x) h \<longleftrightarrow> True"
| "steps_from G (Step f) h \<longleftrightarrow> (\<forall>now s. G h now s (fst (f now s)) \<and>
     snd (map_prod id (steps_from G) (f now s)) (h @ [(now, s, fst (f now s))]))"

primrec finishes :: "('s steps_taken \<Rightarrow> 'a \<Rightarrow> bool) \<Rightarrow> ('s, 'a) prog \<Rightarrow> 's steps_taken \<Rightarrow> bool" where
  "finishes Q (Done x) h \<longleftrightarrow> Q h x"
| "finishes Q (Step f) h \<longleftrightarrow> (\<forall>now s. snd (map_prod id (finishes Q) (f now s)) (h @ [(now, s, fst (f now s))]))"

lemma steps_from_attempt:
  assumes "steps_from G p h" and "finishes (\<lambda>k r. \<forall>x. r = Inr x \<longrightarrow> Q k x) p h" and "\<And>k x. Q k x \<Longrightarrow> steps_from G (g x) k"
  shows "steps_from G (attempt p g) h"
  using assms unfolding attempt_def
  by (induction p arbitrary: h rule: prog_steps) (auto simp: snd_map_prod split: sum.splits)

lemma finishes_attempt:
  assumes "finishes (\<lambda>k r. case r of Inl e \<Rightarrow> R k (Inl e) | Inr x \<Rightarrow> Q k x) p h" and "\<And>k x. Q k x \<Longrightarrow> finishes R (g x) k"
  shows "finishes R (attempt p g) h"
  using assms unfolding attempt_def
  by (induction p arbitrary: h rule: prog_steps) (auto simp: snd_map_prod split: sum.splits)

text \<open>A handler whose every step keeps a relation leaves a history of such steps.\<close>

definition all_keep :: "('s \<Rightarrow> 's \<Rightarrow> bool) \<Rightarrow> 's steps_taken \<Rightarrow> bool" where
  "all_keep G h \<longleftrightarrow> (\<forall>(now, s, s') \<in> set h. G s s')"

lemma all_keep_append [simp]: "all_keep G (h @ [(now, s, s')]) \<longleftrightarrow> all_keep G h \<and> G s s'"
  by (auto simp: all_keep_def)

lemma steps_from_keep:
  assumes "steps_ok G p" and "\<And>h now s s'. G s s' \<Longrightarrow> H h now s s'"
  shows "steps_from H p h"
  using assms by (induction p arbitrary: h rule: prog_steps) (simp_all add: snd_map_prod)

lemma finishes_keep:
  assumes "steps_ok G p" and "all_keep G h" and "set h0 \<subseteq> set h"
  shows "finishes (\<lambda>k r. all_keep G k \<and> set h0 \<subseteq> set k) p h"
  using assms by (induction p arbitrary: h rule: prog_steps) (simp_all add: snd_map_prod subset_insertI2)

lemma finishes_mono: "finishes Q p h \<Longrightarrow> (\<And>k r. Q k r \<Longrightarrow> R k r) \<Longrightarrow> finishes R p h"
  by (induction p arbitrary: h rule: prog_steps) (simp_all add: snd_map_prod)

lemma attempt_pure: "attempt (pure r) g = (case r of Inl e \<Rightarrow> Done (Inl e) | Inr x \<Rightarrow> g x)"
  by (simp add: attempt_def pure_def)

text \<open>
  A relation that every step of every handler keeps holds between the start and the end of every
  run, however the handlers are interleaved.
\<close>

locale handlers =
  fixes handler :: "('s, unit) prog \<Rightarrow> bool"
    and G :: "'s \<Rightarrow> 's \<Rightarrow> bool"
  assumes G_refl: "G s s"
    and G_trans: "G s t \<Longrightarrow> G t u \<Longrightarrow> G s u"
    and handler_steps: "handler p \<Longrightarrow> steps_ok G p"
begin

lemma serves_keeps:
  assumes "serves handler v w" and "\<forall>p\<in>set (snd (snd v)). steps_ok G p"
  shows "G (fst (snd v)) (fst (snd w)) \<and> (\<forall>p\<in>set (snd (snd w)). steps_ok G p)"
  using assms
proof (induction rule: serves.induct)
  case (serves_request p now s ps)
  then show ?case by (simp add: G_refl handler_steps)
next
  case (serves_step f now s s' p ps qs)
  then have "steps_ok G (Step f)" by simp
  then have "G s s'" "steps_ok G p" using serves_step.hyps by (simp_all add: snd_map_prod) (metis fst_conv snd_conv)+
  then show ?case using serves_step.prems by auto
qed (auto simp: G_refl)

lemma serves_run:
  assumes "(serves handler)\<^sup>*\<^sup>* v w" and "\<forall>p\<in>set (snd (snd v)). steps_ok G p"
  shows "G (fst (snd v)) (fst (snd w)) \<and> (\<forall>p\<in>set (snd (snd w)). steps_ok G p)"
  using assms
proof (induction rule: rtranclp_induct)
  case base
  then show ?case by (simp add: G_refl)
next
  case (step y z)
  then show ?case using serves_keeps [of y z] G_trans by blast
qed

lemma runs_keep: "runs handler s t \<Longrightarrow> G s t"
  unfolding runs_def using serves_run by fastforce

end

lemma runs_refl [simp]: "runs handler s s"
  by (auto simp: runs_def)

lemma run_alone_bind:
  "run_alone (bind p g) now s = (case run_alone p now s of (x, s') \<Rightarrow> run_alone (g x) now s')"
  by (induction p arbitrary: s rule: prog_steps) (simp_all add: Let_def)

lemma run_alone_simps [simp]:
  "run_alone (query f) now s = (f now s, s)"
  "run_alone (execute h) now s = (Inr (), h now s)"
  "run_alone (pure r) now s = (r, s)"
  by (simp_all add: query_def execute_def pure_def)

lemma run_alone_transaction:
  "run_alone (transaction f) now s = (case f now s of Inl e \<Rightarrow> (Inl e, s) | Inr (x, s') \<Rightarrow> (Inr x, s'))"
  by (auto simp: transaction_def split: sum.splits)

lemma run_alone_attempt:
  "run_alone (attempt p g) now s = (case run_alone p now s of (Inl e, s') \<Rightarrow> (Inl e, s') | (Inr x, s') \<Rightarrow> run_alone (g x) now s')"
  unfolding attempt_def run_alone_bind by (auto split: prod.splits sum.splits)

end
