(* ===== verification/Accounts.thy ===== *)
theory Accounts
  imports Interleave Server Keys
begin

text \<open>
  The server's accounts (\<^verbatim>\<open>havenkeys-server\<close>: \<^verbatim>\<open>auth/mod.rs\<close>, \<^verbatim>\<open>auth/rate_limit.rs\<close>, \<^verbatim>\<open>pake.rs\<close>, \<^verbatim>\<open>erase.rs\<close>,
  \<^verbatim>\<open>email.rs\<close>, \<^verbatim>\<open>invite.rs\<close>, \<^verbatim>\<open>routes/auth.rs\<close>, \<^verbatim>\<open>routes/devices.rs\<close>, \<^verbatim>\<open>routes/account.rs\<close>,
  \<^verbatim>\<open>routes/accounts.rs\<close>, \<^verbatim>\<open>routes/signup.rs\<close>, \<^verbatim>\<open>routes/pairings.rs\<close>): who may sign in, what a session is, and how an
  account, a device or a pairing begins and ends.

  The tables are fields of \<open>srv_db\<close>; primary keys, uniqueness and the foreign keys of the migrations are
  written out where a statement could break them (the error is \<^verbatim>\<open>internal\<close>, as for every database error),
  and deleting an account cascades. A handler is a program of \<open>Interleave\<close>, so that other requests may run
  between its statements. Random bytes and identifiers are arguments; OPAQUE, Argon2id, HMAC, the codecs,
  the address parser and the locator are fields of \<open>srv_env\<close>. Times are milliseconds, and the columns of counters do
  not overflow. A request body is the record it is parsed to.
\<close>

section \<open>Model\<close>

subsection \<open>Tables\<close>

datatype account_status = Invited | ActiveAccount | Disabled

datatype Locale = PtBr | En

record srv_account =
  aw_email :: rstring
  aw_status :: account_status
  aw_kdf :: "(int \<times> int \<times> int \<times> bytes) option"
  aw_auth_verifier :: "rstring option"
  aw_opaque_record :: "bytes option"
  aw_legacy_grace_until :: "int option"
  aw_invite_hash :: "bytes option"
  aw_invite_expires_at :: "int option"
  aw_created_at :: int
  aw_created_by_signup :: bool
  aw_terms_version :: "rstring option"
  aw_locale :: "Locale option"

record device_row =
  dw_account_id :: uuid
  dw_name :: rstring
  dw_created_at :: int
  dw_last_seen_at :: "int option"
  dw_revoked_at :: "int option"
  dw_approved_by :: "uuid option"

record session_row =
  sw_account_id :: uuid
  sw_device_id :: uuid
  sw_expires_at :: int

record attempt_row =
  tw_failures :: int
  tw_window_start :: int
  tw_blocked_until :: "int option"

datatype pairing_state = Pending | Approved | Denied | Claimed

record pairing_row =
  gw_state :: pairing_state
  gw_device_id :: uuid
  gw_device_name :: rstring
  gw_claim_hash :: bytes
  gw_ip :: rstring
  gw_location :: "rstring option"
  gw_created_at :: int
  gw_expires_at :: int
  gw_account_id :: "uuid option"
  gw_envelope :: "bytes option"

datatype pending_purpose = Login | Reauth

record pending_row =
  nw_purpose :: pending_purpose
  nw_account_id :: "uuid option"
  nw_state :: bytes
  nw_expires_at :: int

record code_row =
  cw_code_hash :: bytes
  cw_locale :: Locale
  cw_terms_version :: rstring
  cw_expires_at :: int
  cw_attempts :: int

record srv_db =
  t_accounts :: "(uuid, srv_account) table"
  t_vaults :: "(uuid, uuid \<times> vault_row) table"
  t_devices :: "(uuid, device_row) table"
  t_sessions :: "(bytes, session_row) table"
  t_attempts :: "(rstring, attempt_row) table"
  t_pairings :: "(rstring, pairing_row) table"
  t_deleted_sessions :: "(bytes, int) table"
  t_deleted_devices :: "(bytes, int) table"
  t_pending :: "(bytes, pending_row) table"
  t_codes :: "(rstring, code_row) table"
  t_billing :: billing_db

datatype ip_addr = V4 byte byte byte byte | V6 "u16 list"

record srv_env =
  sv_keys :: key_env
  sv_hmac :: "bytes \<Rightarrow> bytes \<Rightarrow> bytes"
  sv_b64 :: "bytes \<Rightarrow> rstring"
  sv_unb64 :: "rstring \<Rightarrow> bytes option"
  sv_b64url :: "bytes \<Rightarrow> rstring"
  sv_unb64url :: "rstring \<Rightarrow> bytes option"
  sv_is_format :: "rchar \<Rightarrow> bool"
  sv_parse_ip :: "rstring \<Rightarrow> ip_addr option"
  sv_locate :: "rstring \<Rightarrow> rstring option"
  sv_argon_verify :: "rstring \<Rightarrow> bytes \<Rightarrow> bool"
  sv_argon_hash :: "bytes \<Rightarrow> bytes \<Rightarrow> rstring option"
  sv_dummy_verifier :: rstring
  sv_login_start :: "bytes option \<Rightarrow> bytes \<Rightarrow> bytes \<Rightarrow> bytes \<Rightarrow> (bytes \<times> bytes) option"
  sv_login_finish :: "bytes \<Rightarrow> bytes \<Rightarrow> bool"
  sv_register :: "bytes \<Rightarrow> bytes \<Rightarrow> bytes option"
  sv_record_from_upload :: "bytes \<Rightarrow> bytes option"
  sv_invite_json :: "rstring \<Rightarrow> rstring \<Rightarrow> uuid \<Rightarrow> rstring \<Rightarrow> bytes"
  sv_invite_unjson :: "bytes \<Rightarrow> (rstring \<times> rstring \<times> uuid \<times> rstring) option"
  server_secret :: bytes
  trust_forwarded_for :: bool
  legacy_auth_until :: "int option"
  has_mailer :: bool
  signup_url :: "rstring option"

abbreviation srv_sha256 :: "srv_env \<Rightarrow> bytes \<Rightarrow> bytes" where
  "srv_sha256 env \<equiv> sha256 (ke_crypto (sv_keys env))"

type_synonym 'a handler = "(srv_db, ApiError + 'a) prog"

subsection \<open>Limits\<close>

definition SECOND :: int where "SECOND = 1000"
definition MINUTE :: int where "MINUTE = 60 * SECOND"
definition HOUR :: int where "HOUR = 60 * MINUTE"
definition DAY :: int where "DAY = 24 * HOUR"

definition MAX_HEADER_BYTES_srv :: nat where "MAX_HEADER_BYTES_srv = 64 * 1024"
definition MAX_DEVICES_PER_ACCOUNT :: nat where "MAX_DEVICES_PER_ACCOUNT = 64"
definition SESSION_TTL_HOURS :: int where "SESSION_TTL_HOURS = 24"
definition MAX_DEVICE_NAME_CHARS :: nat where "MAX_DEVICE_NAME_CHARS = 64"
definition PAIRING_TTL_SECONDS :: int where "PAIRING_TTL_SECONDS = 120"
definition PAIRING_MAX_AGE_MINUTES :: int where "PAIRING_MAX_AGE_MINUTES = 10"
definition PAIRINGS_PER_IP :: nat where "PAIRINGS_PER_IP = 10"
definition PENDING_PAIRINGS_PER_IP :: nat where "PENDING_PAIRINGS_PER_IP = 3"
definition MAX_PAIRING_ENVELOPE_BYTES :: nat where "MAX_PAIRING_ENVELOPE_BYTES = 4096"

subsection \<open>Rate limits\<close>

definition MAX_FAILURES :: int where "MAX_FAILURES = 5"
definition WINDOW_MINUTES :: int where "WINDOW_MINUTES = 15"

definition block_seconds :: "int \<Rightarrow> int" where
  "block_seconds failures = (if failures \<le> 5 then 60 else if failures \<le> 9 then 5 * 60 else 30 * 60)"

definition blocked :: "rstring \<Rightarrow> int \<Rightarrow> srv_db \<Rightarrow> bool" where
  "blocked k now db = (case get (t_attempts db) k of
     Some r \<Rightarrow> (case tw_blocked_until r of Some t \<Rightarrow> now < t | None \<Rightarrow> False)
   | None \<Rightarrow> False)"

definition rate_check :: "rstring \<Rightarrow> unit handler" where
  "rate_check k = query (\<lambda>now db. ensure (\<not> blocked k now db) RateLimited)"

definition window_over :: "int \<Rightarrow> int \<Rightarrow> attempt_row \<Rightarrow> bool" where
  "window_over minutes now r \<longleftrightarrow> tw_window_start r < now - minutes * MINUTE"

definition fresh_attempt :: "int \<Rightarrow> int \<Rightarrow> attempt_row" where
  "fresh_attempt failures now = \<lparr>tw_failures = failures, tw_window_start = now, tw_blocked_until = None\<rparr>"

definition count_failure :: "int \<Rightarrow> int \<Rightarrow> attempt_row \<Rightarrow> attempt_row" where
  "count_failure minutes now r = (if window_over minutes now r
     then r\<lparr>tw_failures := 1, tw_window_start := now\<rparr> else r\<lparr>tw_failures := tw_failures r + 1\<rparr>)"

definition arm_block :: "int \<Rightarrow> attempt_row \<Rightarrow> attempt_row" where
  "arm_block now r = (if MAX_FAILURES \<le> tw_failures r
     then r\<lparr>tw_blocked_until := Some (now + block_seconds (tw_failures r) * SECOND)\<rparr> else r)"

text \<open>Two statements: the count, and the block when the count asks for one.\<close>

definition failure_row :: "int \<Rightarrow> attempt_row option \<Rightarrow> attempt_row" where
  "failure_row now m = (case m of
     None \<Rightarrow> fresh_attempt 1 now
   | Some r \<Rightarrow> if window_over WINDOW_MINUTES now r then fresh_attempt 1 now else r\<lparr>tw_failures := tw_failures r + 1\<rparr>)"

definition put_attempt :: "rstring \<Rightarrow> attempt_row \<Rightarrow> srv_db \<Rightarrow> srv_db" where
  "put_attempt k r db = db\<lparr>t_attempts := put k r (t_attempts db)\<rparr>"

definition record_failure :: "rstring \<Rightarrow> unit handler" where
  "record_failure k =
     bind (Step (\<lambda>now db. let r = failure_row now (get (t_attempts db) k) in (put_attempt k r db, Done (tw_failures r)))) (\<lambda>failures.
     if MAX_FAILURES \<le> failures
     then execute (\<lambda>now db. case get (t_attempts db) k of
         None \<Rightarrow> db
       | Some r \<Rightarrow> put_attempt k (r\<lparr>tw_blocked_until := Some (now + block_seconds failures * SECOND)\<rparr>) db)
     else Done (Inr ()))"

definition clear_attempts :: "rstring \<Rightarrow> unit handler" where
  "clear_attempts k = execute (\<lambda>now db. db\<lparr>t_attempts := drop_key k (t_attempts db)\<rparr>)"

definition hex_char :: "nat \<Rightarrow> rchar" where
  "hex_char n = (if n < 10 then 48 + n else 87 + n)"

definition hex_byte :: "byte \<Rightarrow> rstring" where
  "hex_byte b = [hex_char (unat b div 16), hex_char (unat b mod 16)]"

text \<open>\<^verbatim>\<open>{:x}\<close> of a 16-bit number, and \<^verbatim>\<open>{}\<close> of a byte: no leading zeros.\<close>

definition hex_u16 :: "u16 \<Rightarrow> rstring" where
  "hex_u16 w = (let n = unat w; ds = map hex_char [n div 4096, n div 256 mod 16, n div 16 mod 16, n mod 16];
      t = dropWhile (\<lambda>c. c = 48) ds in if t = [] then [48] else t)"

definition dec_byte :: "byte \<Rightarrow> rstring" where
  "dec_byte b = (let n = unat b; ds = [48 + n div 100, 48 + n div 10 mod 10, 48 + n mod 10];
      t = dropWhile (\<lambda>c. c = 48) ds in if t = [] then [48] else t)"

definition v4_text :: "byte \<Rightarrow> byte \<Rightarrow> byte \<Rightarrow> byte \<Rightarrow> rstring" where
  "v4_text a b c d = dec_byte a @ [46] @ dec_byte b @ [46] @ dec_byte c @ [46] @ dec_byte d"

definition ip_key :: "srv_env \<Rightarrow> rstring \<Rightarrow> rstring" where
  "ip_key env ip = str ''ip:'' @ (case sv_parse_ip env ip of
     Some (V6 s) \<Rightarrow>
       if take 6 s = [0, 0, 0, 0, 0, 0xFFFF]
       then v4_text (ucast (drop_bit 8 (s ! 6))) (ucast (s ! 6)) (ucast (drop_bit 8 (s ! 7))) (ucast (s ! 7))
       else hex_u16 (s ! 0) @ [58] @ hex_u16 (s ! 1) @ [58] @ hex_u16 (s ! 2) @ [58] @ hex_u16 (s ! 3) @ str ''::/64''
   | _ \<Rightarrow> ip)"

definition uuid_text :: "uuid \<Rightarrow> rstring" where
  "uuid_text u = (let h = concat (map hex_byte (uuid_bytes u)) in
     take 8 h @ [45] @ take 4 (drop 8 h) @ [45] @ take 4 (drop 12 h) @ [45] @ take 4 (drop 16 h) @ [45] @ drop 20 h)"

record attempt_keys =
  ak_account :: rstring
  ak_ip :: rstring

definition account_key :: "uuid \<Rightarrow> rstring" where
  "account_key a = str ''acct:'' @ uuid_text a"

definition new_attempt_keys :: "srv_env \<Rightarrow> uuid \<Rightarrow> rstring \<Rightarrow> attempt_keys" where
  "new_attempt_keys env a ip = \<lparr>ak_account = account_key a, ak_ip = ip_key env ip\<rparr>"

definition touch_attempt :: "int \<Rightarrow> rstring \<Rightarrow> srv_db \<Rightarrow> srv_db" where
  "touch_attempt now k db = (if has_key (t_attempts db) k then db else put_attempt k (fresh_attempt 0 now) db)"

definition spend_attempt :: "int \<Rightarrow> rstring \<Rightarrow> srv_db \<Rightarrow> srv_db" where
  "spend_attempt now k db = (case get (t_attempts db) k of
     None \<Rightarrow> db
   | Some r \<Rightarrow> put_attempt k (arm_block now (count_failure WINDOW_MINUTES now r)) db)"

definition charge_tx :: "attempt_keys \<Rightarrow> int \<Rightarrow> srv_db \<Rightarrow> ApiError + unit \<times> srv_db" where
  "charge_tx ks now db =
     (let db1 = touch_attempt now (ak_ip ks) (touch_attempt now (ak_account ks) db) in
      if blocked (ak_account ks) now db1 \<or> blocked (ak_ip ks) now db1 then Inl RateLimited
      else Inr ((), spend_attempt now (ak_ip ks) (spend_attempt now (ak_account ks) db1)))"

definition charge :: "attempt_keys \<Rightarrow> unit handler" where
  "charge ks = transaction (charge_tx ks)"

definition clear_keys :: "attempt_keys \<Rightarrow> unit handler" where
  "clear_keys ks = attempt (clear_attempts (ak_account ks)) (\<lambda>_. clear_attempts (ak_ip ks))"

definition charge_window :: "rstring \<Rightarrow> int \<Rightarrow> int \<Rightarrow> unit handler" where
  "charge_window k max_events minutes = Step (\<lambda>now db.
     let r = (case get (t_attempts db) k of None \<Rightarrow> fresh_attempt 1 now | Some r \<Rightarrow> count_failure minutes now r)
     in (put_attempt k r db, Done (ensure (\<not> max_events < tw_failures r) RateLimited)))"

definition over_window :: "rstring \<Rightarrow> int \<Rightarrow> int \<Rightarrow> unit handler" where
  "over_window k max_events minutes = query (\<lambda>now db.
     ensure (\<not> (case get (t_attempts db) k of None \<Rightarrow> False
       | Some r \<Rightarrow> max_events \<le> tw_failures r \<and> now - minutes * MINUTE \<le> tw_window_start r)) RateLimited)"

subsection \<open>Addresses and names\<close>

definition normalize :: "srv_env \<Rightarrow> rstring \<Rightarrow> string + rstring" where
  "normalize env raw =
     (let bad = ''email address is not valid''; n = to_lowercase (sv_keys env) (nfc (sv_keys env) (trim raw)) in
      if n = [] \<or> MAX_EMAIL_LEN < str_len n then Inl bad
      else if list_ex is_whitespace n then Inl bad
      else let parts = split_at 64 n;
               local = (case parts of [] \<Rightarrow> [] | x # _ \<Rightarrow> x);
               domain = (case parts of _ # y # _ \<Rightarrow> y | _ \<Rightarrow> [])
           in if local = [] \<or> domain = [] \<or> 2 < length parts then Inl bad else Inr n)"

text \<open>The sign-in routes do not say that an address is not one.\<close>

definition sign_in_email :: "srv_env \<Rightarrow> rstring \<Rightarrow> rstring" where
  "sign_in_email env raw = (case normalize env raw of Inr e \<Rightarrow> e | Inl _ \<Rightarrow> trim raw)"

definition without_format_chars :: "srv_env \<Rightarrow> rstring \<Rightarrow> rstring" where
  "without_format_chars env s = filter (\<lambda>c. \<not> sv_is_format env c) s"

definition clean_device_name :: "srv_env \<Rightarrow> rstring \<Rightarrow> ApiError + rstring" where
  "clean_device_name env raw =
     (let bad = ApiInvalidRequest ''deviceName is not valid''; name = trim (without_format_chars env raw) in
      if name = [] \<or> MAX_DEVICE_NAME_CHARS < length name then Inl bad
      else if list_ex is_control name then Inl bad else Inr name)"

definition client_ip :: "srv_env \<Rightarrow> rstring option \<Rightarrow> rstring \<Rightarrow> rstring" where
  "client_ip env forwarded peer =
     (case (if trust_forwarded_for env then forwarded else None) of
        None \<Rightarrow> peer
      | Some v \<Rightarrow> let first = trim (hd (split_at 44 v)) in if first \<noteq> [] \<and> str_len first \<le> 64 then first else peer)"

subsection \<open>Keys and sessions\<close>

definition AUTH_KEY_LEN_srv :: nat where "AUTH_KEY_LEN_srv = 32"

definition decode_auth_key :: "srv_env \<Rightarrow> rstring \<Rightarrow> ApiError + bytes" where
  "decode_auth_key env raw =
     (let bad = ApiInvalidRequest ''authKey is not valid'' in
      if 64 < str_len raw then Inl bad
      else and_then (ok_or bad (sv_unb64 env raw)) (\<lambda>b. if length b \<noteq> AUTH_KEY_LEN_srv then Inl bad else Inr b))"

definition hash_auth_key :: "srv_env \<Rightarrow> bytes \<Rightarrow> bytes \<Rightarrow> ApiError + rstring" where
  "hash_auth_key env rnd key = ok_or ApiInternal (sv_argon_hash env rnd key)"

text \<open>The first argument tells whether a slot for the check came free in time.\<close>

definition verify_auth_key :: "srv_env \<Rightarrow> bool \<Rightarrow> rstring \<Rightarrow> bytes \<Rightarrow> ApiError + bool" where
  "verify_auth_key env slot stored key = (if \<not> slot then Inl Unavailable else Inr (sv_argon_verify env stored key))"

definition token_hash :: "srv_env \<Rightarrow> rstring \<Rightarrow> bytes" where
  "token_hash env raw = srv_sha256 env (utf8_bytes raw)"

definition issue_token :: "srv_env \<Rightarrow> bytes \<Rightarrow> uuid \<Rightarrow> uuid \<Rightarrow> int \<Rightarrow> srv_db \<Rightarrow> ApiError + (rstring \<times> int) \<times> srv_db" where
  "issue_token env rnd a d now db =
     (let token = sv_b64url env rnd; expires = now + SESSION_TTL_HOURS * HOUR; h = token_hash env token in
      if has_key (t_sessions db) h \<or> \<not> has_key (t_accounts db) a \<or> \<not> has_key (t_devices db) d then Inl ApiInternal
      else Inr ((token, expires), db\<lparr>t_sessions := put h \<lparr>sw_account_id = a, sw_device_id = d, sw_expires_at = expires\<rparr> (t_sessions db)\<rparr>))"

record auth_session = server_session +
  ses_token_hash :: bytes

definition vault_of :: "srv_db \<Rightarrow> uuid \<Rightarrow> uuid option" where
  "vault_of db a = map_option fst (find (\<lambda>(v, (owner, _)). owner = a) (t_vaults db))"

definition live_session :: "bytes \<Rightarrow> int \<Rightarrow> srv_db \<Rightarrow> auth_session option" where
  "live_session h now db = (case get (t_sessions db) h of
     None \<Rightarrow> None
   | Some s \<Rightarrow> (case (get (t_accounts db) (sw_account_id s), get (t_devices db) (sw_device_id s), vault_of db (sw_account_id s)) of
       (Some a, Some d, Some v) \<Rightarrow>
         if now < sw_expires_at s \<and> aw_status a = ActiveAccount \<and> dw_revoked_at d = None
         then let sub = load_subscription (sw_account_id s) (t_billing db) in
           Some \<lparr>ses_account_id = sw_account_id s, ses_device_id = sw_device_id s, ses_vault_id = v, ses_subscription = sub,
             ses_entitlement = entitlement_of sub now, ses_token_hash = h\<rparr>
         else None
     | _ \<Rightarrow> None))"

definition seen :: "uuid \<Rightarrow> int \<Rightarrow> srv_db \<Rightarrow> srv_db" where
  "seen d now db = (case get (t_devices db) d of
     None \<Rightarrow> db | Some r \<Rightarrow> db\<lparr>t_devices := put d (r\<lparr>dw_last_seen_at := Some now\<rparr>) (t_devices db)\<rparr>)"

text \<open>The session of a request, from its \<^verbatim>\<open>Authorization\<close> header.\<close>

definition authenticate :: "srv_env \<Rightarrow> rstring option \<Rightarrow> auth_session handler" where
  "authenticate env authorization =
     (case and_then (ok_or ApiUnauthorized (Option.bind authorization (strip_prefix (str ''Bearer '')))) (\<lambda>raw.
        if raw = [] \<or> 128 < str_len raw then Inl ApiUnauthorized else Inr (token_hash env raw)) of
      Inl e \<Rightarrow> Done (Inl e)
    | Inr h \<Rightarrow>
        bind (query (live_session h)) (\<lambda>found. case found of
          None \<Rightarrow> query (\<lambda>now db. case get (t_deleted_sessions db) h of
              Some t \<Rightarrow> if now < t then Inl AccountDeleted else Inl ApiUnauthorized
            | None \<Rightarrow> Inl ApiUnauthorized)
        | Some ses \<Rightarrow> attempt (execute (seen (ses_device_id ses))) (\<lambda>_. Done (Inr ses))))"

subsection \<open>Half-finished OPAQUE exchanges\<close>

definition PENDING_TTL_SECONDS :: int where "PENDING_TTL_SECONDS = 60"
definition MAX_MESSAGE_BYTES_srv :: nat where "MAX_MESSAGE_BYTES_srv = 512"

definition legacy_allowed :: "srv_env \<Rightarrow> int option \<Rightarrow> int \<Rightarrow> ApiError + unit" where
  "legacy_allowed env grace now = (case legacy_auth_until env of
     Some t \<Rightarrow> if t \<le> now \<and> \<not> (case grace of Some g \<Rightarrow> now < g | None \<Rightarrow> False) then Inl UpgradeRequired else Inr ()
   | None \<Rightarrow> Inr ())"

definition decode_message :: "srv_env \<Rightarrow> rstring \<Rightarrow> ApiError + bytes" where
  "decode_message env raw =
     (let bad = ApiInvalidRequest ''message is not valid'' in
      if raw = [] \<or> (MAX_MESSAGE_BYTES_srv + 2) div 3 * 4 < str_len raw then Inl bad else ok_or bad (sv_unb64 env raw))"

definition id_hash :: "srv_env \<Rightarrow> rstring \<Rightarrow> bytes" where
  "id_hash env u = srv_sha256 env (utf8_bytes u)"

definition put_pending :: "srv_env \<Rightarrow> bytes \<Rightarrow> pending_purpose \<Rightarrow> uuid option \<Rightarrow> bytes \<Rightarrow> rstring handler" where
  "put_pending env rnd why a st =
     transaction (\<lambda>now db.
       let u = sv_b64url env rnd; h = id_hash env u in
       if has_key (t_pending db) h \<or> (case a of Some x \<Rightarrow> \<not> has_key (t_accounts db) x | None \<Rightarrow> False) then Inl ApiInternal
       else Inr (u, db\<lparr>t_pending := put h \<lparr>nw_purpose = why, nw_account_id = a, nw_state = st,
         nw_expires_at = now + PENDING_TTL_SECONDS * SECOND\<rparr> (t_pending db)\<rparr>))"

definition take_pending :: "srv_env \<Rightarrow> pending_purpose \<Rightarrow> rstring \<Rightarrow> (uuid option \<times> bytes) option handler" where
  "take_pending env why u =
     (if 64 < str_len u then Done (Inr None)
      else Step (\<lambda>now db. case get (t_pending db) (id_hash env u) of
        Some r \<Rightarrow> if nw_purpose r = why \<and> now < nw_expires_at r
          then (db\<lparr>t_pending := drop_key (id_hash env u) (t_pending db)\<rparr>, Done (Inr (Some (nw_account_id r, nw_state r))))
          else (db, Done (Inr None))
      | None \<Rightarrow> (db, Done (Inr None))))"

subsection \<open>Devices\<close>

definition existing_device :: "uuid \<Rightarrow> srv_db \<Rightarrow> (uuid \<times> bool) option" where
  "existing_device d db = map_option (\<lambda>r. (dw_account_id r, dw_revoked_at r \<noteq> None)) (get (t_devices db) d)"

definition rename_device :: "uuid \<Rightarrow> rstring \<Rightarrow> int \<Rightarrow> srv_db \<Rightarrow> srv_db" where
  "rename_device d name now db = (case get (t_devices db) d of
     None \<Rightarrow> db
   | Some r \<Rightarrow> db\<lparr>t_devices := put d (r\<lparr>dw_name := name, dw_last_seen_at := Some now\<rparr>) (t_devices db)\<rparr>)"

definition device_count :: "uuid \<Rightarrow> srv_db \<Rightarrow> nat" where
  "device_count a db = length (filter (\<lambda>(_, r). dw_account_id r = a \<and> dw_revoked_at r = None) (t_devices db))"

definition TOO_MANY_DEVICES :: ApiError where
  "TOO_MANY_DEVICES = ApiInvalidRequest ''this account has too many devices; revoke one first''"

definition insert_device :: "uuid \<Rightarrow> uuid \<Rightarrow> rstring \<Rightarrow> int \<Rightarrow> srv_db \<Rightarrow> ApiError + unit \<times> srv_db" where
  "insert_device a d name now db =
     (if has_key (t_devices db) d \<or> \<not> has_key (t_accounts db) a then Inl ApiInternal
      else Inr ((), db\<lparr>t_devices := put d \<lparr>dw_account_id = a, dw_name = name, dw_created_at = now, dw_last_seen_at = Some now,
        dw_revoked_at = None, dw_approved_by = None\<rparr> (t_devices db)\<rparr>))"

definition register_device :: "uuid \<Rightarrow> uuid \<Rightarrow> rstring \<Rightarrow> unit handler" where
  "register_device a d name =
     bind (query (\<lambda>_. existing_device d)) (\<lambda>existing. case existing of
       Some (owner, revoked) \<Rightarrow>
         if owner \<noteq> a \<or> revoked then Done (Inl ApiUnauthorized) else execute (rename_device d name)
     | None \<Rightarrow> bind (query (\<lambda>_. device_count a)) (\<lambda>n.
         if MAX_DEVICES_PER_ACCOUNT \<le> n then Done (Inl TOO_MANY_DEVICES) else transaction (insert_device a d name)))"

text \<open>The same statements inside the caller's transaction.\<close>

definition register_device_tx :: "uuid \<Rightarrow> uuid \<Rightarrow> rstring \<Rightarrow> int \<Rightarrow> srv_db \<Rightarrow> ApiError + unit \<times> srv_db" where
  "register_device_tx a d name now db = (case existing_device d db of
     Some (owner, revoked) \<Rightarrow>
       if owner \<noteq> a \<or> revoked then Inl ApiUnauthorized else Inr ((), rename_device d name now db)
   | None \<Rightarrow> if MAX_DEVICES_PER_ACCOUNT \<le> device_count a db then Inl TOO_MANY_DEVICES else insert_device a d name now db)"

record device_out =
  do_id :: uuid
  do_name :: rstring
  do_created_at :: int
  do_last_seen_at :: "int option"
  do_current :: bool
  do_approved_by :: "uuid option"

definition list_devices :: "auth_session \<Rightarrow> device_out list handler" where
  "list_devices ses = query (\<lambda>now db. Inr (map (\<lambda>(d, r). \<lparr>do_id = d, do_name = dw_name r, do_created_at = dw_created_at r,
       do_last_seen_at = dw_last_seen_at r, do_current = (d = ses_device_id ses), do_approved_by = dw_approved_by r\<rparr>)
     (sort_key (\<lambda>(d, r). dw_created_at r)
       (filter (\<lambda>(d, r). dw_account_id r = ses_account_id ses \<and> dw_revoked_at r = None) (t_devices db)))))"

definition drop_sessions :: "(bytes \<Rightarrow> session_row \<Rightarrow> bool) \<Rightarrow> srv_db \<Rightarrow> srv_db" where
  "drop_sessions P db = db\<lparr>t_sessions := filter (\<lambda>(h, s). \<not> P h s) (t_sessions db)\<rparr>"

definition revoke :: "auth_session \<Rightarrow> uuid \<Rightarrow> unit handler" where
  "revoke ses d = transaction (\<lambda>now db. case get (t_devices db) d of
     Some r \<Rightarrow> if dw_account_id r = ses_account_id ses \<and> dw_revoked_at r = None
       then Inr ((), drop_sessions (\<lambda>_ s. sw_device_id s = d)
         (db\<lparr>t_devices := put d (r\<lparr>dw_revoked_at := Some now\<rparr>) (t_devices db)\<rparr>))
       else Inl ApiNotFound
   | None \<Rightarrow> Inl ApiNotFound)"

subsection \<open>Signing in\<close>

definition decoy :: "srv_env \<Rightarrow> string \<Rightarrow> rstring \<Rightarrow> bytes" where
  "decoy env domain email = (case hkdf (sv_keys env) (Some (byte_str domain)) (server_secret env) (utf8_bytes email) 32 of
     Some b \<Rightarrow> b | None \<Rightarrow> [])"

definition decoy_account :: "srv_env \<Rightarrow> rstring \<Rightarrow> uuid" where
  "decoy_account env email = of_nat (be_value (take 16 (decoy env ''havenkeys/params/account'' email)))"

definition decoy_salt :: "srv_env \<Rightarrow> rstring \<Rightarrow> bytes" where
  "decoy_salt env email = take 16 (decoy env ''havenkeys/params/salt'' email)"

definition DEFAULT_KDF :: "int \<times> int \<times> int" where
  "DEFAULT_KDF = (128 * 1024, 4, 4)"

definition active_account :: "rstring \<Rightarrow> srv_db \<Rightarrow> (uuid \<times> srv_account) option" where
  "active_account email db = find (\<lambda>(a, r). aw_email r = email \<and> aw_status r = ActiveAccount) (t_accounts db)"

record params_out =
  po_account_id :: uuid
  po_memory_kib :: int
  po_iterations :: int
  po_parallelism :: int
  po_salt :: bytes

definition params :: "srv_env \<Rightarrow> rstring \<Rightarrow> params_out handler" where
  "params env raw_email = (let email = sign_in_email env raw_email in query (\<lambda>now db. Inr (case active_account email db of
     Some (a, r) \<Rightarrow> (case aw_kdf r of
         Some (m, t, p, slt) \<Rightarrow> \<lparr>po_account_id = a, po_memory_kib = m, po_iterations = t, po_parallelism = p, po_salt = slt\<rparr>
       | None \<Rightarrow> \<lparr>po_account_id = a, po_memory_kib = fst DEFAULT_KDF, po_iterations = fst (snd DEFAULT_KDF),
           po_parallelism = snd (snd DEFAULT_KDF), po_salt = decoy_salt env email\<rparr>)
   | None \<Rightarrow> \<lparr>po_account_id = decoy_account env email, po_memory_kib = fst DEFAULT_KDF, po_iterations = fst (snd DEFAULT_KDF),
       po_parallelism = snd (snd DEFAULT_KDF), po_salt = decoy_salt env email\<rparr>)))"

definition TOMBSTONE_DAYS :: int where "TOMBSTONE_DAYS = 30"

definition device_hash :: "srv_env \<Rightarrow> uuid \<Rightarrow> bytes" where
  "device_hash env d = srv_sha256 env (uuid_bytes d)"

definition was_deleted_device :: "srv_env \<Rightarrow> uuid \<Rightarrow> int \<Rightarrow> srv_db \<Rightarrow> bool" where
  "was_deleted_device env d now db = (case get (t_deleted_devices db) (device_hash env d) of Some t \<Rightarrow> now < t | None \<Rightarrow> False)"

record login_out =
  lo_token :: rstring
  lo_expires_at :: int
  lo_vault_id :: uuid
  lo_account :: account_info

definition complete_login :: "srv_env \<Rightarrow> bytes \<Rightarrow> attempt_keys \<Rightarrow> uuid \<Rightarrow> uuid \<Rightarrow> rstring \<Rightarrow> login_out handler" where
  "complete_login env rnd ks a d name =
     attempt (query (\<lambda>now db. ok_or ApiUnauthorized (vault_of db a))) (\<lambda>v.
     attempt (clear_keys ks) (\<lambda>_.
     bind (query (\<lambda>now db. (load_subscription a (t_billing db), now))) (\<lambda>(sub, now).
     bind (query (\<lambda>_ db. existing_device d db = Some (a, False))) (\<lambda>known.
     if \<not> known \<and> entitlement_of sub now = PlanFrozen then Done (Inl AccountFrozen)
     else
       attempt (register_device a d name) (\<lambda>_.
       attempt (execute (\<lambda>_. drop_sessions (\<lambda>_ s. sw_device_id s = d))) (\<lambda>_.
       attempt (transaction (issue_token env rnd a d)) (\<lambda>(token, expires).
       Done (Inr \<lparr>lo_token = token, lo_expires_at = expires, lo_vault_id = v, lo_account = account_json sub now\<rparr>))))))))"

definition login :: "srv_env \<Rightarrow> bytes \<Rightarrow> bool \<Rightarrow> rstring \<Rightarrow> rstring \<Rightarrow> rstring \<Rightarrow> uuid \<Rightarrow> rstring \<Rightarrow> login_out handler" where
  "login env rnd slot ip raw_email auth_key d device_name =
     (let email = sign_in_email env raw_email in
      attempt (pure (decode_auth_key env auth_key)) (\<lambda>key.
      attempt (pure (clean_device_name env device_name)) (\<lambda>name.
      bind (query (\<lambda>_. active_account email)) (\<lambda>row.
      attempt (query (\<lambda>now _. legacy_allowed env (Option.bind row (\<lambda>r. aw_legacy_grace_until (snd r))) now)) (\<lambda>_.
      let a = (case row of Some (x, _) \<Rightarrow> x | None \<Rightarrow> decoy_account env email); ks = new_attempt_keys env a ip in
      attempt (charge ks) (\<lambda>_.
      let verifier = (case Option.bind row (\<lambda>r. aw_auth_verifier (snd r)) of Some v \<Rightarrow> v | None \<Rightarrow> sv_dummy_verifier env) in
      attempt (pure (verify_auth_key env slot verifier key)) (\<lambda>ok.
      if ok \<and> row \<noteq> None then complete_login env rnd ks a d name
      else query (\<lambda>now db. if row = None \<and> was_deleted_device env d now db then Inl AccountDeleted else Inl ApiUnauthorized))))))))"

definition pake_start ::
  "srv_env \<Rightarrow> bytes \<Rightarrow> bytes \<Rightarrow> rstring \<Rightarrow> rstring \<Rightarrow> rstring \<Rightarrow> uuid \<Rightarrow> (rstring \<times> bytes) handler" where
  "pake_start env rnd rnd2 ip raw_email credential_request d =
     (let email = sign_in_email env raw_email in
      attempt (pure (decode_message env credential_request)) (\<lambda>request.
      bind (query (\<lambda>_. active_account email)) (\<lambda>row.
      let a = (case row of Some (x, _) \<Rightarrow> x | None \<Rightarrow> decoy_account env email) in
      attempt (charge (new_attempt_keys env a ip)) (\<lambda>_.
      bind (query (was_deleted_device env d)) (\<lambda>deleted.
      if row = None \<and> deleted then Done (Inl AccountDeleted)
      else attempt (pure (ok_or (ApiInvalidRequest ''message is not valid'')
             (sv_login_start env (Option.bind row (\<lambda>r. aw_opaque_record (snd r))) request (uuid_bytes a) rnd2))) (\<lambda>(pending, response).
           attempt (put_pending env rnd Login (map_option fst row) pending) (\<lambda>u. Done (Inr (u, response)))))))))"

definition pake_finish ::
  "srv_env \<Rightarrow> bytes \<Rightarrow> rstring \<Rightarrow> rstring \<Rightarrow> rstring \<Rightarrow> uuid \<Rightarrow> rstring \<Rightarrow> login_out handler" where
  "pake_finish env rnd ip login_id credential_finalization d device_name =
     attempt (pure (decode_message env credential_finalization)) (\<lambda>finalization.
     attempt (pure (clean_device_name env device_name)) (\<lambda>name.
     attempt (take_pending env Login login_id) (\<lambda>taken.
     case (case taken of Some (Some a, pending) \<Rightarrow> if sv_login_finish env pending finalization then Some a else None | _ \<Rightarrow> None) of
       Some a \<Rightarrow> complete_login env rnd (new_attempt_keys env a ip) a d name
     | None \<Rightarrow> query (\<lambda>now db. if was_deleted_device env d now db then Inl AccountDeleted else Inl ApiUnauthorized))))"

definition logout :: "auth_session \<Rightarrow> unit handler" where
  "logout ses = execute (\<lambda>_ db. db\<lparr>t_sessions := drop_key (ses_token_hash ses) (t_sessions db)\<rparr>)"

section \<open>Properties\<close>

subsection \<open>Concrete values\<close>

definition toy_srv :: srv_env where
  "toy_srv = \<lparr>sv_keys = toy_keys\<lparr>ke_crypto := plain_crypto\<lparr>sha256 := (\<lambda>b. b)\<rparr>\<rparr>, sv_hmac = (\<lambda>k m. m), sv_b64 = map unat, sv_unb64 = (\<lambda>s. Some (map of_nat s)),
     sv_b64url = map unat, sv_unb64url = (\<lambda>s. Some (map of_nat s)), sv_is_format = (\<lambda>c. False),
     sv_parse_ip = (\<lambda>s. None), sv_locate = (\<lambda>s. None), sv_argon_verify = (\<lambda>v k. v = map unat k),
     sv_argon_hash = (\<lambda>s k. Some (map unat k)), sv_dummy_verifier = [], sv_login_start = (\<lambda>r q a n. Some ([], [])),
     sv_login_finish = (\<lambda>p f. True), sv_register = (\<lambda>q a. Some []), sv_record_from_upload = (\<lambda>u. Some u),
     sv_invite_json = (\<lambda>a b c d. []), sv_invite_unjson = (\<lambda>b. None), server_secret = replicate 32 0,
     trust_forwarded_for = False, legacy_auth_until = None, has_mailer = True, signup_url = Some []\<rparr>"

definition empty_db :: srv_db where
  "empty_db = \<lparr>t_accounts = [], t_vaults = [], t_devices = [], t_sessions = [], t_attempts = [], t_pairings = [],
     t_deleted_sessions = [], t_deleted_devices = [], t_pending = [], t_codes = [], t_billing = \<lparr>bd_rows = [], bd_events = []\<rparr>\<rparr>"

subsection \<open>Addresses\<close>

text \<open>
  The two sides agree on what an address is. The server's normalisation, restated from the client's
  because the server does not depend on the client's crate, accepts exactly the addresses the client
  accepts, gives the same normal form, and refuses with the same message: an address that is part of a
  key derivation on a device names one account on the server.
\<close>

theorem email_rules_agree:
  "parse_email (sv_keys env) raw = map_err InvalidInput (normalize env raw)"
proof -
  let ?n = "to_lowercase (sv_keys env) (nfc (sv_keys env) (trim raw))"
  consider x where "split_at 64 ?n = [x]" | x y where "split_at 64 ?n = [x, y]" | x y z zs where "split_at 64 ?n = x # y # z # zs" | "split_at 64 ?n = []"
    by (metis list.exhaust)
  then show ?thesis by cases (simp_all add: parse_email_def normalize_def Let_def)
qed

subsection \<open>Rate limits\<close>

definition charged_row :: "int \<Rightarrow> attempt_row option \<Rightarrow> attempt_row" where
  "charged_row now m = arm_block now (count_failure WINDOW_MINUTES now (case m of None \<Rightarrow> fresh_attempt 0 now | Some r \<Rightarrow> r))"

lemma account_key_not_ip [simp]: "account_key a \<noteq> ip_key env ip"
  by (simp add: account_key_def ip_key_def str_def)

lemma charge_accepted:
  assumes "charge_tx (new_attempt_keys env a ip) now db = Inr (x, db')"
  shows "get (t_attempts db') (account_key a) = Some (charged_row now (get (t_attempts db) (account_key a))) \<and>
    (\<forall>r t. get (t_attempts db) (account_key a) = Some r \<and> tw_blocked_until r = Some t \<longrightarrow> t \<le> now)"
  using assms account_key_not_ip [of a env ip] account_key_not_ip [of a env ip, symmetric]
  by (auto simp del: account_key_not_ip simp: charge_tx_def new_attempt_keys_def Let_def spend_attempt_def touch_attempt_def put_attempt_def blocked_def
      has_key_def charged_row_def fresh_attempt_def split: if_splits option.splits)

text \<open>The attempts of one account, from any addresses: how many are let through.\<close>

fun let_through :: "srv_env \<Rightarrow> uuid \<Rightarrow> (int \<times> rstring) list \<Rightarrow> srv_db \<Rightarrow> nat" where
  "let_through env a [] db = 0"
| "let_through env a ((now, ip) # rest) db = (case charge_tx (new_attempt_keys env a ip) now db of
     Inl _ \<Rightarrow> let_through env a rest db
   | Inr (_, db') \<Rightarrow> Suc (let_through env a rest db'))"

text \<open>The earliest moment of the next attempt, from the start of the window: 0, then after one minute, then every five.\<close>

definition earliest :: "int \<Rightarrow> int" where
  "earliest f = (if f < 5 then 0 else (60 + (f - 5) * 300) * 1000)"

definition row_paced :: "int \<Rightarrow> attempt_row \<Rightarrow> bool" where
  "row_paced now r \<longleftrightarrow> 0 \<le> tw_failures r \<and> tw_failures r \<le> 8 \<and> tw_window_start r \<le> now \<and>
     (5 \<le> tw_failures r \<longrightarrow> (\<exists>t. tw_blocked_until r = Some t \<and> tw_window_start r + earliest (tw_failures r) \<le> t))"

lemma charge_consts: "WINDOW_MINUTES * MINUTE = 900000" "MAX_FAILURES = 5" "SECOND = 1000"
  by (simp_all add: WINDOW_MINUTES_def MINUTE_def SECOND_def MAX_FAILURES_def)

lemma charged_in_window:
  assumes "row_paced now r" "\<forall>t. tw_blocked_until r = Some t \<longrightarrow> t \<le> now" "\<not> window_over WINDOW_MINUTES now r"
  shows "tw_failures r \<le> 7 \<and> tw_failures (charged_row now (Some r)) = tw_failures r + 1 \<and>
    tw_window_start (charged_row now (Some r)) = tw_window_start r \<and> row_paced now (charged_row now (Some r))"
proof -
  have w: "now \<le> tw_window_start r + 900000" using assms(3) by (simp add: window_over_def charge_consts)
  have e: "5 \<le> tw_failures r \<Longrightarrow> tw_window_start r + earliest (tw_failures r) \<le> now"
    using assms(1,2) by (force simp: row_paced_def)
  then have "tw_failures r \<le> 7" using w assms(1) by (cases "tw_failures r = 8") (simp_all add: earliest_def row_paced_def)
  then show ?thesis using assms e
    by (auto simp: charged_row_def count_failure_def arm_block_def row_paced_def charge_consts earliest_def block_seconds_def)
qed

lemma charged_new_window:
  assumes "m = None \<or> (\<exists>r. m = Some r \<and> window_over WINDOW_MINUTES now r)"
  shows "tw_failures (charged_row now m) = 1 \<and> tw_window_start (charged_row now m) = now \<and> row_paced now (charged_row now m)"
  using assms
  by (auto simp: charged_row_def count_failure_def arm_block_def row_paced_def charge_consts fresh_attempt_def window_over_def)

lemma row_paced_mono: "row_paced now r \<Longrightarrow> now \<le> now2 \<Longrightarrow> row_paced now2 r"
  by (auto simp: row_paced_def)

lemma window_left:
  fixes w t e :: int
  assumes "w + 900000 < t" "t \<le> e"
  shows "(e - t) div 900000 + 1 \<le> (e - w) div 900000"
proof -
  have "(e - t + 900000) div 900000 \<le> (e - w) div 900000" using assms by (intro zdiv_mono1) auto
  then show ?thesis by simp
qed

lemma let_through_window:
  assumes "sorted (now # map fst ts)" "\<forall>t\<in>set (map fst ts). t \<le> e" "now \<le> e"
    and "get (t_attempts db) (account_key a) = Some r" "row_paced now r"
  shows "int (let_through env a ts db) \<le> 8 - tw_failures r + 8 * ((e - tw_window_start r) div 900000)"
  using assms
proof (induction ts arbitrary: now db r)
  case Nil
  then have "0 \<le> (e - tw_window_start r) div 900000" by (auto simp: row_paced_def intro!: pos_imp_zdiv_nonneg_iff [THEN iffD2])
  then show ?case using Nil by (simp add: row_paced_def)
next
  case (Cons x ts)
  obtain t ip where x: "x = (t, ip)" by (cases x)
  have t: "now \<le> t" "t \<le> e" "sorted (t # map fst ts)" "\<forall>t\<in>set (map fst ts). t \<le> e" using Cons.prems x by auto
  have paced: "row_paced t r" using Cons.prems(5) t(1) by (rule row_paced_mono)
  show ?case
  proof (cases "charge_tx (new_attempt_keys env a ip) t db")
    case (Inl err)
    then show ?thesis using Cons.IH [OF t(3,4,2) Cons.prems(4) paced] x by simp
  next
    case (Inr y)
    obtain db' where y: "y = ((), db')" by (cases y) auto
    have c: "get (t_attempts db') (account_key a) = Some (charged_row t (Some r))" "\<forall>b. tw_blocked_until r = Some b \<longrightarrow> b \<le> t"
      using charge_accepted [of env a ip t db "()" db'] Inr y Cons.prems(4) by auto
    show ?thesis
    proof (cases "window_over WINDOW_MINUTES t r")
      case True
      then have n: "tw_failures (charged_row t (Some r)) = 1" "tw_window_start (charged_row t (Some r)) = t" "row_paced t (charged_row t (Some r))"
        using charged_new_window [of "Some r" t] by auto
      have "(e - t) div 900000 + 1 \<le> (e - tw_window_start r) div 900000"
        using True t(2) by (intro window_left) (simp_all add: window_over_def charge_consts)
      then show ?thesis
        using Cons.IH [OF t(3,4,2) c(1) n(3)] n x Inr y paced by (simp add: row_paced_def)
    next
      case False
      then have n: "tw_failures r \<le> 7" "tw_failures (charged_row t (Some r)) = tw_failures r + 1"
          "tw_window_start (charged_row t (Some r)) = tw_window_start r" "row_paced t (charged_row t (Some r))"
        using charged_in_window [OF paced c(2)] by auto
      then show ?thesis using Cons.IH [OF t(3,4,2) c(1) n(4)] x Inr y by simp
    qed
  qed
qed

text \<open>
  C27. Guessing a key is slow. However many attempts are made on an account, from however many
  addresses, while none of them succeeds, at most eight in every started quarter of an hour since the
  first one get as far as a check of the key: the five of the window, and those that outwait its blocks
  of one and five minutes.
\<close>

theorem guesses_bounded:
  assumes "sorted (map fst ts)" and "list_all (\<lambda>(t, _). first \<le> t \<and> t \<le> e) ts" and "first \<le> e"
    and "get (t_attempts db) (account_key a) = None"
  shows "int (let_through env a ts db) \<le> 8 * (1 + (e - first) div (15 * MINUTE))"
proof -
  have m: "15 * MINUTE = 900000" by (simp add: MINUTE_def SECOND_def)
  have z: "0 \<le> (e - first) div 900000" using assms(3) by (simp add: pos_imp_zdiv_nonneg_iff)
  show ?thesis
    using assms(1,2,4) z unfolding m
  proof (induction ts)
    case (Cons x ts)
    obtain t ip where x: "x = (t, ip)" by (cases x)
    have t: "first \<le> t" "t \<le> e" "sorted (t # map fst ts)" "\<forall>t\<in>set (map fst ts). t \<le> e"
      using Cons.prems x by (auto simp: list_all_iff)
    show ?case
    proof (cases "charge_tx (new_attempt_keys env a ip) t db")
      case (Inl err)
      then show ?thesis using Cons x by simp
    next
      case (Inr y)
      obtain db' where y: "y = ((), db')" by (cases y) auto
      have c: "get (t_attempts db') (account_key a) = Some (charged_row t None)"
        using charge_accepted [of env a ip t db "()" db'] Inr y Cons.prems(3) by auto
      have n: "tw_failures (charged_row t None) = 1" "tw_window_start (charged_row t None) = t" "row_paced t (charged_row t None)"
        using charged_new_window [of None t] by auto
      have "(e - t) div 900000 \<le> (e - first) div 900000" using t(1) by (intro zdiv_mono1) auto
      then show ?thesis using let_through_window [OF t(3,4,2) c n(3), of env] n x Inr y by simp
    qed
  qed simp
qed

theorem guesses_bounded_witness:
  "int (let_through toy_srv 1 (map (\<lambda>i. (1000 * int i, [])) [0..<40]) empty_db) \<le> 8 * (1 + (39000 - 0) div (15 * MINUTE))"
  by (rule guesses_bounded) (simp_all add: empty_db_def sorted_map upt_conv_Cons)

end
