(* ===== verification/Credentials.thy ===== *)
theory Credentials
  imports Accounts
begin

text \<open>
  The beginning and the end of an account on the server: invites and activation (\<^verbatim>\<open>invite.rs\<close>,
  \<^verbatim>\<open>routes/accounts.rs\<close>), signing up (\<^verbatim>\<open>routes/signup.rs\<close>), the operator's commands (\<^verbatim>\<open>admin.rs\<close>), changing the
  credentials and enrolling in OPAQUE (\<^verbatim>\<open>routes/account.rs\<close>), and erasing it (\<^verbatim>\<open>erase.rs\<close>). The text of the mails
  is not modelled: an argument says whether a mail could be sent.
\<close>

section \<open>Model\<close>

subsection \<open>Erasing an account\<close>

definition code_hash :: "srv_env \<Rightarrow> rstring \<Rightarrow> bytes" where
  "code_hash env code = sv_hmac env (server_secret env) (utf8_bytes code)"

definition signup_email_key :: "srv_env \<Rightarrow> rstring \<Rightarrow> rstring" where
  "signup_email_key env email = str ''signup-email:'' @ concat (map hex_byte (take 16 (code_hash env email)))"

text \<open>\<^verbatim>\<open>INSERT ... ON CONFLICT DO NOTHING\<close> of one expiry for each key.\<close>

definition bury :: "int \<Rightarrow> 'k list \<Rightarrow> ('k, int) table \<Rightarrow> ('k, int) table" where
  "bury expires ks t = fold (\<lambda>k t. if has_key t k then t else put k expires t) ks t"

definition without :: "('k \<Rightarrow> 'v \<Rightarrow> bool) \<Rightarrow> ('k, 'v) table \<Rightarrow> ('k, 'v) table" where
  "without P t = filter (\<lambda>(k, v). \<not> P k v) t"

text \<open>The foreign keys of the schema: what goes with the row of an account.\<close>

definition delete_account_row :: "uuid \<Rightarrow> srv_db \<Rightarrow> srv_db" where
  "delete_account_row a db =
     (let gone = map fst (filter (\<lambda>(d, r). dw_account_id r = a) (t_devices db)) in
      db\<lparr>t_accounts := drop_key a (t_accounts db),
         t_vaults := without (\<lambda>_ v. fst v = a) (t_vaults db),
         t_devices := without (\<lambda>_ r. dw_account_id r = a) (t_devices db),
         t_sessions := without (\<lambda>_ s. sw_account_id s = a \<or> sw_device_id s \<in> set gone) (t_sessions db),
         t_pairings := without (\<lambda>_ p. gw_account_id p = Some a) (t_pairings db),
         t_pending := without (\<lambda>_ p. nw_account_id p = Some a) (t_pending db),
         t_billing := \<lparr>bd_rows = drop_key a (bd_rows (t_billing db)),
           bd_events = filter (\<lambda>e. be_account e \<noteq> a) (bd_events (t_billing db))\<rparr>\<rparr>)"

definition erase_account :: "srv_env \<Rightarrow> uuid \<Rightarrow> int \<Rightarrow> srv_db \<Rightarrow> srv_db" where
  "erase_account env a now db =
     (let expires = now + TOMBSTONE_DAYS * DAY;
          devices = map fst (filter (\<lambda>(d, r). dw_account_id r = a) (t_devices db));
          email = map_option aw_email (get (t_accounts db) a);
          db1 = db\<lparr>
            t_deleted_sessions := bury expires (map fst (filter (\<lambda>(h, s). sw_account_id s = a) (t_sessions db))) (t_deleted_sessions db),
            t_deleted_devices := bury expires (map (device_hash env) devices) (t_deleted_devices db),
            t_attempts := (case email of None \<Rightarrow> id | Some e \<Rightarrow> drop_key (signup_email_key env e)) (drop_key (account_key a) (t_attempts db)),
            t_pairings := without (\<lambda>_ p. gw_account_id p = Some a \<or> gw_device_id p \<in> set devices) (t_pairings db),
            t_codes := (case email of None \<Rightarrow> id | Some e \<Rightarrow> drop_key e) (t_codes db)\<rparr>
      in delete_account_row a db1)"

definition sweep_tombstones :: "nat handler" where
  "sweep_tombstones =
     bind (Step (\<lambda>now db. (db\<lparr>t_deleted_sessions := without (\<lambda>_ t. t \<le> now) (t_deleted_sessions db)\<rparr>,
       Done (length (filter (\<lambda>(_, t). t \<le> now) (t_deleted_sessions db)))))) (\<lambda>s.
     Step (\<lambda>now db. (db\<lparr>t_deleted_devices := without (\<lambda>_ t. t \<le> now) (t_deleted_devices db)\<rparr>,
       Done (Inr (s + length (filter (\<lambda>(_, t). t \<le> now) (t_deleted_devices db)))))))"

subsection \<open>Proving the current key\<close>

definition MALFORMED :: ApiError where "MALFORMED = ApiInvalidRequest ''message is not valid''"

datatype Proof = LegacyProof bytes | PakeProof rstring bytes

definition proof_from :: "srv_env \<Rightarrow> rstring option \<Rightarrow> rstring option \<Rightarrow> rstring option \<Rightarrow> ApiError + Proof" where
  "proof_from env current reauth finalization = (case (current, reauth, finalization) of
     (Some key, None, None) \<Rightarrow> and_then (decode_auth_key env key) (\<lambda>k. Inr (LegacyProof k))
   | (None, Some u, Some f) \<Rightarrow> and_then (decode_message env f) (\<lambda>m. Inr (PakeProof u m))
   | _ \<Rightarrow> Inl (ApiInvalidRequest ''send currentAuthKey or a reauth proof''))"

record stored =
  st_verifier :: "rstring option"
  st_record :: "bytes option"
  st_grace_until :: "int option"

definition load_stored :: "uuid \<Rightarrow> srv_db \<Rightarrow> ApiError + stored" where
  "load_stored a db = (case get (t_accounts db) a of
     Some r \<Rightarrow> if aw_status r = ActiveAccount
       then Inr \<lparr>st_verifier = aw_auth_verifier r, st_record = aw_opaque_record r, st_grace_until = aw_legacy_grace_until r\<rparr>
       else Inl ApiUnauthorized
   | None \<Rightarrow> Inl ApiUnauthorized)"

definition check_proof :: "srv_env \<Rightarrow> bool \<Rightarrow> uuid \<Rightarrow> stored \<Rightarrow> Proof \<Rightarrow> unit handler" where
  "check_proof env slot a st proof_given = (case proof_given of
     LegacyProof key \<Rightarrow>
       attempt (query (\<lambda>now _. legacy_allowed env (st_grace_until st) now)) (\<lambda>_.
       attempt (pure (ok_or ApiUnauthorized (st_verifier st))) (\<lambda>verifier.
       if st_record st \<noteq> None then Done (Inl UpgradeRequired)
       else attempt (pure (verify_auth_key env slot verifier key)) (\<lambda>ok. Done (ensure ok ApiUnauthorized))))
   | PakeProof u finalization \<Rightarrow>
       attempt (take_pending env Reauth u) (\<lambda>taken. Done (case taken of
         Some (Some bound, pending) \<Rightarrow> ensure (bound = a \<and> sv_login_finish env pending finalization) ApiUnauthorized
       | _ \<Rightarrow> Inl ApiUnauthorized)))"

subsection \<open>Changing the credentials\<close>

record kdf_request =
  kd_algorithm :: rstring
  kd_memory_kib :: int
  kd_iterations :: int
  kd_parallelism :: int
  kd_salt :: rstring

definition check_kdf :: "srv_env \<Rightarrow> kdf_request \<Rightarrow> ApiError + bytes" where
  "check_kdf env k =
     (let bad = ApiInvalidRequest ''kdf parameters are not valid'' in
      if kd_algorithm k \<noteq> str ''argon2id'' then Inl bad
      else if \<not> (19 * 1024 \<le> kd_memory_kib k \<and> kd_memory_kib k \<le> 1024 * 1024 \<and> 2 \<le> kd_iterations k \<and> kd_iterations k \<le> 16 \<and>
        1 \<le> kd_parallelism k \<and> kd_parallelism k \<le> 16) then Inl bad
      else and_then (ok_or bad (sv_unb64 env (kd_salt k))) (\<lambda>s. if length s \<noteq> 16 then Inl bad else Inr s))"

definition check_header_srv :: "bytes \<Rightarrow> ApiError + unit" where
  "check_header_srv h = ensure (\<not> (h = [] \<or> MAX_HEADER_BYTES_srv < length h)) (ApiInvalidRequest ''header is not valid'')"

datatype NewKey = NewLegacy bytes | NewPake bytes

definition new_key_from :: "srv_env \<Rightarrow> rstring option \<Rightarrow> rstring option \<Rightarrow> Proof \<Rightarrow> ApiError + NewKey" where
  "new_key_from env new_auth_key upload proof_given = (case (new_auth_key, upload) of
     (Some key, None) \<Rightarrow> (case proof_given of
         LegacyProof _ \<Rightarrow> and_then (decode_auth_key env key) (\<lambda>k. Inr (NewLegacy k))
       | PakeProof _ _ \<Rightarrow> Inl (ApiInvalidRequest ''newAuthKey needs a legacy proof''))
   | (None, Some up) \<Rightarrow> and_then (decode_message env up) (\<lambda>m. and_then (ok_or MALFORMED (sv_record_from_upload env m)) (\<lambda>r. Inr (NewPake r)))
   | _ \<Rightarrow> Inl (ApiInvalidRequest ''send newAuthKey or registrationUpload''))"

definition install_key :: "srv_env \<Rightarrow> bytes \<Rightarrow> NewKey \<Rightarrow> ApiError + rstring option \<times> bytes option" where
  "install_key env rnd k = (case k of
     NewLegacy key \<Rightarrow> and_then (hash_auth_key env rnd key) (\<lambda>v. Inr (Some v, None))
   | NewPake r \<Rightarrow> Inr (None, Some r))"

record credentials_request =
  cc_current_auth_key :: "rstring option"
  cc_reauth_id :: "rstring option"
  cc_credential_finalization :: "rstring option"
  cc_kdf :: kdf_request
  cc_new_auth_key :: "rstring option"
  cc_registration_upload :: "rstring option"
  cc_header :: bytes
  cc_base_header_revision :: int

text \<open>The transaction that installs the new credentials, with the compare under the lock.\<close>

definition credentials_tx ::
  "auth_session \<Rightarrow> stored \<Rightarrow> credentials_request \<Rightarrow> bytes \<Rightarrow> rstring option \<Rightarrow> bytes option \<Rightarrow> int \<Rightarrow> srv_db \<Rightarrow> ApiError + int \<times> srv_db" where
  "credentials_tx ses st req slt verifier rec now db =
     and_then (load_stored (ses_account_id ses) db) (\<lambda>current.
     if current \<noteq> st then Inl ApiConflict
     else and_then (ok_or ApiInternal (get (t_vaults db) (ses_vault_id ses))) (\<lambda>(owner, v).
       if cc_base_header_revision req \<noteq> vr_header_revision v then Inl ApiConflict
       else
         let nxt = vr_header_revision v + 1; k = cc_kdf req; r = the (get (t_accounts db) (ses_account_id ses)) in
         Inr (nxt, drop_sessions (\<lambda>h s. sw_account_id s = ses_account_id ses \<and> h \<noteq> ses_token_hash ses) (db\<lparr>
           t_accounts := put (ses_account_id ses) (r\<lparr>aw_kdf := Some (kd_memory_kib k, kd_iterations k, kd_parallelism k, slt),
             aw_auth_verifier := verifier, aw_opaque_record := rec\<rparr>) (t_accounts db),
           t_vaults := put (ses_vault_id ses) (owner, v\<lparr>vr_header := cc_header req, vr_header_revision := nxt\<rparr>) (t_vaults db)\<rparr>))))"

definition change_credentials ::
  "srv_env \<Rightarrow> bytes \<Rightarrow> bool \<Rightarrow> rstring \<Rightarrow> auth_session \<Rightarrow> credentials_request \<Rightarrow> int handler" where
  "change_credentials env rnd slot ip ses req =
     attempt (pure (require_full (server_session.truncate ses))) (\<lambda>_.
     attempt (pure (check_header_srv (cc_header req))) (\<lambda>_.
     if cc_base_header_revision req < 0 then Done (Inl (ApiInvalidRequest ''baseHeaderRevision is not valid''))
     else
     attempt (pure (check_kdf env (cc_kdf req))) (\<lambda>slt.
     attempt (pure (proof_from env (cc_current_auth_key req) (cc_reauth_id req) (cc_credential_finalization req))) (\<lambda>proof_given.
     attempt (pure (new_key_from env (cc_new_auth_key req) (cc_registration_upload req) proof_given)) (\<lambda>new_key.
     let ks = new_attempt_keys env (ses_account_id ses) ip in
     attempt (charge ks) (\<lambda>_.
     attempt (query (\<lambda>_. load_stored (ses_account_id ses))) (\<lambda>st.
     attempt (check_proof env slot (ses_account_id ses) st proof_given) (\<lambda>_.
     attempt (clear_keys ks) (\<lambda>_.
     attempt (pure (install_key env rnd new_key)) (\<lambda>(verifier, rec).
     transaction (credentials_tx ses st req slt verifier rec)))))))))))"

record account_deletion =
  ad_current_auth_key :: "rstring option"
  ad_reauth_id :: "rstring option"
  ad_credential_finalization :: "rstring option"
  ad_email :: rstring

definition delete_tx :: "srv_env \<Rightarrow> uuid \<Rightarrow> stored \<Rightarrow> int \<Rightarrow> srv_db \<Rightarrow> ApiError + unit \<times> srv_db" where
  "delete_tx env a st now db =
     and_then (load_stored a db) (\<lambda>current.
     if current \<noteq> st then Inl ApiConflict else Inr ((), erase_account env a now db))"

definition delete_account :: "srv_env \<Rightarrow> bool \<Rightarrow> rstring \<Rightarrow> auth_session \<Rightarrow> account_deletion \<Rightarrow> unit handler" where
  "delete_account env slot ip ses req =
     (let mismatch = ApiInvalidRequest ''the email does not match this account''; a = ses_account_id ses in
      attempt (pure (map_err (\<lambda>_. mismatch) (normalize env (ad_email req)))) (\<lambda>typed.
      attempt (pure (proof_from env (ad_current_auth_key req) (ad_reauth_id req) (ad_credential_finalization req))) (\<lambda>proof_given.
      let ks = new_attempt_keys env a ip in
      attempt (charge ks) (\<lambda>_.
      attempt (query (\<lambda>_ db. case get (t_accounts db) a of
          Some r \<Rightarrow> if aw_status r = ActiveAccount then Inr (aw_email r) else Inl ApiUnauthorized
        | None \<Rightarrow> Inl ApiUnauthorized)) (\<lambda>email.
      if typed \<noteq> email then Done (Inl mismatch)
      else
      attempt (query (\<lambda>_. load_stored a)) (\<lambda>st.
      attempt (check_proof env slot a st proof_given) (\<lambda>_.
      attempt (clear_keys ks) (\<lambda>_.
      transaction (delete_tx env a st)))))))))"

definition pake_register :: "srv_env \<Rightarrow> auth_session \<Rightarrow> rstring \<Rightarrow> bytes handler" where
  "pake_register env ses registration_request =
     attempt (pure (decode_message env registration_request)) (\<lambda>request.
     pure (ok_or MALFORMED (sv_register env request (uuid_bytes (ses_account_id ses)))))"

definition pake_reauth :: "srv_env \<Rightarrow> bytes \<Rightarrow> bytes \<Rightarrow> rstring \<Rightarrow> auth_session \<Rightarrow> rstring \<Rightarrow> (rstring \<times> bytes) handler" where
  "pake_reauth env rnd rnd2 ip ses credential_request =
     attempt (pure (decode_message env credential_request)) (\<lambda>request.
     attempt (charge (new_attempt_keys env (ses_account_id ses) ip)) (\<lambda>_.
     attempt (query (\<lambda>_. load_stored (ses_account_id ses))) (\<lambda>st.
     attempt (pure (ok_or MALFORMED (sv_login_start env (st_record st) request (uuid_bytes (ses_account_id ses)) rnd2))) (\<lambda>(pending, response).
     attempt (put_pending env rnd Reauth (Some (ses_account_id ses)) pending) (\<lambda>u. Done (Inr (u, response)))))))"

definition enroll_tx :: "uuid \<Rightarrow> stored \<Rightarrow> bytes \<Rightarrow> int \<Rightarrow> srv_db \<Rightarrow> ApiError + unit \<times> srv_db" where
  "enroll_tx a st rec now db =
     and_then (load_stored a db) (\<lambda>current.
     if current \<noteq> st then Inl ApiConflict
     else let r = the (get (t_accounts db) a) in
       Inr ((), db\<lparr>t_accounts := put a (r\<lparr>aw_opaque_record := Some rec, aw_legacy_grace_until := None\<rparr>) (t_accounts db)\<rparr>))"

definition pake_enroll :: "srv_env \<Rightarrow> bool \<Rightarrow> rstring \<Rightarrow> auth_session \<Rightarrow> rstring \<Rightarrow> rstring \<Rightarrow> unit handler" where
  "pake_enroll env slot ip ses current_auth_key registration_upload =
     attempt (pure (decode_auth_key env current_auth_key)) (\<lambda>key.
     attempt (pure (decode_message env registration_upload)) (\<lambda>m.
     attempt (pure (ok_or MALFORMED (sv_record_from_upload env m))) (\<lambda>rec.
     let ks = new_attempt_keys env (ses_account_id ses) ip in
     attempt (charge ks) (\<lambda>_.
     attempt (query (\<lambda>_. load_stored (ses_account_id ses))) (\<lambda>st.
     if st_record st \<noteq> None then Done (Inl ApiConflict)
     else
     attempt (check_proof env slot (ses_account_id ses) st (LegacyProof key)) (\<lambda>_.
     attempt (clear_keys ks) (\<lambda>_.
     transaction (enroll_tx (ses_account_id ses) st rec))))))))"

subsection \<open>Invites and activation\<close>

definition INVITE_PREFIX_srv :: rstring where "INVITE_PREFIX_srv = str ''HKINV1-''"
definition MAX_INVITE_CHARS :: nat where "MAX_INVITE_CHARS = 2048"
definition INVITE_TTL_DAYS :: int where "INVITE_TTL_DAYS = 7"
definition SIGNUP_INVITE_TTL_HOURS :: int where "SIGNUP_INVITE_TTL_HOURS = 24"

record invite =
  in_server :: rstring
  in_email :: rstring
  in_account :: uuid
  in_secret :: rstring

definition encode_invite :: "srv_env \<Rightarrow> invite \<Rightarrow> rstring" where
  "encode_invite env i = INVITE_PREFIX_srv @ sv_b64url env (sv_invite_json env (in_server i) (in_email i) (in_account i) (in_secret i))"

definition decode_invite :: "srv_env \<Rightarrow> rstring \<Rightarrow> ApiError + invite" where
  "decode_invite env text =
     (let bad = ApiInvalidRequest ''invite is not valid''; raw = trim text in
      if MAX_INVITE_CHARS < str_len raw then Inl bad
      else and_then (ok_or bad (strip_prefix INVITE_PREFIX_srv raw)) (\<lambda>body.
        and_then (ok_or bad (sv_unb64url env body)) (\<lambda>json.
        and_then (ok_or bad (sv_invite_unjson env json)) (\<lambda>(sv, em, a, sec).
        Inr \<lparr>in_server = sv, in_email = em, in_account = a, in_secret = sec\<rparr>))))"

definition invite_hash :: "srv_env \<Rightarrow> rstring \<Rightarrow> bytes" where
  "invite_hash env sec = srv_sha256 env (utf8_bytes sec)"

definition invite_accepted :: "srv_env \<Rightarrow> srv_account \<Rightarrow> rstring \<Rightarrow> int \<Rightarrow> bool" where
  "invite_accepted env r sec now \<longleftrightarrow> aw_status r = Invited \<and> aw_invite_hash r = Some (invite_hash env sec) \<and>
     (case aw_invite_expires_at r of Some t \<Rightarrow> now \<le> t | None \<Rightarrow> False)"

definition invite_is_plausible :: "srv_env \<Rightarrow> invite \<Rightarrow> rstring \<Rightarrow> int \<Rightarrow> srv_db \<Rightarrow> bool" where
  "invite_is_plausible env i email now db = (case get (t_accounts db) (in_account i) of
     Some r \<Rightarrow> aw_email r = email \<and> invite_accepted env r (in_secret i) now
   | None \<Rightarrow> False)"

definition BAD_INVITE :: ApiError where "BAD_INVITE = ApiInvalidRequest ''invite is not valid''"

definition KEY_SCHEME_srv :: int where "KEY_SCHEME_srv = 3"

definition activate_register :: "srv_env \<Rightarrow> rstring \<Rightarrow> rstring \<Rightarrow> rstring \<Rightarrow> rstring \<Rightarrow> bytes handler" where
  "activate_register env ip raw_email raw_invite registration_request =
     attempt (pure (map_err ApiInvalidRequest (normalize env raw_email))) (\<lambda>email.
     attempt (pure (decode_invite env raw_invite)) (\<lambda>i.
     if in_email i \<noteq> email then Done (Inl BAD_INVITE)
     else
     attempt (pure (decode_message env registration_request)) (\<lambda>request.
     attempt (rate_check (ip_key env ip)) (\<lambda>_.
     bind (query (invite_is_plausible env i email)) (\<lambda>plausible.
     if \<not> plausible then attempt (record_failure (ip_key env ip)) (\<lambda>_. Done (Inl BAD_INVITE))
     else pure (ok_or MALFORMED (sv_register env request (uuid_bytes (in_account i)))))))))"

record activate_request =
  av_email :: rstring
  av_invite :: rstring
  av_kdf :: kdf_request
  av_auth_key :: "rstring option"
  av_registration_upload :: "rstring option"
  av_vault_id :: uuid
  av_header :: bytes
  av_key_scheme :: int

definition activation_key :: "srv_env \<Rightarrow> rstring option \<Rightarrow> rstring option \<Rightarrow> int \<Rightarrow> ApiError + NewKey" where
  "activation_key env auth_key upload now = (case (auth_key, upload) of
     (Some key, None) \<Rightarrow> and_then (legacy_allowed env None now) (\<lambda>_. and_then (decode_auth_key env key) (\<lambda>k. Inr (NewLegacy k)))
   | (None, Some up) \<Rightarrow> and_then (decode_message env up) (\<lambda>m. and_then (ok_or MALFORMED (sv_record_from_upload env m)) (\<lambda>r. Inr (NewPake r)))
   | _ \<Rightarrow> Inl (ApiInvalidRequest ''send authKey or registrationUpload''))"

text \<open>A trial starts when its account does.\<close>

definition start_trial :: "uuid \<Rightarrow> int \<Rightarrow> billing_db \<Rightarrow> billing_db" where
  "start_trial a now b = (case get (bd_rows b) a of
     Some r \<Rightarrow> if pr_status r = Some ''trialing'' \<and> pr_trial_ends_at r = None
       then b\<lparr>bd_rows := put a (r\<lparr>pr_trial_ends_at := Some (now + TRIAL_DAYS * DAY)\<rparr>) (bd_rows b)\<rparr> else b
   | None \<Rightarrow> b)"

definition activated_vault :: "bytes \<Rightarrow> vault_row" where
  "activated_vault h = \<lparr>vr_revision = 0, vr_header = h, vr_header_revision = 0, vr_key_scheme = KEY_SCHEME_srv, vr_items = [], vr_attachments = []\<rparr>"

definition activate_tx ::
  "srv_env \<Rightarrow> invite \<Rightarrow> rstring \<Rightarrow> activate_request \<Rightarrow> bytes \<Rightarrow> rstring option \<Rightarrow> bytes option \<Rightarrow> int \<Rightarrow> srv_db \<Rightarrow>
    ApiError + (uuid \<times> uuid) \<times> srv_db" where
  "activate_tx env i email req slt verifier rec now db =
     (let a = in_account i; k = av_kdf req in
      if \<not> invite_is_plausible env i email now db then Inl BAD_INVITE
      else if has_key (t_vaults db) (av_vault_id req) \<or> vault_of db a \<noteq> None then Inl (ApiInvalidRequest ''vaultId is not available'')
      else let r = the (get (t_accounts db) a) in
        Inr ((a, av_vault_id req), db\<lparr>
          t_accounts := put a (r\<lparr>aw_status := ActiveAccount, aw_kdf := Some (kd_memory_kib k, kd_iterations k, kd_parallelism k, slt),
            aw_auth_verifier := verifier, aw_opaque_record := rec, aw_invite_hash := None, aw_invite_expires_at := None\<rparr>) (t_accounts db),
          t_billing := start_trial a now (t_billing db),
          t_vaults := put (av_vault_id req) (a, activated_vault (av_header req)) (t_vaults db)\<rparr>))"

definition activate :: "srv_env \<Rightarrow> bytes \<Rightarrow> rstring \<Rightarrow> activate_request \<Rightarrow> (uuid \<times> uuid) handler" where
  "activate env rnd ip req =
     attempt (pure (map_err ApiInvalidRequest (normalize env (av_email req)))) (\<lambda>email.
     attempt (pure (decode_invite env (av_invite req))) (\<lambda>i.
     if in_email i \<noteq> email then Done (Inl BAD_INVITE)
     else if av_key_scheme req \<noteq> KEY_SCHEME_srv then Done (Inl (ApiInvalidRequest ''unsupported key scheme''))
     else
     attempt (pure (check_header_srv (av_header req))) (\<lambda>_.
     attempt (pure (check_kdf env (av_kdf req))) (\<lambda>slt.
     attempt (query (\<lambda>now _. activation_key env (av_auth_key req) (av_registration_upload req) now)) (\<lambda>key.
     attempt (rate_check (ip_key env ip)) (\<lambda>_.
     bind (query (invite_is_plausible env i email)) (\<lambda>plausible.
     if \<not> plausible then attempt (record_failure (ip_key env ip)) (\<lambda>_. Done (Inl BAD_INVITE))
     else
     attempt (pure (install_key env rnd key)) (\<lambda>(verifier, rec).
     attempt (transaction (activate_tx env i email req slt verifier rec)) (\<lambda>answer.
     bind (clear_attempts (ip_key env ip)) (\<lambda>_. Done (Inr answer)))))))))))"

subsection \<open>Signing up\<close>

definition CODE_TTL_MINUTES :: int where "CODE_TTL_MINUTES = 15"
definition ABANDONED_SIGNUP_DAYS :: int where "ABANDONED_SIGNUP_DAYS = 7"
definition CODE_MAX_ATTEMPTS :: int where "CODE_MAX_ATTEMPTS = 5"
definition STARTS_PER_IP_PER_HOUR :: int where "STARTS_PER_IP_PER_HOUR = 5"
definition STARTS_PER_EMAIL_PER_HOUR :: int where "STARTS_PER_EMAIL_PER_HOUR = 3"
definition VERIFY_FAILURES_PER_IP_PER_HOUR :: int where "VERIFY_FAILURES_PER_IP_PER_HOUR = 10"
definition STARTS_GLOBAL_PER_HOUR :: int where "STARTS_GLOBAL_PER_HOUR = 300"
definition SIGNUP_WINDOW_MINUTES :: int where "SIGNUP_WINDOW_MINUTES = 60"

definition address_key :: "srv_env \<Rightarrow> rstring \<Rightarrow> rstring" where
  "address_key env ip = str ''signup-'' @ ip_key env ip"

definition parse_locale :: "rstring \<Rightarrow> Locale option" where
  "parse_locale raw = (if raw = str ''en'' then Some En else if raw = str ''pt-BR'' \<or> raw = str ''pt-br'' then Some PtBr else None)"

definition check_terms_version :: "rstring \<Rightarrow> ApiError + rstring" where
  "check_terms_version raw =
     (let b = utf8_bytes raw in
      if length b = 10 \<and> b ! 4 = 45 \<and> b ! 7 = 45 \<and> list_all (\<lambda>i. i = 4 \<or> i = 7 \<or> 48 \<le> b ! i \<and> b ! i \<le> 57) [0..<10]
      then Inr raw else Inl (ApiInvalidRequest ''acceptedTerms is not valid''))"

definition account_status_of :: "rstring \<Rightarrow> srv_db \<Rightarrow> account_status option" where
  "account_status_of email db = map_option (\<lambda>(a, r). aw_status r) (find (\<lambda>(a, r). aw_email r = email) (t_accounts db))"

definition put_code :: "srv_env \<Rightarrow> rstring \<Rightarrow> rstring \<Rightarrow> Locale \<Rightarrow> rstring \<Rightarrow> int \<Rightarrow> srv_db \<Rightarrow> srv_db" where
  "put_code env code email lang terms now db = db\<lparr>t_codes := put email \<lparr>cw_code_hash = code_hash env code, cw_locale = lang,
     cw_terms_version = terms, cw_expires_at = now + CODE_TTL_MINUTES * MINUTE, cw_attempts = 0\<rparr> (t_codes db)\<rparr>"

definition drop_code :: "rstring \<Rightarrow> srv_db \<Rightarrow> srv_db" where
  "drop_code email db = db\<lparr>t_codes := drop_key email (t_codes db)\<rparr>"

definition signup_start :: "srv_env \<Rightarrow> rstring \<Rightarrow> bool \<Rightarrow> rstring \<Rightarrow> rstring \<Rightarrow> rstring \<Rightarrow> rstring \<Rightarrow> unit handler" where
  "signup_start env code sent ip raw_email raw_locale accepted_terms =
     (if \<not> has_mailer env \<or> signup_url env = None then Done (Inl ApiNotFound)
      else
      attempt (pure (ok_or (ApiInvalidRequest ''locale is not valid'') (parse_locale raw_locale))) (\<lambda>lang.
      attempt (pure (check_terms_version accepted_terms)) (\<lambda>terms.
      attempt (pure (map_err ApiInvalidRequest (normalize env raw_email))) (\<lambda>email.
      attempt (charge_window (str ''signup-global'') STARTS_GLOBAL_PER_HOUR SIGNUP_WINDOW_MINUTES) (\<lambda>_.
      attempt (charge_window (address_key env ip) STARTS_PER_IP_PER_HOUR SIGNUP_WINDOW_MINUTES) (\<lambda>_.
      attempt (charge_window (signup_email_key env email) STARTS_PER_EMAIL_PER_HOUR SIGNUP_WINDOW_MINUTES) (\<lambda>_.
      bind (query (\<lambda>_. account_status_of email)) (\<lambda>existing.
      attempt (if existing = None \<or> existing = Some Invited then execute (put_code env code email lang terms)
               else execute (\<lambda>_. drop_code email)) (\<lambda>_.
      Done (ensure sent Unavailable))))))))))"

definition new_account_row :: "srv_env \<Rightarrow> rstring \<Rightarrow> rstring \<Rightarrow> int \<Rightarrow> int \<Rightarrow> bool \<Rightarrow> srv_account" where
  "new_account_row env email sec expires now by_signup = \<lparr>aw_email = email, aw_status = Invited, aw_kdf = None, aw_auth_verifier = None,
     aw_opaque_record = None, aw_legacy_grace_until = None, aw_invite_hash = Some (invite_hash env sec),
     aw_invite_expires_at = Some expires, aw_created_at = now, aw_created_by_signup = by_signup, aw_terms_version = None, aw_locale = None\<rparr>"

text \<open>
  The transaction of a code check: whether the code was wrong (its row counts the attempt, or goes), for
  an account that is active by now, or right (the row goes and the account has a new invite).
\<close>

datatype verify_outcome = NoCode | WrongCode | AlreadyActive | Verified uuid

definition verify_tx :: "srv_env \<Rightarrow> rstring \<Rightarrow> uuid \<Rightarrow> rstring \<Rightarrow> rstring \<Rightarrow> int \<Rightarrow> srv_db \<Rightarrow> ApiError + verify_outcome \<times> srv_db" where
  "verify_tx env sec u email code now db = (case get (t_codes db) email of
     None \<Rightarrow> Inr (NoCode, db)
   | Some r \<Rightarrow>
       let expired = cw_expires_at r < now; matches = cw_code_hash r = code_hash env code in
       if expired \<or> CODE_MAX_ATTEMPTS \<le> cw_attempts r \<or> \<not> matches
       then Inr (WrongCode, if expired \<or> CODE_MAX_ATTEMPTS \<le> cw_attempts r + 1 then drop_code email db
              else db\<lparr>t_codes := put email (r\<lparr>cw_attempts := cw_attempts r + 1\<rparr>) (t_codes db)\<rparr>)
       else
         let db1 = drop_code email db; expires = now + SIGNUP_INVITE_TTL_HOURS * HOUR in
         case find (\<lambda>(a, w). aw_email w = email) (t_accounts db) of
           None \<Rightarrow> if has_key (t_accounts db) u then Inl (ApiInvalidRequest ''code is not valid'')
             else Inr (Verified u, db1\<lparr>
               t_accounts := put u ((new_account_row env email sec expires now True)
                 \<lparr>aw_terms_version := Some (cw_terms_version r), aw_locale := Some (cw_locale r)\<rparr>) (t_accounts db1),
               t_billing := set_status u ActorSystem Trialing None ''signup'' (t_billing db1)\<rparr>)
         | Some (a, w) \<Rightarrow> if aw_status w = Invited
             then Inr (Verified a, db1\<lparr>
               t_accounts := put a (w\<lparr>aw_invite_hash := Some (invite_hash env sec), aw_invite_expires_at := Some expires,
                 aw_terms_version := Some (cw_terms_version r), aw_locale := Some (cw_locale r)\<rparr>) (t_accounts db1),
               t_billing := (if load_subscription a (t_billing db1) = None
                 then set_status a ActorSystem Trialing None ''signup'' (t_billing db1) else t_billing db1)\<rparr>)
             else Inr (AlreadyActive, db1))"

definition signup_verify :: "srv_env \<Rightarrow> rstring \<Rightarrow> uuid \<Rightarrow> rstring \<Rightarrow> rstring \<Rightarrow> rstring \<Rightarrow> rstring handler" where
  "signup_verify env sec u ip raw_email code =
     (let bad = ApiInvalidRequest ''code is not valid'' in
      if \<not> has_mailer env then Done (Inl ApiNotFound)
      else case signup_url env of None \<Rightarrow> Done (Inl ApiNotFound) | Some url \<Rightarrow>
      attempt (pure (map_err (\<lambda>_. bad) (normalize env raw_email))) (\<lambda>email.
      if str_len code \<noteq> 6 \<or> \<not> list_all is_ascii_digit code then Done (Inl bad)
      else
      attempt (over_window (address_key env ip) VERIFY_FAILURES_PER_IP_PER_HOUR SIGNUP_WINDOW_MINUTES) (\<lambda>_.
      attempt (transaction (verify_tx env sec u email code)) (\<lambda>outcome. case outcome of
          Verified a \<Rightarrow> Done (Inr (encode_invite env \<lparr>in_server = url, in_email = email, in_account = a, in_secret = sec\<rparr>))
        | AlreadyActive \<Rightarrow> Done (Inl bad)
        | _ \<Rightarrow> bind (charge_window (address_key env ip) VERIFY_FAILURES_PER_IP_PER_HOUR SIGNUP_WINDOW_MINUTES) (\<lambda>_. Done (Inl bad))))))"

subsection \<open>The operator\<close>

text \<open>The checks of the public URL and of the date are the caller's; an error is its message.\<close>

definition new_account :: "srv_env \<Rightarrow> uuid \<Rightarrow> rstring \<Rightarrow> rstring \<Rightarrow> rstring \<Rightarrow> bool \<Rightarrow> (srv_db, string + rstring) prog" where
  "new_account env u sec raw_email server_url trial =
     attempt (pure (normalize env raw_email)) (\<lambda>email.
     transaction (\<lambda>now db.
       if has_key (t_accounts db) u \<or> account_status_of email db \<noteq> None then Inl ''an account with that email already exists''
       else Inr (encode_invite env \<lparr>in_server = server_url, in_email = email, in_account = u, in_secret = sec\<rparr>, db\<lparr>
         t_accounts := put u (new_account_row env email sec (now + INVITE_TTL_DAYS * DAY) now False) (t_accounts db),
         t_billing := set_status u ActorAdmin (if trial then Trialing else Complimentary) None ''new-account'' (t_billing db)\<rparr>)))"

definition LEGACY_GRACE_HOURS :: int where "LEGACY_GRACE_HOURS = 24"

definition allow_legacy_sign_in :: "srv_env \<Rightarrow> rstring \<Rightarrow> (srv_db, string + unit) prog" where
  "allow_legacy_sign_in env raw_email =
     attempt (pure (normalize env raw_email)) (\<lambda>email.
     transaction (\<lambda>now db. case active_account email db of
       Some (a, r) \<Rightarrow> if aw_opaque_record r = None \<and> aw_auth_verifier r \<noteq> None
         then Inr ((), db\<lparr>t_accounts := put a (r\<lparr>aw_legacy_grace_until := Some (now + LEGACY_GRACE_HOURS * HOUR)\<rparr>) (t_accounts db)\<rparr>)
         else Inl ''no active account with that email still on the legacy login''
     | None \<Rightarrow> Inl ''no active account with that email still on the legacy login''))"

definition admin_set_plan :: "srv_env \<Rightarrow> rstring \<Rightarrow> Status \<Rightarrow> int option \<Rightarrow> (srv_db, string + unit) prog" where
  "admin_set_plan env raw_email st until =
     attempt (pure (normalize env raw_email)) (\<lambda>email.
     transaction (\<lambda>now db. case find (\<lambda>(a, r). aw_email r = email) (t_accounts db) of
       None \<Rightarrow> Inl ''no such account''
     | Some (a, r) \<Rightarrow>
         let end_date = (if st = Trialing \<and> until = None \<and> aw_status r = ActiveAccount then Some (now + TRIAL_DAYS * DAY) else until) in
         Inr ((), db\<lparr>t_billing := set_status a ActorAdmin st end_date ''set-plan'' (t_billing db)\<rparr>)))"

definition admin_delete_account :: "srv_env \<Rightarrow> rstring \<Rightarrow> (srv_db, string + unit) prog" where
  "admin_delete_account env raw_email =
     attempt (pure (normalize env raw_email)) (\<lambda>email.
     transaction (\<lambda>now db. case find (\<lambda>(a, r). aw_email r = email) (t_accounts db) of
       None \<Rightarrow> Inl ''no such account''
     | Some (a, r) \<Rightarrow> Inr ((), erase_account env a now db)))"

text \<open>The sweeps of the daily task over these tables; its notices are mails, and uploads never claimed are not modelled.\<close>

definition run_daily :: "unit handler" where
  "run_daily =
     attempt (execute (\<lambda>now db. db\<lparr>t_codes := without (\<lambda>_ r. cw_expires_at r \<le> now) (t_codes db)\<rparr>)) (\<lambda>_.
     attempt (execute (\<lambda>now db. db\<lparr>t_pending := without (\<lambda>_ r. nw_expires_at r \<le> now) (t_pending db)\<rparr>)) (\<lambda>_.
     attempt (execute (\<lambda>now db. fold delete_account_row (map fst (filter (\<lambda>(a, r). aw_status r = Invited \<and> aw_created_by_signup r \<and>
       aw_created_at r < now - ABANDONED_SIGNUP_DAYS * DAY \<and> (case aw_invite_expires_at r of None \<Rightarrow> True | Some t \<Rightarrow> t < now)) (t_accounts db))) db)) (\<lambda>_.
     execute (\<lambda>now db. db\<lparr>t_attempts := without (\<lambda>k r. starts_with (str ''signup-'') k \<and> tw_window_start r < now - 2 * HOUR) (t_attempts db)\<rparr>))))"

section \<open>Properties\<close>

subsection \<open>Rows\<close>

lemma without_kept: "get t k = Some v \<Longrightarrow> \<not> P k v \<Longrightarrow> get (without P t) k = Some v"
  unfolding without_def get_def by (induction t) (auto split: if_splits)

lemma without_Some: "table_ok t \<Longrightarrow> get (without P t) k = Some v \<Longrightarrow> get t k = Some v \<and> \<not> P k v"
  unfolding without_def get_def table_ok_def by (induction t) (force split: if_splits dest: map_of_SomeD)+

lemma table_ok_without: "table_ok t \<Longrightarrow> table_ok (without P t)"
  unfolding without_def table_ok_def by (induction t) auto

lemma in_without: "(k, v) \<in> set (without P t) \<longleftrightarrow> (k, v) \<in> set t \<and> \<not> P k v"
  by (auto simp: without_def)

lemma get_bury: "get (bury e ks t) k = (if k \<in> set ks \<and> get t k = None then Some e else get t k)"
  unfolding bury_def by (induction ks arbitrary: t) (auto simp: has_key_def)

subsection \<open>Concrete values\<close>

definition toy_row :: srv_account where
  "toy_row = (new_account_row toy_srv (str ''a@b.c'') [] 0 0 False)\<lparr>aw_status := ActiveAccount, aw_auth_verifier := Some (replicate 32 7)\<rparr>"

definition toy_device_row :: device_row where
  "toy_device_row = \<lparr>dw_account_id = 1, dw_name = [97], dw_created_at = 0, dw_last_seen_at = None, dw_revoked_at = None, dw_approved_by = None\<rparr>"

definition toy_db :: srv_db where
  "toy_db = empty_db\<lparr>t_accounts := [(1, toy_row)], t_vaults := [(2, 1, activated_vault [9])], t_devices := [(3, toy_device_row)],
     t_sessions := [(token_hash toy_srv [65], \<lparr>sw_account_id = 1, sw_device_id = 3, sw_expires_at = 100\<rparr>)]\<rparr>"

definition toy_auth :: auth_session where
  "toy_auth = \<lparr>ses_account_id = 1, ses_device_id = 3, ses_vault_id = 2, ses_subscription = None, ses_entitlement = PlanFull,
     ses_token_hash = token_hash toy_srv [65]\<rparr>"

subsection \<open>Erasing\<close>

lemma erased_token:
  assumes "table_ok (t_sessions db)" "get (t_sessions db) (token_hash env raw) = Some s" "sw_account_id s = a"
    and "get (t_deleted_sessions db) (token_hash env raw) = None" "raw \<noteq> []" "str_len raw \<le> 128" "t < now + TOMBSTONE_DAYS * DAY"
  shows "run_alone (authenticate env (Some (str ''Bearer '' @ raw))) t (erase_account env a now db) = (Inl AccountDeleted, erase_account env a now db)"
proof -
  let ?h = "token_hash env raw" and ?db = "erase_account env a now db"
  have "get (t_sessions ?db) ?h = None"
  proof (rule ccontr)
    assume "get (t_sessions ?db) ?h \<noteq> None"
    then obtain x where "get (t_sessions ?db) ?h = Some x" by blast
    then have "get (t_sessions db) ?h = Some x \<and> sw_account_id x \<noteq> a"
      using assms(1) by (auto simp: erase_account_def delete_account_row_def Let_def dest: without_Some)
    then show False using assms(2,3) by simp
  qed
  moreover have "get (t_deleted_sessions ?db) ?h = Some (now + TOMBSTONE_DAYS * DAY)"
    using assms(2-4) get_Some_in [OF assms(2)]
    by (auto simp: erase_account_def delete_account_row_def Let_def get_bury image_iff)
  moreover have "strip_prefix (str ''Bearer '') (str ''Bearer '' @ raw) = Some raw"
    by (simp add: strip_prefix_def starts_with_def)
  ultimately show ?thesis
    using assms(5-7) by (simp add: authenticate_def run_alone_bind live_session_def)
qed

text \<open>
  C23. Deleting an account deletes it. Afterwards no row of any table mentions the account or one of its
  devices: not its vault, devices, sessions, pairings, half-finished sign-ins, plan, audit trail, failure
  counters or sign-up code (the tombstones, which hold hashes only, are added to and lose nothing). Every row of
  another account is what it was, and so is every failure counter and every sign-up code under another key. For
  thirty days each token that was signed in is answered that the account was deleted.
\<close>

theorem erased_account_leaves_nothing:
  assumes "db' = erase_account env a now db" and "table_ok (t_sessions db)"
  shows "get (t_accounts db') = (get (t_accounts db))(a := None) \<and>
    (\<forall>v x. (v, x) \<in> set (t_vaults db') \<longleftrightarrow> (v, x) \<in> set (t_vaults db) \<and> fst x \<noteq> a) \<and>
    (\<forall>d r. (d, r) \<in> set (t_devices db') \<longleftrightarrow> (d, r) \<in> set (t_devices db) \<and> dw_account_id r \<noteq> a) \<and>
    (\<forall>h s. (h, s) \<in> set (t_sessions db') \<longleftrightarrow> (h, s) \<in> set (t_sessions db) \<and> sw_account_id s \<noteq> a \<and>
       (\<forall>d r. (d, r) \<in> set (t_devices db) \<and> dw_account_id r = a \<longrightarrow> sw_device_id s \<noteq> d)) \<and>
    (\<forall>u p. (u, p) \<in> set (t_pairings db') \<longleftrightarrow> (u, p) \<in> set (t_pairings db) \<and> gw_account_id p \<noteq> Some a \<and>
       (\<forall>d r. (d, r) \<in> set (t_devices db) \<and> dw_account_id r = a \<longrightarrow> gw_device_id p \<noteq> d)) \<and>
    (\<forall>u p. (u, p) \<in> set (t_pending db') \<longleftrightarrow> (u, p) \<in> set (t_pending db) \<and> nw_account_id p \<noteq> Some a) \<and>
    get (bd_rows (t_billing db')) = (get (bd_rows (t_billing db)))(a := None) \<and>
    set (bd_events (t_billing db')) = {e \<in> set (bd_events (t_billing db)). be_account e \<noteq> a} \<and>
    get (t_attempts db') (account_key a) = None \<and>
    (\<forall>r. get (t_accounts db) a = Some r \<longrightarrow> get (t_codes db') (aw_email r) = None \<and> get (t_attempts db') (signup_email_key env (aw_email r)) = None) \<and>
    (\<forall>k. k \<noteq> account_key a \<and> k \<notin> signup_email_key env ` aw_email ` set_option (get (t_accounts db) a) \<longrightarrow>
       get (t_attempts db') k = get (t_attempts db) k) \<and>
    (\<forall>e. e \<notin> aw_email ` set_option (get (t_accounts db) a) \<longrightarrow> get (t_codes db') e = get (t_codes db) e) \<and>
    (\<forall>h t. get (t_deleted_sessions db) h = Some t \<longrightarrow> get (t_deleted_sessions db') h = Some t) \<and>
    (\<forall>h t. get (t_deleted_devices db) h = Some t \<longrightarrow> get (t_deleted_devices db') h = Some t) \<and>
    (\<forall>raw s t. get (t_sessions db) (token_hash env raw) = Some s \<and> sw_account_id s = a \<and>
       get (t_deleted_sessions db) (token_hash env raw) = None \<and> raw \<noteq> [] \<and> str_len raw \<le> 128 \<and> t < now + TOMBSTONE_DAYS * DAY \<longrightarrow>
       run_alone (authenticate env (Some (str ''Bearer '' @ raw))) t db' = (Inl AccountDeleted, db'))"
proof -
  have tok: "run_alone (authenticate env (Some (str ''Bearer '' @ raw))) t db' = (Inl AccountDeleted, db')"
    if "get (t_sessions db) (token_hash env raw) = Some s \<and> sw_account_id s = a \<and>
       get (t_deleted_sessions db) (token_hash env raw) = None \<and> raw \<noteq> [] \<and> str_len raw \<le> 128 \<and> t < now + TOMBSTONE_DAYS * DAY" for raw s t
    using erased_token [OF assms(2), of env raw s a t now] that unfolding assms(1) by simp
  have rows: "get (t_attempts db') (account_key a) = None"
    "get (t_accounts db) a = Some r \<Longrightarrow> get (t_codes db') (aw_email r) = None \<and> get (t_attempts db') (signup_email_key env (aw_email r)) = None" for r
    by (simp_all add: assms(1) erase_account_def delete_account_row_def Let_def split: option.splits)
  have sets: "(\<forall>v x. (v, x) \<in> set (t_vaults db') \<longleftrightarrow> (v, x) \<in> set (t_vaults db) \<and> fst x \<noteq> a)"
    "(\<forall>d r. (d, r) \<in> set (t_devices db') \<longleftrightarrow> (d, r) \<in> set (t_devices db) \<and> dw_account_id r \<noteq> a)"
    "(\<forall>h s. (h, s) \<in> set (t_sessions db') \<longleftrightarrow> (h, s) \<in> set (t_sessions db) \<and> sw_account_id s \<noteq> a \<and>
       (\<forall>d r. (d, r) \<in> set (t_devices db) \<and> dw_account_id r = a \<longrightarrow> sw_device_id s \<noteq> d))"
    "(\<forall>u p. (u, p) \<in> set (t_pairings db') \<longleftrightarrow> (u, p) \<in> set (t_pairings db) \<and> gw_account_id p \<noteq> Some a \<and>
       (\<forall>d r. (d, r) \<in> set (t_devices db) \<and> dw_account_id r = a \<longrightarrow> gw_device_id p \<noteq> d))"
    "(\<forall>u p. (u, p) \<in> set (t_pending db') \<longleftrightarrow> (u, p) \<in> set (t_pending db) \<and> nw_account_id p \<noteq> Some a)"
    unfolding assms(1) erase_account_def delete_account_row_def Let_def by (auto simp: in_without image_iff)
  have plain: "get (t_accounts db') = (get (t_accounts db))(a := None)" "get (bd_rows (t_billing db')) = (get (bd_rows (t_billing db)))(a := None)"
    "set (bd_events (t_billing db')) = {e \<in> set (bd_events (t_billing db)). be_account e \<noteq> a}"
    by (simp_all add: assms(1) erase_account_def delete_account_row_def Let_def)
  have other: "\<forall>k. k \<noteq> account_key a \<and> k \<notin> signup_email_key env ` aw_email ` set_option (get (t_accounts db) a) \<longrightarrow>
      get (t_attempts db') k = get (t_attempts db) k"
    "\<forall>e. e \<notin> aw_email ` set_option (get (t_accounts db) a) \<longrightarrow> get (t_codes db') e = get (t_codes db) e"
    by (auto simp: assms(1) erase_account_def delete_account_row_def Let_def split: option.splits)
  have tombs: "\<forall>h t. get (t_deleted_sessions db) h = Some t \<longrightarrow> get (t_deleted_sessions db') h = Some t"
    "\<forall>h t. get (t_deleted_devices db) h = Some t \<longrightarrow> get (t_deleted_devices db') h = Some t"
    by (simp_all add: assms(1) erase_account_def delete_account_row_def Let_def get_bury)
  show ?thesis by (intro conjI plain sets rows other tombs) (use rows tok in blast)+
qed

theorem erased_account_leaves_nothing_witness:
  "run_alone (authenticate toy_srv (Some (str ''Bearer '' @ [65]))) 5 (erase_account toy_srv 1 0 toy_db) =
     (Inl AccountDeleted, erase_account toy_srv 1 0 toy_db)"
proof -
  have "table_ok (t_sessions toy_db)" by (simp add: toy_db_def table_ok_def)
  note told = erased_account_leaves_nothing [OF refl this, of toy_srv 1 0]
  have "\<forall>raw s t. get (t_sessions toy_db) (token_hash toy_srv raw) = Some s \<and> sw_account_id s = 1 \<and>
      get (t_deleted_sessions toy_db) (token_hash toy_srv raw) = None \<and> raw \<noteq> [] \<and> str_len raw \<le> 128 \<and> t < 0 + TOMBSTONE_DAYS * DAY \<longrightarrow>
      run_alone (authenticate toy_srv (Some (str ''Bearer '' @ raw))) t (erase_account toy_srv 1 0 toy_db) = (Inl AccountDeleted, erase_account toy_srv 1 0 toy_db)"
    using told by (elim conjE)
  note told = this [rule_format]
  show ?thesis
    by (rule told [of "[65]" "\<lparr>sw_account_id = 1, sw_device_id = 3, sw_expires_at = 100\<rparr>"])
      (simp add: toy_db_def empty_db_def get_def str_len_def utf8_len_def TOMBSTONE_DAYS_def DAY_def HOUR_def MINUTE_def SECOND_def)
qed

subsection \<open>Changing the credentials\<close>

definition same_credentials :: "srv_db \<Rightarrow> srv_db \<Rightarrow> bool" where
  "same_credentials db db' \<longleftrightarrow> t_accounts db' = t_accounts db \<and> t_vaults db' = t_vaults db \<and> t_sessions db' = t_sessions db"

text \<open>
  A proof that passed, in the history of a request. The stored credentials were read at one of its
  steps. A legacy key was checked against their verifier, and there was no OPAQUE record. An OPAQUE proof
  finished the exchange of a row that a step of this request took out of the table, a row that had been
  made for a reauthentication of this account and had not run out.
\<close>

definition proved :: "srv_env \<Rightarrow> uuid \<Rightarrow> srv_db steps_taken \<Rightarrow> stored \<Rightarrow> Proof \<Rightarrow> bool" where
  "proved env a h st p \<longleftrightarrow> (\<exists>now db db'. (now, db, db') \<in> set h \<and> load_stored a db = Inr st) \<and> (case p of
     LegacyProof key \<Rightarrow> (\<exists>v. st_verifier st = Some v \<and> sv_argon_verify env v key) \<and> st_record st = None
   | PakeProof u f \<Rightarrow> \<exists>now db db' r. (now, db, db') \<in> set h \<and> get (t_pending db) (id_hash env u) = Some r \<and>
       get (t_pending db') (id_hash env u) = None \<and> nw_purpose r = Reauth \<and> now < nw_expires_at r \<and>
       nw_account_id r = Some a \<and> sv_login_finish env (nw_state r) f)"

definition credential_step ::
  "srv_env \<Rightarrow> bytes \<Rightarrow> auth_session \<Rightarrow> credentials_request \<Rightarrow> srv_db steps_taken \<Rightarrow> int \<Rightarrow> srv_db \<Rightarrow> srv_db \<Rightarrow> bool" where
  "credential_step env rnd ses req h now db db' \<longleftrightarrow> same_credentials db db' \<or> all_keep same_credentials h \<and>
     (\<exists>st p slt k verifier rec n. credentials_tx ses st req slt verifier rec now db = Inr (n, db') \<and>
        check_kdf env (cc_kdf req) = Inr slt \<and>
        proof_from env (cc_current_auth_key req) (cc_reauth_id req) (cc_credential_finalization req) = Inr p \<and>
        new_key_from env (cc_new_auth_key req) (cc_registration_upload req) p = Inr k \<and>
        install_key env rnd k = Inr (verifier, rec) \<and> proved env (ses_account_id ses) h st p)"

lemma proved_mono: "proved env a h st p \<Longrightarrow> set h \<subseteq> set k \<Longrightarrow> proved env a k st p"
  unfolding proved_def by (cases p) (simp; blast)+

lemma same_refl [simp]: "same_credentials db db"
  by (simp add: same_credentials_def)

lemma rate_same [simp]:
  "same_credentials db (put_attempt k r db)" "same_credentials db (db\<lparr>t_attempts := ts\<rparr>)" "same_credentials db (db\<lparr>t_pending := ps\<rparr>)"
  by (simp_all add: same_credentials_def put_attempt_def)

lemma spend_same: "same_credentials db (spend_attempt now k (spend_attempt now j (touch_attempt now k (touch_attempt now j db))))"
  by (auto simp: same_credentials_def spend_attempt_def touch_attempt_def put_attempt_def split: option.splits)

lemma credential_frames:
  "steps_ok same_credentials (charge ks)" "steps_ok same_credentials (clear_keys ks)"
  "steps_ok same_credentials (take_pending env why u)"
  unfolding charge_def charge_tx_def clear_keys_def clear_attempts_def take_pending_def
  by (intro steps; force simp: Let_def spend_same split: if_splits option.splits)+

lemma check_proof_frame: "steps_ok same_credentials (check_proof env slot a st p)"
  unfolding check_proof_def
  by (cases p; simp only: Proof.simps; intro steps credential_frames; simp)

lemma check_proof_finishes:
  assumes "all_keep same_credentials h" and "(now, db, db') \<in> set h" and "load_stored a db = Inr st"
  shows "finishes (\<lambda>k r. \<forall>x. r = Inr x \<longrightarrow> all_keep same_credentials k \<and> proved env a k st p) (check_proof env slot a st p) h"
proof (cases p)
  case (LegacyProof key)
  show ?thesis unfolding LegacyProof check_proof_def
    using assms
    by (auto simp: attempt_def query_def pure_def proved_def verify_auth_key_def all_keep_def result_simps split: sum.splits option.splits)
next
  case (PakeProof u f)
  have taken: "proved env a (h @ [(t, d, d\<lparr>t_pending := drop_key (id_hash env u) (t_pending d)\<rparr>)]) st (PakeProof u f)"
    if "get (t_pending d) (id_hash env u) = Some r" "nw_purpose r = Reauth" "t < nw_expires_at r" "nw_account_id r = Some a"
      "sv_login_finish env (nw_state r) f" for t d r
    unfolding proved_def Proof.simps
  proof (rule conjI, goal_cases)
    case 1
    show "\<exists>now db db'. (now, db, db') \<in> set (h @ [(t, d, d\<lparr>t_pending := drop_key (id_hash env u) (t_pending d)\<rparr>)]) \<and> load_stored a db = Inr st"
      using assms by auto
  next
    case 2
    show ?case
      by (rule exI [of _ t], rule exI [of _ d], rule exI [of _ "d\<lparr>t_pending := drop_key (id_hash env u) (t_pending d)\<rparr>"], rule exI [of _ r])
        (use that in simp)
  qed
  show ?thesis unfolding PakeProof check_proof_def Proof.simps take_pending_def
    using assms
    by (auto simp: attempt_def result_simps snd_map_prod intro: taken split: sum.splits option.splits)
qed

lemma credentials_tx_Inr:
  assumes "credentials_tx ses st req slt verifier rec now db = Inr (n, db')"
  obtains r v owner where "get (t_accounts db) (ses_account_id ses) = Some r" "aw_status r = ActiveAccount"
    "st = \<lparr>st_verifier = aw_auth_verifier r, st_record = aw_opaque_record r, st_grace_until = aw_legacy_grace_until r\<rparr>"
    "get (t_vaults db) (ses_vault_id ses) = Some (owner, v)" "cc_base_header_revision req = vr_header_revision v"
    "n = vr_header_revision v + 1"
    "db' = drop_sessions (\<lambda>h s. sw_account_id s = ses_account_id ses \<and> h \<noteq> ses_token_hash ses) (db\<lparr>
       t_accounts := put (ses_account_id ses) (r\<lparr>aw_kdf := Some (kd_memory_kib (cc_kdf req), kd_iterations (cc_kdf req), kd_parallelism (cc_kdf req), slt),
         aw_auth_verifier := verifier, aw_opaque_record := rec\<rparr>) (t_accounts db),
       t_vaults := put (ses_vault_id ses) (owner, v\<lparr>vr_header := cc_header req, vr_header_revision := n\<rparr>) (t_vaults db)\<rparr>)"
  using assms by (auto simp: credentials_tx_def load_stored_def result_simps Let_def split: option.splits if_splits)

lemma credential_step_same: "same_credentials db db' \<Longrightarrow> credential_step env rnd ses req h now db db'"
  by (simp add: credential_step_def)

lemma finishes_quiet:
  assumes "steps_ok same_credentials p" and "all_keep same_credentials h"
  shows "finishes (\<lambda>k r. \<forall>x. r = Inr x \<longrightarrow> all_keep same_credentials k) p h"
  by (rule finishes_mono [OF finishes_keep [OF assms, of "[]"]]) simp_all

lemma cleared_finishes:
  assumes "all_keep same_credentials h \<and> proved env a h st p"
  shows "finishes (\<lambda>k r. \<forall>x. r = Inr x \<longrightarrow> all_keep same_credentials k \<and> proved env a k st p) (clear_keys ks) h"
proof (rule finishes_mono [OF finishes_keep [OF credential_frames(2) _ order.refl]])
  show "all_keep same_credentials h" using assms by blast
  fix k r
  assume "all_keep same_credentials k \<and> set h \<subseteq> set k"
  then show "\<forall>x. r = Inr x \<longrightarrow> all_keep same_credentials k \<and> proved env a k st p"
    using assms proved_mono by blast
qed

lemma stored_finishes:
  assumes "all_keep same_credentials h"
  shows "finishes (\<lambda>k r. \<forall>x. r = Inr x \<longrightarrow> all_keep same_credentials k \<and> (\<exists>now db db'. (now, db, db') \<in> set k \<and> load_stored a db = Inr x))
    (query (\<lambda>_. load_stored a)) h"
  using assms by (auto simp: query_def all_keep_def)

lemma change_credentials_steps:
  "steps_from (credential_step env rnd ses req) (change_credentials env rnd slot ip ses req) []"
proof -
  let ?G = "credential_step env rnd ses req" and ?a = "ses_account_id ses"
  have tx: "steps_from ?G (transaction (credentials_tx ses st req slt verifier rec)) h"
    if "all_keep same_credentials h \<and> proved env ?a h st p" "check_kdf env (cc_kdf req) = Inr slt"
      "proof_from env (cc_current_auth_key req) (cc_reauth_id req) (cc_credential_finalization req) = Inr p"
      "new_key_from env (cc_new_auth_key req) (cc_registration_upload req) p = Inr k" "install_key env rnd k = Inr (verifier, rec)"
    for st slt verifier rec h p k
    using that unfolding transaction_def by (auto simp: credential_step_def split: sum.splits)
  have tail: "steps_from ?G
      (attempt (charge ks) (\<lambda>_.
       attempt (query (\<lambda>_. load_stored ?a)) (\<lambda>st.
       attempt (check_proof env slot ?a st p) (\<lambda>_.
       attempt (clear_keys ks) (\<lambda>_.
       attempt (pure (install_key env rnd k)) (\<lambda>(verifier, rec).
       transaction (credentials_tx ses st req slt verifier rec))))))) []"
    if r: "check_kdf env (cc_kdf req) = Inr slt"
      "proof_from env (cc_current_auth_key req) (cc_reauth_id req) (cc_credential_finalization req) = Inr p"
      "new_key_from env (cc_new_auth_key req) (cc_registration_upload req) p = Inr k" for ks slt p k
  proof (rule steps_from_attempt [where Q = "\<lambda>h x. all_keep same_credentials h"], goal_cases)
    case 1
    show ?case by (rule steps_from_keep [OF credential_frames(1)]) (rule credential_step_same)
  next
    case 2
    show ?case by (rule finishes_quiet [OF credential_frames(1)]) (simp add: all_keep_def)
  next
    case (3 h)
    show ?case
    proof (rule steps_from_attempt [OF _ stored_finishes [OF 3]], goal_cases)
      case 1
      show ?case by (simp add: query_def credential_step_def)
    next
      case (2 h st)
      then obtain now db db' where q: "all_keep same_credentials h" "(now, db, db') \<in> set h" "load_stored ?a db = Inr st" by blast
      show ?case
      proof (rule steps_from_attempt [OF _ check_proof_finishes [OF q]], goal_cases)
        case 1
        show ?case by (rule steps_from_keep [OF check_proof_frame]) (rule credential_step_same)
      next
        case (2 h)
        show ?case
        proof (rule steps_from_attempt [OF _ cleared_finishes [OF 2]], goal_cases)
          case 1
          show ?case by (rule steps_from_keep [OF credential_frames(2)]) (rule credential_step_same)
        next
          case (2 h)
          show ?case using tx [OF 2 r] by (auto simp: attempt_pure split: sum.splits)
        qed
      qed
    qed
  qed
  show ?thesis
    unfolding change_credentials_def Let_def attempt_pure
    by (auto split: sum.splits intro: tail [unfolded attempt_pure])
qed

text \<open>
  C11. A password change is all or nothing, and one of two wins. Whatever runs between its statements, a
  request to change the credentials leaves accounts, vaults and sessions alone except in one
  transaction, which it reaches only with a proof that passed: a legacy key that the stored verifier
  accepts, on an account without an OPAQUE record, or an OPAQUE exchange finished on a row that this very
  request took, made for a reauthentication of this account and not run out. What the transaction installs are
  the salt of the request's key parameters and the verifier or the record of the request's new key. That
  transaction finds the credentials the proof was checked against and the header revision the device saw,
  installs the key parameters, the key and the header together under the next revision, ends every other session of
  the account and touches no other account, vault or session; and a second change from the same
  revision is then a conflict.
\<close>

theorem credential_change_atomic:
  assumes "a = ses_account_id ses" and "v = ses_vault_id ses"
  shows "steps_from (credential_step env rnd ses req) (change_credentials env rnd slot ip ses req) [] \<and>
    (credentials_tx ses st req slt verifier rec now db = Inr (n, db') \<longrightarrow>
      load_stored a db = Inr st \<and>
      (\<exists>r owner row. get (t_accounts db) a = Some r \<and> get (t_vaults db) v = Some (owner, row) \<and>
         vr_header_revision row = cc_base_header_revision req \<and> n = cc_base_header_revision req + 1 \<and>
         get (t_accounts db') = (get (t_accounts db))(a \<mapsto> r\<lparr>aw_kdf := Some (kd_memory_kib (cc_kdf req), kd_iterations (cc_kdf req),
           kd_parallelism (cc_kdf req), slt), aw_auth_verifier := verifier, aw_opaque_record := rec\<rparr>) \<and>
         get (t_vaults db') = (get (t_vaults db))(v \<mapsto> (owner, row\<lparr>vr_header := cc_header req, vr_header_revision := n\<rparr>))) \<and>
      (\<forall>h s. (h, s) \<in> set (t_sessions db') \<longleftrightarrow> (h, s) \<in> set (t_sessions db) \<and> (sw_account_id s \<noteq> a \<or> h = ses_token_hash ses)) \<and>
      (ses_account_id ses2 = a \<and> ses_vault_id ses2 = v \<and> cc_base_header_revision req2 = cc_base_header_revision req \<longrightarrow>
         credentials_tx ses2 st2 req2 slt2 verifier2 rec2 t db' = Inl ApiConflict))"
proof (intro conjI impI)
  show "steps_from (credential_step env rnd ses req) (change_credentials env rnd slot ip ses req) []" by (rule change_credentials_steps)
next
  assume tx: "credentials_tx ses st req slt verifier rec now db = Inr (n, db')"
  show "load_stored a db = Inr st" using tx assms by (auto simp: load_stored_def elim!: credentials_tx_Inr)
  show "\<exists>r owner row. get (t_accounts db) a = Some r \<and> get (t_vaults db) v = Some (owner, row) \<and>
      vr_header_revision row = cc_base_header_revision req \<and> n = cc_base_header_revision req + 1 \<and>
      get (t_accounts db') = (get (t_accounts db))(a \<mapsto> r\<lparr>aw_kdf := Some (kd_memory_kib (cc_kdf req), kd_iterations (cc_kdf req),
        kd_parallelism (cc_kdf req), slt), aw_auth_verifier := verifier, aw_opaque_record := rec\<rparr>) \<and>
      get (t_vaults db') = (get (t_vaults db))(v \<mapsto> (owner, row\<lparr>vr_header := cc_header req, vr_header_revision := n\<rparr>))"
    using tx assms by (elim credentials_tx_Inr) (simp add: drop_sessions_def)
  show "\<forall>h s. (h, s) \<in> set (t_sessions db') \<longleftrightarrow> (h, s) \<in> set (t_sessions db) \<and> (sw_account_id s \<noteq> a \<or> h = ses_token_hash ses)"
    using tx assms by (elim credentials_tx_Inr) (auto simp: drop_sessions_def)
  assume same: "ses_account_id ses2 = a \<and> ses_vault_id ses2 = v \<and> cc_base_header_revision req2 = cc_base_header_revision req"
  show "credentials_tx ses2 st2 req2 slt2 verifier2 rec2 t db' = Inl ApiConflict"
    using tx assms same
    by (elim credentials_tx_Inr) (auto simp: credentials_tx_def load_stored_def drop_sessions_def)
qed

definition toy_change_req :: credentials_request where
  "toy_change_req = \<lparr>cc_current_auth_key = Some (replicate 32 7), cc_reauth_id = None, cc_credential_finalization = None,
     cc_kdf = \<lparr>kd_algorithm = [], kd_memory_kib = 0, kd_iterations = 0, kd_parallelism = 0, kd_salt = []\<rparr>,
     cc_new_auth_key = None, cc_registration_upload = None, cc_header = [8], cc_base_header_revision = 0\<rparr>"

theorem credential_change_atomic_witness:
  "\<exists>n db'. credentials_tx toy_auth \<lparr>st_verifier = Some (replicate 32 7), st_record = None, st_grace_until = None\<rparr> toy_change_req [] None (Some [1]) 0 toy_db = Inr (n, db') \<and> n = 1 \<and>
     credentials_tx toy_auth \<lparr>st_verifier = None, st_record = None, st_grace_until = None\<rparr> toy_change_req [] None None 0 db' = Inl ApiConflict"
proof -
  obtain n db' where tx: "credentials_tx toy_auth \<lparr>st_verifier = Some (replicate 32 7), st_record = None, st_grace_until = None\<rparr> toy_change_req [] None (Some [1]) 0 toy_db = Inr (n, db')"
    by (simp add: credentials_tx_def load_stored_def toy_auth_def toy_db_def empty_db_def toy_row_def new_account_row_def toy_change_req_def
        activated_vault_def get_def Let_def)
  note w = credential_change_atomic [OF refl refl, where ?ses2.0 = toy_auth and ?st2.0 = "\<lparr>st_verifier = None, st_record = None, st_grace_until = None\<rparr>"
    and ?req2.0 = toy_change_req and ?slt2.0 = "[]" and ?verifier2.0 = None and ?rec2.0 = None and t = 0, THEN conjunct2, rule_format, OF tx]
  have "n = 1" using w by (auto simp: toy_change_req_def)
  moreover have "credentials_tx toy_auth \<lparr>st_verifier = None, st_record = None, st_grace_until = None\<rparr> toy_change_req [] None None 0 db' = Inl ApiConflict"
    using w by simp
  ultimately show ?thesis using tx by blast
qed

subsection \<open>Sign-up codes\<close>

text \<open>Checks of the code of one address, with what each came to; an error rolls its check back.\<close>

fun guess_codes :: "srv_env \<Rightarrow> rstring \<Rightarrow> (int \<times> rstring \<times> rstring \<times> uuid) list \<Rightarrow> srv_db \<Rightarrow> verify_outcome option list" where
  "guess_codes env email [] db = []"
| "guess_codes env email ((now, code, sec, u) # gs) db = (case verify_tx env sec u email code now db of
     Inl _ \<Rightarrow> None # guess_codes env email gs db
   | Inr (x, db') \<Rightarrow> Some x # guess_codes env email gs db')"

lemma verify_gone: "get (t_codes db) email = None \<Longrightarrow> verify_tx env sec u email code now db = Inr (NoCode, db)"
  by (simp add: verify_tx_def)

lemma guess_gone: "get (t_codes db) email = None \<Longrightarrow> set (guess_codes env email gs db) \<subseteq> {Some NoCode}"
  by (induction gs) (auto simp: verify_gone)

lemma verify_outcomes:
  assumes "verify_tx env sec u email code now db = Inr (x, db')" "get (t_codes db) email = Some r" "cw_attempts r < 5"
  shows "x = WrongCode \<and> cw_attempts r < 4 \<and> get (t_codes db') email = Some (r\<lparr>cw_attempts := cw_attempts r + 1\<rparr>) \<or>
    x = WrongCode \<and> get (t_codes db') email = None \<or>
    x \<noteq> WrongCode \<and> get (t_codes db') email = None \<and> cw_code_hash r = code_hash env code \<and> now \<le> cw_expires_at r"
  using assms
  by (auto simp: verify_tx_def Let_def drop_code_def CODE_MAX_ATTEMPTS_def split: if_splits option.splits)

lemma guesses_wrong:
  assumes "get (t_codes db) email = Some r" "0 \<le> cw_attempts r" "cw_attempts r < 5"
  shows "int (length (filter (\<lambda>x. x = Some WrongCode) (guess_codes env email gs db))) \<le> 5 - cw_attempts r"
  using assms
proof (induction gs arbitrary: db r)
  case (Cons g gs)
  obtain now code sec u where g: "g = (now, code, sec, u)" by (cases g)
  show ?case
  proof (cases "verify_tx env sec u email code now db")
    case (Inl e)
    then show ?thesis using Cons g by simp
  next
    case (Inr y)
    obtain x db' where y: "y = (x, db')" by (cases y)
    have gone: "get (t_codes db') email = None \<Longrightarrow> filter (\<lambda>x. x = Some WrongCode) (guess_codes env email gs db') = []"
      using guess_gone [of db' email env gs] by (auto simp: filter_empty_conv)
    from verify_outcomes [OF Inr [unfolded y] Cons.prems(1,3)] show ?thesis
    proof (elim disjE conjE)
      assume k: "x = WrongCode" "cw_attempts r < 4" "get (t_codes db') email = Some (r\<lparr>cw_attempts := cw_attempts r + 1\<rparr>)"
      show ?thesis using Cons.IH [OF k(3)] k Cons.prems g Inr y by simp
    qed (use Cons.prems g Inr y gone in auto)
  qed
qed simp

lemma guesses_right:
  assumes "get (t_codes db) email = Some r" "0 \<le> cw_attempts r" "cw_attempts r < 5" "Some (Verified a) \<in> set (guess_codes env email gs db)"
  shows "\<exists>now code sec u. (now, code, sec, u) \<in> set gs \<and> cw_code_hash r = code_hash env code \<and> now \<le> cw_expires_at r"
  using assms
proof (induction gs arbitrary: db r)
  case (Cons g gs)
  obtain now code sec u where g: "g = (now, code, sec, u)" by (cases g)
  show ?case
  proof (cases "verify_tx env sec u email code now db")
    case (Inl e)
    then have "Some (Verified a) \<in> set (guess_codes env email gs db)" using Cons.prems(4) g by simp
    then show ?thesis using Cons.IH [OF Cons.prems(1-3)] by (meson list.set_intros(2))
  next
    case (Inr y)
    obtain x db' where y: "y = (x, db')" by (cases y)
    have gone: "get (t_codes db') email = None \<Longrightarrow> Some (Verified a) \<notin> set (guess_codes env email gs db')"
      using guess_gone [of db' email env gs] by auto
    from verify_outcomes [OF Inr [unfolded y] Cons.prems(1,3)] show ?thesis
    proof (elim disjE conjE)
      assume k: "x = WrongCode" "cw_attempts r < 4" "get (t_codes db') email = Some (r\<lparr>cw_attempts := cw_attempts r + 1\<rparr>)"
      have "Some (Verified a) \<in> set (guess_codes env email gs db')" using Cons.prems(4) g Inr y k(1) by simp
      then have "\<exists>now code sec u. (now, code, sec, u) \<in> set gs \<and> cw_code_hash r = code_hash env code \<and> now \<le> cw_expires_at r"
        using Cons.IH [OF k(3)] k(2) Cons.prems(2) by simp
      then show ?thesis by (meson list.set_intros(2))
    qed (use Cons.prems g Inr y gone in auto)
  qed
qed simp

text \<open>
  A sign-up code has five guesses. After a code was sent to an address, at most five checks of it
  come out wrong before the code is gone, however they are spread over time and callers, and only a
  check with the code that was sent, made within its fifteen minutes, can verify the address.
\<close>

theorem signup_code_five_guesses:
  assumes "db = put_code env code email lang terms now0 db0"
  shows "length (filter (\<lambda>x. x = Some WrongCode) (guess_codes env email gs db)) \<le> 5 \<and>
    (Some (Verified a) \<in> set (guess_codes env email gs db) \<longrightarrow>
      (\<exists>now guess sec u. (now, guess, sec, u) \<in> set gs \<and> code_hash env guess = code_hash env code \<and> now \<le> now0 + CODE_TTL_MINUTES * MINUTE))"
proof -
  obtain r where r: "get (t_codes db) email = Some r" "cw_attempts r = 0" "cw_code_hash r = code_hash env code"
      "cw_expires_at r = now0 + CODE_TTL_MINUTES * MINUTE"
    unfolding assms put_code_def by simp
  show ?thesis using guesses_wrong [OF r(1), of env gs] guesses_right [OF r(1), of a env gs] r(2-4) by force
qed

theorem signup_code_five_guesses_witness:
  "length (filter (\<lambda>x. x = Some WrongCode) (guess_codes toy_srv [64] (replicate 9 (0, [48], [], 1)) (put_code toy_srv [53] [64] En [] 0 empty_db))) \<le> 5"
  using signup_code_five_guesses [OF refl, of toy_srv "[64]" "replicate 9 (0, [48], [], 1)" "[53]" En "[]" 0 empty_db] by blast

end
