(* ===== verification/Pairings.thy ===== *)
theory Pairings
  imports Credentials
begin

text \<open>
  Signing in a new device from an approving one, on the server (\<^verbatim>\<open>routes/pairings.rs\<close>), and the server as a
  whole: every request the routes of \<open>Accounts\<close>, \<open>Credentials\<close> and this theory accept, in any order and
  interleaved statement by statement.
\<close>

section \<open>Model\<close>

subsection \<open>Pairings\<close>

definition fixed32 :: "srv_env \<Rightarrow> rstring \<Rightarrow> string \<Rightarrow> ApiError + bytes" where
  "fixed32 env raw bad =
     (if 64 < str_len raw then Inl (ApiInvalidRequest bad)
      else and_then (ok_or (ApiInvalidRequest bad) (sv_unb64url env raw)) (\<lambda>b.
        if length b = 32 then Inr b else Inl (ApiInvalidRequest bad)))"

definition check_pairing_id :: "srv_env \<Rightarrow> rstring \<Rightarrow> ApiError + rstring" where
  "check_pairing_id env raw =
     (if str_len raw = 22 \<and> (case sv_unb64url env raw of Some b \<Rightarrow> length b = 16 | None \<Rightarrow> False) then Inr raw else Inl ApiNotFound)"

definition create_tx ::
  "srv_env \<Rightarrow> bytes \<Rightarrow> rstring \<Rightarrow> uuid \<Rightarrow> rstring \<Rightarrow> bytes \<Rightarrow> int \<Rightarrow> srv_db \<Rightarrow> ApiError + (rstring \<times> int) \<times> srv_db" where
  "create_tx env rnd ip d name hash now db =
     (let old = without (\<lambda>_ r. gw_created_at r < now - PAIRING_MAX_AGE_MINUTES * MINUTE) (t_pairings db);
          mine = filter (\<lambda>(_, r). gw_ip r = ip) old;
          waiting = filter (\<lambda>(_, r). gw_state r = Pending \<and> now < gw_expires_at r) mine;
          u = sv_b64url env rnd; expires = now + PAIRING_TTL_SECONDS * SECOND in
      if PAIRINGS_PER_IP \<le> length mine \<or> PENDING_PAIRINGS_PER_IP \<le> length waiting then Inl RateLimited
      else if has_key old u then Inl ApiInternal
      else Inr ((u, expires), db\<lparr>t_pairings := put u \<lparr>gw_state = Pending, gw_device_id = d, gw_device_name = name, gw_claim_hash = hash,
        gw_ip = ip, gw_location = sv_locate env ip, gw_created_at = now, gw_expires_at = expires, gw_account_id = None,
        gw_envelope = None\<rparr> old\<rparr>))"

definition create_pairing :: "srv_env \<Rightarrow> bytes \<Rightarrow> rstring \<Rightarrow> uuid \<Rightarrow> rstring \<Rightarrow> rstring \<Rightarrow> (rstring \<times> int) handler" where
  "create_pairing env rnd ip d device_name raw_hash =
     attempt (pure (clean_device_name env device_name)) (\<lambda>name.
     attempt (pure (fixed32 env raw_hash ''claimHash is not valid'')) (\<lambda>hash.
     transaction (create_tx env rnd ip d name hash)))"

text \<open>What a session of an account may act on: a live pairing, not bound to another account.\<close>

definition open_pairing :: "rstring \<Rightarrow> uuid \<Rightarrow> int \<Rightarrow> srv_db \<Rightarrow> pairing_row option" where
  "open_pairing u a now db = (case get (t_pairings db) u of
     Some r \<Rightarrow> if gw_state r = Pending \<and> now < gw_expires_at r \<and> (gw_account_id r = None \<or> gw_account_id r = Some a) then Some r else None
   | None \<Rightarrow> None)"

record pairing_details =
  pd_device_name :: rstring
  pd_ip :: rstring
  pd_location :: "rstring option"
  pd_created_at :: int
  pd_expires_at :: int

definition set_pairing :: "rstring \<Rightarrow> pairing_row \<Rightarrow> srv_db \<Rightarrow> srv_db" where
  "set_pairing u r db = db\<lparr>t_pairings := put u r (t_pairings db)\<rparr>"

definition details_tx :: "rstring \<Rightarrow> uuid \<Rightarrow> int \<Rightarrow> srv_db \<Rightarrow> ApiError + pairing_details \<times> srv_db" where
  "details_tx u a now db =
     and_then (ok_or ApiNotFound (open_pairing u a now db)) (\<lambda>r.
     Inr (\<lparr>pd_device_name = gw_device_name r, pd_ip = gw_ip r, pd_location = gw_location r, pd_created_at = gw_created_at r,
       pd_expires_at = gw_expires_at r\<rparr>, set_pairing u (r\<lparr>gw_account_id := Some a\<rparr>) db))"

definition details :: "srv_env \<Rightarrow> auth_session \<Rightarrow> rstring \<Rightarrow> pairing_details handler" where
  "details env ses raw = attempt (pure (check_pairing_id env raw)) (\<lambda>u. transaction (details_tx u (ses_account_id ses)))"

definition approved_by :: "uuid \<Rightarrow> uuid \<Rightarrow> srv_db \<Rightarrow> srv_db" where
  "approved_by d approver db = (case get (t_devices db) d of
     None \<Rightarrow> db | Some r \<Rightarrow> db\<lparr>t_devices := put d (r\<lparr>dw_approved_by := Some approver\<rparr>) (t_devices db)\<rparr>)"

definition CANNOT_APPROVE :: ApiError where "CANNOT_APPROVE = ApiInvalidRequest ''this device cannot be approved''"

definition approve_tx :: "rstring \<Rightarrow> auth_session \<Rightarrow> bytes \<Rightarrow> int \<Rightarrow> srv_db \<Rightarrow> ApiError + unit \<times> srv_db" where
  "approve_tx u ses envelope now db =
     and_then (ok_or ApiNotFound (open_pairing u (ses_account_id ses) now db)) (\<lambda>r.
     if gw_device_id r = ses_device_id ses then Inl CANNOT_APPROVE
     else
       and_then (map_err (\<lambda>e. if e = ApiUnauthorized then CANNOT_APPROVE else e)
         (register_device_tx (ses_account_id ses) (gw_device_id r) (gw_device_name r) now db)) (\<lambda>(_, db1).
       Inr ((), set_pairing u (r\<lparr>gw_state := Approved, gw_account_id := Some (ses_account_id ses), gw_envelope := Some envelope\<rparr>)
         (approved_by (gw_device_id r) (ses_device_id ses) db1))))"

definition approve :: "srv_env \<Rightarrow> auth_session \<Rightarrow> rstring \<Rightarrow> rstring \<Rightarrow> unit handler" where
  "approve env ses raw raw_envelope =
     (let bad = ApiInvalidRequest ''envelope is not valid'' in
      attempt (pure (require_full (server_session.truncate ses))) (\<lambda>_.
      attempt (pure (check_pairing_id env raw)) (\<lambda>u.
      if MAX_PAIRING_ENVELOPE_BYTES div 3 * 4 + 4 < str_len raw_envelope then Done (Inl bad)
      else
      attempt (pure (ok_or bad (sv_unb64 env raw_envelope))) (\<lambda>envelope.
      if envelope = [] \<or> MAX_PAIRING_ENVELOPE_BYTES < length envelope then Done (Inl bad)
      else transaction (approve_tx u ses envelope)))))"

definition deny_tx :: "rstring \<Rightarrow> uuid \<Rightarrow> int \<Rightarrow> srv_db \<Rightarrow> ApiError + unit \<times> srv_db" where
  "deny_tx u a now db =
     and_then (ok_or ApiNotFound (open_pairing u a now db)) (\<lambda>r.
     Inr ((), set_pairing u (r\<lparr>gw_state := Denied, gw_account_id := Some a\<rparr>) db))"

definition deny :: "srv_env \<Rightarrow> auth_session \<Rightarrow> rstring \<Rightarrow> unit handler" where
  "deny env ses raw = attempt (pure (check_pairing_id env raw)) (\<lambda>u. transaction (deny_tx u (ses_account_id ses)))"

record claim_grant =
  cg_token :: rstring
  cg_expires_at :: int
  cg_account_id :: uuid
  cg_vault_id :: uuid
  cg_envelope :: bytes

datatype claim_reply = ClaimWaiting | ClaimDenied | ClaimApproved claim_grant

text \<open>
  The claim's transaction. \<open>Inr None\<close> stands for a wrong secret, which the caller counts after the
  transaction; a row with an approval holds its account and its envelope (a NULL would be a panic of
  the driver, answered as an internal error).
\<close>

definition claim_tx :: "srv_env \<Rightarrow> bytes \<Rightarrow> rstring \<Rightarrow> bytes \<Rightarrow> int \<Rightarrow> srv_db \<Rightarrow> ApiError + claim_reply option \<times> srv_db" where
  "claim_tx env rnd u sec now db =
     and_then (ok_or ApiNotFound (case get (t_pairings db) u of
         Some r \<Rightarrow> if now - PAIRING_MAX_AGE_MINUTES * MINUTE < gw_created_at r then Some r else None
       | None \<Rightarrow> None)) (\<lambda>r.
     if gw_claim_hash r \<noteq> srv_sha256 env sec then Inr (None, db)
     else case gw_state r of
       Pending \<Rightarrow> if now < gw_expires_at r then Inr (Some ClaimWaiting, db) else Inl ApiNotFound
     | Denied \<Rightarrow> Inr (Some ClaimDenied, set_pairing u (r\<lparr>gw_state := Claimed\<rparr>) db)
     | Approved \<Rightarrow>
         and_then (ok_or ApiInternal (gw_account_id r)) (\<lambda>a.
         and_then (ok_or ApiInternal (gw_envelope r)) (\<lambda>envelope.
         and_then (ok_or ApiInternal (vault_of db a)) (\<lambda>v.
         and_then (issue_token env rnd a (gw_device_id r) now (drop_sessions (\<lambda>_ s. sw_device_id s = gw_device_id r) db)) (\<lambda>((token, expires), db1).
         Inr (Some (ClaimApproved \<lparr>cg_token = token, cg_expires_at = expires, cg_account_id = a, cg_vault_id = v, cg_envelope = envelope\<rparr>),
           set_pairing u (r\<lparr>gw_state := Claimed, gw_envelope := None\<rparr>) db1)))))
     | Claimed \<Rightarrow> Inl ApiNotFound)"

definition claim :: "srv_env \<Rightarrow> bytes \<Rightarrow> rstring \<Rightarrow> rstring \<Rightarrow> rstring \<Rightarrow> claim_reply handler" where
  "claim env rnd ip raw raw_secret =
     attempt (pure (check_pairing_id env raw)) (\<lambda>u.
     attempt (pure (fixed32 env raw_secret ''claimSecret is not valid'')) (\<lambda>sec.
     attempt (rate_check (ip_key env ip)) (\<lambda>_.
     attempt (transaction (claim_tx env rnd u sec)) (\<lambda>answer. case answer of
         Some reply \<Rightarrow> Done (Inr reply)
       | None \<Rightarrow> attempt (record_failure (ip_key env ip)) (\<lambda>_. Done (Inl ApiNotFound))))))"

subsection \<open>The server\<close>

text \<open>
  Every request a caller may make, with whatever token, and the operator's commands. A route behind a
  session starts with \<open>authenticate\<close>. \<open>ids\<close> and \<open>codes\<close> are account and pairing identifiers that the random
  generator does not draw in this run.
\<close>

definition with_auth :: "srv_env \<Rightarrow> rstring option \<Rightarrow> (auth_session \<Rightarrow> 'a handler) \<Rightarrow> 'a handler" where
  "with_auth env authorization h = attempt (authenticate env authorization) h"

text \<open>The writes of a vault, over the rows of \<open>Server\<close>.\<close>

definition store_vault :: "uuid \<Rightarrow> vault_row option \<Rightarrow> srv_db \<Rightarrow> srv_db" where
  "store_vault v m db = (case (get (t_vaults db) v, m) of
     (Some (a, _), Some row) \<Rightarrow> db\<lparr>t_vaults := put v (a, row) (t_vaults db)\<rparr>
   | _ \<Rightarrow> db)"

definition write_route :: "int \<Rightarrow> change list \<Rightarrow> auth_session \<Rightarrow> write_reply handler" where
  "write_route max_bytes changes ses = Step (\<lambda>now db.
     case write_items max_bytes (server_session.truncate ses) changes (\<lambda>v. map_option snd (get (t_vaults db) v)) of
       (r, rows) \<Rightarrow> (store_vault (ses_vault_id ses) (rows (ses_vault_id ses)) db, Done r))"

definition upload_route :: "int \<Rightarrow> uuid \<Rightarrow> uuid \<Rightarrow> bytes \<Rightarrow> auth_session \<Rightarrow> unit handler" where
  "upload_route max_bytes att item blob ses = transaction (\<lambda>now db.
     and_then (ok_or ApiInternal (get (t_vaults db) (ses_vault_id ses))) (\<lambda>(a, v).
     and_then (put_attachment max_bytes (server_session.truncate ses) att item blob v) (\<lambda>w.
     Inr ((), store_vault (ses_vault_id ses) (Some w) db))))"

inductive request :: "srv_env \<Rightarrow> uuid set \<Rightarrow> rstring set \<Rightarrow> (srv_db, unit) prog \<Rightarrow> bool" for env ids codes where
  req_params: "request env ids codes (answered (params env email))"
| req_login: "request env ids codes (answered (login env rnd slot ip email key d name))"
| req_pake_start: "request env ids codes (answered (pake_start env rnd rnd2 ip email msg d))"
| req_pake_finish: "request env ids codes (answered (pake_finish env rnd ip login_id msg d name))"
| req_logout: "request env ids codes (answered (with_auth env tok logout))"
| req_list: "request env ids codes (answered (with_auth env tok list_devices))"
| req_revoke: "request env ids codes (answered (with_auth env tok (\<lambda>ses. revoke ses d)))"
| req_credentials: "request env ids codes (answered (with_auth env tok (\<lambda>ses. change_credentials env rnd slot ip ses req)))"
| req_delete: "request env ids codes (answered (with_auth env tok (\<lambda>ses. delete_account env slot ip ses del)))"
| req_register: "request env ids codes (answered (with_auth env tok (\<lambda>ses. pake_register env ses msg)))"
| req_reauth: "request env ids codes (answered (with_auth env tok (\<lambda>ses. pake_reauth env rnd rnd2 ip ses msg)))"
| req_enroll: "request env ids codes (answered (with_auth env tok (\<lambda>ses. pake_enroll env slot ip ses key msg)))"
| req_activate_register: "request env ids codes (answered (activate_register env ip email invi msg))"
| req_activate: "request env ids codes (answered (activate env rnd ip act))"
| req_signup: "request env ids codes (answered (signup_start env code sent ip email lang terms))"
| req_verify: "u \<notin> ids \<Longrightarrow> request env ids codes (answered (signup_verify env sec u ip email code))"
| req_create: "sv_b64url env rnd \<notin> codes \<Longrightarrow> request env ids codes (answered (create_pairing env rnd ip d name hash))"
| req_details: "request env ids codes (answered (with_auth env tok (\<lambda>ses. details env ses raw)))"
| req_approve: "request env ids codes (answered (with_auth env tok (\<lambda>ses. approve env ses raw envelope)))"
| req_deny: "request env ids codes (answered (with_auth env tok (\<lambda>ses. deny env ses raw)))"
| req_claim: "request env ids codes (answered (claim env rnd ip raw sec))"
| req_write: "request env ids codes (answered (with_auth env tok (write_route mx changes)))"
| req_upload: "request env ids codes (answered (with_auth env tok (upload_route mx att item blob)))"
| req_new_account: "u \<notin> ids \<Longrightarrow> request env ids codes (answered (new_account env u sec email url trial))"
| req_grace: "request env ids codes (answered (allow_legacy_sign_in env email))"
| req_plan: "request env ids codes (answered (admin_set_plan env email st until))"
| req_admin_delete: "request env ids codes (answered (admin_delete_account env email))"
| req_daily: "request env ids codes (answered run_daily)"
| req_sweep: "request env ids codes (answered sweep_tombstones)"

section \<open>Properties\<close>

subsection \<open>What every request keeps\<close>

text \<open>
  An account that is gone stays gone; a device keeps its owner, and stays revoked, as long as its
  account is there; a pairing moves from pending to approved or denied and to claimed, and once it has
  an account it keeps it.
\<close>

definition pairing_step :: "pairing_row \<Rightarrow> pairing_row \<Rightarrow> bool" where
  "pairing_step r s \<longleftrightarrow> gw_claim_hash s = gw_claim_hash r \<and> gw_device_id s = gw_device_id r \<and> gw_created_at s = gw_created_at r \<and>
     (gw_state r = gw_state s \<or> gw_state r = Pending \<or> gw_state s = Claimed) \<and>
     (gw_account_id r \<noteq> None \<longrightarrow> gw_account_id s = gw_account_id r) \<and>
     (gw_state r = Approved \<and> gw_state s = Approved \<longrightarrow> gw_envelope s = gw_envelope r)"

definition device_kept :: "device_row \<Rightarrow> device_row \<Rightarrow> bool" where
  "device_kept r s \<longleftrightarrow> dw_account_id s = dw_account_id r \<and> (dw_revoked_at r \<noteq> None \<longrightarrow> dw_revoked_at s \<noteq> None)"

definition moves :: "uuid set \<Rightarrow> rstring set \<Rightarrow> srv_db \<Rightarrow> srv_db \<Rightarrow> bool" where
  "moves ids codes db db' \<longleftrightarrow>
     (\<forall>a\<in>ids. has_key (t_accounts db') a \<longrightarrow> has_key (t_accounts db) a) \<and>
     (\<forall>d r. get (t_devices db) d = Some r \<and> dw_account_id r \<in> ids \<longrightarrow>
        \<not> has_key (t_accounts db') (dw_account_id r) \<or> (\<exists>s. get (t_devices db') d = Some s \<and> device_kept r s)) \<and>
     (table_ok (t_pairings db) \<longrightarrow> table_ok (t_pairings db') \<and>
        (\<forall>u\<in>codes. \<forall>s. get (t_pairings db') u = Some s \<longrightarrow> (\<exists>r. get (t_pairings db) u = Some r \<and> pairing_step r s)))"

lemma pairing_step_refl [simp]: "pairing_step r r"
  by (simp add: pairing_step_def)

lemma pairing_step_trans: "pairing_step r s \<Longrightarrow> pairing_step s t \<Longrightarrow> pairing_step r t"
  unfolding pairing_step_def by (cases "gw_state r"; cases "gw_state s"; cases "gw_state t") auto

lemma device_kept_refl [simp]: "device_kept r r"
  by (simp add: device_kept_def)

lemma device_kept_trans: "device_kept r s \<Longrightarrow> device_kept s t \<Longrightarrow> device_kept r t"
  by (simp add: device_kept_def)

lemma moves_trans:
  assumes xy: "moves ids codes x y" and yz: "moves ids codes y z"
  shows "moves ids codes x z"
proof -
  have acct: "has_key (t_accounts x) a" if "a \<in> ids" "has_key (t_accounts y) a" for a
    using xy that by (simp add: moves_def)
  have acct': "has_key (t_accounts y) a" if "a \<in> ids" "has_key (t_accounts z) a" for a
    using yz that by (simp add: moves_def)
  have dev: "\<exists>t. get (t_devices z) d = Some t \<and> device_kept r t"
    if r: "get (t_devices x) d = Some r" "dw_account_id r \<in> ids" and z: "has_key (t_accounts z) (dw_account_id r)" for d r
  proof -
    obtain s where s: "get (t_devices y) d = Some s" "device_kept r s"
      using xy r acct' [OF r(2) z] unfolding moves_def by blast
    then have "dw_account_id s = dw_account_id r" by (simp add: device_kept_def)
    then obtain t where "get (t_devices z) d = Some t" "device_kept s t"
      using yz s r z unfolding moves_def by metis
    then show ?thesis using s device_kept_trans by blast
  qed
  have pair: "\<exists>r. get (t_pairings x) u = Some r \<and> pairing_step r t"
    if ok: "table_ok (t_pairings x)" and "u \<in> codes" and t: "get (t_pairings z) u = Some t" for u t
  proof -
    have "table_ok (t_pairings y)" using xy ok by (simp add: moves_def)
    then obtain s where s: "get (t_pairings y) u = Some s" "pairing_step s t" using yz t \<open>u \<in> codes\<close> unfolding moves_def by blast
    then obtain r where "get (t_pairings x) u = Some r" "pairing_step r s" using xy ok \<open>u \<in> codes\<close> unfolding moves_def by blast
    then show ?thesis using s pairing_step_trans by blast
  qed
  have "table_ok (t_pairings x) \<Longrightarrow> table_ok (t_pairings z)" using xy yz by (simp add: moves_def)
  with acct acct' dev pair show ?thesis unfolding moves_def by blast
qed

lemma moves_same [simp]:
  "t_accounts y = t_accounts x \<Longrightarrow> t_devices y = t_devices x \<Longrightarrow> t_pairings y = t_pairings x \<Longrightarrow> moves ids codes x y"
  by (auto simp: moves_def)

lemma moves_accounts:
  assumes "\<And>a. a \<in> ids \<Longrightarrow> has_key (t_accounts y) a \<Longrightarrow> has_key (t_accounts x) a"
    and "t_devices y = t_devices x" and "t_pairings y = t_pairings x"
  shows "moves ids codes x y"
  using assms by (auto simp: moves_def)

lemma moves_devices:
  assumes "\<And>d r. get (t_devices x) d = Some r \<Longrightarrow> \<exists>s. get (t_devices y) d = Some s \<and> device_kept r s"
    and "t_accounts y = t_accounts x" and "t_pairings y = t_pairings x"
  shows "moves ids codes x y"
  using assms by (auto simp: moves_def)

lemma moves_pairings:
  assumes "\<And>u s. table_ok (t_pairings x) \<Longrightarrow> u \<in> codes \<Longrightarrow> get (t_pairings y) u = Some s \<Longrightarrow> \<exists>r. get (t_pairings x) u = Some r \<and> pairing_step r s"
    and "table_ok (t_pairings x) \<Longrightarrow> table_ok (t_pairings y)" and "t_accounts y = t_accounts x" and "t_devices y = t_devices x"
  shows "moves ids codes x y"
  using assms by (auto simp: moves_def)

text \<open>The statements that leave accounts, devices and pairings alone.\<close>

lemma put_attempt_tables [simp]:
  "t_accounts (put_attempt k r db) = t_accounts db" "t_devices (put_attempt k r db) = t_devices db"
  "t_pairings (put_attempt k r db) = t_pairings db"
  by (simp_all add: put_attempt_def)

lemma attempt_tables [simp]:
  "t_accounts (touch_attempt now k db) = t_accounts db" "t_devices (touch_attempt now k db) = t_devices db"
  "t_pairings (touch_attempt now k db) = t_pairings db"
  "t_accounts (spend_attempt now k db) = t_accounts db" "t_devices (spend_attempt now k db) = t_devices db"
  "t_pairings (spend_attempt now k db) = t_pairings db"
  by (simp_all add: touch_attempt_def spend_attempt_def split: option.splits)

lemma drop_sessions_tables [simp]:
  "t_accounts (drop_sessions P db) = t_accounts db" "t_devices (drop_sessions P db) = t_devices db"
  "t_pairings (drop_sessions P db) = t_pairings db"
  by (simp_all add: drop_sessions_def)

lemma issue_token_tables:
  "issue_token env rnd a d now db = Inr (x, db') \<Longrightarrow>
   t_accounts db' = t_accounts db \<and> t_devices db' = t_devices db \<and> t_pairings db' = t_pairings db"
  by (auto simp: issue_token_def Let_def split: if_splits)

lemma moves_issue_token: "issue_token env rnd a d now db = Inr (x, db') \<Longrightarrow> moves ids codes db db'"
  by (drule issue_token_tables) simp

lemma rate_steps [steps]:
  "steps_ok (moves ids codes) (rate_check k)" "steps_ok (moves ids codes) (record_failure k)"
  "steps_ok (moves ids codes) (clear_attempts k)" "steps_ok (moves ids codes) (charge ks)"
  "steps_ok (moves ids codes) (charge_window k m w)" "steps_ok (moves ids codes) (over_window k m w)"
  unfolding rate_check_def record_failure_def clear_attempts_def charge_def charge_tx_def charge_window_def over_window_def
  by (intro steps; force simp: Let_def split: if_splits option.splits)+

lemma clear_keys_steps [steps]: "steps_ok (moves ids codes) (clear_keys ks)"
  unfolding clear_keys_def by (intro steps)

lemma pending_steps [steps]:
  "steps_ok (moves ids codes) (put_pending env rnd why a st)" "steps_ok (moves ids codes) (take_pending env why u)"
  unfolding put_pending_def take_pending_def
  by (intro steps; force simp: Let_def split: if_splits option.splits)+

text \<open>Devices.\<close>

lemma moves_put_device:
  "get (t_devices db) d = Some r \<Longrightarrow> device_kept r s \<Longrightarrow> moves ids codes db (db\<lparr>t_devices := put d s (t_devices db)\<rparr>)"
  by (rule moves_devices) auto

lemma moves_seen [simp]: "moves ids codes db (seen d now db)"
  by (auto simp: seen_def device_kept_def intro!: moves_put_device split: option.splits)

lemma moves_rename [simp]: "moves ids codes db (rename_device d name now db)"
  by (auto simp: rename_device_def device_kept_def intro!: moves_put_device split: option.splits)

lemma moves_approved_by [simp]: "moves ids codes db (approved_by d approver db)"
  by (auto simp: approved_by_def device_kept_def intro!: moves_put_device split: option.splits)

lemma moves_insert_device: "insert_device a d name now db = Inr (x, db') \<Longrightarrow> moves ids codes db db'"
  by (rule moves_devices) (auto simp: insert_device_def has_key_def split: if_splits)

lemma moves_register: "register_device_tx a d name now db = Inr (x, db') \<Longrightarrow> moves ids codes db db'"
  by (auto simp: register_device_tx_def split: option.splits if_splits prod.splits intro: moves_insert_device)

lemma device_steps [steps]:
  "steps_ok (moves ids codes) (register_device a d name)" "steps_ok (moves ids codes) (list_devices ses)"
  unfolding register_device_def list_devices_def by (intro steps; force intro: moves_insert_device)+

lemma revoke_steps [steps]: "steps_ok (moves ids codes) (revoke ses d)"
  unfolding revoke_def
proof (intro steps, goal_cases)
  case (2 now db x db')
  then obtain r where r: "get (t_devices db) d = Some r"
    and db': "db' = drop_sessions (\<lambda>_ s. sw_device_id s = d) (db\<lparr>t_devices := put d (r\<lparr>dw_revoked_at := Some now\<rparr>) (t_devices db)\<rparr>)"
    by (auto split: option.splits if_splits)
  show ?case
    by (rule moves_trans [OF moves_put_device [OF r, of "r\<lparr>dw_revoked_at := Some now\<rparr>"]]) (simp_all add: db' device_kept_def)
qed simp

lemma authenticate_steps [steps]: "steps_ok (moves ids codes) (authenticate env tok)"
  unfolding authenticate_def by (intro steps) simp_all

lemma with_auth_steps [steps]: "(\<And>ses. steps_ok (moves ids codes) (h ses)) \<Longrightarrow> steps_ok (moves ids codes) (with_auth env tok h)"
  unfolding with_auth_def by (intro steps)

lemma login_steps [steps]:
  "steps_ok (moves ids codes) (complete_login env rnd ks a d name)"
  "steps_ok (moves ids codes) (params env email)"
  "steps_ok (moves ids codes) (pake_start env rnd rnd2 ip email msg d)"
  "steps_ok (moves ids codes) (logout ses)"
  unfolding complete_login_def params_def pake_start_def logout_def
  by (intro steps; (rule moves_issue_token, assumption | simp))+

lemma sign_in_steps [steps]:
  "steps_ok (moves ids codes) (login env rnd slot ip email key d name)"
  "steps_ok (moves ids codes) (pake_finish env rnd ip login_id msg d name)"
  unfolding login_def pake_finish_def by (intro steps; simp)+

text \<open>Accounts.\<close>

lemma moves_delete_row [simp]: "moves ids codes db (delete_account_row a db)"
  unfolding moves_def
proof (intro conjI allI impI ballI)
  fix d r assume r: "get (t_devices db) d = Some r \<and> dw_account_id r \<in> ids"
  show "\<not> has_key (t_accounts (delete_account_row a db)) (dw_account_id r) \<or>
    (\<exists>s. get (t_devices (delete_account_row a db)) d = Some s \<and> device_kept r s)"
    using r without_kept [of "t_devices db" d r "\<lambda>_ r. dw_account_id r = a"]
    by (cases "dw_account_id r = a") (simp_all add: delete_account_row_def Let_def)
qed (auto simp: delete_account_row_def Let_def table_ok_without dest: without_Some)

lemma moves_erase [simp]: "moves ids codes db (erase_account env a now db)"
  unfolding erase_account_def Let_def
  by (rule moves_trans [OF _ moves_delete_row], rule moves_pairings) (auto simp: table_ok_without dest: without_Some)

lemma moves_delete_rows [simp]: "moves ids codes db (fold delete_account_row as db)"
proof (induction as arbitrary: db)
  case (Cons a as)
  show ?case using moves_trans [OF moves_delete_row Cons] by simp
qed simp

lemma moves_credentials: "credentials_tx ses st req slt verifier rec now db = Inr (x, db') \<Longrightarrow> moves ids codes db db'"
  by (rule moves_accounts)
    (auto simp: credentials_tx_def load_stored_def result_simps Let_def has_key_def drop_sessions_def split: option.splits if_splits prod.splits)

lemma moves_delete: "delete_tx env a st now db = Inr (x, db') \<Longrightarrow> moves ids codes db db'"
  by (auto simp: delete_tx_def result_simps split: if_splits)

lemma moves_enroll: "enroll_tx a st rec now db = Inr (x, db') \<Longrightarrow> moves ids codes db db'"
  by (rule moves_accounts) (auto simp: enroll_tx_def load_stored_def result_simps Let_def has_key_def split: option.splits if_splits)

lemma moves_activate: "activate_tx env i email req slt verifier rec now db = Inr (x, db') \<Longrightarrow> moves ids codes db db'"
  by (rule moves_accounts)
    (auto simp: activate_tx_def invite_is_plausible_def Let_def has_key_def split: option.splits if_splits)

lemma find_key: "find (\<lambda>(k, v). P k v) t = Some (k, v) \<Longrightarrow> has_key t k"
  by (induction t) (auto simp: has_key_def get_def split: if_splits)

lemma moves_verify:
  assumes "verify_tx env sec u email code now db = Inr (x, db')" and "u \<notin> ids"
  shows "moves ids codes db db'"
  using assms
  by (intro moves_accounts)
    (auto simp: verify_tx_def Let_def drop_code_def split: option.splits if_splits prod.splits dest: find_key)

lemma check_proof_steps [steps]: "steps_ok (moves ids codes) (check_proof env slot a st pr)"
  unfolding check_proof_def by (cases pr; simp only: Proof.simps; intro steps; simp)

lemma account_steps [steps]:
  "steps_ok (moves ids codes) (change_credentials env rnd slot ip ses req)"
  "steps_ok (moves ids codes) (delete_account env slot ip ses del)"
  "steps_ok (moves ids codes) (pake_register env ses msg)"
  "steps_ok (moves ids codes) (pake_reauth env rnd rnd2 ip ses msg)"
  "steps_ok (moves ids codes) (pake_enroll env slot ip ses key msg)"
  "steps_ok (moves ids codes) (activate_register env ip email invi msg)"
  "steps_ok (moves ids codes) (activate env rnd ip act)"
  unfolding change_credentials_def delete_account_def pake_register_def pake_reauth_def pake_enroll_def activate_register_def activate_def
  by (intro steps; (rule moves_credentials moves_delete moves_enroll moves_activate, assumption | simp))+

lemma steps_outcome [steps]:
  "steps_ok G p \<Longrightarrow> steps_ok G q \<Longrightarrow> steps_ok G r \<Longrightarrow> (\<And>a. steps_ok G (f a)) \<Longrightarrow>
   steps_ok G (case m of NoCode \<Rightarrow> p | WrongCode \<Rightarrow> q | AlreadyActive \<Rightarrow> r | Verified a \<Rightarrow> f a)"
  by (cases m) simp_all

lemma signup_steps [steps]:
  "steps_ok (moves ids codes) (signup_start env code sent ip email lang terms)"
  "u \<notin> ids \<Longrightarrow> steps_ok (moves ids codes) (signup_verify env sec u ip email code)"
  unfolding signup_start_def signup_verify_def
  by (intro steps; (erule moves_verify, assumption | simp add: put_code_def drop_code_def))+

lemma admin_steps [steps]:
  "u \<notin> ids \<Longrightarrow> steps_ok (moves ids codes) (new_account env u sec email url trial)"
  "steps_ok (moves ids codes) (allow_legacy_sign_in env email)"
  "steps_ok (moves ids codes) (admin_set_plan env email plan_status until)"
  "steps_ok (moves ids codes) (admin_delete_account env email)"
  "steps_ok (moves ids codes) run_daily" "steps_ok (moves ids codes) sweep_tombstones"
  unfolding new_account_def allow_legacy_sign_in_def admin_set_plan_def admin_delete_account_def run_daily_def sweep_tombstones_def
  subgoal by (intro steps; (rule moves_accounts)?) (auto split: if_splits)
  subgoal by (intro steps; (rule moves_accounts)?) (auto simp: active_account_def split: if_splits option.splits dest!: find_key)
  by (intro steps; force simp: Let_def split: if_splits option.splits)+

text \<open>Pairings and the writes of a vault.\<close>

lemma moves_create:
  assumes "create_tx env rnd ip d name hash now db = Inr (x, db')" and "sv_b64url env rnd \<notin> codes"
  shows "moves ids codes db db'"
  using assms
  by (intro moves_pairings)
    (auto simp: create_tx_def Let_def table_ok_without tab.wf_upsert split: if_splits dest: without_Some)

lemma open_pairing_Some:
  "open_pairing u a now db = Some r \<longleftrightarrow> get (t_pairings db) u = Some r \<and> gw_state r = Pending \<and> now < gw_expires_at r \<and>
     (gw_account_id r = None \<or> gw_account_id r = Some a)"
  by (auto simp: open_pairing_def split: option.splits if_splits)

lemma moves_set_pairing:
  "get (t_pairings db) u = Some r \<Longrightarrow> pairing_step r s \<Longrightarrow> moves ids codes db (set_pairing u s db)"
  by (rule moves_pairings) (auto simp: set_pairing_def tab.wf_upsert split: if_splits)

lemma moves_details: "details_tx u a now db = Inr (x, db') \<Longrightarrow> moves ids codes db db'"
  by (auto simp: details_tx_def result_simps open_pairing_Some pairing_step_def intro!: moves_set_pairing)

lemma moves_deny: "deny_tx u a now db = Inr (x, db') \<Longrightarrow> moves ids codes db db'"
  by (auto simp: deny_tx_def result_simps open_pairing_Some pairing_step_def intro!: moves_set_pairing)

lemma register_tx_pairings:
  "register_device_tx a d name now db = Inr (x, db') \<Longrightarrow> t_pairings db' = t_pairings db \<and> t_accounts db' = t_accounts db"
  by (auto simp: register_device_tx_def insert_device_def rename_device_def split: option.splits if_splits prod.splits)

lemma approved_by_pairings [simp]:
  "t_pairings (approved_by d x db) = t_pairings db" "t_accounts (approved_by d x db) = t_accounts db"
  by (simp_all add: approved_by_def split: option.splits)

lemma approve_tx_Inr:
  assumes "approve_tx u ses e now db = Inr (x, db')"
  obtains r db1 where "open_pairing u (ses_account_id ses) now db = Some r" "gw_device_id r \<noteq> ses_device_id ses"
    "register_device_tx (ses_account_id ses) (gw_device_id r) (gw_device_name r) now db = Inr ((), db1)"
    "db' = set_pairing u (r\<lparr>gw_state := Approved, gw_account_id := Some (ses_account_id ses), gw_envelope := Some e\<rparr>)
       (approved_by (gw_device_id r) (ses_device_id ses) db1)"
  using assms by (auto simp: approve_tx_def result_simps split: if_splits)

lemma moves_approve:
  assumes "approve_tx u ses e now db = Inr (x, db')"
  shows "moves ids codes db db'"
proof -
  obtain r db1 where r: "open_pairing u (ses_account_id ses) now db = Some r"
    and reg: "register_device_tx (ses_account_id ses) (gw_device_id r) (gw_device_name r) now db = Inr ((), db1)"
    and db': "db' = set_pairing u (r\<lparr>gw_state := Approved, gw_account_id := Some (ses_account_id ses), gw_envelope := Some e\<rparr>)
       (approved_by (gw_device_id r) (ses_device_id ses) db1)"
    using approve_tx_Inr [OF assms] by blast
  have "moves ids codes (approved_by (gw_device_id r) (ses_device_id ses) db1) db'"
    unfolding db' by (rule moves_set_pairing [of _ _ r]) (use r register_tx_pairings [OF reg] in \<open>auto simp: open_pairing_Some pairing_step_def\<close>)
  then show ?thesis using moves_trans moves_register [OF reg] moves_approved_by by metis
qed

lemma moves_set_pairing_on:
  "t_accounts db1 = t_accounts db \<and> t_devices db1 = t_devices db \<and> t_pairings db1 = t_pairings db \<Longrightarrow>
   get (t_pairings db) u = Some r \<Longrightarrow> pairing_step r s \<Longrightarrow> moves ids codes db (set_pairing u s db1)"
  using moves_trans [OF moves_same moves_set_pairing] by metis

lemma moves_claim: "claim_tx env rnd u sec now db = Inr (x, db') \<Longrightarrow> moves ids codes db db'"
  by (auto simp: claim_tx_def result_simps split: option.splits if_splits pairing_state.splits
      dest!: issue_token_tables intro!: moves_set_pairing_on simp: pairing_step_def)

lemma store_vault_tables [simp]:
  "t_accounts (store_vault v m db) = t_accounts db" "t_devices (store_vault v m db) = t_devices db"
  "t_pairings (store_vault v m db) = t_pairings db"
  by (simp_all add: store_vault_def split: option.splits prod.splits)

lemma pairing_steps [steps]:
  "sv_b64url env rnd \<notin> codes \<Longrightarrow> steps_ok (moves ids codes) (create_pairing env rnd ip d name hash)"
  "steps_ok (moves ids codes) (details env ses raw)" "steps_ok (moves ids codes) (approve env ses raw e)"
  "steps_ok (moves ids codes) (deny env ses raw)" "steps_ok (moves ids codes) (claim env rnd2 ip raw sec)"
  "steps_ok (moves ids codes) (write_route mx changes ses)" "steps_ok (moves ids codes) (upload_route mx att item blob ses)"
  unfolding create_pairing_def details_def approve_def deny_def claim_def write_route_def upload_route_def
  by (intro steps; (erule (1) moves_create | rule moves_details moves_approve moves_deny moves_claim, assumption | force simp: result_simps split: prod.splits))+

lemma request_steps: "request env ids codes p \<Longrightarrow> steps_ok (moves ids codes) p"
  by (induction rule: request.induct) (intro steps; assumption)+

interpretation served: handlers "request env ids codes" "moves ids codes" for env ids codes
  by unfold_locales (auto intro: moves_trans request_steps)

subsection \<open>Revoked devices\<close>

definition locked_out :: "uuid \<Rightarrow> uuid \<Rightarrow> srv_db \<Rightarrow> bool" where
  "locked_out a d db \<longleftrightarrow> \<not> has_key (t_accounts db) a \<or>
     (\<exists>r. get (t_devices db) d = Some r \<and> dw_account_id r = a \<and> dw_revoked_at r \<noteq> None)"

lemma locked_out_moves: "moves ids codes db db' \<Longrightarrow> a \<in> ids \<Longrightarrow> locked_out a d db \<Longrightarrow> locked_out a d db'"
  unfolding moves_def locked_out_def device_kept_def by metis

lemma live_session_Some:
  assumes "live_session h now db = Some ses"
  obtains s acct dev where "get (t_sessions db) h = Some s" "get (t_accounts db) (ses_account_id ses) = Some acct"
    "get (t_devices db) (ses_device_id ses) = Some dev" "aw_status acct = ActiveAccount" "dw_revoked_at dev = None"
    "now < sw_expires_at s" "vault_of db (ses_account_id ses) = Some (ses_vault_id ses)"
    "sw_account_id s = ses_account_id ses" "sw_device_id s = ses_device_id ses"
  using assms by (auto simp: live_session_def Let_def split: option.splits if_splits)

lemma locked_out_session: "locked_out a d db \<Longrightarrow> live_session h now db = Some ses \<Longrightarrow> \<not> (ses_account_id ses = a \<and> ses_device_id ses = d)"
  by (erule live_session_Some) (auto simp: locked_out_def has_key_def)

lemma revoke_Inr:
  assumes "run_alone (revoke ses d) now db = (Inr x, db')"
  shows "locked_out (ses_account_id ses) d db' \<and> (\<forall>h s. (h, s) \<in> set (t_sessions db') \<longrightarrow> sw_device_id s \<noteq> d)"
  using assms
  by (auto simp: revoke_def run_alone_transaction locked_out_def drop_sessions_def split: option.splits if_splits)

text \<open>
  C8. Revoking a device bites at once and for good. After a revocation succeeded the device has no
  session, and however the server's requests are interleaved from then on, as long as the generator of
  account identifiers does not draw this one again: no token is ever accepted for that device on that
  account, and while the account exists the device cannot sign in, whatever key it proves.
\<close>

theorem revoked_device_locked_out:
  assumes "run_alone (revoke ses d) now db = (Inr (), db1)" and "runs (request env ids codes) db1 db2"
    and "ses_account_id ses \<in> ids"
  shows "(\<forall>h s. (h, s) \<in> set (t_sessions db1) \<longrightarrow> sw_device_id s \<noteq> d) \<and>
    (\<nexists>h t x. live_session h t db2 = Some x \<and> ses_account_id x = ses_account_id ses \<and> ses_device_id x = d) \<and>
    (has_key (t_accounts db2) (ses_account_id ses) \<longrightarrow>
      run_alone (register_device (ses_account_id ses) d name) t db2 = (Inl ApiUnauthorized, db2))"
proof -
  have l: "locked_out (ses_account_id ses) d db2"
    using locked_out_moves [OF served.runs_keep [OF assms(2)] assms(3)] revoke_Inr [OF assms(1)] by blast
  moreover have "run_alone (register_device (ses_account_id ses) d name) t db2 = (Inl ApiUnauthorized, db2)"
    if "has_key (t_accounts db2) (ses_account_id ses)"
    using l that by (auto simp: locked_out_def register_device_def run_alone_bind existing_device_def)
  ultimately show ?thesis using revoke_Inr [OF assms(1)] locked_out_session by blast
qed

subsection \<open>One account, one grant\<close>

lemma in_set_put: "(k, v) \<in> set (put a x t) \<Longrightarrow> k = a \<and> v = x \<or> (k, v) \<in> set t"
  unfolding put_def by (induction t) (auto split: if_splits)

definition pairing_is :: "(pairing_row \<Rightarrow> bool) \<Rightarrow> rstring \<Rightarrow> srv_db \<Rightarrow> bool" where
  "pairing_is P u db \<longleftrightarrow> (\<forall>r. get (t_pairings db) u = Some r \<longrightarrow> P r)"

lemma pairing_is_moves:
  assumes "moves ids codes db db'" "table_ok (t_pairings db)" "u \<in> codes" "pairing_is P u db"
    and "\<And>r s. P r \<Longrightarrow> pairing_step r s \<Longrightarrow> P s"
  shows "pairing_is P u db'"
  using assms unfolding moves_def pairing_is_def by metis

lemma claim_grant:
  assumes "claim_tx env rnd u sec now db = Inr (Some (ClaimApproved g), db')"
  obtains r where "get (t_pairings db) u = Some r" "gw_state r = Approved" "gw_claim_hash r = srv_sha256 env sec"
    "gw_account_id r = Some (cg_account_id g)" "gw_envelope r = Some (cg_envelope g)"
    "vault_of db (cg_account_id g) = Some (cg_vault_id g)" "now - PAIRING_MAX_AGE_MINUTES * MINUTE < gw_created_at r"
    "t_sessions db' = put (token_hash env (cg_token g)) \<lparr>sw_account_id = cg_account_id g, sw_device_id = gw_device_id r,
       sw_expires_at = cg_expires_at g\<rparr> (filter (\<lambda>(h, s). sw_device_id s \<noteq> gw_device_id r) (t_sessions db))"
    "get (t_pairings db') u = Some (r\<lparr>gw_state := Claimed, gw_envelope := None\<rparr>)"
    "table_ok (t_pairings db) \<Longrightarrow> table_ok (t_pairings db')"
  using assms
  by (auto simp: claim_tx_def result_simps issue_token_def Let_def drop_sessions_def set_pairing_def tab.wf_upsert
      split: option.splits if_splits pairing_state.splits)

text \<open>
  C9. A pairing signs in one device, once. A claim that is granted presented a secret with the hash the
  new device gave, for a pairing that is approved, and answers with the account that approved it and its
  vault, the stored envelope and a token; the server then holds a session under the hash of that token, for
  that account and the device of the pairing until the time answered, and it is the device's only session. After it,
  however requests are interleaved and as long as the pairing's identifier is not drawn again, no claim
  of that pairing is granted.
\<close>

theorem pairing_granted_once:
  assumes "claim_tx env rnd u sec now db = Inr (Some (ClaimApproved g), db1)" and "table_ok (t_pairings db)"
    and "runs (request env ids codes) db1 db2" and "u \<in> codes"
  shows "(\<exists>r. get (t_pairings db) u = Some r \<and> gw_state r = Approved \<and> gw_claim_hash r = srv_sha256 env sec \<and>
      gw_account_id r = Some (cg_account_id g) \<and> gw_envelope r = Some (cg_envelope g) \<and>
      vault_of db (cg_account_id g) = Some (cg_vault_id g) \<and>
      get (t_sessions db1) (token_hash env (cg_token g)) = Some \<lparr>sw_account_id = cg_account_id g, sw_device_id = gw_device_id r,
        sw_expires_at = cg_expires_at g\<rparr> \<and>
      (\<forall>h s. (h, s) \<in> set (t_sessions db1) \<and> sw_device_id s = gw_device_id r \<longrightarrow> h = token_hash env (cg_token g))) \<and>
    (\<nexists>rnd' sec' t g' db3. claim_tx env rnd' u sec' t db2 = Inr (Some (ClaimApproved g'), db3))"
proof -
  obtain r where r: "get (t_pairings db) u = Some r" "gw_state r = Approved" "gw_claim_hash r = srv_sha256 env sec"
      "gw_account_id r = Some (cg_account_id g)" "gw_envelope r = Some (cg_envelope g)" "vault_of db (cg_account_id g) = Some (cg_vault_id g)"
    and s: "t_sessions db1 = put (token_hash env (cg_token g)) \<lparr>sw_account_id = cg_account_id g, sw_device_id = gw_device_id r,
       sw_expires_at = cg_expires_at g\<rparr> (filter (\<lambda>(h, s). sw_device_id s \<noteq> gw_device_id r) (t_sessions db))"
    and c: "get (t_pairings db1) u = Some (r\<lparr>gw_state := Claimed, gw_envelope := None\<rparr>)" and ok: "table_ok (t_pairings db1)"
    using claim_grant [OF assms(1)] assms(2) by metis
  have "pairing_is (\<lambda>r. gw_state r = Claimed) u db2"
    by (rule pairing_is_moves [OF served.runs_keep [OF assms(3)] ok assms(4)]) (auto simp: pairing_is_def c pairing_step_def)
  then have "\<nexists>rnd' sec' t g' db3. claim_tx env rnd' u sec' t db2 = Inr (Some (ClaimApproved g'), db3)"
    by (auto simp: pairing_is_def elim!: claim_grant)
  moreover have "get (t_sessions db1) (token_hash env (cg_token g)) = Some \<lparr>sw_account_id = cg_account_id g, sw_device_id = gw_device_id r,
      sw_expires_at = cg_expires_at g\<rparr>" unfolding s by simp
  moreover have "h = token_hash env (cg_token g)"
    if "(h, x) \<in> set (t_sessions db1)" "sw_device_id x = gw_device_id r" for h x
    using that unfolding s by (auto dest!: in_set_put)
  ultimately show ?thesis using r by blast
qed

text \<open>
  C10. A pairing belongs to the account that reads it first. After a device of an account has read a
  pairing, or approved it, no device of another account can read, approve or deny it, in any later state
  of the server, and a grant can only be for that account; and if it was approved, a grant carries
  exactly the envelope that was sent with the approval.
\<close>

theorem pairing_bound_to_account:
  assumes "(\<exists>x. details_tx u a now db = Inr (x, db1)) \<or>
      (\<exists>ses. a = ses_account_id ses \<and> approve_tx u ses e now db = Inr ((), db1))" and "table_ok (t_pairings db)"
    and "runs (request env ids codes) db1 db2" and "u \<in> codes"
  shows "(b \<noteq> a \<longrightarrow> details_tx u b t db2 = Inl ApiNotFound \<and> deny_tx u b t db2 = Inl ApiNotFound \<and>
      (\<forall>ses e'. ses_account_id ses = b \<longrightarrow> approve_tx u ses e' t db2 = Inl ApiNotFound)) \<and>
    (claim_tx env rnd u sec t db2 = Inr (Some (ClaimApproved g), db3) \<longrightarrow> cg_account_id g = a \<and>
      ((\<exists>ses. approve_tx u ses e now db = Inr ((), db1)) \<longrightarrow> cg_envelope g = e))"
proof -
  have one: "get (t_pairings db1) u = Some r \<Longrightarrow> gw_account_id r = Some a" for r
    using assms(1)
    by (auto simp: details_tx_def result_simps set_pairing_def elim!: approve_tx_Inr)
  have ok: "table_ok (t_pairings db1)"
    using assms(1,2) by (auto simp: details_tx_def result_simps set_pairing_def tab.wf_upsert elim!: approve_tx_Inr dest!: register_tx_pairings)
  have acct: "pairing_is (\<lambda>r. gw_account_id r = Some a) u db2"
    by (rule pairing_is_moves [OF served.runs_keep [OF assms(3)] ok assms(4)]) (auto simp: pairing_is_def one pairing_step_def)
  have env: "cg_envelope g = e"
    if "approve_tx u ses e now db = Inr ((), db1)" "claim_tx env rnd u sec t db2 = Inr (Some (ClaimApproved g), db3)" for ses
  proof -
    have "pairing_is (\<lambda>r. gw_state r = Claimed \<or> gw_state r = Approved \<and> gw_envelope r = Some e) u db2"
      by (rule pairing_is_moves [OF served.runs_keep [OF assms(3)] ok assms(4)])
        (use that(1) in \<open>auto simp: pairing_is_def pairing_step_def set_pairing_def elim!: approve_tx_Inr\<close>)
    then show ?thesis using that(2) by (auto simp: pairing_is_def elim!: claim_grant)
  qed
  have "open_pairing u b t db2 = None" if "b \<noteq> a"
    using acct that by (auto simp: pairing_is_def open_pairing_def split: option.splits)
  then have "b \<noteq> a \<longrightarrow> details_tx u b t db2 = Inl ApiNotFound \<and> deny_tx u b t db2 = Inl ApiNotFound \<and>
      (\<forall>ses e'. ses_account_id ses = b \<longrightarrow> approve_tx u ses e' t db2 = Inl ApiNotFound)"
    by (simp add: details_tx_def deny_tx_def approve_tx_def)
  moreover have "cg_account_id g = a" if "claim_tx env rnd u sec t db2 = Inr (Some (ClaimApproved g), db3)"
    using acct that by (auto simp: pairing_is_def elim!: claim_grant)
  ultimately show ?thesis using env by blast
qed

subsection \<open>A pairing from code to session\<close>

lemma create_tx_Inr:
  assumes "create_tx env rnd ip d name hash now db = Inr ((u, expires), db')"
  shows "get (t_pairings db') u = Some \<lparr>gw_state = Pending, gw_device_id = d, gw_device_name = name, gw_claim_hash = hash,
      gw_ip = ip, gw_location = sv_locate env ip, gw_created_at = now, gw_expires_at = expires, gw_account_id = None, gw_envelope = None\<rparr> \<and>
    t_accounts db' = t_accounts db \<and> t_vaults db' = t_vaults db \<and> t_sessions db' = t_sessions db \<and>
    expires = now + PAIRING_TTL_SECONDS * SECOND"
  using assms by (auto simp: create_tx_def Let_def split: if_splits)

lemma register_tx_Inr:
  assumes "register_device_tx a d name now db = Inr (x, db')"
  shows "(\<exists>r. get (t_devices db') d = Some r \<and> dw_account_id r = a \<and> dw_revoked_at r = None) \<and> t_accounts db' = t_accounts db \<and>
    t_vaults db' = t_vaults db \<and> t_sessions db' = t_sessions db \<and> t_pairings db' = t_pairings db"
  using assms
  by (auto simp: register_device_tx_def existing_device_def insert_device_def rename_device_def split: option.splits if_splits)

lemma approve_tx_effect:
  assumes "approve_tx u ses e now db = Inr (x, db')" "get (t_pairings db) u = Some r"
  shows "get (t_pairings db') u = Some (r\<lparr>gw_state := Approved, gw_account_id := Some (ses_account_id ses), gw_envelope := Some e\<rparr>) \<and>
    (\<exists>w. get (t_devices db') (gw_device_id r) = Some w \<and> dw_account_id w = ses_account_id ses \<and> dw_revoked_at w = None \<and>
       dw_approved_by w = Some (ses_device_id ses)) \<and>
    t_accounts db' = t_accounts db \<and> t_vaults db' = t_vaults db \<and> t_sessions db' = t_sessions db"
  using approve_tx_Inr [OF assms(1)]
proof (cases)
  case (1 r' db1)
  then have r: "r' = r" using assms(2) by (simp add: open_pairing_Some)
  show ?thesis using register_tx_Inr [OF 1(3)] unfolding 1(4) r by (auto simp: approved_by_def set_pairing_def)
qed

text \<open>
  C22. An approval signs the new device in. If a device asks for a pairing with the hash of its secret,
  and a signed-in device of an active account approves it while the code is valid, then within ten
  minutes the claim with that secret is granted: it answers with the envelope the approving device sent,
  the account and its vault, and a token; and with that token the server then takes the new device's
  requests, as that device of that account, for a day.
\<close>

theorem approved_device_signs_in:
  assumes "create_tx env rnd ip d name (srv_sha256 env sec) t0 db0 = Inr ((u, expires), db1)"
    and "approve_tx u ses e t1 db1 = Inr ((), db2)"
    and "get (t_accounts db0) (ses_account_id ses) = Some r" and "aw_status r = ActiveAccount"
    and "vault_of db0 (ses_account_id ses) = Some v"
    and "t2 - PAIRING_MAX_AGE_MINUTES * MINUTE < t0"
    and "\<not> has_key (t_sessions db0) (token_hash env (sv_b64url env rnd2))" and "t3 < t2 + SESSION_TTL_HOURS * HOUR"
  shows "\<exists>g db3 x. claim_tx env rnd2 u sec t2 db2 = Inr (Some (ClaimApproved g), db3) \<and> cg_envelope g = e \<and>
    cg_account_id g = ses_account_id ses \<and> cg_vault_id g = v \<and> cg_token g = sv_b64url env rnd2 \<and>
    live_session (token_hash env (cg_token g)) t3 db3 = Some x \<and> ses_account_id x = ses_account_id ses \<and> ses_device_id x = d \<and>
    ses_vault_id x = v"
proof -
  let ?h = "token_hash env (sv_b64url env rnd2)"
  note c = create_tx_Inr [OF assms(1)]
  obtain row where row: "get (t_pairings db1) u = Some row" "gw_device_id row = d" "gw_claim_hash row = srv_sha256 env sec" "gw_created_at row = t0"
    using c by auto
  note a = approve_tx_effect [OF assms(2) row(1)]
  obtain w where w: "get (t_devices db2) d = Some w" "dw_account_id w = ses_account_id ses" "dw_revoked_at w = None" using a row(2) by auto
  have same: "t_accounts db2 = t_accounts db0" "t_vaults db2 = t_vaults db0" "t_sessions db2 = t_sessions db0" using a c by auto
  have v: "vault_of db2 (ses_account_id ses) = Some v" using assms(5) same by (simp add: vault_of_def)
  have nokey: "get (filter (\<lambda>(h, s). sw_device_id s \<noteq> d) (t_sessions db2)) ?h = None"
    using assms(7) same by (auto simp: has_key_def get_def map_of_eq_None_iff)
  let ?s = "\<lparr>sw_account_id = ses_account_id ses, sw_device_id = d, sw_expires_at = t2 + SESSION_TTL_HOURS * HOUR\<rparr>"
  let ?db1 = "db2\<lparr>t_sessions := put ?h ?s (filter (\<lambda>(h, s). sw_device_id s \<noteq> d) (t_sessions db2))\<rparr>"
  have it: "issue_token env rnd2 (ses_account_id ses) d t2 (drop_sessions (\<lambda>_ s. sw_device_id s = d) db2) =
      Inr ((sv_b64url env rnd2, t2 + SESSION_TTL_HOURS * HOUR), ?db1)"
    using nokey w(1) assms(3) same by (simp add: issue_token_def drop_sessions_def has_key_def Let_def)
  let ?g = "\<lparr>cg_token = sv_b64url env rnd2, cg_expires_at = t2 + SESSION_TTL_HOURS * HOUR, cg_account_id = ses_account_id ses,
    cg_vault_id = v, cg_envelope = e\<rparr>"
  let ?db3 = "set_pairing u (row\<lparr>gw_account_id := Some (ses_account_id ses), gw_state := Claimed, gw_envelope := None\<rparr>) ?db1"
  have "claim_tx env rnd2 u sec t2 db2 = Inr (Some (ClaimApproved ?g), ?db3)"
    unfolding claim_tx_def using a row assms(6) v it by simp
  moreover have "\<exists>x. live_session ?h t3 ?db3 = Some x \<and> ses_account_id x = ses_account_id ses \<and> ses_device_id x = d \<and> ses_vault_id x = v"
  proof -
    have "get (t_sessions ?db3) ?h = Some ?s" "t_accounts ?db3 = t_accounts db0" "t_devices ?db3 = t_devices db2"
      "vault_of ?db3 (ses_account_id ses) = Some v"
      using v by (simp_all add: set_pairing_def same vault_of_def)
    then show ?thesis using w assms(3,4,8) by (simp add: live_session_def Let_def)
  qed
  ultimately show ?thesis by fastforce
qed

subsection \<open>Witnesses\<close>

text \<open>An account with one signed-in device, and a second device that waits with a code.\<close>

definition toy_pairing :: pairing_row where
  "toy_pairing = \<lparr>gw_state = Pending, gw_device_id = 4, gw_device_name = [98], gw_claim_hash = srv_sha256 toy_srv [5], gw_ip = [],
     gw_location = None, gw_created_at = 0, gw_expires_at = 120000, gw_account_id = None, gw_envelope = None\<rparr>"

definition toy_waiting :: srv_db where
  "toy_waiting = toy_db\<lparr>t_pairings := [([66], toy_pairing)]\<rparr>"

definition toy_approved :: srv_db where
  "toy_approved = (case approve_tx [66] toy_auth [7] 10 toy_waiting of Inr (_, db) \<Rightarrow> db | Inl _ \<Rightarrow> toy_waiting)"

lemmas toy_defs = toy_approved_def toy_waiting_def toy_pairing_def toy_db_def empty_db_def toy_auth_def toy_row_def toy_device_row_def
  new_account_row_def activated_vault_def get_def put_def has_key_def

lemma toy_approval: "approve_tx [66] toy_auth [7] 10 toy_waiting = Inr ((), toy_approved)"
  by (simp add: toy_defs approve_tx_def open_pairing_def register_device_tx_def existing_device_def device_count_def insert_device_def
      MAX_DEVICES_PER_ACCOUNT_def)

lemma toy_pairings_ok: "table_ok (t_pairings toy_waiting)" "table_ok (t_pairings toy_approved)"
proof -
  show w: "table_ok (t_pairings toy_waiting)" by (simp add: toy_waiting_def table_ok_def)
  show "table_ok (t_pairings toy_approved)" using moves_approve [OF toy_approval, of "{}" "{}"] w by (simp add: moves_def)
qed

lemma toy_srv_hash [simp]: "srv_sha256 toy_srv b = b" "sv_b64url toy_srv b = map unat b"
  by (simp_all add: toy_srv_def toy_keys_def plain_crypto_def)

lemma toy_token: "token_hash toy_srv [65] = [65]" "token_hash toy_srv [65, 65] = [65, 65]"
  by (simp_all add: token_hash_def utf8_bytes_def utf8_def utf8_char_def)

lemma toy_claim: "\<exists>g db. claim_tx toy_srv [65, 65] [66] [5] 20 toy_approved = Inr (Some (ClaimApproved g), db)"
  by (simp add: toy_defs approve_tx_def open_pairing_def register_device_tx_def existing_device_def device_count_def insert_device_def
      MAX_DEVICES_PER_ACCOUNT_def set_pairing_def approved_by_def claim_tx_def issue_token_def drop_sessions_def vault_of_def toy_token Let_def
      PAIRING_MAX_AGE_MINUTES_def MINUTE_def SECOND_def)

theorem revoked_device_locked_out_witness:
  "\<exists>db1. run_alone (revoke toy_auth 3) 20 toy_db = (Inr (), db1) \<and>
     (\<nexists>h t x. live_session h t db1 = Some x \<and> ses_account_id x = 1 \<and> ses_device_id x = 3)"
proof -
  obtain db1 where r: "run_alone (revoke toy_auth 3) 20 toy_db = (Inr (), db1)"
    by (simp add: revoke_def run_alone_transaction toy_defs)
  from revoked_device_locked_out [OF r runs_refl, where ids = "{1}"] show ?thesis using r by (auto simp: toy_auth_def)
qed

theorem pairing_granted_once_witness:
  "\<exists>g db1. claim_tx toy_srv [65, 65] [66] [5] 20 toy_approved = Inr (Some (ClaimApproved g), db1) \<and>
     get (t_sessions db1) (token_hash toy_srv (cg_token g)) \<noteq> None \<and>
     (\<nexists>g' db3. claim_tx toy_srv [65, 65] [66] [5] 30 db1 = Inr (Some (ClaimApproved g'), db3))"
proof -
  obtain g db1 where c: "claim_tx toy_srv [65, 65] [66] [5] 20 toy_approved = Inr (Some (ClaimApproved g), db1)" using toy_claim by blast
  from pairing_granted_once [OF c toy_pairings_ok(2) runs_refl, where codes = "{[66]}"] show ?thesis using c by blast
qed

theorem pairing_bound_to_account_witness:
  "approve_tx [66] toy_auth [7] 10 toy_waiting = Inr ((), toy_approved) \<and> details_tx [66] 9 20 toy_approved = Inl ApiNotFound"
proof -
  have "(\<exists>x. details_tx [66] 1 10 toy_waiting = Inr (x, toy_approved)) \<or>
      (\<exists>ses. 1 = ses_account_id ses \<and> approve_tx [66] ses [7] 10 toy_waiting = Inr ((), toy_approved))"
    using toy_approval by (intro disjI2 exI [of _ toy_auth]) (simp add: toy_auth_def)
  from pairing_bound_to_account [OF this toy_pairings_ok(1) runs_refl, where codes = "{[66]}" and b = 9 and t = 20] show ?thesis
    using toy_approval by simp
qed

theorem approved_device_signs_in_witness:
  "\<exists>u x db1 db2 db3 g y. create_tx toy_srv [66] [] 4 [98] (srv_sha256 toy_srv [5]) 0 toy_db = Inr ((u, x), db1) \<and>
     approve_tx u toy_auth [7] 10 db1 = Inr ((), db2) \<and> claim_tx toy_srv [65, 65] u [5] 20 db2 = Inr (Some (ClaimApproved g), db3) \<and>
     live_session (token_hash toy_srv (cg_token g)) 30 db3 = Some y \<and> ses_device_id y = 4"
proof -
  have c: "create_tx toy_srv [66] [] 4 [98] (srv_sha256 toy_srv [5]) 0 toy_db = Inr (([66], 120000), toy_waiting)"
    by (simp add: create_tx_def toy_defs without_def PAIRINGS_PER_IP_def PENDING_PAIRINGS_PER_IP_def PAIRING_TTL_SECONDS_def SECOND_def Let_def)
      (simp add: toy_srv_def)
  have a: "get (t_accounts toy_db) (ses_account_id toy_auth) = Some toy_row" "aw_status toy_row = ActiveAccount"
      "vault_of toy_db (ses_account_id toy_auth) = Some 2" "20 - PAIRING_MAX_AGE_MINUTES * MINUTE < 0"
      "\<not> has_key (t_sessions toy_db) (token_hash toy_srv (sv_b64url toy_srv [65, 65]))" "30 < 20 + SESSION_TTL_HOURS * HOUR"
    by (simp_all add: toy_defs vault_of_def toy_token PAIRING_MAX_AGE_MINUTES_def SESSION_TTL_HOURS_def HOUR_def MINUTE_def SECOND_def)
  from approved_device_signs_in [OF c toy_approval a] show ?thesis using c toy_approval by blast
qed

end
