(* ===== verification/Account_Client.thy ===== *)
theory Account_Client
  imports Client
begin

text \<open>
  The account on a device (\<^verbatim>\<open>havenkeys-client\<close>: \<^verbatim>\<open>account.rs\<close>, \<^verbatim>\<open>attachments.rs\<close>, \<^verbatim>\<open>bundle.rs\<close>, \<^verbatim>\<open>deletion.rs\<close>,
  \<^verbatim>\<open>removal.rs\<close>, and \<^verbatim>\<open>invite.rs\<close> of the sync client): activating, signing in on another device, unlocking with
  or without the server, changing the master password, files, and leaving the account again.

  An operation is a function as in \<open>Client\<close>. A key derivation runs in a task of its own while the vault is
  not guarded: \<open>ax_join\<close> says whether the task survived and what the other threads of the device did
  meanwhile. A task that the code starts and does not wait for is part of the value of the operation, and
  \<open>run_task\<close> is what it does. Random bytes are arguments. Where a failing database decides what the user
  is left with it is in the model: \<open>ax_status_read\<close> says whether the status of an opened vault can be read, and
  \<open>ax_rekey_fault\<close> which of the two statements that store a new key wrap fails, if one does.
\<close>

section \<open>Model\<close>

subsection \<open>The environment\<close>

record 'w account_env =
  ax_client :: client_env
  ax_pake :: pake_env
  ax_servers :: "'w servers"
  ax_device_name :: rstring
  ax_join :: "'w \<times> client \<Rightarrow> bool \<times> 'w \<times> client"
  ax_late :: "'w \<times> client \<Rightarrow> bool"
  ax_status_read :: bool
  ax_rekey_fault :: "nat option"
  ax_uuid_text :: "uuid \<Rightarrow> rstring"
  ax_b64url_decode :: "rstring \<Rightarrow> bytes option"
  ax_invite_json :: "bytes \<Rightarrow> (rstring \<times> rstring \<times> uuid \<times> rstring) option"

abbreviation ax_sync :: "'w account_env \<Rightarrow> sync_env" where
  "ax_sync env \<equiv> cn_sync (ax_client env)"

abbreviation ax_core :: "'w account_env \<Rightarrow> core_env" where
  "ax_core env \<equiv> se_core (ax_sync env)"

abbreviation ax_keys :: "'w account_env \<Rightarrow> key_env" where
  "ax_keys env \<equiv> ce_keys (ax_core env)"

datatype task = NoTask | ConnectTask bytes | SyncTask | BundleConnectTask bytes u64

definition blocking :: "'w account_env \<Rightarrow> 'a \<Rightarrow> ('w, 'a) client_op" where
  "blocking env x s = (case ax_join env s of (survived, s1) \<Rightarrow> (if survived then Inr x else Inl internal, s1))"

text \<open>A blocking task that gives a result of the core, which is then unwrapped.\<close>

definition derive_blocking :: "'w account_env \<Rightarrow> 'a result \<Rightarrow> ('w, 'a) client_op" where
  "derive_blocking env r = io_then (blocking env r) (\<lambda>x. io_lift (map_err error_code x))"

definition on_device :: "(device \<Rightarrow> 'a \<times> device) \<Rightarrow> ('w, 'a) client_op" where
  "on_device f = (\<lambda>(w, c). case f (cl_device c) of (x, d) \<Rightarrow> (Inr x, w, c\<lparr>cl_device := d\<rparr>))"

definition device_secret_key :: "'w account_env \<Rightarrow> uuid \<Rightarrow> ('w, bytes) client_op" where
  "device_secret_key env a = io_then (on_device (secret_key (ax_keys env) a)) (\<lambda>k.
     io_lift (ok_or (error_code SecretKeyRequired) k))"

definition store_secret_key :: "'w account_env \<Rightarrow> uuid \<Rightarrow> bytes \<Rightarrow> ('w, unit) client_op" where
  "store_secret_key env a k = io_then (on_device (set_secret_key (ax_keys env) a k)) (\<lambda>r.
     io_lift (case r of Inl _ \<Rightarrow> Inl ''file'' | Inr _ \<Rightarrow> Inr ()))"

text \<open>The answer to a request, with the code that stands for its error; nothing else follows from it.\<close>

definition reply_as :: "(SyncError \<Rightarrow> client_error) \<Rightarrow> ('w \<times> client \<Rightarrow> (SyncError + 'a) \<times> 'w \<times> client) \<Rightarrow> ('w, 'a) client_op" where
  "reply_as f m s = (case m s of (r, s1) \<Rightarrow> (map_err f r, s1))"

definition vault_key_scheme :: "service \<Rightarrow> KeyScheme option result" where
  "vault_key_scheme v = and_then (header (vs_store v)) (\<lambda>h. Inr (map_option hd_key_scheme h))"

definition vault_kdf :: "service \<Rightarrow> kdf_params option result" where
  "vault_kdf v = and_then (header (vs_store v)) (\<lambda>h. Inr (map_option hd_kdf h))"

definition require_no_vault :: "('w, unit) client_op" where
  "require_no_vault = io_then (read_vault vault_key_scheme) (\<lambda>k.
     io_lift (ensure (k = None) (error_code VaultExists)))"

definition vault_account :: "'w account_env \<Rightarrow> ('w, account_ref) client_op" where
  "vault_account env = read_vault (\<lambda>v. and_then (require_some_account v) (account_to_ref (ax_keys env)))"

definition new_account_record :: "account_ref \<Rightarrow> rstring \<Rightarrow> int \<Rightarrow> account_record" where
  "new_account_record a server_url max_header_rev =
     \<lparr>ac_account_id = ar_id a, ac_email = ar_email a, ac_server_url = server_url, ac_server_cursor = 0,
      ac_max_header_rev = max_header_rev, ac_last_synced_at = None\<rparr>"

subsection \<open>What is shown\<close>

record device_report =
  dr_key_scheme :: "KeyScheme option"
  dr_needs_secret_key :: bool
  dr_online :: bool
  dr_secret_key_storage :: Storage

definition device_status :: "'w account_env \<Rightarrow> ('w, device_report) client_op" where
  "device_status env =
     io_then (read_vault (\<lambda>v. and_then (vault_key_scheme v) (\<lambda>k. and_then (account (vs_store v)) (\<lambda>a. Inr (k, a))))) (\<lambda>(k, a).
     io_then (case a of
        Some r \<Rightarrow> io_then (on_device (key_status (ax_keys env) (ac_account_id r))) (\<lambda>st.
          io_lift (Inr (k = Some AccountBound \<and> ks_missing st, ks_storage st)))
      | None \<Rightarrow> io_lift (Inr (False, StNone))) (\<lambda>(needs, storage) (w, c).
     (Inr \<lparr>dr_key_scheme = k, dr_needs_secret_key = needs, dr_online = is_online c, dr_secret_key_storage = storage\<rparr>, w, c)))"

record account_report =
  ap_email :: rstring
  ap_server_url :: rstring
  ap_account_id :: uuid
  ap_online :: bool
  ap_last_synced_at :: "int option"
  ap_plan_status :: "rstring option"
  ap_entitlement :: Entitlement
  ap_trial_ends_at :: "rstring option"
  ap_period_end :: "rstring option"

definition client_account_status :: "('w, account_report option) client_op" where
  "client_account_status =
     io_then (read_vault (\<lambda>v. and_then (account (vs_store v)) (\<lambda>a. Inr (a, plan (vs_store v))))) (\<lambda>(a, p) (w, c).
     (Inr (case a of
        None \<Rightarrow> None
      | Some r \<Rightarrow> Some \<lparr>ap_email = ac_email r, ap_server_url = ac_server_url r, ap_account_id = ac_account_id r,
          ap_online = is_online c, ap_last_synced_at = ac_last_synced_at r, ap_plan_status = pl_status p,
          ap_entitlement = pl_entitlement p, ap_trial_ends_at = pl_trial_ends_at p, ap_period_end = pl_period_end p\<rparr>), w, c))"

datatype AccountField = AfEmail | AfServer | AfAccountId | AfSecretKey

definition unlocked_account :: "service \<Rightarrow> account_record result" where
  "unlocked_account v = and_then (ensure (is_unlocked v) Locked) (\<lambda>_. require_some_account v)"

definition account_field :: "'w account_env \<Rightarrow> account_record \<Rightarrow> AccountField \<Rightarrow> device \<Rightarrow> rstring result \<times> device" where
  "account_field env a f d = (case f of
     AfEmail \<Rightarrow> (Inr (ac_email a), d)
   | AfServer \<Rightarrow> (Inr (ac_server_url a), d)
   | AfAccountId \<Rightarrow> (Inr (ax_uuid_text env (ac_account_id a)), d)
   | AfSecretKey \<Rightarrow> (case secret_key_text (ax_keys env) (ac_account_id a) d of (t, d1) \<Rightarrow> (ok_or NotFound t, d1)))"

definition account_value :: "'w account_env \<Rightarrow> AccountField \<Rightarrow> ('w, rstring \<times> nat) client_op" where
  "account_value env f =
     io_then (read_vault (\<lambda>v. and_then (unlocked_account v) (\<lambda>a.
       and_then (vault_settings v) (\<lambda>st. Inr (a, clipboard_clear_seconds st))))) (\<lambda>(a, seconds).
     io_then (on_device (account_field env a f)) (\<lambda>r.
     io_lift (map_err error_code (and_then r (\<lambda>t. Inr (t, seconds))))))"

subsection \<open>Invites\<close>

definition INVITE_PREFIX :: rstring where "INVITE_PREFIX = str ''HKINV1-''"
definition INVITE_TEXT_MAX :: nat where "INVITE_TEXT_MAX = 2048"

record client_invite =
  ci_server :: rstring
  ci_email :: rstring
  ci_account :: uuid
  ci_secret :: rstring

definition read_invite :: "'w account_env \<Rightarrow> rstring \<Rightarrow> SyncError + client_invite" where
  "read_invite env text =
     (let bad = SyRefused ''that invite is not valid''; raw = trim text in
      and_then (ensure (str_len raw \<le> INVITE_TEXT_MAX) bad) (\<lambda>_.
      and_then (ok_or bad (strip_prefix INVITE_PREFIX raw)) (\<lambda>b.
      and_then (ok_or bad (ax_b64url_decode env b)) (\<lambda>json.
      and_then (ok_or bad (ax_invite_json env json)) (\<lambda>(sv, em, a, sec).
      and_then (ensure (\<not> (trim em = [] \<or> sec = [])) bad) (\<lambda>_.
      Inr \<lparr>ci_server = sv, ci_email = em, ci_account = a, ci_secret = sec\<rparr>))))))"

definition preview_invite :: "'w account_env \<Rightarrow> rstring \<Rightarrow> client_error + rstring \<times> rstring" where
  "preview_invite env text =
     map_err error_code (and_then (map_err (\<lambda>_. InvalidInput ''that invite is not valid'') (read_invite env (trim text))) (\<lambda>i.
     and_then (parse_email (ax_keys env) (ci_email i)) (\<lambda>e. Inr (e, ci_server i))))"

subsection \<open>Creating the vault of this device\<close>

definition create_vault :: "'w account_env \<Rightarrow> bytes option \<Rightarrow> prepared_vault \<Rightarrow> account_record \<Rightarrow> ('w, u64) client_op" where
  "create_vault env rnd p r =
     io_then (on_vault (create_account_vault (ax_core env) rnd p r)) (\<lambda>_.
     io_then (read_vault vault_settings) (\<lambda>st.
     io_then (on_client (announce (EvUnlocked (auto_lock_minutes st)))) (\<lambda>_.
     read_vault (\<lambda>v. Inr (vs_epoch v)))))"

definition go_online_after_sign_in :: "client_session \<Rightarrow> u64 \<Rightarrow> ('w, vault_status \<times> task) client_op" where
  "go_online_after_sign_in ses epoch =
     io_then (read_vault (\<lambda>v. Inr (is_unlocked v \<and> vs_epoch v = epoch))) (\<lambda>online.
     io_then (on_client (if online then set_online ses else id)) (\<lambda>_.
     io_then (read_vault status) (\<lambda>st.
     if \<not> online then io_lift (Inr (st, NoTask))
     else io_then (on_client (announce (EvConnectivity True))) (\<lambda>_. io_lift (Inr (st, SyncTask))))))"

record fresh =
  fr_salt :: "bytes option"
  fr_secret_key :: "bytes option"
  fr_vault_id :: uuid
  fr_vault_key :: "bytes option"
  fr_wrap :: "bytes option"
  fr_header :: "bytes option"
  fr_settings :: "bytes option"

definition client_activate :: "'w account_env \<Rightarrow> fresh \<Rightarrow> rstring \<Rightarrow> rstring \<Rightarrow> ('w, vault_status \<times> task) client_op" where
  "client_activate env fr text password =
     io_then require_no_vault (\<lambda>_.
     io_then (io_lift (map_err error_code (check_new_master_password password))) (\<lambda>_.
     io_then (io_lift (map_err client_error_of (read_invite env (trim text)))) (\<lambda>i.
     io_then (io_lift (map_err error_code (parse_email (ax_keys env) (ci_email i)))) (\<lambda>e.
     let acct = \<lparr>ar_id = ci_account i, ar_email = e\<rparr> in
     io_then (io_lift (server_for (ax_client env) (ci_server i))) (\<lambda>u.
     io_then (io_lift (map_err error_code (generate_kdf (fr_salt fr)))) (\<lambda>kdf.
     with_now (\<lambda>now.
     io_then (derive_blocking env (prepare_new_account_vault (ax_core env) (fr_secret_key fr) (fr_vault_id fr) (fr_vault_key fr)
        (fr_wrap fr) password acct kdf now)) (\<lambda>made.
     io_then (io_lift (map_err error_code (encode_header_for (ax_sync env) (fr_header fr) (av_prepared made)))) (\<lambda>h.
     io_then (store_secret_key env (ar_id acct) (av_secret_key made)) (\<lambda>_.
     io_then (reply_as client_error_of (sync_activate (ax_sync env) (ax_pake env) (ax_servers env u)
        \<lparr>an_email = e, an_invite = trim text, an_kdf = hd_kdf (pv_header (av_prepared made)), an_auth_key = av_auth_key made,
         an_vault_id = hd_vault_id (pv_header (av_prepared made)), an_header = h\<rparr>)) (\<lambda>_.
     io_then (create_vault env (fr_settings fr) (av_prepared made) (new_account_record acct (ci_server i) 0)) (\<lambda>_.
     io_then (read_vault status) (\<lambda>st.
     io_lift (Inr (st, ConnectTask (av_auth_key made))))))))))))))))"

definition sign_in_error :: "SyncError \<Rightarrow> client_error" where
  "sign_in_error e = (if e = SyAccountFrozen then ''account_frozen_new_device'' else ''sign_in_failed'')"

definition client_sign_in ::
  "'w account_env \<Rightarrow> bytes option \<Rightarrow> rstring \<Rightarrow> rstring \<Rightarrow> rstring \<Rightarrow> rstring option \<Rightarrow> ('w, vault_status \<times> task) client_op" where
  "client_sign_in env rnd server_url email password key_text =
     io_then require_no_vault (\<lambda>_.
     io_then (io_lift (map_err error_code (parse_email (ax_keys env) email))) (\<lambda>e.
     io_then (io_lift (map_err error_code (case key_text of
        Some t \<Rightarrow> if t \<noteq> [] then and_then (parse_secret_key (ax_keys env) t) (\<lambda>k. Inr (Some k)) else Inr None
      | None \<Rightarrow> Inr None))) (\<lambda>typed.
     let url = trim_slashes (trim server_url) in
     io_then (io_lift (server_for (ax_client env) url)) (\<lambda>u.
     io_then client_device_id (\<lambda>device_id.
     io_then (reply_as client_error_of (sync_auth_params (ax_sync env) (ax_servers env u) e)) (\<lambda>(account_id, kdf).
     let acct = \<lparr>ar_id = account_id, ar_email = e\<rparr> in
     io_then (case typed of Some k \<Rightarrow> io_lift (Inr k) | None \<Rightarrow> device_secret_key env account_id) (\<lambda>sk.
     io_then (derive_blocking env (derive_auth_key (ax_core env) password sk kdf acct)) (\<lambda>auth_key.
     io_then (reply_as sign_in_error (sign_in_with_key (ax_sync env) (ax_pake env) (ax_servers env u) e auth_key account_id
        device_id (ax_device_name env) False)) (\<lambda>(ses, pake_ok).
     io_then (reply_as (\<lambda>_. ''sign_in_failed'') (sync_header (ax_sync env) (ax_servers env u) ses)) (\<lambda>h.
     io_then (blocking env (prepare_sign_in (ax_sync env) (rh_bytes h) password sk acct)) (\<lambda>prepared.
     io_then (io_lift (map_err (\<lambda>_. ''sign_in_failed'') prepared)) (\<lambda>(p, _).
     io_then (create_vault env rnd p (new_account_record acct url (as_i64 (hd_revision (pv_header p))))) (\<lambda>epoch.
     io_then (if pake_ok then on_vault (\<lambda>v. (Inr (), vault_set_pake_confirmed v)) else io_lift (Inr ())) (\<lambda>_.
     io_then (store_secret_key env account_id sk) (\<lambda>_.
     go_online_after_sign_in ses epoch)))))))))))))))"

subsection \<open>Unlocking\<close>

definition remember_typed_secret_key :: "'w account_env \<Rightarrow> uuid \<Rightarrow> rstring option \<Rightarrow> client \<Rightarrow> client" where
  "remember_typed_secret_key env a key_text c = (case Option.bind key_text (\<lambda>t. to_option (parse_secret_key (ax_keys env) t)) of
     None \<Rightarrow> c
   | Some k \<Rightarrow> c\<lparr>cl_device := snd (set_secret_key (ax_keys env) a k (cl_device c))\<rparr>)"

definition opened_report :: "bool \<Rightarrow> service \<Rightarrow> (nat \<times> vault_status) result" where
  "opened_report can_read v = and_then (vault_settings v) (\<lambda>s.
     and_then (if can_read then status v else Inl Storage) (\<lambda>st. Inr (auto_lock_minutes s, st)))"

text \<open>
  One guard from the end of the unlock to its announcement: the status of the open vault, or why it did not
  open and the epoch of that failure.
\<close>

definition finish_local :: "'w account_env \<Rightarrow> unlock_ticket \<Rightarrow> bytes result \<Rightarrow> ('w, vault_status + error \<times> u64) client_op" where
  "finish_local env t key = (\<lambda>(w, c). case vault_guard c of
     Inl e \<Rightarrow> (Inl e, w, c)
   | Inr v \<Rightarrow> (case finish_unlock (ax_core env) t key v of
       (Inl e, v1) \<Rightarrow> (Inr (Inr (e, vs_epoch v1)), w, c\<lparr>cl_vault := v1\<rparr>)
     | (Inr _, v1) \<Rightarrow> (case opened_report (ax_status_read env) v1 of
         Inl e \<Rightarrow> (Inl (error_code e), w, c\<lparr>cl_vault := v1\<rparr>)
       | Inr (minutes, st) \<Rightarrow> (Inr (Inl st), w, announce (EvUnlocked minutes) (c\<lparr>cl_vault := v1\<rparr>)))))"

text \<open>Adopting and announcing under one guard; a vault whose state cannot be reported is locked again.\<close>

definition adopt_online :: "'w account_env \<Rightarrow> prepared_vault \<Rightarrow> u64 \<Rightarrow> client_session \<Rightarrow> bool \<Rightarrow> ('w, vault_status) client_op" where
  "adopt_online env p epoch ses pake_ok = (\<lambda>(w, c). case vault_guard c of
     Inl e \<Rightarrow> (Inl e, w, c)
   | Inr v \<Rightarrow> (case adopt_and_unlock (ax_core env) p epoch v of
       (Inl e, v1) \<Rightarrow> (Inl (error_code e), w, c\<lparr>cl_vault := v1\<rparr>)
     | (Inr _, v1) \<Rightarrow> (case opened_report (ax_status_read env) v1 of
         Inl e \<Rightarrow> (Inl (error_code e), w, c\<lparr>cl_vault := snd (lock v1)\<rparr>)
       | Inr (minutes, st) \<Rightarrow>
           (Inr st, w, announce (EvConnectivity True) (set_online ses (announce (EvUnlocked minutes)
              (c\<lparr>cl_vault := (if pake_ok then vault_set_pake_confirmed v1 else v1)\<rparr>)))))))"

definition fallback_params :: "'w account_env \<Rightarrow> rstring \<Rightarrow> rstring \<Rightarrow> ('w, uuid \<times> kdf_params) client_op" where
  "fallback_params env u email s = (case sync_auth_params (ax_sync env) (ax_servers env u) email s of
     (r, s1) \<Rightarrow> (if ax_late env s1 then Inl (error_code UnlockFailed) else map_err client_error_of r, s1))"

definition unlock_from_server ::
  "'w account_env \<Rightarrow> rstring \<Rightarrow> rstring \<Rightarrow> u64 \<Rightarrow> ('w, vault_status \<times> task) client_op" where
  "unlock_from_server env password key_text epoch =
     io_then (vault_account env) (\<lambda>acct.
     io_then (read_vault vault_kdf) (\<lambda>local_kdf.
     io_then (client_server (ax_client env)) (\<lambda>u.
     io_then (fallback_params env u (ar_email acct)) (\<lambda>(account_id, kdf).
     if account_id \<noteq> ar_id acct \<or> local_kdf = Some kdf then io_lift (Inl (error_code UnlockFailed))
     else
     io_then (derive_blocking env (and_then (parse_secret_key (ax_keys env) key_text) (\<lambda>sk.
        derive_auth_key (ax_core env) password sk kdf acct))) (\<lambda>auth_key.
     io_then (read_vault (\<lambda>v. Inr (pake_confirmed (vs_store v)))) (\<lambda>confirmed.
     io_then client_device_id (\<lambda>device_id.
     io_then (reply_as client_error_of (sign_in_with_key (ax_sync env) (ax_pake env) (ax_servers env u) (ar_email acct) auth_key
        (ar_id acct) device_id (ax_device_name env) confirmed)) (\<lambda>(ses, pake_ok).
     io_then (reply_as client_error_of (sync_header (ax_sync env) (ax_servers env u) ses)) (\<lambda>h.
     io_then (derive_blocking env (and_then (parse_secret_key (ax_keys env) key_text) (\<lambda>sk.
        and_then (prepare_sign_in (ax_sync env) (rh_bytes h) password sk acct) (\<lambda>(p, _). Inr p)))) (\<lambda>p.
     io_then (adopt_online env p epoch ses pake_ok) (\<lambda>st.
     io_lift (Inr (st, SyncTask)))))))))))))"

text \<open>The key to use: the one typed, else the one on this device, and the text of it for the server.\<close>

definition unlock_with ::
  "'w account_env \<Rightarrow> account_ref \<Rightarrow> rstring \<Rightarrow> bytes \<Rightarrow> rstring option \<Rightarrow> rstring \<Rightarrow> ('w, vault_status \<times> task) client_op" where
  "unlock_with env acct password sk key_text fallback_text =
     io_then (on_vault begin_unlock) (\<lambda>t s.
     (case blocking env (derive_session_for_account (ax_core env) t password sk acct) s of
        (Inl e, w, c) \<Rightarrow> (Inl e, w, client_lock ''error'' c)
      | (Inr derived, s1) \<Rightarrow>
          io_then (finish_local env t (and_then derived (\<lambda>(kek, _). Inr kek))) (\<lambda>unlocked. (case unlocked of
            Inl st \<Rightarrow>
              io_then (on_client (remember_typed_secret_key env (ar_id acct) key_text)) (\<lambda>_.
              io_lift (Inr (st, case derived of Inr (_, auth_key) \<Rightarrow> ConnectTask auth_key | Inl _ \<Rightarrow> NoTask)))
          | Inr (err, epoch) \<Rightarrow>
              if error_code err \<noteq> ''unlock_failed'' then io_lift (Inl (error_code err))
              else (\<lambda>s2. case unlock_from_server env password fallback_text epoch s2 of
                (Inr r, w, c) \<Rightarrow> (Inr r, w, remember_typed_secret_key env (ar_id acct) key_text c)
              | (Inl _, s3) \<Rightarrow> (Inl (error_code err), s3)))) s1))"

definition unlock_without_key :: "'w account_env \<Rightarrow> ('w, vault_status \<times> task) client_op" where
  "unlock_without_key env =
     io_then (on_vault begin_unlock) (\<lambda>t.
     io_then (on_vault (\<lambda>v. case finish_unlock (ax_core env) t (Inl SecretKeyRequired) v of (r, v1) \<Rightarrow> (Inr r, v1))) (\<lambda>r.
     io_lift (Inl (error_code (case r of Inl e \<Rightarrow> e | Inr _ \<Rightarrow> SecretKeyRequired)))))"

definition client_unlock :: "'w account_env \<Rightarrow> rstring \<Rightarrow> rstring option \<Rightarrow> ('w, vault_status \<times> task) client_op" where
  "client_unlock env password typed_text =
     io_then (vault_account env) (\<lambda>acct.
     io_then (on_device (secret_key_lookup (ax_keys env) (ar_id acct))) (\<lambda>(stored_text, definite).
     let stored = Option.bind stored_text (\<lambda>t. map_option (Pair t) (to_option (parse_secret_key (ax_keys env) t))) in
     io_then (io_lift (map_err error_code (case typed_text of
        Some t \<Rightarrow> if t \<noteq> [] then and_then (parse_secret_key (ax_keys env) t) (\<lambda>k. Inr (Some k)) else Inr None
      | None \<Rightarrow> Inr None))) (\<lambda>typed.
     case typed of
       Some sk \<Rightarrow> unlock_with env acct password sk (Some (to_text (ax_keys env) sk)) (to_text (ax_keys env) sk)
     | None \<Rightarrow> (case stored of
         Some (t, sk) \<Rightarrow> unlock_with env acct password sk None t
       | None \<Rightarrow> if \<not> definite then io_lift (Inl ''keychain_unavailable'') else unlock_without_key env))))"

text \<open>The tasks the operations start. The last one locks a vault whose bundle the server refused.\<close>

definition run_task :: "'w account_env \<Rightarrow> nonces \<Rightarrow> task \<Rightarrow> 'w \<times> client \<Rightarrow> ('w \<times> client) option" where
  "run_task env rn t s = (case t of
     NoTask \<Rightarrow> Some s
   | ConnectTask k \<Rightarrow> map_option snd (connect (ax_client env) (ax_pake env) (ax_servers env) rn (ax_device_name env) k s)
   | SyncTask \<Rightarrow> map_option snd (sync_now (ax_client env) (ax_servers env) s)
   | BundleConnectTask k epoch \<Rightarrow>
       map_option (\<lambda>(r, w, c). (w, if r = Inl ''signed_out'' \<and> (case vault_guard c of Inr v \<Rightarrow> vs_epoch v = epoch | Inl _ \<Rightarrow> False)
          then client_lock ''bundle_refused'' c else c))
         (connect (ax_client env) (ax_pake env) (ax_servers env) rn (ax_device_name env) k s))"

subsection \<open>The master password\<close>

definition verify_master_password :: "'w account_env \<Rightarrow> rstring \<Rightarrow> ('w, unit) client_op" where
  "verify_master_password env password =
     io_then (vault_account env) (\<lambda>acct.
     io_then (device_secret_key env (ar_id acct)) (\<lambda>sk.
     io_then (read_vault (begin_password_check (ax_core env))) (\<lambda>check.
     derive_blocking env (verify_password (ax_core env) check password sk))))"

datatype ChangeOutcome = Applied | NotApplied | UnknownOutcome

definition change_outcome :: "kdf_params option \<Rightarrow> kdf_params \<Rightarrow> kdf_params \<Rightarrow> ChangeOutcome" where
  "change_outcome served old new =
     (if served = Some new then Applied else if served = Some old then NotApplied else UnknownOutcome)"

definition lost_answer :: "SyncError \<Rightarrow> bool" where
  "lost_answer e = (case e of SyUnavailable \<Rightarrow> True | SyProtocol _ \<Rightarrow> True | _ \<Rightarrow> False)"

text \<open>The revision the server gave the change, or the error to report.\<close>

definition change_sent ::
  "'w account_env \<Rightarrow> rstring \<Rightarrow> account_ref \<Rightarrow> rekey_ticket \<Rightarrow> rekeyed \<Rightarrow> kdf_params \<Rightarrow> SyncError + int \<Rightarrow> ('w, nat) client_op" where
  "change_sent env u acct t r old_kdf sent = (case sent of
     Inr revision \<Rightarrow> io_lift (if 0 \<le> revision then Inr (nat revision) else Inl internal)
   | Inl e \<Rightarrow>
       if lost_answer e then
         (\<lambda>s. case sync_auth_params (ax_sync env) (ax_servers env u) (ar_email acct) s of
           (now, s1) \<Rightarrow>
             (case change_outcome (case now of Inr (a, k) \<Rightarrow> if a = ar_id acct then Some k else None | Inl _ \<Rightarrow> None) old_kdf (rk_kdf r) of
                Applied \<Rightarrow> (Inr (u64_saturating_succ (hd_revision (rt_header t))), s1)
              | NotApplied \<Rightarrow> (Inl (client_error_of e), s1)
              | UnknownOutcome \<Rightarrow> (Inl ''password_change_unknown'', s1)))
       else (\<lambda>(w, c). case e of
           SyConflict _ \<Rightarrow> (Inl ''password_changed_elsewhere'', w, c)
         | _ \<Rightarrow> (Inl (client_error_of e), w, failed_state e c)))"

definition commit_change :: "'w account_env \<Rightarrow> rekey_ticket \<Rightarrow> rekeyed \<Rightarrow> nat \<Rightarrow> ('w, unit) client_op" where
  "commit_change env t r revision = (\<lambda>(w, c). case vault_guard c of
     Inl e \<Rightarrow> (Inl e, w, c)
   | Inr v \<Rightarrow> (case commit_rekey_on (ax_rekey_fault env) t (Inr r) revision v of
       (res, v1) \<Rightarrow> (case res of
           Inr _ \<Rightarrow> Inr ()
         | Inl e \<Rightarrow> if e = Busy \<or> e = Locked then Inr () else Inl (error_code e), w, c\<lparr>cl_vault := v1\<rparr>)))"

definition change_synced ::
  "'w account_env \<Rightarrow> fresh \<Rightarrow> rstring \<Rightarrow> rstring \<Rightarrow> ('w, unit) client_op" where
  "change_synced env fr current new_pw =
     io_then (io_lift (map_err error_code (generate_kdf (fr_salt fr)))) (\<lambda>kdf.
     io_then (vault_account env) (\<lambda>acct.
     io_then (device_secret_key env (ar_id acct)) (\<lambda>sk.
     io_then (read_vault (\<lambda>v.
        and_then (begin_rekey (ax_core env) v) (\<lambda>t.
        and_then (vault_kdf v) (\<lambda>k.
        and_then (ok_or NoVault k) (\<lambda>old_kdf. Inr (t, old_kdf, pake_confirmed (vs_store v))))))) (\<lambda>(t, old_kdf, pake).
     io_then (derive_blocking env (rekey_derive (ax_core env) (fr_wrap fr) t current new_pw kdf sk acct)) (\<lambda>r.
     io_then (read_vault (encode_rekeyed_header (ax_sync env) (fr_header fr) t r)) (\<lambda>h.
     io_then (session_and_server (ax_client env)) (\<lambda>(ses, u).
     io_then (\<lambda>s. case sync_change_credentials (ax_sync env) (ax_pake env) (ax_servers env u) ses
        \<lparr>cc_current_auth_key = rk_current_auth_key r, cc_kdf = rk_kdf r, cc_new_auth_key = rk_new_auth_key r, cc_header = h,
         cc_base_header_revision = as_i64 (hd_revision (rt_header t)), cc_pake = pake\<rparr> s of
        (sent, s1) \<Rightarrow> change_sent env u acct t r old_kdf sent s1) (\<lambda>revision.
     commit_change env t r revision))))))))"

definition client_change_master_password ::
  "'w account_env \<Rightarrow> fresh \<Rightarrow> rstring \<Rightarrow> rstring \<Rightarrow> 'w \<times> client \<Rightarrow> ((client_error + unit) \<times> 'w \<times> client) option" where
  "client_change_master_password env fr current new_pw s =
     (case io_then require_online (\<lambda>_. io_then client_require_full (\<lambda>_.
        io_lift (map_err error_code (check_new_master_password new_pw)))) s of
        (Inl e, s1) \<Rightarrow> Some (Inl e, s1)
      | (Inr _, s1) \<Rightarrow>
          (case sync_now (ax_client env) (ax_servers env) s1 of
             None \<Rightarrow> None
           | Some (Inl e, s2) \<Rightarrow> Some (Inl e, s2)
           | Some (Inr _, s2) \<Rightarrow> Some (change_synced env fr current new_pw s2)))"

subsection \<open>Devices\<close>

definition client_list_devices :: "'w account_env \<Rightarrow> ('w, device_dto list) client_op" where
  "client_list_devices env =
     io_then require_unlocked (\<lambda>_.
     io_then (session_and_server (ax_client env)) (\<lambda>(ses, u).
     reply_as client_error_of (sync_devices (ax_servers env u) ses)))"

definition client_revoke_device :: "'w account_env \<Rightarrow> uuid \<Rightarrow> ('w, unit) client_op" where
  "client_revoke_device env d =
     io_then require_unlocked (\<lambda>_.
     io_then (session_and_server (ax_client env)) (\<lambda>(ses, u).
     io_then (reply_as client_error_of (sync_revoke_device (ax_servers env u) ses d)) (\<lambda>_.
     io_then client_device_id (\<lambda>own.
     on_client (if d = own then (\<lambda>c. snd (go_offline c)) else id)))))"

definition client_sign_out :: "'w account_env \<Rightarrow> 'w \<times> client \<Rightarrow> 'w \<times> client" where
  "client_sign_out env s =
     (case (case session_and_server (ax_client env) s of
        (Inr (ses, u), s1) \<Rightarrow> snd (sync_logout (ax_servers env u) ses s1)
      | (Inl _, s1) \<Rightarrow> s1) of
      (w, c) \<Rightarrow> (w, announce (EvConnectivity False) (client_lock ''user'' c)))"

subsection \<open>Biometric unlock\<close>

definition create_unlock_bundle :: "'w account_env \<Rightarrow> rstring \<Rightarrow> int \<Rightarrow> ('w, bytes) client_op" where
  "create_unlock_bundle env password boots =
     io_then (vault_account env) (\<lambda>acct.
     io_then (read_vault begin_bundle) (\<lambda>t.
     io_then (device_secret_key env (ar_id acct)) (\<lambda>sk.
     with_now (\<lambda>now.
     io_then (derive_blocking env (derive_bundle (ax_core env) t password sk acct now boots)) (\<lambda>b.
     io_then (read_vault (\<lambda>v. ensure (\<not> (\<not> is_unlocked v \<or> vs_epoch v \<noteq> bt_epoch t)) Locked)) (\<lambda>_.
     io_lift (Inr (encode_bundle b))))))))"

definition unlock_with_bundle :: "'w account_env \<Rightarrow> bytes \<Rightarrow> int \<Rightarrow> ('w, vault_status \<times> task) client_op" where
  "unlock_with_bundle env raw boots =
     io_then (io_lift (map_err error_code (decode_bundle raw))) (\<lambda>b.
     with_now (\<lambda>now.
     io_then (io_lift (map_err error_code (check_fresh b now boots))) (\<lambda>_.
     io_then (on_vault (unlock_with_vault_key (ax_core env) (ub_vault_key b))) (\<lambda>_.
     io_then (read_vault (opened_report (ax_status_read env))) (\<lambda>(minutes, st).
     io_then (on_client (announce (EvUnlocked minutes))) (\<lambda>_.
     io_then (read_vault (\<lambda>v. Inr (vs_epoch v))) (\<lambda>epoch.
     io_lift (Inr (st, BundleConnectTask (ub_auth_key b) epoch)))))))))"

subsection \<open>Deleting the account\<close>

definition confirms :: "key_env \<Rightarrow> rstring \<Rightarrow> rstring \<Rightarrow> bool" where
  "confirms env typed email = (case (parse_email env typed, parse_email env email) of
     (Inr a, Inr b) \<Rightarrow> a = b | _ \<Rightarrow> False)"

definition CONFIRM_EMAIL :: error where "CONFIRM_EMAIL = InvalidInput ''type this account's email to confirm''"

definition client_delete_account :: "'w account_env \<Rightarrow> rstring \<Rightarrow> rstring \<Rightarrow> ('w, unit) client_op" where
  "client_delete_account env confirmation password =
     io_then require_unlocked (\<lambda>_.
     io_then require_online (\<lambda>_.
     io_then (read_vault require_some_account) (\<lambda>record.
     io_then (io_lift (ensure (confirms (ax_keys env) confirmation (ac_email record)) (error_code CONFIRM_EMAIL))) (\<lambda>_.
     io_then (verify_master_password env password) (\<lambda>_.
     io_then (vault_account env) (\<lambda>acct.
     io_then (device_secret_key env (ar_id acct)) (\<lambda>sk.
     io_then (read_vault (\<lambda>v. and_then (vault_kdf v) (\<lambda>k. and_then (ok_or NoVault k) (\<lambda>kdf.
        Inr (kdf, pake_confirmed (vs_store v)))))) (\<lambda>(kdf, pake).
     io_then (derive_blocking env (derive_auth_key (ax_core env) password sk kdf acct)) (\<lambda>auth_key.
     io_then (session_and_server (ax_client env)) (\<lambda>(ses, u) s.
     (case sync_delete_account (ax_sync env) (ax_pake env) (ax_servers env u) ses auth_key (ar_email acct) pake s of
        (sent, s1) \<Rightarrow>
          if sent = Inr () \<or> sent = Inl SyAccountDeleted then
            io_then (blocking env ()) (\<lambda>_ (w, c). (Inr (), w, wipe_local (ac_account_id record) c)) s1
          else or_failed (\<lambda>s2. (sent, s2)) s1)))))))))))"

subsection \<open>Removing this device\<close>

text \<open>
  Files by path. A rename works when its source is there and the system allows it, which the first argument
  says; like the system call it replaces its target.
\<close>

type_synonym files = "rstring \<Rightarrow> bytes option"

definition rename_file :: "(rstring \<Rightarrow> rstring \<Rightarrow> bool) \<Rightarrow> rstring \<Rightarrow> rstring \<Rightarrow> files \<Rightarrow> bool \<times> files" where
  "rename_file allows a b fs = (if fs a \<noteq> None \<and> allows a b then (True, (fs(b := fs a))(a := None)) else (False, fs))"

definition JOURNALS :: "rstring list" where
  "JOURNALS = [str ''-wal'', str ''-shm'', str ''-journal'']"

fun restore_journal_files :: "(rstring \<Rightarrow> rstring \<Rightarrow> bool) \<Rightarrow> rstring \<Rightarrow> rstring \<Rightarrow> rstring list \<Rightarrow> files \<Rightarrow> files" where
  "restore_journal_files allows path target [] fs = fs"
| "restore_journal_files allows path target (x # xs) fs =
     restore_journal_files allows path target xs (snd (rename_file allows (target @ x) (path @ x) fs))"

text \<open>The files moved so far, or the files after everything was put back.\<close>

fun move_journals ::
  "(rstring \<Rightarrow> rstring \<Rightarrow> bool) \<Rightarrow> rstring \<Rightarrow> rstring \<Rightarrow> rstring list \<Rightarrow> rstring list \<Rightarrow> files \<Rightarrow> files + (rstring list \<times> files)" where
  "move_journals allows path target [] moved fs = Inr (moved, fs)"
| "move_journals allows path target (x # xs) moved fs =
     (if fs (path @ x) = None then move_journals allows path target xs moved fs
      else case rename_file allows (path @ x) (target @ x) fs of
        (False, fs1) \<Rightarrow> Inl (restore_journal_files allows path target moved fs1)
      | (True, fs1) \<Rightarrow> move_journals allows path target xs (moved @ [x]) fs1)"

definition set_aside :: "(rstring \<Rightarrow> rstring \<Rightarrow> bool) \<Rightarrow> rstring \<Rightarrow> rstring \<Rightarrow> files \<Rightarrow> (io_error + rstring) \<times> files" where
  "set_aside allows path stamp fs =
     (let target = path @ str ''.removed-'' @ stamp in
      if fs target \<noteq> None then (Inl IoError, fs)
      else case move_journals allows path target JOURNALS [] fs of
        Inl fs1 \<Rightarrow> (Inl IoError, fs1)
      | Inr (moved, fs1) \<Rightarrow> (case rename_file allows path target fs1 of
          (False, fs2) \<Rightarrow> (Inl IoError, restore_journal_files allows path target moved fs2)
        | (True, fs2) \<Rightarrow> (Inr target, fs2)))"

text \<open>
  What the system does to the removal: the renames it allows, an empty store in memory, the store it opens
  at a path (the file it creates where there is none is not shown), and the id the device takes.
\<close>

record removal_world =
  rm_allowed :: "rstring \<Rightarrow> rstring \<Rightarrow> bool"
  rm_in_memory :: "store result"
  rm_open :: "rstring \<Rightarrow> files \<Rightarrow> store result"
  rm_path :: rstring
  rm_stamp :: rstring
  rm_new_id :: uuid

definition first_error :: "client_error option \<Rightarrow> client_error option \<Rightarrow> client_error option" where
  "first_error a b = (case a of Some e \<Rightarrow> Some e | None \<Rightarrow> b)"

text \<open>Everything after the file is set aside: each step runs, and the first error is reported.\<close>

definition finish_removal ::
  "'w account_env \<Rightarrow> removal_world \<Rightarrow> uuid \<Rightarrow> (client_session \<times> rstring \<times> uuid) option \<Rightarrow> files \<Rightarrow> ('w, unit) client_op" where
  "finish_removal env rw account_id revoke fs s =
     (let (w, c) = (case revoke of Some (ses, u, d) \<Rightarrow> snd (sync_revoke_device (ax_servers env u) ses d s) | None \<Rightarrow> s);
          (e1, c1) = (case rm_open rw (rm_path rw) fs of
            Inl e \<Rightarrow> (Some (error_code e), c)
          | Inr st \<Rightarrow> (case vault_guard c of
              Inl e \<Rightarrow> (Some e, c)
            | Inr v \<Rightarrow> (None, c\<lparr>cl_vault := snd (replace_store st v)\<rparr>)));
          (survived, w2, c2) = ax_join env (w, c1);
          ((cleared, saved), d) = (if survived then device_forget (rm_new_id rw) account_id (cl_device c2)
            else ((False, Inr ()), cl_device c2));
          c3 = c2\<lparr>cl_device := d\<rparr>;
          e2 = (if \<not> survived then Some internal else case saved of Inl _ \<Rightarrow> Some ''file'' | Inr _ \<Rightarrow> None)
      in (case first_error e1 e2 of Some e \<Rightarrow> Inl e | None \<Rightarrow> Inr (), w2, announce (EvRemoved cleared) c3))"

definition removal_checked :: "'w account_env \<Rightarrow> rstring \<Rightarrow> ('w, account_record) client_op" where
  "removal_checked env confirmation =
     io_then (read_vault unlocked_account) (\<lambda>a.
     io_then (io_lift (ensure (confirms (ax_keys env) confirmation (ac_email a)) (error_code CONFIRM_EMAIL))) (\<lambda>_. io_lift (Inr a)))"

definition remove_device :: "'w account_env \<Rightarrow> removal_world \<Rightarrow> rstring \<Rightarrow> files \<Rightarrow> 'w \<times> client \<Rightarrow> (client_error + unit) \<times> files \<times> 'w \<times> client" where
  "remove_device env rw confirmation fs s =
     (case removal_checked env confirmation s of
        (Inl e, s1) \<Rightarrow> (Inl e, fs, s1)
      | (Inr a, s1) \<Rightarrow>
          (let revoke = (case session_and_server (ax_client env) s1 of
                 (Inr (ses, u), _) \<Rightarrow> Some (ses, u, dv_id (cl_device (snd s1))) | (Inl _, _) \<Rightarrow> None);
               c1 = client_lock ''user'' (snd s1);
               c2 = (if is_online (snd s1) then announce (EvConnectivity False) c1 else c1)
           in case vault_guard c2 of
             Inl e \<Rightarrow> (Inl e, fs, fst s1, c2)
           | Inr v \<Rightarrow> (case rm_in_memory rw of
               Inl e \<Rightarrow> (Inl (error_code e), fs, fst s1, c2)
             | Inr blank \<Rightarrow>
                 (let v1 = snd (replace_store blank v) in
                  case set_aside (rm_allowed rw) (rm_path rw) (rm_stamp rw) fs of
                    (Inl _, fs1) \<Rightarrow> (case rm_open rw (rm_path rw) fs1 of
                        Inl e \<Rightarrow> (Inl (error_code e), fs1, fst s1, c2\<lparr>cl_vault := v1\<rparr>)
                      | Inr st \<Rightarrow> (Inl ''file'', fs1, fst s1, c2\<lparr>cl_vault := snd (replace_store st v1)\<rparr>))
                  | (Inr _, fs1) \<Rightarrow>
                      (case finish_removal env rw (ac_account_id a) revoke fs1 (fst s1, c2\<lparr>cl_vault := v1\<rparr>) of
                         (r, s2) \<Rightarrow> (r, fs1, s2))))))"

section \<open>Properties\<close>

subsection \<open>What the other threads of a device may do\<close>

text \<open>The vault is locked and nothing of it is in memory.\<close>

definition shut :: "client \<Rightarrow> bool" where
  "shut c \<longleftrightarrow> vs_state (cl_vault c) = VLocked \<and> vs_session (cl_vault c) = None"

text \<open>A step that leaves the vault alone or locks it.\<close>

definition only_locks :: "('w \<times> client \<Rightarrow> 'r \<times> 'w \<times> client) \<Rightarrow> bool" where
  "only_locks m \<longleftrightarrow> (\<forall>w c r w' c'. m (w, c) = (r, w', c') \<longrightarrow> cl_storage_error c' = cl_storage_error c \<and>
     (cl_vault c' = cl_vault c \<or> shut c'))"

lemma only_locksD:
  assumes "only_locks m" and "m (w, c) = (r, w', c')"
  shows "cl_storage_error c' = cl_storage_error c" and "cl_vault c' = cl_vault c \<or> shut c'"
  using assms unfolding only_locks_def by blast+

lemma only_locks_shut:
  assumes "only_locks m" and "shut c" and "m (w, c) = (r, w', c')"
  shows "shut c'"
  using only_locksD(2) [OF assms(1,3)] assms(2) unfolding shut_def by auto

lemma only_locksI:
  assumes "\<And>w c r w' c'. m (w, c) = (r, w', c') \<Longrightarrow> cl_storage_error c' = cl_storage_error c \<and> (cl_vault c' = cl_vault c \<or> shut c')"
  shows "only_locks m"
  using assms unfolding only_locks_def by blast

lemma io_then_Inl: "m s = (Inl e, s1) \<Longrightarrow> io_then m f s = (Inl e, s1)"
  by (simp add: io_then_def)

lemma io_then_Inr: "m s = (Inr x, s1) \<Longrightarrow> io_then m f s = f x s1"
  by (simp add: io_then_def)

lemma only_locks_then:
  assumes m: "only_locks m" and f: "\<And>x. only_locks (f x)"
  shows "only_locks (io_then m f)"
proof (rule only_locksI)
  fix w c r w' c'
  assume run: "io_then m f (w, c) = (r, w', c')"
  obtain a w1 c1 where a: "m (w, c) = (a, w1, c1)" by (metis prod.collapse)
  note one = only_locksD [OF m a]
  show "cl_storage_error c' = cl_storage_error c \<and> (cl_vault c' = cl_vault c \<or> shut c')"
  proof (cases a)
    case (Inl e)
    then show ?thesis using run a one by (simp add: io_then_def)
  next
    case (Inr x)
    then have "f x (w1, c1) = (r, w', c')" using run a by (simp add: io_then_def)
    note two = only_locksD [OF f this] and three = only_locks_shut [OF f _ this]
    show ?thesis using one two three by auto
  qed
qed

lemma only_locks_same:
  assumes "\<And>w c. cl_vault (snd (snd (m (w, c)))) = cl_vault c" and "\<And>w c. cl_storage_error (snd (snd (m (w, c)))) = cl_storage_error c"
  shows "only_locks m"
  by (rule only_locksI) (metis assms snd_conv)

lemma only_locks_lift: "only_locks (io_lift r)"
  by (rule only_locks_same) (simp_all add: io_lift_def)

lemma only_locks_read: "only_locks (read_vault f)"
  by (rule only_locks_same) (auto simp: read_vault_def on_vault_def vault_guard_def split: option.splits)

lemma only_locks_device: "only_locks (on_device f)"
  by (rule only_locks_same) (auto simp: on_device_def split: prod.splits)

lemma only_locks_device_id: "only_locks client_device_id"
  by (rule only_locks_same) (simp_all add: client_device_id_def)

lemma only_locks_client_server: "only_locks (client_server env)"
  unfolding client_server_def by (intro only_locks_then only_locks_read only_locks_lift)

lemma only_locks_send: "(\<And>t c. only_locks (tr t c)) \<Longrightarrow> only_locks (send tr t c k)"
  by (rule only_locksI) (auto simp: send_def split: prod.splits dest: only_locksD)

lemma only_locks_reply: "only_locks m \<Longrightarrow> only_locks (reply_as f m)"
  by (rule only_locksI) (auto simp: reply_as_def split: prod.splits dest: only_locksD)

lemma only_locks_blocking: "only_locks (ax_join env) \<Longrightarrow> only_locks (blocking env x)"
  by (rule only_locksI) (auto simp: blocking_def split: prod.splits dest: only_locksD)

lemma only_locks_prod: "(\<And>a b. only_locks (f a b)) \<Longrightarrow> only_locks (case x of (a, b) \<Rightarrow> f a b)"
  by (cases x) simp

lemma only_locks_if: "only_locks m \<Longrightarrow> only_locks n \<Longrightarrow> only_locks (if b then m else n)"
  by simp

lemmas only_locks_rules = only_locks_then only_locks_lift only_locks_read only_locks_device only_locks_device_id
  only_locks_client_server only_locks_send only_locks_reply only_locks_blocking only_locks_prod only_locks_if

lemma only_locks_derive: "only_locks (ax_join env) \<Longrightarrow> only_locks (derive_blocking env r)"
  unfolding derive_blocking_def by (intro only_locks_rules)

lemma only_locks_login:
  assumes "\<And>t c. only_locks (tr t c)"
  shows "only_locks (login_pake env pk tr e k a d n)" and "only_locks (login_legacy env tr e k a d n)"
    and "only_locks (enroll env pk tr ses k)"
  unfolding login_pake_def login_legacy_def enroll_def register_in_session_def register_upload_def
  by (intro only_locks_rules assms)+

lemma only_locks_sign_in:
  assumes tr: "\<And>t c. only_locks (tr t c)"
  shows "only_locks (sign_in_with_key env pk tr e k a d n confirmed)"
proof (rule only_locksI)
  fix w c r w' c'
  assume run: "sign_in_with_key env pk tr e k a d n confirmed (w, c) = (r, w', c')"
  obtain r1 w1 c1 where one: "login_pake env pk tr e k a d n (w, c) = (r1, w1, c1)" by (metis prod.collapse)
  obtain r2 w2 c2 where two: "login_legacy env tr e k a d n (w1, c1) = (r2, w2, c2)" by (metis prod.collapse)
  obtain r3 w3 c3 where three: "enroll env pk tr (projr r2) k (w2, c2) = (r3, w3, c3)" by (metis prod.collapse)
  note locks = only_locks_login [of tr, OF tr]
  have shut2: "shut c1 \<Longrightarrow> shut c2" and shut3: "shut c2 \<Longrightarrow> shut c3"
    by (erule only_locks_shut [OF locks(2) _ two]) (erule only_locks_shut [OF locks(3) _ three])
  note facts = only_locksD [OF locks(1) one] only_locksD [OF locks(2) two] only_locksD [OF locks(3) three] shut2 shut3
  have "c' = c1 \<or> c' = c2 \<or> c' = c3"
    using run one two three by (auto simp: sign_in_with_key_def split: sum.splits if_splits)
  then show "cl_storage_error c' = cl_storage_error c \<and> (cl_vault c' = cl_vault c \<or> shut c')"
    using facts by auto
qed

subsection \<open>An unlock says what happened\<close>

text \<open>
  What an unlock that started from a shut vault may leave. The one error that leaves the vault open is that
  its status could not be read from the database once it was.
\<close>

definition says_truth :: "bool \<Rightarrow> client_error + vault_status \<times> task \<Rightarrow> client \<Rightarrow> bool" where
  "says_truth can_read r c' \<longleftrightarrow> (case r of
     Inl e \<Rightarrow> shut c' \<or> \<not> can_read \<and> e = error_code Storage \<and> is_unlocked (cl_vault c')
   | Inr (st, _) \<Rightarrow> is_unlocked (cl_vault c') \<and> vst_state st = VUnlocked)"

definition truthful :: "bool \<Rightarrow> ('w, vault_status \<times> task) client_op \<Rightarrow> bool" where
  "truthful can_read m \<longleftrightarrow> (\<forall>w c r w' c'. shut c \<longrightarrow> m (w, c) = (r, w', c') \<longrightarrow> says_truth can_read r c')"

lemma truthfulD: "truthful b m \<Longrightarrow> shut c \<Longrightarrow> m (w, c) = (r, w', c') \<Longrightarrow> says_truth b r c'"
  unfolding truthful_def by blast

lemma truthful_then:
  assumes m: "only_locks m" and f: "\<And>x. truthful b (f x)"
  shows "truthful b (io_then m f)"
  unfolding truthful_def
proof (intro allI impI)
  fix w c r w' c'
  assume s: "shut c" and run: "io_then m f (w, c) = (r, w', c')"
  obtain a w1 c1 where a: "m (w, c) = (a, w1, c1)" by (metis prod.collapse)
  have s1: "shut c1" by (rule only_locks_shut [OF m s a])
  show "says_truth b r c'"
    using truthfulD [OF f s1] run s1 by (cases a) (auto simp: io_then_def a says_truth_def)
qed

lemma truthful_error: "truthful b (io_lift (Inl e))"
  by (auto simp: truthful_def says_truth_def io_lift_def)

lemma truthful_prod: "(\<And>a b. truthful d (f a b)) \<Longrightarrow> truthful d (case x of (a, b) \<Rightarrow> f a b)"
  by (cases x) simp

lemma truthful_if: "truthful d m \<Longrightarrow> truthful d n \<Longrightarrow> truthful d (if b then m else n)"
  by simp

lemma opened_report_state:
  assumes "opened_report b v = Inr (minutes, st)"
  shows "is_unlocked v \<and> vst_state st = VUnlocked"
  using assms
  by (auto simp: opened_report_def vault_settings_def session_of_def status_def is_unlocked_def result_simps split: VaultState.splits option.splits if_splits)

lemma opened_report_ok:
  assumes "vs_state v = VUnlocked" and "vs_session v = Some x" and "require_header (vs_store v) = Inr h"
  shows "(\<exists>minutes st. opened_report b v = Inr (minutes, st)) \<or> \<not> b \<and> opened_report b v = Inl Storage"
  using assms
  by (auto simp: opened_report_def vault_settings_def session_of_def status_def require_header_def result_simps split: option.splits)

lemma shut_locked [simp]: "shut (c\<lparr>cl_vault := snd (lock v)\<rparr>)"
  by (simp add: shut_def lock_def)

lemma adopt_failed_locked:
  assumes "adopt_and_unlock env p epoch v = (Inl e, v1)" and "vs_state v = VLocked" and "vs_session v = None"
  shows "vs_state v1 = VLocked \<and> vs_session v1 = None"
  using assms by (auto simp: adopt_and_unlock_def Let_def split: if_splits sum.splits)

lemma truthful_adopt: "truthful b (io_then (adopt_online env p epoch ses pake_ok) (\<lambda>st. io_lift (Inr (st, SyncTask))))"
  by (auto simp: truthful_def says_truth_def adopt_online_def io_then_def io_lift_def shut_def vault_guard_def announce_def set_online_def
      vault_set_pake_confirmed_def is_unlocked_def lock_def
      dest: adopt_failed_locked opened_report_state split: sum.splits option.splits prod.splits if_splits)

lemma only_locks_params:
  assumes "\<And>u t c. only_locks (ax_servers env u t c)"
  shows "only_locks (fallback_params env u email)"
proof (rule only_locksI)
  fix w c r w' c'
  assume run: "fallback_params env u email (w, c) = (r, w', c')"
  obtain a where "sync_auth_params (ax_sync env) (ax_servers env u) email (w, c) = (a, w', c')"
    using run by (auto simp: fallback_params_def split: prod.splits if_splits)
  moreover have "only_locks (sync_auth_params (ax_sync env) (ax_servers env u) email)"
    unfolding sync_auth_params_def by (intro only_locks_rules assms)
  ultimately show "cl_storage_error c' = cl_storage_error c \<and> (cl_vault c' = cl_vault c \<or> shut c')"
    by (metis only_locksD)
qed

lemma truthful_from_server:
  assumes j: "only_locks (ax_join env)" and tr: "\<And>u t c. only_locks (ax_servers env u t c)"
  shows "truthful b (unlock_from_server env password key_text epoch)"
  unfolding unlock_from_server_def vault_account_def sync_header_def
  by (intro truthful_adopt truthful_then truthful_prod truthful_if truthful_error only_locks_params [OF tr] only_locks_rules
      only_locks_derive [OF j] only_locks_sign_in tr)

lemma finish_local_shut:
  assumes "finish_local env t key (w, c) = (r, w', c')" and "cl_storage_error c = None" and "vs_session (cl_vault c) = None"
    and "vs_state (cl_vault c) = VUnlocking \<and> ut_epoch t = vs_epoch (cl_vault c) \<or> vs_state (cl_vault c) = VLocked"
  shows "case r of Inl e \<Rightarrow> \<not> ax_status_read env \<and> e = error_code Storage \<and> is_unlocked (cl_vault c')
    | Inr (Inl st) \<Rightarrow> is_unlocked (cl_vault c') \<and> vst_state st = VUnlocked | Inr (Inr _) \<Rightarrow> shut c'"
proof -
  let ?v = "cl_vault c" and ?b = "ax_status_read env"
  obtain x v1 where f: "finish_unlock (ax_core env) t key ?v = (x, v1)" by (metis surj_pair)
  have run: "(case x of Inl e \<Rightarrow> (Inr (Inr (e, vs_epoch v1)), w, c\<lparr>cl_vault := v1\<rparr>)
     | Inr _ \<Rightarrow> (case opened_report ?b v1 of Inl e \<Rightarrow> (Inl (error_code e), w, c\<lparr>cl_vault := v1\<rparr>)
       | Inr (minutes, st) \<Rightarrow> (Inr (Inl st), w, announce (EvUnlocked minutes) (c\<lparr>cl_vault := v1\<rparr>)))) = (r, w', c')"
    using assms(1,2) by (simp add: finish_local_def vault_guard_def f)
  show ?thesis
  proof (cases x)
    case (Inl e)
    then have "vs_state v1 = VLocked \<and> vs_session v1 = None"
      using f assms(3,4) by (auto simp: finish_unlock_def split: if_splits sum.splits)
    then show ?thesis using run Inl by (auto simp: shut_def)
  next
    case (Inr u)
    then obtain y h where v1: "vs_state v1 = VUnlocked" "vs_session v1 = Some y" "require_header (vs_store v1) = Inr h"
      using f by (auto simp: finish_unlock_def complete_unlock_def result_simps split: if_splits sum.splits)
    show ?thesis
    proof (cases "opened_report ?b v1")
      case o: (Inl e)
      then have "\<not> ?b" "e = Storage" using opened_report_ok [OF v1, of ?b] by auto
      then show ?thesis using run Inr o v1(1,2) by (auto simp: is_unlocked_def)
    next
      case o: (Inr ms)
      obtain minutes st where ms: "ms = (minutes, st)" by fastforce
      show ?thesis using run Inr o ms opened_report_state [OF o [unfolded ms]] by (auto simp: announce_def)
    qed
  qed
qed

lemma begin_unlock_shut:
  assumes "on_vault begin_unlock (w, c) = (r, w', c')" and "shut c"
  shows "case r of Inl _ \<Rightarrow> shut c'
    | Inr t \<Rightarrow> cl_storage_error c' = None \<and> vs_session (cl_vault c') = None \<and> vs_state (cl_vault c') = VUnlocking \<and> ut_epoch t = vs_epoch (cl_vault c')"
  using assms
  by (auto simp: on_vault_def begin_unlock_def vault_guard_def shut_def split: option.splits sum.splits prod.splits)

lemma truthful_unlock_without_key: "truthful b (unlock_without_key env)"
  unfolding truthful_def
proof (intro allI impI)
  fix w c r w' c'
  assume s: "shut c" and run: "unlock_without_key env (w, c) = (r, w', c')"
  obtain a w1 c1 where a: "on_vault begin_unlock (w, c) = (a, w1, c1)" by (metis prod.collapse)
  note b = begin_unlock_shut [OF a s]
  show "says_truth b r c'"
  proof (cases a)
    case (Inl e)
    then show ?thesis using run b a by (auto simp: unlock_without_key_def io_then_Inl says_truth_def)
  next
    case (Inr t)
    have "finish_unlock (ax_core env) t (Inl SecretKeyRequired) (cl_vault c1) = (Inl SecretKeyRequired, (cl_vault c1)\<lparr>vs_state := VLocked\<rparr>)"
      using b Inr by (simp add: finish_unlock_def complete_unlock_def)
    then show ?thesis using run b a Inr
      by (auto simp: unlock_without_key_def io_then_Inr) (auto simp: says_truth_def io_then_def on_vault_def vault_guard_def io_lift_def shut_def)
  qed
qed

lemma remember_vault [simp]:
  "cl_vault (remember_typed_secret_key env a k c) = cl_vault c"
  by (simp add: remember_typed_secret_key_def split: option.split)

lemma client_lock_shut: "shut (client_lock r c)"
  by (simp add: client_lock_def shut_def lock_def drop_session_def announce_def split: connectivity.split)

lemma truthful_unlock_with:
  assumes j: "only_locks (ax_join env)" and tr: "\<And>u t c. only_locks (ax_servers env u t c)"
  shows "truthful (ax_status_read env) (unlock_with env acct password sk key_text fallback_text)"
  unfolding truthful_def
proof (intro allI impI)
  fix w c r w' c'
  assume s: "shut c" and run: "unlock_with env acct password sk key_text fallback_text (w, c) = (r, w', c')"
  obtain a w1 c1 where a: "on_vault begin_unlock (w, c) = (a, w1, c1)" by (metis prod.collapse)
  note b = begin_unlock_shut [OF a s]
  show "says_truth (ax_status_read env) r c'"
  proof (cases a)
    case (Inl e)
    then show ?thesis using run b a by (auto simp: unlock_with_def io_then_Inl says_truth_def)
  next
    case (Inr t)
    let ?derived = "derive_session_for_account (ax_core env) t password sk acct"
    obtain d w2 c2 where d: "blocking env ?derived (w1, c1) = (d, w2, c2)" by (metis prod.collapse)
    note l = only_locksD [OF only_locks_blocking [OF j] d]
    have c2: "cl_storage_error c2 = None" "vs_session (cl_vault c2) = None"
        "vs_state (cl_vault c2) = VUnlocking \<and> ut_epoch t = vs_epoch (cl_vault c2) \<or> vs_state (cl_vault c2) = VLocked"
      using l b Inr by (auto simp: shut_def)
    show ?thesis
    proof (cases d)
      case (Inl e)
      then show ?thesis using run a d Inr client_lock_shut by (auto simp: unlock_with_def io_then_Inr says_truth_def)
    next
      case dd: (Inr y)
      then have y: "y = ?derived" using d by (auto simp: blocking_def split: prod.splits if_splits)
      obtain f w3 c3 where f: "finish_local env t (and_then ?derived (\<lambda>(kek, _). Inr kek)) (w2, c2) = (f, w3, c3)"
        by (metis prod.collapse)
      note x = finish_local_shut [OF f c2]
      obtain g w4 c4 where g: "unlock_from_server env password fallback_text (snd (projr (projr f))) (w3, c3) = (g, w4, c4)"
        by (metis prod.collapse)
      note t4 = truthfulD [OF truthful_from_server [where env = env and b = True, OF j tr] _ g]
      show ?thesis
        using run a d Inr dd y f x g t4
        by (auto simp: unlock_with_def io_then_Inr io_then_Inl io_lift_def on_client_def says_truth_def split: sum.splits if_splits prod.splits)
    qed
  qed
qed

lemma truthful_unlock:
  assumes j: "only_locks (ax_join env)" and tr: "\<And>u t c. only_locks (ax_servers env u t c)"
  shows "truthful (ax_status_read env) (client_unlock env password typed_text)"
  unfolding client_unlock_def vault_account_def Let_def
  by (intro truthful_then truthful_prod only_locks_rules)
    (auto intro!: truthful_unlock_with [OF j tr] truthful_unlock_without_key truthful_error split: option.splits)

text \<open>An unlock of a vault that is not locked.\<close>

definition refuses_open :: "('w, vault_status \<times> task) client_op \<Rightarrow> bool" where
  "refuses_open m \<longleftrightarrow> (\<forall>w c r w' c'. vs_state (cl_vault c) \<noteq> VLocked \<longrightarrow> m (w, c) = (r, w', c') \<longrightarrow>
     (\<exists>e. r = Inl e) \<and> cl_vault c' = cl_vault c)"

lemma refuses_begin: "refuses_open (io_then (on_vault begin_unlock) f)"
proof -
  have "\<exists>e. begin_unlock v = (Inl e, v)" if "vs_state v \<noteq> VLocked" for v
    using that by (cases "vs_state v") (simp_all add: begin_unlock_def check_locked_def)
  then have "\<exists>e. on_vault begin_unlock (w, c) = (Inl e, w, c)" if "vs_state (cl_vault c) \<noteq> VLocked" for w c
    using that by (cases "cl_storage_error c") (fastforce simp: on_vault_def vault_guard_def)+
  then show ?thesis unfolding refuses_open_def by (metis Inl_inject io_then_Inl prod.inject)
qed

lemma refuses_then:
  assumes "\<And>w c. cl_vault (snd (snd (m (w, c)))) = cl_vault c" and "\<And>x. refuses_open (f x)"
  shows "refuses_open (io_then m f)"
  unfolding refuses_open_def
proof (intro allI impI)
  fix w c r w' c'
  assume s: "vs_state (cl_vault c) \<noteq> VLocked" and run: "io_then m f (w, c) = (r, w', c')"
  obtain a w1 c1 where a: "m (w, c) = (a, w1, c1)" by (metis prod.collapse)
  have "cl_vault c1 = cl_vault c" using assms(1) [of w c] a by simp
  note c1 = this
  show "(\<exists>e. r = Inl e) \<and> cl_vault c' = cl_vault c"
  proof (cases a)
    case (Inl e)
    then show ?thesis using run a c1 by (auto simp: io_then_def)
  next
    case (Inr x)
    then have "f x (w1, c1) = (r, w', c')" using run a by (simp add: io_then_def)
    then show ?thesis using assms(2) [of x] c1 s unfolding refuses_open_def by metis
  qed
qed

lemma refuses_error: "refuses_open (io_lift (Inl e))"
  by (simp add: refuses_open_def io_lift_def)

lemma vault_kept:
  "cl_vault (snd (snd (read_vault f (w, c)))) = cl_vault c" "cl_vault (snd (snd (on_device g (w, c)))) = cl_vault c"
  "cl_vault (snd (snd (io_lift r (w, c)))) = cl_vault c"
  by (auto simp: read_vault_def on_vault_def vault_guard_def on_device_def io_lift_def split: option.split prod.split)

lemma refuses_unlock: "refuses_open (client_unlock env password typed_text)"
  unfolding client_unlock_def vault_account_def Let_def unlock_with_def unlock_without_key_def
  by (intro refuses_then vault_kept) (auto intro!: refuses_then vault_kept refuses_begin refuses_error split: option.split prod.split)

lemma unlock_busy:
  assumes "client_unlock env password typed_text (w, c) = (r, w', c')" and "vs_state (cl_vault c) \<noteq> VLocked"
  shows "(\<exists>e. r = Inl e) \<and> cl_vault c' = cl_vault c"
  using refuses_unlock [of env password typed_text] assms unfolding refuses_open_def by blast

subsection \<open>What the server was asked\<close>

text \<open>Servers whose requests are written down, with their answers, in the order they were made.\<close>

type_synonym 'w logbook = "(call \<times> (SyncError + http_response)) list \<times> 'w"

definition logged :: "'w servers \<Rightarrow> 'w logbook servers" where
  "logged srv u t c = (\<lambda>((lg, w), cl). case srv u t c (w, cl) of (r, w', cl') \<Rightarrow> (r, (lg @ [(c, r)], w'), cl'))"

text \<open>A step that leaves a part of the state alone, and a step that leaves all of it alone.\<close>

definition same :: "('s \<Rightarrow> 'x) \<Rightarrow> ('s \<Rightarrow> 'r \<times> 's) \<Rightarrow> bool" where
  "same g m \<longleftrightarrow> (\<forall>s. g (snd (m s)) = g s)"

definition still :: "('s \<Rightarrow> 'r \<times> 's) \<Rightarrow> bool" where
  "still m \<longleftrightarrow> (\<forall>s. snd (m s) = s)"

lemma sameD: "same g m \<Longrightarrow> m s = (r, s') \<Longrightarrow> g s' = g s"
  unfolding same_def by (metis snd_conv)

lemma still_same: "still m \<Longrightarrow> same g m"
  by (simp add: still_def same_def)

lemma stillD: "still m \<Longrightarrow> m s = (r, s') \<Longrightarrow> s' = s"
  unfolding still_def by (metis snd_conv)

lemma same_then: "same g m \<Longrightarrow> (\<And>x. same g (f x)) \<Longrightarrow> same g (io_then m f)"
  by (auto simp: same_def io_then_def split: prod.split sum.split) (metis snd_conv)+

lemma same_prod: "(\<And>a b. same g (f a b)) \<Longrightarrow> same g (case x of (a, b) \<Rightarrow> f a b)"
  by (cases x) simp

lemma same_if: "same g m \<Longrightarrow> same g n \<Longrightarrow> same g (if b then m else n)"
  by simp

lemma same_reply: "same g m \<Longrightarrow> same g (reply_as f m)"
  by (simp add: same_def reply_as_def case_prod_beta)

lemma same_send: "(\<And>t c. same g (tr t c)) \<Longrightarrow> same g (send tr t c k)"
  by (simp add: same_def send_def case_prod_beta)

lemma same_blocking: "same g (ax_join env) \<Longrightarrow> same g (blocking env x)"
  by (simp add: same_def blocking_def case_prod_beta)

lemma still_lift: "still (io_lift r)"
  by (simp add: still_def io_lift_def)

lemma still_then: "still m \<Longrightarrow> (\<And>x. still (f x)) \<Longrightarrow> still (io_then m f)"
  by (auto simp: still_def io_then_def split: prod.split sum.split) (metis snd_conv)+

lemma still_read: "still (read_vault f)"
  by (auto simp: still_def read_vault_def on_vault_def vault_guard_def split: option.split)

lemma still_client_server: "still (client_server env)"
  unfolding client_server_def by (intro still_then still_read still_lift)

lemma still_session: "still (session_and_server env)"
  unfolding session_and_server_def by (intro still_then still_client_server still_lift) (simp add: still_def)

lemma still_online: "still require_online"
  by (simp add: still_def require_online_def case_prod_beta)

lemma still_account: "still (vault_account env)"
  unfolding vault_account_def by (rule still_read)

lemma still_device_id: "still client_device_id"
  by (simp add: still_def client_device_id_def)

lemma still_no_vault: "still require_no_vault"
  unfolding require_no_vault_def by (intro still_then still_read still_lift)

lemmas still_rules = still_read still_lift still_client_server still_session still_account still_device_id still_no_vault

lemmas same_rules = same_then same_prod same_if same_reply same_send same_blocking still_rules [THEN still_same]

lemma same_derive: "same g (ax_join env) \<Longrightarrow> same g (derive_blocking env r)"
  unfolding derive_blocking_def by (intro same_rules)

lemma io_thenE:
  assumes "io_then m f s = (r, s')"
  obtains e where "m s = (Inl e, s')" "r = Inl e" | x s1 where "m s = (Inr x, s1)" "f x s1 = (r, s')"
  using assms by (cases "m s") (auto simp: io_then_def split: sum.splits)

text \<open>What holds of the value and of the error of a run from a state.\<close>

definition ends :: "('s \<Rightarrow> ('e + 'a) \<times> 's) \<Rightarrow> ('a \<Rightarrow> 's \<Rightarrow> bool) \<Rightarrow> ('e \<Rightarrow> 's \<Rightarrow> bool) \<Rightarrow> 's \<Rightarrow> bool" where
  "ends m Q R s \<longleftrightarrow> (case m s of (Inr x, s') \<Rightarrow> Q x s' | (Inl e, s') \<Rightarrow> R e s')"

lemma ends_then:
  assumes "\<And>x s'. m s = (Inr x, s') \<Longrightarrow> ends (f x) Q R s'" and "\<And>e s'. m s = (Inl e, s') \<Longrightarrow> R e s'"
  shows "ends (io_then m f) Q R s"
  using assms by (cases "m s") (auto simp: ends_def io_then_def split: sum.split prod.split)

lemma ends_step:
  assumes "same g m" and "g s = v" and "\<And>x s'. m s = (Inr x, s') \<Longrightarrow> g s' = v \<Longrightarrow> ends (f x) Q R s'"
    and "\<And>e s'. g s' = v \<Longrightarrow> R e s'"
  shows "ends (io_then m f) Q R s"
  by (rule ends_then) (use assms sameD [OF assms(1)] in metis)+

lemma ends_prod: "(\<And>a b. x = (a, b) \<Longrightarrow> ends (f a b) Q R s) \<Longrightarrow> ends (case x of (a, b) \<Rightarrow> f a b) Q R s"
  by (cases x) simp

subsection \<open>A password change reaches the server first\<close>

abbreviation wrap_of :: "'w \<times> client \<Rightarrow> header_row option" where
  "wrap_of s \<equiv> st_header (vs_store (cl_vault (snd s)))"

text \<open>The log shows that the server has the new parameters: it took the change, or it serves them.\<close>

definition has_new_kdf :: "sync_env \<Rightarrow> kdf_params \<Rightarrow> (call \<times> (SyncError + http_response)) list \<Rightarrow> bool" where
  "has_new_kdf env k lg \<longleftrightarrow>
     (\<exists>b x. (CallCredentials b, Inr x) \<in> set lg \<and> hr_status x = 200 \<and> cb_kdf b = kdf_dto_of env k) \<or>
     (\<exists>e x a d. (CallParams e, Inr x) \<in> set lg \<and> hr_status x = 200 \<and> hr_body x = BParams a d \<and> kdf_params_from env d = Inr k)"

lemma logged_Inr:
  assumes "send (logged srv u) t c k ((lg, w), cl) = (Inr x, (lg', w'), cl')"
  shows "\<exists>r. (c, Inr r) \<in> set lg' \<and> k r = Inr x"
  using assms by (auto simp: send_Inr logged_def split: prod.splits)

lemma same_logged:
  assumes "\<And>u t c. same wrap_of (srv u t c)"
  shows "same wrap_of (logged srv u t c)"
  using assms by (auto simp: same_def logged_def split: prod.splits) (metis snd_conv)

lemma body_kdf:
  assumes "credentials_body_of env pk tr ses ch s = (Inr b, s')"
  shows "cb_kdf b = kdf_dto_of env (cc_kdf ch)"
  using assms by (auto simp: credentials_body_of_def io_lift_def split: if_splits elim!: io_thenE)

lemma change_credentials_logged:
  assumes "sync_change_credentials env pk (logged srv u) ses ch s = (Inr n, (lg, w), c)"
  shows "has_new_kdf env (cc_kdf ch) lg"
proof -
  obtain b s1 where b: "credentials_body_of env pk (logged srv u) ses ch s = (Inr b, s1)"
      and l: "send (logged srv u) (tok ses) (CallCredentials b) (\<lambda>r.
       and_then (expect_ok (\<lambda>b. case b of BCredentials n \<Rightarrow> Some n | _ \<Rightarrow> None) r) (\<lambda>n.
       and_then (ensure (n = cc_base_header_revision ch + 1) (SyProtocol ''header revision'')) (\<lambda>_. Inr n))) s1 = (Inr n, (lg, w), c)"
    using assms unfolding sync_change_credentials_def by (auto simp: io_lift_def elim!: io_thenE)
  obtain lg1 w1 c1 where s1: "s1 = ((lg1, w1), c1)" by (metis prod.collapse)
  from logged_Inr [OF l [unfolded s1]] obtain r where "(CallCredentials b, Inr r) \<in> set lg" "hr_status r = 200"
    by (auto simp: expect_ok_def result_simps split: if_splits)
  then show ?thesis using body_kdf [OF b] by (auto simp: has_new_kdf_def)
qed

lemma auth_params_logged:
  assumes "sync_auth_params env (logged srv u) e s = (Inr (a, k), (lg, w), c)"
  shows "has_new_kdf env k lg"
proof -
  obtain lg1 w1 c1 where s: "s = ((lg1, w1), c1)" by (metis prod.collapse)
  from logged_Inr [OF assms [unfolded sync_auth_params_def s]] show ?thesis
    by (auto simp: has_new_kdf_def expect_ok_def parse_body_def result_simps split: if_splits body.splits)
qed

lemma failed_wrap:
  assumes "e \<noteq> SyAccountDeleted"
  shows "st_header (vs_store (cl_vault (failed_state e c))) = st_header (vs_store (cl_vault c))"
proof -
  have "cl_vault (snd (go_offline c)) = cl_vault c"
    by (simp add: go_offline_def drop_session_def announce_def split: connectivity.split)
  moreover have "cl_vault (mark_unreachable c) = cl_vault c"
    by (simp add: mark_unreachable_def announce_def split: connectivity.split)
  moreover have "st_header (vs_store (cl_vault (mark_frozen c))) = st_header (vs_store (cl_vault c))"
    by (auto simp: mark_frozen_def announce_def vault_set_plan_def set_plan_def vault_guard_def Let_def split: sum.split option.split)
  ultimately show ?thesis
    using assms by (cases e) (auto simp: failed_state_def announce_def split: prod.splits)
qed

lemma change_sent_effect:
  assumes srv: "ax_servers env = logged srv" and tr: "\<And>u t c. same wrap_of (srv u t c)"
    and sent: "\<And>n. sent = Inr n \<Longrightarrow> has_new_kdf (ax_sync env) (rk_kdf r) (fst (fst s))"
    and run: "change_sent env u acct t r old_kdf sent s = (x, s')"
  shows "case x of Inr _ \<Rightarrow> wrap_of s' = wrap_of s \<and> has_new_kdf (ax_sync env) (rk_kdf r) (fst (fst s'))
    | Inl e \<Rightarrow> wrap_of s' = wrap_of s \<or> e = ''account_deleted''"
proof (cases sent)
  case (Inr n)
  then show ?thesis using run sent by (auto simp: change_sent_def io_lift_def split: if_splits)
next
  case (Inl e)
  obtain now s1 where now: "sync_auth_params (ax_sync env) (ax_servers env u) (ar_email acct) s = (now, s1)" by (metis surj_pair)
  have "same wrap_of (sync_auth_params (ax_sync env) (ax_servers env u) (ar_email acct))"
    unfolding sync_auth_params_def srv by (intro same_rules same_logged tr)
  from sameD [OF this now] have w: "wrap_of s1 = wrap_of s" .
  obtain lg w1 c1 where s1: "s1 = ((lg, w1), c1)" by (metis prod.collapse)
  have h: "has_new_kdf (ax_sync env) k lg" if "now = Inr (a, k)" for a k
    by (rule auth_params_logged) (use now that srv s1 in auto)
  obtain w0 c0 where s: "s = (w0, c0)" by fastforce
  show ?thesis
  proof (cases "lost_answer e")
    case True
    then show ?thesis
      using run w h now unfolding change_sent_def Inl s1
      by (auto simp: change_outcome_def split: if_splits sum.splits)
  next
    case False
    have "\<exists>code. x = Inl code \<and> fst s' = w0 \<and> (snd s' = c0 \<or> snd s' = failed_state e c0 \<and> code = client_error_of e)"
      using run False unfolding change_sent_def Inl s by (cases e) auto
    then obtain code where x: "x = Inl code" "snd s' = c0 \<or> snd s' = failed_state e c0 \<and> code = client_error_of e" by blast
    show ?thesis
    proof (cases "e = SyAccountDeleted")
      case True
      then show ?thesis using x by (auto simp: s)
    next
      case False
      then show ?thesis using x failed_wrap [OF False, of c0] by (auto simp: s)
    qed
  qed
qed

abbreviation vault_of :: "'w \<times> client \<Rightarrow> service" where
  "vault_of s \<equiv> cl_vault (snd s)"

text \<open>The key that opens the wrap: from the password, the Secret Key and the account.\<close>

definition kek_of :: "core_env \<Rightarrow> rstring \<Rightarrow> kdf_params \<Rightarrow> bytes \<Rightarrow> account_ref \<Rightarrow> bytes result" where
  "kek_of env password kdf sk acct =
     and_then (derive_master_key (ce_keys env) password kdf) (\<lambda>m. derive_kek_v3 (ce_keys env) m sk acct)"

text \<open>
  The same vault key under another password: the old wrap opens with the old password, the new one with the
  new password and parameters, and both give the same key; the revision is the next one and the rest of the
  header is what it was.
\<close>

definition rewrapped ::
  "core_env \<Rightarrow> bytes \<Rightarrow> account_ref \<Rightarrow> rstring \<Rightarrow> rstring \<Rightarrow> kdf_params \<Rightarrow> header_row option \<Rightarrow> header_row option \<Rightarrow> bool" where
  "rewrapped env sk acct current new_pw k old new \<longleftrightarrow> (\<exists>h w vid kdf okek nkek vk.
     old = Some h \<and> hr_vault_id h = Some vid \<and> hr_kdf h = Some kdf \<and>
     new = Some (h\<lparr>hr_kdf := Some k, hr_wrapped_vault_key := w, hr_key_scheme := scheme_to_db AccountBound, hr_revision := hr_revision h + 1\<rparr>) \<and>
     kek_of env current kdf sk acct = Inr okek \<and> unwrap_vault_key env okek vid (hr_wrapped_vault_key h) = Inr vk \<and>
     kek_of env new_pw k sk acct = Inr nkek \<and> unwrap_vault_key env nkek vid w = Inr vk)"

lemma require_header_row:
  assumes "require_header st = Inr hr"
  obtains h where "st_header st = Some h" "hr_vault_id h = Some (hd_vault_id hr)" "hr_kdf h = Some (hd_kdf hr)"
    "hr_wrapped_vault_key h = hd_wrapped_vault_key hr" "hr_revision h = int (hd_revision hr)"
  using assms by (auto simp: require_header_def header_def result_simps split: option.splits)

lemma require_header_cong: "st_header st = st_header st' \<Longrightarrow> require_header st = require_header st'"
  by (simp add: require_header_def header_def)

lemma rekeyed_wrap:
  assumes "aead_ok (ce_crypto env)" and "\<And>n. rnd = Some n \<Longrightarrow> length n = NONCE_LEN"
    and "rekey_derive env rnd t current new_pw k sk acct = Inr r" and "require_header st = Inr (rt_header t)"
    and "int (u64_saturating_succ (hd_revision (rt_header t))) \<le> i64_max" and "st_header st = Some h"
  shows "rewrapped env sk acct current new_pw k (Some h)
    (Some (h\<lparr>hr_kdf := Some (rk_kdf r), hr_wrapped_vault_key := rk_wrapped_vault_key r,
      hr_key_scheme := scheme_to_db (rk_key_scheme r), hr_revision := int (u64_saturating_succ (hd_revision (rt_header t)))\<rparr>))"
proof -
  let ?h = "rt_header t"
  obtain cm ckek vk nm nkek where d: "derive_master_key (ce_keys env) current (hd_kdf ?h) = Inr cm" "derive_kek_v3 (ce_keys env) cm sk acct = Inr ckek"
    "unwrap_vault_key env ckek (hd_vault_id ?h) (hd_wrapped_vault_key ?h) = Inr vk"
    "derive_master_key (ce_keys env) new_pw k = Inr nm" "derive_kek_v3 (ce_keys env) nm sk acct = Inr nkek"
    "wrap_vault_key env rnd nkek (hd_vault_id ?h) vk = Inr (rk_wrapped_vault_key r)" "rk_kdf r = k" "rk_key_scheme r = AccountBound"
    using assms(3) unfolding rekey_derive_def Let_def and_then_Inr_iff by auto
  obtain n where n: "rnd = Some n" using d(6) by (cases rnd) (auto simp: wrap_vault_key_def seal_def seal_with_aad_def result_simps split: if_splits)
  have u: "unwrap_vault_key env nkek (hd_vault_id ?h) (rk_wrapped_vault_key r) = Inr vk"
    using unwrap_wrap [OF assms(1) assms(2) unwrap_length [OF d(3)] d(6) [unfolded n]] n by simp
  have rv: "int (u64_saturating_succ (hd_revision ?h)) = int (hd_revision ?h) + 1"
    using assms(5) by (simp add: u64_saturating_succ_def i64_max_def min_def split: if_splits)
  from require_header_row [OF assms(4)] assms(6)
  have "hr_vault_id h = Some (hd_vault_id ?h)" "hr_kdf h = Some (hd_kdf ?h)" "hr_wrapped_vault_key h = hd_wrapped_vault_key ?h"
      "hr_revision h = int (hd_revision ?h)" by auto
  then show ?thesis
    unfolding rewrapped_def using d u rv by (auto simp: kek_of_def)
qed

lemma require_account_error: "require_account st = Inl e \<Longrightarrow> e \<noteq> Busy \<and> e \<noteq> Locked"
  by (auto simp: require_account_def account_def result_simps elim: ok_or.elims split: option.splits)

text \<open>
  What the commit does when the wrap on disk is still the one the change began with. It leaves the wrap alone
  and reports no error only when the vault was locked meanwhile.
\<close>

lemma commit_change_effect:
  assumes "commit_change env t r revision s = (x, s')" and "require_header (vs_store (vault_of s)) = Inr (rt_header t)"
  shows "fst s' = fst s \<and>
    (wrap_of s' = wrap_of s \<and> (x = Inr () \<longrightarrow> vs_epoch (vault_of s') \<noteq> rt_epoch t \<or> (\<exists>e. session_of (vault_of s') = Inl e)) \<or>
     (x = Inr () \<or> x = Inl (error_code Storage) \<and> ax_rekey_fault env = Some 2) \<and>
     int (u64_saturating_succ (hd_revision (rt_header t))) \<le> i64_max \<and> (\<exists>h. wrap_of s = Some h \<and>
       wrap_of s' = Some (h\<lparr>hr_kdf := Some (rk_kdf r), hr_wrapped_vault_key := rk_wrapped_vault_key r,
         hr_key_scheme := scheme_to_db (rk_key_scheme r), hr_revision := int (u64_saturating_succ (hd_revision (rt_header t)))\<rparr>)))"
proof -
  obtain w c where s: "s = (w, c)" by fastforce
  let ?v = "cl_vault c" and ?m = "commit_rekey_on (ax_rekey_fault env) t (Inr r) revision (cl_vault c)"
  have hd: "require_header (vs_store ?v) = Inr (rt_header t)" using assms(2) by (simp add: s)
  have open_same: "fst ?m \<noteq> Inl Busy \<and> fst ?m \<noteq> Inl Locked" if "vs_epoch ?v = rt_epoch t" "session_of ?v = Inr x" for x
    using hd require_account_error [of "vs_store ?v"] that
    by (cases "require_account (vs_store ?v)")
      (auto simp: commit_rekey_on_def update_key_wrap_def revision_to_db_def Let_def ensure_def split: option.splits if_splits)
  show ?thesis
  proof (cases rule: commit_rekey_on_cases [of "ax_rekey_fault env" t "Inr r" revision ?v])
    case 1
    then obtain e where e: "?m = (Inl e, ?v)" by (metis prod.collapse)
    have "vs_epoch ?v \<noteq> rt_epoch t \<or> (\<exists>e. session_of ?v = Inl e)" if "e = Busy \<or> e = Locked"
      using open_same e that by (cases "session_of ?v") auto
    then show ?thesis using assms(1) e
      by (auto simp: s commit_change_def vault_guard_def split: option.splits if_splits)
  next
    case (2 y r' cur a st)
    have st: "int revision \<le> i64_max" "\<exists>h. st_header (vs_store ?v) = Some h \<and> st_header st = Some (h\<lparr>hr_kdf := Some (rk_kdf r), hr_wrapped_vault_key := rk_wrapped_vault_key r,
         hr_key_scheme := scheme_to_db (rk_key_scheme r), hr_revision := int revision\<rparr>)"
      using 2(9,3) by (auto simp: update_key_wrap_def revision_to_db_def result_simps split: option.splits if_splits)
    have rv: "revision = u64_saturating_succ (hd_revision (rt_header t))" using 2(6,8) by simp
    have "s' = s \<and> (\<exists>e. x = Inl e) \<or> fst s' = w \<and> st_header (vs_store (vault_of s')) = st_header st \<and>
        (x = Inr () \<or> x = Inl (error_code Storage) \<and> ax_rekey_fault env = Some 2)"
      using assms(1) 2(10) unfolding s commit_change_def
      by (cases "cl_storage_error c"; cases "ax_rekey_fault env = Some 2") (auto simp: vault_guard_def raise_max_header_rev_def)
    then show ?thesis
    proof
      assume "s' = s \<and> (\<exists>e. x = Inl e)"
      then show ?thesis by auto
    next
      assume "fst s' = w \<and> st_header (vs_store (vault_of s')) = st_header st \<and>
        (x = Inr () \<or> x = Inl (error_code Storage) \<and> ax_rekey_fault env = Some 2)"
      then show ?thesis using st unfolding rv s by (intro conjI [OF _ disjI2] conjI) auto
    qed
  qed
qed

lemma same_wrap_device: "same wrap_of (device_secret_key env a)"
  unfolding device_secret_key_def by (intro same_rules) (auto simp: same_def on_device_def split: prod.split)

lemma rekey_derive_kdf: "rekey_derive env rnd t cur new_pw k sk a = Inr r \<Longrightarrow> rk_kdf r = k"
  by (auto simp: rekey_derive_def Let_def result_simps)

lemma derive_blocking_Inr: "derive_blocking env r s = (Inr x, s') \<Longrightarrow> r = Inr x"
  by (auto simp: derive_blocking_def blocking_def io_lift_def result_simps elim!: io_thenE split: prod.splits if_splits)

lemma same_wrap_change:
  assumes "\<And>u t c. same wrap_of (srv u t c)"
  shows "same wrap_of (sync_change_credentials env pk (logged srv u) ses ch)"
  unfolding sync_change_credentials_def credentials_body_of_def reauth_def register_in_session_def register_upload_def
  by (intro same_rules same_logged assms)

text \<open>
  What a change leaves, of the header \<open>v\<close> it began with in the session of an epoch: the new wrap, with the server
  having the new parameters; or the old one, and then the vault was locked meanwhile or an error is reported.
\<close>

definition change_done ::
  "'w logbook account_env \<Rightarrow> bytes \<Rightarrow> account_ref \<Rightarrow> rstring \<Rightarrow> rstring \<Rightarrow> kdf_params \<Rightarrow> u64 \<Rightarrow> header_row option \<Rightarrow>
    client_error + unit \<Rightarrow> 'w logbook \<times> client \<Rightarrow> bool" where
  "change_done env sk acct current new_pw k epoch v x s' \<longleftrightarrow> (case x of
     Inr _ \<Rightarrow> has_new_kdf (ax_sync env) k (fst (fst s')) \<and> (rewrapped (ax_core env) sk acct current new_pw k v (wrap_of s') \<or>
       wrap_of s' = v \<and> (vs_epoch (vault_of s') \<noteq> epoch \<or> (\<exists>e. session_of (vault_of s') = Inl e)))
   | Inl e \<Rightarrow> wrap_of s' = v \<or> e = ''account_deleted'' \<or> e = error_code Storage \<and> ax_rekey_fault env = Some 2 \<and>
       has_new_kdf (ax_sync env) k (fst (fst s')) \<and> rewrapped (ax_core env) sk acct current new_pw k v (wrap_of s'))"

lemma change_request_taken:
  assumes srv: "ax_servers env = logged srv" and tr: "\<And>u t c. same wrap_of (srv u t c)" and v: "wrap_of s = v"
    and k: "rekey_derive (ax_core env) rnd t current new_pw k sk acct = Inr r" "cc_kdf ch = k"
    and seal: "aead_ok (ce_crypto (ax_core env))" "\<And>n. rnd = Some n \<Longrightarrow> length n = NONCE_LEN"
    and hd: "require_header (vs_store (vault_of s)) = Inr (rt_header t)"
  shows "ends (io_then (\<lambda>s. case sync_change_credentials (ax_sync env) (ax_pake env) (ax_servers env u) ses ch s of
       (sent, s1) \<Rightarrow> change_sent env u acct t r old_kdf sent s1) (\<lambda>revision. commit_change env t r revision))
     (\<lambda>x. change_done env sk acct current new_pw k (rt_epoch t) v (Inr x))
     (\<lambda>e. change_done env sk acct current new_pw k (rt_epoch t) v (Inl e)) s"
proof -
  have rk: "rk_kdf r = k" using rekey_derive_kdf [OF k(1)] .
  obtain sent s1 where s1: "sync_change_credentials (ax_sync env) (ax_pake env) (ax_servers env u) ses ch s = (sent, s1)"
    by (metis surj_pair)
  have w: "wrap_of s1 = v"
    using sameD [OF same_wrap_change [OF tr] s1 [unfolded srv]] v by simp
  have l: "has_new_kdf (ax_sync env) (rk_kdf r) (fst (fst s1))" if "sent = Inr n" for n
    using change_credentials_logged [of "ax_sync env" "ax_pake env" srv u ses ch s n "fst (fst s1)" "snd (fst s1)" "snd s1"] s1 that
    by (simp add: srv k rk)
  obtain x s2 where s2: "change_sent env u acct t r old_kdf sent s1 = (x, s2)" by (metis surj_pair)
  have effect: "case x of Inr _ \<Rightarrow> wrap_of s2 = wrap_of s1 \<and> has_new_kdf (ax_sync env) (rk_kdf r) (fst (fst s2))
    | Inl e \<Rightarrow> wrap_of s2 = wrap_of s1 \<or> e = ''account_deleted''"
    by (rule change_sent_effect [OF srv tr _ s2]) (erule l)
  show ?thesis
  proof (rule ends_then, goal_cases)
    case (1 rv s')
    then have x: "x = Inr rv" "s' = s2" using s1 s2 by auto
    then have two: "wrap_of s2 = v" "has_new_kdf (ax_sync env) k (fst (fst s2))" using effect w rk by auto
    have hd2: "require_header (vs_store (vault_of s2)) = Inr (rt_header t)"
      using hd require_header_cong [of "vs_store (vault_of s2)" "vs_store (vault_of s)"] two(1) v by simp
    obtain y s3 where s3: "commit_change env t r rv s2 = (y, s3)" by (metis surj_pair)
    have new: "rewrapped (ax_core env) sk acct current new_pw k v (wrap_of s3)"
      if "int (u64_saturating_succ (hd_revision (rt_header t))) \<le> i64_max" "wrap_of s2 = Some h"
        "wrap_of s3 = Some (h\<lparr>hr_kdf := Some (rk_kdf r), hr_wrapped_vault_key := rk_wrapped_vault_key r,
         hr_key_scheme := scheme_to_db (rk_key_scheme r), hr_revision := int (u64_saturating_succ (hd_revision (rt_header t)))\<rparr>)" for h
      using rekeyed_wrap [OF seal k(1) hd2 that(1,2)] that(2,3) two(1) by simp
    show ?case
      using commit_change_effect [OF s3 hd2] two new s3
      unfolding x(2) ends_def change_done_def by (cases y) auto
  next
    case (2 e s')
    then show ?case using s1 s2 effect w by (auto simp: change_done_def)
  qed
qed

lemma ends_mono: "ends m Q R s \<Longrightarrow> (\<And>x s'. Q x s' \<Longrightarrow> Q' x s') \<Longrightarrow> (\<And>e s'. R e s' \<Longrightarrow> R' e s') \<Longrightarrow> ends m Q' R' s"
  by (auto simp: ends_def split: prod.splits sum.splits)

lemma begin_rekey_ticket:
  assumes "begin_rekey env v = Inr t"
  shows "require_header (vs_store v) = Inr (rt_header t)" and "rt_epoch t = vs_epoch v"
  using assms by (auto simp: begin_rekey_def result_simps)

lemma device_secret_key_vault: "same vault_of (device_secret_key env a)"
  unfolding device_secret_key_def by (intro same_rules) (auto simp: same_def on_device_def split: prod.split)

lemma device_secret_key_Inr:
  "device_secret_key env a s = (Inr sk, s') \<Longrightarrow> fst (secret_key (ax_keys env) a (cl_device (snd s))) = Some sk"
  by (cases s) (auto simp: device_secret_key_def on_device_def io_lift_def result_simps elim!: io_thenE split: prod.splits)

lemma read_vault_Inr: "read_vault f s = (Inr x, s') \<Longrightarrow> f (vault_of s) = Inr x \<and> s' = s"
  by (cases s) (auto simp: read_vault_def on_vault_def vault_guard_def result_simps split: option.splits sum.splits prod.splits)

text \<open>The account of the vault and the Secret Key of this device, as the change reads them.\<close>

definition changes_with :: "'w account_env \<Rightarrow> account_ref \<Rightarrow> bytes \<Rightarrow> client \<Rightarrow> bool" where
  "changes_with env acct sk c \<longleftrightarrow> and_then (require_some_account (cl_vault c)) (account_to_ref (ax_keys env)) = Inr acct \<and>
     fst (secret_key (ax_keys env) (ar_id acct) (cl_device c)) = Some sk"

lemma ends_still:
  assumes "still m" and "\<And>x. m s = (Inr x, s) \<Longrightarrow> ends (f x) Q R s" and "\<And>e. R e s"
  shows "ends (io_then m f) Q R s"
  by (rule ends_then) (use assms stillD [OF assms(1)] in metis)+

lemma password_change_taken:
  assumes srv: "ax_servers env = logged srv" and tr: "\<And>u t c. same wrap_of (srv u t c)" and j: "same wrap_of (ax_join env)"
    and k: "generate_kdf (fr_salt fr) = Inr k"
    and seal: "aead_ok (ce_crypto (ax_core env))" "\<And>n. fr_wrap fr = Some n \<Longrightarrow> length n = NONCE_LEN"
    and D: "D = (\<lambda>x s'. wrap_of s' = wrap_of s \<and> (\<exists>e. x = Inl e) \<or> (\<exists>acct sk. changes_with env acct sk (snd s) \<and>
      change_done env sk acct current new_pw k (vs_epoch (vault_of s)) (wrap_of s) x s'))"
  shows "ends (change_synced env fr current new_pw) (\<lambda>x. D (Inr x)) (\<lambda>e. D (Inl e)) s"
proof -
  have failed: "D (Inl e) s'" if "wrap_of s' = wrap_of s" for e s' using that by (simp add: D)
  note step = ends_step [where g = wrap_of and v = "wrap_of s"]
  have request: "ends (io_then (derive_blocking env (rekey_derive (ax_core env) (fr_wrap fr) t current new_pw k sk acct)) (\<lambda>r.
     io_then (read_vault (encode_rekeyed_header (ax_sync env) (fr_header fr) t r)) (\<lambda>h.
     io_then (session_and_server (ax_client env)) (\<lambda>(ses, u).
     io_then (\<lambda>s. case sync_change_credentials (ax_sync env) (ax_pake env) (ax_servers env u) ses
        \<lparr>cc_current_auth_key = rk_current_auth_key r, cc_kdf = rk_kdf r, cc_new_auth_key = rk_new_auth_key r, cc_header = h,
         cc_base_header_revision = as_i64 (hd_revision (rt_header t)), cc_pake = pake\<rparr> s of
        (sent, s1) \<Rightarrow> change_sent env u acct t r old_kdf sent s1) (\<lambda>revision.
     commit_change env t r revision))))) (\<lambda>x. D (Inr x)) (\<lambda>e. D (Inl e)) s1"
    if held: "changes_with env acct sk (snd s)" and s1: "vault_of s1 = vault_of s" and t: "begin_rekey (ax_core env) (vault_of s) = Inr t"
    for acct sk t old_kdf pake s1
  proof -
    have hd: "require_header (vs_store (vault_of s2)) = Inr (rt_header t)" if "wrap_of s2 = wrap_of s" for s2 :: "'a logbook \<times> client"
      using begin_rekey_ticket(1) [OF t] require_header_cong [OF that] by simp
    have change: "D x s2" if "change_done env sk acct current new_pw k (rt_epoch t) (wrap_of s) x s2" for x s2
      using that held begin_rekey_ticket(2) [OF t] unfolding D by auto
    show ?thesis
      apply (rule step [OF same_derive [OF j]])
        apply (simp add: s1)
       apply (drule derive_blocking_Inr)
       apply (rule step [OF still_read [THEN still_same]], assumption)
        apply (rule step [OF still_session [THEN still_same]], assumption)
         apply (rule ends_prod)
         apply (rule ends_mono [OF change_request_taken [OF srv tr _ _ _ seal hd, where k = k and sk = sk and acct = acct and current = current and new_pw = new_pw]])
               apply assumption+
              apply (simp add: rekey_derive_kdf)
             apply assumption+
           apply (auto intro: change failed)
      done
  qed
  show ?thesis
    unfolding change_synced_def
  proof (rule ends_still [OF still_lift], goal_cases)
    case (1 kdf)
    then have kdf: "kdf = k" using k by (simp add: io_lift_def)
    show ?case unfolding kdf
    proof (rule ends_still [OF still_account], goal_cases)
      case (1 acct)
      then have a: "and_then (require_some_account (vault_of s)) (account_to_ref (ax_keys env)) = Inr acct"
        unfolding vault_account_def by (auto dest: read_vault_Inr)
      show ?case
      proof (rule ends_then, goal_cases)
        case (1 sk s1)
        have s1: "vault_of s1 = vault_of s" using sameD [OF device_secret_key_vault 1] .
        have held: "changes_with env acct sk (snd s)" using a device_secret_key_Inr [OF 1] by (simp add: changes_with_def)
        show ?case
        proof (rule ends_still [OF still_read], goal_cases)
          case (1 x)
          then obtain t old_kdf pake where x: "x = (t, old_kdf, pake)" "begin_rekey (ax_core env) (vault_of s1) = Inr t"
            by (auto dest!: read_vault_Inr simp: result_simps)
          show ?case unfolding x(1) prod.case by (rule request [OF held s1]) (use x(2) s1 in simp)
        qed (simp add: failed s1)
      next
        case (2 e s1)
        then show ?case using sameD [OF device_secret_key_vault 2] by (simp add: failed)
      qed
    qed (simp add: failed)
  qed (simp add: failed)
qed

subsection \<open>An activation that is cut short can be finished\<close>

abbreviation log_of :: "'w logbook \<times> client \<Rightarrow> (call \<times> (SyncError + http_response)) list" where
  "log_of s \<equiv> fst (fst s)"

abbreviation device_of :: "'w \<times> client \<Rightarrow> device" where
  "device_of s \<equiv> cl_device (snd s)"

definition device_has :: "'w account_env \<Rightarrow> uuid \<Rightarrow> bytes \<Rightarrow> device \<Rightarrow> bool" where
  "device_has env a sk d \<longleftrightarrow> fst (secret_key_text (ax_keys env) a d) = Some (to_text (ax_keys env) sk)"

lemma set_secret_key_held:
  assumes "set_secret_key env a k d = (Inr st, d')"
  shows "fst (secret_key_text env a d') = Some (to_text env k)"
  using assms
  by (auto simp: set_secret_key_def secret_key_text_def resolve_def Let_def split: prod.splits sum.splits if_splits)

lemma store_secret_key_held:
  assumes "store_secret_key env a k s = (Inr u, s')"
  shows "device_has env a k (device_of s')"
  using assms
  by (auto simp: store_secret_key_def on_device_def io_lift_def device_has_def
      elim!: io_thenE split: prod.splits sum.splits) (erule set_secret_key_held)

lemma store_secret_key_log: "same log_of (store_secret_key env a k)"
  unfolding store_secret_key_def by (intro same_rules) (auto simp: same_def on_device_def split: prod.split)

lemma prepared_secret_key:
  "prepare_new_account_vault env rnd_sk vid rnd_vk rnd pw acct kdf now = Inr made \<Longrightarrow> rnd_sk = Some (av_secret_key made)"
  by (auto simp: prepare_new_account_vault_def result_simps)

lemma ends_now: "ends (f (cl_now_ms (snd s))) Q R s \<Longrightarrow> ends (with_now f) Q R s"
  by (cases s) (simp add: ends_def with_now_def)

lemma same_device_vault: "same device_of (on_vault f)"
  by (auto simp: same_def on_vault_def split: sum.split prod.split)

lemma same_device_logged:
  assumes "\<And>u t c. same device_of (srv u t c)"
  shows "same device_of (logged srv u t c)"
  using assms by (auto simp: same_def logged_def split: prod.splits) (metis snd_conv)

lemma same_device_activate:
  assumes "\<And>t c. same device_of (tr t c)"
  shows "same device_of (sync_activate env pk tr a)"
proof -
  have "same device_of (register_upload env pk tr t c st k)" "same device_of (activate_with env tr a key up)" "same device_of (activate_legacy env tr a)"
    for t c st k key up
    unfolding register_upload_def activate_with_def activate_legacy_def by (intro same_rules assms)+
  then have "same device_of (\<lambda>s. case register_upload env pk tr t c st k s of
      (Inr up, s1) \<Rightarrow> activate_with env tr a None (Some up) s1
    | (Inl e, s1) \<Rightarrow> if e = SyRefused ''not found'' then activate_legacy env tr a s1 else (Inl e, s1))" for t c st k
    by (auto simp: same_def split: prod.split sum.split) (metis snd_conv)+
  then show ?thesis
    unfolding sync_activate_def by (intro same_then same_prod still_lift [THEN still_same])
qed

lemma same_device_create: "same device_of (create_vault env rnd p r)"
  unfolding create_vault_def
  by (intro same_rules same_device_vault) (simp add: same_def on_client_def announce_def case_prod_beta)

lemma ends_same:
  assumes "same g m" and "g s = v" and "\<And>x s'. g s' = v \<Longrightarrow> Q x s'" and "\<And>e s'. g s' = v \<Longrightarrow> R e s'"
  shows "ends m Q R s"
  using assms sameD [OF assms(1)] by (fastforce simp: ends_def split: prod.split sum.split)

lemma activation_holds_key:
  assumes srv: "ax_servers env = logged srv" and tr: "\<And>u t c. same device_of (srv u t c)" and j: "same log_of (ax_join env)"
    and i: "read_invite env (trim text) = Inr i" and lg: "log_of s = []"
    and keyed: "keyed = (\<lambda>s'. log_of s' = [] \<or> (\<exists>sk. fr_secret_key fr = Some sk \<and> device_has env (ci_account i) sk (device_of s')))"
  shows "ends (client_activate env fr text password) (\<lambda>_. keyed) (\<lambda>_. keyed) s"
proof -
  note step = ends_step [where g = log_of and v = "[]"] and quiet = still_lift [THEN still_same]
  have silent: "keyed s'" if "log_of s' = []" for s' using that by (simp add: keyed)
  have sent: "ends (io_then (reply_as client_error_of (sync_activate (ax_sync env) (ax_pake env) (ax_servers env u) a)) (\<lambda>_.
       io_then (create_vault env rnd p r) (\<lambda>_. io_then (read_vault status) (\<lambda>st. io_lift (Inr (st, tk)))))) (\<lambda>_. keyed) (\<lambda>_. keyed) s1"
    if "fr_secret_key fr = Some sk" "device_has env (ci_account i) sk (device_of s1)" for u a rnd p r tk sk s1
    by (rule ends_same [where g = device_of and v = "device_of s1"])
      (use that in \<open>auto simp: keyed srv intro!: same_rules same_device_activate same_device_logged tr same_device_create\<close>)
  have invite: "i2 = i" if "io_lift (map_err client_error_of (read_invite env (trim text))) s1 = (Inr i2, s2)" for i2 s1 s2
    using that i by (simp add: io_lift_def)
  show ?thesis
    unfolding client_activate_def Let_def
    apply (rule step [OF still_no_vault [THEN still_same] lg])
     apply (rule step [OF quiet], assumption)
      apply (rule step [OF quiet], assumption)
       apply (drule invite)
       apply (rule step [OF quiet], assumption)
        apply (rule step [OF quiet], assumption)
         apply (rule step [OF quiet], assumption)
          apply (rule ends_now)
          apply (rule step [OF same_derive [OF j]], assumption)
           apply (drule derive_blocking_Inr, drule prepared_secret_key)
           apply (rule step [OF quiet], assumption)
            apply (rule step [OF store_secret_key_log], assumption)
             apply (drule store_secret_key_held)
             apply (rule sent)
              apply assumption
             apply simp
            apply (erule silent)+
    done
qed

subsection \<open>Removing a device loses no file\<close>

lemma rename_elsewhere: "p \<noteq> a \<Longrightarrow> p \<noteq> b \<Longrightarrow> snd (rename_file allows a b fs) p = fs p"
  by (simp add: rename_file_def)

lemma restore_elsewhere:
  "(\<And>x. x \<in> set xs \<Longrightarrow> p \<noteq> path @ x \<and> p \<noteq> target @ x) \<Longrightarrow> restore_journal_files allows path target xs fs p = fs p"
proof (induction xs arbitrary: fs)
  case (Cons x xs)
  then have "p \<noteq> path @ x" "p \<noteq> target @ x" by auto
  then show ?case using Cons by (simp add: rename_elsewhere)
qed simp

lemma move_elsewhere:
  assumes "\<And>x. x \<in> set xs \<union> set moved \<Longrightarrow> p \<noteq> path @ x \<and> p \<noteq> target @ x"
  shows "case move_journals allows path target xs moved fs of Inl fs1 \<Rightarrow> fs1 p = fs p
    | Inr (moved1, fs1) \<Rightarrow> fs1 p = fs p \<and> set moved1 \<subseteq> set xs \<union> set moved"
  using assms
proof (induction xs arbitrary: moved fs)
  case (Cons x xs)
  have p: "p \<noteq> path @ x" "p \<noteq> target @ x" using Cons.prems by auto
  show ?case
  proof (cases "fs (path @ x) = None")
    case True
    then show ?thesis using Cons.IH [of moved fs] Cons.prems by (fastforce split: sum.splits prod.splits)
  next
    case False
    obtain ok fs1 where r: "rename_file allows (path @ x) (target @ x) fs = (ok, fs1)" by fastforce
    have "fs1 p = fs p" using rename_elsewhere [OF p, of allows fs] r by simp
    then show ?thesis
      using Cons.IH [of "moved @ [x]" fs1] Cons.prems restore_elsewhere [of moved p path target allows fs1] False r
      by (cases ok) (fastforce split: sum.splits prod.splits)+
  qed
qed simp

lemma journal_suffix:
  assumes "x \<in> set JOURNALS"
  shows "x \<noteq> [] \<and> x \<noteq> str ''.removed-'' @ stamp"
  using assms by (auto simp: JOURNALS_def str_def)

lemma set_aside_keeps:
  fixes path stamp :: rstring
  defines "target \<equiv> path @ str ''.removed-'' @ stamp"
  assumes "set_aside allows path stamp fs = (r, fs')"
  shows "case r of Inl _ \<Rightarrow> fs' path = fs path
    | Inr t \<Rightarrow> t = target \<and> fs target = None \<and> fs path \<noteq> None \<and> fs' target = fs path \<and> fs' path = None"
    and "(\<forall>x\<in>set ([] # JOURNALS). p \<noteq> path @ x \<and> p \<noteq> target @ x) \<longrightarrow> fs' p = fs p"
proof -
  have path: "path \<noteq> path @ x \<and> path \<noteq> target @ x" and tgt: "target \<noteq> path @ x \<and> target \<noteq> target @ x" if "x \<in> set JOURNALS" for x
    using that journal_suffix [of x stamp] by (auto simp: target_def str_def)
  have neq: "path \<noteq> target" by (simp add: target_def str_def)
  note m = move_elsewhere [where xs = JOURNALS and moved = "[]" and path = path and target = target and allows = allows and fs = fs]
  have undone: "set xs \<subseteq> set JOURNALS \<Longrightarrow> restore_journal_files allows path target xs f q = f q"
    if "\<And>x. x \<in> set JOURNALS \<Longrightarrow> q \<noteq> path @ x \<and> q \<noteq> target @ x" for xs f q
    by (rule restore_elsewhere) (use that in blast)
  show "case r of Inl _ \<Rightarrow> fs' path = fs path
    | Inr t \<Rightarrow> t = target \<and> fs target = None \<and> fs path \<noteq> None \<and> fs' target = fs path \<and> fs' path = None"
    using assms(2) m [of path] m [of target] path tgt neq undone [OF path]
    unfolding set_aside_def Let_def target_def [symmetric]
    by (auto simp: rename_file_def split: if_splits sum.splits prod.splits)
  show "(\<forall>x\<in>set ([] # JOURNALS). p \<noteq> path @ x \<and> p \<noteq> target @ x) \<longrightarrow> fs' p = fs p"
  proof
    assume other: "\<forall>x\<in>set ([] # JOURNALS). p \<noteq> path @ x \<and> p \<noteq> target @ x"
    have p: "p \<noteq> path" "p \<noteq> target" using other by simp_all
    have q: "p \<noteq> path @ x \<and> p \<noteq> target @ x" if "x \<in> set JOURNALS" for x using other that by simp
    show "fs' p = fs p"
      using assms(2) m [of p] p q undone [OF q]
      unfolding set_aside_def Let_def target_def [symmetric]
      by (auto simp: rename_file_def split: if_splits sum.splits prod.splits)
  qed
qed

lemma save_fields: "save d = (r, d') \<Longrightarrow> dv_file_key d' = dv_file_key d \<and> dv_id d' = dv_id d"
  by (auto simp: save_def Let_def split: if_splits prod.splits)

lemma device_forget_fields:
  "dv_file_key (snd (device_forget n a d)) = None \<and> dv_id (snd (device_forget n a d)) = n"
  by (auto simp: device_forget_def Let_def split: prod.splits dest!: save_fields)

lemma finish_removal_forgets:
  assumes "finish_removal env rw a revoke fs s = (r, s')" and "\<And>s. fst (ax_join env s)"
  shows "dv_file_key (device_of s') = None \<and> dv_id (device_of s') = rm_new_id rw"
proof -
  have "\<exists>d. device_of (snd (finish_removal env rw a revoke fs s)) = snd (device_forget (rm_new_id rw) a d)"
    by (simp add: finish_removal_def Let_def case_prod_beta assms(2) announce_def) blast
  then show ?thesis using assms(1) device_forget_fields by auto
qed

lemma remove_device_cases:
  assumes "remove_device env rw confirmation fs s = (r, fs', s')"
  obtains "fs' = fs" "\<exists>e. r = Inl e" "device_of s' = device_of s"
  | "set_aside (rm_allowed rw) (rm_path rw) (rm_stamp rw) fs = (Inl IoError, fs')" "\<exists>e. r = Inl e" "device_of s' = device_of s"
  | t a revoke s1 where "set_aside (rm_allowed rw) (rm_path rw) (rm_stamp rw) fs = (Inr t, fs')"
      "finish_removal env rw a revoke fs' s1 = (r, s')"
proof -
  obtain x s1 where x: "removal_checked env confirmation s = (x, s1)" by (metis surj_pair)
  have "still (removal_checked env confirmation)" unfolding removal_checked_def by (intro still_then still_read still_lift)
  then have s1: "s1 = s" using x by (rule stillD)
  have d: "cl_device (client_lock rs c) = cl_device c" for rs c
    by (simp add: client_lock_def drop_session_def announce_def lock_def split: connectivity.split)
  obtain y fs1 where y: "set_aside (rm_allowed rw) (rm_path rw) (rm_stamp rw) fs = (y, fs1)" by (metis surj_pair)
  have io: "e = IoError" for e :: io_error by (cases e) simp
  show thesis
  proof (cases x)
    case (Inl e)
    from assms [unfolded remove_device_def x Inl s1 prod.case sum.case] show thesis by (intro that(1)) auto
  next
    case (Inr a)
    define c2 where "c2 = (if is_online (snd s) then announce (EvConnectivity False) (client_lock ''user'' (snd s)) else client_lock ''user'' (snd s))"
    define revoke where "revoke = (case session_and_server (ax_client env) s of
        (Inr (ses, u), _) \<Rightarrow> Some (ses, u, dv_id (cl_device (snd s))) | (Inl _, _) \<Rightarrow> None)"
    have c2: "cl_device c2 = device_of s" by (simp add: c2_def d announce_def)
    note run = assms [unfolded remove_device_def x Inr s1 y Let_def prod.case sum.case, folded c2_def revoke_def]
    show thesis
    proof (cases "vault_guard c2")
      case (Inl e)
      from run [unfolded Inl sum.case] show thesis using c2 by (intro that(1)) auto
    next
      case v: (Inr v)
      show thesis
      proof (cases "rm_in_memory rw")
        case (Inl e)
        from run [unfolded v Inl sum.case] show thesis using c2 by (intro that(1)) auto
      next
        case m: (Inr blank)
        show thesis
        proof (cases y)
          case (Inl e)
          from run [unfolded v m Inl prod.case sum.case] have "fs' = fs1 \<and> (\<exists>e. r = Inl e) \<and> device_of s' = device_of s"
            using c2 by (cases "rm_open rw (rm_path rw) fs1") auto
          then show thesis using y Inl io [of e] by (intro that(2)) simp_all
        next
          case (Inr t)
          obtain r1 s2 where f: "finish_removal env rw (ac_account_id a) revoke fs1 (fst s, c2\<lparr>cl_vault := snd (replace_store blank v)\<rparr>) = (r1, s2)"
            by (metis surj_pair)
          from run [unfolded v m Inr prod.case sum.case f] show thesis using y Inr f by (intro that(3)) simp_all
        qed
      qed
    qed
  qed
qed

section \<open>Claims\<close>





section \<open>Witnesses\<close>

text \<open>No server answers, and nothing else runs on the device.\<close>

definition toy_acct :: "'w servers \<Rightarrow> header_file \<Rightarrow> 'w account_env" where
  "toy_acct srv f = \<lparr>ax_client = toy_client_env\<lparr>cn_sync := toy_sync f\<rparr>, ax_pake = toy_pake, ax_servers = srv, ax_device_name = [],
     ax_join = (\<lambda>s. (True, s)), ax_late = (\<lambda>_. False), ax_status_read = True, ax_rekey_fault = None, ax_uuid_text = (\<lambda>_. []), ax_b64url_decode = (\<lambda>_. Some []),
     ax_invite_json = (\<lambda>_. Some ([], str ''a@b.c'', 9, [1]))\<rparr>"

definition no_server :: "'w servers" where
  "no_server u t c s = (Inl SyUnavailable, s)"

lemma toy_acct_simps [simp]:
  "ax_servers (toy_acct srv f) = srv" "ax_join (toy_acct srv f) s = (True, s)" "ax_sync (toy_acct srv f) = toy_sync f"
  "ax_pake (toy_acct srv f) = toy_pake"
  by (simp_all add: toy_acct_def)


lemma toy_generated: "generate_kdf (Some (replicate 16 1)) = Inr toy_kdf"
  using toy_valid_kdf
  by (simp add: generate_kdf_def with_cost_def toy_kdf_def DEFAULT_MEMORY_KIB_def DEFAULT_ITERATIONS_def DEFAULT_PARALLELISM_def Let_def)

definition toy_fresh :: fresh where
  "toy_fresh = \<lparr>fr_salt = Some (replicate 16 1), fr_secret_key = Some (replicate 16 1), fr_vault_id = 5, fr_vault_key = Some (replicate 32 4),
     fr_wrap = Some (replicate 12 0), fr_header = Some (replicate 12 0), fr_settings = Some (replicate 12 0)\<rparr>"

lemma then_fails:
  "(\<And>x s. \<exists>e s1. f x s = (Inl e, s1)) \<Longrightarrow> \<exists>e s1. io_then m f s = (Inl e, s1)"
  "(\<And>s. \<exists>e s1. m s = (Inl e, s1)) \<Longrightarrow> \<exists>e s1. io_then m f s = (Inl e, s1)"
proof -
  show "\<exists>e s1. io_then m f s = (Inl e, s1)" if "\<And>x s. \<exists>e s1. f x s = (Inl e, s1)"
    using that by (cases "m s"; cases "fst (m s)") (force simp: io_then_def)+
  show "\<exists>e s1. io_then m f s = (Inl e, s1)" if "\<And>s. \<exists>e s1. m s = (Inl e, s1)"
    using that [of s] by (auto simp: io_then_Inl)
qed

lemma unreachable_sync: "\<exists>e s1. sync_now env (logged no_server) s = Some (Inl e, s1)"
proof -
  have "\<exists>e s2. header_step env (logged no_server u) ses s1 = (Inl e, s2)" for u ses and s1 :: "'a logbook \<times> client"
    by (cases s1) (auto simp: header_step_def io_then_def or_failed_def sync_header_def send_def logged_def no_server_def)
  note fails = then_fails(2) [of "header_step env (logged no_server u) ses" for u ses, OF this]
  have "\<exists>e s1. sync_start env (logged no_server) s = (Inl e, s1)"
    unfolding sync_start_def
  proof (intro then_fails(1), goal_cases)
    case (1 _ _ x s)
    show ?case by (cases x, simp only: prod.case) (rule fails)
  qed
  then show ?thesis by (auto simp: sync_now_def)
qed



definition toy_new_client :: client where
  "toy_new_client = toy_client\<lparr>cl_vault := new_service empty_store, cl_now_ms := 7\<rparr>"

lemma toy_invite:
  "read_invite (toy_acct srv f) (trim (str ''HKINV1-'')) = Inr \<lparr>ci_server = [], ci_email = str ''a@b.c'', ci_account = 9, ci_secret = [1]\<rparr>"
  by (simp add: read_invite_def toy_acct_def INVITE_PREFIX_def INVITE_TEXT_MAX_def strip_prefix_def starts_with_def text_eval Let_def)

lemma toy_parsed_email: "parse_email (ce_keys toy_core) (str ''a@b.c'') = Inr (str ''a@b.c'')"
  by (simp add: parse_email_def toy_core_def toy_keys_def MAX_EMAIL_LEN_def text_eval Let_def)

lemma toy_key_stored: "\<exists>s'. store_secret_key (toy_acct srv f) 9 (replicate 16 1) (w, toy_new_client) = (Inr (), w, s')"
proof -
  obtain d1 where "set_secret_key toy_keys 9 (replicate 16 1) toy_device = (Inr StKeychain, d1)"
    using memory_platform.set_fine [of toy_device toy_keys 9 "replicate 16 1"]
      memory_platform.load_fine(1) [of "memory_store (\<lambda>_. None)" "OnDisk 7 (Some (to_text toy_keys (replicate 16 3)))" True toy_keys 8]
    by (auto simp: toy_device_def)
  then show ?thesis
    by (simp add: store_secret_key_def on_device_def io_then_def io_lift_def toy_new_client_def toy_client_def toy_acct_def toy_core_def)
qed


end
