(* ===== verification/Client_Files.thy ===== *)
theory Client_Files
  imports Account_Client
begin

text \<open>
  Files and restored items on a device (\<^verbatim>\<open>havenkeys-client\<close>: \<^verbatim>\<open>attachments.rs\<close>, \<^verbatim>\<open>restore.rs\<close>): saving an item with
  its files, opening a file from this device's copy or from the server, and sending the items of a backup to a
  server that may hold tombstones or newer items under their ids.

  The restore loop ends only if a conflict names an item, so it is a partial function into \<open>option\<close>; that it
  returns is a theorem.
\<close>

section \<open>Model\<close>

subsection \<open>Attachments\<close>

record new_file =
  nf_name :: rstring
  nf_bytes :: bytes

definition check_limits :: "uuid \<Rightarrow> new_file list \<Rightarrow> nat \<Rightarrow> ('w, unit) client_op" where
  "check_limits item_id added removed =
     (if list_ex (\<lambda>f. MAX_ATTACHMENT_BYTES < length (nf_bytes f)) added
      then io_lift (Inl (error_code (InvalidInput ''Files can be up to 5 MB'')))
      else io_then (read_vault (\<lambda>v. Inr (case get_item item_id v of Inr ov \<Rightarrow> length (ov_attachments ov) | Inl _ \<Rightarrow> 0))) (\<lambda>n.
        io_lift (if MAX_ATTACHMENTS_PER_ITEM < (n + length added) - removed
          then Inl (error_code (InvalidInput ''An item holds up to 20 files'')) else Inr ())))"

text \<open>Each file comes with the id and the nonce its seal takes.\<close>

fun upload_each ::
  "'w account_env \<Rightarrow> rstring \<Rightarrow> client_session \<Rightarrow> uuid \<Rightarrow> int \<Rightarrow> (new_file \<times> uuid \<times> bytes option) list \<Rightarrow> ('w, attachment_meta list) client_op" where
  "upload_each env u ses item_id now [] = io_lift (Inr [])"
| "upload_each env u ses item_id now ((f, a, rnd) # fs) =
     io_then (read_vault (seal_attachment (ax_core env) rnd a item_id (nf_name f) (nf_bytes f) now)) (\<lambda>sealed.
     io_then (or_failed (sync_put_attachment (ax_sync env) (ax_servers env u) ses (am_id (sl_meta sealed)) item_id (sl_blob sealed))) (\<lambda>_.
     io_then (on_vault (cache_attachment (am_id (sl_meta sealed)) (sl_blob sealed) now)) (\<lambda>_.
     io_then (upload_each env u ses item_id now fs) (\<lambda>metas.
     io_lift (Inr (sl_meta sealed # metas))))))"

definition upload_files :: "'w account_env \<Rightarrow> uuid \<Rightarrow> (new_file \<times> uuid \<times> bytes option) list \<Rightarrow> ('w, attachment_meta list) client_op" where
  "upload_files env item_id files =
     (if files = [] then io_lift (Inr [])
      else io_then require_online (\<lambda>_.
        io_then (session_and_server (ax_client env)) (\<lambda>(ses, u).
        with_now (\<lambda>now. upload_each env u ses item_id now files))))"

definition save_with_files ::
  "'w account_env \<Rightarrow> uuid \<Rightarrow> (new_file \<times> uuid \<times> bytes option) list \<Rightarrow> uuid list \<Rightarrow> (file_edits \<Rightarrow> service \<Rightarrow> staged_write result) \<Rightarrow>
     ('w, item_overview) client_op" where
  "save_with_files env item_id added removed stage_it =
     io_then client_require_full (\<lambda>_.
     io_then (check_limits item_id (map fst added) (length removed)) (\<lambda>_.
     io_then (upload_files env item_id added) (\<lambda>metas.
     io_then (read_vault (stage_it \<lparr>fe_added = metas, fe_removed = removed\<rparr>)) (\<lambda>staged.
     io_then (push (ax_client env) (ax_servers env) staged) (\<lambda>saved.
     io_then (io_lift (ok_or internal saved)) (\<lambda>ov s.
     (Inr ov, if sw_attachment_ids staged \<noteq> None then client_prune_attachment_cache s else s)))))))"

definition is_damaged :: "error \<Rightarrow> bool" where
  "is_damaged e \<longleftrightarrow> e = Decryption \<or> e = Corrupted \<or> e = UnsupportedVersion"

definition download_attachment :: "'w account_env \<Rightarrow> uuid \<Rightarrow> uuid \<Rightarrow> ('w, bytes) client_op" where
  "download_attachment env item_id a =
     io_then (\<lambda>(w, c). (ensure (is_online c) ''attachment_offline'', w, c)) (\<lambda>_.
     io_then (session_and_server (ax_client env)) (\<lambda>(ses, u) s.
     (case sync_get_attachment (ax_sync env) (ax_servers env u) ses a s of
        (Inr (owner, blob), s1) \<Rightarrow> (if owner \<noteq> item_id then Inl ''attachment_damaged'' else Inr blob, s1)
      | (Inl e, s1) \<Rightarrow> if e = SyRefused ''not found'' then (Inl ''attachment_damaged'', s1) else or_failed (\<lambda>s2. (Inl e, s2)) s1)))"

definition download_and_cache :: "'w account_env \<Rightarrow> uuid \<Rightarrow> uuid \<Rightarrow> attachment_meta \<Rightarrow> ('w, bytes) client_op" where
  "download_and_cache env item_id a m =
     io_then (download_attachment env item_id a) (\<lambda>blob.
     io_then (read_vault (\<lambda>v. Inr (open_attachment (ax_core env) item_id m blob v))) (\<lambda>r.
     io_then (io_lift (map_err (\<lambda>e. if is_damaged e then ''attachment_damaged'' else error_code e) r)) (\<lambda>plain.
     io_then (with_now (\<lambda>now. on_vault (cache_attachment a blob now))) (\<lambda>_.
     io_lift (Inr plain)))))"

definition client_attachment_bytes :: "'w account_env \<Rightarrow> uuid \<Rightarrow> uuid \<Rightarrow> ('w, bytes) client_op" where
  "client_attachment_bytes env item_id a =
     io_then (read_vault (find_attachment_meta item_id a)) (\<lambda>m.
     io_then (with_now (\<lambda>now. on_vault (vault_cached_attachment now a))) (\<lambda>copy.
     case copy of
       None \<Rightarrow> download_and_cache env item_id a m
     | Some blob \<Rightarrow>
         io_then (read_vault (\<lambda>v. Inr (open_attachment (ax_core env) item_id m blob v))) (\<lambda>r.
         case r of
           Inr plain \<Rightarrow> io_lift (Inr plain)
         | Inl e \<Rightarrow>
             if is_damaged e
             then io_then (on_vault (evict_attachment a)) (\<lambda>_. download_and_cache env item_id a m)
             else io_lift (Inl (error_code e)))))"

subsection \<open>Restoring a backup's items\<close>

record import_report =
  ir_imported :: nat
  ir_logins :: nat
  ir_secure_notes :: nat
  ir_cards :: nat
  ir_bank_accounts :: nat
  ir_converted_to_notes :: nat
  ir_skipped_duplicates :: nat
  ir_skipped_existing :: nat
  ir_identities :: nat
  ir_skipped_archived :: nat
  ir_failed :: nat
  ir_attachments_skipped :: nat
  ir_attachments_skipped_storage :: nat
  ir_password_history_skipped :: nat
  ir_passkeys_skipped :: nat
  ir_urls_moved_to_notes :: nat
  ir_fields_to_notes :: nat
  ir_sso_upgraded :: nat

definition restore_found_existing :: "ItemType option \<Rightarrow> import_report \<Rightarrow> import_report" where
  "restore_found_existing t r =
     (let r1 = (case t of
        Some TLogin \<Rightarrow> r\<lparr>ir_logins := ir_logins r - 1\<rparr>
      | Some TSecureNote \<Rightarrow> r\<lparr>ir_secure_notes := ir_secure_notes r - 1\<rparr>
      | Some TCard \<Rightarrow> r\<lparr>ir_cards := ir_cards r - 1\<rparr>
      | Some TIdentity \<Rightarrow> r\<lparr>ir_identities := ir_identities r - 1\<rparr>
      | Some TBankAccount \<Rightarrow> r\<lparr>ir_bank_accounts := ir_bank_accounts r - 1\<rparr>
      | None \<Rightarrow> r)
      in r1\<lparr>ir_skipped_existing := ir_skipped_existing r1 + 1, ir_imported := ir_imported r1 - 1\<rparr>)"

fun set_base :: "uuid \<Rightarrow> int \<Rightarrow> staged_write list \<Rightarrow> staged_write list" where
  "set_base u rv [] = []"
| "set_base u rv (w # ws) = (if sw_item_id w = u then w\<lparr>sw_base_revision := Some rv\<rparr> # ws else w # set_base u rv ws)"

fun take_write :: "uuid \<Rightarrow> staged_write list \<Rightarrow> staged_write option \<times> staged_write list" where
  "take_write u [] = (None, [])"
| "take_write u (w # ws) = (if sw_item_id w = u then (Some w, ws) else case take_write u ws of (x, rest) \<Rightarrow> (x, w # rest))"

text \<open>For each conflict, a tombstone seen for the first time is revived; anything else is left alone.\<close>

fun settle_conflicts ::
  "uuid list \<Rightarrow> (uuid \<times> int) list \<Rightarrow> staged_write list \<Rightarrow> uuid list \<Rightarrow> import_report \<Rightarrow> staged_write list \<times> uuid list \<times> import_report" where
  "settle_conflicts [] tombstones batch revived report = (batch, revived, report)"
| "settle_conflicts (u # us) tombstones batch revived report =
     (case find (\<lambda>(t, _). t = u \<and> t \<notin> set revived) tombstones of
        Some (_, rv) \<Rightarrow> settle_conflicts us tombstones (set_base u rv batch) (u # revived) report
      | None \<Rightarrow> (case take_write u batch of
          (skipped, rest) \<Rightarrow> settle_conflicts us tombstones rest revived (restore_found_existing (Option.bind skipped staged_item_type) report)))"

definition tombstones_for :: "client_env \<Rightarrow> ('w \<times> client) transport \<Rightarrow> client_session \<Rightarrow> uuid list \<Rightarrow> ('w, (uuid \<times> int) list) client_op" where
  "tombstones_for env tr ses ask =
     (if ask = [] then io_lift (Inr [])
      else io_then (or_failed (sync_fetch (cn_sync env) tr ses ask)) (\<lambda>f.
        io_lift (Inr (map (\<lambda>c. (rc_item_id c, rc_revision c)) (filter rc_deleted (fe_changes f))))))"

partial_function (option) restore_batch ::
  "client_env \<Rightarrow> ('w \<times> client) transport \<Rightarrow> client_session \<Rightarrow> staged_write list \<Rightarrow> uuid list \<Rightarrow> import_report \<Rightarrow>
     'w \<times> client \<Rightarrow> ((client_error + nat \<times> import_report) \<times> 'w \<times> client) option" where
  "restore_batch env tr ses batch revived report s =
     (if batch = [] then Some (Inr (0, report), s)
      else case sync_write (cn_sync env) tr ses batch s of
        (Inr (_, applied), s1) \<Rightarrow> Some (io_then (commit_all applied batch 0) (\<lambda>n. io_lift (Inr (n, report))) s1)
      | (Inl e, s1) \<Rightarrow> (case e of
          SyConflict conflicts \<Rightarrow>
            (let named = map fst conflicts in
             if \<not> set named \<subseteq> set (map sw_item_id batch)
             then Some (or_failed (\<lambda>s2. (Inl (SyProtocol ''a conflict naming an item that was not sent''), s2)) s1)
             else (case tombstones_for env tr ses (filter (\<lambda>u. u \<notin> set revived) named) s1 of
               (Inl e2, s2) \<Rightarrow> Some (Inl e2, s2)
             | (Inr tombstones, s2) \<Rightarrow> (case settle_conflicts named tombstones batch revived report of
                 (batch2, revived2, report2) \<Rightarrow> restore_batch env tr ses batch2 revived2 report2 s2)))
        | _ \<Rightarrow> Some (or_failed (\<lambda>s2. (Inl e, s2)) s1)))"

function restore_queue ::
  "client_env \<Rightarrow> ('w \<times> client) transport \<Rightarrow> client_session \<Rightarrow> staged_write list \<Rightarrow> nat \<Rightarrow> import_report \<Rightarrow>
     'w \<times> client \<Rightarrow> ((client_error + import_report) \<times> 'w \<times> client) option" where
  "restore_queue env tr ses queue committed report s =
     (if queue = [] then Some (Inr (report\<lparr>ir_imported := committed\<rparr>), s)
      else (case restore_batch env tr ses (take MAX_BATCH queue) [] report s of
        None \<Rightarrow> None
      | Some (Inl e, s1) \<Rightarrow> Some (Inl e, s1)
      | Some (Inr (n, report1), s1) \<Rightarrow> restore_queue env tr ses (drop MAX_BATCH queue) (committed + n) report1 s1))"
  by pat_completeness auto

termination restore_queue
  by (relation "measure (\<lambda>(env, tr, ses, queue, committed, report, s). length queue)") (auto simp: MAX_BATCH_def)

declare restore_queue.simps [simp del]

definition push_restore ::
  "client_env \<Rightarrow> 'w servers \<Rightarrow> staged_write list \<Rightarrow> import_report \<Rightarrow> 'w \<times> client \<Rightarrow> ((client_error + import_report) \<times> 'w \<times> client) option" where
  "push_restore env srv writes report s =
     (case client_require_full s of
        (Inl e, s1) \<Rightarrow> Some (Inl e, s1)
      | (Inr _, s1) \<Rightarrow>
          if writes = [] then Some (Inr (report\<lparr>ir_imported := 0\<rparr>), s1)
          else (case session_and_server env s1 of
            (Inl e, s2) \<Rightarrow> Some (Inl e, s2)
          | (Inr (ses, u), s2) \<Rightarrow> restore_queue env (srv u) ses writes 0 report s2))"

section \<open>Properties\<close>

subsection \<open>A restore ends\<close>

lemma set_base_ids [simp]: "map sw_item_id (set_base u rv ws) = map sw_item_id ws" "length (set_base u rv ws) = length ws"
  by (induction ws) auto

lemma take_write_ids:
  "take_write u ws = (x, rest) \<Longrightarrow> set (map sw_item_id rest) \<subseteq> set (map sw_item_id ws) \<and>
     (if u \<in> set (map sw_item_id ws) then length ws = length rest + 1 \<and> x \<noteq> None else rest = ws \<and> x = None)"
proof (induction ws arbitrary: x rest)
  case (Cons w ws)
  obtain y r where "take_write u ws = (y, r)" by fastforce
  then show ?case using Cons.prems Cons.IH [of y r] by (auto simp del: set_map split: if_splits)
qed simp

text \<open>How much is left to settle: the writes of the batch, and those of them not yet revived.\<close>

definition unsettled :: "staged_write list \<Rightarrow> uuid list \<Rightarrow> nat" where
  "unsettled batch revived = length batch + card (set (map sw_item_id batch) - set revived)"

lemma unsettled_revived:
  "unsettled (set_base u rv batch) (u # revived) \<le> unsettled batch revived"
  "u \<in> set (map sw_item_id batch) \<Longrightarrow> u \<notin> set revived \<Longrightarrow> unsettled (set_base u rv batch) (u # revived) < unsettled batch revived"
proof -
  have sub: "set (map sw_item_id batch) - set (u # revived) \<subseteq> set (map sw_item_id batch) - set revived" by auto
  show "unsettled (set_base u rv batch) (u # revived) \<le> unsettled batch revived"
    using card_mono [OF _ sub] by (simp add: unsettled_def del: set_map)
  assume "u \<in> set (map sw_item_id batch)" "u \<notin> set revived"
  then have "set (map sw_item_id batch) - set (u # revived) \<subset> set (map sw_item_id batch) - set revived" by auto
  then show "unsettled (set_base u rv batch) (u # revived) < unsettled batch revived"
    using psubset_card_mono [of "set (map sw_item_id batch) - set revived"] by (simp add: unsettled_def del: set_map)
qed

lemma unsettled_taken:
  assumes "take_write u batch = (x, rest)"
  shows "unsettled rest revived \<le> unsettled batch revived"
    and "u \<in> set (map sw_item_id batch) \<Longrightarrow> unsettled rest revived < unsettled batch revived"
proof -
  note t = take_write_ids [OF assms]
  then have "card (set (map sw_item_id rest) - set revived) \<le> card (set (map sw_item_id batch) - set revived)"
    by (intro card_mono) auto
  then show "unsettled rest revived \<le> unsettled batch revived"
    and "u \<in> set (map sw_item_id batch) \<Longrightarrow> unsettled rest revived < unsettled batch revived"
    using t by (auto simp: unsettled_def simp del: set_map split: if_splits)
qed

lemma settle_less_eq:
  "settle_conflicts us ts batch revived report = (batch2, revived2, report2) \<Longrightarrow> unsettled batch2 revived2 \<le> unsettled batch revived"
proof (induction us arbitrary: batch revived report)
  case (Cons u us)
  obtain x rest where t: "take_write u batch = (x, rest)" by fastforce
  show ?case
    using Cons.prems Cons.IH [of rest revived] Cons.IH [of "set_base u _ batch" "u # revived"] unsettled_taken(1) [OF t, of revived]
      unsettled_revived(1) [of u _ batch revived]
    by (auto simp: t split: option.splits) (meson order_trans)+
qed simp

lemma settle_less:
  assumes "settle_conflicts (u # us) ts batch revived report = (batch2, revived2, report2)" and "u \<in> set (map sw_item_id batch)"
  shows "unsettled batch2 revived2 < unsettled batch revived"
proof -
  obtain x rest where t: "take_write u batch = (x, rest)" by fastforce
  show ?thesis
  proof (cases "find (\<lambda>(t, _). t = u \<and> t \<notin> set revived) ts")
    case None
    then have "settle_conflicts us ts rest revived (restore_found_existing (Option.bind x staged_item_type) report) = (batch2, revived2, report2)"
      using assms(1) t by simp
    from settle_less_eq [OF this] unsettled_taken(2) [OF t assms(2)] show ?thesis by (rule le_less_trans)
  next
    case (Some y)
    then obtain rv where y: "y = (u, rv)" "u \<notin> set revived" by (auto simp: find_Some_iff)
    then have "settle_conflicts us ts (set_base u rv batch) (u # revived) report = (batch2, revived2, report2)"
      using assms(1) Some by simp
    from settle_less_eq [OF this] unsettled_revived(2) [OF assms(2) y(2)] show ?thesis by (rule le_less_trans)
  qed
qed

text \<open>A transport reports its own failures; a conflict is something only an answer says.\<close>

definition honest_transport :: "'s transport \<Rightarrow> bool" where
  "honest_transport tr \<longleftrightarrow> (\<forall>t c s s'. tr t c s \<noteq> (Inl (SyConflict []), s'))"

lemma conflict_names:
  assumes "honest_transport tr" and "sync_write env tr ses batch s = (Inl (SyConflict conflicts), s')"
  shows "conflicts \<noteq> []"
proof
  assume c: "conflicts = []"
  have "collect_results (change_dto_from env) batch \<noteq> Inl (SyConflict [])"
    using collect_results_Inl [of "change_dto_from env" batch] by (fastforce simp: change_dto_from_def split: option.splits if_splits)
  then obtain changes where "send tr (tok ses) (CallWrite changes) (write_answer (length batch)) s = (Inl (SyConflict []), s')"
    using assms(2) c by (auto simp: sync_write_def split: if_splits sum.splits)
  then consider "tr (tok ses) (CallWrite changes) s = (Inl (SyConflict []), s')" | r where "write_answer (length batch) r = Inl (SyConflict [])"
    by (auto simp: send_def and_then_Inl_iff split: prod.splits)
  then show False
  proof cases
    case 1
    then show False using assms(1) unfolding honest_transport_def by blast
  next
    case 2
    then show False
      by (auto simp: write_answer_def expect_ok_def error_from_def error_for_def parse_body_def result_simps and_then_Inl_iff
          split: if_splits prod.splits)
  qed
qed

subsection \<open>A restore writes over tombstones only\<close>

text \<open>The server said of an item that it is deleted, at a revision.\<close>

definition reported_deleted :: "sync_env \<Rightarrow> (call \<times> (SyncError + http_response)) list \<Rightarrow> uuid \<Rightarrow> int \<Rightarrow> bool" where
  "reported_deleted env lg u rv \<longleftrightarrow> (\<exists>ids r f c. (CallFetch ids, Inr r) \<in> set lg \<and> fetch_answer env ids r = Inr f \<and>
     c \<in> set (fe_changes f) \<and> rc_deleted c \<and> rc_item_id c = u \<and> rc_revision c = rv)"

definition base_allowed :: "sync_env \<Rightarrow> (call \<times> (SyncError + http_response)) list \<Rightarrow> uuid \<Rightarrow> int option \<Rightarrow> bool" where
  "base_allowed env lg u b \<longleftrightarrow> (case b of None \<Rightarrow> True | Some rv \<Rightarrow> reported_deleted env lg u rv)"

text \<open>Every write of the log creates its item, or replaces a tombstone that the log shows.\<close>

definition only_revives :: "sync_env \<Rightarrow> (call \<times> (SyncError + http_response)) list \<Rightarrow> bool" where
  "only_revives env lg \<longleftrightarrow>
     (\<forall>changes a d. (CallWrite changes, a) \<in> set lg \<longrightarrow> d \<in> set changes \<longrightarrow> base_allowed env lg (cd_item_id d) (cd_base_revision d))"

definition batch_allowed :: "sync_env \<Rightarrow> (call \<times> (SyncError + http_response)) list \<Rightarrow> staged_write list \<Rightarrow> bool" where
  "batch_allowed env lg ws \<longleftrightarrow> (\<forall>w\<in>set ws. base_allowed env lg (sw_item_id w) (sw_base_revision w))"

lemma base_allowed_mono: "base_allowed env lg u b \<Longrightarrow> base_allowed env (lg @ lg2) u b"
  by (auto simp: base_allowed_def reported_deleted_def split: option.splits)

lemma batch_allowed_mono: "batch_allowed env lg ws \<Longrightarrow> batch_allowed env (lg @ lg2) ws"
  by (auto simp: batch_allowed_def intro: base_allowed_mono)

lemma dto_base: "change_dto_from env w = Inr d \<Longrightarrow> cd_item_id d = sw_item_id w \<and> cd_base_revision d = sw_base_revision w"
  by (auto simp: change_dto_from_def split: option.splits if_splits)

lemma write_logged:
  assumes "sync_write env (logged srv u) ses batch s = (a, s')" and "only_revives env (log_of s)" and "batch_allowed env (log_of s) batch"
  shows "only_revives env (log_of s') \<and> batch_allowed env (log_of s') batch"
proof -
  obtain lg w c where s: "s = ((lg, w), c)" by (metis prod.collapse)
  consider "s' = s" | changes x where "collect_results (change_dto_from env) batch = Inr changes" "log_of s' = lg @ [(CallWrite changes, x)]"
    using assms(1) by (auto simp: sync_write_def send_def logged_def s split: if_splits sum.splits prod.splits)
  then show ?thesis
  proof cases
    case (2 changes x)
    have "base_allowed env (lg @ [(CallWrite changes, x)]) (cd_item_id d) (cd_base_revision d)" if "d \<in> set changes" for d
      using collect_results_set [OF 2(1) that] dto_base assms(3) by (fastforce simp: batch_allowed_def s intro: base_allowed_mono)
    then show ?thesis
      using 2(2) assms(2) batch_allowed_mono [OF assms(3)] by (auto simp: only_revives_def s intro: base_allowed_mono)
  qed (use assms in simp)
qed

lemma fetch_logged:
  assumes "sync_fetch env (logged srv u) ses ask s = (b, s')"
  shows "\<exists>lg2. log_of s' = log_of s @ lg2 \<and> (\<forall>x\<in>set lg2. fst x = CallFetch ask) \<and>
    (\<forall>f. b = Inr f \<longrightarrow> (\<exists>r. (CallFetch ask, Inr r) \<in> set lg2 \<and> fetch_answer env ask r = Inr f))"
proof (cases "ask = [] \<or> MAX_CHANGES < length ask")
  case True
  then show ?thesis using assms by (auto simp: sync_fetch_def)
next
  case False
  obtain lg w c where s: "s = ((lg, w), c)" by (metis prod.collapse)
  obtain r w' c' where r: "srv u (tok ses) (CallFetch ask) (w, c) = (r, w', c')" by (metis prod.collapse)
  have "b = and_then r (fetch_answer env ask)" "s' = ((lg @ [(CallFetch ask, r)], w'), c')"
    using assms False r by (auto simp: sync_fetch_def send_def logged_def s)
  then show ?thesis by (auto simp: s result_simps)
qed

lemma only_revives_fetch:
  assumes "only_revives env lg" and "\<forall>x\<in>set lg2. fst x = CallFetch ask"
  shows "only_revives env (lg @ lg2)"
  unfolding only_revives_def
proof (intro allI impI)
  fix changes a d
  assume "(CallWrite changes, a) \<in> set (lg @ lg2)" "d \<in> set changes"
  then have "base_allowed env lg (cd_item_id d) (cd_base_revision d)" using assms by (fastforce simp: only_revives_def)
  then show "base_allowed env (lg @ lg2) (cd_item_id d) (cd_base_revision d)" by (rule base_allowed_mono)
qed

lemma tombstones_logged:
  assumes "tombstones_for env (logged srv u) ses ask s = (a, s')" and "only_revives (cn_sync env) (log_of s)"
    and "batch_allowed (cn_sync env) (log_of s) batch"
  shows "only_revives (cn_sync env) (log_of s') \<and> batch_allowed (cn_sync env) (log_of s') batch \<and>
    (\<forall>ts. a = Inr ts \<longrightarrow> (\<forall>(t, rv)\<in>set ts. reported_deleted (cn_sync env) (log_of s') t rv))"
proof (cases "ask = []")
  case True
  then show ?thesis using assms by (auto simp: tombstones_for_def io_lift_def)
next
  case False
  obtain b s1 where b: "sync_fetch (cn_sync env) (logged srv u) ses ask s = (b, s1)" by (metis surj_pair)
  obtain lg2 where lg2: "log_of s1 = log_of s @ lg2" "\<forall>x\<in>set lg2. fst x = CallFetch ask"
      "\<forall>f. b = Inr f \<longrightarrow> (\<exists>r. (CallFetch ask, Inr r) \<in> set lg2 \<and> fetch_answer (cn_sync env) ask r = Inr f)"
    using fetch_logged [OF b] by blast
  have "fst s' = fst s1 \<and> (case b of Inl e \<Rightarrow> \<exists>e. a = Inl e
      | Inr f \<Rightarrow> a = Inr (map (\<lambda>c. (rc_item_id c, rc_revision c)) (filter rc_deleted (fe_changes f))))"
    using assms(1) b False by (cases s1; cases b) (auto simp: tombstones_for_def io_lift_def or_failed_def io_then_def)
  then show ?thesis
    using lg2 only_revives_fetch [OF assms(2) lg2(2)] batch_allowed_mono [OF assms(3), of lg2]
    by (cases b) (fastforce simp: reported_deleted_def)+
qed

lemma set_base_allowed:
  "batch_allowed env lg ws \<Longrightarrow> reported_deleted env lg u rv \<Longrightarrow> batch_allowed env lg (set_base u rv ws)"
  by (induction ws) (auto simp: batch_allowed_def base_allowed_def)

lemma take_write_subset: "take_write u ws = (x, rest) \<Longrightarrow> set rest \<subseteq> set ws"
  by (induction ws arbitrary: x rest) (fastforce split: if_splits prod.splits)+

lemma settle_allowed:
  assumes "settle_conflicts us ts batch revived report = (batch2, revived2, report2)"
    and "batch_allowed env lg batch" and "\<forall>(t, rv)\<in>set ts. reported_deleted env lg t rv"
  shows "batch_allowed env lg batch2"
  using assms(1,2)
proof (induction us arbitrary: batch revived report)
  case (Cons u us)
  obtain x rest where t: "take_write u batch = (x, rest)" by fastforce
  show ?case
  proof (cases "find (\<lambda>(t, _). t = u \<and> t \<notin> set revived) ts")
    case None
    have "batch_allowed env lg rest" using Cons.prems(2) take_write_subset [OF t] by (auto simp: batch_allowed_def)
    then show ?thesis using Cons.IH [of rest] Cons.prems(1) None t by auto
  next
    case (Some y)
    then obtain rv where y: "y = (u, rv)" "(u, rv) \<in> set ts" by (auto simp: find_Some_iff) (metis nth_mem)
    have "batch_allowed env lg (set_base u rv batch)" by (rule set_base_allowed) (use Cons.prems(2) y assms(3) in auto)
    then show ?thesis using Cons.IH [of "set_base u rv batch"] Cons.prems(1) Some y by auto
  qed
qed simp

lemma same_log_commit: "same log_of (commit_all applied ws n)"
proof (induction ws arbitrary: n)
  case (Cons w ws)
  have "same log_of (on_vault f)" for f :: "service \<Rightarrow> 'x result \<times> service"
    by (auto simp: same_def on_vault_def split: sum.split prod.split)
  then show ?case using Cons by (auto intro!: same_rules)
qed (auto intro: same_rules)

lemma restore_batch_only_revives:
  assumes h: "honest_transport (logged srv u)" and "only_revives (cn_sync env) (log_of s)" and "batch_allowed (cn_sync env) (log_of s) batch"
  shows "\<exists>x. restore_batch env (logged srv u) ses batch revived report s = Some x \<and> only_revives (cn_sync env) (log_of (snd x))"
  using assms(2,3)
proof (induction "unsettled batch revived" arbitrary: batch revived report s rule: less_induct)
  case less
  obtain a s1 where a: "sync_write (cn_sync env) (logged srv u) ses batch s = (a, s1)" by (metis surj_pair)
  note w = write_logged [OF a less.prems]
  note unfold = restore_batch.simps [of env "logged srv u" ses batch revived report s, unfolded a prod.case]
  have failed: "only_revives (cn_sync env) (log_of (snd (or_failed (\<lambda>s2. (Inl e, s2)) s1)))" for e
    using w by (cases s1) (simp add: or_failed_def)
  consider "batch = []" | ack where "batch \<noteq> []" "a = Inr ack" | conflicts where "batch \<noteq> []" "a = Inl (SyConflict conflicts)"
    | e where "batch \<noteq> []" "a = Inl e" "\<forall>conflicts. e \<noteq> SyConflict conflicts" by (cases a) auto
  then show ?case
  proof cases
    case 1
    then show ?thesis using less.prems by (subst unfold) simp
  next
    case (2 ack)
    obtain z s3 where z: "io_then (commit_all (snd ack) batch 0) (\<lambda>n. io_lift (Inr (n, report))) s1 = (z, s3)" by (metis surj_pair)
    have "log_of s3 = log_of s1" by (rule sameD [where g = log_of and m = "io_then (commit_all (snd ack) batch 0) (\<lambda>n. io_lift (Inr (n, report)))", OF _ z])
        (intro same_rules same_log_commit)
    then show ?thesis using 2 w z by (cases ack) (simp add: unfold)
  next
    case (3 conflicts)
    have "conflicts \<noteq> []" by (rule conflict_names [OF h a [unfolded 3(2)]])
    then obtain v vs where named: "map fst conflicts = v # vs" by (cases conflicts) auto
    show ?thesis
    proof (cases "set (map fst conflicts) \<subseteq> set (map sw_item_id batch)")
      case False
      then show ?thesis using 3 failed by (simp add: unfold Let_def del: set_map)
    next
      case sub: True
      obtain b s2 where b: "tombstones_for env (logged srv u) ses (filter (\<lambda>u. u \<notin> set revived) (map fst conflicts)) s1 = (b, s2)"
        by (metis surj_pair)
      note t = tombstones_logged [OF b, of batch] w
      show ?thesis
      proof (cases b)
        case (Inl e)
        then show ?thesis using 3 sub b t by (simp add: unfold Let_def del: set_map)
      next
        case (Inr ts)
        obtain batch2 revived2 report2 where st: "settle_conflicts (map fst conflicts) ts batch revived report = (batch2, revived2, report2)"
          by (metis prod.collapse)
        have "batch_allowed (cn_sync env) (log_of s2) batch2" by (rule settle_allowed [OF st]) (use t Inr in auto)
        moreover have "unsettled batch2 revived2 < unsettled batch revived"
          by (rule settle_less [OF st [unfolded named]]) (use sub named in auto)
        ultimately have "\<exists>x. restore_batch env (logged srv u) ses batch2 revived2 report2 s2 = Some x \<and> only_revives (cn_sync env) (log_of (snd x))"
          using less.hyps t by blast
        then show ?thesis using 3 sub b Inr st by (simp add: unfold Let_def del: set_map)
      qed
    qed
  next
    case (4 e)
    then show ?thesis using failed [of e] by (cases e) (simp_all add: unfold)
  qed
qed

lemma restore_queue_only_revives:
  assumes h: "honest_transport (logged srv u)" and "only_revives (cn_sync env) (log_of s)" and "\<forall>w\<in>set queue. sw_base_revision w = None"
  shows "\<exists>x. restore_queue env (logged srv u) ses queue committed report s = Some x \<and> only_revives (cn_sync env) (log_of (snd x))"
  using assms(2,3)
proof (induction "length queue" arbitrary: queue committed report s rule: less_induct)
  case less
  have "batch_allowed (cn_sync env) (log_of s) (take MAX_BATCH queue)"
    using less.prems(2) by (auto simp: batch_allowed_def base_allowed_def dest: in_set_takeD)
  then obtain r s1 where r: "restore_batch env (logged srv u) ses (take MAX_BATCH queue) [] report s = Some (r, s1)" "only_revives (cn_sync env) (log_of s1)"
    using restore_batch_only_revives [OF h less.prems(1)] by (metis prod.collapse snd_conv)
  show ?case
  proof (cases "queue = [] \<or> (\<exists>e. r = Inl e)")
    case True
    then show ?thesis using r less.prems(1) by (subst restore_queue.simps) (auto simp del: split_paired_Ex)
  next
    case False
    then obtain n rp where n: "r = Inr (n, rp)" by (cases r) auto
    have "length (drop MAX_BATCH queue) < length queue" using False by (simp add: MAX_BATCH_def)
    moreover have "\<forall>w\<in>set (drop MAX_BATCH queue). sw_base_revision w = None" using less.prems(2) by (auto dest: in_set_dropD)
    ultimately show ?thesis using less.hyps r n False by (subst restore_queue.simps) simp
  qed
qed

lemma honest_logged: "honest_transport (srv u) \<Longrightarrow> honest_transport (logged srv u)"
  by (auto simp: honest_transport_def logged_def split: prod.splits)

subsection \<open>Only a copy that opens is kept\<close>

abbreviation vault_of :: "'w \<times> client \<Rightarrow> service" where
  "vault_of s \<equiv> cl_vault (snd s)"

definition cached_copy :: "uuid \<Rightarrow> client \<Rightarrow> bytes option" where
  "cached_copy a c = map_option fst (get (st_cache (vs_store (cl_vault c))) (Id a))"

lemma open_attachment_store [simp]: "open_attachment env u m b (v\<lparr>vs_store := st\<rparr>) = open_attachment env u m b v"
  by (simp add: open_attachment_def session_of_def)

lemma failed_copy:
  assumes "e \<noteq> SyAccountDeleted"
  shows "cached_copy a (failed_state e c) = cached_copy a c"
proof -
  have "cl_vault (snd (go_offline c)) = cl_vault c"
    by (simp add: go_offline_def drop_session_def announce_def split: connectivity.split)
  moreover have "cl_vault (mark_unreachable c) = cl_vault c"
    by (simp add: mark_unreachable_def announce_def split: connectivity.split)
  moreover have "st_cache (vs_store (cl_vault (mark_frozen c))) = st_cache (vs_store (cl_vault c))"
    by (auto simp: mark_frozen_def announce_def vault_set_plan_def set_plan_def vault_guard_def Let_def split: sum.split option.split)
  ultimately show ?thesis
    using assms by (cases e) (auto simp: failed_state_def announce_def cached_copy_def split: prod.splits)
qed

lemma download_effect:
  assumes tr: "\<And>u t c. same vault_of (ax_servers env u t c)" and run: "download_attachment env item a s = (r, s')"
  shows "case r of Inr _ \<Rightarrow> vault_of s' = vault_of s | Inl e \<Rightarrow> cached_copy a (snd s') = cached_copy a (snd s) \<or> e = ''account_deleted''"
proof -
  have copy: "cached_copy a (snd s') = cached_copy a (snd s)" if "s' = s" using that by simp
  from run show ?thesis
    unfolding download_attachment_def
  proof (rule io_thenE, goal_cases)
    case (1 e)
    then show ?case using copy by (cases s) auto
  next
    case (2 x s1)
    then have s1: "s1 = s" by (cases s) auto
    from 2(2) [unfolded s1] show ?case
    proof (rule io_thenE, goal_cases)
      case (1 e)
      then show ?case using copy [OF stillD [OF still_session 1(1)]] by auto
    next
      case (2 y s2)
      then have s2: "s2 = s" using stillD [OF still_session] by blast
      obtain ses u where y: "y = (ses, u)" by fastforce
      obtain b s3 where b: "sync_get_attachment (ax_sync env) (ax_servers env u) ses a s = (b, s3)" by (metis surj_pair)
      have "same vault_of (sync_get_attachment (ax_sync env) (ax_servers env u) ses a)"
        unfolding sync_get_attachment_def by (intro same_rules tr)
      from sameD [OF this b] have v: "vault_of s3 = vault_of s" .
      obtain w3 c3 where s3: "s3 = (w3, c3)" by fastforce
      show ?case
      proof (cases b)
        case (Inr z)
        then show ?thesis using 2(2) b v by (cases z) (auto simp: y s2 cached_copy_def split: if_splits)
      next
        case (Inl e)
        then show ?thesis using 2(2) b v failed_copy [of e a c3]
          by (cases "e = SyAccountDeleted") (auto simp: y s2 s3 or_failed_def cached_copy_def split: if_splits)
      qed
    qed
  qed
qed

lemma download_and_cache_effect:
  assumes tr: "\<And>u t c. same vault_of (ax_servers env u t c)" and run: "download_and_cache env item a m s = (r, s')"
  shows "case r of
     Inr plain \<Rightarrow> \<exists>blob. cached_copy a (snd s') = Some blob \<and> open_attachment (ax_core env) item m blob (vault_of s) = Inr plain
   | Inl e \<Rightarrow> cached_copy a (snd s') = cached_copy a (snd s) \<or> e = ''account_deleted''"
proof -
  obtain b s1 where b: "download_attachment env item a s = (b, s1)" by (metis surj_pair)
  note d = download_effect [OF tr b]
  obtain w1 c1 where s1: "s1 = (w1, c1)" by fastforce
  show ?thesis
  proof (cases b)
    case (Inl e)
    then show ?thesis using run d by (auto simp: download_and_cache_def io_then_Inl [of "download_attachment env item a", OF b [unfolded Inl]])
  next
    case (Inr blob)
    then have v: "cl_vault c1 = vault_of s" using d s1 by simp
    then have copy: "cached_copy a c1 = cached_copy a (snd s)" by (simp add: cached_copy_def)
    note run1 = run [unfolded download_and_cache_def io_then_Inr [of "download_attachment env item a", OF b [unfolded Inr]] s1]
    show ?thesis
      using run1 v copy
      by (cases "open_attachment (ax_core env) item m blob (cl_vault c1)"; cases "cl_storage_error c1"; cases "session_of (cl_vault c1)")
        (auto simp: io_then_def io_lift_def read_vault_def on_vault_def vault_guard_def with_now_def cache_attachment_def on_cache_def
          put_cached_attachment_def cached_copy_def)
  qed
qed

lemma attachment_effect:
  assumes tr: "\<And>u t c. same vault_of (ax_servers env u t c)" and run: "client_attachment_bytes env item a (w, c) = (r, s')"
  shows "case r of
     Inr plain \<Rightarrow> \<exists>m blob. find_attachment_meta item a (cl_vault c) = Inr m \<and> cached_copy a (snd s') = Some blob \<and>
       open_attachment (ax_core env) item m blob (cl_vault c) = Inr plain
   | Inl e \<Rightarrow> cached_copy a (snd s') = cached_copy a c \<or> cached_copy a (snd s') = None \<or> e = ''account_deleted''"
proof (cases "cl_storage_error c = None \<and> (\<exists>m. find_attachment_meta item a (cl_vault c) = Inr m)")
  case False
  then show ?thesis using run
    by (cases "find_attachment_meta item a (cl_vault c)")
      (auto simp: client_attachment_bytes_def io_then_def read_vault_def on_vault_def vault_guard_def split: option.splits)
next
  case True
  then obtain m where ok: "cl_storage_error c = None" and m: "find_attachment_meta item a (cl_vault c) = Inr m" by blast
  then obtain x where x: "session_of (cl_vault c) = Inr x" by (auto simp: find_attachment_meta_def result_simps)
  define c1 where "c1 = c\<lparr>cl_vault := (cl_vault c)\<lparr>vs_store := fst (cached_attachment (cl_now_ms c) a (vs_store (cl_vault c)))\<rparr>\<rparr>"
  have c1: "cached_copy a c1 = cached_copy a c" "session_of (cl_vault c1) = Inr x" "cl_storage_error c1 = None"
      "open_attachment (ax_core env) item m b (cl_vault c1) = open_attachment (ax_core env) item m b (cl_vault c)" for b
    using x ok by (auto simp: c1_def cached_copy_def cached_attachment_def session_of_def split: option.splits)
  have start: "client_attachment_bytes env item a (w, c) =
     (case cached_copy a c of
       None \<Rightarrow> download_and_cache env item a m
     | Some blob \<Rightarrow>
         io_then (read_vault (\<lambda>v. Inr (open_attachment (ax_core env) item m blob v))) (\<lambda>r.
         case r of
           Inr plain \<Rightarrow> io_lift (Inr plain)
         | Inl e \<Rightarrow>
             if is_damaged e
             then io_then (on_vault (evict_attachment a)) (\<lambda>_. download_and_cache env item a m)
             else io_lift (Inl (error_code e)))) (w, c1)"
    using m x ok
    by (auto simp: client_attachment_bytes_def io_then_def read_vault_def on_vault_def vault_guard_def with_now_def
        vault_cached_attachment_def cached_attachment_def cached_copy_def c1_def split: option.split prod.split)
  show ?thesis
  proof (cases "cached_copy a c")
    case None
    then have "download_and_cache env item a m (w, c1) = (r, s')" using run start by simp
    from download_and_cache_effect [OF tr this] show ?thesis using m c1 None by (auto split: sum.splits)
  next
    case (Some blob)
    have rd: "read_vault (\<lambda>v. Inr (open_attachment (ax_core env) item m blob v)) (w, c1) =
        (Inr (open_attachment (ax_core env) item m blob (cl_vault c)), w, c1)"
      using c1 by (simp add: read_vault_def on_vault_def vault_guard_def)
    show ?thesis
    proof (cases "open_attachment (ax_core env) item m blob (cl_vault c)")
      case (Inr plain)
      then have "r = Inr plain" "s' = (w, c1)" using run start Some rd by (auto simp: io_then_def io_lift_def)
      then show ?thesis using m Some Inr c1(1) by auto
    next
      case (Inl e)
      show ?thesis
      proof (cases "is_damaged e")
        case False
        then have "r = Inl (error_code e)" "s' = (w, c1)" using run start Some rd Inl by (auto simp: io_then_def io_lift_def)
        then show ?thesis using c1(1) by auto
      next
        case True
        define c2 where "c2 = c1\<lparr>cl_vault := (cl_vault c1)\<lparr>vs_store := delete_cached_attachment a (vs_store (cl_vault c1))\<rparr>\<rparr>"
        have "on_vault (evict_attachment a) (w, c1) = (Inr (), w, c2)"
          using c1 by (simp add: on_vault_def vault_guard_def evict_attachment_def on_cache_def c2_def)
        then have "download_and_cache env item a m (w, c2) = (r, s')"
          using run start Some rd Inl True by (simp add: io_then_def)
        from download_and_cache_effect [OF tr this] show ?thesis
          using m c1 by (auto simp: c2_def cached_copy_def delete_cached_attachment_def split: sum.splits)
      qed
    qed
  qed
qed

section \<open>Claims\<close>

text \<open>
  C14. A restore ends, and writes over nothing but tombstones. The items of a backup are sent as new items. Whatever
  the server answers, in whatever order and however often it reports conflicts, the restore returns; and
  every item it sent over an existing revision is one that the server itself had reported as deleted
  at exactly that revision. An item that another device holds live is never overwritten.
\<close>

theorem restore_only_revives:
  fixes w :: 'w
  assumes "\<And>u. honest_transport (srv u)" and "\<forall>x\<in>set writes. sw_base_revision x = None"
  shows "\<exists>r lg w' c'. push_restore env (logged srv) writes report (([], w), c) = Some (r, (lg, w'), c') \<and> only_revives (cn_sync env) lg"
proof -
  have start: "only_revives (cn_sync env) []" by (simp add: only_revives_def)
  define s0 :: "'w logbook \<times> client" where "s0 = (([], w), c)"
  obtain a s1 where a: "client_require_full s0 = (a, s1)" by (metis surj_pair)
  have "s1 = s0" by (rule stillD [OF still_then [OF still_read still_lift] a [unfolded client_require_full_def]])
  note a = a [unfolded this]
  obtain b s2 where b: "session_and_server env s0 = (b, s2)" by (metis surj_pair)
  have "s2 = s0" by (rule stillD [OF still_session b])
  note b = b [unfolded this]
  have q: "\<exists>x. restore_queue env (logged srv u) ses writes 0 report s0 = Some x \<and> only_revives (cn_sync env) (log_of (snd x))" for u ses
    by (rule restore_queue_only_revives [OF honest_logged [OF assms(1)]]) (use start assms(2) in \<open>auto simp: s0_def\<close>)
  have "log_of s0 = []" by (simp add: s0_def)
  then have "\<exists>x. push_restore env (logged srv) writes report s0 = Some x \<and> only_revives (cn_sync env) (log_of (snd x))"
    using q start by (cases a; cases b) (auto simp: push_restore_def a b simp del: split_paired_Ex)
  then show ?thesis by (auto simp: s0_def)
qed

text \<open>
  C26. Only a file that opens is handed out or kept. While the other threads leave the vault alone, the bytes of an
  attachment are given only when a sealed copy opened under the metadata its own item lists, and that very copy is
  then the one this device keeps. When anything fails, the copy kept is the one that was there or none at all: bytes
  a server made up never reach the cache. (An account that turns out to be deleted takes its cache with it.)
\<close>

theorem attachment_copy_opens:
  assumes "\<And>u t c. same vault_of (ax_servers env u t c)" and "client_attachment_bytes env item a (w, c) = (r, w', c')"
  shows "case r of
     Inr plain \<Rightarrow> \<exists>m blob. find_attachment_meta item a (cl_vault c) = Inr m \<and> cached_copy a c' = Some blob \<and>
       open_attachment (ax_core env) item m blob (cl_vault c) = Inr plain
   | Inl e \<Rightarrow> cached_copy a c' = cached_copy a c \<or> cached_copy a c' = None \<or> e = ''account_deleted''"
  using attachment_effect [OF assms] by (cases r) auto

section \<open>Witnesses\<close>

definition toy_report :: import_report where
  "toy_report = \<lparr>ir_imported = 1, ir_logins = 0, ir_secure_notes = 0, ir_cards = 0, ir_bank_accounts = 0, ir_converted_to_notes = 0,
     ir_skipped_duplicates = 0, ir_skipped_existing = 0, ir_identities = 0, ir_skipped_archived = 0, ir_failed = 0, ir_attachments_skipped = 0,
     ir_attachments_skipped_storage = 0, ir_password_history_skipped = 0, ir_passkeys_skipped = 0, ir_urls_moved_to_notes = 0,
     ir_fields_to_notes = 0, ir_sso_upgraded = 0\<rparr>"

lemma restore_only_revives_witness:
  "\<exists>r lg w' c'. push_restore toy_client_env (logged (no_server :: unit servers))
     [\<lparr>sw_item_id = 3, sw_base_revision = None, sw_overview = Some [], sw_details = Some [], sw_attachment_ids = None, sw_epoch = 0, sw_plain = None\<rparr>]
     toy_report (([], ()), toy_client) = Some (r, (lg, w'), c') \<and> only_revives (cn_sync toy_client_env) lg"
  by (rule restore_only_revives) (auto simp: honest_transport_def no_server_def)

lemma attachment_copy_opens_witness:
  "\<exists>r c'. client_attachment_bytes (toy_acct (no_server :: unit servers) toy_file) 3 4 ((), toy_client) = (r, (), c') \<and>
     (case r of Inr plain \<Rightarrow> \<exists>m. find_attachment_meta 3 4 toy_vault = Inr m
      | Inl e \<Rightarrow> cached_copy 4 c' = cached_copy 4 toy_client \<or> cached_copy 4 c' = None \<or> e = ''account_deleted'')"
proof -
  obtain r w c' where run: "client_attachment_bytes (toy_acct (no_server :: unit servers) toy_file) 3 4 ((), toy_client) = (r, w, c')"
    by (metis prod.collapse)
  have "same vault_of (ax_servers (toy_acct (no_server :: unit servers) toy_file) u t c)" for u t c by (simp add: same_def no_server_def)
  from attachment_copy_opens [OF this run] run show ?thesis by (cases r) (auto simp: toy_client_fields)
qed

end
