(* ===== verification/Spec2Isabelle.thy ===== *)
theory Spec2Isabelle
  imports AutoLock Network Pairing Pairings Client_Files
begin

text \<open>
  Verification of HavenKeys, a password manager: its core (\<^verbatim>\<open>src/crates/havenkeys-core\<close>), the client that
  keeps a vault in step with its server (\<^verbatim>\<open>havenkeys-client\<close>, \<^verbatim>\<open>havenkeys-sync-client\<close>) and the server
  (\<^verbatim>\<open>havenkeys-server\<close>): its routes for a vault, its accounts, sign-in and pairings. A vault is a table of authenticated blobs on disk; a master
  password and a device's secret key together unwrap the key that opens them; while the vault is
  unlocked a session in memory holds the overview of every item, and decrypts the secrets of one
  item at a time. Web pages ask for logins through a browser bridge, and an untrusted server carries
  the blobs between devices. The theorems say that these parts agree: what is sealed is what is
  opened, what is committed is what is read, a page gets only what its address allows, a server
  can neither forge an item nor bring an old key wrap back, what one device saves another one pulls, and
  a device that was revoked gets nothing more.

  \<^bold>\<open>The theories, from the ground up.\<close>

  \<^item> \<open>Prelude\<close>: Rust strings as lists of code points, results, keyed tables, 64-bit arithmetic with
    saturation, and the locale \<open>invariant_system\<close> that the state machines interpret.
    \<open>Errors\<close>: the error enum and its codes (\<^verbatim>\<open>error.rs\<close>). \<open>Text\<close>: the string functions of the
    standard library that the code calls.
  \<^item> \<open>Blob\<close> (\<^verbatim>\<open>crypto/blob.rs\<close>): the layout, the purposes and their associated data, \<open>seal\<close> and
    \<open>open_blob\<close>. AES-GCM, SHA-256 and random bytes are fields of \<open>crypto\<close>.
  \<^item> \<open>Keys\<close> (\<^verbatim>\<open>crypto/kdf.rs\<close>, \<^verbatim>\<open>crypto/keys.rs\<close>, \<^verbatim>\<open>crypto/secret_key.rs\<close>, \<^verbatim>\<open>account.rs\<close>,
    \<^verbatim>\<open>unlock_bundle.rs\<close>): the account-bound key schedule, the text form of the secret key, the
    unlock bundle. Argon2id, HKDF, Base32 and UUID v8 are fields of \<open>key_env\<close>.
  \<^item> \<open>Totp\<close>, \<open>Cards\<close>, \<open>Identity\<close>, \<open>Custom_Fields\<close>, \<open>Banks\<close>, \<open>Generator\<close>, \<open>Tags\<close>: the
    data of an item and how input is cleaned (the files of the same names). \<open>Updates\<close> and \<open>Input\<close>:
    the keep/clear/set updates and the cleaning shared by all of them. \<open>Model\<close>: the records and
    enums of \<^verbatim>\<open>model.rs\<close> and \<^verbatim>\<open>sso.rs\<close>. \<open>Items\<close>: \<open>build_item\<close> of \<^verbatim>\<open>vault.rs\<close>, from an input
    to an overview and details.
  \<^item> \<open>Store\<close> (\<^verbatim>\<open>store.rs\<close>): the SQLite file as a record of tables, one function per method, the
    schema and its migrations.
  \<^item> \<open>Origin\<close> (\<^verbatim>\<open>origin.rs\<close>, \<^verbatim>\<open>equivalent.rs\<close>): which website a rule matches. The URL parser and
    the public suffix list are fields of \<open>web_env\<close>.
  \<^item> \<open>Session\<close>, \<open>Lifecycle\<close>, \<open>Pages\<close> (\<^verbatim>\<open>vault.rs\<close>): the unlocked session and its invariant with the
    store; creating, unlocking, locking and re-keying; what a page may ask.
  \<^item> \<open>Files\<close> (\<^verbatim>\<open>attachment.rs\<close>): names and edits of attachments. \<open>Writes\<close> (\<^verbatim>\<open>vault.rs\<close>,
    \<^verbatim>\<open>trash.rs\<close>, \<^verbatim>\<open>attachment.rs\<close>): staging a write for the server and committing it.
    \<open>Commits\<close>: the abstract vault, a map from identifiers to overviews, and what a commit does to it.
  \<^item> \<open>Sync\<close> (\<^verbatim>\<open>sync.rs\<close>): the account header and applying a server's changes.
  \<^item> \<open>Machine\<close>: the whole service as a step relation with its pending writes, and what holds in
    every run.
  \<^item> \<open>AutoLock\<close> (\<^verbatim>\<open>lock.rs\<close>): when a session locks itself.
  \<^item> \<open>Billing\<close> and \<open>Server\<close> (\<^verbatim>\<open>havenkeys-server\<close>: \<^verbatim>\<open>billing/mod.rs\<close>, \<^verbatim>\<open>routes/items.rs\<close>, \<^verbatim>\<open>routes/sync.rs\<close>,
    \<^verbatim>\<open>routes/attachments.rs\<close>, \<^verbatim>\<open>routes/vault.rs\<close>): plans, and the handlers of a vault's routes over its rows. A
    handler that runs several statements takes the database as each of them finds it.
  \<^item> \<open>Wire\<close> (\<^verbatim>\<open>havenkeys-sync-client\<close>, \<^verbatim>\<open>havenkeys-client/src/pake.rs\<close>): one function per route, the request it
    sends and what it accepts as an answer. The transport and OPAQUE are arguments.
  \<^item> \<open>Device\<close> (\<^verbatim>\<open>havenkeys-client\<close>: \<^verbatim>\<open>device.rs\<close>, \<^verbatim>\<open>key_store.rs\<close>): where a device keeps its Secret Key. The
    platform is a codatatype, any machine that answers calls.
  \<^item> \<open>Client\<close> (\<^verbatim>\<open>havenkeys-client\<close>: \<^verbatim>\<open>client.rs\<close>, \<^verbatim>\<open>sync.rs\<close>, \<^verbatim>\<open>deletion.rs\<close>): the session, syncing, writing, signing
    in, and the erasing of a deleted account. A transport may change the client while a request is in
    flight, which stands for the other threads of the device.
  \<^item> \<open>Network\<close>: a client whose transport is the server of \<open>Server\<close>.
  \<^item> \<open>Account_Client\<close> (\<^verbatim>\<open>havenkeys-client\<close>: \<^verbatim>\<open>account.rs\<close>, \<^verbatim>\<open>bundle.rs\<close>, \<^verbatim>\<open>deletion.rs\<close>, \<^verbatim>\<open>removal.rs\<close>;
    \<^verbatim>\<open>havenkeys-sync-client/src/invite.rs\<close>): activating, signing in, unlocking, changing the master password, devices,
    and leaving an account. \<open>Client_Files\<close> (\<^verbatim>\<open>attachments.rs\<close>, \<^verbatim>\<open>restore.rs\<close>): files, and the items of a backup. A
    key derivation runs while other threads may act, which its environment says; a task that is started and not
    awaited is part of the value. A transport that writes its requests down lets a theorem speak of what was asked.
  \<^item> \<open>Pairing\<close> (\<^verbatim>\<open>pairing.rs\<close>, and \<^verbatim>\<open>prepare_paired_sign_in\<close> of \<^verbatim>\<open>sync.rs\<close>): the code a new device shows, the
    sealed envelope that answers it, and the vault made from it. HPKE is a field of \<open>pair_env\<close>.
  \<^item> \<open>Interleave\<close>: a request to the server as a sequence of database steps, and requests that run
    side by side as a step relation; the locale \<open>handlers\<close> lifts what each step keeps to all runs.
  \<^item> \<open>Accounts\<close> (\<^verbatim>\<open>havenkeys-server\<close>: \<^verbatim>\<open>auth/rate_limit.rs\<close>, \<^verbatim>\<open>auth/mod.rs\<close>, \<^verbatim>\<open>email.rs\<close>, \<^verbatim>\<open>pake.rs\<close>, \<^verbatim>\<open>routes/auth.rs\<close>,
    \<^verbatim>\<open>routes/devices.rs\<close>): the tables, the limits, signing in. \<open>Credentials\<close> (\<^verbatim>\<open>routes/account.rs\<close>,
    \<^verbatim>\<open>routes/accounts.rs\<close>, \<^verbatim>\<open>routes/signup.rs\<close>, \<^verbatim>\<open>invite.rs\<close>, \<^verbatim>\<open>erase.rs\<close>, \<^verbatim>\<open>admin.rs\<close>): activation, sign-up, the
    password change, deletion, the daily sweeps. \<open>Pairings\<close> (\<^verbatim>\<open>routes/pairings.rs\<close>, \<^verbatim>\<open>routes/mod.rs\<close>): pairing on the
    server, and every request a client can make. OPAQUE, hashes and the clock are fields of \<open>srv_env\<close>.

  \<^bold>\<open>How the code is translated.\<close> A method that changes its object returns the new state next to its
  result; an early return is a branch of the result type, which is a sum of \<open>error\<close> and the value.
  \<^verbatim>\<open>HashMap\<close> and SQLite tables are lists of pairs with distinct keys, in key order where the code sorts.
  \<^verbatim>\<open>i64\<close> values are integers with the saturation or conversion written out; \<^verbatim>\<open>u64\<close> counters that wrap
  (the epoch, the generation) are 64-bit words; identifiers are 128-bit words. JSON codecs are fields of
  \<open>core_env\<close> and \<open>sync_env\<close>, and a theorem that needs them assumes only that decoding undoes encoding.
  Random bytes, fresh identifiers and the clock are arguments.

  \<^bold>\<open>Groups of theorems.\<close> \<open>Machine\<close>: in every run, in any order of operations, session and store agree,
  the header only moves forward, and a pending write is committed whole or refused. \<open>Commits\<close> and
  \<open>Sync\<close>: committing and pulling refine updates of the abstract vault; a created item reads back; the
  Trash gives back what went in and empties on the day it shows; a header is adopted only when it is
  authentic and newer; a published header signs in; a page that saves over a login changes its password
  only. \<open>Lifecycle\<close>: a created vault unlocks, a re-keyed vault unlocks with the new password, a
  ticket from before a lock is refused. \<open>Pages\<close> and \<open>Origin\<close>: a page is given only what its own address
  and its frame's parent both match. \<open>Blob\<close>, \<open>Keys\<close>: sealing and opening are inverse, a blob opens under
  one context only, the inputs of the key schedule are distinct. \<open>Store\<close>: the account is never
  replaced, a pull is one transaction, the cache stays within its cap. The data theories: round trips,
  limits and what a summary may reveal. \<open>Server\<close>: a batch is written whole or not at all, and pages lose
  no row to a concurrent write, except that an empty page may overtake one. \<open>Wire\<close>: accepted answers are
  well formed, and a device that has used OPAQUE never sends its key. \<open>Device\<close>: a key is not lost between
  the key store and the file. \<open>Client\<close>: a sync ends, keeps the vault's invariant and loses nothing to a failing
  server; a deletion is finished once begun, and only for its account. \<open>Network\<close>: after a pull the device shows what
  the server has, and a saved item appears on the other devices. \<open>Account_Client\<close>: an unlock says what happened, a
  password is changed on the server first, an interrupted activation can be finished, a removal loses no file.
  \<open>Client_Files\<close>: a restore ends and writes over tombstones only, and only a file that opens is kept. \<open>Pairing\<close>: an
  approved device gets the vault. \<open>Accounts\<close>, \<open>Credentials\<close> and \<open>Pairings\<close>, for any requests running side by side: a
  revoked device is locked out, a pairing is granted once and to its account only, a password change is atomic, an
  erased account leaves nothing, and guesses are bounded.

  \<^bold>\<open>Recursion and bounds.\<close> Every function is total: the loops of the code run over lists, and the only
  loop without a static bound (rejection sampling in the generator) consumes a list of random bytes
  and fails when it is exhausted. The client's pull loop runs as long as the server sends larger cursors:
  it is a partial function into \<open>option\<close>, and a theorem shows that it returns. No fuel is used.

  A restore loops as long as the server reports conflicts, and is treated in the same way.

  \<^bold>\<open>Not modelled.\<close> Zeroising of memory, \<^verbatim>\<open>Debug\<close> output, the SQLite and PostgreSQL engines; the ranking of
  matches by recent use, the formats of imports and exports, passkeys, the activity log and health reports
  of the core; pairing on the client, the text of a Recovery Sheet and the files of a backup; the server's mails, start-up and
  configuration; and the crates around them: the browser protocol and bridge, the mobile bindings, the
  desktop shell.
\<close>

end
